(* ===== verification/Cove_Prelude.thy ===== *)
theory Cove_Prelude
  imports Main "HOL-Library.Word"
begin

text \<open>
  The vocabulary every other theory shares: machine integers as words, byte buffers as
  lists of 8-bit words, the reads and writes the Rust code performs on fixed offsets of a
  buffer, little-endian conversion, and the result type of fallible operations.

  \<^item> \<open>u8\<close> to \<open>u128\<close> are words of that width; \<open>i32\<close>, \<open>i64\<close> and \<open>i128\<close> are the same words,
    read as two's complement through \<open>sint\<close>. Addition on them is Rust's \<open>wrapping_add\<close>.
  \<^item> \<open>usize\<close> is \<open>nat\<close>; the target has 64-bit addresses, so the checked operations of the
    source fail at \<open>2 ^ 64\<close>.
  \<^item> \<open>bytes[a..b]\<close> is \<open>slice a (b - a) bytes\<close>; \<open>dst[a..b].copy_from_slice(xs)\<close> is
    \<open>put a xs dst\<close>.
  \<^item> \<open>result\<close> is Rust's \<open>Result<T, CoveError>\<close> with a third constructor for a panic
    (an index out of bounds, a failed \<open>unwrap\<close>), so that no failure is silently dropped.
\<close>

unbundle bit_operations_syntax

section \<open>Machine integers and buffers\<close>

type_synonym u8 = "8 word"
type_synonym u16 = "16 word"
type_synonym u32 = "32 word"
type_synonym u64 = "64 word"
type_synonym u128 = "128 word"
type_synonym i32 = "32 word"
type_synonym i64 = "64 word"
type_synonym i128 = "128 word"
type_synonym usize = nat
type_synonym bytes = "u8 list"

named_theorems wire_simps \<open>reading back what a fixed-layout writer stored\<close>
named_theorems result_simps \<open>unfolding rules of the result type\<close>

abbreviation usize_bound :: nat where
  "usize_bound \<equiv> 2 ^ 64"

text \<open>The bytes of an ASCII literal of the source.\<close>

definition ascii :: "string \<Rightarrow> bytes" where
  "ascii s = map (\<lambda>c. of_nat (of_char c)) s"

section \<open>Errors (error.rs)\<close>

datatype CoveError =
    BadMagic
  | BadVersion
  | UnknownRequiredFeature u64
  | ChecksumMismatch
  | DigestMismatch
  | OffsetRange
  | ArithOverflow
  | BadSection string
  | BadSchema string
  | BadLogicalPhysicalPair
  | DictMiss
  | BadFileCode
  | BadNumCode
  | BadDomain
  | BadStats
  | BadIndex
  | BadExtension
  | BadEngineProfile
  | ExecutionCodeMap
  | HarborMountLease
  | RefInvalid
  | NotSelfContained
  | SegmentCorrupt
  | PageCorrupt
  | RedactionPolicy
  | SidecarStale
  | MapInvalid
  | MapFunctionUndeclared
  | MapIdentityConflict
  | MapSourceStale
  | MapEvidenceInvalid
  | BadCodecExtension
  | CodecUnsupported
  | BadLayoutPlan
  | RuntimeHintUnsupported
  | BadCoverage
  | BadCovi
  | CacheStale
  | BufferTooShort
  | ReservedNotZero
  | Io string
  | UnsupportedEncoding string

datatype 'a result = Ok 'a | Err CoveError | Panic

primrec and_then :: "'a result \<Rightarrow> ('a \<Rightarrow> 'b result) \<Rightarrow> 'b result" where
  "and_then (Ok x) f = f x"
| "and_then (Err e) f = Err e"
| "and_then Panic f = Panic"

primrec map_result :: "('a \<Rightarrow> 'b) \<Rightarrow> 'a result \<Rightarrow> 'b result" where
  "map_result f (Ok x) = Ok (f x)"
| "map_result f (Err e) = Err e"
| "map_result f Panic = Panic"

text \<open>\<open>iter().map(f).collect::<Result<Vec<_>, _>>()\<close>: stops at the first failure.\<close>

primrec collect_map :: "('a \<Rightarrow> 'b result) \<Rightarrow> 'a list \<Rightarrow> 'b list result" where
  "collect_map f [] = Ok []"
| "collect_map f (x # xs) = and_then (f x) (\<lambda>y. and_then (collect_map f xs) (\<lambda>ys. Ok (y # ys)))"

text \<open>\<open>for x in xs { f(x)?; }\<close>\<close>

primrec try_each :: "('a \<Rightarrow> unit result) \<Rightarrow> 'a list \<Rightarrow> unit result" where
  "try_each f [] = Ok ()"
| "try_each f (x # xs) = and_then (f x) (\<lambda>_. try_each f xs)"

definition ok_or :: "'a option \<Rightarrow> CoveError \<Rightarrow> 'a result" where
  "ok_or v e = (case v of None \<Rightarrow> Err e | Some x \<Rightarrow> Ok x)"

definition is_ok :: "'a result \<Rightarrow> bool" where
  "is_ok r = (case r of Ok _ \<Rightarrow> True | _ \<Rightarrow> False)"

lemma and_then_eq_Ok [result_simps]:
  "and_then m f = Ok y \<longleftrightarrow> (\<exists>x. m = Ok x \<and> f x = Ok y)"
  by (cases m) auto

lemma and_then_cong:
  "m = m' \<Longrightarrow> (\<And>x. m' = Ok x \<Longrightarrow> f x = g x) \<Longrightarrow> and_then m f = and_then m' g"
  by (cases m') auto

lemma and_then_assoc: "and_then (and_then m f) g = and_then m (\<lambda>x. and_then (f x) g)"
  by (cases m) auto

lemma map_result_eq_Ok [result_simps]:
  "map_result f m = Ok y \<longleftrightarrow> (\<exists>x. m = Ok x \<and> y = f x)"
  by (cases m) auto

lemma ok_or_eq_Ok [result_simps]: "ok_or v e = Ok x \<longleftrightarrow> v = Some x"
  by (cases v) (auto simp: ok_or_def)

lemma ok_or_Some [simp]: "ok_or (Some x) e = Ok x"
  by (simp add: ok_or_def)

lemma is_ok_simps [simp]: "is_ok (Ok x)" "\<not> is_ok (Err e)" "\<not> is_ok Panic"
  by (simp_all add: is_ok_def)

lemma is_ok_iff: "is_ok r \<longleftrightarrow> (\<exists>x. r = Ok x)"
  by (cases r) auto

lemma collect_map_Ok: "(\<And>x. x \<in> set xs \<Longrightarrow> f x = Ok (g x)) \<Longrightarrow> collect_map f xs = Ok (map g xs)"
  by (induction xs) auto

lemma collect_map_cong [fundef_cong]:
  "xs = ys \<Longrightarrow> (\<And>x. x \<in> set ys \<Longrightarrow> f x = g x) \<Longrightarrow> collect_map f xs = collect_map g ys"
  by (induction ys arbitrary: xs) auto

lemma collect_map_length: "collect_map f xs = Ok ys \<Longrightarrow> length ys = length xs"
  by (induction xs arbitrary: ys) (auto simp: result_simps)

lemma collect_map_nth:
  "collect_map f xs = Ok ys \<Longrightarrow> i < length xs \<Longrightarrow> f (xs ! i) = Ok (ys ! i)"
  by (induction xs arbitrary: ys i) (auto simp: result_simps nth_Cons split: nat.splits)

text \<open>
  \<open>a.checked_add(b).ok_or(ArithOverflow)?\<close> and \<open>checked_mul\<close> on \<open>usize\<close> or \<open>u64\<close>, and the guard
  \<open>if c { return Err(e) }\<close>.
\<close>

definition checked_add :: "nat \<Rightarrow> nat \<Rightarrow> nat result" where
  "checked_add a b = (if a + b < usize_bound then Ok (a + b) else Err ArithOverflow)"

definition checked_mul :: "nat \<Rightarrow> nat \<Rightarrow> nat result" where
  "checked_mul a b = (if a * b < usize_bound then Ok (a * b) else Err ArithOverflow)"

definition fail_if :: "bool \<Rightarrow> CoveError \<Rightarrow> unit result" where
  "fail_if c e = (if c then Err e else Ok ())"

lemma checked_add_eq_Ok [result_simps]: "checked_add a b = Ok c \<longleftrightarrow> a + b < usize_bound \<and> c = a + b"
  by (auto simp: checked_add_def)

lemma checked_mul_eq_Ok [result_simps]: "checked_mul a b = Ok c \<longleftrightarrow> a * b < usize_bound \<and> c = a * b"
  by (auto simp: checked_mul_def)

lemma fail_if_eq_Ok [result_simps]: "fail_if c e = Ok u \<longleftrightarrow> \<not> c"
  by (simp add: fail_if_def)

lemma checked_no_panic [simp]:
  "checked_add a b \<noteq> Panic" "checked_mul a b \<noteq> Panic" "fail_if c e \<noteq> Panic"
  by (simp_all add: checked_add_def checked_mul_def fail_if_def)

text \<open>The same on \<open>u32\<close>, where the other factor is a record length.\<close>

definition checked_add_u32 :: "u32 \<Rightarrow> u32 \<Rightarrow> u32 result" where
  "checked_add_u32 a b = (if unat a + unat b < 2 ^ 32 then Ok (a + b) else Err ArithOverflow)"

definition checked_mul_u32 :: "u32 \<Rightarrow> nat \<Rightarrow> u32 result" where
  "checked_mul_u32 a n = (if unat a * n < 2 ^ 32 then Ok (a * of_nat n) else Err ArithOverflow)"

lemma checked_u32_eq_Ok [result_simps]:
  "checked_add_u32 a b = Ok c \<longleftrightarrow> unat a + unat b < 2 ^ 32 \<and> c = a + b"
  "checked_mul_u32 a n = Ok c \<longleftrightarrow> unat a * n < 2 ^ 32 \<and> c = a * of_nat n"
  by (auto simp: checked_add_u32_def checked_mul_u32_def)

lemma checked_u32_no_panic [simp]: "checked_add_u32 a b \<noteq> Panic" "checked_mul_u32 a n \<noteq> Panic"
  by (simp_all add: checked_add_u32_def checked_mul_u32_def)

lemma and_then_no_panic: "m \<noteq> Panic \<Longrightarrow> (\<And>x. m = Ok x \<Longrightarrow> f x \<noteq> Panic) \<Longrightarrow> and_then m f \<noteq> Panic"
  by (cases m) auto

lemma and_then_eq_Panic: "and_then m f = Panic \<longleftrightarrow> m = Panic \<or> (\<exists>x. m = Ok x \<and> f x = Panic)"
  by (cases m) auto

lemma map_result_eq_Panic [simp]: "map_result f m = Panic \<longleftrightarrow> m = Panic"
  by (cases m) auto

lemma collect_map_no_panic: "(\<And>x. f x \<noteq> Panic) \<Longrightarrow> collect_map f xs \<noteq> Panic"
  by (induction xs) (auto simp: and_then_eq_Panic)

lemma try_each_eq_Ok [result_simps]: "try_each f xs = Ok u \<longleftrightarrow> list_all (\<lambda>x. f x = Ok ()) xs"
  by (induction xs) (simp_all add: and_then_eq_Ok)

lemma try_each_no_panic: "(\<And>x. x \<in> set xs \<Longrightarrow> f x \<noteq> Panic) \<Longrightarrow> try_each f xs \<noteq> Panic"
  by (induction xs) (auto simp: and_then_eq_Panic)

section \<open>Slices and fixed-offset writes\<close>

definition slice :: "nat \<Rightarrow> nat \<Rightarrow> 'a list \<Rightarrow> 'a list" where
  "slice off n xs = take n (drop off xs)"

definition put :: "nat \<Rightarrow> 'a list \<Rightarrow> 'a list \<Rightarrow> 'a list" where
  "put off xs buf =
     map (\<lambda>i. if off \<le> i \<and> i < off + length xs then xs ! (i - off) else buf ! i) [0..<length buf]"

lemma length_slice [simp]: "length (slice off n xs) = min n (length xs - off)"
  by (simp add: slice_def)

lemma slice_all [simp]: "slice 0 (length xs) xs = xs"
  by (simp add: slice_def)

lemma nth_slice: "i < n \<Longrightarrow> off + n \<le> length xs \<Longrightarrow> slice off n xs ! i = xs ! (off + i)"
  by (simp add: slice_def)

lemma slice_append_left [wire_simps]: "off + n \<le> length xs \<Longrightarrow> slice off n (xs @ ys) = slice off n xs"
  by (simp add: slice_def)

lemma slice_append_right [wire_simps]:
  "length xs \<le> off \<Longrightarrow> slice off n (xs @ ys) = slice (off - length xs) n ys"
  by (simp add: slice_def)

lemma slice_append_here [wire_simps]: "n = length xs \<Longrightarrow> slice 0 n (xs @ ys) = xs"
  by (simp add: slice_def)

lemma slice_Cons [wire_simps]: "0 < off \<Longrightarrow> slice off n (x # xs) = slice (off - 1) n xs"
  by (cases off) (simp_all add: slice_def)

lemma slice_whole [wire_simps]: "length xs \<le> n \<Longrightarrow> slice 0 n xs = xs"
  by (simp add: slice_def)

lemma slice_slice [wire_simps]:
  "a + m \<le> n \<Longrightarrow> slice a m (slice b n xs) = slice (b + a) m xs"
  by (simp add: slice_def drop_take min_def add.commute)

lemma slice_0 [simp]: "slice off 0 xs = []"
  by (simp add: slice_def)

lemma take_as_slice: "take n xs = slice 0 n xs"
  by (simp add: slice_def)

lemma slice_replicate [wire_simps]:
  "off + n \<le> m \<Longrightarrow> slice off n (replicate m x) = replicate n x"
  by (simp add: slice_def)

lemma slice_split: "slice off (n + m) xs = slice off n xs @ slice (off + n) m xs"
  by (simp add: slice_def take_add add.commute [of off n])

lemma length_put [simp]: "length (put off xs buf) = length buf"
  by (simp add: put_def)

lemma nth_put:
  "i < length buf \<Longrightarrow>
   put off xs buf ! i = (if off \<le> i \<and> i < off + length xs then xs ! (i - off) else buf ! i)"
  by (simp add: put_def)

lemma nth_put_other [wire_simps]:
  "i < length buf \<Longrightarrow> i < off \<or> off + length xs \<le> i \<Longrightarrow> put off xs buf ! i = buf ! i"
  by (auto simp: nth_put)

lemma nth_put_byte [wire_simps]: "i < length buf \<Longrightarrow> put i [x] buf ! i = x"
  by (simp add: nth_put)

lemma slice_put_same [wire_simps]:
  "off + n \<le> length buf \<Longrightarrow> n = length xs \<Longrightarrow> slice off n (put off xs buf) = xs"
  by (rule nth_equalityI) (auto simp: nth_slice nth_put)

lemma slice_put_other [wire_simps]:
  "o2 + n \<le> length buf \<Longrightarrow> o2 + n \<le> off \<or> off + length xs \<le> o2 \<Longrightarrow>
   slice o2 n (put off xs buf) = slice o2 n buf"
  by (rule nth_equalityI) (auto simp: nth_slice nth_put)

lemma put_put_same: "length xs = length ys \<Longrightarrow> put off xs (put off ys buf) = put off xs buf"
  by (rule nth_equalityI) (auto simp: nth_put)

lemma put_slice_id: "slice off (length xs) buf = xs \<Longrightarrow> put off xs buf = buf"
proof (rule nth_equalityI)
  fix i assume a: "slice off (length xs) buf = xs" "i < length (put off xs buf)"
  then have i: "i < length buf" by simp
  have "xs ! (i - off) = buf ! i" if "off \<le> i" "i < off + length xs"
  proof -
    have "slice off (length xs) buf ! (i - off) = buf ! i"
      using that i by (auto simp: slice_def)
    with a show ?thesis by simp
  qed
  with i show "put off xs buf ! i = buf ! i" by (simp add: nth_put)
qed simp

section \<open>Little-endian integers\<close>

definition le_bytes :: "nat \<Rightarrow> 'a::len word \<Rightarrow> bytes" where
  "le_bytes n w = map (\<lambda>i. ucast (drop_bit (8 * i) w)) [0..<n]"

primrec from_le :: "bytes \<Rightarrow> 'a::len word" where
  "from_le [] = 0"
| "from_le (b # bs) = (ucast b OR push_bit 8 (from_le bs))"

abbreviation u16_at :: "bytes \<Rightarrow> nat \<Rightarrow> u16" where "u16_at bs off \<equiv> from_le (slice off 2 bs)"
abbreviation u32_at :: "bytes \<Rightarrow> nat \<Rightarrow> u32" where "u32_at bs off \<equiv> from_le (slice off 4 bs)"
abbreviation u64_at :: "bytes \<Rightarrow> nat \<Rightarrow> u64" where "u64_at bs off \<equiv> from_le (slice off 8 bs)"

lemma length_le_bytes [simp]: "length (le_bytes n w) = n"
  by (simp add: le_bytes_def)

lemma bit_from_le:
  "bit (from_le bs :: 'a::len word) i \<longleftrightarrow>
     i < LENGTH('a) \<and> i div 8 < length bs \<and> bit (bs ! (i div 8)) (i mod 8)"
proof (induction bs arbitrary: i)
  case Nil
  then show ?case by simp
next
  case (Cons b bs)
  show ?case
  proof (cases "i < 8")
    case True
    then show ?thesis by (auto simp: bit_simps)
  next
    case False
    then have d: "i div 8 = Suc ((i - 8) div 8)" and m: "i mod 8 = (i - 8) mod 8"
      by (simp_all add: le_div_geq le_mod_geq)
    from False have b: "\<not> bit b i" using bit_imp_le_length [of b i] by auto
    with False show ?thesis
      by (auto simp: bit_simps Cons.IH d m)
  qed
qed

lemma nth_le_bytes: "i < n \<Longrightarrow> le_bytes n w ! i = ucast (drop_bit (8 * i) w)"
  by (simp add: le_bytes_def)

lemma from_le_le_bytes [wire_simps]:
  fixes w :: "'a::len word"
  assumes "LENGTH('a) \<le> 8 * n"
  shows "from_le (le_bytes n w) = w"
proof (rule bit_word_eqI)
  fix i assume i: "i < LENGTH('a)"
  with assms have "i div 8 < n" by linarith
  then show "bit (from_le (le_bytes n w) :: 'a word) i \<longleftrightarrow> bit w i"
    using i by (simp add: bit_from_le nth_le_bytes bit_simps)
qed

lemma le_bytes_from_le:
  assumes "length bs = n" and "8 * n \<le> LENGTH('a::len)"
  shows "le_bytes n (from_le bs :: 'a word) = bs"
proof (rule nth_equalityI)
  fix i assume "i < length (le_bytes n (from_le bs :: 'a word))"
  then have i: "i < n" by simp
  show "le_bytes n (from_le bs :: 'a word) ! i = bs ! i"
  proof (rule bit_word_eqI)
    fix j assume "j < LENGTH(8)"
    then have j: "j < 8" by simp
    with i assms have "8 * i + j < LENGTH('a)" by linarith
    moreover have "(8 * i + j) div 8 = i" "(8 * i + j) mod 8 = j" using j by simp_all
    ultimately show "bit (le_bytes n (from_le bs :: 'a word) ! i) j \<longleftrightarrow> bit (bs ! i) j"
      using i j assms by (simp add: nth_le_bytes bit_simps bit_from_le)
  qed
qed (simp add: assms)

lemma le_bytes_inject:
  fixes v w :: "'a::len word"
  assumes "LENGTH('a) \<le> 8 * n" and "le_bytes n v = le_bytes n w"
  shows "v = w"
  by (metis assms from_le_le_bytes)

lemma from_le_singleton [wire_simps]: "from_le [b] = (b :: u8)"
  by (rule bit_word_eqI) (auto simp: bit_from_le)

lemma from_le_replicate_0 [wire_simps]: "from_le (replicate n 0) = 0"
  by (induction n) simp_all

lemma unat_of_nat_less [wire_simps]:
  "r < 2 ^ LENGTH('a) \<Longrightarrow> unat (of_nat r :: 'a::len word) = r"
  by (rule of_nat_inverse) (rule refl)

lemma unat_less_power: "unat (w :: 'a::len word) < 2 ^ LENGTH('a)"
  by (rule unsigned_less)

section \<open>Fixed-width repetition: \<open>chunks_exact\<close> and counted loops\<close>

text \<open>
  The source reads a table of \<open>n\<close> records of \<open>w\<close> bytes starting at \<open>off\<close> with a loop over
  \<open>i in 0..n\<close> and the slice \<open>bytes[off + i * w .. off + i * w + w]\<close>; \<open>chunks_exact(w)\<close> over
  a region is the same with \<open>off = 0\<close> and \<open>n = len / w\<close>.
\<close>

definition chunks_at :: "nat \<Rightarrow> nat \<Rightarrow> nat \<Rightarrow> 'a list \<Rightarrow> 'a list list" where
  "chunks_at off w n xs = map (\<lambda>i. slice (off + i * w) w xs) [0..<n]"

definition chunks_exact :: "nat \<Rightarrow> 'a list \<Rightarrow> 'a list list" where
  "chunks_exact w xs = chunks_at 0 w (length xs div w) xs"

lemma length_chunks_at [simp]: "length (chunks_at off w n xs) = n"
  by (simp add: chunks_at_def)

lemma length_concat_uniform:
  "(\<And>x. x \<in> set xs \<Longrightarrow> length (f x) = w) \<Longrightarrow> length (concat (map f xs)) = length xs * w"
  by (induction xs) auto

lemma slice_concat_uniform:
  assumes "\<And>x. x \<in> set xs \<Longrightarrow> length (f x) = w" and "i < length xs"
  shows "slice (i * w) w (concat (map f xs) @ ys) = f (xs ! i)"
  using assms
proof (induction xs arbitrary: i)
  case Nil
  then show ?case by simp
next
  case (Cons x xs)
  show ?case
  proof (cases i)
    case 0
    with Cons.prems show ?thesis by (simp add: slice_def)
  next
    case (Suc j)
    have "slice (i * w) w (concat (map f (x # xs)) @ ys) = slice (j * w) w (concat (map f xs) @ ys)"
      using Cons.prems(1) Suc by (simp add: slice_def)
    also have "\<dots> = f (xs ! j)" using Cons Suc by simp
    finally show ?thesis using Suc by simp
  qed
qed

lemma chunks_at_concat:
  assumes "\<And>x. x \<in> set xs \<Longrightarrow> length (f x) = w" and "off = length pre" and "n = length xs"
  shows "chunks_at off w n (pre @ concat (map f xs) @ post) = map f xs"
proof (rule nth_equalityI)
  fix i assume "i < length (chunks_at off w n (pre @ concat (map f xs) @ post))"
  then have i: "i < length xs" using assms by simp
  have "slice (off + i * w) w (pre @ concat (map f xs) @ post) =
        slice (i * w) w (concat (map f xs) @ post)"
    using assms by (simp add: slice_def)
  also have "\<dots> = f (xs ! i)" by (rule slice_concat_uniform) (use assms i in auto)
  finally show "chunks_at off w n (pre @ concat (map f xs) @ post) ! i = map f xs ! i"
    using i assms by (simp add: chunks_at_def)
qed (simp add: assms)

lemma chunks_exact_concat:
  assumes "\<And>x. x \<in> set xs \<Longrightarrow> length (f x) = w" and "0 < w"
  shows "chunks_exact w (concat (map f xs)) = map f xs"
proof -
  have "length (concat (map f xs)) div w = length xs"
    using assms by (simp add: length_concat_uniform)
  then show ?thesis
    using chunks_at_concat [of xs f w 0 "[]" "length xs" "[]"] assms
    by (simp add: chunks_exact_def)
qed

lemma chunks_at_0 [simp]: "chunks_at off w 0 xs = []"
  by (simp add: chunks_at_def)

lemma chunks_at_Suc: "chunks_at off w (Suc n) xs = slice off w xs # chunks_at (off + w) w n xs"
proof -
  have "[0..<Suc n] = 0 # map Suc [0..<n]" by (simp add: upt_conv_Cons map_Suc_upt del: upt_Suc)
  then show ?thesis by (simp add: chunks_at_def comp_def add.assoc del: upt_Suc)
qed

lemma concat_chunks_at: "concat (chunks_at off w n xs) = slice off (n * w) xs"
  by (induction n arbitrary: off) (simp_all add: chunks_at_Suc slice_split)

lemma nth_chunks_at: "i < n \<Longrightarrow> chunks_at off w n xs ! i = slice (off + i * w) w xs"
  by (simp add: chunks_at_def)

lemma length_in_chunks_at:
  "b \<in> set (chunks_at off w n xs) \<Longrightarrow> off + n * w \<le> length xs \<Longrightarrow> length b = w"
proof -
  assume b: "b \<in> set (chunks_at off w n xs)" and l: "off + n * w \<le> length xs"
  then obtain i where i: "i < n" "b = slice (off + i * w) w xs" by (auto simp: chunks_at_def)
  then have "Suc i * w \<le> n * w" by (intro mult_le_mono1) simp
  with l i show ?thesis by simp
qed

text \<open>\<open>windows(2)\<close>: every adjacent pair satisfies the relation.\<close>

fun windows2 :: "('a \<Rightarrow> 'a \<Rightarrow> bool) \<Rightarrow> 'a list \<Rightarrow> bool" where
  "windows2 P (x # y # xs) \<longleftrightarrow> P x y \<and> windows2 P (y # xs)"
| "windows2 P _ \<longleftrightarrow> True"

lemma windows2_sorted_wrt: "transp P \<Longrightarrow> windows2 P xs \<longleftrightarrow> sorted_wrt P xs"
proof (induction xs rule: induct_list012)
  case (3 x y zs)
  then show ?case by (auto dest: transpD)
qed auto

lemma windows2_less: "windows2 (<) (xs :: 'a::order list) \<longleftrightarrow> sorted_wrt (<) xs"
  by (simp add: windows2_sorted_wrt)

lemma windows2_le: "windows2 (\<le>) (xs :: 'a::preorder list) \<longleftrightarrow> sorted_wrt (\<le>) xs"
  by (simp add: windows2_sorted_wrt)

lemma distinct_remdups_adj: "sorted (xs :: 'a::linorder list) \<Longrightarrow> distinct (remdups_adj xs)"
  by (induction xs rule: remdups_adj.induct) (auto simp: order.antisym)

lemma windows2_nth: "windows2 P xs \<longleftrightarrow> (\<forall>i. Suc i < length xs \<longrightarrow> P (xs ! i) (xs ! Suc i))"
proof (induction xs rule: induct_list012)
  case (3 x y zs)
  then show ?case by (auto simp: all_conj_distrib nth_Cons split: nat.splits)
qed auto

end
