(* ===== verification/Constants.thy ===== *)
theory Constants
  imports Cove_Prelude
begin

text \<open>
  The registries of \<open>cove-core/src/constants.rs\<close>: every fieldless enum with an explicit
  discriminant is a datatype, \<open>X_code\<close> is the cast \<open>as u8\<close> / \<open>as u16\<close> and \<open>X_from_u8\<close> /
  \<open>X_from_u16\<close> the source's match on the raw value. The locale \<open>wire_enum\<close> is the contract all
  of them share (the raw value and the variant determine each other) and is interpreted on
  each. The magic numbers, lengths and feature bits follow.
\<close>

section \<open>The contract of a numbered enum\<close>

locale wire_enum =
  fixes code :: "'e \<Rightarrow> 'w::len word"
    and decode :: "'w word \<Rightarrow> 'e option"
  assumes decode_code [wire_simps]: "decode (code k) = Some k"
    and code_of_decode: "decode v = Some k \<Longrightarrow> code k = v"
begin

lemma decode_iff: "decode v = Some k \<longleftrightarrow> code k = v"
  using decode_code code_of_decode by blast

lemma code_inject: "code a = code b \<longleftrightarrow> a = b"
  by (metis decode_code option.inject)

lemma decode_None_iff: "decode v = None \<longleftrightarrow> v \<notin> range code"
  by (metis decode_code not_Some_eq rangeE rangeI code_of_decode)

lemma decode_code_ne_None [wire_simps]: "decode (code k) \<noteq> None"
  by (simp add: decode_code)

end

section \<open>Enumerations\<close>

datatype PrimaryProfile =
    PP_Mixed
  | PP_ObjectTemporal
  | PP_TableScan
  | PP_ArchiveAcceleration
  | PP_EngineExecution
  | PP_HarborExecution
  | PP_SemanticMapping
  | PP_CodecExtension
  | PP_LayoutPlanning
  | PP_RuntimeCompatibility
  | PP_CoverageMetadata
  | PP_SecondaryIndex

primrec PrimaryProfile_code :: "PrimaryProfile \<Rightarrow> u8" where
  "PrimaryProfile_code PP_Mixed = 0"
| "PrimaryProfile_code PP_ObjectTemporal = 1"
| "PrimaryProfile_code PP_TableScan = 2"
| "PrimaryProfile_code PP_ArchiveAcceleration = 3"
| "PrimaryProfile_code PP_EngineExecution = 4"
| "PrimaryProfile_code PP_HarborExecution = 5"
| "PrimaryProfile_code PP_SemanticMapping = 6"
| "PrimaryProfile_code PP_CodecExtension = 7"
| "PrimaryProfile_code PP_LayoutPlanning = 8"
| "PrimaryProfile_code PP_RuntimeCompatibility = 9"
| "PrimaryProfile_code PP_CoverageMetadata = 10"
| "PrimaryProfile_code PP_SecondaryIndex = 11"

definition PrimaryProfile_from_u8 :: "u8 \<Rightarrow> PrimaryProfile option" where
  "PrimaryProfile_from_u8 v = map_of
     [(0, PP_Mixed),
      (1, PP_ObjectTemporal),
      (2, PP_TableScan),
      (3, PP_ArchiveAcceleration),
      (4, PP_EngineExecution),
      (5, PP_HarborExecution),
      (6, PP_SemanticMapping),
      (7, PP_CodecExtension),
      (8, PP_LayoutPlanning),
      (9, PP_RuntimeCompatibility),
      (10, PP_CoverageMetadata),
      (11, PP_SecondaryIndex)] v"

interpretation primaryProfile: wire_enum PrimaryProfile_code PrimaryProfile_from_u8
proof
  fix k show "PrimaryProfile_from_u8 (PrimaryProfile_code k) = Some k" by (cases k) (simp_all add: PrimaryProfile_from_u8_def)
next
  fix v k assume "PrimaryProfile_from_u8 v = Some k"
  then show "PrimaryProfile_code k = v" by (auto simp: PrimaryProfile_from_u8_def split: if_splits)
qed

datatype ProducerScopeKind =
    Scope_None
  | Scope_Tenant
  | Scope_Account
  | Scope_Organisation
  | Scope_Workspace
  | Scope_Catalog
  | Scope_Dataset
  | Scope_EngineSpecific

primrec ProducerScopeKind_code :: "ProducerScopeKind \<Rightarrow> u16" where
  "ProducerScopeKind_code Scope_None = 0"
| "ProducerScopeKind_code Scope_Tenant = 1"
| "ProducerScopeKind_code Scope_Account = 2"
| "ProducerScopeKind_code Scope_Organisation = 3"
| "ProducerScopeKind_code Scope_Workspace = 4"
| "ProducerScopeKind_code Scope_Catalog = 5"
| "ProducerScopeKind_code Scope_Dataset = 6"
| "ProducerScopeKind_code Scope_EngineSpecific = 255"

definition ProducerScopeKind_from_u16 :: "u16 \<Rightarrow> ProducerScopeKind option" where
  "ProducerScopeKind_from_u16 v = map_of
     [(0, Scope_None),
      (1, Scope_Tenant),
      (2, Scope_Account),
      (3, Scope_Organisation),
      (4, Scope_Workspace),
      (5, Scope_Catalog),
      (6, Scope_Dataset),
      (255, Scope_EngineSpecific)] v"

interpretation producerScopeKind: wire_enum ProducerScopeKind_code ProducerScopeKind_from_u16
proof
  fix k show "ProducerScopeKind_from_u16 (ProducerScopeKind_code k) = Some k" by (cases k) (simp_all add: ProducerScopeKind_from_u16_def)
next
  fix v k assume "ProducerScopeKind_from_u16 v = Some k"
  then show "ProducerScopeKind_code k = v" by (auto simp: ProducerScopeKind_from_u16_def split: if_splits)
qed

datatype SectionKind =
    Section_FileDictionaryIndex
  | Section_FileDictionaryPayload
  | Section_CollationRegistry
  | Section_DigestManifest
  | Section_RedactionManifest
  | Section_ArrowInteropHints
  | Section_LakehouseHints
  | Section_ExtensionRegistry
  | Section_ProfileCapabilityMatrix
  | Section_TableCatalog
  | Section_TableSegmentIndex
  | Section_TableSegmentData
  | Section_ColumnDomain
  | Section_ZoneStats
  | Section_ExactSetIndex
  | Section_BloomIndex
  | Section_InvertedMorselIndex
  | Section_LookupIndex
  | Section_AggregateSynopsis
  | Section_CompositeZoneIndex
  | Section_TopNZoneSummary
  | Section_KernelCapabilities
  | Section_ExtendedFeatureSet
  | Section_CodecExtensionRegistry
  | Section_LayoutPlan
  | Section_ScanSplitIndex
  | Section_PageClusterDirectory
  | Section_ZeroCopyBufferMap
  | Section_FastMetadataIndex
  | Section_EngineProfileRegistry
  | Section_ExecutionCodeDescriptor
  | Section_ExecutionScopeDescriptor
  | Section_CodeSpaceDescriptor
  | Section_EngineMountPolicy
  | Section_CoverageProviderRegistry
  | Section_CoverageSet
  | Section_CoveragePlanCandidate
  | Section_PredicateNormalForm
  | Section_IndexOnlyCapability
  | Section_ObjectTypeCatalog
  | Section_TemporalSegmentIndex
  | Section_TemporalSegmentData
  | Section_TemporalBloomIndex
  | Section_TrustManifest
  | Section_SectionFeatureBinding
  | Section_CoverageProofRecord
  | Section_NestedSchema
  | Section_HarborMountHints
  | Section_MapSourceCatalog
  | Section_MapFunctionRegistry
  | Section_MapIdentityRuleCatalog
  | Section_MapRowSemanticsCatalog
  | Section_MapAssertionLog
  | Section_MapIdentityEquivalenceIndex
  | Section_MapEvidenceIndex
  | Section_MapConversionReport
  | Section_MapProjectionCatalog
  | Section_VendorExtension

primrec SectionKind_code :: "SectionKind \<Rightarrow> u16" where
  "SectionKind_code Section_FileDictionaryIndex = 1"
| "SectionKind_code Section_FileDictionaryPayload = 2"
| "SectionKind_code Section_CollationRegistry = 3"
| "SectionKind_code Section_DigestManifest = 4"
| "SectionKind_code Section_RedactionManifest = 5"
| "SectionKind_code Section_ArrowInteropHints = 6"
| "SectionKind_code Section_LakehouseHints = 7"
| "SectionKind_code Section_ExtensionRegistry = 8"
| "SectionKind_code Section_ProfileCapabilityMatrix = 9"
| "SectionKind_code Section_TableCatalog = 10"
| "SectionKind_code Section_TableSegmentIndex = 11"
| "SectionKind_code Section_TableSegmentData = 12"
| "SectionKind_code Section_ColumnDomain = 13"
| "SectionKind_code Section_ZoneStats = 14"
| "SectionKind_code Section_ExactSetIndex = 15"
| "SectionKind_code Section_BloomIndex = 16"
| "SectionKind_code Section_InvertedMorselIndex = 17"
| "SectionKind_code Section_LookupIndex = 18"
| "SectionKind_code Section_AggregateSynopsis = 19"
| "SectionKind_code Section_CompositeZoneIndex = 20"
| "SectionKind_code Section_TopNZoneSummary = 21"
| "SectionKind_code Section_KernelCapabilities = 22"
| "SectionKind_code Section_ExtendedFeatureSet = 23"
| "SectionKind_code Section_CodecExtensionRegistry = 24"
| "SectionKind_code Section_LayoutPlan = 25"
| "SectionKind_code Section_ScanSplitIndex = 26"
| "SectionKind_code Section_PageClusterDirectory = 27"
| "SectionKind_code Section_ZeroCopyBufferMap = 28"
| "SectionKind_code Section_FastMetadataIndex = 29"
| "SectionKind_code Section_EngineProfileRegistry = 30"
| "SectionKind_code Section_ExecutionCodeDescriptor = 31"
| "SectionKind_code Section_ExecutionScopeDescriptor = 32"
| "SectionKind_code Section_CodeSpaceDescriptor = 33"
| "SectionKind_code Section_EngineMountPolicy = 34"
| "SectionKind_code Section_CoverageProviderRegistry = 35"
| "SectionKind_code Section_CoverageSet = 36"
| "SectionKind_code Section_CoveragePlanCandidate = 37"
| "SectionKind_code Section_PredicateNormalForm = 38"
| "SectionKind_code Section_IndexOnlyCapability = 39"
| "SectionKind_code Section_ObjectTypeCatalog = 40"
| "SectionKind_code Section_TemporalSegmentIndex = 41"
| "SectionKind_code Section_TemporalSegmentData = 42"
| "SectionKind_code Section_TemporalBloomIndex = 43"
| "SectionKind_code Section_TrustManifest = 44"
| "SectionKind_code Section_SectionFeatureBinding = 45"
| "SectionKind_code Section_CoverageProofRecord = 46"
| "SectionKind_code Section_NestedSchema = 47"
| "SectionKind_code Section_HarborMountHints = 50"
| "SectionKind_code Section_MapSourceCatalog = 60"
| "SectionKind_code Section_MapFunctionRegistry = 61"
| "SectionKind_code Section_MapIdentityRuleCatalog = 62"
| "SectionKind_code Section_MapRowSemanticsCatalog = 63"
| "SectionKind_code Section_MapAssertionLog = 64"
| "SectionKind_code Section_MapIdentityEquivalenceIndex = 65"
| "SectionKind_code Section_MapEvidenceIndex = 66"
| "SectionKind_code Section_MapConversionReport = 67"
| "SectionKind_code Section_MapProjectionCatalog = 68"
| "SectionKind_code Section_VendorExtension = 255"

definition SectionKind_from_u16 :: "u16 \<Rightarrow> SectionKind option" where
  "SectionKind_from_u16 v = map_of
     [(1, Section_FileDictionaryIndex),
      (2, Section_FileDictionaryPayload),
      (3, Section_CollationRegistry),
      (4, Section_DigestManifest),
      (5, Section_RedactionManifest),
      (6, Section_ArrowInteropHints),
      (7, Section_LakehouseHints),
      (8, Section_ExtensionRegistry),
      (9, Section_ProfileCapabilityMatrix),
      (10, Section_TableCatalog),
      (11, Section_TableSegmentIndex),
      (12, Section_TableSegmentData),
      (13, Section_ColumnDomain),
      (14, Section_ZoneStats),
      (15, Section_ExactSetIndex),
      (16, Section_BloomIndex),
      (17, Section_InvertedMorselIndex),
      (18, Section_LookupIndex),
      (19, Section_AggregateSynopsis),
      (20, Section_CompositeZoneIndex),
      (21, Section_TopNZoneSummary),
      (22, Section_KernelCapabilities),
      (23, Section_ExtendedFeatureSet),
      (24, Section_CodecExtensionRegistry),
      (25, Section_LayoutPlan),
      (26, Section_ScanSplitIndex),
      (27, Section_PageClusterDirectory),
      (28, Section_ZeroCopyBufferMap),
      (29, Section_FastMetadataIndex),
      (30, Section_EngineProfileRegistry),
      (31, Section_ExecutionCodeDescriptor),
      (32, Section_ExecutionScopeDescriptor),
      (33, Section_CodeSpaceDescriptor),
      (34, Section_EngineMountPolicy),
      (35, Section_CoverageProviderRegistry),
      (36, Section_CoverageSet),
      (37, Section_CoveragePlanCandidate),
      (38, Section_PredicateNormalForm),
      (39, Section_IndexOnlyCapability),
      (40, Section_ObjectTypeCatalog),
      (41, Section_TemporalSegmentIndex),
      (42, Section_TemporalSegmentData),
      (43, Section_TemporalBloomIndex),
      (44, Section_TrustManifest),
      (45, Section_SectionFeatureBinding),
      (46, Section_CoverageProofRecord),
      (47, Section_NestedSchema),
      (50, Section_HarborMountHints),
      (60, Section_MapSourceCatalog),
      (61, Section_MapFunctionRegistry),
      (62, Section_MapIdentityRuleCatalog),
      (63, Section_MapRowSemanticsCatalog),
      (64, Section_MapAssertionLog),
      (65, Section_MapIdentityEquivalenceIndex),
      (66, Section_MapEvidenceIndex),
      (67, Section_MapConversionReport),
      (68, Section_MapProjectionCatalog),
      (255, Section_VendorExtension)] v"

interpretation sectionKind: wire_enum SectionKind_code SectionKind_from_u16
proof
  fix k show "SectionKind_from_u16 (SectionKind_code k) = Some k" by (cases k) (simp_all add: SectionKind_from_u16_def)
next
  fix v k assume "SectionKind_from_u16 v = Some k"
  then show "SectionKind_code k = v" by (auto simp: SectionKind_from_u16_def split: if_splits)
qed

datatype CompressionCodec =
    Codec_None
  | Codec_Lz4
  | Codec_Zstd

primrec CompressionCodec_code :: "CompressionCodec \<Rightarrow> u8" where
  "CompressionCodec_code Codec_None = 0"
| "CompressionCodec_code Codec_Lz4 = 1"
| "CompressionCodec_code Codec_Zstd = 2"

definition CompressionCodec_from_u8 :: "u8 \<Rightarrow> CompressionCodec option" where
  "CompressionCodec_from_u8 v = map_of
     [(0, Codec_None),
      (1, Codec_Lz4),
      (2, Codec_Zstd)] v"

interpretation compressionCodec: wire_enum CompressionCodec_code CompressionCodec_from_u8
proof
  fix k show "CompressionCodec_from_u8 (CompressionCodec_code k) = Some k" by (cases k) (simp_all add: CompressionCodec_from_u8_def)
next
  fix v k assume "CompressionCodec_from_u8 v = Some k"
  then show "CompressionCodec_code k = v" by (auto simp: CompressionCodec_from_u8_def split: if_splits)
qed

datatype CoveLogicalType =
    LT_Null
  | LT_Bool
  | LT_Int8
  | LT_Int16
  | LT_Int32
  | LT_Int64
  | LT_UInt8
  | LT_UInt16
  | LT_UInt32
  | LT_UInt64
  | LT_Float32
  | LT_Float64
  | LT_Decimal64
  | LT_Decimal128
  | LT_DateDays
  | LT_TimestampMicros
  | LT_TimestampNanos
  | LT_Utf8
  | LT_Binary
  | LT_Uuid
  | LT_Json
  | LT_List
  | LT_Struct
  | LT_Map

primrec CoveLogicalType_code :: "CoveLogicalType \<Rightarrow> u16" where
  "CoveLogicalType_code LT_Null = 0"
| "CoveLogicalType_code LT_Bool = 1"
| "CoveLogicalType_code LT_Int8 = 2"
| "CoveLogicalType_code LT_Int16 = 3"
| "CoveLogicalType_code LT_Int32 = 4"
| "CoveLogicalType_code LT_Int64 = 5"
| "CoveLogicalType_code LT_UInt8 = 6"
| "CoveLogicalType_code LT_UInt16 = 7"
| "CoveLogicalType_code LT_UInt32 = 8"
| "CoveLogicalType_code LT_UInt64 = 9"
| "CoveLogicalType_code LT_Float32 = 10"
| "CoveLogicalType_code LT_Float64 = 11"
| "CoveLogicalType_code LT_Decimal64 = 12"
| "CoveLogicalType_code LT_Decimal128 = 13"
| "CoveLogicalType_code LT_DateDays = 14"
| "CoveLogicalType_code LT_TimestampMicros = 15"
| "CoveLogicalType_code LT_TimestampNanos = 16"
| "CoveLogicalType_code LT_Utf8 = 17"
| "CoveLogicalType_code LT_Binary = 18"
| "CoveLogicalType_code LT_Uuid = 19"
| "CoveLogicalType_code LT_Json = 20"
| "CoveLogicalType_code LT_List = 21"
| "CoveLogicalType_code LT_Struct = 22"
| "CoveLogicalType_code LT_Map = 23"

definition CoveLogicalType_from_u16 :: "u16 \<Rightarrow> CoveLogicalType option" where
  "CoveLogicalType_from_u16 v = map_of
     [(0, LT_Null),
      (1, LT_Bool),
      (2, LT_Int8),
      (3, LT_Int16),
      (4, LT_Int32),
      (5, LT_Int64),
      (6, LT_UInt8),
      (7, LT_UInt16),
      (8, LT_UInt32),
      (9, LT_UInt64),
      (10, LT_Float32),
      (11, LT_Float64),
      (12, LT_Decimal64),
      (13, LT_Decimal128),
      (14, LT_DateDays),
      (15, LT_TimestampMicros),
      (16, LT_TimestampNanos),
      (17, LT_Utf8),
      (18, LT_Binary),
      (19, LT_Uuid),
      (20, LT_Json),
      (21, LT_List),
      (22, LT_Struct),
      (23, LT_Map)] v"

interpretation coveLogicalType: wire_enum CoveLogicalType_code CoveLogicalType_from_u16
proof
  fix k show "CoveLogicalType_from_u16 (CoveLogicalType_code k) = Some k" by (cases k) (simp_all add: CoveLogicalType_from_u16_def)
next
  fix v k assume "CoveLogicalType_from_u16 v = Some k"
  then show "CoveLogicalType_code k = v" by (auto simp: CoveLogicalType_from_u16_def split: if_splits)
qed

datatype CovePhysicalKind =
    PK_FileCode
  | PK_NumCode
  | PK_Boolean
  | PK_FixedBytes
  | PK_VarBytes
  | PK_List
  | PK_Struct
  | PK_Map

primrec CovePhysicalKind_code :: "CovePhysicalKind \<Rightarrow> u8" where
  "CovePhysicalKind_code PK_FileCode = 0"
| "CovePhysicalKind_code PK_NumCode = 1"
| "CovePhysicalKind_code PK_Boolean = 2"
| "CovePhysicalKind_code PK_FixedBytes = 3"
| "CovePhysicalKind_code PK_VarBytes = 4"
| "CovePhysicalKind_code PK_List = 5"
| "CovePhysicalKind_code PK_Struct = 6"
| "CovePhysicalKind_code PK_Map = 7"

definition CovePhysicalKind_from_u8 :: "u8 \<Rightarrow> CovePhysicalKind option" where
  "CovePhysicalKind_from_u8 v = map_of
     [(0, PK_FileCode),
      (1, PK_NumCode),
      (2, PK_Boolean),
      (3, PK_FixedBytes),
      (4, PK_VarBytes),
      (5, PK_List),
      (6, PK_Struct),
      (7, PK_Map)] v"

interpretation covePhysicalKind: wire_enum CovePhysicalKind_code CovePhysicalKind_from_u8
proof
  fix k show "CovePhysicalKind_from_u8 (CovePhysicalKind_code k) = Some k" by (cases k) (simp_all add: CovePhysicalKind_from_u8_def)
next
  fix v k assume "CovePhysicalKind_from_u8 v = Some k"
  then show "CovePhysicalKind_code k = v" by (auto simp: CovePhysicalKind_from_u8_def split: if_splits)
qed

datatype ValueTag =
    VT_Null
  | VT_BoolFalse
  | VT_BoolTrue
  | VT_Int64
  | VT_UInt64
  | VT_Float32Bits
  | VT_Float64Bits
  | VT_Decimal64
  | VT_Decimal128
  | VT_DateDays
  | VT_TimestampMicros
  | VT_TimestampNanos
  | VT_Utf8
  | VT_Binary
  | VT_Uuid
  | VT_Json
  | VT_List
  | VT_Struct
  | VT_Map

primrec ValueTag_code :: "ValueTag \<Rightarrow> u16" where
  "ValueTag_code VT_Null = 0"
| "ValueTag_code VT_BoolFalse = 1"
| "ValueTag_code VT_BoolTrue = 2"
| "ValueTag_code VT_Int64 = 3"
| "ValueTag_code VT_UInt64 = 4"
| "ValueTag_code VT_Float32Bits = 5"
| "ValueTag_code VT_Float64Bits = 6"
| "ValueTag_code VT_Decimal64 = 7"
| "ValueTag_code VT_Decimal128 = 8"
| "ValueTag_code VT_DateDays = 9"
| "ValueTag_code VT_TimestampMicros = 10"
| "ValueTag_code VT_TimestampNanos = 11"
| "ValueTag_code VT_Utf8 = 12"
| "ValueTag_code VT_Binary = 13"
| "ValueTag_code VT_Uuid = 14"
| "ValueTag_code VT_Json = 15"
| "ValueTag_code VT_List = 16"
| "ValueTag_code VT_Struct = 17"
| "ValueTag_code VT_Map = 18"

definition ValueTag_from_u16 :: "u16 \<Rightarrow> ValueTag option" where
  "ValueTag_from_u16 v = map_of
     [(0, VT_Null),
      (1, VT_BoolFalse),
      (2, VT_BoolTrue),
      (3, VT_Int64),
      (4, VT_UInt64),
      (5, VT_Float32Bits),
      (6, VT_Float64Bits),
      (7, VT_Decimal64),
      (8, VT_Decimal128),
      (9, VT_DateDays),
      (10, VT_TimestampMicros),
      (11, VT_TimestampNanos),
      (12, VT_Utf8),
      (13, VT_Binary),
      (14, VT_Uuid),
      (15, VT_Json),
      (16, VT_List),
      (17, VT_Struct),
      (18, VT_Map)] v"

interpretation valueTag: wire_enum ValueTag_code ValueTag_from_u16
proof
  fix k show "ValueTag_from_u16 (ValueTag_code k) = Some k" by (cases k) (simp_all add: ValueTag_from_u16_def)
next
  fix v k assume "ValueTag_from_u16 v = Some k"
  then show "ValueTag_code k = v" by (auto simp: ValueTag_from_u16_def split: if_splits)
qed

datatype StorageClass =
    Storage_Inline
  | Storage_Payload
  | Storage_Redacted

primrec StorageClass_code :: "StorageClass \<Rightarrow> u8" where
  "StorageClass_code Storage_Inline = 0"
| "StorageClass_code Storage_Payload = 1"
| "StorageClass_code Storage_Redacted = 2"

definition StorageClass_from_u8 :: "u8 \<Rightarrow> StorageClass option" where
  "StorageClass_from_u8 v = map_of
     [(0, Storage_Inline),
      (1, Storage_Payload),
      (2, Storage_Redacted)] v"

interpretation storageClass: wire_enum StorageClass_code StorageClass_from_u8
proof
  fix k show "StorageClass_from_u8 (StorageClass_code k) = Some k" by (cases k) (simp_all add: StorageClass_from_u8_def)
next
  fix v k assume "StorageClass_from_u8 v = Some k"
  then show "StorageClass_code k = v" by (auto simp: StorageClass_from_u8_def split: if_splits)
qed

datatype CoveEncodingKind =
    EK_Canonical
  | EK_Validity
  | EK_Constant
  | EK_FileCode
  | EK_NumCode
  | EK_LocalCodebook
  | EK_Rle
  | EK_RunEnd
  | EK_BitPacked
  | EK_Delta
  | EK_FrameOfReference
  | EK_PatchedBase
  | EK_Sparse
  | EK_Sequence
  | EK_PlainFixed
  | EK_PlainVarint
  | EK_VarBytes
  | EK_Lz4Block
  | EK_ZstdBlock
  | EK_RegisteredEncoding

primrec CoveEncodingKind_code :: "CoveEncodingKind \<Rightarrow> u16" where
  "CoveEncodingKind_code EK_Canonical = 0"
| "CoveEncodingKind_code EK_Validity = 1"
| "CoveEncodingKind_code EK_Constant = 2"
| "CoveEncodingKind_code EK_FileCode = 3"
| "CoveEncodingKind_code EK_NumCode = 4"
| "CoveEncodingKind_code EK_LocalCodebook = 5"
| "CoveEncodingKind_code EK_Rle = 6"
| "CoveEncodingKind_code EK_RunEnd = 7"
| "CoveEncodingKind_code EK_BitPacked = 8"
| "CoveEncodingKind_code EK_Delta = 9"
| "CoveEncodingKind_code EK_FrameOfReference = 10"
| "CoveEncodingKind_code EK_PatchedBase = 11"
| "CoveEncodingKind_code EK_Sparse = 12"
| "CoveEncodingKind_code EK_Sequence = 13"
| "CoveEncodingKind_code EK_PlainFixed = 14"
| "CoveEncodingKind_code EK_PlainVarint = 15"
| "CoveEncodingKind_code EK_VarBytes = 16"
| "CoveEncodingKind_code EK_Lz4Block = 17"
| "CoveEncodingKind_code EK_ZstdBlock = 18"
| "CoveEncodingKind_code EK_RegisteredEncoding = 19"

definition CoveEncodingKind_from_u16 :: "u16 \<Rightarrow> CoveEncodingKind option" where
  "CoveEncodingKind_from_u16 v = map_of
     [(0, EK_Canonical),
      (1, EK_Validity),
      (2, EK_Constant),
      (3, EK_FileCode),
      (4, EK_NumCode),
      (5, EK_LocalCodebook),
      (6, EK_Rle),
      (7, EK_RunEnd),
      (8, EK_BitPacked),
      (9, EK_Delta),
      (10, EK_FrameOfReference),
      (11, EK_PatchedBase),
      (12, EK_Sparse),
      (13, EK_Sequence),
      (14, EK_PlainFixed),
      (15, EK_PlainVarint),
      (16, EK_VarBytes),
      (17, EK_Lz4Block),
      (18, EK_ZstdBlock),
      (19, EK_RegisteredEncoding)] v"

interpretation coveEncodingKind: wire_enum CoveEncodingKind_code CoveEncodingKind_from_u16
proof
  fix k show "CoveEncodingKind_from_u16 (CoveEncodingKind_code k) = Some k" by (cases k) (simp_all add: CoveEncodingKind_from_u16_def)
next
  fix v k assume "CoveEncodingKind_from_u16 v = Some k"
  then show "CoveEncodingKind_code k = v" by (auto simp: CoveEncodingKind_from_u16_def split: if_splits)
qed

datatype DigestAlgorithm =
    Digest_None
  | Digest_Sha256
  | Digest_Blake3

primrec DigestAlgorithm_code :: "DigestAlgorithm \<Rightarrow> u16" where
  "DigestAlgorithm_code Digest_None = 0"
| "DigestAlgorithm_code Digest_Sha256 = 1"
| "DigestAlgorithm_code Digest_Blake3 = 2"

definition DigestAlgorithm_from_u16 :: "u16 \<Rightarrow> DigestAlgorithm option" where
  "DigestAlgorithm_from_u16 v = map_of
     [(0, Digest_None),
      (1, Digest_Sha256),
      (2, Digest_Blake3)] v"

interpretation digestAlgorithm: wire_enum DigestAlgorithm_code DigestAlgorithm_from_u16
proof
  fix k show "DigestAlgorithm_from_u16 (DigestAlgorithm_code k) = Some k" by (cases k) (simp_all add: DigestAlgorithm_from_u16_def)
next
  fix v k assume "DigestAlgorithm_from_u16 v = Some k"
  then show "DigestAlgorithm_code k = v" by (auto simp: DigestAlgorithm_from_u16_def split: if_splits)
qed

datatype RecordKind =
    Record_Delta
  | Record_Snapshot
  | Record_ReservedLegacyMaterializedDelta
  | Record_Baseline
  | Record_Tombstone

primrec RecordKind_code :: "RecordKind \<Rightarrow> u8" where
  "RecordKind_code Record_Delta = 0"
| "RecordKind_code Record_Snapshot = 1"
| "RecordKind_code Record_ReservedLegacyMaterializedDelta = 2"
| "RecordKind_code Record_Baseline = 3"
| "RecordKind_code Record_Tombstone = 4"

definition RecordKind_from_u8 :: "u8 \<Rightarrow> RecordKind option" where
  "RecordKind_from_u8 v = map_of
     [(0, Record_Delta),
      (1, Record_Snapshot),
      (2, Record_ReservedLegacyMaterializedDelta),
      (3, Record_Baseline),
      (4, Record_Tombstone)] v"

interpretation recordKind: wire_enum RecordKind_code RecordKind_from_u8
proof
  fix k show "RecordKind_from_u8 (RecordKind_code k) = Some k" by (cases k) (simp_all add: RecordKind_from_u8_def)
next
  fix v k assume "RecordKind_from_u8 v = Some k"
  then show "RecordKind_code k = v" by (auto simp: RecordKind_from_u8_def split: if_splits)
qed

section \<open>Magic numbers, lengths and feature bits\<close>

definition MAGIC_COVE :: bytes where
  "MAGIC_COVE = [0x43, 0x4f, 0x56, 0x32]"

definition MAGIC_COVE_FOOTER :: bytes where
  "MAGIC_COVE_FOOTER = [0x43, 0x56, 0x32, 0x46]"

definition HEADER_LEN_V1 :: u16 where
  "HEADER_LEN_V1 = 160"

definition VERSION_MAJOR_V1 :: u16 where
  "VERSION_MAJOR_V1 = 2"

definition ENDIANNESS_LITTLE :: u8 where
  "ENDIANNESS_LITTLE = 1"

definition FOOTER_VERSION_V1 :: u16 where
  "FOOTER_VERSION_V1 = 2"

definition FOOTER_HEADER_LEN :: usize where
  "FOOTER_HEADER_LEN = 44"

definition SECTION_ENTRY_LEN :: u16 where
  "SECTION_ENTRY_LEN = 76"

definition SECTION_SPEC_LEN :: usize where
  "SECTION_SPEC_LEN = 36"

definition POSTSCRIPT_LEN :: usize where
  "POSTSCRIPT_LEN = 64"

definition POSTSCRIPT_VERSION_V1 :: u16 where
  "POSTSCRIPT_VERSION_V1 = 2"

definition METADATA_LEN_MAX :: u32 where
  "METADATA_LEN_MAX = 1048576"

text \<open>
  The low-word feature bits a reader of this version knows, one per \<open>FEATURE_\<close> constant in the
  order of the mask's definition.
\<close>

definition KNOWN_FEATURE_BITS :: "u64 list" where
  "KNOWN_FEATURE_BITS =
     [0x1,
      0x2,
      0x4,
      0x8,
      0x10,
      0x20,
      0x40,
      0x80,
      0x100,
      0x200,
      0x400,
      0x800,
      0x1000,
      0x2000,
      0x4000,
      0x8000,
      0x10000,
      0x20000,
      0x40000,
      0x80000,
      0x100000,
      0x200000,
      0x400000,
      0x800000,
      0x1000000,
      0x2000000,
      0x4000000,
      0x8000000,
      0x10000000,
      0x20000000,
      0x40000000,
      0x80000000,
      0x100000000,
      0x200000000,
      0x400000000,
      0x800000000,
      0x1000000000,
      0x2000000000,
      0x4000000000,
      0x8000000000,
      0x10000000000]"

definition KNOWN_FEATURE_BITS_MASK :: u64 where
  "KNOWN_FEATURE_BITS_MASK = foldl (OR) 0 KNOWN_FEATURE_BITS"

lemma KNOWN_FEATURE_BITS_MASK_eq: "KNOWN_FEATURE_BITS_MASK = mask 41"
  by (simp add: KNOWN_FEATURE_BITS_MASK_def KNOWN_FEATURE_BITS_def mask_eq_exp_minus_1)

end
