(* ===== verification/Wire.thy ===== *)
theory Wire
  imports Cove_Prelude
begin

text \<open>
  The primitive wire helpers (\<open>cove-core/src/wire.rs\<close>): LEB128 variable-length integers,
  ZigZag mapping of signed to unsigned integers, bounds-checked reads, strict booleans and
  UUIDs. The lemmas show that LEB128 and ZigZag decode what they encode, that the LEB128
  decoder never accepts more than ten bytes, and that a checked read never leaves the buffer.
\<close>

section \<open>LEB128\<close>

text \<open>
  The encoder's loop ends because every iteration shifts the value right by seven bits.
\<close>

function append_u64_leb128 :: "bytes \<Rightarrow> u64 \<Rightarrow> bytes" where
  "append_u64_leb128 out value =
     (let byte = ucast (value AND 0x7f) :: u8;
          value' = drop_bit 7 value
      in if value' \<noteq> 0 then append_u64_leb128 (out @ [byte OR 0x80]) value'
         else out @ [byte])"
  by pat_completeness auto
termination
proof (relation "measure (\<lambda>(out, value). unat value)", simp_all)
  fix v :: u64
  assume nz: "drop_bit 7 v \<noteq> 0"
  have "v \<noteq> 0" using nz by auto
  then have "0 < unat v" by (simp add: unat_gt_0)
  then show "unat (drop_bit 7 v) < unat v"
    by (simp add: drop_bit_eq_div unat_div)
qed

declare append_u64_leb128.simps [simp del]

definition encode_u64_leb128 :: "u64 \<Rightarrow> bytes" where
  "encode_u64_leb128 value = append_u64_leb128 [] value"

text \<open>
  The decoder's loop over the bytes, with the loop variables \<open>value\<close>, \<open>shift\<close> and the
  index \<open>i\<close> as accumulators. \<open>checked_add(7)\<close> on the \<open>u32\<close> shift cannot overflow while the
  shift is below 64; it is written out all the same.
\<close>

fun decode_u64_leb128_loop :: "u64 \<Rightarrow> nat \<Rightarrow> nat \<Rightarrow> bytes \<Rightarrow> (u64 \<times> usize) result" where
  "decode_u64_leb128_loop value shift i [] = Err BufferTooShort"
| "decode_u64_leb128_loop value shift i (byte # rest) =
     (let low = ucast (byte AND 0x7f) :: u64 in
      if shift \<ge> 64 then Err ArithOverflow
      else let remaining_bits = 64 - shift in
      if remaining_bits < 7 \<and> low \<ge> push_bit remaining_bits 1 then Err ArithOverflow
      else let value' = value OR push_bit shift low in
      if byte AND 0x80 = 0 then Ok (value', i + 1)
      else if shift + 7 \<ge> 2 ^ 32 then Err ArithOverflow
      else if shift + 7 \<ge> 64 then Err ArithOverflow
      else decode_u64_leb128_loop value' (shift + 7) (i + 1) rest)"

definition decode_u64_leb128 :: "bytes \<Rightarrow> (u64 \<times> usize) result" where
  "decode_u64_leb128 bs = decode_u64_leb128_loop 0 0 0 bs"

section \<open>ZigZag\<close>

text \<open>On \<open>i64\<close>, \<open><<\<close> is \<open>push_bit\<close> and \<open>>>\<close> is the arithmetic \<open>signed_drop_bit\<close>.\<close>

definition zigzag_encode_i64 :: "i64 \<Rightarrow> u64" where
  "zigzag_encode_i64 value = (push_bit 1 value XOR signed_drop_bit 63 value)"

definition zigzag_decode_i64 :: "u64 \<Rightarrow> i64" where
  "zigzag_decode_i64 value = (drop_bit 1 value XOR - (value AND 1))"

section \<open>Checked reads\<close>

definition read_range_checked :: "bytes \<Rightarrow> usize \<Rightarrow> usize \<Rightarrow> bytes result" where
  "read_range_checked bs offset len =
     (if offset + len \<ge> usize_bound then Err ArithOverflow
      else if offset + len > length bs then Err OffsetRange
      else Ok (slice offset len bs))"

definition read_u8_checked :: "bytes \<Rightarrow> usize \<Rightarrow> u8 result" where
  "read_u8_checked bs offset = map_result (\<lambda>s. s ! 0) (read_range_checked bs offset 1)"

text \<open>Decimal rendering of an unsigned number, as \<open>format!("{n}")\<close> prints it.\<close>

fun show_nat :: "nat \<Rightarrow> string" where
  "show_nat n = (if n < 10 then [char_of (48 + n)] else show_nat (n div 10) @ [char_of (48 + n mod 10)])"

declare show_nat.simps [simp del]

definition parse_bool_strict :: "u8 \<Rightarrow> bool result" where
  "parse_bool_strict byte =
     (if byte = 0 then Ok False
      else if byte = 1 then Ok True
      else Err (BadSection (''invalid boolean byte: '' @ show_nat (unat byte))))"

definition read_uuid :: "bytes \<Rightarrow> usize \<Rightarrow> bytes result" where
  "read_uuid bs offset = and_then (read_range_checked bs offset 16) (\<lambda>raw. Ok raw)"

definition write_uuid :: "bytes \<Rightarrow> bytes \<Rightarrow> bytes" where
  "write_uuid dst uuid = dst @ uuid"

section \<open>LEB128 round trip\<close>

abbreviation low7 :: "u64 \<Rightarrow> u8" where
  "low7 v \<equiv> ucast (v AND 0x7f)"

lemma append_u64_leb128_acc: "append_u64_leb128 out v = out @ append_u64_leb128 [] v"
proof (induction "unat v" arbitrary: out v rule: less_induct)
  case less
  show ?case
  proof (cases "drop_bit 7 v = 0")
    case True
    then show ?thesis by (simp add: append_u64_leb128.simps [of _ v])
  next
    case False
    then have "0 < unat v" by (auto simp: unat_gt_0)
    then have lt: "unat (drop_bit 7 v) < unat v"
      by (simp add: drop_bit_eq_div unat_div)
    have "append_u64_leb128 out v = append_u64_leb128 (out @ [low7 v OR 0x80]) (drop_bit 7 v)"
      using False by (simp add: append_u64_leb128.simps [of out v])
    also have "\<dots> = out @ append_u64_leb128 [low7 v OR 0x80] (drop_bit 7 v)"
      using less [OF lt, of "out @ [low7 v OR 0x80]"] less [OF lt, of "[low7 v OR 0x80]"] by simp
    also have "\<dots> = out @ append_u64_leb128 [] v"
      using False by (simp add: append_u64_leb128.simps [of "[]" v])
    finally show ?thesis .
  qed
qed

lemma encode_u64_leb128_unfold:
  "encode_u64_leb128 v =
     (if drop_bit 7 v = 0 then [low7 v]
      else (low7 v OR 0x80) # encode_u64_leb128 (drop_bit 7 v))"
  using append_u64_leb128_acc [of "[low7 v OR 0x80]" "drop_bit 7 v"]
  by (simp add: encode_u64_leb128_def append_u64_leb128.simps [of "[]" v])

lemma append_u64_leb128_eq: "append_u64_leb128 out v = out @ encode_u64_leb128 v"
  by (simp add: encode_u64_leb128_def append_u64_leb128_acc [of out])

lemma word_7f: "(0x7f :: 'a::len word) = mask 7"
  by (simp add: mask_eq_exp_minus_1)

lemma bit_word_80: "bit (0x80 :: 'a::len word) n \<longleftrightarrow> n = 7 \<and> 7 < LENGTH('a)"
proof -
  have "(0x80 :: 'a word) = 2 ^ 7" by simp
  then show ?thesis by (simp only: bit_exp_iff) (auto simp: possible_bit_def)
qed

lemma low7_bits:
  "ucast (low7 v AND 0x7f) = v AND (0x7f :: u64)"
  "ucast ((low7 v OR 0x80) AND 0x7f) = v AND (0x7f :: u64)"
  "low7 v AND 0x80 = 0"
  "(low7 v OR 0x80) AND 0x80 \<noteq> 0"
proof -
  show "ucast (low7 v AND 0x7f) = v AND (0x7f :: u64)"
    unfolding word_7f by (rule bit_word_eqI) (auto simp: bit_simps)
  show "ucast ((low7 v OR 0x80) AND 0x7f) = v AND (0x7f :: u64)"
    unfolding word_7f by (rule bit_word_eqI) (simp only: bit_simps bit_word_80, auto)
  show "low7 v AND 0x80 = 0"
    unfolding word_7f by (rule bit_word_eqI) (simp only: bit_simps bit_word_80, auto)
  have "bit ((low7 v OR 0x80) AND 0x80) 7"
    by (simp add: bit_simps bit_word_80)
  then show "(low7 v OR 0x80) AND 0x80 \<noteq> 0" by auto
qed

lemma or_push_split:
  fixes acc v :: u64
  shows "(acc OR push_bit s (v AND 0x7f)) OR push_bit (s + 7) (drop_bit 7 v) = acc OR push_bit s v"
proof -
  show ?thesis unfolding word_7f
  proof (rule bit_word_eqI)
    fix n
    have "7 + (n - (s + 7)) = n - s" if "s + 7 \<le> n" using that by simp
    moreover have "n - s < 7" if "\<not> s + 7 \<le> n" using that by simp
    ultimately show "bit ((acc OR push_bit s (v AND mask 7)) OR push_bit (s + 7) (drop_bit 7 v)) n
        \<longleftrightarrow> bit (acc OR push_bit s v) n"
      by (cases "s + 7 \<le> n") (auto simp: bit_simps)
  qed
qed

lemma unat_push_bit_1: "k < 64 \<Longrightarrow> unat (push_bit k 1 :: u64) = 2 ^ k"
proof -
  assume "k < 64"
  then have "(2::nat) ^ k < 2 ^ LENGTH(64)" by (intro power_strict_increasing) auto
  then have "unat (of_nat (2 ^ k) :: u64) = 2 ^ k" by (rule unat_of_nat_less)
  then show ?thesis by simp
qed

lemma decode_loop_encode:
  assumes "unat v < 2 ^ (64 - s)" and "s < 64"
  shows "decode_u64_leb128_loop acc s i (encode_u64_leb128 v @ rest) =
           Ok (acc OR push_bit s v, i + length (encode_u64_leb128 v))"
  using assms
proof (induction "unat v" arbitrary: acc s i v rule: less_induct)
  case less
  let ?low = "v AND (0x7f :: u64)"
  have low_le: "unat ?low \<le> unat v" by (rule word_le_nat_alt [THEN iffD1, OF word_and_le2])
  have guard: "\<not> (64 - s < 7 \<and> ?low \<ge> push_bit (64 - s) 1)" if "0 < s"
  proof -
    have "unat (push_bit (64 - s) 1 :: u64) = 2 ^ (64 - s)"
      using that less.prems by (intro unat_push_bit_1) simp
    with low_le less.prems show ?thesis by (simp add: word_le_nat_alt)
  qed
  show ?case
  proof (cases "drop_bit 7 v = 0")
    case True
    have "acc OR push_bit s ?low = acc OR push_bit s v"
      using or_push_split [of acc s v] True by simp
    then show ?thesis
      using True less.prems guard
      by (auto simp: encode_u64_leb128_unfold [of v] low7_bits Let_def)
  next
    case False
    then have "0 < unat v" by (auto simp: unat_gt_0)
    then have lt: "unat (drop_bit 7 v) < unat v"
      by (simp add: drop_bit_eq_div unat_div)
    have s7: "s + 7 < 64"
    proof (rule ccontr)
      assume "\<not> s + 7 < 64"
      then have "(2::nat) ^ (64 - s) \<le> 2 ^ 7" by (intro power_increasing) auto
      with less.prems have "unat v < 2 ^ 7" by simp
      then have "unat (drop_bit 7 v) = 0" by (simp add: drop_bit_eq_div unat_div)
      with False show False by (simp only: unat_eq_zero)
    qed
    have "(2::nat) ^ (64 - s) = 2 ^ (64 - (s + 7)) * 2 ^ 7"
      using s7 by (subst power_add [symmetric]) (rule arg_cong [where f = "power 2"], simp)
    with less.prems have "unat v < 2 ^ (64 - (s + 7)) * 2 ^ 7" by simp
    then have b: "unat (drop_bit 7 v) < 2 ^ (64 - (s + 7))"
      by (simp add: drop_bit_eq_div unat_div less_mult_imp_div_less)
    show ?thesis
      using False s7 less.hyps [OF lt b s7] guard
      by (auto simp: encode_u64_leb128_unfold [of v] low7_bits Let_def or_push_split
          simp del: push_bit_and)
  qed
qed

lemma decode_encode_u64_leb128 [wire_simps]:
  "decode_u64_leb128 (encode_u64_leb128 v @ rest) = Ok (v, length (encode_u64_leb128 v))"
  using decode_loop_encode [of v 0 0 0 rest] unsigned_less [of v, where ?'a = nat]
  by (simp add: decode_u64_leb128_def)

lemma encode_u64_leb128_nonempty: "encode_u64_leb128 v \<noteq> []"
  by (simp add: encode_u64_leb128_unfold [of v])

lemma decode_loop_consumed:
  "decode_u64_leb128_loop acc s i bs = Ok (v, n) \<Longrightarrow>
     i < n \<and> n \<le> i + length bs \<and> (s < 64 \<longrightarrow> 7 * (n - i) \<le> 70 - s)"
proof (induction acc s i bs arbitrary: v n rule: decode_u64_leb128_loop.induct)
  case (2 acc s i b rest)
  then show ?case
    by (fastforce simp: Let_def split: if_splits)
qed simp

lemma decode_u64_leb128_consumed:
  "decode_u64_leb128 bs = Ok (v, n) \<Longrightarrow> 0 < n \<and> n \<le> length bs \<and> n \<le> 10"
  using decode_loop_consumed [of 0 0 0 bs v n] by (simp add: decode_u64_leb128_def)

lemma decode_loop_no_panic: "decode_u64_leb128_loop acc s i bs \<noteq> Panic"
  by (induction acc s i bs rule: decode_u64_leb128_loop.induct) (simp_all add: Let_def)

section \<open>ZigZag round trip\<close>

lemma signed_drop_bit_63: "signed_drop_bit 63 (v :: i64) = (if bit v 63 then - 1 else 0)"
proof (rule bit_word_eqI)
  fix n assume "n < LENGTH(64)"
  then show "bit (signed_drop_bit 63 v) n \<longleftrightarrow> bit (if bit v 63 then - 1 else 0 :: i64) n"
    by (cases n) (auto simp: bit_simps min_def)
qed

lemma push_1_low_bit: "(push_bit 1 v XOR x) AND 1 = x AND (1 :: u64)"
  by (rule bit_word_eqI) (auto simp: bit_simps simp del: push_bit_of_1 push_bit_Suc)

lemma zigzag_decode_encode [wire_simps]: "zigzag_decode_i64 (zigzag_encode_i64 v) = v"
proof -
  define x where "x = signed_drop_bit 63 v"
  define p where "p = push_bit 1 v"
  have x: "x = (if bit v 63 then - 1 else 0)"
    by (simp add: x_def signed_drop_bit_63)
  have p: "bit p k \<longleftrightarrow> 1 \<le> k \<and> k < 64 \<and> bit v (k - 1)" for k
    unfolding p_def by (subst bit_push_bit_iff) (auto dest: bit_imp_le_length)
  have "drop_bit 1 (p XOR x) XOR - (x AND 1) = v"
  proof (rule bit_word_eqI)
    fix n assume "n < LENGTH(64)"
    then consider "n < 63" | "n = 63" by fastforce
    then show "bit (drop_bit 1 (p XOR x) XOR - (x AND 1)) n \<longleftrightarrow> bit v n"
      using x by cases (auto simp: bit_simps p)
  qed
  then show ?thesis
    unfolding zigzag_decode_i64_def zigzag_encode_i64_def x_def [symmetric]
    by (simp only: push_1_low_bit p_def)
qed

section \<open>Checked reads stay in bounds\<close>

lemma read_range_checked_Ok:
  "read_range_checked bs off n = Ok s \<longleftrightarrow>
     off + n < usize_bound \<and> off + n \<le> length bs \<and> s = slice off n bs"
  by (auto simp: read_range_checked_def)

lemma read_range_checked_no_panic: "read_range_checked bs off n \<noteq> Panic"
  by (simp add: read_range_checked_def)

section \<open>Properties\<close>

lemma encode_u64_leb128_length: "0 < length (encode_u64_leb128 v) \<and> length (encode_u64_leb128 v) \<le> 10"
  using decode_u64_leb128_consumed [of "encode_u64_leb128 v" v "length (encode_u64_leb128 v)"]
    decode_encode_u64_leb128 [of v "[]"] by simp

text \<open>the LEB128 and ZigZag helpers are inverse to each other: whatever follows it in the
  buffer, an encoded \<open>u64\<close> is decoded to itself, the decoder reports exactly the bytes the
  encoder wrote, at most ten of them, and ZigZag maps every \<open>i64\<close> back.\<close>

theorem leb128_zigzag_roundtrip:
  "decode_u64_leb128 (encode_u64_leb128 (zigzag_encode_i64 v) @ rest) =
     Ok (zigzag_encode_i64 v, length (encode_u64_leb128 (zigzag_encode_i64 v))) \<and>
   decode_u64_leb128 (encode_u64_leb128 u @ rest) = Ok (u, length (encode_u64_leb128 u)) \<and>
   length (encode_u64_leb128 u) \<le> 10 \<and>
   zigzag_decode_i64 (zigzag_encode_i64 v) = v"
  by (simp add: decode_encode_u64_leb128 zigzag_decode_encode encode_u64_leb128_length)

text \<open>C24: the decoder is safe on arbitrary bytes: it never panics, and when it succeeds it
  consumed between one and ten bytes, all of them inside the buffer, the last of which has a
  clear continuation bit.\<close>

theorem leb128_decode_safe:
  assumes "decode_u64_leb128 bs = r"
  shows "r \<noteq> Panic \<and> (\<forall>v n. r = Ok (v, n) \<longrightarrow> 0 < n \<and> n \<le> length bs \<and> n \<le> 10 \<and> bs ! (n - 1) AND 0x80 = 0)"
proof -
  have "decode_u64_leb128_loop acc s i cs = Ok (v, n) \<Longrightarrow> i < n \<and> cs ! (n - i - 1) AND 0x80 = 0"
    for acc s i cs v n
  proof (induction acc s i cs arbitrary: v n rule: decode_u64_leb128_loop.induct)
    case (2 acc s i b rest)
    let ?acc = "acc OR push_bit s (ucast (b AND 0x7f))"
    from "2.prems" consider "b AND 0x80 = 0" "n = i + 1"
      | "b AND 0x80 \<noteq> 0" "decode_u64_leb128_loop ?acc (s + 7) (i + 1) rest = Ok (v, n)"
      and "\<not> s \<ge> 64" and "\<not> s + 7 \<ge> 64"
      by (auto simp: Let_def simp del: push_bit_and split: if_splits)
    then show ?case
    proof cases
      case 2
      from "2.prems" 2 have "i + 1 < n \<and> rest ! (n - (i + 1) - 1) AND 0x80 = 0"
        by (intro "2.IH" [OF refl _ refl _ refl, of v n]) (auto simp: Let_def split: if_splits)
      moreover from this have "n - i - 1 = Suc (n - (i + 1) - 1)" by linarith
      ultimately show ?thesis by simp
    qed simp
  qed simp
  from this [of 0 0 0 bs] show ?thesis
    using assms decode_u64_leb128_consumed [of bs] decode_loop_no_panic [of 0 0 0 bs]
    by (auto simp: decode_u64_leb128_def)
qed

lemma leb128_decode_safe_witness:
  "decode_u64_leb128 [0xE5, 0x8E, 0x26] \<noteq> Panic"
  using leb128_decode_safe [of "[0xE5, 0x8E, 0x26]" "decode_u64_leb128 [0xE5, 0x8E, 0x26]"] by blast

end
