(* ===== verification/Errors.thy ===== *)
theory Errors
  imports Wire
begin

text \<open>
  The error vocabulary (\<open>cove-core/src/error.rs\<close>): the stable specification code of an error,
  the inventory of codes, and the rendering of \<open>Display\<close>. The datatype itself is in the
  prelude. An \<open>Io\<close> error carries the rendered text of the \<open>std::io::Error\<close>.
\<close>

definition ALL_SPEC_CODES :: "string list" where
  "ALL_SPEC_CODES =
     [''COVE_E_BAD_MAGIC'',
      ''COVE_E_BAD_VERSION'',
      ''COVE_E_UNKNOWN_REQUIRED_FEATURE'',
      ''COVE_E_CHECKSUM_MISMATCH'',
      ''COVE_E_DIGEST_MISMATCH'',
      ''COVE_E_OFFSET_RANGE'',
      ''COVE_E_ARITH_OVERFLOW'',
      ''COVE_E_BAD_SECTION'',
      ''COVE_E_BAD_SCHEMA'',
      ''COVE_E_BAD_LOGICAL_PHYSICAL_PAIR'',
      ''COVE_E_DICT_MISS'',
      ''COVE_E_BAD_FILECODE'',
      ''COVE_E_BAD_NUMCODE'',
      ''COVE_E_BAD_DOMAIN'',
      ''COVE_E_BAD_STATS'',
      ''COVE_E_BAD_INDEX'',
      ''COVE_E_BAD_EXTENSION'',
      ''COVE_E_BAD_ENGINE_PROFILE'',
      ''COVE_E_EXECUTION_CODE_MAP'',
      ''COVE_E_HARBOR_MOUNT_LEASE'',
      ''COVE_E_REF_INVALID'',
      ''COVE_E_NOT_SELF_CONTAINED'',
      ''COVE_E_SEGMENT_CORRUPT'',
      ''COVE_E_PAGE_CORRUPT'',
      ''COVE_E_REDACTION_POLICY'',
      ''COVE_E_SIDECAR_STALE'',
      ''COVE_E_MAP_INVALID'',
      ''COVE_E_MAP_FUNCTION_UNDECLARED'',
      ''COVE_E_MAP_IDENTITY_CONFLICT'',
      ''COVE_E_MAP_SOURCE_STALE'',
      ''COVE_E_MAP_EVIDENCE_INVALID'',
      ''COVE_E_BAD_CODEC_EXTENSION'',
      ''COVE_E_CODEC_UNSUPPORTED'',
      ''COVE_E_BAD_LAYOUT_PLAN'',
      ''COVE_E_RUNTIME_HINT_UNSUPPORTED'',
      ''COVE_E_BAD_COVERAGE'',
      ''COVE_E_BAD_COVI'',
      ''COVE_E_CACHE_STALE'']"

primrec spec_code :: "CoveError \<Rightarrow> string option" where
  "spec_code BadMagic = Some ''COVE_E_BAD_MAGIC''"
| "spec_code BadVersion = Some ''COVE_E_BAD_VERSION''"
| "spec_code (UnknownRequiredFeature x) = Some ''COVE_E_UNKNOWN_REQUIRED_FEATURE''"
| "spec_code ChecksumMismatch = Some ''COVE_E_CHECKSUM_MISMATCH''"
| "spec_code DigestMismatch = Some ''COVE_E_DIGEST_MISMATCH''"
| "spec_code OffsetRange = Some ''COVE_E_OFFSET_RANGE''"
| "spec_code ArithOverflow = Some ''COVE_E_ARITH_OVERFLOW''"
| "spec_code (BadSection x) = Some ''COVE_E_BAD_SECTION''"
| "spec_code (BadSchema x) = Some ''COVE_E_BAD_SCHEMA''"
| "spec_code BadLogicalPhysicalPair = Some ''COVE_E_BAD_LOGICAL_PHYSICAL_PAIR''"
| "spec_code DictMiss = Some ''COVE_E_DICT_MISS''"
| "spec_code BadFileCode = Some ''COVE_E_BAD_FILECODE''"
| "spec_code BadNumCode = Some ''COVE_E_BAD_NUMCODE''"
| "spec_code BadDomain = Some ''COVE_E_BAD_DOMAIN''"
| "spec_code BadStats = Some ''COVE_E_BAD_STATS''"
| "spec_code BadIndex = Some ''COVE_E_BAD_INDEX''"
| "spec_code BadExtension = Some ''COVE_E_BAD_EXTENSION''"
| "spec_code BadEngineProfile = Some ''COVE_E_BAD_ENGINE_PROFILE''"
| "spec_code ExecutionCodeMap = Some ''COVE_E_EXECUTION_CODE_MAP''"
| "spec_code HarborMountLease = Some ''COVE_E_HARBOR_MOUNT_LEASE''"
| "spec_code RefInvalid = Some ''COVE_E_REF_INVALID''"
| "spec_code NotSelfContained = Some ''COVE_E_NOT_SELF_CONTAINED''"
| "spec_code SegmentCorrupt = Some ''COVE_E_SEGMENT_CORRUPT''"
| "spec_code PageCorrupt = Some ''COVE_E_PAGE_CORRUPT''"
| "spec_code RedactionPolicy = Some ''COVE_E_REDACTION_POLICY''"
| "spec_code SidecarStale = Some ''COVE_E_SIDECAR_STALE''"
| "spec_code MapInvalid = Some ''COVE_E_MAP_INVALID''"
| "spec_code MapFunctionUndeclared = Some ''COVE_E_MAP_FUNCTION_UNDECLARED''"
| "spec_code MapIdentityConflict = Some ''COVE_E_MAP_IDENTITY_CONFLICT''"
| "spec_code MapSourceStale = Some ''COVE_E_MAP_SOURCE_STALE''"
| "spec_code MapEvidenceInvalid = Some ''COVE_E_MAP_EVIDENCE_INVALID''"
| "spec_code BadCodecExtension = Some ''COVE_E_BAD_CODEC_EXTENSION''"
| "spec_code CodecUnsupported = Some ''COVE_E_CODEC_UNSUPPORTED''"
| "spec_code BadLayoutPlan = Some ''COVE_E_BAD_LAYOUT_PLAN''"
| "spec_code RuntimeHintUnsupported = Some ''COVE_E_RUNTIME_HINT_UNSUPPORTED''"
| "spec_code BadCoverage = Some ''COVE_E_BAD_COVERAGE''"
| "spec_code BadCovi = Some ''COVE_E_BAD_COVI''"
| "spec_code CacheStale = Some ''COVE_E_CACHE_STALE''"
| "spec_code BufferTooShort = Some ''COVE_E_OFFSET_RANGE''"
| "spec_code ReservedNotZero = Some ''COVE_E_BAD_SECTION''"
| "spec_code (Io x) = None"
| "spec_code (UnsupportedEncoding x) = None"

text \<open>\<open>{bits:016x}\<close>: sixteen lower-case hexadecimal digits, most significant first.\<close>

definition hex_digit :: "nat \<Rightarrow> char" where
  "hex_digit d = (if d < 10 then char_of (48 + d) else char_of (87 + d))"

definition show_hex16 :: "u64 \<Rightarrow> string" where
  "show_hex16 bits = map (\<lambda>i. hex_digit (unat (drop_bit (60 - 4 * i) bits AND 0xF))) [0..<16]"

primrec CoveError_display :: "CoveError \<Rightarrow> string" where
  "CoveError_display BadMagic = ''COVE_E_BAD_MAGIC: missing or invalid magic bytes''"
| "CoveError_display BadVersion = ''COVE_E_BAD_VERSION: unsupported COVE version''"
| "CoveError_display (UnknownRequiredFeature bits) = ''COVE_E_UNKNOWN_REQUIRED_FEATURE: unknown required feature bits 0x'' @ show_hex16 bits"
| "CoveError_display ChecksumMismatch = ''COVE_E_CHECKSUM_MISMATCH: CRC32C mismatch''"
| "CoveError_display DigestMismatch = ''COVE_E_DIGEST_MISMATCH: cryptographic digest mismatch''"
| "CoveError_display OffsetRange = ''COVE_E_OFFSET_RANGE: offset or length out of file bounds''"
| "CoveError_display ArithOverflow = ''COVE_E_ARITH_OVERFLOW: arithmetic overflow in offset/count''"
| "CoveError_display (BadSection x) = ''COVE_E_BAD_SECTION: '' @ x"
| "CoveError_display (BadSchema x) = ''COVE_E_BAD_SCHEMA: '' @ x"
| "CoveError_display BadLogicalPhysicalPair = ''COVE_E_BAD_LOGICAL_PHYSICAL_PAIR: logical type incompatible with physical kind''"
| "CoveError_display DictMiss = ''COVE_E_DICT_MISS: FileCode missing from dictionary''"
| "CoveError_display BadFileCode = ''COVE_E_BAD_FILECODE: FileCode outside dictionary range''"
| "CoveError_display BadNumCode = ''COVE_E_BAD_NUMCODE: NumCode invalid for declared logical type''"
| "CoveError_display BadDomain = ''COVE_E_BAD_DOMAIN: ColumnDomain invalid''"
| "CoveError_display BadStats = ''COVE_E_BAD_STATS: statistics invalid or unsafe''"
| "CoveError_display BadIndex = ''COVE_E_BAD_INDEX: optional index invalid or corrupt''"
| "CoveError_display BadExtension = ''COVE_E_BAD_EXTENSION: extension invalid or unsupported''"
| "CoveError_display BadEngineProfile = ''COVE_E_BAD_ENGINE_PROFILE: engine profile invalid or unsupported''"
| "CoveError_display ExecutionCodeMap = ''COVE_E_EXECUTION_CODE_MAP: execution code mapping failed''"
| "CoveError_display HarborMountLease = ''COVE_E_HARBOR_MOUNT_LEASE: Harbor lease resolution failed''"
| "CoveError_display RefInvalid = ''COVE_E_REF_INVALID: COVE-O prev_ref invalid''"
| "CoveError_display NotSelfContained = ''COVE_E_NOT_SELF_CONTAINED: COVE-O chain not self-contained''"
| "CoveError_display SegmentCorrupt = ''COVE_E_SEGMENT_CORRUPT: segment structure invalid''"
| "CoveError_display PageCorrupt = ''COVE_E_PAGE_CORRUPT: page structure invalid''"
| "CoveError_display RedactionPolicy = ''COVE_E_REDACTION_POLICY: redacted value cannot be surfaced''"
| "CoveError_display SidecarStale = ''COVE_E_SIDECAR_STALE: COVX/COVM sidecar does not match COVE file''"
| "CoveError_display MapInvalid = ''COVE_E_MAP_INVALID: semantic mapping payload invalid''"
| "CoveError_display MapFunctionUndeclared = ''COVE_E_MAP_FUNCTION_UNDECLARED: semantic mapping function not declared''"
| "CoveError_display MapIdentityConflict = ''COVE_E_MAP_IDENTITY_CONFLICT: semantic mapping identity rules conflict''"
| "CoveError_display MapSourceStale = ''COVE_E_MAP_SOURCE_STALE: semantic mapping source metadata is stale''"
| "CoveError_display MapEvidenceInvalid = ''COVE_E_MAP_EVIDENCE_INVALID: semantic mapping evidence invalid''"
| "CoveError_display BadCodecExtension = ''COVE_E_BAD_CODEC_EXTENSION: codec descriptor, envelope, fallback, or feature contract invalid''"
| "CoveError_display CodecUnsupported = ''COVE_E_CODEC_UNSUPPORTED: required registered codec unsupported without valid fallback''"
| "CoveError_display BadLayoutPlan = ''COVE_E_BAD_LAYOUT_PLAN: layout plan, split index, zero-copy map, or fast metadata invalid''"
| "CoveError_display RuntimeHintUnsupported = ''COVE_E_RUNTIME_HINT_UNSUPPORTED: required runtime hint unsupported for operation''"
| "CoveError_display BadCoverage = ''COVE_E_BAD_COVERAGE: coverage provider, predicate form, coverage set, or proof invalid''"
| "CoveError_display BadCovi = ''COVE_E_BAD_COVI: secondary index artifact malformed, stale, corrupt, or unsupported''"
| "CoveError_display CacheStale = ''COVE_E_CACHE_STALE: cache entry stale, corrupt, or incompatible''"
| "CoveError_display BufferTooShort = ''COVE_E_OFFSET_RANGE: buffer too short to parse structure''"
| "CoveError_display ReservedNotZero = ''COVE_E_BAD_SECTION: reserved field is non-zero''"
| "CoveError_display (Io x) = ''I/O error: '' @ x"
| "CoveError_display (UnsupportedEncoding x) = ''unsupported encoding: '' @ x"

section \<open>Properties\<close>

lemma spec_code_in_inventory: "spec_code e = Some c \<Longrightarrow> c \<in> set ALL_SPEC_CODES"
  by (cases e) (auto simp: ALL_SPEC_CODES_def)

text \<open>The codes already differ in their length and two of their letters.\<close>

lemma ALL_SPEC_CODES_distinct: "distinct ALL_SPEC_CODES"
proof -
  let ?f = "\<lambda>s. (of_char (s ! 7) * 256 + of_char (s ! 11)) * 256 + length s"
  have "map ?f ALL_SPEC_CODES = [4345104, 4347410, 5590815, 4410136, 4477718, 5195027, 4278293, 4346642, 4346641, 4344864, 4480784, 4343315, 4345362, 4342801, 4346640, 4344080, 4343060, 4343065, 4543769, 4738841, 5392658, 5133081, 5457174, 5267219, 5391127, 5456660, 5064978, 5064222, 5064988, 5067543, 5063963, 4342554, 4408088, 4344854, 5392671, 4342547, 4342543, 4408594]"
    by (simp add: ALL_SPEC_CODES_def)
  then have "distinct (map ?f ALL_SPEC_CODES)" by simp
  then show ?thesis by (simp only: distinct_map)
qed

lemma subset_of_codes:
  "xs = map (the \<circ> f) es \<Longrightarrow> \<forall>e \<in> set es. f e \<noteq> None \<Longrightarrow> set xs \<subseteq> the ` f ` {e. f e \<noteq> None}"
  by auto

lemma spec_code_onto: "set ALL_SPEC_CODES \<subseteq> the ` spec_code ` {e. spec_code e \<noteq> None}"
proof -
  let ?es = "[BadMagic,
    BadVersion,
    UnknownRequiredFeature 0,
    ChecksumMismatch,
    DigestMismatch,
    OffsetRange,
    ArithOverflow,
    BadSection [],
    BadSchema [],
    BadLogicalPhysicalPair,
    DictMiss,
    BadFileCode,
    BadNumCode,
    BadDomain,
    BadStats,
    BadIndex,
    BadExtension,
    BadEngineProfile,
    ExecutionCodeMap,
    HarborMountLease,
    RefInvalid,
    NotSelfContained,
    SegmentCorrupt,
    PageCorrupt,
    RedactionPolicy,
    SidecarStale,
    MapInvalid,
    MapFunctionUndeclared,
    MapIdentityConflict,
    MapSourceStale,
    MapEvidenceInvalid,
    BadCodecExtension,
    CodecUnsupported,
    BadLayoutPlan,
    RuntimeHintUnsupported,
    BadCoverage,
    BadCovi,
    CacheStale]"
  have "ALL_SPEC_CODES = map (the \<circ> spec_code) ?es" by (simp add: ALL_SPEC_CODES_def)
  moreover have "\<forall>e \<in> set ?es. spec_code e \<noteq> None" by simp
  ultimately show ?thesis by (rule subset_of_codes)
qed

text \<open>the code inventory is complete and exact: its 38 codes are pairwise different, they are
  precisely the codes that errors carry, only I/O and capability errors carry none, and every
  error that carries a code is rendered with that code, a colon and a space in front.\<close>

theorem spec_code_inventory:
  "distinct ALL_SPEC_CODES \<and> length ALL_SPEC_CODES = 38 \<and>
   {c. \<exists>e. spec_code e = Some c} = set ALL_SPEC_CODES \<and>
   (spec_code e = None \<longleftrightarrow> (\<exists>s. e = Io s \<or> e = UnsupportedEncoding s)) \<and>
   (case spec_code e of
      Some c \<Rightarrow> take (length c + 2) (CoveError_display e) = c @ '': ''
    | None \<Rightarrow> True)"
proof (intro conjI)
  show "distinct ALL_SPEC_CODES" by (rule ALL_SPEC_CODES_distinct)
  show "length ALL_SPEC_CODES = 38" by (simp add: ALL_SPEC_CODES_def)
  show "{c. \<exists>e. spec_code e = Some c} = set ALL_SPEC_CODES"
    using spec_code_in_inventory spec_code_onto by fastforce
  show "spec_code e = None \<longleftrightarrow> (\<exists>s. e = Io s \<or> e = UnsupportedEncoding s)" by (cases e) simp_all
  show "case spec_code e of Some c \<Rightarrow> take (length c + 2) (CoveError_display e) = c @ '': '' | None \<Rightarrow> True"
    by (cases e) simp_all
qed

end
