(* ===== verification/Encoding.thy ===== *)
theory Encoding
  imports Wire
begin

text \<open>
  The contracts of \<open>cove-core/src/encoding/mod.rs\<close> and of the wire formats.

  \<^item> \<open>encoding_trait\<close> is the trait \<open>Encoding\<close>: a canonical decoder and a fast decoder that must
    agree with it (the specification's parity rule, checked at run time by \<open>assert_parity\<close>).
  \<^item> \<open>wire_codec\<close> is a pair \<open>encode\<close> / \<open>parse\<close>: what is encoded is parsed back, and whatever is
    parsed is well formed.
  \<^item> \<open>fixed_codec\<close> refines it for records of a constant length that are parsed from a prefix of
    the buffer; arrays of such records (\<open>chunks_exact\<close>) then round-trip as well.

  Each locale is interpreted on the definitions of the component that provides it.
\<close>

section \<open>The trait \<open>Encoding\<close>\<close>

definition assert_parity ::
  "('p \<Rightarrow> i64 list result) \<Rightarrow> ('p \<Rightarrow> i64 list result) \<Rightarrow> 'p \<Rightarrow> unit result" where
  "assert_parity canonical_decode fast_decode payload =
     and_then (canonical_decode payload) (\<lambda>canon.
     and_then (fast_decode payload) (\<lambda>fast.
       if canon \<noteq> fast
       then Err (BadSection (''fast decode disagrees with canonical decode (Spec ''
              @ [CHR 0xC2, CHR 0xA7] @ ''21.4)''))
       else Ok ()))"

locale encoding_trait =
  fixes canonical_decode :: "'p \<Rightarrow> i64 list result"
    and fast_decode :: "'p \<Rightarrow> i64 list result"
    and wf :: "'p \<Rightarrow> bool"
    and rows :: "'p \<Rightarrow> nat"
  assumes parity: "wf p \<Longrightarrow> fast_decode p = canonical_decode p"
    and decodes: "wf p \<Longrightarrow> \<exists>xs. canonical_decode p = Ok xs \<and> length xs = rows p"
begin

lemma assert_parity_Ok: "wf p \<Longrightarrow> assert_parity canonical_decode fast_decode p = Ok ()"
  using parity [of p] decodes [of p] by (auto simp: assert_parity_def)

lemma fast_decode_length: "wf p \<Longrightarrow> \<exists>xs. fast_decode p = Ok xs \<and> length xs = rows p"
  using parity [of p] decodes [of p] by auto

lemma decode_rows: "wf p \<Longrightarrow> canonical_decode p = Ok xs \<Longrightarrow> length xs = rows p"
  using decodes [of p] by auto

end

section \<open>Encoders and parsers\<close>

locale wire_codec =
  fixes encode :: "'p \<Rightarrow> bytes result"
    and parse :: "bytes \<Rightarrow> 'p result"
    and wf :: "'p \<Rightarrow> bool"
  assumes roundtrip: "wf p \<Longrightarrow> \<exists>bs. encode p = Ok bs \<and> parse bs = Ok p"
begin

lemma encode_inject: "wf p \<Longrightarrow> wf q \<Longrightarrow> encode p = encode q \<Longrightarrow> p = q"
  using roundtrip [of p] roundtrip [of q] by auto

lemma parse_encode: "wf p \<Longrightarrow> and_then (encode p) parse = Ok p"
  using roundtrip [of p] by auto

end

locale fixed_codec =
  fixes len :: nat
    and encode :: "'p \<Rightarrow> bytes result"
    and parse :: "bytes \<Rightarrow> 'p result"
    and wf :: "'p \<Rightarrow> bool"
  assumes len_pos: "0 < len"
    and encode_length: "wf p \<Longrightarrow> \<exists>bs. encode p = Ok bs \<and> length bs = len"
    and parse_prefix: "wf p \<Longrightarrow> encode p = Ok bs \<Longrightarrow> parse (bs @ rest) = Ok p"
begin

sublocale wire_codec encode parse wf
proof
  fix p assume "wf p"
  then obtain bs where "encode p = Ok bs" using encode_length by blast
  with parse_prefix [OF \<open>wf p\<close>, of bs "[]"] show "\<exists>bs. encode p = Ok bs \<and> parse bs = Ok p" by simp
qed

definition image :: "'p \<Rightarrow> bytes" where
  "image p = (case encode p of Ok bs \<Rightarrow> bs | _ \<Rightarrow> [])"

lemma encode_image: "wf p \<Longrightarrow> encode p = Ok (image p)"
  using encode_length [of p] by (auto simp: image_def)

lemma length_image: "wf p \<Longrightarrow> length (image p) = len"
  using encode_length [of p] by (auto simp: image_def)

lemma parse_image: "wf p \<Longrightarrow> parse (image p @ rest) = Ok p"
  using parse_prefix [of p "image p" rest] encode_image [of p] by simp

lemma parse_image_exact: "wf p \<Longrightarrow> parse (image p) = Ok p"
  using parse_image [of p "[]"] by simp

text \<open>A table of records written back to back is read back record by record.\<close>

lemma encode_table:
  assumes "\<And>p. p \<in> set ps \<Longrightarrow> wf p"
  shows "collect_map encode ps = Ok (map image ps)"
  by (rule collect_map_Ok) (simp add: encode_image assms)

lemma parse_chunks_exact:
  assumes "\<And>p. p \<in> set ps \<Longrightarrow> wf p"
  shows "collect_map parse (chunks_exact len (concat (map image ps))) = Ok ps"
proof -
  have "chunks_exact len (concat (map image ps)) = map image ps"
    by (rule chunks_exact_concat) (simp_all add: length_image assms len_pos)
  moreover have "collect_map parse (map image qs) = Ok qs" if "\<And>p. p \<in> set qs \<Longrightarrow> wf p" for qs
    using that by (induction qs) (simp_all add: parse_image_exact)
  ultimately show ?thesis using assms by simp
qed

text \<open>The same for a loop that parses at \<open>off + i * len\<close> and is handed the rest of the buffer.\<close>

lemma parse_table_at:
  assumes "\<And>p. p \<in> set ps \<Longrightarrow> wf p" and "i < length ps" and "off = length pre"
  shows "parse (drop (off + i * len) (pre @ concat (map image ps) @ post)) = Ok (ps ! i)"
proof -
  have wf: "wf (ps ! i)" using assms by simp
  have l: "length (concat (map image (take i ps))) = i * len"
    using assms by (subst length_concat_uniform [where w = len]) (auto simp: length_image dest: in_set_takeD)
  have "concat (map image ps) = concat (map image (take i ps)) @ image (ps ! i) @ concat (map image (drop (Suc i) ps))"
    using assms(2) by (subst id_take_nth_drop [of i ps]) simp_all
  then have "drop (off + i * len) (pre @ concat (map image ps) @ post) =
      image (ps ! i) @ concat (map image (drop (Suc i) ps)) @ post"
    using l assms(3) by simp
  then show ?thesis by (simp add: parse_image [OF wf])
qed

lemma length_table:
  "(\<And>p. p \<in> set ps \<Longrightarrow> wf p) \<Longrightarrow> length (concat (map image ps)) = length ps * len"
  by (rule length_concat_uniform) (simp add: length_image)

end

section \<open>Total fixed-width records\<close>

text \<open>
  A record type whose every value has a \<open>w\<close>-byte image and whose every \<open>w\<close>-byte string is
  an image: integers and tuples of integers. A table of them is determined by its bytes.
\<close>

locale fixed_record =
  fixes w :: nat
    and enc :: "'a \<Rightarrow> bytes"
    and dec :: "bytes \<Rightarrow> 'a"
  assumes length_enc: "length (enc x) = w"
    and dec_enc: "dec (enc x) = x"
    and enc_dec: "length b = w \<Longrightarrow> enc (dec b) = b"
begin

lemma length_table: "length (concat (map enc xs)) = length xs * w"
  by (rule length_concat_uniform) (rule length_enc)

lemma read_write:
  "off = length pre \<Longrightarrow> n = length xs \<Longrightarrow>
   map dec (chunks_at off w n (pre @ concat (map enc xs) @ post)) = xs"
  by (simp add: chunks_at_concat length_enc dec_enc comp_def)

lemma write_read:
  assumes "off + n * w \<le> length bs"
  shows "concat (map enc (map dec (chunks_at off w n bs))) = slice off (n * w) bs"
proof -
  have "map (enc \<circ> dec) (chunks_at off w n bs) = chunks_at off w n bs"
    using assms by (intro map_idI) (auto simp: enc_dec dest: length_in_chunks_at)
  then show ?thesis by (simp add: concat_chunks_at)
qed

lemma enc_inject: "enc x = enc y \<longleftrightarrow> x = y"
  by (metis dec_enc)

end

interpretation le_u32: fixed_record 4 "le_bytes 4 :: u32 \<Rightarrow> bytes" from_le
  by unfold_locales (simp_all add: from_le_le_bytes le_bytes_from_le)

interpretation le_u64: fixed_record 8 "le_bytes 8 :: u64 \<Rightarrow> bytes" from_le
  by unfold_locales (simp_all add: from_le_le_bytes le_bytes_from_le)

section \<open>Shared readers of the payload formats\<close>

text \<open>
  The loop \<open>for _ in 0..n { let (z, used) = decode(&bytes[pos..])?; pos += used; ... }\<close> of the
  variable-length formats; slicing past the end would panic.
\<close>

fun read_varints :: "bytes \<Rightarrow> usize \<Rightarrow> nat \<Rightarrow> i64 list result" where
  "read_varints bs pos 0 = Ok []"
| "read_varints bs pos (Suc n) =
     (if pos > length bs then Panic
      else and_then (decode_u64_leb128 (drop pos bs)) (\<lambda>(z, used).
           and_then (read_varints bs (pos + used) n) (\<lambda>vs.
             Ok (zigzag_decode_i64 z # vs))))"

definition write_varints :: "i64 list \<Rightarrow> bytes" where
  "write_varints vs = foldl (\<lambda>out d. append_u64_leb128 out (zigzag_encode_i64 d)) [] vs"

lemma foldl_append_varint:
  "foldl (\<lambda>out d. append_u64_leb128 out (zigzag_encode_i64 d)) out vs =
     out @ concat (map (\<lambda>d. encode_u64_leb128 (zigzag_encode_i64 d)) vs)"
  by (induction vs arbitrary: out) (simp_all add: append_u64_leb128_eq)

lemma read_varints_concat:
  "read_varints (pre @ concat (map (\<lambda>d. encode_u64_leb128 (zigzag_encode_i64 d)) vs) @ post)
     (length pre) (length vs) = Ok vs"
proof (induction vs arbitrary: pre)
  case Nil
  then show ?case by simp
next
  case (Cons v vs)
  let ?e = "encode_u64_leb128 (zigzag_encode_i64 v)"
  show ?case
    using Cons.IH [of "pre @ ?e"]
    by (simp add: decode_encode_u64_leb128 zigzag_decode_encode)
qed

lemma read_varints_length: "read_varints bs pos n = Ok vs \<Longrightarrow> length vs = n"
  by (induction n arbitrary: pos vs) (auto simp: result_simps split: if_splits)

lemma read_varints_no_panic:
  "pos \<le> length bs \<Longrightarrow> read_varints bs pos n \<noteq> Panic"
proof (induction n arbitrary: pos)
  case (Suc n)
  show ?case
  proof (cases "decode_u64_leb128 (drop pos bs)")
    case (Ok zu)
    then obtain z u where zu: "decode_u64_leb128 (drop pos bs) = Ok (z, u)" by (cases zu) auto
    from decode_u64_leb128_consumed [OF this] Suc.prems have "pos + u \<le> length bs" by auto
    then have "read_varints bs (pos + u) n \<noteq> Panic" by (rule Suc.IH)
    with zu Suc.prems show ?thesis by (cases "read_varints bs (pos + u) n") auto
  next
    case Panic
    then show ?thesis by (simp add: decode_u64_leb128_def decode_loop_no_panic)
  qed (use Suc.prems in auto)
qed simp

text \<open>\<open>n\<close> little-endian \<open>i64\<close> values from \<open>off\<close> on.\<close>

definition read_i64s :: "bytes \<Rightarrow> usize \<Rightarrow> nat \<Rightarrow> i64 list" where
  "read_i64s bs off n = map from_le (chunks_at off 8 n bs)"

definition write_i64s :: "i64 list \<Rightarrow> bytes" where
  "write_i64s vs = concat (map (le_bytes 8) vs)"

lemma length_write_i64s [simp]: "length (write_i64s vs) = length vs * 8"
  by (simp add: write_i64s_def length_concat_uniform)

lemma length_read_i64s [simp]: "length (read_i64s bs off n) = n"
  by (simp add: read_i64s_def)

lemma read_write_i64s [wire_simps]:
  "off = length pre \<Longrightarrow> n = length vs \<Longrightarrow> read_i64s (pre @ write_i64s vs @ post) off n = vs"
  by (simp add: read_i64s_def write_i64s_def chunks_at_concat from_le_le_bytes comp_def)

lemma read_write_i64s_end [wire_simps]:
  "off = length pre \<Longrightarrow> n = length vs \<Longrightarrow> read_i64s (pre @ write_i64s vs) off n = vs"
  using read_write_i64s [of off pre n vs "[]"] by simp

end
