(* ===== verification/Encodings_Fixed.thy ===== *)
theory Encodings_Fixed
  imports Encoding
begin

text \<open>
  The encodings without an invariant between rows: \<open>encoding/constant.rs\<close>,
  \<open>encoding/delta.rs\<close>, \<open>encoding/frame_of_reference.rs\<close> and \<open>encoding/plain.rs\<close>. Each
  provides a payload record, its parser and encoder and the two decoders of the trait; each is
  an instance of \<open>encoding_trait\<close> and \<open>wire_codec\<close>. The decoders of \<open>Delta\<close> and
  \<open>FrameOfReference\<close> are related to the prefix sums they stand for, with the wrap-around of
  \<open>i64\<close>.
\<close>

section \<open>Constant (constant.rs)\<close>

record ConstantPayload =
  const_value :: i64
  const_row_count :: u64

definition ConstantPayload_ENCODED_LEN :: usize where
  "ConstantPayload_ENCODED_LEN = 16"

definition ConstantPayload_parse :: "bytes \<Rightarrow> ConstantPayload result" where
  "ConstantPayload_parse bs =
     (if length bs < ConstantPayload_ENCODED_LEN then Err BufferTooShort
      else let val = from_le (slice 0 8 bs) :: i64;
               row_count = u64_at bs 8
           in if row_count > 0xFFFFFFFF then Err PageCorrupt
              else Ok \<lparr>const_value = val, const_row_count = row_count\<rparr>)"

definition ConstantPayload_encode :: "ConstantPayload \<Rightarrow> bytes" where
  "ConstantPayload_encode p =
     (let out = replicate ConstantPayload_ENCODED_LEN 0;
          out = put 0 (le_bytes 8 (const_value p)) out;
          out = put 8 (le_bytes 8 (const_row_count p)) out
      in out)"

definition Constant_canonical_decode :: "ConstantPayload \<Rightarrow> i64 list result" where
  "Constant_canonical_decode p = Ok (replicate (unat (const_row_count p)) (const_value p))"

definition Constant_fast_decode :: "ConstantPayload \<Rightarrow> i64 list result" where
  "Constant_fast_decode p = Ok (replicate (unat (const_row_count p)) (const_value p))"

definition constant_wf :: "ConstantPayload \<Rightarrow> bool" where
  "constant_wf p \<longleftrightarrow> const_row_count p \<le> 0xFFFFFFFF"

interpretation const: encoding_trait Constant_canonical_decode Constant_fast_decode
  constant_wf "\<lambda>p. unat (const_row_count p)"
  by unfold_locales (simp_all add: Constant_canonical_decode_def Constant_fast_decode_def)

interpretation const_wire: fixed_codec 16 "\<lambda>p. Ok (ConstantPayload_encode p)"
  ConstantPayload_parse constant_wf
  by unfold_locales
    (auto simp: ConstantPayload_encode_def ConstantPayload_parse_def ConstantPayload_ENCODED_LEN_def
      constant_wf_def wire_simps not_less Let_def)

section \<open>Delta (delta.rs)\<close>

record DeltaPayload =
  delta_base :: i64
  delta_deltas :: "i64 list"

definition DeltaPayload_parse :: "bytes \<Rightarrow> DeltaPayload result" where
  "DeltaPayload_parse bs =
     (if length bs < 12 then Err BufferTooShort
      else let base = from_le (slice 0 8 bs) :: i64;
               n = unat (u32_at bs 8);
               pos = 12
           in and_then (read_varints bs pos n) (\<lambda>deltas.
                Ok \<lparr>delta_base = base, delta_deltas = deltas\<rparr>))"

definition DeltaPayload_encode :: "DeltaPayload \<Rightarrow> bytes" where
  "DeltaPayload_encode p =
     (let out = le_bytes 8 (delta_base p);
          out = out @ le_bytes 4 (of_nat (length (delta_deltas p)) :: u32)
      in foldl (\<lambda>out d. append_u64_leb128 out (zigzag_encode_i64 d)) out (delta_deltas p))"

primrec delta_loop :: "i64 \<Rightarrow> i64 list \<Rightarrow> i64 list" where
  "delta_loop cur [] = []"
| "delta_loop cur (d # ds) = (let cur' = cur + d in cur' # delta_loop cur' ds)"

definition Delta_canonical_decode :: "DeltaPayload \<Rightarrow> i64 list result" where
  "Delta_canonical_decode p = Ok (delta_base p # delta_loop (delta_base p) (delta_deltas p))"

definition Delta_fast_decode :: "DeltaPayload \<Rightarrow> i64 list result" where
  "Delta_fast_decode p = Delta_canonical_decode p"

definition delta_wf :: "DeltaPayload \<Rightarrow> bool" where
  "delta_wf p \<longleftrightarrow> length (delta_deltas p) < 2 ^ 32"

lemma length_delta_loop [simp]: "length (delta_loop cur ds) = length ds"
  by (induction ds arbitrary: cur) (simp_all add: Let_def)

lemma nth_delta_loop:
  "i < length ds \<Longrightarrow> delta_loop cur ds ! i = cur + sum_list (take (Suc i) ds)"
  by (induction ds arbitrary: cur i) (auto simp: Let_def nth_Cons add.assoc split: nat.splits)

interpretation delta: encoding_trait Delta_canonical_decode Delta_fast_decode delta_wf
  "\<lambda>p. Suc (length (delta_deltas p))"
  by unfold_locales (simp_all add: Delta_canonical_decode_def Delta_fast_decode_def)

lemma DeltaPayload_encode_eq:
  "DeltaPayload_encode p =
     le_bytes 8 (delta_base p) @ le_bytes 4 (of_nat (length (delta_deltas p)) :: u32) @
     concat (map (\<lambda>d. encode_u64_leb128 (zigzag_encode_i64 d)) (delta_deltas p))"
  by (simp add: DeltaPayload_encode_def foldl_append_varint Let_def)

lemma DeltaPayload_parse_encode_append:
  assumes "delta_wf p"
  shows "DeltaPayload_parse (DeltaPayload_encode p @ rest) = Ok p"
proof -
  let ?pre = "le_bytes 8 (delta_base p) @ le_bytes 4 (of_nat (length (delta_deltas p)) :: u32)"
  have "read_varints (DeltaPayload_encode p @ rest) 12 (length (delta_deltas p)) = Ok (delta_deltas p)"
    using read_varints_concat [of ?pre "delta_deltas p" rest] by (simp add: DeltaPayload_encode_eq)
  with assms show ?thesis
    by (simp add: DeltaPayload_parse_def DeltaPayload_encode_eq delta_wf_def wire_simps Let_def)
qed

interpretation delta_wire: wire_codec "\<lambda>p. Ok (DeltaPayload_encode p)" DeltaPayload_parse delta_wf
  using DeltaPayload_parse_encode_append [of _ "[]"] by unfold_locales simp

section \<open>Frame of reference (frame_of_reference.rs)\<close>

record ForPayload =
  for_reference :: i64
  for_offsets :: "i64 list"

definition ForPayload_parse :: "bytes \<Rightarrow> ForPayload result" where
  "ForPayload_parse bs =
     (if length bs < 12 then Err BufferTooShort
      else let reference = from_le (slice 0 8 bs) :: i64;
               n = unat (u32_at bs 8);
               need = 12 + n * 8
           in if length bs < need then Err BufferTooShort
              else Ok \<lparr>for_reference = reference, for_offsets = read_i64s bs 12 n\<rparr>)"

definition ForPayload_encode :: "ForPayload \<Rightarrow> bytes" where
  "ForPayload_encode p =
     le_bytes 8 (for_reference p) @ le_bytes 4 (of_nat (length (for_offsets p)) :: u32) @
     write_i64s (for_offsets p)"

definition FrameOfReference_canonical_decode :: "ForPayload \<Rightarrow> i64 list result" where
  "FrameOfReference_canonical_decode p = Ok (map (\<lambda>o'. for_reference p + o') (for_offsets p))"

definition FrameOfReference_fast_decode :: "ForPayload \<Rightarrow> i64 list result" where
  "FrameOfReference_fast_decode p = FrameOfReference_canonical_decode p"

definition for_wf :: "ForPayload \<Rightarrow> bool" where
  "for_wf p \<longleftrightarrow> length (for_offsets p) < 2 ^ 32"

interpretation frame: encoding_trait FrameOfReference_canonical_decode FrameOfReference_fast_decode
  for_wf "\<lambda>p. length (for_offsets p)"
  by unfold_locales
    (simp_all add: FrameOfReference_canonical_decode_def FrameOfReference_fast_decode_def)

lemma ForPayload_parse_encode_append:
  assumes "for_wf p"
  shows "ForPayload_parse (ForPayload_encode p @ rest) = Ok p"
proof -
  let ?pre = "le_bytes 8 (for_reference p) @ le_bytes 4 (of_nat (length (for_offsets p)) :: u32)"
  have "read_i64s (ForPayload_encode p @ rest) 12 (length (for_offsets p)) = for_offsets p"
    using read_write_i64s [of 12 ?pre _ "for_offsets p" rest] by (simp add: ForPayload_encode_def)
  with assms show ?thesis
    by (simp add: ForPayload_parse_def for_wf_def wire_simps Let_def)
       (simp add: ForPayload_encode_def for_wf_def wire_simps)
qed

interpretation frame_wire: wire_codec "\<lambda>p. Ok (ForPayload_encode p)" ForPayload_parse for_wf
  using ForPayload_parse_encode_append [of _ "[]"] by unfold_locales simp

section \<open>Plain (plain.rs)\<close>

record PlainFixedPayload =
  pf_values :: "i64 list"

definition PlainFixedPayload_parse :: "bytes \<Rightarrow> PlainFixedPayload result" where
  "PlainFixedPayload_parse bs =
     (if length bs < 4 then Err BufferTooShort
      else let n = unat (u32_at bs 0);
               need = 4 + n * 8
           in if length bs < need then Err BufferTooShort
              else Ok \<lparr>pf_values = read_i64s bs 4 n\<rparr>)"

definition PlainFixedPayload_encode :: "PlainFixedPayload \<Rightarrow> bytes" where
  "PlainFixedPayload_encode p =
     le_bytes 4 (of_nat (length (pf_values p)) :: u32) @ write_i64s (pf_values p)"

definition PlainFixed_canonical_decode :: "PlainFixedPayload \<Rightarrow> i64 list result" where
  "PlainFixed_canonical_decode p = Ok (pf_values p)"

definition plain_fixed_wf :: "PlainFixedPayload \<Rightarrow> bool" where
  "plain_fixed_wf p \<longleftrightarrow> length (pf_values p) < 2 ^ 32"

interpretation plain_fixed: encoding_trait PlainFixed_canonical_decode PlainFixed_canonical_decode
  plain_fixed_wf "\<lambda>p. length (pf_values p)"
  by unfold_locales (simp_all add: PlainFixed_canonical_decode_def)

lemma PlainFixedPayload_parse_encode_append:
  assumes "plain_fixed_wf p"
  shows "PlainFixedPayload_parse (PlainFixedPayload_encode p @ rest) = Ok p"
  using assms
  by (simp add: PlainFixedPayload_parse_def PlainFixedPayload_encode_def plain_fixed_wf_def
      wire_simps Let_def)

interpretation plain_fixed_wire: wire_codec "\<lambda>p. Ok (PlainFixedPayload_encode p)"
  PlainFixedPayload_parse plain_fixed_wf
  using PlainFixedPayload_parse_encode_append [of _ "[]"] by unfold_locales simp

record PlainVarintPayload =
  pv_values :: "i64 list"

definition PlainVarintPayload_parse :: "bytes \<Rightarrow> PlainVarintPayload result" where
  "PlainVarintPayload_parse bs =
     (if length bs < 4 then Err BufferTooShort
      else let n = unat (u32_at bs 0);
               pos = 4
           in and_then (read_varints bs pos n) (\<lambda>values. Ok \<lparr>pv_values = values\<rparr>))"

definition PlainVarintPayload_encode :: "PlainVarintPayload \<Rightarrow> bytes" where
  "PlainVarintPayload_encode p =
     foldl (\<lambda>out v. append_u64_leb128 out (zigzag_encode_i64 v))
       (le_bytes 4 (of_nat (length (pv_values p)) :: u32)) (pv_values p)"

definition PlainVarint_canonical_decode :: "PlainVarintPayload \<Rightarrow> i64 list result" where
  "PlainVarint_canonical_decode p = Ok (pv_values p)"

definition plain_varint_wf :: "PlainVarintPayload \<Rightarrow> bool" where
  "plain_varint_wf p \<longleftrightarrow> length (pv_values p) < 2 ^ 32"

interpretation plain_varint: encoding_trait PlainVarint_canonical_decode
  PlainVarint_canonical_decode plain_varint_wf "\<lambda>p. length (pv_values p)"
  by unfold_locales (simp_all add: PlainVarint_canonical_decode_def)

lemma PlainVarintPayload_parse_encode_append:
  assumes "plain_varint_wf p"
  shows "PlainVarintPayload_parse (PlainVarintPayload_encode p @ rest) = Ok p"
  using assms read_varints_concat [of "le_bytes 4 (of_nat (length (pv_values p)) :: u32)" "pv_values p" rest]
  by (simp add: PlainVarintPayload_parse_def PlainVarintPayload_encode_def plain_varint_wf_def
      foldl_append_varint wire_simps Let_def)

interpretation plain_varint_wire: wire_codec "\<lambda>p. Ok (PlainVarintPayload_encode p)"
  PlainVarintPayload_parse plain_varint_wf
  using PlainVarintPayload_parse_encode_append [of _ "[]"] by unfold_locales simp

section \<open>Properties\<close>

text \<open>a delta page survives the wire and decodes to the running sums of its deltas, in
  wrapping 64-bit arithmetic, one row more than there are deltas, and the parity check of the
  trait accepts it.\<close>

theorem delta_page_running_sums:
  assumes "delta_wf p"
  shows "DeltaPayload_parse (DeltaPayload_encode p @ rest) = Ok p \<and>
    Delta_canonical_decode p =
      Ok (map (\<lambda>i. delta_base p + sum_list (take i (delta_deltas p))) [0..<Suc (length (delta_deltas p))]) \<and>
    assert_parity Delta_canonical_decode Delta_fast_decode p = Ok ()"
proof -
  have "delta_base p # delta_loop (delta_base p) (delta_deltas p) =
      map (\<lambda>i. delta_base p + sum_list (take i (delta_deltas p))) [0..<Suc (length (delta_deltas p))]"
    by (rule nth_equalityI) (auto simp: nth_Cons nth_delta_loop simp del: upt_Suc split: nat.splits)
  with assms show ?thesis
    by (simp add: Delta_canonical_decode_def DeltaPayload_parse_encode_append delta.assert_parity_Ok)
qed

lemma delta_page_running_sums_witness:
  "Delta_canonical_decode \<lparr>delta_base = 0x7FFFFFFFFFFFFFFE, delta_deltas = [5, - 3]\<rparr> =
     Ok [0x7FFFFFFFFFFFFFFE, 0x8000000000000003, 0x8000000000000000]"
  using delta_page_running_sums [of "\<lparr>delta_base = 0x7FFFFFFFFFFFFFFE, delta_deltas = [5, - 3]\<rparr>" "[]"]
  by (simp add: delta_wf_def upt_rec)

text \<open>the remaining row-wise pages survive the wire whatever follows them: constant,
  frame-of-reference, fixed-width and varint pages are parsed back to the payload encoded.\<close>

theorem fixed_pages_roundtrip:
  assumes "constant_wf c" and "for_wf f" and "plain_fixed_wf x" and "plain_varint_wf v"
  shows "ConstantPayload_parse (ConstantPayload_encode c @ rest) = Ok c \<and>
    ForPayload_parse (ForPayload_encode f @ rest) = Ok f \<and>
    PlainFixedPayload_parse (PlainFixedPayload_encode x @ rest) = Ok x \<and>
    PlainVarintPayload_parse (PlainVarintPayload_encode v @ rest) = Ok v"
  using assms const_wire.parse_prefix [OF assms(1) refl]
  by (simp add: ForPayload_parse_encode_append PlainFixedPayload_parse_encode_append
      PlainVarintPayload_parse_encode_append)

lemma fixed_pages_roundtrip_witness:
  "PlainVarintPayload_parse (PlainVarintPayload_encode \<lparr>pv_values = [0, - 1, 300]\<rparr> @ [7]) =
     Ok \<lparr>pv_values = [0, - 1, 300]\<rparr>"
  using fixed_pages_roundtrip [of "\<lparr>const_value = 3, const_row_count = 5\<rparr>"
      "\<lparr>for_reference = 100, for_offsets = [1, 2]\<rparr>" "\<lparr>pf_values = [4]\<rparr>" "\<lparr>pv_values = [0, - 1, 300]\<rparr>" "[7]"]
  by (simp add: constant_wf_def for_wf_def plain_fixed_wf_def plain_varint_wf_def)

end
