(* ===== verification/Nested_Layout.thy ===== *)
theory Nested_Layout
  imports Encoding
begin

text \<open>
  The shapes of nested columns (\<open>encoding/nested.rs\<close>): list offsets, struct field counts and map
  layouts, their validators, and the page payloads that store them. The validators are related
  to what a reader relies on: a valid list layout splits the child rows into consecutive,
  disjoint ranges, and a valid map layout has no key twice in one map value.
\<close>

definition read_u32_le :: "bytes \<Rightarrow> usize \<Rightarrow> u32 result" where
  "read_u32_le bs offset = map_result from_le (read_range_checked bs offset 4)"

definition read_u64_le :: "bytes \<Rightarrow> usize \<Rightarrow> u64 result" where
  "read_u64_le bs offset = map_result from_le (read_range_checked bs offset 8)"

section \<open>Lists\<close>

record ListLayout =
  list_offsets :: "u32 list"

definition ListLayout_validate :: "ListLayout \<Rightarrow> unit result" where
  "ListLayout_validate l =
     (if list_offsets l = [] then Err PageCorrupt
      else if list_offsets l ! 0 \<noteq> 0 then Err PageCorrupt
      else if \<not> windows2 (\<lambda>a b. \<not> a > b) (list_offsets l) then Err PageCorrupt
      else Ok ())"

definition ListLayout_validate_child_count :: "ListLayout \<Rightarrow> usize \<Rightarrow> unit result" where
  "ListLayout_validate_child_count l child_row_count =
     and_then (ListLayout_validate l) (\<lambda>_.
       if unat (last (list_offsets l)) \<noteq> child_row_count then Err PageCorrupt else Ok ())"

definition ListLayout_row_count :: "ListLayout \<Rightarrow> usize" where
  "ListLayout_row_count l = length (list_offsets l) - 1"

record ListLayoutPayload =
  llp_layout :: ListLayout
  llp_child_row_count :: u32

definition ListLayoutPayload_parse :: "bytes \<Rightarrow> ListLayoutPayload result" where
  "ListLayoutPayload_parse bs =
     (if length bs < 8 then Err BufferTooShort
      else and_then (read_u32_le bs 0) (\<lambda>child_row_count.
           and_then (map_result unat (read_u32_le bs 4)) (\<lambda>offset_count.
           and_then (checked_mul offset_count 4) (\<lambda>offsets_bytes_len.
           let offsets_start = 8 in
           and_then (checked_add offsets_start offsets_bytes_len) (\<lambda>offsets_end.
           if offsets_end > length bs then Err BufferTooShort
           else if offsets_end < length bs then Err PageCorrupt
           else and_then (collect_map (\<lambda>index. read_u32_le bs (offsets_start + index * 4)) [0..<offset_count])
             (\<lambda>offsets. Ok \<lparr>llp_layout = \<lparr>list_offsets = offsets\<rparr>, llp_child_row_count = child_row_count\<rparr>))))))"

definition ListLayoutPayload_encode :: "ListLayoutPayload \<Rightarrow> bytes" where
  "ListLayoutPayload_encode p =
     le_bytes 4 (llp_child_row_count p) @
     le_bytes 4 (of_nat (length (list_offsets (llp_layout p))) :: u32) @
     concat (map (le_bytes 4) (list_offsets (llp_layout p)))"

definition ListLayoutPayload_validate :: "ListLayoutPayload \<Rightarrow> unit result" where
  "ListLayoutPayload_validate p =
     ListLayout_validate_child_count (llp_layout p) (unat (llp_child_row_count p))"

section \<open>Structs\<close>

record StructLayout =
  field_row_counts :: "u64 list"

definition StructLayout_validate :: "StructLayout \<Rightarrow> unit result" where
  "StructLayout_validate s =
     (if field_row_counts s = [] then Err PageCorrupt
      else let head = field_row_counts s ! 0
           in if list_ex (\<lambda>r. r \<noteq> head) (tl (field_row_counts s)) then Err PageCorrupt
              else Ok ())"

definition StructLayout_validate_parent_row_count ::
  "StructLayout \<Rightarrow> u64 \<Rightarrow> bool \<Rightarrow> unit result" where
  "StructLayout_validate_parent_row_count s parent_row_count parent_null_handling_declared =
     and_then (StructLayout_validate s) (\<lambda>_.
       if \<not> parent_null_handling_declared then Err PageCorrupt
       else if field_row_counts s ! 0 \<noteq> parent_row_count then Err PageCorrupt
       else Ok ())"

definition StructLayout_row_count :: "StructLayout \<Rightarrow> u64 result" where
  "StructLayout_row_count s =
     and_then (StructLayout_validate s) (\<lambda>_. Ok (field_row_counts s ! 0))"

record StructLayoutPayload =
  slp_layout :: StructLayout
  slp_parent_null_handling_declared :: bool

text \<open>The byte match \<open>0 => false, 1 => true, _ => PageCorrupt\<close>.\<close>

definition page_bool :: "u8 \<Rightarrow> bool result" where
  "page_bool b = (if b = 0 then Ok False else if b = 1 then Ok True else Err PageCorrupt)"

definition StructLayoutPayload_parse :: "bytes \<Rightarrow> StructLayoutPayload result" where
  "StructLayoutPayload_parse bs =
     (if length bs < 8 then Err BufferTooShort
      else if slice 1 3 bs \<noteq> [0, 0, 0] then Err PageCorrupt
      else and_then (page_bool (bs ! 0)) (\<lambda>parent_null_handling_declared.
           and_then (map_result unat (read_u32_le bs 4)) (\<lambda>field_count.
           and_then (checked_mul field_count 8) (\<lambda>counts_bytes_len.
           let counts_start = 8 in
           and_then (checked_add counts_start counts_bytes_len) (\<lambda>counts_end.
           if counts_end > length bs then Err BufferTooShort
           else if counts_end < length bs then Err PageCorrupt
           else and_then (collect_map (\<lambda>index. read_u64_le bs (counts_start + index * 8)) [0..<field_count])
             (\<lambda>counts. Ok \<lparr>slp_layout = \<lparr>field_row_counts = counts\<rparr>,
                           slp_parent_null_handling_declared = parent_null_handling_declared\<rparr>))))))"

definition StructLayoutPayload_encode :: "StructLayoutPayload \<Rightarrow> bytes" where
  "StructLayoutPayload_encode p =
     [if slp_parent_null_handling_declared p then 1 else 0] @ [0, 0, 0] @
     le_bytes 4 (of_nat (length (field_row_counts (slp_layout p))) :: u32) @
     concat (map (le_bytes 8) (field_row_counts (slp_layout p)))"

definition StructLayoutPayload_validate :: "StructLayoutPayload \<Rightarrow> u64 \<Rightarrow> unit result" where
  "StructLayoutPayload_validate p parent_row_count =
     StructLayout_validate_parent_row_count (slp_layout p) parent_row_count
       (slp_parent_null_handling_declared p)"

section \<open>Maps\<close>

record MapLayout =
  map_offsets :: "u32 list"
  map_key_row_count :: u32
  map_value_row_count :: u32
  map_keys_are_scalar :: bool
  map_allow_duplicate_keys :: bool
  map_canonical_keys :: "bytes list"

text \<open>\<open>seen\<close> is the hash set; \<open>insert\<close> answers whether the key is new.\<close>

fun validate_no_duplicate_keys_loop :: "bytes set \<Rightarrow> bytes list \<Rightarrow> unit result" where
  "validate_no_duplicate_keys_loop seen [] = Ok ()"
| "validate_no_duplicate_keys_loop seen (k # ks) =
     (if k \<in> seen then Err PageCorrupt else validate_no_duplicate_keys_loop (insert k seen) ks)"

definition validate_no_duplicate_keys :: "bytes list \<Rightarrow> unit result" where
  "validate_no_duplicate_keys ks = validate_no_duplicate_keys_loop {} ks"

text \<open>The loop over \<open>offsets.windows(2)\<close>; slicing the keys out of range would panic.\<close>

fun map_value_keys_loop :: "bytes list \<Rightarrow> u32 list \<Rightarrow> unit result" where
  "map_value_keys_loop ks (a # b # os) =
     (let start = unat a; end' = unat b
      in if start > end' \<or> end' > length ks then Panic
         else and_then (validate_no_duplicate_keys (slice start (end' - start) ks)) (\<lambda>_.
              map_value_keys_loop ks (b # os)))"
| "map_value_keys_loop ks _ = Ok ()"

definition MapLayout_validate :: "MapLayout \<Rightarrow> unit result" where
  "MapLayout_validate m =
     (if \<not> map_keys_are_scalar m then Err PageCorrupt
      else let list_layout = \<lparr>list_offsets = map_offsets m\<rparr> in
        and_then (ListLayout_validate list_layout) (\<lambda>_.
        if map_key_row_count m \<noteq> map_value_row_count m then Err PageCorrupt
        else and_then (ListLayout_validate_child_count list_layout (unat (map_key_row_count m))) (\<lambda>_.
        if length (map_canonical_keys m) \<noteq> unat (map_key_row_count m) then Err PageCorrupt
        else if \<not> map_allow_duplicate_keys m
        then map_value_keys_loop (map_canonical_keys m) (map_offsets m)
        else Ok ())))"

definition MapLayout_row_count :: "MapLayout \<Rightarrow> usize" where
  "MapLayout_row_count m = length (map_offsets m) - 1"

fun map_keys_parse_loop :: "bytes \<Rightarrow> usize \<Rightarrow> nat \<Rightarrow> (bytes list \<times> usize) result" where
  "map_keys_parse_loop bs pos 0 = Ok ([], pos)"
| "map_keys_parse_loop bs pos (Suc n) =
     and_then (map_result unat (read_u32_le bs pos)) (\<lambda>key_len.
     and_then (checked_add pos 4) (\<lambda>pos.
     and_then (read_range_checked bs pos key_len) (\<lambda>key.
     and_then (checked_add pos key_len) (\<lambda>pos.
     and_then (map_keys_parse_loop bs pos n) (\<lambda>(ks, pos). Ok (key # ks, pos))))))"

definition MapLayoutPayload_parse :: "bytes \<Rightarrow> MapLayout result" where
  "MapLayoutPayload_parse bs =
     (if length bs < 16 then Err BufferTooShort
      else and_then (map_result unat (read_u32_le bs 0)) (\<lambda>offset_count.
           and_then (read_u32_le bs 4) (\<lambda>key_row_count.
           and_then (read_u32_le bs 8) (\<lambda>value_row_count.
           and_then (page_bool (bs ! 12)) (\<lambda>keys_are_scalar.
           and_then (page_bool (bs ! 13)) (\<lambda>allow_duplicate_keys.
           if slice 14 2 bs \<noteq> [0, 0] then Err PageCorrupt
           else and_then (checked_mul offset_count 4) (\<lambda>offsets_bytes_len.
           let offsets_start = 16 in
           and_then (checked_add offsets_start offsets_bytes_len) (\<lambda>offsets_end.
           if offsets_end > length bs then Err BufferTooShort
           else and_then (collect_map (\<lambda>index. read_u32_le bs (offsets_start + index * 4)) [0..<offset_count])
             (\<lambda>offsets.
           and_then (map_keys_parse_loop bs offsets_end (unat key_row_count)) (\<lambda>(canonical_keys, pos).
           if pos \<noteq> length bs then Err PageCorrupt
           else Ok \<lparr>map_offsets = offsets, map_key_row_count = key_row_count,
                    map_value_row_count = value_row_count, map_keys_are_scalar = keys_are_scalar,
                    map_allow_duplicate_keys = allow_duplicate_keys,
                    map_canonical_keys = canonical_keys\<rparr>))))))))))"

definition MapLayoutPayload_encode :: "MapLayout \<Rightarrow> bytes" where
  "MapLayoutPayload_encode m =
     le_bytes 4 (of_nat (length (map_offsets m)) :: u32) @
     le_bytes 4 (map_key_row_count m) @ le_bytes 4 (map_value_row_count m) @
     [if map_keys_are_scalar m then 1 else 0] @ [if map_allow_duplicate_keys m then 1 else 0] @
     le_bytes 2 (0 :: u16) @
     concat (map (le_bytes 4) (map_offsets m)) @
     concat (map (\<lambda>k. le_bytes 4 (of_nat (length k) :: u32) @ k) (map_canonical_keys m))"

section \<open>Reading tables\<close>

lemma read_u32_le_in: "off + 4 \<le> length bs \<Longrightarrow> length bs < usize_bound \<Longrightarrow> read_u32_le bs off = Ok (u32_at bs off)"
  by (simp add: read_u32_le_def read_range_checked_def)

lemma read_u64_le_in: "off + 8 \<le> length bs \<Longrightarrow> length bs < usize_bound \<Longrightarrow> read_u64_le bs off = Ok (u64_at bs off)"
  by (simp add: read_u64_le_def read_range_checked_def)

lemma read_no_panic [simp]: "read_u32_le bs off \<noteq> Panic" "read_u64_le bs off \<noteq> Panic"
  by (simp_all add: read_u32_le_def read_u64_le_def read_range_checked_def)

lemma read_u32_table:
  assumes "off + n * 4 \<le> length bs" and "length bs < usize_bound"
  shows "collect_map (\<lambda>i. read_u32_le bs (off + i * 4)) [0..<n] = Ok (map from_le (chunks_at off 4 n bs))"
proof -
  have "read_u32_le bs (off + i * 4) = Ok (u32_at bs (off + i * 4))" if "i < n" for i
    using that assms by (intro read_u32_le_in) simp_all
  then have "collect_map (\<lambda>i. read_u32_le bs (off + i * 4)) [0..<n] =
      Ok (map (\<lambda>i. u32_at bs (off + i * 4)) [0..<n])"
    by (intro collect_map_Ok) simp
  then show ?thesis by (simp add: chunks_at_def comp_def)
qed

lemma read_u64_table:
  assumes "off + n * 8 \<le> length bs" and "length bs < usize_bound"
  shows "collect_map (\<lambda>i. read_u64_le bs (off + i * 8)) [0..<n] = Ok (map from_le (chunks_at off 8 n bs))"
proof -
  have "read_u64_le bs (off + i * 8) = Ok (u64_at bs (off + i * 8))" if "i < n" for i
    using that assms by (intro read_u64_le_in) simp_all
  then have "collect_map (\<lambda>i. read_u64_le bs (off + i * 8)) [0..<n] =
      Ok (map (\<lambda>i. u64_at bs (off + i * 8)) [0..<n])"
    by (intro collect_map_Ok) simp
  then show ?thesis by (simp add: chunks_at_def comp_def)
qed

section \<open>Payloads survive the wire\<close>

definition list_payload_wf :: "ListLayoutPayload \<Rightarrow> bool" where
  "list_payload_wf p \<longleftrightarrow> length (list_offsets (llp_layout p)) < 2 ^ 32"

definition struct_payload_wf :: "StructLayoutPayload \<Rightarrow> bool" where
  "struct_payload_wf p \<longleftrightarrow> length (field_row_counts (slp_layout p)) < 2 ^ 32"

definition map_payload_wf :: "MapLayout \<Rightarrow> bool" where
  "map_payload_wf m \<longleftrightarrow> length (map_offsets m) < 2 ^ 32 \<and>
     length (map_canonical_keys m) = unat (map_key_row_count m) \<and>
     (\<forall>k \<in> set (map_canonical_keys m). length k < 2 ^ 32) \<and>
     length (MapLayoutPayload_encode m) < usize_bound"

lemma list_payload_roundtrip:
  assumes "list_payload_wf p"
  shows "ListLayoutPayload_parse (ListLayoutPayload_encode p) = Ok p"
proof -
  let ?bs = "ListLayoutPayload_encode p" and ?n = "length (list_offsets (llp_layout p))"
  have l: "length ?bs = 8 + ?n * 4" by (simp add: ListLayoutPayload_encode_def le_u32.length_table)
  have h: "u32_at ?bs 0 = llp_child_row_count p" "unat (u32_at ?bs 4) = ?n"
    using assms by (simp_all add: ListLayoutPayload_encode_def list_payload_wf_def wire_simps)
  have t: "map from_le (chunks_at 8 4 ?n ?bs) = list_offsets (llp_layout p)"
    using le_u32.read_write [of 8 "le_bytes 4 (llp_child_row_count p) @ le_bytes 4 (of_nat ?n :: u32)" ?n
        "list_offsets (llp_layout p)" "[]"] by (simp add: ListLayoutPayload_encode_def)
  show ?thesis using assms
    by (simp add: ListLayoutPayload_parse_def l h t read_u32_le_in read_u32_table list_payload_wf_def
        checked_mul_def checked_add_def)
qed

lemma struct_payload_roundtrip:
  assumes "struct_payload_wf p"
  shows "StructLayoutPayload_parse (StructLayoutPayload_encode p) = Ok p"
proof -
  let ?bs = "StructLayoutPayload_encode p" and ?n = "length (field_row_counts (slp_layout p))"
  have l: "length ?bs = 8 + ?n * 8" by (simp add: StructLayoutPayload_encode_def le_u64.length_table)
  have h: "slice (Suc 0) 3 ?bs = [0, 0, 0]" "unat (u32_at ?bs 4) = ?n"
      "page_bool (?bs ! 0) = Ok (slp_parent_null_handling_declared p)"
    using assms by (simp_all add: StructLayoutPayload_encode_def struct_payload_wf_def wire_simps
        page_bool_def slice_def numeral_3_eq_3)
  have t: "map from_le (chunks_at 8 8 ?n ?bs) = field_row_counts (slp_layout p)"
    using le_u64.read_write [of 8 "[if slp_parent_null_handling_declared p then 1 else 0, 0, 0, 0] @
        le_bytes 4 (of_nat ?n :: u32)" ?n "field_row_counts (slp_layout p)" "[]"]
    by (simp add: StructLayoutPayload_encode_def)
  show ?thesis using assms
    by (simp add: StructLayoutPayload_parse_def l h t read_u32_le_in read_u64_table
        struct_payload_wf_def checked_mul_def checked_add_def)
qed

lemma map_keys_parse_concat:
  assumes "\<forall>k \<in> set ks. length k < 2 ^ 32"
    and "length (pre @ concat (map (\<lambda>k. le_bytes 4 (of_nat (length k) :: u32) @ k) ks) @ post) < usize_bound"
  shows "map_keys_parse_loop
      (pre @ concat (map (\<lambda>k. le_bytes 4 (of_nat (length k) :: u32) @ k) ks) @ post) (length pre) (length ks) =
    Ok (ks, length pre + length (concat (map (\<lambda>k. le_bytes 4 (of_nat (length k) :: u32) @ k) ks)))"
  using assms
proof (induction ks arbitrary: pre)
  case (Cons k ks)
  let ?w = "le_bytes 4 (of_nat (length k) :: u32)"
  let ?rest = "concat (map (\<lambda>k. le_bytes 4 (of_nat (length k) :: u32) @ k) ks) @ post"
  have n: "unat (of_nat (length k) :: u32) = length k" using Cons.prems by (simp add: unat_of_nat_less)
  have "map_keys_parse_loop ((pre @ ?w @ k) @ ?rest) (length (pre @ ?w @ k)) (length ks) =
      Ok (ks, length (pre @ ?w @ k) + length (concat (map (\<lambda>k. le_bytes 4 (of_nat (length k) :: u32) @ k) ks)))"
    using Cons.prems by (intro Cons.IH) simp_all
  moreover have "read_u32_le (pre @ ?w @ k @ ?rest) (length pre) = Ok (of_nat (length k))"
    using Cons.prems by (simp add: read_u32_le_in wire_simps)
  ultimately show ?case using Cons.prems
    by (simp add: n checked_add_def read_range_checked_def add.assoc wire_simps)
qed simp

lemma map_payload_roundtrip:
  assumes wf: "map_payload_wf m"
  shows "MapLayoutPayload_parse (MapLayoutPayload_encode m) = Ok m"
proof -
  let ?bs = "MapLayoutPayload_encode m" and ?n = "length (map_offsets m)"
  let ?ks = "concat (map (\<lambda>k. le_bytes 4 (of_nat (length k) :: u32) @ k) (map_canonical_keys m))"
  let ?hd = "le_bytes 4 (of_nat ?n :: u32) @ le_bytes 4 (map_key_row_count m) @
      le_bytes 4 (map_value_row_count m) @ [if map_keys_are_scalar m then 1 else 0] @
      [if map_allow_duplicate_keys m then 1 else 0] @ le_bytes 2 (0 :: u16)"
  have bs: "?bs = ?hd @ concat (map (le_bytes 4) (map_offsets m)) @ ?ks"
    by (simp add: MapLayoutPayload_encode_def)
  have l: "length ?bs = 16 + ?n * 4 + length ?ks" "length ?bs < usize_bound"
    using wf by (simp_all add: bs le_u32.length_table map_payload_wf_def)
  have z: "le_bytes 2 (0 :: u16) = [0, 0]" by (simp add: le_bytes_def numeral_2_eq_2)
  have h: "unat (u32_at ?bs 0) = ?n" "u32_at ?bs 4 = map_key_row_count m" "u32_at ?bs 8 = map_value_row_count m"
      "page_bool (?bs ! 12) = Ok (map_keys_are_scalar m)" "page_bool (?bs ! 13) = Ok (map_allow_duplicate_keys m)"
    using wf by (simp_all add: bs map_payload_wf_def wire_simps page_bool_def nth_append)
  have z14: "slice 14 2 ?bs = [0, 0]"
    by (simp add: bs z wire_simps) (simp add: slice_def)
  have t: "map from_le (chunks_at 16 4 ?n ?bs) = map_offsets m"
    unfolding bs by (rule le_u32.read_write) simp_all
  have "map_keys_parse_loop ((?hd @ concat (map (le_bytes 4) (map_offsets m))) @ ?ks @ [])
      (length (?hd @ concat (map (le_bytes 4) (map_offsets m)))) (length (map_canonical_keys m)) =
    Ok (map_canonical_keys m, length (?hd @ concat (map (le_bytes 4) (map_offsets m))) + length ?ks)"
    using wf l by (intro map_keys_parse_concat) (simp_all add: map_payload_wf_def bs)
  then have k: "map_keys_parse_loop ?bs (16 + ?n * 4) (unat (map_key_row_count m)) = Ok (map_canonical_keys m, length ?bs)"
    using wf by (simp add: bs le_u32.length_table map_payload_wf_def)
  have "?n * 4 < usize_bound" "16 + ?n * 4 < usize_bound" using l by simp_all
  then show ?thesis using l
    by (simp add: MapLayoutPayload_parse_def h z14 t k read_u32_le_in read_u32_table checked_mul_def checked_add_def)
qed

interpretation list_wire: wire_codec "\<lambda>p. Ok (ListLayoutPayload_encode p)" ListLayoutPayload_parse list_payload_wf
  by unfold_locales (simp add: list_payload_roundtrip)

interpretation struct_wire: wire_codec "\<lambda>p. Ok (StructLayoutPayload_encode p)" StructLayoutPayload_parse struct_payload_wf
  by unfold_locales (simp add: struct_payload_roundtrip)

interpretation map_wire: wire_codec "\<lambda>m. Ok (MapLayoutPayload_encode m)" MapLayoutPayload_parse map_payload_wf
  by unfold_locales (simp add: map_payload_roundtrip)

section \<open>What the validators establish\<close>

lemma list_validate_iff:
  "ListLayout_validate l = Ok () \<longleftrightarrow>
     list_offsets l \<noteq> [] \<and> list_offsets l ! 0 = 0 \<and> windows2 (\<le>) (list_offsets l)"
  by (simp add: ListLayout_validate_def not_less)

lemma list_child_count_iff:
  "ListLayout_validate_child_count l n = Ok () \<longleftrightarrow>
     ListLayout_validate l = Ok () \<and> unat (last (list_offsets l)) = n"
  by (auto simp: ListLayout_validate_child_count_def result_simps)

lemma mono_cover:
  fixes f :: "nat \<Rightarrow> nat"
  assumes mono: "\<And>i j. i \<le> j \<Longrightarrow> j \<le> m \<Longrightarrow> f i \<le> f j" and "f 0 = 0" and "k < f m"
  shows "\<exists>!i. i < m \<and> f i \<le> k \<and> k < f (Suc i)"
proof (rule ex_ex1I)
  have "\<exists>j. j \<le> m \<and> k < f j" using assms by blast
  then obtain j where j: "j \<le> m" "k < f j" "\<And>i. i < j \<Longrightarrow> \<not> (i \<le> m \<and> k < f i)"
    using exists_least_iff [of "\<lambda>j. j \<le> m \<and> k < f j"] by blast
  with assms(2) obtain i where "j = Suc i" by (cases j) auto
  with j show "\<exists>i. i < m \<and> f i \<le> k \<and> k < f (Suc i)" by (intro exI [of _ i]) (auto simp: not_less Suc_le_eq)
next
  fix i j assume "i < m \<and> f i \<le> k \<and> k < f (Suc i)" "j < m \<and> f j \<le> k \<and> k < f (Suc j)"
  then show "i = j"
    using mono [of "Suc i" j] mono [of "Suc j" i] by (cases i j rule: linorder_cases) auto
qed

lemma no_duplicates_iff:
  "validate_no_duplicate_keys_loop seen ks = Ok () \<longleftrightarrow> distinct ks \<and> set ks \<inter> seen = {}"
  by (induction ks arbitrary: seen) auto

lemma no_duplicates_no_panic: "validate_no_duplicate_keys_loop seen ks \<noteq> Panic"
  by (induction ks arbitrary: seen) auto

lemma map_value_keys_loop_iff:
  assumes "windows2 (\<le>) os" and "\<forall>e \<in> set os. unat e \<le> length ks"
  shows "map_value_keys_loop ks os \<noteq> Panic \<and>
    (map_value_keys_loop ks os = Ok () \<longleftrightarrow>
      windows2 (\<lambda>a b. distinct (slice (unat a) (unat b - unat a) ks)) os)"
  using assms
proof (induction ks os rule: map_value_keys_loop.induct)
  case (1 ks a b os)
  then have le: "unat a \<le> unat b" "unat b \<le> length ks" by (simp_all add: word_le_nat_alt)
  let ?ks = "slice (unat a) (unat b - unat a) ks"
  have rec: "map_value_keys_loop ks (b # os) \<noteq> Panic \<and>
    (map_value_keys_loop ks (b # os) = Ok () \<longleftrightarrow>
      windows2 (\<lambda>a b. distinct (slice (unat a) (unat b - unat a) ks)) (b # os))"
    using "1.IH" [OF refl refl] "1.prems" le by auto
  show ?case
  proof (cases "distinct ?ks")
    case True
    then have "validate_no_duplicate_keys ?ks = Ok ()"
      by (simp add: validate_no_duplicate_keys_def no_duplicates_iff)
    with True rec le show ?thesis by (simp add: Let_def)
  next
    case False
    then have "validate_no_duplicate_keys ?ks \<noteq> Ok ()" "validate_no_duplicate_keys ?ks \<noteq> Panic"
      by (simp_all add: validate_no_duplicate_keys_def no_duplicates_iff no_duplicates_no_panic)
    then obtain e where "validate_no_duplicate_keys ?ks = Err e"
      by (cases "validate_no_duplicate_keys ?ks") auto
    with False le show ?thesis by (simp add: Let_def)
  qed
qed auto

lemma list_offsets_le_last:
  assumes "ListLayout_validate l = Ok ()" and "e \<in> set (list_offsets l)"
  shows "e \<le> last (list_offsets l)"
proof -
  from assms have s: "sorted_wrt (\<le>) (list_offsets l)" by (simp add: list_validate_iff windows2_le)
  from assms(2) obtain i where i: "i < length (list_offsets l)" "e = list_offsets l ! i"
    by (metis in_set_conv_nth)
  from i have "list_offsets l \<noteq> []" by auto
  then have "last (list_offsets l) = list_offsets l ! (length (list_offsets l) - 1)"
    by (rule last_conv_nth)
  with i s show ?thesis
    by (cases "i = length (list_offsets l) - 1") (simp_all add: sorted_wrt_iff_nth_less)
qed

section \<open>Properties\<close>

text \<open>the three nested page payloads survive the wire: list offsets, struct field counts and
  map layouts with their canonical keys are parsed back to what was encoded.\<close>

theorem nested_payloads_roundtrip:
  assumes "list_payload_wf l" and "struct_payload_wf s" and "map_payload_wf m"
  shows "ListLayoutPayload_parse (ListLayoutPayload_encode l) = Ok l \<and>
    StructLayoutPayload_parse (StructLayoutPayload_encode s) = Ok s \<and>
    MapLayoutPayload_parse (MapLayoutPayload_encode m) = Ok m"
  using list_payload_roundtrip [OF assms(1)] struct_payload_roundtrip [OF assms(2)]
    map_payload_roundtrip [OF assms(3)] by simp

lemma nested_payloads_roundtrip_witness:
  "MapLayoutPayload_parse (MapLayoutPayload_encode
     \<lparr>map_offsets = [0, 2], map_key_row_count = 2, map_value_row_count = 2, map_keys_are_scalar = True,
      map_allow_duplicate_keys = False, map_canonical_keys = [[1], [2, 3]]\<rparr>) =
   Ok \<lparr>map_offsets = [0, 2], map_key_row_count = 2, map_value_row_count = 2, map_keys_are_scalar = True,
      map_allow_duplicate_keys = False, map_canonical_keys = [[1], [2, 3]]\<rparr>"
  using nested_payloads_roundtrip
    [of "\<lparr>llp_layout = \<lparr>list_offsets = [0, 1]\<rparr>, llp_child_row_count = 1\<rparr>"
      "\<lparr>slp_layout = \<lparr>field_row_counts = [4, 4]\<rparr>, slp_parent_null_handling_declared = True\<rparr>"
      "\<lparr>map_offsets = [0, 2], map_key_row_count = 2, map_value_row_count = 2, map_keys_are_scalar = True,
        map_allow_duplicate_keys = False, map_canonical_keys = [[1], [2, 3]]\<rparr>"]
  by (simp add: list_payload_wf_def struct_payload_wf_def map_payload_wf_def MapLayoutPayload_encode_def)

text \<open>a list layout that passes validation against its child row count splits the child rows:
  every child row lies in the range of exactly one list row.\<close>

theorem list_layout_partitions_children:
  assumes "ListLayout_validate_child_count l n = Ok ()" and "k < n"
  shows "\<exists>!i. i < ListLayout_row_count l \<and> unat (list_offsets l ! i) \<le> k \<and> k < unat (list_offsets l ! Suc i)"
proof -
  from assms have v: "list_offsets l \<noteq> []" "list_offsets l ! 0 = 0" "sorted_wrt (\<le>) (list_offsets l)"
    "unat (last (list_offsets l)) = n"
    by (auto simp: list_child_count_iff list_validate_iff windows2_le)
  show ?thesis unfolding ListLayout_row_count_def
  proof (rule mono_cover [of "length (list_offsets l) - 1" "\<lambda>i. unat (list_offsets l ! i)"])
    fix i j assume "i \<le> j" "j \<le> length (list_offsets l) - 1"
    with v have "list_offsets l ! i \<le> list_offsets l ! j"
      by (cases "i = j") (auto simp: sorted_wrt_iff_nth_less Suc_le_eq length_greater_0_conv [symmetric]
          simp del: length_greater_0_conv)
    then show "unat (list_offsets l ! i) \<le> unat (list_offsets l ! j)" by (simp add: word_le_nat_alt)
  qed (use v assms(2) in \<open>simp_all add: last_conv_nth\<close>)
qed

lemma list_layout_partitions_children_witness:
  "\<exists>!i. i < ListLayout_row_count \<lparr>list_offsets = [0, 3, 3, 7]\<rparr> \<and>
     unat ([0, 3, 3, 7 :: u32] ! i) \<le> 4 \<and> 4 < unat ([0, 3, 3, 7 :: u32] ! Suc i)"
  using list_layout_partitions_children [of "\<lparr>list_offsets = [0, 3, 3, 7]\<rparr>" 7 4]
  by (simp add: list_child_count_iff list_validate_iff)

text \<open>C25: the map validator never indexes its keys out of range, and it accepts a layout that
  forbids duplicate keys exactly when the keys are scalar, the offsets partition the key rows,
  keys and values are equally many, and no map value contains a key twice.\<close>

theorem map_validate_exact:
  assumes "\<not> map_allow_duplicate_keys m"
  shows "MapLayout_validate m \<noteq> Panic \<and>
    (MapLayout_validate m = Ok () \<longleftrightarrow>
       map_keys_are_scalar m \<and> map_key_row_count m = map_value_row_count m \<and>
       ListLayout_validate_child_count \<lparr>list_offsets = map_offsets m\<rparr> (length (map_canonical_keys m)) = Ok () \<and>
       length (map_canonical_keys m) = unat (map_key_row_count m) \<and>
       windows2 (\<lambda>a b. distinct (slice (unat a) (unat b - unat a) (map_canonical_keys m))) (map_offsets m))"
proof (cases "ListLayout_validate \<lparr>list_offsets = map_offsets m\<rparr> = Ok () \<and>
    unat (last (map_offsets m)) = length (map_canonical_keys m)")
  case True
  have "\<forall>e \<in> set (map_offsets m). unat e \<le> length (map_canonical_keys m)"
    using list_offsets_le_last [of "\<lparr>list_offsets = map_offsets m\<rparr>"] True
    by (auto simp: word_le_nat_alt)
  moreover have "windows2 (\<le>) (map_offsets m)" using True by (simp add: list_validate_iff)
  ultimately have "map_value_keys_loop (map_canonical_keys m) (map_offsets m) \<noteq> Panic \<and>
    (map_value_keys_loop (map_canonical_keys m) (map_offsets m) = Ok () \<longleftrightarrow>
      windows2 (\<lambda>a b. distinct (slice (unat a) (unat b - unat a) (map_canonical_keys m))) (map_offsets m))"
    by (intro map_value_keys_loop_iff)
  with True assms show ?thesis
    by (auto simp: MapLayout_validate_def Let_def list_child_count_iff ListLayout_validate_child_count_def)
next
  case False
  have "ListLayout_validate l \<noteq> Panic" for l by (simp add: ListLayout_validate_def)
  with False assms show ?thesis
    by (cases "ListLayout_validate \<lparr>list_offsets = map_offsets m\<rparr>")
      (auto simp: MapLayout_validate_def Let_def list_child_count_iff ListLayout_validate_child_count_def)
qed

lemma map_validate_exact_witness:
  "MapLayout_validate \<lparr>map_offsets = [0, 2, 3], map_key_row_count = 3, map_value_row_count = 3,
     map_keys_are_scalar = True, map_allow_duplicate_keys = False,
     map_canonical_keys = [[1], [2], [1]]\<rparr> = Ok ()"
  using map_validate_exact [of "\<lparr>map_offsets = [0, 2, 3], map_key_row_count = 3, map_value_row_count = 3,
     map_keys_are_scalar = True, map_allow_duplicate_keys = False,
     map_canonical_keys = [[1], [2], [1]]\<rparr>"]
  by (simp add: list_child_count_iff list_validate_iff slice_def)

end
