(* ===== verification/Encodings_Runs.thy ===== *)
theory Encodings_Runs
  imports Encoding
begin

text \<open>
  The encodings whose parser enforces an order between rows: run lengths (\<open>encoding/rle.rs\<close>),
  run ends (\<open>encoding/run_end.rs\<close>) and the two overlays that replace single positions,
  \<open>encoding/patched_base.rs\<close> and \<open>encoding/sparse.rs\<close>. The RLE parser is characterised
  exactly: it accepts the encodings of the well-formed payloads and nothing else.
\<close>

section \<open>Run lengths (rle.rs)\<close>

record RlePayload =
  rle_runs :: "(i64 \<times> u32) list"

text \<open>The loop \<open>for i in 0..run_count\<close>, with \<open>total\<close> and \<open>prev_value\<close> as accumulators.\<close>

fun rle_parse_loop ::
  "bytes \<Rightarrow> usize \<Rightarrow> nat \<Rightarrow> u64 \<Rightarrow> i64 option \<Rightarrow> ((i64 \<times> u32) list \<times> u64) result" where
  "rle_parse_loop bs i 0 tot prev_value = Ok ([], tot)"
| "rle_parse_loop bs i (Suc n) tot prev_value =
     (let off = 4 + i * 12;
          v = from_le (slice off 8 bs) :: i64;
          len = u32_at bs (off + 8)
      in if len = 0 then Err PageCorrupt
         else if prev_value = Some v then Err PageCorrupt
         else if unat tot + unat len \<ge> 2 ^ 64 then Err ArithOverflow
         else and_then (rle_parse_loop bs (Suc i) n (tot + ucast len) (Some v)) (\<lambda>(runs, t).
                Ok ((v, len) # runs, t)))"

definition RlePayload_parse :: "bytes \<Rightarrow> RlePayload result" where
  "RlePayload_parse bs =
     (if length bs < 4 then Err BufferTooShort
      else let run_count = unat (u32_at bs 0);
               need = 4 + run_count * 12
           in if length bs < need then Err BufferTooShort
              else and_then (rle_parse_loop bs 0 run_count 0 None) (\<lambda>(runs, tot).
                     if tot > 0xFFFFFFFF then Err PageCorrupt
                     else Ok \<lparr>rle_runs = runs\<rparr>))"

definition RlePayload_encode :: "RlePayload \<Rightarrow> bytes" where
  "RlePayload_encode p =
     le_bytes 4 (of_nat (length (rle_runs p)) :: u32) @
     concat (map (\<lambda>(v, len). le_bytes 8 v @ le_bytes 4 len) (rle_runs p))"

text \<open>\<open>out.resize(out.len() + len, v)\<close> for every run.\<close>

primrec rle_resize_loop :: "i64 list \<Rightarrow> (i64 \<times> u32) list \<Rightarrow> i64 list" where
  "rle_resize_loop out [] = out"
| "rle_resize_loop out (run # runs) =
     rle_resize_loop (out @ replicate (unat (snd run)) (fst run)) runs"

definition Rle_canonical_decode :: "RlePayload \<Rightarrow> i64 list result" where
  "Rle_canonical_decode p = Ok (rle_resize_loop [] (rle_runs p))"

definition Rle_fast_decode :: "RlePayload \<Rightarrow> i64 list result" where
  "Rle_fast_decode p = Ok (rle_resize_loop [] (rle_runs p))"

definition rle_total :: "(i64 \<times> u32) list \<Rightarrow> nat" where
  "rle_total runs = (\<Sum>r\<leftarrow>runs. unat (snd r))"

definition rle_wf :: "RlePayload \<Rightarrow> bool" where
  "rle_wf p \<longleftrightarrow> (\<forall>r \<in> set (rle_runs p). snd r \<noteq> 0) \<and>
     windows2 (\<lambda>r s. fst r \<noteq> fst s) (rle_runs p) \<and> rle_total (rle_runs p) \<le> 0xFFFFFFFF"

interpretation rle_record: fixed_record 12 "\<lambda>(v, len). le_bytes 8 (v :: i64) @ le_bytes 4 (len :: u32)"
  "\<lambda>b. (from_le (slice 0 8 b), from_le (slice 8 4 b))"
proof
  fix b :: bytes assume "length b = 12"
  then show "(case (from_le (slice 0 8 b), from_le (slice 8 4 b)) of
      (v, len) \<Rightarrow> le_bytes 8 (v :: i64) @ le_bytes 4 (len :: u32)) = b"
    using slice_split [of 0 8 4 b] by (simp add: le_bytes_from_le slice_whole)
qed (auto simp: wire_simps)

lemma rle_total_Cons [simp]: "rle_total (r # runs) = unat (snd r) + rle_total runs"
  by (simp add: rle_total_def)

lemma rle_resize_loop_eq:
  "rle_resize_loop out runs = out @ concat (map (\<lambda>r. replicate (unat (snd r)) (fst r)) runs)"
  by (induction runs arbitrary: out) simp_all

lemma rle_resize_length: "length (rle_resize_loop [] runs) = rle_total runs"
  by (simp add: rle_resize_loop_eq rle_total_def length_concat comp_def)

text \<open>The invariant of the loop, as a check on the runs it reads.\<close>

lemma rle_total_bound: "rle_total runs \<le> length runs * (2 ^ 32 - 1)"
proof (induction runs)
  case (Cons r runs)
  then show ?case using unat_less_power [of "snd r"] by simp
qed (simp add: rle_total_def)

lemma unat_add_ucast:
  fixes tot :: u64 and len :: u32
  assumes "unat tot + unat len < 2 ^ 64"
  shows "unat (tot + ucast len) = unat tot + unat len"
  using assms unat_less_power [of len]
  by (simp add: unat_word_ariths unsigned_ucast_eq take_bit_nat_eq_self)

lemma rle_parse_loop_iff:
  assumes "unat tot + n * 2 ^ 32 < 2 ^ 64"
  shows "rle_parse_loop bs i n tot prev = Ok (runs, t) \<longleftrightarrow>
     runs = map (\<lambda>b. (from_le (slice 0 8 b), from_le (slice 8 4 b))) (chunks_at (4 + i * 12) 12 n bs) \<and>
     (\<forall>r \<in> set runs. snd r \<noteq> 0) \<and>
     (runs \<noteq> [] \<longrightarrow> prev \<noteq> Some (fst (hd runs))) \<and> windows2 (\<lambda>r s. fst r \<noteq> fst s) runs \<and>
     unat t = unat tot + rle_total runs"
  using assms
proof (induction n arbitrary: i tot prev runs t)
  case 0
  then show ?case by (auto simp: rle_total_def word_unat_eq_iff)
next
  case (Suc n)
  let ?v = "from_le (slice (4 + i * 12) 8 bs) :: i64"
  let ?len = "u32_at bs (4 + i * 12 + 8)"
  have small: "unat ?len < 2 ^ 32" using unat_less_power [of ?len] by simp
  have eq: "unat (tot + ucast ?len) = unat tot + unat ?len"
    using small Suc.prems by (intro unat_add_ucast) simp
  then have b: "unat (tot + ucast ?len) + n * 2 ^ 32 < 2 ^ 64"
    using small Suc.prems by simp
  have step: "rle_parse_loop bs i (Suc n) tot prev = Ok (runs, t) \<longleftrightarrow>
      ?len \<noteq> 0 \<and> prev \<noteq> Some ?v \<and>
      (\<exists>rs. rle_parse_loop bs (Suc i) n (tot + ucast ?len) (Some ?v) = Ok (rs, t) \<and>
            runs = (?v, ?len) # rs)"
    using small Suc.prems by (auto simp: Let_def result_simps)
  have chunk: "slice 0 8 (slice (4 + i * 12) 12 bs) = slice (4 + i * 12) 8 bs"
    "slice 8 4 (slice (4 + i * 12) 12 bs) = slice (4 + i * 12 + 8) 4 bs"
    "4 + i * 12 + 12 = 4 + Suc i * 12"
    by (simp_all add: wire_simps)
  show ?case
    unfolding step Suc.IH [OF b] eq chunks_at_Suc chunk list.map
    by (cases n) (auto simp: chunks_at_Suc rle_total_def)
qed

lemma rle_length_bound:
  assumes "\<forall>r \<in> set runs. snd r \<noteq> 0" shows "length runs \<le> rle_total runs"
  using assms
proof (induction runs)
  case (Cons r runs)
  then have "0 < unat (snd r)" by (simp add: unat_gt_0)
  with Cons show ?case by simp
qed simp

lemma rle_parse_encode:
  assumes wf: "rle_wf p"
  shows "RlePayload_parse (RlePayload_encode p @ rest) = Ok p"
proof -
  let ?runs = "rle_runs p" and ?bs = "RlePayload_encode p @ rest"
  let ?n = "length ?runs"
  have n: "?n < 2 ^ 32" using rle_length_bound [of ?runs] wf by (simp add: rle_wf_def)
  have len: "length (RlePayload_encode p) = 4 + ?n * 12"
    by (simp add: RlePayload_encode_def rle_record.length_table)
  have tab: "map (\<lambda>b. (from_le (slice 0 8 b), from_le (slice 8 4 b))) (chunks_at 4 12 ?n ?bs) = ?runs"
    unfolding RlePayload_encode_def append_assoc by (rule rle_record.read_write) simp_all
  let ?t = "of_nat (rle_total ?runs) :: u64"
  have t: "unat ?t = rle_total ?runs"
    using wf by (intro unat_of_nat_less) (simp add: rle_wf_def)
  have loop: "rle_parse_loop ?bs 0 ?n 0 None = Ok (?runs, ?t)"
    by (subst rle_parse_loop_iff) (use n wf tab t in \<open>auto simp: rle_wf_def\<close>)
  have "\<not> ?t > 0xFFFFFFFF" using wf t by (simp add: word_less_nat_alt rle_wf_def not_less)
  moreover have "unat (u32_at ?bs 0) = ?n"
    using n by (simp add: RlePayload_encode_def wire_simps)
  ultimately show ?thesis using loop len by (simp add: RlePayload_parse_def)
qed

lemma rle_parse_wf:
  assumes "RlePayload_parse bs = Ok p"
  shows "rle_wf p \<and> (\<exists>rest. bs = RlePayload_encode p @ rest)"
proof -
  let ?n = "unat (u32_at bs 0)"
  have n: "unat (0 :: u64) + ?n * 2 ^ 32 < 2 ^ 64" using unat_less_power [of "u32_at bs 0"] by simp
  from assms obtain t where len: "4 + ?n * 12 \<le> length bs" "4 \<le> length bs"
    and loop: "rle_parse_loop bs 0 ?n 0 None = Ok (rle_runs p, t)" and t: "t \<le> 0xFFFFFFFF"
    by (auto simp: RlePayload_parse_def Let_def result_simps not_less split: if_splits)
  note facts = rle_parse_loop_iff [OF n, THEN iffD1, OF loop]
  have runs: "rle_runs p = map (\<lambda>b. (from_le (slice 0 8 b), from_le (slice 8 4 b))) (chunks_at 4 12 ?n bs)"
    using facts by simp
  have wf: "\<forall>r \<in> set (rle_runs p). snd r \<noteq> 0" "windows2 (\<lambda>r s. fst r \<noteq> fst s) (rle_runs p)"
    using facts by blast+
  have tot: "unat t = rle_total (rle_runs p)"
    using facts by simp
  have "rle_total (rle_runs p) \<le> 0xFFFFFFFF"
    using t tot by (simp add: word_le_nat_alt)
  moreover have "concat (map (\<lambda>(v, len). le_bytes 8 v @ le_bytes 4 len) (rle_runs p)) = slice 4 (?n * 12) bs"
    unfolding runs using len by (intro rle_record.write_read) simp
  moreover have "length (rle_runs p) = ?n" by (simp add: runs)
  ultimately have "rle_wf p" "RlePayload_encode p = slice 0 (4 + ?n * 12) bs"
    using wf len by (simp_all add: rle_wf_def RlePayload_encode_def le_bytes_from_le slice_split [of 0 4])
  moreover have "bs = slice 0 (4 + ?n * 12) bs @ drop (4 + ?n * 12) bs" by (simp add: slice_def)
  ultimately show ?thesis by metis
qed

interpretation rle: encoding_trait Rle_canonical_decode Rle_fast_decode rle_wf
  "\<lambda>p. rle_total (rle_runs p)"
  by unfold_locales (simp_all add: Rle_canonical_decode_def Rle_fast_decode_def rle_resize_length)

interpretation rle_wire: wire_codec "\<lambda>p. Ok (RlePayload_encode p)" RlePayload_parse rle_wf
  using rle_parse_encode [of _ "[]"] by unfold_locales simp

section \<open>Run ends (run_end.rs)\<close>

record RunEndPayload =
  re_values :: "i64 list"
  re_run_ends :: "u32 list"

text \<open>The loop over the run ends; \<open>prev\<close> starts at 0 and every end must exceed it.\<close>

fun run_end_parse_loop :: "bytes \<Rightarrow> nat \<Rightarrow> usize \<Rightarrow> nat \<Rightarrow> u64 \<Rightarrow> u32 list result" where
  "run_end_parse_loop bs n i 0 prev = Ok []"
| "run_end_parse_loop bs n i (Suc k) prev =
     (let off = 4 + n * 8 + i * 4;
          e = u32_at bs off
      in if (ucast e :: u64) \<le> prev then Err PageCorrupt
         else and_then (run_end_parse_loop bs n (Suc i) k (ucast e)) (\<lambda>es. Ok (e # es)))"

definition RunEndPayload_parse :: "bytes \<Rightarrow> RunEndPayload result" where
  "RunEndPayload_parse bs =
     (if length bs < 4 then Err BufferTooShort
      else let n = unat (u32_at bs 0);
               need = 4 + n * 8 + n * 4
           in if length bs < need then Err BufferTooShort
              else let values = read_i64s bs 4 n
                   in and_then (run_end_parse_loop bs n 0 n 0) (\<lambda>run_ends.
                        Ok \<lparr>re_values = values, re_run_ends = run_ends\<rparr>))"

text \<open>\<open>for _ in start..*end\<close> pushes nothing when the range is empty.\<close>

fun run_end_decode_loop :: "i64 list \<Rightarrow> u32 \<Rightarrow> (i64 \<times> u32) list \<Rightarrow> i64 list" where
  "run_end_decode_loop out start [] = out"
| "run_end_decode_loop out start ((v, e) # rest) =
     run_end_decode_loop (out @ replicate (unat e - unat start) v) e rest"

definition RunEnd_canonical_decode :: "RunEndPayload \<Rightarrow> i64 list result" where
  "RunEnd_canonical_decode p =
     (if length (re_values p) \<noteq> length (re_run_ends p) then Err PageCorrupt
      else Ok (run_end_decode_loop [] 0 (zip (re_values p) (re_run_ends p))))"

definition run_end_wf :: "RunEndPayload \<Rightarrow> bool" where
  "run_end_wf p \<longleftrightarrow> length (re_values p) = length (re_run_ends p) \<and>
     windows2 (<) (re_run_ends p) \<and> (\<forall>e \<in> set (re_run_ends p). 0 < e)"

definition run_end_rows :: "RunEndPayload \<Rightarrow> nat" where
  "run_end_rows p = (if re_run_ends p = [] then 0 else unat (last (re_run_ends p)))"

text \<open>The value the layout assigns to a row: that of the first run whose end exceeds it.\<close>

fun run_end_value :: "(i64 \<times> u32) list \<Rightarrow> nat \<Rightarrow> i64 option" where
  "run_end_value [] r = None"
| "run_end_value ((v, e) # rest) r = (if r < unat e then Some v else run_end_value rest r)"

lemma ucast_u32_le_iff: "(ucast (a :: u32) :: u64) \<le> ucast b \<longleftrightarrow> a \<le> b"
  using unat_less_power [of a] unat_less_power [of b]
  by (simp add: word_le_nat_alt unsigned_ucast_eq take_bit_nat_eq_self)

lemma run_end_parse_loop_wf:
  "run_end_parse_loop bs n i k (ucast (prev :: u32)) = Ok es \<Longrightarrow>
     length es = k \<and> windows2 (<) (prev # es)"
proof (induction k arbitrary: i prev es)
  case (Suc k)
  then obtain es' where "es = u32_at bs (4 + n * 8 + i * 4) # es'"
    "prev < u32_at bs (4 + n * 8 + i * 4)"
    "run_end_parse_loop bs n (Suc i) k (ucast (u32_at bs (4 + n * 8 + i * 4))) = Ok es'"
    by (auto simp: Let_def result_simps ucast_u32_le_iff split: if_splits)
  with Suc.IH show ?case by auto
qed simp

lemma run_end_parse_wf: "RunEndPayload_parse bs = Ok p \<Longrightarrow> run_end_wf p"
proof -
  assume "RunEndPayload_parse bs = Ok p"
  then have l: "run_end_parse_loop bs (unat (u32_at bs 0)) 0 (unat (u32_at bs 0)) (ucast (0 :: u32)) = Ok (re_run_ends p)"
    and v: "length (re_values p) = unat (u32_at bs 0)"
    by (auto simp: RunEndPayload_parse_def Let_def result_simps split: if_splits)
  from run_end_parse_loop_wf [OF l]
  have w: "windows2 (<) (0 # re_run_ends p)" and "length (re_run_ends p) = unat (u32_at bs 0)" by auto
  moreover from w have "sorted_wrt (<) (0 # re_run_ends p)" by (simp only: windows2_less)
  ultimately show ?thesis using v by (auto simp: run_end_wf_def windows2_less)
qed

lemma run_end_decode_loop_length:
  assumes "sorted_wrt (<) (start # es)" and "length vs = length es"
    and "length out = unat (start :: u32)"
  shows "length (run_end_decode_loop out start (zip vs es)) = unat (last (start # es))"
  using assms
proof (induction es arbitrary: vs start out)
  case (Cons e es)
  then obtain v vs' where "vs = v # vs'" "length vs' = length es" by (cases vs) auto
  moreover have "unat start \<le> unat e" using Cons.prems by (simp add: word_less_nat_alt)
  ultimately show ?case using Cons.IH [of e vs' "out @ replicate (unat e - unat start) v"] Cons.prems
    by simp
qed simp

lemma run_end_decode_loop_nth:
  assumes "sorted_wrt (<) (start # es)" and "length vs = length es"
    and "length out = unat (start :: u32)" and "r < unat (last (start # es))"
  shows "Some (run_end_decode_loop out start (zip vs es) ! r) =
     (if r < length out then Some (out ! r) else run_end_value (zip vs es) r)"
  using assms
proof (induction es arbitrary: vs start out)
  case (Cons e es)
  then obtain v vs' where vs: "vs = v # vs'" "length vs' = length es" by (cases vs) auto
  have le: "unat start < unat e" using Cons.prems by (simp add: word_less_nat_alt)
  let ?out = "out @ replicate (unat e - unat start) v"
  have "r < unat (last (e # es))" using Cons.prems by simp
  then have "Some (run_end_decode_loop ?out e (zip vs' es) ! r) =
      (if r < length ?out then Some (?out ! r) else run_end_value (zip vs' es) r)"
    using Cons.prems vs le by (intro Cons.IH) auto
  then show ?case using vs le Cons.prems by (auto simp: nth_append)
qed simp

lemma run_end_decode_spec:
  assumes "run_end_wf p"
  shows "\<exists>xs. RunEnd_canonical_decode p = Ok xs \<and> length xs = run_end_rows p \<and>
     map Some xs = map (run_end_value (zip (re_values p) (re_run_ends p))) [0..<run_end_rows p]"
proof -
  let ?xs = "run_end_decode_loop [] 0 (zip (re_values p) (re_run_ends p))"
  from assms have s: "sorted_wrt (<) (0 # re_run_ends p)"
    by (auto simp: run_end_wf_def windows2_less)
  moreover have "unat (last (0 # re_run_ends p)) = run_end_rows p" by (simp add: run_end_rows_def)
  ultimately have "length ?xs = run_end_rows p"
    "\<And>r. r < run_end_rows p \<Longrightarrow> Some (?xs ! r) = run_end_value (zip (re_values p) (re_run_ends p)) r"
    using run_end_decode_loop_length [OF s] run_end_decode_loop_nth [OF s] assms
    by (auto simp: run_end_wf_def)
  moreover from this have "map Some ?xs = map (run_end_value (zip (re_values p) (re_run_ends p))) [0..<run_end_rows p]"
    by (intro nth_equalityI) auto
  ultimately show ?thesis using assms by (auto simp: RunEnd_canonical_decode_def run_end_wf_def)
qed

interpretation run_end: encoding_trait RunEnd_canonical_decode RunEnd_canonical_decode run_end_wf
  run_end_rows
proof
  fix p assume "run_end_wf p"
  from run_end_decode_spec [OF this]
  show "\<exists>xs. RunEnd_canonical_decode p = Ok xs \<and> length xs = run_end_rows p" by blast
qed simp

section \<open>Overlays (patched_base.rs, sparse.rs)\<close>

text \<open>
  Both formats end in the same table of \<open>u32 position | i64 value\<close> and read it with the same
  loop; they differ in where it starts and in the bound on a position (\<open>too_far\<close>), and in what
  an out-of-range position does to the decoder: \<open>PatchedBase\<close> reports \<open>PageCorrupt\<close>, \<open>Sparse\<close>
  indexes the vector and panics.
\<close>

fun patch_parse_loop ::
  "(u32 \<Rightarrow> bool) \<Rightarrow> bytes \<Rightarrow> usize \<Rightarrow> nat \<Rightarrow> u32 option \<Rightarrow> (u32 \<times> i64) list result" where
  "patch_parse_loop too_far bs pos 0 prev = Ok []"
| "patch_parse_loop too_far bs pos (Suc k) prev =
     (let p = u32_at bs pos;
          v = from_le (slice (pos + 4) 8 bs) :: i64
      in if (case prev of Some prev_pos \<Rightarrow> p \<le> prev_pos | None \<Rightarrow> False) then Err PageCorrupt
         else if too_far p then Err PageCorrupt
         else and_then (patch_parse_loop too_far bs (pos + 12) k (Some p)) (\<lambda>ps. Ok ((p, v) # ps)))"

primrec patch_apply_loop :: "i64 list result \<Rightarrow> i64 list \<Rightarrow> (u32 \<times> i64) list \<Rightarrow> i64 list result" where
  "patch_apply_loop fail out [] = Ok out"
| "patch_apply_loop fail out (q # qs) =
     (let idx = unat (fst q)
      in if idx \<ge> length out then fail
         else patch_apply_loop fail (out[idx := snd q]) qs)"

record PatchedBasePayload =
  pb_base :: "i64 list"
  pb_patches :: "(u32 \<times> i64) list"

definition PatchedBasePayload_parse :: "bytes \<Rightarrow> PatchedBasePayload result" where
  "PatchedBasePayload_parse bs =
     (if length bs < 4 then Err BufferTooShort
      else let n = unat (u32_at bs 0);
               pos = 4
           in if length bs < pos + n * 8 + 4 then Err BufferTooShort
              else let base = read_i64s bs pos n;
                       pos = pos + n * 8;
                       pc = unat (u32_at bs pos);
                       pos = pos + 4
                   in if length bs < pos + pc * 12 then Err BufferTooShort
                      else and_then (patch_parse_loop (\<lambda>p. unat p \<ge> n) bs pos pc None) (\<lambda>patches.
                             Ok \<lparr>pb_base = base, pb_patches = patches\<rparr>))"

definition PatchedBase_canonical_decode :: "PatchedBasePayload \<Rightarrow> i64 list result" where
  "PatchedBase_canonical_decode p = patch_apply_loop (Err PageCorrupt) (pb_base p) (pb_patches p)"

record SparsePayload =
  sp_row_count :: u32
  sp_fill :: i64
  sp_overrides :: "(u32 \<times> i64) list"

definition SparsePayload_parse :: "bytes \<Rightarrow> SparsePayload result" where
  "SparsePayload_parse bs =
     (if length bs < 16 then Err BufferTooShort
      else let row_count = u32_at bs 0;
               fill = from_le (slice 4 8 bs) :: i64;
               oc = unat (u32_at bs 12);
               need = 16 + oc * 12
           in if length bs < need then Err BufferTooShort
              else and_then (patch_parse_loop (\<lambda>p. p \<ge> row_count) bs 16 oc None) (\<lambda>overrides.
                     Ok \<lparr>sp_row_count = row_count, sp_fill = fill, sp_overrides = overrides\<rparr>))"

definition Sparse_canonical_decode :: "SparsePayload \<Rightarrow> i64 list result" where
  "Sparse_canonical_decode p =
     patch_apply_loop Panic (replicate (unat (sp_row_count p)) (sp_fill p)) (sp_overrides p)"

text \<open>A table of patches for \<open>n\<close> rows, and the page with the patches laid over it.\<close>

definition patches_ok :: "nat \<Rightarrow> (u32 \<times> i64) list \<Rightarrow> bool" where
  "patches_ok n ps \<longleftrightarrow> windows2 (<) (map fst ps) \<and> (\<forall>q \<in> set ps. unat (fst q) < n)"

definition overlay :: "(u32 \<times> i64) list \<Rightarrow> i64 list \<Rightarrow> i64 list" where
  "overlay ps base =
     map (\<lambda>i. case map_of ps (of_nat i) of Some v \<Rightarrow> v | None \<Rightarrow> base ! i) [0..<length base]"

definition patched_base_wf :: "PatchedBasePayload \<Rightarrow> bool" where
  "patched_base_wf p \<longleftrightarrow> patches_ok (length (pb_base p)) (pb_patches p) \<and> length (pb_base p) < 2 ^ 32"

definition sparse_wf :: "SparsePayload \<Rightarrow> bool" where
  "sparse_wf p \<longleftrightarrow> patches_ok (unat (sp_row_count p)) (sp_overrides p)"

lemma patch_parse_loop_wf:
  assumes "patch_parse_loop too_far bs pos k prev = Ok ps"
  shows "length ps = k \<and> (\<forall>q \<in> set ps. \<not> too_far (fst q)) \<and>
     windows2 (<) (case prev of Some q \<Rightarrow> q # map fst ps | None \<Rightarrow> map fst ps)"
  using assms
proof (induction k arbitrary: pos prev ps)
  case (Suc k)
  then obtain ps' where ps: "ps = (u32_at bs pos, from_le (slice (pos + 4) 8 bs)) # ps'"
    "\<not> (case prev of Some q \<Rightarrow> u32_at bs pos \<le> q | None \<Rightarrow> False)" "\<not> too_far (u32_at bs pos)"
    and rec: "patch_parse_loop too_far bs (pos + 12) k (Some (u32_at bs pos)) = Ok ps'"
    by (auto simp: Let_def result_simps split: if_splits)
  from Suc.IH [OF rec] ps show ?case by (auto split: option.splits)
qed (auto split: option.splits)

lemma length_overlay [simp]: "length (overlay ps base) = length base"
  by (simp add: overlay_def)

lemma patch_apply_loop_overlay:
  assumes "distinct (map fst ps)" and "\<forall>q \<in> set ps. unat (fst q) < length out"
    and "length out < 2 ^ 32"
  shows "patch_apply_loop fail out ps = Ok (overlay ps out)"
  using assms
proof (induction ps arbitrary: out)
  case Nil
  then show ?case by (simp add: overlay_def map_nth)
next
  case (Cons q ps)
  obtain p v where q: "q = (p, v)" by (cases q)
  have "overlay ps (out[unat p := v]) = overlay (q # ps) out"
  proof (rule nth_equalityI)
    fix i assume "i < length (overlay ps (out[unat p := v]))"
    then have i: "i < length out" by simp
    then have "i < 2 ^ LENGTH(32)" using Cons.prems by simp
    then have eq: "of_nat i = p \<longleftrightarrow> unat p = i" using unat_of_nat_less [of i, where 'a = 32] by auto
    have "map_of ps p = None" using Cons.prems q by (simp add: map_of_eq_None_iff)
    then show "overlay ps (out[unat p := v]) ! i = overlay (q # ps) out ! i"
      using i eq q by (auto simp: overlay_def nth_list_update split: option.splits)
  qed simp
  then show ?case using Cons q by simp
qed

lemma patches_ok_distinct: "patches_ok n ps \<Longrightarrow> distinct (map fst ps)"
  by (simp add: patches_ok_def windows2_less strict_sorted_iff)

lemma patches_ok_less: "patches_ok n ps \<Longrightarrow> (p, v) \<in> set ps \<Longrightarrow> unat p < n"
  by (force simp: patches_ok_def)

lemma patched_base_parse_wf: "PatchedBasePayload_parse bs = Ok p \<Longrightarrow> patched_base_wf p"
  using unat_less_power [of "u32_at bs 0"]
  by (fastforce simp: PatchedBasePayload_parse_def patched_base_wf_def patches_ok_def Let_def result_simps
      not_le dest!: patch_parse_loop_wf split: if_splits)

lemma patched_base_decode: "patched_base_wf p \<Longrightarrow>
    PatchedBase_canonical_decode p = Ok (overlay (pb_patches p) (pb_base p))"
  unfolding PatchedBase_canonical_decode_def patched_base_wf_def
  by (intro patch_apply_loop_overlay) (auto intro: patches_ok_distinct dest: patches_ok_less)

lemma sparse_parse_wf: "SparsePayload_parse bs = Ok p \<Longrightarrow> sparse_wf p"
  by (fastforce simp: SparsePayload_parse_def sparse_wf_def patches_ok_def Let_def result_simps
      not_le word_less_nat_alt dest!: patch_parse_loop_wf split: if_splits)

lemma sparse_decode: "sparse_wf p \<Longrightarrow> Sparse_canonical_decode p =
    Ok (overlay (sp_overrides p) (replicate (unat (sp_row_count p)) (sp_fill p)))"
  using unat_less_power [of "sp_row_count p"] unfolding Sparse_canonical_decode_def sparse_wf_def
  by (intro patch_apply_loop_overlay) (auto intro: patches_ok_distinct dest: patches_ok_less)

interpretation patched_base: encoding_trait PatchedBase_canonical_decode
  PatchedBase_canonical_decode patched_base_wf "\<lambda>p. length (pb_base p)"
  by unfold_locales (simp_all add: patched_base_decode)

interpretation sparse: encoding_trait Sparse_canonical_decode Sparse_canonical_decode
  sparse_wf "\<lambda>p. unat (sp_row_count p)"
  by unfold_locales (simp_all add: sparse_decode)

section \<open>Properties\<close>

text \<open>the RLE parser accepts exactly the encodings of payloads without empty runs, without
  two adjacent runs of one value and with at most \<open>u32::MAX\<close> rows, and returns that payload;
  every other byte string is rejected.\<close>

theorem rle_parse_exact:
  "RlePayload_parse bs = Ok p \<longleftrightarrow> rle_wf p \<and> (\<exists>rest. bs = RlePayload_encode p @ rest)"
  using rle_parse_wf rle_parse_encode by blast

text \<open>a parsed run-end page decodes without error to as many rows as its last run end says,
  and every row has the value of the first run whose end exceeds it.\<close>

theorem run_end_page_decodes:
  assumes "RunEndPayload_parse bs = Ok p"
  shows "\<exists>xs. RunEnd_canonical_decode p = Ok xs \<and> length xs = run_end_rows p \<and>
    map Some xs = map (run_end_value (zip (re_values p) (re_run_ends p))) [0..<run_end_rows p]"
  using run_end_parse_wf [OF assms] by (rule run_end_decode_spec)

lemma run_end_page_decodes_witness:
  "\<exists>xs. RunEnd_canonical_decode \<lparr>re_values = [10, 20], re_run_ends = [2, 5]\<rparr> = Ok xs \<and> length xs = 5"
proof -
  have "RunEndPayload_parse (le_bytes 4 (2 :: u32) @ le_bytes 8 (10 :: i64) @ le_bytes 8 (20 :: i64) @
      le_bytes 4 (2 :: u32) @ le_bytes 4 (5 :: u32)) =
      Ok \<lparr>re_values = [10, 20], re_run_ends = [2, 5]\<rparr>"
    by code_simp
  from run_end_page_decodes [OF this] show ?thesis by (auto simp: run_end_rows_def)
qed

text \<open>overlays are applied point by point: a parsed patched-base page decodes to its base
  with the patched positions replaced, a parsed sparse page to its fill value with the overridden
  positions replaced, and neither decoder fails or panics on a parsed page.\<close>

theorem overlay_pages_decode:
  assumes "PatchedBasePayload_parse bs = Ok p" and "SparsePayload_parse bs' = Ok q"
  shows "PatchedBase_canonical_decode p = Ok (overlay (pb_patches p) (pb_base p)) \<and>
    Sparse_canonical_decode q =
      Ok (overlay (sp_overrides q) (replicate (unat (sp_row_count q)) (sp_fill q)))"
  using patched_base_parse_wf [OF assms(1)] sparse_parse_wf [OF assms(2)]
  by (simp add: patched_base_decode sparse_decode)

lemma overlay_pages_decode_witness:
  "Sparse_canonical_decode \<lparr>sp_row_count = 3, sp_fill = 9, sp_overrides = [(1, 42)]\<rparr> = Ok [9, 42, 9]"
proof -
  have a: "PatchedBasePayload_parse (le_bytes 4 (1 :: u32) @ le_bytes 8 (10 :: i64) @
      le_bytes 4 (1 :: u32) @ le_bytes 4 (0 :: u32) @ le_bytes 8 (5 :: i64)) =
      Ok \<lparr>pb_base = [10], pb_patches = [(0, 5)]\<rparr>"
    by code_simp
  have b: "SparsePayload_parse (le_bytes 4 (3 :: u32) @ le_bytes 8 (9 :: i64) @
      le_bytes 4 (1 :: u32) @ le_bytes 4 (1 :: u32) @ le_bytes 8 (42 :: i64)) =
      Ok \<lparr>sp_row_count = 3, sp_fill = 9, sp_overrides = [(1, 42)]\<rparr>"
    by code_simp
  have "overlay [(1, 42)] (replicate (unat (3 :: u32)) 9) = [9, 42, 9]"
    by code_simp
  with overlay_pages_decode [OF a b] show ?thesis by simp
qed

end
