(* ===== verification/Bit_Packed.thy ===== *)
theory Bit_Packed
  imports Encoding
begin

text \<open>
  Bit packing (\<open>encoding/bit_packed.rs\<close>): \<open>pack\<close> writes values of a fixed width into a
  little-endian bit stream through a 16-byte window, \<open>canonical_decode\<close> reads them back through
  such a window and \<open>fast_decode\<close> through an 8-byte one. The abstraction all three are related
  to is the bit stream \<open>bits_at\<close>: the \<open>k\<close>-th bit of the buffer. Shifts by the width of the type
  or more, and slices past the end, are panics.
\<close>

section \<open>The bit stream of a buffer and the windows on it\<close>

definition bits_at :: "bytes \<Rightarrow> nat \<Rightarrow> bool" where
  "bits_at bs k \<longleftrightarrow> k div 8 < length bs \<and> bit (bs ! (k div 8)) (k mod 8)"

text \<open>\<open>buf[..avail].copy_from_slice(&bits[byte_off..byte_off + avail])\<close> on a zeroed buffer.\<close>

definition window_avail :: "nat \<Rightarrow> bytes \<Rightarrow> usize \<Rightarrow> usize" where
  "window_avail n bits byte_off = min (length bits - byte_off) n"

definition load_window :: "nat \<Rightarrow> bytes \<Rightarrow> usize \<Rightarrow> bytes" where
  "load_window n bits byte_off =
     put 0 (slice byte_off (window_avail n bits byte_off) bits) (replicate n 0)"

lemma bit_from_le_bits_at:
  "bit (from_le bs :: 'a::len word) i \<longleftrightarrow> i < LENGTH('a) \<and> bits_at bs i"
  by (simp add: bit_from_le bits_at_def)

lemma bits_at_le_bytes:
  "bits_at (le_bytes n (w :: 'a::len word)) i \<longleftrightarrow> i < 8 * n \<and> bit w i"
proof -
  have "i div 8 < n \<longleftrightarrow> i < 8 * n" by (simp add: less_mult_imp_div_less div_less_iff_less_mult mult.commute)
  then show ?thesis
    by (auto simp: bits_at_def nth_le_bytes bit_simps)
qed

lemma bits_at_load_window:
  "bits_at (load_window n bits off) i \<longleftrightarrow> i < 8 * n \<and> bits_at bits (8 * off + i)"
proof -
  have d: "(8 * off + i) div 8 = off + i div 8" "(8 * off + i) mod 8 = i mod 8" by simp_all
  have "i div 8 < n \<longleftrightarrow> i < 8 * n" by (simp add: div_less_iff_less_mult mult.commute)
  then show ?thesis unfolding bits_at_def d load_window_def window_avail_def
    by (auto simp: nth_put slice_def bits_at_def split: if_splits)
qed

lemma bits_at_store_window:
  "bits_at (put off (take (window_avail n bits off) (le_bytes n (w :: 'a::len word))) bits) k \<longleftrightarrow>
     k < 8 * length bits \<and>
     (if 8 * off \<le> k \<and> k < 8 * off + 8 * n then bit w (k - 8 * off) else bits_at bits k)"
proof (cases "off \<le> k div 8 \<and> k div 8 < off + window_avail n bits off \<and> k div 8 < length bits")
  case True
  then obtain i where i: "k = 8 * off + i" by (metis le_iff_add mult_le_mono2 mult.commute
        div_times_less_eq_dividend order_trans)
  then have d: "k div 8 = off + i div 8" "k mod 8 = i mod 8" by simp_all
  from True d have "i div 8 < n" "i div 8 < window_avail n bits off" by (auto simp: window_avail_def)
  moreover from this have "i < 8 * n" by (simp add: div_less_iff_less_mult mult.commute)
  moreover have "8 * (i div 8) + i mod 8 = i" by simp
  ultimately show ?thesis using True i
    by (auto simp: bits_at_def d nth_put nth_le_bytes bit_simps window_avail_def)
next
  case False
  have c: "off \<le> k div 8 \<longleftrightarrow> 8 * off \<le> k" "k div 8 < off + n \<longleftrightarrow> k < 8 * off + 8 * n"
    "k div 8 < length bits \<longleftrightarrow> k < 8 * length bits"
    by linarith+
  have "\<not> (8 * off \<le> k \<and> k < 8 * off + 8 * n)" if "k div 8 < length bits"
    using False that unfolding c [symmetric] by (auto simp: window_avail_def)
  with False show ?thesis
    by (auto simp: bits_at_def nth_put c [symmetric] window_avail_def)
qed

lemma bit_mod_8: "drop_bit k (b :: u8) AND 1 = 1 \<longleftrightarrow> bit b k"
  by (simp add: and_one_eq bit_iff_odd_drop_bit odd_iff_mod_2_eq_one)

lemma bits_at_set:
  assumes "r div 8 < length bs"
  shows "bits_at (bs[r div 8 := bs ! (r div 8) OR push_bit (r mod 8) 1]) k \<longleftrightarrow> bits_at bs k \<or> k = r"
proof -
  have "bit (push_bit (r mod 8) 1 :: u8) (k mod 8) \<longleftrightarrow> k mod 8 = r mod 8"
    by (subst bit_push_bit_iff) (auto simp: bit_1_iff)
  moreover have "k = r \<longleftrightarrow> k div 8 = r div 8 \<and> k mod 8 = r mod 8" by (metis div_mult_mod_eq)
  ultimately show ?thesis using assms
    by (cases "k div 8 = r div 8") (auto simp: bits_at_def bit_or_iff simp del: push_bit_of_1)
qed

section \<open>The payload\<close>

record BitPackedPayload =
  bp_bits_per_value :: u8
  bp_row_count :: u32
  bp_bits :: bytes

definition div_ceil :: "nat \<Rightarrow> nat \<Rightarrow> nat" where
  "div_ceil a b = (a + b - 1) div b"

definition BitPackedPayload_parse :: "bytes \<Rightarrow> BitPackedPayload result" where
  "BitPackedPayload_parse bs =
     (if length bs < 9 then Err BufferTooShort
      else let bpv = bs ! 0
      in if \<not> (1 \<le> bpv \<and> bpv \<le> 63) then Err PageCorrupt
      else let row_count = u32_at bs 1;
               byte_len = unat (u32_at bs 5)
      in if length bs < 9 + byte_len then Err BufferTooShort
      else let need_bits = unat row_count * unat bpv;
               need_bytes = div_ceil need_bits 8
      in if byte_len < need_bytes then Err PageCorrupt
      else Ok \<lparr>bp_bits_per_value = bpv, bp_row_count = row_count, bp_bits = slice 9 byte_len bs\<rparr>)"

definition BitPackedPayload_encode :: "BitPackedPayload \<Rightarrow> bytes" where
  "BitPackedPayload_encode p =
     [bp_bits_per_value p] @ le_bytes 4 (bp_row_count p) @
     le_bytes 4 (of_nat (length (bp_bits p)) :: u32) @ bp_bits p"

fun bit_pack_loop :: "u64 \<Rightarrow> u8 \<Rightarrow> bytes \<Rightarrow> nat \<Rightarrow> u64 list \<Rightarrow> bytes result" where
  "bit_pack_loop msk bpv bits bit_pos [] = Ok bits"
| "bit_pack_loop msk bpv bits bit_pos (v # vs) =
     (if v AND NOT msk \<noteq> 0 then Err PageCorrupt
      else let byte_off = bit_pos div 8;
               bit_off = bit_pos mod 8;
               avail = window_avail 16 bits byte_off
      in if byte_off > length bits then Panic
      else let buf = load_window 16 bits byte_off;
               word = from_le buf :: u128;
               word = word OR push_bit bit_off (ucast v AND ucast msk);
               encoded = le_bytes 16 word;
               bits = put byte_off (take avail encoded) bits
           in bit_pack_loop msk bpv bits (bit_pos + unat bpv) vs)"

definition BitPackedPayload_pack :: "u64 list \<Rightarrow> u8 \<Rightarrow> BitPackedPayload result" where
  "BitPackedPayload_pack values bits_per_value =
     (if \<not> (1 \<le> bits_per_value \<and> bits_per_value \<le> 63) then Err PageCorrupt
      else let msk = (if bits_per_value = 64 then - 1 else push_bit (unat bits_per_value) 1 - 1) :: u64;
               total_bits = length values * unat bits_per_value;
               bits = replicate (div_ceil total_bits 8) 0
           in and_then (bit_pack_loop msk bits_per_value bits 0 values) (\<lambda>bits.
                Ok \<lparr>bp_bits_per_value = bits_per_value, bp_row_count = of_nat (length values),
                    bp_bits = bits\<rparr>))"

section \<open>The decoders\<close>

fun bit_canonical_loop :: "bytes \<Rightarrow> nat \<Rightarrow> nat \<Rightarrow> nat \<Rightarrow> nat \<Rightarrow> i64 list result" where
  "bit_canonical_loop bits bpv r 0 bit_pos = Ok []"
| "bit_canonical_loop bits bpv r (Suc n) bit_pos =
     (let byte_off = bit_pos div 8;
          bit_off = bit_pos mod 8
      in if byte_off \<ge> length bits then Err PageCorrupt
      else let msk = push_bit bpv 1 - 1 :: u128;
               word = from_le (load_window 16 bits byte_off) :: u128;
               v = ucast (drop_bit bit_off word AND msk) :: i64
      in if (r + 1) * bpv \<ge> usize_bound then Err ArithOverflow
      else and_then (bit_canonical_loop bits bpv (Suc r) n ((r + 1) * bpv)) (\<lambda>vs. Ok (v # vs)))"

definition BitPacked_canonical_decode :: "BitPackedPayload \<Rightarrow> i64 list result" where
  "BitPacked_canonical_decode p =
     (let bpv = unat (bp_bits_per_value p)
      in if bpv \<ge> 128 then Panic
      else bit_canonical_loop (bp_bits p) bpv 0 (unat (bp_row_count p)) 0)"

fun bit_fast_loop :: "bytes \<Rightarrow> nat \<Rightarrow> nat \<Rightarrow> nat \<Rightarrow> i64 list result" where
  "bit_fast_loop bits bpv 0 bit_pos = Ok []"
| "bit_fast_loop bits bpv (Suc n) bit_pos =
     (let byte_off = bit_pos div 8;
          bit_off = bit_pos mod 8
      in if byte_off > length bits then Panic
      else let msk = push_bit bpv 1 - 1 :: u64;
               word = from_le (load_window 8 bits byte_off) :: u64;
               v = drop_bit bit_off word AND msk
      in and_then (bit_fast_loop bits bpv n (bit_pos + bpv)) (\<lambda>vs. Ok (v # vs)))"

definition BitPacked_fast_decode :: "BitPackedPayload \<Rightarrow> i64 list result" where
  "BitPacked_fast_decode p =
     (let bpv = unat (bp_bits_per_value p)
      in if bpv > 32 then BitPacked_canonical_decode p
      else bit_fast_loop (bp_bits p) bpv (unat (bp_row_count p)) 0)"

definition bit_packed_wf :: "BitPackedPayload \<Rightarrow> bool" where
  "bit_packed_wf p \<longleftrightarrow> 1 \<le> bp_bits_per_value p \<and> bp_bits_per_value p \<le> 63 \<and>
     unat (bp_row_count p) * unat (bp_bits_per_value p) \<le> 8 * length (bp_bits p) \<and>
     length (bp_bits p) < 2 ^ 32"


section \<open>Packing writes the bit stream\<close>

lemma low_mask_eq: "push_bit b 1 - 1 = (mask b :: 'a::len word)"
  by (simp add: mask_eq_exp_minus_1)

lemma bit_pack_loop_step:
  fixes v msk :: u64
  assumes "v AND NOT msk = 0" and "bit_pos div 8 < length bits" and "\<And>i. bit msk i \<longleftrightarrow> i < b" and "b \<le> 63"
  shows "bits_at (put (bit_pos div 8) (take (window_avail 16 bits (bit_pos div 8))
      (le_bytes 16 (from_le (load_window 16 bits (bit_pos div 8)) OR
         push_bit (bit_pos mod 8) (ucast v AND ucast msk) :: u128))) bits) k \<longleftrightarrow>
    k < 8 * length bits \<and> (bits_at bits k \<or> bit_pos \<le> k \<and> k < bit_pos + b \<and> bit v (k - bit_pos))"
proof -
  let ?o = "bit_pos div 8"
  have eq: "8 * ?o + bit_pos mod 8 = bit_pos" "bit_pos mod 8 < 8" by simp_all
  define x where "x = (ucast v AND ucast msk :: u128)"
  have "bit v i \<Longrightarrow> bit msk i" for i
    using assms(1) bit_eq_iff [of "v AND NOT msk" 0] bit_imp_le_length [of v i] by (auto simp: bit_simps)
  then have v: "bit x i \<longleftrightarrow> i < b \<and> bit v i" for i
    using assms(3) [of i] assms(4) by (auto simp: x_def bit_simps dest: bit_imp_le_length)
  have bits: "bits_at bits j \<Longrightarrow> j < 8 * length bits" for j by (auto simp: bits_at_def)
  show ?thesis
  proof (cases "8 * ?o \<le> k \<and> k < 8 * ?o + 8 * 16")
    case True
    then have "bit_pos mod 8 \<le> k - 8 * ?o \<longleftrightarrow> bit_pos \<le> k"
      "k - 8 * ?o - bit_pos mod 8 = k - bit_pos" "8 * ?o + (k - 8 * ?o) = k" "k - 8 * ?o < 128"
      using eq by linarith+
    with True show ?thesis unfolding x_def [symmetric]
      by (auto simp: bits_at_store_window bit_simps v bit_from_le_bits_at bits_at_load_window)
  next
    case False
    then have "\<not> (bit_pos \<le> k \<and> k < bit_pos + b)" using eq assms(4) by linarith
    with False bits show ?thesis by (auto simp: bits_at_store_window)
  qed
qed

definition packed_bit :: "u64 list \<Rightarrow> nat \<Rightarrow> nat \<Rightarrow> bool" where
  "packed_bit vs b k \<longleftrightarrow> k div b < length vs \<and> bit (vs ! (k div b)) (k mod b)"

lemma packed_bit_Cons:
  assumes "0 < b"
  shows "packed_bit (v # vs) b k \<longleftrightarrow> (if k < b then bit v k else packed_bit vs b (k - b))"
  using assms by (auto simp: packed_bit_def le_div_geq le_mod_geq)

lemma bit_pack_loop_Ok:
  fixes msk :: u64
  assumes "\<forall>v \<in> set vs. v AND NOT msk = 0" and "bit_pos + length vs * unat bpv \<le> 8 * length bits"
    and "\<And>i. bit msk i \<longleftrightarrow> i < unat bpv" and "0 < unat bpv" "unat bpv \<le> 63"
  shows "\<exists>out. bit_pack_loop msk bpv bits bit_pos vs = Ok out \<and> length out = length bits \<and>
    (\<forall>k. bits_at out k \<longleftrightarrow> k < 8 * length bits \<and>
       (bits_at bits k \<or> bit_pos \<le> k \<and> packed_bit vs (unat bpv) (k - bit_pos)))"
  using assms(1,2)
proof (induction vs arbitrary: bits bit_pos)
  case Nil
  then show ?case by (auto simp: packed_bit_def bits_at_def)
next
  case (Cons v vs)
  let ?o = "bit_pos div 8"
  let ?bits = "put ?o (take (window_avail 16 bits ?o)
      (le_bytes 16 (from_le (load_window 16 bits ?o) OR
         push_bit (bit_pos mod 8) (ucast v AND ucast msk) :: u128))) bits"
  have o: "?o < length bits" using Cons.prems assms(4) by (simp add: div_less_iff_less_mult mult.commute)
  have step: "bits_at ?bits k \<longleftrightarrow> k < 8 * length bits \<and>
      (bits_at bits k \<or> bit_pos \<le> k \<and> k < bit_pos + unat bpv \<and> bit v (k - bit_pos))" for k
    using Cons.prems o assms(3,5) by (intro bit_pack_loop_step) auto
  have eq: "bit_pack_loop msk bpv bits bit_pos (v # vs) = bit_pack_loop msk bpv ?bits (bit_pos + unat bpv) vs"
    using Cons.prems o by (simp add: Let_def)
  obtain out where out: "bit_pack_loop msk bpv ?bits (bit_pos + unat bpv) vs = Ok out"
    "length out = length bits"
    "\<And>k. bits_at out k \<longleftrightarrow> k < 8 * length bits \<and>
       (bits_at ?bits k \<or> bit_pos + unat bpv \<le> k \<and> packed_bit vs (unat bpv) (k - (bit_pos + unat bpv)))"
    using Cons.IH [of "bit_pos + unat bpv" ?bits] Cons.prems by (auto simp: algebra_simps)
  have cons: "bit_pos \<le> k \<and> packed_bit (v # vs) (unat bpv) (k - bit_pos) \<longleftrightarrow>
      bit_pos \<le> k \<and> k < bit_pos + unat bpv \<and> bit v (k - bit_pos) \<or>
      bit_pos + unat bpv \<le> k \<and> packed_bit vs (unat bpv) (k - (bit_pos + unat bpv))" for k
    using assms(4) by (auto simp: packed_bit_Cons diff_diff_eq)
  have "bits_at out k \<longleftrightarrow> k < 8 * length bits \<and>
       (bits_at bits k \<or> bit_pos \<le> k \<and> packed_bit (v # vs) (unat bpv) (k - bit_pos))" for k
    unfolding out(3) [of k] step [of k] cons by blast
  with eq out(1,2) show ?case by metis
qed

section \<open>Decoding reads the bit stream\<close>

lemma bit_canonical_value:
  assumes "b \<le> 63"
  shows "bit (ucast (drop_bit (pos mod 8) (from_le (load_window 16 bits (pos div 8)) :: u128) AND
      (push_bit b 1 - 1)) :: i64) i \<longleftrightarrow> i < b \<and> bits_at bits (pos + i)"
proof -
  have "8 * (pos div 8) + (pos mod 8 + i) = pos + i" "pos mod 8 < 8" by simp_all
  with assms show ?thesis unfolding low_mask_eq
    by (auto simp: bit_simps bit_from_le_bits_at bits_at_load_window)
qed

lemma bit_fast_value:
  assumes "b \<le> 32"
  shows "bit (drop_bit (pos mod 8) (from_le (load_window 8 bits (pos div 8)) :: u64) AND
      (push_bit b 1 - 1)) i \<longleftrightarrow> i < b \<and> bits_at bits (pos + i)"
proof -
  have "8 * (pos div 8) + (pos mod 8 + i) = pos + i" "pos mod 8 < 8" by simp_all
  with assms show ?thesis unfolding low_mask_eq
    by (auto simp: bit_simps bit_from_le_bits_at bits_at_load_window)
qed

lemma bit_canonical_loop_Ok:
  assumes "0 < b" "b \<le> 63" and "(r + n) * b \<le> 8 * length bits" and "(r + n) * b < usize_bound"
  shows "\<exists>vs. bit_canonical_loop bits b r n (r * b) = Ok vs \<and> length vs = n \<and>
    (\<forall>j<n. \<forall>i. bit (vs ! j) i \<longleftrightarrow> i < b \<and> bits_at bits ((r + j) * b + i))"
  using assms(3,4)
proof (induction n arbitrary: r)
  case (Suc n)
  have "r * b + b \<le> (r + Suc n) * b" by (simp add: algebra_simps)
  with Suc.prems assms(1) have o: "r * b div 8 < length bits" and u: "(r + 1) * b < usize_bound"
    by (simp_all add: div_less_iff_less_mult mult.commute algebra_simps)
  let ?v = "ucast (drop_bit (r * b mod 8) (from_le (load_window 16 bits (r * b div 8)) :: u128) AND
      (push_bit b 1 - 1)) :: i64"
  obtain vs where vs: "bit_canonical_loop bits b (Suc r) n (Suc r * b) = Ok vs" "length vs = n"
    "\<forall>j<n. \<forall>i. bit (vs ! j) i \<longleftrightarrow> i < b \<and> bits_at bits ((Suc r + j) * b + i)"
    using Suc.IH [of "Suc r"] Suc.prems by auto
  then have "bit_canonical_loop bits b r (Suc n) (r * b) = Ok (?v # vs)"
    using o u by (simp add: Let_def)
  moreover have "bit ((?v # vs) ! j) i \<longleftrightarrow> i < b \<and> bits_at bits ((r + j) * b + i)" if "j < Suc n" for j i
  proof (cases j)
    case 0
    then show ?thesis using bit_canonical_value [OF assms(2)] by simp
  next
    case (Suc k)
    then show ?thesis using vs(3) that by simp
  qed
  ultimately show ?case using vs(2) by auto
qed simp

lemma bit_fast_loop_Ok:
  assumes "0 < b" "b \<le> 32" and "(r + n) * b \<le> 8 * length bits"
  shows "\<exists>vs. bit_fast_loop bits b n (r * b) = Ok vs \<and> length vs = n \<and>
    (\<forall>j<n. \<forall>i. bit (vs ! j) i \<longleftrightarrow> i < b \<and> bits_at bits ((r + j) * b + i))"
  using assms(3)
proof (induction n arbitrary: r)
  case (Suc n)
  have "r * b + b \<le> (r + Suc n) * b" by (simp add: algebra_simps)
  with Suc.prems assms(1) have o: "r * b div 8 \<le> length bits"
    using div_le_mono [of "r * b" "8 * length bits" 8] by (simp add: algebra_simps)
  let ?v = "drop_bit (r * b mod 8) (from_le (load_window 8 bits (r * b div 8)) :: u64) AND
      (push_bit b 1 - 1)"
  obtain vs where vs: "bit_fast_loop bits b n (Suc r * b) = Ok vs" "length vs = n"
    "\<forall>j<n. \<forall>i. bit (vs ! j) i \<longleftrightarrow> i < b \<and> bits_at bits ((Suc r + j) * b + i)"
    using Suc.IH [of "Suc r"] Suc.prems by auto
  then have "bit_fast_loop bits b (Suc n) (r * b) = Ok (?v # vs)"
    using o by (simp add: Let_def add.commute)
  moreover have "bit ((?v # vs) ! j) i \<longleftrightarrow> i < b \<and> bits_at bits ((r + j) * b + i)" if "j < Suc n" for j i
  proof (cases j)
    case 0
    then show ?thesis using bit_fast_value [OF assms(2)] by simp
  next
    case (Suc k)
    then show ?thesis using vs(3) that by simp
  qed
  ultimately show ?case using vs(2) by auto
qed simp


section \<open>Interfaces and main facts\<close>

lemma unat_u8_le: "(b :: u8) \<le> 63 \<longleftrightarrow> unat b \<le> 63" "1 \<le> b \<longleftrightarrow> 0 < unat b"
  by (simp_all add: word_le_nat_alt Suc_le_eq)

lemma bit_packed_wf_nat:
  assumes "bit_packed_wf p"
  shows "0 < unat (bp_bits_per_value p)" "unat (bp_bits_per_value p) \<le> 63"
    "unat (bp_row_count p) * unat (bp_bits_per_value p) \<le> 8 * length (bp_bits p)"
    "unat (bp_row_count p) * unat (bp_bits_per_value p) < usize_bound"
  using assms by (simp_all add: bit_packed_wf_def unat_u8_le)

text \<open>The value of a row, as a function of the bit stream.\<close>

definition bit_rows :: "BitPackedPayload \<Rightarrow> i64 list \<Rightarrow> bool" where
  "bit_rows p vs \<longleftrightarrow> length vs = unat (bp_row_count p) \<and>
     (\<forall>j < unat (bp_row_count p). \<forall>i. bit (vs ! j) i \<longleftrightarrow>
        i < unat (bp_bits_per_value p) \<and> bits_at (bp_bits p) (j * unat (bp_bits_per_value p) + i))"

lemma bit_rows_unique: "bit_rows p vs \<Longrightarrow> bit_rows p ws \<Longrightarrow> vs = ws"
  by (rule nth_equalityI) (auto simp: bit_rows_def intro!: bit_word_eqI)

lemma canonical_bit_rows:
  "bit_packed_wf p \<Longrightarrow> \<exists>vs. BitPacked_canonical_decode p = Ok vs \<and> bit_rows p vs"
  using bit_canonical_loop_Ok [of "unat (bp_bits_per_value p)" 0 "unat (bp_row_count p)" "bp_bits p"]
    bit_packed_wf_nat [of p]
  by (auto simp: BitPacked_canonical_decode_def bit_rows_def)

lemma fast_bit_rows:
  assumes "bit_packed_wf p"
  shows "\<exists>vs. BitPacked_fast_decode p = Ok vs \<and> bit_rows p vs"
proof (cases "unat (bp_bits_per_value p) > 32")
  case True
  then show ?thesis using canonical_bit_rows [OF assms] by (simp add: BitPacked_fast_decode_def)
next
  case False
  then show ?thesis
    using bit_fast_loop_Ok [of "unat (bp_bits_per_value p)" 0 "unat (bp_row_count p)" "bp_bits p"]
      bit_packed_wf_nat [OF assms]
    by (auto simp: BitPacked_fast_decode_def bit_rows_def)
qed

interpretation bit_packed: encoding_trait BitPacked_canonical_decode BitPacked_fast_decode
  bit_packed_wf "\<lambda>p. unat (bp_row_count p)"
proof
  fix p assume wf: "bit_packed_wf p"
  from canonical_bit_rows [OF wf] fast_bit_rows [OF wf] bit_rows_unique [of p]
  show "BitPacked_fast_decode p = BitPacked_canonical_decode p" by force
  from canonical_bit_rows [OF wf]
  show "\<exists>xs. BitPacked_canonical_decode p = Ok xs \<and> length xs = unat (bp_row_count p)"
    by (auto simp: bit_rows_def)
qed

lemma div_ceil_8: "div_ceil a 8 \<le> b \<longleftrightarrow> a \<le> 8 * b"
  by (simp add: div_ceil_def) linarith

lemma BitPackedPayload_parse_encode:
  assumes "bit_packed_wf p"
  shows "BitPackedPayload_parse (BitPackedPayload_encode p @ rest) = Ok p"
  using assms by (simp add: BitPackedPayload_parse_def BitPackedPayload_encode_def bit_packed_wf_def
      wire_simps Let_def div_ceil_8 not_less)

lemma BitPackedPayload_parse_wf:
  assumes "BitPackedPayload_parse bs = Ok p"
  shows "bit_packed_wf p \<and> (\<exists>rest. bs = BitPackedPayload_encode p @ rest)"
proof -
  let ?n = "unat (u32_at bs 5)"
  from assms have p: "bp_bits_per_value p = bs ! 0" "bp_row_count p = u32_at bs 1"
      "bp_bits p = slice 9 ?n bs" and len: "9 + ?n \<le> length bs"
    and r: "1 \<le> bs ! 0" "bs ! 0 \<le> 63" "div_ceil (unat (u32_at bs 1) * unat (bs ! 0)) 8 \<le> ?n"
    by (auto simp: BitPackedPayload_parse_def Let_def not_less split: if_splits)
  have "?n < 2 ^ 32" using unat_less_power [of "u32_at bs 5"] by simp
  moreover have "[bs ! 0] = slice 0 1 bs" using len by (cases bs) (simp_all add: slice_def)
  moreover have "slice 0 (9 + ?n) bs = slice 0 1 bs @ slice 1 4 bs @ slice 5 4 bs @ slice 9 ?n bs"
    using slice_split [of 0 1 "8 + ?n" bs] slice_split [of 1 4 "4 + ?n" bs] slice_split [of 5 4 ?n bs]
    by simp
  ultimately have "bit_packed_wf p" "BitPackedPayload_encode p = slice 0 (9 + ?n) bs"
    using p r len by (simp_all add: bit_packed_wf_def div_ceil_8 BitPackedPayload_encode_def
        le_bytes_from_le)
  moreover have "bs = slice 0 (9 + ?n) bs @ drop (9 + ?n) bs" by (simp add: slice_def)
  ultimately show ?thesis by metis
qed

interpretation bit_packed_wire: wire_codec "\<lambda>p. Ok (BitPackedPayload_encode p)"
  BitPackedPayload_parse bit_packed_wf
  using BitPackedPayload_parse_encode [of _ "[]"] by unfold_locales simp

section \<open>Properties\<close>

lemma pack_mask: "1 \<le> bpv \<Longrightarrow> bpv \<le> 63 \<Longrightarrow>
    bit (if bpv = 64 then - 1 else push_bit (unat (bpv :: u8)) 1 - 1 :: u64) i \<longleftrightarrow> i < unat bpv"
  unfolding low_mask_eq by (auto simp: bit_simps unat_u8_le)

lemma value_fits: "1 \<le> bpv \<Longrightarrow> bpv \<le> 63 \<Longrightarrow>
    v AND NOT (if bpv = 64 then - 1 else push_bit (unat (bpv :: u8)) 1 - 1 :: u64) = 0 \<longleftrightarrow>
    unat v < 2 ^ unat bpv"
proof -
  assume b: "1 \<le> bpv" "bpv \<le> 63"
  then have "bpv \<noteq> 64" by auto
  then have "(v AND NOT (if bpv = 64 then - 1 else push_bit (unat bpv) 1 - 1) = 0) = (v = v AND mask (unat bpv))"
    unfolding low_mask_eq by (auto simp: bit_eq_iff bit_simps)
  also have "\<dots> = (v = take_bit (unat bpv) v)" by (simp add: take_bit_eq_mask)
  also have "\<dots> = (unat v < 2 ^ unat bpv)"
    by (metis take_bit_nat_eq_self_iff unsigned_take_bit_eq word_unat_eq_iff)
  finally show ?thesis .
qed

lemma bits_at_replicate [simp]: "\<not> bits_at (replicate n 0) k"
  by (auto simp: bits_at_def)

lemma pack_Ok:
  assumes "1 \<le> bpv" "bpv \<le> 63" and "\<forall>v \<in> set vs. unat v < 2 ^ unat bpv"
    and "length vs < 2 ^ 26"
  shows "\<exists>p. BitPackedPayload_pack vs bpv = Ok p \<and> bit_packed_wf p \<and> bit_rows p vs"
proof -
  let ?b = "unat bpv" and ?zero = "replicate (div_ceil (length vs * unat bpv) 8) 0 :: bytes"
  have b: "0 < ?b" "?b \<le> 63" using assms by (simp_all add: unat_u8_le)
  have len: "length vs * ?b \<le> 8 * length ?zero"
    by (simp add: div_ceil_8 [symmetric])
  have "length vs * ?b \<le> 2 ^ 26 * 63" using assms b by (intro mult_le_mono) auto
  then have "div_ceil (length vs * ?b) 8 \<le> 2 ^ 26 * 8"
    unfolding div_ceil_8 by simp
  then have small: "length ?zero < 2 ^ 32" by simp
  obtain out where out: "bit_pack_loop (if bpv = 64 then - 1 else push_bit ?b 1 - 1) bpv ?zero 0 vs = Ok out"
      "length out = length ?zero"
      "\<And>k. bits_at out k \<longleftrightarrow> k < 8 * length ?zero \<and> packed_bit vs ?b k"
    using bit_pack_loop_Ok [of vs "if bpv = 64 then - 1 else push_bit ?b 1 - 1" 0 bpv ?zero] assms b len
    by (auto simp: value_fits pack_mask)
  let ?p = "\<lparr>bp_bits_per_value = bpv, bp_row_count = of_nat (length vs), bp_bits = out\<rparr>"
  have n: "unat (of_nat (length vs) :: u32) = length vs"
    using assms by (intro unat_of_nat_less) simp
  have "bit (vs ! j) i \<longleftrightarrow> i < ?b \<and> bits_at out (j * ?b + i)" if "j < length vs" for j i
  proof -
    have "unat (vs ! j) < 2 ^ ?b" using assms that by auto
    then have "vs ! j = take_bit ?b (vs ! j)"
      by (metis take_bit_nat_eq_self_iff unsigned_take_bit_eq word_unat_eq_iff)
    then have "bit (vs ! j) i \<longleftrightarrow> i < ?b \<and> bit (vs ! j) i" by (metis bit_take_bit_iff)
    moreover have "j * ?b + i < 8 * length ?zero" if "i < ?b"
    proof -
      have "Suc j * ?b \<le> length vs * ?b" using \<open>j < length vs\<close> by (intro mult_le_mono) auto
      with len that show ?thesis by simp
    qed
    moreover have "packed_bit vs ?b (j * ?b + i) \<longleftrightarrow> bit (vs ! j) i" if "i < ?b"
      using that \<open>j < length vs\<close> by (simp add: packed_bit_def)
    ultimately show ?thesis unfolding out(3) by blast
  qed
  then have "bit_rows ?p vs" by (simp add: bit_rows_def n)
  moreover have "bit_packed_wf ?p" using assms out(2) small len by (simp add: bit_packed_wf_def n)
  moreover have "BitPackedPayload_pack vs bpv = Ok ?p"
    using assms out(1) by (simp add: BitPackedPayload_pack_def Let_def)
  ultimately show ?thesis by blast
qed

lemma pack_decodes:
  assumes "bit_packed_wf p" and "bit_rows p vs"
  shows "BitPacked_canonical_decode p = Ok vs" "BitPacked_fast_decode p = Ok vs"
  using canonical_bit_rows [OF assms(1)] fast_bit_rows [OF assms(1)] bit_rows_unique [OF assms(2)] by auto

text \<open>C15: values that fit the width are packed, stored and read back unchanged: for every width
  from 1 to 63 the packed payload is parsed from its own encoding, whatever follows, and both the
  16-byte reference decoder and the 8-byte fast decoder return the packed values. (A page holds
  fewer than \<open>2 ^ 26\<close> values here, so that the bit stream's length fits its \<open>u32\<close> field.)\<close>

theorem bit_pack_roundtrip:
  assumes "1 \<le> bpv" "bpv \<le> 63" and "\<forall>v \<in> set vs. unat v < 2 ^ unat bpv" and "length vs < 2 ^ 26"
  shows "\<exists>p. BitPackedPayload_pack vs bpv = Ok p \<and>
    BitPackedPayload_parse (BitPackedPayload_encode p @ rest) = Ok p \<and>
    BitPacked_canonical_decode p = Ok vs \<and> BitPacked_fast_decode p = Ok vs"
  using pack_Ok [OF assms] pack_decodes BitPackedPayload_parse_encode by metis

lemma bit_pack_roundtrip_witness:
  "\<exists>p. BitPackedPayload_pack [5, 0, 7] 3 = Ok p \<and> BitPacked_fast_decode p = Ok [5, 0, 7]"
  using bit_pack_roundtrip [of 3 "[5, 0, 7]" "[]"] by auto

text \<open>the fast and the reference decoder agree on every page the parser accepts, return one
  value per row, each below \<open>2 ^ bits_per_value\<close>, and the run-time parity check succeeds.\<close>

theorem bit_packed_parity:
  assumes "BitPackedPayload_parse bs = Ok p"
  shows "BitPacked_fast_decode p = BitPacked_canonical_decode p \<and>
    (\<exists>xs. BitPacked_canonical_decode p = Ok xs \<and> length xs = unat (bp_row_count p) \<and>
       (\<forall>x \<in> set xs. unat x < 2 ^ unat (bp_bits_per_value p))) \<and>
    assert_parity BitPacked_canonical_decode BitPacked_fast_decode p = Ok ()"
proof -
  from BitPackedPayload_parse_wf [OF assms] have wf: "bit_packed_wf p" by blast
  then obtain xs where xs: "BitPacked_canonical_decode p = Ok xs" "bit_rows p xs"
    using canonical_bit_rows by blast
  have "unat x < 2 ^ unat (bp_bits_per_value p)" if "x \<in> set xs" for x
  proof -
    from that obtain j where "j < length xs" "x = xs ! j" by (metis in_set_conv_nth)
    with xs(2) have "bit x i \<longrightarrow> i < unat (bp_bits_per_value p)" for i by (auto simp: bit_rows_def)
    then have "take_bit (unat (bp_bits_per_value p)) x = x"
      by (intro bit_word_eqI) (auto simp: bit_take_bit_iff)
    then show ?thesis by (metis take_bit_nat_eq_self_iff unsigned_take_bit_eq)
  qed
  with xs bit_packed.parity [OF wf] bit_packed.assert_parity_Ok [OF wf] show ?thesis
    by (auto simp: bit_rows_def)
qed

lemma bit_packed_parity_witness:
  "assert_parity BitPacked_canonical_decode BitPacked_fast_decode
     \<lparr>bp_bits_per_value = 4, bp_row_count = 3, bp_bits = [0x21, 0x03]\<rparr> = Ok ()"
proof -
  have "BitPackedPayload_parse (4 # le_bytes 4 (3 :: u32) @ le_bytes 4 (2 :: u32) @ [0x21, 0x03]) =
      Ok \<lparr>bp_bits_per_value = 4, bp_row_count = 3, bp_bits = [0x21, 0x03]\<rparr>"
    by code_simp
  from bit_packed_parity [OF this] show ?thesis by blast
qed

end
