(* ===== verification/Local_Codebook.thy ===== *)
theory Local_Codebook
  imports Constants Encodings_Runs Bit_Packed
begin

text \<open>
  The local codebook (\<open>encoding/local_codebook.rs\<close>): distinct page values stored once and a
  stream of indexes into them, encoded by RLE or bit packing. The parser decodes the index
  stream and rejects an index outside the codebook, so every typed decoder of a parsed page is
  total and returns the indexed values.
\<close>

section \<open>Index stream\<close>

datatype LocalIndexEncoding = LIE_Rle | LIE_BitPacked

definition LocalIndexEncoding_from_kind_raw :: "u16 \<Rightarrow> LocalIndexEncoding option" where
  "LocalIndexEncoding_from_kind_raw raw =
     (case CoveEncodingKind_from_u16 raw of
        None \<Rightarrow> None
      | Some EK_Rle \<Rightarrow> Some LIE_Rle
      | Some EK_BitPacked \<Rightarrow> Some LIE_BitPacked
      | Some _ \<Rightarrow> None)"

primrec LocalIndexEncoding_encoding_kind :: "LocalIndexEncoding \<Rightarrow> CoveEncodingKind" where
  "LocalIndexEncoding_encoding_kind LIE_Rle = EK_Rle"
| "LocalIndexEncoding_encoding_kind LIE_BitPacked = EK_BitPacked"

datatype LocalIndexPayload = LIP_Rle RlePayload | LIP_BitPacked BitPackedPayload

primrec LocalIndexPayload_encoding :: "LocalIndexPayload \<Rightarrow> LocalIndexEncoding" where
  "LocalIndexPayload_encoding (LIP_Rle _) = LIE_Rle"
| "LocalIndexPayload_encoding (LIP_BitPacked _) = LIE_BitPacked"

primrec LocalIndexPayload_encode :: "LocalIndexPayload \<Rightarrow> bytes" where
  "LocalIndexPayload_encode (LIP_Rle payload) = RlePayload_encode payload"
| "LocalIndexPayload_encode (LIP_BitPacked payload) = BitPackedPayload_encode payload"

text \<open>\<open>u32::try_from(value)\<close> on an \<open>i64\<close>.\<close>

definition u32_try_from_i64 :: "i64 \<Rightarrow> u32 result" where
  "u32_try_from_i64 v = (if 0 \<le> sint v \<and> sint v < 2 ^ 32 then Ok (ucast v) else Err PageCorrupt)"

definition LocalIndexPayload_decode_local_indexes :: "LocalIndexPayload \<Rightarrow> u32 list result" where
  "LocalIndexPayload_decode_local_indexes ix =
     and_then (case ix of LIP_Rle payload \<Rightarrow> Rle_fast_decode payload
                        | LIP_BitPacked payload \<Rightarrow> BitPacked_fast_decode payload)
       (collect_map u32_try_from_i64)"

section \<open>Codebook values\<close>

datatype LocalCodebookValueKind = CBK_FileCode | CBK_NumCode | CBK_Boolean | CBK_VarBytes

definition value_kind_error :: "u16 \<Rightarrow> CoveError" where
  "value_kind_error raw =
     UnsupportedEncoding (''LocalCodebook value physical kind '' @ show_nat (unat raw))"

definition LocalCodebookValueKind_from_raw :: "u16 \<Rightarrow> LocalCodebookValueKind result" where
  "LocalCodebookValueKind_from_raw raw =
     and_then (ok_or (if unat raw < 256 then CovePhysicalKind_from_u8 (ucast raw) else None)
       (value_kind_error raw)) (\<lambda>physical_kind.
     case physical_kind of
       PK_FileCode \<Rightarrow> Ok CBK_FileCode
     | PK_NumCode \<Rightarrow> Ok CBK_NumCode
     | PK_Boolean \<Rightarrow> Ok CBK_Boolean
     | PK_VarBytes \<Rightarrow> Ok CBK_VarBytes
     | _ \<Rightarrow> Err (value_kind_error raw))"

primrec LocalCodebookValueKind_to_raw :: "LocalCodebookValueKind \<Rightarrow> u16" where
  "LocalCodebookValueKind_to_raw CBK_FileCode = ucast (CovePhysicalKind_code PK_FileCode)"
| "LocalCodebookValueKind_to_raw CBK_NumCode = ucast (CovePhysicalKind_code PK_NumCode)"
| "LocalCodebookValueKind_to_raw CBK_Boolean = ucast (CovePhysicalKind_code PK_Boolean)"
| "LocalCodebookValueKind_to_raw CBK_VarBytes = ucast (CovePhysicalKind_code PK_VarBytes)"

datatype LocalCodebookValue =
    CBV_FileCode u32 | CBV_NumCode u64 | CBV_Boolean bool | CBV_VarBytes bytes

datatype LocalCodebookValues =
    CB_FileCode "u32 list" | CB_NumCode "u64 list" | CB_Boolean "bool list" | CB_VarBytes "bytes list"

primrec LocalCodebookValues_kind :: "LocalCodebookValues \<Rightarrow> LocalCodebookValueKind" where
  "LocalCodebookValues_kind (CB_FileCode _) = CBK_FileCode"
| "LocalCodebookValues_kind (CB_NumCode _) = CBK_NumCode"
| "LocalCodebookValues_kind (CB_Boolean _) = CBK_Boolean"
| "LocalCodebookValues_kind (CB_VarBytes _) = CBK_VarBytes"

primrec LocalCodebookValues_len :: "LocalCodebookValues \<Rightarrow> usize" where
  "LocalCodebookValues_len (CB_FileCode values) = length values"
| "LocalCodebookValues_len (CB_NumCode values) = length values"
| "LocalCodebookValues_len (CB_Boolean values) = length values"
| "LocalCodebookValues_len (CB_VarBytes values) = length values"

definition LocalCodebookValues_is_empty :: "LocalCodebookValues \<Rightarrow> bool" where
  "LocalCodebookValues_is_empty v \<longleftrightarrow> LocalCodebookValues_len v = 0"

primrec bool_bytes_loop :: "bytes \<Rightarrow> bool list result" where
  "bool_bytes_loop [] = Ok []"
| "bool_bytes_loop (b # bs) =
     (if b = 0 then map_result ((#) False) (bool_bytes_loop bs)
      else if b = 1 then map_result ((#) True) (bool_bytes_loop bs)
      else Err PageCorrupt)"

fun var_bytes_loop :: "bytes \<Rightarrow> usize \<Rightarrow> nat \<Rightarrow> (bytes list \<times> usize) result" where
  "var_bytes_loop bs offset 0 = Ok ([], offset)"
| "var_bytes_loop bs offset (Suc n) =
     and_then (checked_add offset 4) (\<lambda>length_end.
     if length_end > length bs then Err BufferTooShort
     else let len = unat (u32_at bs offset) in
     and_then (checked_add length_end len) (\<lambda>value_end.
     if value_end > length bs then Err BufferTooShort
     else and_then (var_bytes_loop bs value_end n) (\<lambda>(vs, offset).
       Ok (slice length_end (value_end - length_end) bs # vs, offset))))"

primrec LocalCodebookValues_parse ::
  "LocalCodebookValueKind \<Rightarrow> usize \<Rightarrow> bytes \<Rightarrow> LocalCodebookValues result" where
  "LocalCodebookValues_parse CBK_FileCode codebook_len bs =
     and_then (checked_mul codebook_len 4) (\<lambda>expected.
     if length bs \<noteq> expected then Err PageCorrupt
     else Ok (CB_FileCode (map from_le (chunks_exact 4 bs))))"
| "LocalCodebookValues_parse CBK_NumCode codebook_len bs =
     and_then (checked_mul codebook_len 8) (\<lambda>expected.
     if length bs \<noteq> expected then Err PageCorrupt
     else Ok (CB_NumCode (map from_le (chunks_exact 8 bs))))"
| "LocalCodebookValues_parse CBK_Boolean codebook_len bs =
     (if length bs \<noteq> codebook_len then Err PageCorrupt
      else map_result CB_Boolean (bool_bytes_loop bs))"
| "LocalCodebookValues_parse CBK_VarBytes codebook_len bs =
     and_then (var_bytes_loop bs 0 codebook_len) (\<lambda>(values, offset).
     if offset \<noteq> length bs then Err PageCorrupt
     else Ok (CB_VarBytes values))"

primrec LocalCodebookValues_encoded_len :: "LocalCodebookValues \<Rightarrow> usize" where
  "LocalCodebookValues_encoded_len (CB_FileCode values) = length values * 4"
| "LocalCodebookValues_encoded_len (CB_NumCode values) = length values * 8"
| "LocalCodebookValues_encoded_len (CB_Boolean values) = length values"
| "LocalCodebookValues_encoded_len (CB_VarBytes values) = (\<Sum>v\<leftarrow>values. 4 + length v)"

primrec LocalCodebookValues_encode_into :: "LocalCodebookValues \<Rightarrow> bytes \<Rightarrow> bytes" where
  "LocalCodebookValues_encode_into (CB_FileCode values) out = out @ concat (map (le_bytes 4) values)"
| "LocalCodebookValues_encode_into (CB_NumCode values) out = out @ concat (map (le_bytes 8) values)"
| "LocalCodebookValues_encode_into (CB_Boolean values) out =
     out @ map (\<lambda>v. if v then 1 else 0) values"
| "LocalCodebookValues_encode_into (CB_VarBytes values) out =
     out @ concat (map (\<lambda>v. le_bytes 4 (of_nat (length v) :: u32) @ v) values)"

text \<open>\<open>values.get(index).copied().ok_or(CoveError::PageCorrupt)\<close>.\<close>

definition get_or_corrupt :: "'a list \<Rightarrow> usize \<Rightarrow> 'a result" where
  "get_or_corrupt xs i = (if i < length xs then Ok (xs ! i) else Err PageCorrupt)"

primrec LocalCodebookValues_value_at :: "LocalCodebookValues \<Rightarrow> usize \<Rightarrow> LocalCodebookValue result" where
  "LocalCodebookValues_value_at (CB_FileCode values) i = map_result CBV_FileCode (get_or_corrupt values i)"
| "LocalCodebookValues_value_at (CB_NumCode values) i = map_result CBV_NumCode (get_or_corrupt values i)"
| "LocalCodebookValues_value_at (CB_Boolean values) i = map_result CBV_Boolean (get_or_corrupt values i)"
| "LocalCodebookValues_value_at (CB_VarBytes values) i = map_result CBV_VarBytes (get_or_corrupt values i)"

section \<open>The payload\<close>

record LocalCodebookPayload =
  cb_values :: LocalCodebookValues
  cb_indexes :: LocalIndexPayload

definition LocalCodebookPayload_parse :: "bytes \<Rightarrow> LocalCodebookPayload result" where
  "LocalCodebookPayload_parse bs =
     (if length bs < 12 then Err BufferTooShort
      else let child_raw = u16_at bs 0 in
      and_then (LocalCodebookValueKind_from_raw (u16_at bs 2)) (\<lambda>value_kind.
      let codebook_len = unat (u32_at bs 4);
          child_len = unat (u32_at bs 8);
          header_len = 12
      in if child_len > length bs - header_len then Err BufferTooShort
      else let child_start = length bs - child_len in
      and_then (LocalCodebookValues_parse value_kind codebook_len
                  (slice header_len (child_start - header_len) bs)) (\<lambda>values.
      let child_bytes = drop child_start bs in
      and_then (case LocalIndexEncoding_from_kind_raw child_raw of
                  Some LIE_Rle \<Rightarrow> map_result LIP_Rle (RlePayload_parse child_bytes)
                | Some LIE_BitPacked \<Rightarrow> map_result LIP_BitPacked (BitPackedPayload_parse child_bytes)
                | None \<Rightarrow> Err (UnsupportedEncoding
                    (''LocalCodebook child encoding '' @ show_nat (unat child_raw)))) (\<lambda>indexes.
      and_then (LocalIndexPayload_decode_local_indexes indexes) (\<lambda>decoded.
      if list_ex (\<lambda>index. unat index \<ge> LocalCodebookValues_len values) decoded then Err PageCorrupt
      else Ok \<lparr>cb_values = values, cb_indexes = indexes\<rparr>)))))"

definition LocalCodebookPayload_encode :: "LocalCodebookPayload \<Rightarrow> bytes" where
  "LocalCodebookPayload_encode p =
     (let child_kind = CoveEncodingKind_code
            (LocalIndexEncoding_encoding_kind (LocalIndexPayload_encoding (cb_indexes p)));
          child = LocalIndexPayload_encode (cb_indexes p);
          out = le_bytes 2 child_kind;
          out = out @ le_bytes 2 (LocalCodebookValueKind_to_raw (LocalCodebookValues_kind (cb_values p)));
          out = out @ le_bytes 4 (of_nat (LocalCodebookValues_len (cb_values p)) :: u32);
          out = out @ le_bytes 4 (of_nat (length child) :: u32);
          out = LocalCodebookValues_encode_into (cb_values p) out
      in out @ child)"

definition LocalCodebookPayload_decode_values ::
  "LocalCodebookPayload \<Rightarrow> LocalCodebookValue list result" where
  "LocalCodebookPayload_decode_values p =
     and_then (LocalIndexPayload_decode_local_indexes (cb_indexes p))
       (collect_map (\<lambda>index. LocalCodebookValues_value_at (cb_values p) (unat index)))"

definition decode_typed :: "'a list \<Rightarrow> LocalIndexPayload \<Rightarrow> 'a list result" where
  "decode_typed values ix =
     and_then (LocalIndexPayload_decode_local_indexes ix)
       (collect_map (\<lambda>index. get_or_corrupt values (unat index)))"

definition LocalCodebookPayload_decode_file_codes :: "LocalCodebookPayload \<Rightarrow> u32 list result" where
  "LocalCodebookPayload_decode_file_codes p =
     (case cb_values p of CB_FileCode values \<Rightarrow> decode_typed values (cb_indexes p)
      | _ \<Rightarrow> Err (UnsupportedEncoding ''LocalCodebook is not FileCode''))"

definition LocalCodebookPayload_decode_num_codes :: "LocalCodebookPayload \<Rightarrow> u64 list result" where
  "LocalCodebookPayload_decode_num_codes p =
     (case cb_values p of CB_NumCode values \<Rightarrow> decode_typed values (cb_indexes p)
      | _ \<Rightarrow> Err (UnsupportedEncoding ''LocalCodebook is not NumCode''))"

definition LocalCodebookPayload_decode_booleans :: "LocalCodebookPayload \<Rightarrow> bool list result" where
  "LocalCodebookPayload_decode_booleans p =
     (case cb_values p of CB_Boolean values \<Rightarrow> decode_typed values (cb_indexes p)
      | _ \<Rightarrow> Err (UnsupportedEncoding ''LocalCodebook is not Boolean''))"

definition LocalCodebookPayload_decode_var_bytes :: "LocalCodebookPayload \<Rightarrow> bytes list result" where
  "LocalCodebookPayload_decode_var_bytes p =
     (case cb_values p of CB_VarBytes values \<Rightarrow> decode_typed values (cb_indexes p)
      | _ \<Rightarrow> Err (UnsupportedEncoding ''LocalCodebook is not VarBytes''))"

text \<open>\<open>i64::try_from(value)\<close> on a \<open>u64\<close>.\<close>

definition i64_try_from_u64 :: "u64 \<Rightarrow> i64 result" where
  "i64_try_from_u64 v = (if unat v < 2 ^ 63 then Ok v else Err PageCorrupt)"

definition LocalCodebookPayload_decode_i64_values :: "LocalCodebookPayload \<Rightarrow> i64 list result" where
  "LocalCodebookPayload_decode_i64_values p =
     (case cb_values p of
        CB_FileCode _ \<Rightarrow> map_result (map ucast) (LocalCodebookPayload_decode_file_codes p)
      | CB_NumCode _ \<Rightarrow> and_then (LocalCodebookPayload_decode_num_codes p) (collect_map i64_try_from_u64)
      | CB_Boolean _ \<Rightarrow> map_result (map (\<lambda>b. if b then 1 else 0)) (LocalCodebookPayload_decode_booleans p)
      | CB_VarBytes _ \<Rightarrow> Err (UnsupportedEncoding
          ''LocalCodebook VarBytes cannot decode through the i64 Encoding API''))"

definition LocalCodebook_canonical_decode :: "LocalCodebookPayload \<Rightarrow> i64 list result" where
  "LocalCodebook_canonical_decode p = LocalCodebookPayload_decode_i64_values p"

definition LocalCodebook_fast_decode :: "LocalCodebookPayload \<Rightarrow> i64 list result" where
  "LocalCodebook_fast_decode p = LocalCodebookPayload_decode_i64_values p"

section \<open>The codebook survives the wire\<close>

definition values_wf :: "LocalCodebookValues \<Rightarrow> bool" where
  "values_wf v \<longleftrightarrow> LocalCodebookValues_len v < 2 ^ 32 \<and>
     (case v of CB_VarBytes xs \<Rightarrow> (\<forall>x \<in> set xs. length x < 2 ^ 32) | _ \<Rightarrow> True)"

definition index_wf :: "LocalIndexPayload \<Rightarrow> bool" where
  "index_wf ix = (case ix of LIP_Rle q \<Rightarrow> rle_wf q | LIP_BitPacked q \<Rightarrow> bit_packed_wf q)"

definition indexes_in_range :: "LocalCodebookPayload \<Rightarrow> bool" where
  "indexes_in_range p \<longleftrightarrow>
     (case LocalIndexPayload_decode_local_indexes (cb_indexes p) of
        Ok idx \<Rightarrow> list_all (\<lambda>i. unat i < LocalCodebookValues_len (cb_values p)) idx
      | _ \<Rightarrow> False)"

definition codebook_wf :: "LocalCodebookPayload \<Rightarrow> bool" where
  "codebook_wf p \<longleftrightarrow> values_wf (cb_values p) \<and> index_wf (cb_indexes p) \<and> indexes_in_range p \<and>
     length (LocalIndexPayload_encode (cb_indexes p)) < 2 ^ 32 \<and>
     length (LocalCodebookPayload_encode p) < usize_bound"

lemma encode_into_eq: "LocalCodebookValues_encode_into v out = out @ LocalCodebookValues_encode_into v []"
  by (cases v) simp_all

lemma length_encode_into:
  "length (LocalCodebookValues_encode_into v out) = length out + LocalCodebookValues_encoded_len v"
proof (cases v)
  case (CB_VarBytes xs)
  then show ?thesis by (simp add: length_concat comp_def)
qed (simp_all add: le_u32.length_table le_u64.length_table)

lemma bool_bytes_loop_encode:
  "bool_bytes_loop (map (\<lambda>v. if v then 1 else 0) vs) = Ok vs"
  by (induction vs) simp_all

lemma var_bytes_loop_encode:
  assumes "\<forall>v \<in> set vs. length v < 2 ^ 32"
    and "length (pre @ concat (map (\<lambda>v. le_bytes 4 (of_nat (length v) :: u32) @ v) vs)) < usize_bound"
  shows "var_bytes_loop (pre @ concat (map (\<lambda>v. le_bytes 4 (of_nat (length v) :: u32) @ v) vs))
      (length pre) (length vs) =
    Ok (vs, length (pre @ concat (map (\<lambda>v. le_bytes 4 (of_nat (length v) :: u32) @ v) vs)))"
  using assms
proof (induction vs arbitrary: pre)
  case (Cons v vs)
  let ?w = "le_bytes 4 (of_nat (length v) :: u32)"
  have n: "unat (of_nat (length v) :: u32) = length v" using Cons.prems by (simp add: unat_of_nat_less)
  show ?case using Cons.IH [of "pre @ ?w @ v"] Cons.prems
    by (simp add: n checked_add_def Let_def add.assoc wire_simps)
qed simp

lemma values_parse_encode:
  assumes "values_wf v" and "LocalCodebookValues_encoded_len v < usize_bound"
  shows "LocalCodebookValues_parse (LocalCodebookValues_kind v) (LocalCodebookValues_len v)
           (LocalCodebookValues_encode_into v []) = Ok v"
proof (cases v)
  case (CB_FileCode xs)
  then show ?thesis using assms chunks_exact_concat [of xs "le_bytes 4" 4]
    by (simp add: values_wf_def checked_mul_def le_u32.length_table from_le_le_bytes comp_def)
next
  case (CB_NumCode xs)
  then show ?thesis using assms chunks_exact_concat [of xs "le_bytes 8" 8]
    by (simp add: values_wf_def checked_mul_def le_u64.length_table from_le_le_bytes comp_def)
next
  case (CB_Boolean xs)
  then show ?thesis by (simp add: bool_bytes_loop_encode)
next
  case (CB_VarBytes xs)
  have l: "length (concat (map (\<lambda>v. le_bytes 4 (of_nat (length v) :: u32) @ v) xs)) < usize_bound"
    using assms CB_VarBytes length_encode_into [of v "[]"] by simp
  show ?thesis using assms CB_VarBytes var_bytes_loop_encode [of xs "[]"] l
    by (simp add: values_wf_def)
qed

lemma value_kind_roundtrip: "LocalCodebookValueKind_from_raw (LocalCodebookValueKind_to_raw k) = Ok k"
  by (cases k) (simp_all add: LocalCodebookValueKind_from_raw_def CovePhysicalKind_from_u8_def)

lemma index_kind_roundtrip:
  "LocalIndexEncoding_from_kind_raw (CoveEncodingKind_code (LocalIndexEncoding_encoding_kind e)) = Some e"
  by (cases e) (simp_all add: LocalIndexEncoding_from_kind_raw_def coveEncodingKind.decode_code
      del: CoveEncodingKind_code.simps)

lemma codebook_roundtrip:
  assumes wf: "codebook_wf p"
  shows "LocalCodebookPayload_parse (LocalCodebookPayload_encode p) = Ok p"
proof -
  let ?child = "LocalIndexPayload_encode (cb_indexes p)"
  let ?vals = "LocalCodebookValues_encode_into (cb_values p) []"
  let ?k = "CoveEncodingKind_code (LocalIndexEncoding_encoding_kind (LocalIndexPayload_encoding (cb_indexes p)))"
  let ?hd = "le_bytes 2 ?k @ le_bytes 2 (LocalCodebookValueKind_to_raw (LocalCodebookValues_kind (cb_values p))) @
      le_bytes 4 (of_nat (LocalCodebookValues_len (cb_values p)) :: u32) @
      le_bytes 4 (of_nat (length ?child) :: u32)"
  let ?bs = "LocalCodebookPayload_encode p"
  have bs: "?bs = ?hd @ ?vals @ ?child"
    using encode_into_eq [of "cb_values p" ?hd] by (simp add: LocalCodebookPayload_encode_def Let_def)
  have len: "length ?bs = 12 + length ?vals + length ?child" by (simp add: bs)
  have h: "u16_at ?bs 0 = ?k"
      "u16_at ?bs 2 = LocalCodebookValueKind_to_raw (LocalCodebookValues_kind (cb_values p))"
      "unat (u32_at ?bs 4) = LocalCodebookValues_len (cb_values p)" "unat (u32_at ?bs 8) = length ?child"
    using wf by (simp_all add: bs codebook_wf_def values_wf_def wire_simps)
  have s: "slice 12 (length ?vals) ?bs = ?vals" "drop (12 + length ?vals) ?bs = ?child"
    by (simp_all add: bs wire_simps)
  have "LocalCodebookValues_encoded_len (cb_values p) < usize_bound"
    using wf len by (simp add: codebook_wf_def length_encode_into)
  then have v: "LocalCodebookValues_parse (LocalCodebookValues_kind (cb_values p))
      (LocalCodebookValues_len (cb_values p)) ?vals = Ok (cb_values p)"
    using wf by (intro values_parse_encode) (simp_all add: codebook_wf_def)
  have c: "(case LocalIndexPayload_encoding (cb_indexes p) of
      LIE_Rle \<Rightarrow> map_result LIP_Rle (RlePayload_parse (drop (12 + length ?vals) ?bs))
    | LIE_BitPacked \<Rightarrow> map_result LIP_BitPacked (BitPackedPayload_parse (drop (12 + length ?vals) ?bs)))
    = Ok (cb_indexes p)"
    unfolding s(2) using wf rle_parse_encode [of _ "[]"] BitPackedPayload_parse_encode [of _ "[]"]
    by (cases "cb_indexes p") (simp_all add: codebook_wf_def index_wf_def)
  obtain idx where "LocalIndexPayload_decode_local_indexes (cb_indexes p) = Ok idx"
      "list_all (\<lambda>i. unat i < LocalCodebookValues_len (cb_values p)) idx"
    using wf by (auto simp: codebook_wf_def indexes_in_range_def split: result.splits)
  then show ?thesis
    by (simp add: LocalCodebookPayload_parse_def Let_def len h s value_kind_roundtrip
        index_kind_roundtrip v c list_ex_iff list_all_iff not_le)
qed

interpretation codebook_wire: wire_codec "\<lambda>p. Ok (LocalCodebookPayload_encode p)"
  LocalCodebookPayload_parse codebook_wf
  by unfold_locales (simp add: codebook_roundtrip)

section \<open>Parsed pages decode\<close>

lemma codebook_parse_in_range:
  "LocalCodebookPayload_parse bs = Ok p \<Longrightarrow> indexes_in_range p"
  by (auto simp: LocalCodebookPayload_parse_def Let_def result_simps indexes_in_range_def
      list_ex_iff list_all_iff not_le split: if_splits)

lemma decode_typed_in_range:
  assumes "LocalIndexPayload_decode_local_indexes ix = Ok idx" and "\<forall>i \<in> set idx. unat i < length vs"
  shows "decode_typed vs ix = Ok (map (\<lambda>i. vs ! unat i) idx)"
  using assms by (auto simp: decode_typed_def get_or_corrupt_def intro!: collect_map_Ok)

primrec value_nth :: "LocalCodebookValues \<Rightarrow> nat \<Rightarrow> LocalCodebookValue" where
  "value_nth (CB_FileCode xs) i = CBV_FileCode (xs ! i)"
| "value_nth (CB_NumCode xs) i = CBV_NumCode (xs ! i)"
| "value_nth (CB_Boolean xs) i = CBV_Boolean (xs ! i)"
| "value_nth (CB_VarBytes xs) i = CBV_VarBytes (xs ! i)"

lemma value_at_in_range: "i < LocalCodebookValues_len v \<Longrightarrow> LocalCodebookValues_value_at v i = Ok (value_nth v i)"
  by (cases v) (simp_all add: get_or_corrupt_def)

definition codebook_i64_kind :: "LocalCodebookValues \<Rightarrow> bool" where
  "codebook_i64_kind v = (case v of CB_FileCode _ \<Rightarrow> True | CB_Boolean _ \<Rightarrow> True | _ \<Rightarrow> False)"

lemma in_range_decode:
  assumes "indexes_in_range p"
  obtains idx where "LocalIndexPayload_decode_local_indexes (cb_indexes p) = Ok idx"
    "\<forall>i \<in> set idx. unat i < LocalCodebookValues_len (cb_values p)"
  using assms by (auto simp: indexes_in_range_def list_all_iff split: result.splits)

interpretation codebook: encoding_trait LocalCodebook_canonical_decode LocalCodebook_fast_decode
  "\<lambda>p. indexes_in_range p \<and> codebook_i64_kind (cb_values p)"
  "\<lambda>p. case LocalIndexPayload_decode_local_indexes (cb_indexes p) of Ok idx \<Rightarrow> length idx | _ \<Rightarrow> 0"
proof
  fix p assume a: "indexes_in_range p \<and> codebook_i64_kind (cb_values p)"
  then obtain idx where "LocalIndexPayload_decode_local_indexes (cb_indexes p) = Ok idx"
    "\<forall>i \<in> set idx. unat i < LocalCodebookValues_len (cb_values p)" by (elim conjE in_range_decode)
  with a show "\<exists>xs. LocalCodebook_canonical_decode p = Ok xs \<and> length xs =
      (case LocalIndexPayload_decode_local_indexes (cb_indexes p) of Ok idx \<Rightarrow> length idx | _ \<Rightarrow> 0)"
    by (cases "cb_values p") (simp_all add: LocalCodebook_canonical_decode_def codebook_i64_kind_def
        LocalCodebookPayload_decode_i64_values_def LocalCodebookPayload_decode_file_codes_def
        LocalCodebookPayload_decode_booleans_def decode_typed_in_range)
qed (simp add: LocalCodebook_canonical_decode_def LocalCodebook_fast_decode_def)

section \<open>Properties\<close>

text \<open>a local codebook page of any value kind and either index encoding survives the wire.\<close>

theorem local_codebook_roundtrip:
  assumes "codebook_wf p"
  shows "LocalCodebookPayload_parse (LocalCodebookPayload_encode p) = Ok p"
  using assms by (rule codebook_roundtrip)

lemma sample_codebook_wf:
  "codebook_wf \<lparr>cb_values = CB_VarBytes [[1, 2], [3]], cb_indexes = LIP_Rle \<lparr>rle_runs = [(1, 1), (0, 1)]\<rparr>\<rparr>"
proof -
  have "LocalIndexPayload_decode_local_indexes (LIP_Rle \<lparr>rle_runs = [(1, 1), (0, 1)]\<rparr>) = Ok [1, 0]"
    by code_simp
  then show ?thesis
    by (simp add: codebook_wf_def values_wf_def index_wf_def indexes_in_range_def rle_wf_def rle_total_def
      LocalCodebookPayload_encode_def RlePayload_encode_def)
qed

lemma local_codebook_roundtrip_witness:
  "LocalCodebookPayload_parse (LocalCodebookPayload_encode
     \<lparr>cb_values = CB_VarBytes [[1, 2], [3]], cb_indexes = LIP_Rle \<lparr>rle_runs = [(1, 1), (0, 1)]\<rparr>\<rparr>) =
   Ok \<lparr>cb_values = CB_VarBytes [[1, 2], [3]], cb_indexes = LIP_Rle \<lparr>rle_runs = [(1, 1), (0, 1)]\<rparr>\<rparr>"
  by (rule local_codebook_roundtrip [OF sample_codebook_wf])

text \<open>on every page the parser accepts, the index stream decodes, every index lies in the
  codebook, and the typed decoder returns for each row the codebook value its index names; the
  decoder of the page's own kind never fails.\<close>

theorem local_codebook_decodes:
  assumes "LocalCodebookPayload_parse bs = Ok p"
  shows "\<exists>idx. LocalIndexPayload_decode_local_indexes (cb_indexes p) = Ok idx \<and>
    (\<forall>i \<in> set idx. unat i < LocalCodebookValues_len (cb_values p)) \<and>
    LocalCodebookPayload_decode_values p = Ok (map (\<lambda>i. value_nth (cb_values p) (unat i)) idx) \<and>
    (case cb_values p of
       CB_FileCode vs \<Rightarrow> LocalCodebookPayload_decode_file_codes p = Ok (map (\<lambda>i. vs ! unat i) idx)
     | CB_NumCode vs \<Rightarrow> LocalCodebookPayload_decode_num_codes p = Ok (map (\<lambda>i. vs ! unat i) idx)
     | CB_Boolean vs \<Rightarrow> LocalCodebookPayload_decode_booleans p = Ok (map (\<lambda>i. vs ! unat i) idx)
     | CB_VarBytes vs \<Rightarrow> LocalCodebookPayload_decode_var_bytes p = Ok (map (\<lambda>i. vs ! unat i) idx))"
proof -
  from codebook_parse_in_range [OF assms] obtain idx where
    idx: "LocalIndexPayload_decode_local_indexes (cb_indexes p) = Ok idx"
    "\<forall>i \<in> set idx. unat i < LocalCodebookValues_len (cb_values p)" by (rule in_range_decode)
  have "LocalCodebookPayload_decode_values p = Ok (map (\<lambda>i. value_nth (cb_values p) (unat i)) idx)"
    using idx by (auto simp: LocalCodebookPayload_decode_values_def value_at_in_range intro!: collect_map_Ok)
  with idx show ?thesis
    by (cases "cb_values p") (simp_all add: LocalCodebookPayload_decode_file_codes_def
        LocalCodebookPayload_decode_num_codes_def LocalCodebookPayload_decode_booleans_def
        LocalCodebookPayload_decode_var_bytes_def decode_typed_in_range)
qed

lemma local_codebook_decodes_witness:
  "\<exists>idx. LocalIndexPayload_decode_local_indexes (LIP_Rle \<lparr>rle_runs = [(1, 1), (0, 1)]\<rparr>) = Ok idx \<and>
     LocalCodebookPayload_decode_var_bytes
       \<lparr>cb_values = CB_VarBytes [[1, 2], [3]], cb_indexes = LIP_Rle \<lparr>rle_runs = [(1, 1), (0, 1)]\<rparr>\<rparr> =
     Ok (map (\<lambda>i. [[1, 2], [3]] ! unat i) idx)"
  using local_codebook_decodes [OF codebook_roundtrip [OF sample_codebook_wf]] by auto

end
