(* ===== verification/Validity.thy ===== *)
theory Validity
  imports Bit_Packed
begin

text \<open>
  Null bitmaps (\<open>validity.rs\<close>): bit \<open>i\<close> of the byte stream is set when row \<open>i\<close> is null. The
  view answers single rows and counts nulls word by word; the builder starts from zeroes and
  sets rows. The counting routine masks the padding bits only in a partial last word: the
  lemmas state exactly which bits it counts, and show that it is right for every bitmap without
  set padding bits, in particular for everything the builder produces.
\<close>

section \<open>The view\<close>

record ValidityBitmap =
  vb_bytes :: bytes
  vb_row_count :: u64

definition ValidityBitmap_new :: "bytes \<Rightarrow> u64 \<Rightarrow> ValidityBitmap" where
  "ValidityBitmap_new bs row_count = \<lparr>vb_bytes = bs, vb_row_count = row_count\<rparr>"

definition ValidityBitmap_is_null :: "ValidityBitmap \<Rightarrow> u64 \<Rightarrow> bool result" where
  "ValidityBitmap_is_null bm row =
     (if row \<ge> vb_row_count bm then Err OffsetRange
      else let byte_idx = unat row div 8;
               bit_idx = unat row mod 8
           in and_then (ok_or (if byte_idx < length (vb_bytes bm) then Some (vb_bytes bm ! byte_idx) else None)
                OffsetRange) (\<lambda>byte.
              Ok (drop_bit bit_idx byte AND 1 = 1)))"

definition ValidityBitmap_is_valid :: "ValidityBitmap \<Rightarrow> u64 \<Rightarrow> bool result" where
  "ValidityBitmap_is_valid bm row = map_result Not (ValidityBitmap_is_null bm row)"

definition ValidityBitmap_validate_len :: "ValidityBitmap \<Rightarrow> u64 \<Rightarrow> unit result" where
  "ValidityBitmap_validate_len bm row_count =
     and_then (map_result (\<lambda>x. x div 8) (checked_add (unat row_count) 7)) (\<lambda>needed_bytes.
       if length (vb_bytes bm) < needed_bytes then Err BufferTooShort else Ok ())"

definition count_ones :: "'a::len word \<Rightarrow> nat" where
  "count_ones w = length (filter (bit w) [0..<LENGTH('a)])"

definition ValidityBitmap_null_count :: "ValidityBitmap \<Rightarrow> nat result" where
  "ValidityBitmap_null_count bm =
     and_then (map_result (\<lambda>x. x div 8) (checked_add (unat (vb_row_count bm)) 7)) (\<lambda>needed_bytes.
     if length (vb_bytes bm) < needed_bytes then Err BufferTooShort
     else let full_words = needed_bytes div 8;
              count = foldl (\<lambda>count word_bytes. count + count_ones (from_le word_bytes :: u64)) 0
                        (chunks_exact 8 (slice 0 (full_words * 8) (vb_bytes bm)));
              tail = slice (full_words * 8) (needed_bytes - full_words * 8) (vb_bytes bm)
     in if tail \<noteq> []
        then let buf = put 0 tail (replicate 8 0);
                 word = from_le buf :: u64;
                 tail_bits = unat (vb_row_count bm) - full_words * 64;
                 word = (if tail_bits < 64 then word AND (push_bit tail_bits 1 - 1) else word)
             in Ok (count + count_ones word)
        else Ok count)"

section \<open>The builder\<close>

record ValidityBitmapBuilder =
  vbb_bytes :: bytes
  vbb_row_count :: u64

definition ValidityBitmapBuilder_new :: "u64 \<Rightarrow> ValidityBitmapBuilder result" where
  "ValidityBitmapBuilder_new row_count =
     and_then (map_result (\<lambda>x. x div 8) (checked_add (unat row_count) 7)) (\<lambda>needed_bytes.
       Ok \<lparr>vbb_bytes = replicate needed_bytes 0, vbb_row_count = row_count\<rparr>)"

definition ValidityBitmapBuilder_set_null ::
  "ValidityBitmapBuilder \<Rightarrow> u64 \<Rightarrow> ValidityBitmapBuilder result" where
  "ValidityBitmapBuilder_set_null b row =
     (if row \<ge> vbb_row_count b then Err OffsetRange
      else let byte_idx = unat row div 8;
               bit_idx = unat row mod 8
           in if byte_idx \<ge> length (vbb_bytes b) then Panic
              else Ok (b\<lparr>vbb_bytes := (vbb_bytes b)[byte_idx := vbb_bytes b ! byte_idx OR push_bit bit_idx 1]\<rparr>))"

definition ValidityBitmapBuilder_as_bitmap :: "ValidityBitmapBuilder \<Rightarrow> ValidityBitmap" where
  "ValidityBitmapBuilder_as_bitmap b = ValidityBitmap_new (vbb_bytes b) (vbb_row_count b)"

definition ValidityBitmapBuilder_finish :: "ValidityBitmapBuilder \<Rightarrow> u64 \<times> bytes" where
  "ValidityBitmapBuilder_finish b = (vbb_row_count b, vbb_bytes b)"

text \<open>Marking a list of rows, as a writer does.\<close>

primrec set_nulls :: "ValidityBitmapBuilder \<Rightarrow> u64 list \<Rightarrow> ValidityBitmapBuilder result" where
  "set_nulls b [] = Ok b"
| "set_nulls b (r # rs) = and_then (ValidityBitmapBuilder_set_null b r) (\<lambda>b. set_nulls b rs)"

section \<open>Rows as bits of the stream\<close>

lemma is_null_iff:
  "ValidityBitmap_is_null bm row = Ok v \<longleftrightarrow>
     row < vb_row_count bm \<and> unat row div 8 < length (vb_bytes bm) \<and> v = bits_at (vb_bytes bm) (unat row)"
  by (auto simp: ValidityBitmap_is_null_def Let_def bits_at_def bit_mod_8 result_simps not_le)

definition builder_inv :: "ValidityBitmapBuilder \<Rightarrow> bool" where
  "builder_inv b \<longleftrightarrow> unat (vbb_row_count b) + 7 < usize_bound \<and>
     length (vbb_bytes b) = (unat (vbb_row_count b) + 7) div 8 \<and>
     (\<forall>k. bits_at (vbb_bytes b) k \<longrightarrow> k < unat (vbb_row_count b))"

lemma builder_new_inv:
  "ValidityBitmapBuilder_new n = Ok b \<Longrightarrow>
     builder_inv b \<and> vbb_row_count b = n \<and> (\<forall>k. \<not> bits_at (vbb_bytes b) k)"
  by (auto simp: ValidityBitmapBuilder_new_def builder_inv_def result_simps)

lemma set_null_Ok:
  assumes "builder_inv b" and "r < vbb_row_count b"
  shows "\<exists>b'. ValidityBitmapBuilder_set_null b r = Ok b' \<and> builder_inv b' \<and>
    vbb_row_count b' = vbb_row_count b \<and>
    (\<forall>k. bits_at (vbb_bytes b') k \<longleftrightarrow> bits_at (vbb_bytes b) k \<or> k = unat r)"
proof -
  have r: "unat r < unat (vbb_row_count b)" using assms by (simp add: word_less_nat_alt)
  then have i: "unat r div 8 < length (vbb_bytes b)" using assms by (simp add: builder_inv_def)
  let ?b = "b\<lparr>vbb_bytes := (vbb_bytes b)[unat r div 8 := vbb_bytes b ! (unat r div 8) OR push_bit (unat r mod 8) 1]\<rparr>"
  have "ValidityBitmapBuilder_set_null b r = Ok ?b"
    using assms i by (simp add: ValidityBitmapBuilder_set_null_def Let_def not_le)
  moreover have "bits_at (vbb_bytes ?b) k \<longleftrightarrow> bits_at (vbb_bytes b) k \<or> k = unat r" for k
    using bits_at_set [OF i] by simp
  moreover from this have "builder_inv ?b" using assms r by (auto simp: builder_inv_def)
  ultimately show ?thesis by (intro exI [of _ ?b]) auto
qed

lemma set_nulls_Ok:
  assumes "builder_inv b" and "\<forall>r \<in> set rs. r < vbb_row_count b"
  shows "\<exists>b'. set_nulls b rs = Ok b' \<and> builder_inv b' \<and> vbb_row_count b' = vbb_row_count b \<and>
    (\<forall>k. bits_at (vbb_bytes b') k \<longleftrightarrow> bits_at (vbb_bytes b) k \<or> k \<in> unat ` set rs)"
  using assms
proof (induction rs arbitrary: b)
  case Nil
  then show ?case by auto
next
  case (Cons r rs)
  then obtain b1 where b1: "ValidityBitmapBuilder_set_null b r = Ok b1" "builder_inv b1"
    "vbb_row_count b1 = vbb_row_count b"
    "\<forall>k. bits_at (vbb_bytes b1) k \<longleftrightarrow> bits_at (vbb_bytes b) k \<or> k = unat r"
    using set_null_Ok [of b r] by auto
  with Cons.prems obtain b2 where "set_nulls b1 rs = Ok b2" "builder_inv b2"
    "vbb_row_count b2 = vbb_row_count b1"
    "\<forall>k. bits_at (vbb_bytes b2) k \<longleftrightarrow> bits_at (vbb_bytes b1) k \<or> k \<in> unat ` set rs"
    using Cons.IH [of b1] by auto
  with b1 show ?case by (intro exI [of _ b2]) auto
qed

section \<open>Counting\<close>

definition bit_count :: "(nat \<Rightarrow> bool) \<Rightarrow> nat \<Rightarrow> nat" where
  "bit_count P n = length (filter P [0..<n])"

lemma bit_count_card: "bit_count P n = card {k. k < n \<and> P k}"
proof -
  have "bit_count P n = card (set (filter P [0..<n]))"
    unfolding bit_count_def by (rule distinct_card [symmetric]) simp
  also have "set (filter P [0..<n]) = {k. k < n \<and> P k}" by auto
  finally show ?thesis .
qed

lemma bit_count_add: "bit_count P (m + n) = bit_count P m + bit_count (\<lambda>i. P (m + i)) n"
proof -
  have "[0..<m + n] = [0..<m] @ map (\<lambda>i. i + m) [0..<n]"
    using upt_add_eq_append [of 0 m n] map_add_upt [of m n] by (simp add: add.commute)
  then show ?thesis by (simp add: bit_count_def filter_map comp_def add.commute)
qed

lemma bit_count_cong: "(\<And>i. i < n \<Longrightarrow> P i = Q i) \<Longrightarrow> bit_count P n = bit_count Q n"
  unfolding bit_count_card by (rule arg_cong [where f = card]) auto

lemma bit_count_restrict:
  "(\<And>k. k < n \<Longrightarrow> P k \<Longrightarrow> k < m) \<Longrightarrow> m \<le> n \<Longrightarrow> bit_count P n = bit_count P m"
  unfolding bit_count_card by (rule arg_cong [where f = card]) auto

lemma count_ones_64: "count_ones (w :: u64) = bit_count (bit w) 64"
  by (simp add: count_ones_def bit_count_def)

lemma count_words:
  assumes "n * 8 \<le> length bs"
  shows "foldl (\<lambda>c b. c + count_ones (from_le b :: u64)) c (chunks_at 0 8 n bs) =
    c + bit_count (bits_at bs) (64 * n)"
  using assms
proof (induction n)
  case 0
  then show ?case by (simp add: bit_count_def)
next
  case (Suc n)
  have "chunks_at 0 8 (Suc n) bs = chunks_at 0 8 n bs @ [slice (n * 8) 8 bs]"
    by (simp add: chunks_at_def)
  moreover have "bits_at (slice (n * 8) 8 bs) i \<longleftrightarrow> bits_at bs (64 * n + i)" if "i < 64" for i
  proof -
    have "(64 * n + i) div 8 = n * 8 + i div 8" "(64 * n + i) mod 8 = i mod 8" "i div 8 < 8"
      using that by presburger+
    then show ?thesis using Suc.prems by (auto simp: bits_at_def nth_slice)
  qed
  then have "count_ones (from_le (slice (n * 8) 8 bs) :: u64) = bit_count (\<lambda>i. bits_at bs (64 * n + i)) 64"
    unfolding count_ones_64 by (intro bit_count_cong) (simp add: bit_from_le_bits_at)
  moreover have "64 * Suc n = 64 * n + 64" by simp
  ultimately show ?case using Suc by (simp only: foldl_append bit_count_add) simp
qed

lemma count_tail:
  assumes "f * 8 + t \<le> length bs" and "t < 8" and "k \<le> 8 * t"
  shows "count_ones (from_le (put 0 (slice (f * 8) t bs) (replicate 8 0)) AND mask k :: u64) =
    bit_count (\<lambda>i. bits_at bs (64 * f + i)) k"
proof -
  have "bit (from_le (put 0 (slice (f * 8) t bs) (replicate 8 0)) :: u64) i \<longleftrightarrow> bits_at bs (64 * f + i)"
    if "i < k" for i
  proof -
    from that assms have i: "i < 8 * t" "i < 64" by linarith+
    then have d: "i div 8 < t" by (simp add: div_less_iff_less_mult mult.commute)
    have "(64 * f + i) div 8 = f * 8 + i div 8" "(64 * f + i) mod 8 = i mod 8" by presburger+
    with d i assms show ?thesis
      by (simp add: bit_from_le bits_at_def nth_put nth_slice)
  qed
  then have eq: "bit_count (bit (from_le (put 0 (slice (f * 8) t bs) (replicate 8 0)) AND mask k :: u64)) k =
      bit_count (\<lambda>i. bits_at bs (64 * f + i)) k"
    using assms by (intro bit_count_cong) (simp add: bit_and_iff bit_mask_iff possible_bit_def)
  have "k \<le> 64" using assms by linarith
  then show ?thesis unfolding count_ones_64 eq [symmetric]
    by (intro bit_count_restrict) (auto simp: bit_and_iff bit_mask_iff)
qed

text \<open>What the routine counts: all bits of the used bytes when they fill whole words, the bits of
  the rows otherwise.\<close>

definition counted_bits :: "u64 \<Rightarrow> nat" where
  "counted_bits row_count =
     (let needed = (unat row_count + 7) div 8
      in if needed mod 8 = 0 then 8 * needed else unat row_count)"

lemma null_count_exact:
  assumes "unat (vb_row_count bm) + 7 < usize_bound"
    and "(unat (vb_row_count bm) + 7) div 8 \<le> length (vb_bytes bm)"
  shows "ValidityBitmap_null_count bm = Ok (bit_count (bits_at (vb_bytes bm)) (counted_bits (vb_row_count bm)))"
proof -
  let ?rc = "unat (vb_row_count bm)" and ?bs = "vb_bytes bm"
  let ?n = "(?rc + 7) div 8"
  let ?f = "?n div 8" and ?t = "?n mod 8"
  have n: "?n = ?f * 8 + ?t" "?n - ?f * 8 = ?t" by (simp_all add: minus_div_mult_eq_mod)
  have "chunks_exact 8 (slice 0 (?f * 8) ?bs) = chunks_at 0 8 ?f ?bs"
  proof -
    have "slice (i * 8) 8 (slice 0 (?f * 8) ?bs) = slice (i * 8) 8 ?bs" if "i < ?f" for i
      using that by (simp add: slice_slice)
    then show ?thesis using assms n by (simp add: chunks_exact_def chunks_at_def min_def)
  qed
  then have words: "foldl (\<lambda>c b. c + count_ones (from_le b :: u64)) 0 (chunks_exact 8 (slice 0 (?f * 8) ?bs)) =
      bit_count (bits_at ?bs) (64 * ?f)"
    using count_words [of ?f ?bs 0] assms n by simp
  show ?thesis
  proof (cases "?t = 0")
    case True
    with n(1) have "8 * ?n = 64 * ?f" by linarith
    then have "counted_bits (vb_row_count bm) = 64 * ?f"
      unfolding counted_bits_def Let_def using True by (simp only: if_True simp_thms)
    moreover have "?n - ?f * 8 = 0" using n(2) True by simp
    ultimately show ?thesis using words assms
      by (simp add: ValidityBitmap_null_count_def Let_def checked_add_def)
  next
    case False
    let ?tail = "slice (?f * 8) ?t ?bs"
    have "?f * 8 + ?t \<le> length ?bs" using assms(2) n(1) by linarith
    from this have l: "length ?tail = ?t" unfolding length_slice by linarith
    have t8: "?t < 8" by simp
    have rc: "64 * ?f < ?rc" "?rc \<le> 64 * ?f + 8 * ?t" using False n by linarith+
    let ?k = "?rc - ?f * 64"
    have k: "?k < 64" "?k \<le> 8 * ?t" "?rc = 64 * ?f + ?k" using rc t8 by linarith+
    have "count_ones (from_le (put 0 ?tail (replicate 8 0)) AND mask ?k :: u64) =
        bit_count (\<lambda>i. bits_at ?bs (64 * ?f + i)) ?k"
      using \<open>?f * 8 + ?t \<le> length ?bs\<close> t8 k(2) by (rule count_tail)
    note tail_count = this
    have ne: "?tail \<noteq> []" using l False by (metis list.size(3))
    then have c: "(?rc + 7 < usize_bound) = True" "(length ?bs < ?n) = False" "(?tail \<noteq> []) = True" "(?k < 64) = True"
      using assms k(1) by simp_all
    have "ValidityBitmap_null_count bm = Ok (bit_count (bits_at ?bs) (64 * ?f) +
        count_ones (from_le (put 0 ?tail (replicate 8 0)) AND mask ?k :: u64))"
      unfolding ValidityBitmap_null_count_def checked_add_def Let_def low_mask_eq
      by (simp only: c n(2) words if_True if_False map_result.simps and_then.simps)
    moreover have "counted_bits (vb_row_count bm) = 64 * ?f + ?k"
      using False k(3) by (simp only: counted_bits_def Let_def if_False)
    ultimately show ?thesis by (simp only: tail_count bit_count_add)
  qed
qed

section \<open>Properties\<close>

text \<open>the bitmap builder keeps exactly the rows marked null: marking rows inside the range
  never fails, afterwards a row reads as null if and only if it was marked, and the word-wise
  null count is the number of distinct rows marked.\<close>

theorem validity_builder_counts:
  assumes "ValidityBitmapBuilder_new n = Ok b" and "\<forall>r \<in> set rs. r < n"
  shows "\<exists>b'. set_nulls b rs = Ok b' \<and>
    (\<forall>r < n. ValidityBitmap_is_null (ValidityBitmapBuilder_as_bitmap b') r = Ok (r \<in> set rs)) \<and>
    ValidityBitmap_null_count (ValidityBitmapBuilder_as_bitmap b') = Ok (card (set rs))"
proof -
  from builder_new_inv [OF assms(1)] have b: "builder_inv b" "vbb_row_count b = n"
    "\<And>k. \<not> bits_at (vbb_bytes b) k" by auto
  with assms(2) obtain b' where b': "set_nulls b rs = Ok b'" "builder_inv b'" "vbb_row_count b' = n"
    "\<And>k. bits_at (vbb_bytes b') k \<longleftrightarrow> k \<in> unat ` set rs"
    using set_nulls_Ok [of b rs] by auto
  let ?bm = "ValidityBitmapBuilder_as_bitmap b'"
  have bm: "vb_bytes ?bm = vbb_bytes b'" "vb_row_count ?bm = n"
    using b' by (simp_all add: ValidityBitmapBuilder_as_bitmap_def ValidityBitmap_new_def)
  have len: "unat n + 7 < usize_bound" "length (vbb_bytes b') = (unat n + 7) div 8"
    using b' by (simp_all add: builder_inv_def)
  have "ValidityBitmap_is_null ?bm r = Ok (r \<in> set rs)" if "r < n" for r
  proof -
    from that have "unat r < unat n" by (simp add: word_less_nat_alt)
    then have "unat r div 8 < (unat n + 7) div 8" by linarith
    with that len show ?thesis by (auto simp: is_null_iff bm b'(4) word_unat_eq_iff [symmetric])
  qed
  moreover have "bit_count (bits_at (vbb_bytes b')) (counted_bits n) = card (set rs)"
  proof -
    have "counted_bits n = unat n \<or> unat n \<le> counted_bits n" by (auto simp: counted_bits_def Let_def)
    then have "{k. k < counted_bits n \<and> bits_at (vbb_bytes b') k} = unat ` set rs"
      using assms(2) by (auto simp: b'(4) word_less_nat_alt)
    moreover have "inj_on unat (set rs)" by (simp add: inj_on_def word_unat_eq_iff [symmetric])
    ultimately show ?thesis by (simp add: bit_count_card card_image)
  qed
  ultimately show ?thesis using null_count_exact [of ?bm] b'(1) len by (intro exI [of _ b']) (auto simp: bm)
qed

lemma validity_builder_counts_witness:
  "\<exists>b'. set_nulls \<lparr>vbb_bytes = [0, 0], vbb_row_count = 10\<rparr> [9, 3, 9] = Ok b' \<and>
     ValidityBitmap_null_count (ValidityBitmapBuilder_as_bitmap b') = Ok 2"
proof -
  have "ValidityBitmapBuilder_new 10 = Ok \<lparr>vbb_bytes = [0, 0], vbb_row_count = 10\<rparr>"
    by (simp add: ValidityBitmapBuilder_new_def checked_add_def) (simp add: numeral_2_eq_2)
  moreover have "card {9, 3, 9 :: u64} = 2" by (simp add: card_insert_if)
  ultimately show ?thesis using validity_builder_counts [of 10 _ "[9, 3, 9]"] by fastforce
qed

text \<open>on an arbitrary bitmap that is long enough, the null count is the number of set bits among
  all bits of the used bytes when those bytes fill whole 64-bit words, and among the rows only
  otherwise. For 57 to 63 rows past a multiple of 64 the padding bits are therefore counted: a
  bitmap of eight \<open>0xff\<close> bytes over 60 rows reports 64 nulls.\<close>

theorem null_count_counts_padding:
  "(unat (vb_row_count bm) + 7 < usize_bound \<and> (unat (vb_row_count bm) + 7) div 8 \<le> length (vb_bytes bm) \<longrightarrow>
    ValidityBitmap_null_count bm =
      Ok (card {k. k < (if (unat (vb_row_count bm) + 7) div 8 mod 8 = 0 then 8 * ((unat (vb_row_count bm) + 7) div 8)
                        else unat (vb_row_count bm)) \<and> bits_at (vb_bytes bm) k})) \<and>
   ValidityBitmap_null_count (ValidityBitmap_new (replicate 8 0xff) 60) = Ok 64"
proof
  show "unat (vb_row_count bm) + 7 < usize_bound \<and> (unat (vb_row_count bm) + 7) div 8 \<le> length (vb_bytes bm) \<longrightarrow>
    ValidityBitmap_null_count bm =
      Ok (card {k. k < (if (unat (vb_row_count bm) + 7) div 8 mod 8 = 0 then 8 * ((unat (vb_row_count bm) + 7) div 8)
                        else unat (vb_row_count bm)) \<and> bits_at (vb_bytes bm) k})"
    using null_count_exact [of bm] by (auto simp: bit_count_card counted_bits_def Let_def)
  let ?bm = "ValidityBitmap_new (replicate 8 0xff) 60"
  have "ValidityBitmap_null_count ?bm = Ok (bit_count (bits_at (replicate 8 0xff)) (counted_bits 60))"
    using null_count_exact [of ?bm] by (simp add: ValidityBitmap_new_def)
  moreover have "counted_bits 60 = 64" by (simp add: counted_bits_def Let_def)
  moreover have "bit_count (bits_at (replicate 8 0xff)) 64 = 64"
  proof -
    have "bits_at (replicate 8 0xff) k" if "k < 64" for k
    proof -
      have "(0xff :: u8) = mask 8" by (simp add: mask_eq_exp_minus_1)
      then have "bit (0xff :: u8) (k mod 8)" by (simp only: bit_mask_iff) (simp add: possible_bit_def)
      with that show ?thesis by (simp add: bits_at_def)
    qed
    then have "{k. k < 64 \<and> bits_at (replicate 8 0xff) k} = {..<64}" by auto
    then show ?thesis by (simp add: bit_count_card)
  qed
  ultimately show "ValidityBitmap_null_count ?bm = Ok 64" by simp
qed

lemma null_count_counts_padding_witness:
  "ValidityBitmap_null_count \<lparr>vb_bytes = [], vb_row_count = 0\<rparr> = Ok 0"
  using null_count_counts_padding [of "\<lparr>vb_bytes = [], vb_row_count = 0\<rparr>"] by simp

end
