(* ===== verification/Zone_Outcome.thy ===== *)
theory Zone_Outcome
  imports Main
begin

text \<open>
  The outcome of evaluating a predicate against the metadata of a zone (\<open>predicate.rs\<close>), with the
  connectives of its truth tables. The specification is a concretisation: \<open>sound o rows\<close> says
  that the outcome \<open>o\<close> is true of a zone whose rows have the three-valued truth values \<open>rows\<close>
  (\<open>None\<close> is SQL's UNKNOWN). Conjunction and disjunction are sound for every zone; negation is
  sound exactly when no row is UNKNOWN, which the code does not check.
\<close>

datatype PredicateZoneOutcome = AllMatch | NoMatch | SomeMatch | Unknown

definition outcome_default :: PredicateZoneOutcome where
  "outcome_default = Unknown"

definition is_proven_no_match :: "PredicateZoneOutcome \<Rightarrow> bool" where
  "is_proven_no_match o' \<longleftrightarrow> o' = NoMatch"

definition is_proven_all_match :: "PredicateZoneOutcome \<Rightarrow> bool" where
  "is_proven_all_match o' \<longleftrightarrow> o' = AllMatch"

text \<open>The match arms in the source's order; \<open>fun\<close> resolves the overlaps the same way.\<close>

fun outcome_and :: "PredicateZoneOutcome \<Rightarrow> PredicateZoneOutcome \<Rightarrow> PredicateZoneOutcome" where
  "outcome_and NoMatch _ = NoMatch"
| "outcome_and _ NoMatch = NoMatch"
| "outcome_and AllMatch x = x"
| "outcome_and x AllMatch = x"
| "outcome_and Unknown Unknown = Unknown"
| "outcome_and Unknown SomeMatch = SomeMatch"
| "outcome_and SomeMatch Unknown = SomeMatch"
| "outcome_and SomeMatch SomeMatch = SomeMatch"

fun outcome_or :: "PredicateZoneOutcome \<Rightarrow> PredicateZoneOutcome \<Rightarrow> PredicateZoneOutcome" where
  "outcome_or AllMatch _ = AllMatch"
| "outcome_or _ AllMatch = AllMatch"
| "outcome_or NoMatch x = x"
| "outcome_or x NoMatch = x"
| "outcome_or Unknown Unknown = Unknown"
| "outcome_or Unknown SomeMatch = SomeMatch"
| "outcome_or SomeMatch Unknown = SomeMatch"
| "outcome_or SomeMatch SomeMatch = SomeMatch"

primrec outcome_negate :: "PredicateZoneOutcome \<Rightarrow> PredicateZoneOutcome" where
  "outcome_negate AllMatch = NoMatch"
| "outcome_negate NoMatch = AllMatch"
| "outcome_negate SomeMatch = SomeMatch"
| "outcome_negate Unknown = Unknown"

section \<open>Three-valued rows\<close>

fun and3 :: "bool option \<Rightarrow> bool option \<Rightarrow> bool option" where
  "and3 (Some False) _ = Some False"
| "and3 _ (Some False) = Some False"
| "and3 (Some True) x = x"
| "and3 None _ = None"

fun or3 :: "bool option \<Rightarrow> bool option \<Rightarrow> bool option" where
  "or3 (Some True) _ = Some True"
| "or3 _ (Some True) = Some True"
| "or3 (Some False) x = x"
| "or3 None _ = None"

definition not3 :: "bool option \<Rightarrow> bool option" where
  "not3 v = map_option Not v"

primrec row_ok :: "PredicateZoneOutcome \<Rightarrow> bool option \<Rightarrow> bool" where
  "row_ok AllMatch v \<longleftrightarrow> v = Some True"
| "row_ok NoMatch v \<longleftrightarrow> v \<noteq> Some True"
| "row_ok SomeMatch v \<longleftrightarrow> True"
| "row_ok Unknown v \<longleftrightarrow> True"

definition sound :: "PredicateZoneOutcome \<Rightarrow> bool option list \<Rightarrow> bool" where
  "sound o' rows \<longleftrightarrow> list_all (row_ok o') rows"

lemma sound_Nil [simp]: "sound o' []"
  by (simp add: sound_def)

lemma sound_Cons [simp]: "sound o' (v # rows) \<longleftrightarrow> row_ok o' v \<and> sound o' rows"
  by (simp add: sound_def)

lemma sound_no_claim [simp]: "sound SomeMatch rows" "sound Unknown rows"
  by (simp_all add: sound_def list_all_iff)

lemma sound_iff: "sound o' rows \<longleftrightarrow> (\<forall>v \<in> set rows. row_ok o' v)"
  by (simp add: sound_def list_all_iff)

lemma sound_map: "sound o' (map f rows) \<longleftrightarrow> (\<forall>r \<in> set rows. row_ok o' (f r))"
  by (simp add: sound_iff)

lemma and3_True: "and3 a b = Some True \<longleftrightarrow> a = Some True \<and> b = Some True"
  by (cases "(a, b)" rule: and3.cases) auto

lemma or3_True: "or3 a b = Some True \<longleftrightarrow> a = Some True \<or> b = Some True"
  by (cases "(a, b)" rule: or3.cases) auto

text \<open>
  A connective on outcomes implements a connective on rows. Its lemmas lift the two-place law
  to the folds the planner builds.
\<close>

locale sound_connective =
  fixes comb :: "PredicateZoneOutcome \<Rightarrow> PredicateZoneOutcome \<Rightarrow> PredicateZoneOutcome"
    and rowwise :: "bool option \<Rightarrow> bool option \<Rightarrow> bool option"
  assumes comb_sound:
    "\<lbrakk>length ps = length qs; sound a ps; sound b qs\<rbrakk> \<Longrightarrow> sound (comb a b) (map2 rowwise ps qs)"
    and comb_assoc: "comb (comb a b) c = comb a (comb b c)"
    and comb_commute: "comb a b = comb b a"
    and comb_idem: "comb a a = a"
begin

lemma comb_left_commute: "comb a (comb b c) = comb b (comb a c)"
  by (metis comb_assoc comb_commute)

text \<open>Folding over any number of predicates on the same zone.\<close>

lemma fold_sound:
  assumes "list_all2 sound os rss" and "\<forall>rs \<in> set rss. length rs = length base" and "sound a base"
  shows "sound (foldl comb a os) (foldl (map2 rowwise) base rss)"
  using assms
proof (induction os arbitrary: rss a base)
  case (Cons o' os)
  then obtain rs rss' where rss: "rss = rs # rss'" "sound o' rs" "list_all2 sound os rss'"
    by (auto simp: list_all2_Cons1)
  then have "sound (comb a o') (map2 rowwise base rs)" using Cons.prems by (intro comb_sound) auto
  then show ?case using Cons.IH [of rss' "map2 rowwise base rs" "comb a o'"] Cons.prems rss by simp
qed simp

text \<open>The order in which evidence is recorded does not matter.\<close>

lemma fold_order: "foldl comb (comb a b) os = comb b (foldl comb a os)"
proof (induction os arbitrary: a)
  case Nil
  show ?case by (simp add: comb_commute)
next
  case (Cons o' os)
  have "comb (comb a b) o' = comb (comb a o') b" by (metis comb_assoc comb_commute)
  then show ?case using Cons.IH [of "comb a o'"] by simp
qed

end

lemma map2_sound:
  assumes "\<And>v w. row_ok a v \<Longrightarrow> row_ok b w \<Longrightarrow> row_ok c (f v w)"
    and "length ps = length qs" and "sound a ps" and "sound b qs"
  shows "sound c (map2 f ps qs)"
  using assms(2-) by (induction ps qs rule: list_induct2) (simp_all add: assms(1))

lemma map2_sound_and:
  "length ps = length qs \<Longrightarrow> sound a ps \<Longrightarrow> sound b qs \<Longrightarrow> sound (outcome_and a b) (map2 and3 ps qs)"
  by (rule map2_sound [where a = a and b = b]) (cases a; cases b; simp add: and3_True)

lemma map2_sound_or:
  "length ps = length qs \<Longrightarrow> sound a ps \<Longrightarrow> sound b qs \<Longrightarrow> sound (outcome_or a b) (map2 or3 ps qs)"
  by (rule map2_sound [where a = a and b = b]) (cases a; cases b; simp add: or3_True)

interpretation conj: sound_connective outcome_and and3
proof
  show "outcome_and (outcome_and a b) c = outcome_and a (outcome_and b c)" for a b c
    by (cases a; cases b; cases c) simp_all
  show "outcome_and a b = outcome_and b a" for a b by (cases a; cases b) simp_all
  show "outcome_and a a = a" for a by (cases a) simp_all
qed (rule map2_sound_and)

interpretation disj: sound_connective outcome_or or3
proof
  show "outcome_or (outcome_or a b) c = outcome_or a (outcome_or b c)" for a b c
    by (cases a; cases b; cases c) simp_all
  show "outcome_or a b = outcome_or b a" for a b by (cases a; cases b) simp_all
  show "outcome_or a a = a" for a by (cases a) simp_all
qed (rule map2_sound_or)

lemma negate_involution [simp]: "outcome_negate (outcome_negate a) = a"
  by (cases a) simp_all

lemma negate_and: "outcome_negate (outcome_and a b) = outcome_or (outcome_negate a) (outcome_negate b)"
  by (cases a; cases b) simp_all

lemma negate_sound:
  assumes "sound a rows" and "None \<notin> set rows"
  shows "sound (outcome_negate a) (map not3 rows)"
proof -
  have "row_ok (outcome_negate a) (not3 v)" if "row_ok a v" and "v \<noteq> None" for v
    using that by (cases a; cases v) (auto simp: not3_def)
  moreover have "v \<noteq> None" if "v \<in> set rows" for v using assms(2) that by metis
  ultimately show ?thesis using assms(1) by (simp add: sound_iff)
qed

section \<open>Properties\<close>

text \<open>C13: combining outcomes is sound for any zone, null rows included: if each of two outcomes is
  true of its predicate's row-wise truth values, then the conjunction (disjunction) of the
  outcomes is true of the row-wise three-valued conjunction (disjunction); the connectives are
  associative, commutative and idempotent, so the order of evidence does not matter, and they
  are dual under negation.\<close>

theorem outcome_connectives_sound:
  assumes "length ps = length qs" and "sound a ps" and "sound b qs"
  shows "sound (outcome_and a b) (map2 and3 ps qs) \<and> sound (outcome_or a b) (map2 or3 ps qs) \<and>
    outcome_and a b = outcome_and b a \<and> outcome_or a b = outcome_or b a \<and>
    outcome_and (outcome_and a b) c = outcome_and a (outcome_and b c) \<and>
    outcome_or (outcome_or a b) c = outcome_or a (outcome_or b c) \<and>
    outcome_negate (outcome_and a b) = outcome_or (outcome_negate a) (outcome_negate b)"
  using map2_sound_and [OF assms] map2_sound_or [OF assms] conj.comb_commute disj.comb_commute
    conj.comb_assoc disj.comb_assoc negate_and by simp

lemma outcome_connectives_sound_witness:
  "sound (outcome_and AllMatch NoMatch) (map2 and3 [Some True, Some True] [None, Some False])"
  using outcome_connectives_sound [of "[Some True, Some True]" "[None, Some False]" AllMatch NoMatch Unknown]
  by simp

text \<open>C29: negation is sound on zones in which the predicate is never UNKNOWN, and it is not on
  others: on a zone of one null row an equality is correctly reported \<open>NoMatch\<close>, and its
  negation is reported \<open>AllMatch\<close> although the row is UNKNOWN under the negated predicate too.\<close>

theorem negate_sound_iff_no_nulls:
  "(\<forall>a rows. sound a rows \<and> None \<notin> set rows \<longrightarrow> sound (outcome_negate a) (map not3 rows)) \<and>
   sound NoMatch [None] \<and> outcome_negate NoMatch = AllMatch \<and>
   \<not> sound (outcome_negate NoMatch) (map not3 [None])"
  using negate_sound by (auto simp: not3_def)

lemma negate_sound_iff_no_nulls_witness:
  "sound (outcome_negate NoMatch) (map not3 [Some False])"
proof -
  have "sound NoMatch [Some False] \<and> None \<notin> set [Some False]" by simp
  with negate_sound_iff_no_nulls show ?thesis by blast
qed

end
