(* ===== verification/Zone_Stats.thy ===== *)
theory Zone_Stats
  imports Encoding Constants
begin

text \<open>
  Zone statistics (\<open>zone_stats.rs\<close>): the 96-byte entry, its 20-byte statistics scalars, the
  section of entries, and the safety rules a reader enforces before it trusts a minimum or a
  maximum. Floating-point bounds are kept as bit patterns; \<open>f64_is_nan\<close> is the IEEE test on them.
\<close>

section \<open>Scopes, kinds and flags\<close>

datatype ZoneScope = ZoneScope_File | ZoneScope_Table | ZoneScope_Segment | ZoneScope_Morsel | ZoneScope_Page

definition ZoneScope_from_u8 :: "u8 \<Rightarrow> ZoneScope option" where
  "ZoneScope_from_u8 v = map_of
     [(0, ZoneScope_File), (1, ZoneScope_Table), (2, ZoneScope_Segment), (3, ZoneScope_Morsel),
      (4, ZoneScope_Page)] v"

datatype StatKind =
    SK_None
  | SK_Int64
  | SK_UInt64
  | SK_Float64Bits
  | SK_Decimal128
  | SK_TimestampMicros
  | SK_TimestampNanos
  | SK_DateDays
  | SK_FixedBytes

primrec StatKind_code :: "StatKind \<Rightarrow> u8" where
  "StatKind_code SK_None = 0"
| "StatKind_code SK_Int64 = 1"
| "StatKind_code SK_UInt64 = 2"
| "StatKind_code SK_Float64Bits = 3"
| "StatKind_code SK_Decimal128 = 4"
| "StatKind_code SK_TimestampMicros = 5"
| "StatKind_code SK_TimestampNanos = 6"
| "StatKind_code SK_DateDays = 7"
| "StatKind_code SK_FixedBytes = 8"

definition StatKind_from_u8 :: "u8 \<Rightarrow> StatKind option" where
  "StatKind_from_u8 v = map_of
     [(0, SK_None),
      (1, SK_Int64),
      (2, SK_UInt64),
      (3, SK_Float64Bits),
      (4, SK_Decimal128),
      (5, SK_TimestampMicros),
      (6, SK_TimestampNanos),
      (7, SK_DateDays),
      (8, SK_FixedBytes)] v"

interpretation statKind: wire_enum StatKind_code StatKind_from_u8
proof
  fix k show "StatKind_from_u8 (StatKind_code k) = Some k" by (cases k) (simp_all add: StatKind_from_u8_def)
next
  fix v k assume "StatKind_from_u8 v = Some k"
  then show "StatKind_code k = v" by (auto simp: StatKind_from_u8_def split: if_splits)
qed


primrec StatKind_fixed_len :: "StatKind \<Rightarrow> usize option" where
  "StatKind_fixed_len SK_None = Some 0"
| "StatKind_fixed_len SK_Int64 = Some 8"
| "StatKind_fixed_len SK_UInt64 = Some 8"
| "StatKind_fixed_len SK_Float64Bits = Some 8"
| "StatKind_fixed_len SK_TimestampMicros = Some 8"
| "StatKind_fixed_len SK_TimestampNanos = Some 8"
| "StatKind_fixed_len SK_Decimal128 = Some 16"
| "StatKind_fixed_len SK_DateDays = Some 4"
| "StatKind_fixed_len SK_FixedBytes = None"

definition HAS_MIN_MAX :: u32 where "HAS_MIN_MAX = 0x1"
definition HAS_DOMAIN_RANGE :: u32 where "HAS_DOMAIN_RANGE = 0x2"
definition DISTINCT_EXACT :: u32 where "DISTINCT_EXACT = 0x4"
definition CONSTANT :: u32 where "CONSTANT = 0x8"
definition SORTED_ASC :: u32 where "SORTED_ASC = 0x10"
definition SORTED_DESC :: u32 where "SORTED_DESC = 0x20"
definition HAS_NAN :: u32 where "HAS_NAN = 0x40"
definition HAS_REDACTED :: u32 where "HAS_REDACTED = 0x80"
definition MINMAX_TRUNCATED :: u32 where "MINMAX_TRUNCATED = 0x100"

definition flags_contain :: "u32 \<Rightarrow> u32 \<Rightarrow> bool" where
  "flags_contain self other \<longleftrightarrow> self AND other = other"

section \<open>Scalars\<close>

definition STAT_SCALAR_ENCODED_LEN :: usize where "STAT_SCALAR_ENCODED_LEN = 20"
definition ZONE_STATS_ENTRY_LEN :: usize where "ZONE_STATS_ENTRY_LEN = 96"
definition STAT_SCALAR_FLAG_TRUNCATED :: u8 where "STAT_SCALAR_FLAG_TRUNCATED = 1"
definition STAT_SCALAR_KNOWN_FLAGS :: u8 where "STAT_SCALAR_KNOWN_FLAGS = STAT_SCALAR_FLAG_TRUNCATED"

record StatScalar =
  sc_kind :: StatKind
  sc_bytes :: bytes
  sc_truncated :: bool

datatype NumericStatValue =
    NSV_Int64 i64
  | NSV_UInt64 u64
  | NSV_Float64 u64
  | NSV_Decimal128 i128
  | NSV_TimestampMicros i64
  | NSV_TimestampNanos i64
  | NSV_DateDays i32

definition decode_i32_exact :: "bytes \<Rightarrow> i32 option" where
  "decode_i32_exact bs = (if length bs \<noteq> 4 then None else Some (from_le bs))"

definition decode_i64_exact :: "bytes \<Rightarrow> i64 option" where
  "decode_i64_exact bs = (if length bs \<noteq> 8 then None else Some (from_le bs))"

definition decode_u64_exact :: "bytes \<Rightarrow> u64 option" where
  "decode_u64_exact bs = (if length bs \<noteq> 8 then None else Some (from_le bs))"

definition decode_i128_exact :: "bytes \<Rightarrow> i128 option" where
  "decode_i128_exact bs = (if length bs \<noteq> 16 then None else Some (from_le bs))"

text \<open>\<open>f64::from_bits(bits).is_nan()\<close>: all exponent bits set and a non-zero mantissa.\<close>

definition f64_is_nan :: "u64 \<Rightarrow> bool" where
  "f64_is_nan bits \<longleftrightarrow> (bits AND 0x7FFFFFFFFFFFFFFF) > 0x7FF0000000000000"

definition StatScalar_numeric_value :: "StatScalar \<Rightarrow> NumericStatValue option" where
  "StatScalar_numeric_value s =
     (case sc_kind s of
        SK_Int64 \<Rightarrow> map_option NSV_Int64 (decode_i64_exact (sc_bytes s))
      | SK_UInt64 \<Rightarrow> map_option NSV_UInt64 (decode_u64_exact (sc_bytes s))
      | SK_Float64Bits \<Rightarrow>
          (case decode_u64_exact (sc_bytes s) of
             Some bits \<Rightarrow> if \<not> f64_is_nan bits then Some (NSV_Float64 bits) else None
           | None \<Rightarrow> None)
      | SK_Decimal128 \<Rightarrow> map_option NSV_Decimal128 (decode_i128_exact (sc_bytes s))
      | SK_TimestampMicros \<Rightarrow> map_option NSV_TimestampMicros (decode_i64_exact (sc_bytes s))
      | SK_TimestampNanos \<Rightarrow> map_option NSV_TimestampNanos (decode_i64_exact (sc_bytes s))
      | SK_DateDays \<Rightarrow> map_option NSV_DateDays (decode_i32_exact (sc_bytes s))
      | SK_None \<Rightarrow> None
      | SK_FixedBytes \<Rightarrow> None)"

definition validate_stat_scalar_shape :: "StatScalar \<Rightarrow> unit result" where
  "validate_stat_scalar_shape s =
     (if length (sc_bytes s) > 16 then Err BadStats
      else case StatKind_fixed_len (sc_kind s) of
        Some fixed_len \<Rightarrow> if length (sc_bytes s) \<noteq> fixed_len then Err BadStats else Ok ()
      | None \<Rightarrow> Ok ())"

definition parse_stat_scalar :: "bytes \<Rightarrow> StatScalar option result" where
  "parse_stat_scalar bs =
     (if length bs < STAT_SCALAR_ENCODED_LEN then Err BufferTooShort
      else and_then (ok_or (StatKind_from_u8 (bs ! 0)) BadStats) (\<lambda>kind.
      let flags = bs ! 1 in
      if flags AND NOT STAT_SCALAR_KNOWN_FLAGS \<noteq> 0 then Err BadStats
      else let len = unat (u16_at bs 2) in
      if len > 16 then Err BadStats
      else if kind = SK_None then (if len \<noteq> 0 \<or> flags \<noteq> 0 then Err BadStats else Ok None)
      else let scalar = \<lparr>sc_kind = kind, sc_bytes = slice 4 len bs,
                         sc_truncated = (flags AND STAT_SCALAR_FLAG_TRUNCATED \<noteq> 0)\<rparr> in
      and_then (validate_stat_scalar_shape scalar) (\<lambda>_. Ok (Some scalar))))"

text \<open>The 20 bytes written to the destination slice, which the code clears first.\<close>

definition encode_stat_scalar :: "StatScalar option \<Rightarrow> bytes result" where
  "encode_stat_scalar val =
     (let dst = replicate STAT_SCALAR_ENCODED_LEN 0 in
      case val of
        None \<Rightarrow> Ok dst
      | Some scalar \<Rightarrow>
          and_then (validate_stat_scalar_shape scalar) (\<lambda>_.
          let len = length (sc_bytes scalar);
              dst = put 0 [StatKind_code (sc_kind scalar)] dst;
              dst = put 1 [if sc_truncated scalar then STAT_SCALAR_FLAG_TRUNCATED else 0] dst;
              dst = put 2 (le_bytes 2 (of_nat len :: u16)) dst;
              dst = put 4 (sc_bytes scalar) dst
          in Ok dst))"

section \<open>Entries\<close>

record ZoneStats =
  zs_scope :: ZoneScope
  zs_row_count :: u64
  zs_null_count :: u64
  zs_min :: "StatScalar option"
  zs_max :: "StatScalar option"
  zs_flags :: u32

record ZoneStatsEntry =
  ze_table_id :: u32
  ze_segment_id :: u32
  ze_morsel_id :: u32
  ze_column_id :: u32
  ze_non_null_count :: u32
  ze_distinct_count :: u32
  ze_run_count :: u32
  ze_stats :: ZoneStats
  ze_min_domain_rank :: u32
  ze_max_domain_rank :: u32
  ze_exact_set_ref :: u32
  ze_bloom_ref :: u32

text \<open>\<open>[&self.min, &self.max].into_iter().flatten()\<close>.\<close>

definition ZoneStats_scalars :: "ZoneStats \<Rightarrow> StatScalar list" where
  "ZoneStats_scalars z = List.map_filter (\<lambda>x. x) [zs_min z, zs_max z]"

primrec ZoneStats_scalars_loop :: "StatScalar list \<Rightarrow> unit result" where
  "ZoneStats_scalars_loop [] = Ok ()"
| "ZoneStats_scalars_loop (scalar # rest) =
     and_then (validate_stat_scalar_shape scalar) (\<lambda>_.
     if sc_kind scalar = SK_Float64Bits
     then case decode_u64_exact (sc_bytes scalar) of
            None \<Rightarrow> Err BadStats
          | Some bits \<Rightarrow> if f64_is_nan bits then Err BadStats else ZoneStats_scalars_loop rest
     else ZoneStats_scalars_loop rest)"

definition ZoneStats_validate :: "ZoneStats \<Rightarrow> unit result" where
  "ZoneStats_validate z =
     (if zs_null_count z > zs_row_count z then Err BadStats
      else if zs_null_count z = zs_row_count z \<and> (zs_min z \<noteq> None \<or> zs_max z \<noteq> None) then Err BadStats
      else if (case (zs_min z, zs_max z) of (Some mn, Some mx) \<Rightarrow> sc_kind mn \<noteq> sc_kind mx | _ \<Rightarrow> False)
      then Err BadStats
      else let scalar_truncated = list_ex sc_truncated (ZoneStats_scalars z) in
      if scalar_truncated \<noteq> flags_contain (zs_flags z) MINMAX_TRUNCATED then Err BadStats
      else and_then (ZoneStats_scalars_loop (ZoneStats_scalars z)) (\<lambda>_.
      if flags_contain (zs_flags z) CONSTANT \<and> zs_min z \<noteq> zs_max z then Err BadStats
      else if flags_contain (zs_flags z) SORTED_ASC \<and> flags_contain (zs_flags z) SORTED_DESC \<and>
              zs_row_count z > 1 then Err BadStats
      else Ok ()))"

definition u32_try_from_u64 :: "u64 \<Rightarrow> CoveError \<Rightarrow> u32 result" where
  "u32_try_from_u64 v e = (if unat v < 2 ^ 32 then Ok (ucast v) else Err e)"

definition ZoneStatsEntry_validate :: "ZoneStatsEntry \<Rightarrow> unit result" where
  "ZoneStatsEntry_validate e =
     and_then (u32_try_from_u64 (zs_row_count (ze_stats e)) BadStats) (\<lambda>row_count.
     and_then (u32_try_from_u64 (zs_null_count (ze_stats e)) BadStats) (\<lambda>null_count.
     if unat null_count + unat (ze_non_null_count e) \<ge> 2 ^ 32 then Err ArithOverflow
     else if unat null_count + unat (ze_non_null_count e) \<noteq> unat row_count then Err BadStats
     else let has_min_max = flags_contain (zs_flags (ze_stats e)) HAS_MIN_MAX in
     if (zs_min (ze_stats e) \<noteq> None) \<noteq> (zs_max (ze_stats e) \<noteq> None) then Err BadStats
     else if has_min_max \<noteq> (zs_min (ze_stats e) \<noteq> None) then Err BadStats
     else ZoneStats_validate (ze_stats e)))"

definition ZoneStatsEntry_parse :: "bytes \<Rightarrow> ZoneStatsEntry result" where
  "ZoneStatsEntry_parse bs0 =
     (if length bs0 < ZONE_STATS_ENTRY_LEN then Err BufferTooShort
      else let bs = slice 0 ZONE_STATS_ENTRY_LEN bs0;
               morsel_id = u32_at bs 8
      in and_then (parse_stat_scalar (slice 40 STAT_SCALAR_ENCODED_LEN bs)) (\<lambda>mn.
         and_then (parse_stat_scalar (slice 60 STAT_SCALAR_ENCODED_LEN bs)) (\<lambda>mx.
         let e = \<lparr>ze_table_id = u32_at bs 0, ze_segment_id = u32_at bs 4, ze_morsel_id = morsel_id,
                  ze_column_id = u32_at bs 12, ze_non_null_count = u32_at bs 24,
                  ze_distinct_count = u32_at bs 28, ze_run_count = u32_at bs 32,
                  ze_stats = \<lparr>zs_scope = (if morsel_id = 0xFFFFFFFF then ZoneScope_Segment else ZoneScope_Morsel),
                              zs_row_count = ucast (u32_at bs 16), zs_null_count = ucast (u32_at bs 20),
                              zs_min = mn, zs_max = mx, zs_flags = u32_at bs 36\<rparr>,
                  ze_min_domain_rank = u32_at bs 80, ze_max_domain_rank = u32_at bs 84,
                  ze_exact_set_ref = u32_at bs 88, ze_bloom_ref = u32_at bs 92\<rparr>
         in and_then (ZoneStatsEntry_validate e) (\<lambda>_. Ok e))))"

definition ZoneStatsEntry_serialize :: "ZoneStatsEntry \<Rightarrow> bytes result" where
  "ZoneStatsEntry_serialize e =
     and_then (ZoneStatsEntry_validate e) (\<lambda>_.
     let out = replicate ZONE_STATS_ENTRY_LEN 0;
         out = put 0 (le_bytes 4 (ze_table_id e)) out;
         out = put 4 (le_bytes 4 (ze_segment_id e)) out;
         out = put 8 (le_bytes 4 (ze_morsel_id e)) out;
         out = put 12 (le_bytes 4 (ze_column_id e)) out;
         row_count = ucast (zs_row_count (ze_stats e)) :: u32;
         null_count = ucast (zs_null_count (ze_stats e)) :: u32;
         out = put 16 (le_bytes 4 row_count) out;
         out = put 20 (le_bytes 4 null_count) out;
         out = put 24 (le_bytes 4 (ze_non_null_count e)) out;
         out = put 28 (le_bytes 4 (ze_distinct_count e)) out;
         out = put 32 (le_bytes 4 (ze_run_count e)) out;
         out = put 36 (le_bytes 4 (zs_flags (ze_stats e))) out
     in and_then (encode_stat_scalar (zs_min (ze_stats e))) (\<lambda>mn.
        and_then (encode_stat_scalar (zs_max (ze_stats e))) (\<lambda>mx.
        let out = put 40 mn out;
            out = put 60 mx out;
            out = put 80 (le_bytes 4 (ze_min_domain_rank e)) out;
            out = put 84 (le_bytes 4 (ze_max_domain_rank e)) out;
            out = put 88 (le_bytes 4 (ze_exact_set_ref e)) out;
            out = put 92 (le_bytes 4 (ze_bloom_ref e)) out
        in Ok out)))"

section \<open>The section\<close>

record ZoneStatsSection =
  zss_entries :: "ZoneStatsEntry list"

definition ZoneStatsSection_parse :: "bytes \<Rightarrow> ZoneStatsSection result" where
  "ZoneStatsSection_parse bs =
     (if bs = [] then Ok \<lparr>zss_entries = []\<rparr>
      else if length bs mod ZONE_STATS_ENTRY_LEN \<noteq> 0 then Err BadStats
      else map_result ZoneStatsSection.make
             (collect_map ZoneStatsEntry_parse (chunks_exact ZONE_STATS_ENTRY_LEN bs)))"

definition ZoneStatsSection_serialize :: "ZoneStatsSection \<Rightarrow> bytes result" where
  "ZoneStatsSection_serialize s = map_result concat (collect_map ZoneStatsEntry_serialize (zss_entries s))"

section \<open>Round trip\<close>

definition scalar_wf :: "StatScalar option \<Rightarrow> bool" where
  "scalar_wf v \<longleftrightarrow> (case v of None \<Rightarrow> True | Some s \<Rightarrow> sc_kind s \<noteq> SK_None \<and> validate_stat_scalar_shape s = Ok ())"

definition zone_entry_wf :: "ZoneStatsEntry \<Rightarrow> bool" where
  "zone_entry_wf e \<longleftrightarrow> ZoneStatsEntry_validate e = Ok () \<and>
     scalar_wf (zs_min (ze_stats e)) \<and> scalar_wf (zs_max (ze_stats e)) \<and>
     zs_scope (ze_stats e) = (if ze_morsel_id e = 0xFFFFFFFF then ZoneScope_Segment else ZoneScope_Morsel)"

lemma shape_length: "validate_stat_scalar_shape s = Ok () \<Longrightarrow> length (sc_bytes s) \<le> 16"
  by (simp add: validate_stat_scalar_shape_def split: if_splits)

lemma encode_scalar_Ok:
  "scalar_wf v \<Longrightarrow> \<exists>bs. encode_stat_scalar v = Ok bs \<and> length bs = 20 \<and> parse_stat_scalar bs = Ok v"
proof (cases v)
  case None
  then show ?thesis
    by (simp add: encode_stat_scalar_def parse_stat_scalar_def STAT_SCALAR_ENCODED_LEN_def
        StatKind_from_u8_def wire_simps Let_def)
next
  case (Some s)
  assume wf: "scalar_wf v"
  with Some have s: "sc_kind s \<noteq> SK_None" "validate_stat_scalar_shape s = Ok ()" by (simp_all add: scalar_wf_def)
  then have l: "length (sc_bytes s) \<le> 16" by (intro shape_length)
  then have n: "unat (of_nat (length (sc_bytes s)) :: u16) = length (sc_bytes s)"
    by (intro unat_of_nat_less) simp
  obtain k b t where e: "s = \<lparr>sc_kind = k, sc_bytes = b, sc_truncated = t\<rparr>" by (cases s)
  show ?thesis using s l n
    by (cases t) (simp_all add: e Some encode_stat_scalar_def parse_stat_scalar_def STAT_SCALAR_ENCODED_LEN_def Let_def
        STAT_SCALAR_KNOWN_FLAGS_def STAT_SCALAR_FLAG_TRUNCATED_def wire_simps statKind.decode_code)
qed

lemma ucast_u32_u64: "unat (w :: u64) < 2 ^ 32 \<Longrightarrow> ucast (ucast w :: u32) = w"
  by (simp add: word_unat_eq_iff unsigned_ucast_eq unsigned_take_bit_eq take_bit_nat_eq_self)

lemma zone_entry_roundtrip:
  assumes wf: "zone_entry_wf e"
  shows "\<exists>bs. ZoneStatsEntry_serialize e = Ok bs \<and> length bs = 96 \<and> ZoneStatsEntry_parse (bs @ rest) = Ok e"
proof -
  from wf obtain mn where mn: "encode_stat_scalar (zs_min (ze_stats e)) = Ok mn" "length mn = 20"
    "parse_stat_scalar mn = Ok (zs_min (ze_stats e))" using encode_scalar_Ok by (auto simp: zone_entry_wf_def)
  from wf obtain mx where mx: "encode_stat_scalar (zs_max (ze_stats e)) = Ok mx" "length mx = 20"
    "parse_stat_scalar mx = Ok (zs_max (ze_stats e))" using encode_scalar_Ok by (auto simp: zone_entry_wf_def)
  have v: "ZoneStatsEntry_validate e = Ok ()" using wf by (simp add: zone_entry_wf_def)
  then have rc: "unat (zs_row_count (ze_stats e)) < 2 ^ 32" "unat (zs_null_count (ze_stats e)) < 2 ^ 32"
    by (auto simp: ZoneStatsEntry_validate_def u32_try_from_u64_def result_simps split: if_splits)
  note rc' = rc [THEN ucast_u32_u64]
  have scope: "zs_scope (ze_stats e) = (if ze_morsel_id e = 0xFFFFFFFF then ZoneScope_Segment else ZoneScope_Morsel)"
    using wf by (simp add: zone_entry_wf_def)
  obtain a1 a2 a3 a4 a5 a6 a7 st a8 a9 a10 a11 where e: "e = \<lparr>ze_table_id = a1, ze_segment_id = a2,
      ze_morsel_id = a3, ze_column_id = a4, ze_non_null_count = a5, ze_distinct_count = a6,
      ze_run_count = a7, ze_stats = st, ze_min_domain_rank = a8, ze_max_domain_rank = a9,
      ze_exact_set_ref = a10, ze_bloom_ref = a11\<rparr>" by (cases e)
  obtain b1 b2 b3 b4 b5 b6 where st: "st = \<lparr>zs_scope = b1, zs_row_count = b2, zs_null_count = b3,
      zs_min = b4, zs_max = b5, zs_flags = b6\<rparr>" by (cases st)
  note facts = v mn mx rc' scope
  show ?thesis using facts unfolding e st
    by (simp add: ZoneStatsEntry_serialize_def ZoneStatsEntry_parse_def ZONE_STATS_ENTRY_LEN_def
        STAT_SCALAR_ENCODED_LEN_def Let_def wire_simps)
qed

interpretation zone_entry: fixed_codec 96 ZoneStatsEntry_serialize ZoneStatsEntry_parse zone_entry_wf
proof
  fix e assume wf: "zone_entry_wf e"
  show "\<exists>bs. ZoneStatsEntry_serialize e = Ok bs \<and> length bs = 96"
    using zone_entry_roundtrip [OF wf] by blast
  show "ZoneStatsEntry_parse (bs @ rest) = Ok e" if "ZoneStatsEntry_serialize e = Ok bs" for bs rest
    using zone_entry_roundtrip [OF wf, of rest] that by auto
qed simp

lemma zone_section_roundtrip:
  assumes "\<forall>e \<in> set (zss_entries s). zone_entry_wf e"
  shows "\<exists>bs. ZoneStatsSection_serialize s = Ok bs \<and> length bs = length (zss_entries s) * 96 \<and>
    ZoneStatsSection_parse bs = Ok s"
proof -
  define bs where "bs = concat (map zone_entry.image (zss_entries s))"
  have ser: "ZoneStatsSection_serialize s = Ok bs"
    using assms by (simp add: ZoneStatsSection_serialize_def zone_entry.encode_table bs_def)
  have len: "length bs = length (zss_entries s) * 96"
    unfolding bs_def using assms by (intro zone_entry.length_table) auto
  have "ZoneStatsSection_parse bs = Ok s"
  proof (cases "zss_entries s = []")
    case True
    then show ?thesis by (simp add: ZoneStatsSection_parse_def bs_def)
  next
    case False
    then have "bs \<noteq> []" using len by (metis length_0_conv mult_is_0 zero_neq_numeral)
    moreover have "collect_map ZoneStatsEntry_parse (chunks_exact 96 bs) = Ok (zss_entries s)"
      unfolding bs_def using assms by (intro zone_entry.parse_chunks_exact) auto
    ultimately show ?thesis using len
      by (simp add: ZoneStatsSection_parse_def ZONE_STATS_ENTRY_LEN_def ZoneStatsSection.defs)
  qed
  with ser len show ?thesis by blast
qed

section \<open>The safety rules\<close>

lemma scalars_loop_no_nan:
  "ZoneStats_scalars_loop ss = Ok () \<Longrightarrow> s \<in> set ss \<Longrightarrow> sc_kind s = SK_Float64Bits \<Longrightarrow>
     \<exists>bits. decode_u64_exact (sc_bytes s) = Some bits \<and> \<not> f64_is_nan bits"
  by (induction ss) (auto simp: result_simps split: if_splits option.splits)

definition zone_safe :: "ZoneStatsEntry \<Rightarrow> bool" where
  "zone_safe e \<longleftrightarrow>
     (let z = ze_stats e in
      unat (zs_null_count z) + unat (ze_non_null_count e) = unat (zs_row_count z) \<and>
      ((zs_min z = None) = (zs_max z = None)) \<and>
      (flags_contain (zs_flags z) HAS_MIN_MAX = (zs_min z \<noteq> None)) \<and>
      (zs_null_count z = zs_row_count z \<longrightarrow> zs_min z = None) \<and>
      (\<forall>mn mx. zs_min z = Some mn \<and> zs_max z = Some mx \<longrightarrow> sc_kind mn = sc_kind mx) \<and>
      (\<forall>s. (zs_min z = Some s \<or> zs_max z = Some s) \<and> sc_kind s = SK_Float64Bits \<longrightarrow>
           StatScalar_numeric_value s \<noteq> None) \<and>
      (flags_contain (zs_flags z) CONSTANT \<longrightarrow> zs_min z = zs_max z))"

lemma validate_safe: "ZoneStatsEntry_validate e = Ok () \<Longrightarrow> zone_safe e"
proof -
  assume v: "ZoneStatsEntry_validate e = Ok ()"
  let ?z = "ze_stats e"
  from v have r: "unat (zs_row_count ?z) < 2 ^ 32" "unat (zs_null_count ?z) < 2 ^ 32"
    and s: "unat (ucast (zs_null_count ?z) :: u32) + unat (ze_non_null_count e) = unat (ucast (zs_row_count ?z) :: u32)"
    and b: "(zs_min ?z = None) = (zs_max ?z = None)" "flags_contain (zs_flags ?z) HAS_MIN_MAX = (zs_min ?z \<noteq> None)"
    and z: "ZoneStats_validate ?z = Ok ()"
    by (auto simp: ZoneStatsEntry_validate_def u32_try_from_u64_def result_simps Let_def split: if_splits)
  from s r have sum: "unat (zs_null_count ?z) + unat (ze_non_null_count e) = unat (zs_row_count ?z)"
    by (simp add: unsigned_ucast_eq unsigned_take_bit_eq take_bit_nat_eq_self)
  from z have n: "zs_null_count ?z = zs_row_count ?z \<longrightarrow> zs_min ?z = None \<and> zs_max ?z = None"
    and k: "\<forall>mn mx. zs_min ?z = Some mn \<and> zs_max ?z = Some mx \<longrightarrow> sc_kind mn = sc_kind mx"
    and l: "ZoneStats_scalars_loop (ZoneStats_scalars ?z) = Ok ()"
    and c: "flags_contain (zs_flags ?z) CONSTANT \<longrightarrow> zs_min ?z = zs_max ?z"
    by (auto simp: ZoneStats_validate_def result_simps Let_def split: if_splits)
  have "StatScalar_numeric_value s \<noteq> None"
    if "zs_min ?z = Some s \<or> zs_max ?z = Some s" "sc_kind s = SK_Float64Bits" for s
  proof -
    from that(1) have "s \<in> set (ZoneStats_scalars ?z)"
      by (auto simp: ZoneStats_scalars_def List.map_filter_def)
    with scalars_loop_no_nan [OF l] that(2) show ?thesis
      by (force simp: StatScalar_numeric_value_def)
  qed
  then have "\<forall>s. (zs_min ?z = Some s \<or> zs_max ?z = Some s) \<and> sc_kind s = SK_Float64Bits \<longrightarrow>
      StatScalar_numeric_value s \<noteq> None" by blast
  moreover have "zs_null_count ?z = zs_row_count ?z \<longrightarrow> zs_min ?z = None" using n by blast
  ultimately show ?thesis unfolding zone_safe_def Let_def using sum b k c by (intro conjI)
qed

section \<open>Properties\<close>

text \<open>a section of well-formed zone statistics survives the wire entry by entry: every entry is
  96 bytes, the section parses back to the same entries, and an entry is recovered whatever
  follows it.\<close>

theorem zone_stats_section_roundtrip:
  assumes "\<forall>e \<in> set es. zone_entry_wf e"
  shows "\<exists>bs. ZoneStatsSection_serialize \<lparr>zss_entries = es\<rparr> = Ok bs \<and> length bs = length es * 96 \<and>
    ZoneStatsSection_parse bs = Ok \<lparr>zss_entries = es\<rparr>"
  using zone_section_roundtrip [of "\<lparr>zss_entries = es\<rparr>"] assms by simp

definition sample_zone :: ZoneStatsEntry where
  "sample_zone = \<lparr>ze_table_id = 1, ze_segment_id = 2, ze_morsel_id = 3, ze_column_id = 4,
     ze_non_null_count = 7, ze_distinct_count = 2, ze_run_count = 1,
     ze_stats = \<lparr>zs_scope = ZoneScope_Morsel, zs_row_count = 10, zs_null_count = 3,
       zs_min = Some \<lparr>sc_kind = SK_Int64, sc_bytes = le_bytes 8 (5 :: i64), sc_truncated = False\<rparr>,
       zs_max = Some \<lparr>sc_kind = SK_Int64, sc_bytes = le_bytes 8 (9 :: i64), sc_truncated = False\<rparr>,
       zs_flags = 1\<rparr>,
     ze_min_domain_rank = 0, ze_max_domain_rank = 0, ze_exact_set_ref = 0, ze_bloom_ref = 0\<rparr>"

lemma sample_zone_wf: "zone_entry_wf sample_zone"
  by (simp add: sample_zone_def zone_entry_wf_def scalar_wf_def validate_stat_scalar_shape_def
      ZoneStatsEntry_validate_def ZoneStats_validate_def ZoneStats_scalars_def List.map_filter_def
      u32_try_from_u64_def flags_contain_def HAS_MIN_MAX_def MINMAX_TRUNCATED_def CONSTANT_def
      SORTED_ASC_def SORTED_DESC_def unsigned_ucast_eq)

lemma zone_stats_section_roundtrip_witness:
  "\<exists>bs. ZoneStatsSection_serialize \<lparr>zss_entries = [sample_zone, sample_zone]\<rparr> = Ok bs \<and> length bs = 192 \<and>
     ZoneStatsSection_parse bs = Ok \<lparr>zss_entries = [sample_zone, sample_zone]\<rparr>"
  using zone_stats_section_roundtrip [of "[sample_zone, sample_zone]"] sample_zone_wf by simp

text \<open>whatever bytes an entry is parsed from, the parsed entry is safe to prune with: the counts
  add up, minimum and maximum are both present exactly when the flag says so and have one kind,
  a null-only zone has neither, no floating-point bound is NaN, and a zone flagged constant has
  equal bounds.\<close>

theorem zone_stats_parse_safe:
  assumes "ZoneStatsEntry_parse bs = Ok e"
  shows "zone_safe e"
proof (rule validate_safe)
  show "ZoneStatsEntry_validate e = Ok ()"
    using assms by (auto simp only: ZoneStatsEntry_parse_def Let_def and_then_eq_Ok result.inject
        split: if_splits) simp_all
qed

lemma zone_stats_parse_safe_witness: "zone_safe sample_zone"
proof -
  obtain bs where "ZoneStatsEntry_parse (bs @ []) = Ok sample_zone"
    using zone_entry_roundtrip [OF sample_zone_wf, of "[]"] by blast
  then show ?thesis by (rule zone_stats_parse_safe)
qed

end
