(* ===== verification/Index_Common.thy ===== *)
theory Index_Common
  imports Encoding Constants
begin

text \<open>
  What the checksummed structures share: the checksum field of a header (\<open>index/mod.rs\<close>), bounded
  regions, and the standard library's binary search that the sorted indexes rely on. CRC32C is
  computed by a third-party crate, so every definition that uses it takes it as the argument
  \<open>crc\<close>, and every theorem holds for an arbitrary function.
\<close>

section \<open>Checksums and regions (index/mod.rs)\<close>

definition verify_checksum_field :: "(bytes \<Rightarrow> u32) \<Rightarrow> bytes \<Rightarrow> usize \<Rightarrow> u32 result" where
  "verify_checksum_field crc bs checksum_offset =
     and_then (checked_add checksum_offset 4) (\<lambda>end'.
     if end' > length bs then Err BufferTooShort
     else let checksum_field = u32_at bs checksum_offset;
              for_crc = put checksum_offset (replicate 4 0) bs
     in if crc for_crc \<noteq> checksum_field then Err ChecksumMismatch
        else Ok checksum_field)"

definition checked_region :: "bytes \<Rightarrow> u64 \<Rightarrow> u64 \<Rightarrow> bytes result" where
  "checked_region bs offset len =
     (let start = unat offset; n = unat len in
      and_then (checked_add start n) (\<lambda>end'.
      if end' > length bs then Err OffsetRange
      else Ok (slice start n bs)))"

text \<open>
  A header image is built with a zeroed checksum field and then sealed: the checksum of the
  image is stored in the field.
\<close>

definition seal :: "(bytes \<Rightarrow> u32) \<Rightarrow> nat \<Rightarrow> bytes \<Rightarrow> bytes" where
  "seal crc off out = put off (le_bytes 4 (crc out)) out"

lemma length_seal [simp]: "length (seal crc off out) = length out"
  by (simp add: seal_def)

lemma slice_seal_other [wire_simps]:
  "o2 + n \<le> length buf \<Longrightarrow> o2 + n \<le> off \<or> off + 4 \<le> o2 \<Longrightarrow> slice o2 n (seal crc off buf) = slice o2 n buf"
  by (simp add: seal_def slice_put_other)

lemma nth_seal_other [wire_simps]:
  "i < length buf \<Longrightarrow> i < off \<or> off + 4 \<le> i \<Longrightarrow> seal crc off buf ! i = buf ! i"
  by (simp add: seal_def nth_put_other)

lemma u32_at_seal [wire_simps]:
  "off + 4 \<le> length buf \<Longrightarrow> slice off 4 (seal crc off buf) = le_bytes 4 (crc buf)"
  by (simp add: seal_def slice_put_same)

lemma clear_seal [wire_simps]:
  assumes "slice off 4 buf = replicate 4 0"
  shows "put off (replicate 4 0) (seal crc off buf) = buf"
  using assms put_slice_id [of off "replicate 4 0" buf] by (simp add: seal_def put_put_same)

lemma verify_seal:
  assumes "off + 4 \<le> length buf" and "length buf < usize_bound" and "slice off 4 buf = replicate 4 0"
  shows "verify_checksum_field crc (seal crc off buf) off = Ok (crc buf)"
  using assms by (simp add: verify_checksum_field_def checked_add_def clear_seal u32_at_seal from_le_le_bytes)

lemma verify_checksum_Ok:
  "verify_checksum_field crc bs off = Ok c \<longleftrightarrow>
     off + 4 < usize_bound \<and> off + 4 \<le> length bs \<and> c = u32_at bs off \<and> crc (put off (replicate 4 0) bs) = c"
  by (auto simp: verify_checksum_field_def result_simps Let_def)

lemma checked_region_Ok:
  "checked_region bs off n = Ok r \<longleftrightarrow>
     unat off + unat n < usize_bound \<and> unat off + unat n \<le> length bs \<and> r = slice (unat off) (unat n) bs"
  by (auto simp: checked_region_def result_simps Let_def)

lemma checked_region_no_panic [simp]: "checked_region bs off n \<noteq> Panic"
  by (simp add: checked_region_def Let_def checked_add_def)

section \<open>Binary search of the standard library\<close>

text \<open>
  \<open>slice::binary_search_by\<close> halves \<open>size\<close> and moves \<open>base\<close> to the middle unless the element there
  is greater; a last comparison decides. \<open>cmp x\<close> is the order of the element against the key.
\<close>

datatype ordering = Less | Equal | Greater

definition ord_cmp :: "'a::linorder \<Rightarrow> 'a \<Rightarrow> ordering" where
  "ord_cmp a b = (if a < b then Less else if a = b then Equal else Greater)"

fun binary_search_loop :: "('a \<Rightarrow> ordering) \<Rightarrow> 'a list \<Rightarrow> nat \<Rightarrow> nat \<Rightarrow> nat" where
  "binary_search_loop cmp xs base size' =
     (if size' \<le> 1 then base
      else let half = size' div 2;
               mid = base + half;
               base' = (if cmp (xs ! mid) = Greater then base else mid)
           in binary_search_loop cmp xs base' (size' - half))"

declare binary_search_loop.simps [simp del]

definition binary_search_by :: "('a \<Rightarrow> ordering) \<Rightarrow> 'a list \<Rightarrow> nat + nat" where
  "binary_search_by cmp xs =
     (if xs = [] then Inr 0
      else let base = binary_search_loop cmp xs 0 (length xs)
           in case cmp (xs ! base) of
                Equal \<Rightarrow> Inl base
              | Less \<Rightarrow> Inr (base + 1)
              | Greater \<Rightarrow> Inr base)"

definition binary_search_by_key :: "'k::linorder \<Rightarrow> ('a \<Rightarrow> 'k) \<Rightarrow> 'a list \<Rightarrow> nat + nat" where
  "binary_search_by_key key f xs = binary_search_by (\<lambda>x. ord_cmp (f x) key) xs"

lemma ord_cmp_simps [simp]:
  "ord_cmp a b = Less \<longleftrightarrow> a < b" "ord_cmp a b = Equal \<longleftrightarrow> a = b" "ord_cmp a b = Greater \<longleftrightarrow> b < a"
  by (auto simp: ord_cmp_def)

text \<open>The loop keeps every element equal to the key inside \<open>base ..< base + size\<close>.\<close>

lemma binary_search_loop_inv:
  fixes key :: "'k::linorder"
  assumes "sorted_wrt (<) (map f xs)" and "0 < n" and "base + n \<le> length xs"
    and "\<And>i. i < length xs \<Longrightarrow> f (xs ! i) = key \<Longrightarrow> base \<le> i \<and> i < base + n"
  shows "binary_search_loop (\<lambda>x. ord_cmp (f x) key) xs base n < length xs \<and>
    (\<forall>i < length xs. f (xs ! i) = key \<longrightarrow> i = binary_search_loop (\<lambda>x. ord_cmp (f x) key) xs base n)"
  using assms(2-)
proof (induction n arbitrary: base rule: less_induct)
  case (less n)
  show ?case
  proof (cases "n \<le> 1")
    case True
    then have "n = 1" using less.prems(1) by simp
    moreover have "binary_search_loop (\<lambda>x. ord_cmp (f x) key) xs base n = base"
      using True by (simp add: binary_search_loop.simps [of _ _ base n])
    ultimately show ?thesis using less.prems(2) by (auto dest: less.prems(3))
  next
    case False
    let ?h = "n div 2"
    let ?b = "if ord_cmp (f (xs ! (base + ?h))) key = Greater then base else base + ?h"
    have h: "0 < ?h" "?h < n" using False by auto
    have mid: "base + ?h < length xs" using less.prems(2) h by simp
    have lt: "i < j \<Longrightarrow> j < length xs \<Longrightarrow> f (xs ! i) < f (xs ! j)" for i j
      using assms(1) by (simp add: sorted_wrt_iff_nth_less)
    have keep: "?b \<le> i \<and> i < ?b + (n - ?h)" if i: "i < length xs" "f (xs ! i) = key" for i
    proof -
      have b: "base \<le> i" "i < base + n" using less.prems(3) [OF i] by auto
      show ?thesis
      proof (cases "ord_cmp (f (xs ! (base + ?h))) key = Greater")
        case True
        then have "i < base + ?h" using lt [of "base + ?h" i] i
          by (cases i "base + ?h" rule: linorder_cases) auto
        moreover have "?h \<le> n - ?h" by simp
        ultimately show ?thesis using True b by simp
      next
        case False
        then have "base + ?h \<le> i" using lt [of i "base + ?h"] mid i
          by (cases i "base + ?h" rule: linorder_cases) auto
        then show ?thesis using False b h by simp
      qed
    qed
    have "binary_search_loop (\<lambda>x. ord_cmp (f x) key) xs ?b (n - ?h) < length xs \<and>
      (\<forall>i < length xs. f (xs ! i) = key \<longrightarrow> i = binary_search_loop (\<lambda>x. ord_cmp (f x) key) xs ?b (n - ?h))"
      by (rule less.IH) (use h less.prems(2) keep in auto)
    then show ?thesis using False by (simp add: binary_search_loop.simps [of _ _ base n] Let_def)
  qed
qed

lemma binary_search_loop_less:
  "0 < n \<Longrightarrow> base + n \<le> length xs \<Longrightarrow> binary_search_loop cmp xs base n < length xs"
proof (induction n arbitrary: base rule: less_induct)
  case (less n)
  show ?case
  proof (cases "n \<le> 1")
    case True
    then show ?thesis using less.prems by (simp add: binary_search_loop.simps [of _ _ base n])
  next
    case False
    let ?b = "if cmp (xs ! (base + n div 2)) = Greater then base else base + n div 2"
    have "n - n div 2 < n" "0 < n - n div 2" "?b + (n - n div 2) \<le> length xs"
      using False less.prems by auto
    then have "binary_search_loop cmp xs ?b (n - n div 2) < length xs" by (rule less.IH)
    then show ?thesis using False by (simp add: binary_search_loop.simps [of _ _ base n] Let_def)
  qed
qed

lemma binary_search_sound:
  "binary_search_by_key key f xs = Inl i \<Longrightarrow> i < length xs \<and> f (xs ! i) = key"
  using binary_search_loop_less [of "length xs" 0 xs "\<lambda>x. ord_cmp (f x) key"]
  by (auto simp: binary_search_by_key_def binary_search_by_def Let_def split: if_splits ordering.splits)

lemma binary_search_complete:
  assumes "sorted_wrt (<) (map f xs)" and "i < length xs" and "f (xs ! i) = key"
  shows "binary_search_by_key key f xs = Inl i"
proof -
  have "xs \<noteq> []" using assms(2) by auto
  moreover have "i = binary_search_loop (\<lambda>x. ord_cmp (f x) key) xs 0 (length xs)"
    using binary_search_loop_inv [OF assms(1), of "length xs" 0 key] assms(2,3) \<open>xs \<noteq> []\<close> by simp
  ultimately show ?thesis using assms(3)
    by (auto simp: binary_search_by_key_def binary_search_by_def Let_def split: ordering.splits)
qed

lemma binary_search_found_iff:
  assumes "sorted_wrt (<) (map f xs)"
  shows "(\<exists>i. binary_search_by_key key f xs = Inl i) \<longleftrightarrow> key \<in> f ` set xs"
proof
  assume "\<exists>i. binary_search_by_key key f xs = Inl i"
  then obtain i where "i < length xs" "f (xs ! i) = key" using binary_search_sound [of key f xs] by blast
  then show "key \<in> f ` set xs" by (metis image_eqI nth_mem)
next
  assume "key \<in> f ` set xs"
  then obtain i where "i < length xs" "f (xs ! i) = key" by (metis imageE in_set_conv_nth)
  then show "\<exists>i. binary_search_by_key key f xs = Inl i" using binary_search_complete [OF assms] by blast
qed

section \<open>Membership structures\<close>

text \<open>
  What pruning relies on in a membership index: a negative answer is a proof of absence. \<open>member\<close>
  is the answer the index gives, \<open>keys\<close> the keys it was built for, \<open>wf\<close> what its parser checks.
\<close>

locale membership =
  fixes member :: "'i \<Rightarrow> 'k \<Rightarrow> bool"
    and keys :: "'i \<Rightarrow> 'k set"
    and wf :: "'i \<Rightarrow> bool"
  assumes no_false_negative: "wf ix \<Longrightarrow> k \<in> keys ix \<Longrightarrow> member ix k"
begin

lemma absent: "wf ix \<Longrightarrow> \<not> member ix k \<Longrightarrow> k \<notin> keys ix"
  using no_false_negative by blast

lemma absent_rows: "wf ix \<Longrightarrow> \<not> member ix k \<Longrightarrow> set rows \<subseteq> keys ix \<Longrightarrow> k \<notin> set rows"
  using no_false_negative by blast

end

locale exact_membership = membership +
  assumes no_false_positive: "wf ix \<Longrightarrow> member ix k \<Longrightarrow> k \<in> keys ix"
begin

lemma member_iff: "wf ix \<Longrightarrow> member ix k \<longleftrightarrow> k \<in> keys ix"
  using no_false_negative no_false_positive by blast

end

end
