(* ===== verification/Column_Domain.thy ===== *)
theory Column_Domain
  imports Index_Common
begin

text \<open>
  Column domains (\<open>domain.rs\<close>): the order of a column's FileCodes as a sorted list and a dense
  map from FileCode to rank. A domain built from the present codes is safe and its ranks are
  exactly the positions in the list; \<open>is_safe\<close> alone shows that ranks point back to their codes,
  but not that every listed code has a rank.
\<close>

definition COLUMN_DOMAIN_HEADER_LEN :: usize where "COLUMN_DOMAIN_HEADER_LEN = 40"
definition INVALID_RANK :: u32 where "INVALID_RANK = 0xFFFFFFFF"

record ColumnDomainHeaderV1 =
  dh_table_or_object_id :: u32
  dh_column_or_property_id :: u32
  dh_logical_type :: u16
  dh_collation_id :: u16
  dh_domain_count :: u32
  dh_sorted_file_codes_offset :: u64
  dh_file_code_to_rank_offset :: u64
  dh_flags :: u32
  dh_checksum :: u32

definition ColumnDomainHeaderV1_image :: "ColumnDomainHeaderV1 \<Rightarrow> bytes" where
  "ColumnDomainHeaderV1_image h =
     (let buf = replicate COLUMN_DOMAIN_HEADER_LEN 0;
          buf = put 0 (le_bytes 4 (dh_table_or_object_id h)) buf;
          buf = put 4 (le_bytes 4 (dh_column_or_property_id h)) buf;
          buf = put 8 (le_bytes 2 (dh_logical_type h)) buf;
          buf = put 10 (le_bytes 2 (dh_collation_id h)) buf;
          buf = put 12 (le_bytes 4 (dh_domain_count h)) buf;
          buf = put 16 (le_bytes 8 (dh_sorted_file_codes_offset h)) buf;
          buf = put 24 (le_bytes 8 (dh_file_code_to_rank_offset h)) buf;
          buf = put 32 (le_bytes 4 (dh_flags h)) buf
      in buf)"

definition ColumnDomainHeaderV1_serialize :: "(bytes \<Rightarrow> u32) \<Rightarrow> ColumnDomainHeaderV1 \<Rightarrow> bytes" where
  "ColumnDomainHeaderV1_serialize crc h = seal crc 36 (ColumnDomainHeaderV1_image h)"

definition ColumnDomainHeaderV1_parse :: "(bytes \<Rightarrow> u32) \<Rightarrow> bytes \<Rightarrow> ColumnDomainHeaderV1 result" where
  "ColumnDomainHeaderV1_parse crc bs0 =
     (if length bs0 < COLUMN_DOMAIN_HEADER_LEN then Err BufferTooShort
      else let bs = slice 0 COLUMN_DOMAIN_HEADER_LEN bs0;
               checksum_field = u32_at bs 36;
               for_crc = put 36 (replicate 4 0) bs
      in if crc for_crc \<noteq> checksum_field then Err ChecksumMismatch
      else Ok \<lparr>dh_table_or_object_id = u32_at bs 0, dh_column_or_property_id = u32_at bs 4,
               dh_logical_type = u16_at bs 8, dh_collation_id = u16_at bs 10,
               dh_domain_count = u32_at bs 12, dh_sorted_file_codes_offset = u64_at bs 16,
               dh_file_code_to_rank_offset = u64_at bs 24, dh_flags = u32_at bs 32,
               dh_checksum = checksum_field\<rparr>)"

record ColumnDomain =
  cd_header :: ColumnDomainHeaderV1
  cd_sorted_file_codes :: "u32 list"
  cd_file_code_to_rank :: "u32 list"

definition ColumnDomain_parse :: "(bytes \<Rightarrow> u32) \<Rightarrow> bytes \<Rightarrow> ColumnDomain result" where
  "ColumnDomain_parse crc bs =
     and_then (ColumnDomainHeaderV1_parse crc bs) (\<lambda>header.
     let sfc_off = unat (dh_sorted_file_codes_offset header);
         domain_count = unat (dh_domain_count header) in
     and_then (checked_mul domain_count 4) (\<lambda>sfc_bytes.
     and_then (checked_add sfc_off sfc_bytes) (\<lambda>sfc_end.
     if sfc_end > length bs then Err OffsetRange
     else if sfc_off < COLUMN_DOMAIN_HEADER_LEN then Err BadDomain
     else let sorted_file_codes = map from_le (chunks_at sfc_off 4 domain_count bs) in
     if \<not> windows2 (\<lambda>a b. \<not> a \<ge> b) sorted_file_codes then Err BadDomain
     else let rank_off = unat (dh_file_code_to_rank_offset header) in
     if rank_off < COLUMN_DOMAIN_HEADER_LEN \<or> rank_off > length bs then Err OffsetRange
     else let rank_region = drop rank_off bs in
     if length rank_region mod 4 \<noteq> 0 then Err BadDomain
     else let rank_count = length rank_region div 4 in
     Ok \<lparr>cd_header = header, cd_sorted_file_codes = sorted_file_codes,
         cd_file_code_to_rank = map from_le (chunks_at 0 4 rank_count rank_region)\<rparr>)))"

definition ColumnDomain_canonical_header :: "ColumnDomain \<Rightarrow> ColumnDomainHeaderV1" where
  "ColumnDomain_canonical_header d =
     (cd_header d)\<lparr>dh_domain_count := of_nat (length (cd_sorted_file_codes d)),
       dh_sorted_file_codes_offset := of_nat COLUMN_DOMAIN_HEADER_LEN,
       dh_file_code_to_rank_offset :=
         of_nat COLUMN_DOMAIN_HEADER_LEN + of_nat (length (cd_sorted_file_codes d) * 4)\<rparr>"

definition ColumnDomain_serialize :: "(bytes \<Rightarrow> u32) \<Rightarrow> ColumnDomain \<Rightarrow> bytes result" where
  "ColumnDomain_serialize crc d =
     (if length (cd_sorted_file_codes d) \<ge> 2 ^ 32 then Err BadDomain
      else Ok (ColumnDomainHeaderV1_serialize crc (ColumnDomain_canonical_header d) @
               concat (map (le_bytes 4) (cd_sorted_file_codes d)) @
               concat (map (le_bytes 4) (cd_file_code_to_rank d))))"

definition ColumnDomain_rank_of :: "ColumnDomain \<Rightarrow> u32 \<Rightarrow> u32 option" where
  "ColumnDomain_rank_of d file_code =
     (if unat file_code < length (cd_file_code_to_rank d)
      then let r = cd_file_code_to_rank d ! unat file_code
           in if r = INVALID_RANK then None else Some r
      else None)"

text \<open>
  The loop over \<open>file_code_to_rank.iter().enumerate()\<close>. Indexing the sorted list is guarded by
  \<open>rank >= n\<close>, where \<open>n\<close> is the length cast to \<open>u32\<close>.
\<close>

fun is_safe_loop :: "u32 list \<Rightarrow> nat \<Rightarrow> u32 list \<Rightarrow> bool" where
  "is_safe_loop sorted' file_code [] = True"
| "is_safe_loop sorted' file_code (rank # ranks) =
     (let n = of_nat (length sorted') :: u32 in
      if rank = INVALID_RANK then is_safe_loop sorted' (Suc file_code) ranks
      else if rank \<ge> n then False
      else if sorted' ! unat rank \<noteq> of_nat file_code then False
      else is_safe_loop sorted' (Suc file_code) ranks)"

definition ColumnDomain_is_safe :: "ColumnDomain \<Rightarrow> bool" where
  "ColumnDomain_is_safe d = is_safe_loop (cd_sorted_file_codes d) 0 (cd_file_code_to_rank d)"

definition ColumnDomain_validate :: "ColumnDomain \<Rightarrow> unit result" where
  "ColumnDomain_validate d = (if ColumnDomain_is_safe d then Ok () else Err BadDomain)"

text \<open>\<open>file_code_to_rank[code as usize] = rank as u32\<close> for every code in order.\<close>

fun assign_ranks_loop :: "u32 list \<Rightarrow> nat \<Rightarrow> u32 list \<Rightarrow> u32 list result" where
  "assign_ranks_loop ranks rank [] = Ok ranks"
| "assign_ranks_loop ranks rank (code # codes) =
     (if unat code \<ge> length ranks then Panic
      else assign_ranks_loop (ranks[unat code := of_nat rank]) (Suc rank) codes)"

definition ColumnDomain_from_sorted_present_codes ::
  "u32 list \<Rightarrow> u32 \<Rightarrow> u32 \<Rightarrow> u32 \<Rightarrow> u16 \<Rightarrow> u16 \<Rightarrow> u32 \<Rightarrow> ColumnDomain result" where
  "ColumnDomain_from_sorted_present_codes sorted_codes dictionary_entry_count table_or_object_id
     column_or_property_id logical_type collation_id flags =
     (if \<not> windows2 (\<lambda>a b. \<not> a \<ge> b) sorted_codes then Err BadDomain
      else if sorted_codes \<noteq> [] \<and> Max (set sorted_codes) \<ge> dictionary_entry_count then Err BadFileCode
      else and_then (assign_ranks_loop (replicate (unat dictionary_entry_count) INVALID_RANK) 0 sorted_codes)
        (\<lambda>ranks.
        Ok \<lparr>cd_header = \<lparr>dh_table_or_object_id = table_or_object_id,
               dh_column_or_property_id = column_or_property_id, dh_logical_type = logical_type,
               dh_collation_id = collation_id, dh_domain_count = of_nat (length sorted_codes),
               dh_sorted_file_codes_offset = of_nat COLUMN_DOMAIN_HEADER_LEN,
               dh_file_code_to_rank_offset = of_nat (COLUMN_DOMAIN_HEADER_LEN + length sorted_codes * 4),
               dh_flags = flags, dh_checksum = 0\<rparr>,
            cd_sorted_file_codes = sorted_codes, cd_file_code_to_rank = ranks\<rparr>))"

section \<open>Ranks\<close>

lemma is_safe_loop_iff:
  assumes "length sorted' < 2 ^ 32" and "k + length ranks \<le> 2 ^ 32"
  shows "is_safe_loop sorted' k ranks \<longleftrightarrow>
    (\<forall>i < length ranks. ranks ! i \<noteq> INVALID_RANK \<longrightarrow>
       unat (ranks ! i) < length sorted' \<and> unat (sorted' ! unat (ranks ! i)) = k + i)"
  using assms(2)
proof (induction ranks arbitrary: k)
  case (Cons r ranks)
  have n: "unat (of_nat (length sorted') :: u32) = length sorted'"
    using assms(1) by (intro unat_of_nat_less) simp
  have k: "unat (of_nat k :: u32) = k" using Cons.prems by (intro unat_of_nat_less) simp
  have eq: "sorted' ! unat r = of_nat k \<longleftrightarrow> unat (sorted' ! unat r) = k"
    using k by (simp add: word_unat_eq_iff)
  have split: "(\<forall>i < length (r # ranks). P i) \<longleftrightarrow> P 0 \<and> (\<forall>i < length ranks. P (Suc i))" for P
    by (auto simp: less_Suc_eq_0_disj)
  have rec: "is_safe_loop sorted' (Suc k) ranks \<longleftrightarrow>
    (\<forall>i < length ranks. ranks ! i \<noteq> INVALID_RANK \<longrightarrow>
       unat (ranks ! i) < length sorted' \<and> unat (sorted' ! unat (ranks ! i)) = Suc k + i)"
    using Cons.prems by (intro Cons.IH) simp
  have less: "r \<ge> of_nat (length sorted') \<longleftrightarrow> \<not> unat r < length sorted'"
    using n by (simp add: word_le_nat_alt not_less)
  show ?case unfolding split by (auto simp: Let_def less eq rec)
qed simp

definition domain_bounded :: "ColumnDomain \<Rightarrow> bool" where
  "domain_bounded d \<longleftrightarrow> length (cd_sorted_file_codes d) < 2 ^ 32 \<and> length (cd_file_code_to_rank d) \<le> 2 ^ 32"

lemma safe_rank_points_back:
  assumes "domain_bounded d" and "ColumnDomain_is_safe d" and "ColumnDomain_rank_of d c = Some r"
  shows "unat r < length (cd_sorted_file_codes d) \<and> cd_sorted_file_codes d ! unat r = c"
  using assms is_safe_loop_iff [of "cd_sorted_file_codes d" 0 "cd_file_code_to_rank d"]
  by (auto simp: domain_bounded_def ColumnDomain_is_safe_def ColumnDomain_rank_of_def Let_def
      word_unat_eq_iff split: if_splits)

lemma safe_rank_inject:
  "domain_bounded d \<Longrightarrow> ColumnDomain_is_safe d \<Longrightarrow> ColumnDomain_rank_of d a = Some r \<Longrightarrow>
     ColumnDomain_rank_of d b = Some r \<Longrightarrow> a = b"
  using safe_rank_points_back by metis

lemma assign_ranks_loop_Ok:
  assumes "distinct codes" and "\<forall>c \<in> set codes. unat c < length ranks"
  shows "\<exists>out. assign_ranks_loop ranks k codes = Ok out \<and> length out = length ranks \<and>
    (\<forall>i < length codes. out ! unat (codes ! i) = of_nat (k + i)) \<and>
    (\<forall>c < length ranks. c \<notin> unat ` set codes \<longrightarrow> out ! c = ranks ! c)"
  using assms
proof (induction codes arbitrary: ranks k)
  case (Cons a codes)
  let ?r = "ranks[unat a := of_nat k]"
  obtain out where out: "assign_ranks_loop ?r (Suc k) codes = Ok out" "length out = length ranks"
    "\<forall>i < length codes. out ! unat (codes ! i) = of_nat (Suc k + i)"
    "\<forall>c < length ranks. c \<notin> unat ` set codes \<longrightarrow> out ! c = ?r ! c"
    using Cons.IH [of ?r "Suc k"] Cons.prems by auto
  have "unat a \<notin> unat ` set codes" using Cons.prems by (auto simp: word_unat_eq_iff [symmetric])
  then have "out ! unat a = of_nat k" using out(4) Cons.prems by simp
  then have "out ! unat ((a # codes) ! i) = of_nat (k + i)" if "i < length (a # codes)" for i
    using out(3) that by (cases i) auto
  moreover have "out ! c = ranks ! c" if "c < length ranks" "c \<notin> unat ` set (a # codes)" for c
    using out(4) that by simp
  ultimately show ?case using out(1,2) Cons.prems by (intro exI [of _ out]) (simp add: not_le)
qed simp

lemma sorted_codes_bound:
  assumes "sorted_wrt (<) (codes :: u32 list)" and "\<forall>c \<in> set codes. c < n"
  shows "length codes \<le> unat n"
proof -
  have "distinct codes" using assms(1) by (simp add: strict_sorted_iff)
  then have "length codes = card (unat ` set codes)"
    by (simp add: distinct_card card_image inj_on_def word_unat_eq_iff [symmetric])
  also have "\<dots> \<le> card {..<unat n}" using assms(2)
    by (intro card_mono) (auto simp: word_less_nat_alt)
  finally show ?thesis by simp
qed

lemma from_sorted_ranks:
  assumes "ColumnDomain_from_sorted_present_codes codes n t c l k f = Ok d"
  shows "cd_sorted_file_codes d = codes \<and> sorted_wrt (<) codes \<and> domain_bounded d \<and> ColumnDomain_is_safe d \<and>
    (\<forall>code r. ColumnDomain_rank_of d code = Some r \<longleftrightarrow> unat r < length codes \<and> codes ! unat r = code)"
proof -
  from assms have s: "sorted_wrt (<) codes" and "codes = [] \<or> Max (set codes) < n"
    by (auto simp: ColumnDomain_from_sorted_present_codes_def not_le windows2_less split: if_splits)
  then have m: "\<forall>c \<in> set codes. c < n" by (auto intro: le_less_trans [OF Max_ge])
  have dist: "distinct codes" using s by (simp add: strict_sorted_iff)
  have b: "\<forall>c \<in> set codes. unat c < length (replicate (unat n) INVALID_RANK)"
    using m by (simp add: word_less_nat_alt)
  obtain out where out: "assign_ranks_loop (replicate (unat n) INVALID_RANK) 0 codes = Ok out"
    "length out = unat n" "\<forall>i < length codes. out ! unat (codes ! i) = of_nat i"
    "\<forall>c < unat n. c \<notin> unat ` set codes \<longrightarrow> out ! c = INVALID_RANK"
    using assign_ranks_loop_Ok [OF dist b, of 0] by auto
  from assms out(1) have d: "cd_sorted_file_codes d = codes" "cd_file_code_to_rank d = out"
    by (auto simp: ColumnDomain_from_sorted_present_codes_def split: if_splits)
  have len: "length codes \<le> unat n" by (rule sorted_codes_bound [OF s m])
  have n: "unat n < 2 ^ 32" using unat_less_power [of n] by simp
  have bd: "domain_bounded d" using d out(2) len n by (simp add: domain_bounded_def)
  have rank: "unat (of_nat i :: u32) = i \<and> of_nat i \<noteq> INVALID_RANK" if "i < length codes" for i
  proof -
    from that len n have "i < 2 ^ 32 - 1" by simp
    then have "unat (of_nat i :: u32) = i" by (intro unat_of_nat_less) simp
    with \<open>i < 2 ^ 32 - 1\<close> show ?thesis by (auto simp: INVALID_RANK_def)
  qed
  have iff: "ColumnDomain_rank_of d code = Some r \<longleftrightarrow> unat r < length codes \<and> codes ! unat r = code" for code r
  proof (cases "code \<in> set codes")
    case True
    then obtain i where i: "i < length codes" "code = codes ! i" by (metis in_set_conv_nth)
    then have "ColumnDomain_rank_of d code = Some (of_nat i)"
      using b d out rank [of i] by (simp add: ColumnDomain_rank_of_def)
    moreover have "(of_nat i :: u32) = r \<longleftrightarrow> unat r = i" using rank [of i] i by (auto simp: word_unat_eq_iff)
    moreover have "unat r < length codes \<Longrightarrow> codes ! unat r = codes ! i \<longleftrightarrow> unat r = i"
      using dist i by (simp add: nth_eq_iff_index_eq)
    ultimately show ?thesis using i by auto
  next
    case False
    then have "unat code \<notin> unat ` set codes" by (auto simp: word_unat_eq_iff [symmetric])
    then have "ColumnDomain_rank_of d code = None"
      using d out by (simp add: ColumnDomain_rank_of_def)
    with False show ?thesis by auto
  qed
  have "ColumnDomain_is_safe d" unfolding ColumnDomain_is_safe_def
  proof (subst is_safe_loop_iff)
    show "\<forall>i < length (cd_file_code_to_rank d). cd_file_code_to_rank d ! i \<noteq> INVALID_RANK \<longrightarrow>
       unat (cd_file_code_to_rank d ! i) < length (cd_sorted_file_codes d) \<and>
       unat (cd_sorted_file_codes d ! unat (cd_file_code_to_rank d ! i)) = 0 + i"
    proof (intro allI impI)
      fix i assume i: "i < length (cd_file_code_to_rank d)" "cd_file_code_to_rank d ! i \<noteq> INVALID_RANK"
      with d out n have u: "unat (of_nat i :: u32) = i" by (intro unat_of_nat_less) simp
      with i have "ColumnDomain_rank_of d (of_nat i) = Some (cd_file_code_to_rank d ! i)"
        by (simp add: ColumnDomain_rank_of_def)
      with iff u d show "unat (cd_file_code_to_rank d ! i) < length (cd_sorted_file_codes d) \<and>
        unat (cd_sorted_file_codes d ! unat (cd_file_code_to_rank d ! i)) = 0 + i" by auto
    qed
  qed (use bd in \<open>simp_all add: domain_bounded_def\<close>)
  with iff d s bd show ?thesis by auto
qed

section \<open>Round trip\<close>

lemma length_domain_image [simp]: "length (ColumnDomainHeaderV1_image h) = 40"
  by (simp add: ColumnDomainHeaderV1_image_def COLUMN_DOMAIN_HEADER_LEN_def Let_def)

lemma domain_image_clear: "slice 36 4 (ColumnDomainHeaderV1_image h) = replicate 4 0"
  by (simp add: ColumnDomainHeaderV1_image_def COLUMN_DOMAIN_HEADER_LEN_def Let_def wire_simps)

lemma domain_header_roundtrip:
  "ColumnDomainHeaderV1_parse crc (ColumnDomainHeaderV1_serialize crc h @ rest) =
     Ok (h\<lparr>dh_checksum := crc (ColumnDomainHeaderV1_image h)\<rparr>)"
proof -
  let ?img = "ColumnDomainHeaderV1_image h"
  have f: "u32_at ?img 0 = dh_table_or_object_id h" "u32_at ?img 4 = dh_column_or_property_id h"
    "u16_at ?img 8 = dh_logical_type h" "u16_at ?img 10 = dh_collation_id h" "u32_at ?img 12 = dh_domain_count h"
    "u64_at ?img 16 = dh_sorted_file_codes_offset h" "u64_at ?img 24 = dh_file_code_to_rank_offset h"
    "u32_at ?img 32 = dh_flags h"
    by (simp_all add: ColumnDomainHeaderV1_image_def COLUMN_DOMAIN_HEADER_LEN_def Let_def wire_simps)
  show ?thesis using f
    by (cases h) (simp add: ColumnDomainHeaderV1_parse_def ColumnDomainHeaderV1_serialize_def
        COLUMN_DOMAIN_HEADER_LEN_def Let_def wire_simps domain_image_clear)
qed

definition domain_wf :: "ColumnDomain \<Rightarrow> bool" where
  "domain_wf d \<longleftrightarrow> windows2 (<) (cd_sorted_file_codes d) \<and> length (cd_sorted_file_codes d) < 2 ^ 32 \<and>
     length (cd_file_code_to_rank d) \<le> 2 ^ 32"

lemma domain_roundtrip:
  assumes wf: "domain_wf d"
  shows "\<exists>bs. ColumnDomain_serialize crc d = Ok bs \<and> ColumnDomain_parse crc bs =
    Ok (d\<lparr>cd_header := (ColumnDomain_canonical_header d)\<lparr>dh_checksum :=
          crc (ColumnDomainHeaderV1_image (ColumnDomain_canonical_header d))\<rparr>\<rparr>)"
proof -
  let ?h = "ColumnDomain_canonical_header d" and ?codes = "cd_sorted_file_codes d"
  let ?ranks = "cd_file_code_to_rank d" and ?n = "length (cd_sorted_file_codes d)"
  let ?tc = "concat (map (le_bytes 4) (cd_sorted_file_codes d))" and ?tr = "concat (map (le_bytes 4) (cd_file_code_to_rank d))"
  define hd where "hd = ColumnDomainHeaderV1_serialize crc ?h"
  define bs where "bs = hd @ ?tc @ ?tr"
  have n: "?n < 2 ^ 32" using wf by (simp add: domain_wf_def)
  have lh: "length hd = 40" by (simp add: hd_def ColumnDomainHeaderV1_serialize_def)
  have lt: "length ?tc = ?n * 4" "length ?tr = length ?ranks * 4" by (simp_all add: le_u32.length_table)
  have hdr: "ColumnDomainHeaderV1_parse crc bs = Ok (?h\<lparr>dh_checksum := crc (ColumnDomainHeaderV1_image ?h)\<rparr>)"
    unfolding bs_def hd_def by (rule domain_header_roundtrip)
  have "(40 :: u64) + of_nat (?n * 4) = of_nat (40 + ?n * 4)" by simp
  also have "unat \<dots> = 40 + ?n * 4" using n by (intro unat_of_nat_less) simp
  finally have off: "unat (40 + of_nat ?n * 4 :: u64) = 40 + ?n * 4" by simp
  have h: "unat (dh_domain_count ?h) = ?n" "unat (dh_sorted_file_codes_offset ?h) = 40"
    "unat (dh_file_code_to_rank_offset ?h) = 40 + ?n * 4"
    using n off by (simp_all add: ColumnDomain_canonical_header_def COLUMN_DOMAIN_HEADER_LEN_def unat_of_nat_less)
  have codes: "map from_le (chunks_at 40 4 ?n bs) = ?codes"
    unfolding bs_def by (rule le_u32.read_write) (simp_all add: lh)
  have dr: "drop (40 + ?n * 4) bs = ?tr" using lh lt by (simp add: bs_def)
  have ranks: "map from_le (chunks_at 0 4 (length ?ranks) ?tr) = ?ranks"
    using le_u32.read_write [of 0 "[]" _ ?ranks "[]"] by simp
  have len: "length bs = 40 + ?n * 4 + length ?ranks * 4" by (simp add: bs_def lh lt)
  have asc: "windows2 (\<lambda>a b. \<not> b \<le> a) ?codes" using wf by (simp add: domain_wf_def not_le)
  have "ColumnDomain_parse crc bs =
    Ok (d\<lparr>cd_header := ?h\<lparr>dh_checksum := crc (ColumnDomainHeaderV1_image ?h)\<rparr>\<rparr>)"
    using n by (simp add: ColumnDomain_parse_def hdr h codes dr ranks len lt asc checked_mul_def checked_add_def
        COLUMN_DOMAIN_HEADER_LEN_def)
  moreover have "ColumnDomain_serialize crc d = Ok bs"
    using n by (simp add: ColumnDomain_serialize_def bs_def hd_def)
  ultimately show ?thesis by blast
qed

section \<open>Properties\<close>

text \<open>a column domain survives the wire for every checksum function: serialising recomputes the
  offsets, the count and the checksum, and parsing returns the same codes and ranks under that
  recomputed header.\<close>

theorem column_domain_roundtrip:
  assumes "domain_wf d"
  shows "\<exists>bs. ColumnDomain_serialize crc d = Ok bs \<and> ColumnDomain_parse crc bs =
    Ok (d\<lparr>cd_header := (ColumnDomain_canonical_header d)\<lparr>dh_checksum :=
          crc (ColumnDomainHeaderV1_image (ColumnDomain_canonical_header d))\<rparr>\<rparr>)"
  using assms by (rule domain_roundtrip)

definition sample_domain_header :: ColumnDomainHeaderV1 where
  "sample_domain_header = \<lparr>dh_table_or_object_id = 1, dh_column_or_property_id = 7, dh_logical_type = 0,
     dh_collation_id = 0, dh_domain_count = 2, dh_sorted_file_codes_offset = 40,
     dh_file_code_to_rank_offset = 48, dh_flags = 0, dh_checksum = 0\<rparr>"

lemma column_domain_roundtrip_witness:
  "\<exists>bs. ColumnDomain_serialize (\<lambda>bs. of_nat (length bs))
     \<lparr>cd_header = sample_domain_header, cd_sorted_file_codes = [1, 3], cd_file_code_to_rank = [0xFFFFFFFF, 0]\<rparr> = Ok bs"
  using column_domain_roundtrip [of "\<lparr>cd_header = sample_domain_header, cd_sorted_file_codes = [1, 3],
      cd_file_code_to_rank = [0xFFFFFFFF, 0]\<rparr>" "\<lambda>bs. of_nat (length bs)"]
  by (auto simp: domain_wf_def)

text \<open>a domain built from the present codes is safe, and its rank map is exact and order
  preserving: a FileCode has rank \<open>r\<close> if and only if it stands at position \<open>r\<close> of the sorted
  codes, so a code has a rank exactly when it is present and smaller codes have smaller ranks.\<close>

theorem column_domain_ranks_exact:
  assumes "ColumnDomain_from_sorted_present_codes codes n t c l k f = Ok d"
  shows "ColumnDomain_validate d = Ok () \<and>
    (\<forall>code r. ColumnDomain_rank_of d code = Some r \<longleftrightarrow> unat r < length codes \<and> codes ! unat r = code) \<and>
    (\<forall>code. ColumnDomain_rank_of d code \<noteq> None \<longleftrightarrow> code \<in> set codes) \<and>
    (\<forall>a b r s. ColumnDomain_rank_of d a = Some r \<and> ColumnDomain_rank_of d b = Some s \<longrightarrow> (a < b \<longleftrightarrow> r < s))"
proof -
  note facts = from_sorted_ranks [OF assms]
  from facts have iff: "ColumnDomain_rank_of d code = Some r \<longleftrightarrow> unat r < length codes \<and> codes ! unat r = code"
    for code r by blast
  from facts have s: "sorted_wrt (<) codes" and bd: "length codes < 2 ^ 32" by (auto simp: domain_bounded_def)
  have present: "ColumnDomain_rank_of d code \<noteq> None \<longleftrightarrow> code \<in> set codes" for code
  proof
    assume "ColumnDomain_rank_of d code \<noteq> None"
    then show "code \<in> set codes" using iff by (auto simp: in_set_conv_nth)
  next
    assume "code \<in> set codes"
    then obtain i where i: "i < length codes" "codes ! i = code" by (metis in_set_conv_nth)
    then have "unat (of_nat i :: u32) = i" using bd by (intro unat_of_nat_less) simp
    with i have "ColumnDomain_rank_of d code = Some (of_nat i)" by (simp add: iff)
    then show "ColumnDomain_rank_of d code \<noteq> None" by simp
  qed
  have mono: "a < b \<longleftrightarrow> r < s"
    if "ColumnDomain_rank_of d a = Some r" "ColumnDomain_rank_of d b = Some s" for a b r s
  proof -
    from that have r: "unat r < length codes" "codes ! unat r = a" "unat s < length codes" "codes ! unat s = b"
      using iff by auto
    have lt: "i < j \<Longrightarrow> j < length codes \<Longrightarrow> codes ! i < codes ! j" for i j
      using s by (simp add: sorted_wrt_iff_nth_less)
    show ?thesis using r lt [of "unat r" "unat s"] lt [of "unat s" "unat r"]
      by (cases "unat r" "unat s" rule: linorder_cases) (auto simp: word_less_nat_alt)
  qed
  show ?thesis using facts iff present mono by (auto simp: ColumnDomain_validate_def)
qed

lemma column_domain_ranks_exact_witness:
  "\<exists>d. ColumnDomain_from_sorted_present_codes [1, 3] 4 1 7 0 0 0 = Ok d \<and> ColumnDomain_validate d = Ok ()"
proof -
  have "\<exists>d. ColumnDomain_from_sorted_present_codes [1, 3] 4 1 7 0 0 0 = Ok d"
    by (simp add: ColumnDomain_from_sorted_present_codes_def word_le_nat_alt)
  then obtain d where d: "ColumnDomain_from_sorted_present_codes [1, 3] 4 1 7 0 0 0 = Ok d" by blast
  from column_domain_ranks_exact [OF d] d show ?thesis by blast
qed

end
