(* ===== verification/Exact_Set.thy ===== *)
theory Exact_Set
  imports Index_Common
begin

text \<open>
  The exact-set index (\<open>index/exact_set.rs\<close>): a checksummed header and, for the sorted-list
  representation, strictly ascending keys searched by bisection. For that representation
  membership is exact. For the other two representations the parser keeps the raw data only and
  leaves the key list empty, so \<open>contains\<close> answers False for every key.
\<close>

section \<open>Enumerations\<close>

datatype ExactSetGranularity =
    ESG_Segment
  | ESG_Morsel

primrec ExactSetGranularity_code :: "ExactSetGranularity \<Rightarrow> u8" where
  "ExactSetGranularity_code ESG_Segment = 0"
| "ExactSetGranularity_code ESG_Morsel = 1"

definition ExactSetGranularity_from_u8 :: "u8 \<Rightarrow> ExactSetGranularity option" where
  "ExactSetGranularity_from_u8 v = map_of
     [(0, ESG_Segment),
      (1, ESG_Morsel)] v"

interpretation exactSetGranularity: wire_enum ExactSetGranularity_code ExactSetGranularity_from_u8
proof
  fix k show "ExactSetGranularity_from_u8 (ExactSetGranularity_code k) = Some k" by (cases k) (simp_all add: ExactSetGranularity_from_u8_def)
next
  fix v k assume "ExactSetGranularity_from_u8 v = Some k"
  then show "ExactSetGranularity_code k = v" by (auto simp: ExactSetGranularity_from_u8_def split: if_splits)
qed

datatype ExactSetKeyKind =
    ESK_FileCode
  | ESK_NumCode
  | ESK_CanonicalHash

primrec ExactSetKeyKind_code :: "ExactSetKeyKind \<Rightarrow> u8" where
  "ExactSetKeyKind_code ESK_FileCode = 0"
| "ExactSetKeyKind_code ESK_NumCode = 1"
| "ExactSetKeyKind_code ESK_CanonicalHash = 2"

definition ExactSetKeyKind_from_u8 :: "u8 \<Rightarrow> ExactSetKeyKind option" where
  "ExactSetKeyKind_from_u8 v = map_of
     [(0, ESK_FileCode),
      (1, ESK_NumCode),
      (2, ESK_CanonicalHash)] v"

interpretation exactSetKeyKind: wire_enum ExactSetKeyKind_code ExactSetKeyKind_from_u8
proof
  fix k show "ExactSetKeyKind_from_u8 (ExactSetKeyKind_code k) = Some k" by (cases k) (simp_all add: ExactSetKeyKind_from_u8_def)
next
  fix v k assume "ExactSetKeyKind_from_u8 v = Some k"
  then show "ExactSetKeyKind_code k = v" by (auto simp: ExactSetKeyKind_from_u8_def split: if_splits)
qed

datatype ExactSetRepresentation =
    ESR_SortedList
  | ESR_Bitset
  | ESR_RoaringLike

primrec ExactSetRepresentation_code :: "ExactSetRepresentation \<Rightarrow> u8" where
  "ExactSetRepresentation_code ESR_SortedList = 0"
| "ExactSetRepresentation_code ESR_Bitset = 1"
| "ExactSetRepresentation_code ESR_RoaringLike = 2"

definition ExactSetRepresentation_from_u8 :: "u8 \<Rightarrow> ExactSetRepresentation option" where
  "ExactSetRepresentation_from_u8 v = map_of
     [(0, ESR_SortedList),
      (1, ESR_Bitset),
      (2, ESR_RoaringLike)] v"

interpretation exactSetRepresentation: wire_enum ExactSetRepresentation_code ExactSetRepresentation_from_u8
proof
  fix k show "ExactSetRepresentation_from_u8 (ExactSetRepresentation_code k) = Some k" by (cases k) (simp_all add: ExactSetRepresentation_from_u8_def)
next
  fix v k assume "ExactSetRepresentation_from_u8 v = Some k"
  then show "ExactSetRepresentation_code k = v" by (auto simp: ExactSetRepresentation_from_u8_def split: if_splits)
qed

section \<open>Header\<close>

definition EXACT_SET_HEADER_LEN :: usize where "EXACT_SET_HEADER_LEN = 36"

record ExactSetIndexHeaderV1 =
  esh_table_id :: u32
  esh_column_id :: u32
  esh_granularity :: ExactSetGranularity
  esh_key_kind :: ExactSetKeyKind
  esh_representation :: ExactSetRepresentation
  esh_flags :: u8
  esh_entry_count :: u32
  esh_data_offset :: u64
  esh_data_length :: u64
  esh_checksum :: u32

definition ExactSetIndexHeaderV1_image :: "ExactSetIndexHeaderV1 \<Rightarrow> bytes" where
  "ExactSetIndexHeaderV1_image h =
     (let out = replicate EXACT_SET_HEADER_LEN 0;
          out = put 0 (le_bytes 4 (esh_table_id h)) out;
          out = put 4 (le_bytes 4 (esh_column_id h)) out;
          out = put 8 [ExactSetGranularity_code (esh_granularity h)] out;
          out = put 9 [ExactSetKeyKind_code (esh_key_kind h)] out;
          out = put 10 [ExactSetRepresentation_code (esh_representation h)] out;
          out = put 11 [esh_flags h] out;
          out = put 12 (le_bytes 4 (esh_entry_count h)) out;
          out = put 16 (le_bytes 8 (esh_data_offset h)) out;
          out = put 24 (le_bytes 8 (esh_data_length h)) out
      in out)"

definition ExactSetIndexHeaderV1_serialize :: "(bytes \<Rightarrow> u32) \<Rightarrow> ExactSetIndexHeaderV1 \<Rightarrow> bytes" where
  "ExactSetIndexHeaderV1_serialize crc h = seal crc 32 (ExactSetIndexHeaderV1_image h)"

definition ExactSetIndexHeaderV1_parse :: "(bytes \<Rightarrow> u32) \<Rightarrow> bytes \<Rightarrow> ExactSetIndexHeaderV1 result" where
  "ExactSetIndexHeaderV1_parse crc bs0 =
     (if length bs0 < EXACT_SET_HEADER_LEN then Err BufferTooShort
      else let bs = slice 0 EXACT_SET_HEADER_LEN bs0 in
      and_then (verify_checksum_field crc bs 32) (\<lambda>checksum.
      and_then (ok_or (ExactSetGranularity_from_u8 (bs ! 8)) BadIndex) (\<lambda>granularity.
      and_then (ok_or (ExactSetKeyKind_from_u8 (bs ! 9)) BadIndex) (\<lambda>key_kind.
      and_then (ok_or (ExactSetRepresentation_from_u8 (bs ! 10)) BadIndex) (\<lambda>representation.
      Ok \<lparr>esh_table_id = u32_at bs 0,
         esh_column_id = u32_at bs 4,
         esh_granularity = granularity,
         esh_key_kind = key_kind,
         esh_representation = representation,
         esh_flags = bs ! 11,
         esh_entry_count = u32_at bs 12,
         esh_data_offset = u64_at bs 16,
         esh_data_length = u64_at bs 24,
         esh_checksum = checksum\<rparr>)))))"

lemma length_ExactSetIndexHeaderV1_image [simp]: "length (ExactSetIndexHeaderV1_image h) = 36"
  by (simp add: ExactSetIndexHeaderV1_image_def EXACT_SET_HEADER_LEN_def Let_def)

lemma length_ExactSetIndexHeaderV1_serialize [simp]: "length (ExactSetIndexHeaderV1_serialize crc h) = 36"
  by (simp add: ExactSetIndexHeaderV1_serialize_def)

lemma ExactSetIndexHeaderV1_image_fields:
  "u32_at (ExactSetIndexHeaderV1_image h) 0 = esh_table_id h"
  "u32_at (ExactSetIndexHeaderV1_image h) 4 = esh_column_id h"
  "ExactSetIndexHeaderV1_image h ! 8 = ExactSetGranularity_code (esh_granularity h)"
  "ExactSetIndexHeaderV1_image h ! 9 = ExactSetKeyKind_code (esh_key_kind h)"
  "ExactSetIndexHeaderV1_image h ! 10 = ExactSetRepresentation_code (esh_representation h)"
  "ExactSetIndexHeaderV1_image h ! 11 = esh_flags h"
  "u32_at (ExactSetIndexHeaderV1_image h) 12 = esh_entry_count h"
  "u64_at (ExactSetIndexHeaderV1_image h) 16 = esh_data_offset h"
  "u64_at (ExactSetIndexHeaderV1_image h) 24 = esh_data_length h"
  "slice 32 4 (ExactSetIndexHeaderV1_image h) = replicate 4 0"
  by (simp_all add: ExactSetIndexHeaderV1_image_def EXACT_SET_HEADER_LEN_def Let_def wire_simps)

lemma ExactSetIndexHeaderV1_verify:
  "verify_checksum_field crc (ExactSetIndexHeaderV1_serialize crc h) 32 = Ok (crc (ExactSetIndexHeaderV1_image h))"
  unfolding ExactSetIndexHeaderV1_serialize_def by (rule verify_seal) (simp_all add: ExactSetIndexHeaderV1_image_fields)

lemma ExactSetIndexHeaderV1_roundtrip:
  "ExactSetIndexHeaderV1_parse crc (ExactSetIndexHeaderV1_serialize crc h @ rest) = Ok (h\<lparr>esh_checksum := crc (ExactSetIndexHeaderV1_image h)\<rparr>)"
  using ExactSetIndexHeaderV1_image_fields [of h] ExactSetIndexHeaderV1_verify [of crc h]
  by (cases h) (simp add: ExactSetIndexHeaderV1_parse_def EXACT_SET_HEADER_LEN_def ExactSetIndexHeaderV1_serialize_def Let_def wire_simps exactSetGranularity.decode_code exactSetKeyKind.decode_code exactSetRepresentation.decode_code)

section \<open>Index\<close>

record ExactSetIndex =
  es_header :: ExactSetIndexHeaderV1
  es_keys :: "u64 list"
  es_data :: bytes

definition ExactSetIndex_parse :: "(bytes \<Rightarrow> u32) \<Rightarrow> bytes \<Rightarrow> ExactSetIndex result" where
  "ExactSetIndex_parse crc bs =
     and_then (ExactSetIndexHeaderV1_parse crc bs) (\<lambda>header.
     and_then (checked_region bs (esh_data_offset header) (esh_data_length header)) (\<lambda>data.
     if esh_representation header = ESR_SortedList
     then and_then (checked_mul (unat (esh_entry_count header)) 8) (\<lambda>expected_len.
          if length data \<noteq> expected_len then Err BadIndex
          else let keys = map from_le (chunks_exact 8 data) in
          if \<not> windows2 (\<lambda>a b. \<not> a \<ge> b) keys then Err BadIndex
          else Ok \<lparr>es_header = header, es_keys = keys, es_data = data\<rparr>)
     else Ok \<lparr>es_header = header, es_keys = [], es_data = data\<rparr>))"

definition ExactSetIndex_contains :: "ExactSetIndex \<Rightarrow> u64 \<Rightarrow> bool" where
  "ExactSetIndex_contains ix key =
     (case binary_search_by_key key (\<lambda>k. k) (es_keys ix) of Inl _ \<Rightarrow> True | Inr _ \<Rightarrow> False)"

definition ExactSetIndex_canonical_header :: "ExactSetIndex \<Rightarrow> ExactSetIndexHeaderV1" where
  "ExactSetIndex_canonical_header ix =
     (es_header ix)\<lparr>esh_data_offset := of_nat EXACT_SET_HEADER_LEN,
                    esh_data_length := of_nat (length (es_data ix))\<rparr>"

definition ExactSetIndex_serialize :: "(bytes \<Rightarrow> u32) \<Rightarrow> ExactSetIndex \<Rightarrow> bytes" where
  "ExactSetIndex_serialize crc ix =
     ExactSetIndexHeaderV1_serialize crc (ExactSetIndex_canonical_header ix) @ es_data ix"

section \<open>Membership\<close>

text \<open>What the parser establishes for the sorted-list representation.\<close>

definition exact_set_wf :: "ExactSetIndex \<Rightarrow> bool" where
  "exact_set_wf ix \<longleftrightarrow> windows2 (<) (es_keys ix)"

definition exact_set_parsed :: "ExactSetIndex \<Rightarrow> bool" where
  "exact_set_parsed ix \<longleftrightarrow>
     (if esh_representation (es_header ix) = ESR_SortedList
      then exact_set_wf ix \<and> es_data ix = concat (map (le_bytes 8) (es_keys ix)) \<and>
           length (es_keys ix) = unat (esh_entry_count (es_header ix))
      else es_keys ix = [])"

lemma exact_set_parse_parsed:
  assumes "ExactSetIndex_parse crc bs = Ok ix"
  shows "exact_set_parsed ix"
proof -
  from assms obtain h data where h: "es_header ix = h" "es_data ix = data"
    and cases: "if esh_representation h = ESR_SortedList
      then length data = unat (esh_entry_count h) * 8 \<and> es_keys ix = map from_le (chunks_exact 8 data) \<and>
           windows2 (<) (es_keys ix)
      else es_keys ix = []"
    by (auto simp: ExactSetIndex_parse_def result_simps not_le Let_def split: if_splits)
  have "data = concat (map (le_bytes 8) (map from_le (chunks_exact 8 data) :: u64 list))"
    if "length data = n * 8" for n
    using that le_u64.write_read [of 0 n data] by (simp add: chunks_exact_def slice_whole)
  with h cases show ?thesis
    by (auto simp: exact_set_parsed_def exact_set_wf_def chunks_exact_def split: if_splits)
qed

lemma contains_iff: "exact_set_wf ix \<Longrightarrow> ExactSetIndex_contains ix k \<longleftrightarrow> k \<in> set (es_keys ix)"
  using binary_search_found_iff [of "\<lambda>k. k" "es_keys ix" k]
  by (auto simp: ExactSetIndex_contains_def exact_set_wf_def windows2_less split: sum.splits)

interpretation exact_set: exact_membership ExactSetIndex_contains "\<lambda>ix. set (es_keys ix)" exact_set_wf
  by unfold_locales (simp_all add: contains_iff)

section \<open>Properties\<close>

text \<open>a parsed sorted-list exact set answers membership exactly: bisection finds a key if and
  only if the key is one of those stored in the data region.\<close>

theorem exact_set_membership_exact:
  assumes "ExactSetIndex_parse crc bs = Ok ix" and "esh_representation (es_header ix) = ESR_SortedList"
  shows "es_data ix = concat (map (le_bytes 8) (es_keys ix)) \<and>
    (ExactSetIndex_contains ix k \<longleftrightarrow> k \<in> set (es_keys ix))"
  using exact_set_parse_parsed [OF assms(1)] assms(2) contains_iff [of ix k]
  by (auto simp: exact_set_parsed_def)

definition sample_exact_header :: "ExactSetRepresentation \<Rightarrow> u32 \<Rightarrow> ExactSetIndexHeaderV1" where
  "sample_exact_header r n = \<lparr>esh_table_id = 1, esh_column_id = 7, esh_granularity = ESG_Segment,
     esh_key_kind = ESK_FileCode, esh_representation = r, esh_flags = 0, esh_entry_count = n,
     esh_data_offset = 36, esh_data_length = of_nat (unat n * 8), esh_checksum = 0\<rparr>"

lemma exact_set_roundtrip_sorted:
  assumes "windows2 (<) keys" and "length keys < 2 ^ 32"
  shows "ExactSetIndex_parse crc (ExactSetIndex_serialize crc
       \<lparr>es_header = sample_exact_header ESR_SortedList (of_nat (length keys)), es_keys = keys,
        es_data = concat (map (le_bytes 8) keys)\<rparr>) =
     Ok \<lparr>es_header = (sample_exact_header ESR_SortedList (of_nat (length keys)))
           \<lparr>esh_checksum := crc (ExactSetIndexHeaderV1_image (sample_exact_header ESR_SortedList (of_nat (length keys))))\<rparr>,
         es_keys = keys, es_data = concat (map (le_bytes 8) keys)\<rparr>"
proof -
  let ?n = "length keys" and ?data = "concat (map (le_bytes 8) keys)"
  have n: "unat (of_nat ?n :: u32) = ?n" using assms(2) by (intro unat_of_nat_less) simp
  have l: "length ?data = ?n * 8" by (rule le_u64.length_table)
  have m: "unat (of_nat (?n * 8) :: u64) = ?n * 8" using assms(2) by (intro unat_of_nat_less) simp
  let ?h = "sample_exact_header ESR_SortedList (of_nat ?n)"
  have h: "ExactSetIndex_canonical_header \<lparr>es_header = ?h, es_keys = keys, es_data = ?data\<rparr> = ?h"
    using n l by (simp add: ExactSetIndex_canonical_header_def sample_exact_header_def EXACT_SET_HEADER_LEN_def)
  have c: "map from_le (chunks_exact 8 ?data) = keys"
    using chunks_exact_concat [of keys "le_bytes 8" 8] by (simp add: from_le_le_bytes comp_def)
  have r: "checked_region (ExactSetIndexHeaderV1_serialize crc ?h @ ?data) 36 (of_nat (?n * 8)) = Ok ?data"
    using m l assms(2) by (simp add: checked_region_Ok wire_simps)
  show ?thesis using ExactSetIndexHeaderV1_roundtrip [of crc ?h ?data] r n l m c assms
    by (simp add: ExactSetIndex_parse_def ExactSetIndex_serialize_def h)
      (simp add: sample_exact_header_def checked_mul_def not_le)
qed

lemma exact_set_membership_exact_witness:
  "ExactSetIndex_contains
     \<lparr>es_header = (sample_exact_header ESR_SortedList 2)
        \<lparr>esh_checksum := sum_list (map ucast (ExactSetIndexHeaderV1_image (sample_exact_header ESR_SortedList 2)))\<rparr>,
      es_keys = [3, 9], es_data = le_bytes 8 (3 :: u64) @ le_bytes 8 (9 :: u64)\<rparr> 9"
proof -
  have "windows2 (<) [3, 9 :: u64]" "length [3, 9 :: u64] < 2 ^ 32" by simp_all
  from exact_set_membership_exact [OF exact_set_roundtrip_sorted [OF this,
      where crc = "\<lambda>bs. sum_list (map ucast bs)"], of 9]
  show ?thesis by (simp add: sample_exact_header_def)
qed

end
