(* ===== verification/Inverted.thy ===== *)
theory Inverted
  imports Index_Common
begin

text \<open>
  The inverted morsel index (\<open>index/inverted.rs\<close>): entries in strictly ascending key order, each
  naming a region of the bitmap data. The parser checks the order and that every region lies in
  the buffer.
\<close>

section \<open>Enumerations\<close>

datatype InvertedKeyKind =
    IK_FileCode
  | IK_NumCode

primrec InvertedKeyKind_code :: "InvertedKeyKind \<Rightarrow> u8" where
  "InvertedKeyKind_code IK_FileCode = 0"
| "InvertedKeyKind_code IK_NumCode = 1"

definition InvertedKeyKind_from_u8 :: "u8 \<Rightarrow> InvertedKeyKind option" where
  "InvertedKeyKind_from_u8 v = map_of
     [(0, IK_FileCode),
      (1, IK_NumCode)] v"

interpretation invertedKeyKind: wire_enum InvertedKeyKind_code InvertedKeyKind_from_u8
proof
  fix k show "InvertedKeyKind_from_u8 (InvertedKeyKind_code k) = Some k" by (cases k) (simp_all add: InvertedKeyKind_from_u8_def)
next
  fix v k assume "InvertedKeyKind_from_u8 v = Some k"
  then show "InvertedKeyKind_code k = v" by (auto simp: InvertedKeyKind_from_u8_def split: if_splits)
qed

section \<open>Header\<close>

definition INVERTED_MORSEL_INDEX_HEADER_LEN :: usize where "INVERTED_MORSEL_INDEX_HEADER_LEN = 36"

record InvertedMorselIndexHeaderV1 =
  ih_table_id :: u32
  ih_column_id :: u32
  ih_key_kind :: InvertedKeyKind
  ih_flags :: u8
  ih_representation :: u8
  ih_reserved :: u8
  ih_entry_count :: u32
  ih_entries_offset :: u64
  ih_bitmap_data_offset :: u64
  ih_checksum :: u32

definition InvertedMorselIndexHeaderV1_image :: "InvertedMorselIndexHeaderV1 \<Rightarrow> bytes" where
  "InvertedMorselIndexHeaderV1_image h =
     (let out = replicate INVERTED_MORSEL_INDEX_HEADER_LEN 0;
          out = put 0 (le_bytes 4 (ih_table_id h)) out;
          out = put 4 (le_bytes 4 (ih_column_id h)) out;
          out = put 8 [InvertedKeyKind_code (ih_key_kind h)] out;
          out = put 9 [ih_flags h] out;
          out = put 10 [ih_representation h] out;
          out = put 11 [ih_reserved h] out;
          out = put 12 (le_bytes 4 (ih_entry_count h)) out;
          out = put 16 (le_bytes 8 (ih_entries_offset h)) out;
          out = put 24 (le_bytes 8 (ih_bitmap_data_offset h)) out
      in out)"

definition InvertedMorselIndexHeaderV1_serialize :: "(bytes \<Rightarrow> u32) \<Rightarrow> InvertedMorselIndexHeaderV1 \<Rightarrow> bytes" where
  "InvertedMorselIndexHeaderV1_serialize crc h = seal crc 32 (InvertedMorselIndexHeaderV1_image h)"

definition InvertedMorselIndexHeaderV1_parse :: "(bytes \<Rightarrow> u32) \<Rightarrow> bytes \<Rightarrow> InvertedMorselIndexHeaderV1 result" where
  "InvertedMorselIndexHeaderV1_parse crc bs0 =
     (if length bs0 < INVERTED_MORSEL_INDEX_HEADER_LEN then Err BufferTooShort
      else let bs = slice 0 INVERTED_MORSEL_INDEX_HEADER_LEN bs0 in
      and_then (verify_checksum_field crc bs 32) (\<lambda>checksum.
      and_then (ok_or (InvertedKeyKind_from_u8 (bs ! 8)) BadIndex) (\<lambda>key_kind.
      if bs ! 11 \<noteq> 0 then Err ReservedNotZero else
      Ok \<lparr>ih_table_id = u32_at bs 0,
         ih_column_id = u32_at bs 4,
         ih_key_kind = key_kind,
         ih_flags = bs ! 9,
         ih_representation = bs ! 10,
         ih_reserved = bs ! 11,
         ih_entry_count = u32_at bs 12,
         ih_entries_offset = u64_at bs 16,
         ih_bitmap_data_offset = u64_at bs 24,
         ih_checksum = checksum\<rparr>)))"

lemma length_InvertedMorselIndexHeaderV1_image [simp]: "length (InvertedMorselIndexHeaderV1_image h) = 36"
  by (simp add: InvertedMorselIndexHeaderV1_image_def INVERTED_MORSEL_INDEX_HEADER_LEN_def Let_def)

lemma length_InvertedMorselIndexHeaderV1_serialize [simp]: "length (InvertedMorselIndexHeaderV1_serialize crc h) = 36"
  by (simp add: InvertedMorselIndexHeaderV1_serialize_def)

lemma InvertedMorselIndexHeaderV1_image_fields:
  "u32_at (InvertedMorselIndexHeaderV1_image h) 0 = ih_table_id h"
  "u32_at (InvertedMorselIndexHeaderV1_image h) 4 = ih_column_id h"
  "InvertedMorselIndexHeaderV1_image h ! 8 = InvertedKeyKind_code (ih_key_kind h)"
  "InvertedMorselIndexHeaderV1_image h ! 9 = ih_flags h"
  "InvertedMorselIndexHeaderV1_image h ! 10 = ih_representation h"
  "InvertedMorselIndexHeaderV1_image h ! 11 = ih_reserved h"
  "u32_at (InvertedMorselIndexHeaderV1_image h) 12 = ih_entry_count h"
  "u64_at (InvertedMorselIndexHeaderV1_image h) 16 = ih_entries_offset h"
  "u64_at (InvertedMorselIndexHeaderV1_image h) 24 = ih_bitmap_data_offset h"
  "slice 32 4 (InvertedMorselIndexHeaderV1_image h) = replicate 4 0"
  by (simp_all add: InvertedMorselIndexHeaderV1_image_def INVERTED_MORSEL_INDEX_HEADER_LEN_def Let_def wire_simps)

lemma InvertedMorselIndexHeaderV1_verify:
  "verify_checksum_field crc (InvertedMorselIndexHeaderV1_serialize crc h) 32 = Ok (crc (InvertedMorselIndexHeaderV1_image h))"
  unfolding InvertedMorselIndexHeaderV1_serialize_def by (rule verify_seal) (simp_all add: InvertedMorselIndexHeaderV1_image_fields)

lemma InvertedMorselIndexHeaderV1_roundtrip:
  assumes "ih_reserved h = 0"
  shows "InvertedMorselIndexHeaderV1_parse crc (InvertedMorselIndexHeaderV1_serialize crc h @ rest) = Ok (h\<lparr>ih_checksum := crc (InvertedMorselIndexHeaderV1_image h)\<rparr>)"
  using InvertedMorselIndexHeaderV1_image_fields [of h] InvertedMorselIndexHeaderV1_verify [of crc h] assms
  by (cases h) (simp add: InvertedMorselIndexHeaderV1_parse_def INVERTED_MORSEL_INDEX_HEADER_LEN_def InvertedMorselIndexHeaderV1_serialize_def Let_def wire_simps invertedKeyKind.decode_code)

section \<open>Entries\<close>

definition INVERTED_MORSEL_ENTRY_LEN :: usize where "INVERTED_MORSEL_ENTRY_LEN = 32"

record InvertedEntry =
  ie_key :: u64
  ie_morsel_bitmap_offset :: u64
  ie_morsel_bitmap_length :: u32
  ie_row_bitmap_offset :: u64
  ie_row_bitmap_length :: u32

definition InvertedEntry_serialize :: "InvertedEntry \<Rightarrow> bytes" where
  "InvertedEntry_serialize e =
     (let out = replicate INVERTED_MORSEL_ENTRY_LEN 0;
          out = put 0 (le_bytes 8 (ie_key e)) out;
          out = put 8 (le_bytes 8 (ie_morsel_bitmap_offset e)) out;
          out = put 16 (le_bytes 4 (ie_morsel_bitmap_length e)) out;
          out = put 20 (le_bytes 8 (ie_row_bitmap_offset e)) out;
          out = put 28 (le_bytes 4 (ie_row_bitmap_length e)) out
      in out)"

definition InvertedEntry_parse :: "bytes \<Rightarrow> InvertedEntry result" where
  "InvertedEntry_parse bs =
     (if length bs < INVERTED_MORSEL_ENTRY_LEN then Err BufferTooShort
      else Ok \<lparr>ie_key = u64_at bs 0, ie_morsel_bitmap_offset = u64_at bs 8,
               ie_morsel_bitmap_length = u32_at bs 16, ie_row_bitmap_offset = u64_at bs 20,
               ie_row_bitmap_length = u32_at bs 28\<rparr>)"

lemma length_InvertedEntry_serialize [simp]: "length (InvertedEntry_serialize e) = 32"
  by (simp add: InvertedEntry_serialize_def INVERTED_MORSEL_ENTRY_LEN_def Let_def)

lemma InvertedEntry_roundtrip: "InvertedEntry_parse (InvertedEntry_serialize e @ rest) = Ok e"
proof -
  have "u64_at (InvertedEntry_serialize e) 0 = ie_key e"
    "u64_at (InvertedEntry_serialize e) 8 = ie_morsel_bitmap_offset e"
    "u32_at (InvertedEntry_serialize e) 16 = ie_morsel_bitmap_length e"
    "u64_at (InvertedEntry_serialize e) 20 = ie_row_bitmap_offset e"
    "u32_at (InvertedEntry_serialize e) 28 = ie_row_bitmap_length e"
    by (simp_all add: InvertedEntry_serialize_def INVERTED_MORSEL_ENTRY_LEN_def Let_def wire_simps)
  then show ?thesis
    by (simp add: InvertedEntry_parse_def INVERTED_MORSEL_ENTRY_LEN_def wire_simps)
qed

interpretation inverted_entry: fixed_codec 32 "\<lambda>e. Ok (InvertedEntry_serialize e)" InvertedEntry_parse "\<lambda>_. True"
  by unfold_locales (auto simp: InvertedEntry_roundtrip)

lemma inverted_entry_image [simp]: "inverted_entry.image = InvertedEntry_serialize"
  by (rule ext) (simp add: inverted_entry.image_def)

section \<open>Index\<close>

record InvertedMorselIndex =
  im_header :: InvertedMorselIndexHeaderV1
  im_entries :: "InvertedEntry list"
  im_bitmap_data :: bytes

text \<open>
  \<open>base.checked_add(offset)\<close> on \<open>u64\<close> followed by \<open>checked_region\<close>: the region one entry names.
\<close>

definition bitmap_region :: "bytes \<Rightarrow> u64 \<Rightarrow> u64 \<Rightarrow> u32 \<Rightarrow> bytes result" where
  "bitmap_region bs base off len =
     and_then (checked_add (unat base) (unat off)) (\<lambda>start.
     checked_region bs (of_nat start) (ucast len))"

fun parse_entries_loop ::
  "bytes \<Rightarrow> u64 \<Rightarrow> u64 option \<Rightarrow> InvertedEntry list \<Rightarrow> bytes list \<Rightarrow> InvertedEntry list result" where
  "parse_entries_loop bs base previous_key entries [] = Ok entries"
| "parse_entries_loop bs base previous_key entries (chunk # chunks) =
     and_then (InvertedEntry_parse chunk) (\<lambda>entry.
     if (case previous_key of Some previous \<Rightarrow> ie_key entry \<le> previous | None \<Rightarrow> False) then Err BadIndex
     else
       and_then (bitmap_region bs base (ie_morsel_bitmap_offset entry) (ie_morsel_bitmap_length entry)) (\<lambda>_.
       and_then (if ie_row_bitmap_length entry \<noteq> 0
                 then bitmap_region bs base (ie_row_bitmap_offset entry) (ie_row_bitmap_length entry)
                 else Ok []) (\<lambda>_.
       parse_entries_loop bs base (Some (ie_key entry)) (entries @ [entry]) chunks)))"

definition InvertedMorselIndex_parse :: "(bytes \<Rightarrow> u32) \<Rightarrow> bytes \<Rightarrow> InvertedMorselIndex result" where
  "InvertedMorselIndex_parse crc bs =
     and_then (InvertedMorselIndexHeaderV1_parse crc bs) (\<lambda>header.
     and_then (checked_mul (unat (ih_entry_count header)) INVERTED_MORSEL_ENTRY_LEN) (\<lambda>entries_len.
     and_then (checked_region bs (ih_entries_offset header) (of_nat entries_len)) (\<lambda>entry_bytes.
     and_then (parse_entries_loop bs (ih_bitmap_data_offset header) None []
                 (chunks_exact INVERTED_MORSEL_ENTRY_LEN entry_bytes)) (\<lambda>entries.
     if unat (ih_bitmap_data_offset header) \<le> length bs
     then Ok \<lparr>im_header = header, im_entries = entries,
              im_bitmap_data = drop (unat (ih_bitmap_data_offset header)) bs\<rparr>
     else Err OffsetRange))))"

definition InvertedMorselIndex_canonical_header ::
  "InvertedMorselIndex \<Rightarrow> InvertedMorselIndexHeaderV1" where
  "InvertedMorselIndex_canonical_header ix =
     (im_header ix)\<lparr>ih_entry_count := of_nat (length (im_entries ix)),
                    ih_entries_offset := of_nat INVERTED_MORSEL_INDEX_HEADER_LEN,
                    ih_bitmap_data_offset := of_nat (INVERTED_MORSEL_INDEX_HEADER_LEN
                      + length (im_entries ix) * INVERTED_MORSEL_ENTRY_LEN)\<rparr>"

definition InvertedMorselIndex_serialize :: "(bytes \<Rightarrow> u32) \<Rightarrow> InvertedMorselIndex \<Rightarrow> bytes" where
  "InvertedMorselIndex_serialize crc ix =
     InvertedMorselIndexHeaderV1_serialize crc (InvertedMorselIndex_canonical_header ix)
     @ concat (map InvertedEntry_serialize (im_entries ix)) @ im_bitmap_data ix"

section \<open>What a parsed index guarantees\<close>

text \<open>The regions an entry names lie in the bitmap data.\<close>

definition entry_in :: "nat \<Rightarrow> InvertedEntry \<Rightarrow> bool" where
  "entry_in n e \<longleftrightarrow>
     unat (ie_morsel_bitmap_offset e) + unat (ie_morsel_bitmap_length e) \<le> n \<and>
     (ie_row_bitmap_length e \<noteq> 0 \<longrightarrow>
        unat (ie_row_bitmap_offset e) + unat (ie_row_bitmap_length e) \<le> n)"

definition inverted_wf :: "InvertedMorselIndex \<Rightarrow> bool" where
  "inverted_wf ix \<longleftrightarrow> sorted_wrt (<) (map ie_key (im_entries ix)) \<and>
     list_all (entry_in (length (im_bitmap_data ix))) (im_entries ix)"

lemma bitmap_region_Ok:
  "(\<exists>r. bitmap_region bs base off len = Ok r) \<longleftrightarrow>
     unat base + unat off < usize_bound \<and> unat base + unat off + unat len < usize_bound \<and>
     unat base + unat off + unat len \<le> length bs"
proof -
  have "unat (of_nat (unat base + unat off) :: u64) = unat base + unat off"
    if "unat base + unat off < usize_bound" using that by (intro unat_of_nat_less) simp
  moreover have "unat (ucast len :: u64) = unat len"
    using unat_less_power [of len] by (simp add: unsigned_ucast_eq take_bit_nat_eq_self)
  ultimately show ?thesis by (auto simp: bitmap_region_def result_simps checked_region_Ok)
qed

lemma bitmap_region_no_panic [simp]: "bitmap_region bs base off len \<noteq> Panic"
  by (simp add: bitmap_region_def and_then_no_panic)

text \<open>The test of one entry in the loop, as a predicate on the entry and its predecessor's key.\<close>

definition after :: "u64 option \<Rightarrow> u64 \<Rightarrow> bool" where
  "after prev k \<longleftrightarrow> (case prev of Some p \<Rightarrow> p < k | None \<Rightarrow> True)"

lemma after_simps [simp]: "after None k" "after (Some p) k \<longleftrightarrow> p < k"
  by (simp_all add: after_def)

definition regions_ok :: "bytes \<Rightarrow> u64 \<Rightarrow> InvertedEntry \<Rightarrow> bool" where
  "regions_ok bs base e \<longleftrightarrow>
     is_ok (bitmap_region bs base (ie_morsel_bitmap_offset e) (ie_morsel_bitmap_length e)) \<and>
     (ie_row_bitmap_length e \<noteq> 0 \<longrightarrow>
        is_ok (bitmap_region bs base (ie_row_bitmap_offset e) (ie_row_bitmap_length e)))"

lemma parse_entries_step:
  "parse_entries_loop bs base prev acc (c # cs) = Ok out \<longleftrightarrow>
     (\<exists>e. InvertedEntry_parse c = Ok e \<and> after prev (ie_key e) \<and> regions_ok bs base e \<and>
        parse_entries_loop bs base (Some (ie_key e)) (acc @ [e]) cs = Ok out)"
  by (cases prev) (auto simp: result_simps regions_ok_def is_ok_iff not_le split: if_splits)

lemma parse_entries_loop_sound:
  "parse_entries_loop bs base prev acc cs = Ok out \<Longrightarrow>
     \<exists>es. out = acc @ es \<and> list_all2 (\<lambda>c e. InvertedEntry_parse c = Ok e) cs es \<and>
       sorted_wrt (<) (map ie_key es) \<and> (\<forall>e \<in> set es. after prev (ie_key e) \<and> regions_ok bs base e)"
proof (induction cs arbitrary: prev acc)
  case (Cons c cs)
  from Cons.prems obtain e where e: "InvertedEntry_parse c = Ok e" "after prev (ie_key e)" "regions_ok bs base e"
    "parse_entries_loop bs base (Some (ie_key e)) (acc @ [e]) cs = Ok out"
    unfolding parse_entries_step by blast
  from Cons.IH [OF e(4)] obtain es where es: "out = acc @ e # es"
    "list_all2 (\<lambda>c e. InvertedEntry_parse c = Ok e) cs es" "sorted_wrt (<) (map ie_key es)"
    "\<forall>x \<in> set es. ie_key e < ie_key x \<and> regions_ok bs base x" by auto
  have "after prev (ie_key x)" if "x \<in> set es" for x
    using e(2) es(4) that by (cases prev) (auto intro: less_trans)
  with e es show ?case by (intro exI [of _ "e # es"]) auto
qed simp

lemma parse_entries_loop_complete:
  "sorted_wrt (<) (map ie_key es) \<Longrightarrow> \<forall>e \<in> set es. after prev (ie_key e) \<and> regions_ok bs base e \<Longrightarrow>
     parse_entries_loop bs base prev acc (map InvertedEntry_serialize es) = Ok (acc @ es)"
proof (induction es arbitrary: prev acc)
  case (Cons e es)
  have "InvertedEntry_parse (InvertedEntry_serialize e) = Ok e"
    using InvertedEntry_roundtrip [of e "[]"] by simp
  moreover have "parse_entries_loop bs base (Some (ie_key e)) (acc @ [e]) (map InvertedEntry_serialize es) =
      Ok ((acc @ [e]) @ es)"
    using Cons.prems by (intro Cons.IH) auto
  ultimately have "parse_entries_loop bs base prev acc (InvertedEntry_serialize e # map InvertedEntry_serialize es) =
      Ok (acc @ e # es)"
    unfolding parse_entries_step using Cons.prems by auto
  then show ?case by simp
qed simp

lemma regions_ok_iff:
  assumes "unat base \<le> length bs" and "length bs < usize_bound"
  shows "regions_ok bs base e \<longleftrightarrow> entry_in (length bs - unat base) e"
  using assms by (auto simp: regions_ok_def entry_in_def is_ok_iff bitmap_region_Ok)

lemma inverted_parse_wf:
  assumes "InvertedMorselIndex_parse crc bs = Ok ix" and "length bs < usize_bound"
  shows "inverted_wf ix \<and> length (im_entries ix) = unat (ih_entry_count (im_header ix))"
proof -
  define base where "base = ih_bitmap_data_offset (im_header ix)"
  from assms(1) obtain eb where loop: "parse_entries_loop bs base None [] (chunks_exact 32 eb) = Ok (im_entries ix)"
    and base: "unat base \<le> length bs" and data: "im_bitmap_data ix = drop (unat base) bs"
    and eb: "checked_region bs (ih_entries_offset (im_header ix))
      (of_nat (unat (ih_entry_count (im_header ix)) * 32)) = Ok eb"
    by (auto simp: InvertedMorselIndex_parse_def result_simps base_def INVERTED_MORSEL_ENTRY_LEN_def
        split: if_splits)
  from parse_entries_loop_sound [OF loop]
  have es: "list_all2 (\<lambda>c e. InvertedEntry_parse c = Ok e) (chunks_exact 32 eb) (im_entries ix)"
    "sorted_wrt (<) (map ie_key (im_entries ix))" "\<forall>e \<in> set (im_entries ix). regions_ok bs base e"
    by auto
  have "unat (ih_entry_count (im_header ix)) < 2 ^ 32"
    using unat_less_power [of "ih_entry_count (im_header ix)"] by simp
  then have "unat (of_nat (unat (ih_entry_count (im_header ix)) * 32) :: u64) =
      unat (ih_entry_count (im_header ix)) * 32"
    by (intro unat_of_nat_less) simp
  with eb have "length eb = unat (ih_entry_count (im_header ix)) * 32" by (auto simp: checked_region_Ok)
  with es(1) have "length (im_entries ix) = unat (ih_entry_count (im_header ix))"
    by (auto simp: chunks_exact_def dest: list_all2_lengthD)
  moreover have "inverted_wf ix"
    using es(2,3) base data regions_ok_iff [OF base assms(2)] by (auto simp: inverted_wf_def list_all_iff)
  ultimately show ?thesis by blast
qed

lemma inverted_roundtrip:
  assumes wf: "inverted_wf ix" and res: "ih_reserved (im_header ix) = 0"
    and n: "length (im_entries ix) < 2 ^ 32" and d: "length (im_bitmap_data ix) < 2 ^ 62"
  shows "InvertedMorselIndex_parse crc (InvertedMorselIndex_serialize crc ix) =
    Ok (ix\<lparr>im_header := (InvertedMorselIndex_canonical_header ix)\<lparr>ih_checksum :=
          crc (InvertedMorselIndexHeaderV1_image (InvertedMorselIndex_canonical_header ix))\<rparr>\<rparr>)"
proof -
  let ?h = "InvertedMorselIndex_canonical_header ix" and ?n = "length (im_entries ix)"
  let ?t = "concat (map InvertedEntry_serialize (im_entries ix))"
  define hd where "hd = InvertedMorselIndexHeaderV1_serialize crc ?h"
  define bs where "bs = hd @ ?t @ im_bitmap_data ix"
  have lh: "length hd = 36" by (simp add: hd_def)
  have lt: "length ?t = ?n * 32" using inverted_entry.length_table [of "im_entries ix"] by simp
  have un: "unat (of_nat ?n :: u32) = ?n" using n by (intro unat_of_nat_less) simp
  have um: "unat (of_nat (?n * 32) :: u64) = ?n * 32" using n by (intro unat_of_nat_less) simp
  have ub: "unat (of_nat (36 + ?n * 32) :: u64) = 36 + ?n * 32" using n by (intro unat_of_nat_less) simp
  have h: "unat (ih_entry_count ?h) = ?n" "unat (ih_entries_offset ?h) = 36"
    "unat (ih_bitmap_data_offset ?h) = 36 + ?n * 32" "ih_reserved ?h = 0"
    using un ub res by (simp_all add: InvertedMorselIndex_canonical_header_def
        INVERTED_MORSEL_INDEX_HEADER_LEN_def INVERTED_MORSEL_ENTRY_LEN_def)
  have len: "length bs = 36 + ?n * 32 + length (im_bitmap_data ix)" by (simp add: bs_def lh lt)
  have small: "length bs < usize_bound" using n d by (simp add: len)
  have hdr: "InvertedMorselIndexHeaderV1_parse crc bs =
      Ok (?h\<lparr>ih_checksum := crc (InvertedMorselIndexHeaderV1_image ?h)\<rparr>)"
    unfolding bs_def hd_def by (rule InvertedMorselIndexHeaderV1_roundtrip) (rule h(4))
  have region: "checked_region bs (ih_entries_offset ?h) (of_nat (?n * 32)) = Ok ?t"
    unfolding checked_region_Ok h um using n len by (simp add: bs_def lh lt slice_def)
  have chunks: "chunks_exact 32 ?t = map InvertedEntry_serialize (im_entries ix)"
    by (rule chunks_exact_concat) simp_all
  have data: "drop (36 + ?n * 32) bs = im_bitmap_data ix" using lh lt by (simp add: bs_def)
  have entries: "regions_ok bs (ih_bitmap_data_offset ?h) e" if "e \<in> set (im_entries ix)" for e
    using wf that h len small by (simp add: regions_ok_iff inverted_wf_def list_all_iff)
  have loop: "parse_entries_loop bs (ih_bitmap_data_offset ?h) None [] (chunks_exact 32 ?t) = Ok (im_entries ix)"
    unfolding chunks using parse_entries_loop_complete [of "im_entries ix" None bs _ "[]"] wf entries
    by (simp add: inverted_wf_def)
  have "InvertedMorselIndex_parse crc bs =
    Ok (ix\<lparr>im_header := ?h\<lparr>ih_checksum := crc (InvertedMorselIndexHeaderV1_image ?h)\<rparr>\<rparr>)"
    using n region loop by (simp add: InvertedMorselIndex_parse_def hdr h data len checked_mul_def
        INVERTED_MORSEL_ENTRY_LEN_def)
  then show ?thesis by (simp add: bs_def hd_def InvertedMorselIndex_serialize_def)
qed

section \<open>Properties\<close>

text \<open>whatever the inverted-index parser accepts has strictly ascending keys, as many entries as
  the header counts, and only bitmap regions inside the bitmap data, so a reader that slices an
  entry's bitmap out of it cannot leave the buffer.\<close>

theorem inverted_parse_safe:
  assumes "InvertedMorselIndex_parse crc bs = Ok ix" and "length bs < usize_bound"
  shows "sorted_wrt (<) (map ie_key (im_entries ix)) \<and>
    length (im_entries ix) = unat (ih_entry_count (im_header ix)) \<and>
    (\<forall>e \<in> set (im_entries ix). entry_in (length (im_bitmap_data ix)) e)"
  using inverted_parse_wf [OF assms] by (auto simp: inverted_wf_def list_all_iff)

text \<open>a well-formed inverted index survives the wire: serialising recomputes the count, the
  offsets and the checksum, and parsing returns the same entries and bitmaps.\<close>

theorem inverted_index_roundtrip:
  assumes "inverted_wf ix" and "ih_reserved (im_header ix) = 0"
    and "length (im_entries ix) < 2 ^ 32" and "length (im_bitmap_data ix) < 2 ^ 62"
  shows "InvertedMorselIndex_parse crc (InvertedMorselIndex_serialize crc ix) =
    Ok (ix\<lparr>im_header := (InvertedMorselIndex_canonical_header ix)\<lparr>ih_checksum :=
          crc (InvertedMorselIndexHeaderV1_image (InvertedMorselIndex_canonical_header ix))\<rparr>\<rparr>)"
  using assms by (rule inverted_roundtrip)

definition sample_inverted :: InvertedMorselIndex where
  "sample_inverted = \<lparr>im_header = \<lparr>ih_table_id = 1, ih_column_id = 1, ih_key_kind = IK_FileCode, ih_flags = 0,
      ih_representation = 0, ih_reserved = 0, ih_entry_count = 2, ih_entries_offset = 36,
      ih_bitmap_data_offset = 100, ih_checksum = 0\<rparr>,
    im_entries = [
      \<lparr>ie_key = 5, ie_morsel_bitmap_offset = 0, ie_morsel_bitmap_length = 1, ie_row_bitmap_offset = 0, ie_row_bitmap_length = 0\<rparr>,
      \<lparr>ie_key = 7, ie_morsel_bitmap_offset = 1, ie_morsel_bitmap_length = 1, ie_row_bitmap_offset = 0, ie_row_bitmap_length = 0\<rparr>],
    im_bitmap_data = [9, 4]\<rparr>"

lemma sample_inverted_wf:
  "inverted_wf sample_inverted" "ih_reserved (im_header sample_inverted) = 0"
  "length (im_entries sample_inverted) < 2 ^ 32" "length (im_bitmap_data sample_inverted) < 2 ^ 62"
  by (simp_all add: sample_inverted_def inverted_wf_def entry_in_def)

lemma inverted_index_roundtrip_witness:
  "is_ok (InvertedMorselIndex_parse (\<lambda>bs. of_nat (length bs))
     (InvertedMorselIndex_serialize (\<lambda>bs. of_nat (length bs)) sample_inverted))"
  using inverted_index_roundtrip [OF sample_inverted_wf, of "\<lambda>bs. of_nat (length bs)"] by simp

lemma inverted_parse_safe_witness:
  "list_all (entry_in (length (im_bitmap_data sample_inverted))) (im_entries sample_inverted)"
proof -
  have "length (InvertedMorselIndex_serialize (\<lambda>_. 0) sample_inverted) < usize_bound"
    by (simp add: InvertedMorselIndex_serialize_def sample_inverted_def)
  from inverted_parse_safe [OF inverted_roundtrip [OF sample_inverted_wf] this]
  show ?thesis by (simp add: list_all_iff del: length_0_conv)
qed

end
