(* ===== verification/Row_Ref.thy ===== *)
theory Row_Ref
  imports Encoding "HOL-Library.Product_Lexorder"
begin

text \<open>
  Stable row references (\<open>row_ref.rs\<close>): the fourteen-byte tuple that addresses a row of a table.
  The derived order of the struct is the lexicographic order of its fields, so references sort by
  table, segment, morsel and row.
\<close>

datatype RowRef = RowRef
  (rr_table_id: u32) (rr_segment_id: u32) (rr_morsel_id: u32) (rr_row_in_morsel: u16)

definition RowRef_ENCODED_LEN :: usize where "RowRef_ENCODED_LEN = 14"

text \<open>\<open>derive(PartialOrd, Ord)\<close> compares the fields in the order of their declaration.\<close>

definition RowRef_fields :: "RowRef \<Rightarrow> u32 \<times> u32 \<times> u32 \<times> u16" where
  "RowRef_fields r = (rr_table_id r, rr_segment_id r, rr_morsel_id r, rr_row_in_morsel r)"

lemma RowRef_fields_inject: "RowRef_fields r = RowRef_fields s \<Longrightarrow> r = s"
  by (cases r; cases s) (simp add: RowRef_fields_def)

instantiation RowRef :: linorder
begin

definition less_eq_RowRef :: "RowRef \<Rightarrow> RowRef \<Rightarrow> bool" where
  "less_eq_RowRef r s \<longleftrightarrow> RowRef_fields r \<le> RowRef_fields s"

definition less_RowRef :: "RowRef \<Rightarrow> RowRef \<Rightarrow> bool" where
  "less_RowRef r s \<longleftrightarrow> RowRef_fields r < RowRef_fields s"

instance
  by standard (auto simp: less_eq_RowRef_def less_RowRef_def intro: RowRef_fields_inject)

end

definition RowRef_encode :: "RowRef \<Rightarrow> bytes" where
  "RowRef_encode r =
     (let out = replicate RowRef_ENCODED_LEN 0;
          out = put 0 (le_bytes 4 (rr_table_id r)) out;
          out = put 4 (le_bytes 4 (rr_segment_id r)) out;
          out = put 8 (le_bytes 4 (rr_morsel_id r)) out;
          out = put 12 (le_bytes 2 (rr_row_in_morsel r)) out
      in out)"

definition RowRef_decode :: "bytes \<Rightarrow> RowRef result" where
  "RowRef_decode bs =
     (if length bs < RowRef_ENCODED_LEN then Err BufferTooShort
      else Ok (RowRef (u32_at bs 0) (u32_at bs 4) (u32_at bs 8) (u16_at bs 12)))"

lemma length_RowRef_encode [simp]: "length (RowRef_encode r) = 14"
  by (simp add: RowRef_encode_def RowRef_ENCODED_LEN_def Let_def)

lemma RowRef_decode_encode: "RowRef_decode (RowRef_encode r @ rest) = Ok r"
proof -
  have "u32_at (RowRef_encode r) 0 = rr_table_id r" "u32_at (RowRef_encode r) 4 = rr_segment_id r"
    "u32_at (RowRef_encode r) 8 = rr_morsel_id r" "u16_at (RowRef_encode r) 12 = rr_row_in_morsel r"
    by (simp_all add: RowRef_encode_def RowRef_ENCODED_LEN_def Let_def wire_simps)
  then show ?thesis by (simp add: RowRef_decode_def RowRef_ENCODED_LEN_def wire_simps)
qed

interpretation row_ref: fixed_codec 14 "\<lambda>r. Ok (RowRef_encode r)" RowRef_decode "\<lambda>_. True"
  by unfold_locales (auto simp: RowRef_decode_encode)

lemma row_ref_image [simp]: "row_ref.image = RowRef_encode"
  by (rule ext) (simp add: row_ref.image_def)

lemma row_ref_no_panic [simp]: "RowRef_decode bs \<noteq> Panic"
  by (simp add: RowRef_decode_def)

end
