(* ===== verification/Lookup.thy ===== *)
theory Lookup
  imports Index_Common Row_Ref
begin

text \<open>
  The lookup index (\<open>index/lookup.rs\<close>): keys in strictly ascending order, each with a run of row
  references in a shared table; \<open>rows_for\<close> finds a key by bisection.
\<close>

section \<open>Enumerations\<close>

datatype LookupKeyKind =
    LKK_FileCode
  | LKK_NumCode
  | LKK_CanonicalHash
  | LKK_FixedBytes

primrec LookupKeyKind_code :: "LookupKeyKind \<Rightarrow> u8" where
  "LookupKeyKind_code LKK_FileCode = 0"
| "LookupKeyKind_code LKK_NumCode = 1"
| "LookupKeyKind_code LKK_CanonicalHash = 2"
| "LookupKeyKind_code LKK_FixedBytes = 3"

definition LookupKeyKind_from_u8 :: "u8 \<Rightarrow> LookupKeyKind option" where
  "LookupKeyKind_from_u8 v = map_of
     [(0, LKK_FileCode),
      (1, LKK_NumCode),
      (2, LKK_CanonicalHash),
      (3, LKK_FixedBytes)] v"

interpretation lookupKeyKind: wire_enum LookupKeyKind_code LookupKeyKind_from_u8
proof
  fix k show "LookupKeyKind_from_u8 (LookupKeyKind_code k) = Some k" by (cases k) (simp_all add: LookupKeyKind_from_u8_def)
next
  fix v k assume "LookupKeyKind_from_u8 v = Some k"
  then show "LookupKeyKind_code k = v" by (auto simp: LookupKeyKind_from_u8_def split: if_splits)
qed

datatype LookupIndexKind =
    LIK_Hash
  | LIK_SparseSorted
  | LIK_MinimalPerfectHash

primrec LookupIndexKind_code :: "LookupIndexKind \<Rightarrow> u8" where
  "LookupIndexKind_code LIK_Hash = 0"
| "LookupIndexKind_code LIK_SparseSorted = 1"
| "LookupIndexKind_code LIK_MinimalPerfectHash = 2"

definition LookupIndexKind_from_u8 :: "u8 \<Rightarrow> LookupIndexKind option" where
  "LookupIndexKind_from_u8 v = map_of
     [(0, LIK_Hash),
      (1, LIK_SparseSorted),
      (2, LIK_MinimalPerfectHash)] v"

interpretation lookupIndexKind: wire_enum LookupIndexKind_code LookupIndexKind_from_u8
proof
  fix k show "LookupIndexKind_from_u8 (LookupIndexKind_code k) = Some k" by (cases k) (simp_all add: LookupIndexKind_from_u8_def)
next
  fix v k assume "LookupIndexKind_from_u8 v = Some k"
  then show "LookupIndexKind_code k = v" by (auto simp: LookupIndexKind_from_u8_def split: if_splits)
qed

datatype LookupUniqueness =
    LU_Unknown
  | LU_Unique
  | LU_NonUnique

primrec LookupUniqueness_code :: "LookupUniqueness \<Rightarrow> u8" where
  "LookupUniqueness_code LU_Unknown = 0"
| "LookupUniqueness_code LU_Unique = 1"
| "LookupUniqueness_code LU_NonUnique = 2"

definition LookupUniqueness_from_u8 :: "u8 \<Rightarrow> LookupUniqueness option" where
  "LookupUniqueness_from_u8 v = map_of
     [(0, LU_Unknown),
      (1, LU_Unique),
      (2, LU_NonUnique)] v"

interpretation lookupUniqueness: wire_enum LookupUniqueness_code LookupUniqueness_from_u8
proof
  fix k show "LookupUniqueness_from_u8 (LookupUniqueness_code k) = Some k" by (cases k) (simp_all add: LookupUniqueness_from_u8_def)
next
  fix v k assume "LookupUniqueness_from_u8 v = Some k"
  then show "LookupUniqueness_code k = v" by (auto simp: LookupUniqueness_from_u8_def split: if_splits)
qed

section \<open>Header\<close>

definition LOOKUP_INDEX_HEADER_LEN :: usize where "LOOKUP_INDEX_HEADER_LEN = 56"

record LookupIndexHeaderV1 =
  lh_table_id :: u32
  lh_column_id :: u32
  lh_key_kind :: LookupKeyKind
  lh_index_kind :: LookupIndexKind
  lh_uniqueness :: LookupUniqueness
  lh_flags :: u8
  lh_entry_count :: u64
  lh_entries_offset :: u64
  lh_entries_length :: u64
  lh_rowref_offset :: u64
  lh_rowref_length :: u64
  lh_checksum :: u32

definition LookupIndexHeaderV1_image :: "LookupIndexHeaderV1 \<Rightarrow> bytes" where
  "LookupIndexHeaderV1_image h =
     (let out = replicate LOOKUP_INDEX_HEADER_LEN 0;
          out = put 0 (le_bytes 4 (lh_table_id h)) out;
          out = put 4 (le_bytes 4 (lh_column_id h)) out;
          out = put 8 [LookupKeyKind_code (lh_key_kind h)] out;
          out = put 9 [LookupIndexKind_code (lh_index_kind h)] out;
          out = put 10 [LookupUniqueness_code (lh_uniqueness h)] out;
          out = put 11 [lh_flags h] out;
          out = put 12 (le_bytes 8 (lh_entry_count h)) out;
          out = put 20 (le_bytes 8 (lh_entries_offset h)) out;
          out = put 28 (le_bytes 8 (lh_entries_length h)) out;
          out = put 36 (le_bytes 8 (lh_rowref_offset h)) out;
          out = put 44 (le_bytes 8 (lh_rowref_length h)) out
      in out)"

definition LookupIndexHeaderV1_serialize :: "(bytes \<Rightarrow> u32) \<Rightarrow> LookupIndexHeaderV1 \<Rightarrow> bytes" where
  "LookupIndexHeaderV1_serialize crc h = seal crc 52 (LookupIndexHeaderV1_image h)"

definition LookupIndexHeaderV1_parse :: "(bytes \<Rightarrow> u32) \<Rightarrow> bytes \<Rightarrow> LookupIndexHeaderV1 result" where
  "LookupIndexHeaderV1_parse crc bs0 =
     (if length bs0 < LOOKUP_INDEX_HEADER_LEN then Err BufferTooShort
      else let bs = slice 0 LOOKUP_INDEX_HEADER_LEN bs0 in
      and_then (verify_checksum_field crc bs 52) (\<lambda>checksum.
      and_then (ok_or (LookupKeyKind_from_u8 (bs ! 8)) BadIndex) (\<lambda>key_kind.
      and_then (ok_or (LookupIndexKind_from_u8 (bs ! 9)) BadIndex) (\<lambda>index_kind.
      and_then (ok_or (LookupUniqueness_from_u8 (bs ! 10)) BadIndex) (\<lambda>uniqueness.
      Ok \<lparr>lh_table_id = u32_at bs 0,
         lh_column_id = u32_at bs 4,
         lh_key_kind = key_kind,
         lh_index_kind = index_kind,
         lh_uniqueness = uniqueness,
         lh_flags = bs ! 11,
         lh_entry_count = u64_at bs 12,
         lh_entries_offset = u64_at bs 20,
         lh_entries_length = u64_at bs 28,
         lh_rowref_offset = u64_at bs 36,
         lh_rowref_length = u64_at bs 44,
         lh_checksum = checksum\<rparr>)))))"

lemma length_LookupIndexHeaderV1_image [simp]: "length (LookupIndexHeaderV1_image h) = 56"
  by (simp add: LookupIndexHeaderV1_image_def LOOKUP_INDEX_HEADER_LEN_def Let_def)

lemma length_LookupIndexHeaderV1_serialize [simp]: "length (LookupIndexHeaderV1_serialize crc h) = 56"
  by (simp add: LookupIndexHeaderV1_serialize_def)

lemma LookupIndexHeaderV1_image_fields:
  "u32_at (LookupIndexHeaderV1_image h) 0 = lh_table_id h"
  "u32_at (LookupIndexHeaderV1_image h) 4 = lh_column_id h"
  "LookupIndexHeaderV1_image h ! 8 = LookupKeyKind_code (lh_key_kind h)"
  "LookupIndexHeaderV1_image h ! 9 = LookupIndexKind_code (lh_index_kind h)"
  "LookupIndexHeaderV1_image h ! 10 = LookupUniqueness_code (lh_uniqueness h)"
  "LookupIndexHeaderV1_image h ! 11 = lh_flags h"
  "u64_at (LookupIndexHeaderV1_image h) 12 = lh_entry_count h"
  "u64_at (LookupIndexHeaderV1_image h) 20 = lh_entries_offset h"
  "u64_at (LookupIndexHeaderV1_image h) 28 = lh_entries_length h"
  "u64_at (LookupIndexHeaderV1_image h) 36 = lh_rowref_offset h"
  "u64_at (LookupIndexHeaderV1_image h) 44 = lh_rowref_length h"
  "slice 52 4 (LookupIndexHeaderV1_image h) = replicate 4 0"
  by (simp_all add: LookupIndexHeaderV1_image_def LOOKUP_INDEX_HEADER_LEN_def Let_def wire_simps)

lemma LookupIndexHeaderV1_verify:
  "verify_checksum_field crc (LookupIndexHeaderV1_serialize crc h) 52 = Ok (crc (LookupIndexHeaderV1_image h))"
  unfolding LookupIndexHeaderV1_serialize_def by (rule verify_seal) (simp_all add: LookupIndexHeaderV1_image_fields)

lemma LookupIndexHeaderV1_roundtrip:
  "LookupIndexHeaderV1_parse crc (LookupIndexHeaderV1_serialize crc h @ rest) = Ok (h\<lparr>lh_checksum := crc (LookupIndexHeaderV1_image h)\<rparr>)"
  using LookupIndexHeaderV1_image_fields [of h] LookupIndexHeaderV1_verify [of crc h]
  by (cases h) (simp add: LookupIndexHeaderV1_parse_def LOOKUP_INDEX_HEADER_LEN_def LookupIndexHeaderV1_serialize_def Let_def wire_simps lookupKeyKind.decode_code lookupIndexKind.decode_code lookupUniqueness.decode_code)

section \<open>Index\<close>

definition LOOKUP_INDEX_ENTRY_LEN :: usize where "LOOKUP_INDEX_ENTRY_LEN = 16"

datatype LookupEntry = LookupEntry (le_key: u64) (le_rows: "RowRef list")

record LookupIndex =
  li_header :: LookupIndexHeaderV1
  li_entries :: "LookupEntry list"

text \<open>One entry: the key, and the run of the shared row-reference table it names.\<close>

definition parse_rows :: "bytes \<Rightarrow> bytes \<Rightarrow> RowRef list result" where
  "parse_rows rowref_bytes chunk =
     (let rowref_start = unat (u32_at chunk 8); rowref_count = unat (u32_at chunk 12) in
      and_then (checked_mul rowref_start RowRef_ENCODED_LEN) (\<lambda>start.
      and_then (checked_mul rowref_count RowRef_ENCODED_LEN) (\<lambda>len.
      and_then (checked_add start len) (\<lambda>end'.
      if end' > length rowref_bytes then Err BadIndex
      else collect_map RowRef_decode (chunks_exact RowRef_ENCODED_LEN (slice start len rowref_bytes))))))"

fun parse_lookup_loop ::
  "bytes \<Rightarrow> u64 option \<Rightarrow> LookupEntry list \<Rightarrow> bytes list \<Rightarrow> LookupEntry list result" where
  "parse_lookup_loop rowref_bytes previous_key entries [] = Ok entries"
| "parse_lookup_loop rowref_bytes previous_key entries (chunk # chunks) =
     (let key = u64_at chunk 0 in
      if (case previous_key of Some previous \<Rightarrow> key \<le> previous | None \<Rightarrow> False) then Err BadIndex
      else and_then (parse_rows rowref_bytes chunk) (\<lambda>rows.
        parse_lookup_loop rowref_bytes (Some key) (entries @ [LookupEntry key rows]) chunks))"

definition LookupIndex_parse :: "(bytes \<Rightarrow> u32) \<Rightarrow> bytes \<Rightarrow> LookupIndex result" where
  "LookupIndex_parse crc bs =
     and_then (LookupIndexHeaderV1_parse crc bs) (\<lambda>header.
     and_then (checked_region bs (lh_entries_offset header) (lh_entries_length header)) (\<lambda>entries_bytes.
     and_then (checked_region bs (lh_rowref_offset header) (lh_rowref_length header)) (\<lambda>rowref_bytes.
     and_then (checked_mul (unat (lh_entry_count header)) LOOKUP_INDEX_ENTRY_LEN) (\<lambda>expected_entries_len.
     if unat (lh_entries_length header) \<noteq> expected_entries_len \<or>
        length rowref_bytes mod RowRef_ENCODED_LEN \<noteq> 0 then Err BadIndex
     else
       and_then (parse_lookup_loop rowref_bytes None [] (chunks_exact LOOKUP_INDEX_ENTRY_LEN entries_bytes))
         (\<lambda>entries. Ok \<lparr>li_header = header, li_entries = entries\<rparr>)))))"

definition LookupIndex_rows_for :: "LookupIndex \<Rightarrow> u64 \<Rightarrow> RowRef list option" where
  "LookupIndex_rows_for ix key =
     (case binary_search_by_key key le_key (li_entries ix) of
        Inl i \<Rightarrow> Some (le_rows (li_entries ix ! i)) | Inr _ \<Rightarrow> None)"

text \<open>The serialising loop: the two tables and the running row-reference start.\<close>

fun serialize_loop :: "bytes \<Rightarrow> bytes \<Rightarrow> u32 \<Rightarrow> LookupEntry list \<Rightarrow> (bytes \<times> bytes) result" where
  "serialize_loop entry_bytes rowref_bytes rowref_start [] = Ok (entry_bytes, rowref_bytes)"
| "serialize_loop entry_bytes rowref_bytes rowref_start (entry # entries) =
     (if length (le_rows entry) \<ge> 2 ^ 32 then Err ArithOverflow
      else let row_count = of_nat (length (le_rows entry)) :: u32;
               entry_bytes = entry_bytes @ le_bytes 8 (le_key entry) @ le_bytes 4 rowref_start @ le_bytes 4 row_count;
               rowref_bytes = rowref_bytes @ concat (map RowRef_encode (le_rows entry))
      in if unat rowref_start + unat row_count \<ge> 2 ^ 32 then Err ArithOverflow
         else serialize_loop entry_bytes rowref_bytes (rowref_start + row_count) entries)"

definition lookup_canonical_header :: "LookupIndexHeaderV1 \<Rightarrow> nat \<Rightarrow> nat \<Rightarrow> nat \<Rightarrow> LookupIndexHeaderV1" where
  "lookup_canonical_header h n elen rlen =
     h\<lparr>lh_entry_count := of_nat n,
       lh_entries_offset := of_nat LOOKUP_INDEX_HEADER_LEN,
       lh_entries_length := of_nat elen,
       lh_rowref_offset := of_nat (LOOKUP_INDEX_HEADER_LEN + elen),
       lh_rowref_length := of_nat rlen\<rparr>"

definition LookupIndex_serialize :: "(bytes \<Rightarrow> u32) \<Rightarrow> LookupIndex \<Rightarrow> bytes result" where
  "LookupIndex_serialize crc ix =
     and_then (checked_mul (length (li_entries ix)) LOOKUP_INDEX_ENTRY_LEN) (\<lambda>_.
     and_then (serialize_loop [] [] 0 (li_entries ix)) (\<lambda>(entry_bytes, rowref_bytes).
     and_then (fail_if (length entry_bytes \<ge> 2 ^ 64) ArithOverflow) (\<lambda>_.
     and_then (checked_add LOOKUP_INDEX_HEADER_LEN (length entry_bytes)) (\<lambda>_.
     and_then (fail_if (length rowref_bytes \<ge> 2 ^ 64) ArithOverflow) (\<lambda>_.
     Ok (LookupIndexHeaderV1_serialize crc (lookup_canonical_header (li_header ix)
           (length (li_entries ix)) (length entry_bytes) (length rowref_bytes))
         @ entry_bytes @ rowref_bytes))))))"

section \<open>Point lookups\<close>

definition lookup_wf :: "LookupIndex \<Rightarrow> bool" where
  "lookup_wf ix \<longleftrightarrow> sorted_wrt (<) (map le_key (li_entries ix))"

definition lookup_map :: "LookupIndex \<Rightarrow> u64 \<rightharpoonup> RowRef list" where
  "lookup_map ix = map_of (map (\<lambda>e. (le_key e, le_rows e)) (li_entries ix))"

lemma rows_for_eq_map:
  assumes "lookup_wf ix"
  shows "LookupIndex_rows_for ix k = lookup_map ix k"
proof -
  let ?es = "li_entries ix"
  have s: "sorted_wrt (<) (map le_key ?es)" using assms by (simp add: lookup_wf_def)
  then have d: "distinct (map le_key ?es)" by (simp add: strict_sorted_iff)
  show ?thesis
  proof (cases "binary_search_by_key k le_key ?es")
    case (Inl i)
    then have i: "i < length ?es" "le_key (?es ! i) = k" by (auto dest: binary_search_sound)
    then have "(k, le_rows (?es ! i)) \<in> set (map (\<lambda>e. (le_key e, le_rows e)) ?es)" by force
    with d have "lookup_map ix k = Some (le_rows (?es ! i))"
      by (simp add: lookup_map_def comp_def)
    with Inl show ?thesis by (simp add: LookupIndex_rows_for_def)
  next
    case (Inr i)
    then have "k \<notin> le_key ` set ?es" using binary_search_found_iff [OF s, of k] by auto
    then have "lookup_map ix k = None" by (auto simp: lookup_map_def map_of_eq_None_iff image_image)
    with Inr show ?thesis by (simp add: LookupIndex_rows_for_def)
  qed
qed

lemma lookup_map_dom: "dom (lookup_map ix) = le_key ` set (li_entries ix)"
  by (simp add: lookup_map_def dom_map_of_conv_image_fst image_image)

lemma rows_for_found_iff:
  "lookup_wf ix \<Longrightarrow> LookupIndex_rows_for ix k \<noteq> None \<longleftrightarrow> k \<in> le_key ` set (li_entries ix)"
  by (simp add: rows_for_eq_map lookup_map_dom [symmetric] domIff del: not_None_eq)

interpretation lookup: exact_membership "\<lambda>ix k. LookupIndex_rows_for ix k \<noteq> None"
  "\<lambda>ix. le_key ` set (li_entries ix)" lookup_wf
  by unfold_locales (simp_all only: rows_for_found_iff)

section \<open>What the parser establishes\<close>

definition follows :: "u64 option \<Rightarrow> u64 \<Rightarrow> bool" where
  "follows prev k \<longleftrightarrow> (case prev of Some p \<Rightarrow> p < k | None \<Rightarrow> True)"

lemma follows_simps [simp]: "follows None k" "follows (Some p) k \<longleftrightarrow> p < k"
  by (simp_all add: follows_def)

lemma parse_lookup_step:
  "parse_lookup_loop rb prev acc (c # cs) = Ok out \<longleftrightarrow>
     (\<exists>rows. parse_rows rb c = Ok rows \<and> follows prev (u64_at c 0) \<and>
        parse_lookup_loop rb (Some (u64_at c 0)) (acc @ [LookupEntry (u64_at c 0) rows]) cs = Ok out)"
  by (cases prev) (auto simp: result_simps Let_def not_le split: if_splits)

lemma parse_lookup_loop_sound:
  "parse_lookup_loop rb prev acc cs = Ok out \<Longrightarrow>
     \<exists>es. out = acc @ es \<and> list_all2 (\<lambda>c e. le_key e = u64_at c 0 \<and> parse_rows rb c = Ok (le_rows e)) cs es \<and>
       sorted_wrt (<) (map le_key es) \<and> (\<forall>e \<in> set es. follows prev (le_key e))"
proof (induction cs arbitrary: prev acc)
  case (Cons c cs)
  from Cons.prems obtain rows where r: "parse_rows rb c = Ok rows" "follows prev (u64_at c 0)"
    "parse_lookup_loop rb (Some (u64_at c 0)) (acc @ [LookupEntry (u64_at c 0) rows]) cs = Ok out"
    unfolding parse_lookup_step by blast
  from Cons.IH [OF r(3)] obtain es where es: "out = acc @ LookupEntry (u64_at c 0) rows # es"
    "list_all2 (\<lambda>c e. le_key e = u64_at c 0 \<and> parse_rows rb c = Ok (le_rows e)) cs es"
    "sorted_wrt (<) (map le_key es)" "\<forall>e \<in> set es. u64_at c 0 < le_key e" by auto
  have "follows prev (le_key x)" if "x \<in> set es" for x
    using r(2) es(4) that by (cases prev) (auto intro: less_trans)
  with r es show ?case by (intro exI [of _ "LookupEntry (u64_at c 0) rows # es"]) auto
qed simp

lemma lookup_parse_wf:
  assumes "LookupIndex_parse crc bs = Ok ix"
  shows "lookup_wf ix \<and> length (li_entries ix) = unat (lh_entry_count (li_header ix))"
proof -
  from assms obtain eb rb where loop: "parse_lookup_loop rb None [] (chunks_exact 16 eb) = Ok (li_entries ix)"
    and eb: "checked_region bs (lh_entries_offset (li_header ix)) (lh_entries_length (li_header ix)) = Ok eb"
    and n: "unat (lh_entries_length (li_header ix)) = unat (lh_entry_count (li_header ix)) * 16"
    by (auto simp: LookupIndex_parse_def result_simps LOOKUP_INDEX_ENTRY_LEN_def split: if_splits)
  from parse_lookup_loop_sound [OF loop]
  have es: "list_all2 (\<lambda>c e. le_key e = u64_at c 0 \<and> parse_rows rb c = Ok (le_rows e)) (chunks_exact 16 eb) (li_entries ix)"
    "sorted_wrt (<) (map le_key (li_entries ix))" by auto
  from eb n have "length eb = unat (lh_entry_count (li_header ix)) * 16" by (auto simp: checked_region_Ok)
  with es show ?thesis by (auto simp: lookup_wf_def chunks_exact_def dest: list_all2_lengthD)
qed

section \<open>Round trip\<close>

text \<open>The entry images the serialiser writes, with the start of each run of row references.\<close>

definition entry_image :: "nat \<Rightarrow> LookupEntry \<Rightarrow> bytes" where
  "entry_image start e =
     le_bytes 8 (le_key e) @ le_bytes 4 (of_nat start :: u32) @ le_bytes 4 (of_nat (length (le_rows e)) :: u32)"

primrec entry_images :: "nat \<Rightarrow> LookupEntry list \<Rightarrow> bytes list" where
  "entry_images start [] = []"
| "entry_images start (e # es) = entry_image start e # entry_images (start + length (le_rows e)) es"

abbreviation all_rows :: "LookupEntry list \<Rightarrow> RowRef list" where
  "all_rows es \<equiv> concat (map le_rows es)"

lemma length_entry_image [simp]: "length (entry_image s e) = 16"
  by (simp add: entry_image_def)

lemma length_entry_images [simp]: "length (entry_images s es) = length es"
  by (induction es arbitrary: s) simp_all

lemma entry_images_uniform: "c \<in> set (entry_images s es) \<Longrightarrow> length c = 16"
  by (induction es arbitrary: s) auto

lemma serialize_loop_Ok:
  "start + length (all_rows es) < 2 ^ 32 \<Longrightarrow>
     serialize_loop eb rb (of_nat start) es =
       Ok (eb @ concat (entry_images start es), rb @ concat (map RowRef_encode (all_rows es)))"
proof (induction es arbitrary: start eb rb)
  case (Cons e es)
  have n: "unat (of_nat start :: u32) = start"
    "unat (of_nat (length (le_rows e)) :: u32) = length (le_rows e)"
    using Cons.prems by (auto intro!: unat_of_nat_less)
  have "serialize_loop (eb @ entry_image start e) (rb @ concat (map RowRef_encode (le_rows e)))
      (of_nat (start + length (le_rows e))) es =
    Ok ((eb @ entry_image start e) @ concat (entry_images (start + length (le_rows e)) es),
        (rb @ concat (map RowRef_encode (le_rows e))) @ concat (map RowRef_encode (all_rows es)))"
    using Cons.prems by (intro Cons.IH) simp
  then show ?case using Cons.prems n by (simp add: Let_def entry_image_def not_le)
qed simp

lemma rows_slice:
  assumes "start = length pre"
  shows "slice (start * 14) (length rows * 14) (concat (map RowRef_encode (pre @ rows @ post))) =
    concat (map RowRef_encode rows)"
proof -
  have "length (concat (map RowRef_encode xs)) = length xs * 14" for xs
    by (rule length_concat_uniform) simp
  then show ?thesis using assms by (simp add: slice_def)
qed

lemma parse_rows_image:
  assumes "start = length pre" and "start + length (le_rows e) < 2 ^ 32"
  shows "parse_rows (concat (map RowRef_encode (pre @ le_rows e @ post))) (entry_image start e) = Ok (le_rows e)"
proof -
  have n: "unat (of_nat start :: u32) = start"
    "unat (of_nat (length (le_rows e)) :: u32) = length (le_rows e)"
    using assms by (auto intro!: unat_of_nat_less)
  have f: "u32_at (entry_image start e) 8 = of_nat start"
    "u32_at (entry_image start e) 12 = of_nat (length (le_rows e))"
    by (simp_all add: entry_image_def wire_simps)
  have l: "length (concat (map RowRef_encode (pre @ le_rows e @ post))) =
      start * 14 + length (le_rows e) * 14 + length post * 14"
    using assms(1) by (subst length_concat_uniform [where w = 14]) simp_all
  have c: "collect_map RowRef_decode (chunks_exact 14 (concat (map RowRef_encode (le_rows e)))) = Ok (le_rows e)"
    using row_ref.parse_chunks_exact [of "le_rows e"] by simp
  show ?thesis unfolding parse_rows_def Let_def f n RowRef_ENCODED_LEN_def
    using assms(2) by (simp add: rows_slice [OF assms(1)] c l checked_mul_def checked_add_def
        del: map_append concat_append)
qed

lemma parse_images:
  "sorted_wrt (<) (map le_key es) \<Longrightarrow> \<forall>e \<in> set es. follows prev (le_key e) \<Longrightarrow>
   start = length pre \<Longrightarrow> start + length (all_rows es) < 2 ^ 32 \<Longrightarrow>
     parse_lookup_loop (concat (map RowRef_encode (pre @ all_rows es))) prev acc (entry_images start es) = Ok (acc @ es)"
proof (induction es arbitrary: prev start pre acc)
  case (Cons e es)
  let ?rb = "concat (map RowRef_encode (pre @ all_rows (e # es)))"
  have key: "u64_at (entry_image start e) 0 = le_key e" by (simp add: entry_image_def wire_simps)
  have rows: "parse_rows ?rb (entry_image start e) = Ok (le_rows e)"
    using parse_rows_image [of start pre e "all_rows es"] Cons.prems by simp
  have "parse_lookup_loop (concat (map RowRef_encode ((pre @ le_rows e) @ all_rows es))) (Some (le_key e))
      (acc @ [e]) (entry_images (start + length (le_rows e)) es) = Ok ((acc @ [e]) @ es)"
    using Cons.prems by (intro Cons.IH) auto
  then have "parse_lookup_loop ?rb prev acc (entry_image start e # entry_images (start + length (le_rows e)) es) =
      Ok (acc @ e # es)"
    unfolding parse_lookup_step using key rows Cons.prems by (intro exI [of _ "le_rows e"]) simp
  then show ?case by simp
qed simp

abbreviation lookup_header :: "LookupIndex \<Rightarrow> LookupIndexHeaderV1" where
  "lookup_header ix \<equiv> lookup_canonical_header (li_header ix) (length (li_entries ix))
     (length (li_entries ix) * 16) (length (all_rows (li_entries ix)) * 14)"

lemma lookup_roundtrip:
  assumes wf: "lookup_wf ix" and n: "length (li_entries ix) < 2 ^ 32"
    and r: "length (all_rows (li_entries ix)) < 2 ^ 32"
  shows "\<exists>bs. LookupIndex_serialize crc ix = Ok bs \<and> LookupIndex_parse crc bs =
    Ok (ix\<lparr>li_header := (lookup_header ix)\<lparr>lh_checksum := crc (LookupIndexHeaderV1_image (lookup_header ix))\<rparr>\<rparr>)"
proof -
  let ?h = "lookup_header ix" and ?n = "length (li_entries ix)" and ?m = "length (all_rows (li_entries ix))"
  define et where "et = concat (entry_images 0 (li_entries ix))"
  define rt where "rt = concat (map RowRef_encode (all_rows (li_entries ix)))"
  define hd where "hd = LookupIndexHeaderV1_serialize crc ?h"
  have lh: "length hd = 56" by (simp add: hd_def)
  have le: "length et = ?n * 16" unfolding et_def
    using length_concat_uniform [of "entry_images 0 (li_entries ix)" id 16] by (simp add: entry_images_uniform)
  have lr: "length rt = ?m * 14" unfolding rt_def by (rule length_concat_uniform) simp
  have un: "unat (of_nat k :: u64) = k" if "k < 2 ^ 60" for k
    using that by (intro unat_of_nat_less) simp
  have h: "unat (lh_entry_count ?h) = ?n" "unat (lh_entries_offset ?h) = 56"
    "unat (lh_entries_length ?h) = ?n * 16" "unat (lh_rowref_offset ?h) = 56 + ?n * 16"
    "unat (lh_rowref_length ?h) = ?m * 14"
    using n r un [of ?n] un [of "?n * 16"] un [of "56 + ?n * 16"] un [of "?m * 14"]
    by (simp_all add: lookup_canonical_header_def LOOKUP_INDEX_HEADER_LEN_def del: of_nat_mult of_nat_add)
  have ser: "serialize_loop [] [] 0 (li_entries ix) = Ok (et, rt)"
    using serialize_loop_Ok [of 0 "li_entries ix" "[]" "[]"] r by (simp add: et_def rt_def)
  have hdr: "LookupIndexHeaderV1_parse crc (hd @ et @ rt) =
      Ok (?h\<lparr>lh_checksum := crc (LookupIndexHeaderV1_image ?h)\<rparr>)"
    unfolding hd_def by (rule LookupIndexHeaderV1_roundtrip)
  have r1: "checked_region (hd @ et @ rt) (lh_entries_offset ?h) (lh_entries_length ?h) = Ok et"
    unfolding checked_region_Ok h using n lh le lr by (simp add: slice_def)
  have r2: "checked_region (hd @ et @ rt) (lh_rowref_offset ?h) (lh_rowref_length ?h) = Ok rt"
    unfolding checked_region_Ok h using n r lh le lr by (simp add: slice_def)
  have chunks: "chunks_exact 16 et = entry_images 0 (li_entries ix)"
    using chunks_exact_concat [of "entry_images 0 (li_entries ix)" id 16]
    by (simp add: et_def entry_images_uniform)
  have loop: "parse_lookup_loop rt None [] (chunks_exact 16 et) = Ok (li_entries ix)"
    unfolding chunks rt_def using parse_images [of "li_entries ix" None 0 "[]" "[]"] wf r
    by (simp add: lookup_wf_def)
  have "LookupIndex_parse crc (hd @ et @ rt) =
    Ok (ix\<lparr>li_header := ?h\<lparr>lh_checksum := crc (LookupIndexHeaderV1_image ?h)\<rparr>\<rparr>)"
    using n r1 r2 loop h lr by (simp add: LookupIndex_parse_def hdr checked_mul_def
        LOOKUP_INDEX_ENTRY_LEN_def RowRef_ENCODED_LEN_def)
  moreover have "LookupIndex_serialize crc ix = Ok (hd @ et @ rt)"
    using n r le lr by (simp add: LookupIndex_serialize_def ser checked_mul_def checked_add_def fail_if_def
        LOOKUP_INDEX_ENTRY_LEN_def LOOKUP_INDEX_HEADER_LEN_def hd_def)
  ultimately show ?thesis by blast
qed

section \<open>Properties\<close>

text \<open>a lookup index survives the wire: serialising lays the row references of the entries out one
  after the other, and parsing gives each key its own run back, for every list of row references.\<close>

theorem lookup_index_roundtrip:
  assumes "lookup_wf ix" and "length (li_entries ix) < 2 ^ 32"
    and "length (all_rows (li_entries ix)) < 2 ^ 32"
  shows "\<exists>bs. LookupIndex_serialize crc ix = Ok bs \<and> LookupIndex_parse crc bs =
    Ok (ix\<lparr>li_header := (lookup_header ix)\<lparr>lh_checksum := crc (LookupIndexHeaderV1_image (lookup_header ix))\<rparr>\<rparr>)"
  using assms by (rule lookup_roundtrip)

text \<open>C26: on a parsed lookup index the bisection of \<open>rows_for\<close> is the finite map from keys to their
  row references: it finds a key if and only if an entry has it, and returns that entry's rows.\<close>

theorem lookup_rows_for_exact:
  assumes "LookupIndex_parse crc bs = Ok ix"
  shows "LookupIndex_rows_for ix k = map_of (map (\<lambda>e. (le_key e, le_rows e)) (li_entries ix)) k \<and>
    (LookupIndex_rows_for ix k \<noteq> None \<longleftrightarrow> k \<in> le_key ` set (li_entries ix)) \<and>
    length (li_entries ix) = unat (lh_entry_count (li_header ix))"
proof -
  from lookup_parse_wf [OF assms] have wf: "lookup_wf ix" "length (li_entries ix) = unat (lh_entry_count (li_header ix))"
    by auto
  from rows_for_eq_map [OF wf(1), of k] lookup.member_iff [OF wf(1), of k] wf(2) show ?thesis
    by (simp add: lookup_map_def)
qed

definition sample_lookup :: LookupIndex where
  "sample_lookup = \<lparr>li_header = \<lparr>lh_table_id = 1, lh_column_id = 3, lh_key_kind = LKK_FileCode,
      lh_index_kind = LIK_SparseSorted, lh_uniqueness = LU_NonUnique, lh_flags = 0, lh_entry_count = 2,
      lh_entries_offset = 56, lh_entries_length = 32, lh_rowref_offset = 88, lh_rowref_length = 42, lh_checksum = 0\<rparr>,
    li_entries = [LookupEntry 2 [RowRef 1 0 0 1], LookupEntry 5 [RowRef 1 0 0 1, RowRef 1 0 0 7]]\<rparr>"

lemma sample_lookup_wf:
  "lookup_wf sample_lookup" "length (li_entries sample_lookup) < 2 ^ 32"
  "length (all_rows (li_entries sample_lookup)) < 2 ^ 32"
  by (simp_all add: sample_lookup_def lookup_wf_def)

lemma lookup_index_roundtrip_witness:
  "\<exists>bs. LookupIndex_serialize (\<lambda>bs. of_nat (length bs)) sample_lookup = Ok bs"
  using lookup_index_roundtrip [OF sample_lookup_wf, of "\<lambda>bs. of_nat (length bs)"] by blast

lemma lookup_rows_for_exact_witness:
  "\<exists>h. LookupIndex_rows_for (sample_lookup\<lparr>li_header := h\<rparr>) 5 = Some [RowRef 1 0 0 1, RowRef 1 0 0 7]"
proof -
  obtain h bs where "LookupIndex_parse (\<lambda>bs. of_nat (length bs)) bs = Ok (sample_lookup\<lparr>li_header := h\<rparr>)"
    using lookup_roundtrip [OF sample_lookup_wf, of "\<lambda>bs. of_nat (length bs)"] by blast
  from lookup_rows_for_exact [OF this, of 5]
  have "LookupIndex_rows_for (sample_lookup\<lparr>li_header := h\<rparr>) 5 = Some [RowRef 1 0 0 1, RowRef 1 0 0 7]"
    by (simp add: sample_lookup_def)
  then show ?thesis by blast
qed

end
