(* ===== verification/Pruning.thy ===== *)
theory Pruning
  imports Zone_Outcome Zone_Stats Column_Domain Exact_Set Bloom Inverted Lookup
begin

text \<open>
  Pruning explanations (\<open>pruning.rs\<close>): from the metadata of a zone to a \<open>PredicateZoneOutcome\<close>
  with the evidence for it. Each explanation function is modelled branch by branch; of a step
  the evidence, the outcome and the section reference are kept, the prose note is not.

  The specification is the one of \<open>Zone_Outcome\<close>: the outcome must be \<open>sound\<close> for every list of rows
  the metadata describes. What "describes" means is a predicate per kind of metadata
  (\<open>counts_match\<close>, \<open>ranks_match\<close>, \<open>bounds_match\<close>, and the key sets of the membership indexes);
  the indexes enter through the locale \<open>membership\<close>, interpreted on each of them.
\<close>

section \<open>Explanations\<close>

datatype PruningEvidence =
    PE_NoMetadata
  | PE_ZoneStats
  | PE_ColumnDomain
  | PE_ExactSet
  | PE_BloomFilter
  | PE_InvertedIndex
  | PE_CompositeIndex
  | PE_AggregateSynopsis
  | PE_TopNSummary
  | PE_FallbackToScan

record PruningStep =
  ps_evidence :: PruningEvidence
  ps_outcome :: PredicateZoneOutcome
  ps_spec_section :: string

record PruningExplanation =
  pe_steps :: "PruningStep list"
  pe_final_outcome :: PredicateZoneOutcome

text \<open>The section sign is the two bytes of its UTF-8 encoding.\<close>

definition section_ref :: "string \<Rightarrow> string" where
  "section_ref s = [CHR 0xC2, CHR 0xA7] @ s"

definition explanation_new :: PruningExplanation where
  "explanation_new = \<lparr>pe_steps = [], pe_final_outcome = Unknown\<rparr>"

definition explanation_record ::
  "PruningExplanation \<Rightarrow> PruningEvidence \<Rightarrow> PredicateZoneOutcome \<Rightarrow> string \<Rightarrow> PruningExplanation" where
  "explanation_record self evidence outcome spec_section =
     \<lparr>pe_steps = pe_steps self @
        [\<lparr>ps_evidence = evidence, ps_outcome = outcome, ps_spec_section = spec_section\<rparr>],
      pe_final_outcome =
        (if pe_steps self = [] then outcome else outcome_and (pe_final_outcome self) outcome)\<rparr>"

definition explanation_and :: "PruningExplanation \<Rightarrow> PruningExplanation \<Rightarrow> PruningExplanation" where
  "explanation_and self other =
     (if pe_steps self = [] then other
      else if pe_steps other = [] then self
      else \<lparr>pe_steps = pe_steps self @ pe_steps other,
            pe_final_outcome = outcome_and (pe_final_outcome self) (pe_final_outcome other)\<rparr>)"

definition explanation_or :: "PruningExplanation \<Rightarrow> PruningExplanation \<Rightarrow> PruningExplanation" where
  "explanation_or self other =
     (if pe_steps self = [] then other
      else if pe_steps other = [] then self
      else \<lparr>pe_steps = pe_steps self @ pe_steps other,
            pe_final_outcome = outcome_or (pe_final_outcome self) (pe_final_outcome other)\<rparr>)"

definition explanation_negate :: "PruningExplanation \<Rightarrow> PruningExplanation" where
  "explanation_negate self = self\<lparr>pe_final_outcome := outcome_negate (pe_final_outcome self)\<rparr>"

definition single_step ::
  "PruningEvidence \<Rightarrow> PredicateZoneOutcome \<Rightarrow> string \<Rightarrow> PruningExplanation" where
  "single_step evidence outcome spec_section =
     explanation_record explanation_new evidence outcome spec_section"

section \<open>Null tests\<close>

definition null_count :: "ZoneStatsEntry \<Rightarrow> u64" where "null_count zone = zs_null_count (ze_stats zone)"
definition row_count :: "ZoneStatsEntry \<Rightarrow> u64" where "row_count zone = zs_row_count (ze_stats zone)"

definition has_flag :: "ZoneStatsEntry \<Rightarrow> u32 \<Rightarrow> bool" where
  "has_flag zone flag = flags_contain (zs_flags (ze_stats zone)) flag"

definition explain_is_null :: "ZoneStatsEntry option \<Rightarrow> PruningExplanation" where
  "explain_is_null zone_stats =
     (case zone_stats of
        Some zone \<Rightarrow>
          if null_count zone = 0
          then single_step PE_ZoneStats NoMatch (section_ref ''37.4'')
          else if null_count zone = row_count zone
          then single_step PE_ZoneStats AllMatch (section_ref ''37.4'')
          else single_step PE_ZoneStats (if null_count zone > 0 then SomeMatch else Unknown)
                 (section_ref ''37.4'')
      | None \<Rightarrow> single_step PE_NoMetadata Unknown (section_ref ''37.4''))"

definition explain_is_not_null :: "ZoneStatsEntry option \<Rightarrow> PruningExplanation" where
  "explain_is_not_null zone_stats =
     (case zone_stats of
        Some zone \<Rightarrow>
          if null_count zone = row_count zone
          then single_step PE_ZoneStats NoMatch (section_ref ''37.4'')
          else if null_count zone = 0
          then single_step PE_ZoneStats AllMatch (section_ref ''37.4'')
          else single_step PE_ZoneStats SomeMatch (section_ref ''37.4'')
      | None \<Rightarrow> single_step PE_NoMetadata Unknown (section_ref ''37.4''))"

section \<open>FileCode equality\<close>

definition usable_domain :: "ColumnDomain option \<Rightarrow> ColumnDomain option" where
  "usable_domain domain =
     (case domain of
        Some d \<Rightarrow> if ColumnDomain_is_safe d then Some d else None
      | None \<Rightarrow> None)"

definition exact_set_membership :: "ExactSetIndex option \<Rightarrow> u32 \<Rightarrow> bool option" where
  "exact_set_membership exact_set file_code =
     (case exact_set of
        None \<Rightarrow> None
      | Some ix \<Rightarrow>
          if esh_key_kind (es_header ix) \<noteq> ESK_FileCode then None
          else Some (ExactSetIndex_contains ix (ucast file_code)))"

text \<open>
  The early returns of the function, in order: each stage either returns an explanation or
  falls through to the next.
\<close>

definition equality_domain_stage ::
  "u32 \<Rightarrow> ZoneStatsEntry option \<Rightarrow> ColumnDomain option \<Rightarrow> PruningExplanation option" where
  "equality_domain_stage file_code zone_stats safe_domain =
     (case safe_domain of
        None \<Rightarrow> None
      | Some domain \<Rightarrow>
          (case ColumnDomain_rank_of domain file_code of
             None \<Rightarrow> Some (single_step PE_ColumnDomain NoMatch (section_ref ''37.1''))
           | Some rank \<Rightarrow>
               (case zone_stats of
                  None \<Rightarrow> None
                | Some zone \<Rightarrow>
                    if has_flag zone HAS_DOMAIN_RANGE \<and>
                       (rank < ze_min_domain_rank zone \<or> rank > ze_max_domain_rank zone)
                    then Some (single_step PE_ColumnDomain NoMatch (section_ref ''37.1''))
                    else if has_flag zone HAS_DOMAIN_RANGE \<and> has_flag zone CONSTANT \<and>
                            ze_min_domain_rank zone = rank \<and> ze_max_domain_rank zone = rank \<and>
                            null_count zone = 0
                    then Some (single_step PE_ColumnDomain AllMatch (section_ref ''37.1''))
                    else None)))"

definition equality_overlap_stage ::
  "u32 \<Rightarrow> ZoneStatsEntry option \<Rightarrow> ColumnDomain option \<Rightarrow> PruningExplanation option" where
  "equality_overlap_stage file_code zone_stats safe_domain =
     (case (zone_stats, safe_domain) of
        (Some zone, Some domain) \<Rightarrow>
          if has_flag zone HAS_DOMAIN_RANGE
          then (case ColumnDomain_rank_of domain file_code of
                  Some rank \<Rightarrow> Some (single_step PE_ColumnDomain SomeMatch (section_ref ''37.1''))
                | None \<Rightarrow> None)
          else None
      | _ \<Rightarrow> None)"

definition explain_file_code_equality ::
  "u32 \<Rightarrow> ZoneStatsEntry option \<Rightarrow> ColumnDomain option \<Rightarrow> ExactSetIndex option \<Rightarrow> PruningExplanation" where
  "explain_file_code_equality file_code zone_stats domain exact_set =
     (if (case zone_stats of Some zone \<Rightarrow> null_count zone = row_count zone | None \<Rightarrow> False)
      then single_step PE_ZoneStats NoMatch (section_ref ''37.1'')
      else let safe_domain = usable_domain domain in
      (case equality_domain_stage file_code zone_stats safe_domain of
         Some e \<Rightarrow> e
       | None \<Rightarrow>
           (case exact_set_membership exact_set file_code of
              Some contains \<Rightarrow>
                single_step PE_ExactSet (if contains then SomeMatch else NoMatch) (section_ref ''37.1'')
            | None \<Rightarrow>
                (case equality_overlap_stage file_code zone_stats safe_domain of
                   Some e \<Rightarrow> e
                 | None \<Rightarrow>
                     if zone_stats \<noteq> None \<or> domain \<noteq> None \<or> exact_set \<noteq> None
                     then single_step PE_FallbackToScan Unknown (section_ref ''37.1'')
                     else single_step PE_NoMetadata Unknown (section_ref ''37.1'')))))"

section \<open>Rank ranges\<close>

definition explain_resolved_domain_rank_range ::
  "u32 \<Rightarrow> u32 \<Rightarrow> ZoneStatsEntry option \<Rightarrow> ColumnDomain option \<Rightarrow> PruningExplanation" where
  "explain_resolved_domain_rank_range min_rank max_rank zone_stats domain =
     (if min_rank > max_rank then single_step PE_ColumnDomain NoMatch (section_ref ''37.2'')
      else case zone_stats of
        None \<Rightarrow> single_step PE_NoMetadata Unknown (section_ref ''37.2'')
      | Some zone \<Rightarrow>
          if null_count zone = row_count zone
          then single_step PE_ZoneStats NoMatch (section_ref ''37.2'')
          else (case usable_domain domain of
            None \<Rightarrow> single_step PE_FallbackToScan Unknown (section_ref ''37.2'')
          | Some _ \<Rightarrow>
              if \<not> has_flag zone HAS_DOMAIN_RANGE
              then single_step PE_FallbackToScan Unknown (section_ref ''37.2'')
              else if ze_max_domain_rank zone < min_rank \<or> ze_min_domain_rank zone > max_rank
              then single_step PE_ColumnDomain NoMatch (section_ref ''37.2'')
              else if ze_min_domain_rank zone \<ge> min_rank \<and> ze_max_domain_rank zone \<le> max_rank \<and>
                      null_count zone = 0
              then single_step PE_ColumnDomain AllMatch (section_ref ''37.2'')
              else single_step PE_ColumnDomain SomeMatch (section_ref ''37.2'')))"

section \<open>Numeric ranges\<close>

text \<open>
  \<open>f64::partial_cmp\<close> on bit patterns: NaN is unordered; otherwise the sign-magnitude value of the
  bits orders them, with both zeros equal.
\<close>

definition f64_key :: "u64 \<Rightarrow> int" where
  "f64_key bits =
     (let magnitude = uint (bits AND 0x7FFFFFFFFFFFFFFF) in
      if bits AND 0x8000000000000000 = 0 then magnitude else - magnitude)"

definition f64_partial_cmp :: "u64 \<Rightarrow> u64 \<Rightarrow> ordering option" where
  "f64_partial_cmp a b =
     (if f64_is_nan a \<or> f64_is_nan b then None else Some (ord_cmp (f64_key a) (f64_key b)))"

text \<open>\<open>mem::discriminant\<close>: the position of the variant.\<close>

primrec numeric_discriminant :: "NumericStatValue \<Rightarrow> nat" where
  "numeric_discriminant (NSV_Int64 _) = 0"
| "numeric_discriminant (NSV_UInt64 _) = 1"
| "numeric_discriminant (NSV_Float64 _) = 2"
| "numeric_discriminant (NSV_Decimal128 _) = 3"
| "numeric_discriminant (NSV_TimestampMicros _) = 4"
| "numeric_discriminant (NSV_TimestampNanos _) = 5"
| "numeric_discriminant (NSV_DateDays _) = 6"

definition numeric_kinds_match :: "NumericStatValue \<Rightarrow> NumericStatValue \<Rightarrow> bool" where
  "numeric_kinds_match left right \<longleftrightarrow> numeric_discriminant left = numeric_discriminant right"

definition numeric_bounds_share_kind :: "NumericStatValue option \<Rightarrow> NumericStatValue \<Rightarrow> bool" where
  "numeric_bounds_share_kind bound base =
     (case bound of Some b \<Rightarrow> numeric_kinds_match b base | None \<Rightarrow> True)"

fun compare_numeric :: "NumericStatValue \<Rightarrow> NumericStatValue \<Rightarrow> ordering option" where
  "compare_numeric (NSV_Int64 l) (NSV_Int64 r) = Some (ord_cmp (sint l) (sint r))"
| "compare_numeric (NSV_UInt64 l) (NSV_UInt64 r) = Some (ord_cmp l r)"
| "compare_numeric (NSV_Float64 l) (NSV_Float64 r) = f64_partial_cmp l r"
| "compare_numeric (NSV_Decimal128 l) (NSV_Decimal128 r) = Some (ord_cmp (sint l) (sint r))"
| "compare_numeric (NSV_TimestampMicros l) (NSV_TimestampMicros r) = Some (ord_cmp (sint l) (sint r))"
| "compare_numeric (NSV_TimestampNanos l) (NSV_TimestampNanos r) = Some (ord_cmp (sint l) (sint r))"
| "compare_numeric (NSV_DateDays l) (NSV_DateDays r) = Some (ord_cmp (sint l) (sint r))"
| "compare_numeric _ _ = None"

definition range_satisfies_lower :: "NumericStatValue \<Rightarrow> NumericStatValue \<Rightarrow> bool \<Rightarrow> bool" where
  "range_satisfies_lower zone_min predicate_lower inclusive =
     (case compare_numeric zone_min predicate_lower of
        Some ord \<Rightarrow> ord = Greater \<or> (inclusive \<and> ord = Equal)
      | None \<Rightarrow> False)"

definition range_satisfies_upper :: "NumericStatValue \<Rightarrow> NumericStatValue \<Rightarrow> bool \<Rightarrow> bool" where
  "range_satisfies_upper zone_max predicate_upper inclusive =
     (case compare_numeric zone_max predicate_upper of
        Some ord \<Rightarrow> ord = Less \<or> (inclusive \<and> ord = Equal)
      | None \<Rightarrow> False)"

definition is_strictly_below :: "NumericStatValue \<Rightarrow> NumericStatValue \<Rightarrow> bool \<Rightarrow> bool" where
  "is_strictly_below predicate_upper zone_min upper_inclusive =
     (case compare_numeric predicate_upper zone_min of
        Some ord \<Rightarrow> ord = Less \<or> (\<not> upper_inclusive \<and> ord = Equal)
      | None \<Rightarrow> False)"

definition is_strictly_above :: "NumericStatValue \<Rightarrow> NumericStatValue \<Rightarrow> bool \<Rightarrow> bool" where
  "is_strictly_above predicate_lower zone_max lower_inclusive =
     (case compare_numeric predicate_lower zone_max of
        Some ord \<Rightarrow> ord = Greater \<or> (\<not> lower_inclusive \<and> ord = Equal)
      | None \<Rightarrow> False)"

definition predicate_disjoint_from_zone ::
  "NumericStatValue option \<Rightarrow> bool \<Rightarrow> NumericStatValue option \<Rightarrow> bool \<Rightarrow>
   NumericStatValue \<Rightarrow> NumericStatValue \<Rightarrow> bool" where
  "predicate_disjoint_from_zone lower_bound lower_inclusive upper_bound upper_inclusive zone_min zone_max =
     (if (case upper_bound of
            Some u \<Rightarrow> is_strictly_below u zone_min upper_inclusive | None \<Rightarrow> False) then True
      else case lower_bound of
             Some l \<Rightarrow> is_strictly_above l zone_max lower_inclusive
           | None \<Rightarrow> False)"

definition zone_fully_within_predicate ::
  "NumericStatValue option \<Rightarrow> bool \<Rightarrow> NumericStatValue option \<Rightarrow> bool \<Rightarrow>
   NumericStatValue \<Rightarrow> NumericStatValue \<Rightarrow> bool" where
  "zone_fully_within_predicate lower_bound lower_inclusive upper_bound upper_inclusive zone_min zone_max =
     (let lower_ok = (case lower_bound of
            Some l \<Rightarrow> range_satisfies_lower zone_min l lower_inclusive | None \<Rightarrow> True);
          upper_ok = (case upper_bound of
            Some u \<Rightarrow> range_satisfies_upper zone_max u upper_inclusive | None \<Rightarrow> True)
      in lower_ok \<and> upper_ok)"

definition numeric_bound :: "StatScalar option \<Rightarrow> NumericStatValue option" where
  "numeric_bound s = Option.bind s StatScalar_numeric_value"

definition explain_numcode_range ::
  "NumericStatValue option \<Rightarrow> bool \<Rightarrow> NumericStatValue option \<Rightarrow> bool \<Rightarrow> ZoneStatsEntry option \<Rightarrow>
   PruningExplanation" where
  "explain_numcode_range lower_bound lower_inclusive upper_bound upper_inclusive zone_stats =
     (case zone_stats of
        None \<Rightarrow> single_step PE_NoMetadata Unknown (section_ref ''37.3'')
      | Some zone \<Rightarrow>
      if null_count zone = row_count zone
      then single_step PE_ZoneStats NoMatch (section_ref ''37.3'')
      else if \<not> has_flag zone HAS_MIN_MAX
      then single_step PE_FallbackToScan Unknown (section_ref ''37.3'')
      else if has_flag zone HAS_NAN
      then single_step PE_FallbackToScan Unknown (section_ref ''37.3'')
      else if has_flag zone MINMAX_TRUNCATED
      then single_step PE_FallbackToScan Unknown (section_ref ''37.3'')
      else (case numeric_bound (zs_min (ze_stats zone)) of
        None \<Rightarrow> single_step PE_FallbackToScan Unknown (section_ref ''37.3'')
      | Some zmin \<Rightarrow> (case numeric_bound (zs_max (ze_stats zone)) of
        None \<Rightarrow> single_step PE_FallbackToScan Unknown (section_ref ''37.3'')
      | Some zmax \<Rightarrow>
      if \<not> numeric_bounds_share_kind lower_bound zmin \<or> \<not> numeric_bounds_share_kind upper_bound zmin \<or>
         \<not> numeric_kinds_match zmin zmax
      then single_step PE_FallbackToScan Unknown (section_ref ''37.3'')
      else if predicate_disjoint_from_zone lower_bound lower_inclusive upper_bound upper_inclusive zmin zmax
      then single_step PE_ZoneStats NoMatch (section_ref ''37.3'')
      else if zone_fully_within_predicate lower_bound lower_inclusive upper_bound upper_inclusive zmin zmax \<and>
              null_count zone = 0
      then single_step PE_ZoneStats AllMatch (section_ref ''37.3'')
      else single_step PE_ZoneStats SomeMatch (section_ref ''37.3''))))"

section \<open>Membership indexes\<close>

text \<open>
  An index flagged corrupt or stale (\<open>fail_open\<close>) never decides anything. Of the aggregate
  synopsis and the composite index only the presence is used; their types are parameters.
\<close>

definition explain_bloom_membership ::
  "bytes \<Rightarrow> BloomFilterIndex option \<Rightarrow> bool \<Rightarrow> PruningExplanation" where
  "explain_bloom_membership val index fail_open =
     (case (index, fail_open) of
        (None, _) \<Rightarrow> single_step PE_NoMetadata Unknown (section_ref ''31'')
      | (Some _, True) \<Rightarrow> single_step PE_FallbackToScan Unknown (section_ref ''73'')
      | (Some idx, False) \<Rightarrow>
          if BloomFilterIndex_might_contain idx val
          then single_step PE_BloomFilter SomeMatch (section_ref ''31'')
          else single_step PE_BloomFilter NoMatch (section_ref ''31''))"

text \<open>\<open>entries.binary_search_by_key(&key, |entry| entry.key).is_ok()\<close>\<close>

definition inverted_present :: "InvertedMorselIndex \<Rightarrow> u64 \<Rightarrow> bool" where
  "inverted_present idx key =
     (case binary_search_by_key key ie_key (im_entries idx) of Inl _ \<Rightarrow> True | Inr _ \<Rightarrow> False)"

definition explain_inverted_morsel_lookup ::
  "u64 \<Rightarrow> InvertedMorselIndex option \<Rightarrow> bool \<Rightarrow> PruningExplanation" where
  "explain_inverted_morsel_lookup key index fail_open =
     (case (index, fail_open) of
        (None, _) \<Rightarrow> single_step PE_NoMetadata Unknown (section_ref ''32'')
      | (Some _, True) \<Rightarrow> single_step PE_FallbackToScan Unknown (section_ref ''73'')
      | (Some idx, False) \<Rightarrow>
          if inverted_present idx key
          then single_step PE_InvertedIndex SomeMatch (section_ref ''32'')
          else single_step PE_InvertedIndex NoMatch (section_ref ''32''))"

text \<open>The match arm \<open>Some(rows) if !rows.is_empty()\<close>.\<close>

definition lookup_has_rows :: "LookupIndex \<Rightarrow> u64 \<Rightarrow> bool" where
  "lookup_has_rows idx key =
     (case LookupIndex_rows_for idx key of Some rows \<Rightarrow> rows \<noteq> [] | None \<Rightarrow> False)"

definition explain_lookup_index_point ::
  "u64 \<Rightarrow> LookupIndex option \<Rightarrow> bool \<Rightarrow> PruningExplanation" where
  "explain_lookup_index_point key index fail_open =
     (case (index, fail_open) of
        (None, _) \<Rightarrow> single_step PE_NoMetadata Unknown (section_ref ''33'')
      | (Some _, True) \<Rightarrow> single_step PE_FallbackToScan Unknown (section_ref ''73'')
      | (Some idx, False) \<Rightarrow>
          if lookup_has_rows idx key
          then single_step PE_InvertedIndex SomeMatch (section_ref ''33'')
          else single_step PE_InvertedIndex NoMatch (section_ref ''33''))"

definition explain_aggregate_synopsis ::
  "'aggregate_synopsis option \<Rightarrow> bool \<Rightarrow> bool \<Rightarrow> PruningExplanation" where
  "explain_aggregate_synopsis index fail_open proves_no_match =
     (case (index, fail_open) of
        (None, _) \<Rightarrow> single_step PE_NoMetadata Unknown (section_ref ''34'')
      | (Some _, True) \<Rightarrow> single_step PE_FallbackToScan Unknown (section_ref ''73'')
      | (Some idx, False) \<Rightarrow>
          if proves_no_match
          then single_step PE_AggregateSynopsis NoMatch (section_ref ''34'')
          else single_step PE_AggregateSynopsis SomeMatch (section_ref ''34''))"

definition explain_composite_zone ::
  "'composite_index option \<Rightarrow> bool \<Rightarrow> bool \<Rightarrow> PruningExplanation" where
  "explain_composite_zone index fail_open matches_bindings =
     (case (index, fail_open) of
        (None, _) \<Rightarrow> single_step PE_NoMetadata Unknown (section_ref ''35'')
      | (Some _, True) \<Rightarrow> single_step PE_FallbackToScan Unknown (section_ref ''73'')
      | (Some idx, False) \<Rightarrow>
          if matches_bindings
          then single_step PE_CompositeIndex SomeMatch (section_ref ''35'')
          else single_step PE_CompositeIndex NoMatch (section_ref ''35''))"

section \<open>Soundness\<close>

lemma single_step_simps [simp]:
  "pe_final_outcome (single_step e o' s) = o'" "pe_steps (single_step e o' s) \<noteq> []"
  by (simp_all add: single_step_def explanation_record_def explanation_new_def)

text \<open>The metadata's counts describe the rows; \<open>None\<close> is a null row.\<close>

definition counts_match :: "ZoneStatsEntry \<Rightarrow> 'a option list \<Rightarrow> bool" where
  "counts_match zone rows \<longleftrightarrow>
     length rows = unat (row_count zone) \<and> length (filter (\<lambda>r. r = None) rows) = unat (null_count zone)"

lemma null_only: "counts_match zone rows \<Longrightarrow> null_count zone = row_count zone \<Longrightarrow> r \<in> set rows \<Longrightarrow> r = None"
  using length_filter_less [of r rows "\<lambda>r. r = None"] by (cases r) (auto simp: counts_match_def)

lemma no_nulls: "counts_match zone rows \<Longrightarrow> null_count zone = 0 \<Longrightarrow> r \<in> set rows \<Longrightarrow> r \<noteq> None"
  by (auto simp: counts_match_def filter_empty_conv)

text \<open>Comparing a column with a constant or testing it against a range: UNKNOWN on null rows.\<close>

abbreviation where_rows :: "('a \<Rightarrow> bool) \<Rightarrow> 'a option list \<Rightarrow> bool option list" where
  "where_rows p rows \<equiv> map (map_option p) rows"

lemma sound_NoMatch_where: "sound NoMatch (where_rows p rows) \<longleftrightarrow> (\<forall>x. Some x \<in> set rows \<longrightarrow> \<not> p x)"
proof -
  have "row_ok NoMatch (map_option p r) \<longleftrightarrow> (\<forall>x. r = Some x \<longrightarrow> \<not> p x)" for r by (cases r) simp_all
  then show ?thesis by (simp only: sound_map) blast
qed

lemma sound_AllMatch_where:
  "sound AllMatch (where_rows p rows) \<longleftrightarrow> None \<notin> set rows \<and> (\<forall>x. Some x \<in> set rows \<longrightarrow> p x)"
proof -
  have "row_ok AllMatch (map_option p r) \<longleftrightarrow> r \<noteq> None \<and> (\<forall>x. r = Some x \<longrightarrow> p x)" for r by (cases r) simp_all
  then have "sound AllMatch (where_rows p rows) \<longleftrightarrow> (\<forall>r \<in> set rows. r \<noteq> None \<and> (\<forall>x. r = Some x \<longrightarrow> p x))"
    by (simp only: sound_map)
  also have "\<dots> \<longleftrightarrow> None \<notin> set rows \<and> (\<forall>x. Some x \<in> set rows \<longrightarrow> p x)" by metis
  finally show ?thesis .
qed

lemmas sound_where = sound_NoMatch_where sound_AllMatch_where

lemma null_only_NoMatch:
  "counts_match zone rows \<Longrightarrow> null_count zone = row_count zone \<Longrightarrow> sound NoMatch (where_rows p rows)"
  using null_only by (fastforce simp: sound_NoMatch_where)

lemma is_null_outcome:
  assumes "counts_match zone rows"
  shows "sound (pe_final_outcome (explain_is_null (Some zone))) (map (\<lambda>r. Some (r = None)) rows) \<and>
    sound (pe_final_outcome (explain_is_not_null (Some zone))) (map (\<lambda>r. Some (r \<noteq> None)) rows)"
proof -
  have "\<forall>r \<in> set rows. r = None" if "null_count zone = row_count zone" using null_only [OF assms that] by blast
  moreover have "\<forall>r \<in> set rows. r \<noteq> None" if "null_count zone = 0" using no_nulls [OF assms that] by blast
  ultimately show ?thesis
    unfolding explain_is_null_def explain_is_not_null_def sound_map
    by (cases "null_count zone = 0"; cases "null_count zone = row_count zone") simp_all
qed

text \<open>What the domain and the rank bounds of a zone say of its rows.\<close>

definition ranks_match :: "ColumnDomain \<Rightarrow> ZoneStatsEntry option \<Rightarrow> u32 option list \<Rightarrow> bool" where
  "ranks_match domain zone_stats rows \<longleftrightarrow>
     (\<forall>c. Some c \<in> set rows \<longrightarrow> (\<exists>r. ColumnDomain_rank_of domain c = Some r \<and>
        (\<forall>zone. zone_stats = Some zone \<and> has_flag zone HAS_DOMAIN_RANGE \<longrightarrow>
           ze_min_domain_rank zone \<le> r \<and> r \<le> ze_max_domain_rank zone)))"

lemma domain_stage_sound:
  assumes e: "equality_domain_stage code zone_stats (Some domain) = Some e"
    and d: "domain_bounded domain" "ColumnDomain_is_safe domain"
    and r: "ranks_match domain zone_stats rows"
    and c: "\<And>zone. zone_stats = Some zone \<Longrightarrow> counts_match zone rows"
  shows "sound (pe_final_outcome e) (where_rows (\<lambda>c. c = code) rows)"
proof (cases "ColumnDomain_rank_of domain code")
  case None
  then have "pe_final_outcome e = NoMatch" using e by (auto simp: equality_domain_stage_def)
  moreover have "Some code \<notin> set rows" using r None by (auto simp: ranks_match_def)
  ultimately show ?thesis by (auto simp: sound_where)
next
  case (Some rank)
  then obtain zone where z: "zone_stats = Some zone" using e by (auto simp: equality_domain_stage_def split: option.splits)
  then have f: "has_flag zone HAS_DOMAIN_RANGE" using e Some
    by (auto simp: equality_domain_stage_def split: if_splits)
  have bounds: "\<exists>r. ColumnDomain_rank_of domain c = Some r \<and> ze_min_domain_rank zone \<le> r \<and> r \<le> ze_max_domain_rank zone"
    if "Some c \<in> set rows" for c using r that z f by (auto simp: ranks_match_def)
  show ?thesis
  proof (cases "rank < ze_min_domain_rank zone \<or> rank > ze_max_domain_rank zone")
    case True
    then have "pe_final_outcome e = NoMatch" using e Some z f by (auto simp: equality_domain_stage_def)
    moreover have "Some code \<notin> set rows" using bounds [of code] Some True by (auto simp: not_le)
    ultimately show ?thesis by (auto simp: sound_where)
  next
    case False
    then have a: "pe_final_outcome e = AllMatch" "ze_min_domain_rank zone = rank" "ze_max_domain_rank zone = rank"
      "null_count zone = 0" using e Some z f by (auto simp: equality_domain_stage_def split: if_splits)
    have "c = code" if "Some c \<in> set rows" for c
      using bounds [OF that] a safe_rank_inject [OF d, of c rank code] Some by auto
    moreover have "None \<notin> set rows" using no_nulls [OF c [OF z] a(4)] by blast
    ultimately show ?thesis using a(1) by (auto simp: sound_where)
  qed
qed

lemma overlap_stage_no_claim: "equality_overlap_stage code z d = Some e \<Longrightarrow> pe_final_outcome e = SomeMatch"
  by (auto simp: equality_overlap_stage_def split: option.splits if_splits)

text \<open>A negative answer of a membership index is a proof that no row has the key.\<close>

context membership begin

lemma sound_no_match:
  "wf ix \<Longrightarrow> {k. Some k \<in> set rows} \<subseteq> keys ix \<Longrightarrow> \<not> member ix k \<Longrightarrow>
     sound NoMatch (where_rows (\<lambda>x. x = k) rows)"
  using no_false_negative by (auto simp: sound_NoMatch_where)

lemma sound_decision:
  "wf ix \<Longrightarrow> {k. Some k \<in> set rows} \<subseteq> keys ix \<Longrightarrow>
     sound (if member ix k then SomeMatch else NoMatch) (where_rows (\<lambda>x. x = k) rows)"
  using sound_no_match by simp

end

interpretation inverted: exact_membership inverted_present "\<lambda>ix. ie_key ` set (im_entries ix)" inverted_wf
proof
  fix ix k assume "inverted_wf ix"
  then have iff: "inverted_present ix k \<longleftrightarrow> k \<in> ie_key ` set (im_entries ix)"
    using binary_search_found_iff [of ie_key "im_entries ix" k]
    by (auto simp: inverted_present_def inverted_wf_def split: sum.splits)
  show "k \<in> ie_key ` set (im_entries ix) \<Longrightarrow> inverted_present ix k"
    "inverted_present ix k \<Longrightarrow> k \<in> ie_key ` set (im_entries ix)" using iff by blast+
qed

text \<open>The keys of a lookup index that have at least one row.\<close>

definition lookup_keys :: "LookupIndex \<Rightarrow> u64 set" where
  "lookup_keys ix = {k. \<exists>rows. lookup_map ix k = Some rows \<and> rows \<noteq> []}"

interpretation lookup_rows: exact_membership lookup_has_rows lookup_keys lookup_wf
  by unfold_locales (auto simp: lookup_has_rows_def lookup_keys_def rows_for_eq_map split: option.splits)

lemma exact_set_stage_sound:
  assumes "exact_set_membership (Some ix) code = Some contains" and "exact_set_wf ix"
    and "\<And>c. Some c \<in> set rows \<Longrightarrow> ucast c \<in> set (es_keys ix)"
  shows "sound (if contains then SomeMatch else NoMatch) (where_rows (\<lambda>c. c = code) rows)"
proof -
  from assms(1) have "contains = ExactSetIndex_contains ix (ucast code)"
    by (auto simp: exact_set_membership_def split: if_splits)
  with exact_set.absent [OF assms(2), of "ucast code"] assms(3) show ?thesis
    by (auto simp: sound_NoMatch_where)
qed

section \<open>Numeric values as integers\<close>

text \<open>
  The reference order: every value but a NaN denotes an integer key, and values of one kind are
  ordered by it.
\<close>

primrec numeric_key :: "NumericStatValue \<Rightarrow> int" where
  "numeric_key (NSV_Int64 v) = sint v"
| "numeric_key (NSV_UInt64 v) = uint v"
| "numeric_key (NSV_Float64 v) = f64_key v"
| "numeric_key (NSV_Decimal128 v) = sint v"
| "numeric_key (NSV_TimestampMicros v) = sint v"
| "numeric_key (NSV_TimestampNanos v) = sint v"
| "numeric_key (NSV_DateDays v) = sint v"

definition is_nan :: "NumericStatValue \<Rightarrow> bool" where
  "is_nan v \<longleftrightarrow> (case v of NSV_Float64 bits \<Rightarrow> f64_is_nan bits | _ \<Rightarrow> False)"

lemma compare_numeric_key:
  "compare_numeric a b =
     (if numeric_kinds_match a b \<and> \<not> is_nan a \<and> \<not> is_nan b
      then Some (ord_cmp (numeric_key a) (numeric_key b)) else None)"
  by (cases a; cases b)
    (simp_all add: numeric_kinds_match_def is_nan_def f64_partial_cmp_def ord_cmp_def word_less_def word_uint_eq_iff)

lemma numeric_bound_not_nan: "numeric_bound s = Some v \<Longrightarrow> \<not> is_nan v"
  by (cases s)
    (auto simp: numeric_bound_def StatScalar_numeric_value_def is_nan_def split: StatKind.splits option.splits if_splits)

definition above_lower :: "NumericStatValue option \<Rightarrow> bool \<Rightarrow> int \<Rightarrow> bool" where
  "above_lower bound inclusive k \<longleftrightarrow>
     (case bound of Some l \<Rightarrow> numeric_key l < k \<or> (inclusive \<and> numeric_key l = k) | None \<Rightarrow> True)"

definition below_upper :: "NumericStatValue option \<Rightarrow> bool \<Rightarrow> int \<Rightarrow> bool" where
  "below_upper bound inclusive k \<longleftrightarrow>
     (case bound of Some u \<Rightarrow> k < numeric_key u \<or> (inclusive \<and> k = numeric_key u) | None \<Rightarrow> True)"

definition in_range :: "NumericStatValue option \<Rightarrow> bool \<Rightarrow> NumericStatValue option \<Rightarrow> bool \<Rightarrow> NumericStatValue \<Rightarrow> bool" where
  "in_range lower li upper ui v \<longleftrightarrow>
     above_lower lower li (numeric_key v) \<and> below_upper upper ui (numeric_key v)"

lemma disjoint_zone:
  assumes "predicate_disjoint_from_zone lower li upper ui zmin zmax"
    and "numeric_key zmin \<le> k" and "k \<le> numeric_key zmax"
  shows "\<not> (above_lower lower li k \<and> below_upper upper ui k)"
  using assms
  by (auto simp: predicate_disjoint_from_zone_def is_strictly_below_def is_strictly_above_def above_lower_def
      below_upper_def compare_numeric_key split: option.splits if_splits)

lemma within_zone:
  assumes "zone_fully_within_predicate lower li upper ui zmin zmax"
    and "numeric_key zmin \<le> k" and "k \<le> numeric_key zmax"
  shows "above_lower lower li k \<and> below_upper upper ui k"
  using assms
  by (auto simp: zone_fully_within_predicate_def range_satisfies_lower_def range_satisfies_upper_def above_lower_def
      below_upper_def compare_numeric_key Let_def split: option.splits if_splits)

text \<open>What untruncated bounds without NaN rows say of the rows.\<close>

definition bounds_match :: "ZoneStatsEntry \<Rightarrow> NumericStatValue option list \<Rightarrow> bool" where
  "bounds_match zone rows \<longleftrightarrow>
     (has_flag zone HAS_MIN_MAX \<and> \<not> has_flag zone HAS_NAN \<and> \<not> has_flag zone MINMAX_TRUNCATED \<longrightarrow>
      (\<forall>v zmin zmax. Some v \<in> set rows \<and> numeric_bound (zs_min (ze_stats zone)) = Some zmin \<and>
          numeric_bound (zs_max (ze_stats zone)) = Some zmax \<longrightarrow>
        numeric_key zmin \<le> numeric_key v \<and> numeric_key v \<le> numeric_key zmax))"

lemma numcode_range_outcome:
  assumes c: "counts_match zone rows" and b: "bounds_match zone rows"
  shows "sound (pe_final_outcome (explain_numcode_range lower li upper ui (Some zone)))
    (where_rows (in_range lower li upper ui) rows)"
proof (cases "null_count zone = row_count zone")
  case True
  then show ?thesis using null_only_NoMatch [OF c True] by (simp add: explain_numcode_range_def)
next
  case False
  show ?thesis
  proof (cases "has_flag zone HAS_MIN_MAX \<and> \<not> has_flag zone HAS_NAN \<and> \<not> has_flag zone MINMAX_TRUNCATED")
    case True
    show ?thesis
    proof (cases "numeric_bound (zs_min (ze_stats zone))"; cases "numeric_bound (zs_max (ze_stats zone))")
      fix zmin zmax
      assume z: "numeric_bound (zs_min (ze_stats zone)) = Some zmin" "numeric_bound (zs_max (ze_stats zone)) = Some zmax"
      have k: "numeric_key zmin \<le> numeric_key v \<and> numeric_key v \<le> numeric_key zmax" if "Some v \<in> set rows" for v
        using b True z that by (auto simp: bounds_match_def)
      have "sound NoMatch (where_rows (in_range lower li upper ui) rows)"
        if "predicate_disjoint_from_zone lower li upper ui zmin zmax"
        using disjoint_zone [OF that] k by (fastforce simp: sound_where in_range_def)
      moreover have "sound AllMatch (where_rows (in_range lower li upper ui) rows)"
        if "zone_fully_within_predicate lower li upper ui zmin zmax" "null_count zone = 0"
        using within_zone [OF that(1)] k no_nulls [OF c that(2)] by (fastforce simp: sound_where in_range_def)
      ultimately show ?thesis using False True z by (simp add: explain_numcode_range_def)
    qed (use False True in \<open>simp_all add: explain_numcode_range_def\<close>)
  qed (use False in \<open>auto simp: explain_numcode_range_def\<close>)
qed

section \<open>Properties\<close>

text \<open>Recording a sequence of evidence one step after the other.\<close>

primrec record_all ::
  "PruningExplanation \<Rightarrow> (PruningEvidence \<times> PredicateZoneOutcome \<times> string) list \<Rightarrow> PruningExplanation" where
  "record_all x [] = x"
| "record_all x (s # ss) = record_all (explanation_record x (fst s) (fst (snd s)) (snd (snd s))) ss"

abbreviation recorded :: "(PruningEvidence \<times> PredicateZoneOutcome \<times> string) list \<Rightarrow> PruningExplanation" where
  "recorded ss \<equiv> record_all explanation_new ss"

lemma record_all_append: "record_all x (ss @ ts) = record_all (record_all x ss) ts"
  by (induction ss arbitrary: x) simp_all

lemma record_steps: "pe_steps (explanation_record x e o' s) \<noteq> []"
  by (simp add: explanation_record_def)

lemma record_all_steps: "pe_steps x \<noteq> [] \<Longrightarrow> pe_steps (record_all x ss) \<noteq> []"
  by (induction ss arbitrary: x) (simp_all add: record_steps)

lemma record_as_and: "explanation_record x e o' s = explanation_and x (single_step e o' s)"
  by (cases x) (simp add: explanation_and_def explanation_record_def single_step_def explanation_new_def)

lemma and_new [simp]: "explanation_and x explanation_new = x" "explanation_and explanation_new x = x"
  if "pe_steps x \<noteq> []"
  using that by (simp_all add: explanation_and_def explanation_new_def)

lemma explanation_and_assoc:
  assumes "pe_steps x \<noteq> []" and "pe_steps y \<noteq> []" and "pe_steps z \<noteq> []"
  shows "explanation_and (explanation_and x y) z = explanation_and x (explanation_and y z)"
  using assms by (simp add: explanation_and_def conj.comb_assoc)

lemma record_all_and:
  "pe_steps x \<noteq> [] \<Longrightarrow> ts \<noteq> [] \<Longrightarrow> record_all x ts = explanation_and x (recorded ts)"
proof (induction ts arbitrary: x)
  case (Cons t ts)
  let ?s = "single_step (fst t) (fst (snd t)) (snd (snd t))"
  have s: "explanation_record explanation_new (fst t) (fst (snd t)) (snd (snd t)) = ?s" by (simp add: single_step_def)
  have x: "pe_steps (explanation_and x ?s) \<noteq> []" using Cons.prems by (simp add: explanation_and_def)
  show ?case
  proof (cases "ts = []")
    case True
    then show ?thesis by (simp add: record_as_and [of x] s)
  next
    case False
    have "record_all x (t # ts) = explanation_and (explanation_and x ?s) (recorded ts)"
      using Cons.IH [OF x False] by (simp add: record_as_and [of x])
    also have "\<dots> = explanation_and x (explanation_and ?s (recorded ts))"
      using Cons.prems False
      by (intro explanation_and_assoc) (cases ts; simp add: record_all_steps record_steps)+
    also have "explanation_and ?s (recorded ts) = recorded (t # ts)"
      using Cons.IH [of ?s] False by (simp add: s)
    finally show ?thesis .
  qed
qed simp

text \<open>conjoining two explanations is recording the evidence of both in order: \<open>and\<close> of the
  explanations recorded from two lists of steps is the explanation recorded from the appended
  list, and when every step is sound for its predicate on a zone, so is the final outcome for the
  conjunction of all the predicates.\<close>

theorem explanation_and_records:
  assumes "ss \<noteq> []" and "ts \<noteq> []"
    and "list_all2 sound (map (\<lambda>s. fst (snd s)) (ss @ ts)) rss" and "\<forall>rs \<in> set rss. length rs = n"
  shows "explanation_and (recorded ss) (recorded ts) = recorded (ss @ ts) \<and>
    map ps_outcome (pe_steps (recorded (ss @ ts))) = map (\<lambda>s. fst (snd s)) (ss @ ts) \<and>
    sound (pe_final_outcome (recorded (ss @ ts))) (foldl (map2 and3) (hd rss) (tl rss))"
proof -
  have steps: "map ps_outcome (pe_steps (record_all x us)) = map ps_outcome (pe_steps x) @ map (\<lambda>s. fst (snd s)) us"
    for x us by (induction us arbitrary: x) (simp_all add: explanation_record_def)
  have final: "pe_steps x \<noteq> [] \<Longrightarrow> pe_final_outcome (record_all x us) =
      foldl outcome_and (pe_final_outcome x) (map (\<lambda>s. fst (snd s)) us)" for x us
    by (induction us arbitrary: x) (simp_all add: explanation_record_def)
  obtain u us where u: "ss @ ts = u # us" using assms(1) by (cases ss) auto
  with assms(3) obtain rs rss' where rss: "rss = rs # rss'" "sound (fst (snd u)) rs"
    "list_all2 sound (map (\<lambda>s. fst (snd s)) us) rss'" by (auto simp: list_all2_Cons1)
  have "sound (foldl outcome_and (fst (snd u)) (map (\<lambda>s. fst (snd s)) us)) (foldl (map2 and3) rs rss')"
    using conj.fold_sound [OF rss(3) _ rss(2)] assms(4) rss(1) by simp
  moreover have "pe_final_outcome (recorded (ss @ ts)) =
      foldl outcome_and (fst (snd u)) (map (\<lambda>s. fst (snd s)) us)"
    using final [OF record_steps, of explanation_new "fst u" "fst (snd u)" "snd (snd u)" us]
    by (simp add: u explanation_record_def explanation_new_def)
  moreover have "explanation_and (recorded ss) (recorded ts) = recorded (ss @ ts)"
    using record_all_and [of "recorded ss" ts] assms(1,2)
    by (cases ss) (simp_all add: record_all_append record_all_steps record_steps)
  ultimately show ?thesis using rss(1) steps [of explanation_new "ss @ ts"] by (simp add: explanation_new_def)
qed

lemma explanation_and_records_witness:
  "pe_final_outcome (explanation_and (recorded [(PE_ZoneStats, AllMatch, [])]) (recorded [(PE_ExactSet, NoMatch, [])])) = NoMatch"
  using explanation_and_records [of "[(PE_ZoneStats, AllMatch, [])]" "[(PE_ExactSet, NoMatch, [])]"
      "[[Some True], [Some False]]" 1]
  by (simp add: explanation_record_def explanation_new_def)

text \<open>the null tests are sound for every zone whose counts are right, null-only and empty zones
  included.\<close>

theorem null_tests_sound:
  assumes "counts_match zone rows"
  shows "sound (pe_final_outcome (explain_is_null (Some zone))) (map (\<lambda>r. Some (r = None)) rows) \<and>
    sound (pe_final_outcome (explain_is_not_null (Some zone))) (map (\<lambda>r. Some (r \<noteq> None)) rows)"
  using assms by (rule is_null_outcome)

lemma null_tests_sound_witness:
  "pe_final_outcome (explain_is_null (Some sample_zone)) = SomeMatch \<and>
   sound (pe_final_outcome (explain_is_null (Some sample_zone)))
     (map (\<lambda>r. Some (r = None)) (replicate 3 None @ replicate 7 (Some ())))"
  using null_tests_sound [of sample_zone "replicate 3 None @ replicate 7 (Some ())"]
  by (simp add: counts_match_def row_count_def null_count_def sample_zone_def explain_is_null_def
      word_less_nat_alt)

text \<open>C1: FileCode equality is sound. For any zone statistics, column domain and exact set, each
  optional, that describe the rows (right counts; when the domain is safe, every row's code ranked
  within the zone's bounds; every row's code among the keys of the sorted exact set), whatever
  branch decides, NoMatch means that no row holds the code and AllMatch that every row does.\<close>

theorem file_code_equality_sound:
  assumes "\<forall>zone. zone_stats = Some zone \<longrightarrow> counts_match zone rows"
    and "\<forall>d. domain = Some d \<and> ColumnDomain_is_safe d \<longrightarrow> domain_bounded d \<and> ranks_match d zone_stats rows"
    and "\<forall>ix. exact_set = Some ix \<longrightarrow> exact_set_wf ix \<and> (\<forall>c. Some c \<in> set rows \<longrightarrow> ucast c \<in> set (es_keys ix))"
  shows "sound (pe_final_outcome (explain_file_code_equality code zone_stats domain exact_set))
    (where_rows (\<lambda>c. c = code) rows)"
proof (cases "\<exists>zone. zone_stats = Some zone \<and> null_count zone = row_count zone")
  case True
  then obtain zone where z: "zone_stats = Some zone" "null_count zone = row_count zone" by blast
  with assms(1) have "counts_match zone rows" by blast
  from null_only_NoMatch [OF this z(2)] z show ?thesis by (simp add: explain_file_code_equality_def)
next
  case False
  then have guard: "\<not> (case zone_stats of Some zone \<Rightarrow> null_count zone = row_count zone | None \<Rightarrow> False)"
    by (simp split: option.split)
  let ?sd = "usable_domain domain"
  have stage1: "sound (pe_final_outcome e) (where_rows (\<lambda>c. c = code) rows)"
    if "equality_domain_stage code zone_stats ?sd = Some e" for e
  proof -
    from that obtain d where d: "?sd = Some d" by (cases ?sd) (auto simp: equality_domain_stage_def)
    then have "domain = Some d" "ColumnDomain_is_safe d"
      by (auto simp: usable_domain_def split: option.splits if_splits)
    with assms(2) that d domain_stage_sound [of code zone_stats d e rows] assms(1) show ?thesis by auto
  qed
  have stage2: "sound (if contains then SomeMatch else NoMatch) (where_rows (\<lambda>c. c = code) rows)"
    if m: "exact_set_membership exact_set code = Some contains" for contains
  proof -
    from m obtain ix where ix: "exact_set = Some ix" by (cases exact_set) (auto simp: exact_set_membership_def)
    from m assms(3) show ?thesis unfolding ix by (intro exact_set_stage_sound) auto
  qed
  show ?thesis
    using guard stage1 stage2 overlap_stage_no_claim [of code zone_stats ?sd]
    by (simp add: explain_file_code_equality_def Let_def split: option.split)
qed

definition sample_domain :: ColumnDomain where
  "sample_domain = \<lparr>cd_header = sample_domain_header, cd_sorted_file_codes = [1, 3],
     cd_file_code_to_rank = [0xFFFFFFFF, 0, 0xFFFFFFFF, 1]\<rparr>"

lemma sample_domain_ranks:
  "ColumnDomain_rank_of sample_domain 1 = Some 0" "ColumnDomain_rank_of sample_domain 2 = None"
  "ColumnDomain_rank_of sample_domain 3 = Some 1" "domain_bounded sample_domain"
  by (simp_all add: sample_domain_def ColumnDomain_rank_of_def INVALID_RANK_def domain_bounded_def)

lemma file_code_equality_sound_witness:
  "sound (pe_final_outcome (explain_file_code_equality 2 None (Some sample_domain) None))
     (where_rows (\<lambda>c. c = 2) [Some 1, None, Some (3 :: u32)])"
proof (rule file_code_equality_sound)
  show "\<forall>d. Some sample_domain = Some d \<and> ColumnDomain_is_safe d \<longrightarrow>
      domain_bounded d \<and> ranks_match d None [Some 1, None, Some 3]"
    using sample_domain_ranks by (auto simp: ranks_match_def)
qed simp_all

text \<open>The rank predicate a resolved range stands for.\<close>

definition rank_in :: "ColumnDomain \<Rightarrow> u32 \<Rightarrow> u32 \<Rightarrow> u32 \<Rightarrow> bool" where
  "rank_in d lo hi c \<longleftrightarrow> (case ColumnDomain_rank_of d c of Some r \<Rightarrow> lo \<le> r \<and> r \<le> hi | None \<Rightarrow> False)"

text \<open>C11: rank-range pruning is sound: for every domain whose ranks describe the rows of the zone,
  NoMatch and AllMatch are true of the predicate "the rank of the row's code lies in the
  interval", for empty, disjoint, overlapping and containing intervals.\<close>

theorem rank_range_sound:
  assumes "counts_match zone rows" and "ranks_match domain (Some zone) rows"
  shows "sound (pe_final_outcome (explain_resolved_domain_rank_range lo hi (Some zone) (Some domain)))
    (where_rows (rank_in domain lo hi) rows)"
proof -
  have bounds: "\<exists>r. ColumnDomain_rank_of domain c = Some r \<and>
      (has_flag zone HAS_DOMAIN_RANGE \<longrightarrow> ze_min_domain_rank zone \<le> r \<and> r \<le> ze_max_domain_rank zone)"
    if "Some c \<in> set rows" for c using assms(2) that by (auto simp: ranks_match_def)
  have empty: "sound NoMatch (where_rows (rank_in domain lo hi) rows)" if "hi < lo"
    using that by (auto simp: sound_where rank_in_def split: option.splits)
  have disjoint: "sound NoMatch (where_rows (rank_in domain lo hi) rows)"
    if "has_flag zone HAS_DOMAIN_RANGE" "ze_max_domain_rank zone < lo \<or> hi < ze_min_domain_rank zone"
    unfolding sound_where
  proof (intro allI impI)
    fix c assume "Some c \<in> set rows"
    from bounds [OF this] that show "\<not> rank_in domain lo hi c" by (auto simp: rank_in_def)
  qed
  have within: "sound AllMatch (where_rows (rank_in domain lo hi) rows)"
    if "has_flag zone HAS_DOMAIN_RANGE" "lo \<le> ze_min_domain_rank zone" "ze_max_domain_rank zone \<le> hi"
      "null_count zone = 0"
    unfolding sound_where
  proof (intro conjI allI impI)
    show "None \<notin> set rows" using no_nulls [OF assms(1) that(4)] by blast
    fix c assume "Some c \<in> set rows"
    from bounds [OF this] that show "rank_in domain lo hi c" by (auto simp: rank_in_def)
  qed
  show ?thesis using empty disjoint within null_only_NoMatch [OF assms(1)]
    by (simp add: explain_resolved_domain_rank_range_def split: option.split)
qed

lemma rank_range_sound_witness:
  "sound (pe_final_outcome (explain_resolved_domain_rank_range 1 1 (Some sample_zone) (Some sample_domain)))
     (where_rows (rank_in sample_domain 1 1) (replicate 3 None @ replicate 7 (Some 3)))"
proof (rule rank_range_sound)
  show "counts_match sample_zone (replicate 3 None @ replicate 7 (Some 3))"
    by (simp add: counts_match_def row_count_def null_count_def sample_zone_def)
  show "ranks_match sample_domain (Some sample_zone) (replicate 3 None @ replicate 7 (Some 3))"
    using sample_domain_ranks
    by (simp add: ranks_match_def has_flag_def flags_contain_def HAS_DOMAIN_RANGE_def sample_zone_def)
qed

text \<open>C2: numeric range pruning is sound for every kind of bound, inclusive or not, on either side:
  with counts and minimum/maximum that describe the rows, NoMatch and AllMatch are true of the
  predicate read over the integer (for floats: sign-magnitude) order of the values. The branches
  for NaN, truncated bounds and mismatched kinds claim nothing.\<close>

theorem numcode_range_sound:
  assumes "counts_match zone rows" and "bounds_match zone rows"
  shows "sound (pe_final_outcome (explain_numcode_range lower li upper ui (Some zone)))
    (where_rows (in_range lower li upper ui) rows)"
  using assms by (rule numcode_range_outcome)

lemma numcode_range_sound_witness:
  "sound (pe_final_outcome (explain_numcode_range (Some (NSV_Int64 9)) False None False (Some sample_zone)))
     (where_rows (in_range (Some (NSV_Int64 9)) False None False) (replicate 3 None @ replicate 7 (Some (NSV_Int64 7))))"
proof (rule numcode_range_sound)
  show "counts_match sample_zone (replicate 3 None @ replicate 7 (Some (NSV_Int64 7)))"
    by (simp add: counts_match_def row_count_def null_count_def sample_zone_def)
  have "numeric_bound (zs_min (ze_stats sample_zone)) = Some (NSV_Int64 5)"
    "numeric_bound (zs_max (ze_stats sample_zone)) = Some (NSV_Int64 9)"
    by (simp_all add: sample_zone_def numeric_bound_def StatScalar_numeric_value_def decode_i64_exact_def
        from_le_le_bytes)
  then show "bounds_match sample_zone (replicate 3 None @ replicate 7 (Some (NSV_Int64 7)))"
    by (simp add: bounds_match_def)
qed

text \<open>C12: the membership indexes are sound to prune with. A Bloom filter holding the zone's values, a
  well-formed inverted index listing the zone's keys and a lookup index with a row for each of
  them never prove a present key absent; an index flagged stale or corrupt claims nothing.\<close>

theorem membership_pruning_sound:
  assumes "bf_bits f \<noteq> []" and "{k. Some k \<in> set vals} \<subseteq> set vs"
    and "inverted_wf im" and "{k. Some k \<in> set rows} \<subseteq> ie_key ` set (im_entries im)"
    and "lookup_wf ix" and "{k. Some k \<in> set rows} \<subseteq> lookup_keys ix"
  shows "sound (pe_final_outcome (explain_bloom_membership v (Some (foldl BloomFilterIndex_insert f vs)) stale))
      (where_rows (\<lambda>x. x = v) vals) \<and>
    sound (pe_final_outcome (explain_inverted_morsel_lookup k (Some im) stale)) (where_rows (\<lambda>x. x = k) rows) \<and>
    sound (pe_final_outcome (explain_lookup_index_point k (Some ix) stale)) (where_rows (\<lambda>x. x = k) rows)"
proof (intro conjI)
  show "sound (pe_final_outcome (explain_bloom_membership v (Some (foldl BloomFilterIndex_insert f vs)) stale))
      (where_rows (\<lambda>x. x = v) vals)"
    using bloom.sound_decision [of "(f, vs)" vals v] assms(1,2)
    by (simp add: explain_bloom_membership_def split: if_splits bool.split)
  show "sound (pe_final_outcome (explain_inverted_morsel_lookup k (Some im) stale)) (where_rows (\<lambda>x. x = k) rows)"
    using inverted.sound_decision [of im rows k] assms(3,4)
    by (simp add: explain_inverted_morsel_lookup_def split: if_splits bool.split)
  show "sound (pe_final_outcome (explain_lookup_index_point k (Some ix) stale)) (where_rows (\<lambda>x. x = k) rows)"
    using lookup_rows.sound_decision [of ix rows k] assms(5,6)
    by (simp add: explain_lookup_index_point_def split: if_splits bool.split)
qed

lemma membership_pruning_sound_witness:
  "sound (pe_final_outcome (explain_inverted_morsel_lookup 6 (Some sample_inverted) False))
     (where_rows (\<lambda>x. x = 6) [None, Some (5 :: u64)]) \<and> \<not> inverted_present sample_inverted 6"
proof -
  have "5 \<in> lookup_keys sample_lookup"
    by (simp add: lookup_keys_def lookup_map_def sample_lookup_def)
  moreover have "5 \<in> ie_key ` set (im_entries sample_inverted)" "\<not> inverted_present sample_inverted 6"
    using inverted.member_iff [OF sample_inverted_wf(1), of 6] by (auto simp: sample_inverted_def)
  moreover have "bf_bits (sample_bloom 7 32) \<noteq> []" by (simp add: sample_bloom_def)
  ultimately show ?thesis
    using membership_pruning_sound [where f = "sample_bloom 7 32" and vals = "[]" and vs = "[]" and im = sample_inverted
        and rows = "[None, Some 5]" and ix = sample_lookup and k = 6 and stale = False]
      sample_inverted_wf(1) sample_lookup_wf(1) by auto
qed

text \<open>C27: for an exact set in one of the two representations the parser does not expand, the key list
  is empty and the pruner reports every FileCode absent, although the specification lets these
  representations be used: the outcome is unsound on any zone that has a row with the code.\<close>

theorem bitset_exact_set_unsound:
  assumes "ExactSetIndex_parse crc bs = Ok ix" and "esh_representation (es_header ix) \<noteq> ESR_SortedList"
    and "esh_key_kind (es_header ix) = ESK_FileCode"
  shows "pe_final_outcome (explain_file_code_equality code None None (Some ix)) = NoMatch \<and>
    \<not> sound (pe_final_outcome (explain_file_code_equality code None None (Some ix)))
        (where_rows (\<lambda>c. c = code) [Some code])"
proof -
  have "es_keys ix = []" using exact_set_parse_parsed [OF assms(1)] assms(2) by (simp add: exact_set_parsed_def)
  then have "\<not> ExactSetIndex_contains ix (ucast code)"
    by (simp add: ExactSetIndex_contains_def binary_search_by_key_def binary_search_by_def)
  then have "pe_final_outcome (explain_file_code_equality code None None (Some ix)) = NoMatch"
    using assms(3) by (simp add: explain_file_code_equality_def usable_domain_def equality_domain_stage_def
        exact_set_membership_def)
  then show ?thesis by simp
qed

definition sample_bitset :: ExactSetIndex where
  "sample_bitset = \<lparr>es_header = (sample_exact_header ESR_Bitset 1)\<lparr>esh_data_length := 1\<rparr>, es_keys = [], es_data = [1]\<rparr>"

lemma bitset_exact_set_unsound_witness:
  "\<exists>ix. ExactSetIndex_parse (\<lambda>_. 0) (ExactSetIndex_serialize (\<lambda>_. 0) sample_bitset) = Ok ix \<and>
     pe_final_outcome (explain_file_code_equality 0 None None (Some ix)) = NoMatch"
proof -
  let ?h = "es_header sample_bitset"
  have h: "ExactSetIndex_canonical_header sample_bitset = ?h"
    by (simp add: ExactSetIndex_canonical_header_def sample_bitset_def sample_exact_header_def EXACT_SET_HEADER_LEN_def)
  have "ExactSetIndexHeaderV1_parse (\<lambda>_. 0) (ExactSetIndex_serialize (\<lambda>_. 0) sample_bitset) =
      Ok (?h\<lparr>esh_checksum := 0\<rparr>)"
    using ExactSetIndexHeaderV1_roundtrip [of "\<lambda>_. 0" ?h "[1]"]
    by (simp add: ExactSetIndex_serialize_def h) (simp add: sample_bitset_def)
  moreover have "checked_region (ExactSetIndex_serialize (\<lambda>_. 0) sample_bitset) 36 1 = Ok [1]"
    by (simp add: checked_region_Ok ExactSetIndex_serialize_def h)
      (simp add: sample_bitset_def wire_simps)
  ultimately obtain ix where ix: "ExactSetIndex_parse (\<lambda>_. 0) (ExactSetIndex_serialize (\<lambda>_. 0) sample_bitset) = Ok ix"
    and k: "esh_representation (es_header ix) = ESR_Bitset" "esh_key_kind (es_header ix) = ESK_FileCode"
    by (simp add: ExactSetIndex_parse_def sample_bitset_def sample_exact_header_def)
  from bitset_exact_set_unsound [OF ix, of 0] ix k show ?thesis by auto
qed

text \<open>C28: \<open>is_safe\<close> checks that every rank points back to its code but not that every present code has
  a rank: a domain whose sorted codes contain 0 and whose rank map is empty is accepted by the
  parser and by \<open>validate\<close>, and the pruner then reports the present code 0 as absent.\<close>

theorem incomplete_domain_unsound:
  "\<exists>bs d. ColumnDomain_parse (\<lambda>_. 0) bs = Ok d \<and> ColumnDomain_validate d = Ok () \<and>
     0 \<in> set (cd_sorted_file_codes d) \<and>
     pe_final_outcome (explain_file_code_equality 0 None (Some d) None) = NoMatch"
proof -
  let ?d = "\<lparr>cd_header = sample_domain_header, cd_sorted_file_codes = [0], cd_file_code_to_rank = []\<rparr>"
  have "domain_wf ?d" by (simp add: domain_wf_def)
  from domain_roundtrip [OF this, of "\<lambda>_. 0"] obtain bs h where
    "ColumnDomain_parse (\<lambda>_. 0) bs = Ok (?d\<lparr>cd_header := h\<rparr>)" by blast
  moreover have "ColumnDomain_validate (?d\<lparr>cd_header := h\<rparr>) = Ok ()"
    and safe: "ColumnDomain_is_safe (?d\<lparr>cd_header := h\<rparr>)"
    by (simp_all add: ColumnDomain_validate_def ColumnDomain_is_safe_def)
  moreover have "pe_final_outcome (explain_file_code_equality 0 None (Some (?d\<lparr>cd_header := h\<rparr>)) None) = NoMatch"
    using safe by (simp add: explain_file_code_equality_def usable_domain_def equality_domain_stage_def
        ColumnDomain_rank_of_def)
  ultimately show ?thesis by (intro exI [of _ bs] exI [of _ "?d\<lparr>cd_header := h\<rparr>"]) simp
qed

end
