(* ===== verification/Crc_Record.thy ===== *)
theory Crc_Record
  imports Index_Common
begin

text \<open>
  The bounds-checked readers and the checksum test that the crates above \<open>cove-core\<close> share
  (\<open>read_u8\<close> to \<open>read_array\<close> and \<open>verify_crc\<close> are the same functions in \<open>cove-coverage\<close>,
  \<open>cove-cache\<close> and \<open>cove-layout\<close>). A record is read field by field from fixed offsets, its
  checksum verified over its own bytes with the checksum field zeroed, and then validated.
\<close>

definition read_array :: "bytes \<Rightarrow> usize \<Rightarrow> nat \<Rightarrow> bytes result" where
  "read_array bs offset n =
     and_then (checked_add offset n) (\<lambda>end'.
     if end' > length bs then Err BufferTooShort else Ok (slice offset n bs))"

definition read_u8 :: "bytes \<Rightarrow> usize \<Rightarrow> u8 result" where
  "read_u8 bs offset = (if offset \<ge> length bs then Err BufferTooShort else Ok (bs ! offset))"

definition read_u16 :: "bytes \<Rightarrow> usize \<Rightarrow> u16 result" where
  "read_u16 bs offset = and_then (read_array bs offset 2) (\<lambda>b. Ok (from_le b))"

definition read_u32 :: "bytes \<Rightarrow> usize \<Rightarrow> u32 result" where
  "read_u32 bs offset = and_then (read_array bs offset 4) (\<lambda>b. Ok (from_le b))"

definition read_u64 :: "bytes \<Rightarrow> usize \<Rightarrow> u64 result" where
  "read_u64 bs offset = and_then (read_array bs offset 8) (\<lambda>b. Ok (from_le b))"

definition verify_crc :: "(bytes \<Rightarrow> u32) \<Rightarrow> bytes \<Rightarrow> usize \<Rightarrow> u32 \<Rightarrow> unit result" where
  "verify_crc crc bs checksum_offset expected =
     (if checksum_offset + 4 > length bs then Panic
      else let check = put checksum_offset (replicate 4 0) bs
      in if crc check \<noteq> expected then Err ChecksumMismatch else Ok ())"

lemma read_array_in [simp]:
  "off + n < usize_bound \<Longrightarrow> off + n \<le> length bs \<Longrightarrow> read_array bs off n = Ok (slice off n bs)"
  by (simp add: read_array_def checked_add_def)

lemma read_u8_in [simp]: "off < length bs \<Longrightarrow> read_u8 bs off = Ok (bs ! off)"
  by (simp add: read_u8_def)

lemma read_int_in [simp]:
  "off + 2 < usize_bound \<Longrightarrow> off + 2 \<le> length bs \<Longrightarrow> read_u16 bs off = Ok (u16_at bs off)"
  "off + 4 < usize_bound \<Longrightarrow> off + 4 \<le> length bs \<Longrightarrow> read_u32 bs off = Ok (u32_at bs off)"
  "off + 8 < usize_bound \<Longrightarrow> off + 8 \<le> length bs \<Longrightarrow> read_u64 bs off = Ok (u64_at bs off)"
  by (simp_all add: read_u16_def read_u32_def read_u64_def)

lemma read_fields_no_panic [simp]:
  "read_array bs off n \<noteq> Panic" "read_u8 bs off \<noteq> Panic" "read_u16 bs off \<noteq> Panic"
  "read_u32 bs off \<noteq> Panic" "read_u64 bs off \<noteq> Panic"
  by (simp_all add: read_array_def read_u8_def read_u16_def read_u32_def read_u64_def and_then_no_panic)

lemma verify_crc_Ok:
  "verify_crc crc bs off c = Ok u \<longleftrightarrow> off + 4 \<le> length bs \<and> crc (put off (replicate 4 0) bs) = c"
  by (auto simp: verify_crc_def Let_def)

lemma verify_crc_seal:
  "off + 4 \<le> length buf \<Longrightarrow> slice off 4 buf = replicate 4 0 \<Longrightarrow>
     verify_crc crc (seal crc off buf) off (crc buf) = Ok ()"
  by (simp add: verify_crc_Ok clear_seal)

section \<open>Rests of a buffer\<close>

text \<open>\<open>&bytes[pos..]\<close>\<close>

definition bytes_from :: "bytes \<Rightarrow> usize \<Rightarrow> bytes result" where
  "bytes_from bs pos = (if pos > length bs then Panic else Ok (drop pos bs))"

lemma bytes_from_Ok [result_simps]: "bytes_from bs pos = Ok r \<longleftrightarrow> pos \<le> length bs \<and> r = drop pos bs"
  by (auto simp: bytes_from_def)

lemma bytes_from_in [simp]: "pos \<le> length bs \<Longrightarrow> bytes_from bs pos = Ok (drop pos bs)"
  by (simp add: bytes_from_def)

section \<open>Cursors\<close>

text \<open>The reads of the \<open>Cursor\<close> of \<open>cove-coverage\<close> and of \<open>codec.rs\<close> return the value and the new position.\<close>

definition Cursor_bytes :: "bytes \<Rightarrow> usize \<Rightarrow> usize \<Rightarrow> (bytes \<times> usize) result" where
  "Cursor_bytes bs position len =
     and_then (checked_add position len) (\<lambda>end'.
     if end' > length bs then Err BufferTooShort else Ok (slice position len bs, end'))"

definition Cursor_u8 :: "bytes \<Rightarrow> usize \<Rightarrow> (u8 \<times> usize) result" where
  "Cursor_u8 bs position = map_result (\<lambda>(raw, position). (raw ! 0, position)) (Cursor_bytes bs position 1)"

definition Cursor_u16 :: "bytes \<Rightarrow> usize \<Rightarrow> (u16 \<times> usize) result" where
  "Cursor_u16 bs position = map_result (\<lambda>(raw, position). (from_le raw, position)) (Cursor_bytes bs position 2)"

definition Cursor_u32 :: "bytes \<Rightarrow> usize \<Rightarrow> (u32 \<times> usize) result" where
  "Cursor_u32 bs position = map_result (\<lambda>(raw, position). (from_le raw, position)) (Cursor_bytes bs position 4)"

definition Cursor_u64 :: "bytes \<Rightarrow> usize \<Rightarrow> (u64 \<times> usize) result" where
  "Cursor_u64 bs position = map_result (\<lambda>(raw, position). (from_le raw, position)) (Cursor_bytes bs position 8)"

lemma Cursor_no_panic [simp]:
  "Cursor_bytes bs p n \<noteq> Panic" "Cursor_u8 bs p \<noteq> Panic" "Cursor_u16 bs p \<noteq> Panic" "Cursor_u32 bs p \<noteq> Panic"
  "Cursor_u64 bs p \<noteq> Panic"
  by (auto simp: Cursor_bytes_def Cursor_u8_def Cursor_u16_def Cursor_u32_def Cursor_u64_def and_then_eq_Panic map_result_eq_Panic)

section \<open>UTF-8\<close>

text \<open>
  \<open>std::str::from_utf8\<close>: the well-formed byte sequences of the Unicode standard. A \<open>String\<close> is
  represented by its bytes.
\<close>

definition utf8_cont :: "u8 \<Rightarrow> bool" where
  "utf8_cont b \<longleftrightarrow> 0x80 \<le> b \<and> b \<le> 0xBF"

fun utf8_valid :: "bytes \<Rightarrow> bool" where
  "utf8_valid [] \<longleftrightarrow> True"
| "utf8_valid (b # bs) \<longleftrightarrow>
     (if b \<le> 0x7F then utf8_valid bs
      else if 0xC2 \<le> b \<and> b \<le> 0xDF
      then (case bs of c # bs' \<Rightarrow> utf8_cont c \<and> utf8_valid bs' | _ \<Rightarrow> False)
      else if 0xE0 \<le> b \<and> b \<le> 0xEF
      then (case bs of
              c # d # bs' \<Rightarrow> utf8_cont c \<and> utf8_cont d \<and> (b = 0xE0 \<longrightarrow> 0xA0 \<le> c) \<and> (b = 0xED \<longrightarrow> c \<le> 0x9F) \<and> utf8_valid bs'
            | _ \<Rightarrow> False)
      else if 0xF0 \<le> b \<and> b \<le> 0xF4
      then (case bs of
              c # d # e # bs' \<Rightarrow> utf8_cont c \<and> utf8_cont d \<and> utf8_cont e
                \<and> (b = 0xF0 \<longrightarrow> 0x90 \<le> c) \<and> (b = 0xF4 \<longrightarrow> c \<le> 0x8F) \<and> utf8_valid bs'
            | _ \<Rightarrow> False)
      else False)"

text \<open>The section sign in UTF-8.\<close>

definition section_sign :: string where
  "section_sign = [CHR 0xC2, CHR 0xA7]"

end
