(* ===== verification/Coverage_Types.thy ===== *)
theory Coverage_Types
  imports Crc_Record
begin

text \<open>
  The enumerations of \<open>cove-coverage\<close> that classify coverage: the granularity of a fragment, the
  strength of a proof and its exactness, and which of them may be used to skip data.
\<close>

datatype CoverageGranularityV2 =
    CG_Dataset
  | CG_Object
  | CG_File
  | CG_Segment
  | CG_RowGroup
  | CG_Page
  | CG_Morsel
  | CG_RowRange
  | CG_RowOrdinalSet
  | CG_MapNode
  | CG_DimensionalBucket
  | CG_ObjectPath
  | CG_Association
  | CG_ProjectionFragment
  | CG_ExternalFragment

primrec CoverageGranularityV2_code :: "CoverageGranularityV2 \<Rightarrow> u8" where
  "CoverageGranularityV2_code CG_Dataset = 0"
| "CoverageGranularityV2_code CG_Object = 1"
| "CoverageGranularityV2_code CG_File = 2"
| "CoverageGranularityV2_code CG_Segment = 3"
| "CoverageGranularityV2_code CG_RowGroup = 4"
| "CoverageGranularityV2_code CG_Page = 5"
| "CoverageGranularityV2_code CG_Morsel = 6"
| "CoverageGranularityV2_code CG_RowRange = 7"
| "CoverageGranularityV2_code CG_RowOrdinalSet = 8"
| "CoverageGranularityV2_code CG_MapNode = 9"
| "CoverageGranularityV2_code CG_DimensionalBucket = 10"
| "CoverageGranularityV2_code CG_ObjectPath = 11"
| "CoverageGranularityV2_code CG_Association = 12"
| "CoverageGranularityV2_code CG_ProjectionFragment = 13"
| "CoverageGranularityV2_code CG_ExternalFragment = 255"

definition CoverageGranularityV2_from_u8 :: "u8 \<Rightarrow> CoverageGranularityV2 option" where
  "CoverageGranularityV2_from_u8 v = map_of
     [(0, CG_Dataset),
      (1, CG_Object),
      (2, CG_File),
      (3, CG_Segment),
      (4, CG_RowGroup),
      (5, CG_Page),
      (6, CG_Morsel),
      (7, CG_RowRange),
      (8, CG_RowOrdinalSet),
      (9, CG_MapNode),
      (10, CG_DimensionalBucket),
      (11, CG_ObjectPath),
      (12, CG_Association),
      (13, CG_ProjectionFragment),
      (255, CG_ExternalFragment)] v"

interpretation coverageGranularityV2: wire_enum CoverageGranularityV2_code CoverageGranularityV2_from_u8
proof
  fix k show "CoverageGranularityV2_from_u8 (CoverageGranularityV2_code k) = Some k" by (cases k) (simp_all add: CoverageGranularityV2_from_u8_def)
next
  fix v k assume "CoverageGranularityV2_from_u8 v = Some k"
  then show "CoverageGranularityV2_code k = v" by (auto simp: CoverageGranularityV2_from_u8_def split: if_splits)
qed

definition CoverageGranularityV2_from_u16 :: "u16 \<Rightarrow> CoverageGranularityV2 option" where
  "CoverageGranularityV2_from_u16 v =
     (if v \<le> 255 then CoverageGranularityV2_from_u8 (ucast v) else None)"

lemma CoverageGranularityV2_from_u16_code [simp]:
  "CoverageGranularityV2_from_u16 (ucast (CoverageGranularityV2_code k)) = Some k"
  by (cases k) (simp_all add: CoverageGranularityV2_from_u16_def CoverageGranularityV2_from_u8_def)

datatype CoverageProofStrengthV2 =
    CPS_ExactTight
  | CPS_ExactConservative
  | CPS_ProbabilisticConservative
  | CPS_AdvisoryOnly
  | CPS_EngineLocal
  | CPS_ApproximateMayUnderInclude

primrec CoverageProofStrengthV2_code :: "CoverageProofStrengthV2 \<Rightarrow> u8" where
  "CoverageProofStrengthV2_code CPS_ExactTight = 0"
| "CoverageProofStrengthV2_code CPS_ExactConservative = 1"
| "CoverageProofStrengthV2_code CPS_ProbabilisticConservative = 2"
| "CoverageProofStrengthV2_code CPS_AdvisoryOnly = 3"
| "CoverageProofStrengthV2_code CPS_EngineLocal = 4"
| "CoverageProofStrengthV2_code CPS_ApproximateMayUnderInclude = 5"

definition CoverageProofStrengthV2_from_u8 :: "u8 \<Rightarrow> CoverageProofStrengthV2 option" where
  "CoverageProofStrengthV2_from_u8 v = map_of
     [(0, CPS_ExactTight),
      (1, CPS_ExactConservative),
      (2, CPS_ProbabilisticConservative),
      (3, CPS_AdvisoryOnly),
      (4, CPS_EngineLocal),
      (5, CPS_ApproximateMayUnderInclude)] v"

interpretation coverageProofStrengthV2: wire_enum CoverageProofStrengthV2_code CoverageProofStrengthV2_from_u8
proof
  fix k show "CoverageProofStrengthV2_from_u8 (CoverageProofStrengthV2_code k) = Some k" by (cases k) (simp_all add: CoverageProofStrengthV2_from_u8_def)
next
  fix v k assume "CoverageProofStrengthV2_from_u8 v = Some k"
  then show "CoverageProofStrengthV2_code k = v" by (auto simp: CoverageProofStrengthV2_from_u8_def split: if_splits)
qed

datatype CoverageExactnessV2 =
    CE_Exact
  | CE_ApproximateOverInclusiveOnly
  | CE_ApproximateMayUnderInclude
  | CE_Unknown

primrec CoverageExactnessV2_code :: "CoverageExactnessV2 \<Rightarrow> u8" where
  "CoverageExactnessV2_code CE_Exact = 0"
| "CoverageExactnessV2_code CE_ApproximateOverInclusiveOnly = 1"
| "CoverageExactnessV2_code CE_ApproximateMayUnderInclude = 2"
| "CoverageExactnessV2_code CE_Unknown = 255"

definition CoverageExactnessV2_from_u8 :: "u8 \<Rightarrow> CoverageExactnessV2 option" where
  "CoverageExactnessV2_from_u8 v = map_of
     [(0, CE_Exact),
      (1, CE_ApproximateOverInclusiveOnly),
      (2, CE_ApproximateMayUnderInclude),
      (255, CE_Unknown)] v"

interpretation coverageExactnessV2: wire_enum CoverageExactnessV2_code CoverageExactnessV2_from_u8
proof
  fix k show "CoverageExactnessV2_from_u8 (CoverageExactnessV2_code k) = Some k" by (cases k) (simp_all add: CoverageExactnessV2_from_u8_def)
next
  fix v k assume "CoverageExactnessV2_from_u8 v = Some k"
  then show "CoverageExactnessV2_code k = v" by (auto simp: CoverageExactnessV2_from_u8_def split: if_splits)
qed

datatype CoverageProofKindV2 =
    CPK_MinMaxExclusion
  | CPK_DictionaryMembership
  | CPK_BloomMaybe
  | CPK_ZoneMap
  | CPK_ExactSet
  | CPK_ValueToFragmentIndex
  | CPK_RangeBucketLayout
  | CPK_SemanticPathMapping
  | CPK_ObjectDimensionMapping
  | CPK_AggregateSynopsis
  | CPK_LookupIndex
  | CPK_CompositeZone
  | CPK_EngineObservedCache
  | CPK_ExternalIndex
  | CPK_RuntimeHint
  | CPK_VendorDefined

primrec CoverageProofKindV2_code :: "CoverageProofKindV2 \<Rightarrow> u16" where
  "CoverageProofKindV2_code CPK_MinMaxExclusion = 0"
| "CoverageProofKindV2_code CPK_DictionaryMembership = 1"
| "CoverageProofKindV2_code CPK_BloomMaybe = 2"
| "CoverageProofKindV2_code CPK_ZoneMap = 3"
| "CoverageProofKindV2_code CPK_ExactSet = 4"
| "CoverageProofKindV2_code CPK_ValueToFragmentIndex = 5"
| "CoverageProofKindV2_code CPK_RangeBucketLayout = 6"
| "CoverageProofKindV2_code CPK_SemanticPathMapping = 7"
| "CoverageProofKindV2_code CPK_ObjectDimensionMapping = 8"
| "CoverageProofKindV2_code CPK_AggregateSynopsis = 9"
| "CoverageProofKindV2_code CPK_LookupIndex = 10"
| "CoverageProofKindV2_code CPK_CompositeZone = 11"
| "CoverageProofKindV2_code CPK_EngineObservedCache = 12"
| "CoverageProofKindV2_code CPK_ExternalIndex = 13"
| "CoverageProofKindV2_code CPK_RuntimeHint = 14"
| "CoverageProofKindV2_code CPK_VendorDefined = 255"

definition CoverageProofKindV2_from_u16 :: "u16 \<Rightarrow> CoverageProofKindV2 option" where
  "CoverageProofKindV2_from_u16 v = map_of
     [(0, CPK_MinMaxExclusion),
      (1, CPK_DictionaryMembership),
      (2, CPK_BloomMaybe),
      (3, CPK_ZoneMap),
      (4, CPK_ExactSet),
      (5, CPK_ValueToFragmentIndex),
      (6, CPK_RangeBucketLayout),
      (7, CPK_SemanticPathMapping),
      (8, CPK_ObjectDimensionMapping),
      (9, CPK_AggregateSynopsis),
      (10, CPK_LookupIndex),
      (11, CPK_CompositeZone),
      (12, CPK_EngineObservedCache),
      (13, CPK_ExternalIndex),
      (14, CPK_RuntimeHint),
      (255, CPK_VendorDefined)] v"

interpretation coverageProofKindV2: wire_enum CoverageProofKindV2_code CoverageProofKindV2_from_u16
proof
  fix k show "CoverageProofKindV2_from_u16 (CoverageProofKindV2_code k) = Some k" by (cases k) (simp_all add: CoverageProofKindV2_from_u16_def)
next
  fix v k assume "CoverageProofKindV2_from_u16 v = Some k"
  then show "CoverageProofKindV2_code k = v" by (auto simp: CoverageProofKindV2_from_u16_def split: if_splits)
qed

definition allows_pruning :: "CoverageProofStrengthV2 \<Rightarrow> bool" where
  "allows_pruning s \<longleftrightarrow> s \<in> {CPS_ExactTight, CPS_ExactConservative, CPS_ProbabilisticConservative}"

definition may_under_include :: "CoverageExactnessV2 \<Rightarrow> bool" where
  "may_under_include e \<longleftrightarrow> e \<in> {CE_ApproximateMayUnderInclude, CE_Unknown}"

definition ABSENT_ID :: u32 where "ABSENT_ID = 0xFFFFFFFF"

definition require_absent :: "u32 \<Rightarrow> unit result" where
  "require_absent v = (if v = ABSENT_ID then Ok () else Err BadCoverage)"

definition require_present :: "u32 \<Rightarrow> unit result" where
  "require_present v = (if v = ABSENT_ID then Err BadCoverage else Ok ())"

definition checked_end :: "u64 \<Rightarrow> u64 \<Rightarrow> u64 result" where
  "checked_end offset len = and_then (checked_add (unat offset) (unat len)) (\<lambda>e. Ok (of_nat e))"

definition validate_null_semantics :: "u8 \<Rightarrow> unit result" where
  "validate_null_semantics v = (if v \<le> 4 \<or> v = 255 then Ok () else Err BadCoverage)"

definition validate_bool :: "u8 \<Rightarrow> unit result" where
  "validate_bool v = (if v = 0 \<or> v = 1 then Ok () else Err BadCoverage)"

lemma require_eq_Ok [result_simps]:
  "require_absent v = Ok u \<longleftrightarrow> v = ABSENT_ID" "require_present v = Ok u \<longleftrightarrow> v \<noteq> ABSENT_ID"
  by (simp_all add: require_absent_def require_present_def)

lemma checked_end_eq_Ok [result_simps]:
  "checked_end a n = Ok e \<longleftrightarrow> unat a + unat n < usize_bound \<and> e = a + n"
  by (auto simp: checked_end_def result_simps)

end
