(* ===== verification/Coverage_Set.thy ===== *)
theory Coverage_Set
  imports Coverage_Types "HOL-Library.Product_Lexorder"
begin

text \<open>
  Coverage sets (\<open>cove-coverage/src/lib.rs\<close>): a header and a sorted list of fragments that cover
  the rows a predicate may match. The semantics of a list of entries is the set of rows its row
  ranges name; the algebra on entry lists is stated against it.
\<close>

section \<open>Header\<close>

definition CoverageSetHeaderV2_LEN :: usize where "CoverageSetHeaderV2_LEN = 72"

record CoverageSetHeaderV2 =
  csh_coverage_set_id :: u32
  csh_provider_id :: u32
  csh_granularity :: CoverageGranularityV2
  csh_proof_strength :: CoverageProofStrengthV2
  csh_exactness :: CoverageExactnessV2
  csh_flags :: u8
  csh_predicate_form_ref :: u32
  csh_snapshot_validity_ref :: u32
  csh_total_fragment_count :: u64
  csh_covered_fragment_count :: u64
  csh_required_fragment_count_estimate :: u64
  csh_coverage_degree_ppm :: u32
  csh_tightness_degree_ppm :: u32
  csh_entries_offset :: u64
  csh_entries_length :: u64
  csh_checksum :: u32

definition CoverageSetHeaderV2_image :: "CoverageSetHeaderV2 \<Rightarrow> bytes" where
  "CoverageSetHeaderV2_image h =
     (let out = replicate CoverageSetHeaderV2_LEN 0;
          out = put 0 (le_bytes 4 (csh_coverage_set_id h)) out;
          out = put 4 (le_bytes 4 (csh_provider_id h)) out;
          out = put 8 [CoverageGranularityV2_code (csh_granularity h)] out;
          out = put 9 [CoverageProofStrengthV2_code (csh_proof_strength h)] out;
          out = put 10 [CoverageExactnessV2_code (csh_exactness h)] out;
          out = put 11 [csh_flags h] out;
          out = put 12 (le_bytes 4 (csh_predicate_form_ref h)) out;
          out = put 16 (le_bytes 4 (csh_snapshot_validity_ref h)) out;
          out = put 20 (le_bytes 8 (csh_total_fragment_count h)) out;
          out = put 28 (le_bytes 8 (csh_covered_fragment_count h)) out;
          out = put 36 (le_bytes 8 (csh_required_fragment_count_estimate h)) out;
          out = put 44 (le_bytes 4 (csh_coverage_degree_ppm h)) out;
          out = put 48 (le_bytes 4 (csh_tightness_degree_ppm h)) out;
          out = put 52 (le_bytes 8 (csh_entries_offset h)) out;
          out = put 60 (le_bytes 8 (csh_entries_length h)) out
      in out)"

definition CoverageSetHeaderV2_serialize :: "(bytes \<Rightarrow> u32) \<Rightarrow> CoverageSetHeaderV2 \<Rightarrow> bytes" where
  "CoverageSetHeaderV2_serialize crc h = seal crc 68 (CoverageSetHeaderV2_image h)"

lemma length_CoverageSetHeaderV2_image [simp]: "length (CoverageSetHeaderV2_image h) = 72"
  by (simp add: CoverageSetHeaderV2_image_def CoverageSetHeaderV2_LEN_def Let_def)

lemma length_CoverageSetHeaderV2_serialize [simp]: "length (CoverageSetHeaderV2_serialize crc h) = 72"
  by (simp add: CoverageSetHeaderV2_serialize_def)

lemma CoverageSetHeaderV2_image_fields:
  "u32_at (CoverageSetHeaderV2_image h) 0 = csh_coverage_set_id h"
  "u32_at (CoverageSetHeaderV2_image h) 4 = csh_provider_id h"
  "CoverageSetHeaderV2_image h ! 8 = CoverageGranularityV2_code (csh_granularity h)"
  "CoverageSetHeaderV2_image h ! 9 = CoverageProofStrengthV2_code (csh_proof_strength h)"
  "CoverageSetHeaderV2_image h ! 10 = CoverageExactnessV2_code (csh_exactness h)"
  "CoverageSetHeaderV2_image h ! 11 = csh_flags h"
  "u32_at (CoverageSetHeaderV2_image h) 12 = csh_predicate_form_ref h"
  "u32_at (CoverageSetHeaderV2_image h) 16 = csh_snapshot_validity_ref h"
  "u64_at (CoverageSetHeaderV2_image h) 20 = csh_total_fragment_count h"
  "u64_at (CoverageSetHeaderV2_image h) 28 = csh_covered_fragment_count h"
  "u64_at (CoverageSetHeaderV2_image h) 36 = csh_required_fragment_count_estimate h"
  "u32_at (CoverageSetHeaderV2_image h) 44 = csh_coverage_degree_ppm h"
  "u32_at (CoverageSetHeaderV2_image h) 48 = csh_tightness_degree_ppm h"
  "u64_at (CoverageSetHeaderV2_image h) 52 = csh_entries_offset h"
  "u64_at (CoverageSetHeaderV2_image h) 60 = csh_entries_length h"
  "slice 68 4 (CoverageSetHeaderV2_image h) = replicate 4 0"
  by (simp_all add: CoverageSetHeaderV2_image_def CoverageSetHeaderV2_LEN_def Let_def wire_simps)

text \<open>The tests \<open>parse\<close> makes after the checksum.\<close>

definition CoverageSetHeaderV2_check :: "CoverageSetHeaderV2 \<Rightarrow> unit result" where
  "CoverageSetHeaderV2_check h =
     (if csh_coverage_degree_ppm h > 1000000 \<or> csh_tightness_degree_ppm h > 1000000 then Err BadCoverage
      else if may_under_include (csh_exactness h) \<and> allows_pruning (csh_proof_strength h) then Err BadCoverage
      else Ok ())"

definition CoverageSetHeaderV2_parse :: "(bytes \<Rightarrow> u32) \<Rightarrow> bytes \<Rightarrow> CoverageSetHeaderV2 result" where
  "CoverageSetHeaderV2_parse crc bs =
     (if length bs < CoverageSetHeaderV2_LEN then Err BufferTooShort
      else
      and_then (read_u32 bs 0) (\<lambda>coverage_set_id.
      and_then (read_u32 bs 4) (\<lambda>provider_id.
      and_then (read_u8 bs 8) (\<lambda>granularity_raw.
      and_then (ok_or (CoverageGranularityV2_from_u8 granularity_raw) BadCoverage) (\<lambda>granularity.
      and_then (read_u8 bs 9) (\<lambda>proof_strength_raw.
      and_then (ok_or (CoverageProofStrengthV2_from_u8 proof_strength_raw) BadCoverage) (\<lambda>proof_strength.
      and_then (read_u8 bs 10) (\<lambda>exactness_raw.
      and_then (ok_or (CoverageExactnessV2_from_u8 exactness_raw) BadCoverage) (\<lambda>exactness.
      and_then (read_u8 bs 11) (\<lambda>flags.
      and_then (read_u32 bs 12) (\<lambda>predicate_form_ref.
      and_then (read_u32 bs 16) (\<lambda>snapshot_validity_ref.
      and_then (read_u64 bs 20) (\<lambda>total_fragment_count.
      and_then (read_u64 bs 28) (\<lambda>covered_fragment_count.
      and_then (read_u64 bs 36) (\<lambda>required_fragment_count_estimate.
      and_then (read_u32 bs 44) (\<lambda>coverage_degree_ppm.
      and_then (read_u32 bs 48) (\<lambda>tightness_degree_ppm.
      and_then (read_u64 bs 52) (\<lambda>entries_offset.
      and_then (read_u64 bs 60) (\<lambda>entries_length.
      and_then (read_u32 bs 68) (\<lambda>checksum.
      let r = \<lparr>csh_coverage_set_id = coverage_set_id,
         csh_provider_id = provider_id,
         csh_granularity = granularity,
         csh_proof_strength = proof_strength,
         csh_exactness = exactness,
         csh_flags = flags,
         csh_predicate_form_ref = predicate_form_ref,
         csh_snapshot_validity_ref = snapshot_validity_ref,
         csh_total_fragment_count = total_fragment_count,
         csh_covered_fragment_count = covered_fragment_count,
         csh_required_fragment_count_estimate = required_fragment_count_estimate,
         csh_coverage_degree_ppm = coverage_degree_ppm,
         csh_tightness_degree_ppm = tightness_degree_ppm,
         csh_entries_offset = entries_offset,
         csh_entries_length = entries_length,
         csh_checksum = checksum\<rparr> in
      and_then (verify_crc crc (slice 0 CoverageSetHeaderV2_LEN bs) 68 checksum) (\<lambda>_.
      and_then (CoverageSetHeaderV2_check r) (\<lambda>_. Ok r))))))))))))))))))))))"

lemma CoverageSetHeaderV2_roundtrip:
  assumes "CoverageSetHeaderV2_check (h\<lparr>csh_checksum := crc (CoverageSetHeaderV2_image h)\<rparr>) = Ok ()"
  shows "CoverageSetHeaderV2_parse crc (CoverageSetHeaderV2_serialize crc h @ rest) = Ok (h\<lparr>csh_checksum := crc (CoverageSetHeaderV2_image h)\<rparr>)"
proof -
  note f = CoverageSetHeaderV2_image_fields [of h]
  have v: "verify_crc crc (seal crc 68 (CoverageSetHeaderV2_image h)) 68 (crc (CoverageSetHeaderV2_image h)) = Ok ()"
    by (rule verify_crc_seal) (simp_all add: f)
  have eta: "\<lparr>csh_coverage_set_id = csh_coverage_set_id h, csh_provider_id = csh_provider_id h, csh_granularity = csh_granularity h, csh_proof_strength = csh_proof_strength h, csh_exactness = csh_exactness h, csh_flags = csh_flags h, csh_predicate_form_ref = csh_predicate_form_ref h, csh_snapshot_validity_ref = csh_snapshot_validity_ref h, csh_total_fragment_count = csh_total_fragment_count h, csh_covered_fragment_count = csh_covered_fragment_count h, csh_required_fragment_count_estimate = csh_required_fragment_count_estimate h, csh_coverage_degree_ppm = csh_coverage_degree_ppm h, csh_tightness_degree_ppm = csh_tightness_degree_ppm h, csh_entries_offset = csh_entries_offset h, csh_entries_length = csh_entries_length h, csh_checksum = c\<rparr> =
      h\<lparr>csh_checksum := c\<rparr>" for c by (cases h) simp
  show ?thesis using assms
    by (simp add: CoverageSetHeaderV2_parse_def CoverageSetHeaderV2_LEN_def CoverageSetHeaderV2_serialize_def Let_def nth_append wire_simps f v eta
        coverageExactnessV2.decode_code coverageGranularityV2.decode_code coverageProofStrengthV2.decode_code )
qed

section \<open>Entries\<close>

definition CoverageSetEntryV2_LEN :: usize where "CoverageSetEntryV2_LEN = 64"

record CoverageSetEntryV2 =
  ce_target_kind :: CoverageGranularityV2
  ce_flags :: u16
  ce_file_ref :: u32
  ce_table_id :: u32
  ce_segment_id :: u32
  ce_morsel_id :: u32
  ce_page_ref :: u32
  ce_object_type_id :: u32
  ce_path_ref :: u32
  ce_dimensional_bucket_ref :: u32
  ce_row_start :: u64
  ce_row_count :: u64
  ce_row_ordinal_bitmap_ref :: u32
  ce_byte_range_ref :: u32
  ce_checksum :: u32

definition CoverageSetEntryV2_image :: "CoverageSetEntryV2 \<Rightarrow> bytes" where
  "CoverageSetEntryV2_image h =
     (let out = replicate CoverageSetEntryV2_LEN 0;
          out = put 0 (le_bytes 2 (ucast (CoverageGranularityV2_code (ce_target_kind h)) :: u16)) out;
          out = put 2 (le_bytes 2 (ce_flags h)) out;
          out = put 4 (le_bytes 4 (ce_file_ref h)) out;
          out = put 8 (le_bytes 4 (ce_table_id h)) out;
          out = put 12 (le_bytes 4 (ce_segment_id h)) out;
          out = put 16 (le_bytes 4 (ce_morsel_id h)) out;
          out = put 20 (le_bytes 4 (ce_page_ref h)) out;
          out = put 24 (le_bytes 4 (ce_object_type_id h)) out;
          out = put 28 (le_bytes 4 (ce_path_ref h)) out;
          out = put 32 (le_bytes 4 (ce_dimensional_bucket_ref h)) out;
          out = put 36 (le_bytes 8 (ce_row_start h)) out;
          out = put 44 (le_bytes 8 (ce_row_count h)) out;
          out = put 52 (le_bytes 4 (ce_row_ordinal_bitmap_ref h)) out;
          out = put 56 (le_bytes 4 (ce_byte_range_ref h)) out
      in out)"

definition CoverageSetEntryV2_serialize :: "(bytes \<Rightarrow> u32) \<Rightarrow> CoverageSetEntryV2 \<Rightarrow> bytes" where
  "CoverageSetEntryV2_serialize crc h = seal crc 60 (CoverageSetEntryV2_image h)"

lemma length_CoverageSetEntryV2_image [simp]: "length (CoverageSetEntryV2_image h) = 64"
  by (simp add: CoverageSetEntryV2_image_def CoverageSetEntryV2_LEN_def Let_def)

lemma length_CoverageSetEntryV2_serialize [simp]: "length (CoverageSetEntryV2_serialize crc h) = 64"
  by (simp add: CoverageSetEntryV2_serialize_def)

lemma CoverageSetEntryV2_image_fields:
  "u16_at (CoverageSetEntryV2_image h) 0 = (ucast (CoverageGranularityV2_code (ce_target_kind h)) :: u16)"
  "u16_at (CoverageSetEntryV2_image h) 2 = ce_flags h"
  "u32_at (CoverageSetEntryV2_image h) 4 = ce_file_ref h"
  "u32_at (CoverageSetEntryV2_image h) 8 = ce_table_id h"
  "u32_at (CoverageSetEntryV2_image h) 12 = ce_segment_id h"
  "u32_at (CoverageSetEntryV2_image h) 16 = ce_morsel_id h"
  "u32_at (CoverageSetEntryV2_image h) 20 = ce_page_ref h"
  "u32_at (CoverageSetEntryV2_image h) 24 = ce_object_type_id h"
  "u32_at (CoverageSetEntryV2_image h) 28 = ce_path_ref h"
  "u32_at (CoverageSetEntryV2_image h) 32 = ce_dimensional_bucket_ref h"
  "u64_at (CoverageSetEntryV2_image h) 36 = ce_row_start h"
  "u64_at (CoverageSetEntryV2_image h) 44 = ce_row_count h"
  "u32_at (CoverageSetEntryV2_image h) 52 = ce_row_ordinal_bitmap_ref h"
  "u32_at (CoverageSetEntryV2_image h) 56 = ce_byte_range_ref h"
  "slice 60 4 (CoverageSetEntryV2_image h) = replicate 4 0"
  by (simp_all add: CoverageSetEntryV2_image_def CoverageSetEntryV2_LEN_def Let_def wire_simps)

definition validate_absent_fields :: "CoverageSetEntryV2 \<Rightarrow> unit result" where
  "validate_absent_fields e =
     and_then (case ce_target_kind e of
        CG_Dataset \<Rightarrow>
          and_then (require_absent (ce_file_ref e)) (\<lambda>_.
          and_then (require_absent (ce_table_id e)) (\<lambda>_.
          and_then (require_absent (ce_segment_id e)) (\<lambda>_.
          and_then (require_absent (ce_morsel_id e)) (\<lambda>_.
          and_then (require_absent (ce_page_ref e)) (\<lambda>_.
          and_then (require_absent (ce_object_type_id e)) (\<lambda>_.
          and_then (require_absent (ce_path_ref e)) (\<lambda>_.
          and_then (require_absent (ce_dimensional_bucket_ref e)) (\<lambda>_.
          fail_if (ce_row_start e \<noteq> 0 \<or> ce_row_count e \<noteq> 0) BadCoverage))))))))
      | CG_File \<Rightarrow> require_present (ce_file_ref e)
      | CG_Segment \<Rightarrow>
          and_then (require_present (ce_file_ref e)) (\<lambda>_.
          and_then (require_present (ce_table_id e)) (\<lambda>_.
          require_present (ce_segment_id e)))
      | CG_Page \<Rightarrow>
          and_then (require_present (ce_file_ref e)) (\<lambda>_.
          and_then (require_present (ce_table_id e)) (\<lambda>_.
          and_then (require_present (ce_segment_id e)) (\<lambda>_.
          require_present (ce_page_ref e))))
      | CG_Morsel \<Rightarrow>
          and_then (require_present (ce_file_ref e)) (\<lambda>_.
          and_then (require_present (ce_table_id e)) (\<lambda>_.
          and_then (require_present (ce_segment_id e)) (\<lambda>_.
          require_present (ce_morsel_id e))))
      | CG_RowRange \<Rightarrow>
          and_then (require_present (ce_file_ref e)) (\<lambda>_.
          and_then (require_present (ce_table_id e)) (\<lambda>_.
          and_then (require_present (ce_segment_id e)) (\<lambda>_.
          fail_if (ce_row_count e = 0) BadCoverage)))
      | CG_RowOrdinalSet \<Rightarrow>
          and_then (require_present (ce_file_ref e)) (\<lambda>_.
          and_then (require_present (ce_table_id e)) (\<lambda>_.
          require_present (ce_row_ordinal_bitmap_ref e)))
      | CG_MapNode \<Rightarrow> require_present (ce_path_ref e)
      | CG_ObjectPath \<Rightarrow> require_present (ce_path_ref e)
      | CG_DimensionalBucket \<Rightarrow> require_present (ce_dimensional_bucket_ref e)
      | _ \<Rightarrow> Ok ()) (\<lambda>_.
     and_then (checked_end (ce_row_start e) (ce_row_count e)) (\<lambda>_. Ok ()))"

definition CoverageSetEntryV2_parse :: "(bytes \<Rightarrow> u32) \<Rightarrow> bytes \<Rightarrow> CoverageSetEntryV2 result" where
  "CoverageSetEntryV2_parse crc bs =
     (if length bs < CoverageSetEntryV2_LEN then Err BufferTooShort
      else
      and_then (read_u16 bs 0) (\<lambda>target_kind_raw.
      and_then (ok_or (CoverageGranularityV2_from_u16 target_kind_raw) BadCoverage) (\<lambda>target_kind.
      and_then (read_u16 bs 2) (\<lambda>flags.
      and_then (read_u32 bs 4) (\<lambda>file_ref.
      and_then (read_u32 bs 8) (\<lambda>table_id.
      and_then (read_u32 bs 12) (\<lambda>segment_id.
      and_then (read_u32 bs 16) (\<lambda>morsel_id.
      and_then (read_u32 bs 20) (\<lambda>page_ref.
      and_then (read_u32 bs 24) (\<lambda>object_type_id.
      and_then (read_u32 bs 28) (\<lambda>path_ref.
      and_then (read_u32 bs 32) (\<lambda>dimensional_bucket_ref.
      and_then (read_u64 bs 36) (\<lambda>row_start.
      and_then (read_u64 bs 44) (\<lambda>row_count.
      and_then (read_u32 bs 52) (\<lambda>row_ordinal_bitmap_ref.
      and_then (read_u32 bs 56) (\<lambda>byte_range_ref.
      and_then (read_u32 bs 60) (\<lambda>checksum.
      let r = \<lparr>ce_target_kind = target_kind,
         ce_flags = flags,
         ce_file_ref = file_ref,
         ce_table_id = table_id,
         ce_segment_id = segment_id,
         ce_morsel_id = morsel_id,
         ce_page_ref = page_ref,
         ce_object_type_id = object_type_id,
         ce_path_ref = path_ref,
         ce_dimensional_bucket_ref = dimensional_bucket_ref,
         ce_row_start = row_start,
         ce_row_count = row_count,
         ce_row_ordinal_bitmap_ref = row_ordinal_bitmap_ref,
         ce_byte_range_ref = byte_range_ref,
         ce_checksum = checksum\<rparr> in
      and_then (verify_crc crc (slice 0 CoverageSetEntryV2_LEN bs) 60 checksum) (\<lambda>_.
      and_then (validate_absent_fields r) (\<lambda>_. Ok r)))))))))))))))))))"

lemma CoverageSetEntryV2_roundtrip:
  assumes "validate_absent_fields (h\<lparr>ce_checksum := crc (CoverageSetEntryV2_image h)\<rparr>) = Ok ()"
  shows "CoverageSetEntryV2_parse crc (CoverageSetEntryV2_serialize crc h @ rest) = Ok (h\<lparr>ce_checksum := crc (CoverageSetEntryV2_image h)\<rparr>)"
proof -
  note f = CoverageSetEntryV2_image_fields [of h]
  have v: "verify_crc crc (seal crc 60 (CoverageSetEntryV2_image h)) 60 (crc (CoverageSetEntryV2_image h)) = Ok ()"
    by (rule verify_crc_seal) (simp_all add: f)
  have eta: "\<lparr>ce_target_kind = ce_target_kind h, ce_flags = ce_flags h, ce_file_ref = ce_file_ref h, ce_table_id = ce_table_id h, ce_segment_id = ce_segment_id h, ce_morsel_id = ce_morsel_id h, ce_page_ref = ce_page_ref h, ce_object_type_id = ce_object_type_id h, ce_path_ref = ce_path_ref h, ce_dimensional_bucket_ref = ce_dimensional_bucket_ref h, ce_row_start = ce_row_start h, ce_row_count = ce_row_count h, ce_row_ordinal_bitmap_ref = ce_row_ordinal_bitmap_ref h, ce_byte_range_ref = ce_byte_range_ref h, ce_checksum = c\<rparr> =
      h\<lparr>ce_checksum := c\<rparr>" for c by (cases h) simp
  show ?thesis using assms
    by (simp add: CoverageSetEntryV2_parse_def CoverageSetEntryV2_LEN_def CoverageSetEntryV2_serialize_def Let_def nth_append wire_simps f v eta
        coverageGranularityV2.decode_code CoverageGranularityV2_from_u16_code)
qed

end
