(* ===== verification/Coverage_Algebra.thy ===== *)
theory Coverage_Algebra
  imports Coverage_Set
begin

text \<open>
  The algebra on coverage entries (\<open>cove-coverage/src/lib.rs\<close>): validation, union, intersection,
  coarsening and refinement, each stated against the rows the row ranges of a list name.
\<close>

section \<open>The derived order on entries\<close>

text \<open>
  \<open>#[derive(Ord)]\<close> compares the fields in the order they are declared; nested pairs do the same.
  \<open>entry_group\<close> holds the fields before the row range.
\<close>

type_synonym entry_scope = "u32 \<times> u32 \<times> u32 \<times> u32"

definition entry_group ::
  "CoverageSetEntryV2 \<Rightarrow> u8 \<times> u16 \<times> u32 \<times> u32 \<times> u32 \<times> u32 \<times> u32 \<times> u32 \<times> u32 \<times> u32" where
  "entry_group e = (CoverageGranularityV2_code (ce_target_kind e), ce_flags e, ce_file_ref e, ce_table_id e,
     ce_segment_id e, ce_morsel_id e, ce_page_ref e, ce_object_type_id e, ce_path_ref e,
     ce_dimensional_bucket_ref e)"

definition entry_ord where
  "entry_ord e = (entry_group e, ce_row_start e, ce_row_count e, ce_row_ordinal_bitmap_ref e,
     ce_byte_range_ref e, ce_checksum e)"

definition entry_scope :: "CoverageSetEntryV2 \<Rightarrow> entry_scope" where
  "entry_scope e = (ce_file_ref e, ce_table_id e, ce_segment_id e, ce_morsel_id e)"

section \<open>Operations\<close>

fun validate_coverage_entries_loop ::
  "CoverageSetEntryV2 option \<Rightarrow> (entry_scope \<rightharpoonup> u64 \<times> u64) \<Rightarrow> CoverageSetEntryV2 list \<Rightarrow> unit result" where
  "validate_coverage_entries_loop prev by_range_scope [] = Ok ()"
| "validate_coverage_entries_loop prev by_range_scope (entry # entries) =
     and_then (case prev of None \<Rightarrow> Ok () | Some previous \<Rightarrow> fail_if (entry_ord entry \<le> entry_ord previous) BadCoverage) (\<lambda>_.
     if ce_target_kind entry = CG_RowRange then
       let scope = entry_scope entry;
           by_range_scope' = by_range_scope(scope \<mapsto> (ce_row_start entry, ce_row_count entry)) in
       and_then (case by_range_scope scope of
           None \<Rightarrow> Ok ()
         | Some (start, count) \<Rightarrow>
             and_then (checked_end start count) (\<lambda>previous_end.
             fail_if (ce_row_start entry < previous_end) BadCoverage)) (\<lambda>_.
       validate_coverage_entries_loop (Some entry) by_range_scope' entries)
     else validate_coverage_entries_loop (Some entry) by_range_scope entries)"

definition validate_coverage_entries :: "CoverageSetEntryV2 list \<Rightarrow> unit result" where
  "validate_coverage_entries entries = validate_coverage_entries_loop None Map.empty entries"

text \<open>\<open>out\<close> is the output in reverse, so that \<open>out.last_mut()\<close> is its head.\<close>

fun coalesce_loop :: "CoverageSetEntryV2 list \<Rightarrow> CoverageSetEntryV2 list \<Rightarrow> CoverageSetEntryV2 list result" where
  "coalesce_loop out [] = Ok (rev out)"
| "coalesce_loop [] (entry # entries) = coalesce_loop [entry] entries"
| "coalesce_loop (last' # out) (entry # entries) =
     (if ce_target_kind last' = CG_RowRange \<and> ce_target_kind entry = CG_RowRange
         \<and> ce_file_ref last' = ce_file_ref entry \<and> ce_table_id last' = ce_table_id entry
         \<and> ce_segment_id last' = ce_segment_id entry \<and> ce_morsel_id last' = ce_morsel_id entry
      then and_then (checked_end (ce_row_start last') (ce_row_count last')) (\<lambda>last_end.
           if ce_row_start entry \<le> last_end
           then and_then (checked_end (ce_row_start entry) (ce_row_count entry)) (\<lambda>entry_end.
                let grown = (if entry_end < ce_row_start last' then 0 else entry_end - ce_row_start last')
                in coalesce_loop (last'\<lparr>ce_row_count := max grown (ce_row_count last')\<rparr> # out) entries)
           else coalesce_loop (entry # last' # out) entries)
      else coalesce_loop (entry # last' # out) entries)"

definition coalesce_row_ranges :: "CoverageSetEntryV2 list \<Rightarrow> CoverageSetEntryV2 list result" where
  "coalesce_row_ranges entries =
     and_then (coalesce_loop [] (sort_key entry_ord entries)) (\<lambda>out.
     and_then (validate_coverage_entries out) (\<lambda>_. Ok out))"

definition coverage_union ::
  "CoverageSetEntryV2 list \<Rightarrow> CoverageSetEntryV2 list \<Rightarrow> CoverageSetEntryV2 list result" where
  "coverage_union left right = coalesce_row_ranges (remdups_adj (sort_key entry_ord (left @ right)))"

definition coverage_intersection ::
  "CoverageSetEntryV2 list \<Rightarrow> CoverageSetEntryV2 list \<Rightarrow> CoverageSetEntryV2 list result" where
  "coverage_intersection left right =
     (let right_set = set right; out = filter (\<lambda>entry. entry \<in> right_set) left in
      and_then (validate_coverage_entries out) (\<lambda>_. Ok out))"

definition coverage_coarsen :: "CoverageSetEntryV2 list \<Rightarrow> CoverageSetEntryV2 list result" where
  "coverage_coarsen entries = coalesce_row_ranges entries"

definition coverage_refine ::
  "CoverageSetEntryV2 list \<Rightarrow> CoverageSetEntryV2 list \<Rightarrow> CoverageSetEntryV2 list result" where
  "coverage_refine entries refinement = coverage_intersection entries refinement"

definition can_use_for_pruning :: "CoverageSetHeaderV2 \<Rightarrow> bool" where
  "can_use_for_pruning header \<longleftrightarrow>
     allows_pruning (csh_proof_strength header) \<and> \<not> may_under_include (csh_exactness header)"

section \<open>The rows a list of entries covers\<close>

abbreviation RR :: "CoverageSetEntryV2 \<Rightarrow> bool" where "RR e \<equiv> ce_target_kind e = CG_RowRange"

definition entry_end :: "CoverageSetEntryV2 \<Rightarrow> nat" where
  "entry_end e = unat (ce_row_start e) + unat (ce_row_count e)"

definition covered_rows :: "CoverageSetEntryV2 list \<Rightarrow> (entry_scope \<times> nat) set" where
  "covered_rows es = {(entry_scope e, r) | e r. e \<in> set es \<and> RR e \<and> unat (ce_row_start e) \<le> r \<and> r < entry_end e}"

definition ends_fit :: "CoverageSetEntryV2 list \<Rightarrow> bool" where
  "ends_fit es = list_all (\<lambda>e. RR e \<longrightarrow> entry_end e < usize_bound) es"

text \<open>Row ranges of one scope agree on the other identifying fields.\<close>

definition agree :: "CoverageSetEntryV2 \<Rightarrow> CoverageSetEntryV2 \<Rightarrow> bool" where
  "agree a b \<longleftrightarrow> (RR a \<and> RR b \<and> entry_scope a = entry_scope b \<longrightarrow> entry_group a = entry_group b)"

definition uniform :: "CoverageSetEntryV2 list \<Rightarrow> bool" where
  "uniform es = list_all (\<lambda>a. list_all (agree a) es) es"

definition separated :: "CoverageSetEntryV2 \<Rightarrow> CoverageSetEntryV2 \<Rightarrow> bool" where
  "separated a b \<longleftrightarrow> (RR a \<and> RR b \<and> entry_scope a = entry_scope b \<longrightarrow> entry_end a \<le> unat (ce_row_start b))"

definition ordered_entries :: "CoverageSetEntryV2 list \<Rightarrow> bool" where
  "ordered_entries es = sorted_wrt (\<lambda>a b. entry_ord a < entry_ord b \<and> separated a b) es"

lemma granularity_code_inject: "CoverageGranularityV2_code a = CoverageGranularityV2_code b \<longleftrightarrow> a = b"
  by (metis coverageGranularityV2.decode_code option.inject)

lemma entry_ord_inject: "entry_ord a = entry_ord b \<longleftrightarrow> a = b"
  by (cases a; cases b) (auto simp: entry_ord_def entry_group_def granularity_code_inject)

lemma group_scope: "entry_group a = entry_group b \<Longrightarrow> entry_scope a = entry_scope b \<and> (RR a \<longleftrightarrow> RR b)"
  by (auto simp: entry_group_def entry_scope_def granularity_code_inject)

section \<open>Validation\<close>

text \<open>The scope map of the validation loop after a list of entries.\<close>

definition note_range :: "CoverageSetEntryV2 \<Rightarrow> (entry_scope \<rightharpoonup> u64 \<times> u64) \<Rightarrow> (entry_scope \<rightharpoonup> u64 \<times> u64)" where
  "note_range e m = (if RR e then m(entry_scope e \<mapsto> (ce_row_start e, ce_row_count e)) else m)"

abbreviation range_map :: "CoverageSetEntryV2 list \<Rightarrow> (entry_scope \<rightharpoonup> u64 \<times> u64)" where
  "range_map ds \<equiv> fold note_range ds Map.empty"

lemma ordered_snoc:
  "ordered_entries (ds @ [e]) \<longleftrightarrow> ordered_entries ds \<and> (\<forall>d \<in> set ds. entry_ord d < entry_ord e \<and> separated d e)"
  by (simp add: ordered_entries_def sorted_wrt_append)

lemma ordered_last:
  assumes "ordered_entries ds"
  shows "(\<forall>d \<in> set ds. entry_ord d < entry_ord e) \<longleftrightarrow> ds = [] \<or> entry_ord (last ds) < entry_ord e"
proof (cases ds rule: rev_cases)
  case (snoc ys y)
  with assms show ?thesis by (auto simp: ordered_snoc dest: less_trans)
qed simp

lemma range_map_sound:
  assumes "ordered_entries ds"
  shows "case range_map ds s of
           None \<Rightarrow> \<forall>d \<in> set ds. \<not> (RR d \<and> entry_scope d = s)
         | Some (a, n) \<Rightarrow> (\<exists>d \<in> set ds. RR d \<and> entry_scope d = s \<and> a = ce_row_start d \<and> n = ce_row_count d) \<and>
             (\<forall>d \<in> set ds. RR d \<and> entry_scope d = s \<longrightarrow> entry_end d \<le> unat a + unat n)"
  using assms
proof (induction ds rule: rev_induct)
  case (snoc e ds)
  then have o: "ordered_entries ds" "\<And>d. d \<in> set ds \<Longrightarrow> separated d e" by (auto simp: ordered_snoc)
  show ?case
  proof (cases "RR e \<and> entry_scope e = s")
    case True
    then have "range_map (ds @ [e]) s = Some (ce_row_start e, ce_row_count e)" by (simp add: note_range_def)
    moreover have "entry_end d \<le> entry_end e" if "d \<in> set ds" "RR d" "entry_scope d = s" for d
      using o(2) [OF that(1)] that True by (simp add: separated_def entry_end_def)
    ultimately show ?thesis using True by (auto simp: entry_end_def)
  next
    case False
    then have "range_map (ds @ [e]) s = range_map ds s" by (auto simp: note_range_def)
    with snoc.IH [OF o(1)] False show ?thesis by (auto split: option.splits)
  qed
qed simp

lemma range_check:
  assumes "ordered_entries ds" and "ends_fit ds" and "RR e"
  shows "(case range_map ds (entry_scope e) of
           None \<Rightarrow> Ok ()
         | Some (start, count) \<Rightarrow>
             and_then (checked_end start count) (\<lambda>previous_end.
             fail_if (ce_row_start e < previous_end) BadCoverage)) = Ok () \<longleftrightarrow>
         (\<forall>d \<in> set ds. separated d e)"
proof (cases "range_map ds (entry_scope e)")
  case None
  with range_map_sound [OF assms(1), of "entry_scope e"] show ?thesis by (auto simp: separated_def)
next
  case (Some p)
  obtain a n where p: "p = (a, n)" by (cases p)
  with Some range_map_sound [OF assms(1), of "entry_scope e"] obtain d where
    d: "d \<in> set ds" "RR d" "entry_scope d = entry_scope e" "a = ce_row_start d" "n = ce_row_count d" and
    mx: "\<And>d'. d' \<in> set ds \<Longrightarrow> RR d' \<Longrightarrow> entry_scope d' = entry_scope e \<Longrightarrow> entry_end d' \<le> unat a + unat n"
    by auto
  have fit: "unat a + unat n < usize_bound"
    using assms(2) d by (auto simp: ends_fit_def entry_end_def list_all_iff)
  then have "unat (a + n) = unat a + unat n" using unat_add_lem [of a n] by simp
  then have "\<not> ce_row_start e < a + n \<longleftrightarrow> unat a + unat n \<le> unat (ce_row_start e)"
    by (simp add: word_less_nat_alt not_less)
  with fit have "(case range_map ds (entry_scope e) of None \<Rightarrow> Ok () | Some (start, count) \<Rightarrow>
       and_then (checked_end start count) (\<lambda>previous_end.
       fail_if (ce_row_start e < previous_end) BadCoverage)) = Ok () \<longleftrightarrow> unat a + unat n \<le> unat (ce_row_start e)"
    using Some p by (simp add: result_simps)
  also have "\<dots> \<longleftrightarrow> (\<forall>d \<in> set ds. separated d e)"
    using d mx assms(3) by (force simp: separated_def entry_end_def)
  finally show ?thesis .
qed

lemma validate_loop_iff:
  assumes "ordered_entries ds" and "ends_fit (ds @ es)"
  shows "validate_coverage_entries_loop (if ds = [] then None else Some (last ds)) (range_map ds) es = Ok () \<longleftrightarrow>
         ordered_entries (ds @ es)"
  using assms
proof (induction es arbitrary: ds)
  case (Cons e es)
  let ?prev = "if ds = [] then None else Some (last ds)"
  have fit: "ends_fit ds" "ends_fit ((ds @ [e]) @ es)" using Cons.prems(2) by (simp_all add: ends_fit_def)
  have ord: "(case ?prev of None \<Rightarrow> Ok () | Some previous \<Rightarrow> fail_if (entry_ord e \<le> entry_ord previous) BadCoverage) = Ok ()
      \<longleftrightarrow> (\<forall>d \<in> set ds. entry_ord d < entry_ord e)"
    by (simp add: ordered_last [OF Cons.prems(1)] result_simps not_le)
  have nxt: "(if ds @ [e] = [] then None else Some (last (ds @ [e]))) = Some e" by simp
  show ?case
  proof (cases "ordered_entries (ds @ [e])")
    case True
    define m where "m = range_map ds"
    have rm: "range_map (ds @ [e]) = (if RR e then m(entry_scope e \<mapsto> (ce_row_start e, ce_row_count e)) else m)"
      by (simp add: note_range_def m_def)
    from True Cons.IH [OF True fit(2)] ord range_check [OF Cons.prems(1) fit(1), of e] show ?thesis
      unfolding rm nxt m_def [symmetric] by (auto simp: ordered_snoc result_simps Let_def fun_upd_def)
  next
    case False
    then have "\<not> ordered_entries (ds @ e # es)"
      by (auto simp: ordered_entries_def sorted_wrt_append)
    moreover from False have "(\<exists>d \<in> set ds. \<not> entry_ord d < entry_ord e) \<or> RR e \<and> (\<exists>d \<in> set ds. \<not> separated d e)"
      using Cons.prems(1) by (auto simp: ordered_snoc separated_def)
    ultimately show ?thesis using ord range_check [OF Cons.prems(1) fit(1), of e]
      by (auto simp: result_simps Let_def)
  qed
qed simp

lemma validate_iff_ordered:
  "ends_fit es \<Longrightarrow> validate_coverage_entries es = Ok () \<longleftrightarrow> ordered_entries es"
  using validate_loop_iff [of "[]" es] by (simp add: validate_coverage_entries_def ordered_entries_def)

section \<open>Coalescing\<close>

text \<open>
  Coalescing without the accumulator: \<open>l\<close> is the entry that may still grow, \<open>touches l e\<close> that the
  next one joins it, and \<open>extend l e\<close> the joined entry.
\<close>

definition touches :: "CoverageSetEntryV2 \<Rightarrow> CoverageSetEntryV2 \<Rightarrow> bool" where
  "touches l e \<longleftrightarrow> RR l \<and> RR e \<and> entry_scope l = entry_scope e \<and> unat (ce_row_start e) \<le> entry_end l"

definition extend_entry :: "CoverageSetEntryV2 \<Rightarrow> CoverageSetEntryV2 \<Rightarrow> CoverageSetEntryV2" where
  "extend_entry l e = l\<lparr>ce_row_count :=
     max (if ce_row_start e + ce_row_count e < ce_row_start l then 0 else ce_row_start e + ce_row_count e - ce_row_start l)
         (ce_row_count l)\<rparr>"

fun joined :: "CoverageSetEntryV2 \<Rightarrow> CoverageSetEntryV2 list \<Rightarrow> CoverageSetEntryV2 list" where
  "joined l [] = [l]"
| "joined l (e # es) = (if touches l e then joined (extend_entry l e) es else l # joined e es)"

lemma unat_end: "entry_end e < usize_bound \<Longrightarrow> unat (ce_row_start e + ce_row_count e) = entry_end e"
  using unat_add_lem [of "ce_row_start e" "ce_row_count e"] by (simp add: entry_end_def)

lemma extend_simps [simp]:
  "ce_row_start (extend_entry l e) = ce_row_start l" "entry_group (extend_entry l e) = entry_group l"
  "entry_scope (extend_entry l e) = entry_scope l" "ce_target_kind (extend_entry l e) = ce_target_kind l"
  by (simp_all add: extend_entry_def entry_group_def entry_scope_def)

lemma entry_end_extend:
  assumes "entry_end l < usize_bound" and "entry_end e < usize_bound"
  shows "entry_end (extend_entry l e) = max (entry_end l) (entry_end e)"
proof (cases "ce_row_start e + ce_row_count e < ce_row_start l")
  case True
  then have "entry_end e < unat (ce_row_start l)" by (simp add: word_less_nat_alt unat_end [OF assms(2)])
  with True show ?thesis by (simp add: extend_entry_def entry_end_def)
next
  case False
  then have le: "ce_row_start l \<le> ce_row_start e + ce_row_count e" by simp
  then have "unat (ce_row_start l) \<le> entry_end e" by (simp add: word_le_nat_alt unat_end [OF assms(2)])
  moreover have "unat (ce_row_start e + ce_row_count e - ce_row_start l) = entry_end e - unat (ce_row_start l)"
    using le by (simp add: unat_sub unat_end [OF assms(2)])
  ultimately show ?thesis using False
    by (auto simp: extend_entry_def entry_end_def max_def word_le_nat_alt)
qed

lemma coalesce_loop_joined:
  assumes "ends_fit (l # es)"
  shows "coalesce_loop (l # out) es = Ok (rev out @ joined l es)"
  using assms
proof (induction es arbitrary: l out)
  case (Cons e es)
  have fit: "ends_fit (e # es)" using Cons.prems by (simp add: ends_fit_def)
  show ?case
  proof (cases "RR l \<and> RR e \<and> entry_scope l = entry_scope e")
    case True
    then have f: "entry_end l < usize_bound" "entry_end e < usize_bound"
      using Cons.prems by (simp_all add: ends_fit_def)
    have fe: "ends_fit (extend_entry l e # es)"
      using Cons.prems True by (simp add: ends_fit_def entry_end_extend)
    have c: "checked_end (ce_row_start l) (ce_row_count l) = Ok (ce_row_start l + ce_row_count l)"
      "checked_end (ce_row_start e) (ce_row_count e) = Ok (ce_row_start e + ce_row_count e)"
      using f by (simp_all add: result_simps entry_end_def)
    have t: "ce_row_start e \<le> ce_row_start l + ce_row_count l \<longleftrightarrow> touches l e"
      using True f(1) by (simp add: word_le_nat_alt unat_end [OF f(1)] touches_def)
    have s: "ce_file_ref l = ce_file_ref e" "ce_table_id l = ce_table_id e" "ce_segment_id l = ce_segment_id e"
      "ce_morsel_id l = ce_morsel_id e" using True by (simp_all add: entry_scope_def)
    from True s c t Cons.IH [OF fe, of out] Cons.IH [OF fit, of "l # out"] show ?thesis
      by (simp add: Let_def extend_entry_def)
  next
    case False
    then have "\<not> touches l e" by (auto simp: touches_def)
    with False Cons.IH [OF fit, of "l # out"] show ?thesis
      by (auto simp: entry_scope_def)
  qed
qed simp

lemma coalesce_loop_Nil: "ends_fit es \<Longrightarrow> coalesce_loop [] es = Ok (case es of [] \<Rightarrow> [] | e # es \<Rightarrow> joined e es)"
  by (cases es) (simp_all add: coalesce_loop_joined)

text \<open>
  Coalescing never changes where an entry starts, so what it keeps of the order is the position
  \<open>entry_pos\<close>; a list is \<open>lined_up\<close> when positions do not decrease and only row ranges may share one.
\<close>

definition entry_pos where "entry_pos e = (entry_group e, ce_row_start e)"

definition behind :: "CoverageSetEntryV2 \<Rightarrow> CoverageSetEntryV2 \<Rightarrow> bool" where
  "behind a b \<longleftrightarrow> entry_pos a \<le> entry_pos b \<and> (\<not> RR a \<longrightarrow> entry_ord a < entry_ord b)"

abbreviation lined_up :: "CoverageSetEntryV2 list \<Rightarrow> bool" where "lined_up \<equiv> sorted_wrt behind"

lemma lex_prefix:
  fixes a a' :: "'a::linorder" and b b' :: "'b::linorder" and c c' :: "'c::linorder"
  shows "(a, b, c) < (a', b', c') \<Longrightarrow> (a, b) \<le> (a', b')"
    and "(a, b) < (a', b') \<Longrightarrow> (a, b, c) < (a', b', c')"
    and "(a, b) \<le> (a, b') \<Longrightarrow> b \<le> b'"
    and "(a, b) \<le> (a', b') \<Longrightarrow> (a', b') \<le> (a, b'') \<Longrightarrow> a' = a"
  by auto

lemma entry_ord_pos: "entry_ord a < entry_ord b \<Longrightarrow> entry_pos a \<le> entry_pos b"
  "entry_pos a < entry_pos b \<Longrightarrow> entry_ord a < entry_ord b"
  unfolding entry_ord_def entry_pos_def by (fact lex_prefix)+

lemma entry_pos_start: "entry_pos a \<le> entry_pos b \<Longrightarrow> entry_group a = entry_group b \<Longrightarrow> ce_row_start a \<le> ce_row_start b"
  using lex_prefix(3) [of "entry_group a" "ce_row_start a" "ce_row_start b"] by (simp only: entry_pos_def)

lemma entry_pos_between:
  "entry_pos a \<le> entry_pos e \<Longrightarrow> entry_pos e \<le> entry_pos b \<Longrightarrow> entry_group a = entry_group b \<Longrightarrow> entry_group e = entry_group a"
  using lex_prefix(4) [of "entry_group a" "ce_row_start a" "entry_group e" "ce_row_start e" "ce_row_start b"]
  by (simp only: entry_pos_def)

lemma entry_pos_extend [simp]: "entry_pos (extend_entry l e) = entry_pos l"
  by (simp add: entry_pos_def)

lemma pos_same: "entry_pos a = entry_pos b \<Longrightarrow> entry_scope a = entry_scope b \<and> (RR a \<longleftrightarrow> RR b)"
  using group_scope [of a b] by (simp add: entry_pos_def)

lemma joined_from:
  "x \<in> set (joined l es) \<Longrightarrow> \<exists>e \<in> set (l # es). entry_pos x = entry_pos e \<and> (\<not> RR x \<longrightarrow> x = e)"
proof (induction l es rule: joined.induct)
  case (2 l e es)
  show ?case
  proof (cases "touches l e")
    case True
    then obtain e' where e: "e' \<in> set (extend_entry l e # es)" "entry_pos x = entry_pos e'" "\<not> RR x \<longrightarrow> x = e'"
      using 2(1) 2(3) by (metis joined.simps(2))
    show ?thesis
    proof (cases "e' = extend_entry l e")
      case True
      then have "entry_pos x = entry_pos l" "RR x" using e \<open>touches l e\<close> pos_same [of x l] by (simp_all add: touches_def)
      then show ?thesis by auto
    next
      case False
      with e show ?thesis by auto
    qed
  next
    case False
    with 2 show ?thesis by auto
  qed
qed auto

lemma joined_other: "filter (\<lambda>e. \<not> RR e) (joined l es) = filter (\<lambda>e. \<not> RR e) (l # es)"
  by (induction l es rule: joined.induct) (auto simp: touches_def)

lemma joined_fit: "ends_fit (l # es) \<Longrightarrow> ends_fit (joined l es)"
proof (induction l es rule: joined.induct)
  case (2 l e es)
  then show ?case
    by (auto simp: ends_fit_def touches_def entry_end_extend)
qed simp


lemma uniformD:
  "uniform es \<Longrightarrow> a \<in> set es \<Longrightarrow> b \<in> set es \<Longrightarrow> RR a \<Longrightarrow> RR b \<Longrightarrow> entry_scope a = entry_scope b \<Longrightarrow>
     entry_group a = entry_group b"
  unfolding uniform_def list_all_iff agree_def by blast

lemma uniform_subset: "uniform fs \<Longrightarrow> set es \<subseteq> set fs \<Longrightarrow> uniform es"
  unfolding uniform_def list_all_iff by blast

lemma ends_fit_subset: "ends_fit fs \<Longrightarrow> set es \<subseteq> set fs \<Longrightarrow> ends_fit es"
  unfolding ends_fit_def list_all_iff by blast

lemma behind_extend [simp]: "RR l \<Longrightarrow> behind (extend_entry l e) x \<longleftrightarrow> behind l x"
  by (simp add: behind_def)

lemma agree_extend [simp]:
  "agree (extend_entry l e) x \<longleftrightarrow> agree l x" "agree x (extend_entry l e) \<longleftrightarrow> agree x l"
  by (simp_all add: agree_def)

lemma lined_up_extend: "lined_up (l # e # es) \<Longrightarrow> RR l \<Longrightarrow> lined_up (extend_entry l e # es)"
  by simp

lemma uniform_extend: "uniform (l # e # es) \<Longrightarrow> uniform (extend_entry l e # es)"
  by (simp add: uniform_def list_all_iff)

lemma covered_Cons:
  "covered_rows (e # es) =
     (if RR e then {(entry_scope e, r) | r. unat (ce_row_start e) \<le> r \<and> r < entry_end e} else {}) \<union> covered_rows es"
  by (auto simp: covered_rows_def)

lemma joined_covers:
  assumes "lined_up (l # es)" and "uniform (l # es)" and "ends_fit (l # es)"
  shows "covered_rows (joined l es) = covered_rows (l # es)"
  using assms
proof (induction l es rule: joined.induct)
  case (2 l e es)
  have sub: "lined_up (e # es)" "uniform (e # es)" "ends_fit (e # es)"
    using 2(3) uniform_subset [OF 2(4), of "e # es"] ends_fit_subset [OF 2(5), of "e # es"] by auto
  show ?case
  proof (cases "touches l e")
    case True
    then have r: "RR l" "RR e" "entry_scope l = entry_scope e" "unat (ce_row_start e) \<le> entry_end l"
      by (simp_all add: touches_def)
    then have f: "entry_end l < usize_bound" "entry_end e < usize_bound" using 2(5) by (simp_all add: ends_fit_def)
    have g: "entry_group l = entry_group e" by (rule uniformD [OF 2(4)]) (use r in simp_all)
    moreover have "entry_pos l \<le> entry_pos e" using 2(3) by (simp add: behind_def)
    ultimately have s: "unat (ce_row_start l) \<le> unat (ce_row_start e)"
      using entry_pos_start [of l e] by (simp add: word_le_nat_alt)
    have "lined_up (extend_entry l e # es)" using 2(3) r(1) by (rule lined_up_extend)
    moreover have "uniform (extend_entry l e # es)" using 2(4) by (rule uniform_extend)
    moreover have "ends_fit (extend_entry l e # es)" using 2(5) f by (simp add: ends_fit_def entry_end_extend)
    ultimately have "covered_rows (joined (extend_entry l e) es) = covered_rows (extend_entry l e # es)"
      using 2(1) True by blast
    also have "\<dots> = covered_rows (l # e # es)"
      using r s entry_end_extend [OF f] unfolding covered_Cons [of "extend_entry l e"] covered_Cons [of l] covered_Cons [of e]
      by auto
    finally show ?thesis using True by simp
  next
    case False
    with 2(2) sub show ?thesis by (simp add: covered_Cons [of l])
  qed
qed simp

lemma joined_ordered:
  assumes "lined_up (l # es)" and "uniform (l # es)" and "ends_fit (l # es)"
  shows "ordered_entries (joined l es)"
  using assms
proof (induction l es rule: joined.induct)
  case (2 l e es)
  have sub: "lined_up (e # es)" "uniform (e # es)" "ends_fit (e # es)"
    using 2(3) uniform_subset [OF 2(4), of "e # es"] ends_fit_subset [OF 2(5), of "e # es"] by auto
  show ?case
  proof (cases "touches l e")
    case True
    then have r: "RR l" "RR e" by (simp_all add: touches_def)
    then have f: "entry_end l < usize_bound" "entry_end e < usize_bound" using 2(5) by (simp_all add: ends_fit_def)
    have "lined_up (extend_entry l e # es)" using 2(3) r(1) by (rule lined_up_extend)
    moreover have "uniform (extend_entry l e # es)" using 2(4) by (rule uniform_extend)
    moreover have "ends_fit (extend_entry l e # es)" using 2(5) f by (simp add: ends_fit_def entry_end_extend)
    ultimately show ?thesis using 2(1) True by simp
  next
    case False
    have "entry_ord l < entry_ord x \<and> separated l x" if x: "x \<in> set (joined e es)" for x
    proof -
      obtain y where y: "y \<in> set (e # es)" "entry_pos x = entry_pos y" "\<not> RR x \<longrightarrow> x = y"
        using joined_from [OF x] by blast
      have by': "behind l y" using 2(3) y(1) by auto
      have ey: "entry_pos e \<le> entry_pos y" using sub(1) y(1) by (auto simp: behind_def)
      have le: "entry_pos l \<le> entry_pos e" using 2(3) by (simp add: behind_def)
      have sep: "separated l x" unfolding separated_def
      proof
        assume a: "RR l \<and> RR x \<and> entry_scope l = entry_scope x"
        then have "entry_group l = entry_group y"
          using uniformD [OF 2(4), of l y] y(1) pos_same [OF y(2)] by auto
        then have g: "entry_group e = entry_group l" "ce_row_start e \<le> ce_row_start y"
          using entry_pos_between [OF le ey] entry_pos_start [OF ey] by simp_all
        then have "RR e" "entry_scope e = entry_scope l" using group_scope [of e l] a by auto
        with False a have "entry_end l < unat (ce_row_start e)" by (simp add: touches_def)
        also have "\<dots> \<le> unat (ce_row_start x)" using g(2) y(2) by (simp add: entry_pos_def word_le_nat_alt)
        finally show "entry_end l \<le> unat (ce_row_start x)" by simp
      qed
      moreover have "entry_ord l < entry_ord x"
      proof (cases "RR l \<and> entry_pos l = entry_pos y")
        case True
        then have p: "entry_pos l = entry_pos x" using y(2) by simp
        with pos_same [OF p] True sep have "entry_end l \<le> unat (ce_row_start x)" by (auto simp: separated_def)
        moreover have "ce_row_start x = ce_row_start l" using p by (simp add: entry_pos_def)
        moreover have "entry_pos e = entry_pos l" using le ey True by simp
        ultimately have "touches l e"
          using True pos_same [of e l] by (auto simp: touches_def entry_end_def entry_pos_def)
        with False show ?thesis by simp
      next
        case other: False
        show ?thesis
        proof (cases "entry_pos l = entry_pos y")
          case True
          with other have "\<not> RR l" by simp
          moreover from this have "x = y" using y(3) pos_same [OF True] pos_same [OF y(2)] by blast
          ultimately show ?thesis using by' by (simp add: behind_def)
        next
          case False
          with by' y(2) have "entry_pos l < entry_pos x" by (simp add: behind_def order.strict_iff_order)
          then show ?thesis by (rule entry_ord_pos)
        qed
      qed
      ultimately show ?thesis by simp
    qed
    with 2(2) False sub show ?thesis by (simp add: ordered_entries_def)
  qed
qed (simp add: ordered_entries_def)

text \<open>Sorted by the derived order and free of repeated entries, a list is lined up.\<close>

lemma lined_up_sorted:
  assumes "sorted_wrt (\<lambda>a b. entry_ord a < entry_ord b) es" shows "lined_up es"
  by (rule sorted_wrt_mono_rel [OF _ assms]) (simp add: behind_def entry_ord_pos(1))

lemma coalesce_ok:
  assumes "sorted_wrt (\<lambda>a b. entry_ord a < entry_ord b) es" and "uniform es" and "ends_fit es"
  shows "\<exists>out. coalesce_row_ranges es = Ok out \<and> ordered_entries out \<and> covered_rows out = covered_rows es \<and>
           filter (\<lambda>e. \<not> RR e) out = filter (\<lambda>e. \<not> RR e) es"
proof -
  have "sorted (map entry_ord es)"
    using assms(1) by (intro strict_sorted_imp_sorted) (simp only: sorted_wrt_map)
  then have s: "sort_key entry_ord es = es" by (rule sort_key_id_if_sorted)
  show ?thesis
  proof (cases es)
    case Nil
    then show ?thesis by (simp add: coalesce_row_ranges_def validate_coverage_entries_def ordered_entries_def)
  next
    case (Cons l ls)
    have l: "lined_up (l # ls)" using lined_up_sorted [OF assms(1)] Cons by simp
    have u: "uniform (l # ls)" "ends_fit (l # ls)" using assms(2,3) Cons by simp_all
    have oo: "ordered_entries (joined l ls)" by (rule joined_ordered [OF l u])
    moreover have "validate_coverage_entries (joined l ls) = Ok ()"
      using oo joined_fit [OF u(2)] by (simp add: validate_iff_ordered)
    ultimately show ?thesis
      using s Cons coalesce_loop_Nil [OF assms(3)] joined_covers [OF l u] joined_other [of l ls]
      by (simp add: coalesce_row_ranges_def)
  qed
qed


lemma union_sorted:
  "sorted_wrt (\<lambda>a b. entry_ord a < entry_ord b) (remdups_adj (sort_key entry_ord es))"
proof -
  have "distinct (remdups_adj (map entry_ord (sort_key entry_ord es)))"
    by (rule distinct_remdups_adj) simp
  moreover have "map entry_ord (remdups_adj (sort_key entry_ord es)) = remdups_adj (map entry_ord (sort_key entry_ord es))"
    by (rule remdups_adj_map_injective [symmetric]) (simp add: inj_def entry_ord_inject)
  moreover have "sorted (remdups_adj (map entry_ord (sort_key entry_ord es)))"
    by (rule sorted_remdups_adj) simp
  ultimately have "sorted_wrt (<) (map entry_ord (remdups_adj (sort_key entry_ord es)))"
    by (simp add: strict_sorted_iff)
  then show ?thesis by (simp only: sorted_wrt_map)
qed

lemma covered_rows_set: "set es = set fs \<Longrightarrow> covered_rows es = covered_rows fs"
  by (simp add: covered_rows_def)

lemma covered_append: "covered_rows (es @ fs) = covered_rows es \<union> covered_rows fs"
  by (auto simp: covered_rows_def)

lemma coverage_union_ok:
  assumes "uniform (left @ right)" and "ends_fit (left @ right)"
  shows "\<exists>out. coverage_union left right = Ok out \<and> validate_coverage_entries out = Ok () \<and>
           covered_rows out = covered_rows left \<union> covered_rows right \<and>
           {e \<in> set out. \<not> RR e} = {e \<in> set left \<union> set right. \<not> RR e}"
proof -
  let ?es = "remdups_adj (sort_key entry_ord (left @ right))"
  have s: "set ?es = set (left @ right)" by simp
  obtain out where out: "coalesce_row_ranges ?es = Ok out" "covered_rows out = covered_rows ?es"
    "filter (\<lambda>e. \<not> RR e) out = filter (\<lambda>e. \<not> RR e) ?es"
    using coalesce_ok [OF union_sorted uniform_subset [OF assms(1)] ends_fit_subset [OF assms(2)], of "left @ right"]
    by auto
  have "{e \<in> set out. \<not> RR e} = {e \<in> set ?es. \<not> RR e}"
    using arg_cong [OF out(3), of set] by simp
  moreover have "validate_coverage_entries out = Ok ()"
    using out(1) by (auto simp: coalesce_row_ranges_def result_simps)
  ultimately show ?thesis
    using out covered_rows_set [OF s] by (auto simp: coverage_union_def covered_append)
qed


lemma strictly_sorted_unique:
  assumes "sorted_wrt (\<lambda>a b. entry_ord a < entry_ord b) xs" and "sorted_wrt (\<lambda>a b. entry_ord a < entry_ord b) ys"
    and "set xs = set ys"
  shows "xs = ys"
proof -
  have "sorted_wrt (<) (map entry_ord xs)" "sorted_wrt (<) (map entry_ord ys)"
    using assms(1,2) by (simp_all only: sorted_wrt_map)
  moreover have "set (map entry_ord xs) = set (map entry_ord ys)" using assms(3) by simp
  ultimately have "map entry_ord xs = map entry_ord ys"
    by (meson strict_sorted_equal)
  then show ?thesis by (rule map_injective) (simp add: inj_def entry_ord_inject)
qed

lemma ordered_strict: "ordered_entries es \<Longrightarrow> sorted_wrt (\<lambda>a b. entry_ord a < entry_ord b) es"
  unfolding ordered_entries_def using sorted_wrt_mono_rel [of es] by (metis (mono_tags, lifting))

lemma ordered_filter: "ordered_entries es \<Longrightarrow> ordered_entries (filter P es)"
  by (simp add: ordered_entries_def sorted_wrt_filter)

lemma coarsen_ordered:
  assumes "ordered_entries es" and "uniform es" and "ends_fit es"
  shows "\<exists>out. coverage_coarsen es = Ok out \<and> validate_coverage_entries out = Ok () \<and>
           covered_rows out = covered_rows es \<and> filter (\<lambda>e. \<not> RR e) out = filter (\<lambda>e. \<not> RR e) es"
  using coalesce_ok [OF ordered_strict [OF assms(1)] assms(2,3)]
  by (auto simp: coverage_coarsen_def coalesce_row_ranges_def result_simps)

section \<open>Properties\<close>

text \<open>C33: Validation accepts exactly the lists that are strictly increasing in the derived order and in
  which the row ranges of one scope are pairwise separate.\<close>

theorem validate_accepts_exactly:
  assumes "ends_fit es"
  shows "validate_coverage_entries es = Ok () \<longleftrightarrow> ordered_entries es"
  using assms by (rule validate_iff_ordered)

definition sample_range :: "u16 \<Rightarrow> u64 \<Rightarrow> u64 \<Rightarrow> CoverageSetEntryV2" where
  "sample_range flags start count =
     \<lparr>ce_target_kind = CG_RowRange, ce_flags = flags, ce_file_ref = 1, ce_table_id = 2, ce_segment_id = 3,
      ce_morsel_id = ABSENT_ID, ce_page_ref = ABSENT_ID, ce_object_type_id = ABSENT_ID, ce_path_ref = ABSENT_ID,
      ce_dimensional_bucket_ref = ABSENT_ID, ce_row_start = start, ce_row_count = count,
      ce_row_ordinal_bitmap_ref = ABSENT_ID, ce_byte_range_ref = ABSENT_ID, ce_checksum = 0\<rparr>"

lemma sample_simps [simp]:
  "ce_target_kind (sample_range f s c) = CG_RowRange" "ce_row_start (sample_range f s c) = s"
  "ce_row_count (sample_range f s c) = c" "entry_scope (sample_range f s c) = (1, 2, 3, ABSENT_ID)"
  "entry_end (sample_range f s c) = unat s + unat c"
  by (simp_all add: sample_range_def entry_scope_def entry_end_def)

lemma sample_group: "entry_group (sample_range f s c) = entry_group (sample_range f' s' c') \<longleftrightarrow> f = f'"
  by (simp add: sample_range_def entry_group_def)

theorem validate_accepts_exactly_witness:
  "validate_coverage_entries [sample_range 0 0 10, sample_range 0 20 10] = Ok () \<longleftrightarrow>
     ordered_entries [sample_range 0 0 10, sample_range 0 20 10]"
  by (rule validate_accepts_exactly) (simp add: ends_fit_def)

text \<open>C8: The union of two coverage sets whose row ranges agree within each scope succeeds, is a valid coverage
  set, covers exactly the rows either covers, and keeps every other fragment of both.\<close>

theorem coverage_union_exact:
  assumes "uniform (left @ right)" and "ends_fit (left @ right)"
  shows "\<exists>out. coverage_union left right = Ok out \<and> validate_coverage_entries out = Ok () \<and>
           covered_rows out = covered_rows left \<union> covered_rows right \<and>
           {e \<in> set out. \<not> RR e} = {e \<in> set left \<union> set right. \<not> RR e}"
  using assms by (rule coverage_union_ok)

theorem coverage_union_exact_witness:
  "\<exists>out. coverage_union [sample_range 0 0 10] [sample_range 0 5 10] = Ok out \<and> validate_coverage_entries out = Ok () \<and>
     covered_rows out = covered_rows [sample_range 0 0 10] \<union> covered_rows [sample_range 0 5 10] \<and>
     {e \<in> set out. \<not> RR e} = {e \<in> set [sample_range 0 0 10] \<union> set [sample_range 0 5 10]. \<not> RR e}"
  by (rule coverage_union_exact) (simp_all add: uniform_def agree_def ends_fit_def sample_group)

text \<open>The union does not depend on the order of its arguments.\<close>

theorem coverage_union_commute: "coverage_union left right = coverage_union right left"
proof -
  have "remdups_adj (sort_key entry_ord (left @ right)) = remdups_adj (sort_key entry_ord (right @ left))"
    by (rule strictly_sorted_unique [OF union_sorted union_sorted]) auto
  then show ?thesis by (simp add: coverage_union_def)
qed

text \<open>C34: Without agreement the union loses rows: for two valid sets whose ranges of one scope carry different
  flags, the entry that sorts second is absorbed although it starts below the first.\<close>

theorem coverage_union_loses_rows:
  "\<exists>left right out. validate_coverage_entries left = Ok () \<and> validate_coverage_entries right = Ok () \<and>
     coverage_union left right = Ok out \<and> ((1, 2, 3, ABSENT_ID), 3) \<in> covered_rows right \<and>
     ((1, 2, 3, ABSENT_ID), 3) \<notin> covered_rows out"
proof (intro exI conjI)
  let ?a = "sample_range 0 100 10" and ?b = "sample_range 1 0 5"
  have lt: "entry_ord ?a < entry_ord ?b" by (simp add: entry_ord_def entry_group_def sample_range_def)
  show "validate_coverage_entries [?a] = Ok ()" "validate_coverage_entries [?b] = Ok ()"
    by (simp_all add: validate_coverage_entries_def)
  have s: "sort_key entry_ord [?a, ?b] = [?a, ?b]" using lt by (simp add: sort_key_id_if_sorted less_imp_le)
  have ne: "?a \<noteq> ?b" using lt by auto
  have f: "?a\<lparr>ce_row_count := 10\<rparr> = ?a" by (simp add: sample_range_def)
  have j: "joined ?a [?b] = [?a]" by (simp add: touches_def extend_entry_def f)
  have e: "ends_fit [?a, ?b]" by (simp add: ends_fit_def)
  show "coverage_union [?a] [?b] = Ok [?a]"
    using s ne j coalesce_loop_Nil [OF e]
    by (simp add: coverage_union_def coalesce_row_ranges_def validate_coverage_entries_def)
  show "((1, 2, 3, ABSENT_ID), 3) \<in> covered_rows [?b]" by (simp add: covered_rows_def)
  show "((1, 2, 3, ABSENT_ID), 3) \<notin> covered_rows [?a]" by (simp add: covered_rows_def)
qed

text \<open>Coarsening a valid set whose ranges agree within each scope keeps exactly the rows it covers.\<close>

theorem coverage_coarsen_exact:
  assumes "validate_coverage_entries es = Ok ()" and "uniform es" and "ends_fit es"
  shows "\<exists>out. coverage_coarsen es = Ok out \<and> validate_coverage_entries out = Ok () \<and>
           covered_rows out = covered_rows es \<and> filter (\<lambda>e. \<not> RR e) out = filter (\<lambda>e. \<not> RR e) es"
  using coarsen_ordered [of es] assms by (simp add: validate_iff_ordered)

theorem coverage_coarsen_exact_witness:
  "\<exists>out. coverage_coarsen [sample_range 0 0 10] = Ok out \<and> validate_coverage_entries out = Ok () \<and>
     covered_rows out = covered_rows [sample_range 0 0 10] \<and>
     filter (\<lambda>e. \<not> RR e) out = filter (\<lambda>e. \<not> RR e) [sample_range 0 0 10]"
  by (rule coverage_coarsen_exact) (simp_all add: validate_coverage_entries_def uniform_def agree_def ends_fit_def)

text \<open>The intersection of two valid sets is valid and keeps the common entries only; it never covers a row
  that one of them does not.\<close>

theorem coverage_intersection_common:
  assumes "validate_coverage_entries left = Ok ()" and "ends_fit left"
  shows "\<exists>out. coverage_intersection left right = Ok out \<and> validate_coverage_entries out = Ok () \<and>
           set out = set left \<inter> set right \<and> covered_rows out \<subseteq> covered_rows left \<inter> covered_rows right"
proof -
  let ?out = "filter (\<lambda>e. e \<in> set right) left"
  have "ends_fit ?out" using assms(2) by (rule ends_fit_subset) auto
  moreover have "ordered_entries ?out" using assms by (simp add: validate_iff_ordered ordered_filter)
  ultimately have "validate_coverage_entries ?out = Ok ()" by (simp add: validate_iff_ordered)
  then show ?thesis by (auto simp: coverage_intersection_def covered_rows_def)
qed

theorem coverage_intersection_common_witness:
  "(\<exists>out. coverage_intersection [sample_range 0 0 10] [sample_range 0 5 10] = Ok out \<and>
      validate_coverage_entries out = Ok () \<and>
      set out = set [sample_range 0 0 10] \<inter> set [sample_range 0 5 10] \<and>
      covered_rows out \<subseteq> covered_rows [sample_range 0 0 10] \<inter> covered_rows [sample_range 0 5 10]) \<and>
   sample_range 0 0 10 \<noteq> sample_range 0 5 10"
proof
  show "sample_range 0 0 10 \<noteq> sample_range 0 5 10" by (simp add: sample_range_def)
qed (rule coverage_intersection_common, simp_all add: validate_coverage_entries_def ends_fit_def)


text \<open>Intersection compares whole entries, so a row that two overlapping but different ranges both
  cover is not in the intersection.\<close>

theorem coverage_intersection_drops_overlap:
  "\<exists>left right out. validate_coverage_entries left = Ok () \<and> validate_coverage_entries right = Ok () \<and>
     coverage_intersection left right = Ok out \<and>
     ((1, 2, 3, ABSENT_ID), 7) \<in> covered_rows left \<inter> covered_rows right \<and>
     ((1, 2, 3, ABSENT_ID), 7) \<notin> covered_rows out"
proof (intro exI conjI)
  let ?a = "sample_range 0 0 10" and ?b = "sample_range 0 5 10"
  show "validate_coverage_entries [?a] = Ok ()" "validate_coverage_entries [?b] = Ok ()"
    by (simp_all add: validate_coverage_entries_def)
  have "?a \<noteq> ?b" by (simp add: sample_range_def)
  then show "coverage_intersection [?a] [?b] = Ok []"
    by (simp add: coverage_intersection_def validate_coverage_entries_def)
qed (simp_all add: covered_rows_def)

end
