(* ===== verification/Coverage_Records.thy ===== *)
theory Coverage_Records
  imports Coverage_Algebra
begin

text \<open>
  The fixed-size records of \<open>cove-coverage/src/lib.rs\<close>: predicate normal forms, plan candidates, proof
  records and provider descriptors, each with its validation, codec and table parser, and the
  binding of a proof record to the coverage set it vouches for.
\<close>

section \<open>Tables of identified records\<close>

text \<open>The loop of every \<open>parse_many\<close>: records are parsed in order and an identifier may occur once.\<close>

fun parse_many_loop :: "(bytes \<Rightarrow> 'r result) \<Rightarrow> ('r \<Rightarrow> u32) \<Rightarrow> u32 set \<Rightarrow> bytes list \<Rightarrow> 'r list result" where
  "parse_many_loop parse id_of ids [] = Ok []"
| "parse_many_loop parse id_of ids (chunk # chunks) =
     and_then (parse chunk) (\<lambda>r.
     if id_of r \<in> ids then Err BadCoverage
     else and_then (parse_many_loop parse id_of (insert (id_of r) ids) chunks) (\<lambda>rs. Ok (r # rs)))"

lemma parse_many_loop_Ok:
  "parse_many_loop parse id_of ids cs = Ok rs \<longleftrightarrow>
     collect_map parse cs = Ok rs \<and> distinct (map id_of rs) \<and> (\<forall>r \<in> set rs. id_of r \<notin> ids)"
proof (induction cs arbitrary: ids rs)
  case (Cons c cs)
  show ?case by (cases "parse c") (auto simp: result_simps Cons.IH image_iff, metis+)
qed auto

text \<open>
  What the table parsers rely on: a valid record is parsed back from its image, which has a fixed
  length, and sealing it with a checksum keeps its identifier.
\<close>

locale record_table =
  fixes parse :: "bytes \<Rightarrow> 'r result" and enc :: "'r \<Rightarrow> bytes" and sealed :: "'r \<Rightarrow> 'r"
    and valid :: "'r \<Rightarrow> bool" and id_of :: "'r \<Rightarrow> u32" and n :: nat
  assumes parse_enc: "valid r \<Longrightarrow> parse (enc r) = Ok (sealed r)"
    and length_enc: "length (enc r) = n"
    and pos: "0 < n"
    and id_sealed: "id_of (sealed r) = id_of r"
begin

lemma table_roundtrip:
  assumes "list_all valid rs" and "distinct (map id_of rs)"
  shows "parse_many_loop parse id_of {} (chunks_exact n (concat (map enc rs))) = Ok (map sealed rs)"
proof -
  have "chunks_exact n (concat (map enc rs)) = map enc rs"
    by (rule chunks_exact_concat) (simp_all add: length_enc pos)
  moreover have "collect_map parse (map enc rs) = Ok (map sealed rs)"
    using assms(1) by (induction rs) (simp_all add: parse_enc)
  moreover have "map id_of (map sealed rs) = map id_of rs" by (simp add: id_sealed)
  ultimately show ?thesis using assms(2) by (simp add: parse_many_loop_Ok comp_def id_sealed)
qed

lemma table_length: "length (concat (map enc rs)) mod n = 0"
  by (simp add: length_concat_uniform length_enc)

lemma table_ids: "parse_many_loop parse id_of {} cs = Ok rs \<Longrightarrow> distinct (map id_of rs) \<and> length rs = length cs"
  by (auto simp: parse_many_loop_Ok dest: collect_map_length)

end

section \<open>Predicate normal forms\<close>

datatype PredicateFormKindV2 =
    PFK_PredicateAst
  | PFK_PredicateCnf
  | PFK_IntervalPredicateForm
  | PFK_EncodedPredicateForm
  | PFK_EnginePrivate

primrec PredicateFormKindV2_code :: "PredicateFormKindV2 \<Rightarrow> u16" where
  "PredicateFormKindV2_code PFK_PredicateAst = 0"
| "PredicateFormKindV2_code PFK_PredicateCnf = 1"
| "PredicateFormKindV2_code PFK_IntervalPredicateForm = 2"
| "PredicateFormKindV2_code PFK_EncodedPredicateForm = 3"
| "PredicateFormKindV2_code PFK_EnginePrivate = 255"

definition PredicateFormKindV2_from_u16 :: "u16 \<Rightarrow> PredicateFormKindV2 option" where
  "PredicateFormKindV2_from_u16 v = map_of
     [(0, PFK_PredicateAst),
      (1, PFK_PredicateCnf),
      (2, PFK_IntervalPredicateForm),
      (3, PFK_EncodedPredicateForm),
      (255, PFK_EnginePrivate)] v"

interpretation predicateFormKindV2: wire_enum PredicateFormKindV2_code PredicateFormKindV2_from_u16
proof
  fix k show "PredicateFormKindV2_from_u16 (PredicateFormKindV2_code k) = Some k" by (cases k) (simp_all add: PredicateFormKindV2_from_u16_def)
next
  fix v k assume "PredicateFormKindV2_from_u16 v = Some k"
  then show "PredicateFormKindV2_code k = v" by (auto simp: PredicateFormKindV2_from_u16_def split: if_splits)
qed

definition PredicateNormalFormV2_LEN :: usize where "PredicateNormalFormV2_LEN = 32"

record PredicateNormalFormV2 =
  pnf_predicate_form_id :: u32
  pnf_form_kind :: PredicateFormKindV2
  pnf_flags :: u16
  pnf_logical_context_ref :: u32
  pnf_payload_offset :: u64
  pnf_payload_length :: u64
  pnf_checksum :: u32

definition PredicateNormalFormV2_image :: "PredicateNormalFormV2 \<Rightarrow> bytes" where
  "PredicateNormalFormV2_image h =
     (let out = replicate PredicateNormalFormV2_LEN 0;
          out = put 0 (le_bytes 4 (pnf_predicate_form_id h)) out;
          out = put 4 (le_bytes 2 (PredicateFormKindV2_code (pnf_form_kind h))) out;
          out = put 6 (le_bytes 2 (pnf_flags h)) out;
          out = put 8 (le_bytes 4 (pnf_logical_context_ref h)) out;
          out = put 12 (le_bytes 8 (pnf_payload_offset h)) out;
          out = put 20 (le_bytes 8 (pnf_payload_length h)) out
      in out)"

definition PredicateNormalFormV2_sealed :: "(bytes \<Rightarrow> u32) \<Rightarrow> PredicateNormalFormV2 \<Rightarrow> bytes" where
  "PredicateNormalFormV2_sealed crc h = seal crc 28 (PredicateNormalFormV2_image h)"

lemma length_PredicateNormalFormV2_image [simp]: "length (PredicateNormalFormV2_image h) = 32"
  by (simp add: PredicateNormalFormV2_image_def PredicateNormalFormV2_LEN_def Let_def)

lemma length_PredicateNormalFormV2_sealed [simp]: "length (PredicateNormalFormV2_sealed crc h) = 32"
  by (simp add: PredicateNormalFormV2_sealed_def)

lemma PredicateNormalFormV2_image_fields:
  "u32_at (PredicateNormalFormV2_image h) 0 = pnf_predicate_form_id h"
  "u16_at (PredicateNormalFormV2_image h) 4 = (PredicateFormKindV2_code (pnf_form_kind h))"
  "u16_at (PredicateNormalFormV2_image h) 6 = pnf_flags h"
  "u32_at (PredicateNormalFormV2_image h) 8 = pnf_logical_context_ref h"
  "u64_at (PredicateNormalFormV2_image h) 12 = pnf_payload_offset h"
  "u64_at (PredicateNormalFormV2_image h) 20 = pnf_payload_length h"
  "slice 28 4 (PredicateNormalFormV2_image h) = replicate 4 0"
  by (simp_all add: PredicateNormalFormV2_image_def PredicateNormalFormV2_LEN_def Let_def wire_simps)

definition PredicateNormalFormV2_validate :: "PredicateNormalFormV2 \<Rightarrow> unit result" where
  "PredicateNormalFormV2_validate h =
     (if pnf_logical_context_ref h = ABSENT_ID then Err BadCoverage
      else and_then (checked_end (pnf_payload_offset h) (pnf_payload_length h)) (\<lambda>_.
      if pnf_payload_length h = 0 \<and> pnf_payload_offset h \<noteq> 0 then Err BadCoverage
      else Ok ()))"

definition PredicateNormalFormV2_serialize :: "(bytes \<Rightarrow> u32) \<Rightarrow> PredicateNormalFormV2 \<Rightarrow> bytes result" where
  "PredicateNormalFormV2_serialize crc h = and_then (PredicateNormalFormV2_validate h) (\<lambda>_. Ok (PredicateNormalFormV2_sealed crc h))"

definition PredicateNormalFormV2_parse :: "(bytes \<Rightarrow> u32) \<Rightarrow> bytes \<Rightarrow> PredicateNormalFormV2 result" where
  "PredicateNormalFormV2_parse crc bs =
     (if length bs < PredicateNormalFormV2_LEN then Err BufferTooShort
      else
      and_then (read_u32 bs 0) (\<lambda>predicate_form_id.
      and_then (read_u16 bs 4) (\<lambda>form_kind_raw.
      and_then (ok_or (PredicateFormKindV2_from_u16 form_kind_raw) BadCoverage) (\<lambda>form_kind.
      and_then (read_u16 bs 6) (\<lambda>flags.
      and_then (read_u32 bs 8) (\<lambda>logical_context_ref.
      and_then (read_u64 bs 12) (\<lambda>payload_offset.
      and_then (read_u64 bs 20) (\<lambda>payload_length.
      and_then (read_u32 bs 28) (\<lambda>checksum.
      let r = \<lparr>pnf_predicate_form_id = predicate_form_id,
         pnf_form_kind = form_kind,
         pnf_flags = flags,
         pnf_logical_context_ref = logical_context_ref,
         pnf_payload_offset = payload_offset,
         pnf_payload_length = payload_length,
         pnf_checksum = checksum\<rparr> in
      and_then (verify_crc crc (slice 0 PredicateNormalFormV2_LEN bs) 28 checksum) (\<lambda>_.
      and_then (PredicateNormalFormV2_validate r) (\<lambda>_. Ok r)))))))))))"

lemma PredicateNormalFormV2_roundtrip:
  assumes "PredicateNormalFormV2_validate (h\<lparr>pnf_checksum := crc (PredicateNormalFormV2_image h)\<rparr>) = Ok ()"
  shows "PredicateNormalFormV2_parse crc (PredicateNormalFormV2_sealed crc h @ rest) = Ok (h\<lparr>pnf_checksum := crc (PredicateNormalFormV2_image h)\<rparr>)"
proof -
  note f = PredicateNormalFormV2_image_fields [of h]
  have v: "verify_crc crc (seal crc 28 (PredicateNormalFormV2_image h)) 28 (crc (PredicateNormalFormV2_image h)) = Ok ()"
    by (rule verify_crc_seal) (simp_all add: f)
  have eta: "\<lparr>pnf_predicate_form_id = pnf_predicate_form_id h, pnf_form_kind = pnf_form_kind h, pnf_flags = pnf_flags h, pnf_logical_context_ref = pnf_logical_context_ref h, pnf_payload_offset = pnf_payload_offset h, pnf_payload_length = pnf_payload_length h, pnf_checksum = c\<rparr> =
      h\<lparr>pnf_checksum := c\<rparr>" for c by (cases h) simp
  show ?thesis using assms
    by (simp add: PredicateNormalFormV2_parse_def PredicateNormalFormV2_LEN_def PredicateNormalFormV2_sealed_def Let_def nth_append wire_simps f v eta
        predicateFormKindV2.decode_code )
qed

definition PredicateNormalFormV2_parse_many :: "(bytes \<Rightarrow> u32) \<Rightarrow> bytes \<Rightarrow> PredicateNormalFormV2 list result" where
  "PredicateNormalFormV2_parse_many crc bs =
     (if length bs mod PredicateNormalFormV2_LEN \<noteq> 0 then Err BadCoverage
      else parse_many_loop (PredicateNormalFormV2_parse crc) pnf_predicate_form_id {} (chunks_exact PredicateNormalFormV2_LEN bs))"

section \<open>Plan candidates\<close>

datatype CoverageFallbackPolicyV2 =
    CFP_AdvisoryOnly
  | CFP_FallbackRequired
  | CFP_FullScanFallback
  | CFP_WiderCoverageFallback
  | CFP_RejectIfRequired

primrec CoverageFallbackPolicyV2_code :: "CoverageFallbackPolicyV2 \<Rightarrow> u8" where
  "CoverageFallbackPolicyV2_code CFP_AdvisoryOnly = 0"
| "CoverageFallbackPolicyV2_code CFP_FallbackRequired = 1"
| "CoverageFallbackPolicyV2_code CFP_FullScanFallback = 2"
| "CoverageFallbackPolicyV2_code CFP_WiderCoverageFallback = 3"
| "CoverageFallbackPolicyV2_code CFP_RejectIfRequired = 4"

definition CoverageFallbackPolicyV2_from_u8 :: "u8 \<Rightarrow> CoverageFallbackPolicyV2 option" where
  "CoverageFallbackPolicyV2_from_u8 v = map_of
     [(0, CFP_AdvisoryOnly),
      (1, CFP_FallbackRequired),
      (2, CFP_FullScanFallback),
      (3, CFP_WiderCoverageFallback),
      (4, CFP_RejectIfRequired)] v"

interpretation coverageFallbackPolicyV2: wire_enum CoverageFallbackPolicyV2_code CoverageFallbackPolicyV2_from_u8
proof
  fix k show "CoverageFallbackPolicyV2_from_u8 (CoverageFallbackPolicyV2_code k) = Some k" by (cases k) (simp_all add: CoverageFallbackPolicyV2_from_u8_def)
next
  fix v k assume "CoverageFallbackPolicyV2_from_u8 v = Some k"
  then show "CoverageFallbackPolicyV2_code k = v" by (auto simp: CoverageFallbackPolicyV2_from_u8_def split: if_splits)
qed

definition CoveragePlanCandidateV2_LEN :: usize where "CoveragePlanCandidateV2_LEN = 96"

record CoveragePlanCandidateV2 =
  cpc_candidate_id :: u32
  cpc_predicate_fragment_ref :: u32
  cpc_provider_id :: u32
  cpc_provider_type :: u16
  cpc_flags :: u16
  cpc_estimated_lookup_cost_ns :: u64
  cpc_estimated_coverage_size_bytes :: u64
  cpc_estimated_read_cost_ns :: u64
  cpc_estimated_decode_cost_ns :: u64
  cpc_estimated_materialisation_cost_ns :: u64
  cpc_baseline_scan_cost_estimate_ns :: u64
  cpc_max_allowed_estimated_cost_ns :: u64
  cpc_confidence_ppm :: u32
  cpc_calibration_epoch :: u64
  cpc_observed_error_bounds_ref :: u32
  cpc_fallback_policy :: CoverageFallbackPolicyV2
  cpc_reserved :: bytes
  cpc_checksum :: u32

definition CoveragePlanCandidateV2_image :: "CoveragePlanCandidateV2 \<Rightarrow> bytes" where
  "CoveragePlanCandidateV2_image h =
     (let out = replicate CoveragePlanCandidateV2_LEN 0;
          out = put 0 (le_bytes 4 (cpc_candidate_id h)) out;
          out = put 4 (le_bytes 4 (cpc_predicate_fragment_ref h)) out;
          out = put 8 (le_bytes 4 (cpc_provider_id h)) out;
          out = put 12 (le_bytes 2 (cpc_provider_type h)) out;
          out = put 14 (le_bytes 2 (cpc_flags h)) out;
          out = put 16 (le_bytes 8 (cpc_estimated_lookup_cost_ns h)) out;
          out = put 24 (le_bytes 8 (cpc_estimated_coverage_size_bytes h)) out;
          out = put 32 (le_bytes 8 (cpc_estimated_read_cost_ns h)) out;
          out = put 40 (le_bytes 8 (cpc_estimated_decode_cost_ns h)) out;
          out = put 48 (le_bytes 8 (cpc_estimated_materialisation_cost_ns h)) out;
          out = put 56 (le_bytes 8 (cpc_baseline_scan_cost_estimate_ns h)) out;
          out = put 64 (le_bytes 8 (cpc_max_allowed_estimated_cost_ns h)) out;
          out = put 72 (le_bytes 4 (cpc_confidence_ppm h)) out;
          out = put 76 (le_bytes 8 (cpc_calibration_epoch h)) out;
          out = put 84 (le_bytes 4 (cpc_observed_error_bounds_ref h)) out;
          out = put 88 [CoverageFallbackPolicyV2_code (cpc_fallback_policy h)] out;
          out = put 89 (cpc_reserved h) out
      in out)"

definition CoveragePlanCandidateV2_sealed :: "(bytes \<Rightarrow> u32) \<Rightarrow> CoveragePlanCandidateV2 \<Rightarrow> bytes" where
  "CoveragePlanCandidateV2_sealed crc h = seal crc 92 (CoveragePlanCandidateV2_image h)"

lemma length_CoveragePlanCandidateV2_image [simp]: "length (CoveragePlanCandidateV2_image h) = 96"
  by (simp add: CoveragePlanCandidateV2_image_def CoveragePlanCandidateV2_LEN_def Let_def)

lemma length_CoveragePlanCandidateV2_sealed [simp]: "length (CoveragePlanCandidateV2_sealed crc h) = 96"
  by (simp add: CoveragePlanCandidateV2_sealed_def)

lemma CoveragePlanCandidateV2_image_fields:
  assumes "length (cpc_reserved h) = 3"
  shows
  "u32_at (CoveragePlanCandidateV2_image h) 0 = cpc_candidate_id h"
  "u32_at (CoveragePlanCandidateV2_image h) 4 = cpc_predicate_fragment_ref h"
  "u32_at (CoveragePlanCandidateV2_image h) 8 = cpc_provider_id h"
  "u16_at (CoveragePlanCandidateV2_image h) 12 = cpc_provider_type h"
  "u16_at (CoveragePlanCandidateV2_image h) 14 = cpc_flags h"
  "u64_at (CoveragePlanCandidateV2_image h) 16 = cpc_estimated_lookup_cost_ns h"
  "u64_at (CoveragePlanCandidateV2_image h) 24 = cpc_estimated_coverage_size_bytes h"
  "u64_at (CoveragePlanCandidateV2_image h) 32 = cpc_estimated_read_cost_ns h"
  "u64_at (CoveragePlanCandidateV2_image h) 40 = cpc_estimated_decode_cost_ns h"
  "u64_at (CoveragePlanCandidateV2_image h) 48 = cpc_estimated_materialisation_cost_ns h"
  "u64_at (CoveragePlanCandidateV2_image h) 56 = cpc_baseline_scan_cost_estimate_ns h"
  "u64_at (CoveragePlanCandidateV2_image h) 64 = cpc_max_allowed_estimated_cost_ns h"
  "u32_at (CoveragePlanCandidateV2_image h) 72 = cpc_confidence_ppm h"
  "u64_at (CoveragePlanCandidateV2_image h) 76 = cpc_calibration_epoch h"
  "u32_at (CoveragePlanCandidateV2_image h) 84 = cpc_observed_error_bounds_ref h"
  "CoveragePlanCandidateV2_image h ! 88 = CoverageFallbackPolicyV2_code (cpc_fallback_policy h)"
  "slice 89 3 (CoveragePlanCandidateV2_image h) = cpc_reserved h"
  "slice 92 4 (CoveragePlanCandidateV2_image h) = replicate 4 0"
  using assms by (simp_all add: CoveragePlanCandidateV2_image_def CoveragePlanCandidateV2_LEN_def Let_def wire_simps)

definition COVERAGE_PLAN_FLAG_PRUNING_CANDIDATE :: u16 where "COVERAGE_PLAN_FLAG_PRUNING_CANDIDATE = 1"

definition COVERAGE_PLAN_FLAG_MAY_UNDER_INCLUDE :: u16 where "COVERAGE_PLAN_FLAG_MAY_UNDER_INCLUDE = 2"

definition CoveragePlanCandidateV2_validate :: "CoveragePlanCandidateV2 \<Rightarrow> unit result" where
  "CoveragePlanCandidateV2_validate h =
     (if cpc_predicate_fragment_ref h = ABSENT_ID \<or> cpc_provider_id h = ABSENT_ID then Err BadCoverage
      else if cpc_provider_type h = 0 \<or> cpc_confidence_ppm h > 1000000 then Err BadCoverage
      else if cpc_reserved h \<noteq> [0, 0, 0] then Err BadCoverage
      else if cpc_flags h AND COVERAGE_PLAN_FLAG_PRUNING_CANDIDATE \<noteq> 0
              \<and> cpc_flags h AND COVERAGE_PLAN_FLAG_MAY_UNDER_INCLUDE \<noteq> 0 then Err BadCoverage
      else and_then (checked_add (unat (cpc_estimated_lookup_cost_ns h)) (unat (cpc_estimated_read_cost_ns h))) (\<lambda>v.
           and_then (checked_add v (unat (cpc_estimated_decode_cost_ns h))) (\<lambda>v.
           and_then (checked_add v (unat (cpc_estimated_materialisation_cost_ns h))) (\<lambda>estimated.
           if cpc_max_allowed_estimated_cost_ns h \<noteq> 0 \<and> estimated > unat (cpc_max_allowed_estimated_cost_ns h)
           then Err BadCoverage else Ok ()))))"

definition CoveragePlanCandidateV2_serialize :: "(bytes \<Rightarrow> u32) \<Rightarrow> CoveragePlanCandidateV2 \<Rightarrow> bytes result" where
  "CoveragePlanCandidateV2_serialize crc h = and_then (CoveragePlanCandidateV2_validate h) (\<lambda>_. Ok (CoveragePlanCandidateV2_sealed crc h))"

definition CoveragePlanCandidateV2_parse :: "(bytes \<Rightarrow> u32) \<Rightarrow> bytes \<Rightarrow> CoveragePlanCandidateV2 result" where
  "CoveragePlanCandidateV2_parse crc bs =
     (if length bs < CoveragePlanCandidateV2_LEN then Err BufferTooShort
      else
      and_then (read_u32 bs 0) (\<lambda>candidate_id.
      and_then (read_u32 bs 4) (\<lambda>predicate_fragment_ref.
      and_then (read_u32 bs 8) (\<lambda>provider_id.
      and_then (read_u16 bs 12) (\<lambda>provider_type.
      and_then (read_u16 bs 14) (\<lambda>flags.
      and_then (read_u64 bs 16) (\<lambda>estimated_lookup_cost_ns.
      and_then (read_u64 bs 24) (\<lambda>estimated_coverage_size_bytes.
      and_then (read_u64 bs 32) (\<lambda>estimated_read_cost_ns.
      and_then (read_u64 bs 40) (\<lambda>estimated_decode_cost_ns.
      and_then (read_u64 bs 48) (\<lambda>estimated_materialisation_cost_ns.
      and_then (read_u64 bs 56) (\<lambda>baseline_scan_cost_estimate_ns.
      and_then (read_u64 bs 64) (\<lambda>max_allowed_estimated_cost_ns.
      and_then (read_u32 bs 72) (\<lambda>confidence_ppm.
      and_then (read_u64 bs 76) (\<lambda>calibration_epoch.
      and_then (read_u32 bs 84) (\<lambda>observed_error_bounds_ref.
      and_then (read_u8 bs 88) (\<lambda>fallback_policy_raw.
      and_then (ok_or (CoverageFallbackPolicyV2_from_u8 fallback_policy_raw) BadCoverage) (\<lambda>fallback_policy.
      and_then (read_array bs 89 3) (\<lambda>reserved.
      and_then (read_u32 bs 92) (\<lambda>checksum.
      let r = \<lparr>cpc_candidate_id = candidate_id,
         cpc_predicate_fragment_ref = predicate_fragment_ref,
         cpc_provider_id = provider_id,
         cpc_provider_type = provider_type,
         cpc_flags = flags,
         cpc_estimated_lookup_cost_ns = estimated_lookup_cost_ns,
         cpc_estimated_coverage_size_bytes = estimated_coverage_size_bytes,
         cpc_estimated_read_cost_ns = estimated_read_cost_ns,
         cpc_estimated_decode_cost_ns = estimated_decode_cost_ns,
         cpc_estimated_materialisation_cost_ns = estimated_materialisation_cost_ns,
         cpc_baseline_scan_cost_estimate_ns = baseline_scan_cost_estimate_ns,
         cpc_max_allowed_estimated_cost_ns = max_allowed_estimated_cost_ns,
         cpc_confidence_ppm = confidence_ppm,
         cpc_calibration_epoch = calibration_epoch,
         cpc_observed_error_bounds_ref = observed_error_bounds_ref,
         cpc_fallback_policy = fallback_policy,
         cpc_reserved = reserved,
         cpc_checksum = checksum\<rparr> in
      and_then (verify_crc crc (slice 0 CoveragePlanCandidateV2_LEN bs) 92 checksum) (\<lambda>_.
      and_then (CoveragePlanCandidateV2_validate r) (\<lambda>_. Ok r))))))))))))))))))))))"

lemma CoveragePlanCandidateV2_roundtrip:
  assumes "length (cpc_reserved h) = 3" and "CoveragePlanCandidateV2_validate (h\<lparr>cpc_checksum := crc (CoveragePlanCandidateV2_image h)\<rparr>) = Ok ()"
  shows "CoveragePlanCandidateV2_parse crc (CoveragePlanCandidateV2_sealed crc h @ rest) = Ok (h\<lparr>cpc_checksum := crc (CoveragePlanCandidateV2_image h)\<rparr>)"
proof -
  note f = CoveragePlanCandidateV2_image_fields [OF assms(1)]
  have v: "verify_crc crc (seal crc 92 (CoveragePlanCandidateV2_image h)) 92 (crc (CoveragePlanCandidateV2_image h)) = Ok ()"
    by (rule verify_crc_seal) (simp_all add: f)
  have eta: "\<lparr>cpc_candidate_id = cpc_candidate_id h, cpc_predicate_fragment_ref = cpc_predicate_fragment_ref h, cpc_provider_id = cpc_provider_id h, cpc_provider_type = cpc_provider_type h, cpc_flags = cpc_flags h, cpc_estimated_lookup_cost_ns = cpc_estimated_lookup_cost_ns h, cpc_estimated_coverage_size_bytes = cpc_estimated_coverage_size_bytes h, cpc_estimated_read_cost_ns = cpc_estimated_read_cost_ns h, cpc_estimated_decode_cost_ns = cpc_estimated_decode_cost_ns h, cpc_estimated_materialisation_cost_ns = cpc_estimated_materialisation_cost_ns h, cpc_baseline_scan_cost_estimate_ns = cpc_baseline_scan_cost_estimate_ns h, cpc_max_allowed_estimated_cost_ns = cpc_max_allowed_estimated_cost_ns h, cpc_confidence_ppm = cpc_confidence_ppm h, cpc_calibration_epoch = cpc_calibration_epoch h, cpc_observed_error_bounds_ref = cpc_observed_error_bounds_ref h, cpc_fallback_policy = cpc_fallback_policy h, cpc_reserved = cpc_reserved h, cpc_checksum = c\<rparr> =
      h\<lparr>cpc_checksum := c\<rparr>" for c by (cases h) simp
  show ?thesis using assms
    by (simp add: CoveragePlanCandidateV2_parse_def CoveragePlanCandidateV2_LEN_def CoveragePlanCandidateV2_sealed_def Let_def nth_append wire_simps f v eta
        coverageFallbackPolicyV2.decode_code )
qed

definition CoveragePlanCandidateV2_parse_many :: "(bytes \<Rightarrow> u32) \<Rightarrow> bytes \<Rightarrow> CoveragePlanCandidateV2 list result" where
  "CoveragePlanCandidateV2_parse_many crc bs =
     (if length bs mod CoveragePlanCandidateV2_LEN \<noteq> 0 then Err BadCoverage
      else parse_many_loop (CoveragePlanCandidateV2_parse crc) cpc_candidate_id {} (chunks_exact CoveragePlanCandidateV2_LEN bs))"

section \<open>Proof records\<close>

definition CoverageProofRecordV2_LEN :: usize where "CoverageProofRecordV2_LEN = 40"

record CoverageProofRecordV2 =
  cpr_proof_id :: u32
  cpr_provider_id :: u32
  cpr_coverage_set_id :: u32
  cpr_predicate_form_ref :: u32
  cpr_proof_kind :: CoverageProofKindV2
  cpr_proof_strength :: CoverageProofStrengthV2
  cpr_exactness :: CoverageExactnessV2
  cpr_granularity :: CoverageGranularityV2
  cpr_null_semantics :: u8
  cpr_flags :: u16
  cpr_snapshot_validity_ref :: u32
  cpr_coverage_set_checksum :: u32
  cpr_proof_payload_ref :: u32
  cpr_checksum :: u32

definition CoverageProofRecordV2_image :: "CoverageProofRecordV2 \<Rightarrow> bytes" where
  "CoverageProofRecordV2_image h =
     (let out = replicate CoverageProofRecordV2_LEN 0;
          out = put 0 (le_bytes 4 (cpr_proof_id h)) out;
          out = put 4 (le_bytes 4 (cpr_provider_id h)) out;
          out = put 8 (le_bytes 4 (cpr_coverage_set_id h)) out;
          out = put 12 (le_bytes 4 (cpr_predicate_form_ref h)) out;
          out = put 16 (le_bytes 2 (CoverageProofKindV2_code (cpr_proof_kind h))) out;
          out = put 18 [CoverageProofStrengthV2_code (cpr_proof_strength h)] out;
          out = put 19 [CoverageExactnessV2_code (cpr_exactness h)] out;
          out = put 20 [CoverageGranularityV2_code (cpr_granularity h)] out;
          out = put 21 [cpr_null_semantics h] out;
          out = put 22 (le_bytes 2 (cpr_flags h)) out;
          out = put 24 (le_bytes 4 (cpr_snapshot_validity_ref h)) out;
          out = put 28 (le_bytes 4 (cpr_coverage_set_checksum h)) out;
          out = put 32 (le_bytes 4 (cpr_proof_payload_ref h)) out
      in out)"

definition CoverageProofRecordV2_sealed :: "(bytes \<Rightarrow> u32) \<Rightarrow> CoverageProofRecordV2 \<Rightarrow> bytes" where
  "CoverageProofRecordV2_sealed crc h = seal crc 36 (CoverageProofRecordV2_image h)"

lemma length_CoverageProofRecordV2_image [simp]: "length (CoverageProofRecordV2_image h) = 40"
  by (simp add: CoverageProofRecordV2_image_def CoverageProofRecordV2_LEN_def Let_def)

lemma length_CoverageProofRecordV2_sealed [simp]: "length (CoverageProofRecordV2_sealed crc h) = 40"
  by (simp add: CoverageProofRecordV2_sealed_def)

lemma CoverageProofRecordV2_image_fields:
  "u32_at (CoverageProofRecordV2_image h) 0 = cpr_proof_id h"
  "u32_at (CoverageProofRecordV2_image h) 4 = cpr_provider_id h"
  "u32_at (CoverageProofRecordV2_image h) 8 = cpr_coverage_set_id h"
  "u32_at (CoverageProofRecordV2_image h) 12 = cpr_predicate_form_ref h"
  "u16_at (CoverageProofRecordV2_image h) 16 = (CoverageProofKindV2_code (cpr_proof_kind h))"
  "CoverageProofRecordV2_image h ! 18 = CoverageProofStrengthV2_code (cpr_proof_strength h)"
  "CoverageProofRecordV2_image h ! 19 = CoverageExactnessV2_code (cpr_exactness h)"
  "CoverageProofRecordV2_image h ! 20 = CoverageGranularityV2_code (cpr_granularity h)"
  "CoverageProofRecordV2_image h ! 21 = cpr_null_semantics h"
  "u16_at (CoverageProofRecordV2_image h) 22 = cpr_flags h"
  "u32_at (CoverageProofRecordV2_image h) 24 = cpr_snapshot_validity_ref h"
  "u32_at (CoverageProofRecordV2_image h) 28 = cpr_coverage_set_checksum h"
  "u32_at (CoverageProofRecordV2_image h) 32 = cpr_proof_payload_ref h"
  "slice 36 4 (CoverageProofRecordV2_image h) = replicate 4 0"
  by (simp_all add: CoverageProofRecordV2_image_def CoverageProofRecordV2_LEN_def Let_def wire_simps)

definition CoverageProofRecordV2_validate :: "CoverageProofRecordV2 \<Rightarrow> unit result" where
  "CoverageProofRecordV2_validate h =
     and_then (require_present (cpr_provider_id h)) (\<lambda>_.
     and_then (require_present (cpr_coverage_set_id h)) (\<lambda>_.
     and_then (require_present (cpr_predicate_form_ref h)) (\<lambda>_.
     and_then (require_present (cpr_snapshot_validity_ref h)) (\<lambda>_.
     and_then (validate_null_semantics (cpr_null_semantics h)) (\<lambda>_.
     if may_under_include (cpr_exactness h) \<and> allows_pruning (cpr_proof_strength h) then Err BadCoverage
     else if cpr_null_semantics h = 255 \<and> allows_pruning (cpr_proof_strength h) then Err BadCoverage
     else Ok ())))))"

definition CoverageProofRecordV2_serialize :: "(bytes \<Rightarrow> u32) \<Rightarrow> CoverageProofRecordV2 \<Rightarrow> bytes result" where
  "CoverageProofRecordV2_serialize crc h = and_then (CoverageProofRecordV2_validate h) (\<lambda>_. Ok (CoverageProofRecordV2_sealed crc h))"

definition CoverageProofRecordV2_parse :: "(bytes \<Rightarrow> u32) \<Rightarrow> bytes \<Rightarrow> CoverageProofRecordV2 result" where
  "CoverageProofRecordV2_parse crc bs =
     (if length bs < CoverageProofRecordV2_LEN then Err BufferTooShort
      else
      and_then (read_u32 bs 0) (\<lambda>proof_id.
      and_then (read_u32 bs 4) (\<lambda>provider_id.
      and_then (read_u32 bs 8) (\<lambda>coverage_set_id.
      and_then (read_u32 bs 12) (\<lambda>predicate_form_ref.
      and_then (read_u16 bs 16) (\<lambda>proof_kind_raw.
      and_then (ok_or (CoverageProofKindV2_from_u16 proof_kind_raw) BadCoverage) (\<lambda>proof_kind.
      and_then (read_u8 bs 18) (\<lambda>proof_strength_raw.
      and_then (ok_or (CoverageProofStrengthV2_from_u8 proof_strength_raw) BadCoverage) (\<lambda>proof_strength.
      and_then (read_u8 bs 19) (\<lambda>exactness_raw.
      and_then (ok_or (CoverageExactnessV2_from_u8 exactness_raw) BadCoverage) (\<lambda>exactness.
      and_then (read_u8 bs 20) (\<lambda>granularity_raw.
      and_then (ok_or (CoverageGranularityV2_from_u8 granularity_raw) BadCoverage) (\<lambda>granularity.
      and_then (read_u8 bs 21) (\<lambda>null_semantics.
      and_then (read_u16 bs 22) (\<lambda>flags.
      and_then (read_u32 bs 24) (\<lambda>snapshot_validity_ref.
      and_then (read_u32 bs 28) (\<lambda>coverage_set_checksum.
      and_then (read_u32 bs 32) (\<lambda>proof_payload_ref.
      and_then (read_u32 bs 36) (\<lambda>checksum.
      let r = \<lparr>cpr_proof_id = proof_id,
         cpr_provider_id = provider_id,
         cpr_coverage_set_id = coverage_set_id,
         cpr_predicate_form_ref = predicate_form_ref,
         cpr_proof_kind = proof_kind,
         cpr_proof_strength = proof_strength,
         cpr_exactness = exactness,
         cpr_granularity = granularity,
         cpr_null_semantics = null_semantics,
         cpr_flags = flags,
         cpr_snapshot_validity_ref = snapshot_validity_ref,
         cpr_coverage_set_checksum = coverage_set_checksum,
         cpr_proof_payload_ref = proof_payload_ref,
         cpr_checksum = checksum\<rparr> in
      and_then (verify_crc crc (slice 0 CoverageProofRecordV2_LEN bs) 36 checksum) (\<lambda>_.
      and_then (CoverageProofRecordV2_validate r) (\<lambda>_. Ok r)))))))))))))))))))))"

lemma CoverageProofRecordV2_roundtrip:
  assumes "CoverageProofRecordV2_validate (h\<lparr>cpr_checksum := crc (CoverageProofRecordV2_image h)\<rparr>) = Ok ()"
  shows "CoverageProofRecordV2_parse crc (CoverageProofRecordV2_sealed crc h @ rest) = Ok (h\<lparr>cpr_checksum := crc (CoverageProofRecordV2_image h)\<rparr>)"
proof -
  note f = CoverageProofRecordV2_image_fields [of h]
  have v: "verify_crc crc (seal crc 36 (CoverageProofRecordV2_image h)) 36 (crc (CoverageProofRecordV2_image h)) = Ok ()"
    by (rule verify_crc_seal) (simp_all add: f)
  have eta: "\<lparr>cpr_proof_id = cpr_proof_id h, cpr_provider_id = cpr_provider_id h, cpr_coverage_set_id = cpr_coverage_set_id h, cpr_predicate_form_ref = cpr_predicate_form_ref h, cpr_proof_kind = cpr_proof_kind h, cpr_proof_strength = cpr_proof_strength h, cpr_exactness = cpr_exactness h, cpr_granularity = cpr_granularity h, cpr_null_semantics = cpr_null_semantics h, cpr_flags = cpr_flags h, cpr_snapshot_validity_ref = cpr_snapshot_validity_ref h, cpr_coverage_set_checksum = cpr_coverage_set_checksum h, cpr_proof_payload_ref = cpr_proof_payload_ref h, cpr_checksum = c\<rparr> =
      h\<lparr>cpr_checksum := c\<rparr>" for c by (cases h) simp
  show ?thesis using assms
    by (simp add: CoverageProofRecordV2_parse_def CoverageProofRecordV2_LEN_def CoverageProofRecordV2_sealed_def Let_def nth_append wire_simps f v eta
        coverageExactnessV2.decode_code coverageGranularityV2.decode_code coverageProofKindV2.decode_code coverageProofStrengthV2.decode_code )
qed

definition CoverageProofRecordV2_parse_many :: "(bytes \<Rightarrow> u32) \<Rightarrow> bytes \<Rightarrow> CoverageProofRecordV2 list result" where
  "CoverageProofRecordV2_parse_many crc bs =
     (if length bs mod CoverageProofRecordV2_LEN \<noteq> 0 then Err BadCoverage
      else parse_many_loop (CoverageProofRecordV2_parse crc) cpr_proof_id {} (chunks_exact CoverageProofRecordV2_LEN bs))"

section \<open>Provider descriptors\<close>

definition CoverageProviderDescriptorV2_LEN :: usize where "CoverageProviderDescriptorV2_LEN = 45"

record CoverageProviderDescriptorV2 =
  cpd_provider_id :: u32
  cpd_provider_kind :: u16
  cpd_profile :: u8
  cpd_granularity :: CoverageGranularityV2
  cpd_proof_strength :: CoverageProofStrengthV2
  cpd_exactness :: CoverageExactnessV2
  cpd_flags :: u16
  cpd_referenced_table_id :: u32
  cpd_referenced_column_id :: u32
  cpd_referenced_path_ref :: u32
  cpd_logical_type :: u16
  cpd_collation_id :: u16
  cpd_null_semantics :: u8
  cpd_snapshot_validity_ref :: u32
  cpd_predicate_form_ref :: u32
  cpd_producer_ref :: u32
  cpd_checksum :: u32

definition CoverageProviderDescriptorV2_image :: "CoverageProviderDescriptorV2 \<Rightarrow> bytes" where
  "CoverageProviderDescriptorV2_image h =
     (let out = replicate CoverageProviderDescriptorV2_LEN 0;
          out = put 0 (le_bytes 4 (cpd_provider_id h)) out;
          out = put 4 (le_bytes 2 (cpd_provider_kind h)) out;
          out = put 6 [cpd_profile h] out;
          out = put 7 [CoverageGranularityV2_code (cpd_granularity h)] out;
          out = put 8 [CoverageProofStrengthV2_code (cpd_proof_strength h)] out;
          out = put 9 [CoverageExactnessV2_code (cpd_exactness h)] out;
          out = put 10 (le_bytes 2 (cpd_flags h)) out;
          out = put 12 (le_bytes 4 (cpd_referenced_table_id h)) out;
          out = put 16 (le_bytes 4 (cpd_referenced_column_id h)) out;
          out = put 20 (le_bytes 4 (cpd_referenced_path_ref h)) out;
          out = put 24 (le_bytes 2 (cpd_logical_type h)) out;
          out = put 26 (le_bytes 2 (cpd_collation_id h)) out;
          out = put 28 [cpd_null_semantics h] out;
          out = put 29 (le_bytes 4 (cpd_snapshot_validity_ref h)) out;
          out = put 33 (le_bytes 4 (cpd_predicate_form_ref h)) out;
          out = put 37 (le_bytes 4 (cpd_producer_ref h)) out
      in out)"

definition CoverageProviderDescriptorV2_serialize :: "(bytes \<Rightarrow> u32) \<Rightarrow> CoverageProviderDescriptorV2 \<Rightarrow> bytes" where
  "CoverageProviderDescriptorV2_serialize crc h = seal crc 41 (CoverageProviderDescriptorV2_image h)"

lemma length_CoverageProviderDescriptorV2_image [simp]: "length (CoverageProviderDescriptorV2_image h) = 45"
  by (simp add: CoverageProviderDescriptorV2_image_def CoverageProviderDescriptorV2_LEN_def Let_def)

lemma length_CoverageProviderDescriptorV2_serialize [simp]: "length (CoverageProviderDescriptorV2_serialize crc h) = 45"
  by (simp add: CoverageProviderDescriptorV2_serialize_def)

lemma CoverageProviderDescriptorV2_image_fields:
  "u32_at (CoverageProviderDescriptorV2_image h) 0 = cpd_provider_id h"
  "u16_at (CoverageProviderDescriptorV2_image h) 4 = cpd_provider_kind h"
  "CoverageProviderDescriptorV2_image h ! 6 = cpd_profile h"
  "CoverageProviderDescriptorV2_image h ! 7 = CoverageGranularityV2_code (cpd_granularity h)"
  "CoverageProviderDescriptorV2_image h ! 8 = CoverageProofStrengthV2_code (cpd_proof_strength h)"
  "CoverageProviderDescriptorV2_image h ! 9 = CoverageExactnessV2_code (cpd_exactness h)"
  "u16_at (CoverageProviderDescriptorV2_image h) 10 = cpd_flags h"
  "u32_at (CoverageProviderDescriptorV2_image h) 12 = cpd_referenced_table_id h"
  "u32_at (CoverageProviderDescriptorV2_image h) 16 = cpd_referenced_column_id h"
  "u32_at (CoverageProviderDescriptorV2_image h) 20 = cpd_referenced_path_ref h"
  "u16_at (CoverageProviderDescriptorV2_image h) 24 = cpd_logical_type h"
  "u16_at (CoverageProviderDescriptorV2_image h) 26 = cpd_collation_id h"
  "CoverageProviderDescriptorV2_image h ! 28 = cpd_null_semantics h"
  "u32_at (CoverageProviderDescriptorV2_image h) 29 = cpd_snapshot_validity_ref h"
  "u32_at (CoverageProviderDescriptorV2_image h) 33 = cpd_predicate_form_ref h"
  "u32_at (CoverageProviderDescriptorV2_image h) 37 = cpd_producer_ref h"
  "slice 41 4 (CoverageProviderDescriptorV2_image h) = replicate 4 0"
  by (simp_all add: CoverageProviderDescriptorV2_image_def CoverageProviderDescriptorV2_LEN_def Let_def wire_simps)

definition CoverageProviderDescriptorV2_validate :: "CoverageProviderDescriptorV2 \<Rightarrow> unit result" where
  "CoverageProviderDescriptorV2_validate h =
     (if cpd_profile h > 11 then Err BadCoverage
      else if may_under_include (cpd_exactness h) \<and> allows_pruning (cpd_proof_strength h) then Err BadCoverage
      else Ok ())"

definition CoverageProviderDescriptorV2_parse :: "(bytes \<Rightarrow> u32) \<Rightarrow> bytes \<Rightarrow> CoverageProviderDescriptorV2 result" where
  "CoverageProviderDescriptorV2_parse crc bs =
     (if length bs < CoverageProviderDescriptorV2_LEN then Err BufferTooShort
      else
      and_then (read_u32 bs 0) (\<lambda>provider_id.
      and_then (read_u16 bs 4) (\<lambda>provider_kind.
      and_then (read_u8 bs 6) (\<lambda>profile.
      and_then (read_u8 bs 7) (\<lambda>granularity_raw.
      and_then (ok_or (CoverageGranularityV2_from_u8 granularity_raw) BadCoverage) (\<lambda>granularity.
      and_then (read_u8 bs 8) (\<lambda>proof_strength_raw.
      and_then (ok_or (CoverageProofStrengthV2_from_u8 proof_strength_raw) BadCoverage) (\<lambda>proof_strength.
      and_then (read_u8 bs 9) (\<lambda>exactness_raw.
      and_then (ok_or (CoverageExactnessV2_from_u8 exactness_raw) BadCoverage) (\<lambda>exactness.
      and_then (read_u16 bs 10) (\<lambda>flags.
      and_then (read_u32 bs 12) (\<lambda>referenced_table_id.
      and_then (read_u32 bs 16) (\<lambda>referenced_column_id.
      and_then (read_u32 bs 20) (\<lambda>referenced_path_ref.
      and_then (read_u16 bs 24) (\<lambda>logical_type.
      and_then (read_u16 bs 26) (\<lambda>collation_id.
      and_then (read_u8 bs 28) (\<lambda>null_semantics.
      and_then (read_u32 bs 29) (\<lambda>snapshot_validity_ref.
      and_then (read_u32 bs 33) (\<lambda>predicate_form_ref.
      and_then (read_u32 bs 37) (\<lambda>producer_ref.
      and_then (read_u32 bs 41) (\<lambda>checksum.
      let r = \<lparr>cpd_provider_id = provider_id,
         cpd_provider_kind = provider_kind,
         cpd_profile = profile,
         cpd_granularity = granularity,
         cpd_proof_strength = proof_strength,
         cpd_exactness = exactness,
         cpd_flags = flags,
         cpd_referenced_table_id = referenced_table_id,
         cpd_referenced_column_id = referenced_column_id,
         cpd_referenced_path_ref = referenced_path_ref,
         cpd_logical_type = logical_type,
         cpd_collation_id = collation_id,
         cpd_null_semantics = null_semantics,
         cpd_snapshot_validity_ref = snapshot_validity_ref,
         cpd_predicate_form_ref = predicate_form_ref,
         cpd_producer_ref = producer_ref,
         cpd_checksum = checksum\<rparr> in
      and_then (verify_crc crc (slice 0 CoverageProviderDescriptorV2_LEN bs) 41 checksum) (\<lambda>_.
      and_then (CoverageProviderDescriptorV2_validate r) (\<lambda>_. Ok r)))))))))))))))))))))))"

lemma CoverageProviderDescriptorV2_roundtrip:
  assumes "CoverageProviderDescriptorV2_validate (h\<lparr>cpd_checksum := crc (CoverageProviderDescriptorV2_image h)\<rparr>) = Ok ()"
  shows "CoverageProviderDescriptorV2_parse crc (CoverageProviderDescriptorV2_serialize crc h @ rest) = Ok (h\<lparr>cpd_checksum := crc (CoverageProviderDescriptorV2_image h)\<rparr>)"
proof -
  note f = CoverageProviderDescriptorV2_image_fields [of h]
  have v: "verify_crc crc (seal crc 41 (CoverageProviderDescriptorV2_image h)) 41 (crc (CoverageProviderDescriptorV2_image h)) = Ok ()"
    by (rule verify_crc_seal) (simp_all add: f)
  have eta: "\<lparr>cpd_provider_id = cpd_provider_id h, cpd_provider_kind = cpd_provider_kind h, cpd_profile = cpd_profile h, cpd_granularity = cpd_granularity h, cpd_proof_strength = cpd_proof_strength h, cpd_exactness = cpd_exactness h, cpd_flags = cpd_flags h, cpd_referenced_table_id = cpd_referenced_table_id h, cpd_referenced_column_id = cpd_referenced_column_id h, cpd_referenced_path_ref = cpd_referenced_path_ref h, cpd_logical_type = cpd_logical_type h, cpd_collation_id = cpd_collation_id h, cpd_null_semantics = cpd_null_semantics h, cpd_snapshot_validity_ref = cpd_snapshot_validity_ref h, cpd_predicate_form_ref = cpd_predicate_form_ref h, cpd_producer_ref = cpd_producer_ref h, cpd_checksum = c\<rparr> =
      h\<lparr>cpd_checksum := c\<rparr>" for c by (cases h) simp
  show ?thesis using assms
    by (simp add: CoverageProviderDescriptorV2_parse_def CoverageProviderDescriptorV2_LEN_def CoverageProviderDescriptorV2_serialize_def Let_def nth_append wire_simps f v eta
        coverageExactnessV2.decode_code coverageGranularityV2.decode_code coverageProofStrengthV2.decode_code )
qed

definition CoverageProviderDescriptorV2_parse_many :: "(bytes \<Rightarrow> u32) \<Rightarrow> bytes \<Rightarrow> CoverageProviderDescriptorV2 list result" where
  "CoverageProviderDescriptorV2_parse_many crc bs =
     (if length bs mod CoverageProviderDescriptorV2_LEN \<noteq> 0 then Err BadCoverage
      else parse_many_loop (CoverageProviderDescriptorV2_parse crc) cpd_provider_id {} (chunks_exact CoverageProviderDescriptorV2_LEN bs))"

section \<open>Coverage sets\<close>

record CoverageSetV2 =
  cs_header :: CoverageSetHeaderV2
  cs_entries :: "CoverageSetEntryV2 list"

definition CoverageSetV2_parse :: "(bytes \<Rightarrow> u32) \<Rightarrow> bytes \<Rightarrow> CoverageSetV2 result" where
  "CoverageSetV2_parse crc bs =
     and_then (CoverageSetHeaderV2_parse crc bs) (\<lambda>header.
     let start = unat (csh_entries_offset header); len = unat (csh_entries_length header) in
     and_then (checked_add start len) (\<lambda>end'.
     if start < CoverageSetHeaderV2_LEN \<or> end' \<noteq> length bs \<or> len mod CoverageSetEntryV2_LEN \<noteq> 0
     then Err BadCoverage
     else
     and_then (collect_map (CoverageSetEntryV2_parse crc) (chunks_exact CoverageSetEntryV2_LEN (slice start len bs))) (\<lambda>entries.
     and_then (validate_coverage_entries entries) (\<lambda>_.
     if unat (csh_covered_fragment_count header) \<noteq> length entries then Err BadCoverage
     else if csh_covered_fragment_count header > csh_total_fragment_count header then Err BadCoverage
     else Ok \<lparr>cs_header = header, cs_entries = entries\<rparr>))))"

definition CoverageSetV2_serialize :: "(bytes \<Rightarrow> u32) \<Rightarrow> CoverageSetV2 \<Rightarrow> bytes result" where
  "CoverageSetV2_serialize crc s =
     and_then (validate_coverage_entries (cs_entries s)) (\<lambda>_.
     and_then (checked_mul (length (cs_entries s)) CoverageSetEntryV2_LEN) (\<lambda>entries_length.
     let covered_fragment_count = of_nat (length (cs_entries s)) :: u64 in
     if covered_fragment_count > csh_total_fragment_count (cs_header s) then Err BadCoverage
     else let header = (cs_header s)\<lparr>csh_covered_fragment_count := covered_fragment_count,
                csh_entries_offset := of_nat CoverageSetHeaderV2_LEN, csh_entries_length := of_nat entries_length\<rparr> in
     and_then (checked_add CoverageSetHeaderV2_LEN entries_length) (\<lambda>_.
     Ok (CoverageSetHeaderV2_serialize crc header @ concat (map (CoverageSetEntryV2_serialize crc) (cs_entries s))))))"

definition coverage_set_payload_checksum :: "(bytes \<Rightarrow> u32) \<Rightarrow> bytes \<Rightarrow> u32" where
  "coverage_set_payload_checksum crc bs = crc bs"

definition CoverageProofRecordV2_validate_against_coverage_set ::
  "CoverageProofRecordV2 \<Rightarrow> CoverageSetV2 \<Rightarrow> u32 \<Rightarrow> unit result" where
  "CoverageProofRecordV2_validate_against_coverage_set r s actual_coverage_set_checksum =
     (if cpr_coverage_set_checksum r \<noteq> actual_coverage_set_checksum then Err ChecksumMismatch
      else if cpr_coverage_set_id r \<noteq> csh_coverage_set_id (cs_header s)
          \<or> cpr_provider_id r \<noteq> csh_provider_id (cs_header s)
          \<or> cpr_predicate_form_ref r \<noteq> csh_predicate_form_ref (cs_header s)
          \<or> cpr_snapshot_validity_ref r \<noteq> csh_snapshot_validity_ref (cs_header s)
          \<or> cpr_proof_strength r \<noteq> csh_proof_strength (cs_header s)
          \<or> cpr_exactness r \<noteq> csh_exactness (cs_header s)
          \<or> cpr_granularity r \<noteq> csh_granularity (cs_header s) then Err BadCoverage
      else Ok ())"

definition CoverageProofRecordV2_validate_against_coverage_set_bytes ::
  "(bytes \<Rightarrow> u32) \<Rightarrow> CoverageProofRecordV2 \<Rightarrow> bytes \<Rightarrow> unit result" where
  "CoverageProofRecordV2_validate_against_coverage_set_bytes crc r coverage_set_bytes =
     and_then (CoverageSetV2_parse crc coverage_set_bytes) (\<lambda>s.
     CoverageProofRecordV2_validate_against_coverage_set r s (coverage_set_payload_checksum crc coverage_set_bytes))"

definition can_use_proof_for_pruning :: "CoverageProofRecordV2 \<Rightarrow> bool" where
  "can_use_proof_for_pruning r \<longleftrightarrow> allows_pruning (cpr_proof_strength r) \<and> \<not> may_under_include (cpr_exactness r)
     \<and> cpr_null_semantics r \<noteq> 255"


lemma PredicateNormalFormV2_validate_checksum: "PredicateNormalFormV2_validate (h\<lparr>pnf_checksum := c\<rparr>) = PredicateNormalFormV2_validate h"
  by (simp add: PredicateNormalFormV2_validate_def)

interpretation form_table: record_table "PredicateNormalFormV2_parse crc" "PredicateNormalFormV2_sealed crc"
  "\<lambda>h. h\<lparr>pnf_checksum := crc (PredicateNormalFormV2_image h)\<rparr>" "\<lambda>h. PredicateNormalFormV2_validate h = Ok ()" pnf_predicate_form_id PredicateNormalFormV2_LEN for crc
proof
  fix h assume "PredicateNormalFormV2_validate h = Ok ()"
  then show "PredicateNormalFormV2_parse crc (PredicateNormalFormV2_sealed crc h) = Ok (h\<lparr>pnf_checksum := crc (PredicateNormalFormV2_image h)\<rparr>)"
    using PredicateNormalFormV2_roundtrip [where h = h and crc = crc and rest = "[]"] by (simp add: PredicateNormalFormV2_validate_checksum)
qed (simp_all add: PredicateNormalFormV2_LEN_def)

lemma CoveragePlanCandidateV2_validate_checksum: "CoveragePlanCandidateV2_validate (h\<lparr>cpc_checksum := c\<rparr>) = CoveragePlanCandidateV2_validate h"
  by (simp add: CoveragePlanCandidateV2_validate_def)

interpretation candidate_table: record_table "CoveragePlanCandidateV2_parse crc" "CoveragePlanCandidateV2_sealed crc"
  "\<lambda>h. h\<lparr>cpc_checksum := crc (CoveragePlanCandidateV2_image h)\<rparr>" "\<lambda>h. CoveragePlanCandidateV2_validate h = Ok () \<and> length (cpc_reserved h) = 3" cpc_candidate_id CoveragePlanCandidateV2_LEN for crc
proof
  fix h assume "CoveragePlanCandidateV2_validate h = Ok () \<and> length (cpc_reserved h) = 3"
  then show "CoveragePlanCandidateV2_parse crc (CoveragePlanCandidateV2_sealed crc h) = Ok (h\<lparr>cpc_checksum := crc (CoveragePlanCandidateV2_image h)\<rparr>)"
    using CoveragePlanCandidateV2_roundtrip [where h = h and crc = crc and rest = "[]"] by (simp add: CoveragePlanCandidateV2_validate_checksum)
qed (simp_all add: CoveragePlanCandidateV2_LEN_def)

lemma CoverageProofRecordV2_validate_checksum: "CoverageProofRecordV2_validate (h\<lparr>cpr_checksum := c\<rparr>) = CoverageProofRecordV2_validate h"
  by (simp add: CoverageProofRecordV2_validate_def)

interpretation proof_table: record_table "CoverageProofRecordV2_parse crc" "CoverageProofRecordV2_sealed crc"
  "\<lambda>h. h\<lparr>cpr_checksum := crc (CoverageProofRecordV2_image h)\<rparr>" "\<lambda>h. CoverageProofRecordV2_validate h = Ok ()" cpr_proof_id CoverageProofRecordV2_LEN for crc
proof
  fix h assume "CoverageProofRecordV2_validate h = Ok ()"
  then show "CoverageProofRecordV2_parse crc (CoverageProofRecordV2_sealed crc h) = Ok (h\<lparr>cpr_checksum := crc (CoverageProofRecordV2_image h)\<rparr>)"
    using CoverageProofRecordV2_roundtrip [where h = h and crc = crc and rest = "[]"] by (simp add: CoverageProofRecordV2_validate_checksum)
qed (simp_all add: CoverageProofRecordV2_LEN_def)

lemma CoverageProviderDescriptorV2_validate_checksum: "CoverageProviderDescriptorV2_validate (h\<lparr>cpd_checksum := c\<rparr>) = CoverageProviderDescriptorV2_validate h"
  by (simp add: CoverageProviderDescriptorV2_validate_def)

interpretation provider_table: record_table "CoverageProviderDescriptorV2_parse crc" "CoverageProviderDescriptorV2_serialize crc"
  "\<lambda>h. h\<lparr>cpd_checksum := crc (CoverageProviderDescriptorV2_image h)\<rparr>" "\<lambda>h. CoverageProviderDescriptorV2_validate h = Ok ()" cpd_provider_id CoverageProviderDescriptorV2_LEN for crc
proof
  fix h assume "CoverageProviderDescriptorV2_validate h = Ok ()"
  then show "CoverageProviderDescriptorV2_parse crc (CoverageProviderDescriptorV2_serialize crc h) = Ok (h\<lparr>cpd_checksum := crc (CoverageProviderDescriptorV2_image h)\<rparr>)"
    using CoverageProviderDescriptorV2_roundtrip [where h = h and crc = crc and rest = "[]"] by (simp add: CoverageProviderDescriptorV2_validate_checksum)
qed (simp_all add: CoverageProviderDescriptorV2_LEN_def)

section \<open>Round trip of coverage sets\<close>

text \<open>An entry whose checksum is that of its own fields, as the parser leaves it.\<close>

definition entry_sealed :: "(bytes \<Rightarrow> u32) \<Rightarrow> CoverageSetEntryV2 \<Rightarrow> bool" where
  "entry_sealed crc e \<longleftrightarrow> validate_absent_fields e = Ok () \<and> ce_checksum e = crc (CoverageSetEntryV2_image e)"

lemma entry_parse_sealed:
  assumes "entry_sealed crc e" shows "CoverageSetEntryV2_parse crc (CoverageSetEntryV2_serialize crc e) = Ok e"
proof -
  have "e\<lparr>ce_checksum := crc (CoverageSetEntryV2_image e)\<rparr> = e"
    using assms by (cases e) (simp add: entry_sealed_def)
  then show ?thesis using CoverageSetEntryV2_roundtrip [where h = e and crc = crc and rest = "[]"] assms by (simp add: entry_sealed_def)
qed

lemma entries_parse_sealed:
  "list_all (entry_sealed crc) es \<Longrightarrow>
     collect_map (CoverageSetEntryV2_parse crc) (map (CoverageSetEntryV2_serialize crc) es) = Ok es"
  by (induction es) (simp_all add: entry_parse_sealed)

definition set_header :: "(bytes \<Rightarrow> u32) \<Rightarrow> CoverageSetV2 \<Rightarrow> CoverageSetHeaderV2" where
  "set_header crc s =
     (let h = (cs_header s)\<lparr>csh_covered_fragment_count := of_nat (length (cs_entries s)), csh_entries_offset := 72,
                csh_entries_length := of_nat (length (cs_entries s) * 64)\<rparr>
      in h\<lparr>csh_checksum := crc (CoverageSetHeaderV2_image h)\<rparr>)"

lemma coverage_set_roundtrip:
  assumes "CoverageSetV2_serialize crc s = Ok bs" and "list_all (entry_sealed crc) (cs_entries s)"
    and "CoverageSetHeaderV2_check (cs_header s) = Ok ()"
  shows "CoverageSetV2_parse crc bs = Ok \<lparr>cs_header = set_header crc s, cs_entries = cs_entries s\<rparr>"
proof -
  let ?es = "cs_entries s" and ?h = "set_header crc s"
  let ?n = "length ?es * 64"
  let ?base = "(cs_header s)\<lparr>csh_covered_fragment_count := of_nat (length ?es), csh_entries_offset := 72,
                csh_entries_length := of_nat ?n\<rparr>"
  let ?body = "concat (map (CoverageSetEntryV2_serialize crc) ?es)"
  from assms(1) have v: "validate_coverage_entries ?es = Ok ()" and len: "72 + ?n < usize_bound"
    and cnt: "\<not> (of_nat (length ?es) :: u64) > csh_total_fragment_count (cs_header s)"
    and bs: "bs = CoverageSetHeaderV2_serialize crc ?base @ ?body"
    by (auto simp: CoverageSetV2_serialize_def result_simps Let_def CoverageSetHeaderV2_LEN_def CoverageSetEntryV2_LEN_def
        split: if_splits)
  have chk: "CoverageSetHeaderV2_check ?h = Ok ()"
  proof -
    have "CoverageSetHeaderV2_check ?h = CoverageSetHeaderV2_check (cs_header s)"
      by (simp add: CoverageSetHeaderV2_check_def set_header_def Let_def)
    with assms(3) show ?thesis by simp
  qed
  define h0 where "h0 = ?base"
  have hh: "?h = h0\<lparr>csh_checksum := crc (CoverageSetHeaderV2_image h0)\<rparr>"
    by (simp add: set_header_def Let_def h0_def del: of_nat_mult)
  have "CoverageSetHeaderV2_check (h0\<lparr>csh_checksum := crc (CoverageSetHeaderV2_image h0)\<rparr>) = Ok ()"
    using chk unfolding hh .
  then have "CoverageSetHeaderV2_parse crc (CoverageSetHeaderV2_serialize crc h0 @ ?body) = Ok ?h"
    unfolding hh by (rule CoverageSetHeaderV2_roundtrip)
  then have ph: "CoverageSetHeaderV2_parse crc bs = Ok ?h" by (simp only: bs h0_def)
  have lb: "length ?body = ?n" by (simp add: length_concat_uniform)
  have u: "unat (csh_entries_offset ?h) = 72" "unat (csh_entries_length ?h) = ?n"
    "unat (csh_covered_fragment_count ?h) = length ?es"
    using len by (simp_all add: set_header_def Let_def unat_of_nat_less del: of_nat_mult)
  have ch: "chunks_exact 64 (slice 72 ?n bs) = map (CoverageSetEntryV2_serialize crc) ?es"
  proof -
    have "slice 72 ?n bs = ?body" by (simp add: bs wire_simps lb)
    then show ?thesis by (simp only:) (rule chunks_exact_concat, simp_all)
  qed
  have ce: "collect_map (CoverageSetEntryV2_parse crc) (map (CoverageSetEntryV2_serialize crc) ?es) = Ok ?es"
    using assms(2) by (rule entries_parse_sealed)
  have tot: "\<not> csh_covered_fragment_count ?h > csh_total_fragment_count ?h"
    using cnt by (simp add: set_header_def Let_def)
  show ?thesis
    using ph u ch ce v tot len
    by (simp add: CoverageSetV2_parse_def Let_def checked_add_def CoverageSetHeaderV2_LEN_def CoverageSetEntryV2_LEN_def bs lb)
qed


section \<open>What the parsers guarantee\<close>

lemma header_parse_check:
  "CoverageSetHeaderV2_parse crc bs = Ok h \<Longrightarrow> CoverageSetHeaderV2_check h = Ok ()"
  by (auto simp: CoverageSetHeaderV2_parse_def result_simps Let_def split: if_splits)

lemma proof_parse_validate:
  "CoverageProofRecordV2_parse crc bs = Ok r \<Longrightarrow> CoverageProofRecordV2_validate r = Ok ()"
  by (auto simp: CoverageProofRecordV2_parse_def result_simps Let_def split: if_splits)

lemma provider_parse_validate:
  "CoverageProviderDescriptorV2_parse crc bs = Ok r \<Longrightarrow> CoverageProviderDescriptorV2_validate r = Ok ()"
  by (auto simp: CoverageProviderDescriptorV2_parse_def result_simps Let_def split: if_splits)

lemma candidate_parse_validate:
  "CoveragePlanCandidateV2_parse crc bs = Ok r \<Longrightarrow> CoveragePlanCandidateV2_validate r = Ok ()"
  by (auto simp: CoveragePlanCandidateV2_parse_def result_simps Let_def split: if_splits)

lemma entry_parse_fits:
  "CoverageSetEntryV2_parse crc bs = Ok e \<Longrightarrow> entry_end e < usize_bound"
  by (auto simp: CoverageSetEntryV2_parse_def validate_absent_fields_def result_simps Let_def entry_end_def
      simp del: and_then.simps split: if_splits)

lemma set_parse_Ok:
  assumes "CoverageSetV2_parse crc bs = Ok s"
  shows "CoverageSetHeaderV2_parse crc bs = Ok (cs_header s)" and "validate_coverage_entries (cs_entries s) = Ok ()"
    and "ends_fit (cs_entries s)" and "unat (csh_covered_fragment_count (cs_header s)) = length (cs_entries s)"
    and "csh_covered_fragment_count (cs_header s) \<le> csh_total_fragment_count (cs_header s)"
proof -
  from assms obtain h es cs where s: "s = \<lparr>cs_header = h, cs_entries = es\<rparr>"
    and p: "CoverageSetHeaderV2_parse crc bs = Ok h" and es: "collect_map (CoverageSetEntryV2_parse crc) cs = Ok es"
    and v: "validate_coverage_entries es = Ok ()"
    and n: "unat (csh_covered_fragment_count h) = length es" "csh_covered_fragment_count h \<le> csh_total_fragment_count h"
    by (auto simp: CoverageSetV2_parse_def result_simps Let_def not_less split: if_splits)
  have "\<exists>c. CoverageSetEntryV2_parse crc c = Ok e" if "e \<in> set es" for e
    using that collect_map_nth [OF es] collect_map_length [OF es] by (metis in_set_conv_nth)
  then have "ends_fit es" unfolding ends_fit_def list_all_iff using entry_parse_fits by blast
  with s p v n show "CoverageSetHeaderV2_parse crc bs = Ok (cs_header s)" "validate_coverage_entries (cs_entries s) = Ok ()"
    "ends_fit (cs_entries s)" "unat (csh_covered_fragment_count (cs_header s)) = length (cs_entries s)"
    "csh_covered_fragment_count (cs_header s) \<le> csh_total_fragment_count (cs_header s)" by simp_all
qed

section \<open>Properties\<close>

text \<open>Every parsed coverage set is well formed: its entries are strictly ordered, the row ranges of a scope
  are disjoint, the fragment counts agree, and it may be used for pruning exactly when its proof strength
  allows it.\<close>

theorem coverage_set_parse_safe:
  assumes "CoverageSetV2_parse crc bs = Ok s"
  shows "ordered_entries (cs_entries s) \<and> ends_fit (cs_entries s) \<and>
         unat (csh_covered_fragment_count (cs_header s)) = length (cs_entries s) \<and>
         csh_covered_fragment_count (cs_header s) \<le> csh_total_fragment_count (cs_header s) \<and>
         (can_use_for_pruning (cs_header s) \<longleftrightarrow> allows_pruning (csh_proof_strength (cs_header s)))"
proof -
  note p = set_parse_Ok [OF assms]
  from header_parse_check [OF p(1)] have "can_use_for_pruning (cs_header s) \<longleftrightarrow> allows_pruning (csh_proof_strength (cs_header s))"
    by (auto simp: CoverageSetHeaderV2_check_def can_use_for_pruning_def split: if_splits)
  with p show ?thesis by (simp add: validate_iff_ordered)
qed

definition sample_set_header :: "u64 \<Rightarrow> CoverageSetHeaderV2" where
  "sample_set_header n =
     \<lparr>csh_coverage_set_id = 7, csh_provider_id = 1, csh_granularity = CG_RowRange, csh_proof_strength = CPS_ExactTight,
      csh_exactness = CE_Exact, csh_flags = 0, csh_predicate_form_ref = 3, csh_snapshot_validity_ref = 4,
      csh_total_fragment_count = n, csh_covered_fragment_count = 0, csh_required_fragment_count_estimate = 0,
      csh_coverage_degree_ppm = 1000000, csh_tightness_degree_ppm = 0, csh_entries_offset = 0, csh_entries_length = 0,
      csh_checksum = 0\<rparr>"

definition sample_set :: CoverageSetV2 where
  "sample_set = \<lparr>cs_header = sample_set_header 5, cs_entries = [sample_range 0 10 5, sample_range 0 20 5]\<rparr>"

lemma sample_range_sealed: "0 < c \<Longrightarrow> unat s + unat c < usize_bound \<Longrightarrow> entry_sealed (\<lambda>_. 0) (sample_range f s c)"
  by (auto simp: entry_sealed_def validate_absent_fields_def sample_range_def result_simps ABSENT_ID_def word_gt_0)

lemma sample_range_less: "s < s' \<Longrightarrow> entry_ord (sample_range f s c) < entry_ord (sample_range f s' c')"
  by (simp add: entry_ord_def entry_group_def sample_range_def)

lemma sample_set_bytes:
  "\<exists>bs. CoverageSetV2_serialize (\<lambda>_. 0) sample_set = Ok bs \<and> list_all (entry_sealed (\<lambda>_. 0)) (cs_entries sample_set) \<and>
     CoverageSetHeaderV2_check (cs_header sample_set) = Ok ()"
proof -
  have "ordered_entries (cs_entries sample_set)"
    by (simp add: sample_set_def ordered_entries_def sample_range_less separated_def)
  moreover have "ends_fit (cs_entries sample_set)" by (simp add: sample_set_def ends_fit_def)
  ultimately have "validate_coverage_entries (cs_entries sample_set) = Ok ()" by (simp add: validate_iff_ordered)
  then have "\<exists>bs. CoverageSetV2_serialize (\<lambda>_. 0) sample_set = Ok bs"
    by (simp add: CoverageSetV2_serialize_def sample_set_def sample_set_header_def checked_mul_def checked_add_def
        CoverageSetHeaderV2_LEN_def CoverageSetEntryV2_LEN_def Let_def)
  then show ?thesis
    by (auto simp: sample_set_def sample_set_header_def sample_range_sealed CoverageSetHeaderV2_check_def
        may_under_include_def)
qed

theorem coverage_set_parse_safe_witness:
  "\<exists>bs s. CoverageSetV2_parse (\<lambda>_. 0) bs = Ok s \<and> length (cs_entries s) = 2 \<and> ordered_entries (cs_entries s) \<and>
     can_use_for_pruning (cs_header s)"
proof -
  obtain bs where "CoverageSetV2_serialize (\<lambda>_. 0) sample_set = Ok bs" "list_all (entry_sealed (\<lambda>_. 0)) (cs_entries sample_set)"
    "CoverageSetHeaderV2_check (cs_header sample_set) = Ok ()" using sample_set_bytes by blast
  note p = coverage_set_roundtrip [OF this]
  have "allows_pruning (csh_proof_strength (set_header (\<lambda>_. 0) sample_set))"
    by (simp add: set_header_def Let_def sample_set_def sample_set_header_def allows_pruning_def)
  with coverage_set_parse_safe [OF p] p show ?thesis by (force simp: sample_set_def)
qed

text \<open>A coverage set is parsed back from its serialization under a header with recomputed counts, offsets and
  checksum.\<close>

theorem coverage_set_parse_serialize:
  assumes "CoverageSetV2_serialize crc s = Ok bs" and "list_all (entry_sealed crc) (cs_entries s)"
    and "CoverageSetHeaderV2_check (cs_header s) = Ok ()"
  shows "CoverageSetV2_parse crc bs = Ok \<lparr>cs_header = set_header crc s, cs_entries = cs_entries s\<rparr>"
  using assms by (rule coverage_set_roundtrip)

theorem coverage_set_parse_serialize_witness:
  "\<exists>bs. CoverageSetV2_parse (\<lambda>_. 0) bs = Ok \<lparr>cs_header = set_header (\<lambda>_. 0) sample_set, cs_entries = cs_entries sample_set\<rparr>"
  using sample_set_bytes coverage_set_parse_serialize by blast

text \<open>C32: A proof record that parses, may be used for pruning and validates against the bytes of a coverage set
  vouches for exactly those bytes: they parse, their checksum is the recorded one, and the set itself may be
  used for pruning and belongs to the same provider, predicate and snapshot.\<close>

theorem proof_record_binds_set:
  assumes "CoverageProofRecordV2_parse crc rb = Ok r"
    and "CoverageProofRecordV2_validate_against_coverage_set_bytes crc r bs = Ok ()"
    and "allows_pruning (cpr_proof_strength r)"
  shows "can_use_proof_for_pruning r \<and> crc bs = cpr_coverage_set_checksum r \<and>
         (\<exists>s. CoverageSetV2_parse crc bs = Ok s \<and> can_use_for_pruning (cs_header s) \<and> ordered_entries (cs_entries s) \<and>
            csh_provider_id (cs_header s) = cpr_provider_id r \<and> csh_predicate_form_ref (cs_header s) = cpr_predicate_form_ref r \<and>
            csh_snapshot_validity_ref (cs_header s) = cpr_snapshot_validity_ref r)"
proof -
  from assms(2) obtain s where s: "CoverageSetV2_parse crc bs = Ok s"
    and v: "CoverageProofRecordV2_validate_against_coverage_set r s (crc bs) = Ok ()"
    by (auto simp: CoverageProofRecordV2_validate_against_coverage_set_bytes_def coverage_set_payload_checksum_def result_simps)
  have "can_use_proof_for_pruning r"
    using proof_parse_validate [OF assms(1)] assms(3)
    by (auto simp: CoverageProofRecordV2_validate_def can_use_proof_for_pruning_def result_simps split: if_splits)
  moreover note coverage_set_header = header_parse_check [OF set_parse_Ok(1) [OF s]]
  ultimately show ?thesis
    using s v set_parse_Ok [OF s]
    by (auto simp: CoverageProofRecordV2_validate_against_coverage_set_def can_use_for_pruning_def can_use_proof_for_pruning_def
        validate_iff_ordered split: if_splits)
qed

definition sample_proof :: "u32 \<Rightarrow> CoverageProofRecordV2" where
  "sample_proof i =
     \<lparr>cpr_proof_id = i, cpr_provider_id = 1, cpr_coverage_set_id = 7, cpr_predicate_form_ref = 3,
      cpr_proof_kind = CPK_ZoneMap, cpr_proof_strength = CPS_ExactTight, cpr_exactness = CE_Exact,
      cpr_granularity = CG_RowRange, cpr_null_semantics = 0, cpr_flags = 0, cpr_snapshot_validity_ref = 4,
      cpr_coverage_set_checksum = 0, cpr_proof_payload_ref = 0, cpr_checksum = 0\<rparr>"

lemma sample_proof_valid: "CoverageProofRecordV2_validate (sample_proof i) = Ok ()"
  by (simp add: CoverageProofRecordV2_validate_def sample_proof_def result_simps ABSENT_ID_def validate_null_semantics_def
      may_under_include_def require_present_def)

lemma sample_proof_checksum [simp]: "(sample_proof i)\<lparr>cpr_checksum := 0\<rparr> = sample_proof i"
  by (simp add: sample_proof_def)

theorem proof_record_binds_set_witness:
  "can_use_proof_for_pruning (sample_proof 9) \<and>
   (\<exists>bs s. CoverageSetV2_parse (\<lambda>_. 0) bs = Ok s \<and> can_use_for_pruning (cs_header s) \<and>
      csh_provider_id (cs_header s) = cpr_provider_id (sample_proof 9))"
proof -
  obtain bs where b: "CoverageSetV2_serialize (\<lambda>_. 0) sample_set = Ok bs" "list_all (entry_sealed (\<lambda>_. 0)) (cs_entries sample_set)"
    "CoverageSetHeaderV2_check (cs_header sample_set) = Ok ()" using sample_set_bytes by blast
  note p = coverage_set_roundtrip [OF b]
  have r: "CoverageProofRecordV2_parse (\<lambda>_. 0) (CoverageProofRecordV2_sealed (\<lambda>_. 0) (sample_proof 9)) = Ok (sample_proof 9)"
    using proof_table.parse_enc [OF sample_proof_valid, of "\<lambda>_. 0" 9] by simp
  have v: "CoverageProofRecordV2_validate_against_coverage_set_bytes (\<lambda>_. 0) (sample_proof 9) bs = Ok ()"
    by (simp add: CoverageProofRecordV2_validate_against_coverage_set_bytes_def p coverage_set_payload_checksum_def
        CoverageProofRecordV2_validate_against_coverage_set_def set_header_def Let_def sample_set_def sample_set_header_def
        sample_proof_def)
  have a: "allows_pruning (cpr_proof_strength (sample_proof 9))" by (simp add: sample_proof_def allows_pruning_def)
  from proof_record_binds_set [OF r v a] show ?thesis by blast
qed

text \<open>A table of proof records with distinct identifiers is parsed back record by record, and every table the
  parser accepts has distinct identifiers.\<close>

theorem proof_records_roundtrip:
  assumes "list_all (\<lambda>r. CoverageProofRecordV2_validate r = Ok ()) rs" and "distinct (map cpr_proof_id rs)"
  shows "CoverageProofRecordV2_parse_many crc (concat (map (CoverageProofRecordV2_sealed crc) rs)) =
           Ok (map (\<lambda>r. r\<lparr>cpr_checksum := crc (CoverageProofRecordV2_image r)\<rparr>) rs)"
  using proof_table.table_roundtrip [OF assms] proof_table.table_length [of crc rs]
  by (simp add: CoverageProofRecordV2_parse_many_def)

theorem proof_records_roundtrip_witness:
  "CoverageProofRecordV2_parse_many (\<lambda>_. 0) (concat (map (CoverageProofRecordV2_sealed (\<lambda>_. 0)) [sample_proof 1, sample_proof 2])) =
     Ok [sample_proof 1, sample_proof 2]"
  by (subst proof_records_roundtrip) (simp_all add: sample_proof_valid, simp_all add: sample_proof_def)

text \<open>The cost estimates of a parsed plan candidate neither overflow nor exceed the bound it declares, and a
  candidate is never both usable for pruning and under-inclusive.\<close>

theorem plan_candidate_bounded:
  assumes "CoveragePlanCandidateV2_parse crc bs = Ok c"
  shows "unat (cpc_estimated_lookup_cost_ns c) + unat (cpc_estimated_read_cost_ns c) + unat (cpc_estimated_decode_cost_ns c) +
           unat (cpc_estimated_materialisation_cost_ns c)
         < (if cpc_max_allowed_estimated_cost_ns c = 0 then 2 ^ 64 else Suc (unat (cpc_max_allowed_estimated_cost_ns c))) \<and>
         (cpc_flags c AND COVERAGE_PLAN_FLAG_PRUNING_CANDIDATE = 0 \<or> cpc_flags c AND COVERAGE_PLAN_FLAG_MAY_UNDER_INCLUDE = 0)"
  using candidate_parse_validate [OF assms]
  by (auto simp: CoveragePlanCandidateV2_validate_def result_simps not_less split: if_splits)

definition sample_candidate :: CoveragePlanCandidateV2 where
  "sample_candidate =
     \<lparr>cpc_candidate_id = 1, cpc_predicate_fragment_ref = 2, cpc_provider_id = 3, cpc_provider_type = 1, cpc_flags = 1,
      cpc_estimated_lookup_cost_ns = 10, cpc_estimated_coverage_size_bytes = 0, cpc_estimated_read_cost_ns = 20,
      cpc_estimated_decode_cost_ns = 30, cpc_estimated_materialisation_cost_ns = 40, cpc_baseline_scan_cost_estimate_ns = 1000,
      cpc_max_allowed_estimated_cost_ns = 100, cpc_confidence_ppm = 5, cpc_calibration_epoch = 0,
      cpc_observed_error_bounds_ref = 0, cpc_fallback_policy = CFP_AdvisoryOnly, cpc_reserved = [0, 0, 0], cpc_checksum = 0\<rparr>"

theorem plan_candidate_bounded_witness:
  "\<exists>bs c. CoveragePlanCandidateV2_parse (\<lambda>_. 0) bs = Ok c \<and> cpc_max_allowed_estimated_cost_ns c = 100 \<and>
     unat (cpc_estimated_lookup_cost_ns c) + unat (cpc_estimated_read_cost_ns c) + unat (cpc_estimated_decode_cost_ns c) +
       unat (cpc_estimated_materialisation_cost_ns c) < 101"
proof -
  have v: "CoveragePlanCandidateV2_validate sample_candidate = Ok () \<and> length (cpc_reserved sample_candidate) = 3"
    by (simp add: CoveragePlanCandidateV2_validate_def sample_candidate_def ABSENT_ID_def checked_add_def
        COVERAGE_PLAN_FLAG_PRUNING_CANDIDATE_def COVERAGE_PLAN_FLAG_MAY_UNDER_INCLUDE_def)
  note p = candidate_table.parse_enc [OF v, of "\<lambda>_. 0"]
  show ?thesis using plan_candidate_bounded [OF p] p by (force simp: sample_candidate_def)
qed

end
