(* ===== verification/Predicate_Forms.thy ===== *)
theory Predicate_Forms
  imports Coverage_Records
begin

text \<open>
  The payload tables of predicate forms (\<open>cove-coverage/src/lib.rs\<close>): checksummed fixed-size items
  read from offsets the headers name, interval predicates, encoded predicates and normalised
  predicates. The crate only reads these tables; it has no encoder for them.
\<close>

section \<open>Tables at an offset\<close>

definition parse_fixed_table :: "bytes \<Rightarrow> u64 \<Rightarrow> u32 \<Rightarrow> nat \<Rightarrow> (bytes \<Rightarrow> 'r result) \<Rightarrow> 'r list result" where
  "parse_fixed_table bs offset count item_len parse =
     (if count = 0 then if offset \<noteq> 0 then Err BadCoverage else Ok []
      else let start = unat offset in
      and_then (checked_mul (unat count) item_len) (\<lambda>len.
      and_then (checked_add start len) (\<lambda>end'.
      if end' > length bs then Err OffsetRange
      else collect_map parse (chunks_exact item_len (slice start len bs)))))"

fun dense_ids_loop :: "('r \<Rightarrow> u32) \<Rightarrow> u32 set \<Rightarrow> nat \<Rightarrow> 'r list \<Rightarrow> unit result" where
  "dense_ids_loop id_of seen index [] = Ok ()"
| "dense_ids_loop id_of seen index (item # items) =
     (let item_id = id_of item in
      if unat item_id \<noteq> index \<or> item_id \<in> seen then Err BadCoverage
      else dense_ids_loop id_of (insert item_id seen) (index + 1) items)"

definition validate_unique_dense_ids :: "'r list \<Rightarrow> ('r \<Rightarrow> u32) \<Rightarrow> unit result" where
  "validate_unique_dense_ids items id_of = dense_ids_loop id_of {} 0 items"

lemma parse_fixed_table_Ok:
  "parse_fixed_table bs offset count n parse = Ok rs \<Longrightarrow> 0 < n \<Longrightarrow>
     length rs = unat count \<and> (\<forall>r \<in> set rs. \<exists>b. parse b = Ok r)"
proof -
  assume a: "parse_fixed_table bs offset count n parse = Ok rs" and n: "0 < n"
  show ?thesis
  proof (cases "count = 0")
    case True
    with a show ?thesis by (auto simp: parse_fixed_table_def split: if_splits)
  next
    case False
    with a obtain cs where cs: "cs = chunks_exact n (slice (unat offset) (unat count * n) bs)"
      "collect_map parse cs = Ok rs" "unat offset + unat count * n \<le> length bs"
      by (auto simp: parse_fixed_table_def result_simps Let_def split: if_splits)
    have "length cs = unat count" using cs(1,3) n by (simp add: chunks_exact_def)
    then show ?thesis
      using collect_map_length [OF cs(2)] collect_map_nth [OF cs(2)] by (metis in_set_conv_nth)
  qed
qed

lemma dense_ids_loop_Ok:
  "dense_ids_loop id_of seen i items = Ok u \<Longrightarrow> k < length items \<Longrightarrow> unat (id_of (items ! k)) = i + k"
proof (induction items arbitrary: seen i k)
  case (Cons x xs)
  then show ?case by (cases k) (auto simp: Let_def split: if_splits dest!: Cons.IH)
qed simp

lemma dense_ids_loop_complete:
  assumes "\<And>k. k < length items \<Longrightarrow> unat (id_of (items ! k)) = i + k" and "\<And>s. s \<in> seen \<Longrightarrow> unat s < i"
  shows "dense_ids_loop id_of seen i items = Ok ()"
  using assms
proof (induction items arbitrary: seen i)
  case (Cons x xs)
  have "unat (id_of x) = i" using Cons.prems(1) [of 0] by simp
  moreover from this have "id_of x \<notin> seen" using Cons.prems(2) by auto
  moreover have "unat (id_of (xs ! k)) = i + 1 + k" if "k < length xs" for k using Cons.prems(1) [of "Suc k"] that by simp
  moreover have "unat s < i + 1" if "s \<in> insert (id_of x) seen" for s
    using that \<open>unat (id_of x) = i\<close> Cons.prems(2) [of s] by auto
  ultimately show ?case using Cons.IH [of "i + 1" "insert (id_of x) seen"] by (simp add: Let_def)
qed simp

lemma dense_ids_iff:
  "validate_unique_dense_ids items id_of = Ok () \<longleftrightarrow> (\<forall>k < length items. unat (id_of (items ! k)) = k)"
  using dense_ids_loop_Ok [of id_of "{}" 0 items "()"] dense_ids_loop_complete [of items id_of 0 "{}"]
  by (auto simp: validate_unique_dense_ids_def)

section \<open>Interval predicates\<close>

datatype IntervalNullPolicyV2 =
    INP_NullExcluded
  | INP_NullIncluded
  | INP_SqlUnknown
  | INP_ExtensionDefined

primrec IntervalNullPolicyV2_code :: "IntervalNullPolicyV2 \<Rightarrow> u8" where
  "IntervalNullPolicyV2_code INP_NullExcluded = 0"
| "IntervalNullPolicyV2_code INP_NullIncluded = 1"
| "IntervalNullPolicyV2_code INP_SqlUnknown = 2"
| "IntervalNullPolicyV2_code INP_ExtensionDefined = 3"

definition IntervalNullPolicyV2_from_u8 :: "u8 \<Rightarrow> IntervalNullPolicyV2 option" where
  "IntervalNullPolicyV2_from_u8 v = map_of
     [(0, INP_NullExcluded),
      (1, INP_NullIncluded),
      (2, INP_SqlUnknown),
      (3, INP_ExtensionDefined)] v"

interpretation intervalNullPolicyV2: wire_enum IntervalNullPolicyV2_code IntervalNullPolicyV2_from_u8
proof
  fix k show "IntervalNullPolicyV2_from_u8 (IntervalNullPolicyV2_code k) = Some k" by (cases k) (simp_all add: IntervalNullPolicyV2_from_u8_def)
next
  fix v k assume "IntervalNullPolicyV2_from_u8 v = Some k"
  then show "IntervalNullPolicyV2_code k = v" by (auto simp: IntervalNullPolicyV2_from_u8_def split: if_splits)
qed

datatype IntervalBoundKindV2 =
    IBK_LowerUpper
  | IBK_Point
  | IBK_OpenRange
  | IBK_MultiIntervalRef

primrec IntervalBoundKindV2_code :: "IntervalBoundKindV2 \<Rightarrow> u8" where
  "IntervalBoundKindV2_code IBK_LowerUpper = 0"
| "IntervalBoundKindV2_code IBK_Point = 1"
| "IntervalBoundKindV2_code IBK_OpenRange = 2"
| "IntervalBoundKindV2_code IBK_MultiIntervalRef = 3"

definition IntervalBoundKindV2_from_u8 :: "u8 \<Rightarrow> IntervalBoundKindV2 option" where
  "IntervalBoundKindV2_from_u8 v = map_of
     [(0, IBK_LowerUpper),
      (1, IBK_Point),
      (2, IBK_OpenRange),
      (3, IBK_MultiIntervalRef)] v"

interpretation intervalBoundKindV2: wire_enum IntervalBoundKindV2_code IntervalBoundKindV2_from_u8
proof
  fix k show "IntervalBoundKindV2_from_u8 (IntervalBoundKindV2_code k) = Some k" by (cases k) (simp_all add: IntervalBoundKindV2_from_u8_def)
next
  fix v k assume "IntervalBoundKindV2_from_u8 v = Some k"
  then show "IntervalBoundKindV2_code k = v" by (auto simp: IntervalBoundKindV2_from_u8_def split: if_splits)
qed

definition IntervalPredicateV2_LEN :: usize where "IntervalPredicateV2_LEN = 28"

record IntervalPredicateV2 =
  ip_column_or_path_ref :: u32
  ip_logical_type :: u16
  ip_collation_id :: u16
  ip_null_policy :: IntervalNullPolicyV2
  ip_bound_kind :: IntervalBoundKindV2
  ip_flags :: u16
  ip_lower_inclusive :: u8
  ip_upper_inclusive :: u8
  ip_reserved :: u16
  ip_lower_value_ref :: u32
  ip_upper_value_ref :: u32
  ip_checksum :: u32

definition IntervalPredicateV2_image :: "IntervalPredicateV2 \<Rightarrow> bytes" where
  "IntervalPredicateV2_image h =
     (let out = replicate IntervalPredicateV2_LEN 0;
          out = put 0 (le_bytes 4 (ip_column_or_path_ref h)) out;
          out = put 4 (le_bytes 2 (ip_logical_type h)) out;
          out = put 6 (le_bytes 2 (ip_collation_id h)) out;
          out = put 8 [IntervalNullPolicyV2_code (ip_null_policy h)] out;
          out = put 9 [IntervalBoundKindV2_code (ip_bound_kind h)] out;
          out = put 10 (le_bytes 2 (ip_flags h)) out;
          out = put 12 [ip_lower_inclusive h] out;
          out = put 13 [ip_upper_inclusive h] out;
          out = put 14 (le_bytes 2 (ip_reserved h)) out;
          out = put 16 (le_bytes 4 (ip_lower_value_ref h)) out;
          out = put 20 (le_bytes 4 (ip_upper_value_ref h)) out
      in out)"

definition IntervalPredicateV2_sealed :: "(bytes \<Rightarrow> u32) \<Rightarrow> IntervalPredicateV2 \<Rightarrow> bytes" where
  "IntervalPredicateV2_sealed crc h = seal crc 24 (IntervalPredicateV2_image h)"

lemma length_IntervalPredicateV2_image [simp]: "length (IntervalPredicateV2_image h) = 28"
  by (simp add: IntervalPredicateV2_image_def IntervalPredicateV2_LEN_def Let_def)

lemma length_IntervalPredicateV2_sealed [simp]: "length (IntervalPredicateV2_sealed crc h) = 28"
  by (simp add: IntervalPredicateV2_sealed_def)

lemma IntervalPredicateV2_image_fields:
  "u32_at (IntervalPredicateV2_image h) 0 = ip_column_or_path_ref h"
  "u16_at (IntervalPredicateV2_image h) 4 = ip_logical_type h"
  "u16_at (IntervalPredicateV2_image h) 6 = ip_collation_id h"
  "IntervalPredicateV2_image h ! 8 = IntervalNullPolicyV2_code (ip_null_policy h)"
  "IntervalPredicateV2_image h ! 9 = IntervalBoundKindV2_code (ip_bound_kind h)"
  "u16_at (IntervalPredicateV2_image h) 10 = ip_flags h"
  "IntervalPredicateV2_image h ! 12 = ip_lower_inclusive h"
  "IntervalPredicateV2_image h ! 13 = ip_upper_inclusive h"
  "u16_at (IntervalPredicateV2_image h) 14 = ip_reserved h"
  "u32_at (IntervalPredicateV2_image h) 16 = ip_lower_value_ref h"
  "u32_at (IntervalPredicateV2_image h) 20 = ip_upper_value_ref h"
  "slice 24 4 (IntervalPredicateV2_image h) = replicate 4 0"
  by (simp_all add: IntervalPredicateV2_image_def IntervalPredicateV2_LEN_def Let_def wire_simps)

definition IntervalPredicateV2_validate :: "IntervalPredicateV2 \<Rightarrow> unit result" where
  "IntervalPredicateV2_validate h =
     (if ip_column_or_path_ref h = ABSENT_ID then Err BadCoverage
      else and_then (validate_bool (ip_lower_inclusive h)) (\<lambda>_.
      and_then (validate_bool (ip_upper_inclusive h)) (\<lambda>_.
      if ip_reserved h \<noteq> 0 then Err BadCoverage
      else case ip_bound_kind h of
        IBK_Point \<Rightarrow>
          fail_if (ip_lower_value_ref h = ABSENT_ID \<or> ip_lower_value_ref h \<noteq> ip_upper_value_ref h) BadCoverage
      | IBK_MultiIntervalRef \<Rightarrow>
          fail_if (ip_lower_value_ref h = ABSENT_ID \<or> ip_upper_value_ref h \<noteq> ABSENT_ID) BadCoverage
      | _ \<Rightarrow>
          and_then (fail_if (ip_lower_value_ref h = ABSENT_ID \<and> ip_upper_value_ref h = ABSENT_ID) BadCoverage) (\<lambda>_.
          fail_if (ip_lower_value_ref h \<noteq> ABSENT_ID \<and> ip_upper_value_ref h \<noteq> ABSENT_ID
                   \<and> ip_lower_value_ref h > ip_upper_value_ref h) BadCoverage))))"

definition IntervalPredicateV2_serialize :: "(bytes \<Rightarrow> u32) \<Rightarrow> IntervalPredicateV2 \<Rightarrow> bytes result" where
  "IntervalPredicateV2_serialize crc h = and_then (IntervalPredicateV2_validate h) (\<lambda>_. Ok (IntervalPredicateV2_sealed crc h))"

definition IntervalPredicateV2_parse :: "(bytes \<Rightarrow> u32) \<Rightarrow> bytes \<Rightarrow> IntervalPredicateV2 result" where
  "IntervalPredicateV2_parse crc bs =
     (if length bs < IntervalPredicateV2_LEN then Err BufferTooShort
      else
      and_then (read_u32 bs 0) (\<lambda>column_or_path_ref.
      and_then (read_u16 bs 4) (\<lambda>logical_type.
      and_then (read_u16 bs 6) (\<lambda>collation_id.
      and_then (read_u8 bs 8) (\<lambda>null_policy_raw.
      and_then (ok_or (IntervalNullPolicyV2_from_u8 null_policy_raw) BadCoverage) (\<lambda>null_policy.
      and_then (read_u8 bs 9) (\<lambda>bound_kind_raw.
      and_then (ok_or (IntervalBoundKindV2_from_u8 bound_kind_raw) BadCoverage) (\<lambda>bound_kind.
      and_then (read_u16 bs 10) (\<lambda>flags.
      and_then (read_u8 bs 12) (\<lambda>lower_inclusive.
      and_then (read_u8 bs 13) (\<lambda>upper_inclusive.
      and_then (read_u16 bs 14) (\<lambda>reserved.
      and_then (read_u32 bs 16) (\<lambda>lower_value_ref.
      and_then (read_u32 bs 20) (\<lambda>upper_value_ref.
      and_then (read_u32 bs 24) (\<lambda>checksum.
      let r = \<lparr>ip_column_or_path_ref = column_or_path_ref,
         ip_logical_type = logical_type,
         ip_collation_id = collation_id,
         ip_null_policy = null_policy,
         ip_bound_kind = bound_kind,
         ip_flags = flags,
         ip_lower_inclusive = lower_inclusive,
         ip_upper_inclusive = upper_inclusive,
         ip_reserved = reserved,
         ip_lower_value_ref = lower_value_ref,
         ip_upper_value_ref = upper_value_ref,
         ip_checksum = checksum\<rparr> in
      and_then (verify_crc crc (slice 0 IntervalPredicateV2_LEN bs) 24 checksum) (\<lambda>_.
      and_then (IntervalPredicateV2_validate r) (\<lambda>_. Ok r)))))))))))))))))"

lemma IntervalPredicateV2_roundtrip:
  assumes "IntervalPredicateV2_validate (h\<lparr>ip_checksum := crc (IntervalPredicateV2_image h)\<rparr>) = Ok ()"
  shows "IntervalPredicateV2_parse crc (IntervalPredicateV2_sealed crc h @ rest) = Ok (h\<lparr>ip_checksum := crc (IntervalPredicateV2_image h)\<rparr>)"
proof -
  note f = IntervalPredicateV2_image_fields [of h]
  have v: "verify_crc crc (seal crc 24 (IntervalPredicateV2_image h)) 24 (crc (IntervalPredicateV2_image h)) = Ok ()"
    by (rule verify_crc_seal) (simp_all add: f)
  have eta: "\<lparr>ip_column_or_path_ref = ip_column_or_path_ref h, ip_logical_type = ip_logical_type h, ip_collation_id = ip_collation_id h, ip_null_policy = ip_null_policy h, ip_bound_kind = ip_bound_kind h, ip_flags = ip_flags h, ip_lower_inclusive = ip_lower_inclusive h, ip_upper_inclusive = ip_upper_inclusive h, ip_reserved = ip_reserved h, ip_lower_value_ref = ip_lower_value_ref h, ip_upper_value_ref = ip_upper_value_ref h, ip_checksum = c\<rparr> =
      h\<lparr>ip_checksum := c\<rparr>" for c by (cases h) simp
  show ?thesis using assms
    by (simp add: IntervalPredicateV2_parse_def IntervalPredicateV2_LEN_def IntervalPredicateV2_sealed_def Let_def nth_append wire_simps f v eta
        intervalBoundKindV2.decode_code intervalNullPolicyV2.decode_code )
qed

definition IntervalPredicateV2_parse_many :: "(bytes \<Rightarrow> u32) \<Rightarrow> bytes \<Rightarrow> IntervalPredicateV2 list result" where
  "IntervalPredicateV2_parse_many crc bs =
     (if length bs mod IntervalPredicateV2_LEN \<noteq> 0 then Err BadCoverage
      else collect_map (IntervalPredicateV2_parse crc) (chunks_exact IntervalPredicateV2_LEN bs))"

definition IntervalPredicateSetV2_LEN :: usize where "IntervalPredicateSetV2_LEN = 30"

record IntervalPredicateSetV2 =
  ips_interval_set_id :: u32
  ips_column_or_path_ref :: u32
  ips_logical_type :: u16
  ips_collation_id :: u16
  ips_null_policy :: IntervalNullPolicyV2
  ips_flags :: u8
  ips_interval_count :: u32
  ips_intervals_offset :: u64
  ips_checksum :: u32

definition IntervalPredicateSetV2_check :: "IntervalPredicateSetV2 \<Rightarrow> unit result" where
  "IntervalPredicateSetV2_check h = require_present (ips_column_or_path_ref h)"

definition IntervalPredicateSetV2_parse :: "(bytes \<Rightarrow> u32) \<Rightarrow> bytes \<Rightarrow> IntervalPredicateSetV2 result" where
  "IntervalPredicateSetV2_parse crc bs =
     (if length bs < IntervalPredicateSetV2_LEN then Err BufferTooShort
      else
      and_then (read_u32 bs 0) (\<lambda>interval_set_id.
      and_then (read_u32 bs 4) (\<lambda>column_or_path_ref.
      and_then (read_u16 bs 8) (\<lambda>logical_type.
      and_then (read_u16 bs 10) (\<lambda>collation_id.
      and_then (read_u8 bs 12) (\<lambda>null_policy_raw.
      and_then (ok_or (IntervalNullPolicyV2_from_u8 null_policy_raw) BadCoverage) (\<lambda>null_policy.
      and_then (read_u8 bs 13) (\<lambda>flags.
      and_then (read_u32 bs 14) (\<lambda>interval_count.
      and_then (read_u64 bs 18) (\<lambda>intervals_offset.
      and_then (read_u32 bs 26) (\<lambda>checksum.
      let r = \<lparr>ips_interval_set_id = interval_set_id,
         ips_column_or_path_ref = column_or_path_ref,
         ips_logical_type = logical_type,
         ips_collation_id = collation_id,
         ips_null_policy = null_policy,
         ips_flags = flags,
         ips_interval_count = interval_count,
         ips_intervals_offset = intervals_offset,
         ips_checksum = checksum\<rparr> in
      and_then (verify_crc crc (slice 0 IntervalPredicateSetV2_LEN bs) 26 checksum) (\<lambda>_.
      and_then (IntervalPredicateSetV2_check r) (\<lambda>_. Ok r)))))))))))))"

definition IntervalBoundPairV2_LEN :: usize where "IntervalBoundPairV2_LEN = 16"

record IntervalBoundPairV2 =
  ibp_lower_value_ref :: u32
  ibp_upper_value_ref :: u32
  ibp_lower_inclusive :: u8
  ibp_upper_inclusive :: u8
  ibp_flags :: u16
  ibp_checksum :: u32

definition IntervalBoundPairV2_check :: "IntervalBoundPairV2 \<Rightarrow> unit result" where
  "IntervalBoundPairV2_check h =
     and_then (validate_bool (ibp_lower_inclusive h)) (\<lambda>_.
     and_then (validate_bool (ibp_upper_inclusive h)) (\<lambda>_.
     fail_if (ibp_lower_value_ref h \<noteq> ABSENT_ID \<and> ibp_upper_value_ref h \<noteq> ABSENT_ID
              \<and> ibp_lower_value_ref h > ibp_upper_value_ref h) BadCoverage))"

definition IntervalBoundPairV2_parse :: "(bytes \<Rightarrow> u32) \<Rightarrow> bytes \<Rightarrow> IntervalBoundPairV2 result" where
  "IntervalBoundPairV2_parse crc bs =
     (if length bs < IntervalBoundPairV2_LEN then Err BufferTooShort
      else
      and_then (read_u32 bs 0) (\<lambda>lower_value_ref.
      and_then (read_u32 bs 4) (\<lambda>upper_value_ref.
      and_then (read_u8 bs 8) (\<lambda>lower_inclusive.
      and_then (read_u8 bs 9) (\<lambda>upper_inclusive.
      and_then (read_u16 bs 10) (\<lambda>flags.
      and_then (read_u32 bs 12) (\<lambda>checksum.
      let r = \<lparr>ibp_lower_value_ref = lower_value_ref,
         ibp_upper_value_ref = upper_value_ref,
         ibp_lower_inclusive = lower_inclusive,
         ibp_upper_inclusive = upper_inclusive,
         ibp_flags = flags,
         ibp_checksum = checksum\<rparr> in
      and_then (verify_crc crc (slice 0 IntervalBoundPairV2_LEN bs) 12 checksum) (\<lambda>_.
      and_then (IntervalBoundPairV2_check r) (\<lambda>_. Ok r)))))))))"

text \<open>The derived order on pairs compares the fields in turn.\<close>

definition pair_ord :: "IntervalBoundPairV2 \<Rightarrow> u32 \<times> u32 \<times> u8 \<times> u8 \<times> u16 \<times> u32" where
  "pair_ord p = (ibp_lower_value_ref p, ibp_upper_value_ref p, ibp_lower_inclusive p, ibp_upper_inclusive p,
     ibp_flags p, ibp_checksum p)"

record MultiIntervalPredicatePayloadV2 =
  mip_header :: IntervalPredicateSetV2
  mip_intervals :: "IntervalBoundPairV2 list"

definition MultiIntervalPredicatePayloadV2_parse :: "(bytes \<Rightarrow> u32) \<Rightarrow> bytes \<Rightarrow> MultiIntervalPredicatePayloadV2 result" where
  "MultiIntervalPredicatePayloadV2_parse crc bs =
     and_then (IntervalPredicateSetV2_parse crc bs) (\<lambda>header.
     and_then (parse_fixed_table bs (ips_intervals_offset header) (ips_interval_count header)
                 IntervalBoundPairV2_LEN (IntervalBoundPairV2_parse crc)) (\<lambda>intervals.
     if \<not> windows2 (\<lambda>a b. pair_ord a < pair_ord b) intervals then Err BadCoverage
     else Ok \<lparr>mip_header = header, mip_intervals = intervals\<rparr>))"

section \<open>Encoded predicates\<close>

definition EncodedPredicateFormV2_LEN :: usize where "EncodedPredicateFormV2_LEN = 53"

record EncodedPredicateFormV2 =
  epf_encoded_predicate_id :: u32
  epf_baseline_predicate_ref :: u32
  epf_table_id :: u32
  epf_column_id :: u32
  epf_logical_type :: u16
  epf_physical_kind :: u8
  epf_encoding_kind :: u16
  epf_codec_id :: u32
  epf_flags :: u32
  epf_equivalence_kind :: u8
  epf_null_semantics :: u8
  epf_collation_id :: u16
  epf_params_offset :: u64
  epf_params_length :: u64
  epf_checksum :: u32

definition EncodedPredicateFormV2_check :: "EncodedPredicateFormV2 \<Rightarrow> unit result" where
  "EncodedPredicateFormV2_check h =
     (if epf_baseline_predicate_ref h = ABSENT_ID \<or> epf_equivalence_kind h > 2 then Err BadCoverage
      else and_then (validate_null_semantics (epf_null_semantics h)) (\<lambda>_.
      and_then (checked_end (epf_params_offset h) (epf_params_length h)) (\<lambda>_. Ok ())))"

definition EncodedPredicateFormV2_parse :: "(bytes \<Rightarrow> u32) \<Rightarrow> bytes \<Rightarrow> EncodedPredicateFormV2 result" where
  "EncodedPredicateFormV2_parse crc bs =
     (if length bs < EncodedPredicateFormV2_LEN then Err BufferTooShort
      else
      and_then (read_u32 bs 0) (\<lambda>encoded_predicate_id.
      and_then (read_u32 bs 4) (\<lambda>baseline_predicate_ref.
      and_then (read_u32 bs 8) (\<lambda>table_id.
      and_then (read_u32 bs 12) (\<lambda>column_id.
      and_then (read_u16 bs 16) (\<lambda>logical_type.
      and_then (read_u8 bs 18) (\<lambda>physical_kind.
      and_then (read_u16 bs 19) (\<lambda>encoding_kind.
      and_then (read_u32 bs 21) (\<lambda>codec_id.
      and_then (read_u32 bs 25) (\<lambda>flags.
      and_then (read_u8 bs 29) (\<lambda>equivalence_kind.
      and_then (read_u8 bs 30) (\<lambda>null_semantics.
      and_then (read_u16 bs 31) (\<lambda>collation_id.
      and_then (read_u64 bs 33) (\<lambda>params_offset.
      and_then (read_u64 bs 41) (\<lambda>params_length.
      and_then (read_u32 bs 49) (\<lambda>checksum.
      let r = \<lparr>epf_encoded_predicate_id = encoded_predicate_id,
         epf_baseline_predicate_ref = baseline_predicate_ref,
         epf_table_id = table_id,
         epf_column_id = column_id,
         epf_logical_type = logical_type,
         epf_physical_kind = physical_kind,
         epf_encoding_kind = encoding_kind,
         epf_codec_id = codec_id,
         epf_flags = flags,
         epf_equivalence_kind = equivalence_kind,
         epf_null_semantics = null_semantics,
         epf_collation_id = collation_id,
         epf_params_offset = params_offset,
         epf_params_length = params_length,
         epf_checksum = checksum\<rparr> in
      and_then (verify_crc crc (slice 0 EncodedPredicateFormV2_LEN bs) 49 checksum) (\<lambda>_.
      and_then (EncodedPredicateFormV2_check r) (\<lambda>_. Ok r))))))))))))))))))"

definition EncodedPredicateFormV2_is_pruning_safe :: "EncodedPredicateFormV2 \<Rightarrow> bool" where
  "EncodedPredicateFormV2_is_pruning_safe h \<longleftrightarrow>
     epf_equivalence_kind h \<in> {0, 1} \<and> epf_null_semantics h \<noteq> 255"

section \<open>Normalised predicates\<close>

datatype PredicateNullPolicyV2 =
    PNP_SqlWhere
  | PNP_NullExcluded
  | PNP_NullIncluded
  | PNP_NullOnly
  | PNP_NullRejected
  | PNP_ExtensionDefined

primrec PredicateNullPolicyV2_code :: "PredicateNullPolicyV2 \<Rightarrow> u8" where
  "PredicateNullPolicyV2_code PNP_SqlWhere = 0"
| "PredicateNullPolicyV2_code PNP_NullExcluded = 1"
| "PredicateNullPolicyV2_code PNP_NullIncluded = 2"
| "PredicateNullPolicyV2_code PNP_NullOnly = 3"
| "PredicateNullPolicyV2_code PNP_NullRejected = 4"
| "PredicateNullPolicyV2_code PNP_ExtensionDefined = 255"

definition PredicateNullPolicyV2_from_u8 :: "u8 \<Rightarrow> PredicateNullPolicyV2 option" where
  "PredicateNullPolicyV2_from_u8 v = map_of
     [(0, PNP_SqlWhere),
      (1, PNP_NullExcluded),
      (2, PNP_NullIncluded),
      (3, PNP_NullOnly),
      (4, PNP_NullRejected),
      (255, PNP_ExtensionDefined)] v"

interpretation predicateNullPolicyV2: wire_enum PredicateNullPolicyV2_code PredicateNullPolicyV2_from_u8
proof
  fix k show "PredicateNullPolicyV2_from_u8 (PredicateNullPolicyV2_code k) = Some k" by (cases k) (simp_all add: PredicateNullPolicyV2_from_u8_def)
next
  fix v k assume "PredicateNullPolicyV2_from_u8 v = Some k"
  then show "PredicateNullPolicyV2_code k = v" by (auto simp: PredicateNullPolicyV2_from_u8_def split: if_splits)
qed

datatype PredicateNormalisationKindV2 =
    PNK_Cnf
  | PNK_Dnf
  | PNK_FlatConjunction
  | PNK_FlatDisjunction

primrec PredicateNormalisationKindV2_code :: "PredicateNormalisationKindV2 \<Rightarrow> u8" where
  "PredicateNormalisationKindV2_code PNK_Cnf = 0"
| "PredicateNormalisationKindV2_code PNK_Dnf = 1"
| "PredicateNormalisationKindV2_code PNK_FlatConjunction = 2"
| "PredicateNormalisationKindV2_code PNK_FlatDisjunction = 3"

definition PredicateNormalisationKindV2_from_u8 :: "u8 \<Rightarrow> PredicateNormalisationKindV2 option" where
  "PredicateNormalisationKindV2_from_u8 v = map_of
     [(0, PNK_Cnf),
      (1, PNK_Dnf),
      (2, PNK_FlatConjunction),
      (3, PNK_FlatDisjunction)] v"

interpretation predicateNormalisationKindV2: wire_enum PredicateNormalisationKindV2_code PredicateNormalisationKindV2_from_u8
proof
  fix k show "PredicateNormalisationKindV2_from_u8 (PredicateNormalisationKindV2_code k) = Some k" by (cases k) (simp_all add: PredicateNormalisationKindV2_from_u8_def)
next
  fix v k assume "PredicateNormalisationKindV2_from_u8 v = Some k"
  then show "PredicateNormalisationKindV2_code k = v" by (auto simp: PredicateNormalisationKindV2_from_u8_def split: if_splits)
qed

definition PredicateNormalisedPayloadHeaderV2_LEN :: usize where "PredicateNormalisedPayloadHeaderV2_LEN = 32"

record PredicateNormalisedPayloadHeaderV2 =
  npl_normalisation_kind :: PredicateNormalisationKindV2
  npl_flags :: u8
  npl_reserved :: u16
  npl_clause_count :: u32
  npl_term_count :: u32
  npl_clause_offset :: u64
  npl_term_offset :: u64
  npl_checksum :: u32

definition PredicateNormalisedPayloadHeaderV2_check :: "PredicateNormalisedPayloadHeaderV2 \<Rightarrow> unit result" where
  "PredicateNormalisedPayloadHeaderV2_check h = fail_if (npl_reserved h \<noteq> 0) BadCoverage"

definition PredicateNormalisedPayloadHeaderV2_parse :: "(bytes \<Rightarrow> u32) \<Rightarrow> bytes \<Rightarrow> PredicateNormalisedPayloadHeaderV2 result" where
  "PredicateNormalisedPayloadHeaderV2_parse crc bs =
     (if length bs < PredicateNormalisedPayloadHeaderV2_LEN then Err BufferTooShort
      else
      and_then (read_u8 bs 0) (\<lambda>normalisation_kind_raw.
      and_then (ok_or (PredicateNormalisationKindV2_from_u8 normalisation_kind_raw) BadCoverage) (\<lambda>normalisation_kind.
      and_then (read_u8 bs 1) (\<lambda>flags.
      and_then (read_u16 bs 2) (\<lambda>reserved.
      and_then (read_u32 bs 4) (\<lambda>clause_count.
      and_then (read_u32 bs 8) (\<lambda>term_count.
      and_then (read_u64 bs 12) (\<lambda>clause_offset.
      and_then (read_u64 bs 20) (\<lambda>term_offset.
      and_then (read_u32 bs 28) (\<lambda>checksum.
      let r = \<lparr>npl_normalisation_kind = normalisation_kind,
         npl_flags = flags,
         npl_reserved = reserved,
         npl_clause_count = clause_count,
         npl_term_count = term_count,
         npl_clause_offset = clause_offset,
         npl_term_offset = term_offset,
         npl_checksum = checksum\<rparr> in
      and_then (verify_crc crc (slice 0 PredicateNormalisedPayloadHeaderV2_LEN bs) 28 checksum) (\<lambda>_.
      and_then (PredicateNormalisedPayloadHeaderV2_check r) (\<lambda>_. Ok r))))))))))))"

definition PredicateClauseEntryV2_LEN :: usize where "PredicateClauseEntryV2_LEN = 20"

record PredicateClauseEntryV2 =
  pc_clause_id :: u32
  pc_first_term_index :: u32
  pc_term_count :: u32
  pc_flags :: u32
  pc_checksum :: u32

definition PredicateClauseEntryV2_parse :: "(bytes \<Rightarrow> u32) \<Rightarrow> bytes \<Rightarrow> PredicateClauseEntryV2 result" where
  "PredicateClauseEntryV2_parse crc bs =
     (if length bs < PredicateClauseEntryV2_LEN then Err BufferTooShort
      else
      and_then (read_u32 bs 0) (\<lambda>clause_id.
      and_then (read_u32 bs 4) (\<lambda>first_term_index.
      and_then (read_u32 bs 8) (\<lambda>term_count.
      and_then (read_u32 bs 12) (\<lambda>flags.
      and_then (read_u32 bs 16) (\<lambda>checksum.
      let r = \<lparr>pc_clause_id = clause_id,
         pc_first_term_index = first_term_index,
         pc_term_count = term_count,
         pc_flags = flags,
         pc_checksum = checksum\<rparr> in
      and_then (verify_crc crc (slice 0 PredicateClauseEntryV2_LEN bs) 16 checksum) (\<lambda>_.
      Ok r)))))))"

definition PredicateTermV2_LEN :: usize where "PredicateTermV2_LEN = 16"

record PredicateTermV2 =
  pt_term_id :: u32
  pt_ast_node_ref :: u32
  pt_negated :: u8
  pt_null_policy :: PredicateNullPolicyV2
  pt_proof_safe :: u8
  pt_reserved :: u8
  pt_checksum :: u32

definition PredicateTermV2_check :: "PredicateTermV2 \<Rightarrow> unit result" where
  "PredicateTermV2_check h =
     and_then (validate_bool (pt_negated h)) (\<lambda>_.
     and_then (validate_bool (pt_proof_safe h)) (\<lambda>_.
     fail_if (pt_reserved h \<noteq> 0) BadCoverage))"

definition PredicateTermV2_parse :: "(bytes \<Rightarrow> u32) \<Rightarrow> bytes \<Rightarrow> PredicateTermV2 result" where
  "PredicateTermV2_parse crc bs =
     (if length bs < PredicateTermV2_LEN then Err BufferTooShort
      else
      and_then (read_u32 bs 0) (\<lambda>term_id.
      and_then (read_u32 bs 4) (\<lambda>ast_node_ref.
      and_then (read_u8 bs 8) (\<lambda>negated.
      and_then (read_u8 bs 9) (\<lambda>null_policy_raw.
      and_then (ok_or (PredicateNullPolicyV2_from_u8 null_policy_raw) BadCoverage) (\<lambda>null_policy.
      and_then (read_u8 bs 10) (\<lambda>proof_safe.
      and_then (read_u8 bs 11) (\<lambda>reserved.
      and_then (read_u32 bs 12) (\<lambda>checksum.
      let r = \<lparr>pt_term_id = term_id,
         pt_ast_node_ref = ast_node_ref,
         pt_negated = negated,
         pt_null_policy = null_policy,
         pt_proof_safe = proof_safe,
         pt_reserved = reserved,
         pt_checksum = checksum\<rparr> in
      and_then (verify_crc crc (slice 0 PredicateTermV2_LEN bs) 12 checksum) (\<lambda>_.
      and_then (PredicateTermV2_check r) (\<lambda>_. Ok r)))))))))))"

record PredicateNormalisedPayloadV2 =
  np_header :: PredicateNormalisedPayloadHeaderV2
  np_clauses :: "PredicateClauseEntryV2 list"
  np_terms :: "PredicateTermV2 list"

text \<open>The loop over the clauses; the addition is on \<open>u32\<close>.\<close>

fun clause_terms_loop :: "nat \<Rightarrow> PredicateClauseEntryV2 list \<Rightarrow> unit result" where
  "clause_terms_loop n [] = Ok ()"
| "clause_terms_loop n (clause # clauses) =
     (if unat (pc_first_term_index clause) + unat (pc_term_count clause) \<ge> 2 ^ 32 then Err ArithOverflow
      else if unat (pc_first_term_index clause) + unat (pc_term_count clause) > n then Err BadCoverage
      else clause_terms_loop n clauses)"

definition PredicateNormalisedPayloadV2_parse :: "(bytes \<Rightarrow> u32) \<Rightarrow> bytes \<Rightarrow> PredicateNormalisedPayloadV2 result" where
  "PredicateNormalisedPayloadV2_parse crc bs =
     and_then (PredicateNormalisedPayloadHeaderV2_parse crc bs) (\<lambda>header.
     and_then (parse_fixed_table bs (npl_clause_offset header) (npl_clause_count header)
                 PredicateClauseEntryV2_LEN (PredicateClauseEntryV2_parse crc)) (\<lambda>clauses.
     and_then (parse_fixed_table bs (npl_term_offset header) (npl_term_count header)
                 PredicateTermV2_LEN (PredicateTermV2_parse crc)) (\<lambda>terms.
     and_then (validate_unique_dense_ids clauses pc_clause_id) (\<lambda>_.
     and_then (validate_unique_dense_ids terms pt_term_id) (\<lambda>_.
     and_then (clause_terms_loop (length terms) clauses) (\<lambda>_.
     Ok \<lparr>np_header = header, np_clauses = clauses, np_terms = terms\<rparr>))))))"

section \<open>Predicate forms with payloads\<close>

record PredicateNormalFormWithPayloadV2 =
  pnp_form :: PredicateNormalFormV2
  pnp_payload :: bytes

declare and_then_cong [fundef_cong]

text \<open>A payload starts behind the row just read and lies inside the buffer.\<close>

definition lower_table_end :: "bytes \<Rightarrow> usize \<Rightarrow> usize \<Rightarrow> PredicateNormalFormV2 \<Rightarrow> usize result" where
  "lower_table_end bs nxt table_end form =
     (if pnf_payload_length form \<noteq> 0
      then and_then (checked_end (pnf_payload_offset form) (pnf_payload_length form)) (\<lambda>end'.
           if unat (pnf_payload_offset form) < nxt \<or> unat end' > length bs then Err BadCoverage
           else Ok (min table_end (unat (pnf_payload_offset form))))
      else Ok table_end)"

lemma lower_table_end_le: "lower_table_end bs nxt table_end form = Ok te \<Longrightarrow> te \<le> table_end"
  by (auto simp: lower_table_end_def result_simps split: if_splits)

text \<open>
  The loop over the table: its end is lowered to the smallest payload offset met so far. It ends
  because the cursor advances and the end never rises.
\<close>

function form_table_loop ::
  "(bytes \<Rightarrow> u32) \<Rightarrow> bytes \<Rightarrow> u32 set \<Rightarrow> usize \<Rightarrow> usize \<Rightarrow> PredicateNormalFormV2 list result" where
  "form_table_loop crc bs ids cursor table_end =
     (if cursor < table_end then
        and_then (checked_add cursor PredicateNormalFormV2_LEN) (\<lambda>nxt.
        if nxt > length bs then Err BufferTooShort
        else and_then (PredicateNormalFormV2_parse crc (slice cursor PredicateNormalFormV2_LEN bs)) (\<lambda>form.
        if pnf_predicate_form_id form \<in> ids then Err BadCoverage
        else and_then (lower_table_end bs nxt table_end form) (\<lambda>table_end'.
        and_then (form_table_loop crc bs (insert (pnf_predicate_form_id form) ids) nxt table_end') (\<lambda>forms.
        Ok (form # forms)))))
      else Ok [])"
  by pat_completeness auto
termination
  by (relation "measure (\<lambda>(crc, bs, ids, cursor, table_end). table_end - cursor)")
     (auto simp: checked_add_eq_Ok PredicateNormalFormV2_LEN_def dest!: lower_table_end_le)

declare form_table_loop.simps [simp del]

definition attach_payload :: "bytes \<Rightarrow> PredicateNormalFormV2 \<Rightarrow> PredicateNormalFormWithPayloadV2 result" where
  "attach_payload bs form =
     (if pnf_payload_length form = 0 then Ok \<lparr>pnp_form = form, pnp_payload = []\<rparr>
      else let offset = unat (pnf_payload_offset form) in
      and_then (checked_end (pnf_payload_offset form) (pnf_payload_length form)) (\<lambda>end'.
      if offset \<le> unat end' \<and> unat end' \<le> length bs
      then Ok \<lparr>pnp_form = form, pnp_payload = slice offset (unat end' - offset) bs\<rparr>
      else Err BufferTooShort))"

text \<open>\<open>parse_fixed\<close> is the branch for tables without payloads; \<open>None\<close> falls through to the loop.\<close>

definition payload_free_forms :: "(bytes \<Rightarrow> u32) \<Rightarrow> bytes \<Rightarrow> PredicateNormalFormV2 list option result" where
  "payload_free_forms crc bs =
     (if length bs mod PredicateNormalFormV2_LEN = 0
      then and_then (PredicateNormalFormV2_parse_many crc bs) (\<lambda>forms.
           Ok (if list_all (\<lambda>form. pnf_payload_length form = 0) forms then Some forms else None))
      else Ok None)"

definition PredicateNormalFormWithPayloadV2_parse_many ::
  "(bytes \<Rightarrow> u32) \<Rightarrow> bytes \<Rightarrow> PredicateNormalFormWithPayloadV2 list result" where
  "PredicateNormalFormWithPayloadV2_parse_many crc bs =
     (if bs = [] then Ok []
      else and_then (payload_free_forms crc bs) (\<lambda>free.
      case free of
        Some forms \<Rightarrow> Ok (map (\<lambda>form. \<lparr>pnp_form = form, pnp_payload = []\<rparr>) forms)
      | None \<Rightarrow>
          and_then (PredicateNormalFormV2_parse crc bs) (\<lambda>first.
          let table_end = (if pnf_payload_length first = 0 then length bs else unat (pnf_payload_offset first)) in
          if table_end = 0 \<or> table_end > length bs \<or> table_end mod PredicateNormalFormV2_LEN \<noteq> 0 then Err BadCoverage
          else and_then (form_table_loop crc bs {} 0 table_end) (\<lambda>forms.
          collect_map (attach_payload bs) forms))))"

lemma form_table_ids:
  "form_table_loop crc bs ids c e = Ok forms \<Longrightarrow>
     distinct (map pnf_predicate_form_id forms) \<and> (\<forall>f \<in> set forms. pnf_predicate_form_id f \<notin> ids)"
proof (induction crc bs ids c e arbitrary: forms rule: form_table_loop.induct)
  case (1 crc bs ids cursor table_end)
  show ?case
  proof (cases "cursor < table_end")
    case True
    with 1(2) obtain nxt form te rest where
      s: "checked_add cursor PredicateNormalFormV2_LEN = Ok nxt" "\<not> nxt > length bs"
        "PredicateNormalFormV2_parse crc (slice cursor PredicateNormalFormV2_LEN bs) = Ok form"
        "pnf_predicate_form_id form \<notin> ids"
        "lower_table_end bs nxt table_end form = Ok te"
        "form_table_loop crc bs (insert (pnf_predicate_form_id form) ids) nxt te = Ok rest" "forms = form # rest"
      unfolding form_table_loop.simps [of crc bs ids cursor table_end] by (auto simp: and_then_eq_Ok split: if_split_asm)
    from 1(1) [OF True s(1-5) s(6)] s(4,7) show ?thesis by auto
  next
    case False
    with 1(2) show ?thesis by (simp add: form_table_loop.simps [of crc bs ids cursor table_end])
  qed
qed

lemma attach_payload_Ok:
  "attach_payload bs form = Ok p \<Longrightarrow> pnp_form p = form \<and> length (pnp_payload p) = unat (pnf_payload_length form) \<and>
     (pnp_payload p = [] \<or> pnp_payload p = slice (unat (pnf_payload_offset form)) (unat (pnf_payload_length form)) bs)"
proof -
  assume a: "attach_payload bs form = Ok p"
  show ?thesis
  proof (cases "pnf_payload_length form = 0")
    case True
    with a show ?thesis by (auto simp: attach_payload_def)
  next
    case False
    from a False have fit: "unat (pnf_payload_offset form) + unat (pnf_payload_length form) < usize_bound"
      by (auto simp: attach_payload_def result_simps Let_def split: if_splits)
    then have "unat (pnf_payload_offset form + pnf_payload_length form) = unat (pnf_payload_offset form) + unat (pnf_payload_length form)"
      using unat_add_lem [of "pnf_payload_offset form" "pnf_payload_length form"] by simp
    with a False show ?thesis by (auto simp: attach_payload_def result_simps Let_def split: if_splits)
  qed
qed

section \<open>Properties\<close>

text \<open>Every parsed predicate form carries exactly the payload bytes its header names, and form identifiers
  are distinct.\<close>

theorem predicate_forms_payloads:
  assumes "PredicateNormalFormWithPayloadV2_parse_many crc bs = Ok ps"
  shows "distinct (map (\<lambda>p. pnf_predicate_form_id (pnp_form p)) ps) \<and>
         (\<forall>p \<in> set ps. length (pnp_payload p) = unat (pnf_payload_length (pnp_form p)) \<and>
            (pnp_payload p = [] \<or>
             pnp_payload p = slice (unat (pnf_payload_offset (pnp_form p))) (unat (pnf_payload_length (pnp_form p))) bs))"
proof (cases "bs = []")
  case True
  with assms show ?thesis by (simp add: PredicateNormalFormWithPayloadV2_parse_many_def)
next
  case False
  with assms obtain free where f: "payload_free_forms crc bs = Ok free"
    by (auto simp: PredicateNormalFormWithPayloadV2_parse_many_def result_simps)
  show ?thesis
  proof (cases free)
    case (Some forms)
    with f have "PredicateNormalFormV2_parse_many crc bs = Ok forms" "list_all (\<lambda>form. pnf_payload_length form = 0) forms"
      by (auto simp: payload_free_forms_def result_simps split: if_splits)
    moreover from this have "distinct (map pnf_predicate_form_id forms)"
      by (auto simp: PredicateNormalFormV2_parse_many_def parse_many_loop_Ok split: if_splits)
    moreover have "ps = map (\<lambda>form. \<lparr>pnp_form = form, pnp_payload = []\<rparr>) forms"
      using assms False f Some by (simp add: PredicateNormalFormWithPayloadV2_parse_many_def)
    ultimately show ?thesis by (auto simp: comp_def list_all_iff)
  next
    case None
    with assms False f obtain te forms where l: "form_table_loop crc bs {} 0 te = Ok forms"
      and c: "collect_map (attach_payload bs) forms = Ok ps"
      by (auto simp: PredicateNormalFormWithPayloadV2_parse_many_def result_simps Let_def split: if_splits)
    have at: "attach_payload bs (forms ! i) = Ok (ps ! i)" if "i < length ps" for i
      using collect_map_nth [OF c] collect_map_length [OF c] that by simp
    have "map (\<lambda>p. pnf_predicate_form_id (pnp_form p)) ps = map pnf_predicate_form_id forms"
      by (rule nth_equalityI) (use attach_payload_Ok [OF at] collect_map_length [OF c] in auto)
    moreover have "distinct (map pnf_predicate_form_id forms)" using form_table_ids [OF l] by simp
    moreover have "\<forall>p \<in> set ps. length (pnp_payload p) = unat (pnf_payload_length (pnp_form p)) \<and>
            (pnp_payload p = [] \<or>
             pnp_payload p = slice (unat (pnf_payload_offset (pnp_form p))) (unat (pnf_payload_length (pnp_form p))) bs)"
      using attach_payload_Ok [OF at] by (metis in_set_conv_nth)
    ultimately show ?thesis by simp
  qed
qed

definition sample_form :: PredicateNormalFormV2 where
  "sample_form = \<lparr>pnf_predicate_form_id = 4, pnf_form_kind = PFK_PredicateAst, pnf_flags = 0, pnf_logical_context_ref = 1,
     pnf_payload_offset = 32, pnf_payload_length = 3, pnf_checksum = 0\<rparr>"

lemma sample_form_valid: "PredicateNormalFormV2_validate sample_form = Ok ()"
  by (simp add: PredicateNormalFormV2_validate_def sample_form_def ABSENT_ID_def result_simps and_then_eq_Ok)

lemma sample_form_parse:
  "PredicateNormalFormV2_parse (\<lambda>_. 0) (PredicateNormalFormV2_sealed (\<lambda>_. 0) sample_form @ rest) = Ok sample_form"
proof -
  have "sample_form\<lparr>pnf_checksum := 0\<rparr> = sample_form" by (simp add: sample_form_def)
  with PredicateNormalFormV2_roundtrip [where h = sample_form and crc = "\<lambda>_. 0" and rest = rest] sample_form_valid
  show ?thesis by simp
qed

theorem predicate_forms_payloads_witness:
  "PredicateNormalFormWithPayloadV2_parse_many (\<lambda>_. 0) (PredicateNormalFormV2_sealed (\<lambda>_. 0) sample_form @ [1, 2, 3]) =
     Ok [\<lparr>pnp_form = sample_form, pnp_payload = [1, 2, 3]\<rparr>] \<and>
   distinct (map (\<lambda>p. pnf_predicate_form_id (pnp_form p)) [\<lparr>pnp_form = sample_form, pnp_payload = [1, 2, 3]\<rparr>])"
proof -
  let ?bs = "PredicateNormalFormV2_sealed (\<lambda>_. 0) sample_form @ [1, 2, 3]"
  have s: "slice 0 32 ?bs = PredicateNormalFormV2_sealed (\<lambda>_. 0) sample_form" by (simp add: wire_simps)
  have p: "PredicateNormalFormV2_parse (\<lambda>_. 0) (PredicateNormalFormV2_sealed (\<lambda>_. 0) sample_form) = Ok sample_form"
    using sample_form_parse [of "[]"] by simp
  have l: "form_table_loop (\<lambda>_. 0) ?bs {} 0 32 = Ok [sample_form]"
    using s p by (simp add: form_table_loop.simps [of _ _ _ 0] form_table_loop.simps [of _ _ _ 32] checked_add_def
        checked_end_def lower_table_end_def PredicateNormalFormV2_LEN_def sample_form_def)
  have a: "attach_payload ?bs sample_form = Ok \<lparr>pnp_form = sample_form, pnp_payload = [1, 2, 3]\<rparr>"
    by (simp add: attach_payload_def sample_form_def checked_end_def checked_add_def Let_def wire_simps)
  have ne: "?bs \<noteq> []" by simp
  have m: "PredicateNormalFormWithPayloadV2_parse_many (\<lambda>_. 0) ?bs = Ok [\<lparr>pnp_form = sample_form, pnp_payload = [1, 2, 3]\<rparr>]"
    using l a ne sample_form_parse [of "[1, 2, 3]"]
    by (simp add: PredicateNormalFormWithPayloadV2_parse_many_def payload_free_forms_def PredicateNormalFormV2_LEN_def Let_def)
       (simp add: sample_form_def)
  with predicate_forms_payloads [OF m] show ?thesis by blast
qed

text \<open>The intervals of a parsed multi-interval payload are as many as its header counts, strictly increasing and
  none has its bounds reversed.\<close>

theorem multi_interval_sorted:
  assumes "MultiIntervalPredicatePayloadV2_parse crc bs = Ok p"
  shows "length (mip_intervals p) = unat (ips_interval_count (mip_header p)) \<and>
         sorted_wrt (\<lambda>a b. pair_ord a < pair_ord b) (mip_intervals p) \<and>
         (\<forall>i \<in> set (mip_intervals p). ibp_lower_value_ref i = ABSENT_ID \<or> ibp_upper_value_ref i = ABSENT_ID \<or>
            ibp_lower_value_ref i \<le> ibp_upper_value_ref i)"
proof -
  from assms obtain h ivs where p: "p = \<lparr>mip_header = h, mip_intervals = ivs\<rparr>"
    and t: "parse_fixed_table bs (ips_intervals_offset h) (ips_interval_count h) IntervalBoundPairV2_LEN (IntervalBoundPairV2_parse crc) = Ok ivs"
    and w: "windows2 (\<lambda>a b. pair_ord a < pair_ord b) ivs"
    by (auto simp: MultiIntervalPredicatePayloadV2_parse_def result_simps split: if_splits)
  have "sorted_wrt (\<lambda>a b. pair_ord a < pair_ord b) ivs"
    using w by (subst windows2_sorted_wrt [symmetric]) (auto intro: transpI)
  moreover have "ibp_lower_value_ref i = ABSENT_ID \<or> ibp_upper_value_ref i = ABSENT_ID \<or> ibp_lower_value_ref i \<le> ibp_upper_value_ref i"
    if "IntervalBoundPairV2_parse crc b = Ok i" for i b
    using that by (auto simp: IntervalBoundPairV2_parse_def IntervalBoundPairV2_check_def result_simps Let_def split: if_splits)
  moreover from this have "\<forall>i \<in> set ivs. ibp_lower_value_ref i = ABSENT_ID \<or> ibp_upper_value_ref i = ABSENT_ID \<or>
      ibp_lower_value_ref i \<le> ibp_upper_value_ref i"
    using parse_fixed_table_Ok [OF t] by (simp add: IntervalBoundPairV2_LEN_def) blast
  ultimately show ?thesis
    using parse_fixed_table_Ok [OF t] p by (simp add: IntervalBoundPairV2_LEN_def)
qed

definition sample_intervals :: bytes where
  "sample_intervals = [1,0,0,0, 2,0,0,0, 0,0, 0,0, 0, 0, 2,0,0,0, 30,0,0,0,0,0,0,0, 0,0,0,0] @
     [10,0,0,0, 20,0,0,0, 1, 1, 0,0, 0,0,0,0] @ [30,0,0,0, 40,0,0,0, 1, 0, 0,0, 0,0,0,0]"

lemma sample_intervals_parse:
  "\<exists>p. MultiIntervalPredicatePayloadV2_parse (\<lambda>_. 0) sample_intervals = Ok p \<and> length (mip_intervals p) = 2"
  by (simp add: sample_intervals_def MultiIntervalPredicatePayloadV2_parse_def IntervalPredicateSetV2_parse_def
      IntervalPredicateSetV2_check_def IntervalPredicateSetV2_LEN_def IntervalNullPolicyV2_from_u8_def
      IntervalBoundPairV2_parse_def IntervalBoundPairV2_check_def IntervalBoundPairV2_LEN_def parse_fixed_table_def
      chunks_exact_def chunks_at_def verify_crc_def validate_bool_def require_present_def ABSENT_ID_def checked_mul_def
      checked_add_def pair_ord_def fail_if_def slice_def upt_rec Let_def)

theorem multi_interval_sorted_witness:
  "\<exists>p. length (mip_intervals p) = 2 \<and> sorted_wrt (\<lambda>a b. pair_ord a < pair_ord b) (mip_intervals p) \<and>
     MultiIntervalPredicatePayloadV2_parse (\<lambda>_. 0) sample_intervals = Ok p"
  using sample_intervals_parse multi_interval_sorted by blast

lemma clause_terms_Ok:
  "clause_terms_loop n cs = Ok u \<Longrightarrow> c \<in> set cs \<Longrightarrow> unat (pc_first_term_index c) + unat (pc_term_count c) \<le> n"
  by (induction cs) (auto split: if_splits)

text \<open>In a parsed normalised predicate the identifiers of clauses and terms are their positions and every
  clause's range of terms is inside the term table.\<close>

theorem normalised_predicate_in_bounds:
  assumes "PredicateNormalisedPayloadV2_parse crc bs = Ok p"
  shows "(\<forall>i < length (np_clauses p). unat (pc_clause_id (np_clauses p ! i)) = i) \<and>
         (\<forall>i < length (np_terms p). unat (pt_term_id (np_terms p ! i)) = i) \<and>
         (\<forall>c \<in> set (np_clauses p). unat (pc_first_term_index c) + unat (pc_term_count c) \<le> length (np_terms p))"
  using assms by (auto simp: PredicateNormalisedPayloadV2_parse_def result_simps dense_ids_iff dest: clause_terms_Ok)

end
