(* ===== verification/Predicate_Ast.thy ===== *)
theory Predicate_Ast
  imports Predicate_Forms
begin

text \<open>
  Predicate ASTs (\<open>cove-coverage/src/lib.rs\<close>): nodes, operand references, literals and function
  references are read from tables, then every node's operands and arity are validated and a
  depth-first search rejects cycles. The search is modelled with fuel; \<open>validate_ast_acyclic_total\<close>
  shows that the fuel it is given is enough on every input and where it can panic, and \<open>validate_ast_acyclic_exact\<close> that it
  accepts exactly the graphs that unfold to finite expressions.
\<close>

datatype PredicateOpV2 =
    POp_TrueLiteral
  | POp_FalseLiteral
  | POp_IsNull
  | POp_IsNotNull
  | POp_Eq
  | POp_NotEq
  | POp_Lt
  | POp_LtEq
  | POp_Gt
  | POp_GtEq
  | POp_Between
  | POp_InSet
  | POp_And
  | POp_Or
  | POp_Not
  | POp_LikePrefix
  | POp_Contains
  | POp_IsNaN
  | POp_IsFinite
  | POp_FunctionCall
  | POp_LiteralValue
  | POp_ColumnRef
  | POp_Extension

primrec PredicateOpV2_code :: "PredicateOpV2 \<Rightarrow> u16" where
  "PredicateOpV2_code POp_TrueLiteral = 0"
| "PredicateOpV2_code POp_FalseLiteral = 1"
| "PredicateOpV2_code POp_IsNull = 2"
| "PredicateOpV2_code POp_IsNotNull = 3"
| "PredicateOpV2_code POp_Eq = 4"
| "PredicateOpV2_code POp_NotEq = 5"
| "PredicateOpV2_code POp_Lt = 6"
| "PredicateOpV2_code POp_LtEq = 7"
| "PredicateOpV2_code POp_Gt = 8"
| "PredicateOpV2_code POp_GtEq = 9"
| "PredicateOpV2_code POp_Between = 10"
| "PredicateOpV2_code POp_InSet = 11"
| "PredicateOpV2_code POp_And = 12"
| "PredicateOpV2_code POp_Or = 13"
| "PredicateOpV2_code POp_Not = 14"
| "PredicateOpV2_code POp_LikePrefix = 15"
| "PredicateOpV2_code POp_Contains = 16"
| "PredicateOpV2_code POp_IsNaN = 17"
| "PredicateOpV2_code POp_IsFinite = 18"
| "PredicateOpV2_code POp_FunctionCall = 19"
| "PredicateOpV2_code POp_LiteralValue = 20"
| "PredicateOpV2_code POp_ColumnRef = 21"
| "PredicateOpV2_code POp_Extension = 255"

definition PredicateOpV2_from_u16 :: "u16 \<Rightarrow> PredicateOpV2 option" where
  "PredicateOpV2_from_u16 v = map_of
     [(0, POp_TrueLiteral),
      (1, POp_FalseLiteral),
      (2, POp_IsNull),
      (3, POp_IsNotNull),
      (4, POp_Eq),
      (5, POp_NotEq),
      (6, POp_Lt),
      (7, POp_LtEq),
      (8, POp_Gt),
      (9, POp_GtEq),
      (10, POp_Between),
      (11, POp_InSet),
      (12, POp_And),
      (13, POp_Or),
      (14, POp_Not),
      (15, POp_LikePrefix),
      (16, POp_Contains),
      (17, POp_IsNaN),
      (18, POp_IsFinite),
      (19, POp_FunctionCall),
      (20, POp_LiteralValue),
      (21, POp_ColumnRef),
      (255, POp_Extension)] v"

interpretation predicateOpV2: wire_enum PredicateOpV2_code PredicateOpV2_from_u16
proof
  fix k show "PredicateOpV2_from_u16 (PredicateOpV2_code k) = Some k" by (cases k) (simp_all add: PredicateOpV2_from_u16_def)
next
  fix v k assume "PredicateOpV2_from_u16 v = Some k"
  then show "PredicateOpV2_code k = v" by (auto simp: PredicateOpV2_from_u16_def split: if_splits)
qed

datatype PredicateOperandKindV2 =
    POK_Node
  | POK_Literal
  | POK_LiteralList
  | POK_ColumnOrPath
  | POK_Function
  | POK_IntervalSet
  | POK_Extension

primrec PredicateOperandKindV2_code :: "PredicateOperandKindV2 \<Rightarrow> u8" where
  "PredicateOperandKindV2_code POK_Node = 0"
| "PredicateOperandKindV2_code POK_Literal = 1"
| "PredicateOperandKindV2_code POK_LiteralList = 2"
| "PredicateOperandKindV2_code POK_ColumnOrPath = 3"
| "PredicateOperandKindV2_code POK_Function = 4"
| "PredicateOperandKindV2_code POK_IntervalSet = 5"
| "PredicateOperandKindV2_code POK_Extension = 255"

definition PredicateOperandKindV2_from_u8 :: "u8 \<Rightarrow> PredicateOperandKindV2 option" where
  "PredicateOperandKindV2_from_u8 v = map_of
     [(0, POK_Node),
      (1, POK_Literal),
      (2, POK_LiteralList),
      (3, POK_ColumnOrPath),
      (4, POK_Function),
      (5, POK_IntervalSet),
      (255, POK_Extension)] v"

interpretation predicateOperandKindV2: wire_enum PredicateOperandKindV2_code PredicateOperandKindV2_from_u8
proof
  fix k show "PredicateOperandKindV2_from_u8 (PredicateOperandKindV2_code k) = Some k" by (cases k) (simp_all add: PredicateOperandKindV2_from_u8_def)
next
  fix v k assume "PredicateOperandKindV2_from_u8 v = Some k"
  then show "PredicateOperandKindV2_code k = v" by (auto simp: PredicateOperandKindV2_from_u8_def split: if_splits)
qed

definition PredicateAstPayloadHeaderV2_LEN :: usize where "PredicateAstPayloadHeaderV2_LEN = 72"

record PredicateAstPayloadHeaderV2 =
  pah_root_node_id :: u32
  pah_node_count :: u32
  pah_literal_count :: u32
  pah_literal_list_count :: u32
  pah_function_count :: u32
  pah_operand_ref_count :: u32
  pah_node_offset :: u64
  pah_literal_offset :: u64
  pah_literal_list_offset :: u64
  pah_function_offset :: u64
  pah_operand_ref_offset :: u64
  pah_flags :: u32
  pah_checksum :: u32

definition PredicateAstPayloadHeaderV2_parse :: "(bytes \<Rightarrow> u32) \<Rightarrow> bytes \<Rightarrow> PredicateAstPayloadHeaderV2 result" where
  "PredicateAstPayloadHeaderV2_parse crc bs =
     (if length bs < PredicateAstPayloadHeaderV2_LEN then Err BufferTooShort
      else
      and_then (read_u32 bs 0) (\<lambda>root_node_id.
      and_then (read_u32 bs 4) (\<lambda>node_count.
      and_then (read_u32 bs 8) (\<lambda>literal_count.
      and_then (read_u32 bs 12) (\<lambda>literal_list_count.
      and_then (read_u32 bs 16) (\<lambda>function_count.
      and_then (read_u32 bs 20) (\<lambda>operand_ref_count.
      and_then (read_u64 bs 24) (\<lambda>node_offset.
      and_then (read_u64 bs 32) (\<lambda>literal_offset.
      and_then (read_u64 bs 40) (\<lambda>literal_list_offset.
      and_then (read_u64 bs 48) (\<lambda>function_offset.
      and_then (read_u64 bs 56) (\<lambda>operand_ref_offset.
      and_then (read_u32 bs 64) (\<lambda>flags.
      and_then (read_u32 bs 68) (\<lambda>checksum.
      let r = \<lparr>pah_root_node_id = root_node_id,
         pah_node_count = node_count,
         pah_literal_count = literal_count,
         pah_literal_list_count = literal_list_count,
         pah_function_count = function_count,
         pah_operand_ref_count = operand_ref_count,
         pah_node_offset = node_offset,
         pah_literal_offset = literal_offset,
         pah_literal_list_offset = literal_list_offset,
         pah_function_offset = function_offset,
         pah_operand_ref_offset = operand_ref_offset,
         pah_flags = flags,
         pah_checksum = checksum\<rparr> in
      and_then (verify_crc crc (slice 0 PredicateAstPayloadHeaderV2_LEN bs) 68 checksum) (\<lambda>_.
      Ok r)))))))))))))))"

definition PredicateAstOperandRefV2_LEN :: usize where "PredicateAstOperandRefV2_LEN = 16"

record PredicateAstOperandRefV2 =
  por_parent_node_id :: u32
  por_ordinal :: u16
  por_operand_kind :: PredicateOperandKindV2
  por_flags :: u8
  por_ref_id :: u32
  por_checksum :: u32

definition PredicateAstOperandRefV2_parse :: "(bytes \<Rightarrow> u32) \<Rightarrow> bytes \<Rightarrow> PredicateAstOperandRefV2 result" where
  "PredicateAstOperandRefV2_parse crc bs =
     (if length bs < PredicateAstOperandRefV2_LEN then Err BufferTooShort
      else
      and_then (read_u32 bs 0) (\<lambda>parent_node_id.
      and_then (read_u16 bs 4) (\<lambda>ordinal.
      and_then (read_u8 bs 6) (\<lambda>operand_kind_raw.
      and_then (ok_or (PredicateOperandKindV2_from_u8 operand_kind_raw) BadCoverage) (\<lambda>operand_kind.
      and_then (read_u8 bs 7) (\<lambda>flags.
      and_then (read_u32 bs 8) (\<lambda>ref_id.
      and_then (read_u32 bs 12) (\<lambda>checksum.
      let r = \<lparr>por_parent_node_id = parent_node_id,
         por_ordinal = ordinal,
         por_operand_kind = operand_kind,
         por_flags = flags,
         por_ref_id = ref_id,
         por_checksum = checksum\<rparr> in
      and_then (verify_crc crc (slice 0 PredicateAstOperandRefV2_LEN bs) 12 checksum) (\<lambda>_.
      Ok r)))))))))"

definition PredicateAstNodeV2_LEN :: usize where "PredicateAstNodeV2_LEN = 40"

record PredicateAstNodeV2 =
  pan_node_id :: u32
  pan_op :: PredicateOpV2
  pan_flags :: u16
  pan_result_logical_type :: u16
  pan_collation_id :: u16
  pan_null_policy :: PredicateNullPolicyV2
  pan_reserved0 :: u8
  pan_operand_count :: u16
  pan_first_operand_index :: u32
  pan_column_or_path_ref :: u32
  pan_literal_ref :: u32
  pan_function_ref :: u32
  pan_aux_ref :: u32
  pan_checksum :: u32

definition PredicateAstNodeV2_check :: "PredicateAstNodeV2 \<Rightarrow> unit result" where
  "PredicateAstNodeV2_check h = fail_if (pan_reserved0 h \<noteq> 0) BadCoverage"

definition PredicateAstNodeV2_parse :: "(bytes \<Rightarrow> u32) \<Rightarrow> bytes \<Rightarrow> PredicateAstNodeV2 result" where
  "PredicateAstNodeV2_parse crc bs =
     (if length bs < PredicateAstNodeV2_LEN then Err BufferTooShort
      else
      and_then (read_u32 bs 0) (\<lambda>node_id.
      and_then (read_u16 bs 4) (\<lambda>op_raw.
      and_then (ok_or (PredicateOpV2_from_u16 op_raw) BadCoverage) (\<lambda>op.
      and_then (read_u16 bs 6) (\<lambda>flags.
      and_then (read_u16 bs 8) (\<lambda>result_logical_type.
      and_then (read_u16 bs 10) (\<lambda>collation_id.
      and_then (read_u8 bs 12) (\<lambda>null_policy_raw.
      and_then (ok_or (PredicateNullPolicyV2_from_u8 null_policy_raw) BadCoverage) (\<lambda>null_policy.
      and_then (read_u8 bs 13) (\<lambda>reserved0.
      and_then (read_u16 bs 14) (\<lambda>operand_count.
      and_then (read_u32 bs 16) (\<lambda>first_operand_index.
      and_then (read_u32 bs 20) (\<lambda>column_or_path_ref.
      and_then (read_u32 bs 24) (\<lambda>literal_ref.
      and_then (read_u32 bs 28) (\<lambda>function_ref.
      and_then (read_u32 bs 32) (\<lambda>aux_ref.
      and_then (read_u32 bs 36) (\<lambda>checksum.
      let r = \<lparr>pan_node_id = node_id,
         pan_op = op,
         pan_flags = flags,
         pan_result_logical_type = result_logical_type,
         pan_collation_id = collation_id,
         pan_null_policy = null_policy,
         pan_reserved0 = reserved0,
         pan_operand_count = operand_count,
         pan_first_operand_index = first_operand_index,
         pan_column_or_path_ref = column_or_path_ref,
         pan_literal_ref = literal_ref,
         pan_function_ref = function_ref,
         pan_aux_ref = aux_ref,
         pan_checksum = checksum\<rparr> in
      and_then (verify_crc crc (slice 0 PredicateAstNodeV2_LEN bs) 36 checksum) (\<lambda>_.
      and_then (PredicateAstNodeV2_check r) (\<lambda>_. Ok r)))))))))))))))))))"

definition PredicateLiteralV2_LEN :: usize where "PredicateLiteralV2_LEN = 28"

record PredicateLiteralV2 =
  pl_literal_id :: u32
  pl_value_tag :: u16
  pl_logical_type :: u16
  pl_flags :: u32
  pl_canonical_value_offset :: u64
  pl_canonical_value_length :: u32
  pl_checksum :: u32

definition PredicateLiteralV2_check :: "PredicateLiteralV2 \<Rightarrow> unit result" where
  "PredicateLiteralV2_check h =
     and_then (checked_end (pl_canonical_value_offset h) (ucast (pl_canonical_value_length h))) (\<lambda>_. Ok ())"

definition PredicateLiteralV2_parse :: "(bytes \<Rightarrow> u32) \<Rightarrow> bytes \<Rightarrow> PredicateLiteralV2 result" where
  "PredicateLiteralV2_parse crc bs =
     (if length bs < PredicateLiteralV2_LEN then Err BufferTooShort
      else
      and_then (read_u32 bs 0) (\<lambda>literal_id.
      and_then (read_u16 bs 4) (\<lambda>value_tag.
      and_then (read_u16 bs 6) (\<lambda>logical_type.
      and_then (read_u32 bs 8) (\<lambda>flags.
      and_then (read_u64 bs 12) (\<lambda>canonical_value_offset.
      and_then (read_u32 bs 20) (\<lambda>canonical_value_length.
      and_then (read_u32 bs 24) (\<lambda>checksum.
      let r = \<lparr>pl_literal_id = literal_id,
         pl_value_tag = value_tag,
         pl_logical_type = logical_type,
         pl_flags = flags,
         pl_canonical_value_offset = canonical_value_offset,
         pl_canonical_value_length = canonical_value_length,
         pl_checksum = checksum\<rparr> in
      and_then (verify_crc crc (slice 0 PredicateLiteralV2_LEN bs) 24 checksum) (\<lambda>_.
      and_then (PredicateLiteralV2_check r) (\<lambda>_. Ok r))))))))))"

definition PredicateLiteralListV2_LEN :: usize where "PredicateLiteralListV2_LEN = 20"

record PredicateLiteralListV2 =
  pll_literal_list_id :: u32
  pll_first_literal_index :: u32
  pll_literal_count :: u32
  pll_flags :: u32
  pll_checksum :: u32

definition PredicateLiteralListV2_parse :: "(bytes \<Rightarrow> u32) \<Rightarrow> bytes \<Rightarrow> PredicateLiteralListV2 result" where
  "PredicateLiteralListV2_parse crc bs =
     (if length bs < PredicateLiteralListV2_LEN then Err BufferTooShort
      else
      and_then (read_u32 bs 0) (\<lambda>literal_list_id.
      and_then (read_u32 bs 4) (\<lambda>first_literal_index.
      and_then (read_u32 bs 8) (\<lambda>literal_count.
      and_then (read_u32 bs 12) (\<lambda>flags.
      and_then (read_u32 bs 16) (\<lambda>checksum.
      let r = \<lparr>pll_literal_list_id = literal_list_id,
         pll_first_literal_index = first_literal_index,
         pll_literal_count = literal_count,
         pll_flags = flags,
         pll_checksum = checksum\<rparr> in
      and_then (verify_crc crc (slice 0 PredicateLiteralListV2_LEN bs) 16 checksum) (\<lambda>_.
      Ok r)))))))"

section \<open>Function references\<close>

definition Cursor_string :: "bytes \<Rightarrow> usize \<Rightarrow> usize \<Rightarrow> (bytes \<times> usize) result" where
  "Cursor_string bs position len =
     and_then (Cursor_bytes bs position len) (\<lambda>(raw, position).
     if utf8_valid raw then Ok (raw, position) else Err BadCoverage)"

record PredicateFunctionRefV2 =
  pf_function_ref :: u32
  pf_namespace :: bytes
  pf_name :: bytes
  pf_version_major :: u16
  pf_version_minor :: u16
  pf_deterministic :: u8
  pf_flags :: u8
  pf_required_extension_ref :: u32
  pf_checksum :: u32

definition PredicateFunctionRefV2_parse_one ::
  "(bytes \<Rightarrow> u32) \<Rightarrow> bytes \<Rightarrow> (PredicateFunctionRefV2 \<times> usize) result" where
  "PredicateFunctionRefV2_parse_one crc bs =
     and_then (Cursor_u32 bs 0) (\<lambda>(function_ref, p).
     and_then (Cursor_u16 bs p) (\<lambda>(namespace_len, p).
     and_then (Cursor_string bs p (unat namespace_len)) (\<lambda>(namespace, p).
     and_then (Cursor_u16 bs p) (\<lambda>(name_len, p).
     and_then (Cursor_string bs p (unat name_len)) (\<lambda>(name, p).
     and_then (Cursor_u16 bs p) (\<lambda>(version_major, p).
     and_then (Cursor_u16 bs p) (\<lambda>(version_minor, p).
     and_then (Cursor_u8 bs p) (\<lambda>(deterministic, p).
     and_then (Cursor_u8 bs p) (\<lambda>(flags, p).
     and_then (Cursor_u32 bs p) (\<lambda>(required_extension_ref, checksum_offset).
     and_then (Cursor_u32 bs checksum_offset) (\<lambda>(checksum, consumed).
     and_then (verify_crc crc (slice 0 consumed bs) checksum_offset checksum) (\<lambda>_.
     if deterministic > 1 then Err BadCoverage
     else Ok (\<lparr>pf_function_ref = function_ref, pf_namespace = namespace, pf_name = name,
               pf_version_major = version_major, pf_version_minor = version_minor, pf_deterministic = deterministic,
               pf_flags = flags, pf_required_extension_ref = required_extension_ref, pf_checksum = checksum\<rparr>,
              consumed)))))))))))))"

text \<open>\<open>&bytes[cursor..]\<close> panics when \<open>cursor\<close> is past the end; the checks come after the slice.\<close>

fun function_table_loop ::
  "(bytes \<Rightarrow> u32) \<Rightarrow> bytes \<Rightarrow> usize \<Rightarrow> nat \<Rightarrow> PredicateFunctionRefV2 list result" where
  "function_table_loop crc bs cursor 0 = Ok []"
| "function_table_loop crc bs cursor (Suc n) =
     (if cursor > length bs then Panic
      else and_then (PredicateFunctionRefV2_parse_one crc (drop cursor bs)) (\<lambda>(item, consumed).
      if consumed = 0 then Err BadCoverage
      else and_then (checked_add cursor consumed) (\<lambda>cursor.
      if cursor > length bs then Err OffsetRange
      else and_then (function_table_loop crc bs cursor n) (\<lambda>items. Ok (item # items)))))"

definition parse_function_table ::
  "(bytes \<Rightarrow> u32) \<Rightarrow> bytes \<Rightarrow> u64 \<Rightarrow> u32 \<Rightarrow> PredicateFunctionRefV2 list result" where
  "parse_function_table crc bs offset count =
     (if count = 0 then if offset \<noteq> 0 then Err BadCoverage else Ok []
      else function_table_loop crc bs (unat offset) (unat count))"

section \<open>Validation of nodes\<close>

definition operand_slice :: "PredicateAstNodeV2 \<Rightarrow> PredicateAstOperandRefV2 list \<Rightarrow> PredicateAstOperandRefV2 list" where
  "operand_slice node operands = slice (unat (pan_first_operand_index node)) (unat (pan_operand_count node)) operands"

text \<open>\<open>operands[start..end]\<close> panics out of range.\<close>

definition index_operands ::
  "PredicateAstNodeV2 \<Rightarrow> PredicateAstOperandRefV2 list \<Rightarrow> PredicateAstOperandRefV2 list result" where
  "index_operands node operands =
     (if unat (pan_first_operand_index node) + unat (pan_operand_count node) > length operands then Panic
      else Ok (operand_slice node operands))"

definition validate_mirror ::
  "PredicateAstNodeV2 \<Rightarrow> PredicateAstOperandRefV2 list \<Rightarrow> PredicateOperandKindV2 \<Rightarrow> u32 \<Rightarrow> unit result" where
  "validate_mirror node operands kind mirror_ref =
     (if mirror_ref = ABSENT_ID then Ok ()
      else and_then (index_operands node operands) (\<lambda>os.
      if list_ex (\<lambda>operand. por_operand_kind operand = kind \<and> por_ref_id operand = mirror_ref) os
      then Ok () else Err BadCoverage))"

fun operand_order_loop :: "u32 \<Rightarrow> nat \<Rightarrow> PredicateAstOperandRefV2 list \<Rightarrow> unit result" where
  "operand_order_loop node_id expected [] = Ok ()"
| "operand_order_loop node_id expected (operand # os) =
     (if por_parent_node_id operand \<noteq> node_id \<or> unat (por_ordinal operand) \<noteq> expected then Err BadCoverage
      else operand_order_loop node_id (expected + 1) os)"

definition validate_node_operands ::
  "PredicateAstNodeV2 \<Rightarrow> PredicateAstOperandRefV2 list \<Rightarrow> unit result" where
  "validate_node_operands node operands =
     (if pan_operand_count node = 0 then fail_if (pan_first_operand_index node \<noteq> ABSENT_ID) BadCoverage
      else if pan_first_operand_index node = ABSENT_ID then Err BadCoverage
      else and_then (checked_add (unat (pan_first_operand_index node)) (unat (pan_operand_count node))) (\<lambda>end'.
      if end' > length operands then Err BadCoverage
      else and_then (operand_order_loop (pan_node_id node) 0 (operand_slice node operands)) (\<lambda>_.
      and_then (validate_mirror node operands POK_ColumnOrPath (pan_column_or_path_ref node)) (\<lambda>_.
      and_then (validate_mirror node operands POK_Literal (pan_literal_ref node)) (\<lambda>_.
      validate_mirror node operands POK_Function (pan_function_ref node))))))"

fun arity_valid :: "PredicateOpV2 \<Rightarrow> u16 \<Rightarrow> bool" where
  "arity_valid POp_TrueLiteral n \<longleftrightarrow> n = 0"
| "arity_valid POp_FalseLiteral n \<longleftrightarrow> n = 0"
| "arity_valid POp_LiteralValue n \<longleftrightarrow> n = 1"
| "arity_valid POp_ColumnRef n \<longleftrightarrow> n = 1"
| "arity_valid POp_IsNull n \<longleftrightarrow> n = 1"
| "arity_valid POp_IsNotNull n \<longleftrightarrow> n = 1"
| "arity_valid POp_IsNaN n \<longleftrightarrow> n = 1"
| "arity_valid POp_IsFinite n \<longleftrightarrow> n = 1"
| "arity_valid POp_Not n \<longleftrightarrow> n = 1"
| "arity_valid POp_Between n \<longleftrightarrow> n = 3"
| "arity_valid POp_And n \<longleftrightarrow> n \<ge> 2"
| "arity_valid POp_Or n \<longleftrightarrow> n \<ge> 2"
| "arity_valid POp_FunctionCall n \<longleftrightarrow> n \<ge> 1"
| "arity_valid POp_Extension n \<longleftrightarrow> False"
| "arity_valid op n \<longleftrightarrow> n = 2"

definition validate_node_arity :: "PredicateAstNodeV2 \<Rightarrow> unit result" where
  "validate_node_arity node =
     (if arity_valid (pan_op node) (pan_operand_count node) then Ok () else Err BadCoverage)"

section \<open>The cycle search\<close>

text \<open>
  \<open>visit\<close> threads the two sets; \<open>visit_all\<close> is its loop over the operands of a node. \<open>None\<close> means
  that the fuel, a bound on the recursion depth, ran out.
\<close>

type_synonym marks = "u32 set \<times> u32 set"

fun visit_all :: "(u32 \<Rightarrow> marks \<Rightarrow> marks result option) \<Rightarrow> PredicateAstOperandRefV2 list \<Rightarrow> marks \<Rightarrow> marks result option" where
  "visit_all v [] m = Some (Ok m)"
| "visit_all v (operand # os) m =
     (if por_operand_kind operand = POK_Node
      then case v (por_ref_id operand) m of
             Some (Ok m') \<Rightarrow> visit_all v os m'
           | r \<Rightarrow> r
      else visit_all v os m)"

fun visit :: "nat \<Rightarrow> PredicateAstNodeV2 list \<Rightarrow> PredicateAstOperandRefV2 list \<Rightarrow> u32 \<Rightarrow> marks \<Rightarrow> marks result option" where
  "visit 0 nodes operands node_id m = None"
| "visit (Suc fuel) nodes operands node_id (visiting, visited) =
     (if node_id \<in> visited then Some (Ok (visiting, visited))
      else if node_id \<in> visiting then Some (Err BadCoverage)
      else let visiting = insert node_id visiting in
      if unat node_id \<ge> length nodes then Some (Err BadCoverage)
      else let node = nodes ! unat node_id in
      if pan_node_id node \<noteq> node_id then Some (Err BadCoverage)
      else case (if pan_operand_count node > 0
                 then case index_operands node operands of
                        Ok os \<Rightarrow> visit_all (visit fuel nodes operands) os (visiting, visited)
                      | Err e \<Rightarrow> Some (Err e)
                      | Panic \<Rightarrow> Some Panic
                 else Some (Ok (visiting, visited))) of
             Some (Ok (visiting, visited)) \<Rightarrow> Some (Ok (visiting - {node_id}, insert node_id visited))
           | r \<Rightarrow> r)"

text \<open>Every node on the current path is in \<open>visiting\<close>, so the depth is at most the number of nodes.\<close>

definition validate_ast_acyclic ::
  "u32 \<Rightarrow> PredicateAstNodeV2 list \<Rightarrow> PredicateAstOperandRefV2 list \<Rightarrow> unit result option" where
  "validate_ast_acyclic root_node_id nodes operands =
     map_option (map_result (\<lambda>_. ())) (visit (length nodes + 1) nodes operands root_node_id ({}, {}))"

record PredicateAstPayloadV2 =
  pa_header :: PredicateAstPayloadHeaderV2
  pa_nodes :: "PredicateAstNodeV2 list"
  pa_literals :: "PredicateLiteralV2 list"
  pa_literal_lists :: "PredicateLiteralListV2 list"
  pa_functions :: "PredicateFunctionRefV2 list"
  pa_operand_refs :: "PredicateAstOperandRefV2 list"

fun validate_nodes_loop ::
  "PredicateAstOperandRefV2 list \<Rightarrow> PredicateAstNodeV2 list \<Rightarrow> unit result" where
  "validate_nodes_loop operands [] = Ok ()"
| "validate_nodes_loop operands (node # nodes) =
     and_then (validate_node_operands node operands) (\<lambda>_.
     and_then (validate_node_arity node) (\<lambda>_.
     validate_nodes_loop operands nodes))"

definition PredicateAstPayloadV2_validate :: "PredicateAstPayloadV2 \<Rightarrow> unit result" where
  "PredicateAstPayloadV2_validate p =
     and_then (validate_unique_dense_ids (pa_nodes p) pan_node_id) (\<lambda>_.
     and_then (validate_unique_dense_ids (pa_literals p) pl_literal_id) (\<lambda>_.
     and_then (validate_unique_dense_ids (pa_literal_lists p) pll_literal_list_id) (\<lambda>_.
     and_then (validate_unique_dense_ids (pa_functions p) pf_function_ref) (\<lambda>_.
     if unat (pah_root_node_id (pa_header p)) \<ge> length (pa_nodes p) then Err BadCoverage
     else and_then (validate_nodes_loop (pa_operand_refs p) (pa_nodes p)) (\<lambda>_.
     case validate_ast_acyclic (pah_root_node_id (pa_header p)) (pa_nodes p) (pa_operand_refs p) of
       Some r \<Rightarrow> r | None \<Rightarrow> Panic)))))"

definition PredicateAstPayloadV2_parse :: "(bytes \<Rightarrow> u32) \<Rightarrow> bytes \<Rightarrow> PredicateAstPayloadV2 result" where
  "PredicateAstPayloadV2_parse crc bs =
     and_then (PredicateAstPayloadHeaderV2_parse crc bs) (\<lambda>header.
     and_then (parse_fixed_table bs (pah_node_offset header) (pah_node_count header)
                 PredicateAstNodeV2_LEN (PredicateAstNodeV2_parse crc)) (\<lambda>nodes.
     and_then (parse_fixed_table bs (pah_literal_offset header) (pah_literal_count header)
                 PredicateLiteralV2_LEN (PredicateLiteralV2_parse crc)) (\<lambda>literals.
     and_then (parse_fixed_table bs (pah_literal_list_offset header) (pah_literal_list_count header)
                 PredicateLiteralListV2_LEN (PredicateLiteralListV2_parse crc)) (\<lambda>literal_lists.
     and_then (parse_fixed_table bs (pah_operand_ref_offset header) (pah_operand_ref_count header)
                 PredicateAstOperandRefV2_LEN (PredicateAstOperandRefV2_parse crc)) (\<lambda>operand_refs.
     and_then (parse_function_table crc bs (pah_function_offset header) (pah_function_count header)) (\<lambda>functions.
     let payload = \<lparr>pa_header = header, pa_nodes = nodes, pa_literals = literals, pa_literal_lists = literal_lists,
                    pa_functions = functions, pa_operand_refs = operand_refs\<rparr> in
     and_then (PredicateAstPayloadV2_validate payload) (\<lambda>_. Ok payload)))))))"


section \<open>The search terminates and is exact\<close>

lemma visit_all_keeps:
  assumes "visit_all v os m = Some (Ok m')"
    and "\<And>r m m'. v r m = Some (Ok m') \<Longrightarrow> fst m' = fst m"
  shows "fst m' = fst m"
  using assms(1)
  by (induction os arbitrary: m) (auto dest: assms(2) split: if_splits option.splits result.splits)

lemma visit_keeps: "visit fuel nodes operands n m = Some (Ok m') \<Longrightarrow> fst m' = fst m"
proof (induction fuel arbitrary: n m m')
  case (Suc fuel)
  obtain W D where m: "m = (W, D)" by (cases m)
  have k: "fst m2 = fst m1" if "visit_all (visit fuel nodes operands) os m1 = Some (Ok m2)" for os m1 m2
    using that Suc.IH by (rule visit_all_keeps)
  from Suc.prems m show ?case
    by (auto simp: Let_def dest!: k split: if_splits option.splits result.splits)
qed simp

lemma visit_all_total:
  assumes "\<And>r m. fst m = W \<Longrightarrow> v r m \<noteq> None" and "\<And>r m m'. v r m = Some (Ok m') \<Longrightarrow> fst m' = fst m" and "fst m = W"
  shows "visit_all v os m \<noteq> None"
  using assms(3)
proof (induction os arbitrary: m)
  case (Cons x os)
  show ?case
  proof (cases "v (por_ref_id x) m")
    case None
    with assms(1) Cons.prems show ?thesis by blast
  next
    case (Some r)
    then show ?thesis using Cons assms(2) [of "por_ref_id x" m] by (cases r) auto
  qed
qed simp

definition node_ids :: "PredicateAstNodeV2 list \<Rightarrow> u32 set" where
  "node_ids nodes = {n. unat n < length nodes}"

lemma card_node_ids: "card (node_ids nodes) \<le> length nodes"
proof -
  have "inj_on unat (node_ids nodes)" by (rule inj_onI) (simp add: word_unat_eq_iff)
  moreover have "unat ` node_ids nodes \<subseteq> {..<length nodes}" by (auto simp: node_ids_def)
  ultimately show ?thesis using card_inj_on_le [of unat "node_ids nodes" "{..<length nodes}"] by simp
qed

lemma visit_total:
  "W \<subseteq> node_ids nodes \<Longrightarrow> card (node_ids nodes - W) < fuel \<Longrightarrow> visit fuel nodes operands n (W, D) \<noteq> None"
proof (induction fuel arbitrary: n W D)
  case (Suc fuel)
  show ?case
  proof (cases "n \<in> D \<or> n \<in> W \<or> length nodes \<le> unat n")
    case True
    then show ?thesis by (auto simp: Let_def)
  next
    case False
    then have sub: "insert n W \<subseteq> node_ids nodes" and new: "n \<in> node_ids nodes - W"
      using Suc.prems(1) by (auto simp: node_ids_def)
    have "node_ids nodes - insert n W \<subset> node_ids nodes - W" using new by blast
    then have "card (node_ids nodes - insert n W) < card (node_ids nodes - W)" by (rule psubset_card_mono [rotated]) simp
    then have c: "card (node_ids nodes - insert n W) < fuel" using Suc.prems(2) by simp
    have va: "visit_all (visit fuel nodes operands) os (insert n W, D) \<noteq> None" for os
    proof (rule visit_all_total)
      show "visit fuel nodes operands r m \<noteq> None" if "fst m = insert n W" for r m
        using Suc.IH [OF sub c, of r "snd m"] that by (cases m) simp
    qed (auto dest: visit_keeps)
    from False show ?thesis
      by (auto simp: Let_def dest: notE [OF va] split: if_splits option.splits result.splits)
  qed
qed simp

text \<open>The graph unfolds to a finite expression below a node.\<close>

inductive finite_expr :: "PredicateAstNodeV2 list \<Rightarrow> PredicateAstOperandRefV2 list \<Rightarrow> u32 \<Rightarrow> bool" for nodes operands where
  finite_expr_node: "unat n < length nodes \<Longrightarrow> pan_node_id (nodes ! unat n) = n \<Longrightarrow>
     (\<And>x. x \<in> set (operand_slice (nodes ! unat n) operands) \<Longrightarrow> por_operand_kind x = POK_Node \<Longrightarrow>
        finite_expr nodes operands (por_ref_id x)) \<Longrightarrow>
     finite_expr nodes operands n"

inductive_cases finite_exprE: "finite_expr nodes operands n"

definition node_edges :: "PredicateAstNodeV2 list \<Rightarrow> PredicateAstOperandRefV2 list \<Rightarrow> (u32 \<times> u32) set" where
  "node_edges nodes operands = {(n, por_ref_id x) | n x. unat n < length nodes \<and>
     x \<in> set (operand_slice (nodes ! unat n) operands) \<and> por_operand_kind x = POK_Node}"

text \<open>A node whose operand range ends beyond the operands: slicing it panics.\<close>

definition operands_overrun :: "PredicateAstNodeV2 list \<Rightarrow> PredicateAstOperandRefV2 list \<Rightarrow> u32 \<Rightarrow> bool" where
  "operands_overrun nodes operands n \<longleftrightarrow> unat n < length nodes \<and> 0 < pan_operand_count (nodes ! unat n)
     \<and> length operands < unat (pan_first_operand_index (nodes ! unat n)) + unat (pan_operand_count (nodes ! unat n))"

lemma visit_all_stops:
  assumes "visit_all v os m = Some r" "\<forall>m'. r \<noteq> Ok m'"
  shows "\<exists>x \<in> set os. por_operand_kind x = POK_Node \<and> (\<exists>m. v (por_ref_id x) m = Some r)"
  using assms(1)
proof (induction os arbitrary: m)
  case (Cons x os)
  show ?case
  proof (cases "por_operand_kind x = POK_Node")
    case True
    then show ?thesis using Cons assms(2) by (cases m, cases "v (por_ref_id x) m") (auto split: result.splits)
  next
    case False
    then show ?thesis using Cons by auto
  qed
qed (use assms(2) in auto)

text \<open>How the search ends: it accepts, it rejects, or it panics at a node that it reached and whose operands overrun.\<close>

lemma visit_outcomes:
  "visit fuel nodes operands n m = Some r \<Longrightarrow>
     (\<exists>m'. r = Ok m') \<or> r = Err BadCoverage
     \<or> (r = Panic \<and> (\<exists>k. (n, k) \<in> (node_edges nodes operands)\<^sup>* \<and> operands_overrun nodes operands k))"
proof (induction fuel arbitrary: n m r)
  case (Suc fuel)
  obtain W D where m: "m = (W, D)" by (cases m)
  let ?node = "nodes ! unat n"
  show ?case
  proof (cases "n \<in> D \<or> n \<in> W \<or> length nodes \<le> unat n \<or> pan_node_id ?node \<noteq> n \<or> (\<exists>m'. r = Ok m')")
    case True
    then show ?thesis using Suc.prems m by (auto simp: Let_def split: if_splits)
  next
    case False
    then have n: "unat n < length nodes" by simp
    show ?thesis
    proof (cases "operands_overrun nodes operands n")
      case True
      then show ?thesis using Suc.prems m False by (auto simp: Let_def operands_overrun_def index_operands_def)
    next
      case fits: False
      have "visit_all (visit fuel nodes operands) (operand_slice ?node operands) (insert n W, D) = Some r"
        using Suc.prems m False fits n
        by (auto simp: Let_def operands_overrun_def index_operands_def split: if_splits option.splits result.splits)
      then obtain x m1 where x: "x \<in> set (operand_slice ?node operands)" "por_operand_kind x = POK_Node"
          "visit fuel nodes operands (por_ref_id x) m1 = Some r"
        using visit_all_stops False by blast
      have "(n, por_ref_id x) \<in> node_edges nodes operands" using x n by (auto simp: node_edges_def)
      then show ?thesis using Suc.IH [OF x(3)] by (meson converse_rtrancl_into_rtrancl)
    qed
  qed
qed simp

lemma finite_expr_acyclic: "finite_expr nodes operands n \<Longrightarrow> (n, n) \<notin> (node_edges nodes operands)\<^sup>+"
proof (induction rule: finite_expr.induct)
  case (finite_expr_node n)
  show ?case
  proof
    assume "(n, n) \<in> (node_edges nodes operands)\<^sup>+"
    then obtain c where c: "(n, c) \<in> node_edges nodes operands" "(c, n) \<in> (node_edges nodes operands)\<^sup>*"
      by (meson tranclD)
    then have "(c, c) \<in> (node_edges nodes operands)\<^sup>+" by (meson rtrancl_into_trancl1)
    with c(1) finite_expr_node.IH show False by (auto simp: node_edges_def)
  qed
qed

lemma visit_all_sound:
  assumes "visit_all v os m = Some (Ok m')" and "\<forall>d \<in> snd m. P d"
    and "\<And>r m m'. v r m = Some (Ok m') \<Longrightarrow> \<forall>d \<in> snd m. P d \<Longrightarrow> P r \<and> (\<forall>d \<in> snd m'. P d)"
  shows "(\<forall>x \<in> set os. por_operand_kind x = POK_Node \<longrightarrow> P (por_ref_id x)) \<and> (\<forall>d \<in> snd m'. P d)"
  using assms(1,2)
proof (induction os arbitrary: m)
  case (Cons x os)
  show ?case
  proof (cases "por_operand_kind x = POK_Node")
    case True
    with Cons.prems(1) obtain m1 where m1: "v (por_ref_id x) m = Some (Ok m1)" "visit_all v os m1 = Some (Ok m')"
      by (auto split: option.splits result.splits)
    from assms(3) [OF m1(1) Cons.prems(2)] Cons.IH [OF m1(2)] show ?thesis by simp
  next
    case False
    with Cons show ?thesis by auto
  qed
qed simp

lemma visit_sound:
  assumes "visit fuel nodes operands n m = Some (Ok m')" and "\<forall>d \<in> snd m. finite_expr nodes operands d"
  shows "finite_expr nodes operands n \<and> (\<forall>d \<in> snd m'. finite_expr nodes operands d)"
  using assms
proof (induction fuel arbitrary: n m m')
  case (Suc fuel)
  obtain W D where m: "m = (W, D)" by (cases m)
  show ?case
  proof (cases "n \<in> D")
    case True
    with Suc.prems m show ?thesis by auto
  next
    case False
    define node where "node = nodes ! unat n"
    define inner where "inner = (if pan_operand_count node > 0
                 then case index_operands node operands of
                        Ok os \<Rightarrow> visit_all (visit fuel nodes operands) os (insert n W, D)
                      | Err e \<Rightarrow> Some (Err e)
                      | Panic \<Rightarrow> Some Panic
                 else Some (Ok (insert n W, D)))"
    from Suc.prems(1) False m obtain W1 D1 where i: "inner = Some (Ok (W1, D1))" and m': "m' = (W1 - {n}, insert n D1)"
      and n: "unat n < length nodes" "pan_node_id node = n"
      by (auto simp: Let_def node_def inner_def split: if_splits option.splits result.splits)
    have "(\<forall>x \<in> set (operand_slice node operands). por_operand_kind x = POK_Node \<longrightarrow> finite_expr nodes operands (por_ref_id x)) \<and>
          (\<forall>d \<in> D1. finite_expr nodes operands d)"
    proof (cases "pan_operand_count node > 0")
      case True
      with i have "visit_all (visit fuel nodes operands) (operand_slice node operands) (insert n W, D) = Some (Ok (W1, D1))"
        by (auto simp: inner_def index_operands_def split: if_splits result.splits)
      from visit_all_sound [OF this, of "finite_expr nodes operands"] Suc.IH Suc.prems(2) m show ?thesis by auto
    next
      case False
      then have "unat (pan_operand_count node) = 0" by (simp add: word_gt_0)
      with False i Suc.prems(2) m show ?thesis by (simp add: inner_def operand_slice_def)
    qed
    then show ?thesis using n m' unfolding node_def by (auto intro: finite_expr_node)
  qed
qed simp

lemma visit_all_complete:
  assumes "\<And>x m. x \<in> set os \<Longrightarrow> por_operand_kind x = POK_Node \<Longrightarrow> fst m = W \<Longrightarrow> v (por_ref_id x) m \<noteq> None \<Longrightarrow>
      \<exists>m'. v (por_ref_id x) m = Some (Ok m') \<and> fst m' = W"
    and "fst m = W" and "visit_all v os m \<noteq> None"
  shows "\<exists>m'. visit_all v os m = Some (Ok m')"
  using assms
proof (induction os arbitrary: m)
  case (Cons x os)
  show ?case
  proof (cases "por_operand_kind x = POK_Node")
    case True
    have "v (por_ref_id x) m \<noteq> None" using Cons.prems(3) True by (cases "v (por_ref_id x) m") simp_all
    then obtain m1 where m1: "v (por_ref_id x) m = Some (Ok m1)" "fst m1 = W"
      using Cons.prems(1) [of x m] True Cons.prems(2) by auto
    have "\<exists>m'. visit_all v os m1 = Some (Ok m')"
      by (rule Cons.IH) (use Cons.prems m1 True in auto)
    with m1 True show ?thesis by simp
  next
    case False
    have "\<exists>m'. visit_all v os m = Some (Ok m')"
      by (rule Cons.IH) (use Cons.prems False in auto)
    with False show ?thesis by simp
  qed
qed simp

definition operands_fit :: "PredicateAstNodeV2 list \<Rightarrow> PredicateAstOperandRefV2 list \<Rightarrow> bool" where
  "operands_fit nodes operands = list_all (\<lambda>node. pan_operand_count node > 0 \<longrightarrow>
     unat (pan_first_operand_index node) + unat (pan_operand_count node) \<le> length operands) nodes"

lemma visit_complete:
  assumes "operands_fit nodes operands" and "finite_expr nodes operands n"
    and "\<forall>w \<in> W. (w, n) \<in> (node_edges nodes operands)\<^sup>+" and "visit fuel nodes operands n (W, D) \<noteq> None"
  shows "\<exists>m'. visit fuel nodes operands n (W, D) = Some (Ok m')"
  using assms(2-)
proof (induction fuel arbitrary: n W D)
  case (Suc fuel)
  show ?case
  proof (cases "n \<in> D")
    case False
    define node where "node = nodes ! unat n"
    have nW: "n \<notin> W" using Suc.prems(2) finite_expr_acyclic [OF Suc.prems(1)] by blast
    have n: "unat n < length nodes" "pan_node_id node = n"
      using Suc.prems(1) by (auto simp: node_def elim: finite_exprE)
    show ?thesis
    proof (cases "pan_operand_count node > 0")
      case True
      let ?os = "operand_slice node operands"
      have ix: "index_operands node operands = Ok ?os"
        using assms(1) n True by (auto simp: operands_fit_def list_all_iff index_operands_def node_def)
      have "\<exists>m'. visit_all (visit fuel nodes operands) ?os (insert n W, D) = Some (Ok m')"
      proof (rule visit_all_complete [where W = "insert n W"])
        fix x m assume x: "x \<in> set ?os" "por_operand_kind x = POK_Node" and m: "fst m = insert n W"
          and nn: "visit fuel nodes operands (por_ref_id x) m \<noteq> None"
        have fe: "finite_expr nodes operands (por_ref_id x)" using Suc.prems(1) x by (auto simp: node_def elim: finite_exprE)
        have e: "(n, por_ref_id x) \<in> node_edges nodes operands" using n x by (auto simp: node_edges_def node_def)
        have "\<forall>w \<in> insert n W. (w, por_ref_id x) \<in> (node_edges nodes operands)\<^sup>+"
          using Suc.prems(2) e by (auto intro: trancl_into_trancl)
        then have "\<exists>m'. visit fuel nodes operands (por_ref_id x) (insert n W, snd m) = Some (Ok m')"
          using Suc.IH [OF fe] nn m by (metis prod.collapse)
        with m show "\<exists>m'. visit fuel nodes operands (por_ref_id x) m = Some (Ok m') \<and> fst m' = insert n W"
          by (metis prod.collapse visit_keeps)
      next
        show "visit_all (visit fuel nodes operands) ?os (insert n W, D) \<noteq> None"
        proof
          assume "visit_all (visit fuel nodes operands) ?os (insert n W, D) = None"
          then have "visit (Suc fuel) nodes operands n (W, D) = None"
            using False nW n True ix by (simp add: Let_def node_def)
          with Suc.prems(3) show False by simp
        qed
      qed simp
      with False nW n True ix show ?thesis by (auto simp: Let_def node_def)
    next
      case no: False
      with False nW n show ?thesis by (auto simp: Let_def node_def)
    qed
  qed simp
qed simp

lemma acyclic_exact:
  assumes "operands_fit nodes operands"
  shows "validate_ast_acyclic root nodes operands = Some (Ok ()) \<longleftrightarrow> finite_expr nodes operands root"
proof
  assume "validate_ast_acyclic root nodes operands = Some (Ok ())"
  then obtain m where "visit (length nodes + 1) nodes operands root ({}, {}) = Some (Ok m)"
    by (auto simp: validate_ast_acyclic_def result_simps simp del: visit.simps)
  from visit_sound [OF this] show "finite_expr nodes operands root" by simp
next
  assume f: "finite_expr nodes operands root"
  have "visit (length nodes + 1) nodes operands root ({}, {}) \<noteq> None"
    by (rule visit_total) (use card_node_ids [of nodes] in auto)
  then obtain m where "visit (length nodes + 1) nodes operands root ({}, {}) = Some (Ok m)"
    using visit_complete [OF assms f, of "{}" "length nodes + 1" "{}"] by blast
  then show "validate_ast_acyclic root nodes operands = Some (Ok ())"
    by (simp add: validate_ast_acyclic_def del: visit.simps)
qed


lemma operand_order_Ok:
  "operand_order_loop i e os = Ok u \<Longrightarrow> k < length os \<Longrightarrow> por_parent_node_id (os ! k) = i \<and> unat (por_ordinal (os ! k)) = e + k"
proof (induction os arbitrary: e k)
  case (Cons x xs)
  then show ?case by (cases k) (auto split: if_splits dest!: Cons.IH)
qed simp

text \<open>What validation establishes of one node: its arity, and its own operands in order.\<close>

definition node_typed :: "PredicateAstOperandRefV2 list \<Rightarrow> PredicateAstNodeV2 \<Rightarrow> bool" where
  "node_typed operands node \<longleftrightarrow> arity_valid (pan_op node) (pan_operand_count node) \<and>
     length (operand_slice node operands) = unat (pan_operand_count node) \<and>
     (\<forall>k < unat (pan_operand_count node).
        por_parent_node_id (operand_slice node operands ! k) = pan_node_id node \<and>
        unat (por_ordinal (operand_slice node operands ! k)) = k)"

lemma validate_node_typed:
  assumes "validate_node_operands node operands = Ok ()" and "validate_node_arity node = Ok ()"
  shows "node_typed operands node" and "0 < pan_operand_count node \<Longrightarrow>
     unat (pan_first_operand_index node) + unat (pan_operand_count node) \<le> length operands"
proof -
  have a: "arity_valid (pan_op node) (pan_operand_count node)"
    using assms(2) by (auto simp: validate_node_arity_def split: if_splits)
  show "node_typed operands node"
  proof (cases "pan_operand_count node = 0")
    case True
    with a show ?thesis by (simp add: node_typed_def operand_slice_def)
  next
    case False
    with assms(1) have e: "unat (pan_first_operand_index node) + unat (pan_operand_count node) \<le> length operands"
      and l: "operand_order_loop (pan_node_id node) 0 (operand_slice node operands) = Ok ()"
      by (auto simp: validate_node_operands_def result_simps split: if_splits)
    from e have "length (operand_slice node operands) = unat (pan_operand_count node)" by (simp add: operand_slice_def)
    with a operand_order_Ok [OF l] show ?thesis by (simp add: node_typed_def)
  qed
  show "0 < pan_operand_count node \<Longrightarrow>
     unat (pan_first_operand_index node) + unat (pan_operand_count node) \<le> length operands"
    using assms(1) by (auto simp: validate_node_operands_def result_simps split: if_splits)
qed

lemma validate_nodes_loop_Ok:
  "validate_nodes_loop operands nodes = Ok () \<longleftrightarrow>
     (\<forall>node \<in> set nodes. validate_node_operands node operands = Ok () \<and> validate_node_arity node = Ok ())"
  by (induction nodes) (auto simp: result_simps)

section \<open>Properties\<close>

text \<open>C30: The cycle search ends on every input, however malformed: its depth never exceeds the number of nodes, so it never
  runs out of fuel. It accepts, rejects, or panics on the operand slice of a node; it can panic only if a node reachable from the
  root has an operand range that ends beyond the operands, so never on nodes whose ranges fit.\<close>

theorem validate_ast_acyclic_total:
  "validate_ast_acyclic root nodes operands \<in> {Some (Ok ()), Some (Err BadCoverage), Some Panic}
    \<and> (validate_ast_acyclic root nodes operands = Some Panic \<longrightarrow>
         (\<exists>k. (root, k) \<in> (node_edges nodes operands)\<^sup>* \<and> operands_overrun nodes operands k))
    \<and> (operands_fit nodes operands \<longrightarrow> validate_ast_acyclic root nodes operands \<noteq> Some Panic)"
proof -
  have "visit (length nodes + 1) nodes operands root ({}, {}) \<noteq> None"
    by (rule visit_total) (use card_node_ids [of nodes] in auto)
  then obtain r where r: "visit (length nodes + 1) nodes operands root ({}, {}) = Some r" by blast
  then have v: "validate_ast_acyclic root nodes operands = Some (map_result (\<lambda>_. ()) r)"
    by (simp add: validate_ast_acyclic_def del: visit.simps)
  have "\<not> operands_overrun nodes operands k" if "operands_fit nodes operands" for k
    using that by (auto simp: operands_fit_def operands_overrun_def list_all_iff not_less)
  then show ?thesis unfolding v using visit_outcomes [OF r] by auto
qed

text \<open>C14: On nodes whose operand ranges are in bounds, the cycle search accepts exactly the graphs that unfold from
  the root to a finite expression: every reachable node exists, carries its own identifier and does not reach
  itself.\<close>

theorem validate_ast_acyclic_exact:
  assumes "operands_fit nodes operands"
  shows "(validate_ast_acyclic root nodes operands = Some (Ok ()) \<longleftrightarrow> finite_expr nodes operands root) \<and>
         (finite_expr nodes operands root \<longrightarrow> (root, root) \<notin> (node_edges nodes operands)\<^sup>+)"
  using acyclic_exact [OF assms] finite_expr_acyclic by blast

definition sample_node :: "u32 \<Rightarrow> PredicateOpV2 \<Rightarrow> u16 \<Rightarrow> u32 \<Rightarrow> PredicateAstNodeV2" where
  "sample_node i op n first =
     \<lparr>pan_node_id = i, pan_op = op, pan_flags = 0, pan_result_logical_type = 0, pan_collation_id = 0,
      pan_null_policy = PNP_SqlWhere, pan_reserved0 = 0, pan_operand_count = n, pan_first_operand_index = first,
      pan_column_or_path_ref = ABSENT_ID, pan_literal_ref = ABSENT_ID, pan_function_ref = ABSENT_ID,
      pan_aux_ref = ABSENT_ID, pan_checksum = 0\<rparr>"

definition sample_operand :: "u32 \<Rightarrow> u16 \<Rightarrow> u32 \<Rightarrow> PredicateAstOperandRefV2" where
  "sample_operand parent ordinal target =
     \<lparr>por_parent_node_id = parent, por_ordinal = ordinal, por_operand_kind = POK_Node, por_flags = 0,
      por_ref_id = target, por_checksum = 0\<rparr>"

abbreviation sample_nodes :: "PredicateAstNodeV2 list" where
  "sample_nodes \<equiv> [sample_node 0 POp_And 2 0, sample_node 1 POp_TrueLiteral 0 ABSENT_ID, sample_node 2 POp_FalseLiteral 0 ABSENT_ID]"

abbreviation sample_operands :: "PredicateAstOperandRefV2 list" where
  "sample_operands \<equiv> [sample_operand 0 0 1, sample_operand 0 1 2]"

lemmas sample_ast = sample_node_def sample_operand_def operand_slice_def index_operands_def slice_def Let_def

lemma visit_numeral: "visit (numeral k) nodes operands n m = visit (Suc (pred_numeral k)) nodes operands n m"
  by (simp only: numeral_eq_Suc)

lemma sample_acyclic: "validate_ast_acyclic 0 sample_nodes sample_operands = Some (Ok ())"
  by (simp add: validate_ast_acyclic_def sample_ast visit_numeral)

theorem validate_ast_acyclic_total_witness:
  "validate_ast_acyclic 0 [sample_node 0 POp_Not 1 5] [] = Some Panic
    \<and> (\<exists>k. (0, k) \<in> (node_edges [sample_node 0 POp_Not 1 5] [])\<^sup>* \<and> operands_overrun [sample_node 0 POp_Not 1 5] [] k)
    \<and> validate_ast_acyclic 0 sample_nodes sample_operands \<noteq> Some Panic"
proof -
  have "validate_ast_acyclic 0 [sample_node 0 POp_Not 1 5] [] = Some Panic"
    by (simp add: validate_ast_acyclic_def sample_ast visit_numeral)
  moreover have "operands_fit sample_nodes sample_operands" by (simp add: operands_fit_def sample_ast)
  ultimately show ?thesis
    using validate_ast_acyclic_total [of 0 "[sample_node 0 POp_Not 1 5]" "[]"] validate_ast_acyclic_total [of 0 sample_nodes sample_operands]
    by blast
qed

theorem validate_ast_acyclic_exact_witness:
  "finite_expr sample_nodes sample_operands 0 \<and> \<not> finite_expr [sample_node 0 POp_Not 1 0] [sample_operand 0 0 0] 0"
proof
  have "operands_fit sample_nodes sample_operands" by (simp add: operands_fit_def sample_ast)
  with sample_acyclic show "finite_expr sample_nodes sample_operands 0"
    using validate_ast_acyclic_exact by blast
next
  have fit: "operands_fit [sample_node 0 POp_Not 1 0] [sample_operand 0 0 0]" by (simp add: operands_fit_def sample_ast)
  have "validate_ast_acyclic 0 [sample_node 0 POp_Not 1 0] [sample_operand 0 0 0] \<noteq> Some (Ok ())"
    by (simp add: validate_ast_acyclic_def sample_ast visit_numeral)
  with validate_ast_acyclic_exact [OF fit] show "\<not> finite_expr [sample_node 0 POp_Not 1 0] [sample_operand 0 0 0] 0"
    by blast
qed

text \<open>C31: A validated AST is well typed: node identifiers are positions, every operator has its arity, every node's
  operands are its own and in order, and the root unfolds to a finite expression.\<close>

theorem ast_validate_typed:
  assumes "PredicateAstPayloadV2_validate p = Ok ()"
  shows "(\<forall>i < length (pa_nodes p). unat (pan_node_id (pa_nodes p ! i)) = i \<and> node_typed (pa_operand_refs p) (pa_nodes p ! i)) \<and>
         finite_expr (pa_nodes p) (pa_operand_refs p) (pah_root_node_id (pa_header p))"
proof -
  let ?ac = "validate_ast_acyclic (pah_root_node_id (pa_header p)) (pa_nodes p) (pa_operand_refs p)"
  from assms have d: "validate_unique_dense_ids (pa_nodes p) pan_node_id = Ok ()"
    and l: "validate_nodes_loop (pa_operand_refs p) (pa_nodes p) = Ok ()" and ac: "?ac = Some (Ok ())"
    by (auto simp: PredicateAstPayloadV2_validate_def result_simps split: if_splits option.splits)
  have n: "validate_node_operands node (pa_operand_refs p) = Ok ()" "validate_node_arity node = Ok ()"
    if "node \<in> set (pa_nodes p)" for node using l that by (simp_all add: validate_nodes_loop_Ok)
  have "operands_fit (pa_nodes p) (pa_operand_refs p)"
    unfolding operands_fit_def list_all_iff using validate_node_typed(2) n by blast
  then have "finite_expr (pa_nodes p) (pa_operand_refs p) (pah_root_node_id (pa_header p))"
    using ac acyclic_exact by blast
  moreover have "node_typed (pa_operand_refs p) (pa_nodes p ! i)" if "i < length (pa_nodes p)" for i
    using validate_node_typed(1) n nth_mem [OF that] by blast
  ultimately show ?thesis using d by (simp add: dense_ids_iff)
qed

definition sample_payload :: PredicateAstPayloadV2 where
  "sample_payload =
     \<lparr>pa_header = \<lparr>pah_root_node_id = 0, pah_node_count = 3, pah_literal_count = 0, pah_literal_list_count = 0,
        pah_function_count = 0, pah_operand_ref_count = 2, pah_node_offset = 72, pah_literal_offset = 0,
        pah_literal_list_offset = 0, pah_function_offset = 0, pah_operand_ref_offset = 192, pah_flags = 0, pah_checksum = 0\<rparr>,
      pa_nodes = sample_nodes, pa_literals = [], pa_literal_lists = [], pa_functions = [], pa_operand_refs = sample_operands\<rparr>"

theorem ast_validate_typed_witness:
  "finite_expr (pa_nodes sample_payload) (pa_operand_refs sample_payload) 0 \<and>
   node_typed (pa_operand_refs sample_payload) (pa_nodes sample_payload ! 0)"
proof -
  have "PredicateAstPayloadV2_validate sample_payload = Ok ()"
    using sample_acyclic
    by (simp add: PredicateAstPayloadV2_validate_def sample_payload_def validate_unique_dense_ids_def
        validate_node_operands_def validate_node_arity_def validate_mirror_def checked_add_def fail_if_def sample_ast ABSENT_ID_def)
  from ast_validate_typed [OF this] show ?thesis by (auto simp: sample_payload_def)
qed

text \<open>C35: A function table offset past the end of the payload makes the parser panic: a checksummed header that
  announces one function and an offset of 1000 in 72 bytes is enough, whatever the checksum function.\<close>

theorem ast_parse_panics: "\<exists>bs. length bs = 72 \<and> PredicateAstPayloadV2_parse crc bs = Panic"
proof -
  let ?b = "put 16 (le_bytes 4 (1 :: u32)) (put 48 (le_bytes 8 (1000 :: u64)) (replicate 72 0))"
  let ?bs = "seal crc 68 ?b"
  have v: "verify_crc crc ?bs 68 (crc ?b) = Ok ()" by (rule verify_crc_seal) (simp_all add: wire_simps)
  have "\<exists>h. PredicateAstPayloadHeaderV2_parse crc ?bs = Ok h \<and> pah_node_count h = 0 \<and> pah_node_offset h = 0 \<and>
      pah_literal_count h = 0 \<and> pah_literal_offset h = 0 \<and> pah_literal_list_count h = 0 \<and> pah_literal_list_offset h = 0 \<and>
      pah_operand_ref_count h = 0 \<and> pah_operand_ref_offset h = 0 \<and> pah_function_count h = 1 \<and> pah_function_offset h = 1000"
    using v by (simp add: PredicateAstPayloadHeaderV2_parse_def PredicateAstPayloadHeaderV2_LEN_def Let_def wire_simps)
  then obtain h where "PredicateAstPayloadHeaderV2_parse crc ?bs = Ok h" "pah_node_count h = 0" "pah_node_offset h = 0"
      "pah_literal_count h = 0" "pah_literal_offset h = 0" "pah_literal_list_count h = 0" "pah_literal_list_offset h = 0"
      "pah_operand_ref_count h = 0" "pah_operand_ref_offset h = 0" "pah_function_count h = 1" "pah_function_offset h = 1000"
    by blast
  then have "PredicateAstPayloadV2_parse crc ?bs = Panic"
    by (simp add: PredicateAstPayloadV2_parse_def parse_fixed_table_def parse_function_table_def)
  moreover have "length ?bs = 72" by simp
  ultimately show ?thesis by blast
qed

end
