(* ===== verification/Container.thy ===== *)
theory Container
  imports Crc_Record Errors Constants
begin

text \<open>
  The fixed structures of the container (\<open>header.rs\<close>, \<open>postscript.rs\<close>, \<open>footer.rs\<close>, \<open>metadata.rs\<close>):
  the 160-byte header at the start of a file, the postscript and trailing tag at its end, and the
  footer with the section directory in between. Readers verify the checksum of a structure before
  they trust any of its fields.
\<close>

section \<open>Header\<close>

definition HEADER_SIZE :: usize where "HEADER_SIZE = 160"

lemma HEADER_SIZE_eq: "HEADER_SIZE = 160"
  by (simp add: HEADER_SIZE_def)

record CoveHeaderV1 =
  hdr_magic :: bytes
  hdr_header_len :: u16
  hdr_version_major :: u16
  hdr_version_minor :: u16
  hdr_primary_profile :: u8
  hdr_endianness :: u8
  hdr_flags :: u32
  hdr_required_features :: u64
  hdr_optional_features :: u64
  hdr_file_id :: bytes
  hdr_producer_scope_id :: bytes
  hdr_producer_scope_kind :: u16
  hdr_reserved_scope_flags :: u16
  hdr_created_at_us :: i64
  hdr_feature_set_section_id :: u32
  hdr_profile_capability_section_id :: u32
  hdr_fast_metadata_section_id :: u32
  hdr_v2_flags :: u32
  hdr_reserved :: bytes
  hdr_checksum :: u32

definition CoveHeaderV1_image :: "CoveHeaderV1 \<Rightarrow> bytes" where
  "CoveHeaderV1_image h =
     (let buf = replicate HEADER_SIZE 0;
          buf = put 0 (hdr_magic h) buf;
          buf = put 4 (le_bytes 2 (hdr_header_len h)) buf;
          buf = put 6 (le_bytes 2 (hdr_version_major h)) buf;
          buf = put 8 (le_bytes 2 (hdr_version_minor h)) buf;
          buf = put 10 [hdr_primary_profile h] buf;
          buf = put 11 [hdr_endianness h] buf;
          buf = put 12 (le_bytes 4 (hdr_flags h)) buf;
          buf = put 16 (le_bytes 8 (hdr_required_features h)) buf;
          buf = put 24 (le_bytes 8 (hdr_optional_features h)) buf;
          buf = put 32 (hdr_file_id h) buf;
          buf = put 48 (hdr_producer_scope_id h) buf;
          buf = put 64 (le_bytes 2 (hdr_producer_scope_kind h)) buf;
          buf = put 66 (le_bytes 2 (hdr_reserved_scope_flags h)) buf;
          buf = put 68 (le_bytes 8 (hdr_created_at_us h)) buf;
          buf = put 76 (le_bytes 4 (hdr_feature_set_section_id h)) buf;
          buf = put 80 (le_bytes 4 (hdr_profile_capability_section_id h)) buf;
          buf = put 84 (le_bytes 4 (hdr_fast_metadata_section_id h)) buf;
          buf = put 88 (le_bytes 4 (hdr_v2_flags h)) buf;
          buf = put 92 (hdr_reserved h) buf
      in buf)"

definition CoveHeaderV1_serialize :: "(bytes \<Rightarrow> u32) \<Rightarrow> CoveHeaderV1 \<Rightarrow> bytes" where
  "CoveHeaderV1_serialize crc h = seal crc 156 (CoveHeaderV1_image h)"

definition CoveHeaderV1_check :: "CoveHeaderV1 \<Rightarrow> unit result" where
  "CoveHeaderV1_check h =
     (if hdr_magic h \<noteq> MAGIC_COVE then Err BadMagic
      else if hdr_header_len h \<noteq> HEADER_LEN_V1 then Err (BadSection (''header_len is '' @ show_nat (unat (hdr_header_len h)) @ '', expected '' @ show_nat (unat HEADER_LEN_V1)))
      else if hdr_version_major h \<noteq> VERSION_MAJOR_V1 then Err BadVersion
      else if PrimaryProfile_from_u8 (hdr_primary_profile h) = None then Err (BadSection (''unknown primary_profile '' @ show_nat (unat (hdr_primary_profile h))))
      else if hdr_endianness h \<noteq> ENDIANNESS_LITTLE then Err (BadSection (''endianness field is '' @ show_nat (unat (hdr_endianness h)) @ '', only little-endian (1) is supported''))
      else if hdr_required_features h AND NOT KNOWN_FEATURE_BITS_MASK \<noteq> 0 then Err (UnknownRequiredFeature (hdr_required_features h AND NOT KNOWN_FEATURE_BITS_MASK))
      else if ProducerScopeKind_from_u16 (hdr_producer_scope_kind h) = None then Err (BadSection (''unknown producer_scope_kind '' @ show_nat (unat (hdr_producer_scope_kind h))))
      else if hdr_reserved_scope_flags h \<noteq> 0 then Err ReservedNotZero
      else if list_ex (\<lambda>b. b \<noteq> 0) (hdr_reserved h) then Err ReservedNotZero
      else Ok ())"

definition CoveHeaderV1_parse :: "(bytes \<Rightarrow> u32) \<Rightarrow> bytes \<Rightarrow> CoveHeaderV1 result" where
  "CoveHeaderV1_parse crc buf =
     (if length buf < HEADER_SIZE then Err BufferTooShort
      else let buf = slice 0 HEADER_SIZE buf in
      if crc (put 156 [0, 0, 0, 0] buf) \<noteq> u32_at buf 156 then Err ChecksumMismatch
      else
      let h = \<lparr>hdr_magic = slice 0 4 buf,
         hdr_header_len = u16_at buf 4,
         hdr_version_major = u16_at buf 6,
         hdr_version_minor = u16_at buf 8,
         hdr_primary_profile = buf ! 10,
         hdr_endianness = buf ! 11,
         hdr_flags = u32_at buf 12,
         hdr_required_features = u64_at buf 16,
         hdr_optional_features = u64_at buf 24,
         hdr_file_id = slice 32 16 buf,
         hdr_producer_scope_id = slice 48 16 buf,
         hdr_producer_scope_kind = u16_at buf 64,
         hdr_reserved_scope_flags = u16_at buf 66,
         hdr_created_at_us = u64_at buf 68,
         hdr_feature_set_section_id = u32_at buf 76,
         hdr_profile_capability_section_id = u32_at buf 80,
         hdr_fast_metadata_section_id = u32_at buf 84,
         hdr_v2_flags = u32_at buf 88,
         hdr_reserved = slice 92 64 buf,
         hdr_checksum = u32_at buf 156\<rparr> in
      and_then (CoveHeaderV1_check h) (\<lambda>_. Ok h))"

lemma length_CoveHeaderV1_image [simp]: "length (CoveHeaderV1_image h) = 160"
  by (simp add: CoveHeaderV1_image_def HEADER_SIZE_eq Let_def)

lemma length_CoveHeaderV1_serialize [simp]: "length (CoveHeaderV1_serialize crc h) = 160"
  by (simp add: CoveHeaderV1_serialize_def)

lemma CoveHeaderV1_image_fields:
  assumes "length (hdr_magic h) = 4" and "length (hdr_file_id h) = 16" and "length (hdr_producer_scope_id h) = 16" and "length (hdr_reserved h) = 64"
  shows
  "slice 0 4 (CoveHeaderV1_image h) = hdr_magic h"
  "u16_at (CoveHeaderV1_image h) 4 = hdr_header_len h"
  "u16_at (CoveHeaderV1_image h) 6 = hdr_version_major h"
  "u16_at (CoveHeaderV1_image h) 8 = hdr_version_minor h"
  "CoveHeaderV1_image h ! 10 = hdr_primary_profile h"
  "CoveHeaderV1_image h ! 11 = hdr_endianness h"
  "u32_at (CoveHeaderV1_image h) 12 = hdr_flags h"
  "u64_at (CoveHeaderV1_image h) 16 = hdr_required_features h"
  "u64_at (CoveHeaderV1_image h) 24 = hdr_optional_features h"
  "slice 32 16 (CoveHeaderV1_image h) = hdr_file_id h"
  "slice 48 16 (CoveHeaderV1_image h) = hdr_producer_scope_id h"
  "u16_at (CoveHeaderV1_image h) 64 = hdr_producer_scope_kind h"
  "u16_at (CoveHeaderV1_image h) 66 = hdr_reserved_scope_flags h"
  "u64_at (CoveHeaderV1_image h) 68 = hdr_created_at_us h"
  "u32_at (CoveHeaderV1_image h) 76 = hdr_feature_set_section_id h"
  "u32_at (CoveHeaderV1_image h) 80 = hdr_profile_capability_section_id h"
  "u32_at (CoveHeaderV1_image h) 84 = hdr_fast_metadata_section_id h"
  "u32_at (CoveHeaderV1_image h) 88 = hdr_v2_flags h"
  "slice 92 64 (CoveHeaderV1_image h) = hdr_reserved h"
  "slice 156 4 (CoveHeaderV1_image h) = replicate 4 0"
  using assms by (simp_all add: CoveHeaderV1_image_def HEADER_SIZE_eq Let_def wire_simps)

lemma CoveHeaderV1_check_Ok: "CoveHeaderV1_parse crc buf = Ok h \<Longrightarrow> CoveHeaderV1_check h = Ok ()"
  by (auto simp: CoveHeaderV1_parse_def result_simps Let_def simp del: and_then.simps split: if_splits)

lemma CoveHeaderV1_check_checksum: "CoveHeaderV1_check (h\<lparr>hdr_checksum := c\<rparr>) = CoveHeaderV1_check h"
  by (simp add: CoveHeaderV1_check_def)

lemma CoveHeaderV1_roundtrip:
  assumes "length (hdr_magic h) = 4" and "length (hdr_file_id h) = 16" and "length (hdr_producer_scope_id h) = 16" and "length (hdr_reserved h) = 64" and "CoveHeaderV1_check h = Ok ()"
  shows "CoveHeaderV1_parse crc (CoveHeaderV1_serialize crc h @ rest) = Ok (h\<lparr>hdr_checksum := crc (CoveHeaderV1_image h)\<rparr>)"
proof -
  note f = CoveHeaderV1_image_fields [OF assms(1) assms(2) assms(3) assms(4)]
  have eta: "\<lparr>hdr_magic = hdr_magic h, hdr_header_len = hdr_header_len h, hdr_version_major = hdr_version_major h, hdr_version_minor = hdr_version_minor h, hdr_primary_profile = hdr_primary_profile h, hdr_endianness = hdr_endianness h, hdr_flags = hdr_flags h, hdr_required_features = hdr_required_features h, hdr_optional_features = hdr_optional_features h, hdr_file_id = hdr_file_id h, hdr_producer_scope_id = hdr_producer_scope_id h, hdr_producer_scope_kind = hdr_producer_scope_kind h, hdr_reserved_scope_flags = hdr_reserved_scope_flags h, hdr_created_at_us = hdr_created_at_us h, hdr_feature_set_section_id = hdr_feature_set_section_id h, hdr_profile_capability_section_id = hdr_profile_capability_section_id h, hdr_fast_metadata_section_id = hdr_fast_metadata_section_id h, hdr_v2_flags = hdr_v2_flags h, hdr_reserved = hdr_reserved h, hdr_checksum = c\<rparr> = h\<lparr>hdr_checksum := c\<rparr>" for c by (cases h) simp
  have c: "put 156 [0, 0, 0, 0] (seal crc 156 (CoveHeaderV1_image h)) = CoveHeaderV1_image h"
    using clear_seal [of 156 "CoveHeaderV1_image h" crc] f by (simp add: numeral_eq_Suc)
  show ?thesis using assms(5)
    by (simp add: CoveHeaderV1_parse_def HEADER_SIZE_eq CoveHeaderV1_serialize_def Let_def nth_append wire_simps f eta c CoveHeaderV1_check_checksum)
qed

section \<open>Section specification and postscript\<close>

definition SECTION_SPEC_SIZE :: usize where "SECTION_SPEC_SIZE = SECTION_SPEC_LEN"

lemma SECTION_SPEC_SIZE_eq: "SECTION_SPEC_SIZE = 36"
  by (simp add: SECTION_SPEC_SIZE_def SECTION_SPEC_LEN_def)

record CoveSectionSpecV1 =
  ss_offset :: u64
  ss_length :: u64
  ss_uncompressed_length :: u64
  ss_compression :: u8
  ss_encryption :: u8
  ss_alignment_log2 :: u8
  ss_flags :: u8
  ss_crc32c :: u32
  ss_reserved :: u32

definition CoveSectionSpecV1_serialize :: "CoveSectionSpecV1 \<Rightarrow> bytes" where
  "CoveSectionSpecV1_serialize h =
     (let buf = replicate SECTION_SPEC_SIZE 0;
          buf = put 0 (le_bytes 8 (ss_offset h)) buf;
          buf = put 8 (le_bytes 8 (ss_length h)) buf;
          buf = put 16 (le_bytes 8 (ss_uncompressed_length h)) buf;
          buf = put 24 [ss_compression h] buf;
          buf = put 25 [ss_encryption h] buf;
          buf = put 26 [ss_alignment_log2 h] buf;
          buf = put 27 [ss_flags h] buf;
          buf = put 28 (le_bytes 4 (ss_crc32c h)) buf;
          buf = put 32 (le_bytes 4 (ss_reserved h)) buf
      in buf)"

definition CoveSectionSpecV1_check :: "CoveSectionSpecV1 \<Rightarrow> unit result" where
  "CoveSectionSpecV1_check h =
     (if CompressionCodec_from_u8 (ss_compression h) = None then Err (BadSection (''unknown compression codec '' @ show_nat (unat (ss_compression h))))
      else if ss_encryption h \<noteq> 0 then Err (BadSection (''encryption must be 0 in v2, got '' @ show_nat (unat (ss_encryption h))))
      else if ss_reserved h \<noteq> 0 then Err ReservedNotZero
      else Ok ())"

definition CoveSectionSpecV1_parse :: "bytes \<Rightarrow> CoveSectionSpecV1 result" where
  "CoveSectionSpecV1_parse buf =
     (if length buf < SECTION_SPEC_SIZE then Err BufferTooShort
      else let buf = slice 0 SECTION_SPEC_SIZE buf in
      let h = \<lparr>ss_offset = u64_at buf 0,
         ss_length = u64_at buf 8,
         ss_uncompressed_length = u64_at buf 16,
         ss_compression = buf ! 24,
         ss_encryption = buf ! 25,
         ss_alignment_log2 = buf ! 26,
         ss_flags = buf ! 27,
         ss_crc32c = u32_at buf 28,
         ss_reserved = u32_at buf 32\<rparr> in
      and_then (CoveSectionSpecV1_check h) (\<lambda>_. Ok h))"

lemma length_CoveSectionSpecV1_serialize [simp]: "length (CoveSectionSpecV1_serialize h) = 36"
  by (simp add: CoveSectionSpecV1_serialize_def SECTION_SPEC_SIZE_eq Let_def)

lemma CoveSectionSpecV1_serialize_fields:
  "u64_at (CoveSectionSpecV1_serialize h) 0 = ss_offset h"
  "u64_at (CoveSectionSpecV1_serialize h) 8 = ss_length h"
  "u64_at (CoveSectionSpecV1_serialize h) 16 = ss_uncompressed_length h"
  "CoveSectionSpecV1_serialize h ! 24 = ss_compression h"
  "CoveSectionSpecV1_serialize h ! 25 = ss_encryption h"
  "CoveSectionSpecV1_serialize h ! 26 = ss_alignment_log2 h"
  "CoveSectionSpecV1_serialize h ! 27 = ss_flags h"
  "u32_at (CoveSectionSpecV1_serialize h) 28 = ss_crc32c h"
  "u32_at (CoveSectionSpecV1_serialize h) 32 = ss_reserved h"
  by (simp_all add: CoveSectionSpecV1_serialize_def SECTION_SPEC_SIZE_eq Let_def wire_simps)

lemma CoveSectionSpecV1_check_Ok: "CoveSectionSpecV1_parse buf = Ok h \<Longrightarrow> CoveSectionSpecV1_check h = Ok ()"
  by (auto simp: CoveSectionSpecV1_parse_def result_simps Let_def simp del: and_then.simps split: if_splits)

lemma CoveSectionSpecV1_roundtrip:
  assumes "CoveSectionSpecV1_check h = Ok ()"
  shows "CoveSectionSpecV1_parse (CoveSectionSpecV1_serialize h @ rest) = Ok (h)"
proof -
  note f = CoveSectionSpecV1_serialize_fields [of h]
  have eta: "\<lparr>ss_offset = ss_offset h, ss_length = ss_length h, ss_uncompressed_length = ss_uncompressed_length h, ss_compression = ss_compression h, ss_encryption = ss_encryption h, ss_alignment_log2 = ss_alignment_log2 h, ss_flags = ss_flags h, ss_crc32c = ss_crc32c h, ss_reserved = ss_reserved h\<rparr> = h" by (cases h) simp
  show ?thesis using assms
    by (simp add: CoveSectionSpecV1_parse_def SECTION_SPEC_SIZE_eq  Let_def nth_append wire_simps f eta )
qed

definition CoveSectionSpecV1_end_offset :: "CoveSectionSpecV1 \<Rightarrow> u64 result" where
  "CoveSectionSpecV1_end_offset s =
     and_then (checked_add (unat (ss_offset s)) (unat (ss_length s))) (\<lambda>e. Ok (of_nat e))"

definition POSTSCRIPT_SIZE :: usize where "POSTSCRIPT_SIZE = POSTSCRIPT_LEN"

definition POSTSCRIPT_TAIL_SIZE :: usize where "POSTSCRIPT_TAIL_SIZE = 8"

definition POSTSCRIPT_TOTAL_SIZE :: usize where "POSTSCRIPT_TOTAL_SIZE = POSTSCRIPT_SIZE + POSTSCRIPT_TAIL_SIZE"

record CovePostscriptV1 =
  ps_required_features :: u64
  ps_optional_features :: u64
  ps_file_len :: u64
  ps_footer :: CoveSectionSpecV1
  ps_checksum :: u32

definition CovePostscriptV1_image :: "CovePostscriptV1 \<Rightarrow> bytes" where
  "CovePostscriptV1_image p =
     (let buf = replicate POSTSCRIPT_SIZE 0;
          buf = put 0 (le_bytes 8 (ps_required_features p)) buf;
          buf = put 8 (le_bytes 8 (ps_optional_features p)) buf;
          buf = put 16 (le_bytes 8 (ps_file_len p)) buf;
          buf = put 24 (CoveSectionSpecV1_serialize (ps_footer p)) buf
      in buf)"

definition CovePostscriptV1_serialize :: "(bytes \<Rightarrow> u32) \<Rightarrow> CovePostscriptV1 \<Rightarrow> bytes" where
  "CovePostscriptV1_serialize crc p = seal crc 60 (CovePostscriptV1_image p)"

definition CovePostscriptV1_serialize_tail :: "(bytes \<Rightarrow> u32) \<Rightarrow> CovePostscriptV1 \<Rightarrow> bytes" where
  "CovePostscriptV1_serialize_tail crc p =
     (let tail = replicate POSTSCRIPT_TOTAL_SIZE 0;
          ps_len = of_nat POSTSCRIPT_SIZE :: u16;
          tail = put 0 (CovePostscriptV1_serialize crc p) tail;
          tail = put POSTSCRIPT_SIZE (le_bytes 2 POSTSCRIPT_VERSION_V1) tail;
          tail = put (POSTSCRIPT_SIZE + 2) (le_bytes 2 ps_len) tail;
          tail = put (POSTSCRIPT_SIZE + 4) MAGIC_COVE tail
      in tail)"

definition CovePostscriptV1_parse_payload :: "(bytes \<Rightarrow> u32) \<Rightarrow> bytes \<Rightarrow> CovePostscriptV1 result" where
  "CovePostscriptV1_parse_payload crc buf =
     (if length buf < POSTSCRIPT_SIZE then Err BufferTooShort
      else let buf = slice 0 POSTSCRIPT_SIZE buf;
               stored_crc = u32_at buf 60 in
      if crc (put 60 [0, 0, 0, 0] buf) \<noteq> stored_crc then Err ChecksumMismatch
      else let required_features = u64_at buf 0;
               optional_features = u64_at buf 8;
               unknown_required = required_features AND NOT KNOWN_FEATURE_BITS_MASK in
      if unknown_required \<noteq> 0 then Err (UnknownRequiredFeature unknown_required)
      else let file_len = u64_at buf 16 in
      and_then (CoveSectionSpecV1_parse (slice 24 36 buf)) (\<lambda>footer.
      Ok \<lparr>ps_required_features = required_features, ps_optional_features = optional_features,
          ps_file_len = file_len, ps_footer = footer, ps_checksum = stored_crc\<rparr>))"

definition CovePostscriptV1_parse_from_tail :: "(bytes \<Rightarrow> u32) \<Rightarrow> bytes \<Rightarrow> CovePostscriptV1 result" where
  "CovePostscriptV1_parse_from_tail crc file_data =
     (let file_len = length file_data in
      if file_len < POSTSCRIPT_TOTAL_SIZE then Err BufferTooShort
      else let tail_start = file_len - POSTSCRIPT_TAIL_SIZE;
               magic = slice (tail_start + 4) 4 file_data in
      if magic \<noteq> MAGIC_COVE then Err BadMagic
      else let ps_version = u16_at file_data tail_start;
               ps_len = u16_at file_data (tail_start + 2) in
      if ps_version \<noteq> POSTSCRIPT_VERSION_V1 then Err BadVersion
      else let ps_len_usize = unat ps_len in
      if ps_len_usize \<noteq> POSTSCRIPT_SIZE
      then Err (BadSection (''postscript_len is '' @ show_nat ps_len_usize @ '', expected '' @ show_nat POSTSCRIPT_SIZE))
      else if ps_len_usize > file_len - POSTSCRIPT_TAIL_SIZE then Err OffsetRange
      else let ps_start = tail_start - ps_len_usize;
               ps_buf = slice ps_start ps_len_usize file_data
      in CovePostscriptV1_parse_payload crc ps_buf)"

lemmas postscript_sizes = POSTSCRIPT_SIZE_def POSTSCRIPT_TAIL_SIZE_def POSTSCRIPT_TOTAL_SIZE_def POSTSCRIPT_LEN_def

lemma length_CovePostscriptV1_image [simp]: "length (CovePostscriptV1_image p) = 64"
  by (simp add: CovePostscriptV1_image_def postscript_sizes Let_def)

lemma length_CovePostscriptV1_serialize [simp]: "length (CovePostscriptV1_serialize crc p) = 64"
  by (simp add: CovePostscriptV1_serialize_def)

lemma length_CovePostscriptV1_serialize_tail [simp]: "length (CovePostscriptV1_serialize_tail crc p) = 72"
  by (simp add: CovePostscriptV1_serialize_tail_def postscript_sizes Let_def)

lemma CovePostscriptV1_image_fields:
  "u64_at (CovePostscriptV1_image p) 0 = ps_required_features p"
  "u64_at (CovePostscriptV1_image p) 8 = ps_optional_features p"
  "u64_at (CovePostscriptV1_image p) 16 = ps_file_len p"
  "slice 24 36 (CovePostscriptV1_image p) = CoveSectionSpecV1_serialize (ps_footer p)"
  "slice 60 4 (CovePostscriptV1_image p) = replicate 4 0"
  by (simp_all add: CovePostscriptV1_image_def postscript_sizes Let_def wire_simps)

lemma postscript_payload_roundtrip:
  assumes "ps_required_features p AND NOT KNOWN_FEATURE_BITS_MASK = 0" and "CoveSectionSpecV1_check (ps_footer p) = Ok ()"
  shows "CovePostscriptV1_parse_payload crc (CovePostscriptV1_serialize crc p) =
           Ok (p\<lparr>ps_checksum := crc (CovePostscriptV1_image p)\<rparr>)"
proof -
  note f = CovePostscriptV1_image_fields [of p]
  have c: "put 60 [0, 0, 0, 0] (seal crc 60 (CovePostscriptV1_image p)) = CovePostscriptV1_image p"
    using clear_seal [of 60 "CovePostscriptV1_image p" crc] f by (simp add: numeral_eq_Suc)
  have eta: "\<lparr>ps_required_features = ps_required_features p, ps_optional_features = ps_optional_features p,
     ps_file_len = ps_file_len p, ps_footer = ps_footer p, ps_checksum = c\<rparr> = p\<lparr>ps_checksum := c\<rparr>" for c
    by (cases p) simp
  show ?thesis
    using assms CoveSectionSpecV1_roundtrip [of "ps_footer p" "[]"]
    by (simp add: CovePostscriptV1_parse_payload_def CovePostscriptV1_serialize_def postscript_sizes Let_def wire_simps f c eta)
qed

lemma postscript_tail_roundtrip:
  assumes "ps_required_features p AND NOT KNOWN_FEATURE_BITS_MASK = 0" and "CoveSectionSpecV1_check (ps_footer p) = Ok ()"
  shows "CovePostscriptV1_parse_from_tail crc (file @ CovePostscriptV1_serialize_tail crc p) =
           Ok (p\<lparr>ps_checksum := crc (CovePostscriptV1_image p)\<rparr>)"
proof -
  let ?t = "CovePostscriptV1_serialize_tail crc p"
  have m: "length MAGIC_COVE = 4" by (simp add: MAGIC_COVE_def)
  have t: "slice 68 4 ?t = MAGIC_COVE" "u16_at ?t 64 = POSTSCRIPT_VERSION_V1" "u16_at ?t 66 = 64"
    "slice 0 64 ?t = CovePostscriptV1_serialize crc p"
    by (simp_all add: CovePostscriptV1_serialize_tail_def postscript_sizes Let_def wire_simps m)
  show ?thesis
    using postscript_payload_roundtrip [OF assms] t
    by (simp add: CovePostscriptV1_parse_from_tail_def postscript_sizes Let_def wire_simps)
qed

section \<open>Footer\<close>

definition FOOTER_HEADER_SIZE :: usize where "FOOTER_HEADER_SIZE = FOOTER_HEADER_LEN"

lemma FOOTER_HEADER_SIZE_eq: "FOOTER_HEADER_SIZE = 44"
  by (simp add: FOOTER_HEADER_SIZE_def FOOTER_HEADER_LEN_def)

record CoveFooterHeaderV1 =
  fh_footer_magic :: bytes
  fh_footer_version :: u16
  fh_header_len :: u16
  fh_section_count :: u32
  fh_section_entry_len :: u16
  fh_flags :: u16
  fh_metadata_len :: u32
  fh_reserved :: bytes

definition CoveFooterHeaderV1_serialize :: "CoveFooterHeaderV1 \<Rightarrow> bytes" where
  "CoveFooterHeaderV1_serialize h =
     (let buf = replicate FOOTER_HEADER_SIZE 0;
          buf = put 0 (fh_footer_magic h) buf;
          buf = put 4 (le_bytes 2 (fh_footer_version h)) buf;
          buf = put 6 (le_bytes 2 (fh_header_len h)) buf;
          buf = put 8 (le_bytes 4 (fh_section_count h)) buf;
          buf = put 12 (le_bytes 2 (fh_section_entry_len h)) buf;
          buf = put 14 (le_bytes 2 (fh_flags h)) buf;
          buf = put 16 (le_bytes 4 (fh_metadata_len h)) buf;
          buf = put 20 (fh_reserved h) buf
      in buf)"

definition CoveFooterHeaderV1_check :: "CoveFooterHeaderV1 \<Rightarrow> unit result" where
  "CoveFooterHeaderV1_check h =
     (if fh_footer_magic h \<noteq> MAGIC_COVE_FOOTER then Err BadMagic
      else if fh_footer_version h \<noteq> FOOTER_VERSION_V1 then Err BadVersion
      else if fh_header_len h \<noteq> of_nat FOOTER_HEADER_LEN then Err (BadSection (''footer header_len is '' @ show_nat (unat (fh_header_len h)) @ '', expected '' @ show_nat FOOTER_HEADER_LEN))
      else if fh_section_entry_len h \<noteq> SECTION_ENTRY_LEN then Err (BadSection (''section_entry_len is '' @ show_nat (unat (fh_section_entry_len h)) @ '', expected '' @ show_nat (unat SECTION_ENTRY_LEN)))
      else if fh_metadata_len h > METADATA_LEN_MAX then Err (BadSection (''metadata_len '' @ show_nat (unat (fh_metadata_len h)) @ '' exceeds 1 MiB limit''))
      else if list_ex (\<lambda>b. b \<noteq> 0) (fh_reserved h) then Err ReservedNotZero
      else Ok ())"

definition CoveFooterHeaderV1_parse :: "bytes \<Rightarrow> CoveFooterHeaderV1 result" where
  "CoveFooterHeaderV1_parse buf =
     (if length buf < FOOTER_HEADER_SIZE then Err BufferTooShort
      else let buf = slice 0 FOOTER_HEADER_SIZE buf in
      let h = \<lparr>fh_footer_magic = slice 0 4 buf,
         fh_footer_version = u16_at buf 4,
         fh_header_len = u16_at buf 6,
         fh_section_count = u32_at buf 8,
         fh_section_entry_len = u16_at buf 12,
         fh_flags = u16_at buf 14,
         fh_metadata_len = u32_at buf 16,
         fh_reserved = slice 20 24 buf\<rparr> in
      and_then (CoveFooterHeaderV1_check h) (\<lambda>_. Ok h))"

lemma length_CoveFooterHeaderV1_serialize [simp]: "length (CoveFooterHeaderV1_serialize h) = 44"
  by (simp add: CoveFooterHeaderV1_serialize_def FOOTER_HEADER_SIZE_eq Let_def)

lemma CoveFooterHeaderV1_serialize_fields:
  assumes "length (fh_footer_magic h) = 4" and "length (fh_reserved h) = 24"
  shows
  "slice 0 4 (CoveFooterHeaderV1_serialize h) = fh_footer_magic h"
  "u16_at (CoveFooterHeaderV1_serialize h) 4 = fh_footer_version h"
  "u16_at (CoveFooterHeaderV1_serialize h) 6 = fh_header_len h"
  "u32_at (CoveFooterHeaderV1_serialize h) 8 = fh_section_count h"
  "u16_at (CoveFooterHeaderV1_serialize h) 12 = fh_section_entry_len h"
  "u16_at (CoveFooterHeaderV1_serialize h) 14 = fh_flags h"
  "u32_at (CoveFooterHeaderV1_serialize h) 16 = fh_metadata_len h"
  "slice 20 24 (CoveFooterHeaderV1_serialize h) = fh_reserved h"
  using assms by (simp_all add: CoveFooterHeaderV1_serialize_def FOOTER_HEADER_SIZE_eq Let_def wire_simps)

lemma CoveFooterHeaderV1_check_Ok: "CoveFooterHeaderV1_parse buf = Ok h \<Longrightarrow> CoveFooterHeaderV1_check h = Ok ()"
  by (auto simp: CoveFooterHeaderV1_parse_def result_simps Let_def simp del: and_then.simps split: if_splits)

lemma CoveFooterHeaderV1_roundtrip:
  assumes "length (fh_footer_magic h) = 4" and "length (fh_reserved h) = 24" and "CoveFooterHeaderV1_check h = Ok ()"
  shows "CoveFooterHeaderV1_parse (CoveFooterHeaderV1_serialize h @ rest) = Ok (h)"
proof -
  note f = CoveFooterHeaderV1_serialize_fields [OF assms(1) assms(2)]
  have eta: "\<lparr>fh_footer_magic = fh_footer_magic h, fh_footer_version = fh_footer_version h, fh_header_len = fh_header_len h, fh_section_count = fh_section_count h, fh_section_entry_len = fh_section_entry_len h, fh_flags = fh_flags h, fh_metadata_len = fh_metadata_len h, fh_reserved = fh_reserved h\<rparr> = h" by (cases h) simp
  show ?thesis using assms(3)
    by (simp add: CoveFooterHeaderV1_parse_def FOOTER_HEADER_SIZE_eq  Let_def nth_append wire_simps f eta )
qed

definition SECTION_ENTRY_SIZE :: usize where "SECTION_ENTRY_SIZE = unat SECTION_ENTRY_LEN"

lemma SECTION_ENTRY_SIZE_eq: "SECTION_ENTRY_SIZE = 76"
  by (simp add: SECTION_ENTRY_SIZE_def SECTION_ENTRY_LEN_def)

record CoveSectionEntryV1 =
  se_section_id :: u32
  se_section_kind :: u16
  se_profile :: u8
  se_flags :: u8
  se_offset :: u64
  se_length :: u64
  se_uncompressed_length :: u64
  se_item_count :: u64
  se_row_count :: u64
  se_compression :: u8
  se_encryption :: u8
  se_alignment_log2 :: u8
  se_reserved0 :: u8
  se_required_features :: u64
  se_optional_features :: u64
  se_crc32c :: u32
  se_reserved1 :: u32

definition CoveSectionEntryV1_serialize :: "CoveSectionEntryV1 \<Rightarrow> bytes" where
  "CoveSectionEntryV1_serialize h =
     (let buf = replicate SECTION_ENTRY_SIZE 0;
          buf = put 0 (le_bytes 4 (se_section_id h)) buf;
          buf = put 4 (le_bytes 2 (se_section_kind h)) buf;
          buf = put 6 [se_profile h] buf;
          buf = put 7 [se_flags h] buf;
          buf = put 8 (le_bytes 8 (se_offset h)) buf;
          buf = put 16 (le_bytes 8 (se_length h)) buf;
          buf = put 24 (le_bytes 8 (se_uncompressed_length h)) buf;
          buf = put 32 (le_bytes 8 (se_item_count h)) buf;
          buf = put 40 (le_bytes 8 (se_row_count h)) buf;
          buf = put 48 [se_compression h] buf;
          buf = put 49 [se_encryption h] buf;
          buf = put 50 [se_alignment_log2 h] buf;
          buf = put 51 [se_reserved0 h] buf;
          buf = put 52 (le_bytes 8 (se_required_features h)) buf;
          buf = put 60 (le_bytes 8 (se_optional_features h)) buf;
          buf = put 68 (le_bytes 4 (se_crc32c h)) buf;
          buf = put 72 (le_bytes 4 (se_reserved1 h)) buf
      in buf)"

definition CoveSectionEntryV1_check :: "CoveSectionEntryV1 \<Rightarrow> unit result" where
  "CoveSectionEntryV1_check h =
     (if SectionKind_from_u16 (se_section_kind h) = None then Err (BadSection (''unknown section_kind '' @ show_nat (unat (se_section_kind h))))
      else if PrimaryProfile_from_u8 (se_profile h) = None then Err (BadSection (''unknown section profile '' @ show_nat (unat (se_profile h))))
      else if CompressionCodec_from_u8 (se_compression h) = None then Err (BadSection (''unknown compression codec '' @ show_nat (unat (se_compression h))))
      else if se_encryption h \<noteq> 0 then Err (BadSection (''section '' @ show_nat (unat (se_section_id h)) @ '': encryption must be 0 in v2, got '' @ show_nat (unat (se_encryption h))))
      else if se_reserved0 h \<noteq> 0 \<or> se_reserved1 h \<noteq> 0 then Err ReservedNotZero
      else if se_compression h = CompressionCodec_code Codec_None \<and> se_length h \<noteq> se_uncompressed_length h then Err (BadSection (''section '' @ show_nat (unat (se_section_id h)) @ '': uncompressed_length must equal length when uncompressed''))
      else Ok ())"

definition CoveSectionEntryV1_parse :: "bytes \<Rightarrow> CoveSectionEntryV1 result" where
  "CoveSectionEntryV1_parse buf =
     (if length buf < SECTION_ENTRY_SIZE then Err BufferTooShort
      else let buf = slice 0 SECTION_ENTRY_SIZE buf in
      let h = \<lparr>se_section_id = u32_at buf 0,
         se_section_kind = u16_at buf 4,
         se_profile = buf ! 6,
         se_flags = buf ! 7,
         se_offset = u64_at buf 8,
         se_length = u64_at buf 16,
         se_uncompressed_length = u64_at buf 24,
         se_item_count = u64_at buf 32,
         se_row_count = u64_at buf 40,
         se_compression = buf ! 48,
         se_encryption = buf ! 49,
         se_alignment_log2 = buf ! 50,
         se_reserved0 = buf ! 51,
         se_required_features = u64_at buf 52,
         se_optional_features = u64_at buf 60,
         se_crc32c = u32_at buf 68,
         se_reserved1 = u32_at buf 72\<rparr> in
      and_then (CoveSectionEntryV1_check h) (\<lambda>_. Ok h))"

lemma length_CoveSectionEntryV1_serialize [simp]: "length (CoveSectionEntryV1_serialize h) = 76"
  by (simp add: CoveSectionEntryV1_serialize_def SECTION_ENTRY_SIZE_eq Let_def)

lemma CoveSectionEntryV1_serialize_fields:
  "u32_at (CoveSectionEntryV1_serialize h) 0 = se_section_id h"
  "u16_at (CoveSectionEntryV1_serialize h) 4 = se_section_kind h"
  "CoveSectionEntryV1_serialize h ! 6 = se_profile h"
  "CoveSectionEntryV1_serialize h ! 7 = se_flags h"
  "u64_at (CoveSectionEntryV1_serialize h) 8 = se_offset h"
  "u64_at (CoveSectionEntryV1_serialize h) 16 = se_length h"
  "u64_at (CoveSectionEntryV1_serialize h) 24 = se_uncompressed_length h"
  "u64_at (CoveSectionEntryV1_serialize h) 32 = se_item_count h"
  "u64_at (CoveSectionEntryV1_serialize h) 40 = se_row_count h"
  "CoveSectionEntryV1_serialize h ! 48 = se_compression h"
  "CoveSectionEntryV1_serialize h ! 49 = se_encryption h"
  "CoveSectionEntryV1_serialize h ! 50 = se_alignment_log2 h"
  "CoveSectionEntryV1_serialize h ! 51 = se_reserved0 h"
  "u64_at (CoveSectionEntryV1_serialize h) 52 = se_required_features h"
  "u64_at (CoveSectionEntryV1_serialize h) 60 = se_optional_features h"
  "u32_at (CoveSectionEntryV1_serialize h) 68 = se_crc32c h"
  "u32_at (CoveSectionEntryV1_serialize h) 72 = se_reserved1 h"
  by (simp_all add: CoveSectionEntryV1_serialize_def SECTION_ENTRY_SIZE_eq Let_def wire_simps)

lemma CoveSectionEntryV1_check_Ok: "CoveSectionEntryV1_parse buf = Ok h \<Longrightarrow> CoveSectionEntryV1_check h = Ok ()"
  by (auto simp: CoveSectionEntryV1_parse_def result_simps Let_def simp del: and_then.simps split: if_splits)

lemma CoveSectionEntryV1_roundtrip:
  assumes "CoveSectionEntryV1_check h = Ok ()"
  shows "CoveSectionEntryV1_parse (CoveSectionEntryV1_serialize h @ rest) = Ok (h)"
proof -
  note f = CoveSectionEntryV1_serialize_fields [of h]
  have eta: "\<lparr>se_section_id = se_section_id h, se_section_kind = se_section_kind h, se_profile = se_profile h, se_flags = se_flags h, se_offset = se_offset h, se_length = se_length h, se_uncompressed_length = se_uncompressed_length h, se_item_count = se_item_count h, se_row_count = se_row_count h, se_compression = se_compression h, se_encryption = se_encryption h, se_alignment_log2 = se_alignment_log2 h, se_reserved0 = se_reserved0 h, se_required_features = se_required_features h, se_optional_features = se_optional_features h, se_crc32c = se_crc32c h, se_reserved1 = se_reserved1 h\<rparr> = h" by (cases h) simp
  show ?thesis using assms
    by (simp add: CoveSectionEntryV1_parse_def SECTION_ENTRY_SIZE_eq  Let_def nth_append wire_simps f eta )
qed

definition CoveFooterHeaderV1_total_len :: "CoveFooterHeaderV1 \<Rightarrow> usize result" where
  "CoveFooterHeaderV1_total_len h =
     and_then (checked_mul (unat (fh_section_count h)) (unat SECTION_ENTRY_LEN)) (\<lambda>entries_len.
     and_then (checked_add FOOTER_HEADER_SIZE entries_len) (\<lambda>with_entries.
     checked_add with_entries (unat (fh_metadata_len h))))"

definition CoveSectionEntryV1_end_offset :: "CoveSectionEntryV1 \<Rightarrow> u64 result" where
  "CoveSectionEntryV1_end_offset s =
     and_then (checked_add (unat (se_offset s)) (unat (se_length s))) (\<lambda>e. Ok (of_nat e))"

text \<open>
  Metadata JSON: \<open>json_ok\<close> stands for \<open>serde_json::from_slice(bytes).is_ok()\<close>, which is not part
  of the repository.
\<close>

definition metadata_validate :: "(bytes \<Rightarrow> bool) \<Rightarrow> bytes \<Rightarrow> unit result" where
  "metadata_validate json_ok bs =
     (if length bs > unat METADATA_LEN_MAX
      then Err (BadSection (''Spec '' @ [CHR 0xC2, CHR 0xA7] @ ''15: metadata_json length '' @ show_nat (length bs) @ '' exceeds 1 MiB limit''))
      else if \<not> utf8_valid bs then Err (BadSection (''Spec '' @ [CHR 0xC2, CHR 0xA7] @ ''15: metadata_json must be valid UTF-8''))
      else if bs \<noteq> [] \<and> \<not> json_ok bs
      then Err (BadSection (''Spec '' @ [CHR 0xC2, CHR 0xA7] @ ''15: metadata_json must be syntactically valid JSON''))
      else Ok ())"

record CoveFooter =
  ft_header :: CoveFooterHeaderV1
  ft_sections :: "CoveSectionEntryV1 list"
  ft_metadata_json :: bytes

definition CoveFooter_serialize :: "CoveFooter \<Rightarrow> bytes" where
  "CoveFooter_serialize f =
     CoveFooterHeaderV1_serialize (ft_header f) @ concat (map CoveSectionEntryV1_serialize (ft_sections f)) @ ft_metadata_json f"

text \<open>Each entry is parsed from the rest of the buffer, \<open>&buf[start..]\<close>.\<close>

definition CoveFooter_parse :: "(bytes \<Rightarrow> bool) \<Rightarrow> bytes \<Rightarrow> CoveFooter result" where
  "CoveFooter_parse json_ok buf =
     and_then (CoveFooterHeaderV1_parse buf) (\<lambda>header.
     and_then (CoveFooterHeaderV1_total_len header) (\<lambda>expected_len.
     if length buf < expected_len then Err BufferTooShort
     else let entries_start = FOOTER_HEADER_SIZE; n = unat (fh_section_count header) in
     and_then (collect_map (\<lambda>i. CoveSectionEntryV1_parse (drop (entries_start + i * SECTION_ENTRY_SIZE) buf)) [0..<n]) (\<lambda>sections.
     let meta_start = entries_start + n * SECTION_ENTRY_SIZE;
         metadata_json = slice meta_start (unat (fh_metadata_len header)) buf in
     and_then (metadata_validate json_ok metadata_json) (\<lambda>_.
     Ok \<lparr>ft_header = header, ft_sections = sections, ft_metadata_json = metadata_json\<rparr>))))"

definition CoveFooter_compute_crc :: "(bytes \<Rightarrow> u32) \<Rightarrow> CoveFooter \<Rightarrow> u32" where
  "CoveFooter_compute_crc crc f = crc (CoveFooter_serialize f)"

lemma end_offset_Ok [result_simps]:
  "CoveSectionSpecV1_end_offset s = Ok e \<longleftrightarrow> unat (ss_offset s) + unat (ss_length s) < usize_bound \<and> e = ss_offset s + ss_length s"
  "CoveSectionEntryV1_end_offset t = Ok e \<longleftrightarrow> unat (se_offset t) + unat (se_length t) < usize_bound \<and> e = se_offset t + se_length t"
  by (auto simp: CoveSectionSpecV1_end_offset_def CoveSectionEntryV1_end_offset_def result_simps)

definition footer_wf :: "(bytes \<Rightarrow> bool) \<Rightarrow> CoveFooter \<Rightarrow> bool" where
  "footer_wf json_ok f \<longleftrightarrow> length (fh_footer_magic (ft_header f)) = 4 \<and> length (fh_reserved (ft_header f)) = 24 \<and>
     CoveFooterHeaderV1_check (ft_header f) = Ok () \<and> unat (fh_section_count (ft_header f)) = length (ft_sections f) \<and>
     unat (fh_metadata_len (ft_header f)) = length (ft_metadata_json f) \<and>
     list_all (\<lambda>e. CoveSectionEntryV1_check e = Ok ()) (ft_sections f) \<and> metadata_validate json_ok (ft_metadata_json f) = Ok ()"

lemma footer_length: "length (CoveFooter_serialize f) = 44 + length (ft_sections f) * 76 + length (ft_metadata_json f)"
  by (simp add: CoveFooter_serialize_def length_concat_uniform)

lemma footer_total_len:
  "footer_wf json_ok f \<Longrightarrow> CoveFooterHeaderV1_total_len (ft_header f) = Ok (length (CoveFooter_serialize f))"
proof -
  assume w: "footer_wf json_ok f"
  have "unat (fh_section_count (ft_header f)) < 2 ^ 32" "unat (fh_metadata_len (ft_header f)) < 2 ^ 32"
    using unat_less_power [of "fh_section_count (ft_header f)"] unat_less_power [of "fh_metadata_len (ft_header f)"] by simp_all
  then show ?thesis using w
    by (simp add: CoveFooterHeaderV1_total_len_def footer_wf_def footer_length checked_mul_def checked_add_def
        SECTION_ENTRY_LEN_def FOOTER_HEADER_SIZE_eq)
qed

lemma drop_concat_uniform:
  "(\<And>x. x \<in> set xs \<Longrightarrow> length (f x) = w) \<Longrightarrow> i < length xs \<Longrightarrow>
     \<exists>rest. drop (i * w) (concat (map f xs) @ ys) = f (xs ! i) @ rest"
proof (induction xs arbitrary: i)
  case (Cons x xs)
  then show ?case by (cases i) auto
qed simp

lemma footer_roundtrip:
  assumes "footer_wf json_ok f" shows "CoveFooter_parse json_ok (CoveFooter_serialize f @ rest) = Ok f"
proof -
  let ?h = "ft_header f" and ?es = "ft_sections f" and ?m = "ft_metadata_json f"
  let ?buf = "CoveFooter_serialize f @ rest"
  note w = assms [unfolded footer_wf_def]
  have h: "CoveFooterHeaderV1_parse ?buf = Ok ?h"
    using CoveFooterHeaderV1_roundtrip [of ?h "concat (map CoveSectionEntryV1_serialize ?es) @ ?m @ rest"] w
    by (simp add: CoveFooter_serialize_def)
  have e: "CoveSectionEntryV1_parse (drop (44 + i * 76) ?buf) = Ok (?es ! i)" if i: "i < length ?es" for i
  proof -
    obtain r where r: "drop (i * 76) (concat (map CoveSectionEntryV1_serialize ?es) @ ?m @ rest) = CoveSectionEntryV1_serialize (?es ! i) @ r"
      using drop_concat_uniform [where f = CoveSectionEntryV1_serialize and w = 76 and ys = "?m @ rest", OF length_CoveSectionEntryV1_serialize i]
      by blast
    have "drop 44 ?buf = concat (map CoveSectionEntryV1_serialize ?es) @ ?m @ rest" by (simp add: CoveFooter_serialize_def)
    then have "drop (i * 76 + 44) ?buf = CoveSectionEntryV1_serialize (?es ! i) @ r"
      using r by (simp only: drop_drop [symmetric])
    then have "drop (44 + i * 76) ?buf = CoveSectionEntryV1_serialize (?es ! i) @ r" by (simp only: add.commute)
    then show ?thesis using CoveSectionEntryV1_roundtrip [of "?es ! i" r] w i by (simp add: list_all_length)
  qed
  have "collect_map (\<lambda>i. CoveSectionEntryV1_parse (drop (44 + i * 76) ?buf)) [0..<length ?es] = Ok (map (\<lambda>i. ?es ! i) [0..<length ?es])"
    by (rule collect_map_Ok) (use e in simp)
  then have c: "collect_map (\<lambda>i. CoveSectionEntryV1_parse (drop (44 + i * 76) ?buf)) [0..<length ?es] = Ok ?es"
    by (simp only: map_nth)
  have m: "slice (44 + length ?es * 76) (length ?m) ?buf = ?m"
    by (simp add: CoveFooter_serialize_def slice_def length_concat_uniform)
  show ?thesis using w h c m footer_total_len [OF assms]
    by (simp add: CoveFooter_parse_def FOOTER_HEADER_SIZE_eq SECTION_ENTRY_SIZE_eq Let_def)
qed

lemma footer_parse_entry:
  "CoveFooter_parse json_ok buf = Ok f \<Longrightarrow> e \<in> set (ft_sections f) \<Longrightarrow> CoveSectionEntryV1_check e = Ok ()"
proof -
  assume a: "CoveFooter_parse json_ok buf = Ok f" and e: "e \<in> set (ft_sections f)"
  then obtain g n where c: "collect_map (\<lambda>i. CoveSectionEntryV1_parse (g i)) [0..<n] = Ok (ft_sections f)"
    by (auto simp: CoveFooter_parse_def result_simps Let_def split: if_splits)
  from e obtain i where "i < length (ft_sections f)" "ft_sections f ! i = e" by (auto simp: in_set_conv_nth)
  then have "CoveSectionEntryV1_parse (g i) = Ok e"
    using collect_map_nth [OF c, of i] collect_map_length [OF c] by simp
  then show ?thesis by (rule CoveSectionEntryV1_check_Ok)
qed

end
