(* ===== verification/Compression.thy ===== *)
theory Compression
  imports Container
begin

text \<open>
  Codec dispatch for section payloads (\<open>compression.rs\<close>). LZ4 and Zstd are third-party crates: the
  record \<open>codecs\<close> holds what the code calls in them, and the build's feature switches. A fallible
  call returns \<open>Inl\<close> with the library's message or \<open>Inr\<close> with the bytes; \<open>None\<close> is a call that panics.
  \<open>Vec::with_capacity\<close> panics above \<open>isize::MAX\<close> bytes, and the capacity comes unchecked from the file.
\<close>

record codecs =
  lz4_enabled :: bool
  lz4_block_compress :: "bytes \<Rightarrow> bytes"
  lz4_block_decompress :: "bytes \<Rightarrow> usize \<Rightarrow> (string + bytes) option"
  zstd_enabled :: bool
  zstd_encode_all :: "bytes \<Rightarrow> (string + bytes) option"
  zstd_decoder_new :: "bytes \<Rightarrow> (string + unit) option"
  zstd_read_to_end :: "bytes \<Rightarrow> (string + bytes) option"

definition map_err_section :: "string \<Rightarrow> (string + 'a) option \<Rightarrow> 'a result" where
  "map_err_section msg r = (case r of None \<Rightarrow> Panic | Some (Inl e) \<Rightarrow> Err (BadSection (msg @ e)) | Some (Inr x) \<Rightarrow> Ok x)"

text \<open>\<open>Vec::<u8>::with_capacity\<close>: the capacity is at most \<open>isize::MAX\<close>.\<close>

definition vec_with_capacity :: "usize \<Rightarrow> unit result" where
  "vec_with_capacity capacity = (if capacity < 2 ^ 63 then Ok () else Panic)"

definition lz4_decompress :: "codecs \<Rightarrow> bytes \<Rightarrow> u64 \<Rightarrow> bytes result" where
  "lz4_decompress cs raw expected_len =
     (if lz4_enabled cs
      then map_err_section ''LZ4 decompression failed: '' (lz4_block_decompress cs raw (unat expected_len))
      else Err (UnsupportedEncoding ''LZ4 decompression is not enabled in this build (enable feature `compression-lz4`)''))"

definition lz4_compress :: "codecs \<Rightarrow> bytes \<Rightarrow> bytes result" where
  "lz4_compress cs payload =
     (if lz4_enabled cs then Ok (lz4_block_compress cs payload)
      else Err (UnsupportedEncoding ''LZ4 compression is not enabled in this build (enable feature `compression-lz4`)''))"

definition zstd_decompress :: "codecs \<Rightarrow> bytes \<Rightarrow> u64 \<Rightarrow> bytes result" where
  "zstd_decompress cs raw expected_len =
     (if zstd_enabled cs
      then let expected = unat expected_len in
        and_then (map_err_section ''Zstd decoder init failed: '' (zstd_decoder_new cs raw)) (\<lambda>_.
        and_then (vec_with_capacity expected) (\<lambda>_.
        and_then (map_err_section ''Zstd decompression failed: '' (zstd_read_to_end cs raw)) (\<lambda>out.
        if length out \<noteq> expected
        then Err (BadSection (''Zstd produced '' @ show_nat (length out) @ '' bytes but section declares uncompressed_length='' @ show_nat expected))
        else Ok out)))
      else Err (UnsupportedEncoding ''Zstd decompression is not enabled in this build (enable feature `compression-zstd`)''))"

definition zstd_compress :: "codecs \<Rightarrow> bytes \<Rightarrow> bytes result" where
  "zstd_compress cs payload =
     (if zstd_enabled cs then map_err_section ''Zstd compression failed: '' (zstd_encode_all cs payload)
      else Err (UnsupportedEncoding ''Zstd compression is not enabled in this build (enable feature `compression-zstd`)''))"

definition unknown_codec :: "u8 \<Rightarrow> CoveError" where
  "unknown_codec compression = BadSection (''unknown compression codec '' @ show_nat (unat compression))"

definition encode_payload_for_codec :: "codecs \<Rightarrow> bytes \<Rightarrow> u8 \<Rightarrow> bytes result" where
  "encode_payload_for_codec cs payload compression =
     and_then (ok_or (CompressionCodec_from_u8 compression) (unknown_codec compression)) (\<lambda>codec.
     case codec of
       Codec_None \<Rightarrow> Ok payload
     | Codec_Lz4 \<Rightarrow> lz4_compress cs payload
     | Codec_Zstd \<Rightarrow> zstd_compress cs payload)"

definition payload_from_raw :: "codecs \<Rightarrow> bytes \<Rightarrow> u64 \<Rightarrow> u64 \<Rightarrow> u8 \<Rightarrow> bytes result" where
  "payload_from_raw cs raw length' uncompressed_length compression =
     and_then (ok_or (CompressionCodec_from_u8 compression) (unknown_codec compression)) (\<lambda>codec.
     case codec of
       Codec_None \<Rightarrow>
         if uncompressed_length \<noteq> length' then Err (BadSection ''uncompressed_length must equal length when codec=None'')
         else Ok raw
     | Codec_Lz4 \<Rightarrow> lz4_decompress cs raw uncompressed_length
     | Codec_Zstd \<Rightarrow> zstd_decompress cs raw uncompressed_length)"

text \<open>\<open>&file_data[offset..end]\<close> panics unless \<open>offset <= end <= file_data.len()\<close>.\<close>

definition payload_raw_bytes :: "bytes \<Rightarrow> u64 \<Rightarrow> u64 \<Rightarrow> bytes result" where
  "payload_raw_bytes file_data offset length' =
     and_then (checked_add (unat offset) (unat length')) (\<lambda>end'.
     if end' > length file_data then Err OffsetRange
     else if unat offset \<le> end' then Ok (slice (unat offset) (end' - unat offset) file_data) else Panic)"

definition payload_from_spec :: "codecs \<Rightarrow> bytes \<Rightarrow> u64 \<Rightarrow> u64 \<Rightarrow> u64 \<Rightarrow> u8 \<Rightarrow> bytes result" where
  "payload_from_spec cs file_data offset length' uncompressed_length compression =
     and_then (payload_raw_bytes file_data offset length') (\<lambda>raw.
     payload_from_raw cs raw length' uncompressed_length compression)"

definition section_payload :: "codecs \<Rightarrow> bytes \<Rightarrow> CoveSectionEntryV1 \<Rightarrow> bytes result" where
  "section_payload cs file_data e =
     payload_from_spec cs file_data (se_offset e) (se_length e) (se_uncompressed_length e) (se_compression e)"

definition section_spec_payload :: "codecs \<Rightarrow> bytes \<Rightarrow> CoveSectionSpecV1 \<Rightarrow> bytes result" where
  "section_spec_payload cs file_data s =
     payload_from_spec cs file_data (ss_offset s) (ss_length s) (ss_uncompressed_length s) (ss_compression s)"

definition section_payload_from_raw :: "codecs \<Rightarrow> (bytes \<Rightarrow> u32) \<Rightarrow> bytes \<Rightarrow> u64 \<Rightarrow> u64 \<Rightarrow> u8 \<Rightarrow> u32 \<Rightarrow> bytes result" where
  "section_payload_from_raw cs crc raw length' uncompressed_length compression crc32c =
     (if of_nat (length raw) \<noteq> length'
      then Err (BadSection (''section raw length '' @ show_nat (length raw) @ '' does not match declared length '' @ show_nat (unat length')))
      else if crc raw \<noteq> crc32c then Err ChecksumMismatch
      else payload_from_raw cs raw length' uncompressed_length compression)"

section \<open>What the codec dispatch guarantees\<close>

text \<open>
  The libraries report malformed input as an error; LZ4 allocates the length it is given, so this holds
  for the lengths a buffer can have.
\<close>

definition codecs_return :: "codecs \<Rightarrow> bool" where
  "codecs_return cs \<longleftrightarrow> (\<forall>raw n. n < 2 ^ 63 \<longrightarrow> lz4_block_decompress cs raw n \<noteq> None)
     \<and> (\<forall>raw. zstd_decoder_new cs raw \<noteq> None) \<and> (\<forall>raw. zstd_read_to_end cs raw \<noteq> None)"

text \<open>A compressed payload that declares more bytes than a buffer can hold.\<close>

definition oversized :: "u8 \<Rightarrow> u64 \<Rightarrow> bool" where
  "oversized compression uncompressed_length \<longleftrightarrow>
     (CompressionCodec_from_u8 compression = Some Codec_Lz4 \<or> CompressionCodec_from_u8 compression = Some Codec_Zstd)
     \<and> 2 ^ 63 \<le> unat uncompressed_length"

lemma map_err_section_eq [simp]:
  "map_err_section msg r = Panic \<longleftrightarrow> r = None" "map_err_section msg r = Ok x \<longleftrightarrow> r = Some (Inr x)"
  by (auto simp: map_err_section_def split: option.splits sum.splits)

lemma vec_with_capacity_eq [simp]:
  "vec_with_capacity n = Panic \<longleftrightarrow> 2 ^ 63 \<le> n" "vec_with_capacity n = Ok u \<longleftrightarrow> n < 2 ^ 63"
  by (auto simp: vec_with_capacity_def)

lemma zstd_decompress_panic_iff:
  "zstd_decompress cs raw n = Panic \<longleftrightarrow> zstd_enabled cs \<and> (zstd_decoder_new cs raw = None
     \<or> zstd_decoder_new cs raw = Some (Inr ()) \<and> (2 ^ 63 \<le> unat n \<or> zstd_read_to_end cs raw = None))"
  by (auto simp: zstd_decompress_def Let_def and_then_eq_Panic)

lemma payload_panic:
  assumes "codecs_return cs" "payload_from_raw cs raw l u c = Panic"
  shows "oversized c u"
proof (rule ccontr)
  assume small: "\<not> oversized c u"
  obtain codec where codec: "CompressionCodec_from_u8 c = Some codec"
    using assms(2) by (cases "CompressionCodec_from_u8 c") (simp_all add: payload_from_raw_def ok_or_def)
  have lib: "zstd_decoder_new cs raw \<noteq> None" "zstd_read_to_end cs raw \<noteq> None"
      "unat u < 2 ^ 63 \<Longrightarrow> lz4_block_decompress cs raw (unat u) \<noteq> None"
    using assms(1) unfolding codecs_return_def by blast+
  show False
    using assms(2) codec small lib
    by (cases codec) (auto simp: payload_from_raw_def oversized_def lz4_decompress_def zstd_decompress_panic_iff split: if_splits)
qed

lemma payload_raw_bytes_no_panic [simp]: "payload_raw_bytes data off n \<noteq> Panic"
  by (auto simp: payload_raw_bytes_def and_then_eq_Panic result_simps)

lemma section_payload_panic:
  "codecs_return cs \<Longrightarrow> section_payload cs data e = Panic \<Longrightarrow> oversized (se_compression e) (se_uncompressed_length e)"
  "codecs_return cs \<Longrightarrow> section_spec_payload cs data s = Panic \<Longrightarrow> oversized (ss_compression s) (ss_uncompressed_length s)"
  by (auto simp: section_payload_def section_spec_payload_def payload_from_spec_def and_then_eq_Panic dest: payload_panic)

lemma uncompressed_payload:
  "se_compression e = CompressionCodec_code Codec_None \<Longrightarrow> section_payload cs data e = Ok p \<Longrightarrow>
     p = slice (unat (se_offset e)) (unat (se_length e)) data \<and> se_uncompressed_length e = se_length e"
  by (auto simp: section_payload_def payload_from_spec_def payload_raw_bytes_def payload_from_raw_def result_simps
      CompressionCodec_from_u8_def split: if_splits)

text \<open>
  What the code relies on the two libraries for: decompressing what they compressed, with the right
  length, gives the payload back. A buffer has fewer than \<open>2 ^ 63\<close> bytes.
\<close>

definition codecs_lossless :: "codecs \<Rightarrow> bool" where
  "codecs_lossless cs \<longleftrightarrow>
     (lz4_enabled cs \<longrightarrow> (\<forall>p. lz4_block_decompress cs (lz4_block_compress cs p) (length p) = Some (Inr p))) \<and>
     (zstd_enabled cs \<longrightarrow> (\<forall>p z. zstd_encode_all cs p = Some (Inr z) \<longrightarrow>
        zstd_decoder_new cs z = Some (Inr ()) \<and> zstd_read_to_end cs z = Some (Inr p)))"

lemma payload_codec_roundtrip:
  assumes "codecs_lossless cs" and "encode_payload_for_codec cs p c = Ok raw" and "length p < 2 ^ 63"
  shows "payload_from_raw cs raw (of_nat (length raw)) (of_nat (length p)) c = Ok p"
proof -
  from assms(2) obtain codec where c: "CompressionCodec_from_u8 c = Some codec"
    by (auto simp: encode_payload_for_codec_def result_simps)
  have n: "unat (of_nat (length p) :: u64) = length p" using assms(3) by (intro unat_of_nat_less) simp
  show ?thesis
  proof (cases codec)
    case Codec_None
    then show ?thesis using assms(2) c by (simp add: encode_payload_for_codec_def payload_from_raw_def)
  next
    case Codec_Lz4
    then show ?thesis using assms(1,2) c n
      by (auto simp: encode_payload_for_codec_def payload_from_raw_def codecs_lossless_def lz4_compress_def
          lz4_decompress_def split: if_splits)
  next
    case Codec_Zstd
    then have "zstd_compress cs p = Ok raw" using assms(2) c by (simp add: encode_payload_for_codec_def)
    then have "zstd_enabled cs" "zstd_encode_all cs p = Some (Inr raw)"
      by (auto simp: zstd_compress_def split: if_splits)
    moreover from this assms(1) have "zstd_decoder_new cs raw = Some (Inr ())" "zstd_read_to_end cs raw = Some (Inr p)"
      by (auto simp: codecs_lossless_def)
    ultimately show ?thesis using c Codec_Zstd n assms(3)
      by (simp add: payload_from_raw_def zstd_decompress_def map_err_section_def vec_with_capacity_def)
  qed
qed

definition stored_codecs :: codecs where
  "stored_codecs = \<lparr>lz4_enabled = True, lz4_block_compress = (\<lambda>p. p),
     lz4_block_decompress = (\<lambda>z n. Some (if length z \<le> n then Inr z else Inl ''output too small'')),
     zstd_enabled = True, zstd_encode_all = (\<lambda>p. Some (Inr p)), zstd_decoder_new = (\<lambda>_. Some (Inr ())),
     zstd_read_to_end = (\<lambda>z. Some (Inr z))\<rparr>"

lemma stored_codecs_lossless: "codecs_lossless stored_codecs"
  by (simp add: codecs_lossless_def stored_codecs_def)

lemma stored_codecs_return: "codecs_return stored_codecs"
  by (simp add: codecs_return_def stored_codecs_def)

text \<open>
  For uncompressed and Zstd sections the payload handed out has the declared uncompressed length; for LZ4
  nothing checks it, and a shorter output of a correct decompressor is accepted (the library
  documents the length it is given as an upper bound for the output).
\<close>

theorem declared_length_unchecked_for_lz4:
  assumes "payload_from_raw cs raw (of_nat (length raw)) u c = Ok p" and "length raw < 2 ^ 64"
  shows "(CompressionCodec_from_u8 c = Some Codec_Lz4 \<or> length p = unat u)
     \<and> (\<exists>cs. codecs_lossless cs \<and> payload_from_raw cs [7, 8] 2 5 1 = Ok [7, 8])"
proof
  from assms obtain codec where c: "CompressionCodec_from_u8 c = Some codec"
    by (auto simp: payload_from_raw_def result_simps)
  show "CompressionCodec_from_u8 c = Some Codec_Lz4 \<or> length p = unat u"
  proof (cases codec)
    case Codec_None
    then show ?thesis using assms c by (auto simp: payload_from_raw_def unat_of_nat_less split: if_splits)
  next
    case Codec_Zstd
    then have "zstd_decompress cs raw u = Ok p" using assms c by (simp add: payload_from_raw_def)
    then show ?thesis by (auto simp: zstd_decompress_def Let_def result_simps split: if_splits)
  qed (use c in simp)
  show "\<exists>cs. codecs_lossless cs \<and> payload_from_raw cs [7, 8] 2 5 1 = Ok [7, 8]"
    by (intro exI [of _ stored_codecs] conjI stored_codecs_lossless)
       (simp add: payload_from_raw_def CompressionCodec_from_u8_def lz4_decompress_def stored_codecs_def map_err_section_def)
qed

lemma declared_length_unchecked_for_lz4_witness:
  "length ([7, 8] :: bytes) = unat (2 :: u64)"
  using declared_length_unchecked_for_lz4 [of stored_codecs "[7, 8]" 2 2 "[7, 8]"]
  by (simp add: payload_from_raw_def CompressionCodec_from_u8_def zstd_decompress_def stored_codecs_def map_err_section_def)

end
