(* ===== verification/Feature_Binding.thy ===== *)
theory Feature_Binding
  imports Crc_Record Constants "HOL-Library.Product_Lexorder"
begin

text \<open>
  Section-level feature bindings (\<open>feature_binding.rs\<close>): a section that ties words of extended
  feature bits to sections, pages, profiles or operations. A header locates four regions (bindings,
  payload references, feature words, payload data), which must not overlap; every record carries its
  own checksum.
\<close>

section \<open>Enumerations\<close>

datatype FeatureScopeV2 =
    FS_FileRequired
  | FS_SectionRequired
  | FS_PageRequired
  | FS_ProfileRequired
  | FS_OperationRequired
  | FS_AdvisoryOnly

primrec FeatureScopeV2_code :: "FeatureScopeV2 \<Rightarrow> u8" where
  "FeatureScopeV2_code FS_FileRequired = 0"
| "FeatureScopeV2_code FS_SectionRequired = 1"
| "FeatureScopeV2_code FS_PageRequired = 2"
| "FeatureScopeV2_code FS_ProfileRequired = 3"
| "FeatureScopeV2_code FS_OperationRequired = 4"
| "FeatureScopeV2_code FS_AdvisoryOnly = 5"

definition FeatureScopeV2_from_u8 :: "u8 \<Rightarrow> FeatureScopeV2 option" where
  "FeatureScopeV2_from_u8 v = map_of
     [(0, FS_FileRequired),
      (1, FS_SectionRequired),
      (2, FS_PageRequired),
      (3, FS_ProfileRequired),
      (4, FS_OperationRequired),
      (5, FS_AdvisoryOnly)] v"

interpretation featureScopeV2: wire_enum FeatureScopeV2_code FeatureScopeV2_from_u8
proof
  fix k show "FeatureScopeV2_from_u8 (FeatureScopeV2_code k) = Some k" by (cases k) (simp_all add: FeatureScopeV2_from_u8_def)
next
  fix v k assume "FeatureScopeV2_from_u8 v = Some k"
  then show "FeatureScopeV2_code k = v" by (auto simp: FeatureScopeV2_from_u8_def split: if_splits)
qed

datatype SectionFeatureBindingPayloadKindV2 =
    BPK_None
  | BPK_ProfileRequirement
  | BPK_OperationRequirement
  | BPK_PageRequirement
  | BPK_ExtensionRequirement
  | BPK_CodecRequirement
  | BPK_CoverageRequirement
  | BPK_IndexRequirement
  | BPK_RuntimeRequirement
  | BPK_VendorDefined

primrec SectionFeatureBindingPayloadKindV2_code :: "SectionFeatureBindingPayloadKindV2 \<Rightarrow> u16" where
  "SectionFeatureBindingPayloadKindV2_code BPK_None = 0"
| "SectionFeatureBindingPayloadKindV2_code BPK_ProfileRequirement = 1"
| "SectionFeatureBindingPayloadKindV2_code BPK_OperationRequirement = 2"
| "SectionFeatureBindingPayloadKindV2_code BPK_PageRequirement = 3"
| "SectionFeatureBindingPayloadKindV2_code BPK_ExtensionRequirement = 4"
| "SectionFeatureBindingPayloadKindV2_code BPK_CodecRequirement = 5"
| "SectionFeatureBindingPayloadKindV2_code BPK_CoverageRequirement = 6"
| "SectionFeatureBindingPayloadKindV2_code BPK_IndexRequirement = 7"
| "SectionFeatureBindingPayloadKindV2_code BPK_RuntimeRequirement = 8"
| "SectionFeatureBindingPayloadKindV2_code BPK_VendorDefined = 255"

definition SectionFeatureBindingPayloadKindV2_from_u16 :: "u16 \<Rightarrow> SectionFeatureBindingPayloadKindV2 option" where
  "SectionFeatureBindingPayloadKindV2_from_u16 v = map_of
     [(0, BPK_None),
      (1, BPK_ProfileRequirement),
      (2, BPK_OperationRequirement),
      (3, BPK_PageRequirement),
      (4, BPK_ExtensionRequirement),
      (5, BPK_CodecRequirement),
      (6, BPK_CoverageRequirement),
      (7, BPK_IndexRequirement),
      (8, BPK_RuntimeRequirement),
      (255, BPK_VendorDefined)] v"

interpretation sectionFeatureBindingPayloadKindV2: wire_enum SectionFeatureBindingPayloadKindV2_code SectionFeatureBindingPayloadKindV2_from_u16
proof
  fix k show "SectionFeatureBindingPayloadKindV2_from_u16 (SectionFeatureBindingPayloadKindV2_code k) = Some k" by (cases k) (simp_all add: SectionFeatureBindingPayloadKindV2_from_u16_def)
next
  fix v k assume "SectionFeatureBindingPayloadKindV2_from_u16 v = Some k"
  then show "SectionFeatureBindingPayloadKindV2_code k = v" by (auto simp: SectionFeatureBindingPayloadKindV2_from_u16_def split: if_splits)
qed

datatype OperationKindV2 =
    Op_None
  | Op_OrdinaryTableScan
  | Op_ObjectReconstruction
  | Op_MappingReplay
  | Op_MappingExplanation
  | Op_ProjectionReadback
  | Op_TrustVerification
  | Op_RedactionPolicyEvaluation
  | Op_HarborMount
  | Op_EngineExecutionMapping
  | Op_IndexOnlyAnswer
  | Op_CoveragePlanning
  | Op_ZeroCopyExport
  | Op_RuntimeAdapterSelection
  | Op_VendorDefined

primrec OperationKindV2_code :: "OperationKindV2 \<Rightarrow> u16" where
  "OperationKindV2_code Op_None = 0"
| "OperationKindV2_code Op_OrdinaryTableScan = 1"
| "OperationKindV2_code Op_ObjectReconstruction = 2"
| "OperationKindV2_code Op_MappingReplay = 3"
| "OperationKindV2_code Op_MappingExplanation = 4"
| "OperationKindV2_code Op_ProjectionReadback = 5"
| "OperationKindV2_code Op_TrustVerification = 6"
| "OperationKindV2_code Op_RedactionPolicyEvaluation = 7"
| "OperationKindV2_code Op_HarborMount = 8"
| "OperationKindV2_code Op_EngineExecutionMapping = 9"
| "OperationKindV2_code Op_IndexOnlyAnswer = 10"
| "OperationKindV2_code Op_CoveragePlanning = 11"
| "OperationKindV2_code Op_ZeroCopyExport = 12"
| "OperationKindV2_code Op_RuntimeAdapterSelection = 13"
| "OperationKindV2_code Op_VendorDefined = 255"

definition OperationKindV2_from_u16 :: "u16 \<Rightarrow> OperationKindV2 option" where
  "OperationKindV2_from_u16 v = map_of
     [(0, Op_None),
      (1, Op_OrdinaryTableScan),
      (2, Op_ObjectReconstruction),
      (3, Op_MappingReplay),
      (4, Op_MappingExplanation),
      (5, Op_ProjectionReadback),
      (6, Op_TrustVerification),
      (7, Op_RedactionPolicyEvaluation),
      (8, Op_HarborMount),
      (9, Op_EngineExecutionMapping),
      (10, Op_IndexOnlyAnswer),
      (11, Op_CoveragePlanning),
      (12, Op_ZeroCopyExport),
      (13, Op_RuntimeAdapterSelection),
      (255, Op_VendorDefined)] v"

interpretation operationKindV2: wire_enum OperationKindV2_code OperationKindV2_from_u16
proof
  fix k show "OperationKindV2_from_u16 (OperationKindV2_code k) = Some k" by (cases k) (simp_all add: OperationKindV2_from_u16_def)
next
  fix v k assume "OperationKindV2_from_u16 v = Some k"
  then show "OperationKindV2_code k = v" by (auto simp: OperationKindV2_from_u16_def split: if_splits)
qed

section \<open>Records\<close>

definition MAGIC_SECTION_FEATURE_BINDING :: bytes where
  "MAGIC_SECTION_FEATURE_BINDING = [0x53, 0x46, 0x42, 0x32]"

definition ABSENT_U32 :: u32 where "ABSENT_U32 = 0xFFFFFFFF"

definition SectionFeatureBindingV2_LEN :: usize where "SectionFeatureBindingV2_LEN = 56"

record SectionFeatureBindingV2 =
  fb_binding_id :: u32
  fb_section_id :: u32
  fb_scope :: FeatureScopeV2
  fb_profile :: u8
  fb_operation_kind :: OperationKindV2
  fb_required_word_count :: u32
  fb_optional_word_count :: u32
  fb_required_feature_word_index :: u32
  fb_optional_feature_word_index :: u32
  fb_required_first_feature_word_number :: u32
  fb_optional_first_feature_word_number :: u32
  fb_binding_payload_ref :: u32
  fb_target_local_ref :: u64
  fb_flags :: u32
  fb_checksum :: u32

definition SectionFeatureBindingV2_image :: "SectionFeatureBindingV2 \<Rightarrow> bytes" where
  "SectionFeatureBindingV2_image h =
     (let out = replicate SectionFeatureBindingV2_LEN 0;
          out = put 8 [FeatureScopeV2_code (fb_scope h)] out;
          out = put 10 (le_bytes 2 (OperationKindV2_code (fb_operation_kind h))) out;
          out = put 0 (le_bytes 4 (fb_binding_id h)) out;
          out = put 4 (le_bytes 4 (fb_section_id h)) out;
          out = put 9 [fb_profile h] out;
          out = put 12 (le_bytes 4 (fb_required_word_count h)) out;
          out = put 16 (le_bytes 4 (fb_optional_word_count h)) out;
          out = put 20 (le_bytes 4 (fb_required_feature_word_index h)) out;
          out = put 24 (le_bytes 4 (fb_optional_feature_word_index h)) out;
          out = put 28 (le_bytes 4 (fb_required_first_feature_word_number h)) out;
          out = put 32 (le_bytes 4 (fb_optional_first_feature_word_number h)) out;
          out = put 36 (le_bytes 4 (fb_binding_payload_ref h)) out;
          out = put 40 (le_bytes 8 (fb_target_local_ref h)) out;
          out = put 48 (le_bytes 4 (fb_flags h)) out
      in out)"

definition SectionFeatureBindingV2_serialize :: "(bytes \<Rightarrow> u32) \<Rightarrow> SectionFeatureBindingV2 \<Rightarrow> bytes" where
  "SectionFeatureBindingV2_serialize crc h = seal crc 52 (SectionFeatureBindingV2_image h)"

lemma length_SectionFeatureBindingV2_image [simp]: "length (SectionFeatureBindingV2_image h) = 56"
  by (simp add: SectionFeatureBindingV2_image_def SectionFeatureBindingV2_LEN_def Let_def)

lemma length_SectionFeatureBindingV2_serialize [simp]: "length (SectionFeatureBindingV2_serialize crc h) = 56"
  by (simp add: SectionFeatureBindingV2_serialize_def)

lemma SectionFeatureBindingV2_image_fields:
  "SectionFeatureBindingV2_image h ! 8 = FeatureScopeV2_code (fb_scope h)"
  "u16_at (SectionFeatureBindingV2_image h) 10 = (OperationKindV2_code (fb_operation_kind h))"
  "u32_at (SectionFeatureBindingV2_image h) 0 = fb_binding_id h"
  "u32_at (SectionFeatureBindingV2_image h) 4 = fb_section_id h"
  "SectionFeatureBindingV2_image h ! 9 = fb_profile h"
  "u32_at (SectionFeatureBindingV2_image h) 12 = fb_required_word_count h"
  "u32_at (SectionFeatureBindingV2_image h) 16 = fb_optional_word_count h"
  "u32_at (SectionFeatureBindingV2_image h) 20 = fb_required_feature_word_index h"
  "u32_at (SectionFeatureBindingV2_image h) 24 = fb_optional_feature_word_index h"
  "u32_at (SectionFeatureBindingV2_image h) 28 = fb_required_first_feature_word_number h"
  "u32_at (SectionFeatureBindingV2_image h) 32 = fb_optional_first_feature_word_number h"
  "u32_at (SectionFeatureBindingV2_image h) 36 = fb_binding_payload_ref h"
  "u64_at (SectionFeatureBindingV2_image h) 40 = fb_target_local_ref h"
  "u32_at (SectionFeatureBindingV2_image h) 48 = fb_flags h"
  "slice 52 4 (SectionFeatureBindingV2_image h) = replicate 4 0"
  by (simp_all add: SectionFeatureBindingV2_image_def SectionFeatureBindingV2_LEN_def Let_def wire_simps)

definition SectionFeatureBindingV2_parse :: "(bytes \<Rightarrow> u32) \<Rightarrow> bytes \<Rightarrow> SectionFeatureBindingV2 result" where
  "SectionFeatureBindingV2_parse crc bs =
     (if length bs < SectionFeatureBindingV2_LEN then Err BufferTooShort
      else
      and_then (read_u8 bs 8) (\<lambda>scope_raw.
      and_then (ok_or (FeatureScopeV2_from_u8 scope_raw) (BadSection ''unknown feature binding scope'')) (\<lambda>scope.
      and_then (read_u16 bs 10) (\<lambda>operation_kind_raw.
      and_then (ok_or (OperationKindV2_from_u16 operation_kind_raw) (BadSection ''unknown operation kind'')) (\<lambda>operation_kind.
      and_then (read_u32 bs 0) (\<lambda>binding_id.
      and_then (read_u32 bs 4) (\<lambda>section_id.
      and_then (read_u8 bs 9) (\<lambda>profile.
      and_then (read_u32 bs 12) (\<lambda>required_word_count.
      and_then (read_u32 bs 16) (\<lambda>optional_word_count.
      and_then (read_u32 bs 20) (\<lambda>required_feature_word_index.
      and_then (read_u32 bs 24) (\<lambda>optional_feature_word_index.
      and_then (read_u32 bs 28) (\<lambda>required_first_feature_word_number.
      and_then (read_u32 bs 32) (\<lambda>optional_first_feature_word_number.
      and_then (read_u32 bs 36) (\<lambda>binding_payload_ref.
      and_then (read_u64 bs 40) (\<lambda>target_local_ref.
      and_then (read_u32 bs 48) (\<lambda>flags.
      and_then (read_u32 bs 52) (\<lambda>checksum.
      let r = \<lparr>fb_binding_id = binding_id,
         fb_section_id = section_id,
         fb_scope = scope,
         fb_profile = profile,
         fb_operation_kind = operation_kind,
         fb_required_word_count = required_word_count,
         fb_optional_word_count = optional_word_count,
         fb_required_feature_word_index = required_feature_word_index,
         fb_optional_feature_word_index = optional_feature_word_index,
         fb_required_first_feature_word_number = required_first_feature_word_number,
         fb_optional_first_feature_word_number = optional_first_feature_word_number,
         fb_binding_payload_ref = binding_payload_ref,
         fb_target_local_ref = target_local_ref,
         fb_flags = flags,
         fb_checksum = checksum\<rparr> in
      and_then (verify_crc crc (slice 0 SectionFeatureBindingV2_LEN bs) 52 checksum) (\<lambda>_.
      Ok r)))))))))))))))))))"

lemma SectionFeatureBindingV2_roundtrip:
  shows "SectionFeatureBindingV2_parse crc (SectionFeatureBindingV2_serialize crc h @ rest) = Ok (h\<lparr>fb_checksum := crc (SectionFeatureBindingV2_image h)\<rparr>)"
proof -
  note f = SectionFeatureBindingV2_image_fields [of h]
  have v: "verify_crc crc (seal crc 52 (SectionFeatureBindingV2_image h)) 52 (crc (SectionFeatureBindingV2_image h)) = Ok ()"
    by (rule verify_crc_seal) (simp_all add: f)
  have eta: "\<lparr>fb_binding_id = fb_binding_id h, fb_section_id = fb_section_id h, fb_scope = fb_scope h, fb_profile = fb_profile h, fb_operation_kind = fb_operation_kind h, fb_required_word_count = fb_required_word_count h, fb_optional_word_count = fb_optional_word_count h, fb_required_feature_word_index = fb_required_feature_word_index h, fb_optional_feature_word_index = fb_optional_feature_word_index h, fb_required_first_feature_word_number = fb_required_first_feature_word_number h, fb_optional_first_feature_word_number = fb_optional_first_feature_word_number h, fb_binding_payload_ref = fb_binding_payload_ref h, fb_target_local_ref = fb_target_local_ref h, fb_flags = fb_flags h, fb_checksum = c\<rparr> =
      h\<lparr>fb_checksum := c\<rparr>" for c by (cases h) simp
  show ?thesis using f
    by (simp add: SectionFeatureBindingV2_parse_def SectionFeatureBindingV2_LEN_def SectionFeatureBindingV2_serialize_def Let_def nth_append wire_simps f v eta
        featureScopeV2.decode_code operationKindV2.decode_code )
qed

definition SectionFeatureBindingPayloadRefV2_LEN :: usize where "SectionFeatureBindingPayloadRefV2_LEN = 32"

record SectionFeatureBindingPayloadRefV2 =
  pr_binding_payload_ref :: u32
  pr_payload_kind :: SectionFeatureBindingPayloadKindV2
  pr_operation_kind :: OperationKindV2
  pr_profile :: u8
  pr_flags :: u8
  pr_reserved :: u16
  pr_payload_offset :: u64
  pr_payload_length :: u64
  pr_checksum :: u32

definition SectionFeatureBindingPayloadRefV2_image :: "SectionFeatureBindingPayloadRefV2 \<Rightarrow> bytes" where
  "SectionFeatureBindingPayloadRefV2_image h =
     (let out = replicate SectionFeatureBindingPayloadRefV2_LEN 0;
          out = put 4 (le_bytes 2 (SectionFeatureBindingPayloadKindV2_code (pr_payload_kind h))) out;
          out = put 6 (le_bytes 2 (OperationKindV2_code (pr_operation_kind h))) out;
          out = put 0 (le_bytes 4 (pr_binding_payload_ref h)) out;
          out = put 8 [pr_profile h] out;
          out = put 9 [pr_flags h] out;
          out = put 10 (le_bytes 2 (pr_reserved h)) out;
          out = put 12 (le_bytes 8 (pr_payload_offset h)) out;
          out = put 20 (le_bytes 8 (pr_payload_length h)) out
      in out)"

definition SectionFeatureBindingPayloadRefV2_sealed :: "(bytes \<Rightarrow> u32) \<Rightarrow> SectionFeatureBindingPayloadRefV2 \<Rightarrow> bytes" where
  "SectionFeatureBindingPayloadRefV2_sealed crc h = seal crc 28 (SectionFeatureBindingPayloadRefV2_image h)"

lemma length_SectionFeatureBindingPayloadRefV2_image [simp]: "length (SectionFeatureBindingPayloadRefV2_image h) = 32"
  by (simp add: SectionFeatureBindingPayloadRefV2_image_def SectionFeatureBindingPayloadRefV2_LEN_def Let_def)

lemma length_SectionFeatureBindingPayloadRefV2_sealed [simp]: "length (SectionFeatureBindingPayloadRefV2_sealed crc h) = 32"
  by (simp add: SectionFeatureBindingPayloadRefV2_sealed_def)

lemma SectionFeatureBindingPayloadRefV2_image_fields:
  "u16_at (SectionFeatureBindingPayloadRefV2_image h) 4 = (SectionFeatureBindingPayloadKindV2_code (pr_payload_kind h))"
  "u16_at (SectionFeatureBindingPayloadRefV2_image h) 6 = (OperationKindV2_code (pr_operation_kind h))"
  "u32_at (SectionFeatureBindingPayloadRefV2_image h) 0 = pr_binding_payload_ref h"
  "SectionFeatureBindingPayloadRefV2_image h ! 8 = pr_profile h"
  "SectionFeatureBindingPayloadRefV2_image h ! 9 = pr_flags h"
  "u16_at (SectionFeatureBindingPayloadRefV2_image h) 10 = pr_reserved h"
  "u64_at (SectionFeatureBindingPayloadRefV2_image h) 12 = pr_payload_offset h"
  "u64_at (SectionFeatureBindingPayloadRefV2_image h) 20 = pr_payload_length h"
  "slice 28 4 (SectionFeatureBindingPayloadRefV2_image h) = replicate 4 0"
  by (simp_all add: SectionFeatureBindingPayloadRefV2_image_def SectionFeatureBindingPayloadRefV2_LEN_def Let_def wire_simps)

text \<open>The test made before the checksum is verified.\<close>

definition SectionFeatureBindingPayloadRefV2_check :: "SectionFeatureBindingPayloadRefV2 \<Rightarrow> unit result" where
  "SectionFeatureBindingPayloadRefV2_check h =
     (if pr_reserved h \<noteq> 0 then Err ReservedNotZero
      else Ok ())"

lemma SectionFeatureBindingPayloadRefV2_check_checksum [simp]: "SectionFeatureBindingPayloadRefV2_check (h\<lparr>pr_checksum := c\<rparr>) = SectionFeatureBindingPayloadRefV2_check h"
  by (simp add: SectionFeatureBindingPayloadRefV2_check_def)

definition SectionFeatureBindingPayloadRefV2_serialize :: "(bytes \<Rightarrow> u32) \<Rightarrow> SectionFeatureBindingPayloadRefV2 \<Rightarrow> bytes result" where
  "SectionFeatureBindingPayloadRefV2_serialize crc h =
     (if pr_reserved h \<noteq> 0 then Err ReservedNotZero else Ok (SectionFeatureBindingPayloadRefV2_sealed crc h))"

definition SectionFeatureBindingPayloadRefV2_parse :: "(bytes \<Rightarrow> u32) \<Rightarrow> bytes \<Rightarrow> SectionFeatureBindingPayloadRefV2 result" where
  "SectionFeatureBindingPayloadRefV2_parse crc bs =
     (if length bs < SectionFeatureBindingPayloadRefV2_LEN then Err BufferTooShort
      else
      and_then (read_u16 bs 4) (\<lambda>payload_kind_raw.
      and_then (ok_or (SectionFeatureBindingPayloadKindV2_from_u16 payload_kind_raw) (BadSection ''unknown SECTION_FEATURE_BINDING payload kind'')) (\<lambda>payload_kind.
      and_then (read_u16 bs 6) (\<lambda>operation_kind_raw.
      and_then (ok_or (OperationKindV2_from_u16 operation_kind_raw) (BadSection ''unknown SECTION_FEATURE_BINDING operation kind'')) (\<lambda>operation_kind.
      and_then (read_u32 bs 0) (\<lambda>binding_payload_ref.
      and_then (read_u8 bs 8) (\<lambda>profile.
      and_then (read_u8 bs 9) (\<lambda>flags.
      and_then (read_u16 bs 10) (\<lambda>reserved.
      and_then (read_u64 bs 12) (\<lambda>payload_offset.
      and_then (read_u64 bs 20) (\<lambda>payload_length.
      and_then (read_u32 bs 28) (\<lambda>checksum.
      let r = \<lparr>pr_binding_payload_ref = binding_payload_ref,
         pr_payload_kind = payload_kind,
         pr_operation_kind = operation_kind,
         pr_profile = profile,
         pr_flags = flags,
         pr_reserved = reserved,
         pr_payload_offset = payload_offset,
         pr_payload_length = payload_length,
         pr_checksum = checksum\<rparr> in
      and_then (SectionFeatureBindingPayloadRefV2_check r) (\<lambda>_.
      and_then (verify_crc crc (slice 0 SectionFeatureBindingPayloadRefV2_LEN bs) 28 checksum) (\<lambda>_.
      Ok r))))))))))))))"

lemma SectionFeatureBindingPayloadRefV2_roundtrip:
  assumes "SectionFeatureBindingPayloadRefV2_check (h\<lparr>pr_checksum := crc (SectionFeatureBindingPayloadRefV2_image h)\<rparr>) = Ok ()"
  shows "SectionFeatureBindingPayloadRefV2_parse crc (SectionFeatureBindingPayloadRefV2_sealed crc h @ rest) = Ok (h\<lparr>pr_checksum := crc (SectionFeatureBindingPayloadRefV2_image h)\<rparr>)"
proof -
  note f = SectionFeatureBindingPayloadRefV2_image_fields [of h]
  have v: "verify_crc crc (seal crc 28 (SectionFeatureBindingPayloadRefV2_image h)) 28 (crc (SectionFeatureBindingPayloadRefV2_image h)) = Ok ()"
    by (rule verify_crc_seal) (simp_all add: f)
  have eta: "\<lparr>pr_binding_payload_ref = pr_binding_payload_ref h, pr_payload_kind = pr_payload_kind h, pr_operation_kind = pr_operation_kind h, pr_profile = pr_profile h, pr_flags = pr_flags h, pr_reserved = pr_reserved h, pr_payload_offset = pr_payload_offset h, pr_payload_length = pr_payload_length h, pr_checksum = c\<rparr> =
      h\<lparr>pr_checksum := c\<rparr>" for c by (cases h) simp
  show ?thesis using assms
    by (simp add: SectionFeatureBindingPayloadRefV2_parse_def SectionFeatureBindingPayloadRefV2_LEN_def SectionFeatureBindingPayloadRefV2_sealed_def Let_def nth_append wire_simps f v eta
        operationKindV2.decode_code sectionFeatureBindingPayloadKindV2.decode_code )
qed

definition SectionFeatureBindingSectionHeaderV2_LEN :: usize where "SectionFeatureBindingSectionHeaderV2_LEN = 72"

record SectionFeatureBindingSectionHeaderV2 =
  sfb_magic :: bytes
  sfb_version_major :: u16
  sfb_version_minor :: u16
  sfb_header_len :: u16
  sfb_entry_len :: u16
  sfb_binding_count :: u32
  sfb_payload_ref_count :: u32
  sfb_feature_word_count :: u32
  sfb_bindings_offset :: u64
  sfb_payload_refs_offset :: u64
  sfb_feature_words_offset :: u64
  sfb_payload_data_offset :: u64
  sfb_payload_data_length :: u64
  sfb_flags :: u32
  sfb_checksum :: u32

definition SectionFeatureBindingSectionHeaderV2_image :: "SectionFeatureBindingSectionHeaderV2 \<Rightarrow> bytes" where
  "SectionFeatureBindingSectionHeaderV2_image h =
     (let out = replicate SectionFeatureBindingSectionHeaderV2_LEN 0;
          out = put 0 (sfb_magic h) out;
          out = put 4 (le_bytes 2 (sfb_version_major h)) out;
          out = put 6 (le_bytes 2 (sfb_version_minor h)) out;
          out = put 8 (le_bytes 2 (sfb_header_len h)) out;
          out = put 10 (le_bytes 2 (sfb_entry_len h)) out;
          out = put 12 (le_bytes 4 (sfb_binding_count h)) out;
          out = put 16 (le_bytes 4 (sfb_payload_ref_count h)) out;
          out = put 20 (le_bytes 4 (sfb_feature_word_count h)) out;
          out = put 24 (le_bytes 8 (sfb_bindings_offset h)) out;
          out = put 32 (le_bytes 8 (sfb_payload_refs_offset h)) out;
          out = put 40 (le_bytes 8 (sfb_feature_words_offset h)) out;
          out = put 48 (le_bytes 8 (sfb_payload_data_offset h)) out;
          out = put 56 (le_bytes 8 (sfb_payload_data_length h)) out;
          out = put 64 (le_bytes 4 (sfb_flags h)) out
      in out)"

definition SectionFeatureBindingSectionHeaderV2_serialize :: "(bytes \<Rightarrow> u32) \<Rightarrow> SectionFeatureBindingSectionHeaderV2 \<Rightarrow> bytes" where
  "SectionFeatureBindingSectionHeaderV2_serialize crc h = seal crc 68 (SectionFeatureBindingSectionHeaderV2_image h)"

lemma length_SectionFeatureBindingSectionHeaderV2_image [simp]: "length (SectionFeatureBindingSectionHeaderV2_image h) = 72"
  by (simp add: SectionFeatureBindingSectionHeaderV2_image_def SectionFeatureBindingSectionHeaderV2_LEN_def Let_def)

lemma length_SectionFeatureBindingSectionHeaderV2_serialize [simp]: "length (SectionFeatureBindingSectionHeaderV2_serialize crc h) = 72"
  by (simp add: SectionFeatureBindingSectionHeaderV2_serialize_def)

lemma SectionFeatureBindingSectionHeaderV2_image_fields:
  assumes "length (sfb_magic h) = 4"
  shows
  "slice 0 4 (SectionFeatureBindingSectionHeaderV2_image h) = sfb_magic h"
  "u16_at (SectionFeatureBindingSectionHeaderV2_image h) 4 = sfb_version_major h"
  "u16_at (SectionFeatureBindingSectionHeaderV2_image h) 6 = sfb_version_minor h"
  "u16_at (SectionFeatureBindingSectionHeaderV2_image h) 8 = sfb_header_len h"
  "u16_at (SectionFeatureBindingSectionHeaderV2_image h) 10 = sfb_entry_len h"
  "u32_at (SectionFeatureBindingSectionHeaderV2_image h) 12 = sfb_binding_count h"
  "u32_at (SectionFeatureBindingSectionHeaderV2_image h) 16 = sfb_payload_ref_count h"
  "u32_at (SectionFeatureBindingSectionHeaderV2_image h) 20 = sfb_feature_word_count h"
  "u64_at (SectionFeatureBindingSectionHeaderV2_image h) 24 = sfb_bindings_offset h"
  "u64_at (SectionFeatureBindingSectionHeaderV2_image h) 32 = sfb_payload_refs_offset h"
  "u64_at (SectionFeatureBindingSectionHeaderV2_image h) 40 = sfb_feature_words_offset h"
  "u64_at (SectionFeatureBindingSectionHeaderV2_image h) 48 = sfb_payload_data_offset h"
  "u64_at (SectionFeatureBindingSectionHeaderV2_image h) 56 = sfb_payload_data_length h"
  "u32_at (SectionFeatureBindingSectionHeaderV2_image h) 64 = sfb_flags h"
  "slice 68 4 (SectionFeatureBindingSectionHeaderV2_image h) = replicate 4 0"
  using assms by (simp_all add: SectionFeatureBindingSectionHeaderV2_image_def SectionFeatureBindingSectionHeaderV2_LEN_def Let_def wire_simps)

definition SectionFeatureBindingSectionHeaderV2_check :: "SectionFeatureBindingSectionHeaderV2 \<Rightarrow> unit result" where
  "SectionFeatureBindingSectionHeaderV2_check h =
     (if sfb_magic h \<noteq> MAGIC_SECTION_FEATURE_BINDING then Err BadMagic
      else if sfb_version_major h \<noteq> 2 then Err BadVersion
      else if unat (sfb_header_len h) \<noteq> SectionFeatureBindingSectionHeaderV2_LEN then Err (BadSection ''SECTION_FEATURE_BINDING header_len mismatch'')
      else if unat (sfb_entry_len h) \<noteq> SectionFeatureBindingV2_LEN then Err (BadSection ''SECTION_FEATURE_BINDING entry_len mismatch'')
      else Ok ())"

lemma SectionFeatureBindingSectionHeaderV2_check_checksum [simp]: "SectionFeatureBindingSectionHeaderV2_check (h\<lparr>sfb_checksum := c\<rparr>) = SectionFeatureBindingSectionHeaderV2_check h"
  by (simp add: SectionFeatureBindingSectionHeaderV2_check_def)

definition SectionFeatureBindingSectionHeaderV2_parse :: "(bytes \<Rightarrow> u32) \<Rightarrow> bytes \<Rightarrow> SectionFeatureBindingSectionHeaderV2 result" where
  "SectionFeatureBindingSectionHeaderV2_parse crc bs =
     (if length bs < SectionFeatureBindingSectionHeaderV2_LEN then Err BufferTooShort
      else
      and_then (read_array bs 0 4) (\<lambda>magic.
      and_then (read_u16 bs 4) (\<lambda>version_major.
      and_then (read_u16 bs 6) (\<lambda>version_minor.
      and_then (read_u16 bs 8) (\<lambda>header_len.
      and_then (read_u16 bs 10) (\<lambda>entry_len.
      and_then (read_u32 bs 12) (\<lambda>binding_count.
      and_then (read_u32 bs 16) (\<lambda>payload_ref_count.
      and_then (read_u32 bs 20) (\<lambda>feature_word_count.
      and_then (read_u64 bs 24) (\<lambda>bindings_offset.
      and_then (read_u64 bs 32) (\<lambda>payload_refs_offset.
      and_then (read_u64 bs 40) (\<lambda>feature_words_offset.
      and_then (read_u64 bs 48) (\<lambda>payload_data_offset.
      and_then (read_u64 bs 56) (\<lambda>payload_data_length.
      and_then (read_u32 bs 64) (\<lambda>flags.
      and_then (read_u32 bs 68) (\<lambda>checksum.
      let r = \<lparr>sfb_magic = magic,
         sfb_version_major = version_major,
         sfb_version_minor = version_minor,
         sfb_header_len = header_len,
         sfb_entry_len = entry_len,
         sfb_binding_count = binding_count,
         sfb_payload_ref_count = payload_ref_count,
         sfb_feature_word_count = feature_word_count,
         sfb_bindings_offset = bindings_offset,
         sfb_payload_refs_offset = payload_refs_offset,
         sfb_feature_words_offset = feature_words_offset,
         sfb_payload_data_offset = payload_data_offset,
         sfb_payload_data_length = payload_data_length,
         sfb_flags = flags,
         sfb_checksum = checksum\<rparr> in
      and_then (SectionFeatureBindingSectionHeaderV2_check r) (\<lambda>_.
      and_then (verify_crc crc (slice 0 SectionFeatureBindingSectionHeaderV2_LEN bs) 68 checksum) (\<lambda>_.
      Ok r))))))))))))))))))"

lemma SectionFeatureBindingSectionHeaderV2_roundtrip:
  assumes "length (sfb_magic h) = 4" and "SectionFeatureBindingSectionHeaderV2_check (h\<lparr>sfb_checksum := crc (SectionFeatureBindingSectionHeaderV2_image h)\<rparr>) = Ok ()"
  shows "SectionFeatureBindingSectionHeaderV2_parse crc (SectionFeatureBindingSectionHeaderV2_serialize crc h @ rest) = Ok (h\<lparr>sfb_checksum := crc (SectionFeatureBindingSectionHeaderV2_image h)\<rparr>)"
proof -
  note f = SectionFeatureBindingSectionHeaderV2_image_fields [OF assms(1)]
  have v: "verify_crc crc (seal crc 68 (SectionFeatureBindingSectionHeaderV2_image h)) 68 (crc (SectionFeatureBindingSectionHeaderV2_image h)) = Ok ()"
    by (rule verify_crc_seal) (simp_all add: f)
  have eta: "\<lparr>sfb_magic = sfb_magic h, sfb_version_major = sfb_version_major h, sfb_version_minor = sfb_version_minor h, sfb_header_len = sfb_header_len h, sfb_entry_len = sfb_entry_len h, sfb_binding_count = sfb_binding_count h, sfb_payload_ref_count = sfb_payload_ref_count h, sfb_feature_word_count = sfb_feature_word_count h, sfb_bindings_offset = sfb_bindings_offset h, sfb_payload_refs_offset = sfb_payload_refs_offset h, sfb_feature_words_offset = sfb_feature_words_offset h, sfb_payload_data_offset = sfb_payload_data_offset h, sfb_payload_data_length = sfb_payload_data_length h, sfb_flags = sfb_flags h, sfb_checksum = c\<rparr> =
      h\<lparr>sfb_checksum := c\<rparr>" for c by (cases h) simp
  show ?thesis using assms
    by (simp add: SectionFeatureBindingSectionHeaderV2_parse_def SectionFeatureBindingSectionHeaderV2_LEN_def SectionFeatureBindingSectionHeaderV2_serialize_def Let_def nth_append wire_simps f v eta
         )
qed

section \<open>Sections\<close>

record SectionFeatureBindingSectionV2 =
  sb_header :: SectionFeatureBindingSectionHeaderV2
  sb_bindings :: "SectionFeatureBindingV2 list"
  sb_payload_refs :: "SectionFeatureBindingPayloadRefV2 list"
  sb_feature_words :: "u64 list"
  sb_payload_data :: bytes

definition checked_range :: "u64 \<Rightarrow> u64 \<Rightarrow> usize \<Rightarrow> (usize \<times> usize) result" where
  "checked_range offset length' len =
     and_then (checked_add (unat offset) (unat length')) (\<lambda>end'.
     if unat offset < SectionFeatureBindingSectionHeaderV2_LEN \<or> end' > len then Err OffsetRange
     else Ok (unat offset, end'))"

definition optional_range :: "u64 \<Rightarrow> u64 \<Rightarrow> usize \<Rightarrow> (usize \<times> usize) result" where
  "optional_range offset length' len =
     (if length' = 0 then (if offset \<noteq> 0 then Err OffsetRange else Ok (0, 0))
      else checked_range offset length' len)"

text \<open>The four regions: bindings, payload references, feature words, payload data.\<close>

definition section_ranges :: "SectionFeatureBindingSectionHeaderV2 \<Rightarrow> usize \<Rightarrow> (usize \<times> usize) list result" where
  "section_ranges h len =
     and_then (checked_mul_u32 (sfb_binding_count h) SectionFeatureBindingV2_LEN) (\<lambda>binding_len.
     and_then (checked_mul_u32 (sfb_payload_ref_count h) SectionFeatureBindingPayloadRefV2_LEN) (\<lambda>payload_ref_len.
     and_then (checked_mul_u32 (sfb_feature_word_count h) 8) (\<lambda>feature_word_len.
     and_then (checked_range (sfb_bindings_offset h) (ucast binding_len) len) (\<lambda>r0.
     and_then (optional_range (sfb_payload_refs_offset h) (ucast payload_ref_len) len) (\<lambda>r1.
     and_then (optional_range (sfb_feature_words_offset h) (ucast feature_word_len) len) (\<lambda>r2.
     and_then (optional_range (sfb_payload_data_offset h) (sfb_payload_data_length h) len) (\<lambda>r3.
     Ok [r0, r1, r2, r3])))))))"

fun ranges_apart :: "(usize \<times> usize) list \<Rightarrow> unit result" where
  "ranges_apart (a # b # rs) = (if snd a > fst b then Err OffsetRange else ranges_apart (b # rs))"
| "ranges_apart rs = Ok ()"

definition ensure_non_overlapping :: "(usize \<times> usize) list \<Rightarrow> unit result" where
  "ensure_non_overlapping ranges = ranges_apart (sort (filter (\<lambda>(start, end'). start \<noteq> end') ranges))"

definition validate_word_range :: "u32 \<Rightarrow> u32 \<Rightarrow> u32 \<Rightarrow> usize \<Rightarrow> unit result" where
  "validate_word_range word_count local_index first_word_number feature_word_count =
     (if word_count = 0
      then (if local_index \<noteq> ABSENT_U32 \<or> first_word_number \<noteq> ABSENT_U32
            then Err (BadSection ''empty feature-word binding must use absent sentinels'') else Ok ())
      else if local_index = ABSENT_U32 \<or> first_word_number = ABSENT_U32
      then Err (BadSection ''non-empty feature-word binding missing local/global word reference'')
      else if first_word_number = 0
      then Err (BadSection ''SECTION_FEATURE_BINDING must not bind global feature word 0'')
      else and_then (checked_add_u32 local_index word_count) (\<lambda>end'.
           if unat end' > feature_word_count then Err OffsetRange else Ok ()))"

definition validate_binding :: "SectionFeatureBindingV2 \<Rightarrow> usize \<Rightarrow> usize \<Rightarrow> unit result" where
  "validate_binding b payload_ref_count feature_word_count =
     (if fb_scope b \<noteq> FS_OperationRequired \<and> fb_operation_kind b \<noteq> Op_None
      then Err (BadSection ''operation_kind is only valid for OperationRequired bindings'')
      else if fb_scope b = FS_OperationRequired \<and> fb_operation_kind b = Op_None
      then Err (BadSection ''OperationRequired binding requires operation_kind'')
      else if unat (fb_binding_payload_ref b) > payload_ref_count
      then Err (BadSection ''SECTION_FEATURE_BINDING binding_payload_ref out of range'')
      else and_then (validate_word_range (fb_required_word_count b) (fb_required_feature_word_index b)
                      (fb_required_first_feature_word_number b) feature_word_count) (\<lambda>_.
           validate_word_range (fb_optional_word_count b) (fb_optional_feature_word_index b)
                      (fb_optional_first_feature_word_number b) feature_word_count))"

fun bindings_loop :: "usize \<Rightarrow> u32 set \<Rightarrow> usize \<Rightarrow> usize \<Rightarrow> SectionFeatureBindingV2 list \<Rightarrow> unit result" where
  "bindings_loop index binding_ids refs words [] = Ok ()"
| "bindings_loop index binding_ids refs words (b # bs) =
     (if unat (fb_binding_id b) \<noteq> index \<or> fb_binding_id b \<in> binding_ids
      then Err (BadSection ''SECTION_FEATURE_BINDING binding_id is not dense and unique'')
      else and_then (validate_binding b refs words) (\<lambda>_.
           bindings_loop (Suc index) (insert (fb_binding_id b) binding_ids) refs words bs))"

fun payload_refs_loop :: "u32 set \<Rightarrow> usize \<Rightarrow> usize \<Rightarrow> SectionFeatureBindingPayloadRefV2 list \<Rightarrow> unit result" where
  "payload_refs_loop ids refs data_len [] = Ok ()"
| "payload_refs_loop ids refs data_len (r # rs) =
     (if pr_binding_payload_ref r = 0 \<or> unat (pr_binding_payload_ref r) > refs \<or> pr_binding_payload_ref r \<in> ids
      then Err (BadSection ''SECTION_FEATURE_BINDING payload refs are not dense and unique'')
      else and_then (checked_add (unat (pr_payload_offset r)) (unat (pr_payload_length r))) (\<lambda>end'.
        if end' > data_len then Err OffsetRange
        else if pr_operation_kind r \<noteq> Op_None \<and> pr_payload_kind r \<noteq> BPK_OperationRequirement
        then Err (BadSection ''operation_kind requires an operation payload kind'')
        else payload_refs_loop (insert (pr_binding_payload_ref r) ids) refs data_len rs))"

definition SectionFeatureBindingSectionV2_validate :: "SectionFeatureBindingSectionV2 \<Rightarrow> unit result" where
  "SectionFeatureBindingSectionV2_validate s =
     (if unat (sfb_binding_count (sb_header s)) \<noteq> length (sb_bindings s)
         \<or> unat (sfb_payload_ref_count (sb_header s)) \<noteq> length (sb_payload_refs s)
         \<or> unat (sfb_feature_word_count (sb_header s)) \<noteq> length (sb_feature_words s)
      then Err (BadSection ''SECTION_FEATURE_BINDING count mismatch'')
      else and_then (bindings_loop 0 {} (length (sb_payload_refs s)) (length (sb_feature_words s)) (sb_bindings s)) (\<lambda>_.
           payload_refs_loop {} (length (sb_payload_refs s)) (length (sb_payload_data s)) (sb_payload_refs s)))"

text \<open>\<open>bytes[range.0..range.1]\<close>, which panics unless \<open>range.0 <= range.1 <= bytes.len()\<close>.\<close>

definition index_range :: "bytes \<Rightarrow> usize \<times> usize \<Rightarrow> bytes result" where
  "index_range bs r = (if fst r \<le> snd r \<and> snd r \<le> length bs then Ok (slice (fst r) (snd r - fst r) bs) else Panic)"

definition SectionFeatureBindingSectionV2_parse :: "(bytes \<Rightarrow> u32) \<Rightarrow> bytes \<Rightarrow> SectionFeatureBindingSectionV2 result" where
  "SectionFeatureBindingSectionV2_parse crc bs =
     and_then (SectionFeatureBindingSectionHeaderV2_parse crc bs) (\<lambda>header.
     and_then (section_ranges header (length bs)) (\<lambda>ranges.
     and_then (ensure_non_overlapping ranges) (\<lambda>_.
     and_then (index_range bs (ranges ! 0)) (\<lambda>binding_bytes.
     and_then (collect_map (SectionFeatureBindingV2_parse crc) (chunks_exact SectionFeatureBindingV2_LEN binding_bytes)) (\<lambda>bindings.
     and_then (index_range bs (ranges ! 1)) (\<lambda>ref_bytes.
     and_then (collect_map (SectionFeatureBindingPayloadRefV2_parse crc) (chunks_exact SectionFeatureBindingPayloadRefV2_LEN ref_bytes)) (\<lambda>payload_refs.
     and_then (index_range bs (ranges ! 2)) (\<lambda>word_bytes.
     and_then (index_range bs (ranges ! 3)) (\<lambda>payload_data.
     let s = \<lparr>sb_header = header, sb_bindings = bindings, sb_payload_refs = payload_refs,
              sb_feature_words = map from_le (chunks_exact 8 word_bytes), sb_payload_data = payload_data\<rparr> in
     and_then (SectionFeatureBindingSectionV2_validate s) (\<lambda>_. Ok s))))))))))"

definition binding_section_header :: "SectionFeatureBindingSectionV2 \<Rightarrow> SectionFeatureBindingSectionHeaderV2" where
  "binding_section_header s =
     (let bindings_offset = SectionFeatureBindingSectionHeaderV2_LEN;
          payload_refs_offset = bindings_offset + length (sb_bindings s) * SectionFeatureBindingV2_LEN;
          feature_words_offset = payload_refs_offset + length (sb_payload_refs s) * SectionFeatureBindingPayloadRefV2_LEN;
          payload_data_offset = feature_words_offset + length (sb_feature_words s) * 8
      in \<lparr>sfb_magic = MAGIC_SECTION_FEATURE_BINDING, sfb_version_major = 2, sfb_version_minor = 0,
          sfb_header_len = of_nat SectionFeatureBindingSectionHeaderV2_LEN,
          sfb_entry_len = of_nat SectionFeatureBindingV2_LEN,
          sfb_binding_count = of_nat (length (sb_bindings s)),
          sfb_payload_ref_count = of_nat (length (sb_payload_refs s)),
          sfb_feature_word_count = of_nat (length (sb_feature_words s)),
          sfb_bindings_offset = of_nat bindings_offset,
          sfb_payload_refs_offset = (if sb_payload_refs s = [] then 0 else of_nat payload_refs_offset),
          sfb_feature_words_offset = (if sb_feature_words s = [] then 0 else of_nat feature_words_offset),
          sfb_payload_data_offset = (if sb_payload_data s = [] then 0 else of_nat payload_data_offset),
          sfb_payload_data_length = of_nat (length (sb_payload_data s)),
          sfb_flags = sfb_flags (sb_header s), sfb_checksum = 0\<rparr>)"

definition SectionFeatureBindingSectionV2_serialize :: "(bytes \<Rightarrow> u32) \<Rightarrow> SectionFeatureBindingSectionV2 \<Rightarrow> bytes result" where
  "SectionFeatureBindingSectionV2_serialize crc s =
     and_then (SectionFeatureBindingSectionV2_validate s) (\<lambda>_.
     and_then (collect_map (SectionFeatureBindingPayloadRefV2_serialize crc) (sb_payload_refs s)) (\<lambda>refs.
     Ok (SectionFeatureBindingSectionHeaderV2_serialize crc (binding_section_header s)
         @ concat (map (SectionFeatureBindingV2_serialize crc) (sb_bindings s))
         @ concat refs @ concat (map (le_bytes 8) (sb_feature_words s)) @ sb_payload_data s)))"

section \<open>What validation guarantees\<close>

lemma unat_add_u32: "unat a + unat b < 2 ^ 32 \<Longrightarrow> unat (a + b :: u32) = unat a + unat b"
  by (simp add: unat_plus_simple word_less_nat_alt unat_word_ariths)

text \<open>A usable word range: present, past word 0, and inside the section's feature words.\<close>

definition words_in :: "u32 \<Rightarrow> u32 \<Rightarrow> u32 \<Rightarrow> nat \<Rightarrow> bool" where
  "words_in n local_index first n_words \<longleftrightarrow>
     (if n = 0 then local_index = ABSENT_U32 \<and> first = ABSENT_U32
      else local_index \<noteq> ABSENT_U32 \<and> first \<noteq> ABSENT_U32 \<and> first \<noteq> 0 \<and> unat local_index + unat n \<le> n_words
           \<and> unat local_index + unat n < 2 ^ 32)"

lemma validate_word_range_Ok: "validate_word_range n i f w = Ok u \<longleftrightarrow> words_in n i f w"
  by (auto simp: validate_word_range_def words_in_def result_simps unat_add_u32)

definition binding_ok :: "nat \<Rightarrow> nat \<Rightarrow> SectionFeatureBindingV2 \<Rightarrow> bool" where
  "binding_ok refs words b \<longleftrightarrow>
     (fb_scope b = FS_OperationRequired \<longleftrightarrow> fb_operation_kind b \<noteq> Op_None) \<and>
     unat (fb_binding_payload_ref b) \<le> refs \<and>
     words_in (fb_required_word_count b) (fb_required_feature_word_index b) (fb_required_first_feature_word_number b) words \<and>
     words_in (fb_optional_word_count b) (fb_optional_feature_word_index b) (fb_optional_first_feature_word_number b) words"

lemma validate_binding_Ok: "validate_binding b refs words = Ok u \<longleftrightarrow> binding_ok refs words b"
  by (auto simp: validate_binding_def binding_ok_def result_simps validate_word_range_Ok)

lemma bindings_loop_Ok:
  assumes "ids \<subseteq> {v. unat v < index}"
  shows "bindings_loop index ids refs words bs = Ok u \<longleftrightarrow>
     map (\<lambda>b. unat (fb_binding_id b)) bs = [index..<index + length bs] \<and> list_all (binding_ok refs words) bs"
  using assms
proof (induction bs arbitrary: index ids)
  case (Cons b bs)
  have "insert (fb_binding_id b) ids \<subseteq> {v. unat v < Suc index}" if "unat (fb_binding_id b) = index"
    using Cons.prems that by auto
  note IH = Cons.IH [OF this]
  have fresh: "fb_binding_id b \<notin> ids" if "unat (fb_binding_id b) = index"
    using Cons.prems that by auto
  show ?case
  proof (cases "unat (fb_binding_id b) = index")
    case True
    have up: "[index..<index + length (b # bs)] = index # [Suc index..<Suc index + length bs]"
      by (simp add: upt_rec)
    show ?thesis unfolding up
      using True fresh [OF True] IH [OF True]
      by (auto simp: result_simps validate_binding_Ok)
  next
    case False
    then show ?thesis by (auto simp: upt_rec)
  qed
qed simp

definition ref_ok :: "nat \<Rightarrow> nat \<Rightarrow> SectionFeatureBindingPayloadRefV2 \<Rightarrow> bool" where
  "ref_ok refs data_len r \<longleftrightarrow>
     0 < unat (pr_binding_payload_ref r) \<and> unat (pr_binding_payload_ref r) \<le> refs \<and>
     unat (pr_payload_offset r) + unat (pr_payload_length r) < usize_bound \<and>
     unat (pr_payload_offset r) + unat (pr_payload_length r) \<le> data_len \<and>
     (pr_operation_kind r = Op_None \<or> pr_payload_kind r = BPK_OperationRequirement)"

lemma payload_refs_loop_Ok:
  "payload_refs_loop ids refs data_len rs = Ok u \<longleftrightarrow>
     distinct (map pr_binding_payload_ref rs) \<and> list_all (ref_ok refs data_len) rs
     \<and> (\<forall>r \<in> set rs. pr_binding_payload_ref r \<notin> ids)"
proof (induction rs arbitrary: ids)
  case (Cons r rs)
  have z: "pr_binding_payload_ref r = 0 \<longleftrightarrow> unat (pr_binding_payload_ref r) = 0" by (simp add: unat_eq_0)
  show ?case
  proof (cases "ref_ok refs data_len r \<and> pr_binding_payload_ref r \<notin> ids")
    case True
    then have step: "payload_refs_loop ids refs data_len (r # rs) =
        payload_refs_loop (insert (pr_binding_payload_ref r) ids) refs data_len rs"
      by (auto simp: ref_ok_def checked_add_def z)
    from True show ?thesis unfolding step Cons.IH by (auto simp: image_iff)
  next
    case False
    then have "payload_refs_loop ids refs data_len (r # rs) \<noteq> Ok u"
      by (auto simp: ref_ok_def result_simps z)
    with False show ?thesis by auto
  qed
qed simp

lemma section_validate_Ok:
  "SectionFeatureBindingSectionV2_validate s = Ok u \<longleftrightarrow>
     unat (sfb_binding_count (sb_header s)) = length (sb_bindings s) \<and>
     unat (sfb_payload_ref_count (sb_header s)) = length (sb_payload_refs s) \<and>
     unat (sfb_feature_word_count (sb_header s)) = length (sb_feature_words s) \<and>
     map (\<lambda>b. unat (fb_binding_id b)) (sb_bindings s) = [0..<length (sb_bindings s)] \<and>
     list_all (binding_ok (length (sb_payload_refs s)) (length (sb_feature_words s))) (sb_bindings s) \<and>
     distinct (map pr_binding_payload_ref (sb_payload_refs s)) \<and>
     list_all (ref_ok (length (sb_payload_refs s)) (length (sb_payload_data s))) (sb_payload_refs s)"
  unfolding SectionFeatureBindingSectionV2_validate_def
  by (simp add: result_simps bindings_loop_Ok payload_refs_loop_Ok) blast

text \<open>Distinct references in \<open>1..n\<close> of which there are \<open>n\<close> are all of \<open>1..n\<close>.\<close>

lemma dense_references:
  assumes "distinct (map pr_binding_payload_ref rs)" and "list_all (ref_ok (length rs) d) rs"
    and "0 < v" and "unat v \<le> length rs"
  shows "\<exists>!i. i < length rs \<and> pr_binding_payload_ref (rs ! i) = v"
proof -
  let ?ids = "map (\<lambda>r. unat (pr_binding_payload_ref r)) rs"
  have "distinct ?ids"
  proof -
    have "distinct (map unat (map pr_binding_payload_ref rs))"
      using assms(1) by (subst distinct_map) (auto simp: inj_on_def word_unat_eq_iff)
    then show ?thesis by (simp add: comp_def)
  qed
  from distinct_card [OF this] have "card (set ?ids) = card {1..length rs}" by simp
  moreover have "set ?ids \<subseteq> {1..length rs}"
    using assms(2) by (auto simp: list_all_iff ref_ok_def Suc_le_eq)
  ultimately have "set ?ids = {1..length rs}" by (intro card_subset_eq) simp_all
  moreover have "unat v \<in> {1..length rs}" using assms(3,4) by (simp add: word_less_nat_alt Suc_le_eq)
  ultimately have "unat v \<in> set ?ids" by blast
  then obtain i where i: "i < length rs" "pr_binding_payload_ref (rs ! i) = v"
    by (auto simp: in_set_conv_nth word_unat_eq_iff)
  moreover have "j = i" if "j < length rs" "pr_binding_payload_ref (rs ! j) = v" for j
    using nth_eq_iff_index_eq [OF assms(1), of j i] i that by simp
  ultimately show ?thesis by blast
qed

section \<open>Parsing never indexes out of bounds\<close>

lemma checked_range_Ok [result_simps]:
  "checked_range off n len = Ok r \<longleftrightarrow>
     r = (unat off, unat off + unat n) \<and> SectionFeatureBindingSectionHeaderV2_LEN \<le> unat off \<and> unat off + unat n \<le> len \<and>
     unat off + unat n < usize_bound"
  by (auto simp: checked_range_def result_simps)

lemma optional_range_Ok:
  "optional_range off n len = Ok r \<longleftrightarrow>
     (if n = 0 then off = 0 \<and> r = (0, 0) else checked_range off n len = Ok r)"
  by (auto simp: optional_range_def)

lemma range_inside:
  "checked_range off n len = Ok r \<Longrightarrow> fst r \<le> snd r \<and> snd r \<le> len"
  "optional_range off n len = Ok r \<Longrightarrow> fst r \<le> snd r \<and> snd r \<le> len"
  by (auto simp: optional_range_Ok result_simps split: if_splits)

lemma section_ranges_Ok:
  assumes "section_ranges h len = Ok ranges"
  shows "list_all (\<lambda>r. fst r \<le> snd r \<and> snd r \<le> len) ranges \<and> length ranges = 4"
  using assms by (auto simp: section_ranges_def result_simps dest!: range_inside(2))

lemma record_parsers_no_panic [simp]:
  "SectionFeatureBindingV2_parse crc bs \<noteq> Panic"
  "SectionFeatureBindingPayloadRefV2_parse crc bs \<noteq> Panic"
  "SectionFeatureBindingSectionHeaderV2_parse crc bs \<noteq> Panic"
  unfolding SectionFeatureBindingV2_parse_def SectionFeatureBindingPayloadRefV2_parse_def
    SectionFeatureBindingSectionHeaderV2_parse_def Let_def
  by (auto intro!: and_then_no_panic simp: verify_crc_def ok_or_def SectionFeatureBindingV2_LEN_def
      SectionFeatureBindingPayloadRefV2_LEN_def SectionFeatureBindingSectionHeaderV2_LEN_def
      SectionFeatureBindingPayloadRefV2_check_def SectionFeatureBindingSectionHeaderV2_check_def
      split: option.splits)

lemma validate_loops_no_panic [simp]:
  "bindings_loop i ids refs words bs \<noteq> Panic" "payload_refs_loop ids refs d rs \<noteq> Panic" "ranges_apart ranges \<noteq> Panic"
proof -
  have "validate_word_range n i f w \<noteq> Panic" for n i f w
    by (auto simp: validate_word_range_def and_then_eq_Panic)
  then have "validate_binding b refs words \<noteq> Panic" for b
    by (auto simp: validate_binding_def and_then_eq_Panic)
  then show "bindings_loop i ids refs words bs \<noteq> Panic"
    by (induction bs arbitrary: i ids) (auto simp: and_then_eq_Panic)
  show "payload_refs_loop ids refs d rs \<noteq> Panic"
    by (induction rs arbitrary: ids) (auto simp: and_then_eq_Panic)
  show "ranges_apart ranges \<noteq> Panic"
    by (induction ranges rule: ranges_apart.induct) auto
qed

lemma section_ranges_no_panic [simp]: "section_ranges h len \<noteq> Panic"
proof -
  have c: "checked_range off n len \<noteq> Panic" for off n by (auto simp: checked_range_def and_then_eq_Panic)
  then have "optional_range off n len \<noteq> Panic" for off n by (auto simp: optional_range_def)
  with c show ?thesis by (auto simp: section_ranges_def and_then_eq_Panic)
qed

lemma index_range_inside: "fst r \<le> snd r \<Longrightarrow> snd r \<le> length bs \<Longrightarrow> index_range bs r \<noteq> Panic"
  by (simp add: index_range_def)

lemma binding_section_parse_no_panic [simp]: "SectionFeatureBindingSectionV2_parse crc bs \<noteq> Panic"
proof -
  have inside: "index_range bs (ranges ! i) \<noteq> Panic" if "section_ranges h (length bs) = Ok ranges" and "i < 4" for h ranges i
  proof (rule index_range_inside)
    have "ranges ! i \<in> set ranges" using section_ranges_Ok [OF that(1)] that(2) by simp
    then show "fst (ranges ! i) \<le> snd (ranges ! i)" "snd (ranges ! i) \<le> length bs"
      using section_ranges_Ok [OF that(1)] by (auto simp: list_all_iff)
  qed
  show ?thesis
    unfolding SectionFeatureBindingSectionV2_parse_def Let_def ensure_non_overlapping_def
      SectionFeatureBindingSectionV2_validate_def
    by (auto simp: and_then_eq_Panic inside collect_map_no_panic)
qed

section \<open>Round trip\<close>

lemma binding_ok_sealed [simp]: "binding_ok refs words (b\<lparr>fb_checksum := c\<rparr>) \<longleftrightarrow> binding_ok refs words b"
  by (simp add: binding_ok_def)

lemma ref_ok_sealed [simp]: "ref_ok refs d (r\<lparr>pr_checksum := c\<rparr>) \<longleftrightarrow> ref_ok refs d r"
  by (simp add: ref_ok_def)

definition binding_sealed :: "(bytes \<Rightarrow> u32) \<Rightarrow> SectionFeatureBindingV2 \<Rightarrow> SectionFeatureBindingV2" where
  "binding_sealed crc b = b\<lparr>fb_checksum := crc (SectionFeatureBindingV2_image b)\<rparr>"

definition ref_sealed :: "(bytes \<Rightarrow> u32) \<Rightarrow> SectionFeatureBindingPayloadRefV2 \<Rightarrow> SectionFeatureBindingPayloadRefV2" where
  "ref_sealed crc r = r\<lparr>pr_checksum := crc (SectionFeatureBindingPayloadRefV2_image r)\<rparr>"

definition binding_section_sealed :: "(bytes \<Rightarrow> u32) \<Rightarrow> SectionFeatureBindingSectionV2 \<Rightarrow> SectionFeatureBindingSectionV2" where
  "binding_section_sealed crc s =
     \<lparr>sb_header = (binding_section_header s)\<lparr>sfb_checksum := crc (SectionFeatureBindingSectionHeaderV2_image (binding_section_header s))\<rparr>,
       sb_bindings = map (binding_sealed crc) (sb_bindings s), sb_payload_refs = map (ref_sealed crc) (sb_payload_refs s),
       sb_feature_words = sb_feature_words s, sb_payload_data = sb_payload_data s\<rparr>"

lemma index_region:
  "index_range (pre @ mid @ post) (if mid = [] then (0, 0) else (length pre, length pre + length mid)) = Ok mid"
  "index_range (pre @ mid @ post) (length pre, length pre + length mid) = Ok mid"
  by (auto simp: index_range_def slice_def)

lemma u32_table_length: "n * k < 2 ^ 32 \<Longrightarrow> 0 < k \<Longrightarrow> unat (of_nat n :: u32) = n \<and> unat (of_nat n * of_nat k :: u32) = n * k"
proof -
  assume a: "n * k < 2 ^ 32" "0 < k"
  then have "n \<le> n * k" by simp
  with a have "n < 2 ^ 32" by linarith
  moreover have "unat (of_nat (n * k) :: u32) = n * k" using a by (intro of_nat_inverse) simp_all
  ultimately show ?thesis by (simp add: of_nat_inverse)
qed

lemma checked_range_fits:
  "72 \<le> a \<Longrightarrow> a + n \<le> len \<Longrightarrow> len < 2 ^ 32 \<Longrightarrow> checked_range (of_nat a) (of_nat n) len = Ok (a, a + n)"
  by (simp add: checked_range_def checked_add_def unat_of_nat_less SectionFeatureBindingSectionHeaderV2_LEN_def)

lemma optional_range_fits:
  "72 \<le> a \<Longrightarrow> a + n \<le> len \<Longrightarrow> len < 2 ^ 32 \<Longrightarrow>
     optional_range (if n = 0 then 0 else of_nat a) (of_nat n) len = Ok (if n = 0 then (0, 0) else (a, a + n))"
proof -
  assume a: "72 \<le> a" "a + n \<le> len" "len < 2 ^ 32"
  show ?thesis
  proof (cases "n = 0")
    case False
    have "unat (of_nat n :: u64) = n" using a by (intro unat_of_nat_less) simp
    then have "(of_nat n :: u64) \<noteq> 0" using False by (metis unat_0)
    then show ?thesis using False checked_range_fits [OF a] by (simp add: optional_range_def)
  qed (simp add: optional_range_def)
qed

definition binding_section_len :: "SectionFeatureBindingSectionV2 \<Rightarrow> nat" where
  "binding_section_len s = 72 + length (sb_bindings s) * 56 + length (sb_payload_refs s) * 32
     + length (sb_feature_words s) * 8 + length (sb_payload_data s)"

lemma section_ranges_header:
  fixes s defines "a \<equiv> 72 + length (sb_bindings s) * 56"
  defines "b \<equiv> a + length (sb_payload_refs s) * 32"
  defines "c \<equiv> b + length (sb_feature_words s) * 8"
  defines "d \<equiv> c + length (sb_payload_data s)"
  assumes d: "d < 2 ^ 32"
  shows "section_ranges ((binding_section_header s)\<lparr>sfb_checksum := k\<rparr>) d =
     Ok [(72, a), (if b - a = 0 then (0, 0) else (a, b)), (if c - b = 0 then (0, 0) else (b, c)), (if d - c = 0 then (0, 0) else (c, d))]"
proof -
  let ?nb = "length (sb_bindings s)" and ?nr = "length (sb_payload_refs s)" and ?nw = "length (sb_feature_words s)"
  have n: "?nb * 56 < 2 ^ 32" "?nr * 32 < 2 ^ 32" "?nw * 8 < 2 ^ 32" using d by (auto simp: a_def b_def c_def d_def)
  note u = u32_table_length [OF n(1)] u32_table_length [OF n(2)] u32_table_length [OF n(3)]
  have m: "checked_mul_u32 (of_nat ?nb) 56 = Ok (of_nat ?nb * of_nat 56)"
      "checked_mul_u32 (of_nat ?nr) 32 = Ok (of_nat ?nr * of_nat 32)"
      "checked_mul_u32 (of_nat ?nw) 8 = Ok (of_nat ?nw * of_nat 8)"
    using u n by (simp_all add: checked_mul_u32_def)
  have up: "ucast (v :: u32) = (of_nat (unat v) :: u64)" for v by simp
  have w: "ucast (of_nat ?nb * of_nat 56 :: u32) = (of_nat (?nb * 56) :: u64)"
      "ucast (of_nat ?nr * of_nat 32 :: u32) = (of_nat (b - a) :: u64)"
      "ucast (of_nat ?nw * of_nat 8 :: u32) = (of_nat (c - b) :: u64)"
    unfolding up using u by (simp_all add: b_def c_def)
  have r: "checked_range (of_nat 72) (of_nat (?nb * 56)) d = Ok (72, a)"
    using checked_range_fits [of 72 "?nb * 56" d] d by (simp add: a_def b_def c_def d_def)
  have o: "optional_range (if b - a = 0 then 0 else of_nat a) (of_nat (b - a)) d = Ok (if b - a = 0 then (0, 0) else (a, b))"
      "optional_range (if c - b = 0 then 0 else of_nat b) (of_nat (c - b)) d = Ok (if c - b = 0 then (0, 0) else (b, c))"
      "optional_range (if d - c = 0 then 0 else of_nat c) (of_nat (d - c)) d = Ok (if d - c = 0 then (0, 0) else (c, d))"
    using optional_range_fits [of a "b - a" d] optional_range_fits [of b "c - b" d] optional_range_fits [of c "d - c" d] d
    by (simp_all add: a_def b_def c_def d_def)
  let ?h = "(binding_section_header s)\<lparr>sfb_checksum := k\<rparr>"
  have f: "sfb_payload_refs_offset ?h = (if b - a = 0 then 0 else of_nat a)"
      "sfb_feature_words_offset ?h = (if c - b = 0 then 0 else of_nat b)"
      "sfb_payload_data_offset ?h = (if d - c = 0 then 0 else of_nat c)"
      "sfb_payload_data_length ?h = of_nat (d - c)"
      "sfb_bindings_offset ?h = of_nat 72"
      "sfb_binding_count ?h = of_nat ?nb" "sfb_payload_ref_count ?h = of_nat ?nr"
      "sfb_feature_word_count ?h = of_nat ?nw"
    by (simp_all add: binding_section_header_def Let_def a_def b_def c_def d_def SectionFeatureBindingSectionHeaderV2_LEN_def
        SectionFeatureBindingV2_LEN_def SectionFeatureBindingPayloadRefV2_LEN_def)
  show ?thesis
    unfolding section_ranges_def SectionFeatureBindingV2_LEN_def SectionFeatureBindingPayloadRefV2_LEN_def
    by (simp only: f m w r o and_then.simps)
qed

lemma four_regions_apart:
  assumes "a0 \<le> a" "a \<le> b" "b \<le> c" "c \<le> d"
  shows "ensure_non_overlapping [(a0, a), (if b - a = 0 then (0, 0) else (a, b)), (if c - b = 0 then (0, 0) else (b, c)),
     (if d - c = 0 then (0, 0) else (c, d))] = Ok ()"
  using assms by (simp add: ensure_non_overlapping_def)

lemma index_regions:
  fixes H B R W D :: bytes
  shows "index_range (H @ B @ R @ W @ D) (length H, length (H @ B)) = Ok B"
    and "index_range (H @ B @ R @ W @ D) (if R = [] then (0, 0) else (length (H @ B), length (H @ B @ R))) = Ok R"
    and "index_range (H @ B @ R @ W @ D) (if W = [] then (0, 0) else (length (H @ B @ R), length (H @ B @ R @ W))) = Ok W"
    and "index_range (H @ B @ R @ W @ D) (if D = [] then (0, 0) else (length (H @ B @ R @ W), length (H @ B @ R @ W @ D))) = Ok D"
  using index_region(2) [of H B "R @ W @ D"] index_region(1) [of "H @ B" R "W @ D"]
    index_region(1) [of "H @ B @ R" W D] index_region(1) [of "H @ B @ R @ W" D "[]"]
  by (simp_all only: append_assoc length_append append_Nil2 add.assoc)

lemma binding_section_roundtrip:
  assumes valid: "SectionFeatureBindingSectionV2_validate s = Ok ()"
    and reserved: "list_all (\<lambda>r. pr_reserved r = 0) (sb_payload_refs s)"
    and len: "binding_section_len s < 2 ^ 32"
  shows "\<exists>bs. SectionFeatureBindingSectionV2_serialize crc s = Ok bs \<and> length bs = binding_section_len s
     \<and> SectionFeatureBindingSectionV2_parse crc bs = Ok (binding_section_sealed crc s)"
proof -
  let ?h = "binding_section_header s"
  let ?hs = "?h\<lparr>sfb_checksum := crc (SectionFeatureBindingSectionHeaderV2_image ?h)\<rparr>"
  let ?H = "SectionFeatureBindingSectionHeaderV2_serialize crc ?h"
  let ?B = "concat (map (SectionFeatureBindingV2_serialize crc) (sb_bindings s))"
  let ?R = "concat (map (SectionFeatureBindingPayloadRefV2_sealed crc) (sb_payload_refs s))"
  let ?W = "concat (map (le_bytes 8) (sb_feature_words s))" and ?D = "sb_payload_data s"
  let ?bs = "?H @ ?B @ ?R @ ?W @ ?D"
  have "collect_map (SectionFeatureBindingPayloadRefV2_serialize crc) (sb_payload_refs s)
      = Ok (map (SectionFeatureBindingPayloadRefV2_sealed crc) (sb_payload_refs s))"
    by (rule collect_map_Ok) (use reserved in \<open>auto simp: SectionFeatureBindingPayloadRefV2_serialize_def list_all_iff\<close>)
  then have ser: "SectionFeatureBindingSectionV2_serialize crc s = Ok ?bs"
    by (simp add: SectionFeatureBindingSectionV2_serialize_def valid)
  have lB: "length ?B = length (sb_bindings s) * 56" by (rule length_concat_uniform) simp
  have lR: "length ?R = length (sb_payload_refs s) * 32" by (rule length_concat_uniform) simp
  have lW: "length ?W = length (sb_feature_words s) * 8" by (rule length_concat_uniform) simp
  have lbs: "length ?bs = binding_section_len s" by (simp add: lB lR lW binding_section_len_def)
  have header: "SectionFeatureBindingSectionHeaderV2_parse crc ?bs = Ok ?hs"
  proof (rule SectionFeatureBindingSectionHeaderV2_roundtrip)
    show "SectionFeatureBindingSectionHeaderV2_check ?hs = Ok ()"
      by (simp add: SectionFeatureBindingSectionHeaderV2_check_def binding_section_header_def Let_def
          SectionFeatureBindingSectionHeaderV2_LEN_def SectionFeatureBindingV2_LEN_def)
  qed (simp add: binding_section_header_def Let_def MAGIC_SECTION_FEATURE_BINDING_def)
  define a b c d where abcd: "a = length (?H @ ?B)" "b = length (?H @ ?B @ ?R)" "c = length (?H @ ?B @ ?R @ ?W)" "d = length ?bs"
  define ranges where "ranges = [(length ?H, a), (if ?R = [] then (0, 0) else (a, b)), (if ?W = [] then (0, 0) else (b, c)),
     (if ?D = [] then (0, 0) else (c, d))]"
  have e: "ranges = [(72, a), (if b - a = 0 then (0, 0) else (a, b)), (if c - b = 0 then (0, 0) else (b, c)),
     (if d - c = 0 then (0, 0) else (c, d))]"
    by (simp add: ranges_def abcd)
  have ad: "72 + length (sb_bindings s) * 56 = a" "a + length (sb_payload_refs s) * 32 = b"
      "b + length (sb_feature_words s) * 8 = c" "c + length (sb_payload_data s) = d"
    by (simp_all add: abcd lB lR lW)
  have ranges: "section_ranges ?hs (length ?bs) = Ok ranges"
    using section_ranges_header [of s, unfolded ad] len abcd(4) lbs unfolding e by metis
  have apart: "ensure_non_overlapping ranges = Ok ()"
    unfolding e by (rule four_regions_apart) (simp_all add: abcd)
  have at: "index_range ?bs (ranges ! 0) = Ok ?B" "index_range ?bs (ranges ! 1) = Ok ?R"
      "index_range ?bs (ranges ! 2) = Ok ?W" "index_range ?bs (ranges ! 3) = Ok ?D"
    unfolding ranges_def abcd by (simp_all only: nth_Cons_0 nth_Cons_Suc One_nat_def numeral_2_eq_2 numeral_3_eq_3 index_regions)
  have cB: "chunks_exact SectionFeatureBindingV2_LEN ?B = map (SectionFeatureBindingV2_serialize crc) (sb_bindings s)"
    by (rule chunks_exact_concat) (simp_all add: SectionFeatureBindingV2_LEN_def)
  have cR: "chunks_exact SectionFeatureBindingPayloadRefV2_LEN ?R = map (SectionFeatureBindingPayloadRefV2_sealed crc) (sb_payload_refs s)"
    by (rule chunks_exact_concat) (simp_all add: SectionFeatureBindingPayloadRefV2_LEN_def)
  have cW: "map from_le (chunks_exact 8 ?W) = sb_feature_words s"
    by (subst chunks_exact_concat) (simp_all add: comp_def from_le_le_bytes)
  have pB: "collect_map (SectionFeatureBindingV2_parse crc) (map (SectionFeatureBindingV2_serialize crc) xs) = Ok (map (binding_sealed crc) xs)" for xs
    using SectionFeatureBindingV2_roundtrip [where crc = crc and rest = "[]"] by (induction xs) (simp_all add: binding_sealed_def)
  have pR: "collect_map (SectionFeatureBindingPayloadRefV2_parse crc) (map (SectionFeatureBindingPayloadRefV2_sealed crc) (sb_payload_refs s))
      = Ok (map (ref_sealed crc) (sb_payload_refs s))"
  proof -
    have "SectionFeatureBindingPayloadRefV2_parse crc (SectionFeatureBindingPayloadRefV2_sealed crc r) = Ok (ref_sealed crc r)" if "pr_reserved r = 0" for r
      using SectionFeatureBindingPayloadRefV2_roundtrip [where h = r and crc = crc and rest = "[]"] that
      by (simp add: ref_sealed_def SectionFeatureBindingPayloadRefV2_check_def)
    then have "list_all (\<lambda>r. pr_reserved r = 0) rs \<Longrightarrow> collect_map (SectionFeatureBindingPayloadRefV2_parse crc)
        (map (SectionFeatureBindingPayloadRefV2_sealed crc) rs) = Ok (map (ref_sealed crc) rs)" for rs
      by (induction rs) simp_all
    with reserved show ?thesis by blast
  qed
  have "SectionFeatureBindingSectionV2_validate (binding_section_sealed crc s) = Ok ()"
    using valid len unfolding section_validate_Ok binding_section_len_def
    by (simp add: binding_section_sealed_def binding_section_header_def Let_def comp_def binding_sealed_def ref_sealed_def
        list_all_iff unat_of_nat_less)
  then have "SectionFeatureBindingSectionV2_parse crc ?bs = Ok (binding_section_sealed crc s)"
    unfolding SectionFeatureBindingSectionV2_parse_def
    by (simp only: header ranges apart at cB cR cW pB pR and_then.simps Let_def binding_section_sealed_def)
  with ser lbs show ?thesis by blast
qed

definition sample_binding_section :: SectionFeatureBindingSectionV2 where
  "sample_binding_section =
     \<lparr>sb_header = \<lparr>sfb_magic = MAGIC_SECTION_FEATURE_BINDING, sfb_version_major = 2, sfb_version_minor = 0,
        sfb_header_len = 72, sfb_entry_len = 56, sfb_binding_count = 1, sfb_payload_ref_count = 1, sfb_feature_word_count = 2,
        sfb_bindings_offset = 0, sfb_payload_refs_offset = 0, sfb_feature_words_offset = 0, sfb_payload_data_offset = 0,
        sfb_payload_data_length = 0, sfb_flags = 7, sfb_checksum = 0\<rparr>,
      sb_bindings = [\<lparr>fb_binding_id = 0, fb_section_id = 4, fb_scope = FS_SectionRequired, fb_profile = 2,
        fb_operation_kind = Op_None, fb_required_word_count = 2, fb_optional_word_count = 0,
        fb_required_feature_word_index = 0, fb_optional_feature_word_index = ABSENT_U32,
        fb_required_first_feature_word_number = 1, fb_optional_first_feature_word_number = ABSENT_U32,
        fb_binding_payload_ref = 1, fb_target_local_ref = 0, fb_flags = 0, fb_checksum = 0\<rparr>],
      sb_payload_refs = [\<lparr>pr_binding_payload_ref = 1, pr_payload_kind = BPK_PageRequirement, pr_operation_kind = Op_None,
        pr_profile = 2, pr_flags = 0, pr_reserved = 0, pr_payload_offset = 1, pr_payload_length = 2, pr_checksum = 0\<rparr>],
      sb_feature_words = [1, 0x10], sb_payload_data = [9, 8, 7]\<rparr>"

lemma sample_binding_section_valid:
  "SectionFeatureBindingSectionV2_validate sample_binding_section = Ok ()"
  by (simp add: section_validate_Ok sample_binding_section_def binding_ok_def words_in_def ref_ok_def ABSENT_U32_def)

lemma sample_binding_section_small: "binding_section_len sample_binding_section = 179"
  "list_all (\<lambda>r. pr_reserved r = 0) (sb_payload_refs sample_binding_section)"
  by (simp_all add: sample_binding_section_def binding_section_len_def)

lemma sample_binding_section_image:
  "\<exists>bs. SectionFeatureBindingSectionV2_parse (\<lambda>_. 5) bs = Ok (binding_section_sealed (\<lambda>_. 5) sample_binding_section)"
  using binding_section_roundtrip [of sample_binding_section "\<lambda>_. 5"]
  by (auto simp: sample_binding_section_valid sample_binding_section_small)

text \<open>The payload reference of a binding names exactly one entry.\<close>

definition resolves :: "SectionFeatureBindingPayloadRefV2 list \<Rightarrow> u32 \<Rightarrow> bool" where
  "resolves refs v \<longleftrightarrow> (\<exists>!i. i < length refs \<and> pr_binding_payload_ref (refs ! i) = v)"

text \<open>C36: a parsed binding section is consistent: identifiers are dense, every word range lies inside the
  section's feature words and never names word 0, every payload reference a binding uses resolves to
  exactly one entry, and payload ranges lie inside the payload data.\<close>

theorem feature_binding_parse_safe:
  assumes "SectionFeatureBindingSectionV2_parse crc bs = Ok s"
  shows "map (\<lambda>b. unat (fb_binding_id b)) (sb_bindings s) = [0..<length (sb_bindings s)]
     \<and> list_all (\<lambda>b. words_in (fb_required_word_count b) (fb_required_feature_word_index b)
                       (fb_required_first_feature_word_number b) (length (sb_feature_words s))
                   \<and> words_in (fb_optional_word_count b) (fb_optional_feature_word_index b)
                       (fb_optional_first_feature_word_number b) (length (sb_feature_words s))
                   \<and> (fb_binding_payload_ref b = 0 \<or> resolves (sb_payload_refs s) (fb_binding_payload_ref b)))
         (sb_bindings s)
     \<and> list_all (\<lambda>r. unat (pr_payload_offset r) + unat (pr_payload_length r) \<le> length (sb_payload_data s)) (sb_payload_refs s)"
proof -
  from assms have v: "SectionFeatureBindingSectionV2_validate s = Ok ()"
    by (auto simp: SectionFeatureBindingSectionV2_parse_def result_simps Let_def)
  note facts = v [unfolded section_validate_Ok]
  have "resolves (sb_payload_refs s) (fb_binding_payload_ref b)"
    if "b \<in> set (sb_bindings s)" and "fb_binding_payload_ref b \<noteq> 0" for b
    unfolding resolves_def
  proof (rule dense_references)
    show "0 < fb_binding_payload_ref b" using that(2) by (simp add: word_neq_0_conv)
    show "unat (fb_binding_payload_ref b) \<le> length (sb_payload_refs s)"
      using facts that(1) by (auto simp: list_all_iff binding_ok_def)
  qed (use facts in auto)
  with facts show ?thesis by (auto simp: list_all_iff binding_ok_def ref_ok_def)
qed

lemma feature_binding_parse_safe_witness:
  "\<exists>bs s. SectionFeatureBindingSectionV2_parse (\<lambda>_. 5) bs = Ok s \<and> length (sb_bindings s) = 1
     \<and> map (\<lambda>b. unat (fb_binding_id b)) (sb_bindings s) = [0..<length (sb_bindings s)]"
proof -
  obtain bs where "SectionFeatureBindingSectionV2_parse (\<lambda>_. 5) bs = Ok (binding_section_sealed (\<lambda>_. 5) sample_binding_section)"
    using sample_binding_section_image by blast
  from this feature_binding_parse_safe [OF this] show ?thesis
    by (intro exI [of _ bs] exI [of _ "binding_section_sealed (\<lambda>_. 5) sample_binding_section"])
       (simp add: binding_section_sealed_def sample_binding_section_def)
qed

end
