(* ===== verification/Feature_Scope.thy ===== *)
theory Feature_Scope
  imports Feature_Binding Container
begin

text \<open>
  Extended feature words and the scope of requirements (\<open>feature_scope.rs\<close>): the extended feature set,
  the profile capability matrix, and the table that says for every required feature bit whether the
  whole file or only a section, page, profile or operation depends on it.
\<close>

section \<open>Extended feature set\<close>

definition ExtendedFeatureSetHeaderV2_LEN :: usize where "ExtendedFeatureSetHeaderV2_LEN = 20"

record ExtendedFeatureSetHeaderV2 =
  efh_word_count :: u32
  efh_required_word_count :: u32
  efh_optional_word_count :: u32
  efh_flags :: u32
  efh_checksum :: u32

definition ExtendedFeatureSetHeaderV2_image :: "ExtendedFeatureSetHeaderV2 \<Rightarrow> bytes" where
  "ExtendedFeatureSetHeaderV2_image h =
     (let out = replicate ExtendedFeatureSetHeaderV2_LEN 0;
          out = put 0 (le_bytes 4 (efh_word_count h)) out;
          out = put 4 (le_bytes 4 (efh_required_word_count h)) out;
          out = put 8 (le_bytes 4 (efh_optional_word_count h)) out;
          out = put 12 (le_bytes 4 (efh_flags h)) out
      in out)"

definition ExtendedFeatureSetHeaderV2_sealed :: "(bytes \<Rightarrow> u32) \<Rightarrow> ExtendedFeatureSetHeaderV2 \<Rightarrow> bytes" where
  "ExtendedFeatureSetHeaderV2_sealed crc h = seal crc 16 (ExtendedFeatureSetHeaderV2_image h)"

lemma length_ExtendedFeatureSetHeaderV2_image [simp]: "length (ExtendedFeatureSetHeaderV2_image h) = 20"
  by (simp add: ExtendedFeatureSetHeaderV2_image_def ExtendedFeatureSetHeaderV2_LEN_def Let_def)

lemma length_ExtendedFeatureSetHeaderV2_sealed [simp]: "length (ExtendedFeatureSetHeaderV2_sealed crc h) = 20"
  by (simp add: ExtendedFeatureSetHeaderV2_sealed_def)

lemma ExtendedFeatureSetHeaderV2_image_fields:
  "u32_at (ExtendedFeatureSetHeaderV2_image h) 0 = efh_word_count h"
  "u32_at (ExtendedFeatureSetHeaderV2_image h) 4 = efh_required_word_count h"
  "u32_at (ExtendedFeatureSetHeaderV2_image h) 8 = efh_optional_word_count h"
  "u32_at (ExtendedFeatureSetHeaderV2_image h) 12 = efh_flags h"
  "slice 16 4 (ExtendedFeatureSetHeaderV2_image h) = replicate 4 0"
  by (simp_all add: ExtendedFeatureSetHeaderV2_image_def ExtendedFeatureSetHeaderV2_LEN_def Let_def wire_simps)

definition ExtendedFeatureSetHeaderV2_validate_counts :: "ExtendedFeatureSetHeaderV2 \<Rightarrow> unit result" where
  "ExtendedFeatureSetHeaderV2_validate_counts h =
     (if efh_word_count h = 0 \<or> efh_required_word_count h > efh_word_count h \<or> efh_optional_word_count h > efh_word_count h
      then Err (BadSection ''EXTENDED_FEATURE_SET word counts are invalid'') else Ok ())"

definition ExtendedFeatureSetHeaderV2_serialize :: "(bytes \<Rightarrow> u32) \<Rightarrow> ExtendedFeatureSetHeaderV2 \<Rightarrow> bytes result" where
  "ExtendedFeatureSetHeaderV2_serialize crc h =
     and_then (ExtendedFeatureSetHeaderV2_validate_counts h) (\<lambda>_. Ok (ExtendedFeatureSetHeaderV2_sealed crc h))"

definition ExtendedFeatureSetHeaderV2_parse :: "(bytes \<Rightarrow> u32) \<Rightarrow> bytes \<Rightarrow> ExtendedFeatureSetHeaderV2 result" where
  "ExtendedFeatureSetHeaderV2_parse crc bs =
     (if length bs < ExtendedFeatureSetHeaderV2_LEN then Err BufferTooShort
      else
      and_then (read_u32 bs 0) (\<lambda>word_count.
      and_then (read_u32 bs 4) (\<lambda>required_word_count.
      and_then (read_u32 bs 8) (\<lambda>optional_word_count.
      and_then (read_u32 bs 12) (\<lambda>flags.
      and_then (read_u32 bs 16) (\<lambda>checksum.
      let r = \<lparr>efh_word_count = word_count,
         efh_required_word_count = required_word_count,
         efh_optional_word_count = optional_word_count,
         efh_flags = flags,
         efh_checksum = checksum\<rparr> in
      and_then (verify_crc crc (slice 0 ExtendedFeatureSetHeaderV2_LEN bs) 16 checksum) (\<lambda>_.
      and_then (ExtendedFeatureSetHeaderV2_validate_counts r) (\<lambda>_. Ok r))))))))"

lemma ExtendedFeatureSetHeaderV2_roundtrip:
  assumes "ExtendedFeatureSetHeaderV2_validate_counts (h\<lparr>efh_checksum := crc (ExtendedFeatureSetHeaderV2_image h)\<rparr>) = Ok ()"
  shows "ExtendedFeatureSetHeaderV2_parse crc (ExtendedFeatureSetHeaderV2_sealed crc h @ rest) = Ok (h\<lparr>efh_checksum := crc (ExtendedFeatureSetHeaderV2_image h)\<rparr>)"
proof -
  note f = ExtendedFeatureSetHeaderV2_image_fields [of h]
  have v: "verify_crc crc (seal crc 16 (ExtendedFeatureSetHeaderV2_image h)) 16 (crc (ExtendedFeatureSetHeaderV2_image h)) = Ok ()"
    by (rule verify_crc_seal) (simp_all add: f)
  have eta: "\<lparr>efh_word_count = efh_word_count h, efh_required_word_count = efh_required_word_count h, efh_optional_word_count = efh_optional_word_count h, efh_flags = efh_flags h, efh_checksum = c\<rparr> =
      h\<lparr>efh_checksum := c\<rparr>" for c by (cases h) simp
  show ?thesis using assms
    by (simp add: ExtendedFeatureSetHeaderV2_parse_def ExtendedFeatureSetHeaderV2_LEN_def ExtendedFeatureSetHeaderV2_sealed_def Let_def nth_append wire_simps f v eta
         )
qed

record ExtendedFeatureSetV2 =
  efs_header :: ExtendedFeatureSetHeaderV2
  efs_required_feature_words :: "u64 list"
  efs_optional_feature_words :: "u64 list"

definition word_bytes_len :: "u32 \<Rightarrow> usize result" where
  "word_bytes_len word_count = checked_mul (unat word_count) 8"

definition read_words :: "bytes \<Rightarrow> u64 list result" where
  "read_words bs =
     (if length bs mod 8 \<noteq> 0 then Err (BadSection ''feature word byte length is not a multiple of 8'')
      else Ok (map from_le (chunks_exact 8 bs)))"

definition ExtendedFeatureSetV2_validate :: "ExtendedFeatureSetV2 \<Rightarrow> unit result" where
  "ExtendedFeatureSetV2_validate s =
     and_then (ExtendedFeatureSetHeaderV2_validate_counts (efs_header s)) (\<lambda>_.
     if length (efs_required_feature_words s) \<noteq> unat (efh_required_word_count (efs_header s))
        \<or> length (efs_optional_feature_words s) \<noteq> unat (efh_optional_word_count (efs_header s))
     then Err (BadSection ''EXTENDED_FEATURE_SET vector count mismatch'') else Ok ())"

definition ExtendedFeatureSetV2_parse :: "(bytes \<Rightarrow> u32) \<Rightarrow> bytes \<Rightarrow> ExtendedFeatureSetV2 result" where
  "ExtendedFeatureSetV2_parse crc bs =
     and_then (ExtendedFeatureSetHeaderV2_parse crc bs) (\<lambda>header.
     and_then (word_bytes_len (efh_required_word_count header)) (\<lambda>required_len.
     and_then (word_bytes_len (efh_optional_word_count header)) (\<lambda>optional_len.
     let required_start = ExtendedFeatureSetHeaderV2_LEN in
     and_then (checked_add required_start required_len) (\<lambda>optional_start.
     and_then (checked_add optional_start optional_len) (\<lambda>end'.
     if length bs \<noteq> end' then Err (BadSection ''EXTENDED_FEATURE_SET payload length mismatch'')
     else
       and_then (index_range bs (required_start, optional_start)) (\<lambda>required_bytes.
       and_then (read_words required_bytes) (\<lambda>required_words.
       and_then (index_range bs (optional_start, end')) (\<lambda>optional_bytes.
       and_then (read_words optional_bytes) (\<lambda>optional_words.
       let s = \<lparr>efs_header = header, efs_required_feature_words = required_words,
                efs_optional_feature_words = optional_words\<rparr> in
       and_then (ExtendedFeatureSetV2_validate s) (\<lambda>_. Ok s))))))))))"

definition ExtendedFeatureSetV2_serialize :: "(bytes \<Rightarrow> u32) \<Rightarrow> ExtendedFeatureSetV2 \<Rightarrow> bytes result" where
  "ExtendedFeatureSetV2_serialize crc s =
     and_then (ExtendedFeatureSetV2_validate s) (\<lambda>_.
     let required_count = of_nat (length (efs_required_feature_words s));
         optional_count = of_nat (length (efs_optional_feature_words s));
         header = (efs_header s)\<lparr>efh_required_word_count := required_count, efh_optional_word_count := optional_count,
                     efh_word_count := max (max (efh_word_count (efs_header s)) required_count) optional_count\<rparr> in
     and_then (ExtendedFeatureSetHeaderV2_serialize crc header) (\<lambda>header_bytes.
     Ok (header_bytes @ concat (map (le_bytes 8) (efs_required_feature_words s))
         @ concat (map (le_bytes 8) (efs_optional_feature_words s)))))"

definition word_or_default :: "u64 list \<Rightarrow> u32 \<Rightarrow> u64" where
  "word_or_default ws word_index = (if unat word_index < length ws then ws ! unat word_index else 0)"

definition required_word :: "ExtendedFeatureSetV2 \<Rightarrow> u32 \<Rightarrow> u64" where
  "required_word s word_index = word_or_default (efs_required_feature_words s) word_index"

definition optional_word :: "ExtendedFeatureSetV2 \<Rightarrow> u32 \<Rightarrow> u64" where
  "optional_word s word_index = word_or_default (efs_optional_feature_words s) word_index"

definition validate_against_low_words :: "ExtendedFeatureSetV2 \<Rightarrow> u64 \<Rightarrow> u64 \<Rightarrow> unit result" where
  "validate_against_low_words s required_features optional_features =
     (if word_or_default (efs_required_feature_words s) 0 \<noteq> required_features
      then Err (BadSection ''EXTENDED_FEATURE_SET required word 0 does not match header/postscript'')
      else if word_or_default (efs_optional_feature_words s) 0 \<noteq> optional_features
      then Err (BadSection ''EXTENDED_FEATURE_SET optional word 0 does not match header/postscript'')
      else Ok ())"

definition validate_binding_word_horizon :: "u32 \<Rightarrow> u32 \<Rightarrow> u32 \<Rightarrow> unit result" where
  "validate_binding_word_horizon first_word_number word_count horizon =
     (if word_count = 0 then Ok ()
      else and_then (checked_add_u32 first_word_number word_count) (\<lambda>end'.
        if first_word_number \<ge> horizon \<or> end' > horizon
        then Err (BadSection ''SECTION_FEATURE_BINDING references a feature word beyond EXTENDED_FEATURE_SET horizon'')
        else Ok ()))"

definition validate_binding_horizon :: "ExtendedFeatureSetV2 \<Rightarrow> SectionFeatureBindingSectionV2 \<Rightarrow> unit result" where
  "validate_binding_horizon s section =
     try_each (\<lambda>item.
       and_then (validate_binding_word_horizon (fb_required_first_feature_word_number item)
                   (fb_required_word_count item) (efh_word_count (efs_header s))) (\<lambda>_.
       validate_binding_word_horizon (fb_optional_first_feature_word_number item)
                   (fb_optional_word_count item) (efh_word_count (efs_header s)))) (sb_bindings section)"

section \<open>Profile capability matrix\<close>

definition MAGIC_PROFILE_CAPABILITY_MATRIX :: bytes where
  "MAGIC_PROFILE_CAPABILITY_MATRIX = [0x50, 0x43, 0x4D, 0x32]"

definition ProfileCapabilityEntryV2_LEN :: usize where "ProfileCapabilityEntryV2_LEN = 48"

record ProfileCapabilityEntryV2 =
  pce_profile :: u8
  pce_scope :: FeatureScopeV2
  pce_operation_kind :: OperationKindV2
  pce_global_feature_word_index :: u32
  pce_required_mask :: u64
  pce_optional_mask :: u64
  pce_section_id :: u32
  pce_target_local_ref :: u64
  pce_flags :: u32
  pce_reserved :: u32
  pce_checksum :: u32

definition ProfileCapabilityEntryV2_image :: "ProfileCapabilityEntryV2 \<Rightarrow> bytes" where
  "ProfileCapabilityEntryV2_image h =
     (let out = replicate ProfileCapabilityEntryV2_LEN 0;
          out = put 0 [pce_profile h] out;
          out = put 1 [FeatureScopeV2_code (pce_scope h)] out;
          out = put 2 (le_bytes 2 (OperationKindV2_code (pce_operation_kind h))) out;
          out = put 4 (le_bytes 4 (pce_global_feature_word_index h)) out;
          out = put 8 (le_bytes 8 (pce_required_mask h)) out;
          out = put 16 (le_bytes 8 (pce_optional_mask h)) out;
          out = put 24 (le_bytes 4 (pce_section_id h)) out;
          out = put 28 (le_bytes 8 (pce_target_local_ref h)) out;
          out = put 36 (le_bytes 4 (pce_flags h)) out;
          out = put 40 (le_bytes 4 (pce_reserved h)) out
      in out)"

definition ProfileCapabilityEntryV2_sealed :: "(bytes \<Rightarrow> u32) \<Rightarrow> ProfileCapabilityEntryV2 \<Rightarrow> bytes" where
  "ProfileCapabilityEntryV2_sealed crc h = seal crc 44 (ProfileCapabilityEntryV2_image h)"

lemma length_ProfileCapabilityEntryV2_image [simp]: "length (ProfileCapabilityEntryV2_image h) = 48"
  by (simp add: ProfileCapabilityEntryV2_image_def ProfileCapabilityEntryV2_LEN_def Let_def)

lemma length_ProfileCapabilityEntryV2_sealed [simp]: "length (ProfileCapabilityEntryV2_sealed crc h) = 48"
  by (simp add: ProfileCapabilityEntryV2_sealed_def)

lemma ProfileCapabilityEntryV2_image_fields:
  "ProfileCapabilityEntryV2_image h ! 0 = pce_profile h"
  "ProfileCapabilityEntryV2_image h ! Suc 0 = FeatureScopeV2_code (pce_scope h)"
  "u16_at (ProfileCapabilityEntryV2_image h) 2 = (OperationKindV2_code (pce_operation_kind h))"
  "u32_at (ProfileCapabilityEntryV2_image h) 4 = pce_global_feature_word_index h"
  "u64_at (ProfileCapabilityEntryV2_image h) 8 = pce_required_mask h"
  "u64_at (ProfileCapabilityEntryV2_image h) 16 = pce_optional_mask h"
  "u32_at (ProfileCapabilityEntryV2_image h) 24 = pce_section_id h"
  "u64_at (ProfileCapabilityEntryV2_image h) 28 = pce_target_local_ref h"
  "u32_at (ProfileCapabilityEntryV2_image h) 36 = pce_flags h"
  "u32_at (ProfileCapabilityEntryV2_image h) 40 = pce_reserved h"
  "slice 44 4 (ProfileCapabilityEntryV2_image h) = replicate 4 0"
  by (simp_all add: ProfileCapabilityEntryV2_image_def ProfileCapabilityEntryV2_LEN_def Let_def wire_simps)

definition ProfileCapabilityEntryV2_validate :: "ProfileCapabilityEntryV2 \<Rightarrow> unit result" where
  "ProfileCapabilityEntryV2_validate e =
     (if pce_reserved e \<noteq> 0 then Err ReservedNotZero
      else if pce_scope e = FS_OperationRequired \<and> pce_operation_kind e = Op_None
      then Err (BadSection ''operation-scoped profile capability requires operation_kind'')
      else if pce_scope e \<noteq> FS_OperationRequired \<and> pce_operation_kind e \<noteq> Op_None
      then Err (BadSection ''operation_kind is only valid for operation-scoped profile capability'')
      else if pce_required_mask e = 0 \<and> pce_optional_mask e = 0
      then Err (BadSection ''PROFILE_CAPABILITY_MATRIX entry has no feature bits'')
      else Ok ())"

definition ProfileCapabilityEntryV2_serialize :: "(bytes \<Rightarrow> u32) \<Rightarrow> ProfileCapabilityEntryV2 \<Rightarrow> bytes result" where
  "ProfileCapabilityEntryV2_serialize crc e =
     and_then (ProfileCapabilityEntryV2_validate e) (\<lambda>_. Ok (ProfileCapabilityEntryV2_sealed crc e))"

definition ProfileCapabilityEntryV2_parse :: "(bytes \<Rightarrow> u32) \<Rightarrow> bytes \<Rightarrow> ProfileCapabilityEntryV2 result" where
  "ProfileCapabilityEntryV2_parse crc bs =
     (if length bs < ProfileCapabilityEntryV2_LEN then Err BufferTooShort
      else
      and_then (read_u8 bs 0) (\<lambda>profile.
      and_then (read_u8 bs 1) (\<lambda>scope_raw.
      and_then (ok_or (FeatureScopeV2_from_u8 scope_raw) (BadSection ''PROFILE_CAPABILITY_MATRIX has unknown scope'')) (\<lambda>scope.
      and_then (read_u16 bs 2) (\<lambda>operation_kind_raw.
      and_then (ok_or (OperationKindV2_from_u16 operation_kind_raw) (BadSection ''PROFILE_CAPABILITY_MATRIX has unknown operation'')) (\<lambda>operation_kind.
      and_then (read_u32 bs 4) (\<lambda>global_feature_word_index.
      and_then (read_u64 bs 8) (\<lambda>required_mask.
      and_then (read_u64 bs 16) (\<lambda>optional_mask.
      and_then (read_u32 bs 24) (\<lambda>section_id.
      and_then (read_u64 bs 28) (\<lambda>target_local_ref.
      and_then (read_u32 bs 36) (\<lambda>flags.
      and_then (read_u32 bs 40) (\<lambda>reserved.
      and_then (read_u32 bs 44) (\<lambda>checksum.
      let r = \<lparr>pce_profile = profile,
         pce_scope = scope,
         pce_operation_kind = operation_kind,
         pce_global_feature_word_index = global_feature_word_index,
         pce_required_mask = required_mask,
         pce_optional_mask = optional_mask,
         pce_section_id = section_id,
         pce_target_local_ref = target_local_ref,
         pce_flags = flags,
         pce_reserved = reserved,
         pce_checksum = checksum\<rparr> in
      and_then (verify_crc crc (slice 0 ProfileCapabilityEntryV2_LEN bs) 44 checksum) (\<lambda>_.
      and_then (ProfileCapabilityEntryV2_validate r) (\<lambda>_. Ok r))))))))))))))))"

lemma ProfileCapabilityEntryV2_roundtrip:
  assumes "ProfileCapabilityEntryV2_validate (h\<lparr>pce_checksum := crc (ProfileCapabilityEntryV2_image h)\<rparr>) = Ok ()"
  shows "ProfileCapabilityEntryV2_parse crc (ProfileCapabilityEntryV2_sealed crc h @ rest) = Ok (h\<lparr>pce_checksum := crc (ProfileCapabilityEntryV2_image h)\<rparr>)"
proof -
  note f = ProfileCapabilityEntryV2_image_fields [of h]
  have v: "verify_crc crc (seal crc 44 (ProfileCapabilityEntryV2_image h)) 44 (crc (ProfileCapabilityEntryV2_image h)) = Ok ()"
    by (rule verify_crc_seal) (simp_all add: f)
  have eta: "\<lparr>pce_profile = pce_profile h, pce_scope = pce_scope h, pce_operation_kind = pce_operation_kind h, pce_global_feature_word_index = pce_global_feature_word_index h, pce_required_mask = pce_required_mask h, pce_optional_mask = pce_optional_mask h, pce_section_id = pce_section_id h, pce_target_local_ref = pce_target_local_ref h, pce_flags = pce_flags h, pce_reserved = pce_reserved h, pce_checksum = c\<rparr> =
      h\<lparr>pce_checksum := c\<rparr>" for c by (cases h) simp
  show ?thesis using assms
    by (simp add: ProfileCapabilityEntryV2_parse_def ProfileCapabilityEntryV2_LEN_def ProfileCapabilityEntryV2_sealed_def Let_def nth_append wire_simps f v eta
        featureScopeV2.decode_code operationKindV2.decode_code )
qed

definition ProfileCapabilityMatrixHeaderV2_LEN :: usize where "ProfileCapabilityMatrixHeaderV2_LEN = 40"

record ProfileCapabilityMatrixHeaderV2 =
  pcm_magic :: bytes
  pcm_version_major :: u16
  pcm_header_len :: u16
  pcm_entry_len :: u16
  pcm_reserved :: u16
  pcm_entry_count :: u32
  pcm_flags :: u32
  pcm_entries_offset :: u64
  pcm_entries_length :: u64
  pcm_checksum :: u32

definition ProfileCapabilityMatrixHeaderV2_image :: "ProfileCapabilityMatrixHeaderV2 \<Rightarrow> bytes" where
  "ProfileCapabilityMatrixHeaderV2_image h =
     (let out = replicate ProfileCapabilityMatrixHeaderV2_LEN 0;
          out = put 0 (pcm_magic h) out;
          out = put 4 (le_bytes 2 (pcm_version_major h)) out;
          out = put 6 (le_bytes 2 (pcm_header_len h)) out;
          out = put 8 (le_bytes 2 (pcm_entry_len h)) out;
          out = put 10 (le_bytes 2 (pcm_reserved h)) out;
          out = put 12 (le_bytes 4 (pcm_entry_count h)) out;
          out = put 16 (le_bytes 4 (pcm_flags h)) out;
          out = put 20 (le_bytes 8 (pcm_entries_offset h)) out;
          out = put 28 (le_bytes 8 (pcm_entries_length h)) out
      in out)"

definition ProfileCapabilityMatrixHeaderV2_sealed :: "(bytes \<Rightarrow> u32) \<Rightarrow> ProfileCapabilityMatrixHeaderV2 \<Rightarrow> bytes" where
  "ProfileCapabilityMatrixHeaderV2_sealed crc h = seal crc 36 (ProfileCapabilityMatrixHeaderV2_image h)"

lemma length_ProfileCapabilityMatrixHeaderV2_image [simp]: "length (ProfileCapabilityMatrixHeaderV2_image h) = 40"
  by (simp add: ProfileCapabilityMatrixHeaderV2_image_def ProfileCapabilityMatrixHeaderV2_LEN_def Let_def)

lemma length_ProfileCapabilityMatrixHeaderV2_sealed [simp]: "length (ProfileCapabilityMatrixHeaderV2_sealed crc h) = 40"
  by (simp add: ProfileCapabilityMatrixHeaderV2_sealed_def)

lemma ProfileCapabilityMatrixHeaderV2_image_fields:
  assumes "length (pcm_magic h) = 4"
  shows
  "slice 0 4 (ProfileCapabilityMatrixHeaderV2_image h) = pcm_magic h"
  "u16_at (ProfileCapabilityMatrixHeaderV2_image h) 4 = pcm_version_major h"
  "u16_at (ProfileCapabilityMatrixHeaderV2_image h) 6 = pcm_header_len h"
  "u16_at (ProfileCapabilityMatrixHeaderV2_image h) 8 = pcm_entry_len h"
  "u16_at (ProfileCapabilityMatrixHeaderV2_image h) 10 = pcm_reserved h"
  "u32_at (ProfileCapabilityMatrixHeaderV2_image h) 12 = pcm_entry_count h"
  "u32_at (ProfileCapabilityMatrixHeaderV2_image h) 16 = pcm_flags h"
  "u64_at (ProfileCapabilityMatrixHeaderV2_image h) 20 = pcm_entries_offset h"
  "u64_at (ProfileCapabilityMatrixHeaderV2_image h) 28 = pcm_entries_length h"
  "slice 36 4 (ProfileCapabilityMatrixHeaderV2_image h) = replicate 4 0"
  using assms by (simp_all add: ProfileCapabilityMatrixHeaderV2_image_def ProfileCapabilityMatrixHeaderV2_LEN_def Let_def wire_simps)

definition ProfileCapabilityMatrixHeaderV2_check :: "ProfileCapabilityMatrixHeaderV2 \<Rightarrow> unit result" where
  "ProfileCapabilityMatrixHeaderV2_check h =
     (if pcm_magic h \<noteq> MAGIC_PROFILE_CAPABILITY_MATRIX then Err BadMagic
      else if pcm_version_major h \<noteq> 2 then Err BadVersion
      else if unat (pcm_header_len h) \<noteq> ProfileCapabilityMatrixHeaderV2_LEN \<or> unat (pcm_entry_len h) \<noteq> ProfileCapabilityEntryV2_LEN then Err (BadSection ''PROFILE_CAPABILITY_MATRIX length field mismatch'')
      else if pcm_reserved h \<noteq> 0 then Err ReservedNotZero
      else Ok ())"

lemma ProfileCapabilityMatrixHeaderV2_check_checksum [simp]: "ProfileCapabilityMatrixHeaderV2_check (h\<lparr>pcm_checksum := c\<rparr>) = ProfileCapabilityMatrixHeaderV2_check h"
  by (simp add: ProfileCapabilityMatrixHeaderV2_check_def)

definition ProfileCapabilityMatrixHeaderV2_serialize :: "(bytes \<Rightarrow> u32) \<Rightarrow> ProfileCapabilityMatrixHeaderV2 \<Rightarrow> bytes result" where
  "ProfileCapabilityMatrixHeaderV2_serialize crc h =
     (if pcm_reserved h \<noteq> 0 then Err ReservedNotZero else Ok (ProfileCapabilityMatrixHeaderV2_sealed crc h))"

definition ProfileCapabilityMatrixHeaderV2_parse :: "(bytes \<Rightarrow> u32) \<Rightarrow> bytes \<Rightarrow> ProfileCapabilityMatrixHeaderV2 result" where
  "ProfileCapabilityMatrixHeaderV2_parse crc bs =
     (if length bs < ProfileCapabilityMatrixHeaderV2_LEN then Err BufferTooShort
      else
      and_then (read_array bs 0 4) (\<lambda>magic.
      and_then (read_u16 bs 4) (\<lambda>version_major.
      and_then (read_u16 bs 6) (\<lambda>header_len.
      and_then (read_u16 bs 8) (\<lambda>entry_len.
      and_then (read_u16 bs 10) (\<lambda>reserved.
      and_then (read_u32 bs 12) (\<lambda>entry_count.
      and_then (read_u32 bs 16) (\<lambda>flags.
      and_then (read_u64 bs 20) (\<lambda>entries_offset.
      and_then (read_u64 bs 28) (\<lambda>entries_length.
      and_then (read_u32 bs 36) (\<lambda>checksum.
      let r = \<lparr>pcm_magic = magic,
         pcm_version_major = version_major,
         pcm_header_len = header_len,
         pcm_entry_len = entry_len,
         pcm_reserved = reserved,
         pcm_entry_count = entry_count,
         pcm_flags = flags,
         pcm_entries_offset = entries_offset,
         pcm_entries_length = entries_length,
         pcm_checksum = checksum\<rparr> in
      and_then (ProfileCapabilityMatrixHeaderV2_check r) (\<lambda>_.
      and_then (verify_crc crc (slice 0 ProfileCapabilityMatrixHeaderV2_LEN bs) 36 checksum) (\<lambda>_.
      Ok r)))))))))))))"

lemma ProfileCapabilityMatrixHeaderV2_roundtrip:
  assumes "length (pcm_magic h) = 4" and "ProfileCapabilityMatrixHeaderV2_check (h\<lparr>pcm_checksum := crc (ProfileCapabilityMatrixHeaderV2_image h)\<rparr>) = Ok ()"
  shows "ProfileCapabilityMatrixHeaderV2_parse crc (ProfileCapabilityMatrixHeaderV2_sealed crc h @ rest) = Ok (h\<lparr>pcm_checksum := crc (ProfileCapabilityMatrixHeaderV2_image h)\<rparr>)"
proof -
  note f = ProfileCapabilityMatrixHeaderV2_image_fields [OF assms(1)]
  have v: "verify_crc crc (seal crc 36 (ProfileCapabilityMatrixHeaderV2_image h)) 36 (crc (ProfileCapabilityMatrixHeaderV2_image h)) = Ok ()"
    by (rule verify_crc_seal) (simp_all add: f)
  have eta: "\<lparr>pcm_magic = pcm_magic h, pcm_version_major = pcm_version_major h, pcm_header_len = pcm_header_len h, pcm_entry_len = pcm_entry_len h, pcm_reserved = pcm_reserved h, pcm_entry_count = pcm_entry_count h, pcm_flags = pcm_flags h, pcm_entries_offset = pcm_entries_offset h, pcm_entries_length = pcm_entries_length h, pcm_checksum = c\<rparr> =
      h\<lparr>pcm_checksum := c\<rparr>" for c by (cases h) simp
  show ?thesis using assms
    by (simp add: ProfileCapabilityMatrixHeaderV2_parse_def ProfileCapabilityMatrixHeaderV2_LEN_def ProfileCapabilityMatrixHeaderV2_sealed_def Let_def nth_append wire_simps f v eta
         )
qed

record ProfileCapabilityMatrixV2 =
  pm_header :: ProfileCapabilityMatrixHeaderV2
  pm_entries :: "ProfileCapabilityEntryV2 list"

type_synonym capability_key = "u8 \<times> u8 \<times> u16 \<times> u32 \<times> u32 \<times> u64"

definition capability_key :: "ProfileCapabilityEntryV2 \<Rightarrow> capability_key" where
  "capability_key e = (pce_profile e, FeatureScopeV2_code (pce_scope e), OperationKindV2_code (pce_operation_kind e),
     pce_global_feature_word_index e, pce_section_id e, pce_target_local_ref e)"

fun capability_loop :: "capability_key option \<Rightarrow> capability_key set \<Rightarrow> ProfileCapabilityEntryV2 list \<Rightarrow> unit result" where
  "capability_loop prev seen [] = Ok ()"
| "capability_loop prev seen (e # es) =
     and_then (ProfileCapabilityEntryV2_validate e) (\<lambda>_.
     let key = capability_key e in
     if (case prev of Some previous \<Rightarrow> key \<le> previous | None \<Rightarrow> False)
     then Err (BadSection ''PROFILE_CAPABILITY_MATRIX entries are not sorted'')
     else if key \<in> seen then Err (BadSection ''PROFILE_CAPABILITY_MATRIX duplicate entry'')
     else capability_loop (Some key) (insert key seen) es)"

definition ProfileCapabilityMatrixV2_validate :: "ProfileCapabilityMatrixV2 \<Rightarrow> unit result" where
  "ProfileCapabilityMatrixV2_validate m =
     (if unat (pcm_entry_count (pm_header m)) \<noteq> length (pm_entries m)
      then Err (BadSection ''PROFILE_CAPABILITY_MATRIX count mismatch'')
      else capability_loop None {} (pm_entries m))"

definition ProfileCapabilityMatrixV2_parse :: "(bytes \<Rightarrow> u32) \<Rightarrow> bytes \<Rightarrow> ProfileCapabilityMatrixV2 result" where
  "ProfileCapabilityMatrixV2_parse crc bs =
     and_then (ProfileCapabilityMatrixHeaderV2_parse crc bs) (\<lambda>header.
     let start = unat (pcm_entries_offset header);
         len = unat (pcm_entries_length header) in
     and_then (checked_add start len) (\<lambda>end'.
     and_then (checked_mul_u32 (pcm_entry_count header) ProfileCapabilityEntryV2_LEN) (\<lambda>expected.
     if start < ProfileCapabilityMatrixHeaderV2_LEN \<or> end' \<noteq> length bs \<or> len \<noteq> unat expected
     then Err (BadSection ''PROFILE_CAPABILITY_MATRIX entry range mismatch'')
     else
       and_then (index_range bs (start, end')) (\<lambda>entry_bytes.
       and_then (collect_map (ProfileCapabilityEntryV2_parse crc) (chunks_exact ProfileCapabilityEntryV2_LEN entry_bytes)) (\<lambda>entries.
       let m = \<lparr>pm_header = header, pm_entries = entries\<rparr> in
       and_then (ProfileCapabilityMatrixV2_validate m) (\<lambda>_. Ok m))))))"

definition matrix_header :: "ProfileCapabilityMatrixV2 \<Rightarrow> ProfileCapabilityMatrixHeaderV2" where
  "matrix_header m =
     (pm_header m)\<lparr>pcm_magic := MAGIC_PROFILE_CAPABILITY_MATRIX, pcm_version_major := 2,
        pcm_header_len := of_nat ProfileCapabilityMatrixHeaderV2_LEN, pcm_entry_len := of_nat ProfileCapabilityEntryV2_LEN,
        pcm_entry_count := of_nat (length (pm_entries m)), pcm_entries_offset := of_nat ProfileCapabilityMatrixHeaderV2_LEN,
        pcm_entries_length := of_nat (length (pm_entries m) * ProfileCapabilityEntryV2_LEN)\<rparr>"

definition ProfileCapabilityMatrixV2_serialize :: "(bytes \<Rightarrow> u32) \<Rightarrow> ProfileCapabilityMatrixV2 \<Rightarrow> bytes result" where
  "ProfileCapabilityMatrixV2_serialize crc m =
     and_then (ProfileCapabilityMatrixV2_validate m) (\<lambda>_.
     and_then (ProfileCapabilityMatrixHeaderV2_serialize crc (matrix_header m)) (\<lambda>header_bytes.
     and_then (collect_map (ProfileCapabilityEntryV2_serialize crc) (pm_entries m)) (\<lambda>entries.
     Ok (header_bytes @ concat entries))))"

section \<open>The table of scopes\<close>

record FeatureScopeEntry =
  fse_scope :: FeatureScopeV2
  fse_profile :: u8
  fse_operation_kind :: OperationKindV2
  fse_section_id :: u32
  fse_target_local_ref :: u64
  fse_global_feature_word_index :: u32
  fse_required_mask :: u64
  fse_optional_mask :: u64

record FeatureTargetRefV2 =
  tr_section_id :: u32
  tr_target_local_ref :: u64

record FeatureUseRequestV2 =
  fur_requested_profile :: "u8 option"
  fur_requested_operation :: "OperationKindV2 option"
  fur_needed_section_ids :: "u32 set"
  fur_needed_page_refs :: "FeatureTargetRefV2 set"

definition cove_column_page_target_ref :: "u32 \<Rightarrow> u32 \<Rightarrow> u64" where
  "cove_column_page_target_ref column_id morsel_id = push_bit 32 (ucast column_id) OR ucast morsel_id"

definition FeatureUseRequestV2_new :: FeatureUseRequestV2 where
  "FeatureUseRequestV2_new = \<lparr>fur_requested_profile = None, fur_requested_operation = None,
     fur_needed_section_ids = {}, fur_needed_page_refs = {}\<rparr>"

definition with_profile :: "FeatureUseRequestV2 \<Rightarrow> u8 \<Rightarrow> FeatureUseRequestV2" where
  "with_profile r profile = r\<lparr>fur_requested_profile := Some profile\<rparr>"

definition with_operation :: "FeatureUseRequestV2 \<Rightarrow> OperationKindV2 \<Rightarrow> FeatureUseRequestV2" where
  "with_operation r operation = r\<lparr>fur_requested_operation := Some operation\<rparr>"

definition with_section :: "FeatureUseRequestV2 \<Rightarrow> u32 \<Rightarrow> FeatureUseRequestV2" where
  "with_section r section_id = r\<lparr>fur_needed_section_ids := insert section_id (fur_needed_section_ids r)\<rparr>"

definition with_target_ref :: "FeatureUseRequestV2 \<Rightarrow> FeatureTargetRefV2 \<Rightarrow> FeatureUseRequestV2" where
  "with_target_ref r target = r\<lparr>fur_needed_page_refs := insert target (fur_needed_page_refs r)\<rparr>"

definition with_page_ref :: "FeatureUseRequestV2 \<Rightarrow> u32 \<Rightarrow> u64 \<Rightarrow> FeatureUseRequestV2" where
  "with_page_ref r section_id target_local_ref =
     r\<lparr>fur_needed_page_refs := insert \<lparr>tr_section_id = section_id, tr_target_local_ref = target_local_ref\<rparr> (fur_needed_page_refs r)\<rparr>"

definition with_cove_t_column_page :: "FeatureUseRequestV2 \<Rightarrow> u32 \<Rightarrow> u32 \<Rightarrow> u32 \<Rightarrow> FeatureUseRequestV2" where
  "with_cove_t_column_page r section_id column_id morsel_id =
     with_target_ref r \<lparr>tr_section_id = section_id, tr_target_local_ref = cove_column_page_target_ref column_id morsel_id\<rparr>"

definition section_exists :: "CoveFooter \<Rightarrow> u32 \<Rightarrow> bool" where
  "section_exists footer section_id \<longleftrightarrow> list_ex (\<lambda>e. se_section_id e = section_id) (ft_sections footer)"

definition validate_scope_addressing ::
  "FeatureScopeV2 \<Rightarrow> OperationKindV2 \<Rightarrow> u32 \<Rightarrow> u64 \<Rightarrow> CoveFooter \<Rightarrow> unit result" where
  "validate_scope_addressing scope operation_kind section_id target_local_ref footer =
     (case scope of
        FS_AdvisoryOnly \<Rightarrow> Ok ()
      | FS_SectionRequired \<Rightarrow>
          if section_id = 0 \<or> \<not> section_exists footer section_id
          then Err (BadSection ''SectionRequired feature scope references a missing section'') else Ok ()
      | FS_PageRequired \<Rightarrow>
          if section_id = 0 \<or> target_local_ref = - 1 \<or> \<not> section_exists footer section_id
          then Err (BadSection ''PageRequired feature scope must reference an existing section and page target'') else Ok ()
      | FS_OperationRequired \<Rightarrow>
          if operation_kind = Op_None
          then Err (BadSection ''OperationRequired feature scope requires operation_kind'') else Ok ()
      | FS_ProfileRequired \<Rightarrow>
          if operation_kind \<noteq> Op_None
          then Err (BadSection ''ProfileRequired feature scope must not set operation_kind'') else Ok ()
      | FS_FileRequired \<Rightarrow> Ok ())"

definition validate_feature_word_reference ::
  "u32 \<Rightarrow> u64 \<Rightarrow> u64 \<Rightarrow> CoveHeaderV1 \<Rightarrow> ExtendedFeatureSetV2 option \<Rightarrow> string \<Rightarrow> unit result" where
  "validate_feature_word_reference word_index required_mask optional_mask header extended surface =
     (if word_index = 0
      then (let advertised_required = hdr_required_features header OR hdr_optional_features header in
            if required_mask AND NOT advertised_required \<noteq> 0 \<or> optional_mask AND NOT (hdr_optional_features header) \<noteq> 0
            then Err (BadSection (surface @ '' references undeclared feature word 0 bits'')) else Ok ())
      else case extended of
        None \<Rightarrow> Err (BadSection (surface @ '' references extended feature word without EXTENDED_FEATURE_SET''))
      | Some s \<Rightarrow>
          if word_index \<ge> efh_word_count (efs_header s)
          then Err (BadSection (surface @ '' references a feature word beyond EXTENDED_FEATURE_SET horizon''))
          else if required_mask AND NOT (required_word s word_index) \<noteq> 0
          then Err (BadSection (surface @ '' required mask is not declared in EXTENDED_FEATURE_SET''))
          else if optional_mask AND NOT (optional_word s word_index) \<noteq> 0
          then Err (BadSection (surface @ '' optional mask is not declared in EXTENDED_FEATURE_SET''))
          else Ok ())"

text \<open>The global number and the value of the \<open>idx\<close>-th word of a binding; \<open>feature_words[local]\<close> panics out of range.\<close>

definition binding_word :: "u64 list \<Rightarrow> u32 \<Rightarrow> u32 \<Rightarrow> nat \<Rightarrow> (u32 \<times> u64) result" where
  "binding_word feature_words first_index first_number idx =
     and_then (checked_add_u32 first_index (of_nat idx)) (\<lambda>local.
     and_then (checked_add_u32 first_number (of_nat idx)) (\<lambda>global.
     if unat local < length feature_words then Ok (global, feature_words ! unat local) else Panic))"

definition required_binding_word :: "u64 list \<Rightarrow> SectionFeatureBindingV2 \<Rightarrow> nat \<Rightarrow> (u32 \<times> u64) result" where
  "required_binding_word ws item = binding_word ws (fb_required_feature_word_index item) (fb_required_first_feature_word_number item)"

definition optional_binding_word :: "u64 list \<Rightarrow> SectionFeatureBindingV2 \<Rightarrow> nat \<Rightarrow> (u32 \<times> u64) result" where
  "optional_binding_word ws item = binding_word ws (fb_optional_feature_word_index item) (fb_optional_first_feature_word_number item)"

definition validate_matrix_entry ::
  "CoveHeaderV1 \<Rightarrow> CoveFooter \<Rightarrow> ExtendedFeatureSetV2 option \<Rightarrow> ProfileCapabilityEntryV2 \<Rightarrow> unit result" where
  "validate_matrix_entry header footer extended entry =
     (if pce_scope entry = FS_AdvisoryOnly \<and> pce_required_mask entry \<noteq> 0
      then Err (BadSection ''AdvisoryOnly profile capability must not carry required bits'')
      else and_then (validate_scope_addressing (pce_scope entry) (pce_operation_kind entry) (pce_section_id entry)
                       (pce_target_local_ref entry) footer) (\<lambda>_.
           validate_feature_word_reference (pce_global_feature_word_index entry) (pce_required_mask entry)
             (pce_optional_mask entry) header extended ''PROFILE_CAPABILITY_MATRIX''))"

definition validate_binding_item ::
  "CoveHeaderV1 \<Rightarrow> CoveFooter \<Rightarrow> ExtendedFeatureSetV2 option \<Rightarrow> u64 list \<Rightarrow> SectionFeatureBindingV2 \<Rightarrow> unit result" where
  "validate_binding_item header footer extended feature_words item =
     (if fb_scope item = FS_AdvisoryOnly \<and> fb_required_word_count item \<noteq> 0
      then Err (BadSection ''AdvisoryOnly section feature binding must not carry required bits'')
      else
        and_then (validate_scope_addressing (fb_scope item) (fb_operation_kind item) (fb_section_id item)
                    (fb_target_local_ref item) footer) (\<lambda>_.
        and_then (try_each (\<lambda>idx.
           and_then (required_binding_word feature_words item idx) (\<lambda>(global, word).
           validate_feature_word_reference global word 0 header extended ''SECTION_FEATURE_BINDING''))
           [0..<unat (fb_required_word_count item)]) (\<lambda>_.
        try_each (\<lambda>idx.
           and_then (optional_binding_word feature_words item idx) (\<lambda>(global, word).
           validate_feature_word_reference global 0 word header extended ''SECTION_FEATURE_BINDING''))
           [0..<unat (fb_optional_word_count item)])))"

definition validate_scoped_metadata_references ::
  "CoveHeaderV1 \<Rightarrow> CoveFooter \<Rightarrow> ExtendedFeatureSetV2 option \<Rightarrow> ProfileCapabilityMatrixV2 option
     \<Rightarrow> SectionFeatureBindingSectionV2 list \<Rightarrow> unit result" where
  "validate_scoped_metadata_references header footer extended matrix bindings =
     and_then (case matrix of None \<Rightarrow> Ok () | Some m \<Rightarrow> try_each (validate_matrix_entry header footer extended) (pm_entries m)) (\<lambda>_.
     try_each (\<lambda>b. try_each (validate_binding_item header footer extended (sb_feature_words b)) (sb_bindings b)) bindings)"

definition add_mask :: "(u32 \<Rightarrow> u64 option) \<Rightarrow> u32 \<times> u64 \<Rightarrow> u32 \<Rightarrow> u64 option" where
  "add_mask scoped w = scoped(fst w \<mapsto> (case scoped (fst w) of None \<Rightarrow> 0 | Some v \<Rightarrow> v) OR snd w)"

definition scoped_matrix_words :: "ProfileCapabilityMatrixV2 option \<Rightarrow> (u32 \<times> u64) list" where
  "scoped_matrix_words matrix =
     (case matrix of None \<Rightarrow> [] | Some m \<Rightarrow>
        map (\<lambda>e. (pce_global_feature_word_index e, pce_required_mask e))
          (filter (\<lambda>e. pce_scope e \<noteq> FS_FileRequired \<and> pce_required_mask e \<noteq> 0) (pm_entries m)))"

definition scoped_item_words :: "u64 list \<Rightarrow> SectionFeatureBindingV2 \<Rightarrow> (u32 \<times> u64) list result" where
  "scoped_item_words feature_words item =
     (if fb_scope item = FS_FileRequired then Ok []
      else collect_map (required_binding_word feature_words item) [0..<unat (fb_required_word_count item)])"

definition scoped_required_masks ::
  "ProfileCapabilityMatrixV2 option \<Rightarrow> SectionFeatureBindingSectionV2 list \<Rightarrow> (u32 \<Rightarrow> u64 option) result" where
  "scoped_required_masks matrix bindings =
     and_then (collect_map (\<lambda>b. map_result concat (collect_map (scoped_item_words (sb_feature_words b)) (sb_bindings b))) bindings) (\<lambda>words.
     Ok (foldl add_mask Map.empty (scoped_matrix_words matrix @ concat words)))"

definition unscoped_entry :: "FeatureScopeV2 \<Rightarrow> u8 \<Rightarrow> u32 \<Rightarrow> u64 \<Rightarrow> u64 \<Rightarrow> FeatureScopeEntry" where
  "unscoped_entry scope profile word_index required_mask optional_mask =
     \<lparr>fse_scope = scope, fse_profile = profile, fse_operation_kind = Op_None, fse_section_id = 0,
      fse_target_local_ref = - 1, fse_global_feature_word_index = word_index,
      fse_required_mask = required_mask, fse_optional_mask = optional_mask\<rparr>"

definition section_entry :: "CoveSectionEntryV1 \<Rightarrow> FeatureScopeEntry" where
  "section_entry section =
     \<lparr>fse_scope = FS_SectionRequired, fse_profile = se_profile section, fse_operation_kind = Op_None,
      fse_section_id = se_section_id section, fse_target_local_ref = - 1, fse_global_feature_word_index = 0,
      fse_required_mask = se_required_features section, fse_optional_mask = se_optional_features section\<rparr>"

definition extended_word_entries :: "u8 \<Rightarrow> (u32 \<Rightarrow> u64 option) \<Rightarrow> ExtendedFeatureSetV2 \<Rightarrow> u32 \<Rightarrow> FeatureScopeEntry list" where
  "extended_word_entries profile scoped_required extended word_index =
     (let scoped_mask = (case scoped_required word_index of None \<Rightarrow> 0 | Some v \<Rightarrow> v);
          required_mask = required_word extended word_index AND NOT scoped_mask;
          optional_mask = optional_word extended word_index
      in (if required_mask \<noteq> 0 then [unscoped_entry FS_FileRequired profile word_index required_mask 0] else []) @
         (if optional_mask \<noteq> 0 then [unscoped_entry FS_AdvisoryOnly profile word_index 0 optional_mask] else []))"

definition capability_scope_entry :: "ProfileCapabilityEntryV2 \<Rightarrow> FeatureScopeEntry" where
  "capability_scope_entry e =
     \<lparr>fse_scope = pce_scope e, fse_profile = pce_profile e, fse_operation_kind = pce_operation_kind e,
      fse_section_id = pce_section_id e, fse_target_local_ref = pce_target_local_ref e,
      fse_global_feature_word_index = pce_global_feature_word_index e,
      fse_required_mask = pce_required_mask e, fse_optional_mask = pce_optional_mask e\<rparr>"

definition binding_scope_entry :: "SectionFeatureBindingV2 \<Rightarrow> FeatureScopeV2 \<Rightarrow> u32 \<Rightarrow> u64 \<Rightarrow> u64 \<Rightarrow> FeatureScopeEntry" where
  "binding_scope_entry item scope global required_mask optional_mask =
     \<lparr>fse_scope = scope, fse_profile = fb_profile item, fse_operation_kind = fb_operation_kind item,
      fse_section_id = fb_section_id item, fse_target_local_ref = fb_target_local_ref item,
      fse_global_feature_word_index = global, fse_required_mask = required_mask, fse_optional_mask = optional_mask\<rparr>"

definition binding_item_entries :: "u64 list \<Rightarrow> SectionFeatureBindingV2 \<Rightarrow> FeatureScopeEntry list result" where
  "binding_item_entries feature_words item =
     and_then (collect_map (required_binding_word feature_words item) [0..<unat (fb_required_word_count item)]) (\<lambda>required.
     and_then (collect_map (optional_binding_word feature_words item) [0..<unat (fb_optional_word_count item)]) (\<lambda>optional.
     Ok (map (\<lambda>(global, word). binding_scope_entry item (fb_scope item) global word 0) required
         @ map (\<lambda>(global, word). binding_scope_entry item FS_AdvisoryOnly global 0 word) optional)))"

definition scope_sort_key :: "FeatureScopeEntry \<Rightarrow> u32 \<times> u8 \<times> u8 \<times> u16 \<times> u32 \<times> u64" where
  "scope_sort_key e = (fse_global_feature_word_index e, FeatureScopeV2_code (fse_scope e), fse_profile e,
     OperationKindV2_code (fse_operation_kind e), fse_section_id e, fse_target_local_ref e)"

definition normalize :: "FeatureScopeEntry list \<Rightarrow> FeatureScopeEntry list" where
  "normalize entries = sort_key scope_sort_key entries"

definition build_many ::
  "CoveHeaderV1 \<Rightarrow> CoveFooter \<Rightarrow> ExtendedFeatureSetV2 option \<Rightarrow> ProfileCapabilityMatrixV2 option
     \<Rightarrow> SectionFeatureBindingSectionV2 list \<Rightarrow> FeatureScopeEntry list result" where
  "build_many header footer extended matrix bindings =
     and_then (validate_scoped_metadata_references header footer extended matrix bindings) (\<lambda>_.
     and_then (scoped_required_masks matrix bindings) (\<lambda>scoped_required.
     let profile = hdr_primary_profile header;
         file = [unscoped_entry FS_FileRequired profile 0 (hdr_required_features header) 0]
                @ (if hdr_optional_features header \<noteq> 0
                   then [unscoped_entry FS_AdvisoryOnly profile 0 0 (hdr_optional_features header)] else []);
         sections = map section_entry (filter (\<lambda>e. se_required_features e \<noteq> 0 \<or> se_optional_features e \<noteq> 0) (ft_sections footer));
         words = (case extended of None \<Rightarrow> [] | Some s \<Rightarrow>
           concat (map (\<lambda>i. extended_word_entries profile scoped_required s (of_nat i)) [1..<unat (efh_word_count (efs_header s))]));
         capabilities = (case matrix of None \<Rightarrow> [] | Some m \<Rightarrow> map capability_scope_entry (pm_entries m)) in
     and_then (collect_map (\<lambda>b. map_result concat (collect_map (binding_item_entries (sb_feature_words b)) (sb_bindings b))) bindings) (\<lambda>bound.
     Ok (normalize (file @ sections @ words @ capabilities @ concat bound)))))"

definition build ::
  "CoveHeaderV1 \<Rightarrow> CoveFooter \<Rightarrow> ExtendedFeatureSetV2 option \<Rightarrow> ProfileCapabilityMatrixV2 option
     \<Rightarrow> SectionFeatureBindingSectionV2 option \<Rightarrow> FeatureScopeEntry list result" where
  "build header footer extended matrix binding =
     (case binding of Some b \<Rightarrow> build_many header footer extended matrix [b]
      | None \<Rightarrow> build_many header footer extended matrix [])"

definition unknown_required_mask :: "FeatureScopeEntry \<Rightarrow> u64" where
  "unknown_required_mask e =
     (if fse_global_feature_word_index e = 0 then fse_required_mask e AND NOT KNOWN_FEATURE_BITS_MASK
      else fse_required_mask e)"

definition reject_file_required_unknowns :: "FeatureScopeEntry list \<Rightarrow> unit result" where
  "reject_file_required_unknowns entries =
     try_each (\<lambda>e. if fse_scope e = FS_FileRequired \<and> unknown_required_mask e \<noteq> 0
                    then Err (UnknownRequiredFeature (unknown_required_mask e)) else Ok ()) entries"

definition scope_needed :: "FeatureUseRequestV2 \<Rightarrow> FeatureScopeEntry \<Rightarrow> bool" where
  "scope_needed request entry =
     (case fse_scope entry of
        FS_FileRequired \<Rightarrow> True
      | FS_SectionRequired \<Rightarrow> fse_section_id entry \<in> fur_needed_section_ids request
      | FS_PageRequired \<Rightarrow> \<lparr>tr_section_id = fse_section_id entry, tr_target_local_ref = fse_target_local_ref entry\<rparr> \<in> fur_needed_page_refs request
      | FS_ProfileRequired \<Rightarrow> fur_requested_profile request = Some (fse_profile entry)
      | FS_OperationRequired \<Rightarrow> fur_requested_operation request = Some (fse_operation_kind entry)
          \<and> (case fur_requested_profile request of Some profile \<Rightarrow> fse_profile entry = 0 \<or> fse_profile entry = profile | None \<Rightarrow> True)
      | FS_AdvisoryOnly \<Rightarrow> False)"

definition reject_unknowns_for_request :: "FeatureScopeEntry list \<Rightarrow> FeatureUseRequestV2 \<Rightarrow> unit result" where
  "reject_unknowns_for_request entries request =
     try_each (\<lambda>e. if unknown_required_mask e = 0 then Ok ()
                    else if scope_needed request e then Err (UnknownRequiredFeature (unknown_required_mask e)) else Ok ()) entries"

definition reject_unknowns_for ::
  "FeatureScopeEntry list \<Rightarrow> u8 option \<Rightarrow> OperationKindV2 option \<Rightarrow> u32 set \<Rightarrow> unit result" where
  "reject_unknowns_for entries requested_profile requested_operation needed_section_ids =
     reject_unknowns_for_request entries
       \<lparr>fur_requested_profile = requested_profile, fur_requested_operation = requested_operation,
        fur_needed_section_ids = needed_section_ids, fur_needed_page_refs = {}\<rparr>"

section \<open>Building the table never indexes out of bounds\<close>

lemma unat_of_nat_idx: "idx < unat (n :: u32) \<Longrightarrow> unat (of_nat idx :: u32) = idx"
  by (metis le_unat_uoi less_imp_le_nat)

lemma binding_word_in_bounds:
  assumes "words_in n first_index first_number (length ws)" and "idx < unat n"
  shows "binding_word ws first_index first_number idx \<noteq> Panic"
proof -
  have "n \<noteq> 0" using assms(2) by auto
  then have "unat first_index + idx < length ws" "unat first_index + idx < 2 ^ 32"
    using assms by (auto simp: words_in_def)
  moreover have "unat (first_index + of_nat idx) = unat first_index + idx" if "unat first_index + idx < 2 ^ 32"
    using unat_add_u32 [of first_index "of_nat idx"] that by (simp add: unat_of_nat_idx [OF assms(2)])
  ultimately show ?thesis
    by (auto simp: binding_word_def and_then_eq_Panic result_simps unat_of_nat_idx [OF assms(2)])
qed

lemma binding_words_in_bounds:
  assumes "binding_ok refs (length ws) item"
  shows "idx < unat (fb_required_word_count item) \<Longrightarrow> required_binding_word ws item idx \<noteq> Panic"
    and "idx < unat (fb_optional_word_count item) \<Longrightarrow> optional_binding_word ws item idx \<noteq> Panic"
  using assms binding_word_in_bounds
  by (auto simp: binding_ok_def required_binding_word_def optional_binding_word_def)

lemma collect_map_no_panic_on: "(\<And>x. x \<in> set xs \<Longrightarrow> f x \<noteq> Panic) \<Longrightarrow> collect_map f xs \<noteq> Panic"
  by (induction xs) (auto simp: and_then_eq_Panic)

text \<open>Every binding section is one that validation accepted.\<close>

definition bindings_valid :: "SectionFeatureBindingSectionV2 list \<Rightarrow> bool" where
  "bindings_valid bs \<longleftrightarrow> list_all (\<lambda>b. SectionFeatureBindingSectionV2_validate b = Ok ()) bs"

lemma bindings_valid_item:
  "bindings_valid bs \<Longrightarrow> b \<in> set bs \<Longrightarrow> item \<in> set (sb_bindings b) \<Longrightarrow>
     binding_ok (length (sb_payload_refs b)) (length (sb_feature_words b)) item"
  by (auto simp: bindings_valid_def list_all_iff section_validate_Ok)

lemma word_reference_no_panic [simp]: "validate_feature_word_reference w r p h ext surface \<noteq> Panic"
  by (simp add: validate_feature_word_reference_def split: option.split)

lemma addressing_no_panic [simp]: "validate_scope_addressing scope k sid r f \<noteq> Panic"
  by (simp add: validate_scope_addressing_def split: FeatureScopeV2.split)

lemma build_many_no_panic:
  assumes "bindings_valid bindings"
  shows "build_many header footer extended matrix bindings \<noteq> Panic"
proof -
  note item = bindings_valid_item [OF assms]
  have entry: "validate_matrix_entry header footer extended e \<noteq> Panic" for e
    by (auto simp: validate_matrix_entry_def and_then_eq_Panic)
  have checked: "validate_binding_item header footer extended (sb_feature_words b) i \<noteq> Panic"
    if "b \<in> set bindings" "i \<in> set (sb_bindings b)" for b i
    unfolding validate_binding_item_def
    by (auto simp: and_then_eq_Panic binding_words_in_bounds [OF item [OF that]] dest!: spec intro!: try_each_no_panic
        elim!: notE [OF try_each_no_panic, rotated] split: prod.splits)
  have refs: "validate_scoped_metadata_references header footer extended matrix bindings \<noteq> Panic"
    unfolding validate_scoped_metadata_references_def
    by (auto simp: and_then_eq_Panic entry checked elim!: notE [OF try_each_no_panic, rotated] split: option.splits)
  have masks: "scoped_item_words (sb_feature_words b) i \<noteq> Panic" "binding_item_entries (sb_feature_words b) i \<noteq> Panic"
    if "b \<in> set bindings" "i \<in> set (sb_bindings b)" for b i
    unfolding scoped_item_words_def binding_item_entries_def
    by (auto simp: and_then_eq_Panic binding_words_in_bounds [OF item [OF that]] elim!: notE [OF collect_map_no_panic_on, rotated])
  have all: "collect_map (\<lambda>b. map_result concat (collect_map (g b) (sb_bindings b))) bindings \<noteq> Panic"
    if "\<And>b i. b \<in> set bindings \<Longrightarrow> i \<in> set (sb_bindings b) \<Longrightarrow> g b i \<noteq> Panic" for g :: "_ \<Rightarrow> _ \<Rightarrow> 'z list result"
    using that by (intro collect_map_no_panic_on) (simp add: collect_map_no_panic_on)
  have "collect_map (\<lambda>b. map_result concat (collect_map (scoped_item_words (sb_feature_words b)) (sb_bindings b))) bindings \<noteq> Panic"
      "collect_map (\<lambda>b. map_result concat (collect_map (binding_item_entries (sb_feature_words b)) (sb_bindings b))) bindings \<noteq> Panic"
    by (rule all, rule masks, assumption+)+
  with refs show ?thesis
    unfolding build_many_def scoped_required_masks_def Let_def by (auto simp: and_then_eq_Panic)
qed

section \<open>No required bit is lost\<close>

text \<open>The required bits of word \<open>w\<close>: word 0 is in the header, the others in the extended feature set.\<close>

definition declared_required :: "CoveHeaderV1 \<Rightarrow> ExtendedFeatureSetV2 option \<Rightarrow> u32 \<Rightarrow> u64" where
  "declared_required header extended w =
     (if w = 0 then hdr_required_features header
      else case extended of None \<Rightarrow> 0 | Some s \<Rightarrow> required_word s w)"

definition carries :: "FeatureScopeEntry \<Rightarrow> u32 \<Rightarrow> nat \<Rightarrow> bool" where
  "carries e w k \<longleftrightarrow> fse_global_feature_word_index e = w \<and> bit (fse_required_mask e) k"

lemma add_masks_bit:
  "foldl add_mask m ws w = Some v \<Longrightarrow> bit v k \<Longrightarrow>
     (\<exists>v0. m w = Some v0 \<and> bit v0 k) \<or> (\<exists>x. (w, x) \<in> set ws \<and> bit x k)"
proof (induction ws arbitrary: m)
  case (Cons p ws)
  from Cons.IH [of "add_mask m p"] Cons.prems
  consider v0 where "add_mask m p w = Some v0" "bit v0 k" | x where "(w, x) \<in> set ws" "bit x k" by auto
  then show ?case
  proof cases
    case 1
    then show ?thesis
      by (cases p) (auto simp: add_mask_def bit_or_iff split: if_splits option.splits)
  qed auto
qed auto

lemma collect_concat_mem:
  assumes "collect_map f xs = Ok ys"
  shows "z \<in> set (concat ys) \<longleftrightarrow> (\<exists>x \<in> set xs. \<exists>y. f x = Ok y \<and> z \<in> set y)"
  using assms by (induction xs arbitrary: ys) (auto simp: result_simps)

lemma collect_map_all: "collect_map f xs = Ok ys \<Longrightarrow> x \<in> set xs \<Longrightarrow> \<exists>y. f x = Ok y"
  by (induction xs arbitrary: ys) (auto simp: result_simps)

lemma collect_map_mem:
  assumes "collect_map f xs = Ok ys"
  shows "z \<in> set ys \<longleftrightarrow> (\<exists>x \<in> set xs. f x = Ok z)"
  using assms by (induction xs arbitrary: ys) (auto simp: result_simps)

lemma build_many_parts:
  assumes "build_many header footer extended matrix bindings = Ok t"
  obtains scoped bound where "validate_scoped_metadata_references header footer extended matrix bindings = Ok ()"
    and "scoped_required_masks matrix bindings = Ok scoped"
    and "collect_map (\<lambda>b. map_result concat (collect_map (binding_item_entries (sb_feature_words b)) (sb_bindings b))) bindings = Ok bound"
    and "unscoped_entry FS_FileRequired (hdr_primary_profile header) 0 (hdr_required_features header) 0 \<in> set t"
    and "\<And>s i e. extended = Some s \<Longrightarrow> 1 \<le> i \<Longrightarrow> i < unat (efh_word_count (efs_header s)) \<Longrightarrow>
           e \<in> set (extended_word_entries (hdr_primary_profile header) scoped s (of_nat i)) \<Longrightarrow> e \<in> set t"
    and "\<And>m e. matrix = Some m \<Longrightarrow> e \<in> set (pm_entries m) \<Longrightarrow> capability_scope_entry e \<in> set t"
    and "\<And>e. e \<in> set (concat bound) \<Longrightarrow> e \<in> set t"
proof -
  from assms obtain scoped bound where parts:
      "validate_scoped_metadata_references header footer extended matrix bindings = Ok ()"
      "scoped_required_masks matrix bindings = Ok scoped"
      "collect_map (\<lambda>b. map_result concat (collect_map (binding_item_entries (sb_feature_words b)) (sb_bindings b))) bindings = Ok bound"
    and t: "t = normalize
          ([unscoped_entry FS_FileRequired (hdr_primary_profile header) 0 (hdr_required_features header) 0] @
           (if hdr_optional_features header \<noteq> 0
            then [unscoped_entry FS_AdvisoryOnly (hdr_primary_profile header) 0 0 (hdr_optional_features header)] else []) @
           map section_entry (filter (\<lambda>e. se_required_features e \<noteq> 0 \<or> se_optional_features e \<noteq> 0) (ft_sections footer)) @
           (case extended of None \<Rightarrow> [] | Some s \<Rightarrow>
             concat (map (\<lambda>i. extended_word_entries (hdr_primary_profile header) scoped s (of_nat i)) [1..<unat (efh_word_count (efs_header s))])) @
           (case matrix of None \<Rightarrow> [] | Some m \<Rightarrow> map capability_scope_entry (pm_entries m)) @ concat bound)"
    by (auto simp: build_many_def result_simps Let_def)
  show thesis
  proof (rule that [OF parts])
    fix s i e
    assume "extended = Some s" "1 \<le> i" "i < unat (efh_word_count (efs_header s))"
      "e \<in> set (extended_word_entries (hdr_primary_profile header) scoped s (of_nat i))"
    then show "e \<in> set t" unfolding t normalize_def set_sort by auto
  qed (unfold t normalize_def set_sort, auto)
qed

text \<open>Words whose requirement a capability or a binding narrows are carried by a narrower entry.\<close>

lemma narrowed_word_carried:
  assumes built: "build_many header footer extended matrix bindings = Ok t"
    and scoped: "scoped_required_masks matrix bindings = Ok scoped" and "scoped w = Some v" and "bit v k"
  shows "\<exists>e \<in> set t. carries e w k \<and> fse_scope e \<noteq> FS_AdvisoryOnly"
proof -
  from built obtain bound where valid: "validate_scoped_metadata_references header footer extended matrix bindings = Ok ()"
    and bound: "collect_map (\<lambda>b. map_result concat (collect_map (binding_item_entries (sb_feature_words b)) (sb_bindings b))) bindings = Ok bound"
    and capability: "\<And>m e. matrix = Some m \<Longrightarrow> e \<in> set (pm_entries m) \<Longrightarrow> capability_scope_entry e \<in> set t"
    and binding: "\<And>e. e \<in> set (concat bound) \<Longrightarrow> e \<in> set t"
    by (rule build_many_parts) blast
  from scoped obtain words where
    words: "collect_map (\<lambda>b. map_result concat (collect_map (scoped_item_words (sb_feature_words b)) (sb_bindings b))) bindings = Ok words"
    and masks: "scoped = foldl add_mask Map.empty (scoped_matrix_words matrix @ concat words)"
    by (auto simp: scoped_required_masks_def result_simps)
  from add_masks_bit [of Map.empty "scoped_matrix_words matrix @ concat words" w v k] assms(3,4) masks
  obtain x where x: "(w, x) \<in> set (scoped_matrix_words matrix) \<union> set (concat words)" "bit x k" by auto
  show ?thesis
  proof (cases "(w, x) \<in> set (scoped_matrix_words matrix)")
    case True
    then obtain m e where e: "matrix = Some m" "e \<in> set (pm_entries m)" "pce_global_feature_word_index e = w" "pce_required_mask e = x"
      by (auto simp: scoped_matrix_words_def split: option.splits)
    moreover have "pce_scope e \<noteq> FS_AdvisoryOnly"
      using valid e x(2) by (auto simp: validate_scoped_metadata_references_def result_simps list_all_iff validate_matrix_entry_def split: if_splits)
    ultimately show ?thesis using capability [OF e(1,2)] x(2)
      by (intro bexI [of _ "capability_scope_entry e"]) (simp_all add: carries_def capability_scope_entry_def)
  next
    case False
    with x obtain b item ps where item: "b \<in> set bindings" "item \<in> set (sb_bindings b)"
        "scoped_item_words (sb_feature_words b) item = Ok ps" "(w, x) \<in> set ps"
      by (auto simp: collect_concat_mem [OF words] collect_concat_mem result_simps simp del: set_concat)
    then have ps: "collect_map (required_binding_word (sb_feature_words b) item) [0..<unat (fb_required_word_count item)] = Ok ps"
      by (auto simp: scoped_item_words_def split: if_splits)
    have "fb_required_word_count item \<noteq> 0" using ps item(4) by auto
    moreover have "validate_binding_item header footer extended (sb_feature_words b) item = Ok ()"
      using valid item(1,2) by (auto simp: validate_scoped_metadata_references_def result_simps list_all_iff)
    ultimately have "fb_scope item \<noteq> FS_AdvisoryOnly" by (auto simp: validate_binding_item_def split: if_splits)
    moreover have "binding_scope_entry item (fb_scope item) w x 0 \<in> set t"
    proof (rule binding)
      from bound have "\<exists>ys. map_result concat (collect_map (binding_item_entries (sb_feature_words b)) (sb_bindings b)) = Ok ys"
        using item(1) by (rule collect_map_all)
      then obtain es where es: "collect_map (binding_item_entries (sb_feature_words b)) (sb_bindings b) = Ok es"
        by (auto simp: result_simps)
      then have "\<exists>y. binding_item_entries (sb_feature_words b) item = Ok y"
        using item(2) by (rule collect_map_all)
      then obtain y where y: "binding_item_entries (sb_feature_words b) item = Ok y" by blast
      then have "binding_scope_entry item (fb_scope item) w x 0 \<in> set y"
        using ps item(4) by (force simp: binding_item_entries_def result_simps)
      then show "binding_scope_entry item (fb_scope item) w x 0 \<in> set (concat bound)"
        unfolding collect_concat_mem [OF bound] using item(1,2) y es
        by (intro bexI [of _ b] exI [of _ "concat es"]) (auto simp: collect_concat_mem [OF es] simp del: set_concat)
    qed
    ultimately show ?thesis using x(2)
      by (intro bexI [of _ "binding_scope_entry item (fb_scope item) w x 0"]) (simp_all add: carries_def binding_scope_entry_def)
  qed
qed

text \<open>Every required bit the file declares is carried by an entry that somebody enforces.\<close>

definition extended_valid :: "ExtendedFeatureSetV2 option \<Rightarrow> bool" where
  "extended_valid extended \<longleftrightarrow> (case extended of None \<Rightarrow> True | Some s \<Rightarrow> ExtendedFeatureSetV2_validate s = Ok ())"

lemma required_bit_carried:
  assumes built: "build_many header footer extended matrix bindings = Ok t" and valid: "extended_valid extended"
    and set: "bit (declared_required header extended w) k"
  shows "\<exists>e \<in> set t. carries e w k \<and> fse_scope e \<noteq> FS_AdvisoryOnly"
proof -
  from built obtain scoped where scoped: "scoped_required_masks matrix bindings = Ok scoped"
    and file_in: "unscoped_entry FS_FileRequired (hdr_primary_profile header) 0 (hdr_required_features header) 0 \<in> set t"
    and words: "\<And>s i e. extended = Some s \<Longrightarrow> 1 \<le> i \<Longrightarrow> i < unat (efh_word_count (efs_header s)) \<Longrightarrow>
           e \<in> set (extended_word_entries (hdr_primary_profile header) scoped s (of_nat i)) \<Longrightarrow> e \<in> set t"
    by (rule build_many_parts) blast
  show ?thesis
  proof (cases "w = 0")
    case True
    then show ?thesis using set by (intro bexI [OF _ file_in]) (simp add: carries_def unscoped_entry_def declared_required_def)
  next
    case False
    with set obtain s where s: "extended = Some s" and b: "bit (required_word s w) k"
      by (auto simp: declared_required_def split: option.splits)
    have "unat w < length (efs_required_feature_words s)"
      using b by (auto simp: required_word_def word_or_default_def split: if_splits)
    moreover have "length (efs_required_feature_words s) \<le> unat (efh_word_count (efs_header s))"
      using valid s by (auto simp: extended_valid_def ExtendedFeatureSetV2_validate_def result_simps word_less_nat_alt
          ExtendedFeatureSetHeaderV2_validate_counts_def split: if_splits)
    ultimately have less: "unat w < unat (efh_word_count (efs_header s))" by simp
    have pos: "1 \<le> unat w" using False by (simp add: Suc_le_eq unat_gt_0)
    show ?thesis
    proof (cases "\<exists>v. scoped w = Some v \<and> bit v k")
      case True
      then show ?thesis using narrowed_word_carried [OF built scoped] by blast
    next
      case False
      define r where "r = required_word s w AND NOT (case scoped w of None \<Rightarrow> 0 | Some v \<Rightarrow> v)"
      have "k < 64" using bit_imp_le_length [OF b] by simp
      with False b have k: "bit r k" by (auto simp: r_def bit_simps split: option.splits)
      then have "r \<noteq> 0" by auto
      then have "unscoped_entry FS_FileRequired (hdr_primary_profile header) w r 0
          \<in> set (extended_word_entries (hdr_primary_profile header) scoped s (of_nat (unat w)))"
        by (simp add: extended_word_entries_def Let_def r_def)
      from words [OF s pos less this] k show ?thesis
        by (intro bexI [of _ "unscoped_entry FS_FileRequired (hdr_primary_profile header) w r 0"])
           (simp_all add: carries_def unscoped_entry_def)
    qed
  qed
qed

lemma carries_unknown:
  assumes "carries e w k" and "w \<noteq> 0 \<or> \<not> bit KNOWN_FEATURE_BITS_MASK k"
  shows "unknown_required_mask e \<noteq> 0"
proof -
  have "bit (unknown_required_mask e) k"
    using assms bit_imp_le_length [of "fse_required_mask e" k] by (auto simp: carries_def unknown_required_mask_def bit_simps)
  then show ?thesis by auto
qed

text \<open>C9: a required feature bit this reader does not know is never ignored: once the scope table is built and
  neither the file-level check nor the check of a request objects, some entry confines the bit to
  a section, page, profile or operation, and the request needs none of the entries that carry it.\<close>

theorem unknown_bits_confined:
  assumes "build_many header footer extended matrix bindings = Ok t" and "extended_valid extended"
    and "reject_file_required_unknowns t = Ok ()" and "reject_unknowns_for_request t request = Ok ()"
    and "bit (declared_required header extended w) k" and "w \<noteq> 0 \<or> \<not> bit KNOWN_FEATURE_BITS_MASK k"
  shows "list_ex (\<lambda>e. carries e w k \<and> fse_scope e \<in> {FS_SectionRequired, FS_PageRequired, FS_ProfileRequired, FS_OperationRequired}) t
     \<and> list_all (\<lambda>e. \<not> (carries e w k \<and> scope_needed request e)) t"
proof -
  obtain e where e: "e \<in> set t" "carries e w k" "fse_scope e \<noteq> FS_AdvisoryOnly"
    using required_bit_carried [OF assms(1,2,5)] by blast
  have "fse_scope e \<noteq> FS_FileRequired"
    using assms(3) e(1) carries_unknown [OF e(2) assms(6)]
    by (auto simp: reject_file_required_unknowns_def result_simps list_all_iff split: if_splits)
  with e have "list_ex (\<lambda>e. carries e w k \<and> fse_scope e \<in> {FS_SectionRequired, FS_PageRequired, FS_ProfileRequired, FS_OperationRequired}) t"
    by (auto simp: list_ex_iff intro!: bexI [of _ e]) (cases "fse_scope e"; simp)
  moreover have "list_all (\<lambda>e. \<not> (carries e w k \<and> scope_needed request e)) t"
    using assms(4) carries_unknown [OF _ assms(6)]
    by (auto simp: reject_unknowns_for_request_def result_simps list_all_iff split: if_splits)
  ultimately show ?thesis by blast
qed

definition sample_cove_header :: CoveHeaderV1 where
  "sample_cove_header =
     \<lparr>hdr_magic = MAGIC_COVE, hdr_header_len = HEADER_LEN_V1, hdr_version_major = VERSION_MAJOR_V1, hdr_version_minor = 0,
      hdr_primary_profile = 2, hdr_endianness = ENDIANNESS_LITTLE, hdr_flags = 0, hdr_required_features = 2,
      hdr_optional_features = 0, hdr_file_id = replicate 16 0, hdr_producer_scope_id = replicate 16 0,
      hdr_producer_scope_kind = 0, hdr_reserved_scope_flags = 0, hdr_created_at_us = 0, hdr_feature_set_section_id = 1,
      hdr_profile_capability_section_id = 2, hdr_fast_metadata_section_id = 0, hdr_v2_flags = 0,
      hdr_reserved = replicate 64 0, hdr_checksum = 0\<rparr>"

definition sample_footer_header :: CoveFooterHeaderV1 where
  "sample_footer_header =
     \<lparr>fh_footer_magic = MAGIC_COVE_FOOTER, fh_footer_version = FOOTER_VERSION_V1, fh_header_len = 44, fh_section_count = 0,
      fh_section_entry_len = 76, fh_flags = 0, fh_metadata_len = 0, fh_reserved = replicate 24 0\<rparr>"

definition sample_extended :: ExtendedFeatureSetV2 where
  "sample_extended =
     \<lparr>efs_header = \<lparr>efh_word_count = 2, efh_required_word_count = 2, efh_optional_word_count = 0, efh_flags = 0, efh_checksum = 0\<rparr>,
      efs_required_feature_words = [2, 8], efs_optional_feature_words = []\<rparr>"

definition sample_capability :: ProfileCapabilityEntryV2 where
  "sample_capability =
     \<lparr>pce_profile = 3, pce_scope = FS_ProfileRequired, pce_operation_kind = Op_None, pce_global_feature_word_index = 1,
      pce_required_mask = 8, pce_optional_mask = 0, pce_section_id = 0, pce_target_local_ref = - 1,
      pce_flags = 0, pce_reserved = 0, pce_checksum = 0\<rparr>"

definition sample_matrix :: ProfileCapabilityMatrixV2 where
  "sample_matrix =
     \<lparr>pm_header = \<lparr>pcm_magic = MAGIC_PROFILE_CAPABILITY_MATRIX, pcm_version_major = 2, pcm_header_len = 40, pcm_entry_len = 48,
        pcm_reserved = 0, pcm_entry_count = 1, pcm_flags = 0, pcm_entries_offset = 40, pcm_entries_length = 48, pcm_checksum = 0\<rparr>,
      pm_entries = [sample_capability]\<rparr>"

lemma sample_scope_table:
  "build_many sample_cove_header \<lparr>ft_header = sample_footer_header, ft_sections = [], ft_metadata_json = []\<rparr>
     (Some sample_extended) (Some sample_matrix) [] =
   Ok [unscoped_entry FS_FileRequired 2 0 2 0, capability_scope_entry sample_capability]"
  by (simp add: build_many_def validate_scoped_metadata_references_def validate_matrix_entry_def validate_scope_addressing_def
      validate_feature_word_reference_def scoped_required_masks_def scoped_matrix_words_def add_mask_def extended_word_entries_def
      required_word_def optional_word_def word_or_default_def normalize_def scope_sort_key_def unscoped_entry_def
      capability_scope_entry_def sample_cove_header_def sample_extended_def sample_matrix_def sample_capability_def upt_rec Let_def word_le_nat_alt)

lemma unknown_bits_confined_witness:
  "list_ex (\<lambda>e. carries e 1 3 \<and> fse_scope e \<in> {FS_SectionRequired, FS_PageRequired, FS_ProfileRequired, FS_OperationRequired})
      [unscoped_entry FS_FileRequired 2 0 2 0, capability_scope_entry sample_capability]"
  using unknown_bits_confined [OF sample_scope_table, of "with_profile FeatureUseRequestV2_new 2" 1 3]
  by (simp add: extended_valid_def ExtendedFeatureSetV2_validate_def ExtendedFeatureSetHeaderV2_validate_counts_def
      reject_file_required_unknowns_def reject_unknowns_for_request_def unknown_required_mask_def unscoped_entry_def
      capability_scope_entry_def scope_needed_def declared_required_def required_word_def word_or_default_def
      with_profile_def FeatureUseRequestV2_new_def sample_extended_def sample_capability_def
      KNOWN_FEATURE_BITS_MASK_def KNOWN_FEATURE_BITS_def carries_def)

section \<open>Round trips of the two sections\<close>

lemma collect_map_image: "list_all (\<lambda>x. f (g x) = Ok (h x)) xs \<Longrightarrow> collect_map f (map g xs) = Ok (map h xs)"
  by (induction xs) simp_all

lemma capability_validate_sealed [simp]:
  "ProfileCapabilityEntryV2_validate (e\<lparr>pce_checksum := c\<rparr>) = ProfileCapabilityEntryV2_validate e"
  by (simp add: ProfileCapabilityEntryV2_validate_def)

lemma capability_loop_sealed:
  "capability_loop prev seen (map (\<lambda>e. e\<lparr>pce_checksum := c e\<rparr>) es) = capability_loop prev seen es"
  by (induction es arbitrary: prev seen)
     (simp_all add: capability_key_def Let_def)

lemma capability_loop_entries: "capability_loop prev seen es = Ok u \<Longrightarrow> e \<in> set es \<Longrightarrow> ProfileCapabilityEntryV2_validate e = Ok ()"
  by (induction es arbitrary: prev seen) (auto simp: result_simps Let_def split: if_splits option.splits)

text \<open>The entries are strictly ascending in their key, so every key occurs once.\<close>

lemma capability_loop_sorted:
  "capability_loop prev seen es = Ok u \<Longrightarrow>
     sorted_wrt (<) (map capability_key es) \<and> (\<forall>p. prev = Some p \<longrightarrow> (\<forall>e \<in> set es. p < capability_key e))"
proof (induction es arbitrary: prev seen)
  case (Cons e es)
  let ?k = "capability_key e"
  from Cons.prems have rest: "capability_loop (Some ?k) (insert ?k seen) es = Ok u"
    and above: "\<not> (case prev of Some previous \<Rightarrow> ?k \<le> previous | None \<Rightarrow> False)"
    by (simp_all add: result_simps Let_def split: if_splits)
  from Cons.IH [OF rest] have IH: "sorted_wrt (<) (map capability_key es)" "\<forall>e' \<in> set es. ?k < capability_key e'" by auto
  have "p < ?k" if "prev = Some p" for p using above that by (simp add: not_le)
  with IH show ?case by (auto dest: less_trans)
qed simp

lemma read_words_encode: "read_words (concat (map (le_bytes 8) ws)) = Ok (ws :: u64 list)"
proof -
  have "chunks_exact 8 (concat (map (le_bytes 8) ws)) = map (le_bytes 8) ws"
    by (rule chunks_exact_concat) simp_all
  then show ?thesis
    by (simp add: read_words_def length_concat_uniform [where w = 8] comp_def from_le_le_bytes)
qed

definition extended_sealed :: "(bytes \<Rightarrow> u32) \<Rightarrow> ExtendedFeatureSetV2 \<Rightarrow> ExtendedFeatureSetV2" where
  "extended_sealed crc s = s\<lparr>efs_header := (efs_header s)\<lparr>efh_checksum := crc (ExtendedFeatureSetHeaderV2_image (efs_header s))\<rparr>\<rparr>"

lemma extended_roundtrip:
  assumes "ExtendedFeatureSetV2_validate s = Ok ()"
  shows "\<exists>bs. ExtendedFeatureSetV2_serialize crc s = Ok bs \<and> ExtendedFeatureSetV2_parse crc bs = Ok (extended_sealed crc s)"
proof -
  let ?h = "efs_header s" and ?r = "efs_required_feature_words s" and ?p = "efs_optional_feature_words s"
  let ?hs = "?h\<lparr>efh_checksum := crc (ExtendedFeatureSetHeaderV2_image ?h)\<rparr>"
  from assms have counts: "ExtendedFeatureSetHeaderV2_validate_counts ?h = Ok ()"
    and len: "length ?r = unat (efh_required_word_count ?h)" "length ?p = unat (efh_optional_word_count ?h)"
    by (auto simp: ExtendedFeatureSetV2_validate_def result_simps split: if_splits)
  have same: "?h\<lparr>efh_required_word_count := of_nat (length ?r), efh_optional_word_count := of_nat (length ?p),
      efh_word_count := max (max (efh_word_count ?h) (of_nat (length ?r))) (of_nat (length ?p))\<rparr> = ?h"
    using counts by (simp add: len ExtendedFeatureSetHeaderV2_validate_counts_def not_less max.absorb1 split: if_splits)
  let ?bs = "ExtendedFeatureSetHeaderV2_sealed crc ?h @ concat (map (le_bytes 8) ?r) @ concat (map (le_bytes 8) ?p)"
  have ser: "ExtendedFeatureSetV2_serialize crc s = Ok ?bs"
    by (simp add: ExtendedFeatureSetV2_serialize_def assms same ExtendedFeatureSetHeaderV2_serialize_def counts Let_def)
  have "ExtendedFeatureSetHeaderV2_validate_counts ?hs = Ok ()"
    using counts by (simp add: ExtendedFeatureSetHeaderV2_validate_counts_def)
  then have header: "ExtendedFeatureSetHeaderV2_parse crc ?bs = Ok ?hs"
    by (rule ExtendedFeatureSetHeaderV2_roundtrip)
  have l: "length (concat (map (le_bytes 8) ws)) = length ws * 8" for ws :: "u64 list"
    by (rule length_concat_uniform) simp
  have small: "length ?r < 2 ^ 32" "length ?p < 2 ^ 32" unfolding len using unat_less_power [where 'a = 32] by auto
  have at: "index_range ?bs (20, 20 + length ?r * 8) = Ok (concat (map (le_bytes 8) ?r))"
      "index_range ?bs (20 + length ?r * 8, 20 + length ?r * 8 + length ?p * 8) = Ok (concat (map (le_bytes 8) ?p))"
    using index_region(2) [of "ExtendedFeatureSetHeaderV2_sealed crc ?h" "concat (map (le_bytes 8) ?r)" "concat (map (le_bytes 8) ?p)"]
      index_region(2) [of "ExtendedFeatureSetHeaderV2_sealed crc ?h @ concat (map (le_bytes 8) ?r)" "concat (map (le_bytes 8) ?p)" "[]"]
    by (simp_all add: l)
  have "ExtendedFeatureSetV2_validate (extended_sealed crc s) = Ok ()"
    using assms by (simp add: extended_sealed_def ExtendedFeatureSetV2_validate_def ExtendedFeatureSetHeaderV2_validate_counts_def)
  moreover have "extended_sealed crc s = \<lparr>efs_header = ?hs, efs_required_feature_words = ?r, efs_optional_feature_words = ?p\<rparr>"
    by (cases s) (simp add: extended_sealed_def)
  ultimately have "ExtendedFeatureSetV2_parse crc ?bs = Ok (extended_sealed crc s)"
    unfolding ExtendedFeatureSetV2_parse_def header
    using small at by (simp add: word_bytes_len_def checked_mul_def checked_add_def len l ExtendedFeatureSetHeaderV2_LEN_def read_words_encode)
  with ser show ?thesis by blast
qed

definition matrix_sealed :: "(bytes \<Rightarrow> u32) \<Rightarrow> ProfileCapabilityMatrixV2 \<Rightarrow> ProfileCapabilityMatrixV2" where
  "matrix_sealed crc m =
     \<lparr>pm_header = (matrix_header m)\<lparr>pcm_checksum := crc (ProfileCapabilityMatrixHeaderV2_image (matrix_header m))\<rparr>,
      pm_entries = map (\<lambda>e. e\<lparr>pce_checksum := crc (ProfileCapabilityEntryV2_image e)\<rparr>) (pm_entries m)\<rparr>"

lemma matrix_roundtrip:
  assumes valid: "ProfileCapabilityMatrixV2_validate m = Ok ()" and reserved: "pcm_reserved (pm_header m) = 0"
    and small: "length (pm_entries m) * 48 + 40 < 2 ^ 32"
  shows "\<exists>bs. ProfileCapabilityMatrixV2_serialize crc m = Ok bs \<and> ProfileCapabilityMatrixV2_parse crc bs = Ok (matrix_sealed crc m)"
proof -
  let ?h = "matrix_header m" and ?es = "pm_entries m"
  let ?hs = "?h\<lparr>pcm_checksum := crc (ProfileCapabilityMatrixHeaderV2_image ?h)\<rparr>"
  let ?H = "ProfileCapabilityMatrixHeaderV2_sealed crc ?h" and ?E = "concat (map (ProfileCapabilityEntryV2_sealed crc) ?es)"
  let ?seal = "\<lambda>e. e\<lparr>pce_checksum := crc (ProfileCapabilityEntryV2_image e)\<rparr>"
  from valid have loop: "capability_loop None {} ?es = Ok ()" and count: "unat (pcm_entry_count (pm_header m)) = length ?es"
    by (simp_all add: ProfileCapabilityMatrixV2_validate_def split: if_splits)
  have ok: "ProfileCapabilityEntryV2_validate e = Ok ()" if "e \<in> set ?es" for e
    using capability_loop_entries [OF loop that] .
  have "collect_map (ProfileCapabilityEntryV2_serialize crc) ?es = Ok (map (ProfileCapabilityEntryV2_sealed crc) ?es)"
    by (rule collect_map_Ok) (simp add: ok ProfileCapabilityEntryV2_serialize_def)
  then have ser: "ProfileCapabilityMatrixV2_serialize crc m = Ok (?H @ ?E)"
    using reserved by (simp add: ProfileCapabilityMatrixV2_serialize_def valid ProfileCapabilityMatrixHeaderV2_serialize_def matrix_header_def)
  have lE: "length ?E = length ?es * 48" by (rule length_concat_uniform) simp
  have header: "ProfileCapabilityMatrixHeaderV2_parse crc (?H @ ?E) = Ok ?hs"
  proof (rule ProfileCapabilityMatrixHeaderV2_roundtrip)
    show "ProfileCapabilityMatrixHeaderV2_check ?hs = Ok ()"
      using reserved by (simp add: ProfileCapabilityMatrixHeaderV2_check_def matrix_header_def ProfileCapabilityMatrixHeaderV2_LEN_def
          ProfileCapabilityEntryV2_LEN_def)
  qed (simp add: matrix_header_def MAGIC_PROFILE_CAPABILITY_MATRIX_def)
  have fields: "unat (pcm_entries_offset ?h) = 40" "unat (pcm_entries_length ?h) = length ?es * 48"
      "checked_mul_u32 (pcm_entry_count ?h) ProfileCapabilityEntryV2_LEN = Ok (of_nat (length ?es) * 48)"
      "unat (of_nat (length ?es) * 48 :: u32) = length ?es * 48"
    using small u32_table_length [of "length ?es" 48] unat_of_nat_less [of "length ?es * 48", where 'a = 64]
    by (simp_all add: matrix_header_def ProfileCapabilityMatrixHeaderV2_LEN_def ProfileCapabilityEntryV2_LEN_def checked_mul_u32_def)
  have chunks: "chunks_exact ProfileCapabilityEntryV2_LEN ?E = map (ProfileCapabilityEntryV2_sealed crc) ?es"
    by (rule chunks_exact_concat) (simp_all add: ProfileCapabilityEntryV2_LEN_def)
  have "ProfileCapabilityEntryV2_parse crc (ProfileCapabilityEntryV2_sealed crc e) = Ok (?seal e)" if "e \<in> set ?es" for e
    using ProfileCapabilityEntryV2_roundtrip [where h = e and crc = crc and rest = "[]"] ok [OF that] by simp
  then have "list_all (\<lambda>e. ProfileCapabilityEntryV2_parse crc (ProfileCapabilityEntryV2_sealed crc e) = Ok (?seal e)) ?es"
    by (simp add: list_all_iff)
  then have entries: "collect_map (ProfileCapabilityEntryV2_parse crc) (map (ProfileCapabilityEntryV2_sealed crc) ?es) = Ok (map ?seal ?es)"
    by (rule collect_map_image)
  have "ProfileCapabilityMatrixV2_validate (matrix_sealed crc m) = Ok ()"
    using loop small by (simp add: ProfileCapabilityMatrixV2_validate_def matrix_sealed_def matrix_header_def capability_loop_sealed unat_of_nat_less)
  then have "ProfileCapabilityMatrixV2_parse crc (?H @ ?E) = Ok (matrix_sealed crc m)"
    unfolding ProfileCapabilityMatrixV2_parse_def header
    using small index_region(2) [of ?H ?E "[]"]
    by (simp add: fields Let_def checked_add_def lE chunks entries matrix_sealed_def ProfileCapabilityMatrixHeaderV2_LEN_def)
  with ser show ?thesis by blast
qed

end
