(* ===== verification/Registry.thy ===== *)
theory Registry
  imports Constants
begin

text \<open>
  The spec registries of \<open>registry.rs\<close> that validators consult: the feature bits with their names and
  the section kinds with their wire names, profiles and the feature bit a file must advertise to use
  them. The prose fields \<open>spec_section\<close> and \<open>description\<close> are not kept.
\<close>

section \<open>Feature bits\<close>

named_theorems feature_defs \<open>the numeric values of the feature bits\<close>

definition FEATURE_OBJECT_PROFILE :: u64 where [feature_defs]: "FEATURE_OBJECT_PROFILE = 0x1"

definition FEATURE_TABLE_PROFILE :: u64 where [feature_defs]: "FEATURE_TABLE_PROFILE = 0x2"

definition FEATURE_ARCHIVE_PROFILE :: u64 where [feature_defs]: "FEATURE_ARCHIVE_PROFILE = 0x4"

definition FEATURE_ENGINE_PROFILE :: u64 where [feature_defs]: "FEATURE_ENGINE_PROFILE = 0x8"

definition FEATURE_HARBOR_PROFILE :: u64 where [feature_defs]: "FEATURE_HARBOR_PROFILE = 0x10"

definition FEATURE_FILE_DICTIONARY :: u64 where [feature_defs]: "FEATURE_FILE_DICTIONARY = 0x20"

definition FEATURE_NUMCODES :: u64 where [feature_defs]: "FEATURE_NUMCODES = 0x40"

definition FEATURE_COLUMN_DOMAINS :: u64 where [feature_defs]: "FEATURE_COLUMN_DOMAINS = 0x80"

definition FEATURE_EXACT_SETS :: u64 where [feature_defs]: "FEATURE_EXACT_SETS = 0x100"

definition FEATURE_BLOOM_FILTERS :: u64 where [feature_defs]: "FEATURE_BLOOM_FILTERS = 0x200"

definition FEATURE_INVERTED_INDEXES :: u64 where [feature_defs]: "FEATURE_INVERTED_INDEXES = 0x400"

definition FEATURE_LOOKUP_INDEXES :: u64 where [feature_defs]: "FEATURE_LOOKUP_INDEXES = 0x800"

definition FEATURE_AGGREGATE_SYNOPSES :: u64 where [feature_defs]: "FEATURE_AGGREGATE_SYNOPSES = 0x1000"

definition FEATURE_COMPOSITE_ZONES :: u64 where [feature_defs]: "FEATURE_COMPOSITE_ZONES = 0x2000"

definition FEATURE_TOPN_SUMMARIES :: u64 where [feature_defs]: "FEATURE_TOPN_SUMMARIES = 0x4000"

definition FEATURE_TRUST_CHAIN :: u64 where [feature_defs]: "FEATURE_TRUST_CHAIN = 0x8000"

definition FEATURE_REDACTIONS :: u64 where [feature_defs]: "FEATURE_REDACTIONS = 0x10000"

definition FEATURE_NESTED_COLUMNS :: u64 where [feature_defs]: "FEATURE_NESTED_COLUMNS = 0x20000"

definition FEATURE_DIGEST_MANIFEST :: u64 where [feature_defs]: "FEATURE_DIGEST_MANIFEST = 0x40000"

definition FEATURE_ARROW_INTEROP_HINTS :: u64 where [feature_defs]: "FEATURE_ARROW_INTEROP_HINTS = 0x80000"

definition FEATURE_LAKEHOUSE_HINTS :: u64 where [feature_defs]: "FEATURE_LAKEHOUSE_HINTS = 0x100000"

definition FEATURE_EXTENSION_REGISTRY :: u64 where [feature_defs]: "FEATURE_EXTENSION_REGISTRY = 0x200000"

definition FEATURE_CODEC_LZ4 :: u64 where [feature_defs]: "FEATURE_CODEC_LZ4 = 0x400000"

definition FEATURE_CODEC_ZSTD :: u64 where [feature_defs]: "FEATURE_CODEC_ZSTD = 0x800000"

definition FEATURE_SEMANTIC_MAP :: u64 where [feature_defs]: "FEATURE_SEMANTIC_MAP = 0x1000000"

definition FEATURE_PAGE_PAYLOAD_ELISION :: u64 where [feature_defs]: "FEATURE_PAGE_PAYLOAD_ELISION = 0x2000000"

definition FEATURE_CODEC_EXTENSION_REGISTRY :: u64 where [feature_defs]: "FEATURE_CODEC_EXTENSION_REGISTRY = 0x4000000"

definition FEATURE_REGISTERED_ENCODINGS :: u64 where [feature_defs]: "FEATURE_REGISTERED_ENCODINGS = 0x8000000"

definition FEATURE_LAYOUT_PLAN :: u64 where [feature_defs]: "FEATURE_LAYOUT_PLAN = 0x10000000"

definition FEATURE_SCAN_SPLIT_INDEX :: u64 where [feature_defs]: "FEATURE_SCAN_SPLIT_INDEX = 0x20000000"

definition FEATURE_PAGE_CLUSTER_DIRECTORY :: u64 where [feature_defs]: "FEATURE_PAGE_CLUSTER_DIRECTORY = 0x40000000"

definition FEATURE_ZERO_COPY_BUFFER_MAP :: u64 where [feature_defs]: "FEATURE_ZERO_COPY_BUFFER_MAP = 0x80000000"

definition FEATURE_FAST_METADATA_INDEX :: u64 where [feature_defs]: "FEATURE_FAST_METADATA_INDEX = 0x100000000"

definition FEATURE_RUNTIME_COMPATIBILITY_HINTS :: u64 where [feature_defs]: "FEATURE_RUNTIME_COMPATIBILITY_HINTS = 0x200000000"

definition FEATURE_EXTENDED_FEATURE_SET :: u64 where [feature_defs]: "FEATURE_EXTENDED_FEATURE_SET = 0x400000000"

definition FEATURE_CODEC_FALLBACK_PAYLOADS :: u64 where [feature_defs]: "FEATURE_CODEC_FALLBACK_PAYLOADS = 0x800000000"

definition FEATURE_COVERAGE_METADATA :: u64 where [feature_defs]: "FEATURE_COVERAGE_METADATA = 0x1000000000"

definition FEATURE_COVERAGE_PLAN_CANDIDATES :: u64 where [feature_defs]: "FEATURE_COVERAGE_PLAN_CANDIDATES = 0x2000000000"

definition FEATURE_SECONDARY_INDEX_ARTIFACT :: u64 where [feature_defs]: "FEATURE_SECONDARY_INDEX_ARTIFACT = 0x4000000000"

definition FEATURE_INDEX_ONLY_CAPABILITY :: u64 where [feature_defs]: "FEATURE_INDEX_ONLY_CAPABILITY = 0x8000000000"

definition FEATURE_COVERAGE_CACHE_HINTS :: u64 where [feature_defs]: "FEATURE_COVERAGE_CACHE_HINTS = 0x10000000000"

record FeatureInfo =
  fi_bit :: u64
  fi_name :: string

definition FEATURE_REGISTRY :: "FeatureInfo list" where
  "FEATURE_REGISTRY =
     [\<lparr>fi_bit = FEATURE_OBJECT_PROFILE, fi_name = ''FEATURE_OBJECT_PROFILE''\<rparr>,
      \<lparr>fi_bit = FEATURE_TABLE_PROFILE, fi_name = ''FEATURE_TABLE_PROFILE''\<rparr>,
      \<lparr>fi_bit = FEATURE_ARCHIVE_PROFILE, fi_name = ''FEATURE_ARCHIVE_PROFILE''\<rparr>,
      \<lparr>fi_bit = FEATURE_ENGINE_PROFILE, fi_name = ''FEATURE_ENGINE_PROFILE''\<rparr>,
      \<lparr>fi_bit = FEATURE_HARBOR_PROFILE, fi_name = ''FEATURE_HARBOR_PROFILE''\<rparr>,
      \<lparr>fi_bit = FEATURE_FILE_DICTIONARY, fi_name = ''FEATURE_FILE_DICTIONARY''\<rparr>,
      \<lparr>fi_bit = FEATURE_NUMCODES, fi_name = ''FEATURE_NUMCODES''\<rparr>,
      \<lparr>fi_bit = FEATURE_COLUMN_DOMAINS, fi_name = ''FEATURE_COLUMN_DOMAINS''\<rparr>,
      \<lparr>fi_bit = FEATURE_EXACT_SETS, fi_name = ''FEATURE_EXACT_SETS''\<rparr>,
      \<lparr>fi_bit = FEATURE_BLOOM_FILTERS, fi_name = ''FEATURE_BLOOM_FILTERS''\<rparr>,
      \<lparr>fi_bit = FEATURE_INVERTED_INDEXES, fi_name = ''FEATURE_INVERTED_INDEXES''\<rparr>,
      \<lparr>fi_bit = FEATURE_LOOKUP_INDEXES, fi_name = ''FEATURE_LOOKUP_INDEXES''\<rparr>,
      \<lparr>fi_bit = FEATURE_AGGREGATE_SYNOPSES, fi_name = ''FEATURE_AGGREGATE_SYNOPSES''\<rparr>,
      \<lparr>fi_bit = FEATURE_COMPOSITE_ZONES, fi_name = ''FEATURE_COMPOSITE_ZONES''\<rparr>,
      \<lparr>fi_bit = FEATURE_TOPN_SUMMARIES, fi_name = ''FEATURE_TOPN_SUMMARIES''\<rparr>,
      \<lparr>fi_bit = FEATURE_TRUST_CHAIN, fi_name = ''FEATURE_TRUST_CHAIN''\<rparr>,
      \<lparr>fi_bit = FEATURE_REDACTIONS, fi_name = ''FEATURE_REDACTIONS''\<rparr>,
      \<lparr>fi_bit = FEATURE_NESTED_COLUMNS, fi_name = ''FEATURE_NESTED_COLUMNS''\<rparr>,
      \<lparr>fi_bit = FEATURE_DIGEST_MANIFEST, fi_name = ''FEATURE_DIGEST_MANIFEST''\<rparr>,
      \<lparr>fi_bit = FEATURE_ARROW_INTEROP_HINTS, fi_name = ''FEATURE_ARROW_INTEROP_HINTS''\<rparr>,
      \<lparr>fi_bit = FEATURE_LAKEHOUSE_HINTS, fi_name = ''FEATURE_LAKEHOUSE_HINTS''\<rparr>,
      \<lparr>fi_bit = FEATURE_EXTENSION_REGISTRY, fi_name = ''FEATURE_EXTENSION_REGISTRY''\<rparr>,
      \<lparr>fi_bit = FEATURE_CODEC_LZ4, fi_name = ''FEATURE_CODEC_LZ4''\<rparr>,
      \<lparr>fi_bit = FEATURE_CODEC_ZSTD, fi_name = ''FEATURE_CODEC_ZSTD''\<rparr>,
      \<lparr>fi_bit = FEATURE_SEMANTIC_MAP, fi_name = ''FEATURE_SEMANTIC_MAP''\<rparr>,
      \<lparr>fi_bit = FEATURE_PAGE_PAYLOAD_ELISION, fi_name = ''FEATURE_PAGE_PAYLOAD_ELISION''\<rparr>,
      \<lparr>fi_bit = FEATURE_CODEC_EXTENSION_REGISTRY, fi_name = ''FEATURE_CODEC_EXTENSION_REGISTRY''\<rparr>,
      \<lparr>fi_bit = FEATURE_REGISTERED_ENCODINGS, fi_name = ''FEATURE_REGISTERED_ENCODINGS''\<rparr>,
      \<lparr>fi_bit = FEATURE_LAYOUT_PLAN, fi_name = ''FEATURE_LAYOUT_PLAN''\<rparr>,
      \<lparr>fi_bit = FEATURE_SCAN_SPLIT_INDEX, fi_name = ''FEATURE_SCAN_SPLIT_INDEX''\<rparr>,
      \<lparr>fi_bit = FEATURE_PAGE_CLUSTER_DIRECTORY, fi_name = ''FEATURE_PAGE_CLUSTER_DIRECTORY''\<rparr>,
      \<lparr>fi_bit = FEATURE_ZERO_COPY_BUFFER_MAP, fi_name = ''FEATURE_ZERO_COPY_BUFFER_MAP''\<rparr>,
      \<lparr>fi_bit = FEATURE_FAST_METADATA_INDEX, fi_name = ''FEATURE_FAST_METADATA_INDEX''\<rparr>,
      \<lparr>fi_bit = FEATURE_RUNTIME_COMPATIBILITY_HINTS, fi_name = ''FEATURE_RUNTIME_COMPATIBILITY_HINTS''\<rparr>,
      \<lparr>fi_bit = FEATURE_EXTENDED_FEATURE_SET, fi_name = ''FEATURE_EXTENDED_FEATURE_SET''\<rparr>,
      \<lparr>fi_bit = FEATURE_CODEC_FALLBACK_PAYLOADS, fi_name = ''FEATURE_CODEC_FALLBACK_PAYLOADS''\<rparr>,
      \<lparr>fi_bit = FEATURE_COVERAGE_METADATA, fi_name = ''FEATURE_COVERAGE_METADATA''\<rparr>,
      \<lparr>fi_bit = FEATURE_COVERAGE_PLAN_CANDIDATES, fi_name = ''FEATURE_COVERAGE_PLAN_CANDIDATES''\<rparr>,
      \<lparr>fi_bit = FEATURE_SECONDARY_INDEX_ARTIFACT, fi_name = ''FEATURE_SECONDARY_INDEX_ARTIFACT''\<rparr>,
      \<lparr>fi_bit = FEATURE_INDEX_ONLY_CAPABILITY, fi_name = ''FEATURE_INDEX_ONLY_CAPABILITY''\<rparr>,
      \<lparr>fi_bit = FEATURE_COVERAGE_CACHE_HINTS, fi_name = ''FEATURE_COVERAGE_CACHE_HINTS''\<rparr>]"

definition feature_info :: "u64 \<Rightarrow> FeatureInfo option" where
  "feature_info b = find (\<lambda>info. fi_bit info = b) FEATURE_REGISTRY"

definition feature_names :: "u64 \<Rightarrow> string list" where
  "feature_names bits = map fi_name (filter (\<lambda>info. bits AND fi_bit info \<noteq> 0) FEATURE_REGISTRY)"

section \<open>Section kinds\<close>

record SectionInfo =
  si_kind :: SectionKind
  si_id :: u16
  si_wire_name :: string
  si_profiles :: "PrimaryProfile list"
  si_required_feature :: "u64 option"

definition SECTION_REGISTRY_1 :: "SectionInfo list" where
  "SECTION_REGISTRY_1 =
     [\<lparr>si_kind = Section_FileDictionaryIndex, si_id = 1, si_wire_name = ''FILE_DICTIONARY_INDEX'', si_profiles = [PP_Mixed], si_required_feature = Some FEATURE_FILE_DICTIONARY\<rparr>,
      \<lparr>si_kind = Section_FileDictionaryPayload, si_id = 2, si_wire_name = ''FILE_DICTIONARY_PAYLOAD'', si_profiles = [PP_Mixed], si_required_feature = Some FEATURE_FILE_DICTIONARY\<rparr>,
      \<lparr>si_kind = Section_CollationRegistry, si_id = 3, si_wire_name = ''COLLATION_REGISTRY'', si_profiles = [PP_Mixed], si_required_feature = None\<rparr>,
      \<lparr>si_kind = Section_DigestManifest, si_id = 4, si_wire_name = ''DIGEST_MANIFEST'', si_profiles = [PP_Mixed], si_required_feature = Some FEATURE_DIGEST_MANIFEST\<rparr>,
      \<lparr>si_kind = Section_RedactionManifest, si_id = 5, si_wire_name = ''REDACTION_MANIFEST'', si_profiles = [PP_Mixed], si_required_feature = Some FEATURE_REDACTIONS\<rparr>,
      \<lparr>si_kind = Section_ArrowInteropHints, si_id = 6, si_wire_name = ''ARROW_INTEROP_HINTS'', si_profiles = [PP_Mixed], si_required_feature = Some FEATURE_ARROW_INTEROP_HINTS\<rparr>,
      \<lparr>si_kind = Section_LakehouseHints, si_id = 7, si_wire_name = ''LAKEHOUSE_HINTS'', si_profiles = [PP_Mixed], si_required_feature = Some FEATURE_LAKEHOUSE_HINTS\<rparr>,
      \<lparr>si_kind = Section_ExtensionRegistry, si_id = 8, si_wire_name = ''EXTENSION_REGISTRY'', si_profiles = [PP_Mixed], si_required_feature = Some FEATURE_EXTENSION_REGISTRY\<rparr>,
      \<lparr>si_kind = Section_ProfileCapabilityMatrix, si_id = 9, si_wire_name = ''PROFILE_CAPABILITY_MATRIX'', si_profiles = [PP_Mixed], si_required_feature = None\<rparr>,
      \<lparr>si_kind = Section_TableCatalog, si_id = 10, si_wire_name = ''TABLE_CATALOG'', si_profiles = [PP_TableScan], si_required_feature = Some FEATURE_TABLE_PROFILE\<rparr>,
      \<lparr>si_kind = Section_TableSegmentIndex, si_id = 11, si_wire_name = ''TABLE_SEGMENT_INDEX'', si_profiles = [PP_TableScan], si_required_feature = Some FEATURE_TABLE_PROFILE\<rparr>,
      \<lparr>si_kind = Section_TableSegmentData, si_id = 12, si_wire_name = ''TABLE_SEGMENT_DATA'', si_profiles = [PP_TableScan], si_required_feature = Some FEATURE_TABLE_PROFILE\<rparr>,
      \<lparr>si_kind = Section_ColumnDomain, si_id = 13, si_wire_name = ''COLUMN_DOMAIN'', si_profiles = [PP_TableScan], si_required_feature = Some FEATURE_COLUMN_DOMAINS\<rparr>,
      \<lparr>si_kind = Section_ZoneStats, si_id = 14, si_wire_name = ''ZONE_STATS'', si_profiles = [PP_TableScan], si_required_feature = Some FEATURE_TABLE_PROFILE\<rparr>,
      \<lparr>si_kind = Section_ExactSetIndex, si_id = 15, si_wire_name = ''EXACT_SET_INDEX'', si_profiles = [PP_TableScan, PP_ArchiveAcceleration], si_required_feature = Some FEATURE_EXACT_SETS\<rparr>]"

definition SECTION_REGISTRY_2 :: "SectionInfo list" where
  "SECTION_REGISTRY_2 =
     [\<lparr>si_kind = Section_BloomIndex, si_id = 16, si_wire_name = ''BLOOM_INDEX'', si_profiles = [PP_TableScan, PP_ArchiveAcceleration], si_required_feature = Some FEATURE_BLOOM_FILTERS\<rparr>,
      \<lparr>si_kind = Section_InvertedMorselIndex, si_id = 17, si_wire_name = ''INVERTED_MORSEL_INDEX'', si_profiles = [PP_TableScan, PP_ArchiveAcceleration], si_required_feature = Some FEATURE_INVERTED_INDEXES\<rparr>,
      \<lparr>si_kind = Section_LookupIndex, si_id = 18, si_wire_name = ''LOOKUP_INDEX'', si_profiles = [PP_ArchiveAcceleration], si_required_feature = Some FEATURE_LOOKUP_INDEXES\<rparr>,
      \<lparr>si_kind = Section_AggregateSynopsis, si_id = 19, si_wire_name = ''AGGREGATE_SYNOPSIS'', si_profiles = [PP_ArchiveAcceleration], si_required_feature = Some FEATURE_AGGREGATE_SYNOPSES\<rparr>,
      \<lparr>si_kind = Section_CompositeZoneIndex, si_id = 20, si_wire_name = ''COMPOSITE_ZONE_INDEX'', si_profiles = [PP_ArchiveAcceleration], si_required_feature = Some FEATURE_COMPOSITE_ZONES\<rparr>,
      \<lparr>si_kind = Section_TopNZoneSummary, si_id = 21, si_wire_name = ''TOPN_ZONE_SUMMARY'', si_profiles = [PP_ArchiveAcceleration], si_required_feature = Some FEATURE_TOPN_SUMMARIES\<rparr>,
      \<lparr>si_kind = Section_KernelCapabilities, si_id = 22, si_wire_name = ''KERNEL_CAPABILITIES'', si_profiles = [PP_TableScan, PP_ArchiveAcceleration], si_required_feature = None\<rparr>,
      \<lparr>si_kind = Section_EngineProfileRegistry, si_id = 30, si_wire_name = ''ENGINE_PROFILE_REGISTRY'', si_profiles = [PP_EngineExecution], si_required_feature = Some FEATURE_ENGINE_PROFILE\<rparr>,
      \<lparr>si_kind = Section_ExecutionCodeDescriptor, si_id = 31, si_wire_name = ''EXECUTION_CODE_DESCRIPTOR'', si_profiles = [PP_EngineExecution], si_required_feature = Some FEATURE_ENGINE_PROFILE\<rparr>,
      \<lparr>si_kind = Section_ExecutionScopeDescriptor, si_id = 32, si_wire_name = ''EXECUTION_SCOPE_DESCRIPTOR'', si_profiles = [PP_EngineExecution], si_required_feature = Some FEATURE_ENGINE_PROFILE\<rparr>,
      \<lparr>si_kind = Section_CodeSpaceDescriptor, si_id = 33, si_wire_name = ''CODE_SPACE_DESCRIPTOR'', si_profiles = [PP_EngineExecution], si_required_feature = Some FEATURE_ENGINE_PROFILE\<rparr>,
      \<lparr>si_kind = Section_EngineMountPolicy, si_id = 34, si_wire_name = ''ENGINE_MOUNT_POLICY'', si_profiles = [PP_EngineExecution], si_required_feature = Some FEATURE_ENGINE_PROFILE\<rparr>,
      \<lparr>si_kind = Section_ObjectTypeCatalog, si_id = 40, si_wire_name = ''OBJECT_TYPE_CATALOG'', si_profiles = [PP_ObjectTemporal], si_required_feature = Some FEATURE_OBJECT_PROFILE\<rparr>,
      \<lparr>si_kind = Section_TemporalSegmentIndex, si_id = 41, si_wire_name = ''TEMPORAL_SEGMENT_INDEX'', si_profiles = [PP_ObjectTemporal], si_required_feature = Some FEATURE_OBJECT_PROFILE\<rparr>,
      \<lparr>si_kind = Section_TemporalSegmentData, si_id = 42, si_wire_name = ''TEMPORAL_SEGMENT_DATA'', si_profiles = [PP_ObjectTemporal], si_required_feature = Some FEATURE_OBJECT_PROFILE\<rparr>]"

definition SECTION_REGISTRY_3 :: "SectionInfo list" where
  "SECTION_REGISTRY_3 =
     [\<lparr>si_kind = Section_TemporalBloomIndex, si_id = 43, si_wire_name = ''TEMPORAL_BLOOM_INDEX'', si_profiles = [PP_ObjectTemporal], si_required_feature = Some FEATURE_OBJECT_PROFILE\<rparr>,
      \<lparr>si_kind = Section_TrustManifest, si_id = 44, si_wire_name = ''TRUST_MANIFEST'', si_profiles = [PP_ObjectTemporal], si_required_feature = Some FEATURE_TRUST_CHAIN\<rparr>,
      \<lparr>si_kind = Section_NestedSchema, si_id = 47, si_wire_name = ''NESTED_SCHEMA'', si_profiles = [PP_TableScan], si_required_feature = Some FEATURE_NESTED_COLUMNS\<rparr>,
      \<lparr>si_kind = Section_HarborMountHints, si_id = 50, si_wire_name = ''HARBOR_MOUNT_HINTS'', si_profiles = [PP_HarborExecution], si_required_feature = Some FEATURE_HARBOR_PROFILE\<rparr>,
      \<lparr>si_kind = Section_MapSourceCatalog, si_id = 60, si_wire_name = ''MAP_SOURCE_CATALOG'', si_profiles = [PP_SemanticMapping], si_required_feature = Some FEATURE_SEMANTIC_MAP\<rparr>,
      \<lparr>si_kind = Section_MapFunctionRegistry, si_id = 61, si_wire_name = ''MAP_FUNCTION_REGISTRY'', si_profiles = [PP_SemanticMapping], si_required_feature = Some FEATURE_SEMANTIC_MAP\<rparr>,
      \<lparr>si_kind = Section_MapIdentityRuleCatalog, si_id = 62, si_wire_name = ''MAP_IDENTITY_RULE_CATALOG'', si_profiles = [PP_SemanticMapping], si_required_feature = Some FEATURE_SEMANTIC_MAP\<rparr>,
      \<lparr>si_kind = Section_MapRowSemanticsCatalog, si_id = 63, si_wire_name = ''MAP_ROW_SEMANTICS_CATALOG'', si_profiles = [PP_SemanticMapping], si_required_feature = Some FEATURE_SEMANTIC_MAP\<rparr>,
      \<lparr>si_kind = Section_MapAssertionLog, si_id = 64, si_wire_name = ''MAP_ASSERTION_LOG'', si_profiles = [PP_SemanticMapping], si_required_feature = Some FEATURE_SEMANTIC_MAP\<rparr>,
      \<lparr>si_kind = Section_MapIdentityEquivalenceIndex, si_id = 65, si_wire_name = ''MAP_IDENTITY_EQUIVALENCE_INDEX'', si_profiles = [PP_SemanticMapping], si_required_feature = Some FEATURE_SEMANTIC_MAP\<rparr>,
      \<lparr>si_kind = Section_MapEvidenceIndex, si_id = 66, si_wire_name = ''MAP_EVIDENCE_INDEX'', si_profiles = [PP_SemanticMapping], si_required_feature = Some FEATURE_SEMANTIC_MAP\<rparr>,
      \<lparr>si_kind = Section_MapConversionReport, si_id = 67, si_wire_name = ''MAP_CONVERSION_REPORT'', si_profiles = [PP_SemanticMapping], si_required_feature = Some FEATURE_SEMANTIC_MAP\<rparr>,
      \<lparr>si_kind = Section_MapProjectionCatalog, si_id = 68, si_wire_name = ''MAP_PROJECTION_CATALOG'', si_profiles = [PP_SemanticMapping], si_required_feature = Some FEATURE_SEMANTIC_MAP\<rparr>,
      \<lparr>si_kind = Section_VendorExtension, si_id = 255, si_wire_name = ''VENDOR_EXTENSION'', si_profiles = [PP_Mixed], si_required_feature = None\<rparr>]"

definition SECTION_REGISTRY :: "SectionInfo list" where
  "SECTION_REGISTRY = SECTION_REGISTRY_1 @ SECTION_REGISTRY_2 @ SECTION_REGISTRY_3"

definition section_info :: "SectionKind \<Rightarrow> SectionInfo option" where
  "section_info kind = find (\<lambda>info. si_kind info = kind) SECTION_REGISTRY"

section \<open>Error codes\<close>

text \<open>The registered codes; their prose is not kept.\<close>

definition ERROR_CODE_REGISTRY :: "string list" where
  "ERROR_CODE_REGISTRY =
     [''COVE_E_BAD_MAGIC'',
      ''COVE_E_BAD_VERSION'',
      ''COVE_E_UNKNOWN_REQUIRED_FEATURE'',
      ''COVE_E_CHECKSUM_MISMATCH'',
      ''COVE_E_DIGEST_MISMATCH'',
      ''COVE_E_OFFSET_RANGE'',
      ''COVE_E_ARITH_OVERFLOW'',
      ''COVE_E_BAD_SECTION'',
      ''COVE_E_BAD_SCHEMA'',
      ''COVE_E_BAD_LOGICAL_PHYSICAL_PAIR'',
      ''COVE_E_DICT_MISS'',
      ''COVE_E_BAD_FILECODE'',
      ''COVE_E_BAD_NUMCODE'',
      ''COVE_E_BAD_DOMAIN'',
      ''COVE_E_BAD_STATS'',
      ''COVE_E_BAD_INDEX'',
      ''COVE_E_BAD_EXTENSION'',
      ''COVE_E_BAD_ENGINE_PROFILE'',
      ''COVE_E_EXECUTION_CODE_MAP'',
      ''COVE_E_HARBOR_MOUNT_LEASE'',
      ''COVE_E_REF_INVALID'',
      ''COVE_E_NOT_SELF_CONTAINED'',
      ''COVE_E_SEGMENT_CORRUPT'',
      ''COVE_E_PAGE_CORRUPT'',
      ''COVE_E_REDACTION_POLICY'',
      ''COVE_E_SIDECAR_STALE'']"

definition error_code_info :: "string \<Rightarrow> string option" where
  "error_code_info code = find (\<lambda>c. c = code) ERROR_CODE_REGISTRY"

lemmas section_registry_defs = SECTION_REGISTRY_def SECTION_REGISTRY_1_def SECTION_REGISTRY_2_def SECTION_REGISTRY_3_def

lemma section_registry_ids:
  "list_all (\<lambda>info. si_id info = SectionKind_code (si_kind info)) SECTION_REGISTRY"
  "distinct (map si_kind SECTION_REGISTRY)"
  by (simp_all add: section_registry_defs)

end
