(* ===== verification/Reader.thy ===== *)
theory Reader
  imports Compression Feature_Scope Registry
begin

text \<open>
  The reader's structural validator (\<open>reader.rs\<close>, \<open>reader/bootstrap.rs\<close>): from the tail of the file to
  the postscript, the footer, the header, every section of the directory and the feature scopes.
  \<open>crc\<close> stands for \<open>checksum::crc32c\<close>, \<open>json_ok\<close> for the JSON parser, \<open>cs\<close> for the codecs.
\<close>

section \<open>Policies and results\<close>

datatype OptionalPushdownPolicy = Strict | FailOpen

record IgnoredOptionalSection =
  ig_section_id :: u32
  ig_section_kind :: u16
  ig_reason :: string

record ValidatedCoveFile =
  vf_header :: CoveHeaderV1
  vf_postscript :: CovePostscriptV1
  vf_footer :: CoveFooter

record ScopedFeatureMetadata =
  sm_extended :: "ExtendedFeatureSetV2 option"
  sm_profile_matrix :: "ProfileCapabilityMatrixV2 option"
  sm_section_bindings :: "SectionFeatureBindingSectionV2 list"
  sm_scope_table :: "FeatureScopeEntry list"

section \<open>Feature advertisement\<close>

definition validate_required_feature_implementation :: "codecs \<Rightarrow> CoveHeaderV1 \<Rightarrow> unit result" where
  "validate_required_feature_implementation cs header =
     (let unsupported_required =
            (if hdr_required_features header AND FEATURE_CODEC_LZ4 \<noteq> 0 \<and> \<not> lz4_enabled cs then FEATURE_CODEC_LZ4 else 0) OR
            (if hdr_required_features header AND FEATURE_CODEC_ZSTD \<noteq> 0 \<and> \<not> zstd_enabled cs then FEATURE_CODEC_ZSTD else 0)
      in if unsupported_required \<noteq> 0
         then Err (UnsupportedEncoding (''required codec feature bits are unsupported by this build: 0x'' @ show_hex16 unsupported_required))
         else Ok ())"

definition validate_footer_codec_feature_advertisement :: "CovePostscriptV1 \<Rightarrow> unit result" where
  "validate_footer_codec_feature_advertisement p =
     (let advertised = ps_required_features p OR ps_optional_features p in
      if ss_compression (ps_footer p) = 1 \<and> advertised AND FEATURE_CODEC_LZ4 = 0
      then Err (BadSection ''footer uses LZ4 compression but codec feature bit is not advertised'')
      else if ss_compression (ps_footer p) = 2 \<and> advertised AND FEATURE_CODEC_ZSTD = 0
      then Err (BadSection ''footer uses ZSTD compression but codec feature bit is not advertised'')
      else Ok ())"

definition unknown_section_kind :: "u16 \<Rightarrow> CoveError" where
  "unknown_section_kind kind = BadSection (''unknown section_kind '' @ show_nat (unat kind))"

definition validate_section_required_feature_advertisement :: "CoveHeaderV1 \<Rightarrow> CoveSectionEntryV1 \<Rightarrow> unit result" where
  "validate_section_required_feature_advertisement header entry =
     and_then (ok_or (SectionKind_from_u16 (se_section_kind entry)) (unknown_section_kind (se_section_kind entry))) (\<lambda>kind.
     case section_info kind of
       None \<Rightarrow> Ok ()
     | Some info \<Rightarrow>
         (case si_required_feature info of
            None \<Rightarrow> Ok ()
          | Some required_feature \<Rightarrow>
              let file_advertised = hdr_required_features header OR hdr_optional_features header in
              if file_advertised AND required_feature = 0
              then Err (BadSection (''section '' @ show_nat (unat (se_section_id entry)) @ '' of kind '' @ si_wire_name info
                     @ '' requires missing feature bit 0x'' @ show_hex16 required_feature))
              else Ok ()))"

definition profile_feature_bit :: "u8 \<Rightarrow> u64 option" where
  "profile_feature_bit profile = map_of
     [(1, FEATURE_OBJECT_PROFILE), (2, FEATURE_TABLE_PROFILE), (3, FEATURE_ARCHIVE_PROFILE), (4, FEATURE_ENGINE_PROFILE),
      (5, FEATURE_HARBOR_PROFILE), (6, FEATURE_SEMANTIC_MAP), (7, FEATURE_CODEC_EXTENSION_REGISTRY), (8, FEATURE_LAYOUT_PLAN),
      (9, FEATURE_RUNTIME_COMPATIBILITY_HINTS), (10, FEATURE_COVERAGE_METADATA), (11, FEATURE_SECONDARY_INDEX_ARTIFACT)] profile"

definition validate_section_profile_feature_bit :: "u8 \<Rightarrow> u64 \<Rightarrow> unit result" where
  "validate_section_profile_feature_bit profile file_features =
     (if profile = 0 then Ok ()
      else case profile_feature_bit profile of
        None \<Rightarrow> Err (BadSection (''unknown profile '' @ show_nat (unat profile) @ '' in section directory''))
      | Some required_profile_bit \<Rightarrow>
          if file_features AND required_profile_bit = 0
          then Err (BadSection (''section profile '' @ show_nat (unat profile) @ '' requires missing file feature bit 0x''
                 @ show_hex16 required_profile_bit))
          else Ok ())"

definition validate_codec_feature_advertisement :: "u8 \<Rightarrow> CoveHeaderV1 \<Rightarrow> CoveSectionEntryV1 \<Rightarrow> unit result" where
  "validate_codec_feature_advertisement compression header entry =
     (let advertised = hdr_required_features header OR hdr_optional_features header;
          section_advertised = se_required_features entry OR se_optional_features entry in
      if compression = 1 \<and> (advertised AND FEATURE_CODEC_LZ4 = 0 \<or> section_advertised AND FEATURE_CODEC_LZ4 = 0)
      then Err (BadSection (''section '' @ show_nat (unat (se_section_id entry)) @ '' uses LZ4 compression but codec feature bit is not advertised''))
      else if compression = 2 \<and> (advertised AND FEATURE_CODEC_ZSTD = 0 \<or> section_advertised AND FEATURE_CODEC_ZSTD = 0)
      then Err (BadSection (''section '' @ show_nat (unat (se_section_id entry)) @ '' uses ZSTD compression but codec feature bit is not advertised''))
      else Ok ())"

text \<open>The variant's name, as \<open>{:?}\<close> prints it.\<close>

primrec PrimaryProfile_debug :: "PrimaryProfile \<Rightarrow> string" where
  "PrimaryProfile_debug PP_Mixed = ''Mixed''"
| "PrimaryProfile_debug PP_ObjectTemporal = ''ObjectTemporal''"
| "PrimaryProfile_debug PP_TableScan = ''TableScan''"
| "PrimaryProfile_debug PP_ArchiveAcceleration = ''ArchiveAcceleration''"
| "PrimaryProfile_debug PP_EngineExecution = ''EngineExecution''"
| "PrimaryProfile_debug PP_HarborExecution = ''HarborExecution''"
| "PrimaryProfile_debug PP_SemanticMapping = ''SemanticMapping''"
| "PrimaryProfile_debug PP_CodecExtension = ''CodecExtension''"
| "PrimaryProfile_debug PP_LayoutPlanning = ''LayoutPlanning''"
| "PrimaryProfile_debug PP_RuntimeCompatibility = ''RuntimeCompatibility''"
| "PrimaryProfile_debug PP_CoverageMetadata = ''CoverageMetadata''"
| "PrimaryProfile_debug PP_SecondaryIndex = ''SecondaryIndex''"

definition primary_profile_bit :: "PrimaryProfile \<Rightarrow> u64 option" where
  "primary_profile_bit profile =
     (case profile of
        PP_Mixed \<Rightarrow> None
      | PP_ObjectTemporal \<Rightarrow> Some FEATURE_OBJECT_PROFILE
      | PP_TableScan \<Rightarrow> Some FEATURE_TABLE_PROFILE
      | PP_ArchiveAcceleration \<Rightarrow> Some FEATURE_ARCHIVE_PROFILE
      | PP_EngineExecution \<Rightarrow> Some FEATURE_ENGINE_PROFILE
      | PP_HarborExecution \<Rightarrow> Some FEATURE_HARBOR_PROFILE
      | PP_SemanticMapping \<Rightarrow> Some FEATURE_SEMANTIC_MAP
      | PP_CodecExtension \<Rightarrow> Some FEATURE_CODEC_EXTENSION_REGISTRY
      | PP_LayoutPlanning \<Rightarrow> Some FEATURE_LAYOUT_PLAN
      | PP_RuntimeCompatibility \<Rightarrow> Some FEATURE_RUNTIME_COMPATIBILITY_HINTS
      | PP_CoverageMetadata \<Rightarrow> Some FEATURE_COVERAGE_METADATA
      | PP_SecondaryIndex \<Rightarrow> Some FEATURE_SECONDARY_INDEX_ARTIFACT)"

definition validate_primary_profile_features :: "CoveHeaderV1 \<Rightarrow> unit result" where
  "validate_primary_profile_features header =
     and_then (ok_or (PrimaryProfile_from_u8 (hdr_primary_profile header)) (BadSection ''unknown primary profile'')) (\<lambda>profile.
     case primary_profile_bit profile of
       None \<Rightarrow> Ok ()
     | Some required_bit \<Rightarrow>
         if hdr_required_features header AND required_bit = 0
         then Err (BadSection (''primary_profile '' @ PrimaryProfile_debug profile @ '' requires feature bit 0x'' @ show_hex16 required_bit))
         else Ok ())"

section \<open>Profiles of sections\<close>

primrec allowed_profiles :: "SectionKind \<Rightarrow> u8 list" where
  "allowed_profiles Section_FileDictionaryIndex = [0]"
| "allowed_profiles Section_FileDictionaryPayload = [0]"
| "allowed_profiles Section_CollationRegistry = [0]"
| "allowed_profiles Section_DigestManifest = [0]"
| "allowed_profiles Section_RedactionManifest = [0]"
| "allowed_profiles Section_ArrowInteropHints = [0]"
| "allowed_profiles Section_LakehouseHints = [0]"
| "allowed_profiles Section_ExtensionRegistry = [0]"
| "allowed_profiles Section_ProfileCapabilityMatrix = [0]"
| "allowed_profiles Section_ExtendedFeatureSet = [0]"
| "allowed_profiles Section_FastMetadataIndex = [0]"
| "allowed_profiles Section_SectionFeatureBinding = [0]"
| "allowed_profiles Section_VendorExtension = [0]"
| "allowed_profiles Section_TableCatalog = [2]"
| "allowed_profiles Section_NestedSchema = [2]"
| "allowed_profiles Section_TableSegmentIndex = [2]"
| "allowed_profiles Section_TableSegmentData = [2]"
| "allowed_profiles Section_ColumnDomain = [2]"
| "allowed_profiles Section_ZoneStats = [2]"
| "allowed_profiles Section_ExactSetIndex = [2, 3]"
| "allowed_profiles Section_BloomIndex = [2, 3]"
| "allowed_profiles Section_InvertedMorselIndex = [2, 3]"
| "allowed_profiles Section_KernelCapabilities = [2, 3]"
| "allowed_profiles Section_LookupIndex = [3]"
| "allowed_profiles Section_AggregateSynopsis = [3]"
| "allowed_profiles Section_CompositeZoneIndex = [3]"
| "allowed_profiles Section_TopNZoneSummary = [3]"
| "allowed_profiles Section_CodecExtensionRegistry = [7]"
| "allowed_profiles Section_LayoutPlan = [8]"
| "allowed_profiles Section_ScanSplitIndex = [8]"
| "allowed_profiles Section_PageClusterDirectory = [8]"
| "allowed_profiles Section_ZeroCopyBufferMap = [0, 8]"
| "allowed_profiles Section_CoverageProviderRegistry = [10]"
| "allowed_profiles Section_CoverageSet = [10]"
| "allowed_profiles Section_CoveragePlanCandidate = [10]"
| "allowed_profiles Section_PredicateNormalForm = [10]"
| "allowed_profiles Section_CoverageProofRecord = [10]"
| "allowed_profiles Section_IndexOnlyCapability = [3, 11]"
| "allowed_profiles Section_EngineProfileRegistry = [4]"
| "allowed_profiles Section_ExecutionCodeDescriptor = [4]"
| "allowed_profiles Section_ExecutionScopeDescriptor = [4]"
| "allowed_profiles Section_CodeSpaceDescriptor = [4]"
| "allowed_profiles Section_EngineMountPolicy = [4]"
| "allowed_profiles Section_ObjectTypeCatalog = [1]"
| "allowed_profiles Section_TemporalSegmentIndex = [1]"
| "allowed_profiles Section_TemporalSegmentData = [1]"
| "allowed_profiles Section_TemporalBloomIndex = [1]"
| "allowed_profiles Section_TrustManifest = [1]"
| "allowed_profiles Section_HarborMountHints = [5]"
| "allowed_profiles Section_MapSourceCatalog = [6]"
| "allowed_profiles Section_MapFunctionRegistry = [6]"
| "allowed_profiles Section_MapIdentityRuleCatalog = [6]"
| "allowed_profiles Section_MapRowSemanticsCatalog = [6]"
| "allowed_profiles Section_MapAssertionLog = [6]"
| "allowed_profiles Section_MapIdentityEquivalenceIndex = [6]"
| "allowed_profiles Section_MapEvidenceIndex = [6]"
| "allowed_profiles Section_MapConversionReport = [6]"
| "allowed_profiles Section_MapProjectionCatalog = [6]"

text \<open>The list as \<open>{:?}\<close> prints it.\<close>

fun show_list_tail :: "u8 list \<Rightarrow> string" where
  "show_list_tail [] = '']''"
| "show_list_tail (x # xs) = '', '' @ show_nat (unat x) @ show_list_tail xs"

fun show_u8_list :: "u8 list \<Rightarrow> string" where
  "show_u8_list [] = ''[]''"
| "show_u8_list (x # xs) = ''['' @ show_nat (unat x) @ show_list_tail xs"

definition validate_section_profile :: "u16 \<Rightarrow> u8 \<Rightarrow> unit result" where
  "validate_section_profile section_kind profile =
     and_then (ok_or (SectionKind_from_u16 section_kind) (unknown_section_kind section_kind)) (\<lambda>kind.
     if profile \<notin> set (allowed_profiles kind)
     then Err (BadSection (''section_kind '' @ show_nat (unat section_kind) @ '' must use one of profiles ''
            @ show_u8_list (allowed_profiles kind) @ '', got '' @ show_nat (unat profile)))
     else Ok ())"

definition is_optional_pushdown_section :: "SectionKind \<Rightarrow> bool" where
  "is_optional_pushdown_section kind \<longleftrightarrow> kind \<in> {Section_ColumnDomain, Section_ExactSetIndex, Section_BloomIndex,
     Section_InvertedMorselIndex, Section_LookupIndex, Section_AggregateSynopsis, Section_CompositeZoneIndex, Section_TopNZoneSummary}"

definition is_optional_pushdown_entry :: "CoveSectionEntryV1 \<Rightarrow> bool" where
  "is_optional_pushdown_entry entry \<longleftrightarrow> se_required_features entry = 0 \<and>
     (case SectionKind_from_u16 (se_section_kind entry) of None \<Rightarrow> False | Some kind \<Rightarrow> is_optional_pushdown_section kind)"

section \<open>The section directory\<close>

definition ignored :: "CoveSectionEntryV1 \<Rightarrow> IgnoredOptionalSection" where
  "ignored entry = \<lparr>ig_section_id = se_section_id entry, ig_section_kind = se_section_kind entry,
     ig_reason = CoveError_display ChecksumMismatch\<rparr>"

text \<open>The checks of one entry that do not depend on the others.\<close>

definition validate_entry_features :: "CoveHeaderV1 \<Rightarrow> CoveSectionEntryV1 \<Rightarrow> unit result" where
  "validate_entry_features header entry =
     and_then (validate_section_profile (se_section_kind entry) (se_profile entry)) (\<lambda>_.
     and_then (validate_section_profile_feature_bit (se_profile entry) (hdr_required_features header OR hdr_optional_features header)) (\<lambda>_.
     and_then (validate_section_required_feature_advertisement header entry) (\<lambda>_.
     validate_codec_feature_advertisement (se_compression entry) header entry)))"

definition overlapping :: "(u64 \<times> u64 \<times> u32) list \<Rightarrow> CoveSectionEntryV1 \<Rightarrow> u64 \<Rightarrow> (u64 \<times> u64 \<times> u32) option" where
  "overlapping ranges entry section_end =
     find (\<lambda>(start, end', _). se_length entry \<noteq> 0 \<and> se_offset entry < end' \<and> section_end > start) ranges"

fun validate_sections_loop ::
  "(bytes \<Rightarrow> u32) \<Rightarrow> bytes \<Rightarrow> usize \<Rightarrow> CoveHeaderV1 \<Rightarrow> OptionalPushdownPolicy \<Rightarrow> (u64 \<times> u64 \<times> u32) list \<Rightarrow> u32 option
     \<Rightarrow> CoveSectionEntryV1 list \<Rightarrow> IgnoredOptionalSection list result" where
  "validate_sections_loop crc data footer_start header policy ranges last_id [] = Ok []"
| "validate_sections_loop crc data footer_start header policy ranges last_id (entry # entries) =
     (if (case last_id of Some l \<Rightarrow> se_section_id entry \<le> l | None \<Rightarrow> False)
      then Err (BadSection (''section_id '' @ show_nat (unat (se_section_id entry)) @ '' is not greater than previous id ''
             @ show_nat (unat (the last_id))))
      else
        and_then (validate_entry_features header entry) (\<lambda>_.
        and_then (CoveSectionEntryV1_end_offset entry) (\<lambda>section_end.
        if unat (se_offset entry) < HEADER_SIZE \<or> unat section_end > footer_start then Err OffsetRange
        else case overlapping ranges entry section_end of
          Some (_, _, id') \<Rightarrow>
            Err (BadSection (''section '' @ show_nat (unat (se_section_id entry)) @ '' overlaps section '' @ show_nat (unat id')))
        | None \<Rightarrow>
            and_then (index_range data (unat (se_offset entry), unat section_end)) (\<lambda>section_bytes.
            let rest = validate_sections_loop crc data footer_start header policy
                         (ranges @ [(se_offset entry, section_end, se_section_id entry)]) (Some (se_section_id entry)) entries in
            if crc section_bytes \<noteq> se_crc32c entry
            then (if policy = FailOpen \<and> is_optional_pushdown_entry entry
                  then and_then rest (\<lambda>ig. Ok (ignored entry # ig))
                  else Err ChecksumMismatch)
            else rest))))"

definition retain_sections :: "IgnoredOptionalSection list \<Rightarrow> CoveFooter \<Rightarrow> CoveFooter" where
  "retain_sections ignored_optional_sections footer =
     (if ignored_optional_sections \<noteq> []
      then let ignored_ids = set (map ig_section_id ignored_optional_sections);
               sections = filter (\<lambda>e. se_section_id e \<notin> ignored_ids) (ft_sections footer)
           in footer\<lparr>ft_sections := sections, ft_header := (ft_header footer)\<lparr>fh_section_count := of_nat (length sections)\<rparr>\<rparr>
      else footer)"

definition validate_sections ::
  "(bytes \<Rightarrow> u32) \<Rightarrow> bytes \<Rightarrow> usize \<Rightarrow> CoveFooter \<Rightarrow> CoveHeaderV1 \<Rightarrow> OptionalPushdownPolicy
     \<Rightarrow> (CoveFooter \<times> IgnoredOptionalSection list) result" where
  "validate_sections crc data footer_start footer header policy =
     and_then (validate_sections_loop crc data footer_start header policy [] None (ft_sections footer)) (\<lambda>ig.
     Ok (retain_sections ig footer, ig))"

section \<open>Feature metadata\<close>

definition resolve_header_section_id ::
  "CoveFooter \<Rightarrow> u32 \<Rightarrow> SectionKind \<Rightarrow> string \<Rightarrow> CoveSectionEntryV1 option result" where
  "resolve_header_section_id footer section_id expected_kind field_name =
     (if section_id = 0 then Ok None
      else case find (\<lambda>e. se_section_id e = section_id) (ft_sections footer) of
        None \<Rightarrow> Err (BadSection (''header '' @ field_name @ '' references missing section id '' @ show_nat (unat section_id)))
      | Some entry \<Rightarrow>
          if se_section_kind entry \<noteq> SectionKind_code expected_kind
          then Err (BadSection (''header '' @ field_name @ '' references section id '' @ show_nat (unat section_id) @ '' with wrong kind''))
          else Ok (Some entry))"

text \<open>\<open>option.map(f).transpose()\<close>\<close>

definition map_transpose :: "('a \<Rightarrow> 'b result) \<Rightarrow> 'a option \<Rightarrow> 'b option result" where
  "map_transpose f v = (case v of None \<Rightarrow> Ok None | Some x \<Rightarrow> and_then (f x) (\<lambda>y. Ok (Some y)))"

definition parse_extended_section :: "(bytes \<Rightarrow> u32) \<Rightarrow> codecs \<Rightarrow> bytes \<Rightarrow> CoveHeaderV1 \<Rightarrow> CoveSectionEntryV1 \<Rightarrow> ExtendedFeatureSetV2 result" where
  "parse_extended_section crc cs data header entry =
     and_then (section_payload cs data entry) (\<lambda>payload.
     and_then (ExtendedFeatureSetV2_parse crc payload) (\<lambda>s.
     and_then (validate_against_low_words s (hdr_required_features header) (hdr_optional_features header)) (\<lambda>_. Ok s)))"

definition parse_binding_section ::
  "(bytes \<Rightarrow> u32) \<Rightarrow> codecs \<Rightarrow> bytes \<Rightarrow> ExtendedFeatureSetV2 option \<Rightarrow> CoveSectionEntryV1 \<Rightarrow> SectionFeatureBindingSectionV2 result" where
  "parse_binding_section crc cs data extended entry =
     and_then (section_payload cs data entry) (\<lambda>payload.
     and_then (SectionFeatureBindingSectionV2_parse crc payload) (\<lambda>parsed.
     case extended of
       None \<Rightarrow> Err (BadSection ''SECTION_FEATURE_BINDING requires EXTENDED_FEATURE_SET'')
     | Some s \<Rightarrow> and_then (validate_binding_horizon s parsed) (\<lambda>_. Ok parsed)))"

definition matrix_entry_in_horizon :: "ExtendedFeatureSetV2 option \<Rightarrow> ProfileCapabilityEntryV2 \<Rightarrow> unit result" where
  "matrix_entry_in_horizon extended entry =
     (if pce_global_feature_word_index entry = 0 then Ok ()
      else case extended of
        None \<Rightarrow> Err (BadSection ''PROFILE_CAPABILITY_MATRIX references extended feature word without EXTENDED_FEATURE_SET'')
      | Some s \<Rightarrow>
          if pce_global_feature_word_index entry \<ge> efh_word_count (efs_header s)
          then Err (BadSection ''PROFILE_CAPABILITY_MATRIX references a feature word beyond EXTENDED_FEATURE_SET horizon'')
          else Ok ())"

definition parse_scoped_feature_metadata ::
  "(bytes \<Rightarrow> u32) \<Rightarrow> codecs \<Rightarrow> bytes \<Rightarrow> CoveHeaderV1 \<Rightarrow> CoveFooter \<Rightarrow> ScopedFeatureMetadata result" where
  "parse_scoped_feature_metadata crc cs data header footer =
     and_then (resolve_header_section_id footer (hdr_feature_set_section_id header) Section_ExtendedFeatureSet ''feature_set_section_id'') (\<lambda>extended_entry.
     and_then (resolve_header_section_id footer (hdr_profile_capability_section_id header) Section_ProfileCapabilityMatrix ''profile_capability_section_id'') (\<lambda>profile_matrix_entry.
     and_then (resolve_header_section_id footer (hdr_fast_metadata_section_id header) Section_FastMetadataIndex ''fast_metadata_section_id'') (\<lambda>_.
     if hdr_required_features header AND FEATURE_EXTENDED_FEATURE_SET \<noteq> 0 \<and> extended_entry = None
     then Err (BadSection ''FEATURE_EXTENDED_FEATURE_SET is required but feature_set_section_id is absent'')
     else
       and_then (map_transpose (parse_extended_section crc cs data header) extended_entry) (\<lambda>extended.
       and_then (map_transpose (\<lambda>e. and_then (section_payload cs data e) (ProfileCapabilityMatrixV2_parse crc)) profile_matrix_entry) (\<lambda>profile_matrix.
       and_then (collect_map (parse_binding_section crc cs data extended)
                  (filter (\<lambda>e. se_section_kind e = SectionKind_code Section_SectionFeatureBinding) (ft_sections footer))) (\<lambda>section_bindings.
       and_then (case profile_matrix of None \<Rightarrow> Ok () | Some m \<Rightarrow> try_each (matrix_entry_in_horizon extended) (pm_entries m)) (\<lambda>_.
       and_then (build_many header footer extended profile_matrix section_bindings) (\<lambda>scope_table.
       Ok \<lparr>sm_extended = extended, sm_profile_matrix = profile_matrix, sm_section_bindings = section_bindings,
           sm_scope_table = scope_table\<rparr>))))))))"

definition validate_scoped_feature_metadata ::
  "(bytes \<Rightarrow> u32) \<Rightarrow> codecs \<Rightarrow> bytes \<Rightarrow> CoveHeaderV1 \<Rightarrow> CoveFooter \<Rightarrow> unit result" where
  "validate_scoped_feature_metadata crc cs data header footer =
     and_then (parse_scoped_feature_metadata crc cs data header footer) (\<lambda>metadata.
     reject_file_required_unknowns (sm_scope_table metadata))"

section \<open>Validating a file\<close>

definition validate_bytes_with_optional_pushdown_policy ::
  "(bytes \<Rightarrow> u32) \<Rightarrow> (bytes \<Rightarrow> bool) \<Rightarrow> codecs \<Rightarrow> bytes \<Rightarrow> OptionalPushdownPolicy
     \<Rightarrow> (ValidatedCoveFile \<times> IgnoredOptionalSection list) result" where
  "validate_bytes_with_optional_pushdown_policy crc json_ok cs data policy =
     (if length data < HEADER_SIZE + POSTSCRIPT_TOTAL_SIZE then Err BufferTooShort
      else if slice (length data - 4) 4 data \<noteq> MAGIC_COVE then Err BadMagic
      else
        and_then (CovePostscriptV1_parse_from_tail crc data) (\<lambda>postscript.
        if unat (ps_file_len postscript) \<noteq> length data then Err OffsetRange
        else
          and_then (CoveSectionSpecV1_end_offset (ps_footer postscript)) (\<lambda>footer_end.
          let tail_start = length data - POSTSCRIPT_TOTAL_SIZE in
          if unat (ss_offset (ps_footer postscript)) < HEADER_SIZE \<or> unat footer_end > tail_start then Err OffsetRange
          else let footer_start = unat (ss_offset (ps_footer postscript)) in
          and_then (index_range data (footer_start, unat footer_end)) (\<lambda>footer_bytes.
          if crc footer_bytes \<noteq> ss_crc32c (ps_footer postscript) then Err ChecksumMismatch
          else
            and_then (validate_footer_codec_feature_advertisement postscript) (\<lambda>_.
            and_then (section_spec_payload cs data (ps_footer postscript)) (\<lambda>footer_payload.
            and_then (CoveFooter_parse json_ok footer_payload) (\<lambda>footer.
            and_then (CoveFooterHeaderV1_total_len (ft_header footer)) (\<lambda>total_len.
            if total_len \<noteq> unat (ss_uncompressed_length (ps_footer postscript))
            then Err (BadSection ''footer header length does not match postscript footer uncompressed_length'')
            else
              and_then (CoveHeaderV1_parse crc data) (\<lambda>header.
              and_then (validate_sections crc data footer_start footer header policy) (\<lambda>(footer, ignored_optional_sections).
              and_then (validate_required_feature_implementation cs header) (\<lambda>_.
              and_then (validate_primary_profile_features header) (\<lambda>_.
              if hdr_required_features header \<noteq> ps_required_features postscript
                 \<or> hdr_optional_features header \<noteq> ps_optional_features postscript
              then Err (BadSection ''header and postscript feature bits differ'')
              else
                and_then (validate_scoped_feature_metadata crc cs data header footer) (\<lambda>_.
                Ok (\<lparr>vf_header = header, vf_postscript = postscript, vf_footer = footer\<rparr>, ignored_optional_sections))))))))))))))"

definition validate_bytes :: "(bytes \<Rightarrow> u32) \<Rightarrow> (bytes \<Rightarrow> bool) \<Rightarrow> codecs \<Rightarrow> bytes \<Rightarrow> ValidatedCoveFile result" where
  "validate_bytes crc json_ok cs data =
     and_then (validate_bytes_with_optional_pushdown_policy crc json_ok cs data Strict) (\<lambda>(validated, _). Ok validated)"

definition feature_scope_table_for :: "(bytes \<Rightarrow> u32) \<Rightarrow> codecs \<Rightarrow> bytes \<Rightarrow> ValidatedCoveFile \<Rightarrow> FeatureScopeEntry list result" where
  "feature_scope_table_for crc cs data validated =
     and_then (parse_scoped_feature_metadata crc cs data (vf_header validated) (vf_footer validated)) (\<lambda>m. Ok (sm_scope_table m))"

section \<open>The loop over the directory, declaratively\<close>

definition section_range :: "CoveSectionEntryV1 \<Rightarrow> nat set" where
  "section_range e = {unat (se_offset e)..<unat (se_offset e) + unat (se_length e)}"

definition section_data :: "bytes \<Rightarrow> CoveSectionEntryV1 \<Rightarrow> bytes" where
  "section_data data e = slice (unat (se_offset e)) (unat (se_length e)) data"

definition checksum_ok :: "(bytes \<Rightarrow> u32) \<Rightarrow> bytes \<Rightarrow> CoveSectionEntryV1 \<Rightarrow> bool" where
  "checksum_ok crc data e \<longleftrightarrow> crc (section_data data e) = se_crc32c e"

definition admitted :: "CoveHeaderV1 \<Rightarrow> usize \<Rightarrow> CoveSectionEntryV1 \<Rightarrow> bool" where
  "admitted header footer_start e \<longleftrightarrow> validate_entry_features header e = Ok () \<and> HEADER_SIZE \<le> unat (se_offset e)
     \<and> unat (se_offset e) + unat (se_length e) \<le> footer_start \<and> unat (se_offset e) + unat (se_length e) < usize_bound"

definition range_clear :: "CoveSectionEntryV1 \<Rightarrow> u64 \<times> u64 \<times> u32 \<Rightarrow> bool" where
  "range_clear e r \<longleftrightarrow> se_length e = 0 \<or> fst (snd r) \<le> se_offset e \<or> se_offset e + se_length e \<le> fst r"

definition entry_range :: "CoveSectionEntryV1 \<Rightarrow> u64 \<times> u64 \<times> u32" where
  "entry_range e = (se_offset e, se_offset e + se_length e, se_section_id e)"

lemma overlapping_None:
  "overlapping ranges e (se_offset e + se_length e) = None \<longleftrightarrow> (\<forall>r \<in> set ranges. range_clear e r)"
  by (simp add: overlapping_def find_None_iff range_clear_def not_less Ball_def split_paired_All) blast

lemma end_word: "unat a + unat b < usize_bound \<Longrightarrow> unat (a + b :: u64) = unat a + unat b"
  by (simp add: unat_word_ariths)

lemma index_range_section:
  assumes "unat (se_offset e) + unat (se_length e) < usize_bound" "unat (se_offset e) + unat (se_length e) \<le> length data"
  shows "index_range data (unat (se_offset e), unat (se_offset e + se_length e)) = Ok (section_data data e)"
  using assms by (simp add: index_range_def section_data_def end_word)

lemma validate_sections_loop_Ok:
  assumes fs: "footer_start \<le> length data"
  shows "validate_sections_loop crc data footer_start header policy ranges last_id es = Ok ig \<longleftrightarrow>
     list_all (admitted header footer_start) es \<and> sorted_wrt (\<lambda>a b. se_section_id a < se_section_id b) es
     \<and> sorted_wrt (\<lambda>a b. range_clear b (entry_range a)) es
     \<and> list_all (\<lambda>e. (\<forall>l. last_id = Some l \<longrightarrow> l < se_section_id e) \<and> (\<forall>r \<in> set ranges. range_clear e r)
                 \<and> (checksum_ok crc data e \<or> policy = FailOpen \<and> is_optional_pushdown_entry e)) es
     \<and> ig = map ignored (filter (\<lambda>e. \<not> checksum_ok crc data e) es)"
proof (induction es arbitrary: ranges last_id ig)
  case (Cons e es)
  let ?rest = "validate_sections_loop crc data footer_start header policy (ranges @ [entry_range e]) (Some (se_section_id e)) es"
  show ?case
  proof (cases "admitted header footer_start e \<and> (\<forall>l. last_id = Some l \<longrightarrow> l < se_section_id e) \<and> (\<forall>r \<in> set ranges. range_clear e r)")
    case True
    then have a: "validate_entry_features header e = Ok ()" "HEADER_SIZE \<le> unat (se_offset e)"
        "unat (se_offset e) + unat (se_length e) \<le> footer_start" "unat (se_offset e) + unat (se_length e) < usize_bound"
      by (simp_all add: admitted_def)
    have e: "CoveSectionEntryV1_end_offset e = Ok (se_offset e + se_length e)" using a(4) by (simp add: result_simps)
    have "\<not> (case last_id of Some l \<Rightarrow> se_section_id e \<le> l | None \<Rightarrow> False)" using True by (auto simp: not_le split: option.splits)
    moreover have "overlapping ranges e (se_offset e + se_length e) = None" using True by (simp add: overlapping_None)
    moreover have "index_range data (unat (se_offset e), unat (se_offset e + se_length e)) = Ok (section_data data e)"
      using a fs by (intro index_range_section) simp_all
    ultimately have step: "validate_sections_loop crc data footer_start header policy ranges last_id (e # es) =
        (if \<not> checksum_ok crc data e
         then (if policy = FailOpen \<and> is_optional_pushdown_entry e then and_then ?rest (\<lambda>ig. Ok (ignored e # ig)) else Err ChecksumMismatch)
         else ?rest)"
      using a e by (simp add: end_word checksum_ok_def entry_range_def Let_def)
    have trans: "(\<forall>l. last_id = Some l \<longrightarrow> l < se_section_id x)" if "se_section_id e < se_section_id x" for x
      using True that by (auto dest: less_trans)
    show ?thesis
    proof (cases "checksum_ok crc data e")
      case ck: True
      have r: "(if \<not> checksum_ok crc data e then x else y) = y" for x y :: "'z result" using ck by simp
      show ?thesis unfolding step r Cons.IH using True ck by (auto simp: list_all_iff dest: trans)
    next
      case ck: False
      show ?thesis
      proof (cases "policy = FailOpen \<and> is_optional_pushdown_entry e")
        case pol: True
        have r: "((if \<not> checksum_ok crc data e then if policy = FailOpen \<and> is_optional_pushdown_entry e
             then and_then x (\<lambda>ig. Ok (ignored e # ig)) else y else z) = Ok ig) \<longleftrightarrow> (\<exists>ig'. x = Ok ig' \<and> ig = ignored e # ig')" for x y z
          using ck pol by (auto simp: result_simps)
        show ?thesis unfolding step r Cons.IH using True ck pol by (auto simp: list_all_iff dest: trans)
      next
        case pol: False
        show ?thesis unfolding step using ck pol by auto
      qed
    qed
  next
    case False
    have "validate_sections_loop crc data footer_start header policy ranges last_id (e # es) \<noteq> Ok ig"
    proof
      assume ok: "validate_sections_loop crc data footer_start header policy ranges last_id (e # es) = Ok ig"
      then have "\<forall>l. last_id = Some l \<longrightarrow> l < se_section_id e"
        by (auto simp: not_le split: if_splits)
      moreover from ok have "validate_entry_features header e = Ok ()" by (auto simp: result_simps split: if_splits)
      moreover from ok have off: "unat (se_offset e) + unat (se_length e) < usize_bound"
        "HEADER_SIZE \<le> unat (se_offset e)" "unat (se_offset e + se_length e) \<le> footer_start"
        by (auto simp: result_simps split: if_splits)
      moreover from ok off(1) have "overlapping ranges e (se_offset e + se_length e) = None"
        by (auto simp: result_simps split: if_splits option.splits)
      ultimately show False using False by (auto simp: admitted_def end_word overlapping_None)
    qed
    with False show ?thesis by auto
  qed
qed auto

lemma clear_disjoint:
  assumes "unat (se_offset a) + unat (se_length a) < usize_bound" "unat (se_offset b) + unat (se_length b) < usize_bound"
    and "range_clear b (entry_range a)"
  shows "section_range a \<inter> section_range b = {}"
  using assms by (auto simp: range_clear_def entry_range_def section_range_def word_le_nat_alt end_word)

lemma disjoint_clear:
  assumes "unat (se_offset a) + unat (se_length a) < usize_bound" "unat (se_offset b) + unat (se_length b) < usize_bound"
    and "unat (se_offset a) + unat (se_length a) \<le> unat (se_offset b)"
  shows "range_clear b (entry_range a)"
  using assms by (simp add: range_clear_def entry_range_def word_le_nat_alt end_word)

section \<open>Where the validator can panic\<close>

lemma container_parsers_no_panic [simp]:
  "CoveSectionSpecV1_parse bs \<noteq> Panic" "CovePostscriptV1_parse_from_tail crc data \<noteq> Panic" "CoveHeaderV1_parse crc data \<noteq> Panic"
  "CoveFooterHeaderV1_parse bs \<noteq> Panic" "CoveSectionEntryV1_parse bs \<noteq> Panic" "CoveFooterHeaderV1_total_len h \<noteq> Panic"
  "CoveSectionSpecV1_end_offset s \<noteq> Panic" "CoveSectionEntryV1_end_offset e \<noteq> Panic" "metadata_validate json_ok bs \<noteq> Panic"
proof -
  have c: "CoveSectionSpecV1_check s \<noteq> Panic" "CoveHeaderV1_check h \<noteq> Panic" "CoveFooterHeaderV1_check g \<noteq> Panic"
      "CoveSectionEntryV1_check e \<noteq> Panic" for s h g e
    by (simp_all add: CoveSectionSpecV1_check_def CoveHeaderV1_check_def CoveFooterHeaderV1_check_def CoveSectionEntryV1_check_def)
  show s: "CoveSectionSpecV1_parse bs \<noteq> Panic" for bs
    by (auto simp: CoveSectionSpecV1_parse_def Let_def and_then_eq_Panic c)
  show "CoveHeaderV1_parse crc data \<noteq> Panic" "CoveFooterHeaderV1_parse bs \<noteq> Panic" "CoveSectionEntryV1_parse bs \<noteq> Panic"
    by (auto simp: CoveHeaderV1_parse_def CoveFooterHeaderV1_parse_def CoveSectionEntryV1_parse_def Let_def and_then_eq_Panic c)
  have "CovePostscriptV1_parse_payload crc b \<noteq> Panic" for b
    by (auto simp: CovePostscriptV1_parse_payload_def Let_def and_then_eq_Panic s)
  then show "CovePostscriptV1_parse_from_tail crc data \<noteq> Panic"
    by (auto simp: CovePostscriptV1_parse_from_tail_def Let_def)
  show "CoveFooterHeaderV1_total_len h \<noteq> Panic" "CoveSectionSpecV1_end_offset s \<noteq> Panic" "CoveSectionEntryV1_end_offset e \<noteq> Panic"
      "metadata_validate json_ok bs \<noteq> Panic"
    by (auto simp: CoveFooterHeaderV1_total_len_def CoveSectionSpecV1_end_offset_def CoveSectionEntryV1_end_offset_def
        metadata_validate_def and_then_eq_Panic)
qed

lemma footer_parse_no_panic [simp]: "CoveFooter_parse json_ok buf \<noteq> Panic"
  by (auto simp: CoveFooter_parse_def Let_def and_then_eq_Panic collect_map_no_panic)

lemma feature_checks_no_panic [simp]:
  "validate_entry_features header e \<noteq> Panic" "validate_footer_codec_feature_advertisement p \<noteq> Panic"
  "validate_required_feature_implementation cs header \<noteq> Panic" "validate_primary_profile_features header \<noteq> Panic"
proof -
  have "validate_section_required_feature_advertisement header e \<noteq> Panic"
    by (auto simp: validate_section_required_feature_advertisement_def and_then_eq_Panic ok_or_def Let_def split: option.splits)
  moreover have "validate_section_profile_feature_bit p f \<noteq> Panic" "validate_section_profile k p \<noteq> Panic"
    "validate_codec_feature_advertisement c header e \<noteq> Panic" for p f k c
    by (auto simp: validate_section_profile_feature_bit_def validate_section_profile_def validate_codec_feature_advertisement_def
        and_then_eq_Panic ok_or_def Let_def split: option.splits)
  ultimately show "validate_entry_features header e \<noteq> Panic"
    by (auto simp: validate_entry_features_def and_then_eq_Panic)
  show "validate_footer_codec_feature_advertisement p \<noteq> Panic" "validate_required_feature_implementation cs header \<noteq> Panic"
    by (simp_all add: validate_footer_codec_feature_advertisement_def validate_required_feature_implementation_def Let_def)
  show "validate_primary_profile_features header \<noteq> Panic"
    by (auto simp: validate_primary_profile_features_def and_then_eq_Panic ok_or_def split: option.splits)
qed

lemma validate_sections_no_panic:
  assumes "footer_start \<le> length data"
  shows "validate_sections crc data footer_start footer header policy \<noteq> Panic"
proof -
  have "validate_sections_loop crc data footer_start header policy ranges last_id es \<noteq> Panic" for ranges last_id es
  proof (induction es arbitrary: ranges last_id)
    case (Cons e es)
    have "index_range data (unat (se_offset e), unat t) \<noteq> Panic"
      if "CoveSectionEntryV1_end_offset e = Ok t" and "unat t \<le> footer_start" for t
      using that assms by (intro index_range_inside) (auto simp: result_simps end_word)
    with Cons.IH show ?case
      by (auto simp: and_then_eq_Panic Let_def not_less split: option.splits)
  qed simp
  then show ?thesis by (simp add: validate_sections_def and_then_eq_Panic)
qed

lemma metadata_sections_no_panic [simp]:
  "ExtendedFeatureSetV2_parse crc bs \<noteq> Panic" "ProfileCapabilityMatrixV2_parse crc bs \<noteq> Panic"
proof -
  have e: "ExtendedFeatureSetHeaderV2_validate_counts h \<noteq> Panic" for h
    by (simp add: ExtendedFeatureSetHeaderV2_validate_counts_def)
  have h: "ExtendedFeatureSetHeaderV2_parse crc bs \<noteq> Panic"
    by (auto simp: ExtendedFeatureSetHeaderV2_parse_def Let_def and_then_eq_Panic verify_crc_def ExtendedFeatureSetHeaderV2_LEN_def e)
  have "20 \<le> length bs" if "ExtendedFeatureSetHeaderV2_parse crc bs = Ok x" for x
    using that by (auto simp: ExtendedFeatureSetHeaderV2_parse_def ExtendedFeatureSetHeaderV2_LEN_def split: if_splits)
  with h show "ExtendedFeatureSetV2_parse crc bs \<noteq> Panic"
    by (auto simp: ExtendedFeatureSetV2_parse_def Let_def and_then_eq_Panic word_bytes_len_def read_words_def index_range_def
        ExtendedFeatureSetV2_validate_def result_simps e)
  have v: "ProfileCapabilityEntryV2_validate x \<noteq> Panic" for x by (simp add: ProfileCapabilityEntryV2_validate_def)
  have p: "ProfileCapabilityEntryV2_parse crc c \<noteq> Panic" "ProfileCapabilityMatrixHeaderV2_parse crc c \<noteq> Panic" for c
    by (auto simp: ProfileCapabilityEntryV2_parse_def ProfileCapabilityMatrixHeaderV2_parse_def Let_def and_then_eq_Panic verify_crc_def
        ok_or_def v ProfileCapabilityEntryV2_LEN_def ProfileCapabilityMatrixHeaderV2_LEN_def ProfileCapabilityMatrixHeaderV2_check_def
        split: option.splits)
  have "capability_loop prev seen es \<noteq> Panic" for prev seen es
    by (induction es arbitrary: prev seen) (auto simp: and_then_eq_Panic v Let_def)
  with p show "ProfileCapabilityMatrixV2_parse crc bs \<noteq> Panic"
    by (auto simp: ProfileCapabilityMatrixV2_parse_def Let_def and_then_eq_Panic index_range_def ProfileCapabilityMatrixV2_validate_def
        result_simps collect_map_no_panic)
qed

lemma parsed_binding_valid:
  "parse_binding_section crc cs data extended e = Ok b \<Longrightarrow> SectionFeatureBindingSectionV2_validate b = Ok ()"
  by (auto simp: parse_binding_section_def result_simps SectionFeatureBindingSectionV2_parse_def Let_def split: option.splits)

lemma parsed_bindings_valid:
  "collect_map (parse_binding_section crc cs data extended) es = Ok bs \<Longrightarrow> bindings_valid bs"
  by (auto simp: bindings_valid_def list_all_iff collect_map_mem intro: parsed_binding_valid)

text \<open>The sections whose payloads the validator reads.\<close>

definition feature_section :: "CoveSectionEntryV1 \<Rightarrow> bool" where
  "feature_section e \<longleftrightarrow> se_section_kind e \<in>
     SectionKind_code ` {Section_ExtendedFeatureSet, Section_ProfileCapabilityMatrix, Section_SectionFeatureBinding}"

lemma resolve_header_section:
  "resolve_header_section_id footer i k f = Ok (Some e) \<Longrightarrow> e \<in> set (ft_sections footer) \<and> se_section_kind e = SectionKind_code k"
  by (auto simp: resolve_header_section_id_def find_Some_iff split: if_splits option.splits)

lemma collect_map_panic: "collect_map f xs = Panic \<Longrightarrow> \<exists>x \<in> set xs. f x = Panic"
  by (induction xs) (auto simp: and_then_eq_Panic)

lemma map_transpose_panic: "map_transpose f v = Panic \<Longrightarrow> \<exists>x. v = Some x \<and> f x = Panic"
  by (auto simp: map_transpose_def and_then_eq_Panic split: option.splits)

lemma parse_extended_panic: "parse_extended_section crc cs data header e = Panic \<Longrightarrow> section_payload cs data e = Panic"
  by (auto simp: parse_extended_section_def and_then_eq_Panic validate_against_low_words_def split: if_splits)

lemma parse_binding_panic:
  assumes "parse_binding_section crc cs data ext e = Panic"
  shows "section_payload cs data e = Panic"
proof -
  have hz: "validate_binding_word_horizon f n h \<noteq> Panic" for f n h
    by (auto simp: validate_binding_word_horizon_def and_then_eq_Panic)
  have "validate_binding_horizon s b \<noteq> Panic" for s b
    unfolding validate_binding_horizon_def by (rule try_each_no_panic) (auto simp: and_then_eq_Panic hz)
  then show ?thesis using assms by (auto simp: parse_binding_section_def and_then_eq_Panic split: option.splits)
qed

lemma scoped_metadata_panic:
  assumes "parse_scoped_feature_metadata crc cs data header footer = Panic"
  shows "\<exists>e \<in> set (ft_sections footer). feature_section e \<and> section_payload cs data e = Panic"
proof (rule ccontr)
  assume none: "\<not> ?thesis"
  have r: "resolve_header_section_id footer i k f \<noteq> Panic" for i k f
    by (simp add: resolve_header_section_id_def split: option.split)
  have x: "map_transpose (parse_extended_section crc cs data header) v \<noteq> Panic"
    if "resolve_header_section_id footer i Section_ExtendedFeatureSet f = Ok v" for v i f
    using resolve_header_section [of footer i Section_ExtendedFeatureSet f] that none
    by (auto simp: feature_section_def dest!: map_transpose_panic parse_extended_panic)
  have p: "map_transpose (\<lambda>e. and_then (section_payload cs data e) (ProfileCapabilityMatrixV2_parse crc)) v \<noteq> Panic"
    if "resolve_header_section_id footer i Section_ProfileCapabilityMatrix f = Ok v" for v i f
    using resolve_header_section [of footer i Section_ProfileCapabilityMatrix f] that none
    by (auto simp: feature_section_def and_then_eq_Panic dest!: map_transpose_panic)
  have b: "collect_map (parse_binding_section crc cs data ext)
      (filter (\<lambda>e. se_section_kind e = SectionKind_code Section_SectionFeatureBinding) (ft_sections footer)) \<noteq> Panic" for ext
    using none by (auto simp: feature_section_def dest!: collect_map_panic parse_binding_panic)
  have m: "(case m of None \<Rightarrow> Ok () | Some m \<Rightarrow> try_each (matrix_entry_in_horizon ext) (pm_entries m)) \<noteq> Panic" for m ext
    by (auto simp: matrix_entry_in_horizon_def intro!: try_each_no_panic split: option.splits if_splits)
  have bm: "build_many header footer ext mx bs \<noteq> Panic"
    if "collect_map (parse_binding_section crc cs data ext) es = Ok bs" for ext mx bs es
    using parsed_bindings_valid [OF that] by (rule build_many_no_panic)
  show False using assms
    unfolding parse_scoped_feature_metadata_def
    by (auto simp: and_then_eq_Panic r m b b [simplified] x p bm split: if_splits)
qed

definition declares_oversized :: "(bytes \<Rightarrow> u32) \<Rightarrow> (bytes \<Rightarrow> bool) \<Rightarrow> codecs \<Rightarrow> bytes \<Rightarrow> bool" where
  "declares_oversized crc json_ok cs data \<longleftrightarrow> (\<exists>p. CovePostscriptV1_parse_from_tail crc data = Ok p \<and>
     (oversized (ss_compression (ps_footer p)) (ss_uncompressed_length (ps_footer p))
      \<or> (\<exists>payload footer. section_spec_payload cs data (ps_footer p) = Ok payload \<and> CoveFooter_parse json_ok payload = Ok footer
           \<and> (\<exists>e \<in> set (ft_sections footer). feature_section e \<and> oversized (se_compression e) (se_uncompressed_length e)))))"

lemma validate_sections_subset:
  "validate_sections crc data start footer header policy = Ok (footer', ig) \<Longrightarrow> set (ft_sections footer') \<subseteq> set (ft_sections footer)"
  by (auto simp: validate_sections_def result_simps retain_sections_def Let_def split: if_splits)

lemma validate_panic_declares:
  assumes cs: "codecs_return cs"
    and panic: "validate_bytes_with_optional_pushdown_policy crc json_ok cs data policy = Panic"
  shows "declares_oversized crc json_ok cs data"
proof (rule ccontr)
  assume small: "\<not> ?thesis"
  have reject: "reject_file_required_unknowns t \<noteq> Panic" for t
    unfolding reject_file_required_unknowns_def by (rule try_each_no_panic) simp
  have start: "unat (ss_offset s) \<le> unat t" if "CoveSectionSpecV1_end_offset s = Ok t" for s t
    using that by (auto simp: result_simps end_word)
  have region: "index_range data (unat (ss_offset s), unat t) \<noteq> Panic"
      and sections: "validate_sections crc data (unat (ss_offset s)) f h p \<noteq> Panic"
    if "CoveSectionSpecV1_end_offset s = Ok t" "unat t \<le> length data - POSTSCRIPT_TOTAL_SIZE" for s t f h p
  proof -
    have le: "unat t \<le> length data" "unat (ss_offset s) \<le> unat t" using start [OF that(1)] that(2) by linarith+
    then show "index_range data (unat (ss_offset s), unat t) \<noteq> Panic" by (intro index_range_inside) simp_all
    show "validate_sections crc data (unat (ss_offset s)) f h p \<noteq> Panic" using le by (intro validate_sections_no_panic) simp
  qed
  have spec: "section_spec_payload cs data (ps_footer p) \<noteq> Panic" if "CovePostscriptV1_parse_from_tail crc data = Ok p" for p
    using section_payload_panic(2) [OF cs, of data "ps_footer p"] small that by (auto simp: declares_oversized_def)
  have scoped: "validate_scoped_feature_metadata crc cs data h footer' \<noteq> Panic"
    if "CovePostscriptV1_parse_from_tail crc data = Ok p" "section_spec_payload cs data (ps_footer p) = Ok payload"
      "CoveFooter_parse json_ok payload = Ok footer" "validate_sections crc data start footer header policy = Ok (footer', ig)"
    for p payload footer footer' ig h header start
  proof
    assume "validate_scoped_feature_metadata crc cs data h footer' = Panic"
    then obtain e where "e \<in> set (ft_sections footer')" "feature_section e" "section_payload cs data e = Panic"
      using scoped_metadata_panic [of crc cs data h footer'] by (auto simp: validate_scoped_feature_metadata_def and_then_eq_Panic reject)
    then show False
      using section_payload_panic(1) [OF cs] validate_sections_subset [OF that(4)] that(1-3) small
      by (auto simp: declares_oversized_def)
  qed
  show False using panic
    unfolding validate_bytes_with_optional_pushdown_policy_def Let_def
    by (auto simp: and_then_eq_Panic not_less region sections spec scoped split: prod.splits if_splits)
qed

text \<open>A file made of zeros, a compressed footer of the given bytes, and a postscript that declares \<open>2 ^ 63\<close> bytes for it.\<close>

definition oversized_postscript :: "(bytes \<Rightarrow> u32) \<Rightarrow> bytes \<Rightarrow> CovePostscriptV1" where
  "oversized_postscript crc raw =
     \<lparr>ps_required_features = FEATURE_CODEC_ZSTD, ps_optional_features = 0, ps_file_len = of_nat (HEADER_SIZE + length raw + POSTSCRIPT_TOTAL_SIZE),
      ps_footer = \<lparr>ss_offset = of_nat HEADER_SIZE, ss_length = of_nat (length raw), ss_uncompressed_length = 2 ^ 63,
        ss_compression = CompressionCodec_code Codec_Zstd, ss_encryption = 0, ss_alignment_log2 = 0, ss_flags = 0, ss_crc32c = crc raw,
        ss_reserved = 0\<rparr>,
      ps_checksum = 0\<rparr>"

definition oversized_file :: "(bytes \<Rightarrow> u32) \<Rightarrow> bytes \<Rightarrow> bytes" where
  "oversized_file crc raw = replicate HEADER_SIZE 0 @ raw @ CovePostscriptV1_serialize_tail crc (oversized_postscript crc raw)"

lemma oversized_file_panics:
  assumes "zstd_enabled cs" "zstd_decoder_new cs raw = Some (Inr ())" "length raw < 2 ^ 32"
  shows "validate_bytes_with_optional_pushdown_policy crc json_ok cs (oversized_file crc raw) policy = Panic"
proof -
  let ?p = "oversized_postscript crc raw" and ?data = "oversized_file crc raw"
  let ?q = "?p\<lparr>ps_checksum := crc (CovePostscriptV1_image ?p)\<rparr>"
  have "CoveSectionSpecV1_check (ps_footer ?p) = Ok ()"
    by (simp add: CoveSectionSpecV1_check_def oversized_postscript_def CompressionCodec_from_u8_def)
  moreover have "ps_required_features ?p AND NOT KNOWN_FEATURE_BITS_MASK = 0"
    by (simp add: oversized_postscript_def KNOWN_FEATURE_BITS_MASK_eq feature_defs mask_eq_exp_minus_1)
  ultimately have post: "CovePostscriptV1_parse_from_tail crc ?data = Ok ?q"
    using postscript_tail_roundtrip [of ?p crc "replicate HEADER_SIZE 0 @ raw"] by (simp add: oversized_file_def)
  have len: "length ?data = 232 + length raw" by (simp add: oversized_file_def HEADER_SIZE_eq)
  have nat: "unat (of_nat (length raw) :: u64) = length raw" "unat (of_nat (232 + length raw) :: u64) = 232 + length raw"
      "unat (160 + of_nat (length raw) :: u64) = 160 + length raw"
    using assms(3) unat_of_nat_less [of "length raw", where 'a = 64] unat_of_nat_less [of "232 + length raw", where 'a = 64]
      unat_of_nat_less [of "160 + length raw", where 'a = 64] by simp_all
  have q: "ss_offset (ps_footer ?p) = 160" "ss_length (ps_footer ?p) = of_nat (length raw)" "ss_uncompressed_length (ps_footer ?p) = 2 ^ 63"
      "ss_compression (ps_footer ?p) = 2" "ss_crc32c (ps_footer ?p) = crc raw" "unat (ps_file_len ?p) = 232 + length raw"
      "ps_required_features ?p = FEATURE_CODEC_ZSTD"
    using nat(2) by (simp_all add: oversized_postscript_def HEADER_SIZE_eq postscript_sizes)
  have raw: "slice 160 (length raw) ?data = raw" by (simp add: oversized_file_def HEADER_SIZE_eq wire_simps)
  have magic: "slice (228 + length raw) 4 ?data = MAGIC_COVE"
    using post unfolding CovePostscriptV1_parse_from_tail_def Let_def by (auto simp: len postscript_sizes split: if_splits)
  have fe: "CoveSectionSpecV1_end_offset (ps_footer ?p) = Ok (160 + of_nat (length raw))"
    using assms(3) nat(1) by (simp add: CoveSectionSpecV1_end_offset_def q checked_add_def)
  have "payload_raw_bytes ?data 160 (of_nat (length raw)) = Ok raw"
    using assms(3) by (simp add: payload_raw_bytes_def nat len raw checked_add_def)
  moreover have "zstd_decompress cs raw (2 ^ 63) = Panic" using assms(1,2) by (simp add: zstd_decompress_panic_iff)
  ultimately have spec: "section_spec_payload cs ?data (ps_footer ?p) = Panic"
    by (simp only: section_spec_payload_def payload_from_spec_def q) (simp add: payload_from_raw_def CompressionCodec_from_u8_def)
  have "index_range ?data (160, 160 + length raw) = Ok raw" by (simp add: index_range_def len raw)
  moreover have "validate_footer_codec_feature_advertisement (?p\<lparr>ps_checksum := c\<rparr>) = Ok ()" for c
    by (simp add: validate_footer_codec_feature_advertisement_def q) (simp add: feature_defs oversized_postscript_def)
  ultimately show ?thesis
    by (simp add: validate_bytes_with_optional_pushdown_policy_def Let_def magic post q fe spec nat len HEADER_SIZE_eq postscript_sizes)
qed

text \<open>C10: The validator returns a result or an error on every byte string, unless a compressed footer, or a compressed section
  that it has to read, declares an uncompressed length above \<open>isize::MAX\<close>. This exception is real: a file with such a footer
  makes it panic in \<open>Vec::with_capacity\<close>, as soon as the Zstd decoder accepts the first bytes of the footer.\<close>

theorem validate_bytes_panics_only_on_oversize:
  assumes "codecs_return cs"
  shows "(validate_bytes crc json_ok cs data = Panic \<longrightarrow> declares_oversized crc json_ok cs data)
    \<and> (zstd_enabled cs \<and> zstd_decoder_new cs raw = Some (Inr ()) \<and> length raw < 2 ^ 32 \<longrightarrow>
         validate_bytes crc json_ok cs (oversized_file crc raw) = Panic)"
  using validate_panic_declares [OF assms, of crc json_ok data Strict] oversized_file_panics [of cs raw crc json_ok Strict]
  by (auto simp: validate_bytes_def and_then_eq_Panic split: prod.splits)

theorem validate_bytes_panics_only_on_oversize_witness:
  "validate_bytes (\<lambda>_. 7) (\<lambda>_. False) stored_codecs (oversized_file (\<lambda>_. 7) [1, 2]) = Panic
    \<and> declares_oversized (\<lambda>_. 7) (\<lambda>_. False) stored_codecs (oversized_file (\<lambda>_. 7) [1, 2])
    \<and> validate_bytes (\<lambda>_. 7) (\<lambda>_. False) stored_codecs [1, 2] \<noteq> Panic"
proof -
  have "zstd_enabled stored_codecs" "zstd_decoder_new stored_codecs [1, 2] = Some (Inr ())" by (simp_all add: stored_codecs_def)
  moreover have "\<not> declares_oversized (\<lambda>_. 7) (\<lambda>_. False) stored_codecs [1, 2]"
    by (simp add: declares_oversized_def CovePostscriptV1_parse_from_tail_def postscript_sizes)
  ultimately show ?thesis
    using validate_bytes_panics_only_on_oversize [OF stored_codecs_return, of "\<lambda>_. 7" "\<lambda>_. False" "oversized_file (\<lambda>_. 7) [1, 2]" "[1, 2]"]
      validate_bytes_panics_only_on_oversize [OF stored_codecs_return, of "\<lambda>_. 7" "\<lambda>_. False" "[1, 2]" "[1, 2]"]
    by simp
qed

section \<open>What an accepted file guarantees\<close>

text \<open>The parts of an accepted file, with the checks each of them passed.\<close>

lemma validated_parts:
  assumes "validate_bytes_with_optional_pushdown_policy crc json_ok cs data policy = Ok (v, ig)"
  obtains footer where
    "unat (ps_file_len (vf_postscript v)) = length data"
    and "HEADER_SIZE \<le> unat (ss_offset (ps_footer (vf_postscript v)))"
    and "unat (ss_offset (ps_footer (vf_postscript v))) + unat (ss_length (ps_footer (vf_postscript v))) + POSTSCRIPT_TOTAL_SIZE \<le> length data"
    and "crc (slice (unat (ss_offset (ps_footer (vf_postscript v)))) (unat (ss_length (ps_footer (vf_postscript v)))) data)
           = ss_crc32c (ps_footer (vf_postscript v))"
    and "CoveHeaderV1_parse crc data = Ok (vf_header v)"
    and "CovePostscriptV1_parse_from_tail crc data = Ok (vf_postscript v)"
    and "validate_sections crc data (unat (ss_offset (ps_footer (vf_postscript v)))) footer (vf_header v) policy = Ok (vf_footer v, ig)"
    and "validate_primary_profile_features (vf_header v) = Ok ()"
    and "hdr_required_features (vf_header v) = ps_required_features (vf_postscript v)"
    and "hdr_optional_features (vf_header v) = ps_optional_features (vf_postscript v)"
    and "validate_scoped_feature_metadata crc cs data (vf_header v) (vf_footer v) = Ok ()"
proof -
  from assms obtain postscript footer_end footer b where *:
      "HEADER_SIZE + POSTSCRIPT_TOTAL_SIZE \<le> length data"
      "CovePostscriptV1_parse_from_tail crc data = Ok postscript" "unat (ps_file_len postscript) = length data"
      "CoveSectionSpecV1_end_offset (ps_footer postscript) = Ok footer_end"
      "HEADER_SIZE \<le> unat (ss_offset (ps_footer postscript))" "unat footer_end \<le> length data - POSTSCRIPT_TOTAL_SIZE"
      "index_range data (unat (ss_offset (ps_footer postscript)), unat footer_end) = Ok b"
      "crc b = ss_crc32c (ps_footer postscript)"
      "CoveHeaderV1_parse crc data = Ok (vf_header v)"
      "validate_sections crc data (unat (ss_offset (ps_footer postscript))) footer (vf_header v) policy = Ok (vf_footer v, ig)"
      "validate_primary_profile_features (vf_header v) = Ok ()"
      "hdr_required_features (vf_header v) = ps_required_features postscript"
      "hdr_optional_features (vf_header v) = ps_optional_features postscript"
      "validate_scoped_feature_metadata crc cs data (vf_header v) (vf_footer v) = Ok ()" "postscript = vf_postscript v"
    unfolding validate_bytes_with_optional_pushdown_policy_def Let_def
    by (auto simp: and_then_eq_Ok not_less split: if_splits prod.splits)
  have fe: "footer_end = ss_offset (ps_footer postscript) + ss_length (ps_footer postscript)"
    and nat_end: "unat footer_end = unat (ss_offset (ps_footer postscript)) + unat (ss_length (ps_footer postscript))"
    using *(4) by (auto simp: result_simps end_word)
  have "b = slice (unat (ss_offset (ps_footer postscript))) (unat (ss_length (ps_footer postscript))) data"
    using *(7) by (auto simp: index_range_def nat_end split: if_splits)
  moreover have "unat footer_end + POSTSCRIPT_TOTAL_SIZE \<le> length data" using *(1,6) by linarith
  ultimately show thesis using that [of footer] * nat_end by simp
qed

lemma sorted_wrt_conj: "sorted_wrt P xs \<Longrightarrow> sorted_wrt Q xs \<Longrightarrow> sorted_wrt (\<lambda>a b. P a b \<and> Q a b) xs"
  by (induction xs) auto

lemma sorted_wrt_inj:
  fixes f :: "'a \<Rightarrow> 'b::linorder"
  assumes "sorted_wrt (\<lambda>a b. f a < f b) xs" "x \<in> set xs" "y \<in> set xs" "f x = f y"
  shows "x = y"
  using assms
proof (induction xs)
  case (Cons a xs)
  then show ?case by (metis (mono_tags, lifting) less_irrefl set_ConsD sorted_wrt.simps(2))
qed simp

text \<open>Distinct sections of an accepted file, in the order of the directory.\<close>

lemma retained_sections:
  assumes "validate_sections crc data footer_start footer header policy = Ok (footer', ig)" and "footer_start \<le> length data"
  shows "sorted_wrt (\<lambda>a b. se_section_id a < se_section_id b \<and> section_range a \<inter> section_range b = {}) (ft_sections footer')
     \<and> list_all (\<lambda>e. admitted header footer_start e \<and> checksum_ok crc data e) (ft_sections footer')
     \<and> ig = map ignored (filter (\<lambda>e. \<not> checksum_ok crc data e) (ft_sections footer))
     \<and> ft_sections footer' = filter (checksum_ok crc data) (ft_sections footer)
     \<and> (policy = Strict \<longrightarrow> ig = [] \<and> footer' = footer)"
proof -
  let ?es = "ft_sections footer"
  from assms(1) have loop: "validate_sections_loop crc data footer_start header policy [] None ?es = Ok ig"
    and f': "footer' = retain_sections ig footer"
    by (auto simp: validate_sections_def result_simps)
  from loop have adm: "list_all (admitted header footer_start) ?es"
    and ids: "sorted_wrt (\<lambda>a b. se_section_id a < se_section_id b) ?es"
    and clear: "sorted_wrt (\<lambda>a b. range_clear b (entry_range a)) ?es"
    and crcs: "list_all (\<lambda>e. checksum_ok crc data e \<or> policy = FailOpen \<and> is_optional_pushdown_entry e) ?es"
    and ig: "ig = map ignored (filter (\<lambda>e. \<not> checksum_ok crc data e) ?es)"
    unfolding validate_sections_loop_Ok [OF assms(2)] by (simp_all add: list_all_iff)
  have bound: "unat (se_offset e) + unat (se_length e) < usize_bound" if "e \<in> set ?es" for e
    using adm that by (auto simp: list_all_iff admitted_def)
  have disjoint: "sorted_wrt (\<lambda>a b. section_range a \<inter> section_range b = {}) ?es"
    by (rule sorted_wrt_mono_rel [OF _ clear]) (rule clear_disjoint [OF bound bound], assumption+)
  have keep: "checksum_ok crc data e \<longleftrightarrow> se_section_id e \<notin> set (map ig_section_id ig)" if e: "e \<in> set ?es" for e
  proof
    assume ck: "checksum_ok crc data e"
    show "se_section_id e \<notin> set (map ig_section_id ig)"
    proof
      assume "se_section_id e \<in> set (map ig_section_id ig)"
      then obtain x where x: "x \<in> set ?es" "\<not> checksum_ok crc data x" "se_section_id x = se_section_id e"
        by (auto simp: ig ignored_def)
      then have "x = e" using e sorted_wrt_inj [OF ids] by blast
      with x(2) ck show False by simp
    qed
  next
    assume "se_section_id e \<notin> set (map ig_section_id ig)"
    then show "checksum_ok crc data e" using e by (force simp: ig ignored_def)
  qed
  have f: "ft_sections footer' = filter (checksum_ok crc data) ?es"
  proof (cases "ig = []")
    case True
    then have "filter (\<lambda>e. \<not> checksum_ok crc data e) ?es = []" using ig by simp
    then have "filter (checksum_ok crc data) ?es = ?es" by (auto simp: filter_empty_conv intro: filter_True)
    with True f' show ?thesis by (simp add: retain_sections_def)
  next
    case False
    then have "ft_sections footer' = filter (\<lambda>e. se_section_id e \<notin> set (map ig_section_id ig)) ?es"
      using f' by (simp add: retain_sections_def Let_def)
    also have "\<dots> = filter (checksum_ok crc data) ?es" by (rule filter_cong) (use keep in auto)
    finally show ?thesis .
  qed
  have strict: "ig = [] \<and> footer' = footer" if "policy = Strict"
  proof -
    have "list_all (checksum_ok crc data) ?es" using crcs that by (auto simp: list_all_iff)
    then have "ig = []" by (auto simp: ig filter_empty_conv list_all_iff)
    with f' show ?thesis by (simp add: retain_sections_def)
  qed
  have "sorted_wrt (\<lambda>a b. se_section_id a < se_section_id b \<and> section_range a \<inter> section_range b = {}) (ft_sections footer')"
    unfolding f using sorted_wrt_conj [OF ids disjoint] by (rule sorted_wrt_filter)
  moreover have "list_all (\<lambda>e. admitted header footer_start e \<and> checksum_ok crc data e) (ft_sections footer')"
    unfolding f using adm by (simp add: list_all_iff)
  ultimately show ?thesis using f ig strict by (intro conjI impI) simp_all
qed

lemma validate_sections_strict_iff:
  assumes "footer_start \<le> length data"
  shows "validate_sections crc data footer_start footer header Strict = Ok (footer', ig) \<longleftrightarrow>
     validate_sections crc data footer_start footer header FailOpen = Ok (footer', ig) \<and> ig = []"
  unfolding validate_sections_def and_then_eq_Ok
  by (auto simp: validate_sections_loop_Ok [OF assms] list_all_iff filter_empty_conv)

definition file_consistent :: "(bytes \<Rightarrow> u32) \<Rightarrow> bytes \<Rightarrow> ValidatedCoveFile \<Rightarrow> bool" where
  "file_consistent crc data v \<longleftrightarrow>
     (let ps = vf_postscript v; lo = unat (ss_offset (ps_footer ps)); n = unat (ss_length (ps_footer ps)) in
      unat (ps_file_len ps) = length data
      \<and> hdr_required_features (vf_header v) = ps_required_features ps \<and> hdr_optional_features (vf_header v) = ps_optional_features ps
      \<and> 160 \<le> lo \<and> lo + n + 72 \<le> length data \<and> crc (slice lo n data) = ss_crc32c (ps_footer ps)
      \<and> sorted_wrt (\<lambda>a b. se_section_id a < se_section_id b \<and> section_range a \<inter> section_range b = {}) (ft_sections (vf_footer v))
      \<and> list_all (\<lambda>e. section_range e \<subseteq> {160..<lo} \<and> crc (section_data data e) = se_crc32c e
           \<and> (\<exists>kind. SectionKind_from_u16 (se_section_kind e) = Some kind \<and> se_profile e \<in> set (allowed_profiles kind)))
          (ft_sections (vf_footer v)))"

lemma validated_consistent:
  assumes "validate_bytes_with_optional_pushdown_policy crc json_ok cs data policy = Ok (v, ig)"
  shows "file_consistent crc data v"
proof -
  from assms obtain footer where *:
    "unat (ps_file_len (vf_postscript v)) = length data"
    "HEADER_SIZE \<le> unat (ss_offset (ps_footer (vf_postscript v)))"
    "unat (ss_offset (ps_footer (vf_postscript v))) + unat (ss_length (ps_footer (vf_postscript v))) + POSTSCRIPT_TOTAL_SIZE \<le> length data"
    "crc (slice (unat (ss_offset (ps_footer (vf_postscript v)))) (unat (ss_length (ps_footer (vf_postscript v)))) data)
           = ss_crc32c (ps_footer (vf_postscript v))"
    "validate_sections crc data (unat (ss_offset (ps_footer (vf_postscript v)))) footer (vf_header v) policy = Ok (vf_footer v, ig)"
    "hdr_required_features (vf_header v) = ps_required_features (vf_postscript v)"
    "hdr_optional_features (vf_header v) = ps_optional_features (vf_postscript v)"
    by (rule validated_parts) blast
  let ?lo = "unat (ss_offset (ps_footer (vf_postscript v)))"
  have r: "sorted_wrt (\<lambda>a b. se_section_id a < se_section_id b \<and> section_range a \<inter> section_range b = {}) (ft_sections (vf_footer v))"
      "list_all (\<lambda>e. admitted (vf_header v) ?lo e \<and> checksum_ok crc data e) (ft_sections (vf_footer v))"
    using retained_sections [OF *(5)] *(3) by (meson add_leD1)+
  have "section_range e \<subseteq> {160..<?lo} \<and> (\<exists>kind. SectionKind_from_u16 (se_section_kind e) = Some kind \<and> se_profile e \<in> set (allowed_profiles kind))"
    if "admitted (vf_header v) ?lo e" for e
    using that by (auto simp: admitted_def section_range_def HEADER_SIZE_eq validate_entry_features_def validate_section_profile_def
        result_simps split: if_splits)
  with r(2) have "list_all (\<lambda>e. section_range e \<subseteq> {160..<?lo} \<and> crc (section_data data e) = se_crc32c e
           \<and> (\<exists>kind. SectionKind_from_u16 (se_section_kind e) = Some kind \<and> se_profile e \<in> set (allowed_profiles kind)))
          (ft_sections (vf_footer v))"
    by (auto simp: list_all_iff checksum_ok_def)
  with * r(1) show ?thesis
    by (simp add: file_consistent_def Let_def HEADER_SIZE_eq postscript_sizes)
qed

lemma policy_change:
  assumes ok: "validate_bytes_with_optional_pushdown_policy crc json_ok cs data policy = Ok (v, ig)"
    and change: "\<And>footer_start f h f'. footer_start \<le> length data \<Longrightarrow> validate_sections crc data footer_start f h policy = Ok (f', ig) \<Longrightarrow>
       validate_sections crc data footer_start f h policy' = Ok (f', ig)"
  shows "validate_bytes_with_optional_pushdown_policy crc json_ok cs data policy' = Ok (v, ig)"
proof -
  from ok obtain postscript t b payload footer header footer' where *:
      "\<not> length data < HEADER_SIZE + POSTSCRIPT_TOTAL_SIZE" "slice (length data - 4) 4 data = MAGIC_COVE"
      "CovePostscriptV1_parse_from_tail crc data = Ok postscript" "unat (ps_file_len postscript) = length data"
      "CoveSectionSpecV1_end_offset (ps_footer postscript) = Ok t"
      "\<not> unat (ss_offset (ps_footer postscript)) < HEADER_SIZE" "\<not> length data - POSTSCRIPT_TOTAL_SIZE < unat t"
      "index_range data (unat (ss_offset (ps_footer postscript)), unat t) = Ok b" "crc b = ss_crc32c (ps_footer postscript)"
      "validate_footer_codec_feature_advertisement postscript = Ok ()" "section_spec_payload cs data (ps_footer postscript) = Ok payload"
      "CoveFooter_parse json_ok payload = Ok footer"
      "CoveFooterHeaderV1_total_len (ft_header footer) = Ok (unat (ss_uncompressed_length (ps_footer postscript)))"
      "CoveHeaderV1_parse crc data = Ok header"
    and sections: "validate_sections crc data (unat (ss_offset (ps_footer postscript))) footer header policy = Ok (footer', ig)"
    and **: "validate_required_feature_implementation cs header = Ok ()" "validate_primary_profile_features header = Ok ()"
      "hdr_required_features header = ps_required_features postscript" "hdr_optional_features header = ps_optional_features postscript"
      "validate_scoped_feature_metadata crc cs data header footer' = Ok ()"
      "v = \<lparr>vf_header = header, vf_postscript = postscript, vf_footer = footer'\<rparr>"
    unfolding validate_bytes_with_optional_pushdown_policy_def Let_def
    by (auto simp: and_then_eq_Ok split: if_splits prod.splits)
  have "unat (ss_offset (ps_footer postscript)) \<le> unat t" using *(5) by (auto simp: result_simps end_word)
  then have "unat (ss_offset (ps_footer postscript)) \<le> length data" using *(7) by linarith
  note sections' = change [OF this sections]
  show ?thesis
    unfolding validate_bytes_with_optional_pushdown_policy_def Let_def
    by (simp add: * sections' **)
qed

lemma strict_iff:
  "validate_bytes_with_optional_pushdown_policy crc json_ok cs data Strict = Ok (v, ig) \<longleftrightarrow>
     validate_bytes_with_optional_pushdown_policy crc json_ok cs data FailOpen = Ok (v, ig) \<and> ig = []"
proof
  assume ok: "validate_bytes_with_optional_pushdown_policy crc json_ok cs data Strict = Ok (v, ig)"
  then have "validate_bytes_with_optional_pushdown_policy crc json_ok cs data FailOpen = Ok (v, ig)"
    by (rule policy_change) (simp add: validate_sections_strict_iff)
  moreover from ok have "ig = []"
    by (elim validated_parts) (use retained_sections in \<open>auto simp: validate_sections_strict_iff\<close>)
  ultimately show "validate_bytes_with_optional_pushdown_policy crc json_ok cs data FailOpen = Ok (v, ig) \<and> ig = []" ..
next
  assume "validate_bytes_with_optional_pushdown_policy crc json_ok cs data FailOpen = Ok (v, ig) \<and> ig = []"
  then show "validate_bytes_with_optional_pushdown_policy crc json_ok cs data Strict = Ok (v, ig)"
    by (elim conjE) (rule policy_change, assumption, simp add: validate_sections_strict_iff)
qed

text \<open>the strict policy accepts exactly the files that the fail-open policy accepts without ignoring a
  section, with the same result.\<close>

theorem strict_is_fail_open_without_loss:
  "validate_bytes crc json_ok cs data = Ok v \<longleftrightarrow>
     validate_bytes_with_optional_pushdown_policy crc json_ok cs data FailOpen = Ok (v, [])"
  by (auto simp: validate_bytes_def result_simps strict_iff split: prod.splits)

section \<open>The two tables of section kinds\<close>

text \<open>the registry and the validator agree on the profiles of every registered kind, and an
  accepted section of a registered kind has its feature bit advertised; but the registry lists only 44 of the 58
  kinds: the kinds new in version 2 have no entry, so none of their sections needs a feature bit.\<close>

theorem registry_covers_v1_kinds_only:
  "(section_info kind = None) =
     (kind \<in> {Section_ExtendedFeatureSet, Section_CodecExtensionRegistry, Section_LayoutPlan, Section_ScanSplitIndex,
        Section_PageClusterDirectory, Section_ZeroCopyBufferMap, Section_FastMetadataIndex, Section_CoverageProviderRegistry,
        Section_CoverageSet, Section_CoveragePlanCandidate, Section_PredicateNormalForm, Section_IndexOnlyCapability,
        Section_CoverageProofRecord, Section_SectionFeatureBinding})
   \<and> (case section_info kind of None \<Rightarrow>
          validate_section_required_feature_advertisement header (entry\<lparr>se_section_kind := SectionKind_code kind\<rparr>) = Ok ()
      | Some info \<Rightarrow> si_id info = SectionKind_code kind \<and> map PrimaryProfile_code (si_profiles info) = allowed_profiles kind)"
proof
  show "(section_info kind = None) =
     (kind \<in> {Section_ExtendedFeatureSet, Section_CodecExtensionRegistry, Section_LayoutPlan, Section_ScanSplitIndex,
        Section_PageClusterDirectory, Section_ZeroCopyBufferMap, Section_FastMetadataIndex, Section_CoverageProviderRegistry,
        Section_CoverageSet, Section_CoveragePlanCandidate, Section_PredicateNormalForm, Section_IndexOnlyCapability,
        Section_CoverageProofRecord, Section_SectionFeatureBinding})"
    by (cases kind) (simp_all add: section_info_def section_registry_defs)
  have "si_id info = SectionKind_code kind \<and> map PrimaryProfile_code (si_profiles info) = allowed_profiles kind"
    if "section_info kind = Some info" for info
    using that by (cases kind) (auto simp: section_info_def section_registry_defs)
  moreover have "validate_section_required_feature_advertisement header (entry\<lparr>se_section_kind := SectionKind_code kind\<rparr>) = Ok ()"
    if "section_info kind = None"
    using that by (simp add: validate_section_required_feature_advertisement_def sectionKind.decode_code)
  ultimately show "case section_info kind of None \<Rightarrow>
          validate_section_required_feature_advertisement header (entry\<lparr>se_section_kind := SectionKind_code kind\<rparr>) = Ok ()
      | Some info \<Rightarrow> si_id info = SectionKind_code kind \<and> map PrimaryProfile_code (si_profiles info) = allowed_profiles kind"
    by (simp split: option.split)
qed

end
