(* ===== verification/Minimal_Writer.thy ===== *)
theory Minimal_Writer
  imports Reader
begin

text \<open>
  The minimal writer (\<open>writer.rs\<close>, \<open>writer/minimal.rs\<close>): a builder that writes a header placeholder,
  the sections, the footer and the postscript to a stream, then seeks back and replaces the placeholder
  by the final header. \<open>write\<close> uses an in-memory cursor, whose writes do not fail.
\<close>

section \<open>The in-memory stream\<close>

text \<open>\<open>std::io::Cursor<Vec<u8>>\<close>: a write at a position overwrites or extends the buffer, with zeros in a gap.\<close>

record cursor =
  cur_buf :: bytes
  cur_pos :: usize

definition Cursor_new :: cursor where
  "Cursor_new = \<lparr>cur_buf = [], cur_pos = 0\<rparr>"

definition write_all :: "cursor \<Rightarrow> bytes \<Rightarrow> cursor" where
  "write_all c xs =
     (let buf = cur_buf c @ replicate (cur_pos c - length (cur_buf c)) 0 in
      \<lparr>cur_buf = take (cur_pos c) buf @ xs @ drop (cur_pos c + length xs) buf, cur_pos = cur_pos c + length xs\<rparr>)"

definition seek_start :: "cursor \<Rightarrow> u64 \<Rightarrow> cursor" where
  "seek_start c pos = c\<lparr>cur_pos := unat pos\<rparr>"

definition stream_position :: "cursor \<Rightarrow> u64" where
  "stream_position c = of_nat (cur_pos c)"

section \<open>The builder\<close>

record SectionPayload =
  sp_section_kind :: u16
  sp_profile :: u8
  sp_flags :: u8
  sp_item_count :: u64
  sp_row_count :: u64
  sp_compression :: u8
  sp_alignment_log2 :: u8
  sp_required_features :: u64
  sp_optional_features :: u64
  sp_data :: bytes

record MinimalCoveWriter =
  mw_created_at_us :: i64
  mw_file_id :: bytes
  mw_producer_scope_id :: bytes
  mw_producer_scope_kind :: u16
  mw_primary_profile :: u8
  mw_required_features :: u64
  mw_optional_features :: u64
  mw_metadata_json :: bytes
  mw_sections :: "SectionPayload list"

definition MinimalCoveWriter_new :: MinimalCoveWriter where
  "MinimalCoveWriter_new =
     \<lparr>mw_created_at_us = 0, mw_file_id = replicate 16 0, mw_producer_scope_id = replicate 16 0, mw_producer_scope_kind = 0,
      mw_primary_profile = PrimaryProfile_code PP_TableScan, mw_required_features = FEATURE_TABLE_PROFILE,
      mw_optional_features = 0, mw_metadata_json = [], mw_sections = []\<rparr>"

definition validate_section_input :: "SectionPayload \<Rightarrow> unit result" where
  "validate_section_input s =
     (if SectionKind_from_u16 (sp_section_kind s) = None
      then Err (BadSection (''unknown section_kind '' @ show_nat (unat (sp_section_kind s))))
      else if PrimaryProfile_from_u8 (sp_profile s) = None
      then Err (BadSection (''unknown section profile '' @ show_nat (unat (sp_profile s))))
      else if CompressionCodec_from_u8 (sp_compression s) = None
      then Err (BadSection (''unknown compression codec '' @ show_nat (unat (sp_compression s))))
      else if sp_required_features s AND NOT KNOWN_FEATURE_BITS_MASK \<noteq> 0
      then Err (UnknownRequiredFeature (sp_required_features s AND NOT KNOWN_FEATURE_BITS_MASK))
      else Ok ())"

definition validate_inputs :: "(bytes \<Rightarrow> bool) \<Rightarrow> MinimalCoveWriter \<Rightarrow> unit result" where
  "validate_inputs json_ok w =
     and_then (metadata_validate json_ok (mw_metadata_json w)) (\<lambda>_.
     if length (mw_sections w) > 2 ^ 32 - 1 then Err ArithOverflow
     else if PrimaryProfile_from_u8 (mw_primary_profile w) = None
     then Err (BadSection (''unknown primary_profile '' @ show_nat (unat (mw_primary_profile w))))
     else if ProducerScopeKind_from_u16 (mw_producer_scope_kind w) = None
     then Err (BadSection (''unknown producer_scope_kind '' @ show_nat (unat (mw_producer_scope_kind w))))
     else if mw_required_features w AND NOT KNOWN_FEATURE_BITS_MASK \<noteq> 0
     then Err (UnknownRequiredFeature (mw_required_features w AND NOT KNOWN_FEATURE_BITS_MASK))
     else try_each validate_section_input (mw_sections w))"

definition section_entry_of :: "(bytes \<Rightarrow> u32) \<Rightarrow> nat \<Rightarrow> u64 \<Rightarrow> SectionPayload \<Rightarrow> bytes \<Rightarrow> CoveSectionEntryV1" where
  "section_entry_of crc idx section_offset s encoded =
     \<lparr>se_section_id = of_nat (idx + 1), se_section_kind = sp_section_kind s, se_profile = sp_profile s, se_flags = sp_flags s,
      se_offset = section_offset, se_length = of_nat (length encoded), se_uncompressed_length = of_nat (length (sp_data s)),
      se_item_count = sp_item_count s, se_row_count = sp_row_count s, se_compression = sp_compression s, se_encryption = 0,
      se_alignment_log2 = sp_alignment_log2 s, se_reserved0 = 0, se_required_features = sp_required_features s,
      se_optional_features = sp_optional_features s, se_crc32c = crc encoded, se_reserved1 = 0\<rparr>"

fun write_sections :: "(bytes \<Rightarrow> u32) \<Rightarrow> codecs \<Rightarrow> nat \<Rightarrow> cursor \<Rightarrow> SectionPayload list \<Rightarrow> (cursor \<times> CoveSectionEntryV1 list) result" where
  "write_sections crc cs idx c [] = Ok (c, [])"
| "write_sections crc cs idx c (s # ss) =
     (let section_offset = stream_position c in
      and_then (encode_payload_for_codec cs (sp_data s) (sp_compression s)) (\<lambda>encoded.
      let c = write_all c encoded in
      if idx + 1 \<ge> 2 ^ 32 then Err ArithOverflow
      else and_then (write_sections crc cs (idx + 1) c ss) (\<lambda>(c, entries).
           Ok (c, section_entry_of crc idx section_offset s encoded # entries))))"

definition writer_footer :: "MinimalCoveWriter \<Rightarrow> CoveSectionEntryV1 list \<Rightarrow> CoveFooter" where
  "writer_footer w section_entries =
     \<lparr>ft_header = \<lparr>fh_footer_magic = MAGIC_COVE_FOOTER, fh_footer_version = FOOTER_VERSION_V1,
        fh_header_len = of_nat FOOTER_HEADER_SIZE, fh_section_count = of_nat (length section_entries),
        fh_section_entry_len = SECTION_ENTRY_LEN, fh_flags = 0, fh_metadata_len = of_nat (length (mw_metadata_json w)),
        fh_reserved = replicate 24 0\<rparr>,
      ft_sections = section_entries, ft_metadata_json = mw_metadata_json w\<rparr>"

definition writer_postscript :: "(bytes \<Rightarrow> u32) \<Rightarrow> MinimalCoveWriter \<Rightarrow> u64 \<Rightarrow> u64 \<Rightarrow> bytes \<Rightarrow> CovePostscriptV1" where
  "writer_postscript crc w total_file_len footer_offset footer_bytes =
     \<lparr>ps_required_features = mw_required_features w, ps_optional_features = mw_optional_features w, ps_file_len = total_file_len,
      ps_footer = \<lparr>ss_offset = footer_offset, ss_length = of_nat (length footer_bytes), ss_uncompressed_length = of_nat (length footer_bytes),
        ss_compression = 0, ss_encryption = 0, ss_alignment_log2 = 0, ss_flags = 0, ss_crc32c = crc footer_bytes, ss_reserved = 0\<rparr>,
      ps_checksum = 0\<rparr>"

definition writer_header :: "MinimalCoveWriter \<Rightarrow> CoveHeaderV1" where
  "writer_header w =
     \<lparr>hdr_magic = MAGIC_COVE, hdr_header_len = HEADER_LEN_V1, hdr_version_major = VERSION_MAJOR_V1, hdr_version_minor = 0,
      hdr_primary_profile = mw_primary_profile w, hdr_endianness = ENDIANNESS_LITTLE, hdr_flags = 0,
      hdr_required_features = mw_required_features w, hdr_optional_features = mw_optional_features w,
      hdr_file_id = mw_file_id w, hdr_producer_scope_id = mw_producer_scope_id w, hdr_producer_scope_kind = mw_producer_scope_kind w,
      hdr_reserved_scope_flags = 0, hdr_created_at_us = mw_created_at_us w, hdr_feature_set_section_id = 0,
      hdr_profile_capability_section_id = 0, hdr_fast_metadata_section_id = 0, hdr_v2_flags = 0,
      hdr_reserved = replicate 64 0, hdr_checksum = 0\<rparr>"

definition write_to :: "(bytes \<Rightarrow> u32) \<Rightarrow> (bytes \<Rightarrow> bool) \<Rightarrow> codecs \<Rightarrow> MinimalCoveWriter \<Rightarrow> cursor \<Rightarrow> cursor result" where
  "write_to crc json_ok cs w c =
     and_then (validate_inputs json_ok w) (\<lambda>_.
     if stream_position c \<noteq> 0 then Err (BadSection ''MinimalCoveWriter::write_to requires a writer positioned at byte 0'')
     else
       let c = write_all c (replicate HEADER_SIZE 0) in
       and_then (write_sections crc cs 0 c (mw_sections w)) (\<lambda>(c, section_entries).
       let footer_offset = stream_position c in
       if length section_entries \<ge> 2 ^ 32 \<or> length (mw_metadata_json w) \<ge> 2 ^ 32 then Err ArithOverflow
       else
         let footer_bytes = CoveFooter_serialize (writer_footer w section_entries);
             c = write_all c footer_bytes;
             file_len_before_tail = stream_position c in
         and_then (checked_add (unat file_len_before_tail) POSTSCRIPT_SIZE) (\<lambda>len.
         and_then (checked_add len (2 + 2 + 4)) (\<lambda>total_file_len.
         let c = write_all c (CovePostscriptV1_serialize_tail crc (writer_postscript crc w (of_nat total_file_len) footer_offset footer_bytes));
             c = seek_start c 0;
             c = write_all c (CoveHeaderV1_serialize crc (writer_header w))
         in Ok (seek_start c (of_nat total_file_len))))))"

definition MinimalCoveWriter_write :: "(bytes \<Rightarrow> u32) \<Rightarrow> (bytes \<Rightarrow> bool) \<Rightarrow> codecs \<Rightarrow> MinimalCoveWriter \<Rightarrow> bytes result" where
  "MinimalCoveWriter_write crc json_ok cs w = and_then (write_to crc json_ok cs w Cursor_new) (\<lambda>c. Ok (cur_buf c))"

definition write_empty_file :: "(bytes \<Rightarrow> u32) \<Rightarrow> (bytes \<Rightarrow> bool) \<Rightarrow> codecs \<Rightarrow> bytes result" where
  "write_empty_file crc json_ok cs = MinimalCoveWriter_write crc json_ok cs MinimalCoveWriter_new"

section \<open>What the stream holds\<close>

lemma write_all_append: "cur_pos c = length (cur_buf c) \<Longrightarrow> write_all c xs = \<lparr>cur_buf = cur_buf c @ xs, cur_pos = cur_pos c + length xs\<rparr>"
  by (simp add: write_all_def Let_def)

lemma length_write_all: "length (cur_buf (write_all c xs)) = max (cur_pos c + length xs) (length (cur_buf c))"
  by (auto simp: write_all_def Let_def)

text \<open>The directory: section \<open>i\<close> starts where the encoded sections before it end.\<close>

fun layout :: "(bytes \<Rightarrow> u32) \<Rightarrow> nat \<Rightarrow> nat \<Rightarrow> SectionPayload list \<Rightarrow> bytes list \<Rightarrow> CoveSectionEntryV1 list" where
  "layout crc idx pos (s # ss) (d # ds) = section_entry_of crc idx (of_nat pos) s d # layout crc (Suc idx) (pos + length d) ss ds"
| "layout crc idx pos _ _ = []"

lemma write_sections_Ok:
  assumes "write_sections crc cs idx c ss = Ok (c', es)" and "cur_pos c = length (cur_buf c)"
  shows "\<exists>ds. collect_map (\<lambda>s. encode_payload_for_codec cs (sp_data s) (sp_compression s)) ss = Ok ds
     \<and> c' = \<lparr>cur_buf = cur_buf c @ concat ds, cur_pos = length (cur_buf c) + length (concat ds)\<rparr>
     \<and> es = layout crc idx (length (cur_buf c)) ss ds"
  using assms
proof (induction ss arbitrary: idx c es)
  case Nil
  then show ?case by simp
next
  case (Cons s ss)
  from Cons.prems obtain d es' where d: "encode_payload_for_codec cs (sp_data s) (sp_compression s) = Ok d"
    and rest: "write_sections crc cs (idx + 1) (write_all c d) ss = Ok (c', es')"
    and es: "es = section_entry_of crc idx (stream_position c) s d # es'"
    by (auto simp: result_simps Let_def split: if_splits prod.splits)
  have w: "write_all c d = \<lparr>cur_buf = cur_buf c @ d, cur_pos = length (cur_buf c) + length d\<rparr>"
    using Cons.prems(2) by (simp add: write_all_append)
  obtain ds where "collect_map (\<lambda>s. encode_payload_for_codec cs (sp_data s) (sp_compression s)) ss = Ok ds"
     "c' = \<lparr>cur_buf = cur_buf c @ d @ concat ds, cur_pos = length (cur_buf c) + length d + length (concat ds)\<rparr>"
     "es' = layout crc (Suc idx) (length (cur_buf c) + length d) ss ds"
    using Cons.IH [OF rest] by (auto simp: w)
  then show ?case using d es Cons.prems(2) by (intro exI [of _ "d # ds"]) (simp add: stream_position_def)
qed

lemma length_layout [simp]: "length ss = length ds \<Longrightarrow> length (layout crc idx pos ss ds) = length ss"
  by (induction crc idx pos ss ds rule: layout.induct) auto

lemma section_entry_fields [simp]:
  "se_section_id (section_entry_of crc idx off s d) = of_nat (idx + 1)" "se_section_kind (section_entry_of crc idx off s d) = sp_section_kind s"
  "se_profile (section_entry_of crc idx off s d) = sp_profile s" "se_offset (section_entry_of crc idx off s d) = off"
  "se_length (section_entry_of crc idx off s d) = of_nat (length d)" "se_crc32c (section_entry_of crc idx off s d) = crc d"
  "se_uncompressed_length (section_entry_of crc idx off s d) = of_nat (length (sp_data s))"
  "se_compression (section_entry_of crc idx off s d) = sp_compression s" "se_required_features (section_entry_of crc idx off s d) = sp_required_features s"
  "se_optional_features (section_entry_of crc idx off s d) = sp_optional_features s"
  by (simp_all add: section_entry_of_def)

lemma layout_placed:
  assumes "length ss = length ds" and "pos + length (concat ds) < 2 ^ 64" and "idx + length ss < 2 ^ 32" and "length pre = pos"
  shows "list_all (\<lambda>e. pos \<le> unat (se_offset e) \<and> unat (se_offset e) + unat (se_length e) \<le> pos + length (concat ds)
            \<and> idx < unat (se_section_id e)) (layout crc idx pos ss ds)
     \<and> sorted_wrt (\<lambda>a b. se_section_id a < se_section_id b) (layout crc idx pos ss ds)
     \<and> sorted_wrt (\<lambda>a b. unat (se_offset a) + unat (se_length a) \<le> unat (se_offset b)) (layout crc idx pos ss ds)
     \<and> list_all (checksum_ok crc (pre @ concat ds @ post)) (layout crc idx pos ss ds)"
  using assms
proof (induction crc idx pos ss ds arbitrary: pre rule: layout.induct)
  case (1 crc idx pos s ss d ds)
  let ?e = "section_entry_of crc idx (of_nat pos) s d" and ?es = "layout crc (Suc idx) (pos + length d) ss ds"
  have n: "unat (of_nat pos :: u64) = pos" "unat (of_nat (length d) :: u64) = length d" "unat (of_nat (Suc idx) :: u32) = Suc idx"
    using 1(3,4) unat_of_nat_less [of pos, where 'a = 64] unat_of_nat_less [of "length d", where 'a = 64]
      unat_of_nat_less [of "Suc idx", where 'a = 32] by simp_all
  have "section_data (pre @ concat (d # ds) @ post) ?e = d"
    using n 1(5) by (simp add: section_data_def slice_def)
  then have ck: "checksum_ok crc (pre @ concat (d # ds) @ post) ?e" by (simp add: checksum_ok_def)
  have IH: "list_all (\<lambda>e. pos + length d \<le> unat (se_offset e) \<and> unat (se_offset e) + unat (se_length e) \<le> pos + length d + length (concat ds)
            \<and> Suc idx < unat (se_section_id e)) ?es"
     "sorted_wrt (\<lambda>a b. se_section_id a < se_section_id b) ?es"
     "sorted_wrt (\<lambda>a b. unat (se_offset a) + unat (se_length a) \<le> unat (se_offset b)) ?es"
     "list_all (checksum_ok crc ((pre @ d) @ concat ds @ post)) ?es"
    using 1(1) [of "pre @ d"] 1(2-5) by auto
  have "se_section_id ?e < se_section_id x" if "Suc idx < unat (se_section_id x)" for x
    using that n(3) by (simp add: word_less_nat_alt)
  with IH n ck show ?case by (auto simp: list_all_iff)
qed auto

text \<open>The payload of every section is read back.\<close>

lemma layout_payloads:
  assumes "codecs_lossless cs" and "collect_map (\<lambda>s. encode_payload_for_codec cs (sp_data s) (sp_compression s)) ss = Ok ds"
    and "pos + length (concat ds) < 2 ^ 64" and "length pre = pos" and "list_all (\<lambda>s. length (sp_data s) < 2 ^ 63) ss"
  shows "map (section_payload cs (pre @ concat ds @ post)) (layout crc idx pos ss ds) = map (\<lambda>s. Ok (sp_data s)) ss"
  using assms
proof (induction crc idx pos ss ds arbitrary: pre rule: layout.induct)
  case (1 crc idx pos s ss d ds)
  have n: "unat (of_nat pos :: u64) = pos" "unat (of_nat (length d) :: u64) = length d"
    using 1(4) by (auto intro!: unat_of_nat_less)
  from 1(3) have d: "encode_payload_for_codec cs (sp_data s) (sp_compression s) = Ok d"
    and ds: "collect_map (\<lambda>s. encode_payload_for_codec cs (sp_data s) (sp_compression s)) ss = Ok ds"
    by (auto simp: result_simps)
  have "payload_raw_bytes (pre @ concat (d # ds) @ post) (of_nat pos) (of_nat (length d)) = Ok d"
    using n 1(4,5) by (simp add: payload_raw_bytes_def checked_add_def slice_def)
  then have "section_payload cs (pre @ concat (d # ds) @ post) (section_entry_of crc idx (of_nat pos) s d) = Ok (sp_data s)"
    using payload_codec_roundtrip [OF 1(2) d] 1(6) by (simp add: section_payload_def payload_from_spec_def)
  moreover have "map (section_payload cs ((pre @ d) @ concat ds @ post)) (layout crc (Suc idx) (pos + length d) ss ds) = map (\<lambda>s. Ok (sp_data s)) ss"
    using 1 ds by (intro 1(1)) auto
  ultimately show ?case by simp
qed (auto dest: collect_map_length)

section \<open>The written file\<close>

text \<open>The file as a whole: header, encoded sections, footer and postscript, one after another.\<close>

lemma write_Ok:
  assumes "MinimalCoveWriter_write crc json_ok cs w = Ok data" and small: "length data < 2 ^ 64"
  obtains ds es footer_bytes where
    "validate_inputs json_ok w = Ok ()"
    and "collect_map (\<lambda>s. encode_payload_for_codec cs (sp_data s) (sp_compression s)) (mw_sections w) = Ok ds"
    and "es = layout crc 0 160 (mw_sections w) ds" and "footer_bytes = CoveFooter_serialize (writer_footer w es)"
    and "data = CoveHeaderV1_serialize crc (writer_header w) @ concat ds @ footer_bytes
           @ CovePostscriptV1_serialize_tail crc (writer_postscript crc w (of_nat (length data)) (of_nat (160 + length (concat ds))) footer_bytes)"
proof -
  let ?c = "\<lparr>cur_buf = replicate 160 0, cur_pos = 160\<rparr> :: cursor"
  have z: "write_all Cursor_new (replicate HEADER_SIZE 0) = ?c"
    by (simp add: write_all_append Cursor_new_def HEADER_SIZE_eq)
  from assms(1) obtain c' es c'' where valid: "validate_inputs json_ok w = Ok ()"
    and ws: "write_sections crc cs 0 ?c (mw_sections w) = Ok (c', es)"
    and wt: "(let footer_offset = stream_position c';
         footer_bytes = CoveFooter_serialize (writer_footer w es);
         c = write_all c' footer_bytes in
         and_then (checked_add (unat (stream_position c)) POSTSCRIPT_SIZE) (\<lambda>len.
         and_then (checked_add len (2 + 2 + 4)) (\<lambda>total_file_len.
         Ok (write_all (seek_start (write_all c (CovePostscriptV1_serialize_tail crc
               (writer_postscript crc w (of_nat total_file_len) footer_offset footer_bytes))) 0) (CoveHeaderV1_serialize crc (writer_header w)))))) = Ok c''"
    and data: "data = cur_buf c''"
    unfolding MinimalCoveWriter_write_def write_to_def z
    by (auto simp: result_simps Let_def seek_start_def split: if_splits prod.splits)
  obtain ds where ds: "collect_map (\<lambda>s. encode_payload_for_codec cs (sp_data s) (sp_compression s)) (mw_sections w) = Ok ds"
    and c': "c' = \<lparr>cur_buf = replicate 160 0 @ concat ds, cur_pos = 160 + length (concat ds)\<rparr>"
    and es: "es = layout crc 0 160 (mw_sections w) ds"
    using write_sections_Ok [OF ws] by auto
  define fb where "fb = CoveFooter_serialize (writer_footer w es)"
  let ?off = "160 + length (concat ds)" and ?h = "CoveHeaderV1_serialize crc (writer_header w)"
  have w: "write_all c' fb = \<lparr>cur_buf = replicate 160 0 @ concat ds @ fb, cur_pos = ?off + length fb\<rparr>"
    by (simp add: c' write_all_append)
  let ?tail = "\<lambda>t. CovePostscriptV1_serialize_tail crc (writer_postscript crc w (of_nat t) (of_nat ?off) fb)"
  define n where "n = unat (of_nat (?off + length fb) :: u64) + 72"
  have pos: "stream_position c' = of_nat ?off" "stream_position (write_all c' fb) = of_nat (?off + length fb)"
    by (simp add: stream_position_def c') (simp add: stream_position_def w)
  have "c'' = write_all (seek_start (write_all (write_all c' fb) (?tail n)) 0) ?h"
    using wt by (auto simp: Let_def result_simps pos postscript_sizes n_def checked_add_def add.commute simp flip: fb_def split: if_splits)
  then have d: "data = ?h @ concat ds @ fb @ ?tail n"
    unfolding data by (simp add: w write_all_append) (simp add: write_all_def seek_start_def Let_def)
  moreover have "n = length data"
    using d small by (simp add: n_def unat_of_nat_less del: of_nat_add of_nat_numeral)
  ultimately have "data = ?h @ concat ds @ fb @ ?tail (length data)" by simp
  then show thesis using that [OF valid ds es fb_def] by (simp add: add.commute)
qed

section \<open>The reader accepts what the writer wrote\<close>

text \<open>
  What the caller of the builder must declare for a section: a profile the kind allows and, among the
  feature bits of the file, the bits of that profile, of the kind and of the codec.
\<close>

definition section_declared :: "MinimalCoveWriter \<Rightarrow> SectionPayload \<Rightarrow> bool" where
  "section_declared w s \<longleftrightarrow>
     (let advertised = mw_required_features w OR mw_optional_features w;
          own = sp_required_features s OR sp_optional_features s in
      (case SectionKind_from_u16 (sp_section_kind s) of
         None \<Rightarrow> False
       | Some kind \<Rightarrow> kind \<noteq> Section_SectionFeatureBinding \<and> sp_profile s \<in> set (allowed_profiles kind)
           \<and> (case section_info kind of None \<Rightarrow> True | Some info \<Rightarrow>
                (case si_required_feature info of None \<Rightarrow> True | Some f \<Rightarrow> advertised AND f \<noteq> 0)))
      \<and> (sp_profile s = 0 \<or> (case profile_feature_bit (sp_profile s) of None \<Rightarrow> False | Some f \<Rightarrow> advertised AND f \<noteq> 0))
      \<and> (sp_compression s \<noteq> 1 \<or> advertised AND FEATURE_CODEC_LZ4 \<noteq> 0 \<and> own AND FEATURE_CODEC_LZ4 \<noteq> 0)
      \<and> (sp_compression s \<noteq> 2 \<or> advertised AND FEATURE_CODEC_ZSTD \<noteq> 0 \<and> own AND FEATURE_CODEC_ZSTD \<noteq> 0))"

definition writer_declared :: "codecs \<Rightarrow> MinimalCoveWriter \<Rightarrow> bool" where
  "writer_declared cs w \<longleftrightarrow> length (mw_file_id w) = 16 \<and> length (mw_producer_scope_id w) = 16
     \<and> validate_required_feature_implementation cs (writer_header w) = Ok ()
     \<and> validate_primary_profile_features (writer_header w) = Ok ()
     \<and> mw_required_features w AND FEATURE_EXTENDED_FEATURE_SET = 0
     \<and> list_all (section_declared w) (mw_sections w)"

lemma declared_not_binding: "section_declared w s \<Longrightarrow> sp_section_kind s \<noteq> SectionKind_code Section_SectionFeatureBinding"
  using sectionKind.decode_code [of Section_SectionFeatureBinding] by (auto simp: section_declared_def Let_def)

lemma validate_inputs_Ok:
  "validate_inputs json_ok w = Ok () \<longleftrightarrow> metadata_validate json_ok (mw_metadata_json w) = Ok () \<and> length (mw_sections w) \<le> 2 ^ 32 - 1
     \<and> PrimaryProfile_from_u8 (mw_primary_profile w) \<noteq> None \<and> ProducerScopeKind_from_u16 (mw_producer_scope_kind w) \<noteq> None
     \<and> mw_required_features w AND NOT KNOWN_FEATURE_BITS_MASK = 0
     \<and> list_all (\<lambda>s. validate_section_input s = Ok ()) (mw_sections w)"
  by (auto simp: validate_inputs_def result_simps not_less split: if_splits)

lemma section_features_Ok:
  assumes "section_declared w s"
  shows "validate_entry_features (writer_header w\<lparr>hdr_checksum := c\<rparr>) (section_entry_of crc idx off s d) = Ok ()"
proof -
  from assms obtain kind where k: "SectionKind_from_u16 (sp_section_kind s) = Some kind" "sp_profile s \<in> set (allowed_profiles kind)"
    and i: "case section_info kind of None \<Rightarrow> True | Some info \<Rightarrow> (case si_required_feature info of None \<Rightarrow> True
              | Some f \<Rightarrow> (mw_required_features w OR mw_optional_features w) AND f \<noteq> 0)"
    by (auto simp: section_declared_def Let_def split: option.splits)
  have "validate_section_profile (sp_section_kind s) (sp_profile s) = Ok ()"
    using k by (simp add: validate_section_profile_def)
  moreover have "validate_section_profile_feature_bit (sp_profile s) (mw_required_features w OR mw_optional_features w) = Ok ()"
    using assms by (auto simp: section_declared_def Let_def validate_section_profile_feature_bit_def split: option.splits)
  moreover have "validate_section_required_feature_advertisement (writer_header w\<lparr>hdr_checksum := c\<rparr>) (section_entry_of crc idx off s d) = Ok ()"
    using k(1) i by (auto simp: validate_section_required_feature_advertisement_def writer_header_def Let_def split: option.splits)
  moreover have "validate_codec_feature_advertisement (sp_compression s) (writer_header w\<lparr>hdr_checksum := c\<rparr>) (section_entry_of crc idx off s d) = Ok ()"
    using assms by (auto simp: section_declared_def Let_def validate_codec_feature_advertisement_def writer_header_def)
  ultimately show ?thesis by (simp add: validate_entry_features_def writer_header_def)
qed

text \<open>Without extended words the scope table holds the file's own bits and those of the sections.\<close>

lemma reject_normalized:
  "reject_file_required_unknowns (normalize xs) = Ok () \<longleftrightarrow> (\<forall>e \<in> set xs. fse_scope e = FS_FileRequired \<longrightarrow> unknown_required_mask e = 0)"
  by (auto simp: reject_file_required_unknowns_def try_each_eq_Ok list_all_iff normalize_def split: if_splits)

lemma plain_metadata_Ok:
  assumes "hdr_feature_set_section_id h = 0" "hdr_profile_capability_section_id h = 0" "hdr_fast_metadata_section_id h = 0"
    and "hdr_required_features h AND FEATURE_EXTENDED_FEATURE_SET = 0" and "hdr_required_features h AND NOT KNOWN_FEATURE_BITS_MASK = 0"
    and "list_all (\<lambda>e. se_section_kind e \<noteq> SectionKind_code Section_SectionFeatureBinding) (ft_sections f)"
  shows "validate_scoped_feature_metadata crc cs data h f = Ok ()"
proof -
  have none: "filter (\<lambda>e. se_section_kind e = SectionKind_code Section_SectionFeatureBinding) (ft_sections f) = []"
    using assms(6) by (simp add: filter_empty_conv list_all_iff)
  have "\<exists>T. build_many h f None None [] = Ok T \<and> reject_file_required_unknowns T = Ok ()"
    using assms(5) by (simp add: build_many_def validate_scoped_metadata_references_def scoped_required_masks_def Let_def reject_normalized
        unscoped_entry_def section_entry_def unknown_required_mask_def ball_Un)
  then obtain T where table: "build_many h f None None [] = Ok T" and T: "reject_file_required_unknowns T = Ok ()" by blast
  show ?thesis
    by (simp add: validate_scoped_feature_metadata_def parse_scoped_feature_metadata_def resolve_header_section_id_def map_transpose_def
        assms(1-4) none [simplified] table T)
qed

lemma layout_forall:
  assumes "list_all P ss" and "\<And>crc i off s d. P s \<Longrightarrow> Q (section_entry_of crc i off s d)"
  shows "list_all Q (layout crc idx pos ss ds)"
  using assms(1) by (induction crc idx pos ss ds rule: layout.induct) (auto intro: assms(2))

lemma parsed_tail_magic:
  assumes "CovePostscriptV1_parse_from_tail crc data = Ok p"
  shows "slice (length data - 4) 4 data = MAGIC_COVE"
proof (rule ccontr)
  assume m: "slice (length data - 4) 4 data \<noteq> MAGIC_COVE"
  show False
  proof (cases "length data < POSTSCRIPT_TOTAL_SIZE")
    case False
    then have "length data - POSTSCRIPT_TAIL_SIZE + 4 = length data - 4" by (simp add: postscript_sizes)
    with m False assms show False unfolding CovePostscriptV1_parse_from_tail_def Let_def by simp
  qed (use assms in \<open>simp add: CovePostscriptV1_parse_from_tail_def Let_def\<close>)
qed

lemma layout_checks:
  assumes "list_all (\<lambda>s. validate_section_input s = Ok ()) ss"
    and "collect_map (\<lambda>s. encode_payload_for_codec cs (sp_data s) (sp_compression s)) ss = Ok ds"
  shows "list_all (\<lambda>e. CoveSectionEntryV1_check e = Ok ()) (layout crc idx pos ss ds)"
  using assms
proof (induction crc idx pos ss ds rule: layout.induct)
  case (1 crc idx pos s ss d ds)
  then have d: "encode_payload_for_codec cs (sp_data s) (sp_compression s) = Ok d" by (auto simp: result_simps)
  have "d = sp_data s" if "sp_compression s = CompressionCodec_code Codec_None"
    using d that by (simp add: encode_payload_for_codec_def CompressionCodec_from_u8_def)
  then have "CoveSectionEntryV1_check (section_entry_of crc idx (of_nat pos) s d) = Ok ()"
    using 1 by (auto simp: CoveSectionEntryV1_check_def section_entry_of_def validate_section_input_def split: if_splits)
  then show ?case using 1 by (auto simp: result_simps)
qed auto

text \<open>
  A file the builder returns is accepted, and every section's payload is read back, when the builder
  was given the feature bits its contents need.
\<close>

lemma written_file_accepted:
  assumes ok: "MinimalCoveWriter_write crc json_ok cs w = Ok data" and small: "length data < 2 ^ 64"
    and decl: "writer_declared cs w" and lossless: "codecs_lossless cs"
    and payloads: "list_all (\<lambda>s. length (sp_data s) < 2 ^ 63) (mw_sections w)"
  obtains v where "validate_bytes_with_optional_pushdown_policy crc json_ok cs data Strict = Ok (v, [])"
    and "map (section_payload cs data) (ft_sections (vf_footer v)) = map (\<lambda>s. Ok (sp_data s)) (mw_sections w)"
    and "ft_metadata_json (vf_footer v) = mw_metadata_json w"
proof -
  obtain ds es fb where valid: "validate_inputs json_ok w = Ok ()"
    and ds: "collect_map (\<lambda>s. encode_payload_for_codec cs (sp_data s) (sp_compression s)) (mw_sections w) = Ok ds"
    and es: "es = layout crc 0 160 (mw_sections w) ds" and fb: "fb = CoveFooter_serialize (writer_footer w es)"
    and whole: "data = CoveHeaderV1_serialize crc (writer_header w) @ concat ds @ fb
           @ CovePostscriptV1_serialize_tail crc (writer_postscript crc w (of_nat (length data)) (of_nat (160 + length (concat ds))) fb)"
    using write_Ok [OF ok small] .
  define ps where "ps = writer_postscript crc w (of_nat (length data)) (of_nat (160 + length (concat ds))) fb"
  define p where "p = ps\<lparr>ps_checksum := crc (CovePostscriptV1_image ps)\<rparr>"
  define f where "f = writer_footer w es"
  define h where "h = writer_header w\<lparr>hdr_checksum := crc (CoveHeaderV1_image (writer_header w))\<rparr>"
  define v where "v = \<lparr>vf_header = h, vf_postscript = p, vf_footer = f\<rparr>"
  let ?off = "160 + length (concat ds)" and ?H = "CoveHeaderV1_serialize crc (writer_header w)"
  note inputs = valid [unfolded validate_inputs_Ok]
  have data: "data = ?H @ concat ds @ fb @ CovePostscriptV1_serialize_tail crc ps"
    using whole unfolding ps_def .
  have len: "length data = ?off + length fb + 72" by (subst data) simp
  have lds: "length (mw_sections w) = length ds" using ds by (auto dest: collect_map_length)
  have n: "unat (of_nat ?off :: u64) = ?off" "unat (of_nat (length fb) :: u64) = length fb" "unat (of_nat (length data) :: u64) = length data"
    using len small by (auto intro!: unat_of_nat_less simp del: of_nat_add of_nat_numeral)
  have header: "CoveHeaderV1_parse crc data = Ok h"
  proof -
    have "CoveHeaderV1_check (writer_header w) = Ok ()"
      using inputs by (simp add: CoveHeaderV1_check_def writer_header_def list_ex_iff)
    then show ?thesis using decl unfolding h_def
      by (subst data) (intro CoveHeaderV1_roundtrip; simp add: writer_header_def writer_declared_def MAGIC_COVE_def)
  qed
  have post: "CovePostscriptV1_parse_from_tail crc data = Ok p"
  proof -
    have "ps_required_features ps AND NOT KNOWN_FEATURE_BITS_MASK = 0" "CoveSectionSpecV1_check (ps_footer ps) = Ok ()"
      using inputs by (simp_all add: ps_def writer_postscript_def CoveSectionSpecV1_check_def CompressionCodec_from_u8_def)
    from postscript_tail_roundtrip [OF this, of crc "?H @ concat ds @ fb"]
    show ?thesis by (simp add: data p_def)
  qed
  have pf: "ss_offset (ps_footer p) = of_nat ?off" "ss_length (ps_footer p) = of_nat (length fb)" "ss_uncompressed_length (ps_footer p) = of_nat (length fb)"
      "ss_compression (ps_footer p) = 0" "ss_crc32c (ps_footer p) = crc fb" "ps_file_len p = of_nat (length data)"
      "ps_required_features p = mw_required_features w" "ps_optional_features p = mw_optional_features w"
    by (simp_all add: p_def ps_def writer_postscript_def)
  have hf: "hdr_required_features h = mw_required_features w" "hdr_optional_features h = mw_optional_features w"
      "hdr_feature_set_section_id h = 0" "hdr_profile_capability_section_id h = 0" "hdr_fast_metadata_section_id h = 0"
    by (simp_all add: h_def writer_header_def)
  have les: "length es = length (mw_sections w)" using es lds by simp
  have wf: "footer_wf json_ok f"
  proof -
    have "length (mw_metadata_json w) \<le> unat METADATA_LEN_MAX" "length (mw_metadata_json w) < 2 ^ 32"
      using inputs by (auto simp: metadata_validate_def METADATA_LEN_MAX_def split: if_splits)
    moreover from this have "unat (of_nat (length (mw_metadata_json w)) :: u32) = length (mw_metadata_json w)"
      by (intro unat_of_nat_less) simp
    moreover have "unat (of_nat (length es) :: u32) = length es"
      using inputs les by (intro unat_of_nat_less) simp
    moreover have "list_all (\<lambda>e. CoveSectionEntryV1_check e = Ok ()) es"
      unfolding es using inputs by (intro layout_checks [OF _ ds]) simp
    ultimately show ?thesis using inputs
      by (simp add: footer_wf_def f_def writer_footer_def CoveFooterHeaderV1_check_def MAGIC_COVE_FOOTER_def FOOTER_HEADER_SIZE_def list_ex_iff word_less_nat_alt)
  qed
  have sl: "slice ?off (length fb) data = fb" by (subst data) (simp add: slice_def)
  have ir: "index_range data (?off, ?off + length fb) = Ok fb" using len sl by (simp add: index_range_def)
  have endo: "CoveSectionSpecV1_end_offset (ps_footer p) = Ok (of_nat (?off + length fb))"
    using n len small by (simp add: CoveSectionSpecV1_end_offset_def pf checked_add_def del: of_nat_add of_nat_numeral)
  have ne: "unat (of_nat (?off + length fb) :: u64) = ?off + length fb" using len small by (intro unat_of_nat_less) simp
  have payload: "section_spec_payload cs data (ps_footer p) = Ok fb"
    using n sl len small by (simp add: section_spec_payload_def payload_from_spec_def payload_raw_bytes_def pf checked_add_def payload_from_raw_def CompressionCodec_from_u8_def del: of_nat_add of_nat_numeral)
  have foot: "CoveFooter_parse json_ok fb = Ok f"
    using footer_roundtrip [OF wf, of "[]"] by (simp add: fb f_def)
  have total: "CoveFooterHeaderV1_total_len (ft_header f) = Ok (length fb)" using footer_total_len [OF wf] by (simp add: fb f_def)
  have sections: "validate_sections crc data ?off f h Strict = Ok (f, [])"
  proof -
    have fs: "ft_sections f = es" by (simp add: f_def writer_footer_def)
    note placed = layout_placed [OF lds, of 160 0 "?H" crc "fb @ CovePostscriptV1_serialize_tail crc ps", folded es]
    have pl: "list_all (\<lambda>e. 160 \<le> unat (se_offset e) \<and> unat (se_offset e) + unat (se_length e) \<le> ?off) es"
      "sorted_wrt (\<lambda>a b. se_section_id a < se_section_id b) es"
      "sorted_wrt (\<lambda>a b. unat (se_offset a) + unat (se_length a) \<le> unat (se_offset b)) es"
      "list_all (checksum_ok crc data) es"
      using placed len small inputs by (auto simp: data list_all_iff)
    have bound: "unat (se_offset e) + unat (se_length e) < usize_bound" if "e \<in> set es" for e
      using pl(1) that len small by (fastforce simp: list_all_iff)
    have "list_all (\<lambda>e. validate_entry_features h e = Ok ()) es"
      using decl unfolding es h_def by (intro layout_forall [where P = "section_declared w"]) (auto simp: writer_declared_def section_features_Ok)
    then have "list_all (admitted h ?off) es"
      using pl(1) bound by (simp add: list_all_iff admitted_def HEADER_SIZE_eq)
    moreover have "sorted_wrt (\<lambda>a b. range_clear b (entry_range a)) es"
      by (rule sorted_wrt_mono_rel [OF _ pl(3)]) (auto intro: disjoint_clear bound)
    ultimately have "validate_sections_loop crc data ?off h Strict [] None es = Ok []"
      using pl len by (simp add: validate_sections_loop_Ok list_all_iff)
    then show ?thesis by (simp add: validate_sections_def fs retain_sections_def)
  qed
  have meta: "validate_scoped_feature_metadata crc cs data h f = Ok ()"
  proof (rule plain_metadata_Ok)
    show "list_all (\<lambda>e. se_section_kind e \<noteq> SectionKind_code Section_SectionFeatureBinding) (ft_sections f)"
      using decl unfolding f_def writer_footer_def es
      by (simp, intro layout_forall [where P = "section_declared w"]) (use declared_not_binding in \<open>simp_all add: writer_declared_def\<close>)
  qed (use decl inputs in \<open>simp_all add: hf writer_declared_def\<close>)
  have magic: "slice (length data - 4) 4 data = MAGIC_COVE"
    using post by (rule parsed_tail_magic)
  then have magic': "slice (228 + (length (concat ds) + length fb)) 4 data = MAGIC_COVE" using len by simp
  have "validate_required_feature_implementation cs h = validate_required_feature_implementation cs (writer_header w)"
      "validate_primary_profile_features h = validate_primary_profile_features (writer_header w)"
    by (simp_all add: h_def validate_required_feature_implementation_def validate_primary_profile_features_def cong: option.case_cong)
  then have decl': "validate_required_feature_implementation cs h = Ok ()" "validate_primary_profile_features h = Ok ()"
    using decl by (simp_all add: writer_declared_def)
  have "validate_bytes_with_optional_pushdown_policy crc json_ok cs data Strict = Ok (v, [])"
    using len n
    by (simp add: validate_bytes_with_optional_pushdown_policy_def Let_def HEADER_SIZE_eq postscript_sizes magic' post pf(6) endo pf(1-5) ne
        ir validate_footer_codec_feature_advertisement_def payload foot total header sections decl' hf(1,2) pf(7,8) meta v_def
        del: of_nat_add of_nat_numeral)
  moreover have "map (section_payload cs data) (ft_sections (vf_footer v)) = map (\<lambda>s. Ok (sp_data s)) (mw_sections w)"
    using layout_payloads [OF lossless ds _ _ payloads, of 160 "?H" "fb @ CovePostscriptV1_serialize_tail crc ps" crc 0] len small
    by (simp add: v_def f_def writer_footer_def es data)
  moreover have "ft_metadata_json (vf_footer v) = mw_metadata_json w" by (simp add: v_def f_def writer_footer_def)
  ultimately show thesis using that by blast
qed

text \<open>C7: what the minimal writer returns for builder contents whose feature bits are declared, the validator accepts
  under the strict policy, and every section payload and the metadata are read back as they were given, provided
  the libraries decompress what they compressed; a payload is a buffer, of at most \<open>isize::MAX\<close> bytes.\<close>

theorem writer_output_accepted:
  assumes "MinimalCoveWriter_write crc json_ok cs w = Ok data" and "length data < 2 ^ 64"
    and "writer_declared cs w" and "codecs_lossless cs" and "list_all (\<lambda>s. length (sp_data s) < 2 ^ 63) (mw_sections w)"
  shows "\<exists>v. validate_bytes crc json_ok cs data = Ok v
     \<and> map (section_payload cs data) (ft_sections (vf_footer v)) = map (\<lambda>s. Ok (sp_data s)) (mw_sections w)
     \<and> ft_metadata_json (vf_footer v) = mw_metadata_json w"
  by (rule written_file_accepted [OF assms]) (auto simp: validate_bytes_def)

text \<open>A file with a file dictionary index stored as LZ4 and an empty vendor extension.\<close>

definition sample_payload_of :: "SectionKind \<Rightarrow> u8 \<Rightarrow> u64 \<Rightarrow> bytes \<Rightarrow> SectionPayload" where
  "sample_payload_of kind compression optional xs =
     \<lparr>sp_section_kind = SectionKind_code kind, sp_profile = 0, sp_flags = 0, sp_item_count = 0, sp_row_count = 0,
      sp_compression = compression, sp_alignment_log2 = 0, sp_required_features = 0, sp_optional_features = optional, sp_data = xs\<rparr>"

definition sample_writer :: MinimalCoveWriter where
  "sample_writer = MinimalCoveWriter_new
     \<lparr>mw_optional_features := FEATURE_CODEC_LZ4 OR FEATURE_FILE_DICTIONARY,
      mw_sections := [sample_payload_of Section_FileDictionaryIndex 1 FEATURE_CODEC_LZ4 [1, 2, 3],
                      sample_payload_of Section_VendorExtension 0 0 []]\<rparr>"

lemma sample_declared: "writer_declared stored_codecs sample_writer"
  by (simp add: writer_declared_def sample_writer_def sample_payload_of_def MinimalCoveWriter_new_def writer_header_def section_declared_def
      validate_required_feature_implementation_def validate_primary_profile_features_def stored_codecs_def Let_def feature_defs
      PrimaryProfile_from_u8_def primary_profile_bit_def SectionKind_from_u16_def section_info_def section_registry_defs)

lemma sample_written: "\<exists>data. MinimalCoveWriter_write (\<lambda>_. 7) (\<lambda>_. False) stored_codecs sample_writer = Ok data \<and> length data < 2 ^ 64"
  by (simp add: MinimalCoveWriter_write_def write_to_def validate_inputs_def validate_section_input_def sample_writer_def sample_payload_of_def
      MinimalCoveWriter_new_def feature_defs metadata_validate_def METADATA_LEN_MAX_def KNOWN_FEATURE_BITS_MASK_def KNOWN_FEATURE_BITS_def
      CompressionCodec_from_u8_def SectionKind_from_u16_def PrimaryProfile_from_u8_def ProducerScopeKind_from_u16_def
      encode_payload_for_codec_def lz4_compress_def stored_codecs_def checked_add_def postscript_sizes HEADER_SIZE_eq footer_length writer_footer_def
      Cursor_new_def stream_position_def write_all_append seek_start_def Let_def length_write_all)

lemma sample_accepted:
  "\<exists>data v. validate_bytes (\<lambda>_. 7) (\<lambda>_. False) stored_codecs data = Ok v \<and> length (ft_sections (vf_footer v)) = 2"
proof -
  obtain data where d: "MinimalCoveWriter_write (\<lambda>_. 7) (\<lambda>_. False) stored_codecs sample_writer = Ok data" "length data < 2 ^ 64"
    using sample_written by blast
  show ?thesis
  proof (rule written_file_accepted [OF d sample_declared stored_codecs_lossless])
    fix v assume v: "validate_bytes_with_optional_pushdown_policy (\<lambda>_. 7) (\<lambda>_. False) stored_codecs data Strict = Ok (v, [])"
      and m: "map (section_payload stored_codecs data) (ft_sections (vf_footer v)) = map (\<lambda>s. Ok (sp_data s)) (mw_sections sample_writer)"
    from m have "length (ft_sections (vf_footer v)) = length (mw_sections sample_writer)" by (rule map_eq_imp_length_eq)
    then show ?thesis using v by (intro exI [of _ data] exI [of _ v]) (simp add: validate_bytes_def sample_writer_def)
  qed (simp add: sample_writer_def sample_payload_of_def)
qed

lemma writer_output_accepted_witness:
  "\<exists>data v. MinimalCoveWriter_write (\<lambda>_. 7) (\<lambda>_. False) stored_codecs sample_writer = Ok data
     \<and> validate_bytes (\<lambda>_. 7) (\<lambda>_. False) stored_codecs data = Ok v
     \<and> map (section_payload stored_codecs data) (ft_sections (vf_footer v)) = [Ok [1, 2, 3], Ok []]"
proof -
  obtain data where d: "MinimalCoveWriter_write (\<lambda>_. 7) (\<lambda>_. False) stored_codecs sample_writer = Ok data" "length data < 2 ^ 64"
    using sample_written by blast
  show ?thesis
    using writer_output_accepted [OF d sample_declared stored_codecs_lossless] d
    by (auto simp: sample_writer_def sample_payload_of_def)
qed

section \<open>What acceptance by the reader means\<close>

text \<open>C3: every file the validator accepts is consistent: the recorded file length and the feature bits of header
  and postscript agree, the footer lies between the header and the postscript under its checksum,
  and the sections have ascending identifiers, lie between header and footer, occupy pairwise
  disjoint byte ranges, match their checksums, and have a known kind under an allowed profile.\<close>

theorem validated_file_consistent:
  assumes "validate_bytes crc json_ok cs data = Ok v"
  shows "file_consistent crc data v"
  using assms validated_consistent by (auto simp: validate_bytes_def result_simps split: prod.splits)

lemma validated_file_consistent_witness:
  "\<exists>data v. validate_bytes (\<lambda>_. 7) (\<lambda>_. False) stored_codecs data = Ok v \<and> file_consistent (\<lambda>_. 7) data v
     \<and> length (ft_sections (vf_footer v)) = 2"
  using sample_accepted validated_file_consistent by blast

text \<open>what the fail-open policy ignores is optional pushdown metadata whose checksum does not match, and the file it
  returns satisfies the same guarantees as under the strict policy.\<close>

theorem fail_open_conservative:
  assumes "validate_bytes_with_optional_pushdown_policy crc json_ok cs data FailOpen = Ok (v, ig)"
  shows "file_consistent crc data v
     \<and> list_all (\<lambda>i. \<exists>kind. SectionKind_from_u16 (ig_section_kind i) = Some kind \<and> is_optional_pushdown_section kind
          \<and> ig_section_id i \<notin> set (map se_section_id (ft_sections (vf_footer v)))) ig"
proof
  show "file_consistent crc data v" using assms by (rule validated_consistent)
  from assms obtain footer where
    lo: "unat (ss_offset (ps_footer (vf_postscript v))) + unat (ss_length (ps_footer (vf_postscript v))) + POSTSCRIPT_TOTAL_SIZE \<le> length data"
    and sections: "validate_sections crc data (unat (ss_offset (ps_footer (vf_postscript v)))) footer (vf_header v) FailOpen = Ok (vf_footer v, ig)"
    by (rule validated_parts) blast
  from lo have le: "unat (ss_offset (ps_footer (vf_postscript v))) \<le> length data" by linarith
  note kept = retained_sections [OF sections le]
  from sections have loop: "validate_sections_loop crc data (unat (ss_offset (ps_footer (vf_postscript v)))) (vf_header v) FailOpen [] None (ft_sections footer) = Ok ig"
    by (auto simp: validate_sections_def result_simps)
  then have pushdown: "checksum_ok crc data e \<or> is_optional_pushdown_entry e" if "e \<in> set (ft_sections footer)" for e
    using that unfolding validate_sections_loop_Ok [OF le] by (auto simp: list_all_iff)
  from loop have ids: "sorted_wrt (\<lambda>a b. se_section_id a < se_section_id b) (ft_sections footer)"
    unfolding validate_sections_loop_Ok [OF le] by simp
  show "list_all (\<lambda>i. \<exists>kind. SectionKind_from_u16 (ig_section_kind i) = Some kind \<and> is_optional_pushdown_section kind
          \<and> ig_section_id i \<notin> set (map se_section_id (ft_sections (vf_footer v)))) ig"
    unfolding list_all_iff
  proof
    fix i assume "i \<in> set ig"
    then obtain e where e: "e \<in> set (ft_sections footer)" "\<not> checksum_ok crc data e" "i = ignored e" using kept by auto
    with pushdown have "is_optional_pushdown_entry e" by blast
    moreover have "se_section_id e \<notin> set (map se_section_id (ft_sections (vf_footer v)))"
    proof
      assume "se_section_id e \<in> set (map se_section_id (ft_sections (vf_footer v)))"
      then obtain x where "x \<in> set (ft_sections footer)" "checksum_ok crc data x" "se_section_id x = se_section_id e"
        using kept by auto
      then show False using sorted_wrt_inj [OF ids] e by blast
    qed
    ultimately show "\<exists>kind. SectionKind_from_u16 (ig_section_kind i) = Some kind \<and> is_optional_pushdown_section kind
          \<and> ig_section_id i \<notin> set (map se_section_id (ft_sections (vf_footer v)))"
      using e(3) by (auto simp: ignored_def is_optional_pushdown_entry_def split: option.splits)
  qed
qed

lemma fail_open_conservative_witness:
  "\<exists>data v. validate_bytes_with_optional_pushdown_policy (\<lambda>_. 7) (\<lambda>_. False) stored_codecs data FailOpen = Ok (v, [])
     \<and> file_consistent (\<lambda>_. 7) data v"
proof -
  obtain data v where "validate_bytes (\<lambda>_. 7) (\<lambda>_. False) stored_codecs data = Ok v" using sample_accepted by blast
  then have "validate_bytes_with_optional_pushdown_policy (\<lambda>_. 7) (\<lambda>_. False) stored_codecs data FailOpen = Ok (v, [])"
    by (auto simp: validate_bytes_def result_simps strict_iff split: prod.splits)
  with fail_open_conservative [OF this] show ?thesis by blast
qed

end
