(* ===== verification/File_System.thy ===== *)
theory File_System
  imports Errors
begin

text \<open>
  The file system the durable publisher (\<open>durable.rs\<close>) runs on: what \<open>std::fs\<close> promises of POSIX files.
  Running processes see the visible directory entries and file data. What a power failure leaves behind is
  weaker: a directory falls back to any of its versions since it was last synchronised, and the data of a
  file that was not synchronised since its last write is arbitrary. A rename within one directory is one
  change of that directory. Every system call may fail; a script chosen by the environment says which do.
\<close>

section \<open>Paths\<close>

text \<open>A path in normal form. The relative path without components is the empty path.\<close>

record path =
  p_absolute :: bool
  p_components :: "string list"

definition parent_path :: "path \<Rightarrow> path option" where
  "parent_path p = (if p_components p = [] then None else Some (p\<lparr>p_components := butlast (p_components p)\<rparr>))"

text \<open>\<open>OsString::push\<close> extends the last component.\<close>

definition push_str :: "path \<Rightarrow> string \<Rightarrow> path" where
  "push_str p s = (if p_components p = [] then p\<lparr>p_components := [s]\<rparr>
     else p\<lparr>p_components := butlast (p_components p) @ [last (p_components p) @ s]\<rparr>)"

definition empty_path :: path where
  "empty_path = \<lparr>p_absolute = False, p_components = []\<rparr>"

lemma path_update_eq [simp]:
  "p\<lparr>p_components := xs\<rparr> = p\<lparr>p_components := ys\<rparr> \<longleftrightarrow> xs = ys" "p\<lparr>p_components := xs\<rparr> = p \<longleftrightarrow> xs = p_components p"
  by (cases p, simp)+

lemma push_str_simps [simp]:
  assumes "p_components p \<noteq> []"
  shows "parent_path (push_str p s) = parent_path p" "push_str (push_str p s) t = push_str p (s @ t)"
    "push_str p s = push_str p t \<longleftrightarrow> s = t" "push_str p s = p \<longleftrightarrow> s = []" "p_components (push_str p s) \<noteq> []"
proof -
  obtain cs c where p: "p_components p = cs @ [c]" using assms by (cases "p_components p" rule: rev_cases) auto
  then show "parent_path (push_str p s) = parent_path p" "push_str (push_str p s) t = push_str p (s @ t)"
      "push_str p s = push_str p t \<longleftrightarrow> s = t" "push_str p s = p \<longleftrightarrow> s = []" "p_components (push_str p s) \<noteq> []"
    by (simp_all add: push_str_def parent_path_def)
qed

section \<open>State\<close>

type_synonym inode = nat
type_synonym entries = "path \<Rightarrow> inode option"

record fs =
  fs_dirs :: "path set"
  fs_visible :: entries
  fs_versions :: "path \<Rightarrow> entries list"
  fs_data :: "inode \<Rightarrow> bytes"
  fs_synced :: "inode set"
  fs_next :: inode

text \<open>What the system calls answer. \<open>write(2)\<close> may be interrupted or write only some bytes.\<close>

datatype outcome = Completes | Fails string | Writes nat | Interrupted

text \<open>The states the file system went through are recorded, since the machine can stop in any of them.\<close>

record env =
  ev_fs :: fs
  ev_seen :: "fs list"
  ev_script :: "outcome list"

definition next_outcome :: "env \<Rightarrow> outcome \<times> env" where
  "next_outcome e = (case ev_script e of [] \<Rightarrow> (Completes, e) | r # rs \<Rightarrow> (r, e\<lparr>ev_script := rs\<rparr>))"

definition set_fs :: "fs \<Rightarrow> env \<Rightarrow> env" where
  "set_fs fs e = e\<lparr>ev_fs := fs, ev_seen := ev_seen e @ [fs]\<rparr>"

text \<open>A system call: an error of the environment, or of the call itself, or a new file system and a result.\<close>

definition syscall :: "(fs \<Rightarrow> string + fs \<times> 'a) \<Rightarrow> env \<Rightarrow> 'a result \<times> env" where
  "syscall call e =
     (case next_outcome e of
        (Fails msg, e') \<Rightarrow> (Err (Io msg), e')
      | (_, e') \<Rightarrow> (case call (ev_fs e') of Inl msg \<Rightarrow> (Err (Io msg), e') | Inr (fs, x) \<Rightarrow> (Ok x, set_fs fs e')))"

definition bind_act :: "('s \<Rightarrow> 'a result \<times> 's) \<Rightarrow> ('a \<Rightarrow> 's \<Rightarrow> 'b result \<times> 's) \<Rightarrow> 's \<Rightarrow> 'b result \<times> 's" where
  "bind_act m k s = (case m s of (Ok x, s') \<Rightarrow> k x s' | (Err er, s') \<Rightarrow> (Err er, s') | (Panic, s') \<Rightarrow> (Panic, s'))"

section \<open>Calls\<close>

definition no_such_file :: string where "no_such_file = ''No such file or directory (os error 2)''"
definition file_exists :: string where "file_exists = ''File exists (os error 17)''"

text \<open>Names without a directory part live in the working directory, which exists.\<close>

definition directory_exists :: "fs \<Rightarrow> path \<Rightarrow> bool" where
  "directory_exists fs p = (case parent_path p of None \<Rightarrow> False | Some d \<Rightarrow> d = empty_path \<or> d \<in> fs_dirs fs)"

definition change_entries :: "path set \<Rightarrow> entries \<Rightarrow> fs \<Rightarrow> fs" where
  "change_entries dirs visible fs =
     fs\<lparr>fs_visible := visible, fs_versions := (\<lambda>d. if d \<in> dirs then fs_versions fs d @ [visible] else fs_versions fs d)\<rparr>"

definition parents :: "path \<Rightarrow> path set" where
  "parents p = (case parent_path p of None \<Rightarrow> {} | Some d \<Rightarrow> {d})"

definition create_new :: "path \<Rightarrow> fs \<Rightarrow> string + fs \<times> inode" where
  "create_new p fs =
     (if \<not> directory_exists fs p then Inl no_such_file
      else if fs_visible fs p \<noteq> None \<or> p \<in> fs_dirs fs then Inl file_exists
      else let i = fs_next fs in
        Inr (change_entries (parents p) ((fs_visible fs)(p \<mapsto> i)) 
               (fs\<lparr>fs_data := (fs_data fs)(i := []), fs_synced := fs_synced fs - {i}, fs_next := Suc i\<rparr>), i))"

definition open_existing :: "path \<Rightarrow> fs \<Rightarrow> string + fs \<times> inode" where
  "open_existing p fs = (case fs_visible fs p of None \<Rightarrow> Inl no_such_file | Some i \<Rightarrow> Inr (fs, i))"

definition open_directory :: "path \<Rightarrow> fs \<Rightarrow> string + fs \<times> unit" where
  "open_directory d fs = (if d = empty_path \<or> d \<notin> fs_dirs fs then Inl no_such_file else Inr (fs, ()))"

definition fsync_file :: "inode \<Rightarrow> fs \<Rightarrow> string + fs \<times> unit" where
  "fsync_file i fs = Inr (fs\<lparr>fs_synced := insert i (fs_synced fs)\<rparr>, ())"

definition fsync_directory :: "path \<Rightarrow> fs \<Rightarrow> string + fs \<times> unit" where
  "fsync_directory d fs = Inr (fs\<lparr>fs_versions := (fs_versions fs)(d := [fs_visible fs])\<rparr>, ())"

definition rename_file :: "path \<Rightarrow> path \<Rightarrow> fs \<Rightarrow> string + fs \<times> unit" where
  "rename_file src dst fs =
     (case fs_visible fs src of
        None \<Rightarrow> Inl no_such_file
      | Some i \<Rightarrow>
          if \<not> directory_exists fs dst then Inl no_such_file
          else if dst \<in> fs_dirs fs then Inl ''Is a directory (os error 21)''
          else Inr (change_entries (parents src \<union> parents dst) ((fs_visible fs)(src := None, dst \<mapsto> i)) fs, ()))"

definition unlink_file :: "path \<Rightarrow> fs \<Rightarrow> string + fs \<times> unit" where
  "unlink_file p fs =
     (if fs_visible fs p = None then Inl no_such_file
      else Inr (change_entries (parents p) ((fs_visible fs)(p := None)) fs, ()))"

definition append_data :: "inode \<Rightarrow> bytes \<Rightarrow> fs \<Rightarrow> fs" where
  "append_data i bs fs = fs\<lparr>fs_data := (fs_data fs)(i := fs_data fs i @ bs), fs_synced := fs_synced fs - {i}\<rparr>"

text \<open>\<open>Write::write_all\<close>: retries interrupted and short writes; a write of no bytes is an error.\<close>

fun write_all_loop :: "inode \<Rightarrow> bytes \<Rightarrow> outcome list \<Rightarrow> env \<Rightarrow> unit result \<times> env" where
  "write_all_loop i [] script e = (Ok (), e\<lparr>ev_script := script\<rparr>)"
| "write_all_loop i bs [] e = (Ok (), set_fs (append_data i bs (ev_fs e)) (e\<lparr>ev_script := []\<rparr>))"
| "write_all_loop i bs (Completes # script) e = (Ok (), set_fs (append_data i bs (ev_fs e)) (e\<lparr>ev_script := script\<rparr>))"
| "write_all_loop i bs (Fails msg # script) e = (Err (Io msg), e\<lparr>ev_script := script\<rparr>)"
| "write_all_loop i bs (Interrupted # script) e = write_all_loop i bs script e"
| "write_all_loop i bs (Writes 0 # script) e = (Err (Io ''failed to write whole buffer''), e\<lparr>ev_script := script\<rparr>)"
| "write_all_loop i bs (Writes (Suc n) # script) e =
     write_all_loop i (drop (Suc n) bs) script (set_fs (append_data i (take (Suc n) bs) (ev_fs e)) e)"

definition write_file_data :: "inode \<Rightarrow> bytes \<Rightarrow> env \<Rightarrow> unit result \<times> env" where
  "write_file_data i bs e = write_all_loop i bs (ev_script e) e"

section \<open>Power failure\<close>

text \<open>What may be found under a path after a power failure: nothing, or a file with some content.\<close>

definition after_crash :: "fs \<Rightarrow> path \<Rightarrow> bytes option \<Rightarrow> bool" where
  "after_crash fs p found =
     (case parent_path p of
        None \<Rightarrow> found = None
      | Some d \<Rightarrow> list_ex (\<lambda>version. case version p of
            None \<Rightarrow> found = None
          | Some i \<Rightarrow> (case found of None \<Rightarrow> False | Some xs \<Rightarrow> i \<in> fs_synced fs \<longrightarrow> xs = fs_data fs i)) (fs_versions fs d))"

text \<open>What running processes read.\<close>

definition read_now :: "fs \<Rightarrow> path \<Rightarrow> bytes option" where
  "read_now fs p = map_option (fs_data fs) (fs_visible fs p)"

text \<open>Every directory has a version, the last one agrees with what is visible, and inodes are allocated in order.\<close>

definition fs_wf :: "fs \<Rightarrow> bool" where
  "fs_wf fs \<longleftrightarrow>
     (\<forall>d. fs_versions fs d \<noteq> [] \<and> (\<forall>p. parent_path p = Some d \<longrightarrow> last (fs_versions fs d) p = fs_visible fs p)
        \<and> (\<forall>v \<in> set (fs_versions fs d). \<forall>p i. v p = Some i \<longrightarrow> i < fs_next fs))
     \<and> (\<forall>p i. fs_visible fs p = Some i \<longrightarrow> i < fs_next fs)"

end
