(* ===== verification/Durable.thy ===== *)
theory Durable
  imports File_System
begin

text \<open>
  The durable-replace protocol (\<open>durable.rs\<close>): write a sibling temporary file, synchronise it, rename it
  over the final path, synchronise the parent directory. This is the build for systems other than Windows.
  Process identifier, clock and the global counter are arguments.
\<close>

section \<open>The protocol\<close>

definition temp_path_for :: "u32 \<Rightarrow> nat \<Rightarrow> u64 \<Rightarrow> path \<Rightarrow> path \<times> u64" where
  "temp_path_for pid nanos counter final_path =
     (push_str (push_str final_path ''.cove.tmp.'')
        (show_nat (unat pid) @ ''.'' @ show_nat nanos @ ''.'' @ show_nat (unat counter)), counter + 1)"

text \<open>The trait \<open>DurableReplaceBackend\<close> over a state \<open>'s\<close>.\<close>

record 's backend =
  be_write_new_file :: "path \<Rightarrow> bytes \<Rightarrow> 's \<Rightarrow> unit result \<times> 's"
  be_sync_file :: "path \<Rightarrow> 's \<Rightarrow> unit result \<times> 's"
  be_rename :: "path \<Rightarrow> path \<Rightarrow> 's \<Rightarrow> unit result \<times> 's"
  be_remove_file :: "path \<Rightarrow> 's \<Rightarrow> unit result \<times> 's"
  be_sync_parent_dir :: "path \<Rightarrow> 's \<Rightarrow> unit result \<times> 's"

text \<open>The steps run up to the first error; then the temporary file is removed, and an error of that is ignored.\<close>

definition or_remove :: "('s \<Rightarrow> unit result \<times> 's) \<Rightarrow> path \<Rightarrow> ('s \<Rightarrow> unit result \<times> 's) \<Rightarrow> 's \<Rightarrow> path result \<times> 's" where
  "or_remove remove tmp steps s =
     (case steps s of
        (Ok _, s') \<Rightarrow> (Ok tmp, s')
      | (Err er, s') \<Rightarrow> (Err er, snd (remove s'))
      | (Panic, s') \<Rightarrow> (Panic, s'))"

definition durable_replace_with_backend :: "'s backend \<Rightarrow> u32 \<Rightarrow> nat \<Rightarrow> u64 \<Rightarrow> path \<Rightarrow> bytes \<Rightarrow> 's \<Rightarrow> path result \<times> 's" where
  "durable_replace_with_backend be pid nanos counter final_path bs =
     (let tmp = fst (temp_path_for pid nanos counter final_path) in
      or_remove (be_remove_file be tmp) tmp
        (bind_act (be_write_new_file be tmp bs) (\<lambda>_.
         bind_act (be_sync_file be tmp) (\<lambda>_.
         bind_act (be_rename be tmp final_path) (\<lambda>_.
         be_sync_parent_dir be final_path)))))"

section \<open>The backend on the file system\<close>

fun join_components :: "string list \<Rightarrow> string" where
  "join_components [] = ''''"
| "join_components [c] = c"
| "join_components (c # cs) = c @ ''/'' @ join_components cs"

definition display_path :: "path \<Rightarrow> string" where
  "display_path p = (if p_absolute p then ''/'' else '''') @ join_components (p_components p)"

definition open_parent_dir_for_sync :: "path \<Rightarrow> env \<Rightarrow> unit result \<times> env" where
  "open_parent_dir_for_sync d = syscall (open_directory d)"

definition rename_durable :: "path \<Rightarrow> path \<Rightarrow> env \<Rightarrow> unit result \<times> env" where
  "rename_durable src dst = syscall (rename_file src dst)"

definition std_write_new_file :: "path \<Rightarrow> bytes \<Rightarrow> env \<Rightarrow> unit result \<times> env" where
  "std_write_new_file p bs = bind_act (syscall (create_new p)) (\<lambda>file. write_file_data file bs)"

definition std_sync_file :: "path \<Rightarrow> env \<Rightarrow> unit result \<times> env" where
  "std_sync_file p = bind_act (syscall (open_existing p)) (\<lambda>file. syscall (fsync_file file))"

definition std_remove_file :: "path \<Rightarrow> env \<Rightarrow> unit result \<times> env" where
  "std_remove_file p = syscall (unlink_file p)"

definition sync_parent_path :: "path \<Rightarrow> env \<Rightarrow> unit result \<times> env" where
  "sync_parent_path d = bind_act (open_parent_dir_for_sync d) (\<lambda>_. syscall (fsync_directory d))"

definition std_sync_parent_dir :: "path \<Rightarrow> env \<Rightarrow> unit result \<times> env" where
  "std_sync_parent_dir final_path =
     (case parent_path final_path of
        None \<Rightarrow> Pair (Err (Io (''cannot fsync parent directory for '' @ display_path final_path @ '': no parent path'')))
      | Some d \<Rightarrow> sync_parent_path d)"

definition StdDurableReplaceBackend :: "env backend" where
  "StdDurableReplaceBackend =
     \<lparr>be_write_new_file = std_write_new_file, be_sync_file = std_sync_file, be_rename = rename_durable,
      be_remove_file = std_remove_file, be_sync_parent_dir = std_sync_parent_dir\<rparr>"

definition durable_replace :: "u32 \<Rightarrow> nat \<Rightarrow> u64 \<Rightarrow> path \<Rightarrow> bytes \<Rightarrow> env \<Rightarrow> path result \<times> env" where
  "durable_replace = durable_replace_with_backend StdDurableReplaceBackend"

text \<open>The variant that hands the new file to a callback and keeps the handle open for \<open>sync_all\<close>.\<close>

definition durable_replace_with_writer ::
  "u32 \<Rightarrow> nat \<Rightarrow> u64 \<Rightarrow> path \<Rightarrow> (inode \<Rightarrow> env \<Rightarrow> unit result \<times> env) \<Rightarrow> env \<Rightarrow> path result \<times> env" where
  "durable_replace_with_writer pid nanos counter final_path write =
     (let tmp = fst (temp_path_for pid nanos counter final_path) in
      or_remove (std_remove_file tmp) tmp
        (bind_act (syscall (create_new tmp)) (\<lambda>file.
         bind_act (write file) (\<lambda>_.
         bind_act (syscall (fsync_file file)) (\<lambda>_.
         bind_act (rename_durable tmp final_path) (\<lambda>_.
         std_sync_parent_dir final_path))))))"

section \<open>The contract of the steps\<close>

text \<open>
  A proof outline for any backend: four actions and an assertion between any two of them; \<open>Safe\<close> holds
  wherever the sequence may be left.
\<close>

locale replace_protocol =
  fixes stage rename sync remove :: "'s \<Rightarrow> unit result \<times> 's"
    and Fresh Staged Renamed Published Safe :: "'s \<Rightarrow> bool"
  assumes stage_law: "Fresh s \<Longrightarrow> stage s = (r, s') \<Longrightarrow> r \<noteq> Panic \<and> Safe s' \<and> (r = Ok () \<longrightarrow> Staged s')"
    and rename_law: "Staged s \<Longrightarrow> rename s = (r, s') \<Longrightarrow> r \<noteq> Panic \<and> Safe s' \<and> (r = Ok () \<longrightarrow> Renamed s')"
    and sync_law: "Renamed s \<Longrightarrow> sync s = (r, s') \<Longrightarrow> r \<noteq> Panic \<and> Safe s' \<and> (r = Ok () \<longrightarrow> Published s')"
    and remove_law: "Safe s \<Longrightarrow> remove s = (r, s') \<Longrightarrow> Safe s'"
begin

lemma cleanup_safe: "Safe s \<Longrightarrow> Safe (snd (remove s))"
  by (cases "remove s") (auto dest: remove_law)

lemma published_or_safe:
  assumes "Fresh s" and "or_remove remove tmp (bind_act stage (\<lambda>_. bind_act rename (\<lambda>_. sync))) s = (r, s')"
  shows "(r = Ok tmp \<and> Published s' \<or> (\<exists>er. r = Err er)) \<and> Safe s'"
proof -
  obtain r1 s1 where 1: "stage s = (r1, s1)" by force
  obtain r2 s2 where 2: "rename s1 = (r2, s2)" by force
  obtain r3 s3 where 3: "sync s2 = (r3, s3)" by force
  note s1 = stage_law [OF assms(1) 1]
  show ?thesis
  proof (cases r1)
    case (Ok x)
    note s2 = rename_law [OF _ 2]
    show ?thesis
    proof (cases r2)
      case ok2: (Ok y)
      have "Renamed s2" using s1 s2 Ok ok2 by auto
      note s3 = sync_law [OF this 3]
      show ?thesis using assms(2) 1 2 3 Ok ok2 s3 cleanup_safe [of s3]
        by (cases r3) (auto simp: or_remove_def bind_act_def)
    qed (use assms(2) 1 2 Ok s1 s2 cleanup_safe [of s2] in \<open>auto simp: or_remove_def bind_act_def surjective_pairing\<close>)
  qed (use assms(2) 1 s1 cleanup_safe [of s1] in \<open>auto simp: or_remove_def bind_act_def surjective_pairing\<close>)
qed

end

lemma bind_act_assoc: "bind_act (bind_act m f) g = bind_act m (\<lambda>x. bind_act (f x) g)"
  by (auto simp: bind_act_def fun_eq_iff split: prod.splits result.splits)

section \<open>Readers never see a partial file\<close>

text \<open>
  \<open>final_inv\<close>: whatever version of the directory survives, the final path holds what it held in \<open>fs0\<close> or a
  synchronised file with the new contents.
\<close>

definition new_file :: "fs \<Rightarrow> bytes \<Rightarrow> fs \<Rightarrow> inode \<Rightarrow> bool" where
  "new_file fs0 bs g i \<longleftrightarrow> fs_next fs0 \<le> i \<and> i < fs_next g \<and> fs_data g i = bs \<and> i \<in> fs_synced g"

definition final_inv :: "path \<Rightarrow> path \<Rightarrow> bytes \<Rightarrow> fs \<Rightarrow> fs \<Rightarrow> bool" where
  "final_inv d final_path bs fs0 g \<longleftrightarrow> fs_next fs0 \<le> fs_next g
     \<and> (\<forall>j < fs_next fs0. fs_data g j = fs_data fs0 j \<and> (j \<in> fs_synced g \<longleftrightarrow> j \<in> fs_synced fs0))
     \<and> (\<forall>v \<in> set (fs_versions g d). (\<exists>v0 \<in> set (fs_versions fs0 d). v final_path = v0 final_path)
          \<or> (\<exists>i. v final_path = Some i \<and> new_file fs0 bs g i))
     \<and> (fs_visible g final_path = fs_visible fs0 final_path \<or> (\<exists>i. fs_visible g final_path = Some i \<and> new_file fs0 bs g i))"

definition final_safe :: "path \<Rightarrow> bytes \<Rightarrow> fs \<Rightarrow> fs \<Rightarrow> bool" where
  "final_safe final_path bs fs0 g \<longleftrightarrow>
     (read_now g final_path = read_now fs0 final_path \<or> read_now g final_path = Some bs)
     \<and> (\<forall>found. after_crash g final_path found \<longrightarrow> after_crash fs0 final_path found \<or> found = Some bs)"

lemma final_inv_safe:
  assumes inv: "final_inv d final_path bs fs0 g" and wf: "fs_wf fs0" and d: "parent_path final_path = Some d"
  shows "final_safe final_path bs fs0 g"
proof -
  have same: "fs_data g j = fs_data fs0 j" "j \<in> fs_synced g \<longleftrightarrow> j \<in> fs_synced fs0" if "j < fs_next fs0" for j
    using inv that by (auto simp: final_inv_def)
  have "read_now g final_path = read_now fs0 final_path \<or> read_now g final_path = Some bs"
    using inv wf same(1) by (cases "fs_visible fs0 final_path") (auto simp: final_inv_def read_now_def new_file_def fs_wf_def)
  moreover have "after_crash fs0 final_path found \<or> found = Some bs" if crash: "after_crash g final_path found" for found
  proof -
    from crash d obtain v where v: "v \<in> set (fs_versions g d)"
      and f: "case v final_path of None \<Rightarrow> found = None
          | Some i \<Rightarrow> (case found of None \<Rightarrow> False | Some xs \<Rightarrow> i \<in> fs_synced g \<longrightarrow> xs = fs_data g i)"
      by (auto simp: after_crash_def list_ex_iff)
    from inv v consider (old) v0 where "v0 \<in> set (fs_versions fs0 d)" "v final_path = v0 final_path"
      | (new) i where "v final_path = Some i" "new_file fs0 bs g i" by (auto simp: final_inv_def)
    then show ?thesis
    proof cases
      case old
      then have "after_crash fs0 final_path found"
        unfolding after_crash_def d using f wf same
        by (auto simp: list_ex_iff fs_wf_def split: option.splits intro!: bexI [of _ v0])
      then show ?thesis ..
    next
      case new
      then show ?thesis using f by (auto simp: new_file_def split: option.splits)
    qed
  qed
  ultimately show ?thesis by (auto simp: final_safe_def)
qed

text \<open>A file under construction: reachable as \<open>tmp\<close> only, never as the final path in any version.\<close>

definition staging :: "path \<Rightarrow> path \<Rightarrow> path \<Rightarrow> fs \<Rightarrow> fs \<Rightarrow> inode \<Rightarrow> bool" where
  "staging d final_path tmp fs0 g i \<longleftrightarrow> fs_visible g tmp = Some i \<and> fs_next fs0 \<le> i \<and> i < fs_next g
     \<and> fs_visible g final_path \<noteq> Some i \<and> (\<forall>v \<in> set (fs_versions g d). v final_path \<noteq> Some i)"

definition touches_only :: "inode \<Rightarrow> fs \<Rightarrow> fs \<Rightarrow> bool" where
  "touches_only i g h \<longleftrightarrow> fs_dirs h = fs_dirs g \<and> fs_visible h = fs_visible g \<and> fs_versions h = fs_versions g \<and> fs_next h = fs_next g
     \<and> (\<forall>j. j \<noteq> i \<longrightarrow> fs_data h j = fs_data g j \<and> (j \<in> fs_synced h \<longleftrightarrow> j \<in> fs_synced g))"

lemma touches_only_refl [simp]: "touches_only i g g" by (simp add: touches_only_def)

lemma touches_only_trans: "touches_only i g h \<Longrightarrow> touches_only i h k \<Longrightarrow> touches_only i g k"
  by (auto simp: touches_only_def)

lemma touches_only_write [simp]: "touches_only i g (append_data i bs g)"
  by (simp add: touches_only_def append_data_def)

lemma final_inv_refl: "fs_wf fs0 \<Longrightarrow> final_inv d final_path bs fs0 fs0"
  by (auto simp: final_inv_def)

lemma staging_touch:
  assumes "staging d final_path tmp fs0 g i" and "touches_only i g h"
  shows "staging d final_path tmp fs0 h i" "final_inv d final_path bs fs0 g \<Longrightarrow> final_inv d final_path bs fs0 h"
proof -
  show "staging d final_path tmp fs0 h i" using assms by (simp add: staging_def touches_only_def)
  have new: "new_file fs0 bs g k \<longleftrightarrow> new_file fs0 bs h k" if "k \<noteq> i" for k
    using assms that by (auto simp: new_file_def touches_only_def)
  show "final_inv d final_path bs fs0 h" if inv: "final_inv d final_path bs fs0 g"
  proof -
    have "fs_next fs0 \<le> i" using assms(1) by (simp add: staging_def)
    moreover have "v final_path \<noteq> Some i" if "v \<in> set (fs_versions g d)" for v using assms(1) that by (simp add: staging_def)
    moreover have "fs_visible g final_path \<noteq> Some i" using assms(1) by (simp add: staging_def)
    ultimately show ?thesis using inv assms(2) new unfolding final_inv_def touches_only_def
      by (intro conjI; simp; metis not_less)
  qed
qed

lemma inv_extend:
  assumes inv: "final_inv d final_path bs fs0 g" and wf: "fs_wf fs0" and d: "parent_path final_path = Some d"
    and grow: "fs_next g \<le> fs_next h"
    and old: "\<And>j. j < fs_next fs0 \<Longrightarrow> fs_data h j = fs_data g j \<and> (j \<in> fs_synced h \<longleftrightarrow> j \<in> fs_synced g)"
    and new: "\<And>k. new_file fs0 bs g k \<Longrightarrow> new_file fs0 bs h k"
    and vis: "fs_visible h final_path = fs_visible g final_path \<or> (\<exists>i. fs_visible h final_path = Some i \<and> new_file fs0 bs h i)"
    and ver: "\<And>v. v \<in> set (fs_versions h d) \<Longrightarrow> v \<in> set (fs_versions g d) \<or> v final_path = fs_visible h final_path"
  shows "final_inv d final_path bs fs0 h"
proof -
  have visible: "fs_visible h final_path = fs_visible fs0 final_path \<or> (\<exists>i. fs_visible h final_path = Some i \<and> new_file fs0 bs h i)"
    using vis inv new by (auto simp: final_inv_def)
  have base: "\<exists>v0 \<in> set (fs_versions fs0 d). fs_visible fs0 final_path = v0 final_path"
    using wf d by (metis fs_wf_def last_in_set)
  show ?thesis unfolding final_inv_def
  proof (intro conjI ballI)
    show "fs_next fs0 \<le> fs_next h" using inv grow by (auto simp: final_inv_def)
    show "\<forall>j < fs_next fs0. fs_data h j = fs_data fs0 j \<and> (j \<in> fs_synced h \<longleftrightarrow> j \<in> fs_synced fs0)"
      using inv old by (auto simp: final_inv_def)
    fix v assume "v \<in> set (fs_versions h d)"
    with ver consider "v \<in> set (fs_versions g d)" | "v final_path = fs_visible h final_path" by blast
    then show "(\<exists>v0 \<in> set (fs_versions fs0 d). v final_path = v0 final_path) \<or> (\<exists>i. v final_path = Some i \<and> new_file fs0 bs h i)"
    proof cases
      case 1
      then show ?thesis using inv new unfolding final_inv_def by blast
    next
      case 2
      then show ?thesis using visible base by auto
    qed
  qed (fact visible)
qed

lemma staged_entries_old:
  assumes "final_inv d final_path bs fs0 g" and "fs_wf fs0"
  shows "v \<in> set (fs_versions g d) \<Longrightarrow> v final_path = Some i \<Longrightarrow> i < fs_next g" "fs_visible g final_path = Some i \<Longrightarrow> i < fs_next g"
proof -
  have lt: "i < fs_next g" if "i < fs_next fs0 \<or> new_file fs0 bs g i"
    using that assms(1) by (auto simp: final_inv_def new_file_def)
  show "i < fs_next g" if "v \<in> set (fs_versions g d)" "v final_path = Some i"
    using assms that unfolding final_inv_def fs_wf_def by (intro lt) (metis option.inject)
  show "i < fs_next g" if "fs_visible g final_path = Some i"
    using assms that unfolding final_inv_def fs_wf_def by (intro lt) (metis option.inject)
qed

section \<open>Every call keeps the invariant\<close>

definition sibling :: "path \<Rightarrow> path \<Rightarrow> path \<Rightarrow> bool" where
  "sibling d final_path tmp \<longleftrightarrow> parent_path final_path = Some d \<and> parent_path tmp = Some d \<and> tmp \<noteq> final_path"

lemma inv_create:
  assumes sib: "sibling d final_path tmp" and wf: "fs_wf fs0" and inv: "final_inv d final_path bs fs0 g" and create: "create_new tmp g = Inr (h, i)"
  shows "final_inv d final_path bs fs0 h \<and> staging d final_path tmp fs0 h i \<and> fs_data h i = []"
proof -
  note parent = sib [unfolded sibling_def, THEN conjunct1] sib [unfolded sibling_def, THEN conjunct2, THEN conjunct1]
  note other = sib [unfolded sibling_def, THEN conjunct2, THEN conjunct2]
  from create have i: "i = fs_next g" and h: "h = change_entries {d} ((fs_visible g)(tmp \<mapsto> fs_next g))
      (g\<lparr>fs_data := (fs_data g)(fs_next g := []), fs_synced := fs_synced g - {fs_next g}, fs_next := Suc (fs_next g)\<rparr>)"
    by (auto simp: create_new_def parents_def parent Let_def split: if_splits)
  have le: "fs_next fs0 \<le> fs_next g" using inv by (simp add: final_inv_def)
  have ver: "v \<in> set (fs_versions h d) \<Longrightarrow> v \<in> set (fs_versions g d) \<or> v final_path = fs_visible g final_path" for v
    using other by (auto simp: h change_entries_def)
  have "final_inv d final_path bs fs0 h"
    using ver other le by (intro inv_extend [OF inv wf parent(1)]) (auto simp: h change_entries_def new_file_def)
  moreover have "staging d final_path tmp fs0 h i"
    using le other staged_entries_old [OF inv wf] ver unfolding staging_def
    by (auto simp: h change_entries_def i)
  ultimately show ?thesis by (simp add: h change_entries_def i)
qed

lemma inv_rename:
  assumes sib: "sibling d final_path tmp" and wf: "fs_wf fs0" and inv: "final_inv d final_path bs fs0 g" and staged: "staging d final_path tmp fs0 g i" "fs_data g i = bs" "i \<in> fs_synced g"
    and rename: "rename_file tmp final_path g = Inr (h, ())"
  shows "final_inv d final_path bs fs0 h \<and> fs_visible h final_path = Some i \<and> new_file fs0 bs h i"
proof -
  note parent = sib [unfolded sibling_def, THEN conjunct1] sib [unfolded sibling_def, THEN conjunct2, THEN conjunct1]
  note other = sib [unfolded sibling_def, THEN conjunct2, THEN conjunct2]
  have h: "h = change_entries {d} ((fs_visible g)(tmp := None, final_path \<mapsto> i)) g"
    using rename staged(1) by (auto simp: rename_file_def parents_def parent staging_def split: if_splits)
  have new: "new_file fs0 bs h i" using staged by (simp add: new_file_def staging_def h change_entries_def)
  have "final_inv d final_path bs fs0 h"
    using new by (intro inv_extend [OF inv wf parent(1)]) (auto simp: h change_entries_def new_file_def)
  then show ?thesis using new by (simp add: h change_entries_def)
qed

lemma inv_unlink:
  assumes sib: "sibling d final_path tmp" and wf: "fs_wf fs0" and inv: "final_inv d final_path bs fs0 g" and unlink: "unlink_file tmp g = Inr (h, ())"
  shows "final_inv d final_path bs fs0 h"
proof -
  note parent = sib [unfolded sibling_def, THEN conjunct1] sib [unfolded sibling_def, THEN conjunct2, THEN conjunct1]
  note other = sib [unfolded sibling_def, THEN conjunct2, THEN conjunct2]
  have h: "h = change_entries {d} ((fs_visible g)(tmp := None)) g"
    using unlink by (auto simp: unlink_file_def parents_def parent split: if_splits)
  then show ?thesis using other by (intro inv_extend [OF inv wf parent(1)]) (auto simp: change_entries_def new_file_def)
qed

lemma inv_fsync_directory:
  assumes sib: "sibling d final_path tmp" and wf: "fs_wf fs0" and inv: "final_inv d final_path bs fs0 g" and sync: "fsync_directory d g = Inr (h, ())"
  shows "final_inv d final_path bs fs0 h"
  using sync sib by (intro inv_extend [OF inv wf]) (auto simp: fsync_directory_def new_file_def sibling_def)

lemma published:
  assumes "parent_path final_path = Some d" and v: "fs_visible g final_path = Some i" and new: "new_file fs0 bs g i" and "fsync_directory d g = Inr (h, ())"
  shows "read_now h final_path = Some bs" "after_crash h final_path found \<longleftrightarrow> found = Some bs"
proof -
  have h: "h = g\<lparr>fs_versions := (fs_versions g)(d := [fs_visible g])\<rparr>" using assms(4) by (simp add: fsync_directory_def)
  show "read_now h final_path = Some bs" using v new by (simp add: h read_now_def new_file_def)
  show "after_crash h final_path found \<longleftrightarrow> found = Some bs"
    using v new by (cases found) (simp_all add: h after_crash_def assms(1) new_file_def)
qed

section \<open>The backend meets the contract\<close>

definition env_inv :: "path \<Rightarrow> path \<Rightarrow> bytes \<Rightarrow> fs \<Rightarrow> env \<Rightarrow> bool" where
  "env_inv d final_path bs fs0 e \<longleftrightarrow> final_inv d final_path bs fs0 (ev_fs e) \<and> list_all (final_inv d final_path bs fs0) (ev_seen e)"

lemma next_outcome_fs [simp]:
  "next_outcome e = (oc, e') \<Longrightarrow> ev_fs e' = ev_fs e" "next_outcome e = (oc, e') \<Longrightarrow> ev_seen e' = ev_seen e"
  by (auto simp: next_outcome_def split: list.splits)

lemma syscall_cases:
  assumes "syscall call e = (r, e')"
  obtains (failure) msg where "r = Err (Io msg)" and "ev_fs e' = ev_fs e" and "ev_seen e' = ev_seen e"
    | (success) x g where "r = Ok x" and "call (ev_fs e) = Inr (g, x)" and "ev_fs e' = g" and "ev_seen e' = ev_seen e @ [g]"
  using assms by (auto simp: syscall_def set_fs_def split: prod.splits outcome.splits sum.splits)

text \<open>What a callback may do with the handle it is given: write to that file, and leave the given contents if it succeeds.\<close>

definition writes_only :: "inode \<Rightarrow> bytes \<Rightarrow> (env \<Rightarrow> unit result \<times> env) \<Rightarrow> bool" where
  "writes_only i bs act \<longleftrightarrow> (\<forall>e r e'. act e = (r, e') \<longrightarrow> r \<noteq> Panic \<and> touches_only i (ev_fs e) (ev_fs e')
     \<and> (\<exists>gs. ev_seen e' = ev_seen e @ gs \<and> list_all (touches_only i (ev_fs e)) gs)
     \<and> (r = Ok () \<longrightarrow> fs_data (ev_fs e) i = [] \<longrightarrow> fs_data (ev_fs e') i = bs))"

lemma write_all_loop_writes:
  "write_all_loop i bs script e = (r, e') \<Longrightarrow> r \<noteq> Panic \<and> touches_only i (ev_fs e) (ev_fs e')
     \<and> (\<exists>gs. ev_seen e' = ev_seen e @ gs \<and> list_all (touches_only i (ev_fs e)) gs)
     \<and> (r = Ok () \<longrightarrow> fs_data (ev_fs e') i = fs_data (ev_fs e) i @ bs)"
proof (induction i bs script e rule: write_all_loop.induct)
  case (7 i b bs n script e)
  let ?e = "set_fs (append_data i (take (Suc n) (b # bs)) (ev_fs e)) e"
  have fs: "ev_fs ?e = append_data i (take (Suc n) (b # bs)) (ev_fs e)" "ev_seen ?e = ev_seen e @ [ev_fs ?e]" by (simp_all add: set_fs_def)
  from 7 have IH: "r \<noteq> Panic \<and> touches_only i (ev_fs ?e) (ev_fs e') \<and> (\<exists>gs. ev_seen e' = ev_seen ?e @ gs \<and> list_all (touches_only i (ev_fs ?e)) gs)
     \<and> (r = Ok () \<longrightarrow> fs_data (ev_fs e') i = fs_data (ev_fs ?e) i @ drop (Suc n) (b # bs))" by simp
  have first: "touches_only i (ev_fs e) (ev_fs ?e)" by (simp add: set_fs_def)
  from IH obtain gs where gs: "ev_seen e' = ev_seen ?e @ gs" "list_all (touches_only i (ev_fs ?e)) gs" by blast
  have "list_all (touches_only i (ev_fs e)) (ev_fs ?e # gs)"
    using gs(2) first by (auto simp: list_all_iff intro: touches_only_trans)
  moreover have "ev_seen e' = ev_seen e @ ev_fs ?e # gs" using gs(1) fs(2) by simp
  ultimately have "\<exists>gs. ev_seen e' = ev_seen e @ gs \<and> list_all (touches_only i (ev_fs e)) gs" by blast
  moreover have "fs_data (ev_fs ?e) i @ drop (Suc n) (b # bs) = fs_data (ev_fs e) i @ b # bs"
    by (simp add: set_fs_def append_data_def)
  ultimately show ?case using IH first touches_only_trans by metis
qed (auto simp: set_fs_def append_data_def touches_only_def)

lemma write_file_data_writes [simp]: "writes_only i bs (write_file_data i bs)"
  using write_all_loop_writes by (fastforce simp: writes_only_def write_file_data_def)

lemma bind_act_cases:
  assumes "bind_act m k s = (r, s')"
  obtains (fail) er where "m s = (Err er, s')" and "r = Err er"
    | (panic) "m s = (Panic, s')" and "r = Panic"
    | (step) x s1 where "m s = (Ok x, s1)" and "k x s1 = (r, s')"
  using assms by (auto simp: bind_act_def split: prod.splits result.splits)

definition Fresh :: "path \<Rightarrow> path \<Rightarrow> path \<Rightarrow> bytes \<Rightarrow> fs \<Rightarrow> env \<Rightarrow> bool" where
  "Fresh d final_path tmp bs fs0 e \<longleftrightarrow> sibling d final_path tmp \<and> fs_wf fs0 \<and> ev_fs e = fs0 \<and> ev_seen e = []"

definition Safe :: "path \<Rightarrow> path \<Rightarrow> path \<Rightarrow> bytes \<Rightarrow> fs \<Rightarrow> env \<Rightarrow> bool" where
  "Safe d final_path tmp bs fs0 e \<longleftrightarrow> sibling d final_path tmp \<and> fs_wf fs0 \<and> env_inv d final_path bs fs0 e"

definition Staged :: "path \<Rightarrow> path \<Rightarrow> path \<Rightarrow> bytes \<Rightarrow> fs \<Rightarrow> env \<Rightarrow> bool" where
  "Staged d final_path tmp bs fs0 e \<longleftrightarrow> Safe d final_path tmp bs fs0 e
     \<and> (\<exists>i. staging d final_path tmp fs0 (ev_fs e) i \<and> fs_data (ev_fs e) i = bs \<and> i \<in> fs_synced (ev_fs e))"

definition Renamed :: "path \<Rightarrow> path \<Rightarrow> path \<Rightarrow> bytes \<Rightarrow> fs \<Rightarrow> env \<Rightarrow> bool" where
  "Renamed d final_path tmp bs fs0 e \<longleftrightarrow> Safe d final_path tmp bs fs0 e
     \<and> (\<exists>i. fs_visible (ev_fs e) final_path = Some i \<and> new_file fs0 bs (ev_fs e) i)"

definition Published :: "path \<Rightarrow> bytes \<Rightarrow> env \<Rightarrow> bool" where
  "Published final_path bs e \<longleftrightarrow> read_now (ev_fs e) final_path = Some bs
     \<and> (\<forall>found. after_crash (ev_fs e) final_path found \<longleftrightarrow> found = Some bs)"

lemma env_inv_step:
  assumes "env_inv d final_path bs fs0 e" "final_inv d final_path bs fs0 (ev_fs e')" "ev_seen e' = ev_seen e @ gs" "list_all (final_inv d final_path bs fs0) gs"
  shows "env_inv d final_path bs fs0 e'"
  using assms by (simp add: env_inv_def)

lemma stage_create:
  assumes "Fresh d final_path tmp bs fs0 e" and "syscall (create_new tmp) e = (r, e')"
  shows "r \<noteq> Panic \<and> Safe d final_path tmp bs fs0 e'
     \<and> (\<forall>i. r = Ok i \<longrightarrow> staging d final_path tmp fs0 (ev_fs e') i \<and> fs_data (ev_fs e') i = [])"
  using assms(2)
proof (cases rule: syscall_cases)
  case (failure msg)
  then show ?thesis using assms(1) by (auto simp: Fresh_def Safe_def env_inv_def final_inv_refl)
next
  case (success i g)
  from assms(1) have f: "sibling d final_path tmp" "fs_wf fs0" "ev_fs e = fs0" "ev_seen e = []" by (simp_all add: Fresh_def)
  have "final_inv d final_path bs fs0 g \<and> staging d final_path tmp fs0 g i \<and> fs_data g i = []"
    using inv_create [OF f(1,2) final_inv_refl [OF f(2)]] success(2) f(3) by simp
  then show ?thesis using success f by (simp add: Safe_def env_inv_def)
qed

lemma stage_write:
  assumes "Safe d final_path tmp bs fs0 e" and st: "staging d final_path tmp fs0 (ev_fs e) i" and "fs_data (ev_fs e) i = []"
    and "writes_only i bs act" and "act e = (r, e')"
  shows "r \<noteq> Panic \<and> Safe d final_path tmp bs fs0 e' \<and> staging d final_path tmp fs0 (ev_fs e') i \<and> (r = Ok () \<longrightarrow> fs_data (ev_fs e') i = bs)"
proof -
  from assms(3-5) obtain gs where w: "r \<noteq> Panic" "touches_only i (ev_fs e) (ev_fs e')" "ev_seen e' = ev_seen e @ gs"
      "list_all (touches_only i (ev_fs e)) gs" "r = Ok () \<longrightarrow> fs_data (ev_fs e') i = bs"
    unfolding writes_only_def by blast
  note touch = staging_touch [OF st]
  have inv: "final_inv d final_path bs fs0 (ev_fs e)" and seen: "env_inv d final_path bs fs0 e" using assms(1) by (simp_all add: Safe_def env_inv_def)
  have "list_all (final_inv d final_path bs fs0) gs" using w(4) touch(2) [OF _ inv] by (simp add: list_all_iff)
  then have "env_inv d final_path bs fs0 e'" using seen touch(2) [OF w(2) inv] w(3) by (simp add: env_inv_def)
  then show ?thesis using assms(1) w(1,5) touch(1) [OF w(2)] by (simp add: Safe_def)
qed

lemma stage_fsync:
  assumes safe: "Safe d final_path tmp bs fs0 e" and st: "staging d final_path tmp fs0 (ev_fs e) i" and data: "fs_data (ev_fs e) i = bs"
    and call: "syscall (fsync_file i) e = (r, e')"
  shows "r \<noteq> Panic \<and> Safe d final_path tmp bs fs0 e' \<and> (r = Ok () \<longrightarrow> Staged d final_path tmp bs fs0 e')"
  using call
proof (cases rule: syscall_cases)
  case (failure msg)
  then show ?thesis using safe by (simp add: Safe_def env_inv_def)
next
  case (success x g)
  then have g: "g = (ev_fs e)\<lparr>fs_synced := insert i (fs_synced (ev_fs e))\<rparr>" by (simp add: fsync_file_def)
  then have t: "touches_only i (ev_fs e) g" by (simp add: touches_only_def)
  have "final_inv d final_path bs fs0 g" using safe staging_touch(2) [OF st t] by (simp add: Safe_def env_inv_def)
  then show ?thesis using success safe staging_touch(1) [OF st t] data g by (auto simp: Staged_def Safe_def env_inv_def)
qed

lemma stage_with_handle:
  assumes "Fresh d final_path tmp bs fs0 e" and w: "\<And>i. writes_only i bs (write i)"
    and run: "bind_act (syscall (create_new tmp)) (\<lambda>file. bind_act (write file) (\<lambda>_. syscall (fsync_file file))) e = (r, e')"
  shows "r \<noteq> Panic \<and> Safe d final_path tmp bs fs0 e' \<and> (r = Ok () \<longrightarrow> Staged d final_path tmp bs fs0 e')"
  using run
proof (cases rule: bind_act_cases)
  case (step i e1)
  have s1: "Safe d final_path tmp bs fs0 e1" "staging d final_path tmp fs0 (ev_fs e1) i" "fs_data (ev_fs e1) i = []"
    using stage_create [OF assms(1) step(1)] by simp_all
  from step(2) show ?thesis
  proof (cases rule: bind_act_cases)
    case inner: (step x e2)
    have "Safe d final_path tmp bs fs0 e2" "staging d final_path tmp fs0 (ev_fs e2) i" "fs_data (ev_fs e2) i = bs"
      using stage_write [OF s1 w inner(1)] by simp_all
    then show ?thesis by (rule stage_fsync [OF _ _ _ inner(2)])
  next
    case (fail er)
    then show ?thesis using stage_write [OF s1 w fail(1)] by simp
  next
    case panic
    then show ?thesis using stage_write [OF s1 w panic(1)] by simp
  qed
next
  case (fail er)
  then show ?thesis using stage_create [OF assms(1) fail(1)] by simp
next
  case panic
  then show ?thesis using stage_create [OF assms(1) panic(1)] by simp
qed

lemma stage_by_path:
  assumes "Fresh d final_path tmp bs fs0 e" and run: "bind_act (std_write_new_file tmp bs) (\<lambda>_. std_sync_file tmp) e = (r, e')"
  shows "r \<noteq> Panic \<and> Safe d final_path tmp bs fs0 e' \<and> (r = Ok () \<longrightarrow> Staged d final_path tmp bs fs0 e')"
  using run unfolding std_write_new_file_def bind_act_assoc
proof (cases rule: bind_act_cases)
  case (step i e1)
  have s1: "Safe d final_path tmp bs fs0 e1" "staging d final_path tmp fs0 (ev_fs e1) i" "fs_data (ev_fs e1) i = []"
    using stage_create [OF assms(1) step(1)] by simp_all
  from step(2) show ?thesis
  proof (cases rule: bind_act_cases)
    case inner: (step x e2)
    have s2: "Safe d final_path tmp bs fs0 e2" "staging d final_path tmp fs0 (ev_fs e2) i" "fs_data (ev_fs e2) i = bs"
      using stage_write [OF s1 write_file_data_writes inner(1)] by simp_all
    from inner(2) show ?thesis unfolding std_sync_file_def
    proof (cases rule: bind_act_cases)
      case open': (step j e3)
      from open'(1) have "j = i \<and> ev_fs e3 = ev_fs e2 \<and> Safe d final_path tmp bs fs0 e3"
        using s2 by (cases rule: syscall_cases) (auto simp: open_existing_def staging_def Safe_def env_inv_def)
      then show ?thesis using stage_fsync [OF _ _ _ open'(2), of d final_path tmp bs fs0] s2 by simp
    next
      case (fail er)
      from fail(1) show ?thesis using fail(2) s2(1) by (cases rule: syscall_cases) (auto simp: Safe_def env_inv_def)
    next
      case panic
      from panic(1) show ?thesis by (cases rule: syscall_cases) auto
    qed
  next
    case (fail er)
    then show ?thesis using stage_write [OF s1 write_file_data_writes fail(1)] by simp
  next
    case panic
    then show ?thesis using stage_write [OF s1 write_file_data_writes panic(1)] by simp
  qed
next
  case (fail er)
  then show ?thesis using stage_create [OF assms(1) fail(1)] by simp
next
  case panic
  then show ?thesis using stage_create [OF assms(1) panic(1)] by simp
qed

lemma rename_safe:
  assumes "Staged d final_path tmp bs fs0 e" and "rename_durable tmp final_path e = (r, e')"
  shows "r \<noteq> Panic \<and> Safe d final_path tmp bs fs0 e' \<and> (r = Ok () \<longrightarrow> Renamed d final_path tmp bs fs0 e')"
  using assms(2) unfolding rename_durable_def
proof (cases rule: syscall_cases)
  case (failure msg)
  then show ?thesis using assms(1) by (simp add: Staged_def Safe_def env_inv_def)
next
  case (success x g)
  from assms(1) obtain i where i: "staging d final_path tmp fs0 (ev_fs e) i" "fs_data (ev_fs e) i = bs" "i \<in> fs_synced (ev_fs e)"
    and safe: "sibling d final_path tmp" "fs_wf fs0" "env_inv d final_path bs fs0 e" by (auto simp: Staged_def Safe_def)
  have "final_inv d final_path bs fs0 g \<and> fs_visible g final_path = Some i \<and> new_file fs0 bs g i"
    using safe i success(2) by (intro inv_rename [where g = "ev_fs e"]) (simp_all add: env_inv_def)
  then show ?thesis using success safe by (auto simp: Renamed_def Safe_def env_inv_def)
qed

lemma sync_safe:
  assumes "Renamed d final_path tmp bs fs0 e" and "std_sync_parent_dir final_path e = (r, e')"
  shows "r \<noteq> Panic \<and> Safe d final_path tmp bs fs0 e' \<and> (r = Ok () \<longrightarrow> Published final_path bs e')"
proof -
  from assms(1) obtain i where i: "fs_visible (ev_fs e) final_path = Some i" "new_file fs0 bs (ev_fs e) i"
    and safe: "sibling d final_path tmp" "fs_wf fs0" "env_inv d final_path bs fs0 e" by (auto simp: Renamed_def Safe_def)
  have d: "parent_path final_path = Some d" using safe(1) by (simp add: sibling_def)
  from assms(2) have "bind_act (syscall (open_directory d)) (\<lambda>_. syscall (fsync_directory d)) e = (r, e')"
    by (simp add: std_sync_parent_dir_def sync_parent_path_def open_parent_dir_for_sync_def d)
  then show ?thesis
  proof (cases rule: bind_act_cases)
    case (step u e1)
    from step(1) have e1: "ev_fs e1 = ev_fs e \<and> env_inv d final_path bs fs0 e1"
      using safe by (cases rule: syscall_cases) (auto simp: open_directory_def env_inv_def split: if_splits)
    from step(2) show ?thesis
    proof (cases rule: syscall_cases)
      case (failure msg)
      then show ?thesis using e1 safe by (simp add: Safe_def env_inv_def)
    next
      case (success u' g)
      have "final_inv d final_path bs fs0 g"
        using inv_fsync_directory [OF safe(1,2), of bs "ev_fs e" g] safe(3) e1 success(2) by (simp add: env_inv_def)
      moreover have "Published final_path bs e'"
        using published [OF d i] success(2,3) e1 by (simp add: Published_def)
      ultimately show ?thesis using success e1 safe by (simp add: Safe_def env_inv_def)
    qed
  next
    case (fail er)
    from fail(1) show ?thesis using fail(2) safe by (cases rule: syscall_cases) (auto simp: Safe_def env_inv_def)
  next
    case panic
    from panic(1) show ?thesis by (cases rule: syscall_cases) auto
  qed
qed

lemma remove_safe:
  assumes "Safe d final_path tmp bs fs0 e" and "std_remove_file tmp e = (r, e')"
  shows "Safe d final_path tmp bs fs0 e'"
  using assms(2) unfolding std_remove_file_def
proof (cases rule: syscall_cases)
  case (failure msg)
  then show ?thesis using assms(1) by (simp add: Safe_def env_inv_def)
next
  case (success x g)
  from assms(1) have safe: "sibling d final_path tmp" "fs_wf fs0" "env_inv d final_path bs fs0 e" by (simp_all add: Safe_def)
  have "final_inv d final_path bs fs0 g"
    using inv_unlink [OF safe(1,2), of bs "ev_fs e" g] success(2) safe(3) by (simp add: env_inv_def)
  then show ?thesis using success safe by (simp add: Safe_def env_inv_def)
qed

interpretation by_path: replace_protocol "bind_act (std_write_new_file tmp bs) (\<lambda>_. std_sync_file tmp)" "rename_durable tmp final_path"
    "std_sync_parent_dir final_path" "std_remove_file tmp" "Fresh d final_path tmp bs fs0" "Staged d final_path tmp bs fs0"
    "Renamed d final_path tmp bs fs0" "Published final_path bs" "Safe d final_path tmp bs fs0" for d final_path tmp bs fs0
proof
  fix s r s'
  show "Fresh d final_path tmp bs fs0 s \<Longrightarrow> bind_act (std_write_new_file tmp bs) (\<lambda>_. std_sync_file tmp) s = (r, s') \<Longrightarrow>
      r \<noteq> Panic \<and> Safe d final_path tmp bs fs0 s' \<and> (r = Ok () \<longrightarrow> Staged d final_path tmp bs fs0 s')" by (rule stage_by_path)
  show "Staged d final_path tmp bs fs0 s \<Longrightarrow> rename_durable tmp final_path s = (r, s') \<Longrightarrow>
      r \<noteq> Panic \<and> Safe d final_path tmp bs fs0 s' \<and> (r = Ok () \<longrightarrow> Renamed d final_path tmp bs fs0 s')" by (rule rename_safe)
  show "Renamed d final_path tmp bs fs0 s \<Longrightarrow> std_sync_parent_dir final_path s = (r, s') \<Longrightarrow>
      r \<noteq> Panic \<and> Safe d final_path tmp bs fs0 s' \<and> (r = Ok () \<longrightarrow> Published final_path bs s')" by (rule sync_safe)
  show "Safe d final_path tmp bs fs0 s \<Longrightarrow> std_remove_file tmp s = (r, s') \<Longrightarrow> Safe d final_path tmp bs fs0 s'" by (rule remove_safe)
qed

section \<open>Publishing\<close>

lemma durable_replace_steps:
  "durable_replace pid nanos counter final_path bs =
     (let tmp = fst (temp_path_for pid nanos counter final_path) in
      or_remove (std_remove_file tmp) tmp
        (bind_act (bind_act (std_write_new_file tmp bs) (\<lambda>_. std_sync_file tmp)) (\<lambda>_.
         bind_act (rename_durable tmp final_path) (\<lambda>_. std_sync_parent_dir final_path))))"
  by (simp add: durable_replace_def durable_replace_with_backend_def StdDurableReplaceBackend_def bind_act_assoc)

lemma temp_sibling:
  assumes "p_components final_path \<noteq> []"
  obtains d where "sibling d final_path (fst (temp_path_for pid nanos counter final_path))"
proof -
  obtain d where "parent_path final_path = Some d" using assms by (auto simp: parent_path_def)
  with assms have "sibling d final_path (fst (temp_path_for pid nanos counter final_path))"
    by (simp add: sibling_def temp_path_for_def)
  then show thesis by (rule that)
qed

lemma safe_states:
  "Safe d final_path tmp bs fs0 e \<Longrightarrow> g \<in> insert (ev_fs e) (set (ev_seen e)) \<Longrightarrow> final_safe final_path bs fs0 g"
  using final_inv_safe by (auto simp: Safe_def env_inv_def list_all_iff sibling_def)

text \<open>The same outline with the open handle: the callback may only write the new file.\<close>

interpretation by_handle: replace_protocol "bind_act (syscall (create_new tmp)) (\<lambda>file. bind_act (wr file) (\<lambda>_. syscall (fsync_file file)))"
    "rename_durable tmp final_path" "std_sync_parent_dir final_path" "std_remove_file tmp"
    "\<lambda>e. Fresh d final_path tmp bs fs0 e \<and> (\<forall>i. writes_only i bs (wr i))" "Staged d final_path tmp bs fs0"
    "Renamed d final_path tmp bs fs0" "Published final_path bs" "Safe d final_path tmp bs fs0" for d final_path tmp bs fs0 wr
proof
  fix s r s'
  show "Fresh d final_path tmp bs fs0 s \<and> (\<forall>i. writes_only i bs (wr i)) \<Longrightarrow>
      bind_act (syscall (create_new tmp)) (\<lambda>file. bind_act (wr file) (\<lambda>_. syscall (fsync_file file))) s = (r, s') \<Longrightarrow>
      r \<noteq> Panic \<and> Safe d final_path tmp bs fs0 s' \<and> (r = Ok () \<longrightarrow> Staged d final_path tmp bs fs0 s')"
    using stage_with_handle by blast
qed (fact rename_safe sync_safe remove_safe)+

definition outcome_safe :: "path \<Rightarrow> bytes \<Rightarrow> fs \<Rightarrow> path result \<Rightarrow> env \<Rightarrow> bool" where
  "outcome_safe final_path bs fs0 r e \<longleftrightarrow> list_all (final_safe final_path bs fs0) (ev_seen e) \<and> final_safe final_path bs fs0 (ev_fs e)
     \<and> (is_ok r \<longrightarrow> Published final_path bs e) \<and> r \<noteq> Panic"

lemma outcome_safeI:
  assumes "(r = Ok tmp \<and> Published final_path bs e \<or> (\<exists>er. r = Err er)) \<and> Safe d final_path tmp bs fs0 e"
  shows "outcome_safe final_path bs fs0 r e"
proof -
  have "final_safe final_path bs fs0 g" if "g \<in> insert (ev_fs e) (set (ev_seen e))" for g
    by (rule safe_states [OF conjunct2 [OF assms] that])
  then show ?thesis using conjunct1 [OF assms] by (auto simp: outcome_safe_def list_all_iff)
qed

lemma replace_outcome:
  assumes "fs_wf (ev_fs e)" and "ev_seen e = []" and "p_components final_path \<noteq> []"
    and "durable_replace pid nanos counter final_path bs e = (r, e')"
  shows "outcome_safe final_path bs (ev_fs e) r e'"
proof -
  define tmp where "tmp = fst (temp_path_for pid nanos counter final_path)"
  obtain d where d: "sibling d final_path tmp" using temp_sibling [OF assms(3)] unfolding tmp_def .
  then have fresh: "Fresh d final_path tmp bs (ev_fs e) e" using assms(1,2) by (simp add: Fresh_def)
  have run: "or_remove (std_remove_file tmp) tmp (bind_act (bind_act (std_write_new_file tmp bs) (\<lambda>_. std_sync_file tmp)) (\<lambda>_.
         bind_act (rename_durable tmp final_path) (\<lambda>_. std_sync_parent_dir final_path))) e = (r, e')"
    using assms(4) unfolding durable_replace_steps Let_def tmp_def .
  show ?thesis by (rule outcome_safeI [OF by_path.published_or_safe [OF fresh run]])
qed

text \<open>A directory with one published file, a device that fills up after one byte, and one that works with short writes.\<close>

definition sample_final :: path where
  "sample_final = \<lparr>p_absolute = True, p_components = [''data'', ''a'']\<rparr>"

definition sample_dir :: path where
  "sample_dir = \<lparr>p_absolute = True, p_components = [''data'']\<rparr>"

definition sample_fs :: fs where
  "sample_fs = \<lparr>fs_dirs = {sample_dir}, fs_visible = [sample_final \<mapsto> 0], fs_versions = (\<lambda>_. [[sample_final \<mapsto> 0]]),
     fs_data = (\<lambda>_. [1]), fs_synced = {0}, fs_next = 1\<rparr>"

definition sample_env :: "outcome list \<Rightarrow> env" where
  "sample_env script = \<lparr>ev_fs = sample_fs, ev_seen = [], ev_script = script\<rparr>"

definition device_full :: "outcome list" where
  "device_full = [Completes, Writes 1, Fails ''No space left on device (os error 28)'']"

definition short_writes :: "outcome list" where
  "short_writes = [Completes, Writes 1, Interrupted, Writes 1]"

lemma sample_fs_wf [simp]: "fs_wf sample_fs"
  by (auto simp: fs_wf_def sample_fs_def)

lemma sample_env_simps [simp]: "ev_fs (sample_env script) = sample_fs" "ev_seen (sample_env script) = []" "ev_script (sample_env script) = script"
  by (simp_all add: sample_env_def)

lemma sample_final_parent [simp]: "p_components sample_final \<noteq> []" "parent_path sample_final = Some sample_dir"
  by (simp_all add: sample_final_def sample_dir_def parent_path_def)

text \<open>C4: Whatever system calls fail, and whenever the machine stops: the final path shows the old contents or the
  complete new ones, to running readers and after a power failure; and when the function reports success
  only the new contents can be found.\<close>

theorem durable_replace_safe:
  assumes "fs_wf (ev_fs e)" and "ev_seen e = []" and "p_components final_path \<noteq> []"
    and "durable_replace pid nanos counter final_path bs e = (r, e')"
  shows "outcome_safe final_path bs (ev_fs e) r e'"
  using assms by (rule replace_outcome)

lemma durable_replace_safe_witness:
  "\<exists>r e'. durable_replace 1 0 0 sample_final [7, 8] (sample_env device_full) = (r, e')
     \<and> outcome_safe sample_final [7, 8] sample_fs r e' \<and> \<not> is_ok r"
proof -
  obtain r e' where run: "durable_replace 1 0 0 sample_final [7, 8] (sample_env device_full) = (r, e')" by force
  then have "\<not> is_ok r"
    by (auto simp: durable_replace_steps Let_def temp_path_for_def or_remove_def bind_act_def std_write_new_file_def write_file_data_def
        syscall_def next_outcome_def device_full_def create_new_def directory_exists_def sample_fs_def sample_dir_def empty_path_def set_fs_def
        split: prod.splits result.splits if_splits)
  with run show ?thesis using durable_replace_safe [OF _ _ _ run] by auto
qed

text \<open>The streaming variant gives the same guarantee for the contents its callback writes.\<close>

theorem durable_replace_with_writer_safe:
  assumes "fs_wf (ev_fs e)" and "ev_seen e = []" and "p_components final_path \<noteq> []" and "\<forall>i. writes_only i bs (write i)"
    and "durable_replace_with_writer pid nanos counter final_path write e = (r, e')"
  shows "outcome_safe final_path bs (ev_fs e) r e'"
proof -
  define tmp where "tmp = fst (temp_path_for pid nanos counter final_path)"
  obtain d where d: "sibling d final_path tmp" using temp_sibling [OF assms(3)] unfolding tmp_def .
  then have fresh: "Fresh d final_path tmp bs (ev_fs e) e \<and> (\<forall>i. writes_only i bs (write i))" using assms(1,2,4) by (simp add: Fresh_def)
  have run: "or_remove (std_remove_file tmp) tmp (bind_act (bind_act (syscall (create_new tmp)) (\<lambda>file. bind_act (write file) (\<lambda>_.
         syscall (fsync_file file)))) (\<lambda>_. bind_act (rename_durable tmp final_path) (\<lambda>_. std_sync_parent_dir final_path))) e = (r, e')"
    using assms(5) unfolding durable_replace_with_writer_def Let_def tmp_def by (simp add: bind_act_assoc)
  show ?thesis by (rule outcome_safeI [OF by_handle.published_or_safe [OF fresh run]])
qed

lemma durable_replace_with_writer_safe_witness:
  "\<exists>r e'. durable_replace_with_writer 1 0 0 sample_final (\<lambda>i. write_file_data i [7, 8]) (sample_env device_full) = (r, e')
     \<and> outcome_safe sample_final [7, 8] sample_fs r e'"
proof -
  obtain r e' where run: "durable_replace_with_writer 1 0 0 sample_final (\<lambda>i. write_file_data i [7, 8]) (sample_env device_full) = (r, e')" by force
  show ?thesis using run durable_replace_with_writer_safe [OF _ _ _ _ run, of "[7, 8]"] by auto
qed

section \<open>Progress\<close>

text \<open>An environment in which no system call fails; writes may still be short or interrupted.\<close>

definition progressing :: "env \<Rightarrow> bool" where
  "progressing e \<longleftrightarrow> list_all (\<lambda>oc. case oc of Fails _ \<Rightarrow> False | Writes n \<Rightarrow> 0 < n | _ \<Rightarrow> True) (ev_script e)"

lemma progressing_outcome:
  assumes "progressing e" and "next_outcome e = (oc, e')"
  shows "progressing e'" "oc \<noteq> Fails msg"
  using assms by (cases "ev_script e"; auto simp: next_outcome_def progressing_def)+

lemma syscall_progress:
  assumes "progressing e" and "call (ev_fs e) = Inr (g, x)"
  shows "\<exists>e'. syscall call e = (Ok x, e') \<and> ev_fs e' = g \<and> progressing e'"
proof -
  obtain oc e1 where o: "next_outcome e = (oc, e1)" by force
  note p = progressing_outcome [OF assms(1) o]
  have "syscall call e = (Ok x, set_fs g e1)"
    using o p(2) assms(2) next_outcome_fs(1) [OF o] by (cases oc) (auto simp: syscall_def)
  then show ?thesis using p(1) by (simp add: set_fs_def progressing_def)
qed

lemma syscall_refused:
  assumes "call (ev_fs e) = Inl msg"
  shows "\<exists>m e'. syscall call e = (Err (Io m), e') \<and> ev_fs e' = ev_fs e \<and> (progressing e \<longrightarrow> m = msg \<and> progressing e')"
proof -
  obtain oc e1 where o: "next_outcome e = (oc, e1)" by force
  then show ?thesis using assms next_outcome_fs(1) [OF o] progressing_outcome [OF _ o]
    by (cases oc) (auto simp: syscall_def)
qed

lemma write_all_progress:
  "list_all (\<lambda>oc. case oc of Fails _ \<Rightarrow> False | Writes n \<Rightarrow> 0 < n | _ \<Rightarrow> True) script \<Longrightarrow>
     \<exists>e'. write_all_loop i bs script e = (Ok (), e') \<and> progressing e'"
  by (induction i bs script e rule: write_all_loop.induct) (auto simp: progressing_def set_fs_def)

text \<open>Up to the rename everything succeeds when the directory exists and the temporary name is free.\<close>

lemma bind_act_Ok: "m s = (Ok x, s1) \<Longrightarrow> bind_act m k s = k x s1"
  by (simp add: bind_act_def)

lemma run_until_rename:
  assumes prog: "progressing e" and dir: "directory_exists (ev_fs e) tmp" "directory_exists (ev_fs e) final_path" "final_path \<notin> fs_dirs (ev_fs e)"
    and free: "fs_visible (ev_fs e) tmp = None" "tmp \<notin> fs_dirs (ev_fs e)"
  shows "\<exists>e'. bind_act (bind_act (std_write_new_file tmp bs) (\<lambda>_. std_sync_file tmp)) (\<lambda>_. rename_durable tmp final_path) e = (Ok (), e')
     \<and> progressing e' \<and> fs_visible (ev_fs e') = (fs_visible (ev_fs e))(tmp := None, final_path \<mapsto> fs_next (ev_fs e))
     \<and> fs_data (ev_fs e') (fs_next (ev_fs e)) = bs \<and> fs_dirs (ev_fs e') = fs_dirs (ev_fs e)"
proof -
  let ?i = "fs_next (ev_fs e)"
  obtain g1 where c: "create_new tmp (ev_fs e) = Inr (g1, ?i)" and g1: "fs_visible g1 = (fs_visible (ev_fs e))(tmp \<mapsto> ?i)"
      "fs_dirs g1 = fs_dirs (ev_fs e)" "fs_data g1 ?i = []"
    using dir free by (auto simp: create_new_def Let_def change_entries_def)
  obtain e1 where e1: "syscall (create_new tmp) e = (Ok ?i, e1)" "ev_fs e1 = g1" "progressing e1"
    using syscall_progress [where call = "create_new tmp", OF prog c] by blast
  obtain e2 where e2: "write_file_data ?i bs e1 = (Ok (), e2)" "progressing e2"
    using write_all_progress e1(3) unfolding write_file_data_def progressing_def by blast
  have "touches_only ?i g1 (ev_fs e2)" "fs_data (ev_fs e2) ?i = bs"
    using write_file_data_writes e2(1) e1(2) g1(3) unfolding writes_only_def by blast+
  then have g2: "fs_visible (ev_fs e2) = (fs_visible (ev_fs e))(tmp \<mapsto> ?i)" "fs_dirs (ev_fs e2) = fs_dirs (ev_fs e)" "fs_data (ev_fs e2) ?i = bs"
    using g1 by (simp_all add: touches_only_def)
  have "open_existing tmp (ev_fs e2) = Inr (ev_fs e2, ?i)" using g2 by (simp add: open_existing_def)
  from syscall_progress [where call = "open_existing tmp", OF e2(2) this]
  obtain e3 where e3: "syscall (open_existing tmp) e2 = (Ok ?i, e3)" "ev_fs e3 = ev_fs e2" "progressing e3" by blast
  obtain e4 where e4: "syscall (fsync_file ?i) e3 = (Ok (), e4)" "ev_fs e4 = (ev_fs e3)\<lparr>fs_synced := insert ?i (fs_synced (ev_fs e3))\<rparr>" "progressing e4"
    using syscall_progress [where call = "fsync_file ?i", OF e3(3)] by (auto simp: fsync_file_def)
  have "directory_exists (ev_fs e4) final_path" using dir(2) g2 e4(2) e3(2) by (simp add: directory_exists_def split: option.splits)
  then obtain g5 where r: "rename_file tmp final_path (ev_fs e4) = Inr (g5, ())" and g5: "fs_visible g5 = (fs_visible (ev_fs e))(tmp := None, final_path \<mapsto> ?i)"
      "fs_dirs g5 = fs_dirs (ev_fs e)" "fs_data g5 ?i = bs"
    using dir(3) g2 e4(2) e3(2) by (auto simp: rename_file_def change_entries_def)
  obtain e5 where "rename_durable tmp final_path e4 = (Ok (), e5)" "ev_fs e5 = g5" "progressing e5"
    using syscall_progress [where call = "rename_file tmp final_path", OF e4(3) r] unfolding rename_durable_def by blast
  with g5 show ?thesis
    by (simp add: std_write_new_file_def std_sync_file_def bind_act_assoc bind_act_Ok [where m = "syscall (create_new tmp)", OF e1(1)] bind_act_Ok [where m = "write_file_data ?i bs", OF e2(1)]
        bind_act_Ok [where m = "syscall (open_existing tmp)", OF e3(1)] bind_act_Ok [where m = "syscall (fsync_file ?i)", OF e4(1)])
qed

text \<open>C37: When no call fails, the directory of the final path exists and the temporary name is free, the function
  returns successfully, the new contents are published and the temporary file is gone.\<close>

theorem durable_replace_completes:
  assumes "progressing e" and wf: "fs_wf (ev_fs e)" "ev_seen e = []" and d: "parent_path final_path = Some d" "d \<in> fs_dirs (ev_fs e)" "d \<noteq> empty_path"
    and "final_path \<notin> fs_dirs (ev_fs e)" and tmp: "tmp = fst (temp_path_for pid nanos counter final_path)"
    and "fs_visible (ev_fs e) tmp = None" "tmp \<notin> fs_dirs (ev_fs e)"
  shows "\<exists>e'. durable_replace pid nanos counter final_path bs e = (Ok tmp, e') \<and> Published final_path bs e' \<and> fs_visible (ev_fs e') tmp = None"
proof -
  have nonempty: "p_components final_path \<noteq> []" using d(1) by (auto simp: parent_path_def split: if_splits)
  then have t: "parent_path tmp = Some d" "tmp \<noteq> final_path" using d(1) by (simp_all add: tmp temp_path_for_def)
  have "directory_exists (ev_fs e) tmp" "directory_exists (ev_fs e) final_path" using t d by (simp_all add: directory_exists_def)
  from run_until_rename [OF assms(1) this assms(7,9,10), of bs]
  obtain e5 where e5: "bind_act (bind_act (std_write_new_file tmp bs) (\<lambda>_. std_sync_file tmp)) (\<lambda>_. rename_durable tmp final_path) e = (Ok (), e5)"
      "progressing e5" "fs_visible (ev_fs e5) tmp = None" "fs_dirs (ev_fs e5) = fs_dirs (ev_fs e)"
    using t(2) by auto
  have "open_directory d (ev_fs e5) = Inr (ev_fs e5, ())" using d e5(4) by (simp add: open_directory_def)
  from syscall_progress [where call = "open_directory d", OF e5(2) this]
  obtain e6 where e6: "syscall (open_directory d) e5 = (Ok (), e6)" "ev_fs e6 = ev_fs e5" "progressing e6" by blast
  obtain e7 where e7: "syscall (fsync_directory d) e6 = (Ok (), e7)" "fs_visible (ev_fs e7) = fs_visible (ev_fs e6)"
    using syscall_progress [where call = "fsync_directory d", OF e6(3)] by (auto simp: fsync_directory_def)
  have run: "durable_replace pid nanos counter final_path bs e = (Ok tmp, e7)"
    using bind_act_Ok [where m = "bind_act (bind_act (std_write_new_file tmp bs) (\<lambda>_. std_sync_file tmp)) (\<lambda>_. rename_durable tmp final_path)", OF e5(1), of "\<lambda>_. std_sync_parent_dir final_path"] e6(1) e7(1)
    by (simp add: durable_replace_steps Let_def bind_act_assoc flip: tmp)
       (simp add: or_remove_def std_sync_parent_dir_def d(1) sync_parent_path_def open_parent_dir_for_sync_def bind_act_def)
  with replace_outcome [OF wf nonempty run] e7(2) e6(2) e5(3) show ?thesis by (auto simp: outcome_safe_def)
qed

lemma sample_tmp_free:
  "fst (temp_path_for pid nanos counter sample_final) \<noteq> sample_dir" "fst (temp_path_for pid nanos counter sample_final) \<noteq> sample_final"
  by (simp_all add: temp_path_for_def) (simp add: push_str_def sample_final_def sample_dir_def)

lemma durable_replace_completes_witness:
  "\<exists>e'. durable_replace 1 0 0 sample_final [7, 8] (sample_env short_writes) = (Ok (fst (temp_path_for 1 0 0 sample_final)), e')
     \<and> Published sample_final [7, 8] e'"
proof -
  have "sample_final \<notin> fs_dirs sample_fs" "sample_dir \<in> fs_dirs sample_fs" "sample_dir \<noteq> empty_path"
    by (simp_all add: sample_fs_def sample_final_def sample_dir_def empty_path_def)
  moreover have "fs_visible sample_fs (fst (temp_path_for 1 0 0 sample_final)) = None" "fst (temp_path_for 1 0 0 sample_final) \<notin> fs_dirs sample_fs"
    using sample_tmp_free [of 1 0 0] by (simp_all add: sample_fs_def)
  moreover have "progressing (sample_env short_writes)" by (simp add: progressing_def short_writes_def)
  ultimately show ?thesis
    using durable_replace_completes [of "sample_env short_writes" sample_final sample_dir _ 1 0 0 "[7, 8]", OF _ _ _ _ _ _ _ refl] by auto
qed

text \<open>A final path given as a bare file name has the empty path as its parent, which cannot be opened: the
  function always reports an error, although without failures the new contents are in place.\<close>

theorem bare_name_always_fails:
  assumes "parent_path final_path = Some empty_path" and "durable_replace pid nanos counter final_path bs e = (r, e')"
  shows "\<not> is_ok r \<and> (progressing e \<and> tmp = fst (temp_path_for pid nanos counter final_path) \<and> final_path \<notin> fs_dirs (ev_fs e)
      \<and> fs_visible (ev_fs e) tmp = None \<and> tmp \<notin> fs_dirs (ev_fs e) \<longrightarrow>
      r = Err (Io no_such_file) \<and> read_now (ev_fs e') final_path = Some bs)"
proof (intro conjI impI)
  define t where "t = fst (temp_path_for pid nanos counter final_path)"
  let ?m = "bind_act (bind_act (std_write_new_file t bs) (\<lambda>_. std_sync_file t)) (\<lambda>_. rename_durable t final_path)"
  have run: "durable_replace pid nanos counter final_path bs e =
      or_remove (std_remove_file t) t (bind_act ?m (\<lambda>_. bind_act (syscall (open_directory empty_path)) (\<lambda>_. syscall (fsync_directory empty_path)))) e"
    by (simp add: durable_replace_steps Let_def t_def std_sync_parent_dir_def assms(1) sync_parent_path_def open_parent_dir_for_sync_def bind_act_assoc)
  have refuse: "\<exists>m e'. syscall (open_directory empty_path) e1 = (Err (Io m), e') \<and> ev_fs e' = ev_fs e1
      \<and> (progressing e1 \<longrightarrow> m = no_such_file \<and> progressing e')" for e1
    by (rule syscall_refused) (simp add: open_directory_def)
  show "\<not> is_ok r"
  proof -
    obtain r1 e1 where m: "?m e = (r1, e1)" by force
    obtain m' e2 where "syscall (open_directory empty_path) e1 = (Err (Io m'), e2)" using refuse by blast
    then show ?thesis using assms(2) m unfolding run by (cases r1) (auto simp: or_remove_def bind_act_def)
  qed
  assume a: "progressing e \<and> tmp = fst (temp_path_for pid nanos counter final_path) \<and> final_path \<notin> fs_dirs (ev_fs e)
      \<and> fs_visible (ev_fs e) tmp = None \<and> tmp \<notin> fs_dirs (ev_fs e)"
  then have tmp: "tmp = t" by (simp add: t_def)
  have "p_components final_path \<noteq> []" using assms(1) by (auto simp: parent_path_def split: if_splits)
  then have p: "parent_path t = Some empty_path" "t \<noteq> final_path" using assms(1) by (simp_all add: t_def temp_path_for_def)
  then have "directory_exists (ev_fs e) t" "directory_exists (ev_fs e) final_path" using assms(1) by (simp_all add: directory_exists_def)
  from run_until_rename [OF _ this, of bs] a tmp p(2)
  obtain e5 where e5: "?m e = (Ok (), e5)" "progressing e5" "fs_visible (ev_fs e5) t = None" "read_now (ev_fs e5) final_path = Some bs"
    by (auto simp: read_now_def)
  obtain e6 where e6: "syscall (open_directory empty_path) e5 = (Err (Io no_such_file), e6)" "ev_fs e6 = ev_fs e5"
    using refuse e5(2) by blast
  have "unlink_file t (ev_fs e6) = Inl no_such_file" using e5(3) e6(2) by (simp add: unlink_file_def)
  from syscall_refused [where call = "unlink_file t", OF this]
  obtain m e7 where e7: "syscall (unlink_file t) e6 = (Err (Io m), e7)" "ev_fs e7 = ev_fs e6" by blast
  have "bind_act ?m (\<lambda>_. bind_act (syscall (open_directory empty_path)) (\<lambda>_. syscall (fsync_directory empty_path))) e = (Err (Io no_such_file), e6)"
    by (subst bind_act_Ok [where m = ?m, OF e5(1)]) (simp add: bind_act_def e6(1))
  then have "(r, e') = (Err (Io no_such_file), e7)"
    using assms(2) unfolding run by (simp add: or_remove_def std_remove_file_def e7)
  then show "r = Err (Io no_such_file)" "read_now (ev_fs e') final_path = Some bs" using e7(2) e6(2) e5(4) by simp_all
qed

lemma bare_name_always_fails_witness:
  "\<exists>r e'. durable_replace 1 0 0 \<lparr>p_absolute = False, p_components = [''out'']\<rparr> [7, 8] (sample_env []) = (r, e')
     \<and> r = Err (Io no_such_file) \<and> read_now (ev_fs e') \<lparr>p_absolute = False, p_components = [''out'']\<rparr> = Some [7, 8]"
proof -
  let ?p = "\<lparr>p_absolute = False, p_components = [''out'']\<rparr>"
  obtain r e' where run: "durable_replace 1 0 0 ?p [7, 8] (sample_env []) = (r, e')" by force
  have "parent_path ?p = Some empty_path" by (simp add: parent_path_def empty_path_def)
  moreover have "progressing (sample_env [])" by (simp add: progressing_def)
  moreover have "?p \<notin> fs_dirs sample_fs" "fs_visible sample_fs (fst (temp_path_for 1 0 0 ?p)) = None" "fst (temp_path_for 1 0 0 ?p) \<notin> fs_dirs sample_fs"
    by (simp_all add: sample_fs_def sample_dir_def sample_final_def temp_path_for_def push_str_def)
  ultimately show ?thesis using run bare_name_always_fails [OF _ run] by auto
qed

section \<open>Temporary names\<close>

lemma digit_chars:
  "a < 10 \<Longrightarrow> b < 10 \<Longrightarrow> (char_of (48 + a :: nat) :: char) = char_of (48 + b) \<longleftrightarrow> a = b"
  "a < 10 \<Longrightarrow> CHR ''.'' \<noteq> char_of (48 + a :: nat)"
  by (simp_all add: char_of_eq_iff take_bit_nat_eq_self eq_commute [of "CHR ''.''"])

lemma show_nat_nonempty [simp]: "show_nat n \<noteq> []"
  by (subst show_nat.simps) simp

lemma show_nat_digits: "CHR ''.'' \<notin> set (show_nat n)"
  by (induction n rule: show_nat.induct) (subst show_nat.simps, auto simp: digit_chars)

lemma show_nat_inj: "show_nat m = show_nat n \<longleftrightarrow> m = n"
proof
  show "show_nat m = show_nat n \<Longrightarrow> m = n"
  proof (induction m arbitrary: n rule: less_induct)
    case (less m)
    show ?case
    proof (cases "m < 10 \<or> n < 10")
      case True
      then show ?thesis using less.prems
        by (subst (asm) (1 2) show_nat.simps) (auto simp: digit_chars Cons_eq_append_conv append_eq_Cons_conv split: if_splits)
    next
      case False
      then have "show_nat (m div 10) @ [char_of (48 + m mod 10)] = show_nat (n div 10) @ [char_of (48 + n mod 10)]"
        using less.prems by (metis show_nat.simps)
      then have "show_nat (m div 10) = show_nat (n div 10)" "m mod 10 = n mod 10" by (simp_all add: digit_chars)
      moreover from this(1) have "m div 10 = n div 10" using False by (intro less.IH) auto
      ultimately show ?thesis by (metis div_mult_mod_eq)
    qed
  qed
qed simp

text \<open>What follows the last dot determines the counter.\<close>

lemma after_last_dot:
  assumes "CHR ''.'' \<notin> set c1" "CHR ''.'' \<notin> set c2" and "p1 @ ''.'' @ c1 = p2 @ ''.'' @ c2"
  shows "c1 = c2"
proof -
  have tw: "takeWhile (\<lambda>x. x \<noteq> CHR ''.'') (rev (p @ ''.'' @ c)) = rev c" if c: "CHR ''.'' \<notin> set c" for p c :: string
  proof -
    have "\<forall>x \<in> set (rev c). x \<noteq> CHR ''.''" using c by auto
    then have "takeWhile (\<lambda>x. x \<noteq> CHR ''.'') (rev c @ CHR ''.'' # rev p) = rev c" by (subst takeWhile_append2) auto
    then show ?thesis by simp
  qed
  have "rev c1 = rev c2"
    unfolding tw [OF assms(1), of p1, symmetric] tw [OF assms(2), of p2, symmetric] assms(3) ..
  then show ?thesis by simp
qed

text \<open>Within a process, two calls that drew different counter values never use the same temporary name, whatever the clock says.\<close>

theorem temp_paths_distinct:
  assumes "p_components final_path \<noteq> []" and "c1 \<noteq> c2"
  shows "fst (temp_path_for pid n1 c1 final_path) \<noteq> fst (temp_path_for pid n2 c2 final_path)"
proof
  assume "fst (temp_path_for pid n1 c1 final_path) = fst (temp_path_for pid n2 c2 final_path)"
  then have "(show_nat (unat pid) @ ''.'' @ show_nat n1) @ ''.'' @ show_nat (unat c1) = (show_nat (unat pid) @ ''.'' @ show_nat n2) @ ''.'' @ show_nat (unat c2)"
    using assms(1) by (simp add: temp_path_for_def)
  then have "show_nat (unat c1) = show_nat (unat c2)" by (rule after_last_dot [OF show_nat_digits show_nat_digits])
  with assms(2) show False by (simp add: show_nat_inj word_unat_eq_iff)
qed

lemma temp_paths_distinct_witness:
  "fst (temp_path_for 7 0 1 sample_final) \<noteq> fst (temp_path_for 7 5 2 sample_final)"
  by (rule temp_paths_distinct) simp_all

end
