(* ===== verification/Canonical.thy ===== *)
theory Canonical
  imports Crc_Record Constants "HOL-Library.List_Lexorder"
begin

text \<open>
  Canonical value encoding (\<open>cove-core/src/canonical.rs\<close>): the bytes that identify a value in dictionaries
  and hash chains. Floats are their bit patterns, strings their UTF-8 bytes. The theorems show that the
  validator accepts what the encoder writes, and that tag and bytes agree exactly for values that differ
  only in the declared width of integers, the order of struct fields and the order of map entries.
\<close>

unbundle bit_operations_syntax

section \<open>Values\<close>

datatype CanonicalValue =
    CV_Null
  | CV_Bool bool
  | CV_Int u8 i128
  | CV_Uint u8 u128
  | CV_Float32 u32
  | CV_Float64 u64
  | CV_Decimal64 i64
  | CV_Decimal128 i128
  | CV_DateDays i32
  | CV_TimestampMicros i64
  | CV_TimestampNanos i64
  | CV_Uuid bytes
  | CV_Utf8 bytes
  | CV_Bytes bytes
  | CV_Json bytes
  | CV_List "CanonicalValue list"
  | CV_Struct "(u64 \<times> CanonicalValue) list"
  | CV_Map "(CanonicalValue \<times> CanonicalValue) list"

fun value_tag :: "CanonicalValue \<Rightarrow> ValueTag" where
  "value_tag CV_Null = VT_Null"
| "value_tag (CV_Bool b) = (if b then VT_BoolTrue else VT_BoolFalse)"
| "value_tag (CV_Int _ _) = VT_Int64"
| "value_tag (CV_Uint _ _) = VT_UInt64"
| "value_tag (CV_Float32 _) = VT_Float32Bits"
| "value_tag (CV_Float64 _) = VT_Float64Bits"
| "value_tag (CV_Decimal64 _) = VT_Decimal64"
| "value_tag (CV_Decimal128 _) = VT_Decimal128"
| "value_tag (CV_DateDays _) = VT_DateDays"
| "value_tag (CV_TimestampMicros _) = VT_TimestampMicros"
| "value_tag (CV_TimestampNanos _) = VT_TimestampNanos"
| "value_tag (CV_Uuid _) = VT_Uuid"
| "value_tag (CV_Utf8 _) = VT_Utf8"
| "value_tag (CV_Bytes _) = VT_Binary"
| "value_tag (CV_Json _) = VT_Json"
| "value_tag (CV_List _) = VT_List"
| "value_tag (CV_Struct _) = VT_Struct"
| "value_tag (CV_Map _) = VT_Map"

fun is_scalar_key :: "CanonicalValue \<Rightarrow> bool" where
  "is_scalar_key (CV_List _) = False"
| "is_scalar_key (CV_Struct _) = False"
| "is_scalar_key (CV_Map _) = False"
| "is_scalar_key _ = True"

section \<open>Encoding\<close>

definition signed_range :: "u8 \<Rightarrow> (int \<times> int) option" where
  "signed_range width =
     (if width = 1 then Some (- (2 ^ 7), 2 ^ 7 - 1)
      else if width = 2 then Some (- (2 ^ 15), 2 ^ 15 - 1)
      else if width = 4 then Some (- (2 ^ 31), 2 ^ 31 - 1)
      else if width = 8 then Some (- (2 ^ 63), 2 ^ 63 - 1)
      else None)"

definition encode_i64_width :: "u8 \<Rightarrow> i128 \<Rightarrow> bytes result" where
  "encode_i64_width width v =
     (case signed_range width of
        None \<Rightarrow> Err (BadSection (''invalid signed integer width '' @ show_nat (unat width)))
      | Some (lo, hi) \<Rightarrow>
          if \<not> (lo \<le> sint v \<and> sint v \<le> hi) then Err (BadSection ''signed integer canonical value out of range'')
          else Ok (le_bytes 8 (ucast v :: i64)))"

definition unsigned_max :: "u8 \<Rightarrow> nat option" where
  "unsigned_max width =
     (if width = 1 then Some (2 ^ 8 - 1)
      else if width = 2 then Some (2 ^ 16 - 1)
      else if width = 4 then Some (2 ^ 32 - 1)
      else if width = 8 then Some (2 ^ 64 - 1)
      else None)"

definition encode_u64_width :: "u8 \<Rightarrow> u128 \<Rightarrow> bytes result" where
  "encode_u64_width width v =
     (case unsigned_max width of
        None \<Rightarrow> Err (BadSection (''invalid unsigned integer width '' @ show_nat (unat width)))
      | Some hi \<Rightarrow>
          if unat v > hi then Err (BadSection ''unsigned integer canonical value out of range'')
          else Ok (le_bytes 8 (ucast v :: u64)))"

definition length_prefixed :: "bytes \<Rightarrow> bytes" where
  "length_prefixed bs = append_u64_leb128 [] (of_nat (length bs)) @ bs"

text \<open>
  The encoders of the nested kinds take the encoder \<open>enc\<close> of a tagged element, \<open>encode_tagged\<close>, as a
  parameter, so that the recursion of the source goes through them.
\<close>

definition canonicalize_list :: "('v \<Rightarrow> bytes result) \<Rightarrow> 'v list \<Rightarrow> bytes result" where
  "canonicalize_list enc elements =
     and_then (collect_map enc elements) (\<lambda>encoded.
     Ok (append_u64_leb128 [] (of_nat (length elements)) @ concat encoded))"

definition canonicalize_struct :: "('v \<Rightarrow> bytes result) \<Rightarrow> (u64 \<times> 'v) list \<Rightarrow> bytes result" where
  "canonicalize_struct enc fields =
     (let sorted = sort_key fst fields in
      if \<not> windows2 (\<lambda>a b. fst a \<noteq> fst b) sorted then Err (BadSchema ''duplicate field_id in canonical struct'')
      else and_then (collect_map (\<lambda>(i, v). map_result (\<lambda>b. append_u64_leb128 [] i @ b) (enc v)) sorted) (\<lambda>encoded.
           Ok (append_u64_leb128 [] (of_nat (length sorted)) @ concat encoded)))"

definition canonicalize_map_entries ::
  "('v \<Rightarrow> bool) \<Rightarrow> ('v \<Rightarrow> bytes result) \<Rightarrow> ('v \<times> 'v) list \<Rightarrow> (bytes \<times> bytes) list result" where
  "canonicalize_map_entries scalar enc entries =
     and_then (collect_map (\<lambda>(k, v).
        if \<not> scalar k then Err (BadSchema ''canonical map key must be scalar'')
        else and_then (enc k) (\<lambda>kb. and_then (enc v) (\<lambda>vb. Ok (kb, vb)))) entries) (\<lambda>encoded.
     let sorted = sort_key fst encoded in
     if \<not> windows2 (\<lambda>a b. fst a \<noteq> fst b) sorted
     then Err (BadSchema (''duplicate key in canonical map encoding (Spec '' @ section_sign @ ''17.6)''))
     else Ok sorted)"

definition canonicalize_map ::
  "('v \<Rightarrow> bool) \<Rightarrow> ('v \<Rightarrow> bytes result) \<Rightarrow> ('v \<times> 'v) list \<Rightarrow> bytes result" where
  "canonicalize_map scalar enc entries =
     and_then (canonicalize_map_entries scalar enc entries) (\<lambda>sorted.
     Ok (append_u64_leb128 [] (of_nat (length sorted)) @ concat (map (\<lambda>(k, v). k @ v) sorted)))"

lemma canonicalize_cong [fundef_cong]:
  "vs = vs' \<Longrightarrow> (\<And>x. x \<in> set vs' \<Longrightarrow> f x = g x) \<Longrightarrow> canonicalize_list f vs = canonicalize_list g vs'"
  "fs = fs' \<Longrightarrow> (\<And>i x. (i, x) \<in> set fs' \<Longrightarrow> f x = g x) \<Longrightarrow> canonicalize_struct f fs = canonicalize_struct g fs'"
  "p = p' \<Longrightarrow> es = es' \<Longrightarrow> (\<And>x y. (x, y) \<in> set es' \<Longrightarrow> f x = g x) \<Longrightarrow> (\<And>x y. (x, y) \<in> set es' \<Longrightarrow> f y = g y) \<Longrightarrow> canonicalize_map p f es = canonicalize_map p' g es'"
proof -
  show "vs = vs' \<Longrightarrow> (\<And>x. x \<in> set vs' \<Longrightarrow> f x = g x) \<Longrightarrow> canonicalize_list f vs = canonicalize_list g vs'"
    by (simp add: canonicalize_list_def cong: collect_map_cong)
  show "fs = fs' \<Longrightarrow> (\<And>i x. (i, x) \<in> set fs' \<Longrightarrow> f x = g x) \<Longrightarrow> canonicalize_struct f fs = canonicalize_struct g fs'"
    by (auto simp: canonicalize_struct_def Let_def intro!: arg_cong2 [where f = and_then] collect_map_cong)
  show "p = p' \<Longrightarrow> es = es' \<Longrightarrow> (\<And>x y. (x, y) \<in> set es' \<Longrightarrow> f x = g x) \<Longrightarrow> (\<And>x y. (x, y) \<in> set es' \<Longrightarrow> f y = g y) \<Longrightarrow> canonicalize_map p f es = canonicalize_map p' g es'"
    by (auto simp: canonicalize_map_def canonicalize_map_entries_def intro!: arg_cong2 [where f = and_then] collect_map_cong)
qed

lemma size_nested_values [termination_simp]:
  "x \<in> set es \<Longrightarrow> size x < Suc (size_list size es)"
  "(i, x) \<in> set fs \<Longrightarrow> size x < Suc (size_list (size_prod (\<lambda>_. 0) size) fs)"
  "(x, y) \<in> set ps \<Longrightarrow> size x < Suc (size_list (size_prod size size) ps)"
  "(x, y) \<in> set ps \<Longrightarrow> size y < Suc (size_list (size_prod size size) ps)"
  by (induction es) (auto, (induction fs; auto)[], (induction ps; auto)[], (induction ps; auto)[])

declare and_then_cong [fundef_cong]

function (sequential) CanonicalValue_encode :: "CanonicalValue \<Rightarrow> bytes result"
  and encode_tagged :: "CanonicalValue \<Rightarrow> bytes result" where
  "CanonicalValue_encode CV_Null = Ok []"
| "CanonicalValue_encode (CV_Bool _) = Ok []"
| "CanonicalValue_encode (CV_Int width v) = encode_i64_width width v"
| "CanonicalValue_encode (CV_Uint width v) = encode_u64_width width v"
| "CanonicalValue_encode (CV_Float32 bits) = Ok (le_bytes 4 bits)"
| "CanonicalValue_encode (CV_Float64 bits) = Ok (le_bytes 8 bits)"
| "CanonicalValue_encode (CV_Decimal64 v) = Ok (le_bytes 8 v)"
| "CanonicalValue_encode (CV_Decimal128 v) = Ok (le_bytes 16 v)"
| "CanonicalValue_encode (CV_DateDays v) = Ok (le_bytes 4 v)"
| "CanonicalValue_encode (CV_TimestampMicros v) = Ok (le_bytes 8 v)"
| "CanonicalValue_encode (CV_TimestampNanos v) = Ok (le_bytes 8 v)"
| "CanonicalValue_encode (CV_Uuid uuid) = Ok uuid"
| "CanonicalValue_encode (CV_Utf8 s) = Ok (length_prefixed s)"
| "CanonicalValue_encode (CV_Bytes b) = Ok (length_prefixed b)"
| "CanonicalValue_encode (CV_Json s) = Ok (length_prefixed s)"
| "CanonicalValue_encode (CV_List elements) = canonicalize_list encode_tagged elements"
| "CanonicalValue_encode (CV_Struct fields) = canonicalize_struct encode_tagged fields"
| "CanonicalValue_encode (CV_Map entries) = canonicalize_map is_scalar_key encode_tagged entries"
| "encode_tagged v = map_result (\<lambda>b. append_u64_leb128 [] (ucast (ValueTag_code (value_tag v))) @ b) (CanonicalValue_encode v)"
  by pat_completeness auto

termination
  by (relation "measure (\<lambda>x. case x of Inl v \<Rightarrow> 2 * size v | Inr v \<Rightarrow> 2 * size v + 1)")
    (auto dest: size_nested_values)

section \<open>Validation\<close>

definition is_scalar_value_tag :: "ValueTag \<Rightarrow> bool" where
  "is_scalar_value_tag t \<longleftrightarrow> t \<notin> {VT_List, VT_Struct, VT_Map}"

definition validate_min_width :: "bytes \<Rightarrow> usize \<Rightarrow> string \<Rightarrow> usize result" where
  "validate_min_width bs width what =
     (if length bs < width then Err (BadSection (what @ '' must be exactly '' @ show_nat width @ '' bytes''))
      else Ok width)"

definition decode_canonical_varint :: "bytes \<Rightarrow> string \<Rightarrow> (u64 \<times> usize) result" where
  "decode_canonical_varint bs what =
     (case decode_u64_leb128 bs of
        Ok r \<Rightarrow> Ok r
      | Err _ \<Rightarrow> Err (BadSection (''invalid '' @ what))
      | Panic \<Rightarrow> Panic)"

definition decode_length_prefixed :: "bytes \<Rightarrow> string \<Rightarrow> (bytes \<times> usize) result" where
  "decode_length_prefixed bs what =
     and_then (decode_canonical_varint bs what) (\<lambda>(payload_len, prefix_len).
     and_then (checked_add prefix_len (unat payload_len)) (\<lambda>total.
     if total > length bs then Err (BadSection (what @ '' length prefix exceeds available bytes''))
     else Ok (slice prefix_len (total - prefix_len) bs, total)))"

lemma decode_canonical_varint_Ok:
  "decode_canonical_varint bs what = Ok r \<longleftrightarrow> decode_u64_leb128 bs = Ok r"
  by (cases "decode_u64_leb128 bs") (simp_all add: decode_canonical_varint_def)

lemma decode_canonical_varint_consumed:
  "decode_canonical_varint bs what = Ok (v, n) \<Longrightarrow> 0 < n \<and> n \<le> length bs"
  by (auto simp: decode_canonical_varint_Ok dest: decode_u64_leb128_consumed)

text \<open>
  \<open>json_ok\<close> stands for \<open>serde_json::from_slice(payload).is_ok()\<close>. The loops count the elements down.
\<close>

function (sequential) validate_payload_inner :: "(bytes \<Rightarrow> bool) \<Rightarrow> ValueTag \<Rightarrow> bytes \<Rightarrow> usize result"
  and validate_tagged_value :: "(bytes \<Rightarrow> bool) \<Rightarrow> bytes \<Rightarrow> (ValueTag \<times> usize) result"
  and list_loop :: "(bytes \<Rightarrow> bool) \<Rightarrow> nat \<Rightarrow> bytes \<Rightarrow> usize \<Rightarrow> usize result"
  and struct_loop :: "(bytes \<Rightarrow> bool) \<Rightarrow> nat \<Rightarrow> u64 option \<Rightarrow> bytes \<Rightarrow> usize \<Rightarrow> usize result"
  and map_loop :: "(bytes \<Rightarrow> bool) \<Rightarrow> nat \<Rightarrow> bytes option \<Rightarrow> bytes \<Rightarrow> usize \<Rightarrow> usize result" where
  "validate_payload_inner json_ok tag bs =
     (if tag \<in> {VT_Null, VT_BoolFalse, VT_BoolTrue} then Ok 0
      else if tag \<in> {VT_Int64, VT_UInt64, VT_Float64Bits, VT_Decimal64, VT_TimestampMicros, VT_TimestampNanos}
      then validate_min_width bs 8 ''8-byte canonical payload''
      else if tag \<in> {VT_Float32Bits, VT_DateDays} then validate_min_width bs 4 ''4-byte canonical payload''
      else if tag \<in> {VT_Decimal128, VT_Uuid} then validate_min_width bs 16 ''16-byte canonical payload''
      else if tag = VT_Utf8
      then and_then (decode_length_prefixed bs ''canonical UTF-8 payload'') (\<lambda>(payload, consumed).
           if \<not> utf8_valid payload then Err (BadSection ''Utf8 tag payload must be valid UTF-8'') else Ok consumed)
      else if tag = VT_Binary
      then and_then (decode_length_prefixed bs ''canonical binary payload'') (\<lambda>(_, consumed). Ok consumed)
      else if tag = VT_Json
      then and_then (decode_length_prefixed bs ''canonical JSON payload'') (\<lambda>(payload, consumed).
           if \<not> json_ok payload then Err (BadSection ''Json tag payload must be syntactically valid JSON'') else Ok consumed)
      else if tag = VT_List
      then and_then (decode_canonical_varint bs ''canonical list element count'') (\<lambda>(element_count, pos).
           list_loop json_ok (unat element_count) bs pos)
      else if tag = VT_Struct
      then and_then (decode_canonical_varint bs ''canonical struct field count'') (\<lambda>(field_count, pos).
           struct_loop json_ok (unat field_count) None bs pos)
      else and_then (decode_canonical_varint bs ''canonical map pair count'') (\<lambda>(pair_count, pos).
           map_loop json_ok (unat pair_count) None bs pos))"
| "validate_tagged_value json_ok bs =
     and_then (decode_canonical_varint bs ''canonical value tag'') (\<lambda>(raw_tag, tag_len).
     if unat raw_tag \<ge> 2 ^ 16 then Err (BadSection (''unknown canonical value tag '' @ show_nat (unat raw_tag)))
     else and_then (ok_or (ValueTag_from_u16 (ucast raw_tag)) (BadSection (''unknown canonical value tag '' @ show_nat (unat raw_tag)))) (\<lambda>tag.
     and_then (bytes_from bs tag_len) (\<lambda>rest.
     and_then (validate_payload_inner json_ok tag rest) (\<lambda>payload_len.
     and_then (checked_add tag_len payload_len) (\<lambda>consumed.
     Ok (tag, consumed))))))"
| "list_loop json_ok 0 bs pos = Ok pos"
| "list_loop json_ok (Suc n) bs pos =
     and_then (bytes_from bs pos) (\<lambda>rest.
     and_then (validate_tagged_value json_ok rest) (\<lambda>(_, consumed).
     and_then (checked_add pos consumed) (\<lambda>pos'.
     list_loop json_ok n bs pos')))"
| "struct_loop json_ok 0 prev bs pos = Ok pos"
| "struct_loop json_ok (Suc n) prev bs pos =
     and_then (bytes_from bs pos) (\<lambda>rest.
     and_then (decode_canonical_varint rest ''canonical struct field_id'') (\<lambda>(field_id, consumed).
     and_then (checked_add pos consumed) (\<lambda>pos'.
     if (case prev of Some p \<Rightarrow> field_id \<le> p | None \<Rightarrow> False)
     then Err (BadSection ''canonical struct field_ids must be strictly ascending'')
     else and_then (bytes_from bs pos') (\<lambda>rest'.
     and_then (validate_tagged_value json_ok rest') (\<lambda>(_, consumed').
     and_then (checked_add pos' consumed') (\<lambda>pos''.
     struct_loop json_ok n (Some field_id) bs pos''))))))"
| "map_loop json_ok 0 prev bs pos = Ok pos"
| "map_loop json_ok (Suc n) prev bs pos =
     and_then (bytes_from bs pos) (\<lambda>rest.
     and_then (validate_tagged_value json_ok rest) (\<lambda>(key_tag, key_consumed).
     if \<not> is_scalar_value_tag key_tag then Err (BadSection ''canonical map key must be scalar'')
     else and_then (checked_add pos key_consumed) (\<lambda>pos'.
     let key_bytes = slice pos (pos' - pos) bs in
     if (case prev of Some p \<Rightarrow> key_bytes < p | None \<Rightarrow> False)
     then Err (BadSection ''canonical map keys must be sorted by canonical bytes'')
     else if prev = Some key_bytes then Err (BadSection ''duplicate key in canonical map encoding'')
     else and_then (bytes_from bs pos') (\<lambda>rest'.
     and_then (validate_tagged_value json_ok rest') (\<lambda>(_, value_consumed).
     and_then (checked_add pos' value_consumed) (\<lambda>pos''.
     map_loop json_ok n (Some key_bytes) bs pos''))))))"
  by pat_completeness auto

termination
  by (relation "inv_image (less_than <*lex*> less_than) (\<lambda>x. case x of
        Inl (Inl (_, _, bs)) \<Rightarrow> (length bs, 1)
      | Inl (Inr (_, bs)) \<Rightarrow> (length bs, 0)
      | Inr (Inl (_, n, bs, pos)) \<Rightarrow> (length bs - pos, Suc n)
      | Inr (Inr (Inl (_, n, _, bs, pos))) \<Rightarrow> (length bs - pos, Suc n)
      | Inr (Inr (Inr (_, n, _, bs, pos))) \<Rightarrow> (length bs - pos, Suc n))")
    (auto simp: result_simps dest!: decode_canonical_varint_consumed)

definition validate_canonical_payload :: "(bytes \<Rightarrow> bool) \<Rightarrow> ValueTag \<Rightarrow> bytes \<Rightarrow> unit result" where
  "validate_canonical_payload json_ok tag bs =
     and_then (validate_payload_inner json_ok tag bs) (\<lambda>consumed.
     if consumed \<noteq> length bs then Err (BadSection ''canonical payload has trailing bytes'') else Ok ())"

declare CanonicalValue_encode.simps(16-18) [simp del] encode_tagged.simps [simp del]
declare validate_payload_inner.simps [simp del] validate_tagged_value.simps [simp del]

section \<open>Bounds of the validator\<close>

lemma decode_canonical_varint_no_panic [simp]: "decode_canonical_varint bs what \<noteq> Panic"
  using decode_loop_no_panic [of 0 0 0 bs]
  by (auto simp: decode_canonical_varint_def decode_u64_leb128_def split: result.splits)

lemma decode_length_prefixed_no_panic [simp]: "decode_length_prefixed bs what \<noteq> Panic"
  by (auto simp: decode_length_prefixed_def and_then_eq_Panic)

lemma decode_length_prefixed_Ok:
  "decode_length_prefixed bs what = Ok (payload, n) \<Longrightarrow> 0 < n \<and> n \<le> length bs"
  by (auto simp: decode_length_prefixed_def result_simps dest!: decode_canonical_varint_consumed split: if_splits)

lemma validate_min_width_Ok: "validate_min_width bs w what = Ok n \<longleftrightarrow> n = w \<and> w \<le> length bs"
  by (auto simp: validate_min_width_def)

lemma validate_min_width_no_panic [simp]: "validate_min_width bs w what \<noteq> Panic"
  by (simp add: validate_min_width_def)

lemma validate_tagged_value_OkD:
  assumes "validate_tagged_value json_ok bs = Ok (t, n)"
  shows "\<exists>raw k m. decode_u64_leb128 bs = Ok (raw, k) \<and> 0 < k \<and> k \<le> length bs \<and> ValueTag_from_u16 (ucast raw) = Some t
    \<and> unat raw < 2 ^ 16 \<and> validate_payload_inner json_ok t (drop k bs) = Ok m \<and> n = k + m"
proof -
  from assms obtain raw k where d: "decode_canonical_varint bs ''canonical value tag'' = Ok (raw, k)"
    by (auto simp: validate_tagged_value.simps result_simps)
  with assms show ?thesis
    using decode_canonical_varint_consumed [OF d]
    by (auto simp: validate_tagged_value.simps result_simps decode_canonical_varint_Ok split: if_splits)
qed

lemma list_loop_OkD:
  "list_loop json_ok (Suc k) bs pos = Ok r \<Longrightarrow>
     \<exists>t c. pos \<le> length bs \<and> validate_tagged_value json_ok (drop pos bs) = Ok (t, c) \<and> list_loop json_ok k bs (pos + c) = Ok r"
  by (auto simp: result_simps)

lemma struct_loop_OkD:
  assumes "struct_loop json_ok (Suc k) prev bs pos = Ok r"
  shows "\<exists>i c t c'. pos \<le> length bs \<and> decode_u64_leb128 (drop pos bs) = Ok (i, c) \<and> pos + c \<le> length bs
     \<and> (\<forall>p. prev = Some p \<longrightarrow> p < i)
     \<and> validate_tagged_value json_ok (drop (pos + c) bs) = Ok (t, c') \<and> struct_loop json_ok k (Some i) bs (pos + c + c') = Ok r"
  using assms
  by (simp add: result_simps decode_canonical_varint_Ok split_beta split: if_splits option.splits)
    (metis (no_types, lifting) linorder_not_le option.distinct(1) option.inject prod.collapse)+

lemma map_loop_OkD:
  assumes "map_loop json_ok (Suc k) prev bs pos = Ok r"
  shows "\<exists>t c u c'. pos \<le> length bs \<and> validate_tagged_value json_ok (drop pos bs) = Ok (t, c) \<and> is_scalar_value_tag t
     \<and> (\<forall>p. prev = Some p \<longrightarrow> p < slice pos c bs) \<and> pos + c \<le> length bs
     \<and> validate_tagged_value json_ok (drop (pos + c) bs) = Ok (u, c')
     \<and> map_loop json_ok k (Some (slice pos c bs)) bs (pos + c + c') = Ok r"
  using assms
  by (simp add: result_simps Let_def split_beta split: if_splits option.splits)

lemma validate_payload_inner_OkD:
  assumes "validate_payload_inner json_ok tag bs = Ok n"
  shows "n \<le> length bs
    \<or> (\<exists>c pos. decode_u64_leb128 bs = Ok (c, pos) \<and> 0 < pos \<and> pos \<le> length bs \<and> tag = VT_List \<and> list_loop json_ok (unat c) bs pos = Ok n)
    \<or> (\<exists>c pos. decode_u64_leb128 bs = Ok (c, pos) \<and> 0 < pos \<and> pos \<le> length bs \<and> tag = VT_Struct \<and> struct_loop json_ok (unat c) None bs pos = Ok n)
    \<or> (\<exists>c pos. decode_u64_leb128 bs = Ok (c, pos) \<and> 0 < pos \<and> pos \<le> length bs \<and> tag = VT_Map \<and> map_loop json_ok (unat c) None bs pos = Ok n)"
  using assms
  by (cases tag)
    (auto simp: validate_payload_inner.simps result_simps validate_min_width_Ok decode_canonical_varint_Ok split: if_splits
      dest: decode_length_prefixed_Ok decode_u64_leb128_consumed)

lemma loops_bounded:
  assumes tagged: "\<forall>rest t c. length rest < L \<longrightarrow> validate_tagged_value json_ok rest = Ok (t, c) \<longrightarrow> c \<le> length rest"
  shows "length bs < L + pos \<Longrightarrow> pos \<le> length bs \<Longrightarrow> list_loop json_ok k bs pos = Ok n \<Longrightarrow> n \<le> length bs"
    and "length bs < L + pos \<Longrightarrow> pos \<le> length bs \<Longrightarrow> struct_loop json_ok k prev bs pos = Ok n \<Longrightarrow> n \<le> length bs"
    and "length bs < L + pos \<Longrightarrow> pos \<le> length bs \<Longrightarrow> map_loop json_ok k prevk bs pos = Ok n \<Longrightarrow> n \<le> length bs"
proof -
  have step: "validate_tagged_value json_ok (drop p bs) = Ok (t, c) \<Longrightarrow> pos \<le> p \<Longrightarrow> p \<le> length bs \<Longrightarrow> length bs < L + pos
      \<Longrightarrow> p + c \<le> length bs" for p t c pos
    using tagged [rule_format, of "drop p bs" t c] by (simp add: le_diff_conv2 add.commute)
  show "length bs < L + pos \<Longrightarrow> pos \<le> length bs \<Longrightarrow> list_loop json_ok k bs pos = Ok n \<Longrightarrow> n \<le> length bs"
  proof (induction k arbitrary: pos)
    case (Suc k)
    obtain t c where "validate_tagged_value json_ok (drop pos bs) = Ok (t, c)" "list_loop json_ok k bs (pos + c) = Ok n"
      using list_loop_OkD [OF Suc.prems(3)] by blast
    with Suc.IH [of "pos + c"] Suc.prems(1,2) step [of pos t c pos] show ?case by simp
  qed simp
  show "length bs < L + pos \<Longrightarrow> pos \<le> length bs \<Longrightarrow> struct_loop json_ok k prev bs pos = Ok n \<Longrightarrow> n \<le> length bs"
  proof (induction k arbitrary: pos prev)
    case (Suc k)
    obtain i c t c' where "pos + c \<le> length bs" "validate_tagged_value json_ok (drop (pos + c) bs) = Ok (t, c')"
        "struct_loop json_ok k (Some i) bs (pos + c + c') = Ok n"
      using struct_loop_OkD [OF Suc.prems(3)] by blast
    with Suc.IH [of "pos + c + c'"] Suc.prems(1,2) step [of "pos + c" t c' pos] show ?case by simp
  qed simp
  show "length bs < L + pos \<Longrightarrow> pos \<le> length bs \<Longrightarrow> map_loop json_ok k prevk bs pos = Ok n \<Longrightarrow> n \<le> length bs"
  proof (induction k arbitrary: pos prevk)
    case (Suc k)
    obtain t c u c' where "pos + c \<le> length bs" "validate_tagged_value json_ok (drop (pos + c) bs) = Ok (u, c')"
        "map_loop json_ok k (Some (slice pos c bs)) bs (pos + c + c') = Ok n"
      using map_loop_OkD [OF Suc.prems(3)] by blast
    with Suc.IH [of "pos + c + c'"] Suc.prems(1,2) step [of "pos + c" u c' pos] show ?case by simp
  qed simp
qed

lemma validator_bounds:
  "validate_payload_inner json_ok tag bs = Ok n \<Longrightarrow> n \<le> length bs"
  "validate_tagged_value json_ok bs = Ok (t, m) \<Longrightarrow> 0 < m \<and> m \<le> length bs"
proof -
  have tagged: "0 < m \<and> m \<le> length bs"
    if inner: "\<And>rest t n. length rest < length bs \<Longrightarrow> validate_payload_inner json_ok t rest = Ok n \<Longrightarrow> n \<le> length rest"
      and prem: "validate_tagged_value json_ok bs = Ok (t, m)" for bs t m
  proof -
    obtain k n where "0 < k" "k \<le> length bs" "validate_payload_inner json_ok t (drop k bs) = Ok n" "m = k + n"
      using validate_tagged_value_OkD [OF prem] by blast
    moreover from this have "n \<le> length (drop k bs)" by (intro inner [where t = t]) auto
    ultimately show ?thesis by simp
  qed
  have inner: "validate_payload_inner json_ok tag bs = Ok n \<Longrightarrow> n \<le> length bs" for tag bs n
  proof (induction "length bs" arbitrary: tag bs n rule: less_induct)
    case less
    have "c \<le> length rest" if "length rest < length bs" "validate_tagged_value json_ok rest = Ok (t, c)" for rest t c
      by (rule conjunct2 [OF tagged [OF _ that(2)]]) (rule less.hyps, use that(1) in simp_all)
    then have "\<forall>rest t c. length rest < length bs \<longrightarrow> validate_tagged_value json_ok rest = Ok (t, c) \<longrightarrow> c \<le> length rest"
      by blast
    note loops = loops_bounded [OF this, where bs = bs]
    from validate_payload_inner_OkD [OF less.prems] show ?case
      by (elim disjE exE conjE) (auto dest: loops(1) [rotated 2] loops(2) [rotated 2] loops(3) [rotated 2])
  qed
  then show "validate_payload_inner json_ok tag bs = Ok n \<Longrightarrow> n \<le> length bs" .
  show "validate_tagged_value json_ok bs = Ok (t, m) \<Longrightarrow> 0 < m \<and> m \<le> length bs"
    using tagged inner by blast
qed

lemma loops_no_panic:
  assumes tagged: "\<forall>rest. length rest < L \<longrightarrow> validate_tagged_value json_ok rest \<noteq> Panic"
  shows "length bs < L + pos \<Longrightarrow> pos \<le> length bs \<Longrightarrow> list_loop json_ok k bs pos \<noteq> Panic"
    and "length bs < L + pos \<Longrightarrow> pos \<le> length bs \<Longrightarrow> struct_loop json_ok k prev bs pos \<noteq> Panic"
    and "length bs < L + pos \<Longrightarrow> pos \<le> length bs \<Longrightarrow> map_loop json_ok k prevk bs pos \<noteq> Panic"
proof -
  have panic: "p \<le> length bs \<Longrightarrow> length bs < L + p \<Longrightarrow> validate_tagged_value json_ok (drop p bs) \<noteq> Panic" for p
    by (rule tagged [rule_format]) auto
  have bound: "validate_tagged_value json_ok (drop p bs) = Ok (t, c) \<Longrightarrow> p \<le> length bs \<Longrightarrow> p + c \<le> length bs" for p t c
    using validator_bounds(2) [of json_ok "drop p bs" t c] by auto
  have varint: "decode_canonical_varint (drop p bs) w = Ok (i, c) \<Longrightarrow> p \<le> length bs \<Longrightarrow> p + c \<le> length bs" for p w i c
    using decode_canonical_varint_consumed [of "drop p bs" w i c] by auto
  show "length bs < L + pos \<Longrightarrow> pos \<le> length bs \<Longrightarrow> list_loop json_ok k bs pos \<noteq> Panic"
    by (induction k arbitrary: pos) (auto simp: and_then_eq_Panic result_simps panic dest!: bound)
  show "length bs < L + pos \<Longrightarrow> pos \<le> length bs \<Longrightarrow> struct_loop json_ok k prev bs pos \<noteq> Panic"
    by (induction k arbitrary: pos prev) (auto simp: and_then_eq_Panic result_simps panic dest!: bound varint split: if_splits)
  show "length bs < L + pos \<Longrightarrow> pos \<le> length bs \<Longrightarrow> map_loop json_ok k prevk bs pos \<noteq> Panic"
    by (induction k arbitrary: pos prevk) (auto simp: and_then_eq_Panic result_simps Let_def panic dest!: bound split: if_splits)
qed

lemma validate_payload_inner_no_panic: "validate_payload_inner json_ok tag bs \<noteq> Panic"
proof (induction "length bs" arbitrary: tag bs rule: less_induct)
  case less
  have "validate_tagged_value json_ok rest \<noteq> Panic" if "length rest < length bs" for rest
    using less.hyps that
    by (auto simp: validate_tagged_value.simps and_then_eq_Panic result_simps ok_or_def split: option.splits if_splits
        dest: decode_canonical_varint_consumed)
  then have tagged: "\<forall>rest. length rest < length bs \<longrightarrow> validate_tagged_value json_ok rest \<noteq> Panic" by blast
  have pos: "decode_canonical_varint bs w = Ok (c, p) \<Longrightarrow> 0 < p \<and> p \<le> length bs" for w c p
    by (rule decode_canonical_varint_consumed)
  show ?case
    using loops_no_panic [OF tagged, where bs = bs]
    by (cases tag) (auto simp: validate_payload_inner.simps and_then_eq_Panic dest!: pos split: if_splits)
qed

section \<open>Canonical bytes are accepted\<close>

text \<open>
  What the Rust types guarantee of a value, and JSON texts that the parser accepts.
\<close>

fun canonical_wf :: "(bytes \<Rightarrow> bool) \<Rightarrow> CanonicalValue \<Rightarrow> bool" where
  "canonical_wf json_ok (CV_Uuid uuid) \<longleftrightarrow> length uuid = 16"
| "canonical_wf json_ok (CV_Utf8 s) \<longleftrightarrow> utf8_valid s"
| "canonical_wf json_ok (CV_Json s) \<longleftrightarrow> json_ok s"
| "canonical_wf json_ok (CV_List es) \<longleftrightarrow> list_all (canonical_wf json_ok) es"
| "canonical_wf json_ok (CV_Struct fs) \<longleftrightarrow> list_all (\<lambda>(_, v). canonical_wf json_ok v) fs"
| "canonical_wf json_ok (CV_Map es) \<longleftrightarrow> list_all (\<lambda>(k, v). canonical_wf json_ok k \<and> canonical_wf json_ok v) es"
| "canonical_wf json_ok _ \<longleftrightarrow> True"

text \<open>The validator reads the bytes \<open>e\<close> as one tagged value, whatever follows.\<close>

definition reads_back :: "(bytes \<Rightarrow> bool) \<Rightarrow> ValueTag \<Rightarrow> bytes \<Rightarrow> bool" where
  "reads_back json_ok t e \<longleftrightarrow> (\<forall>rest. validate_tagged_value json_ok (e @ rest) = Ok (t, length e))"

lemma reads_backD: "reads_back json_ok t e \<Longrightarrow> validate_tagged_value json_ok (e @ rest) = Ok (t, length e)"
  by (simp add: reads_back_def)

lemma reads_back_nonempty: "reads_back json_ok t e \<Longrightarrow> e \<noteq> []"
  using validator_bounds(2) [of json_ok "e @ []" t "length e"] by (auto simp: reads_back_def)

lemma drop_length_append [simp]: "drop (length pre) (pre @ xs) = xs"
  by simp

lemma list_loop_reads:
  "list_all (\<lambda>e. \<exists>t. reads_back json_ok t e) es \<Longrightarrow> length pre + length (concat es) < usize_bound \<Longrightarrow>
     list_loop json_ok (length es) (pre @ concat es @ rest) (length pre) = Ok (length pre + length (concat es))"
proof (induction es arbitrary: pre)
  case (Cons e es)
  then obtain t where "reads_back json_ok t e" by auto
  moreover have "list_loop json_ok (length es) ((pre @ e) @ concat es @ rest) (length (pre @ e)) = Ok (length (pre @ e) + length (concat es))"
    using Cons.prems by (intro Cons.IH) auto
  ultimately show ?case using Cons.prems
    by (simp add: reads_backD checked_add_def)
qed simp

lemma struct_loop_reads:
  "list_all (\<lambda>(_, e). \<exists>t. reads_back json_ok t e) fs \<Longrightarrow> sorted_wrt (<) (map fst fs) \<Longrightarrow>
   (\<And>p. prev = Some p \<Longrightarrow> list_all (\<lambda>(i, _). p < i) fs) \<Longrightarrow>
   length pre + length (concat (map (\<lambda>(i, e). encode_u64_leb128 i @ e) fs)) < usize_bound \<Longrightarrow>
     struct_loop json_ok (length fs) prev (pre @ concat (map (\<lambda>(i, e). encode_u64_leb128 i @ e) fs) @ rest) (length pre) =
       Ok (length pre + length (concat (map (\<lambda>(i, e). encode_u64_leb128 i @ e) fs)))"
proof (induction fs arbitrary: pre prev)
  case (Cons f fs)
  let ?C = "concat (map (\<lambda>(i, e). encode_u64_leb128 i @ e) fs)"
  obtain i e where f [simp]: "f = (i, e)" by force
  from Cons.prems obtain t where rb: "reads_back json_ok t e" by auto
  have ih: "struct_loop json_ok (length fs) (Some i) ((pre @ encode_u64_leb128 i @ e) @ ?C @ rest) (length (pre @ encode_u64_leb128 i @ e)) =
      Ok (length (pre @ encode_u64_leb128 i @ e) + length ?C)"
    using Cons.prems by (intro Cons.IH) (auto simp: list_all_iff)
  have d: "decode_canonical_varint (encode_u64_leb128 i @ e @ ?C @ rest) w = Ok (i, length (encode_u64_leb128 i))" for w
    by (simp add: decode_canonical_varint_Ok decode_encode_u64_leb128)
  have v: "validate_tagged_value json_ok (e @ ?C @ rest) = Ok (t, length e)"
    by (rule reads_backD [OF rb])
  have o: "\<not> (case prev of None \<Rightarrow> False | Some p \<Rightarrow> i \<le> p)"
    using Cons.prems(3) by (auto split: option.splits)
  show ?case using Cons.prems(4) ih d v o
    by (simp add: checked_add_def add.assoc)
qed simp

lemma map_loop_reads:
  "list_all (\<lambda>(k, v). (\<exists>t. is_scalar_value_tag t \<and> reads_back json_ok t k) \<and> (\<exists>t. reads_back json_ok t v)) es \<Longrightarrow>
   sorted_wrt (<) (map fst es) \<Longrightarrow> (\<And>p. prev = Some p \<Longrightarrow> list_all (\<lambda>(k, _). p < k) es) \<Longrightarrow>
   length pre + length (concat (map (\<lambda>(k, v). k @ v) es)) < usize_bound \<Longrightarrow>
     map_loop json_ok (length es) prev (pre @ concat (map (\<lambda>(k, v). k @ v) es) @ rest) (length pre) =
       Ok (length pre + length (concat (map (\<lambda>(k, v). k @ v) es)))"
proof (induction es arbitrary: pre prev)
  case (Cons f es)
  let ?C = "concat (map (\<lambda>(k, v). k @ v) es)"
  obtain k v where f [simp]: "f = (k, v)" by force
  from Cons.prems obtain t u where rb: "reads_back json_ok t k" "is_scalar_value_tag t" "reads_back json_ok u v" by auto
  have ih: "map_loop json_ok (length es) (Some k) ((pre @ k @ v) @ ?C @ rest) (length (pre @ k @ v)) =
      Ok (length (pre @ k @ v) + length ?C)"
    using Cons.prems by (intro Cons.IH) (auto simp: list_all_iff)
  have "validate_tagged_value json_ok (k @ v @ ?C @ rest) = Ok (t, length k)"
       "validate_tagged_value json_ok (v @ ?C @ rest) = Ok (u, length v)"
    using rb by (auto simp: reads_backD)
  moreover have "\<not> (case prev of None \<Rightarrow> False | Some p \<Rightarrow> k < p)" "prev \<noteq> Some k"
    using Cons.prems(3) by (auto split: option.splits)
  moreover have "slice (length pre) (length k) (pre @ k @ v @ ?C @ rest) = k"
    by (simp add: slice_def)
  ultimately show ?case using Cons.prems(4) ih rb(2)
    by (simp add: checked_add_def add.assoc)
qed simp

lemma windows2_distinct_sorted:
  assumes "sorted (map f xs)" "windows2 (\<lambda>a b. f a \<noteq> f b) xs"
  shows "sorted_wrt (<) (map f xs)"
proof -
  have "windows2 (<) (map f xs)"
    using assms sorted_nth_mono [OF assms(1)]
    by (auto simp: windows2_nth order_less_le)
  then show ?thesis by (simp add: windows2_less)
qed

lemma encode_tagged_eq:
  "encode_tagged v = map_result (\<lambda>b. encode_u64_leb128 (ucast (ValueTag_code (value_tag v))) @ b) (CanonicalValue_encode v)"
  by (simp add: encode_tagged.simps append_u64_leb128_eq)

lemma unat_ucast_tag: "unat (ucast (w :: u16) :: u64) = unat w" "ucast (ucast (w :: u16) :: u64) = w"
proof -
  show "unat (ucast w :: u64) = unat w"
    using unat_less_power [of w] by (simp add: unsigned_ucast_eq take_bit_nat_eq_self_iff)
  show "ucast (ucast w :: u64) = w"
    by (rule bit_word_eqI) (simp add: bit_simps)
qed

lemma reads_back_tagged:
  assumes "\<And>rest. validate_payload_inner json_ok (value_tag v) (b @ rest) = Ok (length b)"
    and "CanonicalValue_encode v = Ok b" and "length e < usize_bound" and "encode_tagged v = Ok e"
  shows "reads_back json_ok (value_tag v) e"
proof -
  let ?l = "encode_u64_leb128 (ucast (ValueTag_code (value_tag v)) :: u64)"
  have e: "e = ?l @ b" using assms(2,4) by (simp add: encode_tagged_eq)
  have "decode_canonical_varint (e @ rest) w = Ok (ucast (ValueTag_code (value_tag v)), length ?l)" for rest w
    by (simp add: e decode_canonical_varint_Ok decode_encode_u64_leb128)
  moreover have "ValueTag_from_u16 (ValueTag_code (value_tag v)) = Some (value_tag v)"
    by (rule valueTag.decode_code)
  moreover have "length ?l + length b < usize_bound"
    using assms(3) by (simp add: e)
  moreover have "unat (ValueTag_code (value_tag v)) < 2 ^ 16"
    using unat_less_power [of "ValueTag_code (value_tag v)"] by simp
  ultimately show ?thesis
    using assms(1)
    by (simp add: reads_back_def validate_tagged_value.simps unat_ucast_tag e checked_add_def)
qed

lemma length_concat_ge: "list_all (\<lambda>e. e \<noteq> []) es \<Longrightarrow> length es \<le> length (concat es)"
proof (induction es)
  case (Cons e es)
  then show ?case by (cases e) auto
qed simp

lemma unat_of_nat_count: "n < usize_bound \<Longrightarrow> unat (of_nat n :: u64) = n"
  by (rule unat_of_nat_less) simp

lemma encode_width_length:
  "encode_i64_width w v = Ok b \<Longrightarrow> length b = 8" "encode_u64_width w u = Ok b \<Longrightarrow> length b = 8"
  by (auto simp: encode_i64_width_def encode_u64_width_def split: option.splits if_splits)

lemma decode_length_prefixed_prefix:
  "length (length_prefixed s) < usize_bound \<Longrightarrow>
     decode_length_prefixed (length_prefixed s @ rest) w = Ok (s, length (length_prefixed s))"
  by (simp add: length_prefixed_def append_u64_leb128_eq decode_length_prefixed_def
      decode_canonical_varint_def decode_encode_u64_leb128 unat_of_nat_count checked_add_def slice_append_right slice_append_here)

lemma decode_canonical_varint_encode [simp]:
  "decode_canonical_varint (encode_u64_leb128 v @ rest) w = Ok (v, length (encode_u64_leb128 v))"
  by (simp add: decode_canonical_varint_Ok decode_encode_u64_leb128)

lemma collect_map_set:
  assumes "collect_map f xs = Ok ys"
  shows "x \<in> set xs \<Longrightarrow> \<exists>y \<in> set ys. f x = Ok y" and "y \<in> set ys \<Longrightarrow> \<exists>x \<in> set xs. f x = Ok y"
  using collect_map_nth [OF assms] collect_map_length [OF assms] by (auto simp: in_set_conv_nth) (metis nth_mem)+

lemma length_member_concat: "e \<in> set es \<Longrightarrow> length e \<le> length (concat es)"
  by (auto simp: length_concat intro: member_le_sum_list)

primrec the_ok :: "'a result \<Rightarrow> 'a" where
  "the_ok (Ok x) = x"

text \<open>
  The rows of a nested encoding: each is read back, their number fits the count field, and they belong to
  the elements in the order of the encoding.
\<close>

lemma canonicalize_list_rows:
  assumes "canonicalize_list encode_tagged vs = Ok b" and "length b < usize_bound"
    and "\<And>v e. v \<in> set vs \<Longrightarrow> encode_tagged v = Ok e \<Longrightarrow> length e < usize_bound \<Longrightarrow> reads_back json_ok (value_tag v) e"
  obtains es where "b = encode_u64_leb128 (of_nat (length es)) @ concat es"
    and "list_all (\<lambda>e. \<exists>t. reads_back json_ok t e) es" and "unat (of_nat (length es) :: u64) = length es"
    and "list_all2 (\<lambda>v e. encode_tagged v = Ok e) vs es"
proof -
  from assms(1) obtain es where es: "collect_map encode_tagged vs = Ok es"
    and b: "b = encode_u64_leb128 (of_nat (length vs)) @ concat es"
    by (auto simp: canonicalize_list_def result_simps append_u64_leb128_eq)
  have len: "length es = length vs" by (rule collect_map_length [OF es])
  have "\<exists>t. reads_back json_ok t e" if "e \<in> set es" for e
  proof -
    from collect_map_set(2) [OF es that] obtain v where "v \<in> set vs" "encode_tagged v = Ok e" by blast
    then show ?thesis
      using assms(2) assms(3) [of v e] length_member_concat [OF that] b by auto
  qed
  then have rb: "list_all (\<lambda>e. \<exists>t. reads_back json_ok t e) es" by (simp add: list_all_iff)
  have "length es \<le> length (concat es)"
    by (rule length_concat_ge) (use rb reads_back_nonempty in \<open>auto simp: list_all_iff\<close>)
  then have r2: "unat (of_nat (length es) :: u64) = length es"
    using b assms(2) by (intro unat_of_nat_count) auto
  have r3: "b = encode_u64_leb128 (of_nat (length es)) @ concat es" by (simp add: b len)
  have r4: "list_all2 (\<lambda>v e. encode_tagged v = Ok e) vs es"
    by (simp add: list_all2_conv_all_nth len collect_map_nth [OF es])
  show thesis by (rule that [OF r3 rb r2 r4])
qed

abbreviation field_row :: "u64 \<times> bytes \<Rightarrow> bytes" where
  "field_row \<equiv> \<lambda>(i, e). encode_u64_leb128 i @ e"

abbreviation entry_row :: "bytes \<times> bytes \<Rightarrow> bytes" where
  "entry_row \<equiv> \<lambda>(k, v). k @ v"

lemma canonicalize_struct_rows:
  assumes "canonicalize_struct encode_tagged fs = Ok b" and "length b < usize_bound"
    and "\<And>i v e. (i, v) \<in> set fs \<Longrightarrow> encode_tagged v = Ok e \<Longrightarrow> length e < usize_bound \<Longrightarrow> reads_back json_ok (value_tag v) e"
  obtains es where "b = encode_u64_leb128 (of_nat (length es)) @ concat (map field_row es)"
    and "list_all (\<lambda>(_, e). \<exists>t. reads_back json_ok t e) es" and "unat (of_nat (length es) :: u64) = length es"
    and "sorted_wrt (<) (map fst es)" and "list_all2 (\<lambda>(i, v) (j, e). i = j \<and> encode_tagged v = Ok e) (sort_key fst fs) es"
proof -
  let ?fs = "sort_key fst fs"
  from assms(1) obtain rows where rows: "collect_map (\<lambda>(i, v). map_result (\<lambda>b. encode_u64_leb128 i @ b) (encode_tagged v)) ?fs = Ok rows"
    and w: "windows2 (\<lambda>a b. fst a \<noteq> fst b) ?fs" and b: "b = encode_u64_leb128 (of_nat (length ?fs)) @ concat rows"
    by (auto simp: canonicalize_struct_def Let_def result_simps append_u64_leb128_eq split: if_splits)
  have enc: "\<exists>e. encode_tagged (snd f) = Ok e" if "f \<in> set ?fs" for f
    using collect_map_set(1) [OF rows that] by (auto simp: result_simps split_beta)
  define es where "es = map (\<lambda>f. (fst f, the_ok (encode_tagged (snd f)))) ?fs"
  have rows_es: "rows = map field_row es"
    using collect_map_length [OF rows] collect_map_nth [OF rows]
    by (intro nth_equalityI [of rows]) (fastforce simp: es_def result_simps split_beta)+
  have len: "length es = length ?fs" by (simp add: es_def)
  have r1: "b = encode_u64_leb128 (of_nat (length es)) @ concat (map field_row es)" by (simp only: b len rows_es)
  have r2: "list_all (\<lambda>(_, e). \<exists>t. reads_back json_ok t e) es"
    unfolding list_all_iff
  proof (clarify, goal_cases)
    case (1 i e)
    then obtain v where v: "(i, v) \<in> set fs" "encode_tagged v = Ok e" using enc by (force simp: es_def)
    have "field_row (i, e) \<in> set rows" using 1 rows_es by force
    then have "length (field_row (i, e)) \<le> length (concat rows)" by (rule length_member_concat)
    then show ?case using assms(3) [OF v] assms(2) b by auto
  qed
  have r3: "sorted_wrt (<) (map fst es)"
    using windows2_distinct_sorted [OF sorted_sort_key w] by (simp add: es_def comp_def)
  have "length rows \<le> length (concat rows)"
    by (rule length_concat_ge) (use encode_u64_leb128_nonempty in \<open>auto simp: list_all_iff rows_es\<close>)
  then have r4: "unat (of_nat (length es) :: u64) = length es"
    using b assms(2) rows_es by (intro unat_of_nat_count) auto
  have r5: "list_all2 (\<lambda>(i, v) (j, e). i = j \<and> encode_tagged v = Ok e) ?fs es"
    unfolding es_def list_all2_map2 by (rule list.rel_refl_strong) (use enc in force)
  show thesis by (rule that [OF r1 r2 r4 r3 r5])
qed

lemma collect_map_the_ok: "collect_map f xs = Ok ys \<Longrightarrow> ys = map (\<lambda>x. the_ok (f x)) xs"
  by (induction xs arbitrary: ys) (auto simp: result_simps)

lemma sort_key_map: "sort_key f (map g xs) = map g (sort_key (\<lambda>x. f (g x)) xs)"
proof -
  have "insort_key f (g x) (map g ys) = map g (insort_key (\<lambda>x. f (g x)) x ys)" for x ys
    by (induction ys) auto
  then show ?thesis by (induction xs) auto
qed

lemma sort_key_cong_set: "(\<And>x. x \<in> set xs \<Longrightarrow> f x = g x) \<Longrightarrow> sort_key f xs = sort_key g xs"
proof -
  have ins: "(\<And>y. y \<in> insert x (set ys) \<Longrightarrow> f y = g y) \<Longrightarrow> insort_key f x ys = insort_key g x ys" for x ys
    by (induction ys) auto
  assume "\<And>x. x \<in> set xs \<Longrightarrow> f x = g x"
  then show ?thesis by (induction xs) (auto intro!: ins)
qed

definition key_bytes :: "CanonicalValue \<times> CanonicalValue \<Rightarrow> bytes" where
  "key_bytes p = the_ok (encode_tagged (fst p))"

lemma canonicalize_map_rows:
  assumes "canonicalize_map is_scalar_key encode_tagged kvs = Ok b" and "length b < usize_bound"
    and "\<And>k v e. (k, v) \<in> set kvs \<Longrightarrow> encode_tagged k = Ok e \<Longrightarrow> length e < usize_bound \<Longrightarrow> reads_back json_ok (value_tag k) e"
    and "\<And>k v e. (k, v) \<in> set kvs \<Longrightarrow> encode_tagged v = Ok e \<Longrightarrow> length e < usize_bound \<Longrightarrow> reads_back json_ok (value_tag v) e"
  obtains es where "b = encode_u64_leb128 (of_nat (length es)) @ concat (map entry_row es)"
    and "list_all (\<lambda>(k, v). (\<exists>t. is_scalar_value_tag t \<and> reads_back json_ok t k) \<and> (\<exists>t. reads_back json_ok t v)) es"
    and "unat (of_nat (length es) :: u64) = length es" and "sorted_wrt (<) (map fst es)"
    and "list_all2 (\<lambda>(k, v) (kb, vb). is_scalar_key k \<and> encode_tagged k = Ok kb \<and> encode_tagged v = Ok vb) (sort_key key_bytes kvs) es"
proof -
  from assms(1) obtain raw where raw: "collect_map (\<lambda>(k, v). if \<not> is_scalar_key k then Err (BadSchema ''canonical map key must be scalar'')
        else and_then (encode_tagged k) (\<lambda>kb. and_then (encode_tagged v) (\<lambda>vb. Ok (kb, vb)))) kvs = Ok raw"
    and w: "windows2 (\<lambda>a b. fst a \<noteq> fst b) (sort_key fst raw)"
    and b: "b = encode_u64_leb128 (of_nat (length (sort_key fst raw))) @ concat (map entry_row (sort_key fst raw))"
    by (auto simp: canonicalize_map_def canonicalize_map_entries_def Let_def result_simps append_u64_leb128_eq split: if_splits)
  let ?es = "sort_key fst raw"
  have enc: "\<exists>kb vb. is_scalar_key k \<and> encode_tagged k = Ok kb \<and> encode_tagged v = Ok vb" if "(k, v) \<in> set kvs" for k v
    using collect_map_set(1) [OF raw that] by (auto simp: result_simps split: if_splits)
  have "raw = map (\<lambda>(k, v). (the_ok (encode_tagged k), the_ok (encode_tagged v))) kvs"
    unfolding collect_map_the_ok [OF raw] using enc by (intro map_cong) fastforce+
  then have es: "?es = map (\<lambda>(k, v). (the_ok (encode_tagged k), the_ok (encode_tagged v))) (sort_key key_bytes kvs)"
    by (auto simp: sort_key_map key_bytes_def case_prod_beta intro!: arg_cong [where f = "map _"] sort_key_cong_set)
  have r1: "b = encode_u64_leb128 (of_nat (length ?es)) @ concat (map entry_row ?es)" by (rule b)
  have rb: "list_all (\<lambda>(k, v). (\<exists>t. is_scalar_value_tag t \<and> reads_back json_ok t k) \<and> (\<exists>t. reads_back json_ok t v)) ?es"
    unfolding list_all_iff
  proof (clarify, goal_cases)
    case (1 kb vb)
    then obtain k v where kv: "(k, v) \<in> set kvs" "is_scalar_key k" "encode_tagged k = Ok kb" "encode_tagged v = Ok vb"
      using enc unfolding es by force
    have "kb @ vb \<in> set (map entry_row ?es)" using 1 by force
    then have "length (kb @ vb) \<le> length (concat (map entry_row ?es))" by (rule length_member_concat)
    moreover have "is_scalar_value_tag (value_tag k)" using kv(2) by (cases k) (auto simp: is_scalar_value_tag_def)
    ultimately show ?case using assms(3) [OF kv(1,3)] assms(4) [OF kv(1,4)] assms(2) b by auto
  qed
  have r3: "sorted_wrt (<) (map fst ?es)"
    by (rule windows2_distinct_sorted [OF sorted_sort_key w])
  have "length (map entry_row ?es) \<le> length (concat (map entry_row ?es))"
    by (rule length_concat_ge) (use rb reads_back_nonempty in \<open>fastforce simp: list_all_iff\<close>)
  then have r4: "unat (of_nat (length ?es) :: u64) = length ?es"
    using b assms(2) by (intro unat_of_nat_count) auto
  have r5: "list_all2 (\<lambda>(k, v) (kb, vb). is_scalar_key k \<and> encode_tagged k = Ok kb \<and> encode_tagged v = Ok vb) (sort_key key_bytes kvs) ?es"
    unfolding es list_all2_map2 by (rule list.rel_refl_strong) (use enc in fastforce)
  show thesis by (rule that [OF r1 rb r4 r3 r5])
qed

lemma canonicalize_reads:
  "canonicalize_list encode_tagged vs = Ok b \<Longrightarrow> length b < usize_bound \<Longrightarrow>
     (\<And>v e. v \<in> set vs \<Longrightarrow> encode_tagged v = Ok e \<Longrightarrow> length e < usize_bound \<Longrightarrow> reads_back json_ok (value_tag v) e) \<Longrightarrow>
     validate_payload_inner json_ok VT_List (b @ rest) = Ok (length b)"
  "canonicalize_struct encode_tagged fs = Ok b \<Longrightarrow> length b < usize_bound \<Longrightarrow>
     (\<And>i v e. (i, v) \<in> set fs \<Longrightarrow> encode_tagged v = Ok e \<Longrightarrow> length e < usize_bound \<Longrightarrow> reads_back json_ok (value_tag v) e) \<Longrightarrow>
     validate_payload_inner json_ok VT_Struct (b @ rest) = Ok (length b)"
  "canonicalize_map is_scalar_key encode_tagged kvs = Ok b \<Longrightarrow> length b < usize_bound \<Longrightarrow>
     (\<And>k v e. (k, v) \<in> set kvs \<Longrightarrow> encode_tagged k = Ok e \<Longrightarrow> length e < usize_bound \<Longrightarrow> reads_back json_ok (value_tag k) e) \<Longrightarrow>
     (\<And>k v e. (k, v) \<in> set kvs \<Longrightarrow> encode_tagged v = Ok e \<Longrightarrow> length e < usize_bound \<Longrightarrow> reads_back json_ok (value_tag v) e) \<Longrightarrow>
     validate_payload_inner json_ok VT_Map (b @ rest) = Ok (length b)"
proof goal_cases
  case 1
  from canonicalize_list_rows [OF 1] obtain es where es: "b = encode_u64_leb128 (of_nat (length es)) @ concat es"
    "list_all (\<lambda>e. \<exists>t. reads_back json_ok t e) es" "unat (of_nat (length es) :: u64) = length es" by blast
  with 1(2) list_loop_reads [OF es(2), of "encode_u64_leb128 (of_nat (length es))" rest]
  show ?case by (simp add: validate_payload_inner.simps)
next
  case 2
  obtain es where es: "b = encode_u64_leb128 (of_nat (length es)) @ concat (map field_row es)"
    "list_all (\<lambda>(_, e). \<exists>t. reads_back json_ok t e) es" "sorted_wrt (<) (map fst es)" "unat (of_nat (length es) :: u64) = length es"
    by (rule canonicalize_struct_rows [OF 2(1,2), of json_ok]) (use 2(3) in blast)+
  with 2(2) struct_loop_reads [OF es(2,3), of None "encode_u64_leb128 (of_nat (length es))" rest]
  show ?case by (simp add: validate_payload_inner.simps)
next
  case 3
  obtain es where es: "b = encode_u64_leb128 (of_nat (length es)) @ concat (map entry_row es)"
    "list_all (\<lambda>(k, v). (\<exists>t. is_scalar_value_tag t \<and> reads_back json_ok t k) \<and> (\<exists>t. reads_back json_ok t v)) es"
    "sorted_wrt (<) (map fst es)" "unat (of_nat (length es) :: u64) = length es"
    by (rule canonicalize_map_rows [OF 3(1,2), of json_ok]) (use 3(3,4) in blast)+
  with 3(2) map_loop_reads [OF es(2,3), of None "encode_u64_leb128 (of_nat (length es))" rest]
  show ?case by (simp add: validate_payload_inner.simps)
qed

lemma encode_reads:
  "canonical_wf json_ok v \<Longrightarrow> CanonicalValue_encode v = Ok b \<Longrightarrow> length b < usize_bound \<Longrightarrow>
     validate_payload_inner json_ok (value_tag v) (b @ rest) = Ok (length b)"
proof (induction "size v" arbitrary: v b rest rule: less_induct)
  case less
  have elem: "reads_back json_ok (value_tag x) e"
    if prems: "size x < size v" "canonical_wf json_ok x" "encode_tagged x = Ok e" "length e < usize_bound" for x e
  proof -
    obtain c where c: "CanonicalValue_encode x = Ok c" "length c \<le> length e"
      using prems(3) by (auto simp: encode_tagged_eq result_simps)
    show ?thesis
      by (rule reads_back_tagged [OF _ c(1) prems(4,3)]) (rule less.hyps, use prems c in auto)
  qed
  show ?case
  proof (cases v)
    case (CV_List vs)
    then show ?thesis
      using less.prems by (auto simp: CanonicalValue_encode.simps list_all_iff size_nested_values intro!: canonicalize_reads(1) elem)
  next
    case (CV_Struct fs)
    then show ?thesis
      using less.prems by (auto simp: CanonicalValue_encode.simps list_all_iff size_nested_values intro!: canonicalize_reads(2) elem)
  next
    case (CV_Map kvs)
    then show ?thesis
      using less.prems by (auto simp: CanonicalValue_encode.simps list_all_iff size_nested_values intro!: canonicalize_reads(3) elem)
  qed (use less.prems in \<open>auto simp: validate_payload_inner.simps validate_min_width_Ok decode_length_prefixed_prefix dest: encode_width_length\<close>)
qed

text \<open>C38: 
  The validator accepts every canonical encoding as exactly one value of the tag, also when other bytes
  follow; and whatever the bytes, it returns, without a panic and without claiming more bytes than there are.
\<close>

theorem canonical_encoding_validates:
  assumes "canonical_wf json_ok v" and "CanonicalValue_encode v = Ok b" and "length b < usize_bound"
  shows "validate_canonical_payload json_ok (value_tag v) b = Ok () \<and>
    validate_payload_inner json_ok (value_tag v) (b @ rest) = Ok (length b) \<and>
    validate_payload_inner json_ok tag bs \<noteq> Panic \<and>
    (case validate_payload_inner json_ok tag bs of Ok n \<Rightarrow> n \<le> length bs | _ \<Rightarrow> True)"
  using encode_reads [OF assms, of rest] encode_reads [OF assms, of "[]"] validate_payload_inner_no_panic validator_bounds(1)
  by (auto simp: validate_canonical_payload_def split: result.split)

definition sample_value :: CanonicalValue where
  "sample_value = CV_Map [(CV_Utf8 [0x62], CV_Struct [(7, CV_Int 2 (- 1)), (3, CV_Null)]), (CV_Uint 1 5, CV_List [CV_Bool True])]"

lemma sample_value_encode:
  "CanonicalValue_encode sample_value =
     Ok [2, 4, 5, 0, 0, 0, 0, 0, 0, 0, 16, 1, 2, 12, 1, 0x62, 17, 2, 3, 0, 7, 3, 255, 255, 255, 255, 255, 255, 255, 255]"
  by code_simp

lemma canonical_encoding_validates_witness:
  "validate_canonical_payload (\<lambda>_. False) VT_Map
     [2, 4, 5, 0, 0, 0, 0, 0, 0, 0, 16, 1, 2, 12, 1, 0x62, 17, 2, 3, 0, 7, 3, 255, 255, 255, 255, 255, 255, 255, 255] = Ok ()"
  using canonical_encoding_validates [OF _ sample_value_encode, of "\<lambda>_. False"]
  by (simp add: sample_value_def utf8_valid.simps)

end
