(* ===== verification/Canonical_Identity.thy ===== *)
theory Canonical_Identity
  imports Canonical
begin

text \<open>
  Canonical encodings as identities (\<open>cove-core/src/canonical.rs\<close>): tag and bytes agree exactly for values
  with the same normal form.
\<close>

section \<open>Canonical bytes are the identity of a value\<close>

text \<open>
  The normal form forgets what the encoding forgets: the declared width of integers, the order of struct
  fields and the order of map entries.
\<close>

fun normal :: "CanonicalValue \<Rightarrow> CanonicalValue" where
  "normal (CV_Int _ v) = CV_Int 8 v"
| "normal (CV_Uint _ v) = CV_Uint 8 v"
| "normal (CV_List es) = CV_List (map normal es)"
| "normal (CV_Struct fs) = CV_Struct (map (\<lambda>(i, v). (i, normal v)) (sort_key fst fs))"
| "normal (CV_Map es) = CV_Map (map (\<lambda>(k, v). (normal k, normal v)) (sort_key key_bytes es))"
| "normal v = v"

lemma value_tag_normal [simp]: "value_tag (normal v) = value_tag v"
  by (cases v) auto

lemma is_scalar_key_tag: "is_scalar_key v \<longleftrightarrow> is_scalar_value_tag (value_tag v)"
  by (cases v) (auto simp: is_scalar_value_tag_def)

lemma width_normal:
  "encode_i64_width w v = Ok b \<Longrightarrow> encode_i64_width 8 v = Ok b"
  "encode_u64_width w u = Ok b \<Longrightarrow> encode_u64_width 8 u = Ok b"
  by (auto simp: encode_i64_width_def encode_u64_width_def signed_range_def unsigned_max_def split: if_splits)

lemma width_inject:
  assumes "encode_i64_width w v = Ok b" "encode_i64_width w' v' = Ok b"
  shows "v = v'"
proof -
  have r: "- (2 ^ 63) \<le> sint v" "sint v < 2 ^ 63" "- (2 ^ 63) \<le> sint v'" "sint v' < 2 ^ 63"
    using assms by (auto simp: encode_i64_width_def signed_range_def split: if_splits option.splits)
  have c: "(ucast v :: i64) = ucast v'"
    using assms le_bytes_inject [of 8 "ucast v :: i64" "ucast v'"]
    by (auto simp: encode_i64_width_def split: option.splits if_splits)
  have "sint (ucast x :: i64) = sint x" if "- (2 ^ 63) \<le> sint x" "sint x < 2 ^ 63" for x :: i128
  proof -
    have "(ucast x :: i64) = scast x"
      by (simp add: down_cast_same is_down)
    then show ?thesis using that by (simp only: signed_scast_eq) (simp add: signed_take_bit_int_eq_self)
  qed
  with r c have "sint v = sint v'" by metis
  then show ?thesis by (rule signed_word_eqI)
qed

lemma unsigned_width_inject:
  assumes "encode_u64_width w v = Ok b" "encode_u64_width w' v' = Ok b"
  shows "v = v'"
proof -
  have r: "unat v < 2 ^ 64" "unat v' < 2 ^ 64"
    using assms by (auto simp: encode_u64_width_def unsigned_max_def split: if_splits option.splits)
  have "(ucast v :: u64) = ucast v'"
    using assms le_bytes_inject [of 8 "ucast v :: u64" "ucast v'"]
    by (auto simp: encode_u64_width_def split: option.splits if_splits)
  moreover have "unat (ucast x :: u64) = unat x" if "unat x < 2 ^ 64" for x :: u128
    using that by (simp add: unsigned_ucast_eq take_bit_nat_eq_self)
  ultimately have "unat v = unat v'" using r by metis
  then show ?thesis by (rule unsigned_word_eqI)
qed

lemma leb128_prefix_inject: "encode_u64_leb128 a @ x = encode_u64_leb128 b @ y \<longleftrightarrow> a = b \<and> x = y"
proof
  assume eq: "encode_u64_leb128 a @ x = encode_u64_leb128 b @ y"
  then have "decode_u64_leb128 (encode_u64_leb128 a @ x) = decode_u64_leb128 (encode_u64_leb128 b @ y)" by simp
  then have "a = b" by (simp add: decode_encode_u64_leb128)
  with eq show "a = b \<and> x = y" by simp
qed simp

lemma length_prefixed_inject: "length_prefixed s = length_prefixed t \<longleftrightarrow> s = t"
  by (auto simp: length_prefixed_def append_u64_leb128_eq leb128_prefix_inject)

lemma tagged_inject:
  assumes "encode_tagged v = Ok e" "encode_tagged w = Ok e"
  obtains b where "value_tag v = value_tag w" "CanonicalValue_encode v = Ok b" "CanonicalValue_encode w = Ok b" "length b \<le> length e"
proof -
  obtain b c where b: "CanonicalValue_encode v = Ok b" "CanonicalValue_encode w = Ok c"
    and e: "e = encode_u64_leb128 (ucast (ValueTag_code (value_tag v))) @ b" "e = encode_u64_leb128 (ucast (ValueTag_code (value_tag w))) @ c"
    using assms by (auto simp: encode_tagged_eq result_simps)
  then have "(ucast (ValueTag_code (value_tag v)) :: u64) = ucast (ValueTag_code (value_tag w))" "b = c"
    by (metis leb128_prefix_inject)+
  moreover from this have "value_tag v = value_tag w"
    by (metis unat_ucast_tag(2) valueTag.decode_code option.inject)
  ultimately show thesis using that b e by simp
qed

lemma prefix_free_concat:
  assumes "\<And>x y r s. x \<in> set xs \<Longrightarrow> y \<in> set ys \<Longrightarrow> f x @ r = f y @ s \<Longrightarrow> x = y"
    and "length xs = length ys" and "concat (map f xs) = concat (map f ys)"
  shows "xs = ys"
  using assms(2,1,3)
proof (induction rule: list_induct2)
  case (Cons x xs y ys)
  have "x = y" using Cons.prems(2) by (intro Cons.prems(1)) auto
  moreover have "xs = ys" using Cons \<open>x = y\<close> by (intro Cons.IH) auto
  ultimately show ?case by simp
qed simp

lemma reads_back_inject:
  assumes "reads_back j t e" "reads_back j t' e'" "e @ r = e' @ s"
  shows "e = e'"
proof -
  have "length e = length e'"
    using reads_backD [OF assms(1), of r] reads_backD [OF assms(2), of s] assms(3) by simp
  with assms(3) show ?thesis by simp
qed

lemma rows_equal:
  assumes "encode_u64_leb128 (of_nat (length es)) @ concat (map f es) = encode_u64_leb128 (of_nat (length es')) @ concat (map f es')"
    and "unat (of_nat (length es) :: u64) = length es" "unat (of_nat (length es') :: u64) = length es'"
    and "\<And>x y r s. x \<in> set es \<Longrightarrow> y \<in> set es' \<Longrightarrow> f x @ r = f y @ s \<Longrightarrow> x = y"
  shows "es = es'"
proof -
  from assms(1) have eq: "(of_nat (length es) :: u64) = of_nat (length es')" "concat (map f es) = concat (map f es')"
    by (auto simp: leb128_prefix_inject)
  then have "length es = length es'" using assms(2,3) by metis
  with eq(2) show ?thesis by (intro prefix_free_concat [of es es' f] assms(4)) auto
qed

text \<open>Two lists whose elements encode to the same rows.\<close>

lemma map_eq_rows:
  fixes P :: "'v \<Rightarrow> 'r \<Rightarrow> bool"
  assumes "list_all2 P xs es" "list_all2 P ys es"
    and "\<And>x y r. x \<in> set xs \<Longrightarrow> y \<in> set ys \<Longrightarrow> r \<in> set es \<Longrightarrow> P x r \<Longrightarrow> P y r \<Longrightarrow> g x = g y"
  shows "map g xs = map g ys"
  using assms
proof (induction es arbitrary: xs ys rule: list.induct)
  case (Cons e es)
  then obtain x xs' y ys' where "xs = x # xs'" "ys = y # ys'" "P x e" "P y e" "list_all2 P xs' es" "list_all2 P ys' es"
    by (auto simp: list_all2_Cons2)
  moreover from this have "g x = g y" by (intro Cons.prems(3) [of x y e]) auto
  moreover have "map g xs' = map g ys'"
    using calculation by (intro Cons.IH Cons.prems(3)) auto
  ultimately show ?case by simp
qed auto

lemma list_inject:
  assumes enc: "canonicalize_list encode_tagged vs = Ok b" "canonicalize_list encode_tagged ws = Ok b" and b: "length b < usize_bound"
    and reads: "\<And>v e. v \<in> set vs \<union> set ws \<Longrightarrow> encode_tagged v = Ok e \<Longrightarrow> length e < usize_bound \<Longrightarrow> reads_back j (value_tag v) e"
    and elem: "\<And>x y e. x \<in> set vs \<Longrightarrow> y \<in> set ws \<Longrightarrow> encode_tagged x = Ok e \<Longrightarrow> encode_tagged y = Ok e \<Longrightarrow> length e < usize_bound \<Longrightarrow> normal x = normal y"
  shows "map normal vs = map normal ws"
proof -
  obtain es where es: "b = encode_u64_leb128 (of_nat (length es)) @ concat es"
    "list_all (\<lambda>e. \<exists>t. reads_back j t e) es" "unat (of_nat (length es) :: u64) = length es" "list_all2 (\<lambda>v e. encode_tagged v = Ok e) vs es"
    by (rule canonicalize_list_rows [OF enc(1) b, of j]) (use reads in blast)+
  obtain fs where fs: "b = encode_u64_leb128 (of_nat (length fs)) @ concat fs"
    "list_all (\<lambda>e. \<exists>t. reads_back j t e) fs" "unat (of_nat (length fs) :: u64) = length fs" "list_all2 (\<lambda>v e. encode_tagged v = Ok e) ws fs"
    by (rule canonicalize_list_rows [OF enc(2) b, of j]) (use reads in blast)+
  have "x = y" if "x \<in> set es" "y \<in> set fs" "x @ r = y @ s" for x y r s
    using es(2) fs(2) that by (auto simp: list_all_iff dest!: bspec intro: reads_back_inject)
  then have "es = fs" using es(1,3) fs(1,3) by - (rule rows_equal [where f = "\<lambda>e. e"], auto)
  show ?thesis
  proof (rule map_eq_rows [OF es(4) fs(4) [folded \<open>es = fs\<close>]])
    fix x y e assume xy: "x \<in> set vs" "y \<in> set ws" "encode_tagged x = Ok e" "encode_tagged y = Ok e" and e: "e \<in> set es"
    show "normal x = normal y"
      by (rule elem [OF xy]) (use length_member_concat [OF e] es(1) b in simp)
  qed
qed

lemma struct_inject:
  assumes enc: "canonicalize_struct encode_tagged vs = Ok b" "canonicalize_struct encode_tagged ws = Ok b" and b: "length b < usize_bound"
    and reads: "\<And>i v e. (i, v) \<in> set vs \<union> set ws \<Longrightarrow> encode_tagged v = Ok e \<Longrightarrow> length e < usize_bound \<Longrightarrow> reads_back j (value_tag v) e"
    and elem: "\<And>i k x y e. (i, x) \<in> set vs \<Longrightarrow> (k, y) \<in> set ws \<Longrightarrow> encode_tagged x = Ok e \<Longrightarrow> encode_tagged y = Ok e \<Longrightarrow> length e < usize_bound \<Longrightarrow> normal x = normal y"
  shows "map (\<lambda>(i, v). (i, normal v)) (sort_key fst vs) = map (\<lambda>(i, v). (i, normal v)) (sort_key fst ws)"
proof -
  obtain es where es: "b = encode_u64_leb128 (of_nat (length es)) @ concat (map field_row es)"
    "list_all (\<lambda>(_, e). \<exists>t. reads_back j t e) es" "unat (of_nat (length es) :: u64) = length es"
    "list_all2 (\<lambda>(i, v) (k, e). i = k \<and> encode_tagged v = Ok e) (sort_key fst vs) es"
    by (rule canonicalize_struct_rows [OF enc(1) b, of j]) (use reads in blast)+
  obtain fs where fs: "b = encode_u64_leb128 (of_nat (length fs)) @ concat (map field_row fs)"
    "list_all (\<lambda>(_, e). \<exists>t. reads_back j t e) fs" "unat (of_nat (length fs) :: u64) = length fs"
    "list_all2 (\<lambda>(i, v) (k, e). i = k \<and> encode_tagged v = Ok e) (sort_key fst ws) fs"
    by (rule canonicalize_struct_rows [OF enc(2) b, of j]) (use reads in blast)+
  have "x = y" if "x \<in> set es" "y \<in> set fs" "field_row x @ r = field_row y @ s" for x y r s
  proof -
    have "\<exists>t. reads_back j t (snd x)" "\<exists>t. reads_back j t (snd y)"
      using that(1,2) es(2) fs(2) by (auto simp: list_all_iff split_beta)
    with that(3) show ?thesis
      by (cases x; cases y) (auto simp: leb128_prefix_inject intro: reads_back_inject)
  qed
  then have "es = fs" using es(1,3) fs(1,3) by - (rule rows_equal [where f = field_row], auto)
  show ?thesis
  proof (rule map_eq_rows [OF es(4) fs(4) [folded \<open>es = fs\<close>]], clarsimp)
    fix i x y e assume xy: "(i, x) \<in> set vs" "(i, y) \<in> set ws" "encode_tagged x = Ok e" "encode_tagged y = Ok e" and e: "(i, e) \<in> set es"
    have "length (field_row (i, e)) \<le> length (concat (map field_row es))"
      by (rule length_member_concat) (use e in force)
    then show "normal x = normal y" using es(1) b by (intro elem [OF xy]) simp
  qed
qed

lemma map_inject:
  assumes enc: "canonicalize_map is_scalar_key encode_tagged vs = Ok b" "canonicalize_map is_scalar_key encode_tagged ws = Ok b"
    and b: "length b < usize_bound"
    and reads: "\<And>k v x e. (k, v) \<in> set vs \<union> set ws \<Longrightarrow> x \<in> {k, v} \<Longrightarrow> encode_tagged x = Ok e \<Longrightarrow> length e < usize_bound \<Longrightarrow> reads_back j (value_tag x) e"
    and elem: "\<And>k v l w x y e. (k, v) \<in> set vs \<Longrightarrow> (l, w) \<in> set ws \<Longrightarrow> x \<in> {k, v} \<Longrightarrow> y \<in> {l, w} \<Longrightarrow>
      encode_tagged x = Ok e \<Longrightarrow> encode_tagged y = Ok e \<Longrightarrow> length e < usize_bound \<Longrightarrow> normal x = normal y"
  shows "map (\<lambda>(k, v). (normal k, normal v)) (sort_key key_bytes vs) = map (\<lambda>(k, v). (normal k, normal v)) (sort_key key_bytes ws)"
proof -
  obtain es where es: "b = encode_u64_leb128 (of_nat (length es)) @ concat (map entry_row es)"
    "list_all (\<lambda>(k, v). (\<exists>t. is_scalar_value_tag t \<and> reads_back j t k) \<and> (\<exists>t. reads_back j t v)) es"
    "unat (of_nat (length es) :: u64) = length es"
    "list_all2 (\<lambda>(k, v) (kb, vb). is_scalar_key k \<and> encode_tagged k = Ok kb \<and> encode_tagged v = Ok vb) (sort_key key_bytes vs) es"
    by (rule canonicalize_map_rows [OF enc(1) b, of j]) (use reads in blast)+
  obtain fs where fs: "b = encode_u64_leb128 (of_nat (length fs)) @ concat (map entry_row fs)"
    "list_all (\<lambda>(k, v). (\<exists>t. is_scalar_value_tag t \<and> reads_back j t k) \<and> (\<exists>t. reads_back j t v)) fs"
    "unat (of_nat (length fs) :: u64) = length fs"
    "list_all2 (\<lambda>(k, v) (kb, vb). is_scalar_key k \<and> encode_tagged k = Ok kb \<and> encode_tagged v = Ok vb) (sort_key key_bytes ws) fs"
    by (rule canonicalize_map_rows [OF enc(2) b, of j]) (use reads in blast)+
  have "x = y" if xy: "x \<in> set es" "y \<in> set fs" "entry_row x @ r = entry_row y @ s" for x y r s
  proof -
    have "\<exists>t. reads_back j t (fst x)" "\<exists>t. reads_back j t (fst y)" "\<exists>t. reads_back j t (snd x)" "\<exists>t. reads_back j t (snd y)"
      using xy(1,2) es(2) fs(2) by (auto simp: list_all_iff split_beta)
    moreover from this have "fst x = fst y" using xy(3) by (auto simp: split_beta intro: reads_back_inject)
    ultimately have "snd x = snd y" using xy(3) by (auto simp: split_beta intro: reads_back_inject)
    with \<open>fst x = fst y\<close> show ?thesis by (rule prod_eqI)
  qed
  then have "es = fs" using es(1,3) fs(1,3) by - (rule rows_equal [where f = entry_row], auto)
  show ?thesis
  proof (rule map_eq_rows [OF es(4) fs(4) [folded \<open>es = fs\<close>]], clarsimp)
    fix k x l y kb vb assume xy: "(k, x) \<in> set vs" "(l, y) \<in> set ws" and e: "(kb, vb) \<in> set es"
      and enc: "encode_tagged k = Ok kb" "encode_tagged l = Ok kb" "encode_tagged x = Ok vb" "encode_tagged y = Ok vb"
    have "length (entry_row (kb, vb)) \<le> length (concat (map entry_row es))"
      by (rule length_member_concat) (use e in force)
    then have len: "length kb < usize_bound" "length vb < usize_bound" using es(1) b by simp_all
    show "normal k = normal l \<and> normal x = normal y"
      using elem [OF xy _ _ enc(1,2) len(1)] elem [OF xy _ _ enc(3,4) len(2)] by simp
  qed
qed

lemma canonical_encode_inject:
  "canonical_wf j v \<Longrightarrow> canonical_wf j w \<Longrightarrow> CanonicalValue_encode v = Ok b \<Longrightarrow> CanonicalValue_encode w = Ok b \<Longrightarrow>
     value_tag v = value_tag w \<Longrightarrow> length b < usize_bound \<Longrightarrow> normal v = normal w"
proof (induction "size v" arbitrary: v w b rule: less_induct)
  case less
  have elem: "normal x = normal y"
    if prems: "size x < size v" "canonical_wf j x" "canonical_wf j y" "encode_tagged x = Ok e" "encode_tagged y = Ok e" "length e < usize_bound"
    for x y e
    using less.hyps [OF prems(1-3)] tagged_inject [OF prems(4,5)] prems(6) by (metis order_le_less_trans)
  have reads: "reads_back j (value_tag x) e"
    if "canonical_wf j x" and enc: "encode_tagged x = Ok e" and len: "length e < usize_bound" for x e
  proof -
    obtain c where c: "CanonicalValue_encode x = Ok c" "length c \<le> length e"
      using enc by (auto simp: encode_tagged_eq result_simps)
    show ?thesis
      by (rule reads_back_tagged [OF _ c(1) len enc]) (rule encode_reads, use that c len in auto)
  qed
  show ?case
  proof (cases v)
    case v: (CV_List vs)
    then obtain ws where w: "w = CV_List ws" using less.prems(5) by (cases w) (auto split: if_splits)
    have "map normal vs = map normal ws"
      by (rule list_inject [of vs b ws j])
        (use less.prems v w in \<open>auto simp: CanonicalValue_encode.simps list_all_iff size_nested_values intro: elem reads\<close>)
    then show ?thesis by (simp add: v w)
  next
    case v: (CV_Struct vs)
    then obtain ws where w: "w = CV_Struct ws" using less.prems(5) by (cases w) (auto split: if_splits)
    have "map (\<lambda>(i, v). (i, normal v)) (sort_key fst vs) = map (\<lambda>(i, v). (i, normal v)) (sort_key fst ws)"
      by (rule struct_inject [of vs b ws j])
        (use less.prems v w in \<open>auto simp: CanonicalValue_encode.simps list_all_iff size_nested_values intro: elem reads\<close>)
    then show ?thesis by (simp add: v w)
  next
    case v: (CV_Map vs)
    then obtain ws where w: "w = CV_Map ws" using less.prems(5) by (cases w) (auto split: if_splits)
    have "map (\<lambda>(k, v). (normal k, normal v)) (sort_key key_bytes vs) = map (\<lambda>(k, v). (normal k, normal v)) (sort_key key_bytes ws)"
      by (rule map_inject [of vs b ws j])
        (use less.prems v w in \<open>auto simp: CanonicalValue_encode.simps list_all_iff size_nested_values intro: elem reads\<close>)
    then show ?thesis by (simp add: v w)
  qed (use less.prems in \<open>cases w; auto simp: length_prefixed_inject split: if_splits dest: width_inject unsigned_width_inject dest!: le_bytes_inject [rotated]\<close>)+
qed
lemma collect_map_map: "collect_map f (map g xs) = collect_map (\<lambda>x. f (g x)) xs"
  by (induction xs) auto

lemma collect_map_mono:
  "collect_map f xs = Ok ys \<Longrightarrow> (\<And>x y. x \<in> set xs \<Longrightarrow> f x = Ok y \<Longrightarrow> g x = Ok y) \<Longrightarrow> collect_map g xs = Ok ys"
  by (induction xs arbitrary: ys) (auto simp: result_simps)

lemma windows2_map: "windows2 P (map g xs) \<longleftrightarrow> windows2 (\<lambda>a b. P (g a) (g b)) xs"
  by (simp add: windows2_nth)

lemma collect_map_perm:
  assumes "collect_map f xs = Ok ys" "set xs' = set xs"
  shows "collect_map f xs' = Ok (map (\<lambda>x. the_ok (f x)) xs')"
proof (rule collect_map_Ok)
  fix x assume "x \<in> set xs'"
  with assms obtain y where "f x = Ok y" using collect_map_set(1) [OF assms(1)] by auto
  then show "f x = Ok (the_ok (f x))" by simp
qed

lemma struct_normal:
  assumes "canonicalize_struct encode_tagged fs = Ok b"
    and tagged: "\<And>i x e. (i, x) \<in> set fs \<Longrightarrow> encode_tagged x = Ok e \<Longrightarrow> encode_tagged (normal x) = Ok e"
  shows "canonicalize_struct encode_tagged (map (\<lambda>(i, v). (i, normal v)) (sort_key fst fs)) = Ok b"
proof -
  let ?fs = "sort_key fst fs" and ?enc = "\<lambda>(i, v). map_result (\<lambda>b. encode_u64_leb128 i @ b) (encode_tagged v)"
  from assms(1) obtain rows where rows: "collect_map ?enc ?fs = Ok rows" and w: "windows2 (\<lambda>a b. fst a \<noteq> fst b) ?fs"
    and b: "b = encode_u64_leb128 (of_nat (length ?fs)) @ concat rows"
    by (auto simp: canonicalize_struct_def Let_def result_simps append_u64_leb128_eq split: if_splits)
  have sorted: "sort_key fst (map (\<lambda>(i, v). (i, normal v)) ?fs) = map (\<lambda>(i, v). (i, normal v)) ?fs"
    by (rule sort_key_id_if_sorted) (simp add: comp_def split_beta)
  have "collect_map ?enc (map (\<lambda>(i, v). (i, normal v)) ?fs) = Ok rows"
    unfolding collect_map_map
    by (rule collect_map_mono [OF rows]) (auto simp: result_simps, blast intro: tagged)
  then show ?thesis
    using w by (simp add: canonicalize_struct_def Let_def sorted windows2_map split_beta append_u64_leb128_eq b)
qed

lemma map_normal:
  assumes "canonicalize_map is_scalar_key encode_tagged es = Ok b"
    and tagged: "\<And>k v x e. (k, v) \<in> set es \<Longrightarrow> x \<in> {k, v} \<Longrightarrow> encode_tagged x = Ok e \<Longrightarrow> encode_tagged (normal x) = Ok e"
  shows "canonicalize_map is_scalar_key encode_tagged (map (\<lambda>(k, v). (normal k, normal v)) (sort_key key_bytes es)) = Ok b"
proof -
  let ?enc = "\<lambda>(k, v). if \<not> is_scalar_key k then Err (BadSchema ''canonical map key must be scalar'')
        else and_then (encode_tagged k) (\<lambda>kb. and_then (encode_tagged v) (\<lambda>vb. Ok (kb, vb)))"
  from assms(1) obtain raw where raw: "collect_map ?enc es = Ok raw"
    and w: "windows2 (\<lambda>a b. fst a \<noteq> fst b) (sort_key fst raw)"
    and b: "b = encode_u64_leb128 (of_nat (length (sort_key fst raw))) @ concat (map entry_row (sort_key fst raw))"
    by (auto simp: canonicalize_map_def canonicalize_map_entries_def Let_def result_simps append_u64_leb128_eq split: if_splits)
  have key: "fst (the_ok (?enc p)) = key_bytes p" if "p \<in> set es" for p
    using collect_map_set(1) [OF raw that] by (auto simp: key_bytes_def result_simps split_beta split: if_splits)
  have sorted: "sort_key fst raw = map (\<lambda>p. the_ok (?enc p)) (sort_key key_bytes es)"
    unfolding collect_map_the_ok [OF raw] sort_key_map
    by (rule arg_cong [where f = "map _"], rule sort_key_cong_set) (rule key)
  have "collect_map ?enc (sort_key key_bytes es) = Ok (sort_key fst raw)"
    unfolding sorted by (rule collect_map_perm [OF raw]) simp
  then have "collect_map ?enc (map (\<lambda>(k, v). (normal k, normal v)) (sort_key key_bytes es)) = Ok (sort_key fst raw)"
    unfolding collect_map_map
    by (rule collect_map_mono)
      (auto simp: result_simps is_scalar_key_tag split: if_splits dest: tagged [of _ _ _, OF _ insertI1] tagged [of _ _ _, OF _ insertI2 [OF insertI1]])
  moreover have "sort_key fst (sort_key fst raw) = sort_key fst raw"
    by (rule sort_key_id_if_sorted) simp
  ultimately show ?thesis
    using w by (simp add: canonicalize_map_def canonicalize_map_entries_def append_u64_leb128_eq b)
qed

lemma encode_normal: "CanonicalValue_encode v = Ok b \<Longrightarrow> CanonicalValue_encode (normal v) = Ok b"
proof (induction "size v" arbitrary: v b rule: less_induct)
  case less
  have tagged: "encode_tagged (normal x) = Ok e" if "size x < size v" "encode_tagged x = Ok e" for x e
    using less.hyps [OF that(1)] that(2) by (auto simp: encode_tagged_eq result_simps)
  show ?case
  proof (cases v)
    case v: (CV_List es)
    with less.prems obtain ys where "collect_map encode_tagged es = Ok ys" "b = encode_u64_leb128 (of_nat (length es)) @ concat ys"
      by (auto simp: CanonicalValue_encode.simps canonicalize_list_def result_simps append_u64_leb128_eq)
    moreover have "collect_map encode_tagged (map normal es) = Ok ys"
      unfolding collect_map_map by (rule collect_map_mono [OF calculation(1)]) (rule tagged, auto simp: v size_nested_values)
    ultimately show ?thesis by (simp add: v CanonicalValue_encode.simps canonicalize_list_def append_u64_leb128_eq)
  next
    case v: (CV_Struct fs)
    then show ?thesis
      using less.prems by (auto simp: CanonicalValue_encode.simps size_nested_values intro!: struct_normal tagged)
  next
    case v: (CV_Map es)
    then show ?thesis
      using less.prems by (auto simp: CanonicalValue_encode.simps size_nested_values intro!: map_normal intro: tagged)
  qed (use less.prems in \<open>auto dest: width_normal\<close>)
qed

text \<open>C6: 
  The canonical bytes are the identity of a value: two encodable values have the same tag and the same bytes
  exactly when they have the same normal form, so when they differ at most in the declared width of
  integers, the order of struct fields and the order of map entries.
\<close>

theorem canonical_bytes_identity:
  assumes "canonical_wf json_ok v" and "canonical_wf json_ok w"
    and "CanonicalValue_encode v = Ok b" and "CanonicalValue_encode w = Ok c" and "length b < usize_bound"
  shows "value_tag v = value_tag w \<and> b = c \<longleftrightarrow> normal v = normal w"
proof
  assume "value_tag v = value_tag w \<and> b = c"
  then show "normal v = normal w"
    using canonical_encode_inject [OF assms(1,2,3)] assms(4,5) by simp
next
  assume eq: "normal v = normal w"
  have "Ok b = Ok c"
    using encode_normal [OF assms(3)] encode_normal [OF assms(4)] by (simp add: eq)
  moreover have "value_tag v = value_tag w"
    by (metis value_tag_normal eq)
  ultimately show "value_tag v = value_tag w \<and> b = c" by simp
qed

definition sample_reordered :: CanonicalValue where
  "sample_reordered = CV_Map [(CV_Uint 1 5, CV_List [CV_Bool True]), (CV_Utf8 [0x62], CV_Struct [(3, CV_Null), (7, CV_Int 4 (- 1))])]"

lemma sample_reordered_encode:
  "CanonicalValue_encode sample_reordered =
     Ok [2, 4, 5, 0, 0, 0, 0, 0, 0, 0, 16, 1, 2, 12, 1, 0x62, 17, 2, 3, 0, 7, 3, 255, 255, 255, 255, 255, 255, 255, 255]"
  by code_simp

lemma sample_values_wf:
  "canonical_wf (\<lambda>_. False) sample_value" "canonical_wf (\<lambda>_. False) sample_reordered"
  "value_tag sample_value = VT_Map" "value_tag sample_reordered = VT_Map"
  by code_simp+

lemma canonical_bytes_identity_witness: "normal sample_value = normal sample_reordered"
  using canonical_bytes_identity [OF sample_values_wf(1,2) sample_value_encode sample_reordered_encode]
  by (simp add: sample_values_wf(3,4))

end
