(* ===== verification/Dictionary.thy ===== *)
theory Dictionary
  imports Canonical Encoding
begin

text \<open>
  The file dictionary (\<open>cove-core/src/dictionary.rs\<close>): an index of fixed-size entries and a payload
  section, the eager and the lazy reader, and the deterministic assignment of FileCodes to canonical keys.
  The theorems show that assigned codes decode to their keys in key order, that both readers agree and
  what a parsed dictionary guarantees.
\<close>

section \<open>UTF-8 errors\<close>

text \<open>
  The \<open>Utf8Error\<close> of the standard library: the index up to which the text is valid and the length of the
  invalid sequence, \<open>None\<close> where the text ends inside one.
\<close>

fun utf8_check :: "nat \<Rightarrow> bytes \<Rightarrow> (nat \<times> nat option) option" where
  "utf8_check i [] = None"
| "utf8_check i (b # bs) =
     (if b \<le> 0x7F then utf8_check (i + 1) bs
      else if 0xC2 \<le> b \<and> b \<le> 0xDF
      then (case bs of [] \<Rightarrow> Some (i, None)
            | c # bs' \<Rightarrow> if \<not> utf8_cont c then Some (i, Some 1) else utf8_check (i + 2) bs')
      else if 0xE0 \<le> b \<and> b \<le> 0xEF
      then (case bs of [] \<Rightarrow> Some (i, None)
            | c # bs' \<Rightarrow>
                if \<not> (utf8_cont c \<and> (b = 0xE0 \<longrightarrow> 0xA0 \<le> c) \<and> (b = 0xED \<longrightarrow> c \<le> 0x9F)) then Some (i, Some 1)
                else (case bs' of [] \<Rightarrow> Some (i, None)
                      | d # bs'' \<Rightarrow> if \<not> utf8_cont d then Some (i, Some 2) else utf8_check (i + 3) bs''))
      else if 0xF0 \<le> b \<and> b \<le> 0xF4
      then (case bs of [] \<Rightarrow> Some (i, None)
            | c # bs' \<Rightarrow>
                if \<not> (utf8_cont c \<and> (b = 0xF0 \<longrightarrow> 0x90 \<le> c) \<and> (b = 0xF4 \<longrightarrow> c \<le> 0x8F)) then Some (i, Some 1)
                else (case bs' of [] \<Rightarrow> Some (i, None)
                      | d # bs'' \<Rightarrow>
                          if \<not> utf8_cont d then Some (i, Some 2)
                          else (case bs'' of [] \<Rightarrow> Some (i, None)
                                | e # bs''' \<Rightarrow> if \<not> utf8_cont e then Some (i, Some 3) else utf8_check (i + 4) bs''')))
      else Some (i, Some 1))"

lemma utf8_check_valid: "utf8_check i bs = None \<longleftrightarrow> utf8_valid bs"
  by (induction i bs rule: utf8_check.induct) (auto split: list.splits)

definition utf8_error_display :: "nat \<times> nat option \<Rightarrow> string" where
  "utf8_error_display e =
     (case snd e of
        Some n \<Rightarrow> ''invalid utf-8 sequence of '' @ show_nat n @ '' bytes from index '' @ show_nat (fst e)
      | None \<Rightarrow> ''incomplete utf-8 byte sequence from index '' @ show_nat (fst e))"

section \<open>Header\<close>

definition DICT_HEADER_SIZE :: usize where "DICT_HEADER_SIZE = 44"
definition DICT_INDEX_ENTRY_SIZE :: usize where "DICT_INDEX_ENTRY_SIZE = 48"

record FileDictionaryHeaderV1 =
  dh_entry_count :: u32
  dh_flags :: u32
  dh_index_entry_len :: u16
  dh_value_hash_algorithm :: u16
  dh_payload_length :: u64
  dh_reserved :: bytes

definition INDEX_ENTRY_LEN :: u16 where "INDEX_ENTRY_LEN = 48"

definition FileDictionaryHeaderV1_serialize :: "FileDictionaryHeaderV1 \<Rightarrow> bytes" where
  "FileDictionaryHeaderV1_serialize h =
     (let buf = replicate DICT_HEADER_SIZE 0;
          buf = put 0 (le_bytes 4 (dh_entry_count h)) buf;
          buf = put 4 (le_bytes 4 (dh_flags h)) buf;
          buf = put 8 (le_bytes 2 (dh_index_entry_len h)) buf;
          buf = put 10 (le_bytes 2 (dh_value_hash_algorithm h)) buf;
          buf = put 12 (le_bytes 8 (dh_payload_length h)) buf;
          buf = put 20 (dh_reserved h) buf
      in buf)"

definition FileDictionaryHeaderV1_parse :: "bytes \<Rightarrow> FileDictionaryHeaderV1 result" where
  "FileDictionaryHeaderV1_parse buf =
     (if length buf < DICT_HEADER_SIZE then Err BufferTooShort
      else if u16_at buf 8 \<noteq> INDEX_ENTRY_LEN
      then Err (BadSection (''index_entry_len is '' @ show_nat (unat (u16_at buf 8)) @ '', expected '' @ show_nat (unat INDEX_ENTRY_LEN)))
      else if u16_at buf 10 > 2
      then Err (BadSection (''unknown value_hash_algorithm '' @ show_nat (unat (u16_at buf 10))))
      else if list_ex (\<lambda>b. b \<noteq> 0) (slice 20 24 buf) then Err ReservedNotZero
      else Ok \<lparr>dh_entry_count = u32_at buf 0, dh_flags = u32_at buf 4, dh_index_entry_len = u16_at buf 8,
               dh_value_hash_algorithm = u16_at buf 10, dh_payload_length = u64_at buf 12, dh_reserved = slice 20 24 buf\<rparr>)"

definition header_wf :: "FileDictionaryHeaderV1 \<Rightarrow> bool" where
  "header_wf h \<longleftrightarrow> dh_index_entry_len h = 48 \<and> dh_value_hash_algorithm h \<le> 2 \<and> dh_reserved h = replicate 24 0"

lemma length_header_serialize [simp]: "length (FileDictionaryHeaderV1_serialize h) = 44"
  by (simp add: FileDictionaryHeaderV1_serialize_def DICT_HEADER_SIZE_def Let_def)

lemma header_parse_serialize:
  assumes "header_wf h"
  shows "FileDictionaryHeaderV1_parse (FileDictionaryHeaderV1_serialize h @ rest) = Ok h"
proof -
  let ?b = "FileDictionaryHeaderV1_serialize h"
  have len: "length (dh_reserved h) = 24" using assms by (simp add: header_wf_def)
  have "u32_at ?b 0 = dh_entry_count h" "u32_at ?b 4 = dh_flags h" "u16_at ?b 8 = dh_index_entry_len h"
    "u16_at ?b 10 = dh_value_hash_algorithm h" "u64_at ?b 12 = dh_payload_length h" "slice 20 24 ?b = dh_reserved h"
    by (simp_all add: FileDictionaryHeaderV1_serialize_def DICT_HEADER_SIZE_def Let_def wire_simps len)
  then show ?thesis
    using assms
    by (simp add: FileDictionaryHeaderV1_parse_def DICT_HEADER_SIZE_def wire_simps header_wf_def INDEX_ENTRY_LEN_def list_ex_iff not_less)
qed

section \<open>Index entries\<close>

record FileDictionaryIndexEntryV1 =
  de_value_tag :: u16
  de_storage_class :: u8
  de_flags :: u8
  de_inline_len :: u8
  de_reserved0 :: bytes
  de_inline_data :: bytes
  de_payload_offset :: u64
  de_payload_length :: u32
  de_canonical_hash64 :: u64
  de_reserved1 :: u32

definition FileDictionaryIndexEntryV1_serialize :: "FileDictionaryIndexEntryV1 \<Rightarrow> bytes" where
  "FileDictionaryIndexEntryV1_serialize e =
     (let buf = replicate DICT_INDEX_ENTRY_SIZE 0;
          buf = put 0 (le_bytes 2 (de_value_tag e)) buf;
          buf = put 2 [de_storage_class e] buf;
          buf = put 3 [de_flags e] buf;
          buf = put 4 [de_inline_len e] buf;
          buf = put 5 (de_reserved0 e) buf;
          buf = put 8 (de_inline_data e) buf;
          buf = put 24 (le_bytes 8 (de_payload_offset e)) buf;
          buf = put 32 (le_bytes 4 (de_payload_length e)) buf;
          buf = put 36 (le_bytes 8 (de_canonical_hash64 e)) buf;
          buf = put 44 (le_bytes 4 (de_reserved1 e)) buf
      in buf)"

definition FileDictionaryIndexEntryV1_parse :: "bytes \<Rightarrow> FileDictionaryIndexEntryV1 result" where
  "FileDictionaryIndexEntryV1_parse buf =
     (if length buf < DICT_INDEX_ENTRY_SIZE then Err BufferTooShort
      else if list_ex (\<lambda>b. b \<noteq> 0) (slice 5 3 buf) then Err ReservedNotZero
      else if u32_at buf 44 \<noteq> 0 then Err ReservedNotZero
      else if ValueTag_from_u16 (u16_at buf 0) = None
      then Err (BadSection (''unknown value_tag '' @ show_nat (unat (u16_at buf 0)) @ '' in dictionary index entry''))
      else if StorageClass_from_u8 (buf ! 2) = None
      then Err (BadSection (''unknown storage_class '' @ show_nat (unat (buf ! 2)) @ '' in dictionary index entry''))
      else if unat (buf ! 4) > 16
      then Err (BadSection (''inline_len '' @ show_nat (unat (buf ! 4)) @ '' exceeds inline_data capacity (16)''))
      else Ok \<lparr>de_value_tag = u16_at buf 0, de_storage_class = buf ! 2, de_flags = buf ! 3, de_inline_len = buf ! 4,
               de_reserved0 = slice 5 3 buf, de_inline_data = slice 8 16 buf, de_payload_offset = u64_at buf 24,
               de_payload_length = u32_at buf 32, de_canonical_hash64 = u64_at buf 36, de_reserved1 = u32_at buf 44\<rparr>)"

definition entry_wf :: "FileDictionaryIndexEntryV1 \<Rightarrow> bool" where
  "entry_wf e \<longleftrightarrow> de_reserved0 e = replicate 3 0 \<and> length (de_inline_data e) = 16 \<and> de_reserved1 e = 0
     \<and> ValueTag_from_u16 (de_value_tag e) \<noteq> None \<and> StorageClass_from_u8 (de_storage_class e) \<noteq> None \<and> unat (de_inline_len e) \<le> 16"

lemma length_entry_serialize [simp]: "length (FileDictionaryIndexEntryV1_serialize e) = 48"
  by (simp add: FileDictionaryIndexEntryV1_serialize_def DICT_INDEX_ENTRY_SIZE_def Let_def)

lemma entry_fields:
  assumes "length (de_inline_data e) = 16" and "length (de_reserved0 e) = 3" and "b = FileDictionaryIndexEntryV1_serialize e"
  shows "u16_at b 0 = de_value_tag e" "b ! 2 = de_storage_class e" "b ! 3 = de_flags e" "b ! 4 = de_inline_len e"
    "slice 5 3 b = de_reserved0 e" "slice 8 16 b = de_inline_data e" "u64_at b 24 = de_payload_offset e"
    "u32_at b 32 = de_payload_length e" "u64_at b 36 = de_canonical_hash64 e" "u32_at b 44 = de_reserved1 e"
  unfolding assms(3)
  by (simp_all add: FileDictionaryIndexEntryV1_serialize_def DICT_INDEX_ENTRY_SIZE_def Let_def wire_simps assms(1,2))

lemma entry_serialize_inject:
  assumes "length (de_inline_data e) = 16" "length (de_reserved0 e) = 3" "length (de_inline_data f) = 16" "length (de_reserved0 f) = 3"
    and "FileDictionaryIndexEntryV1_serialize e = FileDictionaryIndexEntryV1_serialize f"
  shows "e = (f :: FileDictionaryIndexEntryV1)"
  using entry_fields [OF assms(1,2) refl] entry_fields [OF assms(3,4) assms(5)]
  by (intro FileDictionaryIndexEntryV1.equality) simp_all

lemma entry_parse_serialize:
  assumes "entry_wf e"
  shows "FileDictionaryIndexEntryV1_parse (FileDictionaryIndexEntryV1_serialize e @ rest) = Ok e"
proof -
  let ?b = "FileDictionaryIndexEntryV1_serialize e"
  have "length (de_inline_data e) = 16" "length (de_reserved0 e) = 3" using assms by (simp_all add: entry_wf_def)
  note entry_fields [OF this refl]
  then show ?thesis
    using assms
    by (simp add: FileDictionaryIndexEntryV1_parse_def DICT_INDEX_ENTRY_SIZE_def wire_simps entry_wf_def list_ex_iff not_less nth_append)
qed

lemma entry_parse_wf: "FileDictionaryIndexEntryV1_parse buf = Ok e \<Longrightarrow> entry_wf e"
  by (auto simp: FileDictionaryIndexEntryV1_parse_def DICT_INDEX_ENTRY_SIZE_def entry_wf_def list_ex_iff not_less
      split: if_splits intro!: nth_equalityI)

interpretation dictionary_entry: fixed_codec 48 "\<lambda>e. Ok (FileDictionaryIndexEntryV1_serialize e)" FileDictionaryIndexEntryV1_parse entry_wf
  by unfold_locales (auto simp: entry_parse_serialize)

lemma dictionary_entry_image [simp]: "dictionary_entry.image = FileDictionaryIndexEntryV1_serialize"
  by (rule ext) (simp add: dictionary_entry.image_def)

interpretation dictionary_header: fixed_codec 44 "\<lambda>h. Ok (FileDictionaryHeaderV1_serialize h)" FileDictionaryHeaderV1_parse header_wf
  by unfold_locales (auto simp: header_parse_serialize)

definition validate_payload_bounds :: "FileDictionaryIndexEntryV1 \<Rightarrow> u64 \<Rightarrow> unit result" where
  "validate_payload_bounds e payload_total_len =
     (let end' = unat (de_payload_offset e) + unat (de_payload_length e) in
      if end' \<ge> 2 ^ 64 then Err ArithOverflow
      else if end' > unat payload_total_len then Err OffsetRange
      else Ok ())"

datatype DictionaryValue = RawBytes bytes | RedactedPresent

text \<open>\<open>validate_dictionary_entry\<close> and \<open>decode_dictionary_entry\<close>\<close>

definition stored_class :: "FileDictionaryIndexEntryV1 \<Rightarrow> StorageClass result" where
  "stored_class e = ok_or (StorageClass_from_u8 (de_storage_class e)) (BadSection ''invalid storage class'')"

definition stored_tag :: "FileDictionaryIndexEntryV1 \<Rightarrow> ValueTag result" where
  "stored_tag e = ok_or (ValueTag_from_u16 (de_value_tag e)) (BadSection ''invalid value tag'')"

definition inline_bytes :: "FileDictionaryIndexEntryV1 \<Rightarrow> bytes result" where
  "inline_bytes e =
     (if unat (de_inline_len e) > length (de_inline_data e) then Panic
      else Ok (take (unat (de_inline_len e)) (de_inline_data e)))"

definition payload_bytes :: "FileDictionaryIndexEntryV1 \<Rightarrow> bytes \<Rightarrow> bytes result" where
  "payload_bytes e payload_section =
     read_range_checked payload_section (unat (de_payload_offset e)) (unat (de_payload_length e))"

definition validate_dictionary_entry ::
  "(bytes \<Rightarrow> bool) \<Rightarrow> FileDictionaryIndexEntryV1 \<Rightarrow> bytes \<Rightarrow> u64 \<Rightarrow> unit result" where
  "validate_dictionary_entry json_ok e payload_section payload_total_len =
     and_then (validate_payload_bounds e payload_total_len) (\<lambda>_.
     and_then (stored_class e) (\<lambda>storage_class.
     case storage_class of
       Storage_Inline \<Rightarrow>
         if de_payload_length e \<noteq> 0 then Err (BadSection ''inline storage must not use payload bytes'')
         else and_then (inline_bytes e) (\<lambda>bs. and_then (stored_tag e) (\<lambda>t. validate_canonical_payload json_ok t bs))
     | Storage_Payload \<Rightarrow>
         if de_inline_len e \<noteq> 0 then Err (BadSection ''payload storage must not use inline bytes'')
         else and_then (payload_bytes e payload_section) (\<lambda>bs. and_then (stored_tag e) (\<lambda>t. validate_canonical_payload json_ok t bs))
     | Storage_Redacted \<Rightarrow>
         if ValueTag_from_u16 (de_value_tag e) = Some VT_Null then Err (BadSection ''redacted value must not be null'')
         else Ok ()))"

definition decode_dictionary_entry :: "FileDictionaryIndexEntryV1 \<Rightarrow> bytes \<Rightarrow> DictionaryValue result" where
  "decode_dictionary_entry e payload_section =
     and_then (stored_class e) (\<lambda>storage_class.
     case storage_class of
       Storage_Redacted \<Rightarrow> Ok RedactedPresent
     | Storage_Inline \<Rightarrow> map_result RawBytes (inline_bytes e)
     | Storage_Payload \<Rightarrow> map_result RawBytes (payload_bytes e payload_section))"

section \<open>The lazy view\<close>

record FileDictionaryView =
  dv_header :: FileDictionaryHeaderV1
  dv_index_section :: bytes
  dv_payload_section :: bytes

definition FileDictionaryView_parse :: "bytes \<Rightarrow> bytes \<Rightarrow> FileDictionaryView result" where
  "FileDictionaryView_parse index_section payload_section =
     (if length index_section < DICT_HEADER_SIZE then Err BufferTooShort
      else and_then (FileDictionaryHeaderV1_parse (take DICT_HEADER_SIZE index_section)) (\<lambda>header.
           and_then (checked_mul (unat (dh_entry_count header)) (unat (dh_index_entry_len header))) (\<lambda>entries_bytes.
           and_then (checked_add DICT_HEADER_SIZE entries_bytes) (\<lambda>expected.
           if length index_section \<noteq> expected then Err (BadSection ''dictionary index section length mismatch'')
           else if length payload_section \<noteq> unat (dh_payload_length header)
           then Err (BadSection ''dictionary payload section length mismatch'')
           else Ok \<lparr>dv_header = header, dv_index_section = index_section, dv_payload_section = payload_section\<rparr>))))"

definition FileDictionaryView_get_entry :: "FileDictionaryView \<Rightarrow> u32 \<Rightarrow> FileDictionaryIndexEntryV1 result" where
  "FileDictionaryView_get_entry v file_code =
     (if file_code \<ge> dh_entry_count (dv_header v) then Err BadFileCode
      else and_then (checked_mul (unat file_code) DICT_INDEX_ENTRY_SIZE) (\<lambda>o1.
           and_then (checked_add DICT_HEADER_SIZE o1) (\<lambda>off.
           if off + DICT_INDEX_ENTRY_SIZE > length (dv_index_section v) then Panic
           else FileDictionaryIndexEntryV1_parse (slice off DICT_INDEX_ENTRY_SIZE (dv_index_section v)))))"

definition FileDictionaryView_validate_all :: "(bytes \<Rightarrow> bool) \<Rightarrow> FileDictionaryView \<Rightarrow> unit result" where
  "FileDictionaryView_validate_all json_ok v =
     try_each (\<lambda>code.
       and_then (FileDictionaryView_get_entry v (of_nat code)) (\<lambda>e.
       validate_dictionary_entry json_ok e (dv_payload_section v) (dh_payload_length (dv_header v))))
     [0..<unat (dh_entry_count (dv_header v))]"

definition FileDictionaryView_decode_value :: "FileDictionaryView \<Rightarrow> u32 \<Rightarrow> DictionaryValue result" where
  "FileDictionaryView_decode_value v file_code =
     and_then (FileDictionaryView_get_entry v file_code) (\<lambda>e. decode_dictionary_entry e (dv_payload_section v))"

definition FileDictionaryView_len :: "FileDictionaryView \<Rightarrow> u32" where
  "FileDictionaryView_len v = dh_entry_count (dv_header v)"

definition FileDictionaryView_is_empty :: "FileDictionaryView \<Rightarrow> bool" where
  "FileDictionaryView_is_empty v \<longleftrightarrow> dh_entry_count (dv_header v) = 0"

section \<open>The parsed dictionary\<close>

record FileDictionary =
  fd_header :: FileDictionaryHeaderV1
  fd_entries :: "FileDictionaryIndexEntryV1 list"
  fd_payload :: bytes

definition FileDictionary_parse :: "(bytes \<Rightarrow> bool) \<Rightarrow> bytes \<Rightarrow> bytes \<Rightarrow> FileDictionary result" where
  "FileDictionary_parse json_ok index_section payload_section =
     and_then (FileDictionaryView_parse index_section payload_section) (\<lambda>view.
     and_then (FileDictionaryView_validate_all json_ok view) (\<lambda>_.
     and_then (collect_map (\<lambda>code. FileDictionaryView_get_entry view (of_nat code)) [0..<unat (dh_entry_count (dv_header view))]) (\<lambda>entries.
     Ok \<lparr>fd_header = dv_header view, fd_entries = entries, fd_payload = payload_section\<rparr>)))"

definition FileDictionary_len :: "FileDictionary \<Rightarrow> u32" where
  "FileDictionary_len d = dh_entry_count (fd_header d)"

definition FileDictionary_is_empty :: "FileDictionary \<Rightarrow> bool" where
  "FileDictionary_is_empty d \<longleftrightarrow> dh_entry_count (fd_header d) = 0"

definition FileDictionary_get_entry :: "FileDictionary \<Rightarrow> u32 \<Rightarrow> FileDictionaryIndexEntryV1 result" where
  "FileDictionary_get_entry d file_code =
     (if unat file_code < length (fd_entries d) then Ok (fd_entries d ! unat file_code) else Err BadFileCode)"

definition FileDictionary_decode_value :: "FileDictionary \<Rightarrow> u32 \<Rightarrow> DictionaryValue result" where
  "FileDictionary_decode_value d file_code =
     and_then (FileDictionary_get_entry d file_code) (\<lambda>e. decode_dictionary_entry e (fd_payload d))"

section \<open>Keys and assignment of FileCodes\<close>

datatype FileDictionaryKey = FileDictionaryKey (fk_value_tag: u16) (fk_canonical: bytes)

text \<open>\<open>derive(PartialOrd, Ord)\<close>: tag first, then the bytes.\<close>

instantiation FileDictionaryKey :: linorder
begin

definition less_eq_FileDictionaryKey :: "FileDictionaryKey \<Rightarrow> FileDictionaryKey \<Rightarrow> bool" where
  "less_eq_FileDictionaryKey k l \<longleftrightarrow> fk_value_tag k < fk_value_tag l \<or> (fk_value_tag k = fk_value_tag l \<and> fk_canonical k \<le> fk_canonical l)"

definition less_FileDictionaryKey :: "FileDictionaryKey \<Rightarrow> FileDictionaryKey \<Rightarrow> bool" where
  "less_FileDictionaryKey k l \<longleftrightarrow> fk_value_tag k < fk_value_tag l \<or> (fk_value_tag k = fk_value_tag l \<and> fk_canonical k < fk_canonical l)"

instance
  by standard (auto simp: less_eq_FileDictionaryKey_def less_FileDictionaryKey_def intro: FileDictionaryKey.expand)

end

primrec CoveLogicalType_debug :: "CoveLogicalType \<Rightarrow> string" where
  "CoveLogicalType_debug LT_Null = ''Null''"
| "CoveLogicalType_debug LT_Bool = ''Bool''"
| "CoveLogicalType_debug LT_Int8 = ''Int8''"
| "CoveLogicalType_debug LT_Int16 = ''Int16''"
| "CoveLogicalType_debug LT_Int32 = ''Int32''"
| "CoveLogicalType_debug LT_Int64 = ''Int64''"
| "CoveLogicalType_debug LT_UInt8 = ''UInt8''"
| "CoveLogicalType_debug LT_UInt16 = ''UInt16''"
| "CoveLogicalType_debug LT_UInt32 = ''UInt32''"
| "CoveLogicalType_debug LT_UInt64 = ''UInt64''"
| "CoveLogicalType_debug LT_Float32 = ''Float32''"
| "CoveLogicalType_debug LT_Float64 = ''Float64''"
| "CoveLogicalType_debug LT_Decimal64 = ''Decimal64''"
| "CoveLogicalType_debug LT_Decimal128 = ''Decimal128''"
| "CoveLogicalType_debug LT_DateDays = ''DateDays''"
| "CoveLogicalType_debug LT_TimestampMicros = ''TimestampMicros''"
| "CoveLogicalType_debug LT_TimestampNanos = ''TimestampNanos''"
| "CoveLogicalType_debug LT_Utf8 = ''Utf8''"
| "CoveLogicalType_debug LT_Binary = ''Binary''"
| "CoveLogicalType_debug LT_Uuid = ''Uuid''"
| "CoveLogicalType_debug LT_Json = ''Json''"
| "CoveLogicalType_debug LT_List = ''List''"
| "CoveLogicalType_debug LT_Struct = ''Struct''"
| "CoveLogicalType_debug LT_Map = ''Map''"

definition logical_canonical :: "CoveLogicalType \<Rightarrow> bytes \<Rightarrow> CanonicalValue result" where
  "logical_canonical logical v =
     (if logical = LT_Utf8
      then (case utf8_check 0 v of
              None \<Rightarrow> Ok (CV_Utf8 v)
            | Some e \<Rightarrow> Err (BadSection (''invalid UTF-8 dictionary value: '' @ utf8_error_display e)))
      else if logical = LT_Binary then Ok (CV_Bytes v)
      else Err (BadSchema (''logical type '' @ CoveLogicalType_debug logical @ '' is not eligible for FileCode dictionary synthesis'')))"

definition from_logical_bytes :: "CoveLogicalType \<Rightarrow> bytes \<Rightarrow> FileDictionaryKey result" where
  "from_logical_bytes logical v =
     and_then (logical_canonical logical v) (\<lambda>cv.
     and_then (CanonicalValue_encode cv) (\<lambda>canonical.
     Ok (FileDictionaryKey (ValueTag_code (value_tag cv)) canonical)))"

text \<open>A \<open>BTreeSet\<close> and a \<open>BTreeMap\<close> are iterated in ascending key order; here they are that sequence.\<close>

definition btree_set :: "'a::linorder list \<Rightarrow> 'a list" where
  "btree_set xs = remdups_adj (sort xs)"

record FileDictionaryEncoding =
  fe_dictionary :: FileDictionary
  fe_assignments :: "(FileDictionaryKey \<times> u32) list"

fun assign_codes :: "nat \<Rightarrow> FileDictionaryKey list \<Rightarrow> (FileDictionaryKey \<times> u32) list result" where
  "assign_codes code [] = Ok []"
| "assign_codes code (key # keys) =
     (if code \<ge> 2 ^ 32 then Err (BadSchema ''dictionary entry count exceeds u32::MAX'')
      else and_then (assign_codes (Suc code) keys) (\<lambda>rest. Ok ((key, of_nat code) # rest)))"

text \<open>The loop of \<open>build_file_dictionary\<close> over the assignments, with the payload written so far.\<close>

fun build_loop :: "nat \<Rightarrow> bytes \<Rightarrow> (FileDictionaryKey \<times> u32) list \<Rightarrow> (FileDictionaryIndexEntryV1 list \<times> bytes) result" where
  "build_loop expected_code payload [] = Ok ([], payload)"
| "build_loop expected_code payload ((key, assigned_code) # rest) =
     (if expected_code \<ge> 2 ^ 32 then Err ArithOverflow
      else if assigned_code \<noteq> of_nat expected_code then Err BadFileCode
      else let n = length (fk_canonical key);
               entry = \<lambda>class inline_len inline_data offset len.
                 \<lparr>de_value_tag = fk_value_tag key, de_storage_class = StorageClass_code class, de_flags = 0,
                  de_inline_len = inline_len, de_reserved0 = replicate 3 0, de_inline_data = inline_data,
                  de_payload_offset = offset, de_payload_length = len, de_canonical_hash64 = 0, de_reserved1 = 0\<rparr>
           in if n \<le> 16
              then and_then (build_loop (Suc expected_code) payload rest) (\<lambda>(es, p).
                   Ok (entry Storage_Inline (of_nat n) (put 0 (fk_canonical key) (replicate 16 0)) 0 0 # es, p))
              else if n \<ge> 2 ^ 32 then Err ArithOverflow
              else and_then (build_loop (Suc expected_code) (payload @ fk_canonical key) rest) (\<lambda>(es, p).
                   Ok (entry Storage_Payload 0 (replicate 16 0) (of_nat (length payload)) (of_nat n) # es, p)))"

definition index_bytes :: "FileDictionary \<Rightarrow> bytes" where
  "index_bytes d = FileDictionaryHeaderV1_serialize (fd_header d) @ concat (map FileDictionaryIndexEntryV1_serialize (fd_entries d))"

definition build_file_dictionary :: "(bytes \<Rightarrow> bool) \<Rightarrow> (FileDictionaryKey \<times> u32) list \<Rightarrow> FileDictionary result" where
  "build_file_dictionary json_ok assignments =
     (if length assignments \<ge> 2 ^ 32 then Err (BadSchema ''dictionary entry count exceeds u32::MAX'')
      else and_then (build_loop 0 [] assignments) (\<lambda>(entries, payload).
           let dictionary = \<lparr>fd_header = \<lparr>dh_entry_count = of_nat (length assignments), dh_flags = 0, dh_index_entry_len = INDEX_ENTRY_LEN,
                 dh_value_hash_algorithm = 0, dh_payload_length = of_nat (length payload), dh_reserved = replicate 24 0\<rparr>,
                 fd_entries = entries, fd_payload = payload\<rparr>
           in and_then (FileDictionary_parse json_ok (index_bytes dictionary) payload) (\<lambda>_. Ok dictionary)))"

definition from_keys :: "(bytes \<Rightarrow> bool) \<Rightarrow> FileDictionaryKey list \<Rightarrow> FileDictionaryEncoding result" where
  "from_keys json_ok keys =
     and_then (assign_codes 0 (btree_set keys)) (\<lambda>assignments.
     and_then (build_file_dictionary json_ok assignments) (\<lambda>dictionary.
     Ok \<lparr>fe_dictionary = dictionary, fe_assignments = assignments\<rparr>))"

definition file_code_for_key :: "FileDictionaryEncoding \<Rightarrow> FileDictionaryKey \<Rightarrow> u32 result" where
  "file_code_for_key enc key = ok_or (map_of (fe_assignments enc) key) BadFileCode"

definition file_code_for_logical_bytes :: "FileDictionaryEncoding \<Rightarrow> CoveLogicalType \<Rightarrow> bytes \<Rightarrow> u32 result" where
  "file_code_for_logical_bytes enc logical v =
     and_then (from_logical_bytes logical v) (\<lambda>key. file_code_for_key enc key)"

text \<open>\<open>try_fold\<close> over the keys of the set\<close>

fun payload_len_fold :: "nat \<Rightarrow> FileDictionaryKey list \<Rightarrow> usize result" where
  "payload_len_fold n [] = Ok n"
| "payload_len_fold n (key # keys) =
     and_then (if length (fk_canonical key) \<le> 16 then Ok n else checked_add n (length (fk_canonical key))) (\<lambda>n'.
     payload_len_fold n' keys)"

definition file_dictionary_candidate_len :: "FileDictionaryKey list \<Rightarrow> usize \<Rightarrow> usize result" where
  "file_dictionary_candidate_len unique row_count =
     and_then (checked_mul (length unique) DICT_INDEX_ENTRY_SIZE) (\<lambda>index_len.
     and_then (checked_mul row_count 4) (\<lambda>key_len.
     and_then (payload_len_fold 0 unique) (\<lambda>payload_len.
     and_then (checked_add DICT_HEADER_SIZE index_len) (\<lambda>t.
     and_then (checked_add t payload_len) (\<lambda>t'. checked_add t' key_len)))))"

section \<open>Reading is the inverse of writing\<close>

lemma header_serialize_parse:
  assumes "FileDictionaryHeaderV1_parse buf = Ok h" and "length buf = 44"
  shows "header_wf h \<and> FileDictionaryHeaderV1_serialize h = buf"
proof -
  have h: "h = \<lparr>dh_entry_count = u32_at buf 0, dh_flags = u32_at buf 4, dh_index_entry_len = u16_at buf 8,
               dh_value_hash_algorithm = u16_at buf 10, dh_payload_length = u64_at buf 12, dh_reserved = slice 20 24 buf\<rparr>"
    and z: "\<forall>b \<in> set (slice 20 24 buf). b = 0" and "u16_at buf 8 = 48" "u16_at buf 10 \<le> 2"
    using assms by (auto simp: FileDictionaryHeaderV1_parse_def INDEX_ENTRY_LEN_def list_ex_iff not_less split: if_splits)
  moreover have "slice 20 24 buf = replicate 24 0"
    using z assms(2) by (intro nth_equalityI) auto
  ultimately have "header_wf h" by (simp add: header_wf_def)
  moreover have "FileDictionaryHeaderV1_serialize h = buf"
    unfolding h using assms(2)
    by (intro nth_equalityI)
      (auto simp: FileDictionaryHeaderV1_serialize_def DICT_HEADER_SIZE_def Let_def nth_put nth_slice le_bytes_from_le)
  ultimately show ?thesis ..
qed

lemma entry_serialize_parse:
  assumes "FileDictionaryIndexEntryV1_parse buf = Ok e" and "length buf = 48"
  shows "FileDictionaryIndexEntryV1_serialize e = buf"
proof -
  have e: "e = \<lparr>de_value_tag = u16_at buf 0, de_storage_class = buf ! 2, de_flags = buf ! 3, de_inline_len = buf ! 4,
               de_reserved0 = slice 5 3 buf, de_inline_data = slice 8 16 buf, de_payload_offset = u64_at buf 24,
               de_payload_length = u32_at buf 32, de_canonical_hash64 = u64_at buf 36, de_reserved1 = u32_at buf 44\<rparr>"
    using assms by (auto simp: FileDictionaryIndexEntryV1_parse_def split: if_splits)
  show ?thesis
    unfolding e
    by (intro nth_equalityI,
        auto simp: assms(2) FileDictionaryIndexEntryV1_serialize_def DICT_INDEX_ENTRY_SIZE_def Let_def nth_put nth_slice le_bytes_from_le,
        (rule arg_cong [where f = "(!) buf"], linarith)+)
qed

text \<open>What the parser demands of a dictionary.\<close>

definition dictionary_shape :: "FileDictionary \<Rightarrow> bool" where
  "dictionary_shape d \<longleftrightarrow> header_wf (fd_header d) \<and> list_all entry_wf (fd_entries d)
     \<and> unat (dh_entry_count (fd_header d)) = length (fd_entries d) \<and> unat (dh_payload_length (fd_header d)) = length (fd_payload d)"

definition dictionary_wf :: "(bytes \<Rightarrow> bool) \<Rightarrow> FileDictionary \<Rightarrow> bool" where
  "dictionary_wf json_ok d \<longleftrightarrow> dictionary_shape d
     \<and> list_all (\<lambda>e. validate_dictionary_entry json_ok e (fd_payload d) (dh_payload_length (fd_header d)) = Ok ()) (fd_entries d)"

definition view_of :: "FileDictionary \<Rightarrow> FileDictionaryView" where
  "view_of d = \<lparr>dv_header = fd_header d, dv_index_section = index_bytes d, dv_payload_section = fd_payload d\<rparr>"

lemma length_index_bytes: "length (index_bytes d) = 44 + length (fd_entries d) * 48"
  by (simp add: index_bytes_def length_concat_uniform [where w = 48])

lemma index_entry_slice:
  assumes "i < length (fd_entries d)"
  shows "slice (44 + i * 48) 48 (index_bytes d) = FileDictionaryIndexEntryV1_serialize (fd_entries d ! i)"
proof -
  have "slice (i * 48) 48 (concat (map FileDictionaryIndexEntryV1_serialize (fd_entries d)) @ []) = FileDictionaryIndexEntryV1_serialize (fd_entries d ! i)"
    by (rule slice_concat_uniform [OF _ assms]) simp
  then show ?thesis by (simp add: index_bytes_def slice_append_right)
qed

lemma dictionary_count: "unat (dh_entry_count h) < 2 ^ 32"
  using unat_less_power [of "dh_entry_count h"] by simp

lemma view_get_entry:
  assumes "unat (dh_entry_count (fd_header d)) = length (fd_entries d)"
  shows "FileDictionaryView_get_entry (view_of d) c =
    (if unat c < length (fd_entries d) then FileDictionaryIndexEntryV1_parse (FileDictionaryIndexEntryV1_serialize (fd_entries d ! unat c))
     else Err BadFileCode)"
proof -
  have "unat c * 48 < usize_bound" "44 + unat c * 48 < usize_bound"
    using unat_less_power [of c] by simp_all
  moreover have "44 + unat c * 48 + 48 \<le> length (index_bytes d)" if "unat c < length (fd_entries d)"
    using that by (simp add: length_index_bytes)
  ultimately show ?thesis
    by (auto simp: FileDictionaryView_get_entry_def view_of_def DICT_INDEX_ENTRY_SIZE_def DICT_HEADER_SIZE_def checked_mul_def checked_add_def
        word_le_nat_alt assms index_entry_slice)
qed

lemma entry_parse_back: "entry_wf e \<Longrightarrow> FileDictionaryIndexEntryV1_parse (FileDictionaryIndexEntryV1_serialize e) = Ok e"
  using entry_parse_serialize [of e "[]"] by simp

lemma view_get_entry_shape:
  assumes "dictionary_shape d"
  shows "FileDictionaryView_get_entry (view_of d) c = FileDictionary_get_entry d c"
  using assms by (simp add: dictionary_shape_def view_get_entry FileDictionary_get_entry_def list_all_length entry_parse_back)

lemma view_parse_back:
  assumes "header_wf (fd_header d)" and "unat (dh_entry_count (fd_header d)) = length (fd_entries d)"
    and "unat (dh_payload_length (fd_header d)) = length (fd_payload d)"
  shows "FileDictionaryView_parse (index_bytes d) (fd_payload d) = Ok (view_of d)"
proof -
  have "take 44 (index_bytes d) = FileDictionaryHeaderV1_serialize (fd_header d)" by (simp add: index_bytes_def)
  then have "FileDictionaryHeaderV1_parse (take 44 (index_bytes d)) = Ok (fd_header d)"
    using header_parse_serialize [OF assms(1), of "[]"] by simp
  then show ?thesis
    using assms dictionary_count [of "fd_header d"]
    by (simp add: FileDictionaryView_parse_def DICT_HEADER_SIZE_def header_wf_def checked_mul_def checked_add_def length_index_bytes view_of_def)
qed

lemma unat_of_nat_code: "c < unat (n :: u32) \<Longrightarrow> unat (of_nat c :: u32) = c"
  using unat_less_power [of n] by (intro unat_of_nat_less) simp

lemma dictionary_parse_back:
  assumes "dictionary_wf json_ok d"
  shows "FileDictionary_parse json_ok (index_bytes d) (fd_payload d) = Ok d"
proof -
  let ?h = "fd_header d"
  have shape: "dictionary_shape d" using assms by (simp add: dictionary_wf_def)
  then have n: "unat (dh_entry_count ?h) = length (fd_entries d)" by (simp add: dictionary_shape_def)
  have get: "FileDictionaryView_get_entry (view_of d) (of_nat c) = Ok (fd_entries d ! c)" if "c < length (fd_entries d)" for c
    using that unat_of_nat_code [of c "dh_entry_count ?h"] n
    by (simp add: view_get_entry_shape [OF shape] FileDictionary_get_entry_def)
  have "FileDictionaryView_validate_all json_ok (view_of d) = Ok ()"
    using assms n by (simp add: FileDictionaryView_validate_all_def try_each_eq_Ok list_all_iff all_set_conv_all_nth get dictionary_wf_def view_of_def)
      (use get in \<open>simp add: view_of_def\<close>)
  moreover have "collect_map (\<lambda>c. FileDictionaryView_get_entry (view_of d) (of_nat c)) [0..<length (fd_entries d)] = Ok (map ((!) (fd_entries d)) [0..<length (fd_entries d)])"
    by (rule collect_map_Ok) (simp add: get)
  ultimately show ?thesis
    using shape by (simp add: FileDictionary_parse_def view_parse_back dictionary_shape_def map_nth) (simp add: view_of_def map_nth)
qed

lemma slices_rebuild:
  assumes "length xs = off + n * w"
  shows "xs = take off xs @ concat (map (\<lambda>i. slice (off + i * w) w xs) [0..<n])"
proof -
  have "concat (map (\<lambda>i. slice (off + i * w) w xs) [0..<n]) = slice off (n * w) xs"
    using concat_chunks_at [of off w n xs] by (simp add: chunks_at_def)
  also have "\<dots> = drop off xs" using assms by (simp add: slice_def)
  finally show ?thesis by simp
qed

lemma dictionary_parse_shape:
  assumes "FileDictionary_parse json_ok i p = Ok d"
  shows "dictionary_wf json_ok d \<and> i = index_bytes d \<and> p = fd_payload d"
proof -
  obtain v entries where v: "FileDictionaryView_parse i p = Ok v" "FileDictionaryView_validate_all json_ok v = Ok ()"
    and es: "collect_map (\<lambda>c. FileDictionaryView_get_entry v (of_nat c)) [0..<unat (dh_entry_count (dv_header v))] = Ok entries"
    and d: "d = \<lparr>fd_header = dv_header v, fd_entries = entries, fd_payload = p\<rparr>"
    using assms by (auto simp: FileDictionary_parse_def result_simps)
  define h n where "h = dv_header v" and "n = unat (dh_entry_count h)"
  have hp: "FileDictionaryHeaderV1_parse (take 44 i) = Ok h" "length i = 44 + n * unat (dh_index_entry_len h)"
    "length p = unat (dh_payload_length h)" "44 \<le> length i" "v = \<lparr>dv_header = h, dv_index_section = i, dv_payload_section = p\<rparr>"
    using v(1) by (auto simp: FileDictionaryView_parse_def DICT_HEADER_SIZE_def result_simps h_def n_def split: if_splits)
  then have hw: "header_wf h" "FileDictionaryHeaderV1_serialize h = take 44 i"
    using header_serialize_parse [OF hp(1)] by simp_all
  then have len: "length i = 44 + n * 48" using hp(2) by (simp add: header_wf_def)
  have n: "n < 2 ^ 32" using dictionary_count [of h] by (simp add: n_def)
  have get: "FileDictionaryView_get_entry v (of_nat c) = FileDictionaryIndexEntryV1_parse (slice (44 + c * 48) 48 i)" if "c < n" for c
  proof -
    have c: "unat (of_nat c :: u32) = c" using that n_def by (intro unat_of_nat_code) simp
    moreover have "\<not> (of_nat c :: u32) \<ge> dh_entry_count h" using that c n_def by (simp add: word_le_nat_alt)
    moreover have "44 + c * 48 + 48 \<le> length i" using that len by simp
    moreover have "44 + c * 48 < usize_bound" using that n by simp
    ultimately show ?thesis
      using hp(5) by (simp add: FileDictionaryView_get_entry_def DICT_HEADER_SIZE_def DICT_INDEX_ENTRY_SIZE_def checked_mul_def checked_add_def)
  qed
  have le: "length entries = n" using collect_map_length [OF es] by (simp add: h_def n_def)
  have entry: "FileDictionaryIndexEntryV1_parse (slice (44 + c * 48) 48 i) = Ok (entries ! c)" if "c < n" for c
    using collect_map_nth [OF es, of c] that get by (simp add: h_def n_def)
  have bk: "FileDictionaryIndexEntryV1_serialize (entries ! c) = slice (44 + c * 48) 48 i" if "c < n" for c
    using that len by (intro entry_serialize_parse [OF entry]) simp_all
  have "i = take 44 i @ concat (map (\<lambda>c. slice (44 + c * 48) 48 i) [0..<n])"
    by (rule slices_rebuild [OF len])
  also have "map (\<lambda>c. slice (44 + c * 48) 48 i) [0..<n] = map FileDictionaryIndexEntryV1_serialize entries"
    using bk le by (intro nth_equalityI) simp_all
  finally have i: "i = index_bytes d" using hw(2) by (simp add: index_bytes_def d h_def)
  have "dictionary_shape d"
    using hw(1) hp(3) le entry_parse_wf [OF entry] by (simp add: dictionary_shape_def d h_def [symmetric] n_def [symmetric] list_all_length)
  moreover have "validate_dictionary_entry json_ok (entries ! c) p (dh_payload_length h) = Ok ()" if "c < n" for c
    using v(2) that entry get hp(5) n_def
    by (simp add: FileDictionaryView_validate_all_def try_each_eq_Ok list_all_iff)
  ultimately have "dictionary_wf json_ok d"
    using le by (simp add: dictionary_wf_def d h_def [symmetric] list_all_length)
  with i d show ?thesis by simp
qed

text \<open>
  The eager parser accepts exactly the serializations of well-formed dictionaries, and returns the one it
  was given: every byte of both sections is accounted for.
\<close>

theorem dictionary_parse_exact:
  "FileDictionary_parse json_ok index_section payload_section = Ok d \<longleftrightarrow>
     dictionary_wf json_ok d \<and> index_section = index_bytes d \<and> payload_section = fd_payload d"
  using dictionary_parse_shape dictionary_parse_back by blast

lemma canonical_no_panic [simp]: "validate_canonical_payload json_ok t bs \<noteq> Panic"
  by (auto simp: validate_canonical_payload_def and_then_eq_Panic validate_payload_inner_no_panic)

definition value_sound :: "(bytes \<Rightarrow> bool) \<Rightarrow> FileDictionaryIndexEntryV1 \<Rightarrow> DictionaryValue \<Rightarrow> bool" where
  "value_sound json_ok e v \<longleftrightarrow>
     (case ValueTag_from_u16 (de_value_tag e) of None \<Rightarrow> False
      | Some t \<Rightarrow> (case v of RawBytes bs \<Rightarrow> validate_canonical_payload json_ok t bs = Ok () | RedactedPresent \<Rightarrow> t \<noteq> VT_Null))"

lemma validated_entry_decodes:
  assumes "entry_wf e" and "validate_dictionary_entry json_ok e p n = Ok ()"
  shows "\<exists>v. decode_dictionary_entry e p = Ok v \<and> value_sound json_ok e v"
proof -
  obtain t where t: "ValueTag_from_u16 (de_value_tag e) = Some t" using assms(1) by (auto simp: entry_wf_def)
  obtain c where "StorageClass_from_u8 (de_storage_class e) = Some c" using assms(1) by (auto simp: entry_wf_def)
  with t assms(2) show ?thesis
    by (cases c)
      (auto simp: validate_dictionary_entry_def decode_dictionary_entry_def result_simps stored_class_def stored_tag_def value_sound_def
        split: if_splits)
qed

text \<open>
  The lazy view and the eager dictionary agree on every FileCode, also on those out of range; and every
  FileCode of a parsed dictionary decodes, to bytes that are canonical for the tag of its entry or to a
  redacted value whose tag is not null.
\<close>

theorem dictionary_views_agree:
  assumes "FileDictionary_parse json_ok index_section payload_section = Ok d"
    and "FileDictionaryView_parse index_section payload_section = Ok v"
  shows "FileDictionary_decode_value d code = FileDictionaryView_decode_value v code \<and>
    FileDictionaryView_validate_all json_ok v = Ok () \<and>
    (if code < FileDictionaryView_len v
     then (case FileDictionary_decode_value d code of
             Ok val \<Rightarrow> value_sound json_ok (fd_entries d ! unat code) val | _ \<Rightarrow> False)
     else FileDictionary_decode_value d code = Err BadFileCode)"
proof -
  have wf: "dictionary_wf json_ok d" and i: "index_section = index_bytes d" "payload_section = fd_payload d"
    using dictionary_parse_shape [OF assms(1)] by simp_all
  then have shape: "dictionary_shape d" by (simp add: dictionary_wf_def)
  then have v: "v = view_of d"
    using assms(2) view_parse_back [of d] i by (simp add: dictionary_shape_def)
  have "FileDictionary_decode_value d code = FileDictionaryView_decode_value v code"
    using shape by (simp add: FileDictionary_decode_value_def FileDictionaryView_decode_value_def v view_get_entry_shape) (simp add: view_of_def)
  moreover have "FileDictionaryView_validate_all json_ok v = Ok ()"
    using assms by (auto simp: FileDictionary_parse_def result_simps)
  moreover have "\<exists>val. FileDictionary_decode_value d code = Ok val \<and> value_sound json_ok (fd_entries d ! unat code) val"
    if "unat code < length (fd_entries d)"
    using that wf validated_entry_decodes [of "fd_entries d ! unat code" json_ok "fd_payload d"] shape
    by (auto simp: FileDictionary_decode_value_def FileDictionary_get_entry_def dictionary_wf_def dictionary_shape_def list_all_length)
  moreover have "code < FileDictionaryView_len v \<longleftrightarrow> unat code < length (fd_entries d)"
    using shape by (simp add: v view_of_def FileDictionaryView_len_def word_less_nat_alt dictionary_shape_def)
  moreover have "\<not> unat code < length (fd_entries d) \<Longrightarrow> FileDictionary_decode_value d code = Err BadFileCode"
    by (simp add: FileDictionary_decode_value_def FileDictionary_get_entry_def)
  ultimately show ?thesis by (auto split: result.split)
qed

section \<open>Assigned codes\<close>

lemma set_btree_set [simp]: "set (btree_set xs) = set xs"
  by (simp add: btree_set_def)

lemma btree_set_strict: "sorted_wrt (<) (btree_set xs)"
  by (simp add: btree_set_def strict_sorted_iff distinct_remdups_adj)

lemma btree_set_unique: "set xs = set ys \<Longrightarrow> btree_set xs = btree_set ys"
  by (rule sorted_distinct_set_unique) (use btree_set_strict strict_sorted_iff in auto)

lemma assign_codes_Ok:
  "assign_codes c ks = Ok as \<Longrightarrow> as = zip ks (map of_nat [c..<c + length ks]) \<and> (ks = [] \<or> c + length ks \<le> 2 ^ 32)"
proof (induction ks arbitrary: c as)
  case (Cons k ks)
  then obtain r where r: "assign_codes (Suc c) ks = Ok r" "as = (k, of_nat c) # r" "c < 2 ^ 32"
    by (auto simp: result_simps split: if_splits)
  moreover have "[c..<c + length (k # ks)] = c # [Suc c..<Suc c + length ks]" by (simp add: upt_conv_Cons del: upt_Suc)
  ultimately show ?case using Cons.IH [OF r(1)] by auto
qed simp

lemma assign_codes_succeeds: "c + length ks \<le> 2 ^ 32 \<Longrightarrow> \<exists>as. assign_codes c ks = Ok as"
  by (induction ks arbitrary: c) (auto simp: result_simps)

definition entry_stores :: "bytes \<Rightarrow> FileDictionaryKey \<Rightarrow> FileDictionaryIndexEntryV1 \<Rightarrow> bool" where
  "entry_stores p k e \<longleftrightarrow> de_value_tag e = fk_value_tag k \<and> length (de_inline_data e) = 16 \<and> de_reserved0 e = replicate 3 0
     \<and> de_reserved1 e = 0 \<and> unat (de_inline_len e) \<le> 16
     \<and> (\<exists>c. c \<noteq> Storage_Redacted \<and> de_storage_class e = StorageClass_code c
         \<and> (if c = Storage_Inline then de_payload_length e = 0 \<and> de_payload_offset e = 0 \<and> inline_bytes e = Ok (fk_canonical k)
            else de_inline_len e = 0 \<and> payload_bytes e p = Ok (fk_canonical k)))"

lemma entry_stores_decode: "entry_stores p k e \<Longrightarrow> decode_dictionary_entry e p = Ok (RawBytes (fk_canonical k))"
  unfolding entry_stores_def
proof (elim conjE exE, goal_cases)
  case (1 c)
  then show ?case
    by (cases c) (simp_all add: decode_dictionary_entry_def stored_class_def StorageClass_from_u8_def split: if_splits)
qed

lemma build_loop_Ok:
  "build_loop c pl as = Ok (es, p) \<Longrightarrow> length p < usize_bound \<Longrightarrow>
     (\<exists>s. p = pl @ s) \<and> list_all2 (\<lambda>(k, _) e. entry_stores p k e) as es"
proof (induction as arbitrary: c pl es)
  case (Cons a as)
  obtain k code where a [simp]: "a = (k, code)" by force
  let ?n = "length (fk_canonical k)"
  show ?case
  proof (cases "?n \<le> 16")
    case True
    then obtain e es' where es: "es = e # es'" "build_loop (Suc c) pl as = Ok (es', p)"
      and e: "e = \<lparr>de_value_tag = fk_value_tag k, de_storage_class = StorageClass_code Storage_Inline, de_flags = 0, de_inline_len = of_nat ?n,
        de_reserved0 = replicate 3 0, de_inline_data = put 0 (fk_canonical k) (replicate 16 0), de_payload_offset = 0,
        de_payload_length = 0, de_canonical_hash64 = 0, de_reserved1 = 0\<rparr>"
      using Cons.prems(1) by (auto simp: result_simps Let_def split: if_splits)
    have "unat (of_nat ?n :: u8) = ?n" using True by (intro unat_of_nat_less) simp
    moreover have "take ?n (put 0 (fk_canonical k) (replicate 16 0)) = fk_canonical k"
      using True by (simp add: take_as_slice slice_put_same)
    ultimately have "entry_stores p k e"
      using True by (simp add: entry_stores_def e inline_bytes_def exI [of _ Storage_Inline])
    then show ?thesis using Cons.IH [OF es(2) Cons.prems(2)] es(1) by simp
  next
    case False
    then obtain e es' where es: "es = e # es'" "build_loop (Suc c) (pl @ fk_canonical k) as = Ok (es', p)" and n: "?n < 2 ^ 32"
      and e: "e = \<lparr>de_value_tag = fk_value_tag k, de_storage_class = StorageClass_code Storage_Payload, de_flags = 0, de_inline_len = 0,
        de_reserved0 = replicate 3 0, de_inline_data = replicate 16 0, de_payload_offset = of_nat (length pl),
        de_payload_length = of_nat ?n, de_canonical_hash64 = 0, de_reserved1 = 0\<rparr>"
      using Cons.prems(1) by (auto simp: result_simps Let_def split: if_splits)
    obtain s where p: "p = pl @ fk_canonical k @ s" using Cons.IH [OF es(2) Cons.prems(2)] by auto
    have "unat (of_nat (length pl) :: u64) = length pl" using Cons.prems(2) p by (intro unat_of_nat_count) simp
    moreover have "unat (of_nat ?n :: u32) = ?n" using n by (intro unat_of_nat_less) simp
    ultimately have "payload_bytes e p = Ok (fk_canonical k)"
      using Cons.prems(2) by (simp add: payload_bytes_def read_range_checked_Ok e p slice_append_right slice_append_here wire_simps)
    then have "entry_stores p k e" by (simp add: entry_stores_def e exI [of _ Storage_Payload])
    then show ?thesis using Cons.IH [OF es(2) Cons.prems(2)] es(1) p by simp
  qed
qed auto

lemma stored_entry_wf:
  assumes "entry_stores p k e" and "ValueTag_from_u16 (fk_value_tag k) \<noteq> None"
  shows "entry_wf e"
  using assms by (auto simp: entry_stores_def entry_wf_def storageClass.decode_code)

lemma index_bytes_inject:
  assumes "index_bytes d = index_bytes d'" and "header_wf (fd_header d)" "header_wf (fd_header d')" and "fd_payload d = fd_payload d'"
    and "\<And>e. e \<in> set (fd_entries d) \<union> set (fd_entries d') \<Longrightarrow> length (de_inline_data e) = 16 \<and> length (de_reserved0 e) = 3"
  shows "d = d'"
proof -
  have "take 44 (index_bytes d) = FileDictionaryHeaderV1_serialize (fd_header d)" for d by (simp add: index_bytes_def)
  with assms(1) have "FileDictionaryHeaderV1_serialize (fd_header d) = FileDictionaryHeaderV1_serialize (fd_header d')" by metis
  then have "fd_header d = fd_header d'"
    using header_parse_serialize [OF assms(2), of "[]"] header_parse_serialize [OF assms(3), of "[]"] by simp
  moreover have len: "length (fd_entries d) = length (fd_entries d')"
    using arg_cong [OF assms(1), of length] by (simp add: length_index_bytes)
  moreover have "fd_entries d = fd_entries d'"
  proof (rule nth_equalityI [OF len])
    fix i assume i: "i < length (fd_entries d)"
    then have "FileDictionaryIndexEntryV1_serialize (fd_entries d ! i) = FileDictionaryIndexEntryV1_serialize (fd_entries d' ! i)"
      using index_entry_slice [of i d] index_entry_slice [of i d'] assms(1) len by metis
    then show "fd_entries d ! i = fd_entries d' ! i"
      using assms(5) i len by (intro entry_serialize_inject) simp_all
  qed
  ultimately show ?thesis using assms(4) by (intro FileDictionary.equality) simp_all
qed

lemma from_keys_Ok:
  assumes "from_keys json_ok keys = Ok enc"
  shows "fe_assignments enc = zip (btree_set keys) (map of_nat [0..<length (btree_set keys)])"
    and "length (btree_set keys) < 2 ^ 32" and "dictionary_wf json_ok (fe_dictionary enc)"
    and "list_all2 (entry_stores (fd_payload (fe_dictionary enc))) (btree_set keys) (fd_entries (fe_dictionary enc))"
proof -
  let ?K = "btree_set keys" and ?as = "fe_assignments enc" and ?d = "fe_dictionary enc"
  obtain entries payload where as: "assign_codes 0 ?K = Ok ?as" and n: "length ?as < 2 ^ 32"
    and loop: "build_loop 0 [] ?as = Ok (entries, payload)"
    and d: "?d = \<lparr>fd_header = \<lparr>dh_entry_count = of_nat (length ?as), dh_flags = 0, dh_index_entry_len = INDEX_ENTRY_LEN,
                 dh_value_hash_algorithm = 0, dh_payload_length = of_nat (length payload), dh_reserved = replicate 24 0\<rparr>,
                 fd_entries = entries, fd_payload = payload\<rparr>"
    and parsed: "\<exists>d'. FileDictionary_parse json_ok (index_bytes ?d) payload = Ok d'"
    using assms by (auto simp: from_keys_def build_file_dictionary_def result_simps Let_def split: if_splits)
  show asg: "?as = zip ?K (map of_nat [0..<length ?K])"
    using assign_codes_Ok [OF as] by simp
  then have len: "length ?as = length ?K" by simp
  then show "length ?K < 2 ^ 32" using n by simp
  from parsed obtain d' where d': "FileDictionary_parse json_ok (index_bytes ?d) payload = Ok d'" ..
  then have wf': "dictionary_wf json_ok d'" and ix: "index_bytes ?d = index_bytes d'" and pl: "payload = fd_payload d'"
    using dictionary_parse_shape by blast+
  then have "length payload < usize_bound"
    using unat_less_power [of "dh_payload_length (fd_header d')"] by (simp add: dictionary_wf_def dictionary_shape_def)
  then have stores: "list_all2 (\<lambda>(k, _) e. entry_stores payload k e) ?as entries"
    using build_loop_Ok [OF loop] by blast
  have "?d = d'"
  proof (rule index_bytes_inject [OF ix])
    show "header_wf (fd_header ?d)" by (simp add: d header_wf_def INDEX_ENTRY_LEN_def)
    show "header_wf (fd_header d')" using wf' by (simp add: dictionary_wf_def dictionary_shape_def)
    show "fd_payload ?d = fd_payload d'" using pl d by simp
    show "length (de_inline_data e) = 16 \<and> length (de_reserved0 e) = 3" if "e \<in> set (fd_entries ?d) \<union> set (fd_entries d')" for e
      using that
    proof
      assume "e \<in> set (fd_entries ?d)"
      then obtain k where "entry_stores payload k e"
        using stores d by (auto simp: list_all2_conv_all_nth in_set_conv_nth split_beta)
      then show ?thesis by (simp add: entry_stores_def)
    next
      assume "e \<in> set (fd_entries d')"
      then show ?thesis using wf' by (auto simp: dictionary_wf_def dictionary_shape_def list_all_iff entry_wf_def)
    qed
  qed
  then show "dictionary_wf json_ok ?d" using wf' by simp
  have "list_all2 (\<lambda>a e. entry_stores payload (fst a) e) ?as entries"
    using stores by (simp add: list_all2_conv_all_nth split_beta)
  then have "list_all2 (entry_stores payload) (map fst ?as) entries" by (simp add: list_all2_map1)
  moreover have "map fst ?as = ?K" by (simp add: asg)
  ultimately show "list_all2 (entry_stores (fd_payload ?d)) ?K (fd_entries ?d)" by (simp add: d)
qed

lemma assigned_code:
  assumes "from_keys json_ok keys = Ok enc" and "i < length (btree_set keys)"
  shows "file_code_for_key enc (btree_set keys ! i) = Ok (of_nat i) \<and> unat (of_nat i :: u32) = i"
proof -
  let ?K = "btree_set keys"
  have "distinct ?K" using btree_set_strict strict_sorted_iff by blast
  then have "map_of (zip ?K (map of_nat [0..<length ?K])) (?K ! i) = Some (of_nat i :: u32)"
    using assms(2) by (subst map_of_zip_nth) simp_all
  moreover have "unat (of_nat i :: u32) = i"
    using from_keys_Ok(2) [OF assms(1)] assms(2) by (intro unat_of_nat_less) simp
  ultimately show ?thesis by (simp add: file_code_for_key_def from_keys_Ok(1) [OF assms(1)])
qed

text \<open>C5: 
  A file dictionary built from keys gives every key a code that decodes to exactly the key's tag and
  canonical bytes; codes are ordered as the keys are, keys that were not given have none, and the dictionary
  is what the parser reads from the sections written for it.
\<close>

theorem dictionary_codes_faithful:
  assumes "from_keys json_ok keys = Ok enc" and "k \<in> set keys"
  shows "\<exists>c e. file_code_for_key enc k = Ok c \<and> FileDictionary_get_entry (fe_dictionary enc) c = Ok e \<and> de_value_tag e = fk_value_tag k \<and>
      FileDictionary_decode_value (fe_dictionary enc) c = Ok (RawBytes (fk_canonical k)) \<and>
      (if l \<in> set keys then (\<exists>c'. file_code_for_key enc l = Ok c' \<and> (c < c' \<longleftrightarrow> k < l))
       else file_code_for_key enc l = Err BadFileCode) \<and>
      FileDictionary_parse json_ok (index_bytes (fe_dictionary enc)) (fd_payload (fe_dictionary enc)) = Ok (fe_dictionary enc)"
proof -
  let ?K = "btree_set keys" and ?d = "fe_dictionary enc"
  obtain i where i: "i < length ?K" "k = ?K ! i" using assms(2) by (metis set_btree_set in_set_conv_nth)
  note c = assigned_code [OF assms(1) i(1)]
  have len: "length (fd_entries ?d) = length ?K" using from_keys_Ok(4) [OF assms(1)] by (simp add: list_all2_lengthD)
  have st: "entry_stores (fd_payload ?d) k (fd_entries ?d ! i)"
    using from_keys_Ok(4) [OF assms(1)] i by (simp add: list_all2_conv_all_nth)
  have get: "FileDictionary_get_entry ?d (of_nat i) = Ok (fd_entries ?d ! i)"
    using c i(1) len by (simp add: FileDictionary_get_entry_def)
  have other: "if l \<in> set keys then (\<exists>c'. file_code_for_key enc l = Ok c' \<and> ((of_nat i :: u32) < c' \<longleftrightarrow> k < l))
       else file_code_for_key enc l = Err BadFileCode"
  proof (cases "l \<in> set keys")
    case True
    then obtain j where j: "j < length ?K" "l = ?K ! j" by (metis set_btree_set in_set_conv_nth)
    have "i < j \<longleftrightarrow> k < l"
      using sorted_wrt_nth_less [OF btree_set_strict, of i j keys] sorted_wrt_nth_less [OF btree_set_strict, of j i keys] i j
      by (cases i j rule: linorder_cases) auto
    then show ?thesis
      using True assigned_code [OF assms(1) j(1)] c i(1) j by (auto simp: word_less_nat_alt)
  next
    case False
    have "map_of (zip ?K (map of_nat [0..<length ?K]) :: (FileDictionaryKey \<times> u32) list) l = None"
      using False by (auto simp: map_of_eq_None_iff dest: set_zip_leftD)
    then have "file_code_for_key enc l = Err BadFileCode"
      unfolding file_code_for_key_def from_keys_Ok(1) [OF assms(1)] by (simp only: ok_or_def option.case)
    then show ?thesis using False by simp
  qed
  show ?thesis
    using c get st other entry_stores_decode [OF st] dictionary_parse_back [OF from_keys_Ok(3) [OF assms(1)]] i(2)
    by (intro exI [of _ "of_nat i"] exI [of _ "fd_entries ?d ! i"]) (simp add: FileDictionary_decode_value_def entry_stores_def)
qed

definition sample_keys :: "FileDictionaryKey list" where
  "sample_keys = [FileDictionaryKey 12 [1, 0x62], FileDictionaryKey 4 [7, 0, 0, 0, 0, 0, 0, 0], FileDictionaryKey 12 [1, 0x61], FileDictionaryKey 12 [1, 0x62]]"

section \<open>Building succeeds\<close>

definition key_valid :: "(bytes \<Rightarrow> bool) \<Rightarrow> FileDictionaryKey \<Rightarrow> bool" where
  "key_valid json_ok k \<longleftrightarrow> length (fk_canonical k) < 2 ^ 32
     \<and> (case ValueTag_from_u16 (fk_value_tag k) of None \<Rightarrow> False | Some t \<Rightarrow> validate_canonical_payload json_ok t (fk_canonical k) = Ok ())"

lemma build_loop_succeeds:
  "list_all (\<lambda>k. length (fk_canonical k) < 2 ^ 32) ks \<Longrightarrow> c + length ks \<le> 2 ^ 32 \<Longrightarrow>
     \<exists>es p. build_loop c pl (zip ks (map of_nat [c..<c + length ks])) = Ok (es, p)
       \<and> length p \<le> length pl + sum_list (map (\<lambda>k. length (fk_canonical k)) ks)"
proof (induction ks arbitrary: c pl)
  case (Cons k ks)
  have upt: "[c..<c + length (k # ks)] = c # [Suc c..<Suc c + length ks]" by (simp add: upt_conv_Cons del: upt_Suc)
  note ih = Cons.IH [of "Suc c"]
  show ?case
  proof (cases "length (fk_canonical k) \<le> 16")
    case True
    obtain es p where "build_loop (Suc c) pl (zip ks (map of_nat [Suc c..<Suc c + length ks])) = Ok (es, p)"
      "length p \<le> length pl + sum_list (map (\<lambda>k. length (fk_canonical k)) ks)"
      using ih [of pl] Cons.prems by auto
    then show ?thesis using True Cons.prems unfolding upt by (simp add: Let_def del: upt_Suc)
  next
    case False
    obtain es p where "build_loop (Suc c) (pl @ fk_canonical k) (zip ks (map of_nat [Suc c..<Suc c + length ks])) = Ok (es, p)"
      "length p \<le> length (pl @ fk_canonical k) + sum_list (map (\<lambda>k. length (fk_canonical k)) ks)"
      using ih [of "pl @ fk_canonical k"] Cons.prems by auto
    then show ?thesis using False Cons.prems unfolding upt by (simp add: Let_def del: upt_Suc)
  qed
qed simp

lemma stored_entry_validates:
  assumes st: "entry_stores p k e" and k: "key_valid json_ok k" and n: "length p < usize_bound" "unat (n :: u64) = length p"
  shows "validate_dictionary_entry json_ok e p n = Ok ()"
proof -
  obtain t where t: "ValueTag_from_u16 (de_value_tag e) = Some t" "validate_canonical_payload json_ok t (fk_canonical k) = Ok ()"
    using k st by (auto simp: key_valid_def entry_stores_def split: option.splits)
  obtain c where c: "c \<noteq> Storage_Redacted" "de_storage_class e = StorageClass_code c"
    "if c = Storage_Inline then de_payload_length e = 0 \<and> de_payload_offset e = 0 \<and> inline_bytes e = Ok (fk_canonical k)
     else de_inline_len e = 0 \<and> payload_bytes e p = Ok (fk_canonical k)"
    using st by (auto simp: entry_stores_def)
  show ?thesis
  proof (cases c)
    case Storage_Inline
    with c t show ?thesis
      by (simp add: validate_dictionary_entry_def validate_payload_bounds_def stored_class_def stored_tag_def StorageClass_from_u8_def)
  next
    case Storage_Payload
    with c have "payload_bytes e p = Ok (fk_canonical k)" by simp
    then have "unat (de_payload_offset e) + unat (de_payload_length e) \<le> length p"
      by (simp add: payload_bytes_def read_range_checked_Ok)
    with c t n Storage_Payload show ?thesis
      by (simp add: validate_dictionary_entry_def validate_payload_bounds_def stored_class_def stored_tag_def StorageClass_from_u8_def Let_def)
  qed (use c in simp)
qed

lemma from_keys_succeeds:
  assumes "list_all (key_valid json_ok) keys" and "length (btree_set keys) < 2 ^ 32"
    and "sum_list (map (\<lambda>k. length (fk_canonical k)) (btree_set keys)) < 2 ^ 64" and "set keys' = set keys"
  shows "\<exists>enc. from_keys json_ok keys = Ok enc \<and> from_keys json_ok keys' = Ok enc"
proof -
  let ?K = "btree_set keys" and ?as = "zip (btree_set keys) (map of_nat [0..<length (btree_set keys)]) :: (FileDictionaryKey \<times> u32) list"
  have valid: "key_valid json_ok k" if "k \<in> set ?K" for k using assms(1) that by (simp add: list_all_iff)
  obtain es p where loop: "build_loop 0 [] ?as = Ok (es, p)"
    and p: "length p \<le> sum_list (map (\<lambda>k. length (fk_canonical k)) ?K)"
    using build_loop_succeeds [of ?K 0 "[]"] valid assms(2) by (auto simp: list_all_iff key_valid_def)
  define d where "d = \<lparr>fd_header = \<lparr>dh_entry_count = of_nat (length ?as), dh_flags = 0, dh_index_entry_len = INDEX_ENTRY_LEN,
                 dh_value_hash_algorithm = 0, dh_payload_length = of_nat (length p), dh_reserved = replicate 24 0\<rparr>,
                 fd_entries = es, fd_payload = p\<rparr>"
  have len: "length p < usize_bound" using p assms(3) by simp
  have "list_all2 (\<lambda>(k, _) e. entry_stores p k e) ?as es" using build_loop_Ok [OF loop len] by blast
  then have stores: "list_all2 (entry_stores p) ?K es" by (simp add: list_all2_conv_all_nth)
  have le: "length es = length ?K" using stores by (simp add: list_all2_lengthD)
  have pn: "unat (of_nat (length p) :: u64) = length p" by (rule unat_of_nat_count [OF len])
  have wf: "entry_wf e \<and> validate_dictionary_entry json_ok e p (of_nat (length p)) = Ok ()" if mem: "e \<in> set es" for e
  proof -
    obtain i where "i < length es" "e = es ! i" using mem by (metis in_set_conv_nth)
    with le list_all2_nthD [OF stores, of i] have "i < length ?K" "entry_stores p (?K ! i) e" by simp_all
    then obtain k where "k \<in> set ?K" "entry_stores p k e" using nth_mem by blast
    with valid [of k] show ?thesis
      using stored_entry_validates [OF _ _ len pn] by (auto simp: key_valid_def split: option.splits intro: stored_entry_wf)
  qed
  have "unat (of_nat (length es) :: u32) = length es" using assms(2) le by (intro unat_of_nat_less) simp
  then have "dictionary_wf json_ok d"
    using wf pn le by (simp add: dictionary_wf_def dictionary_shape_def d_def header_wf_def INDEX_ENTRY_LEN_def list_all_iff)
  from dictionary_parse_back [OF this] have "build_file_dictionary json_ok ?as = Ok d"
    using loop assms(2) by (simp add: build_file_dictionary_def d_def Let_def)
  moreover have "assign_codes 0 ?K = Ok ?as"
    using assign_codes_succeeds [of 0 ?K] assign_codes_Ok [of 0 ?K] assms(2) by fastforce
  ultimately have "from_keys json_ok keys = Ok \<lparr>fe_dictionary = d, fe_assignments = ?as\<rparr>"
    by (simp add: from_keys_def)
  moreover have "from_keys json_ok keys' = from_keys json_ok keys"
    by (simp add: from_keys_def btree_set_unique [OF assms(4)])
  ultimately show ?thesis by simp
qed

lemma logical_key_valid:
  assumes "from_logical_bytes logical v = Ok k" and "length v < 2 ^ 31"
  shows "key_valid json_ok k"
proof -
  have "length (length_prefixed v) < 2 ^ 32"
    using assms(2) encode_u64_leb128_length [of "of_nat (length v)"] by (simp add: length_prefixed_def append_u64_leb128_eq)
  then have len: "length (length_prefixed v) < 2 ^ 32" "length (length_prefixed v) < usize_bound" by simp_all
  have "validate_canonical_payload json_ok VT_Binary (length_prefixed v) = Ok ()"
    "utf8_valid v \<Longrightarrow> validate_canonical_payload json_ok VT_Utf8 (length_prefixed v) = Ok ()"
    using decode_length_prefixed_prefix [OF len(2), of "[]"]
    by (simp_all add: validate_canonical_payload_def validate_payload_inner.simps)
  moreover have "ValueTag_from_u16 12 = Some VT_Utf8" "ValueTag_from_u16 13 = Some VT_Binary"
    by (simp_all add: ValueTag_from_u16_def)
  ultimately show ?thesis
    using assms(1) len(1)
    by (auto simp: from_logical_bytes_def logical_canonical_def result_simps key_valid_def utf8_check_valid
        split: if_splits option.splits)
qed

text \<open>
  Building never fails on valid keys: fewer than \<open>2 ^ 32\<close> distinct ones, each canonical for its tag, whose
  bytes fit the payload section. The result depends on the set of keys only, not on their order or
  multiplicity; and the keys of UTF-8 texts and of binary values are valid.
\<close>

theorem dictionary_building_completes:
  assumes "list_all (key_valid json_ok) keys" and "length (btree_set keys) < 2 ^ 32"
    and "sum_list (map (\<lambda>k. length (fk_canonical k)) (btree_set keys)) < 2 ^ 64" and "set keys' = set keys"
    and "from_logical_bytes logical v = Ok k" and "length v < 2 ^ 31"
  shows "(\<exists>enc. from_keys json_ok keys = Ok enc \<and> from_keys json_ok keys' = Ok enc) \<and> key_valid json_ok k"
  using from_keys_succeeds [OF assms(1-4)] logical_key_valid [OF assms(5,6)] by blast

lemma payload_len_fold_Ok:
  "payload_len_fold n ks = Ok m \<Longrightarrow> m = n + sum_list (map (\<lambda>k. if length (fk_canonical k) \<le> 16 then 0 else length (fk_canonical k)) ks)"
  by (induction ks arbitrary: n) (fastforce simp: result_simps split: if_splits)+

lemma build_loop_payload_length:
  "build_loop c pl as = Ok (es, p) \<Longrightarrow>
     length p = length pl + sum_list (map (\<lambda>(k, _). if length (fk_canonical k) \<le> 16 then 0 else length (fk_canonical k)) as)"
proof (induction as arbitrary: c pl es)
  case (Cons a as)
  then show ?case by (cases a) (auto simp: result_simps Let_def split: if_splits)
qed simp

text \<open>The estimate of the writer is the exact size of both sections and of the four-byte codes of the rows.\<close>

theorem dictionary_estimate_exact:
  assumes "from_keys json_ok keys = Ok enc" and "file_dictionary_candidate_len (btree_set keys) row_count = Ok n"
  shows "n = length (index_bytes (fe_dictionary enc)) + length (fd_payload (fe_dictionary enc)) + 4 * row_count"
proof -
  let ?K = "btree_set keys"
  obtain entries payload where loop: "build_loop 0 [] (fe_assignments enc) = Ok (entries, payload)" and p: "fd_payload (fe_dictionary enc) = payload"
    using assms(1) by (auto simp: from_keys_def build_file_dictionary_def result_simps Let_def split: if_splits)
  have "length (fd_entries (fe_dictionary enc)) = length ?K"
    using from_keys_Ok(4) [OF assms(1)] by (simp add: list_all2_lengthD)
  moreover have "map (\<lambda>(k, _). if length (fk_canonical k) \<le> 16 then 0 else length (fk_canonical k)) (fe_assignments enc)
      = map (\<lambda>k. if length (fk_canonical k) \<le> 16 then 0 else length (fk_canonical k)) ?K"
    unfolding from_keys_Ok(1) [OF assms(1)] by (intro nth_equalityI) simp_all
  ultimately show ?thesis
    using assms(2) build_loop_payload_length [OF loop] p
    by (auto simp: file_dictionary_candidate_len_def result_simps DICT_INDEX_ENTRY_SIZE_def DICT_HEADER_SIZE_def length_index_bytes
        dest!: payload_len_fold_Ok)
qed

section \<open>Examples\<close>

lemma sample_keys_set: "btree_set sample_keys = [FileDictionaryKey 4 [7, 0, 0, 0, 0, 0, 0, 0], FileDictionaryKey 12 [1, 0x61], FileDictionaryKey 12 [1, 0x62]]"
  by code_simp

lemma sample_keys_valid: "list_all (key_valid (\<lambda>_. False)) sample_keys"
  by (simp add: sample_keys_def key_valid_def ValueTag_from_u16_def validate_canonical_payload_def validate_payload_inner.simps
      validate_min_width_def decode_length_prefixed_def decode_canonical_varint_def decode_u64_leb128_def
      checked_add_def slice_def)

lemma sample_keys_build: "\<exists>enc. from_keys (\<lambda>_. False) sample_keys = Ok enc \<and> from_keys (\<lambda>_. False) (rev sample_keys) = Ok enc"
  by (rule from_keys_succeeds) (simp_all add: sample_keys_valid sample_keys_set)

lemma sample_logical: "from_logical_bytes LT_Utf8 [0x62] = Ok (FileDictionaryKey 12 [1, 0x62])"
  by code_simp

lemma dictionary_building_completes_witness:
  "\<exists>enc. from_keys (\<lambda>_. False) sample_keys = Ok enc \<and> from_keys (\<lambda>_. False) (rev sample_keys) = Ok enc"
  using dictionary_building_completes [OF sample_keys_valid _ _ _ sample_logical, of "rev sample_keys"]
  by (simp add: sample_keys_set)

lemma dictionary_codes_faithful_witness:
  "\<exists>enc c. from_keys (\<lambda>_. False) sample_keys = Ok enc \<and> file_code_for_key enc (FileDictionaryKey 12 [1, 0x62]) = Ok c \<and>
     FileDictionary_decode_value (fe_dictionary enc) c = Ok (RawBytes [1, 0x62])"
proof -
  obtain enc where enc: "from_keys (\<lambda>_. False) sample_keys = Ok enc" using sample_keys_build by blast
  have "FileDictionaryKey 12 [1, 0x62] \<in> set sample_keys" by (simp add: sample_keys_def)
  from dictionary_codes_faithful [OF enc this, of "FileDictionaryKey 0 []"] enc show ?thesis by auto
qed

lemma dictionary_views_agree_witness:
  "\<exists>d v. FileDictionaryView_parse (index_bytes d) (fd_payload d) = Ok v \<and> FileDictionaryView_len v = 3 \<and>
     FileDictionary_decode_value d 2 = FileDictionaryView_decode_value v 2"
proof -
  obtain enc where enc: "from_keys (\<lambda>_. False) sample_keys = Ok enc" using sample_keys_build by blast
  let ?d = "fe_dictionary enc"
  have wf: "dictionary_wf (\<lambda>_. False) ?d" by (rule from_keys_Ok(3) [OF enc])
  then have shape: "dictionary_shape ?d" by (simp add: dictionary_wf_def)
  have view: "FileDictionaryView_parse (index_bytes ?d) (fd_payload ?d) = Ok (view_of ?d)"
    using shape by (intro view_parse_back) (simp_all add: dictionary_shape_def)
  have "length (fd_entries ?d) = 3"
    using list_all2_lengthD [OF from_keys_Ok(4) [OF enc]] by (simp add: sample_keys_set)
  then have "unat (FileDictionaryView_len (view_of ?d)) = unat (3 :: u32)"
    using shape by (simp add: FileDictionaryView_len_def view_of_def dictionary_shape_def)
  then have "FileDictionaryView_len (view_of ?d) = 3" by (rule unsigned_word_eqI)
  with view dictionary_views_agree [OF dictionary_parse_back [OF wf] view, of 2] show ?thesis by blast
qed

lemma dictionary_estimate_exact_witness:
  "\<exists>enc. from_keys (\<lambda>_. False) sample_keys = Ok enc \<and> length (index_bytes (fe_dictionary enc)) + length (fd_payload (fe_dictionary enc)) + 16 = 204"
proof -
  obtain enc where enc: "from_keys (\<lambda>_. False) sample_keys = Ok enc" using sample_keys_build by blast
  have "file_dictionary_candidate_len (btree_set sample_keys) 4 = Ok 204"
    by (simp add: sample_keys_set file_dictionary_candidate_len_def checked_mul_def checked_add_def DICT_HEADER_SIZE_def DICT_INDEX_ENTRY_SIZE_def)
  from dictionary_estimate_exact [OF enc this] enc show ?thesis by (intro exI [of _ enc]) simp
qed

end
