(* ===== verification/Types.thy ===== *)
theory Types
  imports Wire Constants
begin

text \<open>
  Logical and physical types (\<open>cove-core/src/types.rs\<close>): the compatibility matrix and the readings of a
  64-bit NumCode under a logical type.
\<close>

unbundle bit_operations_syntax

section \<open>Compatibility\<close>

record LogicalPhysicalOptions =
  bool_declared_numeric :: bool

definition default_options :: LogicalPhysicalOptions where
  "default_options = \<lparr>bool_declared_numeric = False\<rparr>"

definition numeric_logical :: "CoveLogicalType \<Rightarrow> bool" where
  "numeric_logical logical \<longleftrightarrow> logical \<in> {LT_Int8, LT_Int16, LT_Int32, LT_Int64, LT_UInt8, LT_UInt16, LT_UInt32, LT_UInt64,
     LT_Float32, LT_Float64, LT_Decimal64, LT_DateDays, LT_TimestampMicros, LT_TimestampNanos}"

primrec pair_ok :: "LogicalPhysicalOptions \<Rightarrow> CoveLogicalType \<Rightarrow> CovePhysicalKind \<Rightarrow> bool" where
  "pair_ok options logical PK_FileCode \<longleftrightarrow> True"
| "pair_ok options logical PK_NumCode \<longleftrightarrow> (logical = LT_Bool \<and> bool_declared_numeric options) \<or> numeric_logical logical"
| "pair_ok options logical PK_Boolean \<longleftrightarrow> logical = LT_Bool"
| "pair_ok options logical PK_FixedBytes \<longleftrightarrow> logical \<in> {LT_Uuid, LT_Decimal128}"
| "pair_ok options logical PK_VarBytes \<longleftrightarrow> logical \<in> {LT_Utf8, LT_Binary, LT_Json}"
| "pair_ok options logical PK_List \<longleftrightarrow> logical = LT_List"
| "pair_ok options logical PK_Struct \<longleftrightarrow> logical = LT_Struct"
| "pair_ok options logical PK_Map \<longleftrightarrow> logical = LT_Map"

definition validate_logical_physical_pair_with_options ::
  "CoveLogicalType \<Rightarrow> CovePhysicalKind \<Rightarrow> LogicalPhysicalOptions \<Rightarrow> unit result" where
  "validate_logical_physical_pair_with_options logical physical options =
     (if pair_ok options logical physical then Ok () else Err BadLogicalPhysicalPair)"

definition validate_logical_physical_pair :: "CoveLogicalType \<Rightarrow> CovePhysicalKind \<Rightarrow> unit result" where
  "validate_logical_physical_pair logical physical =
     validate_logical_physical_pair_with_options logical physical default_options"

definition validate_numcode_logical_type :: "CoveLogicalType \<Rightarrow> bool \<Rightarrow> unit result" where
  "validate_numcode_logical_type logical declared_numeric =
     (if logical = LT_Bool \<and> declared_numeric then Ok ()
      else if numeric_logical logical then Ok ()
      else Err BadNumCode)"

section \<open>NumCodes\<close>

definition numcode_as_i8 :: "u64 \<Rightarrow> 8 word" where "numcode_as_i8 code = ucast (code AND 0xff)"
definition numcode_as_i16 :: "u64 \<Rightarrow> 16 word" where "numcode_as_i16 code = ucast (code AND 0xffff)"
definition numcode_as_i32 :: "u64 \<Rightarrow> i32" where "numcode_as_i32 code = ucast (code AND 0xffffffff)"
definition numcode_as_i64 :: "u64 \<Rightarrow> i64" where "numcode_as_i64 code = code"
definition numcode_as_u8 :: "u64 \<Rightarrow> u8" where "numcode_as_u8 code = ucast (code AND 0xff)"
definition numcode_as_u16 :: "u64 \<Rightarrow> u16" where "numcode_as_u16 code = ucast (code AND 0xffff)"
definition numcode_as_u32 :: "u64 \<Rightarrow> u32" where "numcode_as_u32 code = ucast (code AND 0xffffffff)"
definition numcode_as_u64 :: "u64 \<Rightarrow> u64" where "numcode_as_u64 code = code"

text \<open>Floats are their bit patterns.\<close>

definition numcode_as_f32 :: "u64 \<Rightarrow> u32" where "numcode_as_f32 code = ucast (code AND 0xffffffff)"
definition numcode_as_f64 :: "u64 \<Rightarrow> u64" where "numcode_as_f64 code = code"
definition numcode_as_decimal64 :: "u64 \<Rightarrow> i64" where "numcode_as_decimal64 code = code"
definition numcode_as_date_days :: "u64 \<Rightarrow> i32" where "numcode_as_date_days code = ucast (code AND 0xffffffff)"
definition numcode_as_timestamp_micros :: "u64 \<Rightarrow> i64" where "numcode_as_timestamp_micros code = code"
definition numcode_as_timestamp_nanos :: "u64 \<Rightarrow> i64" where "numcode_as_timestamp_nanos code = code"

lemma word_mask_numerals: "(0xff :: u64) = mask 8" "(0xffff :: u64) = mask 16" "(0xffffffff :: u64) = mask 32"
  by (simp_all add: mask_eq_exp_minus_1)

text \<open>A value of a narrow type survives widening to a NumCode, whether the producer sign- or zero-extends it.\<close>

lemma numcode_reads_extension:
  fixes b :: "8 word" and h :: "16 word" and w :: "32 word"
  shows "numcode_as_i8 (scast b) = b" "numcode_as_i8 (ucast b) = b" "numcode_as_u8 (ucast b) = b"
    "numcode_as_i16 (scast h) = h" "numcode_as_i16 (ucast h) = h" "numcode_as_u16 (ucast h) = h"
    "numcode_as_i32 (scast w) = w" "numcode_as_i32 (ucast w) = w" "numcode_as_u32 (ucast w) = w"
    "numcode_as_date_days (scast w) = w" "numcode_as_f32 (ucast w) = w"
  unfolding numcode_as_i8_def numcode_as_u8_def numcode_as_i16_def numcode_as_u16_def numcode_as_i32_def numcode_as_u32_def
    numcode_as_date_days_def numcode_as_f32_def word_mask_numerals
  by (rule bit_word_eqI; auto simp: bit_simps)+

lemma validate_pair_no_panic [simp]: "validate_logical_physical_pair_with_options l p x \<noteq> Panic"
  by (simp add: validate_logical_physical_pair_with_options_def)

lemma validate_pair_Ok [result_simps]: "validate_logical_physical_pair_with_options l p x = Ok u \<longleftrightarrow> pair_ok x l p"
  by (simp add: validate_logical_physical_pair_with_options_def)

text \<open>NumCode columns are exactly those whose logical type the NumCode test accepts.\<close>

lemma numcode_pair_iff:
  "validate_logical_physical_pair_with_options logical PK_NumCode options = Ok () \<longleftrightarrow>
     validate_numcode_logical_type logical (bool_declared_numeric options) = Ok ()"
  by (auto simp: validate_logical_physical_pair_with_options_def validate_numcode_logical_type_def)

end
