(* ===== verification/Table_Catalog.thy ===== *)
theory Table_Catalog
  imports Types Crc_Record
begin

text \<open>
  The table catalog (\<open>cove-core/src/table.rs\<close>): tables and their columns on the wire. The theorems show
  that catalogs are read back, and that validation is exactly uniqueness of the identifiers, no
  top-level Null and compatible type pairs.
\<close>

section \<open>Columns\<close>

definition COLUMN_FLAG_BOOL_DECLARED_NUMERIC :: u32 where "COLUMN_FLAG_BOOL_DECLARED_NUMERIC = 1"

record ColumnEntry =
  col_column_id :: u32
  col_name :: bytes
  col_logical :: CoveLogicalType
  col_physical :: CovePhysicalKind
  col_nullable :: bool
  col_sort_order :: u16
  col_collation_id :: u16
  col_precision :: u16
  col_scale :: "16 word"
  col_flags :: u32

definition ColumnEntry_encoded_len :: "ColumnEntry \<Rightarrow> usize" where
  "ColumnEntry_encoded_len c = 4 + 2 + length (col_name c) + 2 + 1 + 1 + 2 + 2 + 2 + 2 + 4"

definition ColumnEntry_serialize :: "ColumnEntry \<Rightarrow> bytes result" where
  "ColumnEntry_serialize c =
     (if length (col_name c) > 65535 then Err (BadSchema ''column name exceeds u16::MAX'')
      else Ok (le_bytes 4 (col_column_id c) @ le_bytes 2 (of_nat (length (col_name c)) :: u16) @ col_name c
        @ le_bytes 2 (CoveLogicalType_code (col_logical c)) @ [CovePhysicalKind_code (col_physical c)]
        @ [if col_nullable c then 1 else 0] @ le_bytes 2 (col_sort_order c) @ le_bytes 2 (col_collation_id c)
        @ le_bytes 2 (col_precision c) @ le_bytes 2 (col_scale c) @ le_bytes 4 (col_flags c)))"

definition read_str :: "bytes \<Rightarrow> usize \<Rightarrow> string \<Rightarrow> (bytes \<times> usize) result" where
  "read_str bs pos what =
     (if pos + 2 > length bs then Err BufferTooShort
      else let len = unat (u16_at bs pos); pos = pos + 2 in
      and_then (checked_add pos len) (\<lambda>end'.
      if end' > length bs then Err BufferTooShort
      else if \<not> utf8_valid (slice pos (end' - pos) bs) then Err (BadSchema (what @ '' is not valid UTF-8''))
      else Ok (slice pos (end' - pos) bs, end')))"

definition ColumnEntry_parse :: "bytes \<Rightarrow> (ColumnEntry \<times> usize) result" where
  "ColumnEntry_parse bs =
     (if length bs < 4 + 2 then Err BufferTooShort
      else and_then (read_str bs 4 ''column name'') (\<lambda>(name, pos).
      if length bs < pos + 2 + 1 + 1 + 2 + 2 + 2 + 2 + 4 then Err BufferTooShort
      else and_then (ok_or (CoveLogicalType_from_u16 (u16_at bs pos))
             (BadSchema (''unknown logical type '' @ show_nat (unat (u16_at bs pos))))) (\<lambda>logical.
           and_then (ok_or (CovePhysicalKind_from_u8 (bs ! (pos + 2)))
             (BadSchema (''unknown physical kind '' @ show_nat (unat (bs ! (pos + 2)))))) (\<lambda>physical.
           and_then (if bs ! (pos + 3) = 0 then Ok False else if bs ! (pos + 3) = 1 then Ok True
             else Err (BadSchema (''nullable flag must be 0 or 1, got '' @ show_nat (unat (bs ! (pos + 3)))))) (\<lambda>nullable.
           Ok (\<lparr>col_column_id = u32_at bs 0, col_name = name, col_logical = logical, col_physical = physical,
               col_nullable = nullable, col_sort_order = u16_at bs (pos + 4), col_collation_id = u16_at bs (pos + 6),
               col_precision = u16_at bs (pos + 8), col_scale = u16_at bs (pos + 10), col_flags = u32_at bs (pos + 12)\<rparr>, pos + 16))))))"

text \<open>A loop of \<open>count\<close> entries that each report how many bytes they used.\<close>

fun parse_entries :: "(bytes \<Rightarrow> ('a \<times> usize) result) \<Rightarrow> nat \<Rightarrow> bytes \<Rightarrow> usize \<Rightarrow> ('a list \<times> usize) result" where
  "parse_entries parse 0 bs pos = Ok ([], pos)"
| "parse_entries parse (Suc n) bs pos =
     and_then (bytes_from bs pos) (\<lambda>rest.
     and_then (parse rest) (\<lambda>(e, used).
     and_then (checked_add pos used) (\<lambda>pos'.
     and_then (parse_entries parse n bs pos') (\<lambda>(es, end').
     Ok (e # es, end')))))"

text \<open>Records of varying length: what is encoded is read back from a prefix with its length.\<close>

locale counted_codec =
  fixes encode :: "'p \<Rightarrow> bytes result"
    and parse :: "bytes \<Rightarrow> ('p \<times> usize) result"
    and wf :: "'p \<Rightarrow> bool"
  assumes encodes: "wf p \<Longrightarrow> \<exists>bs. encode p = Ok bs"
    and parses: "wf p \<Longrightarrow> encode p = Ok bs \<Longrightarrow> length bs < usize_bound \<Longrightarrow> parse (bs @ rest) = Ok (p, length bs)"
    and consumed: "parse bs = Ok (p, n) \<Longrightarrow> n \<le> length bs"
    and no_panic: "parse bs \<noteq> Panic"
begin

lemma entries_back:
  "collect_map encode ps = Ok bss \<Longrightarrow> list_all wf ps \<Longrightarrow> length pre + length (concat bss) < usize_bound \<Longrightarrow>
     parse_entries parse (length ps) (pre @ concat bss @ rest) (length pre) = Ok (ps, length pre + length (concat bss))"
proof (induction ps arbitrary: bss pre)
  case (Cons p ps)
  obtain bs rs where bs: "encode p = Ok bs" "collect_map encode ps = Ok rs" "bss = bs # rs"
    using Cons.prems(1) by (auto simp: result_simps)
  have "parse (bs @ concat rs @ rest) = Ok (p, length bs)"
    using Cons.prems(2,3) bs by (intro parses) auto
  moreover have "parse_entries parse (length ps) ((pre @ bs) @ concat rs @ rest) (length (pre @ bs)) = Ok (ps, length (pre @ bs) + length (concat rs))"
    using Cons.prems bs by (intro Cons.IH) auto
  ultimately show ?case using Cons.prems(3) bs(3) by (simp add: checked_add_def)
qed simp

lemma entries_bounded: "parse_entries parse k bs pos = Ok (ps, n) \<Longrightarrow> pos \<le> length bs \<Longrightarrow> n \<le> length bs"
proof (induction k arbitrary: pos ps)
  case (Suc k)
  then obtain p c qs where "parse (drop pos bs) = Ok (p, c)" "parse_entries parse k bs (pos + c) = Ok (qs, n)"
    by (auto simp: result_simps)
  with Suc.IH [of "pos + c" qs] Suc.prems(2) consumed [of "drop pos bs" p c] show ?case by simp
qed simp

lemma entries_no_panic: "pos \<le> length bs \<Longrightarrow> parse_entries parse k bs pos \<noteq> Panic"
proof (induction k arbitrary: pos)
  case (Suc k)
  have "pos + c \<le> length bs" if "parse (drop pos bs) = Ok (p, c)" for p c
    using consumed [OF that] Suc.prems by simp
  with Suc show ?case by (auto simp: and_then_eq_Panic result_simps no_panic)
qed simp

end

definition column_wf :: "ColumnEntry \<Rightarrow> bool" where
  "column_wf c \<longleftrightarrow> length (col_name c) \<le> 65535 \<and> utf8_valid (col_name c)"

lemma read_str_back:
  assumes "utf8_valid s" "length s \<le> 65535" "length pre + 2 + length s < usize_bound"
  shows "read_str (pre @ le_bytes 2 (of_nat (length s) :: u16) @ s @ rest) (length pre) what = Ok (s, length pre + 2 + length s)"
proof -
  have "unat (of_nat (length s) :: u16) = length s" using assms(2) by (intro unat_of_nat_less) simp
  then show ?thesis using assms by (simp add: read_str_def wire_simps checked_add_def Let_def)
qed

lemma read_str_Ok: "read_str bs pos what = Ok (s, n) \<Longrightarrow> n \<le> length bs \<and> pos + 2 \<le> n \<and> utf8_valid s \<and> length s \<le> 65535"
proof -
  have "unat (u16_at bs pos) < 2 ^ 16" using unat_less_power [of "u16_at bs pos"] by simp
  then show "read_str bs pos what = Ok (s, n) \<Longrightarrow> n \<le> length bs \<and> pos + 2 \<le> n \<and> utf8_valid s \<and> length s \<le> 65535"
    by (auto simp: read_str_def result_simps Let_def split: if_splits)
qed

lemma read_str_no_panic [simp]: "read_str bs pos what \<noteq> Panic"
  by (auto simp: read_str_def and_then_eq_Panic Let_def)

lemma column_parse_back:
  assumes "column_wf c" "ColumnEntry_serialize c = Ok bs" "length bs < usize_bound"
  shows "ColumnEntry_parse (bs @ rest) = Ok (c, length bs)"
proof -
  let ?n = "length (col_name c)"
  let ?tail = "le_bytes 2 (CoveLogicalType_code (col_logical c)) @ [CovePhysicalKind_code (col_physical c)]
        @ [if col_nullable c then 1 else 0] @ le_bytes 2 (col_sort_order c) @ le_bytes 2 (col_collation_id c)
        @ le_bytes 2 (col_precision c) @ le_bytes 2 (col_scale c) @ le_bytes 4 (col_flags c)"
  let ?pre = "le_bytes 4 (col_column_id c) @ le_bytes 2 (of_nat ?n :: u16) @ col_name c"
  have bs: "bs = ?pre @ ?tail" using assms(2) by (simp add: ColumnEntry_serialize_def split: if_splits)
  have name: "read_str (bs @ rest) 4 ''column name'' = Ok (col_name c, length ?pre)"
    using read_str_back [of "col_name c" "le_bytes 4 (col_column_id c)" "?tail @ rest"] assms(1,3)
    by (simp add: bs column_wf_def)
  have tail: "u16_at (bs @ rest) (length ?pre) = CoveLogicalType_code (col_logical c)"
    "(bs @ rest) ! (length ?pre + 2) = CovePhysicalKind_code (col_physical c)"
    "(bs @ rest) ! (length ?pre + 3) = (if col_nullable c then 1 else 0)"
    "u16_at (bs @ rest) (length ?pre + 4) = col_sort_order c" "u16_at (bs @ rest) (length ?pre + 6) = col_collation_id c"
    "u16_at (bs @ rest) (length ?pre + 8) = col_precision c" "u16_at (bs @ rest) (length ?pre + 10) = col_scale c"
    "u32_at (bs @ rest) (length ?pre + 12) = col_flags c" "u32_at (bs @ rest) 0 = col_column_id c"
    unfolding bs by (simp_all add: wire_simps nth_append)
  show ?thesis
    using name tail
    by (cases c) (simp add: ColumnEntry_parse_def bs coveLogicalType.decode_code covePhysicalKind.decode_code)
qed

interpretation column: counted_codec ColumnEntry_serialize ColumnEntry_parse column_wf
proof
  show "column_wf c \<Longrightarrow> \<exists>bs. ColumnEntry_serialize c = Ok bs" for c
    by (simp add: column_wf_def ColumnEntry_serialize_def)
  show "column_wf c \<Longrightarrow> ColumnEntry_serialize c = Ok bs \<Longrightarrow> length bs < usize_bound \<Longrightarrow> ColumnEntry_parse (bs @ rest) = Ok (c, length bs)" for c bs rest
    by (rule column_parse_back)
  show "ColumnEntry_parse bs = Ok (c, n) \<Longrightarrow> n \<le> length bs" for bs c n
    by (auto simp: ColumnEntry_parse_def result_simps split: if_splits)
  show "ColumnEntry_parse bs \<noteq> Panic" for bs
    by (auto simp: ColumnEntry_parse_def and_then_eq_Panic ok_or_def split: option.splits if_splits)
qed

section \<open>Tables\<close>

record TableEntry =
  tab_table_id :: u32
  tab_namespace :: bytes
  tab_name :: bytes
  tab_row_count :: u64
  tab_primary_sort_key_count :: u16
  tab_clustering_key_count :: u16
  tab_flags :: u32
  tab_columns :: "ColumnEntry list"

definition TableEntry_serialize :: "TableEntry \<Rightarrow> bytes result" where
  "TableEntry_serialize t =
     (if length (tab_namespace t) > 65535 then Err (BadSchema ''namespace exceeds u16::MAX'')
      else if length (tab_name t) > 65535 then Err (BadSchema ''table name exceeds u16::MAX'')
      else if length (tab_columns t) \<ge> 2 ^ 32 then Err (BadSchema ''too many columns'')
      else and_then (collect_map ColumnEntry_serialize (tab_columns t)) (\<lambda>columns.
        Ok (le_bytes 4 (tab_table_id t) @ le_bytes 2 (of_nat (length (tab_namespace t)) :: u16) @ tab_namespace t
          @ le_bytes 2 (of_nat (length (tab_name t)) :: u16) @ tab_name t @ le_bytes 4 (of_nat (length (tab_columns t)) :: u32)
          @ le_bytes 8 (tab_row_count t) @ le_bytes 2 (tab_primary_sort_key_count t) @ le_bytes 2 (tab_clustering_key_count t)
          @ le_bytes 4 (tab_flags t) @ concat columns)))"

definition TableEntry_parse :: "bytes \<Rightarrow> (TableEntry \<times> usize) result" where
  "TableEntry_parse bs =
     (if length bs < 4 + 2 then Err BufferTooShort
      else and_then (read_str bs 4 ''namespace'') (\<lambda>(namespace, p1).
           and_then (read_str bs p1 ''table name'') (\<lambda>(name, pos).
           if length bs < pos + 4 + 8 + 2 + 2 + 4 then Err BufferTooShort
           else and_then (parse_entries ColumnEntry_parse (unat (u32_at bs pos)) bs (pos + 20)) (\<lambda>(columns, end').
           Ok (\<lparr>tab_table_id = u32_at bs 0, tab_namespace = namespace, tab_name = name, tab_row_count = u64_at bs (pos + 4),
               tab_primary_sort_key_count = u16_at bs (pos + 12), tab_clustering_key_count = u16_at bs (pos + 14),
               tab_flags = u32_at bs (pos + 16), tab_columns = columns\<rparr>, end')))))"

section \<open>The catalog\<close>

record TableCatalog =
  cat_flags :: u32
  cat_tables :: "TableEntry list"

definition TableCatalog_serialize :: "TableCatalog \<Rightarrow> bytes result" where
  "TableCatalog_serialize c =
     (if length (cat_tables c) \<ge> 2 ^ 32 then Err (BadSchema ''too many tables'')
      else and_then (collect_map TableEntry_serialize (cat_tables c)) (\<lambda>tables.
           Ok (le_bytes 4 (of_nat (length (cat_tables c)) :: u32) @ le_bytes 4 (cat_flags c) @ concat tables)))"

text \<open>The two loops of \<open>validate\<close>, with the identifiers seen so far.\<close>

fun validate_columns :: "u32 \<Rightarrow> u32 set \<Rightarrow> ColumnEntry list \<Rightarrow> unit result" where
  "validate_columns table_id seen [] = Ok ()"
| "validate_columns table_id seen (c # cs) =
     (if col_column_id c \<in> seen
      then Err (BadSchema (''duplicate column_id '' @ show_nat (unat (col_column_id c)) @ '' in table '' @ show_nat (unat table_id)
             @ '' (Spec '' @ section_sign @ ''24)''))
      else if col_logical c = LT_Null
      then Err (BadSchema (''column '' @ show_nat (unat (col_column_id c)) @ '' declares logical Null at top level (Spec '' @ section_sign @ ''24)''))
      else if \<not> is_ok (validate_logical_physical_pair_with_options (col_logical c) (col_physical c)
                 \<lparr>bool_declared_numeric = (col_flags c AND COLUMN_FLAG_BOOL_DECLARED_NUMERIC \<noteq> 0)\<rparr>)
      then Err BadLogicalPhysicalPair
      else validate_columns table_id (insert (col_column_id c) seen) cs)"

fun validate_tables :: "u32 set \<Rightarrow> TableEntry list \<Rightarrow> unit result" where
  "validate_tables seen [] = Ok ()"
| "validate_tables seen (t # ts) =
     (if tab_table_id t \<in> seen
      then Err (BadSchema (''duplicate table_id '' @ show_nat (unat (tab_table_id t)) @ '' (Spec '' @ section_sign @ ''24)''))
      else and_then (validate_columns (tab_table_id t) {} (tab_columns t)) (\<lambda>_.
           validate_tables (insert (tab_table_id t) seen) ts))"

definition TableCatalog_validate :: "TableCatalog \<Rightarrow> unit result" where
  "TableCatalog_validate c = validate_tables {} (cat_tables c)"

definition TableCatalog_parse :: "bytes \<Rightarrow> TableCatalog result" where
  "TableCatalog_parse bs =
     (if length bs < 4 + 4 then Err BufferTooShort
      else and_then (parse_entries TableEntry_parse (unat (u32_at bs 0)) bs 8) (\<lambda>(tables, _).
           let cat = \<lparr>cat_flags = u32_at bs 4, cat_tables = tables\<rparr> in
           and_then (TableCatalog_validate cat) (\<lambda>_. Ok cat)))"

section \<open>Validation is exact\<close>

definition column_ok :: "ColumnEntry \<Rightarrow> bool" where
  "column_ok c \<longleftrightarrow> col_logical c \<noteq> LT_Null
     \<and> pair_ok \<lparr>bool_declared_numeric = (col_flags c AND COLUMN_FLAG_BOOL_DECLARED_NUMERIC \<noteq> 0)\<rparr> (col_logical c) (col_physical c)"

definition catalog_ok :: "TableCatalog \<Rightarrow> bool" where
  "catalog_ok c \<longleftrightarrow> distinct (map tab_table_id (cat_tables c))
     \<and> list_all (\<lambda>t. distinct (map col_column_id (tab_columns t)) \<and> list_all column_ok (tab_columns t)) (cat_tables c)"

lemma validate_columns_iff:
  "validate_columns t seen cs = Ok () \<longleftrightarrow> distinct (map col_column_id cs) \<and> col_column_id ` set cs \<inter> seen = {} \<and> list_all column_ok cs"
  by (induction cs arbitrary: seen) (auto simp: column_ok_def is_ok_iff result_simps)

lemma validate_tables_iff:
  "validate_tables seen ts = Ok () \<longleftrightarrow> distinct (map tab_table_id ts) \<and> tab_table_id ` set ts \<inter> seen = {}
     \<and> list_all (\<lambda>t. distinct (map col_column_id (tab_columns t)) \<and> list_all column_ok (tab_columns t)) ts"
  by (induction ts arbitrary: seen) (auto simp: result_simps validate_columns_iff)

lemma catalog_validate_iff: "TableCatalog_validate c = Ok () \<longleftrightarrow> catalog_ok c"
  by (auto simp: TableCatalog_validate_def validate_tables_iff catalog_ok_def)


section \<open>Catalogs are read back\<close>

definition table_wf :: "TableEntry \<Rightarrow> bool" where
  "table_wf t \<longleftrightarrow> length (tab_namespace t) \<le> 65535 \<and> utf8_valid (tab_namespace t) \<and> length (tab_name t) \<le> 65535
     \<and> utf8_valid (tab_name t) \<and> length (tab_columns t) < 2 ^ 32 \<and> list_all column_wf (tab_columns t)"

lemma encodes_all: "list_all (\<lambda>x. \<exists>y. f x = Ok y) xs \<Longrightarrow> \<exists>ys. collect_map f xs = Ok ys"
  by (induction xs) auto

lemma table_parse_back:
  assumes "table_wf t" "TableEntry_serialize t = Ok bs" "length bs < usize_bound"
  shows "TableEntry_parse (bs @ rest) = Ok (t, length bs)"
proof -
  obtain cols where cols: "collect_map ColumnEntry_serialize (tab_columns t) = Ok cols"
    and bs: "bs = le_bytes 4 (tab_table_id t) @ le_bytes 2 (of_nat (length (tab_namespace t)) :: u16) @ tab_namespace t
          @ le_bytes 2 (of_nat (length (tab_name t)) :: u16) @ tab_name t @ le_bytes 4 (of_nat (length (tab_columns t)) :: u32)
          @ le_bytes 8 (tab_row_count t) @ le_bytes 2 (tab_primary_sort_key_count t) @ le_bytes 2 (tab_clustering_key_count t)
          @ le_bytes 4 (tab_flags t) @ concat cols"
    using assms(2) by (auto simp: TableEntry_serialize_def result_simps split: if_splits)
  let ?p1 = "le_bytes 4 (tab_table_id t)"
  let ?p2 = "?p1 @ le_bytes 2 (of_nat (length (tab_namespace t)) :: u16) @ tab_namespace t"
  let ?p3 = "?p2 @ le_bytes 2 (of_nat (length (tab_name t)) :: u16) @ tab_name t"
  let ?fixed = "le_bytes 4 (of_nat (length (tab_columns t)) :: u32)
          @ le_bytes 8 (tab_row_count t) @ le_bytes 2 (tab_primary_sort_key_count t) @ le_bytes 2 (tab_clustering_key_count t)
          @ le_bytes 4 (tab_flags t)"
  have whole: "bs = ?p3 @ ?fixed @ concat cols" by (simp add: bs)
  have ns: "read_str (bs @ rest) 4 what = Ok (tab_namespace t, length ?p2)" for what
    using read_str_back [of "tab_namespace t" ?p1 "drop (length ?p2) bs @ rest"] assms(1,3) by (simp add: bs table_wf_def)
  have nm: "read_str (bs @ rest) (length ?p2) what = Ok (tab_name t, length ?p3)" for what
    using read_str_back [of "tab_name t" ?p2 "?fixed @ concat cols @ rest"] assms(1,3) by (simp add: bs table_wf_def)
  have fields: "u32_at (bs @ rest) 0 = tab_table_id t"
    "u32_at (bs @ rest) (length ?p3) = of_nat (length (tab_columns t))" "u64_at (bs @ rest) (length ?p3 + 4) = tab_row_count t"
    "u16_at (bs @ rest) (length ?p3 + 12) = tab_primary_sort_key_count t"
    "u16_at (bs @ rest) (length ?p3 + 14) = tab_clustering_key_count t" "u32_at (bs @ rest) (length ?p3 + 16) = tab_flags t"
    unfolding whole by (simp_all add: wire_simps)
  have count: "unat (of_nat (length (tab_columns t)) :: u32) = length (tab_columns t)"
    using assms(1) by (intro unat_of_nat_less) (simp add: table_wf_def)
  have cs: "parse_entries ColumnEntry_parse (length (tab_columns t)) (bs @ rest) (length ?p3 + 20) = Ok (tab_columns t, length bs)"
    using column.entries_back [OF cols, of "?p3 @ ?fixed" rest] assms(1,3) by (simp add: whole table_wf_def)
  have len: "4 + 2 \<le> length (bs @ rest)" "length ?p3 + 20 \<le> length (bs @ rest)" by (simp_all add: whole)
  show ?thesis
    unfolding TableEntry_parse_def using len fields cs by (simp add: ns nm count del: length_append)
qed

interpretation table: counted_codec TableEntry_serialize TableEntry_parse table_wf
proof
  show "table_wf t \<Longrightarrow> \<exists>bs. TableEntry_serialize t = Ok bs" for t
    using encodes_all [of ColumnEntry_serialize "tab_columns t"] column.encodes
    by (auto simp: table_wf_def TableEntry_serialize_def list_all_iff)
  show "table_wf t \<Longrightarrow> TableEntry_serialize t = Ok bs \<Longrightarrow> length bs < usize_bound \<Longrightarrow> TableEntry_parse (bs @ rest) = Ok (t, length bs)" for t bs rest
    by (rule table_parse_back)
  show "TableEntry_parse bs = Ok (t, n) \<Longrightarrow> n \<le> length bs" for bs t n
    by (auto simp: TableEntry_parse_def result_simps split: if_splits elim!: column.entries_bounded)
  show "TableEntry_parse bs \<noteq> Panic" for bs
    by (auto simp: TableEntry_parse_def and_then_eq_Panic column.entries_no_panic)
qed

lemma catalog_read_back:
  assumes "list_all table_wf (cat_tables c)" "length (cat_tables c) < 2 ^ 32" "TableCatalog_validate c = Ok ()"
  shows "\<exists>bs. TableCatalog_serialize c = Ok bs \<and> (length bs < usize_bound \<longrightarrow> TableCatalog_parse (bs @ rest) = Ok c)"
proof -
  obtain ts where ts: "collect_map TableEntry_serialize (cat_tables c) = Ok ts"
    using encodes_all [of TableEntry_serialize "cat_tables c"] table.encodes assms(1) by (auto simp: list_all_iff)
  let ?pre = "le_bytes 4 (of_nat (length (cat_tables c)) :: u32) @ le_bytes 4 (cat_flags c)"
  have count: "unat (of_nat (length (cat_tables c)) :: u32) = length (cat_tables c)"
    using assms(2) by (intro unat_of_nat_less) simp
  have fields: "u32_at (?pre @ x) 0 = of_nat (length (cat_tables c))" "u32_at (?pre @ x) 4 = cat_flags c" for x
    by (simp_all add: wire_simps)
  have cat: "\<lparr>cat_flags = cat_flags c, cat_tables = cat_tables c\<rparr> = c" by simp
  have "TableCatalog_parse (?pre @ concat ts @ rest) = Ok c" if "length (?pre @ concat ts) < usize_bound"
    using table.entries_back [OF ts assms(1), of ?pre rest] that assms(3) fields [of "concat ts @ rest"]
    by (simp add: TableCatalog_parse_def count Let_def cat)
  then show ?thesis using assms(2) ts by (simp add: TableCatalog_serialize_def)
qed

text \<open>a catalog of well-formed entries that passes validation is written and read back unchanged.\<close>

theorem table_catalog_roundtrip:
  assumes "list_all table_wf (cat_tables c)" "length (cat_tables c) < 2 ^ 32" "TableCatalog_validate c = Ok ()"
  shows "\<exists>bs. TableCatalog_serialize c = Ok bs \<and> (length bs < usize_bound \<longrightarrow> TableCatalog_parse (bs @ rest) = Ok c)"
  using assms by (rule catalog_read_back)

lemma table_catalog_validated_parts:
  "TableCatalog_parse bs \<noteq> Panic"
  "TableCatalog_parse bs = Ok c \<Longrightarrow> catalog_ok c"
  "catalog_ok d \<longleftrightarrow> TableCatalog_validate d = Ok ()"
proof -
  have v: "TableCatalog_validate c \<noteq> Panic" for c
  proof -
    have cols: "validate_columns t s cs \<noteq> Panic" for t s cs by (induction cs arbitrary: s) auto
    have "validate_tables s ts \<noteq> Panic" for s ts by (induction ts arbitrary: s) (auto simp: and_then_eq_Panic cols)
    then show ?thesis by (simp add: TableCatalog_validate_def)
  qed
  show "TableCatalog_parse bs \<noteq> Panic"
    by (auto simp: TableCatalog_parse_def and_then_eq_Panic Let_def table.entries_no_panic v)
  show "TableCatalog_parse bs = Ok c \<Longrightarrow> catalog_ok c"
    by (auto simp: TableCatalog_parse_def result_simps Let_def catalog_validate_iff split: if_splits)
  show "catalog_ok d \<longleftrightarrow> TableCatalog_validate d = Ok ()" by (simp add: catalog_validate_iff)
qed

text \<open>C39: the catalog parser never panics, and what it accepts has distinct table identifiers, distinct column
  identifiers within every table, no top-level Null and only compatible pairs of logical and physical types;
  validation accepts every such catalog.\<close>

theorem table_catalog_validated:
  "TableCatalog_parse bs \<noteq> Panic \<and> (TableCatalog_parse bs = Ok c \<longrightarrow> catalog_ok c)
     \<and> (catalog_ok d \<longleftrightarrow> TableCatalog_validate d = Ok ())"
  using table_catalog_validated_parts by simp

section \<open>Witnesses\<close>

definition sample_column :: "u32 \<Rightarrow> CoveLogicalType \<Rightarrow> CovePhysicalKind \<Rightarrow> ColumnEntry" where
  "sample_column i l p = \<lparr>col_column_id = i, col_name = [105, 100], col_logical = l, col_physical = p, col_nullable = True,
     col_sort_order = 1, col_collation_id = 0, col_precision = 0, col_scale = 0, col_flags = 0\<rparr>"

definition sample_catalog :: TableCatalog where
  "sample_catalog = \<lparr>cat_flags = 0, cat_tables =
     [\<lparr>tab_table_id = 1, tab_namespace = [112], tab_name = [117], tab_row_count = 1000, tab_primary_sort_key_count = 1,
       tab_clustering_key_count = 0, tab_flags = 0,
       tab_columns = [sample_column 10 LT_Int64 PK_NumCode, sample_column 11 LT_Bool PK_Boolean]\<rparr>]\<rparr>"

lemma sample_catalog_ok:
  "list_all table_wf (cat_tables sample_catalog)" "length (cat_tables sample_catalog) < 2 ^ 32" "catalog_ok sample_catalog"
  by (simp_all add: sample_catalog_def table_wf_def column_wf_def sample_column_def catalog_ok_def column_ok_def numeric_logical_def)

lemma sample_catalog_read: "\<exists>bs. TableCatalog_parse bs = Ok sample_catalog"
proof -
  have "\<exists>bs. TableCatalog_serialize sample_catalog = Ok bs \<and> length bs < usize_bound"
    by (simp add: TableCatalog_serialize_def sample_catalog_def TableEntry_serialize_def ColumnEntry_serialize_def sample_column_def)
  with catalog_read_back [of sample_catalog "[7]"] sample_catalog_ok show ?thesis by (auto simp: catalog_validate_iff)
qed

theorem table_catalog_roundtrip_witness:
  "\<exists>bs. TableCatalog_serialize sample_catalog = Ok bs \<and> TableCatalog_parse (bs @ [7]) = Ok sample_catalog"
proof -
  have "\<exists>bs. TableCatalog_serialize sample_catalog = Ok bs \<and> length bs < usize_bound"
    by (simp add: TableCatalog_serialize_def sample_catalog_def TableEntry_serialize_def ColumnEntry_serialize_def sample_column_def)
  with table_catalog_roundtrip [of sample_catalog "[7]"] sample_catalog_ok show ?thesis by (auto simp: catalog_validate_iff)
qed

theorem table_catalog_validated_witness:
  "\<exists>bs. TableCatalog_parse bs = Ok sample_catalog \<and> catalog_ok sample_catalog"
proof -
  obtain bs where "TableCatalog_parse bs = Ok sample_catalog" using sample_catalog_read by blast
  then show ?thesis using table_catalog_validated [of bs sample_catalog sample_catalog] by blast
qed

end
