(* ===== verification/Digest.thy ===== *)
theory Digest
  imports Reader
begin

text \<open>
  Digest manifests (\<open>cove-core/src/digest.rs\<close>) and their verification against a file
  (\<open>reader/digest_verification.rs\<close>). The hash functions are third-party crates behind build features: a
  record of optional functions, absent when the feature is off. The theorems show that manifests are read
  back, that their parser never panics, and that a change of covered bytes goes unnoticed only with a
  collision of the hash function.
\<close>

section \<open>Enumerations\<close>

datatype DigestScope = Scope_File | Scope_Section | Scope_Page | Scope_Merkle

primrec DigestScope_code :: "DigestScope \<Rightarrow> u16" where
  "DigestScope_code Scope_File = 0"
| "DigestScope_code Scope_Section = 1"
| "DigestScope_code Scope_Page = 2"
| "DigestScope_code Scope_Merkle = 3"

definition DigestScope_from_u16 :: "u16 \<Rightarrow> DigestScope option" where
  "DigestScope_from_u16 v = map_of [(0, Scope_File), (1, Scope_Section), (2, Scope_Page), (3, Scope_Merkle)] v"

interpretation digestScope: wire_enum DigestScope_code DigestScope_from_u16
proof
  fix k show "DigestScope_from_u16 (DigestScope_code k) = Some k" by (cases k) (simp_all add: DigestScope_from_u16_def)
next
  fix v k assume "DigestScope_from_u16 v = Some k"
  then show "DigestScope_code k = v" by (auto simp: DigestScope_from_u16_def split: if_splits)
qed

datatype DigestTargetKind = Target_Section | Target_Page | Target_File | Target_Custom

primrec DigestTargetKind_code :: "DigestTargetKind \<Rightarrow> u16" where
  "DigestTargetKind_code Target_Section = 0"
| "DigestTargetKind_code Target_Page = 1"
| "DigestTargetKind_code Target_File = 2"
| "DigestTargetKind_code Target_Custom = 3"

definition DigestTargetKind_from_u16 :: "u16 \<Rightarrow> DigestTargetKind option" where
  "DigestTargetKind_from_u16 v = map_of [(0, Target_Section), (1, Target_Page), (2, Target_File), (3, Target_Custom)] v"

interpretation digestTargetKind: wire_enum DigestTargetKind_code DigestTargetKind_from_u16
proof
  fix k show "DigestTargetKind_from_u16 (DigestTargetKind_code k) = Some k" by (cases k) (simp_all add: DigestTargetKind_from_u16_def)
next
  fix v k assume "DigestTargetKind_from_u16 v = Some k"
  then show "DigestTargetKind_code k = v" by (auto simp: DigestTargetKind_from_u16_def split: if_splits)
qed

primrec DigestAlgorithm_debug :: "DigestAlgorithm \<Rightarrow> string" where
  "DigestAlgorithm_debug Digest_None = ''None''"
| "DigestAlgorithm_debug Digest_Sha256 = ''Sha256''"
| "DigestAlgorithm_debug Digest_Blake3 = ''Blake3''"

section \<open>Hashing\<close>

record hashes =
  h_sha256 :: "(bytes \<Rightarrow> bytes) option"
  h_blake3 :: "(bytes \<Rightarrow> bytes) option"

definition expected_digest_len :: "DigestAlgorithm \<Rightarrow> usize" where
  "expected_digest_len algorithm = (if algorithm = Digest_None then 0 else 32)"

definition sha256_digest :: "hashes \<Rightarrow> bytes \<Rightarrow> bytes result" where
  "sha256_digest hs data = (case h_sha256 hs of Some h \<Rightarrow> Ok (h data)
     | None \<Rightarrow> Err (UnsupportedEncoding ''SHA-256 not enabled (build with feature `digest-sha2`)''))"

definition blake3_digest :: "hashes \<Rightarrow> bytes \<Rightarrow> bytes result" where
  "blake3_digest hs data = (case h_blake3 hs of Some h \<Rightarrow> Ok (h data)
     | None \<Rightarrow> Err (UnsupportedEncoding ''BLAKE3 not enabled (build with feature `digest-blake3`)''))"

definition compute_digest :: "hashes \<Rightarrow> DigestAlgorithm \<Rightarrow> bytes \<Rightarrow> bytes result" where
  "compute_digest hs algorithm data = (case algorithm of
       Digest_None \<Rightarrow> Ok []
     | Digest_Sha256 \<Rightarrow> sha256_digest hs data
     | Digest_Blake3 \<Rightarrow> blake3_digest hs data)"

definition verify_digest :: "hashes \<Rightarrow> DigestAlgorithm \<Rightarrow> bytes \<Rightarrow> bytes \<Rightarrow> unit result" where
  "verify_digest hs algorithm data expected =
     (if algorithm = Digest_None then Ok ()
      else and_then (compute_digest hs algorithm data) (\<lambda>actual.
           if actual = expected then Ok () else Err DigestMismatch))"

section \<open>Manifests\<close>

record DigestEntry =
  dge_target_kind :: DigestTargetKind
  dge_section_id :: u32
  dge_local_id :: u64
  dge_offset :: u64
  dge_length :: u64
  dge_digest :: bytes

record DigestManifest =
  dm_algorithm :: DigestAlgorithm
  dm_scope :: DigestScope
  dm_root_digest :: bytes
  dm_entries :: "DigestEntry list"

definition DigestManifest_default :: DigestManifest where
  "DigestManifest_default = \<lparr>dm_algorithm = Digest_Sha256, dm_scope = Scope_Section, dm_root_digest = replicate 32 0, dm_entries = []\<rparr>"

definition DIGEST_MANIFEST_HEADER_LEN :: usize where "DIGEST_MANIFEST_HEADER_LEN = 60"
definition DIGEST_ENTRY_FIXED_LEN :: usize where "DIGEST_ENTRY_FIXED_LEN = 32"

lemma digest_lens [simp]: "DIGEST_MANIFEST_HEADER_LEN = 60" "DIGEST_ENTRY_FIXED_LEN = 32"
  by (simp_all add: DIGEST_MANIFEST_HEADER_LEN_def DIGEST_ENTRY_FIXED_LEN_def)

definition wrong_digest_len :: "DigestAlgorithm \<Rightarrow> nat \<Rightarrow> CoveError" where
  "wrong_digest_len algorithm n = BadSection (''digest for algorithm '' @ DigestAlgorithm_debug algorithm @ '' must be ''
     @ show_nat (expected_digest_len algorithm) @ '' bytes, got '' @ show_nat n)"

text \<open>One round of the entry loop: the entry at \<open>pos\<close> and the position after it.\<close>

definition parse_digest_entry :: "DigestAlgorithm \<Rightarrow> bytes \<Rightarrow> usize \<Rightarrow> usize \<Rightarrow> (DigestEntry \<times> usize) result" where
  "parse_digest_entry algorithm bs entries_end pos =
     and_then (checked_add pos DIGEST_ENTRY_FIXED_LEN) (\<lambda>fixed_end.
     if fixed_end > entries_end then Err BufferTooShort
     else and_then (ok_or (DigestTargetKind_from_u16 (u16_at bs pos))
            (BadSection (''unknown digest target kind '' @ show_nat (unat (u16_at bs pos))))) (\<lambda>target_kind.
          let digest_len = unat (u16_at bs (pos + 2)); start = pos + 32 in
          and_then (checked_add start digest_len) (\<lambda>digest_end.
          if digest_end > entries_end then Err BufferTooShort
          else let digest = slice start (digest_end - start) bs in
            if length digest \<noteq> expected_digest_len algorithm then Err (wrong_digest_len algorithm (length digest))
            else Ok (\<lparr>dge_target_kind = target_kind, dge_section_id = u32_at bs (pos + 4), dge_local_id = u64_at bs (pos + 8),
                 dge_offset = u64_at bs (pos + 16), dge_length = u64_at bs (pos + 24), dge_digest = digest\<rparr>, digest_end))))"

fun parse_digest_entries :: "DigestAlgorithm \<Rightarrow> bytes \<Rightarrow> usize \<Rightarrow> nat \<Rightarrow> usize \<Rightarrow> (DigestEntry list \<times> usize) result" where
  "parse_digest_entries algorithm bs entries_end 0 pos = Ok ([], pos)"
| "parse_digest_entries algorithm bs entries_end (Suc n) pos =
     and_then (parse_digest_entry algorithm bs entries_end pos) (\<lambda>(e, pos).
     and_then (parse_digest_entries algorithm bs entries_end n pos) (\<lambda>(es, pos). Ok (e # es, pos)))"

definition DigestManifest_parse :: "(bytes \<Rightarrow> u32) \<Rightarrow> bytes \<Rightarrow> DigestManifest result" where
  "DigestManifest_parse crc bs =
     (if length bs < DIGEST_MANIFEST_HEADER_LEN then Err BufferTooShort
      else if crc (put 56 (replicate 4 0) (slice 0 DIGEST_MANIFEST_HEADER_LEN bs)) \<noteq> u32_at bs 56 then Err ChecksumMismatch
      else and_then (ok_or (case DigestAlgorithm_from_u16 (u16_at bs 0) of Some a \<Rightarrow> if a \<noteq> Digest_None then Some a else None | None \<Rightarrow> None)
             (BadSection (''digest manifest algorithm must be SHA-256 or BLAKE3, got '' @ show_nat (unat (u16_at bs 0))))) (\<lambda>algorithm.
           and_then (ok_or (DigestScope_from_u16 (u16_at bs 2))
             (BadSection (''unknown digest manifest scope '' @ show_nat (unat (u16_at bs 2))))) (\<lambda>scope.
           let entry_count = u32_at bs 4; entries_offset = unat (u64_at bs 8); entries_length = unat (u64_at bs 16);
               root_digest = slice 24 32 bs in
           if entries_offset < DIGEST_MANIFEST_HEADER_LEN then Err OffsetRange
           else and_then (checked_add entries_offset entries_length) (\<lambda>entries_end.
           if entries_end > length bs then Err OffsetRange
           else if entries_end \<noteq> length bs then Err (BadSection ''digest manifest has bytes outside the declared entries region'')
           else and_then (parse_digest_entries algorithm bs entries_end (unat entry_count) entries_offset) (\<lambda>(entries, pos).
           if pos \<noteq> entries_end then Err (BadSection ''digest manifest entries region has trailing bytes'')
           else Ok \<lparr>dm_algorithm = algorithm, dm_scope = scope, dm_root_digest = root_digest, dm_entries = entries\<rparr>)))))"

definition digest_entry_bytes :: "DigestAlgorithm \<Rightarrow> DigestEntry \<Rightarrow> bytes result" where
  "digest_entry_bytes algorithm e =
     (if length (dge_digest e) \<ge> 2 ^ 16 then Err (BadSection ''digest entry exceeds u16 digest_len limit'')
      else if length (dge_digest e) \<noteq> expected_digest_len algorithm then Err (wrong_digest_len algorithm (length (dge_digest e)))
      else Ok (le_bytes 2 (DigestTargetKind_code (dge_target_kind e)) @ le_bytes 2 (of_nat (length (dge_digest e)) :: u16)
        @ le_bytes 4 (dge_section_id e) @ le_bytes 8 (dge_local_id e) @ le_bytes 8 (dge_offset e) @ le_bytes 8 (dge_length e) @ dge_digest e))"

definition digest_header_bytes :: "DigestManifest \<Rightarrow> nat \<Rightarrow> bytes" where
  "digest_header_bytes m entries_len = le_bytes 2 (DigestAlgorithm_code (dm_algorithm m)) @ le_bytes 2 (DigestScope_code (dm_scope m))
     @ le_bytes 4 (of_nat (length (dm_entries m)) :: u32) @ le_bytes 8 (of_nat DIGEST_MANIFEST_HEADER_LEN :: u64)
     @ le_bytes 8 (of_nat entries_len :: u64) @ dm_root_digest m @ le_bytes 4 (0 :: u32)"

definition DigestManifest_serialize :: "(bytes \<Rightarrow> u32) \<Rightarrow> DigestManifest \<Rightarrow> bytes result" where
  "DigestManifest_serialize crc m =
     (if dm_algorithm m = Digest_None then Err (BadSection ''digest manifest algorithm cannot be None'')
      else and_then (collect_map (digest_entry_bytes (dm_algorithm m)) (dm_entries m)) (\<lambda>es.
        let entries = concat es in
        if length (dm_entries m) \<ge> 2 ^ 32 then Err (BadSection ''too many digest entries'')
        else if length entries \<ge> usize_bound then Err (BadSection ''digest entries too large'')
        else Ok (seal crc 56 (digest_header_bytes m (length entries)) @ entries)))"

definition verify_bytes :: "hashes \<Rightarrow> DigestManifest \<Rightarrow> DigestEntry \<Rightarrow> bytes \<Rightarrow> unit result" where
  "verify_bytes hs m entry bs = verify_digest hs (dm_algorithm m) bs (dge_digest entry)"

definition DigestManifest_verify_section :: "hashes \<Rightarrow> DigestManifest \<Rightarrow> u32 \<Rightarrow> bytes \<Rightarrow> unit result" where
  "DigestManifest_verify_section hs m section_id section_bytes =
     (case find (\<lambda>e. dge_target_kind e = Target_Section \<and> dge_section_id e = section_id) (dm_entries m) of
        None \<Rightarrow> Ok ()
      | Some entry \<Rightarrow>
          if dge_length entry \<noteq> of_nat (length section_bytes)
          then Err (BadSection (''digest entry length '' @ show_nat (unat (dge_length entry)) @ '' does not match section length '' @ show_nat (length section_bytes)))
          else verify_bytes hs m entry section_bytes)"

section \<open>Verifying a file\<close>

text \<open>What a section entry of a manifest is compared with: an ignored section is skipped.\<close>

datatype target = Skipped | Unrestricted | Section_Range nat nat

definition entry_target :: "CoveFooter \<Rightarrow> IgnoredOptionalSection list \<Rightarrow> DigestEntry \<Rightarrow> target result" where
  "entry_target footer skipped_sections entry =
     (if dge_target_kind entry = Target_Section then
        case binary_search_by_key (dge_section_id entry) se_section_id (ft_sections footer) of
          Inl idx \<Rightarrow>
            let target_section = ft_sections footer ! idx in
            and_then (CoveSectionEntryV1_end_offset target_section) (\<lambda>section_end.
            Ok (Section_Range (unat (se_offset target_section)) (unat section_end)))
        | Inr _ \<Rightarrow>
            if dge_section_id entry \<in> set (map ig_section_id skipped_sections) then Ok Skipped
            else Err (BadSection (''digest manifest references missing section_id '' @ show_nat (unat (dge_section_id entry))))
      else Ok Unrestricted)"

definition verify_entry ::
  "hashes \<Rightarrow> bytes \<Rightarrow> CoveFooter \<Rightarrow> IgnoredOptionalSection list \<Rightarrow> DigestManifest \<Rightarrow> DigestEntry \<Rightarrow> unit result" where
  "verify_entry hs data footer skipped_sections manifest entry =
     and_then (entry_target footer skipped_sections entry) (\<lambda>target.
     if target = Skipped then Ok ()
     else let range_start = unat (dge_offset entry); range_len = unat (dge_length entry) in
       and_then (checked_add range_start range_len) (\<lambda>range_end.
       if range_end > length data then Err OffsetRange
       else if (case target of Section_Range section_start section_end \<Rightarrow> range_start \<noteq> section_start \<or> range_end \<noteq> section_end | _ \<Rightarrow> False)
       then Err (BadSection (''digest manifest section '' @ show_nat (unat (dge_section_id entry)) @ '' range does not match footer section range''))
       else verify_bytes hs manifest entry (slice range_start (range_end - range_start) data)))"

definition manifest_sections :: "CoveFooter \<Rightarrow> CoveSectionEntryV1 list" where
  "manifest_sections footer = filter (\<lambda>s. se_section_kind s = SectionKind_code Section_DigestManifest) (ft_sections footer)"

definition verify_manifest_section ::
  "hashes \<Rightarrow> (bytes \<Rightarrow> u32) \<Rightarrow> codecs \<Rightarrow> bytes \<Rightarrow> CoveFooter \<Rightarrow> IgnoredOptionalSection list \<Rightarrow> CoveSectionEntryV1 \<Rightarrow> unit result" where
  "verify_manifest_section hs crc cs data footer skipped_sections digest_section =
     and_then (section_payload cs data digest_section) (\<lambda>digest_bytes.
     and_then (DigestManifest_parse crc digest_bytes) (\<lambda>manifest.
     try_each (verify_entry hs data footer skipped_sections manifest) (dm_entries manifest)))"

definition verify_digest_manifests ::
  "hashes \<Rightarrow> (bytes \<Rightarrow> u32) \<Rightarrow> codecs \<Rightarrow> bytes \<Rightarrow> CoveFooter \<Rightarrow> IgnoredOptionalSection list \<Rightarrow> u32 result" where
  "verify_digest_manifests hs crc cs data footer skipped_sections =
     and_then (try_each (verify_manifest_section hs crc cs data footer skipped_sections) (manifest_sections footer)) (\<lambda>_.
     Ok (of_nat (length (manifest_sections footer))))"

section \<open>Manifests are read back\<close>

definition digest_manifest_wf :: "DigestManifest \<Rightarrow> bool" where
  "digest_manifest_wf m \<longleftrightarrow> dm_algorithm m \<noteq> Digest_None \<and> length (dm_root_digest m) = 32
     \<and> list_all (\<lambda>e. length (dge_digest e) = 32) (dm_entries m) \<and> length (dm_entries m) < 2 ^ 32"

lemma entry_bytes_back:
  assumes "length (dge_digest e) = 32" "a \<noteq> Digest_None" "length pre + 64 + length rest < usize_bound"
  shows "\<exists>img. digest_entry_bytes a e = Ok img \<and> length img = 64
    \<and> parse_digest_entry a (pre @ img @ rest) (length pre + 64 + length rest) (length pre) = Ok (e, length pre + 64)"
  using assms
  by (cases e) (simp add: digest_entry_bytes_def expected_digest_len_def parse_digest_entry_def wire_simps checked_add_def Let_def
      digestTargetKind.decode_code)

lemma entries_bytes_back:
  assumes "list_all (\<lambda>e. length (dge_digest e) = 32) es" "a \<noteq> Digest_None" "length pre + 64 * length es < usize_bound"
  shows "\<exists>imgs. collect_map (digest_entry_bytes a) es = Ok imgs \<and> length (concat imgs) = 64 * length es
    \<and> parse_digest_entries a (pre @ concat imgs) (length pre + 64 * length es) (length es) (length pre) = Ok (es, length pre + 64 * length es)"
  using assms
proof (induction es arbitrary: pre)
  case (Cons e es)
  obtain img0 where i0: "digest_entry_bytes a e = Ok img0" "length img0 = 64"
    using entry_bytes_back [of e a "[]" "[]"] Cons.prems by auto
  obtain imgs where r: "collect_map (digest_entry_bytes a) es = Ok imgs" "length (concat imgs) = 64 * length es"
    "parse_digest_entries a ((pre @ img0) @ concat imgs) (length (pre @ img0) + 64 * length es) (length es) (length (pre @ img0))
       = Ok (es, length (pre @ img0) + 64 * length es)"
    using Cons.IH [of "pre @ img0"] Cons.prems i0(2) by auto
  have "parse_digest_entry a (pre @ img0 @ concat imgs) (length pre + 64 + length (concat imgs)) (length pre) = Ok (e, length pre + 64)"
    using entry_bytes_back [of e a pre "concat imgs"] Cons.prems i0 r(2) by auto
  with i0 r show ?case by (simp add: add.assoc)
qed simp

lemma digest_manifest_back:
  assumes wf: "digest_manifest_wf m"
  shows "\<exists>bs. DigestManifest_serialize crc m = Ok bs \<and> length bs = 60 + 64 * length (dm_entries m) \<and> DigestManifest_parse crc bs = Ok m"
proof -
  let ?a = "dm_algorithm m" and ?n = "length (dm_entries m)"
  let ?h = "digest_header_bytes m (64 * ?n)"
  have a: "?a \<noteq> Digest_None" and root: "length (dm_root_digest m) = 32" and n: "?n < 2 ^ 32"
    and es: "list_all (\<lambda>e. length (dge_digest e) = 32) (dm_entries m)"
    using wf by (simp_all add: digest_manifest_wf_def)
  have h: "length ?h = 60" using root by (simp add: digest_header_bytes_def)
  obtain imgs where imgs: "collect_map (digest_entry_bytes ?a) (dm_entries m) = Ok imgs" "length (concat imgs) = 64 * ?n"
    "parse_digest_entries ?a (seal crc 56 ?h @ concat imgs) (60 + 64 * ?n) ?n 60 = Ok (dm_entries m, 60 + 64 * ?n)"
    using entries_bytes_back [OF es a, of "seal crc 56 ?h"] n h by auto
  let ?bs = "seal crc 56 ?h @ concat imgs"
  have zero: "slice 56 4 ?h = replicate 4 0"
    using root by (simp add: digest_header_bytes_def wire_simps) (simp add: le_bytes_def upt_rec eval_nat_numeral)
  have fields: "u16_at ?bs 0 = DigestAlgorithm_code ?a" "u16_at ?bs 2 = DigestScope_code (dm_scope m)"
    "u32_at ?bs 4 = of_nat ?n" "u64_at ?bs 8 = 60" "u64_at ?bs 16 = of_nat (64 * ?n)" "slice 24 32 ?bs = dm_root_digest m"
    "u32_at ?bs 56 = crc ?h" "slice 0 60 ?bs = seal crc 56 ?h"
    using h root by (simp_all add: wire_simps) (simp_all add: digest_header_bytes_def wire_simps)
  have counts: "unat (of_nat ?n :: u32) = ?n" "unat (of_nat (64 * ?n) :: u64) = 64 * ?n"
    by (rule unat_of_nat_less, use n in simp)+
  have "DigestManifest_parse crc ?bs = Ok m"
    using a h imgs counts n
    by (simp add: DigestManifest_parse_def fields clear_seal zero digestAlgorithm.decode_code digestScope.decode_code Let_def
        checked_add_def)
  moreover have "DigestManifest_serialize crc m = Ok ?bs"
    using a imgs n by (simp add: DigestManifest_serialize_def Let_def)
  ultimately show ?thesis using h imgs(2) by (intro exI [of _ ?bs]) simp
qed

text \<open>a manifest with an algorithm, 32-byte digests and a 32-byte root is serialized and read back unchanged, whatever
  the checksum function.\<close>

theorem digest_manifest_roundtrip:
  assumes "digest_manifest_wf m"
  shows "\<exists>bs. DigestManifest_serialize crc m = Ok bs \<and> DigestManifest_parse crc bs = Ok m"
  using digest_manifest_back [OF assms] by blast


section \<open>Reading manifests is safe\<close>

lemma parse_digest_entry_no_panic [simp]: "parse_digest_entry a bs entries_end pos \<noteq> Panic"
  by (auto simp: parse_digest_entry_def and_then_eq_Panic ok_or_def Let_def split: option.splits)

lemma parse_digest_entries_no_panic [simp]: "parse_digest_entries a bs entries_end n pos \<noteq> Panic"
  by (induction n arbitrary: pos) (auto simp: and_then_eq_Panic)

lemma digest_parse_no_panic [simp]: "DigestManifest_parse crc bs \<noteq> Panic"
  by (auto simp: DigestManifest_parse_def and_then_eq_Panic ok_or_def Let_def split: option.splits if_splits)

lemma parse_digest_entries_wf:
  "parse_digest_entries a bs entries_end n pos = Ok (es, p) \<Longrightarrow> length es = n \<and> list_all (\<lambda>e. length (dge_digest e) = expected_digest_len a) es"
  by (induction n arbitrary: pos es) (auto simp: parse_digest_entry_def result_simps Let_def split: if_splits)

lemma digest_parse_wf:
  assumes "DigestManifest_parse crc bs = Ok m"
  shows "digest_manifest_wf m"
proof -
  obtain n pos q where p: "parse_digest_entries (dm_algorithm m) bs (length bs) (unat (n :: u32)) pos = Ok (dm_entries m, q)"
    "dm_algorithm m \<noteq> Digest_None" "dm_root_digest m = slice 24 32 bs" "60 \<le> length bs"
    using assms by (auto simp: DigestManifest_parse_def result_simps Let_def split: if_splits option.splits)
  have "length (dm_entries m) < 2 ^ 32" using parse_digest_entries_wf [OF p(1)] unat_less_power [of n] by simp
  with p parse_digest_entries_wf [OF p(1)] show ?thesis by (simp add: digest_manifest_wf_def expected_digest_len_def)
qed

lemma verify_bytes_no_panic [simp]: "verify_bytes hs m e bs \<noteq> Panic"
  by (auto simp: verify_bytes_def verify_digest_def and_then_eq_Panic compute_digest_def sha256_digest_def blake3_digest_def
      split: DigestAlgorithm.splits option.splits)

lemma verify_entry_no_panic [simp]: "verify_entry hs data footer ig m e \<noteq> Panic"
proof -
  have "entry_target footer ig e \<noteq> Panic"
    by (auto simp: entry_target_def CoveSectionEntryV1_end_offset_def and_then_eq_Panic Let_def split: sum.splits)
  then show ?thesis by (auto simp: verify_entry_def and_then_eq_Panic Let_def)
qed

section \<open>What verification establishes\<close>

text \<open>The hash of the algorithm is built in and the entry carries the hash of the bytes it covers.\<close>

definition digest_of :: "hashes \<Rightarrow> DigestAlgorithm \<Rightarrow> (bytes \<Rightarrow> bytes) option" where
  "digest_of hs a = (case a of Digest_None \<Rightarrow> None | Digest_Sha256 \<Rightarrow> h_sha256 hs | Digest_Blake3 \<Rightarrow> h_blake3 hs)"

definition covered :: "bytes \<Rightarrow> DigestEntry \<Rightarrow> bytes" where
  "covered data e = slice (unat (dge_offset e)) (unat (dge_length e)) data"

definition entry_skipped :: "CoveFooter \<Rightarrow> DigestEntry \<Rightarrow> bool" where
  "entry_skipped footer e \<longleftrightarrow> dge_target_kind e = Target_Section \<and> dge_section_id e \<notin> se_section_id ` set (ft_sections footer)"

definition entry_verified :: "hashes \<Rightarrow> bytes \<Rightarrow> CoveFooter \<Rightarrow> DigestManifest \<Rightarrow> DigestEntry \<Rightarrow> bool" where
  "entry_verified hs data footer m e \<longleftrightarrow>
     unat (dge_offset e) + unat (dge_length e) \<le> length data
     \<and> (\<exists>h. digest_of hs (dm_algorithm m) = Some h \<and> h (covered data e) = dge_digest e)
     \<and> (dge_target_kind e = Target_Section \<longrightarrow>
          (\<exists>s \<in> set (ft_sections footer). se_section_id s = dge_section_id e \<and> dge_offset e = se_offset s \<and> dge_length e = se_length s))"

lemma verify_bytes_Ok:
  "dm_algorithm m \<noteq> Digest_None \<Longrightarrow> verify_bytes hs m e bs = Ok u \<longleftrightarrow> (\<exists>h. digest_of hs (dm_algorithm m) = Some h \<and> h bs = dge_digest e)"
  by (cases "dm_algorithm m") (auto simp: verify_bytes_def verify_digest_def result_simps compute_digest_def sha256_digest_def
      blake3_digest_def digest_of_def split: option.splits if_splits)

lemma verify_entry_Ok:
  assumes ok: "verify_entry hs data footer ig m e = Ok u" and a: "dm_algorithm m \<noteq> Digest_None"
    and ids: "sorted_wrt (<) (map se_section_id (ft_sections footer))"
  shows "if entry_skipped footer e then dge_section_id e \<in> ig_section_id ` set ig else entry_verified hs data footer m e"
proof (cases "dge_target_kind e = Target_Section")
  case False
  then show ?thesis using ok a
    by (auto simp: verify_entry_def entry_target_def result_simps Let_def verify_bytes_Ok entry_skipped_def entry_verified_def covered_def
        split: if_splits)
next
  case sec: True
  show ?thesis
  proof (cases "binary_search_by_key (dge_section_id e) se_section_id (ft_sections footer)")
    case (Inl i)
    let ?s = "ft_sections footer ! i"
    have s: "?s \<in> set (ft_sections footer)" "se_section_id ?s = dge_section_id e" using binary_search_sound [OF Inl] by auto
    have fit: "unat (se_offset ?s) + unat (se_length ?s) < usize_bound" and
      r: "unat (dge_offset e) = unat (se_offset ?s)" "unat (dge_offset e) + unat (dge_length e) = unat (se_offset ?s + se_length ?s)"
        "unat (dge_offset e) + unat (dge_length e) \<le> length data"
        "verify_bytes hs m e (slice (unat (dge_offset e)) (unat (se_offset ?s + se_length ?s) - unat (dge_offset e)) data) = Ok u"
      using ok sec Inl by (auto simp: verify_entry_def entry_target_def result_simps Let_def split: if_splits)
    have len: "unat (dge_length e) = unat (se_length ?s)" using r end_word [OF fit] by simp
    have "verify_bytes hs m e (covered data e) = Ok u" using r(4) by (simp add: covered_def r(2) [symmetric])
    then obtain h where "digest_of hs (dm_algorithm m) = Some h" "h (covered data e) = dge_digest e"
      using a by (auto simp: verify_bytes_Ok)
    moreover have "dge_offset e = se_offset ?s" "dge_length e = se_length ?s" using r(1) len by (simp_all add: word_unat_eq_iff)
    ultimately have "entry_verified hs data footer m e" using r(3) s by (auto simp: entry_verified_def)
    moreover have "\<not> entry_skipped footer e" using s by (auto simp: entry_skipped_def image_iff intro!: bexI [of _ ?s])
    ultimately show ?thesis by simp
  next
    case (Inr j)
    then have "dge_section_id e \<notin> se_section_id ` set (ft_sections footer)"
      using binary_search_found_iff [OF ids, of "dge_section_id e"] by auto
    with ok sec Inr show ?thesis
      by (auto simp: verify_entry_def entry_target_def result_simps entry_skipped_def split: if_splits)
  qed
qed

lemma verify_digest_panic:
  assumes cs: "codecs_return cs" and panic: "verify_digest_manifests hs crc cs data footer ig = Panic"
  shows "\<exists>s \<in> set (manifest_sections footer). oversized (se_compression s) (se_uncompressed_length s)"
proof (rule ccontr)
  assume none: "\<not> ?thesis"
  have entries: "try_each (verify_entry hs data footer ig m) es \<noteq> Panic" for m es by (rule try_each_no_panic) simp
  have "verify_manifest_section hs crc cs data footer ig s \<noteq> Panic" if "s \<in> set (manifest_sections footer)" for s
    using section_payload_panic(1) [OF cs, of data s] none that by (auto simp: verify_manifest_section_def and_then_eq_Panic entries)
  then have "try_each (verify_manifest_section hs crc cs data footer ig) (manifest_sections footer) \<noteq> Panic" by (rule try_each_no_panic)
  then show False using panic by (simp add: verify_digest_manifests_def and_then_eq_Panic)
qed

lemma verified_manifests:
  assumes ok: "verify_digest_manifests hs crc cs data footer ig = Ok n" and ids: "sorted_wrt (<) (map se_section_id (ft_sections footer))"
  shows "list_all (\<lambda>s. \<exists>p m. section_payload cs data s = Ok p \<and> DigestManifest_parse crc p = Ok m
        \<and> list_all (\<lambda>e. if entry_skipped footer e then dge_section_id e \<in> ig_section_id ` set ig
                        else entry_verified hs data footer m e) (dm_entries m)) (manifest_sections footer)"
proof -
  have "\<exists>p m. section_payload cs data s = Ok p \<and> DigestManifest_parse crc p = Ok m
        \<and> list_all (\<lambda>e. if entry_skipped footer e then dge_section_id e \<in> ig_section_id ` set ig
                        else entry_verified hs data footer m e) (dm_entries m)"
    if s: "verify_manifest_section hs crc cs data footer ig s = Ok ()" for s
  proof -
    obtain p m where m: "section_payload cs data s = Ok p" "DigestManifest_parse crc p = Ok m"
      "list_all (\<lambda>e. verify_entry hs data footer ig m e = Ok ()) (dm_entries m)"
      using s by (auto simp: verify_manifest_section_def result_simps)
    have "dm_algorithm m \<noteq> Digest_None" using digest_parse_wf [OF m(2)] by (simp add: digest_manifest_wf_def)
    then show ?thesis using m verify_entry_Ok [OF _ _ ids] by (auto simp: list_all_iff)
  qed
  with ok show ?thesis by (auto simp: verify_digest_manifests_def result_simps list_all_iff)
qed

text \<open>C22: when digest verification succeeds, every entry of every digest manifest of the file covers a range of the file
  whose hash is the recorded digest, the range of its section when it names one; the only exceptions are entries for sections
  that were ignored before. The result counts the manifests. Verification panics on no input, except on a compressed
  manifest section that declares an uncompressed length above \<open>isize::MAX\<close>.\<close>

theorem digest_verification_sound:
  assumes "verify_digest_manifests hs crc cs data footer ig = Ok n" "sorted_wrt (<) (map se_section_id (ft_sections footer))"
    and "codecs_return cs"
  shows "n = of_nat (length (manifest_sections footer))
    \<and> list_all (\<lambda>s. \<exists>p m. section_payload cs data s = Ok p \<and> DigestManifest_parse crc p = Ok m
        \<and> list_all (\<lambda>e. if entry_skipped footer e then dge_section_id e \<in> ig_section_id ` set ig
                        else entry_verified hs data footer m e) (dm_entries m)) (manifest_sections footer)
    \<and> (verify_digest_manifests hs crc cs any_data any_footer ig = Panic \<longrightarrow>
         (\<exists>s \<in> set (manifest_sections any_footer). oversized (se_compression s) (se_uncompressed_length s)))"
  using verified_manifests [OF assms(1,2)] verify_digest_panic [OF assms(3)] assms(1)
  by (auto simp: verify_digest_manifests_def result_simps)

text \<open>when the same manifest is verified against two files, every range it covers holds the same bytes in both,
  or the bytes of the two files are a collision of the hash function.\<close>

theorem digest_tampering_detected:
  assumes "verify_entry hs data footer ig m e = Ok ()" "verify_entry hs data' footer' ig' m e = Ok ()"
    and "dm_algorithm m \<noteq> Digest_None" "\<not> entry_skipped footer e" "\<not> entry_skipped footer' e"
    and "sorted_wrt (<) (map se_section_id (ft_sections footer))" "sorted_wrt (<) (map se_section_id (ft_sections footer'))"
  shows "covered data e = covered data' e
    \<or> (\<exists>h. digest_of hs (dm_algorithm m) = Some h \<and> h (covered data e) = h (covered data' e) \<and> covered data e \<noteq> covered data' e)"
proof -
  have "entry_verified hs data footer m e" "entry_verified hs data' footer' m e"
    using verify_entry_Ok [OF assms(1,3,6)] verify_entry_Ok [OF assms(2,3,7)] assms(4,5) by simp_all
  then show ?thesis by (auto simp: entry_verified_def)
qed

section \<open>Witnesses\<close>

definition sample_hashes :: hashes where
  "sample_hashes = \<lparr>h_sha256 = Some (\<lambda>bs. take 32 bs @ replicate (32 - length bs) (of_nat (length bs))), h_blake3 = None\<rparr>"

text \<open>An entry for a range of the file, one for section 2, which is that range, and one for section 9, which was ignored.\<close>

definition sample_entry :: DigestEntry where
  "sample_entry = \<lparr>dge_target_kind = Target_File, dge_section_id = 0, dge_local_id = 0, dge_offset = 1, dge_length = 2,
     dge_digest = [5, 6] @ replicate 30 2\<rparr>"

definition sample_section_entry :: DigestEntry where
  "sample_section_entry = sample_entry\<lparr>dge_target_kind := Target_Section, dge_section_id := 2\<rparr>"

definition sample_ignored_entry :: DigestEntry where
  "sample_ignored_entry = sample_entry\<lparr>dge_target_kind := Target_Section, dge_section_id := 9, dge_digest := replicate 32 0\<rparr>"

definition sample_manifest :: DigestManifest where
  "sample_manifest = \<lparr>dm_algorithm = Digest_Sha256, dm_scope = Scope_File, dm_root_digest = replicate 32 0,
     dm_entries = [sample_entry, sample_section_entry, sample_ignored_entry]\<rparr>"

definition sample_ignored :: "IgnoredOptionalSection list" where
  "sample_ignored = [\<lparr>ig_section_id = 9, ig_section_kind = SectionKind_code Section_BloomIndex, ig_reason = []\<rparr>]"

lemmas sample_entries = sample_entry_def sample_section_entry_def sample_ignored_entry_def

theorem digest_manifest_roundtrip_witness:
  "\<exists>bs. DigestManifest_serialize (\<lambda>_. 7) sample_manifest = Ok bs \<and> DigestManifest_parse (\<lambda>_. 7) bs = Ok sample_manifest"
  using digest_manifest_roundtrip [of sample_manifest "\<lambda>_. 7"]
  by (simp add: sample_manifest_def sample_entries digest_manifest_wf_def)

definition sample_manifest_section :: CoveSectionEntryV1 where
  "sample_manifest_section = \<lparr>se_section_id = 4, se_section_kind = SectionKind_code Section_DigestManifest, se_profile = 0, se_flags = 0,
     se_offset = 3, se_length = 252, se_uncompressed_length = 252, se_item_count = 3, se_row_count = 0, se_compression = 0,
     se_encryption = 0, se_alignment_log2 = 0, se_reserved0 = 0, se_required_features = 0, se_optional_features = 0,
     se_crc32c = 0, se_reserved1 = 0\<rparr>"

definition sample_covered_section :: CoveSectionEntryV1 where
  "sample_covered_section = sample_manifest_section
     \<lparr>se_section_id := 2, se_section_kind := SectionKind_code Section_VendorExtension, se_offset := 1, se_length := 2,
      se_uncompressed_length := 2, se_item_count := 0\<rparr>"

definition sample_digest_footer :: CoveFooter where
  "sample_digest_footer = \<lparr>ft_header = \<lparr>fh_footer_magic = [], fh_footer_version = 0, fh_header_len = 0, fh_section_count = 2,
     fh_section_entry_len = 0, fh_flags = 0, fh_metadata_len = 0, fh_reserved = []\<rparr>,
     ft_sections = [sample_covered_section, sample_manifest_section], ft_metadata_json = []\<rparr>"

lemma sample_footer_ids: "map se_section_id (ft_sections sample_digest_footer) = [2, 4]"
  by (simp add: sample_digest_footer_def sample_covered_section_def sample_manifest_section_def)

lemma sample_footer_search:
  "binary_search_by_key 2 se_section_id (ft_sections sample_digest_footer) = Inl 0"
  "\<exists>j. binary_search_by_key 9 se_section_id (ft_sections sample_digest_footer) = Inr j"
proof -
  have ids: "sorted_wrt (<) (map se_section_id (ft_sections sample_digest_footer))" by (simp add: sample_footer_ids)
  show "binary_search_by_key 2 se_section_id (ft_sections sample_digest_footer) = Inl 0"
    by (rule binary_search_complete [OF ids]) (simp_all add: sample_digest_footer_def sample_covered_section_def)
  have "9 \<notin> se_section_id ` set (ft_sections sample_digest_footer)"
    using sample_footer_ids by (simp add: sample_digest_footer_def)
  then show "\<exists>j. binary_search_by_key 9 se_section_id (ft_sections sample_digest_footer) = Inr j"
    using binary_search_found_iff [OF ids, of 9] by (metis sum.exhaust)
qed

lemma sample_manifest_entries: "dm_entries sample_manifest = [sample_entry, sample_section_entry, sample_ignored_entry]"
  by (simp add: sample_manifest_def)

lemma sample_entries_accepted:
  "list_all (\<lambda>e. verify_entry sample_hashes ([x, 5, 6] @ rest) sample_digest_footer sample_ignored sample_manifest e = Ok ())
     (dm_entries sample_manifest)"
proof -
  have sha: "dm_algorithm sample_manifest = Digest_Sha256" by (simp add: sample_manifest_def)
  have accepted: "verify_entry sample_hashes ([x, 5, 6] @ rest) sample_digest_footer sample_ignored sample_manifest e = Ok ()"
    if "entry_target sample_digest_footer sample_ignored e \<in> {Ok Unrestricted, Ok (Section_Range 1 3)}"
      "e \<in> {sample_entry, sample_section_entry}" for e
    using that by (auto simp: verify_entry_def checked_add_def sample_entries verify_bytes_def verify_digest_def sha compute_digest_def
        sha256_digest_def sample_hashes_def slice_def)
  have "entry_target sample_digest_footer sample_ignored sample_entry = Ok Unrestricted"
    by (simp add: entry_target_def sample_entry_def)
  moreover have "entry_target sample_digest_footer sample_ignored sample_section_entry = Ok (Section_Range 1 3)"
    using sample_footer_search(1)
    by (simp add: entry_target_def sample_entries CoveSectionEntryV1_end_offset_def checked_add_def)
       (simp add: sample_digest_footer_def sample_covered_section_def)
  moreover have "entry_target sample_digest_footer sample_ignored sample_ignored_entry = Ok Skipped"
    using sample_footer_search(2) by (auto simp: entry_target_def sample_entries sample_ignored_def)
  ultimately show ?thesis using accepted by (simp add: sample_manifest_entries verify_entry_def [of _ _ _ _ _ sample_ignored_entry])
qed

lemma sample_entry_accepted:
  "verify_entry sample_hashes ([x, 5, 6] @ rest) sample_digest_footer sample_ignored sample_manifest sample_entry = Ok ()"
  using sample_entries_accepted [of x rest] by (simp add: sample_manifest_entries)

lemma sample_manifest_wf: "digest_manifest_wf sample_manifest"
  by (simp add: sample_manifest_def sample_entries digest_manifest_wf_def)

lemma sample_file_verified:
  "\<exists>bs. DigestManifest_serialize (\<lambda>_. 7) sample_manifest = Ok bs
     \<and> verify_digest_manifests sample_hashes (\<lambda>_. 7) stored_codecs ([1, 5, 6] @ bs) sample_digest_footer sample_ignored = Ok 1
     \<and> section_payload stored_codecs ([1, 5, 6] @ bs) sample_manifest_section = Ok bs"
proof -
  obtain bs where bs: "DigestManifest_serialize (\<lambda>_. 7) sample_manifest = Ok bs" "length bs = 252"
    "DigestManifest_parse (\<lambda>_. 7) bs = Ok sample_manifest"
    using digest_manifest_back [OF sample_manifest_wf, of "\<lambda>_. 7"] by (auto simp: sample_manifest_def)
  have payload: "section_payload stored_codecs ([1, 5, 6] @ bs) sample_manifest_section = Ok bs"
    using bs(2) by (simp add: section_payload_def sample_manifest_section_def payload_from_spec_def payload_raw_bytes_def
        checked_add_def payload_from_raw_def CompressionCodec_from_u8_def slice_def)
  then have "verify_manifest_section sample_hashes (\<lambda>_. 7) stored_codecs ([1, 5, 6] @ bs) sample_digest_footer sample_ignored
      sample_manifest_section = Ok ()"
    using bs(3) sample_entries_accepted [of 1 bs] by (simp add: verify_manifest_section_def result_simps)
  moreover have "manifest_sections sample_digest_footer = [sample_manifest_section]"
    by (simp add: manifest_sections_def sample_digest_footer_def sample_manifest_section_def sample_covered_section_def)
  ultimately show ?thesis using bs(1) payload by (simp add: verify_digest_manifests_def)
qed

theorem digest_verification_sound_witness:
  "\<exists>data. verify_digest_manifests sample_hashes (\<lambda>_. 7) stored_codecs data sample_digest_footer sample_ignored = Ok 1
     \<and> entry_verified sample_hashes data sample_digest_footer sample_manifest sample_section_entry
     \<and> entry_skipped sample_digest_footer sample_ignored_entry"
proof -
  obtain bs data where v: "DigestManifest_serialize (\<lambda>_. 7) sample_manifest = Ok bs"
      "verify_digest_manifests sample_hashes (\<lambda>_. 7) stored_codecs data sample_digest_footer sample_ignored = Ok 1"
      "section_payload stored_codecs data sample_manifest_section = Ok bs"
    using sample_file_verified by blast
  have parse: "DigestManifest_parse (\<lambda>_. 7) bs = Ok sample_manifest"
    using digest_manifest_back [OF sample_manifest_wf, of "\<lambda>_. 7"] v(1) by auto
  have ids: "sorted_wrt (<) (map se_section_id (ft_sections sample_digest_footer))"
    by (simp add: sample_digest_footer_def sample_covered_section_def sample_manifest_section_def)
  have here: "sample_manifest_section \<in> set (manifest_sections sample_digest_footer)"
    by (simp add: manifest_sections_def sample_digest_footer_def sample_manifest_section_def sample_covered_section_def)
  have found: "\<not> entry_skipped sample_digest_footer sample_section_entry" "sample_section_entry \<in> set (dm_entries sample_manifest)"
    by (simp_all add: entry_skipped_def sample_digest_footer_def sample_covered_section_def sample_entries sample_manifest_def)
  note sound = digest_verification_sound [OF v(2) ids stored_codecs_return, of "[]" sample_digest_footer, unfolded list_all_iff]
  obtain p m where "section_payload stored_codecs data sample_manifest_section = Ok p" "DigestManifest_parse (\<lambda>_. 7) p = Ok m"
      "\<forall>e \<in> set (dm_entries m). if entry_skipped sample_digest_footer e then dge_section_id e \<in> ig_section_id ` set sample_ignored
         else entry_verified sample_hashes data sample_digest_footer m e"
    using bspec [OF conjunct1 [OF conjunct2 [OF sound]] here] by blast
  then have "entry_verified sample_hashes data sample_digest_footer sample_manifest sample_section_entry"
    using found v(3) parse by auto
  moreover have "entry_skipped sample_digest_footer sample_ignored_entry"
    by (simp add: entry_skipped_def sample_entries sample_digest_footer_def sample_covered_section_def sample_manifest_section_def)
  ultimately show ?thesis using v(2) by blast
qed

theorem digest_tampering_detected_witness:
  "covered ([1, 5, 6] @ [1]) sample_entry = covered ([9, 5, 6] @ [2]) sample_entry
    \<or> (\<exists>h. digest_of sample_hashes (dm_algorithm sample_manifest) = Some h
          \<and> h (covered ([1, 5, 6] @ [1]) sample_entry) = h (covered ([9, 5, 6] @ [2]) sample_entry)
          \<and> covered ([1, 5, 6] @ [1]) sample_entry \<noteq> covered ([9, 5, 6] @ [2]) sample_entry)"
  by (rule digest_tampering_detected [of sample_hashes _ sample_digest_footer sample_ignored sample_manifest sample_entry _ sample_digest_footer sample_ignored])
    (use sample_entry_accepted in \<open>simp_all add: entry_skipped_def\<close>, simp_all add: sample_manifest_def sample_entry_def sample_footer_ids
      del: list.map)

end
