(* ===== verification/Collation.thy ===== *)
theory Collation
  imports Crc_Record "HOL-Library.List_Lexorder"
begin

text \<open>
  Collations (\<open>cove-core/src/collation.rs\<close>): the comparisons that drive ranks, statistics and ordered
  indexes, and the registry section that names them. The locale states that a comparison is the order of a
  key; every collation except \<open>None\<close> is one, so it is a total order on its values.
\<close>

section \<open>Comparison\<close>

datatype Ordering3 = O3_Less | O3_Equal | O3_Greater

primrec Ordering3_from :: "ordering \<Rightarrow> Ordering3" where
  "Ordering3_from Less = O3_Less"
| "Ordering3_from Equal = O3_Equal"
| "Ordering3_from Greater = O3_Greater"

datatype CollationKind = CK_None | CK_Utf8Bytewise | CK_UnsignedFixedBytes | CK_SignedNumeric | CK_UnsignedNumeric
  | CK_TimestampChronological

definition str_bytes :: "string \<Rightarrow> bytes" where
  "str_bytes s = map of_char s"

primrec CollationKind_name :: "CollationKind \<Rightarrow> string" where
  "CollationKind_name CK_None = ''none''"
| "CollationKind_name CK_Utf8Bytewise = ''utf8-bytewise''"
| "CollationKind_name CK_UnsignedFixedBytes = ''unsigned-fixed-bytes''"
| "CollationKind_name CK_SignedNumeric = ''signed-numeric''"
| "CollationKind_name CK_UnsignedNumeric = ''unsigned-numeric''"
| "CollationKind_name CK_TimestampChronological = ''timestamp-chronological''"

text \<open>Names are looked up as the bytes of the text.\<close>

definition CollationKind_from_name :: "bytes \<Rightarrow> CollationKind option" where
  "CollationKind_from_name name = map_of
     [(str_bytes ''none'', CK_None), (str_bytes ''utf8-bytewise'', CK_Utf8Bytewise),
      (str_bytes ''unsigned-fixed-bytes'', CK_UnsignedFixedBytes), (str_bytes ''signed-numeric'', CK_SignedNumeric),
      (str_bytes ''unsigned-numeric'', CK_UnsignedNumeric), (str_bytes ''timestamp-chronological'', CK_TimestampChronological)] name"

definition supports_ordering :: "CollationKind \<Rightarrow> bool" where
  "supports_ordering kind \<longleftrightarrow> kind \<noteq> CK_None"

definition check_same_len :: "bytes \<Rightarrow> bytes \<Rightarrow> unit result" where
  "check_same_len lhs rhs = (if length lhs \<noteq> length rhs \<or> length lhs \<notin> {1, 2, 4, 8, 16} then Err BadStats else Ok ())"

text \<open>The bytes are copied into a zeroed 16-byte buffer; a longer slice would panic.\<close>

definition read_unsigned :: "bytes \<Rightarrow> u128 result" where
  "read_unsigned b = (if length b > 16 then Panic else Ok (from_le (put 0 b (replicate 16 0))))"

definition read_signed :: "bytes \<Rightarrow> int" where
  "read_signed b =
     (if length b = 1 then sint (from_le b :: 8 word)
      else if length b = 2 then sint (from_le b :: 16 word)
      else if length b = 4 then sint (from_le b :: 32 word)
      else if length b = 8 then sint (from_le b :: 64 word)
      else if length b = 16 then sint (from_le b :: 128 word)
      else 0)"

definition unsigned_numeric :: "bytes \<Rightarrow> bytes \<Rightarrow> Ordering3 result" where
  "unsigned_numeric lhs rhs =
     and_then (check_same_len lhs rhs) (\<lambda>_.
     and_then (read_unsigned lhs) (\<lambda>l.
     and_then (read_unsigned rhs) (\<lambda>r. Ok (Ordering3_from (ord_cmp l r)))))"

definition signed_numeric :: "bytes \<Rightarrow> bytes \<Rightarrow> Ordering3 result" where
  "signed_numeric lhs rhs =
     and_then (check_same_len lhs rhs) (\<lambda>_. Ok (Ordering3_from (ord_cmp (read_signed lhs) (read_signed rhs))))"

definition CollationKind_compare :: "CollationKind \<Rightarrow> bytes \<Rightarrow> bytes \<Rightarrow> Ordering3 result" where
  "CollationKind_compare kind lhs rhs = (case kind of
       CK_None \<Rightarrow> if lhs = rhs then Ok O3_Equal else Err BadStats
     | CK_Utf8Bytewise \<Rightarrow> Ok (Ordering3_from (ord_cmp lhs rhs))
     | CK_UnsignedFixedBytes \<Rightarrow> Ok (Ordering3_from (ord_cmp lhs rhs))
     | CK_UnsignedNumeric \<Rightarrow> unsigned_numeric lhs rhs
     | CK_SignedNumeric \<Rightarrow> signed_numeric lhs rhs
     | CK_TimestampChronological \<Rightarrow> signed_numeric lhs rhs)"

definition V1_COLLATIONS :: "CollationKind list" where
  "V1_COLLATIONS = [CK_None, CK_Utf8Bytewise, CK_UnsignedFixedBytes, CK_SignedNumeric, CK_UnsignedNumeric, CK_TimestampChronological]"

text \<open>The lexicographic order of byte strings: at the first difference, the smaller byte or the end of the first.\<close>

definition bytes_less :: "bytes \<Rightarrow> bytes \<Rightarrow> bool" where
  "bytes_less a b \<longleftrightarrow> (\<exists>k \<le> length a. k < length b \<and> take k a = take k b \<and> (k < length a \<longrightarrow> unat (a ! k) < unat (b ! k)))"

lemma bytes_less_iff: "bytes_less a b \<longleftrightarrow> a < b"
proof -
  have "a < b \<longleftrightarrow> length a < length b \<and> take (length a) b = a
      \<or> (\<exists>k < min (length a) (length b). take k a = take k b \<and> a ! k < b ! k)"
    by (simp add: list_less_def lexord_take_index_conv)
  then show ?thesis unfolding bytes_less_def
    by (auto simp: word_less_nat_alt le_less dest: sym)
qed

section \<open>Comparisons by a key\<close>

locale key_comparison =
  fixes compare :: "'v \<Rightarrow> 'v \<Rightarrow> Ordering3 result"
    and key :: "'v \<Rightarrow> 'k::linorder"
    and dom :: "'v \<Rightarrow> bool"
  assumes compares: "dom a \<Longrightarrow> dom b \<Longrightarrow> compare a b = Ok (Ordering3_from (ord_cmp (key a) (key b)))"
    and key_inject: "dom a \<Longrightarrow> dom b \<Longrightarrow> key a = key b \<Longrightarrow> a = b"
begin

lemma less_iff: "dom a \<Longrightarrow> dom b \<Longrightarrow> compare a b = Ok O3_Less \<longleftrightarrow> key a < key b"
  by (auto simp: compares ord_cmp_def)

lemma equal_iff: "dom a \<Longrightarrow> dom b \<Longrightarrow> compare a b = Ok O3_Equal \<longleftrightarrow> a = b"
  using key_inject by (auto simp: compares ord_cmp_def)

lemma greater_iff: "dom a \<Longrightarrow> dom b \<Longrightarrow> compare a b = Ok O3_Greater \<longleftrightarrow> compare b a = Ok O3_Less"
  by (auto simp: compares ord_cmp_def)

lemma less_trans:
  "dom a \<Longrightarrow> dom b \<Longrightarrow> dom c \<Longrightarrow> compare a b = Ok O3_Less \<Longrightarrow> compare b c = Ok O3_Less \<Longrightarrow> compare a c = Ok O3_Less"
  using less_iff by (meson order_less_trans)

lemma decides: "dom a \<Longrightarrow> dom b \<Longrightarrow> compare a b \<in> {Ok O3_Less, Ok O3_Equal, Ok O3_Greater}"
  by (auto simp: compares ord_cmp_def)

end

lemma from_le_inject:
  "8 * length a \<le> LENGTH('a::len) \<Longrightarrow> length b = length a \<Longrightarrow> (from_le a :: 'a word) = from_le b \<Longrightarrow> a = b"
  by (metis le_bytes_from_le)

text \<open>The values a collation compares: anything for the bytewise ones, bytes of one numeric width for the others.\<close>

definition collation_values :: "CollationKind \<Rightarrow> nat \<Rightarrow> bytes \<Rightarrow> bool" where
  "collation_values kind w b \<longleftrightarrow> kind \<in> {CK_Utf8Bytewise, CK_UnsignedFixedBytes} \<or> (length b = w \<and> w \<in> {1, 2, 4, 8, 16})"

lemma check_same_len_values [simp]: "length a = w \<Longrightarrow> length b = w \<Longrightarrow> w \<in> {1, 2, 4, 8, 16} \<Longrightarrow> check_same_len a b = Ok ()"
  by (auto simp: check_same_len_def)

lemma read_signed_inject:
  assumes "length a = w" "length b = w" "w \<in> {1, 2, 4, 8, 16}" "read_signed a = read_signed b"
  shows "a = b"
proof -
  consider "w = 1" | "w = 2" | "w = 4" | "w = 8" | "w = 16" using assms(3) by auto
  then show ?thesis
    by cases (use assms(1,2,4) in \<open>auto simp: read_signed_def dest!: signed_word_eqI dest: from_le_inject [rotated 2]\<close>)
qed

lemma from_le_pad: "length b \<le> 16 \<Longrightarrow> (from_le (put 0 b (replicate 16 0)) :: u128) = from_le b"
  by (rule bit_word_eqI) (auto simp: bit_from_le nth_put)

interpretation bytewise: key_comparison "CollationKind_compare CK_Utf8Bytewise" "\<lambda>b. b" "\<lambda>_. True"
  by unfold_locales (simp_all add: CollationKind_compare_def)

interpretation fixed_bytes: key_comparison "CollationKind_compare CK_UnsignedFixedBytes" "\<lambda>b. b" "\<lambda>_. True"
  by unfold_locales (simp_all add: CollationKind_compare_def)

interpretation unsigned: key_comparison "CollationKind_compare CK_UnsignedNumeric" "\<lambda>b. from_le b :: u128" "collation_values CK_UnsignedNumeric w" for w
  by unfold_locales (auto simp: CollationKind_compare_def unsigned_numeric_def read_unsigned_def from_le_pad collation_values_def
      dest: from_le_inject [rotated 2])

interpretation signed: key_comparison "CollationKind_compare CK_SignedNumeric" read_signed "collation_values CK_SignedNumeric w" for w
  by unfold_locales (auto simp: CollationKind_compare_def signed_numeric_def collation_values_def intro: read_signed_inject)

interpretation chronological: key_comparison "CollationKind_compare CK_TimestampChronological" read_signed "collation_values CK_TimestampChronological w" for w
  by unfold_locales (auto simp: CollationKind_compare_def signed_numeric_def collation_values_def intro: read_signed_inject)


lemma collations_are_total_orders_parts:
  assumes "supports_ordering kind" "collation_values kind w a" "collation_values kind w b" "collation_values kind w c"
  shows "CollationKind_compare kind a b \<in> {Ok O3_Less, Ok O3_Equal, Ok O3_Greater}"
    and "CollationKind_compare kind a b = Ok O3_Equal \<longleftrightarrow> a = b"
    and "CollationKind_compare kind a b = Ok O3_Greater \<longleftrightarrow> CollationKind_compare kind b a = Ok O3_Less"
    and "CollationKind_compare kind a b = Ok O3_Less \<Longrightarrow> CollationKind_compare kind b c = Ok O3_Less \<Longrightarrow>
           CollationKind_compare kind a c = Ok O3_Less"
    and "kind = CK_UnsignedNumeric \<Longrightarrow> CollationKind_compare kind a b = Ok O3_Less \<longleftrightarrow> (from_le a :: u128) < from_le b"
    and "kind \<in> {CK_SignedNumeric, CK_TimestampChronological} \<Longrightarrow> CollationKind_compare kind a b = Ok O3_Less \<longleftrightarrow> read_signed a < read_signed b"
    and "kind \<in> {CK_Utf8Bytewise, CK_UnsignedFixedBytes} \<Longrightarrow> CollationKind_compare kind a b = Ok O3_Less \<longleftrightarrow> bytes_less a b"
proof -
  have "(\<forall>a b. collation_values kind w a \<longrightarrow> collation_values kind w b \<longrightarrow> CollationKind_compare kind a b \<in> {Ok O3_Less, Ok O3_Equal, Ok O3_Greater}
        \<and> (CollationKind_compare kind a b = Ok O3_Equal \<longleftrightarrow> a = b)
        \<and> (CollationKind_compare kind a b = Ok O3_Greater \<longleftrightarrow> CollationKind_compare kind b a = Ok O3_Less))
     \<and> (\<forall>a b c. collation_values kind w a \<longrightarrow> collation_values kind w b \<longrightarrow> collation_values kind w c \<longrightarrow>
           CollationKind_compare kind a b = Ok O3_Less \<longrightarrow> CollationKind_compare kind b c = Ok O3_Less \<longrightarrow> CollationKind_compare kind a c = Ok O3_Less)"
  proof (cases kind)
    case CK_None
    then show ?thesis using assms(1) by (simp add: supports_ordering_def)
  next
    case CK_Utf8Bytewise
    then show ?thesis using bytewise.decides bytewise.equal_iff bytewise.greater_iff bytewise.less_trans by blast
  next
    case CK_UnsignedFixedBytes
    then show ?thesis using fixed_bytes.decides fixed_bytes.equal_iff fixed_bytes.greater_iff fixed_bytes.less_trans by blast
  next
    case CK_SignedNumeric
    then show ?thesis using signed.decides signed.equal_iff signed.greater_iff signed.less_trans by blast
  next
    case CK_UnsignedNumeric
    then show ?thesis using unsigned.decides unsigned.equal_iff unsigned.greater_iff unsigned.less_trans by blast
  next
    case CK_TimestampChronological
    then show ?thesis using chronological.decides chronological.equal_iff chronological.greater_iff chronological.less_trans by blast
  qed
  with assms show "CollationKind_compare kind a b \<in> {Ok O3_Less, Ok O3_Equal, Ok O3_Greater}"
    "CollationKind_compare kind a b = Ok O3_Equal \<longleftrightarrow> a = b"
    "CollationKind_compare kind a b = Ok O3_Greater \<longleftrightarrow> CollationKind_compare kind b a = Ok O3_Less"
    "CollationKind_compare kind a b = Ok O3_Less \<Longrightarrow> CollationKind_compare kind b c = Ok O3_Less \<Longrightarrow> CollationKind_compare kind a c = Ok O3_Less"
    by blast+
  show "kind = CK_UnsignedNumeric \<Longrightarrow> CollationKind_compare kind a b = Ok O3_Less \<longleftrightarrow> (from_le a :: u128) < from_le b"
    using assms unsigned.less_iff by blast
  show "kind \<in> {CK_SignedNumeric, CK_TimestampChronological} \<Longrightarrow> CollationKind_compare kind a b = Ok O3_Less \<longleftrightarrow> read_signed a < read_signed b"
    using assms signed.less_iff chronological.less_iff by blast
  show "kind \<in> {CK_Utf8Bytewise, CK_UnsignedFixedBytes} \<Longrightarrow> CollationKind_compare kind a b = Ok O3_Less \<longleftrightarrow> bytes_less a b"
    using bytewise.less_iff fixed_bytes.less_iff unfolding bytes_less_iff by blast
qed

lemma compare_rejects:
  assumes "kind \<notin> {CK_None, CK_Utf8Bytewise, CK_UnsignedFixedBytes}" "length x \<noteq> length y \<or> length x \<notin> {1, 2, 4, 8, 16}"
  shows "CollationKind_compare kind x y = Err BadStats"
proof -
  have "check_same_len x y = Err BadStats" using assms(2) by (simp add: check_same_len_def)
  then show ?thesis using assms(1)
    by (cases kind) (simp_all add: CollationKind_compare_def unsigned_numeric_def signed_numeric_def)
qed

text \<open>C40: every collation that supports ordering is a total order on its values, and the order it names: comparisons succeed,
  equal means equal bytes, swapping the operands reverses the result and less is transitive; less is the lexicographic order of
  the bytes for the bytewise collations, and the order of the unsigned or signed value of the little-endian bytes for the numeric
  ones. The numeric collations reject operands of different or other widths, and \<open>none\<close> only knows equality.\<close>

theorem collations_are_total_orders:
  assumes "supports_ordering kind" "collation_values kind w a" "collation_values kind w b" "collation_values kind w c"
  shows "CollationKind_compare kind a b \<in> {Ok O3_Less, Ok O3_Equal, Ok O3_Greater}
    \<and> (CollationKind_compare kind a b = Ok O3_Equal \<longleftrightarrow> a = b)
    \<and> (CollationKind_compare kind a b = Ok O3_Greater \<longleftrightarrow> CollationKind_compare kind b a = Ok O3_Less)
    \<and> (CollationKind_compare kind a b = Ok O3_Less \<and> CollationKind_compare kind b c = Ok O3_Less \<longrightarrow>
         CollationKind_compare kind a c = Ok O3_Less)
    \<and> (kind \<in> {CK_Utf8Bytewise, CK_UnsignedFixedBytes} \<longrightarrow> (CollationKind_compare kind a b = Ok O3_Less \<longleftrightarrow> bytes_less a b))
    \<and> (kind = CK_UnsignedNumeric \<longrightarrow> (CollationKind_compare kind a b = Ok O3_Less \<longleftrightarrow> (from_le a :: u128) < from_le b))
    \<and> (kind \<in> {CK_SignedNumeric, CK_TimestampChronological} \<longrightarrow>
         (CollationKind_compare kind a b = Ok O3_Less \<longleftrightarrow> read_signed a < read_signed b))
    \<and> (kind \<notin> {CK_Utf8Bytewise, CK_UnsignedFixedBytes} \<and> (length x \<noteq> length y \<or> length x \<notin> {1, 2, 4, 8, 16}) \<longrightarrow>
         CollationKind_compare kind x y = Err BadStats)
    \<and> CollationKind_compare CK_None x y = (if x = y then Ok O3_Equal else Err BadStats)"
proof -
  have "CollationKind_compare CK_None x y = (if x = y then Ok O3_Equal else Err BadStats)" by (simp add: CollationKind_compare_def)
  moreover have "kind \<noteq> CK_None" using assms(1) by (simp add: supports_ordering_def)
  ultimately show ?thesis using collations_are_total_orders_parts [OF assms] compare_rejects [of kind x y] by blast
qed

section \<open>The registry\<close>

record CollationEntry =
  ce_name :: bytes
  ce_metadata :: bytes
  ce_kind :: "CollationKind option"

definition parse_collation_entry :: "bytes \<Rightarrow> usize \<Rightarrow> (CollationEntry \<times> usize) result" where
  "parse_collation_entry bs pos =
     (if pos + 2 > length bs then Err BufferTooShort
      else let name_len = unat (u16_at bs pos); pos = pos + 2 in
      and_then (checked_add pos name_len) (\<lambda>name_end.
      if name_end > length bs then Err BufferTooShort
      else if \<not> utf8_valid (slice pos (name_end - pos) bs) then Err (BadSection ''collation name is not valid UTF-8'')
      else let name = slice pos (name_end - pos) bs; pos = name_end in
      if pos + 2 > length bs then Err BufferTooShort
      else let meta_len = unat (u16_at bs pos); pos = pos + 2 in
      and_then (checked_add pos meta_len) (\<lambda>meta_end.
      if meta_end > length bs then Err BufferTooShort
      else Ok (\<lparr>ce_name = name, ce_metadata = slice pos (meta_end - pos) bs, ce_kind = CollationKind_from_name name\<rparr>, meta_end))))"

fun parse_collation_entries :: "bytes \<Rightarrow> nat \<Rightarrow> usize \<Rightarrow> CollationEntry list result" where
  "parse_collation_entries bs 0 pos = Ok []"
| "parse_collation_entries bs (Suc n) pos =
     and_then (parse_collation_entry bs pos) (\<lambda>(e, pos).
     and_then (parse_collation_entries bs n pos) (\<lambda>es. Ok (e # es)))"

definition CollationRegistry_parse :: "bytes \<Rightarrow> CollationEntry list result" where
  "CollationRegistry_parse bs =
     (if length bs < 4 then Err BufferTooShort else parse_collation_entries bs (unat (u32_at bs 0)) 4)"

definition collation_entry_bytes :: "CollationEntry \<Rightarrow> bytes result" where
  "collation_entry_bytes e =
     (if length (ce_name e) \<ge> 2 ^ 16 then Err (BadSection ''collation name exceeds u16 length limit'')
      else if length (ce_metadata e) \<ge> 2 ^ 16 then Err (BadSection ''collation metadata exceeds u16 length limit'')
      else Ok (le_bytes 2 (of_nat (length (ce_name e)) :: u16) @ ce_name e
        @ le_bytes 2 (of_nat (length (ce_metadata e)) :: u16) @ ce_metadata e))"

definition CollationRegistry_serialize :: "CollationEntry list \<Rightarrow> bytes result" where
  "CollationRegistry_serialize entries =
     and_then (collect_map collation_entry_bytes entries) (\<lambda>es. Ok (le_bytes 4 (of_nat (length entries) :: u32) @ concat es))"

definition all_known :: "CollationEntry list \<Rightarrow> bool" where
  "all_known entries \<longleftrightarrow> list_all (\<lambda>e. ce_kind e \<noteq> None) entries"

definition is_known_collation :: "bytes \<Rightarrow> bool" where
  "is_known_collation name \<longleftrightarrow> CollationKind_from_name name \<noteq> None"

text \<open>A string as Rust has it, with the kind its name resolves to.\<close>

definition collation_entry_wf :: "CollationEntry \<Rightarrow> bool" where
  "collation_entry_wf e \<longleftrightarrow> utf8_valid (ce_name e) \<and> ce_kind e = CollationKind_from_name (ce_name e)"

lemma collation_entry_back:
  assumes "collation_entry_wf e" "collation_entry_bytes e = Ok img" "length (pre @ img) < usize_bound"
  shows "parse_collation_entry (pre @ img @ rest) (length pre) = Ok (e, length pre + length img)"
proof -
  have n: "length (ce_name e) < 2 ^ 16" "length (ce_metadata e) < 2 ^ 16"
    and img: "img = le_bytes 2 (of_nat (length (ce_name e)) :: u16) @ ce_name e @ le_bytes 2 (of_nat (length (ce_metadata e)) :: u16) @ ce_metadata e"
    using assms(2) by (auto simp: collation_entry_bytes_def split: if_splits)
  have "unat (of_nat (length (ce_name e)) :: u16) = length (ce_name e)" "unat (of_nat (length (ce_metadata e)) :: u16) = length (ce_metadata e)"
    by (rule unat_of_nat_less, use n in simp)+
  then show ?thesis using assms(1,3) unfolding img
    by (cases e) (simp add: parse_collation_entry_def wire_simps checked_add_def Let_def collation_entry_wf_def)
qed

lemma collation_entries_back:
  "list_all collation_entry_wf es \<Longrightarrow> collect_map collation_entry_bytes es = Ok imgs \<Longrightarrow> length (pre @ concat imgs) < usize_bound \<Longrightarrow>
     parse_collation_entries (pre @ concat imgs @ rest) (length es) (length pre) = Ok es"
proof (induction es arbitrary: pre imgs)
  case (Cons e es)
  obtain img is' where i: "collation_entry_bytes e = Ok img" "collect_map collation_entry_bytes es = Ok is'" "imgs = img # is'"
    using Cons.prems(2) by (auto simp: result_simps)
  have "parse_collation_entry (pre @ img @ concat is' @ rest) (length pre) = Ok (e, length pre + length img)"
    using Cons.prems(1,3) i by (intro collation_entry_back) auto
  moreover have "parse_collation_entries ((pre @ img) @ concat is' @ rest) (length es) (length (pre @ img)) = Ok es"
    using Cons.prems i by (intro Cons.IH) auto
  ultimately show ?case using i(3) by simp
qed simp

text \<open>a registry that can be serialized is read back unchanged, with the same resolved kinds; the parser never panics.\<close>

theorem collation_registry_roundtrip:
  shows "CollationRegistry_parse bs \<noteq> Panic"
    and "list_all collation_entry_wf es \<Longrightarrow> length es < 2 ^ 32 \<Longrightarrow> CollationRegistry_serialize es = Ok bs \<Longrightarrow> length bs < usize_bound \<Longrightarrow>
      CollationRegistry_parse (bs @ rest) = Ok es"
proof -
  have e: "parse_collation_entry bs pos \<noteq> Panic" for bs pos
    by (auto simp: parse_collation_entry_def and_then_eq_Panic Let_def)
  have "parse_collation_entries bs n pos \<noteq> Panic" for bs n pos
    by (induction n arbitrary: pos) (auto simp: and_then_eq_Panic e)
  then show "CollationRegistry_parse bs \<noteq> Panic" by (simp add: CollationRegistry_parse_def)
  assume a: "list_all collation_entry_wf es" "length es < 2 ^ 32" "CollationRegistry_serialize es = Ok bs" "length bs < usize_bound"
  let ?pre = "le_bytes 4 (of_nat (length es) :: u32)"
  obtain imgs where i: "collect_map collation_entry_bytes es = Ok imgs" "bs = ?pre @ concat imgs"
    using a(3) by (auto simp: CollationRegistry_serialize_def result_simps)
  have n: "unat (of_nat (length es) :: u32) = length es" by (rule unat_of_nat_less) (use a(2) in simp)
  have "u32_at (?pre @ x) 0 = of_nat (length es)" for x by (simp add: wire_simps)
  with collation_entries_back [OF a(1) i(1), of ?pre rest] a(4) n i(2)
  show "CollationRegistry_parse (bs @ rest) = Ok es" by (simp add: CollationRegistry_parse_def)
qed

section \<open>Witnesses\<close>

theorem collations_are_total_orders_witness:
  "CollationKind_compare CK_SignedNumeric [255] [1] = Ok O3_Less
    \<and> CollationKind_compare CK_Utf8Bytewise [1] [1, 0] = Ok O3_Less \<and> CollationKind_compare CK_Utf8Bytewise [2] [1, 0] = Ok O3_Greater
    \<and> CollationKind_compare CK_UnsignedNumeric [1] [1, 0] = Err BadStats"
proof -
  have less: "bytes_less [1] [1, 0]" "bytes_less [1, 0] [2]"
    by (auto simp: bytes_less_def intro: exI [of _ 1] exI [of _ 0])
  have v: "collation_values CK_SignedNumeric 1 [255]" "collation_values CK_SignedNumeric 1 [1]" "collation_values CK_UnsignedNumeric 1 [1]"
      "supports_ordering CK_SignedNumeric" "supports_ordering CK_Utf8Bytewise" "supports_ordering CK_UnsignedNumeric"
      "\<And>a. collation_values CK_Utf8Bytewise 1 a"
    by (simp_all add: collation_values_def supports_ordering_def)
  note bw = collations_are_total_orders [OF v(5) v(7) v(7) v(7)]
  have "read_signed [255] < read_signed [1]" by (simp add: read_signed_def)
  then have "CollationKind_compare CK_SignedNumeric [255] [1] = Ok O3_Less"
    using collations_are_total_orders [OF v(4) v(1) v(2) v(2)] by blast
  moreover have "CollationKind_compare CK_Utf8Bytewise [1] [1, 0] = Ok O3_Less" "CollationKind_compare CK_Utf8Bytewise [1, 0] [2] = Ok O3_Less"
    using bw [of "[1]" "[1, 0]"] bw [of "[1, 0]" "[2]"] less by blast+
  moreover have "CollationKind_compare CK_UnsignedNumeric [1] [1, 0] = Err BadStats"
    using collations_are_total_orders [OF v(6) v(3) v(3) v(3), of "[1]" "[1, 0]"] by simp
  ultimately show ?thesis using bw [of "[2]" "[1, 0]"] by blast
qed

definition sample_collations :: "CollationEntry list" where
  "sample_collations = [\<lparr>ce_name = str_bytes ''none'', ce_metadata = [], ce_kind = Some CK_None\<rparr>,
     \<lparr>ce_name = [118, 120], ce_metadata = [1, 2], ce_kind = None\<rparr>]"

theorem collation_registry_roundtrip_witness:
  "\<exists>bs. CollationRegistry_serialize sample_collations = Ok bs \<and> CollationRegistry_parse (bs @ []) = Ok sample_collations"
proof -
  have wf: "list_all collation_entry_wf sample_collations" "length sample_collations < 2 ^ 32"
    by (simp_all add: sample_collations_def collation_entry_wf_def CollationKind_from_name_def str_bytes_def of_char_def)
  have "\<exists>bs. CollationRegistry_serialize sample_collations = Ok bs \<and> length bs < usize_bound"
    by (simp add: CollationRegistry_serialize_def sample_collations_def collation_entry_bytes_def str_bytes_def)
  with collation_registry_roundtrip(2) [OF wf, of _ "[]"] show ?thesis by blast
qed

end
