(* ===== verification/Segment_Index.thy ===== *)
theory Segment_Index
  imports Types Crc_Record "HOL-Library.Multiset"
begin

text \<open>
  Segments and morsels (\<open>cove-core/src/segment.rs\<close>): the segment index of a table, the header of a segment
  with its morsel and column directories. The theorems show that an accepted index cuts the rows of every
  table into segments without gap or overlap, and the same for the morsels of a segment from its first
  morsel on; that the first morsel may start anywhere is shown too.
\<close>

section \<open>Segment index entries\<close>

definition TABLE_SEGMENT_INDEX_ENTRY_LEN :: usize where "TABLE_SEGMENT_INDEX_ENTRY_LEN = 60"

record TableSegmentIndexEntryV1 =
  tsi_table_id :: u32
  tsi_segment_id :: u32
  tsi_row_start :: u64
  tsi_row_count :: u32
  tsi_morsel_count :: u32
  tsi_morsel_row_count :: u32
  tsi_column_count :: u32
  tsi_offset :: u64
  tsi_length :: u64
  tsi_stats_ref :: u32
  tsi_flags :: u32
  tsi_checksum :: u32

definition TableSegmentIndexEntryV1_image :: "TableSegmentIndexEntryV1 \<Rightarrow> bytes" where
  "TableSegmentIndexEntryV1_image h =
     (let buf = replicate TABLE_SEGMENT_INDEX_ENTRY_LEN 0;
          buf = put 0 (le_bytes 4 (tsi_table_id h)) buf;
          buf = put 4 (le_bytes 4 (tsi_segment_id h)) buf;
          buf = put 8 (le_bytes 8 (tsi_row_start h)) buf;
          buf = put 16 (le_bytes 4 (tsi_row_count h)) buf;
          buf = put 20 (le_bytes 4 (tsi_morsel_count h)) buf;
          buf = put 24 (le_bytes 4 (tsi_morsel_row_count h)) buf;
          buf = put 28 (le_bytes 4 (tsi_column_count h)) buf;
          buf = put 32 (le_bytes 8 (tsi_offset h)) buf;
          buf = put 40 (le_bytes 8 (tsi_length h)) buf;
          buf = put 48 (le_bytes 4 (tsi_stats_ref h)) buf;
          buf = put 52 (le_bytes 4 (tsi_flags h)) buf
      in buf)"

definition TableSegmentIndexEntryV1_serialize :: "(bytes \<Rightarrow> u32) \<Rightarrow> TableSegmentIndexEntryV1 \<Rightarrow> bytes" where
  "TableSegmentIndexEntryV1_serialize crc h = seal crc 56 (TableSegmentIndexEntryV1_image h)"

definition TableSegmentIndexEntryV1_read :: "bytes \<Rightarrow> TableSegmentIndexEntryV1" where
  "TableSegmentIndexEntryV1_read buf =
     \<lparr>tsi_table_id = u32_at buf 0,
      tsi_segment_id = u32_at buf 4,
      tsi_row_start = u64_at buf 8,
      tsi_row_count = u32_at buf 16,
      tsi_morsel_count = u32_at buf 20,
      tsi_morsel_row_count = u32_at buf 24,
      tsi_column_count = u32_at buf 28,
      tsi_offset = u64_at buf 32,
      tsi_length = u64_at buf 40,
      tsi_stats_ref = u32_at buf 48,
      tsi_flags = u32_at buf 52,
      tsi_checksum = u32_at buf 56\<rparr>"

definition TableSegmentIndexEntryV1_parse :: "(bytes \<Rightarrow> u32) \<Rightarrow> bytes \<Rightarrow> TableSegmentIndexEntryV1 result" where
  "TableSegmentIndexEntryV1_parse crc buf =
     (if length buf < TABLE_SEGMENT_INDEX_ENTRY_LEN then Err BufferTooShort
      else let buf = slice 0 TABLE_SEGMENT_INDEX_ENTRY_LEN buf in
      if crc (put 56 (replicate 4 0) buf) \<noteq> u32_at buf 56 then Err ChecksumMismatch
      else Ok (TableSegmentIndexEntryV1_read buf))"

lemma length_TableSegmentIndexEntryV1_image [simp]: "length (TableSegmentIndexEntryV1_image h) = 60"
  by (simp add: TableSegmentIndexEntryV1_image_def TABLE_SEGMENT_INDEX_ENTRY_LEN_def Let_def)

lemma length_TableSegmentIndexEntryV1_serialize [simp]: "length (TableSegmentIndexEntryV1_serialize crc h) = 60"
  by (simp add: TableSegmentIndexEntryV1_serialize_def)

lemma TableSegmentIndexEntryV1_image_fields:
  "u32_at (TableSegmentIndexEntryV1_image h) 0 = tsi_table_id h"
  "u32_at (TableSegmentIndexEntryV1_image h) 4 = tsi_segment_id h"
  "u64_at (TableSegmentIndexEntryV1_image h) 8 = tsi_row_start h"
  "u32_at (TableSegmentIndexEntryV1_image h) 16 = tsi_row_count h"
  "u32_at (TableSegmentIndexEntryV1_image h) 20 = tsi_morsel_count h"
  "u32_at (TableSegmentIndexEntryV1_image h) 24 = tsi_morsel_row_count h"
  "u32_at (TableSegmentIndexEntryV1_image h) 28 = tsi_column_count h"
  "u64_at (TableSegmentIndexEntryV1_image h) 32 = tsi_offset h"
  "u64_at (TableSegmentIndexEntryV1_image h) 40 = tsi_length h"
  "u32_at (TableSegmentIndexEntryV1_image h) 48 = tsi_stats_ref h"
  "u32_at (TableSegmentIndexEntryV1_image h) 52 = tsi_flags h"
  "slice 56 4 (TableSegmentIndexEntryV1_image h) = replicate 4 0"
  by (simp_all add: TableSegmentIndexEntryV1_image_def TABLE_SEGMENT_INDEX_ENTRY_LEN_def Let_def wire_simps)

lemma TableSegmentIndexEntryV1_read_back:
  "TableSegmentIndexEntryV1_read (TableSegmentIndexEntryV1_serialize crc h) = h\<lparr>tsi_checksum := crc (TableSegmentIndexEntryV1_image h)\<rparr>"
  using TableSegmentIndexEntryV1_image_fields [of h]
  by (cases h) (simp add: TableSegmentIndexEntryV1_read_def TableSegmentIndexEntryV1_serialize_def wire_simps)

lemma TableSegmentIndexEntryV1_roundtrip:
  "TableSegmentIndexEntryV1_parse crc (TableSegmentIndexEntryV1_serialize crc h @ rest) = Ok (h\<lparr>tsi_checksum := crc (TableSegmentIndexEntryV1_image h)\<rparr>)"
proof -
  have "slice 0 60 (TableSegmentIndexEntryV1_serialize crc h @ rest) = TableSegmentIndexEntryV1_serialize crc h" by (simp add: wire_simps)
  moreover have "put 56 (replicate 4 0) (TableSegmentIndexEntryV1_serialize crc h) = TableSegmentIndexEntryV1_image h" "u32_at (TableSegmentIndexEntryV1_serialize crc h) 56 = crc (TableSegmentIndexEntryV1_image h)"
    using clear_seal [of 56 "TableSegmentIndexEntryV1_image h" crc] TableSegmentIndexEntryV1_image_fields [of h] by (simp_all add: TableSegmentIndexEntryV1_serialize_def wire_simps)
  ultimately show ?thesis by (simp add: TableSegmentIndexEntryV1_parse_def TABLE_SEGMENT_INDEX_ENTRY_LEN_def TableSegmentIndexEntryV1_read_back Let_def)
qed

lemma TableSegmentIndexEntryV1_no_panic [simp]: "TableSegmentIndexEntryV1_parse crc bs \<noteq> Panic"
  by (simp add: TableSegmentIndexEntryV1_parse_def Let_def)

section \<open>The segment index\<close>

record TableSegmentIndex =
  six_flags :: u32
  six_entries :: "TableSegmentIndexEntryV1 list"

definition TableSegmentIndex_serialize :: "(bytes \<Rightarrow> u32) \<Rightarrow> TableSegmentIndex \<Rightarrow> bytes result" where
  "TableSegmentIndex_serialize crc ix =
     (if length (six_entries ix) \<ge> 2 ^ 32 then Err SegmentCorrupt
      else Ok (le_bytes 4 (of_nat (length (six_entries ix)) :: u32) @ le_bytes 4 (six_flags ix)
        @ concat (map (TableSegmentIndexEntryV1_serialize crc) (six_entries ix))))"

fun unique_segments :: "(u32 \<times> u32) set \<Rightarrow> TableSegmentIndexEntryV1 list \<Rightarrow> unit result" where
  "unique_segments seen [] = Ok ()"
| "unique_segments seen (e # es) =
     (if (tsi_table_id e, tsi_segment_id e) \<in> seen then Err SegmentCorrupt
      else unique_segments (insert (tsi_table_id e, tsi_segment_id e) seen) es)"

fun contiguous_rows :: "nat \<Rightarrow> TableSegmentIndexEntryV1 list \<Rightarrow> unit result" where
  "contiguous_rows next_row [] = Ok ()"
| "contiguous_rows next_row (e # es) =
     (if unat (tsi_row_start e) \<noteq> next_row then Err SegmentCorrupt
      else and_then (checked_add (unat (tsi_row_start e)) (unat (tsi_row_count e))) (\<lambda>end'. contiguous_rows end' es))"

text \<open>The \<open>BTreeMap\<close> of the entries by table, visited in ascending order of the tables.\<close>

definition TableSegmentIndex_validate :: "TableSegmentIndex \<Rightarrow> unit result" where
  "TableSegmentIndex_validate ix =
     and_then (unique_segments {} (six_entries ix)) (\<lambda>_.
     try_each (\<lambda>t. contiguous_rows 0 (sort_key tsi_row_start (filter (\<lambda>e. tsi_table_id e = t) (six_entries ix))))
       (sort (remdups (map tsi_table_id (six_entries ix)))))"

definition TableSegmentIndex_parse :: "(bytes \<Rightarrow> u32) \<Rightarrow> bytes \<Rightarrow> TableSegmentIndex result" where
  "TableSegmentIndex_parse crc bs =
     (if length bs < 8 then Err BufferTooShort
      else let count = unat (u32_at bs 0); flags = u32_at bs 4 in
        and_then (checked_mul count TABLE_SEGMENT_INDEX_ENTRY_LEN) (\<lambda>entries_len.
        and_then (checked_add 8 entries_len) (\<lambda>needed.
        if needed > length bs then Err BufferTooShort
        else and_then (collect_map (TableSegmentIndexEntryV1_parse crc) (chunks_at 8 TABLE_SEGMENT_INDEX_ENTRY_LEN count bs)) (\<lambda>entries.
          let idx = \<lparr>six_flags = flags, six_entries = entries\<rparr> in
          and_then (TableSegmentIndex_validate idx) (\<lambda>_. Ok idx)))))"

definition in_segment :: "TableSegmentIndexEntryV1 \<Rightarrow> nat \<Rightarrow> bool" where
  "in_segment e r \<longleftrightarrow> unat (tsi_row_start e) \<le> r \<and> r < unat (tsi_row_start e) + unat (tsi_row_count e)"

definition table_rows :: "TableSegmentIndexEntryV1 list \<Rightarrow> u32 \<Rightarrow> nat" where
  "table_rows es t = sum_list (map (\<lambda>e. unat (tsi_row_count e)) (filter (\<lambda>e. tsi_table_id e = t) es))"

text \<open>Every row below the end is in exactly one of the segments, no other row in any.\<close>

lemma contiguous_rows_Ok:
  "contiguous_rows n es = Ok () \<Longrightarrow>
     length (filter (\<lambda>e. in_segment e r) es) = (if n \<le> r \<and> r < n + sum_list (map (\<lambda>e. unat (tsi_row_count e)) es) then 1 else 0)"
proof (induction es arbitrary: n)
  case (Cons e es)
  then have n: "unat (tsi_row_start e) = n" and c: "contiguous_rows (n + unat (tsi_row_count e)) es = Ok ()"
    by (auto simp: result_simps split: if_splits)
  have h: "in_segment e r \<longleftrightarrow> n \<le> r \<and> r < n + unat (tsi_row_count e)" by (simp add: in_segment_def n)
  show ?case using Cons.IH [OF c] by (auto simp: h)
qed simp

lemma contiguous_rows_bound: "contiguous_rows n es = Ok () \<Longrightarrow> n < usize_bound \<Longrightarrow> n + sum_list (map (\<lambda>e. unat (tsi_row_count e)) es) < usize_bound"
proof (induction es arbitrary: n)
  case (Cons e es)
  then have c: "contiguous_rows (n + unat (tsi_row_count e)) es = Ok ()" "n + unat (tsi_row_count e) < usize_bound"
    by (auto simp: result_simps split: if_splits)
  from Cons.IH [OF c] show ?case by (simp add: add.assoc)
qed simp

lemma unique_segments_Ok:
  "unique_segments seen es = Ok () \<longleftrightarrow> distinct (map (\<lambda>e. (tsi_table_id e, tsi_segment_id e)) es)
     \<and> (\<lambda>e. (tsi_table_id e, tsi_segment_id e)) ` set es \<inter> seen = {}"
  by (induction es arbitrary: seen) auto

lemma length_filter_sort_key: "length (filter P (sort_key f xs)) = length (filter P xs)"
  by (metis mset_filter mset_sort size_mset)

lemma sum_list_sort_key: "sum_list (map g (sort_key f xs)) = sum_list (map (g :: 'a \<Rightarrow> nat) xs)"
  by (metis mset_map mset_sort sum_mset_sum_list)

lemma segment_index_partition:
  assumes "TableSegmentIndex_validate ix = Ok ()"
  shows "distinct (map (\<lambda>e. (tsi_table_id e, tsi_segment_id e)) (six_entries ix))
    \<and> table_rows (six_entries ix) t < usize_bound
    \<and> length (filter (\<lambda>e. tsi_table_id e = t \<and> in_segment e r) (six_entries ix)) = (if r < table_rows (six_entries ix) t then 1 else 0)"
proof -
  let ?es = "six_entries ix" and ?of = "filter (\<lambda>e. tsi_table_id e = t) (six_entries ix)"
  have u: "distinct (map (\<lambda>e. (tsi_table_id e, tsi_segment_id e)) ?es)"
    and c: "\<forall>t \<in> tsi_table_id ` set ?es. contiguous_rows 0 (sort_key tsi_row_start (filter (\<lambda>e. tsi_table_id e = t) ?es)) = Ok ()"
    using assms by (auto simp: TableSegmentIndex_validate_def result_simps unique_segments_Ok list_all_iff)
  have ct: "contiguous_rows 0 (sort_key tsi_row_start ?of) = Ok ()"
  proof (cases "t \<in> tsi_table_id ` set ?es")
    case False
    then have "?of = []" by (auto simp: filter_empty_conv)
    then show ?thesis by simp
  qed (use c in blast)
  have "length (filter (\<lambda>e. in_segment e r) ?of) = (if r < table_rows ?es t then 1 else 0)"
    using contiguous_rows_Ok [OF ct, of r] by (simp add: length_filter_sort_key sum_list_sort_key table_rows_def)
  moreover have "filter (\<lambda>e. in_segment e r) ?of = filter (\<lambda>e. tsi_table_id e = t \<and> in_segment e r) ?es"
    by (auto intro: filter_cong)
  moreover have "table_rows ?es t < usize_bound"
    using contiguous_rows_bound [OF ct] by (simp add: sum_list_sort_key table_rows_def)
  ultimately show ?thesis using u by simp
qed

section \<open>Segment headers\<close>

definition TABLE_SEGMENT_HEADER_LEN :: usize where "TABLE_SEGMENT_HEADER_LEN = 72"

record TableSegmentHeaderV1 =
  tsh_table_id :: u32
  tsh_segment_id :: u32
  tsh_row_start :: u64
  tsh_row_count :: u32
  tsh_morsel_count :: u32
  tsh_morsel_row_count :: u32
  tsh_column_count :: u32
  tsh_morsel_directory_offset :: u64
  tsh_column_directory_offset :: u64
  tsh_page_index_offset :: u64
  tsh_data_offset :: u64
  tsh_flags :: u32
  tsh_checksum :: u32

definition TableSegmentHeaderV1_image :: "TableSegmentHeaderV1 \<Rightarrow> bytes" where
  "TableSegmentHeaderV1_image h =
     (let buf = replicate TABLE_SEGMENT_HEADER_LEN 0;
          buf = put 0 (le_bytes 4 (tsh_table_id h)) buf;
          buf = put 4 (le_bytes 4 (tsh_segment_id h)) buf;
          buf = put 8 (le_bytes 8 (tsh_row_start h)) buf;
          buf = put 16 (le_bytes 4 (tsh_row_count h)) buf;
          buf = put 20 (le_bytes 4 (tsh_morsel_count h)) buf;
          buf = put 24 (le_bytes 4 (tsh_morsel_row_count h)) buf;
          buf = put 28 (le_bytes 4 (tsh_column_count h)) buf;
          buf = put 32 (le_bytes 8 (tsh_morsel_directory_offset h)) buf;
          buf = put 40 (le_bytes 8 (tsh_column_directory_offset h)) buf;
          buf = put 48 (le_bytes 8 (tsh_page_index_offset h)) buf;
          buf = put 56 (le_bytes 8 (tsh_data_offset h)) buf;
          buf = put 64 (le_bytes 4 (tsh_flags h)) buf
      in buf)"

definition TableSegmentHeaderV1_serialize :: "(bytes \<Rightarrow> u32) \<Rightarrow> TableSegmentHeaderV1 \<Rightarrow> bytes" where
  "TableSegmentHeaderV1_serialize crc h = seal crc 68 (TableSegmentHeaderV1_image h)"

definition TableSegmentHeaderV1_read :: "bytes \<Rightarrow> TableSegmentHeaderV1" where
  "TableSegmentHeaderV1_read buf =
     \<lparr>tsh_table_id = u32_at buf 0,
      tsh_segment_id = u32_at buf 4,
      tsh_row_start = u64_at buf 8,
      tsh_row_count = u32_at buf 16,
      tsh_morsel_count = u32_at buf 20,
      tsh_morsel_row_count = u32_at buf 24,
      tsh_column_count = u32_at buf 28,
      tsh_morsel_directory_offset = u64_at buf 32,
      tsh_column_directory_offset = u64_at buf 40,
      tsh_page_index_offset = u64_at buf 48,
      tsh_data_offset = u64_at buf 56,
      tsh_flags = u32_at buf 64,
      tsh_checksum = u32_at buf 68\<rparr>"

definition TableSegmentHeaderV1_parse :: "(bytes \<Rightarrow> u32) \<Rightarrow> bytes \<Rightarrow> TableSegmentHeaderV1 result" where
  "TableSegmentHeaderV1_parse crc buf =
     (if length buf < TABLE_SEGMENT_HEADER_LEN then Err BufferTooShort
      else let buf = slice 0 TABLE_SEGMENT_HEADER_LEN buf in
      if crc (put 68 (replicate 4 0) buf) \<noteq> u32_at buf 68 then Err ChecksumMismatch
      else Ok (TableSegmentHeaderV1_read buf))"

lemma length_TableSegmentHeaderV1_image [simp]: "length (TableSegmentHeaderV1_image h) = 72"
  by (simp add: TableSegmentHeaderV1_image_def TABLE_SEGMENT_HEADER_LEN_def Let_def)

lemma length_TableSegmentHeaderV1_serialize [simp]: "length (TableSegmentHeaderV1_serialize crc h) = 72"
  by (simp add: TableSegmentHeaderV1_serialize_def)

lemma TableSegmentHeaderV1_image_fields:
  "u32_at (TableSegmentHeaderV1_image h) 0 = tsh_table_id h"
  "u32_at (TableSegmentHeaderV1_image h) 4 = tsh_segment_id h"
  "u64_at (TableSegmentHeaderV1_image h) 8 = tsh_row_start h"
  "u32_at (TableSegmentHeaderV1_image h) 16 = tsh_row_count h"
  "u32_at (TableSegmentHeaderV1_image h) 20 = tsh_morsel_count h"
  "u32_at (TableSegmentHeaderV1_image h) 24 = tsh_morsel_row_count h"
  "u32_at (TableSegmentHeaderV1_image h) 28 = tsh_column_count h"
  "u64_at (TableSegmentHeaderV1_image h) 32 = tsh_morsel_directory_offset h"
  "u64_at (TableSegmentHeaderV1_image h) 40 = tsh_column_directory_offset h"
  "u64_at (TableSegmentHeaderV1_image h) 48 = tsh_page_index_offset h"
  "u64_at (TableSegmentHeaderV1_image h) 56 = tsh_data_offset h"
  "u32_at (TableSegmentHeaderV1_image h) 64 = tsh_flags h"
  "slice 68 4 (TableSegmentHeaderV1_image h) = replicate 4 0"
  by (simp_all add: TableSegmentHeaderV1_image_def TABLE_SEGMENT_HEADER_LEN_def Let_def wire_simps)

lemma TableSegmentHeaderV1_read_back:
  "TableSegmentHeaderV1_read (TableSegmentHeaderV1_serialize crc h) = h\<lparr>tsh_checksum := crc (TableSegmentHeaderV1_image h)\<rparr>"
  using TableSegmentHeaderV1_image_fields [of h]
  by (cases h) (simp add: TableSegmentHeaderV1_read_def TableSegmentHeaderV1_serialize_def wire_simps)

lemma TableSegmentHeaderV1_roundtrip:
  "TableSegmentHeaderV1_parse crc (TableSegmentHeaderV1_serialize crc h @ rest) = Ok (h\<lparr>tsh_checksum := crc (TableSegmentHeaderV1_image h)\<rparr>)"
proof -
  have "slice 0 72 (TableSegmentHeaderV1_serialize crc h @ rest) = TableSegmentHeaderV1_serialize crc h" by (simp add: wire_simps)
  moreover have "put 68 (replicate 4 0) (TableSegmentHeaderV1_serialize crc h) = TableSegmentHeaderV1_image h" "u32_at (TableSegmentHeaderV1_serialize crc h) 68 = crc (TableSegmentHeaderV1_image h)"
    using clear_seal [of 68 "TableSegmentHeaderV1_image h" crc] TableSegmentHeaderV1_image_fields [of h] by (simp_all add: TableSegmentHeaderV1_serialize_def wire_simps)
  ultimately show ?thesis by (simp add: TableSegmentHeaderV1_parse_def TABLE_SEGMENT_HEADER_LEN_def TableSegmentHeaderV1_read_back Let_def)
qed

lemma TableSegmentHeaderV1_no_panic [simp]: "TableSegmentHeaderV1_parse crc bs \<noteq> Panic"
  by (simp add: TableSegmentHeaderV1_parse_def Let_def)

section \<open>The column directory\<close>

definition TABLE_COLUMN_DIRECTORY_ENTRY_LEN :: usize where "TABLE_COLUMN_DIRECTORY_ENTRY_LEN = 52"
definition SEGMENT_COLUMN_FLAG_BOOL_DECLARED_NUMERIC :: u8 where "SEGMENT_COLUMN_FLAG_BOOL_DECLARED_NUMERIC = 1"

record TableColumnDirectoryEntryV1 =
  tcd_column_id :: u32
  tcd_logical_type :: CoveLogicalType
  tcd_physical_kind :: CovePhysicalKind
  tcd_flags :: u8
  tcd_page_index_offset :: u64
  tcd_page_index_length :: u64
  tcd_data_offset :: u64
  tcd_data_length :: u64
  tcd_stats_ref :: u32
  tcd_domain_ref :: u32
  tcd_checksum :: u32

definition TableColumnDirectoryEntryV1_image :: "TableColumnDirectoryEntryV1 \<Rightarrow> bytes" where
  "TableColumnDirectoryEntryV1_image h =
     (let buf = replicate TABLE_COLUMN_DIRECTORY_ENTRY_LEN 0;
          buf = put 0 (le_bytes 4 (tcd_column_id h)) buf;
          buf = put 4 (le_bytes 2 (CoveLogicalType_code (tcd_logical_type h))) buf;
          buf = put 6 [CovePhysicalKind_code (tcd_physical_kind h)] buf;
          buf = put 7 [tcd_flags h] buf;
          buf = put 8 (le_bytes 8 (tcd_page_index_offset h)) buf;
          buf = put 16 (le_bytes 8 (tcd_page_index_length h)) buf;
          buf = put 24 (le_bytes 8 (tcd_data_offset h)) buf;
          buf = put 32 (le_bytes 8 (tcd_data_length h)) buf;
          buf = put 40 (le_bytes 4 (tcd_stats_ref h)) buf;
          buf = put 44 (le_bytes 4 (tcd_domain_ref h)) buf
      in buf)"

definition TableColumnDirectoryEntryV1_serialize :: "(bytes \<Rightarrow> u32) \<Rightarrow> TableColumnDirectoryEntryV1 \<Rightarrow> bytes" where
  "TableColumnDirectoryEntryV1_serialize crc h = seal crc 48 (TableColumnDirectoryEntryV1_image h)"

definition column_options :: "u8 \<Rightarrow> LogicalPhysicalOptions" where
  "column_options flags = \<lparr>bool_declared_numeric = (flags AND SEGMENT_COLUMN_FLAG_BOOL_DECLARED_NUMERIC \<noteq> 0)\<rparr>"

definition TableColumnDirectoryEntryV1_parse :: "(bytes \<Rightarrow> u32) \<Rightarrow> bytes \<Rightarrow> TableColumnDirectoryEntryV1 result" where
  "TableColumnDirectoryEntryV1_parse crc buf =
     (if length buf < TABLE_COLUMN_DIRECTORY_ENTRY_LEN then Err BufferTooShort
      else let buf = slice 0 TABLE_COLUMN_DIRECTORY_ENTRY_LEN buf in
      if crc (put 48 (replicate 4 0) buf) \<noteq> u32_at buf 48 then Err ChecksumMismatch
      else and_then (ok_or (CoveLogicalType_from_u16 (u16_at buf 4))
             (BadSchema (''unknown logical type '' @ show_nat (unat (u16_at buf 4))))) (\<lambda>logical_type.
           and_then (ok_or (CovePhysicalKind_from_u8 (buf ! 6))
             (BadSchema (''unknown physical kind '' @ show_nat (unat (buf ! 6))))) (\<lambda>physical_kind.
           and_then (validate_logical_physical_pair_with_options logical_type physical_kind (column_options (buf ! 7))) (\<lambda>_.
           Ok \<lparr>tcd_column_id = u32_at buf 0, tcd_logical_type = logical_type, tcd_physical_kind = physical_kind,
               tcd_flags = buf ! 7, tcd_page_index_offset = u64_at buf 8, tcd_page_index_length = u64_at buf 16,
               tcd_data_offset = u64_at buf 24, tcd_data_length = u64_at buf 32, tcd_stats_ref = u32_at buf 40,
               tcd_domain_ref = u32_at buf 44, tcd_checksum = u32_at buf 48\<rparr>))))"

lemma length_column_entry_image [simp]: "length (TableColumnDirectoryEntryV1_image h) = 52"
  by (simp add: TableColumnDirectoryEntryV1_image_def TABLE_COLUMN_DIRECTORY_ENTRY_LEN_def Let_def)

lemma length_column_entry_serialize [simp]: "length (TableColumnDirectoryEntryV1_serialize crc h) = 52"
  by (simp add: TableColumnDirectoryEntryV1_serialize_def)

lemma column_entry_fields:
  "u32_at (TableColumnDirectoryEntryV1_image h) 0 = tcd_column_id h"
  "u16_at (TableColumnDirectoryEntryV1_image h) 4 = CoveLogicalType_code (tcd_logical_type h)"
  "TableColumnDirectoryEntryV1_image h ! 6 = CovePhysicalKind_code (tcd_physical_kind h)"
  "TableColumnDirectoryEntryV1_image h ! 7 = tcd_flags h"
  "u64_at (TableColumnDirectoryEntryV1_image h) 8 = tcd_page_index_offset h"
  "u64_at (TableColumnDirectoryEntryV1_image h) 16 = tcd_page_index_length h"
  "u64_at (TableColumnDirectoryEntryV1_image h) 24 = tcd_data_offset h"
  "u64_at (TableColumnDirectoryEntryV1_image h) 32 = tcd_data_length h"
  "u32_at (TableColumnDirectoryEntryV1_image h) 40 = tcd_stats_ref h"
  "u32_at (TableColumnDirectoryEntryV1_image h) 44 = tcd_domain_ref h"
  "slice 48 4 (TableColumnDirectoryEntryV1_image h) = replicate 4 0"
  by (simp_all add: TableColumnDirectoryEntryV1_image_def TABLE_COLUMN_DIRECTORY_ENTRY_LEN_def Let_def wire_simps)

lemma TableColumnDirectoryEntryV1_roundtrip:
  assumes "pair_ok (column_options (tcd_flags h)) (tcd_logical_type h) (tcd_physical_kind h)"
  shows "TableColumnDirectoryEntryV1_parse crc (TableColumnDirectoryEntryV1_serialize crc h @ rest)
    = Ok (h\<lparr>tcd_checksum := crc (TableColumnDirectoryEntryV1_image h)\<rparr>)"
proof -
  have "slice 0 52 (TableColumnDirectoryEntryV1_serialize crc h @ rest) = TableColumnDirectoryEntryV1_serialize crc h" by (simp add: wire_simps)
  moreover have "put 48 (replicate 4 0) (TableColumnDirectoryEntryV1_serialize crc h) = TableColumnDirectoryEntryV1_image h"
    using clear_seal [of 48 "TableColumnDirectoryEntryV1_image h" crc] column_entry_fields [of h]
    by (simp add: TableColumnDirectoryEntryV1_serialize_def)
  moreover have "u32_at (TableColumnDirectoryEntryV1_serialize crc h) 48 = crc (TableColumnDirectoryEntryV1_image h)"
    by (simp add: TableColumnDirectoryEntryV1_serialize_def wire_simps)
  ultimately show ?thesis using assms column_entry_fields [of h]
    by (cases h) (simp add: TableColumnDirectoryEntryV1_parse_def TABLE_COLUMN_DIRECTORY_ENTRY_LEN_def Let_def
        TableColumnDirectoryEntryV1_serialize_def wire_simps coveLogicalType.decode_code covePhysicalKind.decode_code
        validate_logical_physical_pair_with_options_def)
qed

lemma TableColumnDirectoryEntryV1_no_panic [simp]: "TableColumnDirectoryEntryV1_parse crc bs \<noteq> Panic"
  by (auto simp: TableColumnDirectoryEntryV1_parse_def Let_def and_then_eq_Panic ok_or_def split: option.splits)

section \<open>Row morsels\<close>

definition ROW_MORSEL_ENTRY_LEN :: usize where "ROW_MORSEL_ENTRY_LEN = 24"

record RowMorselEntryV1 =
  rme_morsel_id :: u32
  rme_first_row_in_segment :: u32
  rme_row_count :: u32
  rme_flags :: u32
  rme_stats_ref :: u32
  rme_checksum :: u32

definition RowMorselEntryV1_image :: "RowMorselEntryV1 \<Rightarrow> bytes" where
  "RowMorselEntryV1_image h =
     (let buf = replicate ROW_MORSEL_ENTRY_LEN 0;
          buf = put 0 (le_bytes 4 (rme_morsel_id h)) buf;
          buf = put 4 (le_bytes 4 (rme_first_row_in_segment h)) buf;
          buf = put 8 (le_bytes 4 (rme_row_count h)) buf;
          buf = put 12 (le_bytes 4 (rme_flags h)) buf;
          buf = put 16 (le_bytes 4 (rme_stats_ref h)) buf
      in buf)"

definition RowMorselEntryV1_serialize :: "(bytes \<Rightarrow> u32) \<Rightarrow> RowMorselEntryV1 \<Rightarrow> bytes" where
  "RowMorselEntryV1_serialize crc h = seal crc 20 (RowMorselEntryV1_image h)"

definition RowMorselEntryV1_read :: "bytes \<Rightarrow> RowMorselEntryV1" where
  "RowMorselEntryV1_read buf =
     \<lparr>rme_morsel_id = u32_at buf 0,
      rme_first_row_in_segment = u32_at buf 4,
      rme_row_count = u32_at buf 8,
      rme_flags = u32_at buf 12,
      rme_stats_ref = u32_at buf 16,
      rme_checksum = u32_at buf 20\<rparr>"

definition RowMorselEntryV1_parse :: "(bytes \<Rightarrow> u32) \<Rightarrow> bytes \<Rightarrow> RowMorselEntryV1 result" where
  "RowMorselEntryV1_parse crc buf =
     (if length buf < ROW_MORSEL_ENTRY_LEN then Err BufferTooShort
      else let buf = slice 0 ROW_MORSEL_ENTRY_LEN buf in
      if crc (put 20 (replicate 4 0) buf) \<noteq> u32_at buf 20 then Err ChecksumMismatch
      else Ok (RowMorselEntryV1_read buf))"

lemma length_RowMorselEntryV1_image [simp]: "length (RowMorselEntryV1_image h) = 24"
  by (simp add: RowMorselEntryV1_image_def ROW_MORSEL_ENTRY_LEN_def Let_def)

lemma length_RowMorselEntryV1_serialize [simp]: "length (RowMorselEntryV1_serialize crc h) = 24"
  by (simp add: RowMorselEntryV1_serialize_def)

lemma RowMorselEntryV1_image_fields:
  "u32_at (RowMorselEntryV1_image h) 0 = rme_morsel_id h"
  "u32_at (RowMorselEntryV1_image h) 4 = rme_first_row_in_segment h"
  "u32_at (RowMorselEntryV1_image h) 8 = rme_row_count h"
  "u32_at (RowMorselEntryV1_image h) 12 = rme_flags h"
  "u32_at (RowMorselEntryV1_image h) 16 = rme_stats_ref h"
  "slice 20 4 (RowMorselEntryV1_image h) = replicate 4 0"
  by (simp_all add: RowMorselEntryV1_image_def ROW_MORSEL_ENTRY_LEN_def Let_def wire_simps)

lemma RowMorselEntryV1_read_back:
  "RowMorselEntryV1_read (RowMorselEntryV1_serialize crc h) = h\<lparr>rme_checksum := crc (RowMorselEntryV1_image h)\<rparr>"
  using RowMorselEntryV1_image_fields [of h]
  by (cases h) (simp add: RowMorselEntryV1_read_def RowMorselEntryV1_serialize_def wire_simps)

lemma RowMorselEntryV1_roundtrip:
  "RowMorselEntryV1_parse crc (RowMorselEntryV1_serialize crc h @ rest) = Ok (h\<lparr>rme_checksum := crc (RowMorselEntryV1_image h)\<rparr>)"
proof -
  have "slice 0 24 (RowMorselEntryV1_serialize crc h @ rest) = RowMorselEntryV1_serialize crc h" by (simp add: wire_simps)
  moreover have "put 20 (replicate 4 0) (RowMorselEntryV1_serialize crc h) = RowMorselEntryV1_image h" "u32_at (RowMorselEntryV1_serialize crc h) 20 = crc (RowMorselEntryV1_image h)"
    using clear_seal [of 20 "RowMorselEntryV1_image h" crc] RowMorselEntryV1_image_fields [of h] by (simp_all add: RowMorselEntryV1_serialize_def wire_simps)
  ultimately show ?thesis by (simp add: RowMorselEntryV1_parse_def ROW_MORSEL_ENTRY_LEN_def RowMorselEntryV1_read_back Let_def)
qed

lemma RowMorselEntryV1_no_panic [simp]: "RowMorselEntryV1_parse crc bs \<noteq> Panic"
  by (simp add: RowMorselEntryV1_parse_def Let_def)

section \<open>The morsel directory\<close>

definition RowMorselDirectory_serialize :: "(bytes \<Rightarrow> u32) \<Rightarrow> RowMorselEntryV1 list \<Rightarrow> bytes" where
  "RowMorselDirectory_serialize crc entries = concat (map (RowMorselEntryV1_serialize crc) entries)"

fun contiguous_morsels :: "u32 \<Rightarrow> RowMorselEntryV1 list \<Rightarrow> unit result" where
  "contiguous_morsels next_row [] = Ok ()"
| "contiguous_morsels next_row (e # es) =
     (if rme_row_count e = 0 then Err SegmentCorrupt
      else if rme_first_row_in_segment e \<noteq> next_row then Err SegmentCorrupt
      else and_then (checked_add_u32 next_row (rme_row_count e)) (\<lambda>next_row. contiguous_morsels next_row es))"

definition RowMorselDirectory_validate :: "RowMorselEntryV1 list \<Rightarrow> unit result" where
  "RowMorselDirectory_validate entries =
     contiguous_morsels (case entries of [] \<Rightarrow> 0 | e # _ \<Rightarrow> rme_first_row_in_segment e) entries"

definition RowMorselDirectory_parse :: "(bytes \<Rightarrow> u32) \<Rightarrow> bytes \<Rightarrow> u32 \<Rightarrow> RowMorselEntryV1 list result" where
  "RowMorselDirectory_parse crc bs morsel_count =
     and_then (checked_mul (unat morsel_count) ROW_MORSEL_ENTRY_LEN) (\<lambda>needed.
     if length bs < needed then Err BufferTooShort
     else and_then (collect_map (RowMorselEntryV1_parse crc) (chunks_at 0 ROW_MORSEL_ENTRY_LEN (unat morsel_count) bs)) (\<lambda>entries.
       and_then (RowMorselDirectory_validate entries) (\<lambda>_. Ok entries)))"

definition sum_rows :: "RowMorselEntryV1 list \<Rightarrow> nat" where
  "sum_rows entries = sum_list (map (\<lambda>e. unat (rme_row_count e)) entries)"

definition in_morsel :: "RowMorselEntryV1 \<Rightarrow> nat \<Rightarrow> bool" where
  "in_morsel e r \<longleftrightarrow> unat (rme_first_row_in_segment e) \<le> r \<and> r < unat (rme_first_row_in_segment e) + unat (rme_row_count e)"

lemma contiguous_morsels_Ok:
  "contiguous_morsels n es = Ok () \<Longrightarrow> list_all (\<lambda>e. rme_row_count e \<noteq> 0) es
     \<and> length (filter (\<lambda>e. in_morsel e r) es) = (if unat n \<le> r \<and> r < unat n + sum_rows es then 1 else 0)"
proof (induction es arbitrary: n)
  case (Cons e es)
  then have n: "rme_first_row_in_segment e = n" "rme_row_count e \<noteq> 0" "unat n + unat (rme_row_count e) < 2 ^ 32"
    and c: "contiguous_morsels (n + rme_row_count e) es = Ok ()"
    by (auto simp: result_simps split: if_splits)
  have s: "unat (n + rme_row_count e) = unat n + unat (rme_row_count e)" using n(3) by (simp add: unat_add_lem [symmetric])
  have h: "in_morsel e r \<longleftrightarrow> unat n \<le> r \<and> r < unat n + unat (rme_row_count e)" by (simp add: in_morsel_def n)
  show ?case using Cons.IH [OF c] n(2) by (auto simp: h s sum_rows_def)
qed (simp add: sum_rows_def)

text \<open>every accepted morsel directory has no empty morsel, and from the first row of its first morsel on every row up to
  the sum of the row counts is in exactly one morsel.\<close>

theorem morsel_directory_covers:
  assumes "RowMorselDirectory_parse crc bs n = Ok (m # ms)"
  shows "length (m # ms) = unat n \<and> list_all (\<lambda>e. rme_row_count e \<noteq> 0) (m # ms)
    \<and> length (filter (\<lambda>e. in_morsel e r) (m # ms)) =
        (if unat (rme_first_row_in_segment m) \<le> r \<and> r < unat (rme_first_row_in_segment m) + sum_rows (m # ms) then 1 else 0)"
proof -
  have v: "contiguous_morsels (rme_first_row_in_segment m) (m # ms) = Ok ()"
    and c: "collect_map (RowMorselEntryV1_parse crc) (chunks_at 0 ROW_MORSEL_ENTRY_LEN (unat n) bs) = Ok (m # ms)"
    using assms by (auto simp: RowMorselDirectory_parse_def RowMorselDirectory_validate_def and_then_eq_Ok split: if_splits)
  show ?thesis using contiguous_morsels_Ok [OF v, of r] collect_map_length [OF c] by simp
qed

text \<open>the first morsel may start after row 0: the directory is accepted although the rows before it are in no morsel (a defect).\<close>

theorem morsel_gap_accepted:
  "\<exists>m. RowMorselDirectory_validate [m] = Ok () \<and> sum_rows [m] = 10 \<and> \<not> in_morsel m 0 \<and> in_morsel m 14"
  by (rule exI [of _ "\<lparr>rme_morsel_id = 0, rme_first_row_in_segment = 5, rme_row_count = 10, rme_flags = 0, rme_stats_ref = 0, rme_checksum = 0\<rparr>"])
    (simp add: RowMorselDirectory_validate_def checked_add_u32_def sum_rows_def in_morsel_def)

section \<open>The segment index is read back\<close>

text \<open>What is written carries the checksum of its own bytes.\<close>

definition index_entry_sealed :: "(bytes \<Rightarrow> u32) \<Rightarrow> TableSegmentIndexEntryV1 \<Rightarrow> TableSegmentIndexEntryV1" where
  "index_entry_sealed crc e = e\<lparr>tsi_checksum := crc (TableSegmentIndexEntryV1_image e)\<rparr>"

lemma sealed_entries:
  "collect_map (TableSegmentIndexEntryV1_parse crc) (map (TableSegmentIndexEntryV1_serialize crc) es) = Ok (map (index_entry_sealed crc) es)"
  using TableSegmentIndexEntryV1_roundtrip [of crc _ "[]"]
  by (induction es) (simp_all add: index_entry_sealed_def)

lemma segment_index_partitions_tables_parts:
  shows "TableSegmentIndex_parse crc bs \<noteq> Panic"
    and "TableSegmentIndex_parse crc bs = Ok ix \<Longrightarrow>
      distinct (map (\<lambda>e. (tsi_table_id e, tsi_segment_id e)) (six_entries ix))
      \<and> table_rows (six_entries ix) t < usize_bound
      \<and> length (filter (\<lambda>e. tsi_table_id e = t \<and> in_segment e r) (six_entries ix)) = (if r < table_rows (six_entries ix) t then 1 else 0)"
proof -
  have "contiguous_rows n es \<noteq> Panic" for n es by (induction es arbitrary: n) (auto simp: and_then_eq_Panic)
  moreover have "unique_segments s es \<noteq> Panic" for s es by (induction es arbitrary: s) auto
  ultimately have "TableSegmentIndex_validate i \<noteq> Panic" for i
    unfolding TableSegmentIndex_validate_def by (intro and_then_no_panic try_each_no_panic)
  then show "TableSegmentIndex_parse crc bs \<noteq> Panic"
    by (auto simp: TableSegmentIndex_parse_def and_then_eq_Panic Let_def collect_map_no_panic)
  assume "TableSegmentIndex_parse crc bs = Ok ix"
  then have "TableSegmentIndex_validate ix = Ok ()"
    by (auto simp: TableSegmentIndex_parse_def result_simps Let_def split: if_splits)
  then show "distinct (map (\<lambda>e. (tsi_table_id e, tsi_segment_id e)) (six_entries ix))
      \<and> table_rows (six_entries ix) t < usize_bound
      \<and> length (filter (\<lambda>e. tsi_table_id e = t \<and> in_segment e r) (six_entries ix)) = (if r < table_rows (six_entries ix) t then 1 else 0)"
    by (rule segment_index_partition)
qed

text \<open>C16: an accepted segment index has distinct segments and cuts the rows of every table into segments: every row below
  the table's row count is in exactly one segment of the table, no other row is in any; the parser never panics.\<close>

theorem segment_index_partitions_tables:
  assumes "TableSegmentIndex_parse crc bs = Ok ix"
  shows "distinct (map (\<lambda>e. (tsi_table_id e, tsi_segment_id e)) (six_entries ix))
    \<and> table_rows (six_entries ix) t < usize_bound
    \<and> length (filter (\<lambda>e. tsi_table_id e = t \<and> in_segment e r) (six_entries ix)) = (if r < table_rows (six_entries ix) t then 1 else 0)
    \<and> TableSegmentIndex_parse crc any_bytes \<noteq> Panic"
  using segment_index_partitions_tables_parts(2) [OF assms] segment_index_partitions_tables_parts(1) by blast

text \<open>a valid index is written and read back with the checksums of its entries filled in.\<close>

theorem segment_index_roundtrip:
  assumes "TableSegmentIndex_validate ix = Ok ()" "length (six_entries ix) < 2 ^ 32"
  shows "\<exists>bs. TableSegmentIndex_serialize crc ix = Ok bs
    \<and> TableSegmentIndex_parse crc (bs @ rest) = Ok (ix\<lparr>six_entries := map (index_entry_sealed crc) (six_entries ix)\<rparr>)"
proof -
  let ?es = "six_entries ix" and ?n = "length (six_entries ix)"
  let ?pre = "le_bytes 4 (of_nat ?n :: u32) @ le_bytes 4 (six_flags ix)"
  let ?bs = "?pre @ concat (map (TableSegmentIndexEntryV1_serialize crc) ?es)"
  have n: "unat (of_nat ?n :: u32) = ?n" by (rule unat_of_nat_less) (use assms(2) in simp)
  have len: "length (concat (map (TableSegmentIndexEntryV1_serialize crc) ?es)) = ?n * 60" by (rule length_concat_uniform) simp
  have chunks: "chunks_at 8 60 ?n (?bs @ rest) = map (TableSegmentIndexEntryV1_serialize crc) ?es"
    using chunks_at_concat [of ?es "TableSegmentIndexEntryV1_serialize crc" 60 8 ?pre ?n rest] by simp
  have keys: "map tsi_table_id (map (index_entry_sealed crc) es) = map tsi_table_id es"
    "unique_segments s (map (index_entry_sealed crc) es) = unique_segments s es"
    "contiguous_rows k (map (index_entry_sealed crc) es) = contiguous_rows k es" for es s k
    by (induction es arbitrary: s k) (simp_all add: index_entry_sealed_def)
  have sorted: "sort_key tsi_row_start (filter (\<lambda>e. tsi_table_id e = t) (map (index_entry_sealed crc) ?es))
      = map (index_entry_sealed crc) (sort_key tsi_row_start (filter (\<lambda>e. tsi_table_id e = t) ?es))" for t
  proof -
    have "insort_key tsi_row_start (index_entry_sealed crc e) (map (index_entry_sealed crc) xs)
        = map (index_entry_sealed crc) (insort_key tsi_row_start e xs)" for e xs
      by (induction xs) (simp_all add: index_entry_sealed_def)
    then have "sort_key tsi_row_start (map (index_entry_sealed crc) xs) = map (index_entry_sealed crc) (sort_key tsi_row_start xs)" for xs
      by (induction xs) simp_all
    moreover have "filter (\<lambda>e. tsi_table_id e = t) (map (index_entry_sealed crc) ?es) = map (index_entry_sealed crc) (filter (\<lambda>e. tsi_table_id e = t) ?es)"
      by (simp add: filter_map comp_def index_entry_sealed_def)
    ultimately show ?thesis by simp
  qed
  have valid: "TableSegmentIndex_validate \<lparr>six_flags = six_flags ix, six_entries = map (index_entry_sealed crc) ?es\<rparr> = Ok ()"
    using assms(1) unfolding TableSegmentIndex_validate_def by (simp only: keys sorted TableSegmentIndex.simps)
  have fields: "u32_at (?bs @ rest) 0 = of_nat ?n" "u32_at (?bs @ rest) 4 = six_flags ix" by (simp_all add: wire_simps)
  have "TableSegmentIndex_parse crc (?bs @ rest) = Ok \<lparr>six_flags = six_flags ix, six_entries = map (index_entry_sealed crc) ?es\<rparr>"
    using assms(2) fields chunks len n valid
    by (simp add: TableSegmentIndex_parse_def Let_def checked_add_def checked_mul_def TABLE_SEGMENT_INDEX_ENTRY_LEN_def sealed_entries)
  then show ?thesis using assms(2) by (intro exI [of _ ?bs]) (simp add: TableSegmentIndex_serialize_def)
qed

section \<open>Witnesses\<close>

definition sample_segment :: "u32 \<Rightarrow> u64 \<Rightarrow> u32 \<Rightarrow> TableSegmentIndexEntryV1" where
  "sample_segment i start n = \<lparr>tsi_table_id = 1, tsi_segment_id = i, tsi_row_start = start, tsi_row_count = n, tsi_morsel_count = 1,
     tsi_morsel_row_count = n, tsi_column_count = 0, tsi_offset = 0, tsi_length = 0, tsi_stats_ref = 0, tsi_flags = 0, tsi_checksum = 7\<rparr>"

definition sample_segments :: TableSegmentIndex where
  "sample_segments = \<lparr>six_flags = 0, six_entries = [sample_segment 2 10 5, sample_segment 1 0 10]\<rparr>"

lemma sample_segments_valid: "TableSegmentIndex_validate sample_segments = Ok ()"
  by (simp add: TableSegmentIndex_validate_def sample_segments_def sample_segment_def checked_add_def)

lemma sample_segments_sealed: "map (index_entry_sealed (\<lambda>_. 7)) (six_entries sample_segments) = six_entries sample_segments"
  by (simp add: sample_segments_def sample_segment_def index_entry_sealed_def)

theorem segment_index_roundtrip_witness:
  "\<exists>bs. TableSegmentIndex_serialize (\<lambda>_. 7) sample_segments = Ok bs \<and> TableSegmentIndex_parse (\<lambda>_. 7) (bs @ []) = Ok sample_segments"
  using segment_index_roundtrip [OF sample_segments_valid, of "\<lambda>_. 7" "[]"] sample_segments_sealed
  by (simp add: sample_segments_def)

lemma sample_segments_image:
  "TableSegmentIndex_parse (\<lambda>_. 7) (le_bytes 4 (2 :: u32) @ le_bytes 4 (0 :: u32)
     @ concat (map (TableSegmentIndexEntryV1_serialize (\<lambda>_. 7)) (six_entries sample_segments))) = Ok sample_segments"
proof -
  let ?es = "six_entries sample_segments"
  have "chunks_at 8 60 2 ((le_bytes 4 (2 :: u32) @ le_bytes 4 (0 :: u32)) @ concat (map (TableSegmentIndexEntryV1_serialize (\<lambda>_. 7)) ?es) @ [])
      = map (TableSegmentIndexEntryV1_serialize (\<lambda>_. 7)) ?es"
    by (rule chunks_at_concat) (simp_all add: sample_segments_def)
  moreover have "\<lparr>six_flags = 0, six_entries = ?es\<rparr> = sample_segments" by (simp add: sample_segments_def)
  moreover have "length (concat (map (TableSegmentIndexEntryV1_serialize (\<lambda>_. 7)) ?es)) = 120" by (simp add: sample_segments_def)
  ultimately show ?thesis
    by (simp add: TableSegmentIndex_parse_def Let_def wire_simps checked_add_def checked_mul_def TABLE_SEGMENT_INDEX_ENTRY_LEN_def
        sealed_entries sample_segments_sealed sample_segments_valid)
qed

theorem segment_index_partitions_tables_witness:
  "length (filter (\<lambda>e. tsi_table_id e = 1 \<and> in_segment e 12) (six_entries sample_segments))
     = (if 12 < table_rows (six_entries sample_segments) 1 then 1 else 0)"
  using segment_index_partitions_tables [OF sample_segments_image, of 1 12] by simp

definition sample_morsel :: "u32 \<Rightarrow> u32 \<Rightarrow> u32 \<Rightarrow> RowMorselEntryV1" where
  "sample_morsel i first n = \<lparr>rme_morsel_id = i, rme_first_row_in_segment = first, rme_row_count = n, rme_flags = 0,
     rme_stats_ref = 0, rme_checksum = 7\<rparr>"

lemma sample_morsels_parse:
  "RowMorselDirectory_parse (\<lambda>_. 7) (concat (map (RowMorselEntryV1_serialize (\<lambda>_. 7)) [sample_morsel 0 0 4, sample_morsel 1 4 3])) 2
     = Ok [sample_morsel 0 0 4, sample_morsel 1 4 3]"
proof -
  let ?ms = "[sample_morsel 0 0 4, sample_morsel 1 4 3]"
  have "chunks_at 0 24 2 ([] @ concat (map (RowMorselEntryV1_serialize (\<lambda>_. 7)) ?ms) @ []) = map (RowMorselEntryV1_serialize (\<lambda>_. 7)) ?ms"
    by (rule chunks_at_concat) simp_all
  moreover have "RowMorselEntryV1_parse (\<lambda>_. 7) (RowMorselEntryV1_serialize (\<lambda>_. 7) m) = Ok (m\<lparr>rme_checksum := 7\<rparr>)" for m
    using RowMorselEntryV1_roundtrip [of "\<lambda>_. 7" m "[]"] by simp
  ultimately show ?thesis
    by (simp add: RowMorselDirectory_parse_def checked_mul_def ROW_MORSEL_ENTRY_LEN_def RowMorselDirectory_validate_def
        sample_morsel_def checked_add_u32_def)
qed

theorem morsel_directory_covers_witness:
  "length (filter (\<lambda>e. in_morsel e 5) [sample_morsel 0 0 4, sample_morsel 1 4 3])
     = (if unat (rme_first_row_in_segment (sample_morsel 0 0 4)) \<le> 5
          \<and> 5 < unat (rme_first_row_in_segment (sample_morsel 0 0 4)) + sum_rows [sample_morsel 0 0 4, sample_morsel 1 4 3] then 1 else 0)"
  using morsel_directory_covers [OF sample_morsels_parse, of 5] by simp

end
