(* ===== verification/Page_Index.thy ===== *)
theory Page_Index
  imports Compression Errors
begin

text \<open>
  The page index of a column (\<open>cove-core/src/page.rs\<close>) and the decompression of its pages (the page functions of
  \<open>compression.rs\<close>): entries with their flags, and the rules between counts, codec and lengths. The theorems
  show exactly which entries are accepted and that pages survive the codec.
\<close>

unbundle bit_operations_syntax

section \<open>Page flags\<close>

definition PAGE_FLAG_CODEC_MASK :: u32 where "PAGE_FLAG_CODEC_MASK = 0xFF"
definition PAGE_FLAG_STATS_ONLY_CONSTANT :: u32 where "PAGE_FLAG_STATS_ONLY_CONSTANT = 0x100"
definition PAGE_FLAG_ALL_NULL :: u32 where "PAGE_FLAG_ALL_NULL = 0x200"
definition PAGE_FLAG_ALL_NON_NULL :: u32 where "PAGE_FLAG_ALL_NON_NULL = 0x400"
definition PAGE_FLAG_VALUE_STREAM_ELIDED :: u32 where "PAGE_FLAG_VALUE_STREAM_ELIDED = 0x800"
definition PAGE_FLAG_KNOWN_MASK :: u32 where
  "PAGE_FLAG_KNOWN_MASK = PAGE_FLAG_CODEC_MASK OR PAGE_FLAG_STATS_ONLY_CONSTANT OR PAGE_FLAG_ALL_NULL
     OR PAGE_FLAG_ALL_NON_NULL OR PAGE_FLAG_VALUE_STREAM_ELIDED"
definition PAGE_FLAG_RESERVED_MASK :: u32 where "PAGE_FLAG_RESERVED_MASK = NOT PAGE_FLAG_KNOWN_MASK"

text \<open>\<open>{flags:08x}\<close>\<close>

definition show_hex8 :: "u32 \<Rightarrow> string" where
  "show_hex8 bits = map (\<lambda>i. hex_digit (unat (drop_bit (28 - 4 * i) bits AND 0xF))) [0..<8]"

definition page_flag_codec :: "u32 \<Rightarrow> CompressionCodec result" where
  "page_flag_codec flags =
     (if flags AND PAGE_FLAG_RESERVED_MASK \<noteq> 0
      then Err (BadSection (''page flags reserved bits must be zero (flags=0x'' @ show_hex8 flags @ '')''))
      else let raw = ucast (flags AND PAGE_FLAG_CODEC_MASK) :: u8 in
        ok_or (CompressionCodec_from_u8 raw) (BadSection (''unknown page compression codec '' @ show_nat (unat raw))))"

definition page_uses_payload_elision :: "u32 \<Rightarrow> bool" where
  "page_uses_payload_elision flags \<longleftrightarrow>
     flags AND (PAGE_FLAG_STATS_ONLY_CONSTANT OR PAGE_FLAG_ALL_NULL OR PAGE_FLAG_ALL_NON_NULL OR PAGE_FLAG_VALUE_STREAM_ELIDED) \<noteq> 0"

abbreviation flag_set :: "u32 \<Rightarrow> u32 \<Rightarrow> bool" where
  "flag_set flags flag \<equiv> flags AND flag \<noteq> 0"

section \<open>Page index entries\<close>

definition COLUMN_PAGE_INDEX_ENTRY_LEN :: usize where "COLUMN_PAGE_INDEX_ENTRY_LEN = 60"

record ColumnPageIndexEntryV1 =
  cpe_column_id :: u32
  cpe_morsel_id :: u32
  cpe_row_count :: u32
  cpe_non_null_count :: u32
  cpe_null_count :: u32
  cpe_encoding_root :: u32
  cpe_page_offset :: u64
  cpe_page_length :: u64
  cpe_uncompressed_length :: u64
  cpe_stats_ref :: u32
  cpe_flags :: u32
  cpe_checksum :: u32

definition ColumnPageIndexEntryV1_serialize :: "ColumnPageIndexEntryV1 \<Rightarrow> bytes" where
  "ColumnPageIndexEntryV1_serialize h =
     (let buf = replicate COLUMN_PAGE_INDEX_ENTRY_LEN 0;
          buf = put 0 (le_bytes 4 (cpe_column_id h)) buf;
          buf = put 4 (le_bytes 4 (cpe_morsel_id h)) buf;
          buf = put 8 (le_bytes 4 (cpe_row_count h)) buf;
          buf = put 12 (le_bytes 4 (cpe_non_null_count h)) buf;
          buf = put 16 (le_bytes 4 (cpe_null_count h)) buf;
          buf = put 20 (le_bytes 4 (cpe_encoding_root h)) buf;
          buf = put 24 (le_bytes 8 (cpe_page_offset h)) buf;
          buf = put 32 (le_bytes 8 (cpe_page_length h)) buf;
          buf = put 40 (le_bytes 8 (cpe_uncompressed_length h)) buf;
          buf = put 48 (le_bytes 4 (cpe_stats_ref h)) buf;
          buf = put 52 (le_bytes 4 (cpe_flags h)) buf;
          buf = put 56 (le_bytes 4 (cpe_checksum h)) buf
      in buf)"

definition ColumnPageIndexEntryV1_read :: "bytes \<Rightarrow> ColumnPageIndexEntryV1" where
  "ColumnPageIndexEntryV1_read buf =
     \<lparr>cpe_column_id = u32_at buf 0,
      cpe_morsel_id = u32_at buf 4,
      cpe_row_count = u32_at buf 8,
      cpe_non_null_count = u32_at buf 12,
      cpe_null_count = u32_at buf 16,
      cpe_encoding_root = u32_at buf 20,
      cpe_page_offset = u64_at buf 24,
      cpe_page_length = u64_at buf 32,
      cpe_uncompressed_length = u64_at buf 40,
      cpe_stats_ref = u32_at buf 48,
      cpe_flags = u32_at buf 52,
      cpe_checksum = u32_at buf 56\<rparr>"

lemma length_ColumnPageIndexEntryV1_serialize [simp]: "length (ColumnPageIndexEntryV1_serialize h) = 60"
  by (simp add: ColumnPageIndexEntryV1_serialize_def COLUMN_PAGE_INDEX_ENTRY_LEN_def Let_def)

lemma ColumnPageIndexEntryV1_serialize_fields:
  "u32_at (ColumnPageIndexEntryV1_serialize h) 0 = cpe_column_id h"
  "u32_at (ColumnPageIndexEntryV1_serialize h) 4 = cpe_morsel_id h"
  "u32_at (ColumnPageIndexEntryV1_serialize h) 8 = cpe_row_count h"
  "u32_at (ColumnPageIndexEntryV1_serialize h) 12 = cpe_non_null_count h"
  "u32_at (ColumnPageIndexEntryV1_serialize h) 16 = cpe_null_count h"
  "u32_at (ColumnPageIndexEntryV1_serialize h) 20 = cpe_encoding_root h"
  "u64_at (ColumnPageIndexEntryV1_serialize h) 24 = cpe_page_offset h"
  "u64_at (ColumnPageIndexEntryV1_serialize h) 32 = cpe_page_length h"
  "u64_at (ColumnPageIndexEntryV1_serialize h) 40 = cpe_uncompressed_length h"
  "u32_at (ColumnPageIndexEntryV1_serialize h) 48 = cpe_stats_ref h"
  "u32_at (ColumnPageIndexEntryV1_serialize h) 52 = cpe_flags h"
  "u32_at (ColumnPageIndexEntryV1_serialize h) 56 = cpe_checksum h"
  by (simp_all add: ColumnPageIndexEntryV1_serialize_def COLUMN_PAGE_INDEX_ENTRY_LEN_def Let_def wire_simps)

lemma ColumnPageIndexEntryV1_read_back:
  "ColumnPageIndexEntryV1_read (ColumnPageIndexEntryV1_serialize h) = h"
  using ColumnPageIndexEntryV1_serialize_fields [of h]
  by (cases h) (simp add: ColumnPageIndexEntryV1_read_def wire_simps)

lemma page_entry_image_back:
  assumes "length buf = 60"
  shows "ColumnPageIndexEntryV1_serialize (ColumnPageIndexEntryV1_read buf) = buf"
  by (intro nth_equalityI,
      auto simp: assms ColumnPageIndexEntryV1_serialize_def ColumnPageIndexEntryV1_read_def COLUMN_PAGE_INDEX_ENTRY_LEN_def
        Let_def nth_put nth_slice le_bytes_from_le)

text \<open>\<open>crc32c(&[])\<close> is computed, not assumed to be zero.\<close>

definition empty_page_checksum :: "(bytes \<Rightarrow> u32) \<Rightarrow> u32" where
  "empty_page_checksum crc = crc []"

definition ColumnPageIndexEntryV1_check :: "(bytes \<Rightarrow> u32) \<Rightarrow> ColumnPageIndexEntryV1 \<Rightarrow> unit result" where
  "ColumnPageIndexEntryV1_check crc e =
     (if unat (cpe_non_null_count e) + unat (cpe_null_count e) \<ge> 2 ^ 32 then Err ArithOverflow
      else if cpe_non_null_count e + cpe_null_count e \<noteq> cpe_row_count e then Err PageCorrupt
      else and_then (page_flag_codec (cpe_flags e)) (\<lambda>codec.
        let stats_only_constant = flag_set (cpe_flags e) PAGE_FLAG_STATS_ONLY_CONSTANT;
            all_null = flag_set (cpe_flags e) PAGE_FLAG_ALL_NULL;
            all_non_null = flag_set (cpe_flags e) PAGE_FLAG_ALL_NON_NULL in
        if all_null \<and> all_non_null
        then Err (BadSection ''PAGE_FLAG_ALL_NULL and PAGE_FLAG_ALL_NON_NULL are mutually exclusive'')
        else if all_null \<and> (cpe_null_count e \<noteq> cpe_row_count e \<or> cpe_non_null_count e \<noteq> 0) then Err PageCorrupt
        else if all_non_null \<and> (cpe_null_count e \<noteq> 0 \<or> cpe_non_null_count e \<noteq> cpe_row_count e) then Err PageCorrupt
        else and_then
          (if stats_only_constant then
             if \<not> all_null \<and> \<not> all_non_null
             then Err (BadSection ''PAGE_FLAG_STATS_ONLY_CONSTANT requires PAGE_FLAG_ALL_NULL or PAGE_FLAG_ALL_NON_NULL'')
             else if codec \<noteq> Codec_None then Err (BadSection ''stats-only constant pages must use page codec=None'')
             else if cpe_page_length e \<noteq> 0 \<or> cpe_uncompressed_length e \<noteq> 0
             then Err (BadSection ''stats-only constant pages must have page_length=0 and uncompressed_length=0'')
             else if cpe_page_offset e \<noteq> 0 then Err (BadSection ''stats-only constant pages must set page_offset=0'')
             else if cpe_encoding_root e \<noteq> - 1 then Err (BadSection ''stats-only constant pages must set encoding_root=u32::MAX'')
             else if cpe_checksum e \<noteq> empty_page_checksum crc
             then Err (BadSection ''stats-only constant pages must use the empty-page checksum'')
             else Ok ()
           else if cpe_page_length e = 0 then Err (BadSection ''page_length=0 requires PAGE_FLAG_STATS_ONLY_CONSTANT'')
           else Ok ()) (\<lambda>_.
        if codec = Codec_None \<and> cpe_page_length e \<noteq> cpe_uncompressed_length e
        then Err (BadSection ''uncompressed_length must equal page_length when page codec=None'')
        else if cpe_page_length e = 0 \<and> cpe_uncompressed_length e \<noteq> 0
        then Err (BadSection ''page_length=0 requires uncompressed_length=0'')
        else if cpe_page_length e \<noteq> 0 \<and> codec \<noteq> Codec_None \<and> cpe_uncompressed_length e = 0
        then Err (BadSection ''compressed page must declare non-zero uncompressed_length'')
        else Ok ())))"

definition ColumnPageIndexEntryV1_parse :: "(bytes \<Rightarrow> u32) \<Rightarrow> bytes \<Rightarrow> ColumnPageIndexEntryV1 result" where
  "ColumnPageIndexEntryV1_parse crc bs =
     (if length bs < COLUMN_PAGE_INDEX_ENTRY_LEN then Err BufferTooShort
      else let e = ColumnPageIndexEntryV1_read (slice 0 COLUMN_PAGE_INDEX_ENTRY_LEN bs) in
        and_then (ColumnPageIndexEntryV1_check crc e) (\<lambda>_. Ok e))"

definition ColumnPageIndex_parse :: "(bytes \<Rightarrow> u32) \<Rightarrow> bytes \<Rightarrow> ColumnPageIndexEntryV1 list result" where
  "ColumnPageIndex_parse crc bs =
     (if bs = [] then Ok []
      else if length bs mod COLUMN_PAGE_INDEX_ENTRY_LEN \<noteq> 0 then Err PageCorrupt
      else collect_map (ColumnPageIndexEntryV1_parse crc) (chunks_exact COLUMN_PAGE_INDEX_ENTRY_LEN bs))"

text \<open>The rules an entry has to obey, stated without their order.\<close>

definition page_entry_ok :: "(bytes \<Rightarrow> u32) \<Rightarrow> ColumnPageIndexEntryV1 \<Rightarrow> bool" where
  "page_entry_ok crc e \<longleftrightarrow>
     unat (cpe_non_null_count e) + unat (cpe_null_count e) = unat (cpe_row_count e)
     \<and> \<not> flag_set (cpe_flags e) PAGE_FLAG_RESERVED_MASK
     \<and> (flag_set (cpe_flags e) PAGE_FLAG_ALL_NULL \<longrightarrow> \<not> flag_set (cpe_flags e) PAGE_FLAG_ALL_NON_NULL \<and> cpe_non_null_count e = 0)
     \<and> (flag_set (cpe_flags e) PAGE_FLAG_ALL_NON_NULL \<longrightarrow> cpe_null_count e = 0)
     \<and> (\<exists>codec. CompressionCodec_from_u8 (ucast (cpe_flags e AND PAGE_FLAG_CODEC_MASK)) = Some codec
         \<and> (codec = Codec_None \<longrightarrow> cpe_page_length e = cpe_uncompressed_length e)
         \<and> (if flag_set (cpe_flags e) PAGE_FLAG_STATS_ONLY_CONSTANT
            then (flag_set (cpe_flags e) PAGE_FLAG_ALL_NULL \<or> flag_set (cpe_flags e) PAGE_FLAG_ALL_NON_NULL)
              \<and> codec = Codec_None \<and> cpe_page_length e = 0 \<and> cpe_page_offset e = 0 \<and> cpe_encoding_root e = - 1 \<and> cpe_checksum e = crc []
            else cpe_page_length e \<noteq> 0 \<and> cpe_uncompressed_length e \<noteq> 0))"

lemma counts_add:
  fixes a b c :: u32
  shows "unat a + unat b < 2 ^ 32 \<and> a + b = c \<longleftrightarrow> unat a + unat b = unat c"
proof
  assume "unat a + unat b < 2 ^ 32 \<and> a + b = c"
  then show "unat a + unat b = unat c" using unat_add_lem [of a b] by auto
next
  assume h: "unat a + unat b = unat c"
  then have "unat a + unat b < 2 ^ 32" using unat_less_power [of c] by simp
  moreover from this have "unat (a + b) = unat c" using unat_add_lem [of a b] h by simp
  ultimately show "unat a + unat b < 2 ^ 32 \<and> a + b = c" by (simp add: word_unat_eq_iff)
qed

lemma page_flag_codec_Ok:
  "page_flag_codec flags = Ok codec \<longleftrightarrow>
     \<not> flag_set flags PAGE_FLAG_RESERVED_MASK \<and> CompressionCodec_from_u8 (ucast (flags AND PAGE_FLAG_CODEC_MASK)) = Some codec"
  by (auto simp: page_flag_codec_def result_simps Let_def)

lemma page_flag_codec_no_panic [simp]: "page_flag_codec flags \<noteq> Panic"
  by (auto simp: page_flag_codec_def ok_or_def Let_def split: option.splits)

lemma guard_eq: "(if c then Err x else r) = Ok y \<longleftrightarrow> \<not> c \<and> r = Ok y" "(if c then Err x else r) = Panic \<longleftrightarrow> \<not> c \<and> r = Panic"
  by simp_all

lemma branch_eq: "(if c then a else b) = Ok y \<longleftrightarrow> c \<and> a = Ok y \<or> \<not> c \<and> b = Ok y"
  by simp

lemma page_check_iff: "ColumnPageIndexEntryV1_check crc e = Ok () \<longleftrightarrow> page_entry_ok crc e"
proof -
  have counts: "unat (cpe_non_null_count e) + unat (cpe_null_count e) = unat (cpe_row_count e) \<longleftrightarrow>
      unat (cpe_non_null_count e) + unat (cpe_null_count e) < 2 ^ 32 \<and> cpe_non_null_count e + cpe_null_count e = cpe_row_count e"
    by (rule counts_add [symmetric])
  show ?thesis
    unfolding ColumnPageIndexEntryV1_check_def page_entry_ok_def counts Let_def guard_eq and_then_eq_Ok page_flag_codec_Ok
      empty_page_checksum_def not_le
    unfolding branch_eq guard_eq result.simps
    by (cases "flag_set (cpe_flags e) PAGE_FLAG_STATS_ONLY_CONSTANT") auto
qed

lemma page_check_no_panic [simp]: "ColumnPageIndexEntryV1_check crc e \<noteq> Panic"
  unfolding ColumnPageIndexEntryV1_check_def Let_def guard_eq and_then_eq_Panic by (auto simp: guard_eq)

lemma page_entry_parse_exact_parts:
  shows "ColumnPageIndexEntryV1_parse crc bs \<noteq> Panic"
    and "ColumnPageIndexEntryV1_parse crc bs = Ok e \<longleftrightarrow>
      page_entry_ok crc e \<and> 60 \<le> length bs \<and> slice 0 60 bs = ColumnPageIndexEntryV1_serialize e"
proof -
  show "ColumnPageIndexEntryV1_parse crc bs \<noteq> Panic"
    by (auto simp: ColumnPageIndexEntryV1_parse_def and_then_eq_Panic Let_def)
  have rb: "ColumnPageIndexEntryV1_serialize (ColumnPageIndexEntryV1_read b) = b" if "length b = 60" for b
    by (rule page_entry_image_back) (rule that)
  show "ColumnPageIndexEntryV1_parse crc bs = Ok e \<longleftrightarrow>
      page_entry_ok crc e \<and> 60 \<le> length bs \<and> slice 0 60 bs = ColumnPageIndexEntryV1_serialize e"
    by (auto simp: ColumnPageIndexEntryV1_parse_def COLUMN_PAGE_INDEX_ENTRY_LEN_def Let_def result_simps page_check_iff rb
        ColumnPageIndexEntryV1_read_back)
qed

text \<open>the parser accepts exactly the serialized entries that obey the rules, and returns them; it never panics.\<close>

theorem page_entry_parse_exact:
  "ColumnPageIndexEntryV1_parse crc bs \<noteq> Panic
    \<and> (ColumnPageIndexEntryV1_parse crc bs = Ok e \<longleftrightarrow>
      page_entry_ok crc e \<and> 60 \<le> length bs \<and> slice 0 60 bs = ColumnPageIndexEntryV1_serialize e)"
  using page_entry_parse_exact_parts by simp

text \<open>a page index written entry by entry is read back.\<close>

lemma page_index_back:
  assumes "list_all (page_entry_ok crc) es"
  shows "ColumnPageIndex_parse crc (concat (map ColumnPageIndexEntryV1_serialize es)) = Ok es"
proof (cases "es = []")
  case False
  let ?bs = "concat (map ColumnPageIndexEntryV1_serialize es)"
  have len: "length ?bs = length es * 60" by (rule length_concat_uniform) simp
  have "chunks_exact 60 ?bs = map ColumnPageIndexEntryV1_serialize es" by (rule chunks_exact_concat) simp_all
  moreover have "ColumnPageIndexEntryV1_parse crc (ColumnPageIndexEntryV1_serialize e) = Ok e" if "page_entry_ok crc e" for e
    using that by (simp add: ColumnPageIndexEntryV1_parse_def COLUMN_PAGE_INDEX_ENTRY_LEN_def Let_def page_check_iff [THEN iffD2]
        ColumnPageIndexEntryV1_read_back wire_simps)
  then have "collect_map (ColumnPageIndexEntryV1_parse crc) (map ColumnPageIndexEntryV1_serialize es) = Ok es"
    using assms by (induction es) auto
  moreover have "?bs \<noteq> []" using len False by (metis length_0_conv mult_is_0 zero_neq_numeral)
  ultimately show ?thesis using len unfolding ColumnPageIndex_parse_def COLUMN_PAGE_INDEX_ENTRY_LEN_def by (simp del: concat_eq_Nil_conv)
qed (simp add: ColumnPageIndex_parse_def)

section \<open>The compact page index\<close>

record PageEntry =
  pe_page_id :: u32
  pe_morsel_id :: u32
  pe_row_count :: u32
  pe_null_count :: u32
  pe_offset :: u64
  pe_length :: u64
  pe_encoding :: CoveEncodingKind
  pe_crc32c :: u32

definition PageEntry_verify_crc :: "(bytes \<Rightarrow> u32) \<Rightarrow> PageEntry \<Rightarrow> bytes \<Rightarrow> unit result" where
  "PageEntry_verify_crc crc e payload =
     and_then (checked_add (unat (pe_offset e)) (unat (pe_length e))) (\<lambda>end'.
     if end' > length payload then Err OffsetRange
     else if crc (slice (unat (pe_offset e)) (end' - unat (pe_offset e)) payload) \<noteq> pe_crc32c e then Err PageCorrupt
     else Ok ())"

text \<open>The subtraction underflows, and panics in a checked build, when there are more nulls than rows.\<close>

definition PageEntry_non_null_count :: "PageEntry \<Rightarrow> u32 result" where
  "PageEntry_non_null_count e = (if pe_null_count e > pe_row_count e then Panic else Ok (pe_row_count e - pe_null_count e))"

definition PageEntry_parse :: "bytes \<Rightarrow> PageEntry result" where
  "PageEntry_parse b =
     (if u32_at b 12 > u32_at b 8 then Err PageCorrupt
      else and_then (ok_or (CoveEncodingKind_from_u16 (u16_at b 32)) (BadSection (''unknown encoding '' @ show_nat (unat (u16_at b 32))))) (\<lambda>encoding.
        Ok \<lparr>pe_page_id = u32_at b 0, pe_morsel_id = u32_at b 4, pe_row_count = u32_at b 8, pe_null_count = u32_at b 12,
          pe_offset = u64_at b 16, pe_length = u64_at b 24, pe_encoding = encoding, pe_crc32c = u32_at b 34\<rparr>))"

definition PageIndex_parse :: "bytes \<Rightarrow> PageEntry list result" where
  "PageIndex_parse bs =
     (if length bs < 4 then Err BufferTooShort
      else let count = unat (u32_at bs 0) in
        and_then (checked_mul count 38) (\<lambda>entries_bytes.
        and_then (checked_add 4 entries_bytes) (\<lambda>required_len.
        if required_len > length bs then Err BufferTooShort
        else collect_map PageEntry_parse (chunks_at 4 38 count bs))))"

lemma parsed_entry_counts: "PageEntry_parse b = Ok e \<Longrightarrow> PageEntry_non_null_count e \<noteq> Panic"
  by (auto simp: PageEntry_parse_def result_simps PageEntry_non_null_count_def split: if_splits)

lemma parsed_page_counts: "PageIndex_parse bs = Ok es \<Longrightarrow> e \<in> set es \<Longrightarrow> PageEntry_non_null_count e \<noteq> Panic"
proof -
  assume p: "PageIndex_parse bs = Ok es" and e: "e \<in> set es"
  obtain n where c: "collect_map PageEntry_parse (chunks_at 4 38 n bs) = Ok es"
    using p by (auto simp: PageIndex_parse_def result_simps Let_def split: if_splits)
  obtain i where i: "i < length es" "e = es ! i" using e by (auto simp: in_set_conv_nth)
  then have "PageEntry_parse (chunks_at 4 38 n bs ! i) = Ok e" using collect_map_nth [OF c, of i] collect_map_length [OF c] by simp
  then show ?thesis by (rule parsed_entry_counts)
qed

section \<open>Page payloads and the codec\<close>

datatype PageChecksumValidation = Verify_Page | Trusted_Page

definition encode_page_payload :: "codecs \<Rightarrow> bytes \<Rightarrow> CompressionCodec \<Rightarrow> bytes result" where
  "encode_page_payload cs payload codec = encode_payload_for_codec cs payload (CompressionCodec_code codec)"

definition column_page_payload_with_checksum_validation ::
  "codecs \<Rightarrow> (bytes \<Rightarrow> u32) \<Rightarrow> bytes \<Rightarrow> ColumnPageIndexEntryV1 \<Rightarrow> PageChecksumValidation \<Rightarrow> bytes result" where
  "column_page_payload_with_checksum_validation cs crc page_bytes entry validation =
     (if of_nat (length page_bytes) \<noteq> cpe_page_length entry
      then Err (BadSection (''page payload length '' @ show_nat (length page_bytes) @ '' does not match page_length '' @ show_nat (unat (cpe_page_length entry))))
      else if validation = Verify_Page \<and> crc page_bytes \<noteq> cpe_checksum entry then Err ChecksumMismatch
      else and_then (page_flag_codec (cpe_flags entry)) (\<lambda>codec. case codec of
          Codec_None \<Rightarrow>
            if cpe_uncompressed_length entry \<noteq> cpe_page_length entry
            then Err (BadSection ''uncompressed_length must equal page_length when page codec=None'')
            else Ok page_bytes
        | Codec_Lz4 \<Rightarrow> lz4_decompress cs page_bytes (cpe_uncompressed_length entry)
        | Codec_Zstd \<Rightarrow> zstd_decompress cs page_bytes (cpe_uncompressed_length entry)))"

definition column_page_payload :: "codecs \<Rightarrow> (bytes \<Rightarrow> u32) \<Rightarrow> bytes \<Rightarrow> ColumnPageIndexEntryV1 \<Rightarrow> bytes result" where
  "column_page_payload cs crc page_bytes entry = column_page_payload_with_checksum_validation cs crc page_bytes entry Verify_Page"

lemma column_page_payload_panic:
  assumes cs: "codecs_return cs" and panic: "column_page_payload_with_checksum_validation cs crc bs e v = Panic"
  shows "\<exists>codec. page_flag_codec (cpe_flags e) = Ok codec \<and> oversized (CompressionCodec_code codec) (cpe_uncompressed_length e)"
proof -
  obtain codec where codec: "page_flag_codec (cpe_flags e) = Ok codec"
    using panic by (auto simp: column_page_payload_with_checksum_validation_def and_then_eq_Panic split: if_splits)
  then have "payload_from_raw cs bs l (cpe_uncompressed_length e) (CompressionCodec_code codec) = Panic" for l
    using panic by (cases codec) (auto simp: column_page_payload_with_checksum_validation_def payload_from_raw_def CompressionCodec_from_u8_def
        split: if_splits)
  with payload_panic [OF cs] codec show ?thesis by blast
qed

lemma page_codec_back:
  assumes "codecs_lossless cs" "encode_page_payload cs payload codec = Ok wire" "length payload < 2 ^ 63"
    and "cpe_page_length e = of_nat (length wire)" "cpe_uncompressed_length e = of_nat (length payload)"
    and "cpe_checksum e = crc wire" "page_flag_codec (cpe_flags e) = Ok codec"
  shows "column_page_payload cs crc wire e = Ok payload"
proof -
  have "payload_from_raw cs wire (of_nat (length wire)) (of_nat (length payload)) (CompressionCodec_code codec) = Ok payload"
    by (rule payload_codec_roundtrip [OF assms(1) _ assms(3)]) (use assms(2) in \<open>simp add: encode_page_payload_def\<close>)
  then have "(case codec of Codec_None \<Rightarrow> if (of_nat (length payload) :: u64) \<noteq> of_nat (length wire)
        then Err (BadSection ''uncompressed_length must equal page_length when page codec=None'') else Ok wire
      | Codec_Lz4 \<Rightarrow> lz4_decompress cs wire (of_nat (length payload)) | Codec_Zstd \<Rightarrow> zstd_decompress cs wire (of_nat (length payload))) = Ok payload"
    by (cases codec) (simp_all add: payload_from_raw_def CompressionCodec_from_u8_def split: if_splits)
  then show ?thesis using assms(4-7) by (simp add: column_page_payload_def column_page_payload_with_checksum_validation_def)
qed

text \<open>what the writer stores for a page under a codec, the page reader returns, provided the libraries decompress what
  they compressed; entries that obey the rules are read back from the index.\<close>

theorem column_pages_read_back:
  assumes "codecs_lossless cs" "encode_page_payload cs payload codec = Ok wire" "length payload < 2 ^ 63"
    and "cpe_page_length e = of_nat (length wire)" "cpe_uncompressed_length e = of_nat (length payload)"
    and "cpe_checksum e = crc wire" "page_entry_ok crc e" "page_flag_codec (cpe_flags e) = Ok codec" "list_all (page_entry_ok crc) es"
  shows "column_page_payload cs crc wire e = Ok payload \<and>
    ColumnPageIndex_parse crc (concat (map ColumnPageIndexEntryV1_serialize (e # es))) = Ok (e # es)"
  using page_codec_back [where crc = crc, OF assms(1-6,8)] page_index_back [of crc "e # es"] assms(7,9) by simp

section \<open>Witnesses\<close>

definition sample_page_entry :: "u32 \<Rightarrow> u32 \<Rightarrow> u64 \<Rightarrow> u64 \<Rightarrow> ColumnPageIndexEntryV1" where
  "sample_page_entry flags crc n u = \<lparr>cpe_column_id = 3, cpe_morsel_id = 0, cpe_row_count = 2, cpe_non_null_count = 1, cpe_null_count = 1,
     cpe_encoding_root = 5, cpe_page_offset = 100, cpe_page_length = n, cpe_uncompressed_length = u, cpe_stats_ref = 0,
     cpe_flags = flags, cpe_checksum = crc\<rparr>"

lemma sample_page_entry_ok: "page_entry_ok (\<lambda>_. 7) (sample_page_entry 1 7 3 3)" "page_flag_codec 1 = Ok Codec_Lz4"
  by (simp_all add: page_entry_ok_def sample_page_entry_def PAGE_FLAG_RESERVED_MASK_def PAGE_FLAG_KNOWN_MASK_def PAGE_FLAG_CODEC_MASK_def
      PAGE_FLAG_STATS_ONLY_CONSTANT_def PAGE_FLAG_ALL_NULL_def PAGE_FLAG_ALL_NON_NULL_def PAGE_FLAG_VALUE_STREAM_ELIDED_def
      CompressionCodec_from_u8_def page_flag_codec_def Let_def)

theorem column_pages_read_back_witness:
  "column_page_payload stored_codecs (\<lambda>_. 7) [1, 2, 3] (sample_page_entry 1 7 3 3) = Ok [1, 2, 3]"
  using column_pages_read_back [of stored_codecs "[1, 2, 3]" Codec_Lz4 "[1, 2, 3]" "sample_page_entry 1 7 3 3" "\<lambda>_. 7" "[]"]
    sample_page_entry_ok stored_codecs_lossless
  by (simp add: encode_page_payload_def encode_payload_for_codec_def CompressionCodec_from_u8_def lz4_compress_def stored_codecs_def
      sample_page_entry_def)

end
