(* ===== verification/Page_Payload.thy ===== *)
theory Page_Payload
  imports Compression
begin

text \<open>
  Column page payloads (\<open>cove-core/src/page_payload.rs\<close>): a header, the nodes of the encoding tree in preorder,
  the directory of buffers and the buffers themselves. The theorems show that the tree parser is the inverse of
  the preorder listing, that it ends, and that what the builder writes is read back. The retained variant differs
  from the owning one only in who owns the bytes.
\<close>

section \<open>Buffer kinds\<close>

datatype PageBufferKind = Buffer_NullBitmap | Buffer_Values | Buffer_Offsets | Buffer_ChildLayout | Buffer_Other

primrec PageBufferKind_code :: "PageBufferKind \<Rightarrow> u16" where
  "PageBufferKind_code Buffer_NullBitmap = 0"
| "PageBufferKind_code Buffer_Values = 1"
| "PageBufferKind_code Buffer_Offsets = 2"
| "PageBufferKind_code Buffer_ChildLayout = 3"
| "PageBufferKind_code Buffer_Other = 255"

definition PageBufferKind_from_u16 :: "u16 \<Rightarrow> PageBufferKind option" where
  "PageBufferKind_from_u16 v = map_of
     [(0, Buffer_NullBitmap), (1, Buffer_Values), (2, Buffer_Offsets), (3, Buffer_ChildLayout), (255, Buffer_Other)] v"

interpretation pageBufferKind: wire_enum PageBufferKind_code PageBufferKind_from_u16
proof
  fix k show "PageBufferKind_from_u16 (PageBufferKind_code k) = Some k" by (cases k) (simp_all add: PageBufferKind_from_u16_def)
next
  fix v k assume "PageBufferKind_from_u16 v = Some k"
  then show "PageBufferKind_code k = v" by (auto simp: PageBufferKind_from_u16_def split: if_splits)
qed

datatype BufferChecksumValidation = Verify_Buffers | Trusted_Buffers

section \<open>Headers\<close>

definition COLUMN_PAGE_PAYLOAD_MAGIC :: bytes where "COLUMN_PAGE_PAYLOAD_MAGIC = [67, 80, 71, 49]"

definition COLUMN_PAGE_PAYLOAD_HEADER_LEN :: usize where "COLUMN_PAGE_PAYLOAD_HEADER_LEN = 36"

record ColumnPagePayloadHeaderV1 =
  pph_magic :: bytes
  pph_version_major :: u16
  pph_header_len :: u16
  pph_flags :: u16
  pph_root_node_id :: u16
  pph_node_count :: u16
  pph_buffer_count :: u16
  pph_row_count :: u32
  pph_nodes_offset :: u32
  pph_buffer_directory_offset :: u32
  pph_buffers_offset :: u32
  pph_reserved :: u32

definition ColumnPagePayloadHeaderV1_serialize :: "ColumnPagePayloadHeaderV1 \<Rightarrow> bytes" where
  "ColumnPagePayloadHeaderV1_serialize h =
     (let buf = replicate COLUMN_PAGE_PAYLOAD_HEADER_LEN 0;
          buf = put 0 (pph_magic h) buf;
          buf = put 4 (le_bytes 2 (pph_version_major h)) buf;
          buf = put 6 (le_bytes 2 (pph_header_len h)) buf;
          buf = put 8 (le_bytes 2 (pph_flags h)) buf;
          buf = put 10 (le_bytes 2 (pph_root_node_id h)) buf;
          buf = put 12 (le_bytes 2 (pph_node_count h)) buf;
          buf = put 14 (le_bytes 2 (pph_buffer_count h)) buf;
          buf = put 16 (le_bytes 4 (pph_row_count h)) buf;
          buf = put 20 (le_bytes 4 (pph_nodes_offset h)) buf;
          buf = put 24 (le_bytes 4 (pph_buffer_directory_offset h)) buf;
          buf = put 28 (le_bytes 4 (pph_buffers_offset h)) buf;
          buf = put 32 (le_bytes 4 (pph_reserved h)) buf
      in buf)"

definition ColumnPagePayloadHeaderV1_read :: "bytes \<Rightarrow> ColumnPagePayloadHeaderV1" where
  "ColumnPagePayloadHeaderV1_read buf =
     \<lparr>pph_magic = slice 0 4 buf,
      pph_version_major = u16_at buf 4,
      pph_header_len = u16_at buf 6,
      pph_flags = u16_at buf 8,
      pph_root_node_id = u16_at buf 10,
      pph_node_count = u16_at buf 12,
      pph_buffer_count = u16_at buf 14,
      pph_row_count = u32_at buf 16,
      pph_nodes_offset = u32_at buf 20,
      pph_buffer_directory_offset = u32_at buf 24,
      pph_buffers_offset = u32_at buf 28,
      pph_reserved = u32_at buf 32\<rparr>"

lemma length_ColumnPagePayloadHeaderV1_serialize [simp]: "length (ColumnPagePayloadHeaderV1_serialize h) = 36"
  by (simp add: ColumnPagePayloadHeaderV1_serialize_def COLUMN_PAGE_PAYLOAD_HEADER_LEN_def Let_def)

lemma ColumnPagePayloadHeaderV1_serialize_fields:
  assumes "length (pph_magic h) = 4"
  shows
  "slice 0 4 (ColumnPagePayloadHeaderV1_serialize h) = pph_magic h"
  "u16_at (ColumnPagePayloadHeaderV1_serialize h) 4 = pph_version_major h"
  "u16_at (ColumnPagePayloadHeaderV1_serialize h) 6 = pph_header_len h"
  "u16_at (ColumnPagePayloadHeaderV1_serialize h) 8 = pph_flags h"
  "u16_at (ColumnPagePayloadHeaderV1_serialize h) 10 = pph_root_node_id h"
  "u16_at (ColumnPagePayloadHeaderV1_serialize h) 12 = pph_node_count h"
  "u16_at (ColumnPagePayloadHeaderV1_serialize h) 14 = pph_buffer_count h"
  "u32_at (ColumnPagePayloadHeaderV1_serialize h) 16 = pph_row_count h"
  "u32_at (ColumnPagePayloadHeaderV1_serialize h) 20 = pph_nodes_offset h"
  "u32_at (ColumnPagePayloadHeaderV1_serialize h) 24 = pph_buffer_directory_offset h"
  "u32_at (ColumnPagePayloadHeaderV1_serialize h) 28 = pph_buffers_offset h"
  "u32_at (ColumnPagePayloadHeaderV1_serialize h) 32 = pph_reserved h"
  using assms by (simp_all add: ColumnPagePayloadHeaderV1_serialize_def COLUMN_PAGE_PAYLOAD_HEADER_LEN_def Let_def wire_simps)

lemma ColumnPagePayloadHeaderV1_read_back:
  assumes "length (pph_magic h) = 4"
  shows
  "ColumnPagePayloadHeaderV1_read (ColumnPagePayloadHeaderV1_serialize h) = h"
  using ColumnPagePayloadHeaderV1_serialize_fields [OF assms(1)]
  by (cases h) (simp add: ColumnPagePayloadHeaderV1_read_def wire_simps)

definition ColumnPagePayloadHeaderV1_parse :: "bytes \<Rightarrow> ColumnPagePayloadHeaderV1 result" where
  "ColumnPagePayloadHeaderV1_parse bs =
     (if length bs < COLUMN_PAGE_PAYLOAD_HEADER_LEN then Err BufferTooShort
      else let buf = slice 0 COLUMN_PAGE_PAYLOAD_HEADER_LEN bs in
      if slice 0 4 buf \<noteq> COLUMN_PAGE_PAYLOAD_MAGIC then Err BadMagic
      else if u16_at buf 4 \<noteq> 1 then Err BadVersion
      else if unat (u16_at buf 6) \<noteq> COLUMN_PAGE_PAYLOAD_HEADER_LEN
      then Err (BadSection (''column page payload header_len must be '' @ show_nat COLUMN_PAGE_PAYLOAD_HEADER_LEN @ '', got '' @ show_nat (unat (u16_at buf 6))))
      else if u16_at buf 8 \<noteq> 0 then Err (BadSection ''column page payload flags are reserved and must be zero'')
      else if u32_at buf 32 \<noteq> 0 then Err ReservedNotZero
      else Ok (ColumnPagePayloadHeaderV1_read buf))"

definition payload_header_ok :: "ColumnPagePayloadHeaderV1 \<Rightarrow> bool" where
  "payload_header_ok h \<longleftrightarrow> pph_magic h = COLUMN_PAGE_PAYLOAD_MAGIC \<and> pph_version_major h = 1 \<and> pph_header_len h = 36
     \<and> pph_flags h = 0 \<and> pph_reserved h = 0"

lemma payload_header_back:
  assumes "payload_header_ok h"
  shows "ColumnPagePayloadHeaderV1_parse (ColumnPagePayloadHeaderV1_serialize h @ rest) = Ok h"
proof -
  have m: "length (pph_magic h) = 4" using assms by (simp add: payload_header_ok_def COLUMN_PAGE_PAYLOAD_MAGIC_def)
  show ?thesis
    using assms ColumnPagePayloadHeaderV1_serialize_fields [OF m] ColumnPagePayloadHeaderV1_read_back [OF m]
    by (simp add: ColumnPagePayloadHeaderV1_parse_def COLUMN_PAGE_PAYLOAD_HEADER_LEN_def Let_def wire_simps payload_header_ok_def)
qed

lemma payload_header_no_panic [simp]: "ColumnPagePayloadHeaderV1_parse bs \<noteq> Panic"
  by (simp add: ColumnPagePayloadHeaderV1_parse_def Let_def)

section \<open>Encoding nodes\<close>

definition COVE_ENCODING_NODE_LEN :: usize where "COVE_ENCODING_NODE_LEN = 30"

record CoveEncodingNodeV1 =
  en_node_id :: u16
  en_encoding_kind :: CoveEncodingKind
  en_logical_type :: CoveLogicalType
  en_physical_kind :: CovePhysicalKind
  en_flags :: u8
  en_logical_len :: u32
  en_child_count :: u16
  en_buffer_count :: u16
  en_params_offset :: u32
  en_params_length :: u32
  en_stats_id :: u32
  en_reserved :: u16

definition CoveEncodingNodeV1_serialize :: "CoveEncodingNodeV1 \<Rightarrow> bytes" where
  "CoveEncodingNodeV1_serialize h =
     (let buf = replicate COVE_ENCODING_NODE_LEN 0;
          buf = put 0 (le_bytes 2 (en_node_id h)) buf;
          buf = put 2 (le_bytes 2 (CoveEncodingKind_code (en_encoding_kind h))) buf;
          buf = put 4 (le_bytes 2 (CoveLogicalType_code (en_logical_type h))) buf;
          buf = put 6 [CovePhysicalKind_code (en_physical_kind h)] buf;
          buf = put 7 [en_flags h] buf;
          buf = put 8 (le_bytes 4 (en_logical_len h)) buf;
          buf = put 12 (le_bytes 2 (en_child_count h)) buf;
          buf = put 14 (le_bytes 2 (en_buffer_count h)) buf;
          buf = put 16 (le_bytes 4 (en_params_offset h)) buf;
          buf = put 20 (le_bytes 4 (en_params_length h)) buf;
          buf = put 24 (le_bytes 4 (en_stats_id h)) buf;
          buf = put 28 (le_bytes 2 (en_reserved h)) buf
      in buf)"

lemma length_CoveEncodingNodeV1_serialize [simp]: "length (CoveEncodingNodeV1_serialize h) = 30"
  by (simp add: CoveEncodingNodeV1_serialize_def COVE_ENCODING_NODE_LEN_def Let_def)

lemma CoveEncodingNodeV1_serialize_fields:
  "u16_at (CoveEncodingNodeV1_serialize h) 0 = en_node_id h"
  "u16_at (CoveEncodingNodeV1_serialize h) 2 = CoveEncodingKind_code (en_encoding_kind h)"
  "u16_at (CoveEncodingNodeV1_serialize h) 4 = CoveLogicalType_code (en_logical_type h)"
  "CoveEncodingNodeV1_serialize h ! 6 = CovePhysicalKind_code (en_physical_kind h)"
  "CoveEncodingNodeV1_serialize h ! 7 = en_flags h"
  "u32_at (CoveEncodingNodeV1_serialize h) 8 = en_logical_len h"
  "u16_at (CoveEncodingNodeV1_serialize h) 12 = en_child_count h"
  "u16_at (CoveEncodingNodeV1_serialize h) 14 = en_buffer_count h"
  "u32_at (CoveEncodingNodeV1_serialize h) 16 = en_params_offset h"
  "u32_at (CoveEncodingNodeV1_serialize h) 20 = en_params_length h"
  "u32_at (CoveEncodingNodeV1_serialize h) 24 = en_stats_id h"
  "u16_at (CoveEncodingNodeV1_serialize h) 28 = en_reserved h"
  by (simp_all add: CoveEncodingNodeV1_serialize_def COVE_ENCODING_NODE_LEN_def Let_def wire_simps)

definition CoveEncodingNodeV1_parse :: "bytes \<Rightarrow> CoveEncodingNodeV1 result" where
  "CoveEncodingNodeV1_parse bs =
     (if length bs < COVE_ENCODING_NODE_LEN then Err BufferTooShort
      else let buf = slice 0 COVE_ENCODING_NODE_LEN bs in
      and_then (ok_or (CoveEncodingKind_from_u16 (u16_at buf 2)) (UnsupportedEncoding (''unknown encoding kind '' @ show_nat (unat (u16_at buf 2))))) (\<lambda>encoding_kind.
      and_then (ok_or (CoveLogicalType_from_u16 (u16_at buf 4)) (BadSchema (''unknown logical type '' @ show_nat (unat (u16_at buf 4))))) (\<lambda>logical_type.
      and_then (ok_or (CovePhysicalKind_from_u8 (buf ! 6)) (BadSchema (''unknown physical kind '' @ show_nat (unat (buf ! 6))))) (\<lambda>physical_kind.
      if u16_at buf 28 \<noteq> 0 then Err ReservedNotZero
      else Ok \<lparr>en_node_id = u16_at buf 0, en_encoding_kind = encoding_kind, en_logical_type = logical_type, en_physical_kind = physical_kind,
        en_flags = buf ! 7, en_logical_len = u32_at buf 8, en_child_count = u16_at buf 12, en_buffer_count = u16_at buf 14,
        en_params_offset = u32_at buf 16, en_params_length = u32_at buf 20, en_stats_id = u32_at buf 24, en_reserved = u16_at buf 28\<rparr>))))"

lemma encoding_node_back:
  "en_reserved n = 0 \<Longrightarrow> CoveEncodingNodeV1_parse (CoveEncodingNodeV1_serialize n @ rest) = Ok n"
  using CoveEncodingNodeV1_serialize_fields [of n]
  by (cases n) (simp add: CoveEncodingNodeV1_parse_def COVE_ENCODING_NODE_LEN_def Let_def wire_simps coveEncodingKind.decode_code
      coveLogicalType.decode_code covePhysicalKind.decode_code)

lemma encoding_node_no_panic [simp]: "CoveEncodingNodeV1_parse bs \<noteq> Panic"
  by (auto simp: CoveEncodingNodeV1_parse_def Let_def and_then_eq_Panic ok_or_def split: option.splits)

section \<open>Buffer descriptors\<close>

definition PAGE_BUFFER_DESCRIPTOR_LEN :: usize where "PAGE_BUFFER_DESCRIPTOR_LEN = 32"

record PageBufferDescriptorV1 =
  pbd_buffer_id :: u16
  pbd_kind :: PageBufferKind
  pbd_flags :: u32
  pbd_offset :: u64
  pbd_length :: u64
  pbd_checksum :: u32
  pbd_reserved :: u32

definition PageBufferDescriptorV1_serialize :: "PageBufferDescriptorV1 \<Rightarrow> bytes" where
  "PageBufferDescriptorV1_serialize h =
     (let buf = replicate PAGE_BUFFER_DESCRIPTOR_LEN 0;
          buf = put 0 (le_bytes 2 (pbd_buffer_id h)) buf;
          buf = put 2 (le_bytes 2 (PageBufferKind_code (pbd_kind h))) buf;
          buf = put 4 (le_bytes 4 (pbd_flags h)) buf;
          buf = put 8 (le_bytes 8 (pbd_offset h)) buf;
          buf = put 16 (le_bytes 8 (pbd_length h)) buf;
          buf = put 24 (le_bytes 4 (pbd_checksum h)) buf;
          buf = put 28 (le_bytes 4 (pbd_reserved h)) buf
      in buf)"

lemma length_PageBufferDescriptorV1_serialize [simp]: "length (PageBufferDescriptorV1_serialize h) = 32"
  by (simp add: PageBufferDescriptorV1_serialize_def PAGE_BUFFER_DESCRIPTOR_LEN_def Let_def)

lemma PageBufferDescriptorV1_serialize_fields:
  "u16_at (PageBufferDescriptorV1_serialize h) 0 = pbd_buffer_id h"
  "u16_at (PageBufferDescriptorV1_serialize h) 2 = PageBufferKind_code (pbd_kind h)"
  "u32_at (PageBufferDescriptorV1_serialize h) 4 = pbd_flags h"
  "u64_at (PageBufferDescriptorV1_serialize h) 8 = pbd_offset h"
  "u64_at (PageBufferDescriptorV1_serialize h) 16 = pbd_length h"
  "u32_at (PageBufferDescriptorV1_serialize h) 24 = pbd_checksum h"
  "u32_at (PageBufferDescriptorV1_serialize h) 28 = pbd_reserved h"
  by (simp_all add: PageBufferDescriptorV1_serialize_def PAGE_BUFFER_DESCRIPTOR_LEN_def Let_def wire_simps)

definition PageBufferDescriptorV1_parse :: "bytes \<Rightarrow> PageBufferDescriptorV1 result" where
  "PageBufferDescriptorV1_parse bs =
     (if length bs < PAGE_BUFFER_DESCRIPTOR_LEN then Err BufferTooShort
      else let buf = slice 0 PAGE_BUFFER_DESCRIPTOR_LEN bs in
      and_then (ok_or (PageBufferKind_from_u16 (u16_at buf 2)) (BadSection (''unknown page buffer kind '' @ show_nat (unat (u16_at buf 2))))) (\<lambda>kind.
      if u32_at buf 4 \<noteq> 0 then Err (BadSection ''page buffer flags are reserved and must be zero'')
      else if u32_at buf 28 \<noteq> 0 then Err ReservedNotZero
      else Ok \<lparr>pbd_buffer_id = u16_at buf 0, pbd_kind = kind, pbd_flags = u32_at buf 4, pbd_offset = u64_at buf 8,
        pbd_length = u64_at buf 16, pbd_checksum = u32_at buf 24, pbd_reserved = u32_at buf 28\<rparr>))"

lemma buffer_descriptor_back:
  "pbd_flags d = 0 \<Longrightarrow> pbd_reserved d = 0 \<Longrightarrow> PageBufferDescriptorV1_parse (PageBufferDescriptorV1_serialize d @ rest) = Ok d"
  using PageBufferDescriptorV1_serialize_fields [of d]
  by (cases d) (simp add: PageBufferDescriptorV1_parse_def PAGE_BUFFER_DESCRIPTOR_LEN_def Let_def wire_simps pageBufferKind.decode_code)

lemma buffer_descriptor_no_panic [simp]: "PageBufferDescriptorV1_parse bs \<noteq> Panic"
  by (auto simp: PageBufferDescriptorV1_parse_def Let_def and_then_eq_Panic ok_or_def split: option.splits)

section \<open>Payloads\<close>

record ColumnPagePayloadV1 =
  cpp_header :: ColumnPagePayloadHeaderV1
  cpp_nodes :: "CoveEncodingNodeV1 list"
  cpp_buffers :: "PageBufferDescriptorV1 list"
  cpp_data :: bytes

text \<open>The only node with the identifier, as \<open>roots.next()\<close> twice.\<close>

definition unique_node :: "u16 \<Rightarrow> CoveEncodingNodeV1 list \<Rightarrow> CoveEncodingNodeV1 result" where
  "unique_node root nodes = (case filter (\<lambda>n. en_node_id n = root) nodes of [n] \<Rightarrow> Ok n | _ \<Rightarrow> Err PageCorrupt)"

fun parse_descriptors ::
  "(bytes \<Rightarrow> u32) \<Rightarrow> BufferChecksumValidation \<Rightarrow> bytes \<Rightarrow> nat \<Rightarrow> nat \<Rightarrow> nat \<Rightarrow> usize \<Rightarrow> nat \<Rightarrow> (PageBufferDescriptorV1 list \<times> nat) result" where
  "parse_descriptors crc validation bs buffers_offset expected_id 0 pos previous_end = Ok ([], previous_end)"
| "parse_descriptors crc validation bs buffers_offset expected_id (Suc n) pos previous_end =
     and_then (PageBufferDescriptorV1_parse (slice pos PAGE_BUFFER_DESCRIPTOR_LEN bs)) (\<lambda>d.
     if unat (pbd_buffer_id d) \<noteq> expected_id then Err PageCorrupt
     else if unat (pbd_offset d) < buffers_offset \<or> unat (pbd_offset d) < previous_end then Err PageCorrupt
     else and_then (checked_add (unat (pbd_offset d)) (unat (pbd_length d))) (\<lambda>end'.
     if end' > length bs then Err OffsetRange
     else if validation = Verify_Buffers \<and> crc (slice (unat (pbd_offset d)) (end' - unat (pbd_offset d)) bs) \<noteq> pbd_checksum d
     then Err ChecksumMismatch
     else and_then (parse_descriptors crc validation bs buffers_offset (Suc expected_id) n (pos + PAGE_BUFFER_DESCRIPTOR_LEN) end') (\<lambda>(ds, e).
       Ok (d # ds, e))))"

definition parse_column_page_payload_parts ::
  "(bytes \<Rightarrow> u32) \<Rightarrow> bytes \<Rightarrow> BufferChecksumValidation \<Rightarrow> (ColumnPagePayloadHeaderV1 \<times> CoveEncodingNodeV1 list \<times> PageBufferDescriptorV1 list) result" where
  "parse_column_page_payload_parts crc bs validation =
     and_then (ColumnPagePayloadHeaderV1_parse bs) (\<lambda>header.
     let nodes_offset = unat (pph_nodes_offset header); buffer_directory_offset = unat (pph_buffer_directory_offset header);
         buffers_offset = unat (pph_buffers_offset header) in
     if nodes_offset \<noteq> COLUMN_PAGE_PAYLOAD_HEADER_LEN \<or> buffer_directory_offset < nodes_offset
       \<or> buffers_offset < buffer_directory_offset \<or> buffers_offset > length bs then Err PageCorrupt
     else and_then (checked_mul (unat (pph_node_count header)) COVE_ENCODING_NODE_LEN) (\<lambda>node_region_len.
     and_then (checked_add nodes_offset node_region_len) (\<lambda>expected_buffer_directory_offset.
     if buffer_directory_offset \<noteq> expected_buffer_directory_offset then Err PageCorrupt
     else and_then (checked_mul (unat (pph_buffer_count header)) PAGE_BUFFER_DESCRIPTOR_LEN) (\<lambda>buffer_region_len.
     and_then (checked_add buffer_directory_offset buffer_region_len) (\<lambda>expected_buffers_offset.
     if buffers_offset \<noteq> expected_buffers_offset then Err PageCorrupt
     else if pph_node_count header = 0 then Err PageCorrupt
     else and_then (collect_map CoveEncodingNodeV1_parse (chunks_at nodes_offset COVE_ENCODING_NODE_LEN (unat (pph_node_count header)) bs)) (\<lambda>nodes.
     if \<not> distinct (map en_node_id nodes) then Err PageCorrupt
     else and_then (unique_node (pph_root_node_id header) nodes) (\<lambda>root.
     if en_logical_len root \<noteq> pph_row_count header then Err PageCorrupt
     else and_then (parse_descriptors crc validation bs buffers_offset 0 (unat (pph_buffer_count header)) buffer_directory_offset buffers_offset)
       (\<lambda>(buffers, previous_end).
     if previous_end \<noteq> length bs then Err PageCorrupt
     else Ok (header, nodes, buffers)))))))))"

definition ColumnPagePayloadV1_parse_with :: "(bytes \<Rightarrow> u32) \<Rightarrow> bytes \<Rightarrow> BufferChecksumValidation \<Rightarrow> ColumnPagePayloadV1 result" where
  "ColumnPagePayloadV1_parse_with crc bs validation =
     and_then (parse_column_page_payload_parts crc bs validation) (\<lambda>(header, nodes, buffers).
     Ok \<lparr>cpp_header = header, cpp_nodes = nodes, cpp_buffers = buffers, cpp_data = bs\<rparr>)"

definition ColumnPagePayloadV1_parse :: "(bytes \<Rightarrow> u32) \<Rightarrow> bytes \<Rightarrow> ColumnPagePayloadV1 result" where
  "ColumnPagePayloadV1_parse crc bs = ColumnPagePayloadV1_parse_with crc bs Verify_Buffers"

definition root_node :: "ColumnPagePayloadV1 \<Rightarrow> CoveEncodingNodeV1 result" where
  "root_node p = unique_node (pph_root_node_id (cpp_header p)) (cpp_nodes p)"

text \<open>The slice is not checked against the data here; the parser has checked it.\<close>

definition buffer_bytes :: "ColumnPagePayloadV1 \<Rightarrow> PageBufferKind \<Rightarrow> bytes option result" where
  "buffer_bytes p kind = (case find (\<lambda>d. pbd_kind d = kind) (cpp_buffers p) of
       None \<Rightarrow> Ok None
     | Some d \<Rightarrow> and_then (checked_add (unat (pbd_offset d)) (unat (pbd_length d))) (\<lambda>end'.
         if end' > length (cpp_data p) then Panic
         else Ok (Some (slice (unat (pbd_offset d)) (end' - unat (pbd_offset d)) (cpp_data p)))))"

definition buffer_descriptor_bytes :: "bytes \<Rightarrow> PageBufferDescriptorV1 \<Rightarrow> bytes result" where
  "buffer_descriptor_bytes data d =
     and_then (checked_add (unat (pbd_offset d)) (unat (pbd_length d))) (\<lambda>end'.
     if end' > length data then Err OffsetRange
     else Ok (slice (unat (pbd_offset d)) (end' - unat (pbd_offset d)) data))"

section \<open>The encoding tree\<close>

datatype page_tree = Page_Tree (pt_node: CoveEncodingNodeV1) (pt_buffers: "PageBufferDescriptorV1 list") (pt_children: "page_tree list")

text \<open>
  The positions in the two lists are threaded through the recursion. The fuel bounds the depth; one above the
  number of nodes is enough, and running out is a panic.
\<close>

fun parse_payload_subtree ::
  "nat \<Rightarrow> CoveEncodingNodeV1 list \<Rightarrow> PageBufferDescriptorV1 list \<Rightarrow> usize \<Rightarrow> usize \<Rightarrow> (page_tree \<times> usize \<times> usize) result"
and parse_payload_children ::
  "nat \<Rightarrow> nat \<Rightarrow> CoveEncodingNodeV1 list \<Rightarrow> PageBufferDescriptorV1 list \<Rightarrow> usize \<Rightarrow> usize \<Rightarrow> (page_tree list \<times> usize \<times> usize) result" where
  "parse_payload_subtree 0 nodes buffers node_pos buffer_pos = Panic"
| "parse_payload_subtree (Suc fuel) nodes buffers node_pos buffer_pos =
     (if node_pos \<ge> length nodes then Err PageCorrupt
      else let node = nodes ! node_pos in
      and_then (checked_add node_pos 1) (\<lambda>node_pos.
      and_then (checked_add buffer_pos (unat (en_buffer_count node))) (\<lambda>buffer_end.
      if buffer_end > length buffers then Err PageCorrupt
      else and_then (parse_payload_children fuel (unat (en_child_count node)) nodes buffers node_pos buffer_end) (\<lambda>(children, node_pos, buffer_pos').
        Ok (Page_Tree node (slice buffer_pos (buffer_end - buffer_pos) buffers) children, node_pos, buffer_pos')))))"
| "parse_payload_children fuel 0 nodes buffers node_pos buffer_pos = Ok ([], node_pos, buffer_pos)"
| "parse_payload_children fuel (Suc k) nodes buffers node_pos buffer_pos =
     and_then (parse_payload_subtree fuel nodes buffers node_pos buffer_pos) (\<lambda>(t, node_pos, buffer_pos).
     and_then (parse_payload_children fuel k nodes buffers node_pos buffer_pos) (\<lambda>(ts, node_pos, buffer_pos).
     Ok (t # ts, node_pos, buffer_pos)))"

definition payload_tree :: "CoveEncodingNodeV1 list \<Rightarrow> PageBufferDescriptorV1 list \<Rightarrow> u16 \<Rightarrow> page_tree result" where
  "payload_tree nodes buffers root_node_id =
     (if nodes = [] \<or> en_node_id (nodes ! 0) \<noteq> root_node_id then Err PageCorrupt
      else and_then (parse_payload_subtree (Suc (length nodes)) nodes buffers 0 0) (\<lambda>(root, node_pos, buffer_pos).
      if node_pos \<noteq> length nodes \<or> buffer_pos \<noteq> length buffers then Err PageCorrupt
      else Ok root))"

definition ColumnPagePayloadV1_tree :: "ColumnPagePayloadV1 \<Rightarrow> page_tree result" where
  "ColumnPagePayloadV1_tree p = payload_tree (cpp_nodes p) (cpp_buffers p) (pph_root_node_id (cpp_header p))"

definition buffer_of_kind :: "page_tree \<Rightarrow> PageBufferKind \<Rightarrow> PageBufferDescriptorV1 option result" where
  "buffer_of_kind t kind = (case filter (\<lambda>d. pbd_kind d = kind) (pt_buffers t) of
       [] \<Rightarrow> Ok None | [d] \<Rightarrow> Ok (Some d) | _ \<Rightarrow> Err PageCorrupt)"

text \<open>The listing a writer emits, and the counts it records.\<close>

primrec preorder_nodes :: "page_tree \<Rightarrow> CoveEncodingNodeV1 list" where
  "preorder_nodes (Page_Tree n bs ts) = n # concat (map preorder_nodes ts)"

primrec preorder_buffers :: "page_tree \<Rightarrow> PageBufferDescriptorV1 list" where
  "preorder_buffers (Page_Tree n bs ts) = bs @ concat (map preorder_buffers ts)"

primrec counts_match :: "page_tree \<Rightarrow> bool" where
  "counts_match (Page_Tree n bs ts) \<longleftrightarrow> unat (en_child_count n) = length ts \<and> unat (en_buffer_count n) = length bs
     \<and> list_all (\<lambda>c. c) (map counts_match ts)"

lemma preorder_nonempty: "0 < length (preorder_nodes t)"
  by (cases t) simp

lemma slice_nth_Cons: "drop p xs = ys @ zs \<Longrightarrow> length ys = n \<Longrightarrow> slice p n xs = ys"
  by (simp add: slice_def)

text \<open>\<open>xs[a..b]\<close> is \<open>ys\<close>.\<close>

definition listed :: "'a list \<Rightarrow> nat \<Rightarrow> nat \<Rightarrow> 'a list \<Rightarrow> bool" where
  "listed xs a b ys \<longleftrightarrow> a \<le> b \<and> b \<le> length xs \<and> slice a (b - a) xs = ys"

lemma listed_append: "listed xs a b ys \<Longrightarrow> listed xs b c zs \<Longrightarrow> listed xs a c (ys @ zs)"
  using slice_split [of a "b - a" "c - b" xs] by (simp add: listed_def)

lemma listed_Nil [simp]: "listed xs a b [] \<longleftrightarrow> a = b \<and> b \<le> length xs"
  by (auto simp: listed_def slice_def)

lemma listed_one: "listed xs a (Suc a) [x] \<longleftrightarrow> a < length xs \<and> x = xs ! a"
  by (auto simp: listed_def slice_def take_Suc_conv_app_nth Cons_nth_drop_Suc [symmetric])

lemma listed_bounds: "listed xs a b ys \<Longrightarrow> a \<le> b \<and> b \<le> length xs"
  by (simp add: listed_def)

lemma listed_slice: "a + n \<le> length xs \<Longrightarrow> listed xs a (a + n) (slice a n xs)"
  by (simp add: listed_def)

lemma listed_split: "listed xs a c (ys @ zs) \<Longrightarrow> listed xs a (a + length ys) ys \<and> listed xs (a + length ys) c zs"
proof -
  assume l: "listed xs a c (ys @ zs)"
  then have c: "c = a + length ys + length zs" by (auto simp: listed_def dest: arg_cong [where f = length])
  have "slice a (length ys) xs @ slice (a + length ys) (length zs) xs = ys @ zs"
    using l c slice_split [of a "length ys" "length zs" xs] by (simp add: listed_def)
  moreover have "a + length ys + length zs \<le> length xs" using l c by (simp add: listed_def)
  then have "length ys \<le> length xs - a" by arith
  then have "length (slice a (length ys) xs) = length ys" by simp
  ultimately have "slice a (length ys) xs = ys \<and> slice (a + length ys) (length zs) xs = zs" by simp
  then show ?thesis using l c by (simp add: listed_def)
qed

lemma listed_length: "listed xs a b ys \<Longrightarrow> b = a + length ys"
  by (auto simp: listed_def dest: arg_cong [where f = length])

lemma listed_whole: "listed xs 0 (length xs) ys \<longleftrightarrow> ys = xs"
  by (auto simp: listed_def)

text \<open>What the parser has read is the listing of the tree it returns.\<close>

lemma children_Ok:
  assumes sub: "\<forall>np bp t np' bp'. parse_payload_subtree f nodes buffers np bp = Ok (t, np', bp') \<longrightarrow> bp \<le> length buffers \<longrightarrow>
     counts_match t \<and> listed nodes np np' (preorder_nodes t) \<and> listed buffers bp bp' (preorder_buffers t)"
  shows "parse_payload_children f k nodes buffers np bp = Ok (ts, np', bp') \<Longrightarrow> np \<le> length nodes \<Longrightarrow> bp \<le> length buffers \<Longrightarrow>
     length ts = k \<and> list_all counts_match ts \<and> listed nodes np np' (concat (map preorder_nodes ts))
     \<and> listed buffers bp bp' (concat (map preorder_buffers ts))"
proof (induction k arbitrary: np bp ts)
  case (Suc k)
  obtain t np1 bp1 ts' where s: "parse_payload_subtree f nodes buffers np bp = Ok (t, np1, bp1)"
    and c: "parse_payload_children f k nodes buffers np1 bp1 = Ok (ts', np', bp')" and ts: "ts = t # ts'"
    using Suc.prems(1) by (auto simp: result_simps)
  have S: "counts_match t" "listed nodes np np1 (preorder_nodes t)" "listed buffers bp bp1 (preorder_buffers t)"
    using sub s Suc.prems(3) by blast+
  have C: "length ts' = k" "list_all counts_match ts'" "listed nodes np1 np' (concat (map preorder_nodes ts'))"
      "listed buffers bp1 bp' (concat (map preorder_buffers ts'))"
    using Suc.IH [OF c] listed_bounds [OF S(2)] listed_bounds [OF S(3)] by blast+
  show ?case using S(1) C(1,2) listed_append [OF S(2) C(3)] listed_append [OF S(3) C(4)] by (simp add: ts)
qed auto

lemma subtree_Ok:
  "parse_payload_subtree f nodes buffers np bp = Ok (t, np', bp') \<Longrightarrow> bp \<le> length buffers \<Longrightarrow>
     counts_match t \<and> listed nodes np np' (preorder_nodes t) \<and> listed buffers bp bp' (preorder_buffers t)"
proof (induction f arbitrary: np bp t np' bp')
  case (Suc f)
  let ?n = "nodes ! np" and ?be = "bp + unat (en_buffer_count (nodes ! np))"
  obtain ts where np: "np < length nodes" and be: "?be \<le> length buffers"
    and c: "parse_payload_children f (unat (en_child_count ?n)) nodes buffers (np + 1) ?be = Ok (ts, np', bp')"
    and t: "t = Page_Tree ?n (slice bp (?be - bp) buffers) ts"
    using Suc.prems(1) by (auto simp: result_simps Let_def not_le split: if_splits)
  have C: "length ts = unat (en_child_count ?n)" "list_all counts_match ts" "listed nodes (Suc np) np' (concat (map preorder_nodes ts))"
      "listed buffers ?be bp' (concat (map preorder_buffers ts))"
    using children_Ok [OF _ c] Suc.IH np be by auto
  have "listed nodes np (Suc np) [?n]" using np by (simp add: listed_one)
  then have "listed nodes np np' (preorder_nodes t)" using listed_append [OF _ C(3)] by (fastforce simp: t)
  moreover have "listed buffers bp bp' (preorder_buffers t)"
    using listed_append [OF listed_slice [OF be] C(4)] by (simp add: t)
  moreover have "counts_match t" using C(1,2) be by (simp add: t list.pred_map comp_def)
  ultimately show ?case by blast
qed simp

text \<open>A tree with matching counts is found again at the place where it is listed.\<close>

lemma children_complete:
  assumes "\<forall>t \<in> set ts. \<forall>np bp np' bp'. listed nodes np np' (preorder_nodes t) \<longrightarrow> listed buffers bp bp' (preorder_buffers t) \<longrightarrow>
     length (preorder_nodes t) \<le> f \<longrightarrow> parse_payload_subtree f nodes buffers np bp = Ok (t, np', bp')"
  shows "listed nodes np np' (concat (map preorder_nodes ts)) \<Longrightarrow> listed buffers bp bp' (concat (map preorder_buffers ts)) \<Longrightarrow>
     length (concat (map preorder_nodes ts)) \<le> f \<Longrightarrow>
     parse_payload_children f (length ts) nodes buffers np bp = Ok (ts, np', bp')"
  using assms
proof (induction ts arbitrary: np bp)
  case (Cons t ts)
  let ?np = "np + length (preorder_nodes t)" and ?bp = "bp + length (preorder_buffers t)"
  have n: "listed nodes np ?np (preorder_nodes t)" "listed nodes ?np np' (concat (map preorder_nodes ts))"
    using listed_split [of nodes np np' "preorder_nodes t"] Cons.prems(1) by auto
  have b: "listed buffers bp ?bp (preorder_buffers t)" "listed buffers ?bp bp' (concat (map preorder_buffers ts))"
    using listed_split [of buffers bp bp' "preorder_buffers t"] Cons.prems(2) by auto
  have "parse_payload_subtree f nodes buffers np bp = Ok (t, ?np, ?bp)"
    using Cons.prems(3,4) n(1) b(1) by simp
  moreover have "parse_payload_children f (length ts) nodes buffers ?np ?bp = Ok (ts, np', bp')"
    using Cons.prems(3,4) n(2) b(2) by (intro Cons.IH) auto
  ultimately show ?case by simp
qed simp

lemma subtree_complete:
  assumes "length nodes < usize_bound" "length buffers < usize_bound"
  shows "counts_match t \<Longrightarrow> listed nodes np np' (preorder_nodes t) \<Longrightarrow> listed buffers bp bp' (preorder_buffers t) \<Longrightarrow>
     length (preorder_nodes t) \<le> f \<Longrightarrow> parse_payload_subtree f nodes buffers np bp = Ok (t, np', bp')"
proof (induction t arbitrary: np bp np' bp' f)
  case (Page_Tree n bs ts)
  obtain g where f: "f = Suc g" "length (concat (map preorder_nodes ts)) \<le> g" using Page_Tree.prems(4) by (cases f) auto
  have n: "listed nodes np (Suc np) [n]" "listed nodes (Suc np) np' (concat (map preorder_nodes ts))"
    using listed_split [of nodes np np' "[n]"] Page_Tree.prems(2) by auto
  have b: "listed buffers bp (bp + length bs) bs" "listed buffers (bp + length bs) bp' (concat (map preorder_buffers ts))"
    using listed_split [of buffers bp bp' bs] Page_Tree.prems(3) by auto
  have m: "unat (en_child_count n) = length ts" "unat (en_buffer_count n) = length bs" "list_all counts_match ts"
    using Page_Tree.prems(1) by (simp_all add: list.pred_map comp_def)
  have "parse_payload_children g (length ts) nodes buffers (Suc np) (bp + length bs) = Ok (ts, np', bp')"
    using Page_Tree.IH m(3) by (intro children_complete [OF _ n(2) b(2) f(2)]) (auto simp: list_all_iff)
  moreover have "np < length nodes" "nodes ! np = n" using n(1) by (simp_all add: listed_one)
  moreover have "bp + length bs \<le> length buffers" "slice bp (length bs) buffers = bs" using b(1) by (simp_all add: listed_def)
  ultimately show ?case using assms m(1,2) by (simp add: f(1) checked_add_def)
qed

lemma subtree_no_panic:
  "length nodes < f + np \<Longrightarrow> np \<le> length nodes \<Longrightarrow> bp \<le> length buffers \<Longrightarrow> parse_payload_subtree f nodes buffers np bp \<noteq> Panic"
proof (induction f arbitrary: np bp)
  case (Suc f)
  have children: "parse_payload_children f k nodes buffers np' bp' \<noteq> Panic" if "length nodes < f + np'" "np' \<le> length nodes" "bp' \<le> length buffers" for k np' bp'
    using that
  proof (induction k arbitrary: np' bp')
    case (Suc k)
    have "length nodes < f + np2 \<and> np2 \<le> length nodes \<and> bp2 \<le> length buffers"
      if "parse_payload_subtree f nodes buffers np' bp' = Ok (t, np2, bp2)" for t np2 bp2
      using subtree_Ok [OF that] Suc.prems listed_bounds by (metis add.commute le_trans less_le_trans nat_add_left_cancel_le)
    then show ?case using Suc.IH Suc.prems \<open>\<And>np bp. length nodes < f + np \<Longrightarrow> np \<le> length nodes \<Longrightarrow> bp \<le> length buffers \<Longrightarrow> parse_payload_subtree f nodes buffers np bp \<noteq> Panic\<close>
      by (auto simp: and_then_eq_Panic)
  qed simp
  show ?case using Suc.prems children by (auto simp: and_then_eq_Panic Let_def result_simps not_le)
qed simp

lemma page_tree_exact_parts:
  assumes "length nodes < usize_bound" "length buffers < usize_bound"
  shows "payload_tree nodes buffers root \<noteq> Panic"
    and "payload_tree nodes buffers root = Ok t \<longleftrightarrow>
      counts_match t \<and> preorder_nodes t = nodes \<and> preorder_buffers t = buffers \<and> en_node_id (pt_node t) = root"
proof -
  show "payload_tree nodes buffers root \<noteq> Panic"
    using subtree_no_panic [of nodes "Suc (length nodes)" 0 0 buffers] by (auto simp: payload_tree_def and_then_eq_Panic)
  have head: "en_node_id (pt_node t) = en_node_id (preorder_nodes t ! 0)" "preorder_nodes t \<noteq> []" by (cases t; simp)+
  show "payload_tree nodes buffers root = Ok t \<longleftrightarrow>
      counts_match t \<and> preorder_nodes t = nodes \<and> preorder_buffers t = buffers \<and> en_node_id (pt_node t) = root"
  proof
    assume "payload_tree nodes buffers root = Ok t"
    then have p: "parse_payload_subtree (Suc (length nodes)) nodes buffers 0 0 = Ok (t, length nodes, length buffers)"
        "en_node_id (nodes ! 0) = root"
      by (auto simp: payload_tree_def result_simps split: if_splits)
    show "counts_match t \<and> preorder_nodes t = nodes \<and> preorder_buffers t = buffers \<and> en_node_id (pt_node t) = root"
      using subtree_Ok [OF p(1)] p(2) head by (auto simp: listed_whole)
  next
    assume a: "counts_match t \<and> preorder_nodes t = nodes \<and> preorder_buffers t = buffers \<and> en_node_id (pt_node t) = root"
    then have "parse_payload_subtree (Suc (length nodes)) nodes buffers 0 0 = Ok (t, length nodes, length buffers)"
      using subtree_complete [OF assms, of t 0 "length nodes" 0 "length buffers" "Suc (length nodes)"] by (auto simp: listed_whole)
    then show "payload_tree nodes buffers root = Ok t" using a head by (auto simp: payload_tree_def simp del: parse_payload_subtree.simps)
  qed
qed

text \<open>C17: the tree parser returns on every input and accepts exactly the preorder listings: a tree is returned exactly when its
  nodes and buffers, listed in preorder, are the ones of the page, the recorded counts match and the root comes first.\<close>

theorem page_tree_exact:
  assumes "length nodes < usize_bound" "length buffers < usize_bound"
  shows "payload_tree nodes buffers root \<noteq> Panic
    \<and> (payload_tree nodes buffers root = Ok t \<longleftrightarrow>
      counts_match t \<and> preorder_nodes t = nodes \<and> preorder_buffers t = buffers \<and> en_node_id (pt_node t) = root)"
  using page_tree_exact_parts [OF assms] by simp

definition small_tree :: page_tree where
  "small_tree =
     (let leaf = \<lambda>i. \<lparr>en_node_id = i, en_encoding_kind = EK_PlainFixed, en_logical_type = LT_Int64, en_physical_kind = PK_NumCode, en_flags = 0,
        en_logical_len = 2, en_child_count = 0, en_buffer_count = 1, en_params_offset = 0, en_params_length = 0, en_stats_id = 0,
        en_reserved = 0\<rparr>;
      buffer = \<lambda>i. \<lparr>pbd_buffer_id = i, pbd_kind = Buffer_Values, pbd_flags = 0, pbd_offset = 190, pbd_length = 0, pbd_checksum = 0,
        pbd_reserved = 0\<rparr>
      in Page_Tree ((leaf 0)\<lparr>en_child_count := 2, en_buffer_count := 0\<rparr>) []
        [Page_Tree (leaf 1) [buffer 0] [], Page_Tree (leaf 2) [buffer 1] []])"

theorem page_tree_exact_witness:
  "payload_tree (preorder_nodes small_tree) (preorder_buffers small_tree) 0 = Ok small_tree \<and> length (preorder_nodes small_tree) = 3"
proof -
  have s: "counts_match small_tree" "length (preorder_nodes small_tree) = 3" "length (preorder_buffers small_tree) = 2"
      "en_node_id (pt_node small_tree) = 0"
    by (simp_all add: small_tree_def Let_def)
  show "payload_tree (preorder_nodes small_tree) (preorder_buffers small_tree) 0 = Ok small_tree \<and> length (preorder_nodes small_tree) = 3"
    using page_tree_exact [of "preorder_nodes small_tree" "preorder_buffers small_tree" 0 small_tree] s
    by simp
qed

section \<open>Building payloads\<close>

definition push_buffer ::
  "(bytes \<Rightarrow> u32) \<Rightarrow> u32 \<Rightarrow> PageBufferKind \<Rightarrow> bytes \<Rightarrow> PageBufferDescriptorV1 list \<times> bytes \<Rightarrow> PageBufferDescriptorV1 list \<times> bytes" where
  "push_buffer crc buffers_offset kind bs s =
     (let (descriptors, data_bytes) = s in
      (descriptors @ [\<lparr>pbd_buffer_id = of_nat (length descriptors), pbd_kind = kind, pbd_flags = 0,
         pbd_offset = of_nat (unat buffers_offset + length data_bytes), pbd_length = of_nat (length bs), pbd_checksum = crc bs,
         pbd_reserved = 0\<rparr>],
       data_bytes @ bs))"

definition write_payload ::
  "ColumnPagePayloadHeaderV1 \<Rightarrow> CoveEncodingNodeV1 list \<Rightarrow> PageBufferDescriptorV1 list \<Rightarrow> bytes \<Rightarrow> bytes" where
  "write_payload header nodes descriptors data_bytes =
     ColumnPagePayloadHeaderV1_serialize header @ concat (map CoveEncodingNodeV1_serialize nodes)
     @ concat (map PageBufferDescriptorV1_serialize descriptors) @ data_bytes"

definition payload_header :: "u16 \<Rightarrow> u16 \<Rightarrow> u16 \<Rightarrow> u32 \<Rightarrow> u32 \<Rightarrow> u32 \<Rightarrow> ColumnPagePayloadHeaderV1" where
  "payload_header root_node_id node_count buffer_count row_count buffer_directory_offset buffers_offset =
     \<lparr>pph_magic = COLUMN_PAGE_PAYLOAD_MAGIC, pph_version_major = 1, pph_header_len = of_nat COLUMN_PAGE_PAYLOAD_HEADER_LEN, pph_flags = 0,
      pph_root_node_id = root_node_id, pph_node_count = node_count, pph_buffer_count = buffer_count, pph_row_count = row_count,
      pph_nodes_offset = of_nat COLUMN_PAGE_PAYLOAD_HEADER_LEN, pph_buffer_directory_offset = buffer_directory_offset,
      pph_buffers_offset = buffers_offset, pph_reserved = 0\<rparr>"

definition build_single_node ::
  "(bytes \<Rightarrow> u32) \<Rightarrow> u32 \<Rightarrow> CoveEncodingKind \<Rightarrow> CoveLogicalType \<Rightarrow> CovePhysicalKind \<Rightarrow> bytes option \<Rightarrow> bytes \<Rightarrow> bytes result" where
  "build_single_node crc row_count encoding_kind logical_type physical_kind null_bitmap vals =
     (let buffer_count = (if null_bitmap \<noteq> None then 1 else 0) + (if vals \<noteq> [] then 1 else 0);
          nodes_offset = of_nat COLUMN_PAGE_PAYLOAD_HEADER_LEN in
      and_then (checked_add_u32 nodes_offset (of_nat COVE_ENCODING_NODE_LEN)) (\<lambda>buffer_directory_offset.
      and_then (checked_add_u32 buffer_directory_offset (ucast buffer_count * of_nat PAGE_BUFFER_DESCRIPTOR_LEN)) (\<lambda>buffers_offset.
      let header = payload_header 0 1 buffer_count row_count buffer_directory_offset buffers_offset;
          node = \<lparr>en_node_id = 0, en_encoding_kind = encoding_kind, en_logical_type = logical_type, en_physical_kind = physical_kind,
            en_flags = 0, en_logical_len = row_count, en_child_count = 0, en_buffer_count = buffer_count, en_params_offset = 0,
            en_params_length = 0, en_stats_id = 0, en_reserved = 0\<rparr>;
          s = ([], []);
          s = (case null_bitmap of Some bs \<Rightarrow> push_buffer crc buffers_offset Buffer_NullBitmap bs s | None \<Rightarrow> s);
          s = (if vals \<noteq> [] then push_buffer crc buffers_offset Buffer_Values vals s else s);
          out = write_payload header [node] (fst s) (snd s) in
      and_then (ColumnPagePayloadV1_parse crc out) (\<lambda>_. Ok out))))"

definition build_tree ::
  "(bytes \<Rightarrow> u32) \<Rightarrow> u32 \<Rightarrow> u16 \<Rightarrow> CoveEncodingNodeV1 list \<Rightarrow> (PageBufferKind \<times> bytes) list \<Rightarrow> bytes result" where
  "build_tree crc row_count root_node_id nodes buffers =
     (if nodes = [] then Err PageCorrupt
      else if length nodes \<ge> 2 ^ 16 then Err ArithOverflow
      else if length buffers \<ge> 2 ^ 16 then Err ArithOverflow
      else let nodes_offset = of_nat COLUMN_PAGE_PAYLOAD_HEADER_LEN in
      and_then (checked_mul_u32 (of_nat (length nodes)) COVE_ENCODING_NODE_LEN) (\<lambda>node_region_len.
      and_then (checked_add_u32 nodes_offset node_region_len) (\<lambda>buffer_directory_offset.
      and_then (checked_mul_u32 (of_nat (length buffers)) PAGE_BUFFER_DESCRIPTOR_LEN) (\<lambda>buffer_region_len.
      and_then (checked_add_u32 buffer_directory_offset buffer_region_len) (\<lambda>buffers_offset.
      let header = payload_header root_node_id (of_nat (length nodes)) (of_nat (length buffers)) row_count buffer_directory_offset buffers_offset;
          s = foldl (\<lambda>s (kind, bs). push_buffer crc buffers_offset kind bs s) ([], []) buffers;
          out = write_payload header nodes (fst s) (snd s) in
      and_then (ColumnPagePayloadV1_parse crc out) (\<lambda>parsed.
      and_then (ColumnPagePayloadV1_tree parsed) (\<lambda>_. Ok out)))))))"

text \<open>\<open>serialize\<close> copies every buffer to its place in the directory's order, and parses what it wrote.\<close>

definition ColumnPagePayloadV1_serialize :: "(bytes \<Rightarrow> u32) \<Rightarrow> ColumnPagePayloadV1 \<Rightarrow> bytes result" where
  "ColumnPagePayloadV1_serialize crc p =
     (if cpp_nodes p = [] then Err PageCorrupt
      else and_then (collect_map (buffer_descriptor_bytes (cpp_data p)) (cpp_buffers p)) (\<lambda>datas.
      let out = write_payload (cpp_header p) (cpp_nodes p) (cpp_buffers p) (concat datas) in
      and_then (ColumnPagePayloadV1_parse crc out) (\<lambda>parsed. Ok (cpp_data parsed))))"

text \<open>The directory of a list of buffers laid out from position \<open>p\<close>.\<close>

fun descriptors_from :: "(bytes \<Rightarrow> u32) \<Rightarrow> nat \<Rightarrow> nat \<Rightarrow> (PageBufferKind \<times> bytes) list \<Rightarrow> PageBufferDescriptorV1 list" where
  "descriptors_from crc i p [] = []"
| "descriptors_from crc i p ((kind, bs) # items) =
     \<lparr>pbd_buffer_id = of_nat i, pbd_kind = kind, pbd_flags = 0, pbd_offset = of_nat p, pbd_length = of_nat (length bs),
      pbd_checksum = crc bs, pbd_reserved = 0\<rparr> # descriptors_from crc (Suc i) (p + length bs) items"

lemma length_descriptors_from [simp]: "length (descriptors_from crc i p items) = length items"
  by (induction crc i p items rule: descriptors_from.induct) auto

lemma push_all:
  "foldl (\<lambda>s (kind, bs). push_buffer crc bo kind bs s) (ds, data) items =
     (ds @ descriptors_from crc (length ds) (unat bo + length data) items, data @ concat (map snd items))"
  by (induction items arbitrary: ds data) (auto simp: push_buffer_def add.assoc)

lemma descriptors_map_kind: "map pbd_kind (descriptors_from crc i p items) = map fst items"
  by (induction crc i p items rule: descriptors_from.induct) auto

lemma descriptors_bytes:
  "j < length items \<Longrightarrow> p + length (concat (map snd items)) \<le> length data \<Longrightarrow> length data < usize_bound \<Longrightarrow>
     slice p (length (concat (map snd items))) data = concat (map snd items) \<Longrightarrow>
     buffer_descriptor_bytes data (descriptors_from crc i p items ! j) = Ok (snd (items ! j))"
proof (induction crc i p items arbitrary: j rule: descriptors_from.induct)
  case (2 crc i p kind bs items)
  have s: "slice p (length bs) data = bs" "slice (p + length bs) (length (concat (map snd items))) data = concat (map snd items)"
    using listed_split [of data p "p + length bs + length (concat (map snd items))" bs "concat (map snd items)"] 2 by (auto simp: listed_def add.assoc)
  have b: "p < 2 ^ 64" "length bs < 2 ^ 64" using 2 by auto
  show ?case
  proof (cases j)
    case 0
    then show ?thesis using 2 s b by (simp add: buffer_descriptor_bytes_def unat_of_nat checked_add_def)
  next
    case (Suc k)
    then show ?thesis using 2 s by (simp add: add.assoc)
  qed
qed simp

lemma parse_descriptors_back:
  assumes "length bs < usize_bound"
  shows "i + length items \<le> 2 ^ 16 \<Longrightarrow> bo \<le> p \<Longrightarrow> p + length (concat (map snd items)) \<le> length bs \<Longrightarrow>
     chunks_at pos PAGE_BUFFER_DESCRIPTOR_LEN (length items) bs = map PageBufferDescriptorV1_serialize (descriptors_from crc i p items) \<Longrightarrow>
     slice p (length (concat (map snd items))) bs = concat (map snd items) \<Longrightarrow>
     parse_descriptors crc v bs bo i (length items) pos p = Ok (descriptors_from crc i p items, p + length (concat (map snd items)))"
proof (induction crc i p items arbitrary: pos rule: descriptors_from.induct)
  case (2 crc i p kind xs items)
  have s: "slice p (length xs) bs = xs" "slice (p + length xs) (length (concat (map snd items))) bs = concat (map snd items)"
    using listed_split [of bs p "p + length xs + length (concat (map snd items))" xs "concat (map snd items)"] 2 by (auto simp: listed_def add.assoc)
  have b: "p < 2 ^ 64" "length xs < 2 ^ 64" "i < 2 ^ 16" using 2 assms by auto
  have d: "PageBufferDescriptorV1_parse (slice pos PAGE_BUFFER_DESCRIPTOR_LEN bs) = Ok (hd (descriptors_from crc i p ((kind, xs) # items)))"
    using 2(5) buffer_descriptor_back [of "hd (descriptors_from crc i p ((kind, xs) # items))" "[]"] by (simp add: chunks_at_Suc)
  have r: "parse_descriptors crc v bs bo (Suc i) (length items) (pos + PAGE_BUFFER_DESCRIPTOR_LEN) (p + length xs) =
      Ok (descriptors_from crc (Suc i) (p + length xs) items, p + length xs + length (concat (map snd items)))"
    using 2 s by (intro "2.IH") (auto simp: chunks_at_Suc add.assoc)
  show ?case using d r s b 2 assms by (simp add: unat_of_nat checked_add_def add.assoc)
qed simp

lemma collect_map_back: "(\<And>x. x \<in> set xs \<Longrightarrow> f (g x) = Ok x) \<Longrightarrow> collect_map f (map g xs) = Ok xs"
  by (induction xs) simp_all

lemma filter_distinct_key: "distinct (map f xs) \<Longrightarrow> x \<in> set xs \<Longrightarrow> filter (\<lambda>y. f y = f x) xs = [x]"
proof (induction xs)
  case (Cons y ys)
  show ?case
  proof (cases "x = y")
    case True
    with Cons.prems(1) have "filter (\<lambda>y. f y = f x) ys = []" by (auto simp: filter_empty_conv intro: rev_image_eqI)
    then show ?thesis using True by simp
  next
    case False
    with Cons.prems have "f y \<noteq> f x" "x \<in> set ys" by auto
    then show ?thesis using Cons by simp
  qed
qed simp

lemma unique_node_distinct: "distinct (map en_node_id nodes) \<Longrightarrow> n \<in> set nodes \<Longrightarrow> unique_node (en_node_id n) nodes = Ok n"
  by (simp add: unique_node_def filter_distinct_key)

lemma length_written:
  "length (concat (map CoveEncodingNodeV1_serialize nodes)) = length nodes * 30"
  "length (concat (map PageBufferDescriptorV1_serialize ds)) = length ds * 32"
  by (simp_all add: length_concat_uniform [where w = 30] length_concat_uniform [where w = 32])

lemma payload_parts_back:
  fixes crc h nodes items
  defines "bo \<equiv> 36 + length nodes * 30 + length items * 32"
  defines "out \<equiv> write_payload h nodes (descriptors_from crc 0 bo items) (concat (map snd items))"
  assumes h: "h = payload_header root (of_nat (length nodes)) (of_nat (length items)) rows (of_nat (36 + length nodes * 30)) (of_nat bo)"
    and n: "length nodes < 2 ^ 16" "length items < 2 ^ 16" "length out < usize_bound"
    and ok: "distinct (map en_node_id nodes)" "\<forall>n\<in>set nodes. en_reserved n = 0" "r \<in> set nodes" "en_node_id r = root" "en_logical_len r = rows"
  shows "parse_column_page_payload_parts crc out v = Ok (h, nodes, descriptors_from crc 0 bo items)"
    and "\<And>j. j < length items \<Longrightarrow> buffer_descriptor_bytes out (descriptors_from crc 0 bo items ! j) = Ok (snd (items ! j))"
proof -
  let ?H = "ColumnPagePayloadHeaderV1_serialize h" and ?N = "concat (map CoveEncodingNodeV1_serialize nodes)"
  let ?ds = "descriptors_from crc 0 bo items" and ?data = "concat (map snd items)"
  let ?D = "concat (map PageBufferDescriptorV1_serialize ?ds)"
  have out: "out = ?H @ ?N @ ?D @ ?data" by (simp add: out_def write_payload_def)
  have len: "length ?H = 36" "length ?N = length nodes * 30" "length ?D = length items * 32"
    by (simp_all add: length_written)
  have pre: "length (?H @ ?N @ ?D) = bo" by (simp only: length_append len) (simp add: bo_def)
  have lout: "length out = bo + length ?data" using pre by (simp add: out)
  have hp: "ColumnPagePayloadHeaderV1_parse out = Ok h"
    unfolding out by (rule payload_header_back) (simp add: h payload_header_ok_def payload_header_def COLUMN_PAGE_PAYLOAD_HEADER_LEN_def)
  have cn: "chunks_at 36 30 (length nodes) out = map CoveEncodingNodeV1_serialize nodes"
    unfolding out by (rule chunks_at_concat) (simp_all add: len)
  have cd: "chunks_at (36 + length nodes * 30) 32 (length items) out = map PageBufferDescriptorV1_serialize ?ds"
    using chunks_at_concat [of ?ds PageBufferDescriptorV1_serialize 32 "36 + length nodes * 30" "?H @ ?N" "length items" ?data] by (simp add: out len)
  have nodes: "collect_map CoveEncodingNodeV1_parse (map CoveEncodingNodeV1_serialize nodes) = Ok nodes"
    using ok(2) encoding_node_back [of _ "[]"] by (intro collect_map_back) simp
  have data: "slice bo (length ?data) out = ?data"
    using slice_append_right [of "?H @ ?N @ ?D" bo "length ?data" ?data] pre by (simp add: out)
  show "\<And>j. j < length items \<Longrightarrow> buffer_descriptor_bytes out (?ds ! j) = Ok (snd (items ! j))"
    using descriptors_bytes [of _ items bo out crc 0] lout n(3) data by simp
  have ds: "parse_descriptors crc v out bo 0 (length items) (36 + length nodes * 30) bo = Ok (?ds, length out)"
    using parse_descriptors_back [of out 0 items bo bo "36 + length nodes * 30" crc v] n lout cd data by (simp add: PAGE_BUFFER_DESCRIPTOR_LEN_def)
  have off: "unat (pph_nodes_offset h) = 36" "unat (pph_buffer_directory_offset h) = 36 + length nodes * 30" "unat (pph_buffers_offset h) = bo"
      "unat (pph_node_count h) = length nodes" "unat (pph_buffer_count h) = length items" "pph_row_count h = rows" "pph_root_node_id h = root"
    using n(1,2) by (simp_all only: h payload_header_def ColumnPagePayloadHeaderV1.select_convs COLUMN_PAGE_PAYLOAD_HEADER_LEN_def unat_of_nat)
      (simp_all add: bo_def)
  moreover have "pph_node_count h \<noteq> 0" using off(4) ok(3) by (auto simp: unat_eq_zero [symmetric] simp del: unat_eq_zero)
  moreover have "checked_mul (length nodes) 30 = Ok (length nodes * 30)" "checked_add 36 (length nodes * 30) = Ok (36 + length nodes * 30)"
      "checked_mul (length items) 32 = Ok (length items * 32)" "checked_add (36 + length nodes * 30) (length items * 32) = Ok bo"
    using n(1,2) by (simp_all add: checked_mul_def checked_add_def bo_def)
  moreover have "bo \<le> length out" "36 + length nodes * 30 \<le> bo" "36 \<le> 36 + length nodes * 30" using lout by (simp_all add: bo_def)
  moreover have "unique_node root nodes = Ok r" using unique_node_distinct [OF ok(1) ok(3)] ok(4) by simp
  ultimately show "parse_column_page_payload_parts crc out v = Ok (h, nodes, ?ds)"
    unfolding parse_column_page_payload_parts_def Let_def COLUMN_PAGE_PAYLOAD_HEADER_LEN_def COVE_ENCODING_NODE_LEN_def
      PAGE_BUFFER_DESCRIPTOR_LEN_def hp cn and_then.simps
    using nodes ds ok(1,5) by (simp only: cn and_then.simps if_False if_True simp_thms not_less prod.case not_True_eq_False) (auto simp only: not_less [symmetric] if_False simp_thms)
qed

lemma buffer_bytes_found:
  "find (\<lambda>d. pbd_kind d = kind) (cpp_buffers p) = Some d \<Longrightarrow> buffer_descriptor_bytes (cpp_data p) d = Ok bs \<Longrightarrow> buffer_bytes p kind = Ok (Some bs)"
  by (auto simp: buffer_bytes_def buffer_descriptor_bytes_def result_simps split: if_splits)

text \<open>a single-node payload is always built, and parses to a page whose null bitmap and values are the ones given.\<close>

theorem single_node_payload_reads_back:
  assumes "length vals + length (case bitmap of None \<Rightarrow> [] | Some bs \<Rightarrow> bs) < 2 ^ 63"
  shows "\<exists>out p. build_single_node crc rows kind logical physical bitmap vals = Ok out \<and> ColumnPagePayloadV1_parse crc out = Ok p
    \<and> buffer_bytes p Buffer_NullBitmap = Ok bitmap
    \<and> buffer_bytes p Buffer_Values = Ok (if vals = [] then None else Some vals)
    \<and> pph_row_count (cpp_header p) = rows
    \<and> (\<exists>n. root_node p = Ok n \<and> en_encoding_kind n = kind \<and> en_logical_type n = logical \<and> en_physical_kind n = physical
         \<and> en_logical_len n = rows)"
proof -
  define items where "items = (case bitmap of None \<Rightarrow> [] | Some bs \<Rightarrow> [(Buffer_NullBitmap, bs)]) @ (if vals = [] then [] else [(Buffer_Values, vals)])"
  define bo where "bo = 66 + length items * 32"
  define c :: u16 where "c = of_nat (length items)"
  define n where "n = \<lparr>en_node_id = 0, en_encoding_kind = kind, en_logical_type = logical, en_physical_kind = physical,
            en_flags = 0, en_logical_len = rows, en_child_count = 0, en_buffer_count = c, en_params_offset = 0,
            en_params_length = 0, en_stats_id = 0, en_reserved = 0\<rparr>"
  define h where "h = payload_header 0 1 c rows 66 (of_nat bo)"
  define ds where "ds = descriptors_from crc 0 bo items"
  define out where "out = write_payload h [n] ds (concat (map snd items))"
  define p where "p = \<lparr>cpp_header = h, cpp_nodes = [n], cpp_buffers = ds, cpp_data = out\<rparr>"
  have c: "c = (if bitmap \<noteq> None then 1 else 0) + (if vals \<noteq> [] then 1 else 0)" by (simp add: c_def items_def split: option.splits)
  have small: "length items \<le> 2" by (simp add: items_def split: option.splits)
  have total: "length (concat (map snd items)) = length vals + length (case bitmap of None \<Rightarrow> [] | Some bs \<Rightarrow> bs)"
    by (simp add: items_def split: option.splits)
  have lout: "length out = bo + length (concat (map snd items))"
    by (simp add: out_def write_payload_def length_written ds_def bo_def del: length_concat)
  have "length out < usize_bound" using lout total small assms by (simp add: bo_def)
  then have parts: "parse_column_page_payload_parts crc out Verify_Buffers = Ok (h, [n], ds)"
      "\<And>j. j < length items \<Longrightarrow> buffer_descriptor_bytes out (ds ! j) = Ok (snd (items ! j))"
    using payload_parts_back(1) [where h = h and root = 0 and nodes = "[n]" and items = items and rows = rows and crc = crc and r = n and v = Verify_Buffers]
      payload_parts_back(2) [where h = h and root = 0 and nodes = "[n]" and items = items and rows = rows and crc = crc and r = n] small
    by (simp_all add: out_def ds_def bo_def h_def c_def n_def)
  have parse: "ColumnPagePayloadV1_parse crc out = Ok p"
    using parts(1) by (simp add: ColumnPagePayloadV1_parse_def ColumnPagePayloadV1_parse_with_def p_def)
  have bo: "unat (of_nat bo :: u32) = bo" using small by (simp only: unat_of_nat bo_def) simp
  have "build_single_node crc rows kind logical physical bitmap vals = Ok out"
  proof -
    have "(66 :: u32) + ucast c * 32 = of_nat bo" "unat (66 :: u32) + unat ((ucast c :: u32) * 32) < 2 ^ 32"
      by (auto simp: c bo_def items_def split: option.splits)
    moreover have "(let s = ([], []); s = (case bitmap of Some bs \<Rightarrow> push_buffer crc (of_nat bo) Buffer_NullBitmap bs s | None \<Rightarrow> s);
          s = (if vals \<noteq> [] then push_buffer crc (of_nat bo) Buffer_Values vals s else s) in s) = (ds, concat (map snd items))"
      by (auto simp: push_buffer_def bo ds_def items_def split: option.splits)
    ultimately show ?thesis
      using parse unfolding build_single_node_def c [symmetric]
      by (simp add: Let_def checked_add_u32_def COLUMN_PAGE_PAYLOAD_HEADER_LEN_def COVE_ENCODING_NODE_LEN_def PAGE_BUFFER_DESCRIPTOR_LEN_def
          n_def [symmetric] h_def [symmetric] out_def [symmetric])
  qed
  moreover have "buffer_bytes p Buffer_NullBitmap = Ok bitmap"
  proof (cases bitmap)
    case None
    then show ?thesis by (simp add: buffer_bytes_def p_def ds_def items_def)
  next
    case (Some bs)
    have "find (\<lambda>d. pbd_kind d = Buffer_NullBitmap) (cpp_buffers p) = Some (ds ! 0)" by (simp add: p_def ds_def items_def Some)
    moreover have "buffer_descriptor_bytes (cpp_data p) (ds ! 0) = Ok bs" using parts(2) [of 0] by (simp add: items_def Some p_def)
    ultimately show ?thesis unfolding Some by (rule buffer_bytes_found)
  qed
  moreover have "buffer_bytes p Buffer_Values = Ok (if vals = [] then None else Some vals)"
  proof (cases "vals = []")
    case True
    then show ?thesis by (simp add: buffer_bytes_def p_def ds_def items_def split: option.splits)
  next
    case False
    let ?j = "length items - 1"
    have "find (\<lambda>d. pbd_kind d = Buffer_Values) (cpp_buffers p) = Some (ds ! ?j)" using False by (simp add: p_def ds_def items_def split: option.splits)
    moreover have "buffer_descriptor_bytes (cpp_data p) (ds ! ?j) = Ok vals"
      using parts(2) [of ?j] False by (simp add: items_def p_def split: option.splits)
    ultimately show ?thesis using False by (simp add: buffer_bytes_found)
  qed
  moreover have "root_node p = Ok n" by (simp add: root_node_def p_def h_def payload_header_def unique_node_def n_def)
  moreover have "en_encoding_kind n = kind" "en_logical_type n = logical" "en_physical_kind n = physical" "en_logical_len n = rows"
    by (simp_all add: n_def)
  moreover have "pph_row_count (cpp_header p) = rows" by (simp add: p_def h_def payload_header_def)
  ultimately show ?thesis using parse by blast
qed

theorem single_node_payload_reads_back_witness:
  "\<exists>out p. build_single_node (\<lambda>_. 0) 3 EK_PlainFixed LT_Int64 PK_NumCode (Some [5]) [1, 2, 3] = Ok out \<and> ColumnPagePayloadV1_parse (\<lambda>_. 0) out = Ok p
    \<and> buffer_bytes p Buffer_NullBitmap = Ok (Some [5]) \<and> buffer_bytes p Buffer_Values = Ok (Some [1, 2, 3])
    \<and> pph_row_count (cpp_header p) = 3"
  using single_node_payload_reads_back [of "[1, 2, 3]" "Some [5]" "\<lambda>_. 0" 3 EK_PlainFixed LT_Int64 PK_NumCode]
  by simp blast

lemma encoding_node_reserved: "CoveEncodingNodeV1_parse (CoveEncodingNodeV1_serialize n) = Ok m \<Longrightarrow> en_reserved n = 0"
  using CoveEncodingNodeV1_serialize_fields [of n]
  by (auto simp: CoveEncodingNodeV1_parse_def COVE_ENCODING_NODE_LEN_def Let_def wire_simps result_simps split: if_splits)

lemma collect_map_each: "collect_map f xs = Ok ys \<Longrightarrow> x \<in> set xs \<Longrightarrow> \<exists>y. f x = Ok y"
  by (induction xs arbitrary: ys) (auto simp: result_simps)

lemma unique_node_member: "unique_node i nodes = Ok r \<Longrightarrow> r \<in> set nodes \<and> en_node_id r = i"
proof -
  assume u: "unique_node i nodes = Ok r"
  then have "filter (\<lambda>n. en_node_id n = i) nodes = [r]" by (auto simp: unique_node_def split: list.splits)
  then have "r \<in> set (filter (\<lambda>n. en_node_id n = i) nodes)" by simp
  then show ?thesis by simp
qed

lemma payload_parts_need:
  fixes crc h nodes ds data
  defines "out \<equiv> write_payload h nodes ds data"
  assumes parse: "parse_column_page_payload_parts crc out v = Ok (h', nodes', ds')" and h: "payload_header_ok h" "unat (pph_node_count h) = length nodes"
  shows "(\<forall>n\<in>set nodes. en_reserved n = 0) \<and> distinct (map en_node_id nodes)
    \<and> (\<exists>r\<in>set nodes. en_node_id r = pph_root_node_id h \<and> en_logical_len r = pph_row_count h)"
proof -
  have hp: "ColumnPagePayloadHeaderV1_parse out = Ok h"
    unfolding out_def write_payload_def by (rule payload_header_back [OF h(1)])
  have cn: "chunks_at 36 30 (length nodes) out = map CoveEncodingNodeV1_serialize nodes"
    unfolding out_def write_payload_def by (rule chunks_at_concat) simp_all
  obtain nodes' r where c: "unat (pph_nodes_offset h) = 36"
      "collect_map CoveEncodingNodeV1_parse (chunks_at (unat (pph_nodes_offset h)) 30 (unat (pph_node_count h)) out) = Ok nodes'"
      "distinct (map en_node_id nodes')" "unique_node (pph_root_node_id h) nodes' = Ok r" "en_logical_len r = pph_row_count h"
    using parse hp unfolding parse_column_page_payload_parts_def Let_def COLUMN_PAGE_PAYLOAD_HEADER_LEN_def COVE_ENCODING_NODE_LEN_def
    by (auto simp: result_simps split: if_splits)
  then have m: "collect_map CoveEncodingNodeV1_parse (map CoveEncodingNodeV1_serialize nodes) = Ok nodes'" using cn h(2) by simp
  have z: "\<forall>n\<in>set nodes. en_reserved n = 0"
  proof
    fix n assume "n \<in> set nodes"
    then show "en_reserved n = 0" using collect_map_each [OF m, of "CoveEncodingNodeV1_serialize n"] encoding_node_reserved by auto
  qed
  then have "collect_map CoveEncodingNodeV1_parse (map CoveEncodingNodeV1_serialize nodes) = Ok nodes"
    using encoding_node_back [of _ "[]"] by (intro collect_map_back) simp
  then have "nodes' = nodes" using m by simp
  then show ?thesis using z c(3,5) unique_node_member [OF c(4)] by auto
qed

lemma tree_Ok_listing: "payload_tree nodes buffers root = Ok t \<Longrightarrow> counts_match t \<and> preorder_nodes t = nodes \<and> preorder_buffers t = buffers"
  using subtree_Ok [of "Suc (length nodes)" nodes buffers 0 0 t] by (auto simp: payload_tree_def result_simps listed_whole split: if_splits)

text \<open>C18: what \<open>build_tree\<close> returns parses to a page whose tree lists the given nodes in preorder, and whose buffers, in preorder
  of the nodes that own them, have the given kinds and bytes.\<close>

theorem built_tree_reads_back:
  assumes build: "build_tree crc rows root nodes items = Ok out" and size: "length (concat (map snd items)) < 2 ^ 63"
  shows "\<exists>p t. ColumnPagePayloadV1_parse crc out = Ok p \<and> ColumnPagePayloadV1_tree p = Ok t \<and> counts_match t
    \<and> preorder_nodes t = nodes \<and> map pbd_kind (preorder_buffers t) = map fst items
    \<and> (\<forall>j<length items. buffer_descriptor_bytes (cpp_data p) (preorder_buffers t ! j) = Ok (snd (items ! j)))"
proof -
  define bo where "bo = 36 + length nodes * 30 + length items * 32"
  define h where "h = payload_header root (of_nat (length nodes)) (of_nat (length items)) rows (of_nat (36 + length nodes * 30)) (of_nat bo)"
  define ds where "ds = descriptors_from crc 0 bo items"
  define w where "w = write_payload h nodes ds (concat (map snd items))"
  have n: "nodes \<noteq> []" "length nodes < 2 ^ 16" "length items < 2 ^ 16" using build by (simp_all add: build_tree_def split: if_splits)
  have bo: "unat (of_nat bo :: u32) = bo" using n by (simp only: unat_of_nat bo_def) simp
  have m: "checked_mul_u32 (of_nat (length nodes)) 30 = Ok (of_nat (length nodes * 30))"
      "checked_add_u32 36 (of_nat (length nodes * 30)) = Ok (of_nat (36 + length nodes * 30))"
      "checked_mul_u32 (of_nat (length items)) 32 = Ok (of_nat (length items * 32))"
      "checked_add_u32 (of_nat (36 + length nodes * 30)) (of_nat (length items * 32)) = Ok (of_nat bo)"
    using n(2,3) unfolding checked_mul_u32_def checked_add_u32_def bo_def
    by (simp_all only: unat_of_nat) simp_all
  have push: "foldl (\<lambda>s (kind, bs). push_buffer crc (of_nat bo) kind bs s) ([], []) items = (ds, concat (map snd items))"
    using push_all [of crc "of_nat bo" "[]" "[]" items] by (simp add: bo ds_def)
  obtain p t where p: "ColumnPagePayloadV1_parse crc w = Ok p" "ColumnPagePayloadV1_tree p = Ok t" "out = w"
    using build n
    by (auto simp: build_tree_def Let_def COLUMN_PAGE_PAYLOAD_HEADER_LEN_def COVE_ENCODING_NODE_LEN_def PAGE_BUFFER_DESCRIPTOR_LEN_def result_simps
        m push h_def [symmetric] w_def [symmetric] simp del: of_nat_add of_nat_mult)
  obtain h' nodes' ds' where parts: "parse_column_page_payload_parts crc w Verify_Buffers = Ok (h', nodes', ds')"
    using p(1) by (auto simp: ColumnPagePayloadV1_parse_def ColumnPagePayloadV1_parse_with_def result_simps)
  have hok: "payload_header_ok h" "unat (pph_node_count h) = length nodes" "pph_root_node_id h = root" "pph_row_count h = rows"
    using n by (simp_all add: h_def payload_header_def payload_header_ok_def COLUMN_PAGE_PAYLOAD_HEADER_LEN_def unat_of_nat)
  obtain r where need: "\<forall>n\<in>set nodes. en_reserved n = 0" "distinct (map en_node_id nodes)" "r \<in> set nodes" "en_node_id r = root" "en_logical_len r = rows"
    using payload_parts_need [OF parts [unfolded w_def] hok(1,2)] hok(3,4) by auto
  have "length w = bo + length (concat (map snd items))"
    by (simp add: w_def write_payload_def length_written ds_def bo_def del: length_concat)
  then have "length w < usize_bound" using size n by (simp add: bo_def)
  then have rb: "parse_column_page_payload_parts crc w Verify_Buffers = Ok (h, nodes, ds)"
      "\<And>j. j < length items \<Longrightarrow> buffer_descriptor_bytes w (ds ! j) = Ok (snd (items ! j))"
    using payload_parts_back(1) [where h = h and root = root and nodes = nodes and items = items and rows = rows and crc = crc and r = r and v = Verify_Buffers]
      payload_parts_back(2) [where h = h and root = root and nodes = nodes and items = items and rows = rows and crc = crc and r = r] n need
    by (simp_all add: w_def ds_def bo_def h_def)
  then have "p = \<lparr>cpp_header = h, cpp_nodes = nodes, cpp_buffers = ds, cpp_data = w\<rparr>"
    using p(1) by (simp add: ColumnPagePayloadV1_parse_def ColumnPagePayloadV1_parse_with_def)
  then show ?thesis using p rb(2) tree_Ok_listing [of nodes ds root t] hok(3) descriptors_map_kind [of crc 0 bo items]
    by (intro exI [of _ p] exI [of _ t]) (simp add: ColumnPagePayloadV1_tree_def ds_def)
qed


definition one_node :: CoveEncodingNodeV1 where
  "one_node = \<lparr>en_node_id = 4, en_encoding_kind = EK_PlainFixed, en_logical_type = LT_Int64, en_physical_kind = PK_NumCode, en_flags = 0,
     en_logical_len = 2, en_child_count = 0, en_buffer_count = 1, en_params_offset = 0, en_params_length = 0, en_stats_id = 0, en_reserved = 0\<rparr>"

lemma one_node_built: "\<exists>out. build_tree (\<lambda>_. 0) 2 4 [one_node] [(Buffer_Values, [7])] = Ok out"
proof -
  let ?h = "payload_header 4 1 1 2 66 98" and ?ds = "descriptors_from (\<lambda>_. 0) 0 98 [(Buffer_Values, [7])]"
  let ?w = "write_payload ?h [one_node] ?ds [7]"
  have "parse_column_page_payload_parts (\<lambda>_. 0) ?w Verify_Buffers = Ok (?h, [one_node], ?ds)"
    using payload_parts_back(1) [where h = ?h and nodes = "[one_node]" and items = "[(Buffer_Values, [7])]" and crc = "\<lambda>_. 0" and r = one_node
        and v = Verify_Buffers and root = 4 and rows = 2]
    by (simp add: one_node_def write_payload_def)
  then have "ColumnPagePayloadV1_parse (\<lambda>_. 0) ?w = Ok \<lparr>cpp_header = ?h, cpp_nodes = [one_node], cpp_buffers = ?ds, cpp_data = ?w\<rparr>"
    by (simp add: ColumnPagePayloadV1_parse_def ColumnPagePayloadV1_parse_with_def)
  moreover have "payload_tree [one_node] ?ds 4 = Ok (Page_Tree one_node ?ds [])"
    by (simp add: payload_tree_def one_node_def Let_def checked_add_def slice_def)
  ultimately show ?thesis
    by (simp add: build_tree_def checked_mul_u32_def checked_add_u32_def COLUMN_PAGE_PAYLOAD_HEADER_LEN_def COVE_ENCODING_NODE_LEN_def
        PAGE_BUFFER_DESCRIPTOR_LEN_def push_buffer_def ColumnPagePayloadV1_tree_def payload_header_def)
qed

theorem built_tree_reads_back_witness:
  "\<exists>out p t. build_tree (\<lambda>_. 0) 2 4 [one_node] [(Buffer_Values, [7])] = Ok out \<and> ColumnPagePayloadV1_tree p = Ok t
    \<and> preorder_nodes t = [one_node] \<and> buffer_descriptor_bytes (cpp_data p) (preorder_buffers t ! 0) = Ok [7]"
proof -
  obtain out where b: "build_tree (\<lambda>_. 0) 2 4 [one_node] [(Buffer_Values, [7])] = Ok out" using one_node_built by blast
  show ?thesis using b built_tree_reads_back [OF b] by (intro exI [of _ out]) auto
qed

end
