(* ===== verification/Encoded_Array.thy ===== *)
theory Encoded_Array
  imports Local_Codebook Nested_Layout Encodings_Fixed Validity Dictionary Crc_Record
begin

text \<open>
  Reading rows of an encoded column (\<open>cove-core/src/array.rs\<close>). The source has three ways to read a page: one row
  at a time, all rows at once, and through a page-scoped view that has done the expensive part. The theorem
  shows that they agree: a page that decodes as a whole gives the same value for every row in all three ways. For
  the encodings with rows of varying length the agreement is proved once, for any reader of rows that skips
  what it reads.
\<close>

section \<open>Values\<close>

datatype CoveArrayValue =
    AV_Null
  | AV_Bytes bytes
  | AV_OwnedBytes bytes
  | AV_Varint u64
  | AV_Int64 i64
  | AV_FileCode u32
  | AV_DictValue DictionaryValue
  | AV_NumCode u64
  | AV_Boolean bool
  | AV_ValidityBit bool

primrec CoveEncodingKind_debug :: "CoveEncodingKind \<Rightarrow> string" where
  "CoveEncodingKind_debug EK_Canonical = ''Canonical''"
| "CoveEncodingKind_debug EK_Validity = ''Validity''"
| "CoveEncodingKind_debug EK_Constant = ''Constant''"
| "CoveEncodingKind_debug EK_FileCode = ''FileCode''"
| "CoveEncodingKind_debug EK_NumCode = ''NumCode''"
| "CoveEncodingKind_debug EK_LocalCodebook = ''LocalCodebook''"
| "CoveEncodingKind_debug EK_Rle = ''Rle''"
| "CoveEncodingKind_debug EK_RunEnd = ''RunEnd''"
| "CoveEncodingKind_debug EK_BitPacked = ''BitPacked''"
| "CoveEncodingKind_debug EK_Delta = ''Delta''"
| "CoveEncodingKind_debug EK_FrameOfReference = ''FrameOfReference''"
| "CoveEncodingKind_debug EK_PatchedBase = ''PatchedBase''"
| "CoveEncodingKind_debug EK_Sparse = ''Sparse''"
| "CoveEncodingKind_debug EK_Sequence = ''Sequence''"
| "CoveEncodingKind_debug EK_PlainFixed = ''PlainFixed''"
| "CoveEncodingKind_debug EK_PlainVarint = ''PlainVarint''"
| "CoveEncodingKind_debug EK_VarBytes = ''VarBytes''"
| "CoveEncodingKind_debug EK_Lz4Block = ''Lz4Block''"
| "CoveEncodingKind_debug EK_ZstdBlock = ''ZstdBlock''"
| "CoveEncodingKind_debug EK_RegisteredEncoding = ''RegisteredEncoding''"

definition logical_type_fixed_width :: "CoveLogicalType \<Rightarrow> usize option" where
  "logical_type_fixed_width logical =
     (if logical \<in> {LT_Bool, LT_Int8, LT_UInt8} then Some 1
      else if logical \<in> {LT_Int16, LT_UInt16} then Some 2
      else if logical \<in> {LT_Int32, LT_UInt32, LT_Float32, LT_DateDays} then Some 4
      else if logical \<in> {LT_Int64, LT_UInt64, LT_Float64, LT_Decimal64, LT_TimestampMicros, LT_TimestampNanos} then Some 8
      else if logical \<in> {LT_Decimal128, LT_Uuid} then Some 16
      else None)"

text \<open>\<open>read_u32_le\<close> and \<open>read_u64_le\<close> are those of \<open>encoding/nested.rs\<close>.\<close>

record EncodedArray =
  ea_logical :: CoveLogicalType
  ea_physical :: CovePhysicalKind
  ea_row_count :: u64
  ea_encoding :: CoveEncodingKind
  ea_validity :: "ValidityBitmap option"
  ea_data :: bytes
  ea_dictionary :: "FileDictionary option"

definition EncodedArray_new ::
  "CoveLogicalType \<Rightarrow> CovePhysicalKind \<Rightarrow> u64 \<Rightarrow> CoveEncodingKind \<Rightarrow> ValidityBitmap option \<Rightarrow> bytes \<Rightarrow> FileDictionary option \<Rightarrow> EncodedArray" where
  "EncodedArray_new logical physical row_count encoding validity data dictionary =
     \<lparr>ea_logical = logical, ea_physical = physical, ea_row_count = row_count, ea_encoding = encoding, ea_validity = validity,
      ea_data = data, ea_dictionary = dictionary\<rparr>"

definition EncodedArray_is_null :: "EncodedArray \<Rightarrow> u64 \<Rightarrow> bool result" where
  "EncodedArray_is_null a row =
     (if row \<ge> ea_row_count a then Err OffsetRange
      else case ea_validity a of Some bm \<Rightarrow> ValidityBitmap_is_null bm row | None \<Rightarrow> Ok False)"

text \<open>The rows \<open>0..row_count\<close>, and one row of a loop over them.\<close>

definition array_rows :: "EncodedArray \<Rightarrow> u64 list" where
  "array_rows a = map of_nat [0..<unat (ea_row_count a)]"

definition unless_null :: "EncodedArray \<Rightarrow> u64 \<Rightarrow> CoveArrayValue result \<Rightarrow> CoveArrayValue result" where
  "unless_null a row v = and_then (EncodedArray_is_null a row) (\<lambda>null. if null then Ok AV_Null else v)"

definition collect_rows :: "EncodedArray \<Rightarrow> (u64 \<Rightarrow> CoveArrayValue result) \<Rightarrow> CoveArrayValue list result" where
  "collect_rows a decode = collect_map (\<lambda>row. unless_null a row (decode row)) (array_rows a)"

section \<open>Numeric and codebook values\<close>

definition u64_try_from_i64 :: "i64 \<Rightarrow> u64 result" where
  "u64_try_from_i64 v = (if 0 \<le> sint v then Ok v else Err PageCorrupt)"

definition resolve_code :: "EncodedArray \<Rightarrow> u32 \<Rightarrow> CoveArrayValue result" where
  "resolve_code a code = (case ea_dictionary a of
       Some dict \<Rightarrow> map_result AV_DictValue (FileDictionary_decode_value dict code)
     | None \<Rightarrow> Ok (AV_FileCode code))"

definition value_from_i64 :: "EncodedArray \<Rightarrow> i64 \<Rightarrow> CoveArrayValue result" where
  "value_from_i64 a v = (case ea_physical a of
       PK_FileCode \<Rightarrow> and_then (u32_try_from_i64 v) (resolve_code a)
     | PK_NumCode \<Rightarrow> map_result AV_NumCode (u64_try_from_i64 v)
     | PK_Boolean \<Rightarrow> if v = 0 then Ok (AV_Boolean False) else if v = 1 then Ok (AV_Boolean True) else Err PageCorrupt
     | _ \<Rightarrow> Ok (AV_Int64 v))"

primrec value_from_local_codebook :: "EncodedArray \<Rightarrow> LocalCodebookValue \<Rightarrow> CoveArrayValue result" where
  "value_from_local_codebook a (CBV_FileCode code) = resolve_code a code"
| "value_from_local_codebook a (CBV_NumCode code) = Ok (AV_NumCode code)"
| "value_from_local_codebook a (CBV_Boolean b) = Ok (AV_Boolean b)"
| "value_from_local_codebook a (CBV_VarBytes bs) = Ok (AV_OwnedBytes bs)"

text \<open>The \<open>enumerate\<close> loops of \<open>values_from_i64_values\<close> and \<open>values_from_local_codebook_values\<close>, and the access to a
  single row of the decoded page.\<close>

definition values_from :: "EncodedArray \<Rightarrow> ('v \<Rightarrow> CoveArrayValue result) \<Rightarrow> 'v list \<Rightarrow> CoveArrayValue list result" where
  "values_from a convert vs =
     (if length vs \<noteq> unat (ea_row_count a) then Err PageCorrupt
      else collect_map (\<lambda>(row, v). unless_null a (of_nat row) (convert v)) (enumerate 0 vs))"

definition value_from_vec :: "EncodedArray \<Rightarrow> ('v \<Rightarrow> CoveArrayValue result) \<Rightarrow> u64 \<Rightarrow> 'v list \<Rightarrow> CoveArrayValue result" where
  "value_from_vec a convert row vs =
     (if length vs \<noteq> unat (ea_row_count a) then Err PageCorrupt
      else and_then (ok_or (if unat row < length vs then Some (vs ! unat row) else None) PageCorrupt) convert)"

text \<open>The transform encodings that decode to \<open>i64\<close>; the default \<open>fast_decode\<close> is the canonical one.\<close>

definition decode_i64_page :: "CoveEncodingKind \<Rightarrow> bytes \<Rightarrow> i64 list result option" where
  "decode_i64_page encoding data = (case encoding of
       EK_Rle \<Rightarrow> Some (and_then (RlePayload_parse data) Rle_fast_decode)
     | EK_RunEnd \<Rightarrow> Some (and_then (RunEndPayload_parse data) RunEnd_canonical_decode)
     | EK_BitPacked \<Rightarrow> Some (and_then (BitPackedPayload_parse data) BitPacked_fast_decode)
     | EK_Delta \<Rightarrow> Some (and_then (DeltaPayload_parse data) Delta_fast_decode)
     | EK_FrameOfReference \<Rightarrow> Some (and_then (ForPayload_parse data) FrameOfReference_fast_decode)
     | EK_PatchedBase \<Rightarrow> Some (and_then (PatchedBasePayload_parse data) PatchedBase_canonical_decode)
     | EK_Sparse \<Rightarrow> Some (and_then (SparsePayload_parse data) Sparse_canonical_decode)
     | _ \<Rightarrow> None)"

section \<open>Rows of varying length\<close>

text \<open>How one row is read, how it is skipped, and how the loop over all rows does both.\<close>

definition varint_value :: "bytes \<Rightarrow> usize \<Rightarrow> CoveArrayValue result" where
  "varint_value data pos =
     (if pos \<ge> length data then Err OffsetRange
      else and_then (bytes_from data pos) (\<lambda>rest. map_result (\<lambda>(v, consumed). AV_Varint v) (decode_u64_leb128 rest)))"

definition varint_skip :: "bytes \<Rightarrow> usize \<Rightarrow> usize result" where
  "varint_skip data pos =
     (if pos \<ge> length data then Err OffsetRange
      else and_then (bytes_from data pos) (\<lambda>rest. and_then (decode_u64_leb128 rest) (\<lambda>(v, consumed). checked_add pos consumed)))"

definition varint_row :: "bytes \<Rightarrow> usize \<Rightarrow> (CoveArrayValue \<times> usize) result" where
  "varint_row data pos =
     (if pos \<ge> length data then Err OffsetRange
      else and_then (bytes_from data pos) (\<lambda>rest. and_then (decode_u64_leb128 rest) (\<lambda>(v, consumed).
           map_result (\<lambda>pos. (AV_Varint v, pos)) (checked_add pos consumed))))"

definition varbytes_value :: "bytes \<Rightarrow> usize \<Rightarrow> CoveArrayValue result" where
  "varbytes_value data pos =
     and_then (read_u32_le data pos) (\<lambda>len.
     and_then (checked_add pos 4) (\<lambda>data_start.
     map_result AV_Bytes (read_range_checked data data_start (unat len))))"

definition varbytes_skip :: "bytes \<Rightarrow> usize \<Rightarrow> usize result" where
  "varbytes_skip data pos =
     and_then (read_u32_le data pos) (\<lambda>len.
     and_then (checked_add pos 4) (\<lambda>p.
     and_then (checked_add p (unat len)) (\<lambda>p.
     if p > length data then Err OffsetRange else Ok p)))"

definition varbytes_row :: "bytes \<Rightarrow> usize \<Rightarrow> (CoveArrayValue \<times> usize) result" where
  "varbytes_row data pos =
     and_then (read_u32_le data pos) (\<lambda>len.
     and_then (checked_add pos 4) (\<lambda>data_start.
     and_then (read_range_checked data data_start (unat len)) (\<lambda>s.
     map_result (\<lambda>pos. (AV_Bytes s, pos)) (checked_add data_start (unat len)))))"

definition canonical_value :: "bytes \<Rightarrow> usize \<Rightarrow> CoveArrayValue result" where
  "canonical_value data pos =
     and_then (bytes_from data pos) (\<lambda>rest.
     and_then (decode_u64_leb128 rest) (\<lambda>(len, consumed).
     and_then (checked_add pos consumed) (\<lambda>data_start.
     map_result AV_Bytes (read_range_checked data data_start (unat len)))))"

definition canonical_skip :: "bytes \<Rightarrow> usize \<Rightarrow> usize result" where
  "canonical_skip data pos =
     and_then (bytes_from data pos) (\<lambda>rest.
     and_then (decode_u64_leb128 rest) (\<lambda>(len, consumed).
     and_then (checked_add pos consumed) (\<lambda>p.
     and_then (checked_add p (unat len)) (\<lambda>p.
     if p > length data then Err OffsetRange else Ok p))))"

definition canonical_row :: "bytes \<Rightarrow> usize \<Rightarrow> (CoveArrayValue \<times> usize) result" where
  "canonical_row data pos =
     and_then (bytes_from data pos) (\<lambda>rest.
     and_then (decode_u64_leb128 rest) (\<lambda>(len, consumed).
     and_then (checked_add pos consumed) (\<lambda>data_start.
     and_then (read_range_checked data data_start (unat len)) (\<lambda>s.
     map_result (\<lambda>pos. (AV_Bytes s, pos)) (checked_add data_start (unat len))))))"

fun skip_rows :: "(bytes \<Rightarrow> usize \<Rightarrow> usize result) \<Rightarrow> bytes \<Rightarrow> nat \<Rightarrow> usize \<Rightarrow> usize result" where
  "skip_rows skip data 0 pos = Ok pos"
| "skip_rows skip data (Suc n) pos = and_then (skip data pos) (skip_rows skip data n)"

text \<open>\<open>VariableOffsets\<close> records the position before every row.\<close>

fun row_offsets :: "(bytes \<Rightarrow> usize \<Rightarrow> usize result) \<Rightarrow> bytes \<Rightarrow> nat \<Rightarrow> usize \<Rightarrow> usize list result" where
  "row_offsets skip data 0 pos = Ok []"
| "row_offsets skip data (Suc n) pos =
     and_then (skip data pos) (\<lambda>p. map_result ((#) pos) (row_offsets skip data n p))"

fun read_rows ::
  "(bytes \<Rightarrow> usize \<Rightarrow> (CoveArrayValue \<times> usize) result) \<Rightarrow> EncodedArray \<Rightarrow> u64 list \<Rightarrow> usize \<Rightarrow> CoveArrayValue list result" where
  "read_rows step a [] pos = Ok []"
| "read_rows step a (row # rows) pos =
     and_then (step (ea_data a) pos) (\<lambda>(v, p).
     and_then (unless_null a row (Ok v)) (\<lambda>v.
     map_result ((#) v) (read_rows step a rows p)))"

section \<open>One row\<close>

definition needs_fixed_width :: "string \<Rightarrow> CoveLogicalType \<Rightarrow> usize result" where
  "needs_fixed_width what logical = ok_or (logical_type_fixed_width logical)
     (UnsupportedEncoding (what @ '' encoding requires fixed-width logical type, got '' @ CoveLogicalType_debug logical))"

definition canonical_width :: "CoveLogicalType \<Rightarrow> usize result" where
  "canonical_width logical = ok_or (logical_type_fixed_width logical)
     (UnsupportedEncoding (''Canonical row decode unsupported for '' @ CoveLogicalType_debug logical))"

definition fixed_row :: "EncodedArray \<Rightarrow> usize \<Rightarrow> u64 \<Rightarrow> CoveArrayValue result" where
  "fixed_row a width row =
     and_then (checked_mul (unat row) width) (\<lambda>offset.
     map_result AV_Bytes (read_range_checked (ea_data a) offset width))"

definition text_logical :: "CoveLogicalType \<Rightarrow> bool" where
  "text_logical logical \<longleftrightarrow> logical \<in> {LT_Utf8, LT_Binary, LT_Json}"

definition decode_canonical_row :: "EncodedArray \<Rightarrow> u64 \<Rightarrow> CoveArrayValue result" where
  "decode_canonical_row a row =
     (if ea_logical a = LT_Null then Ok AV_Null
      else if ea_logical a = LT_Bool then Err (UnsupportedEncoding ''Canonical Bool rows are tag-only and need an explicit value-tag stream'')
      else if text_logical (ea_logical a)
      then and_then (skip_rows canonical_skip (ea_data a) (unat row) 0) (canonical_value (ea_data a))
      else and_then (canonical_width (ea_logical a)) (\<lambda>width. fixed_row a width row))"

definition decode_present_row :: "EncodedArray \<Rightarrow> u64 \<Rightarrow> CoveArrayValue result" where
  "decode_present_row a row = (case ea_encoding a of
       EK_Validity \<Rightarrow>
         and_then (ok_or (if unat row div 8 < length (ea_data a) then Some (ea_data a ! (unat row div 8)) else None) OffsetRange) (\<lambda>byte.
         Ok (AV_ValidityBit (drop_bit (unat row mod 8) byte AND 1 = 1)))
     | EK_Constant \<Rightarrow>
         and_then (needs_fixed_width ''Constant'' (ea_logical a)) (\<lambda>w. map_result AV_Bytes (read_range_checked (ea_data a) 0 w))
     | EK_FileCode \<Rightarrow>
         and_then (checked_mul (unat row) 4) (\<lambda>offset. and_then (read_u32_le (ea_data a) offset) (resolve_code a))
     | EK_NumCode \<Rightarrow>
         and_then (checked_mul (unat row) 8) (\<lambda>offset. map_result AV_NumCode (read_u64_le (ea_data a) offset))
     | EK_PlainFixed \<Rightarrow> and_then (needs_fixed_width ''PlainFixed'' (ea_logical a)) (\<lambda>w. fixed_row a w row)
     | EK_PlainVarint \<Rightarrow> and_then (skip_rows varint_skip (ea_data a) (unat row) 0) (varint_value (ea_data a))
     | EK_VarBytes \<Rightarrow> and_then (skip_rows varbytes_skip (ea_data a) (unat row) 0) (varbytes_value (ea_data a))
     | EK_LocalCodebook \<Rightarrow>
         and_then (LocalCodebookPayload_parse (ea_data a)) (\<lambda>payload.
         and_then (LocalCodebookPayload_decode_values payload) (value_from_vec a (value_from_local_codebook a) row))
     | EK_Canonical \<Rightarrow> decode_canonical_row a row
     | _ \<Rightarrow> (case decode_i64_page (ea_encoding a) (ea_data a) of
           Some m \<Rightarrow> and_then m (value_from_vec a (value_from_i64 a) row)
         | None \<Rightarrow> Err (UnsupportedEncoding (CoveEncodingKind_debug (ea_encoding a)))))"

definition EncodedArray_decode_row :: "EncodedArray \<Rightarrow> u64 \<Rightarrow> CoveArrayValue result" where
  "EncodedArray_decode_row a row =
     (if row \<ge> ea_row_count a then Err OffsetRange
      else and_then (EncodedArray_is_null a row) (\<lambda>null. if null then Ok AV_Null else decode_present_row a row))"

section \<open>All rows\<close>

definition decode_all_canonical_rows :: "EncodedArray \<Rightarrow> CoveArrayValue list result" where
  "decode_all_canonical_rows a =
     (if ea_logical a = LT_Null then Ok (replicate (unat (ea_row_count a)) AV_Null)
      else if ea_logical a = LT_Bool then collect_rows a (decode_present_row a)
      else if text_logical (ea_logical a) then read_rows canonical_row a (array_rows a) 0
      else and_then (canonical_width (ea_logical a)) (\<lambda>width.
        collect_map (\<lambda>row. and_then (fixed_row a width row) (\<lambda>v. unless_null a row (Ok v))) (array_rows a)))"

definition EncodedArray_decode_all_rows :: "EncodedArray \<Rightarrow> CoveArrayValue list result" where
  "EncodedArray_decode_all_rows a = (case ea_encoding a of
       EK_LocalCodebook \<Rightarrow>
         and_then (LocalCodebookPayload_parse (ea_data a)) (\<lambda>payload.
         and_then (LocalCodebookPayload_decode_values payload) (values_from a (value_from_local_codebook a)))
     | EK_PlainVarint \<Rightarrow> read_rows varint_row a (array_rows a) 0
     | EK_VarBytes \<Rightarrow> read_rows varbytes_row a (array_rows a) 0
     | EK_Canonical \<Rightarrow> decode_all_canonical_rows a
     | _ \<Rightarrow> (case decode_i64_page (ea_encoding a) (ea_data a) of
           Some m \<Rightarrow> and_then m (values_from a (value_from_i64 a))
         | None \<Rightarrow> collect_rows a (decode_present_row a)))"

section \<open>Prepared access\<close>

datatype VariableOffsetKind = VO_PlainVarint | VO_VarBytes | VO_CanonicalLengthPrefixed

datatype PreparedArrayRepr =
    Repr_Direct
  | Repr_VariableOffsets VariableOffsetKind "usize list"
  | Repr_DecodedValues "CoveArrayValue list"

record PreparedEncodedArray =
  pa_array :: EncodedArray
  pa_repr :: PreparedArrayRepr

primrec skip_of_kind :: "VariableOffsetKind \<Rightarrow> bytes \<Rightarrow> usize \<Rightarrow> usize result" where
  "skip_of_kind VO_PlainVarint = varint_skip"
| "skip_of_kind VO_VarBytes = varbytes_skip"
| "skip_of_kind VO_CanonicalLengthPrefixed = canonical_skip"

primrec value_of_kind :: "VariableOffsetKind \<Rightarrow> bytes \<Rightarrow> usize \<Rightarrow> CoveArrayValue result" where
  "value_of_kind VO_PlainVarint = varint_value"
| "value_of_kind VO_VarBytes = varbytes_value"
| "value_of_kind VO_CanonicalLengthPrefixed = canonical_value"

definition variable_offsets :: "VariableOffsetKind \<Rightarrow> EncodedArray \<Rightarrow> PreparedArrayRepr result" where
  "variable_offsets kind a =
     map_result (Repr_VariableOffsets kind) (row_offsets (skip_of_kind kind) (ea_data a) (unat (ea_row_count a)) 0)"

definition EncodedArray_prepare :: "EncodedArray \<Rightarrow> PreparedEncodedArray result" where
  "EncodedArray_prepare a =
     map_result (\<lambda>repr. \<lparr>pa_array = a, pa_repr = repr\<rparr>)
       (if ea_encoding a = EK_PlainVarint then variable_offsets VO_PlainVarint a
        else if ea_encoding a = EK_VarBytes then variable_offsets VO_VarBytes a
        else if ea_encoding a = EK_Canonical \<and> text_logical (ea_logical a) then variable_offsets VO_CanonicalLengthPrefixed a
        else if ea_encoding a \<in> {EK_LocalCodebook, EK_Rle, EK_RunEnd, EK_BitPacked, EK_Delta, EK_FrameOfReference, EK_PatchedBase, EK_Sparse}
        then map_result Repr_DecodedValues (EncodedArray_decode_all_rows a)
        else Ok Repr_Direct)"

definition PreparedEncodedArray_decode_row :: "PreparedEncodedArray \<Rightarrow> u64 \<Rightarrow> CoveArrayValue result" where
  "PreparedEncodedArray_decode_row p row =
     (let a = pa_array p in
      if row \<ge> ea_row_count a then Err OffsetRange
      else case pa_repr p of
          Repr_Direct \<Rightarrow> EncodedArray_decode_row a row
        | Repr_DecodedValues vs \<Rightarrow> ok_or (if unat row < length vs then Some (vs ! unat row) else None) OffsetRange
        | Repr_VariableOffsets kind offsets \<Rightarrow>
            and_then (EncodedArray_is_null a row) (\<lambda>null.
            if null then Ok AV_Null
            else and_then (ok_or (if unat row < length offsets then Some (offsets ! unat row) else None) OffsetRange)
              (value_of_kind kind (ea_data a))))"

definition decode_selected_rows :: "PreparedEncodedArray \<Rightarrow> u32 list \<Rightarrow> CoveArrayValue list result" where
  "decode_selected_rows p rows = collect_map (\<lambda>row. PreparedEncodedArray_decode_row p (ucast row)) rows"

definition PreparedEncodedArray_decode_all_rows :: "PreparedEncodedArray \<Rightarrow> CoveArrayValue list result" where
  "PreparedEncodedArray_decode_all_rows p = (case pa_repr p of
       Repr_DecodedValues vs \<Rightarrow> Ok vs
     | _ \<Rightarrow> collect_map (PreparedEncodedArray_decode_row p) (array_rows (pa_array p)))"

section \<open>Skipping and reading agree\<close>

locale row_reader =
  fixes read_value :: "bytes \<Rightarrow> usize \<Rightarrow> CoveArrayValue result"
    and skip_row :: "bytes \<Rightarrow> usize \<Rightarrow> usize result"
    and read_row :: "bytes \<Rightarrow> usize \<Rightarrow> (CoveArrayValue \<times> usize) result"
  assumes reads: "read_row data pos = Ok (v, q) \<Longrightarrow> read_value data pos = Ok v \<and> skip_row data pos = Ok q"
begin

lemma read_rows_each:
  "read_rows read_row a rows pos = Ok vs \<Longrightarrow> length vs = length rows \<and>
     (\<exists>offs. row_offsets skip_row (ea_data a) (length rows) pos = Ok offs \<and> length offs = length rows \<and>
       (\<forall>i<length rows. skip_rows skip_row (ea_data a) i pos = Ok (offs ! i) \<and>
         unless_null a (rows ! i) (read_value (ea_data a) (offs ! i)) = Ok (vs ! i)))"
proof (induction rows arbitrary: pos vs)
  case (Cons row rows)
  from Cons.prems obtain v q w ws where step: "read_row (ea_data a) pos = Ok (v, q)" "unless_null a row (Ok v) = Ok w"
      and rest: "read_rows read_row a rows q = Ok ws" and vs: "vs = w # ws"
    by (auto simp: result_simps)
  have here: "read_value (ea_data a) pos = Ok v" "skip_row (ea_data a) pos = Ok q" using reads [OF step(1)] by simp_all
  from Cons.IH [OF rest] obtain offs where offs: "row_offsets skip_row (ea_data a) (length rows) q = Ok offs" "length offs = length rows"
      "length ws = length rows"
      "\<And>i. i < length rows \<Longrightarrow> skip_rows skip_row (ea_data a) i q = Ok (offs ! i) \<and>
         unless_null a (rows ! i) (read_value (ea_data a) (offs ! i)) = Ok (ws ! i)"
    by blast
  have "skip_rows skip_row (ea_data a) i pos = Ok ((pos # offs) ! i) \<and>
      unless_null a ((row # rows) ! i) (read_value (ea_data a) ((pos # offs) ! i)) = Ok (vs ! i)" if "i < Suc (length rows)" for i
    using that offs(4) step(2) here vs by (cases i) auto
  then show ?case using offs here vs by (intro conjI exI [of _ "pos # offs"]) auto
qed simp

end

interpretation varint_rows: row_reader varint_value varint_skip varint_row
proof
  fix data pos v q
  assume "varint_row data pos = Ok (v, q)"
  then show "varint_value data pos = Ok v \<and> varint_skip data pos = Ok q"
    by (auto simp: varint_value_def varint_skip_def varint_row_def result_simps split: if_splits)
qed

interpretation varbytes_rows: row_reader varbytes_value varbytes_skip varbytes_row
proof
  fix data pos v q
  assume "varbytes_row data pos = Ok (v, q)"
  then obtain len where "read_u32_le data pos = Ok len" "pos + 4 + unat len < usize_bound" "pos + 4 + unat len \<le> length data"
      "v = AV_Bytes (slice (pos + 4) (unat len) data)" "q = pos + 4 + unat len"
    by (auto simp: varbytes_row_def result_simps read_range_checked_Ok)
  then show "varbytes_value data pos = Ok v \<and> varbytes_skip data pos = Ok q"
    by (simp add: varbytes_value_def varbytes_skip_def checked_add_def read_range_checked_def)
qed

interpretation canonical_rows: row_reader canonical_value canonical_skip canonical_row
proof
  fix data pos v q
  assume "canonical_row data pos = Ok (v, q)"
  then obtain len n where "pos \<le> length data" "decode_u64_leb128 (drop pos data) = Ok (len, n)"
      "pos + n + unat len < usize_bound" "pos + n + unat len \<le> length data"
      "v = AV_Bytes (slice (pos + n) (unat len) data)" "q = pos + n + unat len"
    by (auto simp: canonical_row_def result_simps read_range_checked_Ok)
  then show "canonical_value data pos = Ok v \<and> canonical_skip data pos = Ok q"
    by (simp add: canonical_value_def canonical_skip_def checked_add_def read_range_checked_def bytes_from_def)
qed

section \<open>The three ways to read a page agree\<close>

lemma array_rows_nth: "i < unat (ea_row_count a) \<Longrightarrow> array_rows a ! i = of_nat i"
  by (simp add: array_rows_def)

lemma length_array_rows [simp]: "length (array_rows a) = unat (ea_row_count a)"
  by (simp add: array_rows_def)

lemma row_index: "i < unat (ea_row_count a) \<Longrightarrow> unat (of_nat i :: u64) = i \<and> (of_nat i :: u64) < ea_row_count a"
proof -
  assume i: "i < unat (ea_row_count a)"
  have "i < 2 ^ 64" using i unat_less_power [of "ea_row_count a"] by simp
  then have "unat (of_nat i :: u64) = i" by (simp add: unat_of_nat)
  then show ?thesis using i by (simp add: word_less_nat_alt)
qed

lemma decode_row_unfold:
  "i < unat (ea_row_count a) \<Longrightarrow> EncodedArray_decode_row a (of_nat i) = unless_null a (of_nat i) (decode_present_row a (of_nat i))"
  using row_index [of i a] by (simp add: EncodedArray_decode_row_def unless_null_def linorder_not_le [symmetric])

lemma collect_rows_each:
  "collect_map f (array_rows a) = Ok vs \<Longrightarrow> length vs = unat (ea_row_count a) \<and> (\<forall>i<unat (ea_row_count a). f (of_nat i) = Ok (vs ! i))"
  using collect_map_length [of f "array_rows a" vs] collect_map_nth [of f "array_rows a" vs] by (auto simp: array_rows_nth)

lemma values_from_each:
  "values_from a convert ws = Ok vs \<Longrightarrow> length ws = unat (ea_row_count a) \<and> length vs = unat (ea_row_count a) \<and>
     (\<forall>i<unat (ea_row_count a). unless_null a (of_nat i) (convert (ws ! i)) = Ok (vs ! i))"
proof -
  let ?f = "\<lambda>(row, v). unless_null a (of_nat row) (convert v)"
  assume v: "values_from a convert ws = Ok vs"
  then have l: "length ws = unat (ea_row_count a)" and c: "collect_map ?f (enumerate 0 ws) = Ok vs"
    by (auto simp: values_from_def split: if_splits)
  have "unless_null a (of_nat i) (convert (ws ! i)) = Ok (vs ! i)" if "i < unat (ea_row_count a)" for i
    using collect_map_nth [OF c, of i] that l by (simp add: nth_enumerate_eq)
  then show ?thesis using l collect_map_length [OF c] by simp
qed

lemma value_from_vec_each:
  "length ws = unat (ea_row_count a) \<Longrightarrow> i < unat (ea_row_count a) \<Longrightarrow> value_from_vec a convert (of_nat i) ws = convert (ws ! i)"
  using row_index [of i a] by (simp add: value_from_vec_def ok_or_def)

text \<open>What a page decodes to, row by row: the value of the row read alone, and for the variable-width encodings the
  recorded position of the row.\<close>

definition validity_covers :: "EncodedArray \<Rightarrow> bool" where
  "validity_covers a \<longleftrightarrow> (case ea_validity a of None \<Rightarrow> True
     | Some bm \<Rightarrow> ea_row_count a \<le> vb_row_count bm \<and> unat (ea_row_count a) \<le> 8 * length (vb_bytes bm))"

lemma is_null_covered:
  assumes "validity_covers a" "i < unat (ea_row_count a)"
  shows "\<exists>b. EncodedArray_is_null a (of_nat i) = Ok b"
proof (cases "ea_validity a")
  case None
  then show ?thesis using row_index [OF assms(2)] by (intro exI [of _ False]) (simp add: EncodedArray_is_null_def linorder_not_le [symmetric])
next
  case (Some bm)
  have i: "(of_nat i :: u64) < ea_row_count a" "unat (of_nat i :: u64) = i" using row_index [OF assms(2)] by simp_all
  moreover have "(of_nat i :: u64) < vb_row_count bm" using assms(1) Some i(1) by (auto simp: validity_covers_def)
  moreover have "i div 8 < length (vb_bytes bm)" using assms Some by (auto simp: validity_covers_def)
  ultimately show ?thesis using Some by (simp add: EncodedArray_is_null_def ValidityBitmap_is_null_def Let_def ok_or_def linorder_not_le [symmetric])
qed

lemma decode_all_i64:
  assumes "decode_i64_page (ea_encoding a) (ea_data a) = Some m"
  shows "EncodedArray_decode_all_rows a = and_then m (values_from a (value_from_i64 a))"
    and "decode_present_row a row = and_then m (value_from_vec a (value_from_i64 a) row)"
  using assms by (cases "ea_encoding a"; simp add: EncodedArray_decode_all_rows_def decode_present_row_def decode_i64_page_def)+

lemma decode_all_direct:
  assumes "decode_i64_page (ea_encoding a) (ea_data a) = None" "ea_encoding a \<notin> {EK_LocalCodebook, EK_PlainVarint, EK_VarBytes, EK_Canonical}"
  shows "EncodedArray_decode_all_rows a = collect_rows a (decode_present_row a)"
  using assms by (cases "ea_encoding a"; simp add: EncodedArray_decode_all_rows_def decode_i64_page_def)

definition agrees_with :: "EncodedArray \<Rightarrow> (u64 \<Rightarrow> CoveArrayValue result) \<Rightarrow> CoveArrayValue list \<Rightarrow> bool" where
  "agrees_with a read vs \<longleftrightarrow> length vs = unat (ea_row_count a) \<and> (\<forall>i<unat (ea_row_count a). read (of_nat i) = Ok (vs ! i))"

lemma agrees_rowI:
  "length vs = unat (ea_row_count a) \<Longrightarrow>
     (\<And>i. i < unat (ea_row_count a) \<Longrightarrow> unless_null a (of_nat i) (decode_present_row a (of_nat i)) = Ok (vs ! i)) \<Longrightarrow>
     agrees_with a (EncodedArray_decode_row a) vs"
  by (simp add: agrees_with_def decode_row_unfold)

lemma direct_agrees: "collect_rows a (decode_present_row a) = Ok vs \<Longrightarrow> agrees_with a (EncodedArray_decode_row a) vs"
  using collect_rows_each [of "\<lambda>row. unless_null a row (decode_present_row a row)" a vs]
  by (intro agrees_rowI) (simp_all add: collect_rows_def)

lemma values_agree:
  assumes "and_then m (values_from a convert) = Ok vs" "\<And>row. decode_present_row a row = and_then m (value_from_vec a convert row)"
  shows "agrees_with a (EncodedArray_decode_row a) vs"
proof -
  from assms(1) obtain ws where ws: "m = Ok ws" "values_from a convert ws = Ok vs" by (auto simp: and_then_eq_Ok)
  show ?thesis using values_from_each [OF ws(2)] by (intro agrees_rowI) (simp_all add: assms(2) ws(1) value_from_vec_each)
qed

lemma reader_agrees:
  assumes "read_rows row a (array_rows a) 0 = Ok vs" "row_reader read_value skip_row row"
    and "\<And>r. decode_present_row a r = and_then (skip_rows skip_row (ea_data a) (unat r) 0) (read_value (ea_data a))"
  shows "agrees_with a (EncodedArray_decode_row a) vs"
proof -
  obtain offs where o: "length vs = unat (ea_row_count a)"
      "\<And>i. i < unat (ea_row_count a) \<Longrightarrow> skip_rows skip_row (ea_data a) i 0 = Ok (offs ! i) \<and>
         unless_null a (of_nat i) (read_value (ea_data a) (offs ! i)) = Ok (vs ! i)"
    using row_reader.read_rows_each [OF assms(2,1)] by (auto simp: array_rows_nth)
  show ?thesis using o(1)
  proof (rule agrees_rowI)
    fix i assume i: "i < unat (ea_row_count a)"
    then show "unless_null a (of_nat i) (decode_present_row a (of_nat i)) = Ok (vs ! i)"
      using o(2) [OF i] row_index [OF i] by (simp add: assms(3))
  qed
qed

lemma fixed_agrees:
  assumes "collect_map (\<lambda>row. and_then (read row) (\<lambda>v. unless_null a row (Ok v))) (array_rows a) = Ok vs"
    and "\<And>row. decode_present_row a row = read row"
  shows "agrees_with a (EncodedArray_decode_row a) vs"
proof (rule agrees_rowI)
  note each = collect_rows_each [OF assms(1)]
  show "length vs = unat (ea_row_count a)" by (rule each [THEN conjunct1])
  fix i assume "i < unat (ea_row_count a)"
  then have "and_then (read (of_nat i)) (\<lambda>v. unless_null a (of_nat i) (Ok v)) = Ok (vs ! i)" by (rule each [THEN conjunct2, rule_format])
  then obtain v where "read (of_nat i) = Ok v" "unless_null a (of_nat i) (Ok v) = Ok (vs ! i)" by (auto simp: and_then_eq_Ok)
  then show "unless_null a (of_nat i) (decode_present_row a (of_nat i)) = Ok (vs ! i)" by (simp only: assms(2))
qed

lemma canonical_agrees:
  assumes c: "decode_all_canonical_rows a = Ok vs" and e: "ea_encoding a = EK_Canonical" and v: "validity_covers a"
  shows "agrees_with a (EncodedArray_decode_row a) vs"
proof -
  have p: "decode_present_row a row = decode_canonical_row a row" for row by (simp add: decode_present_row_def e)
  consider "ea_logical a = LT_Null" | "ea_logical a = LT_Bool" | "text_logical (ea_logical a)" "ea_logical a \<notin> {LT_Null, LT_Bool}"
    | "ea_logical a \<notin> {LT_Null, LT_Bool}" "\<not> text_logical (ea_logical a)" by (auto simp: text_logical_def)
  then show ?thesis
  proof cases
    case 1
    then have vs: "vs = replicate (unat (ea_row_count a)) AV_Null" using c by (simp add: decode_all_canonical_rows_def)
    have "unless_null a (of_nat i) (Ok AV_Null) = Ok AV_Null" if "i < unat (ea_row_count a)" for i
      using is_null_covered [OF v that] by (auto simp: unless_null_def)
    then show ?thesis by (intro agrees_rowI) (simp_all add: vs p decode_canonical_row_def 1)
  next
    case 2
    then show ?thesis using c by (intro direct_agrees) (simp add: decode_all_canonical_rows_def)
  next
    case 3
    then show ?thesis using c
      by (intro reader_agrees [OF _ canonical_rows.row_reader_axioms]) (simp_all add: decode_all_canonical_rows_def p decode_canonical_row_def)
  next
    case 4
    then obtain w where w: "canonical_width (ea_logical a) = Ok w"
        "collect_map (\<lambda>row. and_then (fixed_row a w row) (\<lambda>v. unless_null a row (Ok v))) (array_rows a) = Ok vs"
      using c by (auto simp: decode_all_canonical_rows_def and_then_eq_Ok)
    show ?thesis using w 4 by (intro fixed_agrees [OF w(2)]) (simp add: p decode_canonical_row_def)
  qed
qed

lemma all_rows_agree:
  assumes "EncodedArray_decode_all_rows a = Ok vs" "validity_covers a"
  shows "agrees_with a (EncodedArray_decode_row a) vs"
proof (cases "decode_i64_page (ea_encoding a) (ea_data a)")
  case (Some m)
  show ?thesis using assms(1) unfolding decode_all_i64(1) [OF Some] by (rule values_agree) (rule decode_all_i64(2) [OF Some])
next
  case None
  consider "ea_encoding a = EK_LocalCodebook" | "ea_encoding a = EK_PlainVarint" | "ea_encoding a = EK_VarBytes"
    | "ea_encoding a = EK_Canonical" | "ea_encoding a \<notin> {EK_LocalCodebook, EK_PlainVarint, EK_VarBytes, EK_Canonical}" by blast
  then show ?thesis
  proof cases
    case 1
    then show ?thesis using assms(1)
      by (intro values_agree [where m = "and_then (LocalCodebookPayload_parse (ea_data a)) LocalCodebookPayload_decode_values"
            and convert = "value_from_local_codebook a"])
        (simp_all add: EncodedArray_decode_all_rows_def decode_present_row_def and_then_assoc)
  next
    case 2
    then show ?thesis using assms(1)
      by (intro reader_agrees [OF _ varint_rows.row_reader_axioms]) (simp_all add: EncodedArray_decode_all_rows_def decode_present_row_def)
  next
    case 3
    then show ?thesis using assms(1)
      by (intro reader_agrees [OF _ varbytes_rows.row_reader_axioms]) (simp_all add: EncodedArray_decode_all_rows_def decode_present_row_def)
  next
    case 4
    then show ?thesis using assms by (intro canonical_agrees) (simp_all add: EncodedArray_decode_all_rows_def)
  next
    case 5
    then show ?thesis using assms(1) None decode_all_direct [of a] by (intro direct_agrees) simp
  qed
qed

lemma offsets_agree:
  assumes "read_rows row a (array_rows a) 0 = Ok vs" "row_reader (value_of_kind kind) (skip_of_kind kind) row"
  shows "\<exists>repr. variable_offsets kind a = Ok repr \<and> agrees_with a (PreparedEncodedArray_decode_row \<lparr>pa_array = a, pa_repr = repr\<rparr>) vs
    \<and> (\<nexists>ws. repr = Repr_DecodedValues ws)"
proof -
  obtain offs where o: "length vs = unat (ea_row_count a)" "row_offsets (skip_of_kind kind) (ea_data a) (unat (ea_row_count a)) 0 = Ok offs"
      "length offs = unat (ea_row_count a)"
      "\<And>i. i < unat (ea_row_count a) \<Longrightarrow> unless_null a (of_nat i) (value_of_kind kind (ea_data a) (offs ! i)) = Ok (vs ! i)"
    using row_reader.read_rows_each [OF assms(2,1)] by (auto simp: array_rows_nth)
  have "PreparedEncodedArray_decode_row \<lparr>pa_array = a, pa_repr = Repr_VariableOffsets kind offs\<rparr> (of_nat i) = Ok (vs ! i)"
    if "i < unat (ea_row_count a)" for i
  proof -
    have u: "unat (of_nat i :: u64) = i" "\<not> ea_row_count a \<le> of_nat i" using row_index [OF that] by (simp_all add: linorder_not_le)
    have "unat (of_nat i :: u64) < length offs" "offs ! unat (of_nat i :: u64) = offs ! i" using u(1) o(3) that by simp_all
    then show ?thesis using o(4) [OF that] u(2) by (simp add: PreparedEncodedArray_decode_row_def unless_null_def ok_or_def cong: if_cong)
  qed
  then show ?thesis using o(1,2) by (auto simp: variable_offsets_def agrees_with_def)
qed

lemma collect_agrees: "agrees_with a read vs \<Longrightarrow> collect_map read (array_rows a) = Ok vs"
proof -
  assume r: "agrees_with a read vs"
  have "collect_map read (array_rows a) = Ok (map (\<lambda>row. vs ! unat row) (array_rows a))"
    using r by (intro collect_map_Ok) (auto simp: agrees_with_def array_rows_def row_index)
  moreover have "map (\<lambda>row. vs ! unat row) (array_rows a) = vs"
    using r by (intro nth_equalityI) (auto simp: agrees_with_def array_rows_nth row_index)
  ultimately show ?thesis by simp
qed

lemma prepared_agrees:
  assumes all: "EncodedArray_decode_all_rows a = Ok vs" and v: "validity_covers a"
  shows "\<exists>p. EncodedArray_prepare a = Ok p \<and> agrees_with a (PreparedEncodedArray_decode_row p) vs \<and> PreparedEncodedArray_decode_all_rows p = Ok vs"
proof -
  let ?ok = "\<lambda>repr. agrees_with a (PreparedEncodedArray_decode_row \<lparr>pa_array = a, pa_repr = repr\<rparr>) vs
    \<and> PreparedEncodedArray_decode_all_rows \<lparr>pa_array = a, pa_repr = repr\<rparr> = Ok vs"
  have n: "length vs = unat (ea_row_count a)" using all_rows_agree [OF all v] by (simp add: agrees_with_def)
  have direct: "?ok Repr_Direct"
  proof -
    have "agrees_with a (PreparedEncodedArray_decode_row \<lparr>pa_array = a, pa_repr = Repr_Direct\<rparr>) vs"
      using all_rows_agree [OF all v] row_index [of _ a]
      by (simp add: agrees_with_def PreparedEncodedArray_decode_row_def linorder_not_le [symmetric])
    then show ?thesis using collect_agrees by (simp add: PreparedEncodedArray_decode_all_rows_def)
  qed
  have decoded: "?ok (Repr_DecodedValues vs)"
    using n row_index [of _ a]
    by (simp add: agrees_with_def PreparedEncodedArray_decode_row_def PreparedEncodedArray_decode_all_rows_def linorder_not_le [symmetric])
  have offsets: "\<exists>repr. variable_offsets kind a = Ok repr \<and> ?ok repr"
    if "read_rows row a (array_rows a) 0 = Ok vs" "row_reader (value_of_kind kind) (skip_of_kind kind) row" for row kind
    using offsets_agree [OF that] collect_agrees by (auto simp: PreparedEncodedArray_decode_all_rows_def split: PreparedArrayRepr.splits)
  consider "ea_encoding a = EK_PlainVarint" | "ea_encoding a = EK_VarBytes" | "ea_encoding a = EK_Canonical" "text_logical (ea_logical a)"
    | "ea_encoding a \<notin> {EK_PlainVarint, EK_VarBytes}" "\<not> (ea_encoding a = EK_Canonical \<and> text_logical (ea_logical a))" by blast
  then show ?thesis
  proof cases
    case 1
    then have "\<exists>repr. variable_offsets VO_PlainVarint a = Ok repr \<and> ?ok repr"
      using all varint_rows.row_reader_axioms by (intro offsets [of varint_row]) (simp_all add: EncodedArray_decode_all_rows_def)
    then show ?thesis using 1 by (auto simp: EncodedArray_prepare_def)
  next
    case 2
    then have "\<exists>repr. variable_offsets VO_VarBytes a = Ok repr \<and> ?ok repr"
      using all varbytes_rows.row_reader_axioms by (intro offsets [of varbytes_row]) (simp_all add: EncodedArray_decode_all_rows_def)
    then show ?thesis using 2 by (auto simp: EncodedArray_prepare_def)
  next
    case 3
    then have "ea_logical a \<noteq> LT_Null" "ea_logical a \<noteq> LT_Bool" by (auto simp: text_logical_def)
    then have "\<exists>repr. variable_offsets VO_CanonicalLengthPrefixed a = Ok repr \<and> ?ok repr"
      using 3 all canonical_rows.row_reader_axioms
      by (intro offsets [of canonical_row]) (simp_all add: EncodedArray_decode_all_rows_def decode_all_canonical_rows_def)
    then show ?thesis using 3 by (auto simp: EncodedArray_prepare_def)
  next
    case 4
    then show ?thesis using direct decoded all by (auto simp: EncodedArray_prepare_def)
  qed
qed

text \<open>C19: A page that decodes as a whole gives the same value for every row when the row is read alone, when it is read
  through a prepared view, when it is read as part of a selection, and when the view reads all rows.\<close>

theorem array_access_agrees:
  assumes "EncodedArray_decode_all_rows a = Ok vs" "validity_covers a"
  shows "agrees_with a (EncodedArray_decode_row a) vs
    \<and> (\<exists>p. EncodedArray_prepare a = Ok p \<and> agrees_with a (PreparedEncodedArray_decode_row p) vs
         \<and> PreparedEncodedArray_decode_all_rows p = Ok vs
         \<and> (list_all (\<lambda>r. ucast r < ea_row_count a) rows \<longrightarrow> decode_selected_rows p rows = Ok (map (\<lambda>r. vs ! unat r) rows)))"
proof -
  obtain p where p: "EncodedArray_prepare a = Ok p" "agrees_with a (PreparedEncodedArray_decode_row p) vs"
      "PreparedEncodedArray_decode_all_rows p = Ok vs"
    using prepared_agrees [OF assms] by blast
  have "PreparedEncodedArray_decode_row p (ucast r) = Ok (vs ! unat r)" if "ucast r < ea_row_count a" for r :: u32
  proof -
    have "unat (ucast r :: u64) = unat r" using unat_less_power [of r] by (simp add: unsigned_ucast_eq take_bit_nat_eq_self_iff)
    then have "unat r < unat (ea_row_count a)" using that by (simp add: word_less_nat_alt)
    then have "PreparedEncodedArray_decode_row p (of_nat (unat r)) = Ok (vs ! unat r)"
      using p(2) unfolding agrees_with_def by blast
    moreover have "(of_nat (unat r) :: u64) = ucast r" by simp
    ultimately show ?thesis by simp
  qed
  then have "decode_selected_rows p rows = Ok (map (\<lambda>r. vs ! unat r) rows)" if "list_all (\<lambda>r. ucast r < ea_row_count a) rows"
    using that by (simp add: decode_selected_rows_def list_all_iff collect_map_Ok)
  then show ?thesis using p all_rows_agree [OF assms] by blast
qed

definition sample_array :: EncodedArray where
  "sample_array = EncodedArray_new LT_UInt64 PK_NumCode 3 EK_PlainVarint (Some (ValidityBitmap_new [2] 3)) [5, 0x80, 1, 9] None"

theorem array_access_agrees_witness:
  "agrees_with sample_array (EncodedArray_decode_row sample_array) [AV_Varint 5, AV_Null, AV_Varint 9]
    \<and> (\<exists>p. EncodedArray_prepare sample_array = Ok p \<and> decode_selected_rows p [2, 1] = Ok [AV_Varint 9, AV_Null])"
proof -
  have "array_rows sample_array = [0, 1, 2]"
    by (simp add: array_rows_def sample_array_def EncodedArray_new_def upt_rec)
  moreover have "decode_u64_leb128 [5, 0x80, 1, 9] = Ok (5, 1)" "decode_u64_leb128 [0x80, 1, 9] = Ok (128, 2)" "decode_u64_leb128 [9] = Ok (9, 1)"
    by (simp_all add: decode_u64_leb128_def)
  moreover have "EncodedArray_is_null sample_array 0 = Ok False" "EncodedArray_is_null sample_array 1 = Ok True"
      "EncodedArray_is_null sample_array 2 = Ok False"
    by (simp_all add: EncodedArray_is_null_def sample_array_def EncodedArray_new_def ValidityBitmap_new_def ValidityBitmap_is_null_def ok_or_def
        word_le_nat_alt)
  moreover have "ea_encoding sample_array = EK_PlainVarint" "ea_data sample_array = [5, 0x80, 1, 9]"
    by (simp_all add: sample_array_def EncodedArray_new_def)
  ultimately have "EncodedArray_decode_all_rows sample_array = Ok [AV_Varint 5, AV_Null, AV_Varint 9]"
    by (simp add: EncodedArray_decode_all_rows_def varint_row_def bytes_from_def checked_add_def unless_null_def)
  moreover have "validity_covers sample_array"
    by (simp add: validity_covers_def sample_array_def EncodedArray_new_def ValidityBitmap_new_def)
  ultimately show ?thesis using array_access_agrees [of sample_array "[AV_Varint 5, AV_Null, AV_Varint 9]" "[2, 1]"]
    by (auto simp: sample_array_def EncodedArray_new_def)
qed

end
