(* ===== verification/Registered_Codec.thy ===== *)
theory Registered_Codec
  imports Encoded_Array Page_Payload Page_Index Types
begin

text \<open>
  Registered codecs (\<open>cove-core/src/codec.rs\<close>): the descriptors of codec extensions, the envelope a registered
  page carries in its parameters, and the materialization of such a page as an ordinary one, decoded by the codec
  or taken from the fallback. The codecs themselves are outside the format: a resolver is a parameter, and the two
  resolvers of the source are defined. The theorems show that materialization preserves the logical page, and that
  descriptors are read back.
\<close>

section \<open>Descriptors\<close>

datatype CodecSpecificationStatusV2 = Spec_Candidate | Spec_ProvisionalRegistered | Spec_StableRegistered | Spec_Deprecated | Spec_VendorPrivate

primrec CodecSpecificationStatusV2_code :: "CodecSpecificationStatusV2 \<Rightarrow> u8" where
  "CodecSpecificationStatusV2_code Spec_Candidate = 0"
| "CodecSpecificationStatusV2_code Spec_ProvisionalRegistered = 1"
| "CodecSpecificationStatusV2_code Spec_StableRegistered = 2"
| "CodecSpecificationStatusV2_code Spec_Deprecated = 3"
| "CodecSpecificationStatusV2_code Spec_VendorPrivate = 255"

definition CodecSpecificationStatusV2_from_u8 :: "u8 \<Rightarrow> CodecSpecificationStatusV2 option" where
  "CodecSpecificationStatusV2_from_u8 v = map_of
     [(0, Spec_Candidate), (1, Spec_ProvisionalRegistered), (2, Spec_StableRegistered), (3, Spec_Deprecated), (255, Spec_VendorPrivate)] v"

interpretation codecSpecificationStatusV2: wire_enum CodecSpecificationStatusV2_code CodecSpecificationStatusV2_from_u8
proof
  fix k show "CodecSpecificationStatusV2_from_u8 (CodecSpecificationStatusV2_code k) = Some k" by (cases k) (simp_all add: CodecSpecificationStatusV2_from_u8_def)
next
  fix v k assume "CodecSpecificationStatusV2_from_u8 v = Some k"
  then show "CodecSpecificationStatusV2_code k = v" by (auto simp: CodecSpecificationStatusV2_from_u8_def split: if_splits)
qed

datatype CodecRequirementV2 = Req_OptionalWithFallback | Req_RequiredForDecode | Req_SidecarOnly

primrec CodecRequirementV2_code :: "CodecRequirementV2 \<Rightarrow> u8" where
  "CodecRequirementV2_code Req_OptionalWithFallback = 0"
| "CodecRequirementV2_code Req_RequiredForDecode = 1"
| "CodecRequirementV2_code Req_SidecarOnly = 2"

definition CodecRequirementV2_from_u8 :: "u8 \<Rightarrow> CodecRequirementV2 option" where
  "CodecRequirementV2_from_u8 v = map_of
     [(0, Req_OptionalWithFallback), (1, Req_RequiredForDecode), (2, Req_SidecarOnly)] v"

interpretation codecRequirementV2: wire_enum CodecRequirementV2_code CodecRequirementV2_from_u8
proof
  fix k show "CodecRequirementV2_from_u8 (CodecRequirementV2_code k) = Some k" by (cases k) (simp_all add: CodecRequirementV2_from_u8_def)
next
  fix v k assume "CodecRequirementV2_from_u8 v = Some k"
  then show "CodecRequirementV2_code k = v" by (auto simp: CodecRequirementV2_from_u8_def split: if_splits)
qed

datatype CodecFallbackPolicyV2 = Policy_NoFallback | Policy_CoreEncodingPayloadPresent | Policy_DictionaryOrCanonicalDecodePath | Policy_ExternalRequiredExtension

primrec CodecFallbackPolicyV2_code :: "CodecFallbackPolicyV2 \<Rightarrow> u8" where
  "CodecFallbackPolicyV2_code Policy_NoFallback = 0"
| "CodecFallbackPolicyV2_code Policy_CoreEncodingPayloadPresent = 1"
| "CodecFallbackPolicyV2_code Policy_DictionaryOrCanonicalDecodePath = 2"
| "CodecFallbackPolicyV2_code Policy_ExternalRequiredExtension = 3"

definition CodecFallbackPolicyV2_from_u8 :: "u8 \<Rightarrow> CodecFallbackPolicyV2 option" where
  "CodecFallbackPolicyV2_from_u8 v = map_of
     [(0, Policy_NoFallback), (1, Policy_CoreEncodingPayloadPresent), (2, Policy_DictionaryOrCanonicalDecodePath), (3, Policy_ExternalRequiredExtension)] v"

interpretation codecFallbackPolicyV2: wire_enum CodecFallbackPolicyV2_code CodecFallbackPolicyV2_from_u8
proof
  fix k show "CodecFallbackPolicyV2_from_u8 (CodecFallbackPolicyV2_code k) = Some k" by (cases k) (simp_all add: CodecFallbackPolicyV2_from_u8_def)
next
  fix v k assume "CodecFallbackPolicyV2_from_u8 v = Some k"
  then show "CodecFallbackPolicyV2_code k = v" by (auto simp: CodecFallbackPolicyV2_from_u8_def split: if_splits)
qed

definition requires_fallback_ref :: "CodecFallbackPolicyV2 \<Rightarrow> bool" where
  "requires_fallback_ref policy \<longleftrightarrow> policy \<noteq> Policy_NoFallback"

definition CODEC_ABSENT_REF :: u32 where "CODEC_ABSENT_REF = - 1"

record CodecExtensionDescriptorV2 =
  ced_codec_id :: u32
  ced_namespace :: bytes
  ced_name :: bytes
  ced_version_major :: u16
  ced_version_minor :: u16
  ced_codec_family :: u16
  ced_logical_type_mask :: u64
  ced_physical_kind_mask :: u64
  ced_requirement :: CodecRequirementV2
  ced_fallback_policy :: CodecFallbackPolicyV2
  ced_parameter_schema_kind :: u8
  ced_flags :: u8
  ced_specification_status :: CodecSpecificationStatusV2
  ced_required_feature_bit :: u64
  ced_optional_feature_bit :: u64
  ced_spec_digest_algorithm :: u16
  ced_spec_digest :: bytes
  ced_conformance_vector_ref :: u32
  ced_fallback_ref :: u32
  ced_private_payload_ref :: u32
  ced_checksum :: u32

text \<open>\<open>validate\<close> is \<open>validate_without_checksum\<close>.\<close>

definition CodecExtensionDescriptorV2_validate :: "CodecExtensionDescriptorV2 \<Rightarrow> unit result" where
  "CodecExtensionDescriptorV2_validate d =
     (if ced_namespace d = [] \<or> ced_name d = [] then Err BadCodecExtension
      else if ced_parameter_schema_kind d > 3 then Err BadCodecExtension
      else if ced_requirement d = Req_OptionalWithFallback \<and> ced_fallback_policy d = Policy_NoFallback then Err BadCodecExtension
      else if requires_fallback_ref (ced_fallback_policy d) \<and> ced_fallback_ref d = CODEC_ABSENT_REF then Err BadCodecExtension
      else if ced_specification_status d = Spec_Candidate \<and> ced_requirement d = Req_RequiredForDecode
        \<and> ced_fallback_policy d = Policy_NoFallback then Err BadCodecExtension
      else if ced_specification_status d = Spec_StableRegistered \<and> ced_requirement d = Req_RequiredForDecode
        \<and> ced_fallback_policy d = Policy_NoFallback \<and> ced_required_feature_bit d = 0 then Err BadCodecExtension
      else Ok ())"

definition descriptor_body :: "CodecExtensionDescriptorV2 \<Rightarrow> bytes" where
  "descriptor_body d =
     le_bytes 4 (ced_codec_id d)
     @ le_bytes 2 (of_nat (length (ced_namespace d)) :: u16) @ ced_namespace d
     @ le_bytes 2 (of_nat (length (ced_name d)) :: u16) @ ced_name d
     @ le_bytes 2 (ced_version_major d) @ le_bytes 2 (ced_version_minor d) @ le_bytes 2 (ced_codec_family d)
     @ le_bytes 8 (ced_logical_type_mask d) @ le_bytes 8 (ced_physical_kind_mask d)
     @ [CodecRequirementV2_code (ced_requirement d), CodecFallbackPolicyV2_code (ced_fallback_policy d),
        ced_parameter_schema_kind d, ced_flags d, CodecSpecificationStatusV2_code (ced_specification_status d), 0, 0, 0]
     @ le_bytes 8 (ced_required_feature_bit d) @ le_bytes 8 (ced_optional_feature_bit d)
     @ le_bytes 2 (ced_spec_digest_algorithm d)
     @ le_bytes 2 (of_nat (length (ced_spec_digest d)) :: u16) @ ced_spec_digest d
     @ le_bytes 4 (ced_conformance_vector_ref d) @ le_bytes 4 (ced_fallback_ref d) @ le_bytes 4 (ced_private_payload_ref d)"

text \<open>What is hashed: the checksum field is zero.\<close>

definition descriptor_image :: "CodecExtensionDescriptorV2 \<Rightarrow> bytes" where
  "descriptor_image d = descriptor_body d @ le_bytes 4 (0 :: u32)"

definition CodecExtensionDescriptorV2_serialize :: "(bytes \<Rightarrow> u32) \<Rightarrow> CodecExtensionDescriptorV2 \<Rightarrow> bytes result" where
  "CodecExtensionDescriptorV2_serialize crc d =
     (if length (ced_namespace d) > 2 ^ 16 - 1 \<or> length (ced_name d) > 2 ^ 16 - 1 then Err BadCodecExtension
      else if length (ced_spec_digest d) > 2 ^ 16 - 1 then Err BadCodecExtension
      else and_then (CodecExtensionDescriptorV2_validate d) (\<lambda>_.
        let out = descriptor_image d in Ok (put (length out - 4) (le_bytes 4 (crc out)) out)))"

definition codec_utf8 :: "bytes \<Rightarrow> string \<Rightarrow> bytes result" where
  "codec_utf8 bs field = (if utf8_valid bs then Ok bs else Err (BadSection (field @ '' is not valid UTF-8'')))"

definition CodecExtensionDescriptorV2_parse_one :: "(bytes \<Rightarrow> u32) \<Rightarrow> bytes \<Rightarrow> (CodecExtensionDescriptorV2 \<times> usize) result" where
  "CodecExtensionDescriptorV2_parse_one crc bs =
     and_then (Cursor_u32 bs 0) (\<lambda>(codec_id, p).
     and_then (Cursor_u16 bs p) (\<lambda>(namespace_len, p).
     and_then (Cursor_bytes bs p (unat namespace_len)) (\<lambda>(namespace_bytes, p).
     and_then (codec_utf8 namespace_bytes ''codec namespace'') (\<lambda>namespace.
     and_then (Cursor_u16 bs p) (\<lambda>(name_len, p).
     and_then (Cursor_bytes bs p (unat name_len)) (\<lambda>(name_bytes, p).
     and_then (codec_utf8 name_bytes ''codec name'') (\<lambda>name.
     and_then (Cursor_u16 bs p) (\<lambda>(version_major, p).
     and_then (Cursor_u16 bs p) (\<lambda>(version_minor, p).
     and_then (Cursor_u16 bs p) (\<lambda>(codec_family, p).
     and_then (Cursor_u64 bs p) (\<lambda>(logical_type_mask, p).
     and_then (Cursor_u64 bs p) (\<lambda>(physical_kind_mask, p).
     and_then (Cursor_u8 bs p) (\<lambda>(requirement_raw, p).
     and_then (Cursor_u8 bs p) (\<lambda>(fallback_policy_raw, p).
     and_then (Cursor_u8 bs p) (\<lambda>(parameter_schema_kind, p).
     and_then (Cursor_u8 bs p) (\<lambda>(flags, p).
     and_then (Cursor_u8 bs p) (\<lambda>(status_raw, p).
     and_then (Cursor_bytes bs p 3) (\<lambda>(reserved0, p).
     if list_ex (\<lambda>b. b \<noteq> 0) reserved0 then Err ReservedNotZero
     else
     and_then (Cursor_u64 bs p) (\<lambda>(required_feature_bit, p).
     and_then (Cursor_u64 bs p) (\<lambda>(optional_feature_bit, p).
     and_then (Cursor_u16 bs p) (\<lambda>(spec_digest_algorithm, p).
     and_then (Cursor_u16 bs p) (\<lambda>(spec_digest_len, p).
     and_then (Cursor_bytes bs p (unat spec_digest_len)) (\<lambda>(spec_digest, p).
     and_then (Cursor_u32 bs p) (\<lambda>(conformance_vector_ref, p).
     and_then (Cursor_u32 bs p) (\<lambda>(fallback_ref, p).
     and_then (Cursor_u32 bs p) (\<lambda>(private_payload_ref, checksum_field_offset).
     and_then (Cursor_u32 bs checksum_field_offset) (\<lambda>(checksum, consumed).
     if crc (put checksum_field_offset (replicate 4 0) (take consumed bs)) \<noteq> checksum then Err ChecksumMismatch
     else
     and_then (ok_or (CodecRequirementV2_from_u8 requirement_raw) BadCodecExtension) (\<lambda>requirement.
     and_then (ok_or (CodecFallbackPolicyV2_from_u8 fallback_policy_raw) BadCodecExtension) (\<lambda>fallback_policy.
     and_then (ok_or (CodecSpecificationStatusV2_from_u8 status_raw) BadCodecExtension) (\<lambda>specification_status.
     let d = \<lparr>ced_codec_id = codec_id, ced_namespace = namespace, ced_name = name, ced_version_major = version_major,
        ced_version_minor = version_minor, ced_codec_family = codec_family, ced_logical_type_mask = logical_type_mask,
        ced_physical_kind_mask = physical_kind_mask, ced_requirement = requirement, ced_fallback_policy = fallback_policy,
        ced_parameter_schema_kind = parameter_schema_kind, ced_flags = flags, ced_specification_status = specification_status,
        ced_required_feature_bit = required_feature_bit, ced_optional_feature_bit = optional_feature_bit,
        ced_spec_digest_algorithm = spec_digest_algorithm, ced_spec_digest = spec_digest,
        ced_conformance_vector_ref = conformance_vector_ref, ced_fallback_ref = fallback_ref,
        ced_private_payload_ref = private_payload_ref, ced_checksum = checksum\<rparr> in
     and_then (CodecExtensionDescriptorV2_validate d) (\<lambda>_. Ok (d, consumed))))))))))))))))))))))))))))))))"

text \<open>The two sets of \<open>validate_descriptor_set\<close>.\<close>

fun distinct_descriptors :: "u32 set \<Rightarrow> (bytes \<times> bytes \<times> u16 \<times> u16) set \<Rightarrow> CodecExtensionDescriptorV2 list \<Rightarrow> unit result" where
  "distinct_descriptors codec_ids identities [] = Ok ()"
| "distinct_descriptors codec_ids identities (d # ds) =
     and_then (CodecExtensionDescriptorV2_validate d) (\<lambda>_.
     if ced_codec_id d \<in> codec_ids then Err BadCodecExtension
     else let identity = (ced_namespace d, ced_name d, ced_version_major d, ced_version_minor d) in
     if identity \<in> identities then Err BadCodecExtension
     else distinct_descriptors (insert (ced_codec_id d) codec_ids) (insert identity identities) ds)"

definition validate_descriptor_set :: "CodecExtensionDescriptorV2 list \<Rightarrow> unit result" where
  "validate_descriptor_set ds = distinct_descriptors {} {} ds"

function parse_descriptor_list :: "(bytes \<Rightarrow> u32) \<Rightarrow> bytes \<Rightarrow> usize \<Rightarrow> CodecExtensionDescriptorV2 list result" where
  "parse_descriptor_list crc bs offset =
     (if offset < length bs then
        and_then (CodecExtensionDescriptorV2_parse_one crc (drop offset bs)) (\<lambda>(d, consumed).
        if consumed = 0 then Err BadCodecExtension
        else and_then (checked_add offset consumed) (\<lambda>offset'.
          map_result ((#) d) (parse_descriptor_list crc bs offset')))
      else Ok [])"
  by pat_completeness auto
termination by (relation "measure (\<lambda>(crc, bs, offset). length bs - offset)") (auto simp: result_simps)

definition CodecExtensionDescriptorV2_parse_many :: "(bytes \<Rightarrow> u32) \<Rightarrow> bytes \<Rightarrow> CodecExtensionDescriptorV2 list result" where
  "CodecExtensionDescriptorV2_parse_many crc bs =
     and_then (parse_descriptor_list crc bs 0) (\<lambda>ds. and_then (validate_descriptor_set ds) (\<lambda>_. Ok ds))"

section \<open>Envelopes\<close>

definition ENVELOPE_LEN :: usize where "ENVELOPE_LEN = 72"

record RegisteredEncodingEnvelopeV2 =
  env_codec_id :: u32
  env_codec_version_major :: u16
  env_codec_version_minor :: u16
  env_logical_len :: u32
  env_non_null_count :: u32
  env_params_offset :: u32
  env_params_length :: u32
  env_encoded_payload_offset :: u64
  env_encoded_payload_length :: u64
  env_fallback_payload_offset :: u64
  env_fallback_payload_length :: u64
  env_decoded_uncompressed_length :: u64
  env_flags :: u32
  env_checksum :: u32

definition RegisteredEncodingEnvelopeV2_image :: "RegisteredEncodingEnvelopeV2 \<Rightarrow> bytes" where
  "RegisteredEncodingEnvelopeV2_image h =
     (let buf = replicate ENVELOPE_LEN 0;
          buf = put 0 (le_bytes 4 (env_codec_id h)) buf;
          buf = put 4 (le_bytes 2 (env_codec_version_major h)) buf;
          buf = put 6 (le_bytes 2 (env_codec_version_minor h)) buf;
          buf = put 8 (le_bytes 4 (env_logical_len h)) buf;
          buf = put 12 (le_bytes 4 (env_non_null_count h)) buf;
          buf = put 16 (le_bytes 4 (env_params_offset h)) buf;
          buf = put 20 (le_bytes 4 (env_params_length h)) buf;
          buf = put 24 (le_bytes 8 (env_encoded_payload_offset h)) buf;
          buf = put 32 (le_bytes 8 (env_encoded_payload_length h)) buf;
          buf = put 40 (le_bytes 8 (env_fallback_payload_offset h)) buf;
          buf = put 48 (le_bytes 8 (env_fallback_payload_length h)) buf;
          buf = put 56 (le_bytes 8 (env_decoded_uncompressed_length h)) buf;
          buf = put 64 (le_bytes 4 (env_flags h)) buf
      in buf)"

definition RegisteredEncodingEnvelopeV2_read :: "bytes \<Rightarrow> RegisteredEncodingEnvelopeV2" where
  "RegisteredEncodingEnvelopeV2_read buf =
     \<lparr>env_codec_id = u32_at buf 0,
      env_codec_version_major = u16_at buf 4,
      env_codec_version_minor = u16_at buf 6,
      env_logical_len = u32_at buf 8,
      env_non_null_count = u32_at buf 12,
      env_params_offset = u32_at buf 16,
      env_params_length = u32_at buf 20,
      env_encoded_payload_offset = u64_at buf 24,
      env_encoded_payload_length = u64_at buf 32,
      env_fallback_payload_offset = u64_at buf 40,
      env_fallback_payload_length = u64_at buf 48,
      env_decoded_uncompressed_length = u64_at buf 56,
      env_flags = u32_at buf 64,
      env_checksum = u32_at buf 68\<rparr>"

definition RegisteredEncodingEnvelopeV2_validate :: "RegisteredEncodingEnvelopeV2 \<Rightarrow> unit result" where
  "RegisteredEncodingEnvelopeV2_validate e =
     (if env_flags e \<noteq> 0 then Err BadCodecExtension
      else if env_non_null_count e > env_logical_len e then Err BadCodecExtension
      else if (env_fallback_payload_offset e = 0) \<noteq> (env_fallback_payload_length e = 0) then Err BadCodecExtension
      else and_then (checked_add (unat (env_params_offset e)) (unat (env_params_length e))) (\<lambda>_.
        and_then (checked_add (unat (env_encoded_payload_offset e)) (unat (env_encoded_payload_length e))) (\<lambda>_.
        if env_fallback_payload_length e \<noteq> 0
        then and_then (checked_add (unat (env_fallback_payload_offset e)) (unat (env_fallback_payload_length e))) (\<lambda>_. Ok ())
        else Ok ())))"

definition RegisteredEncodingEnvelopeV2_serialize :: "(bytes \<Rightarrow> u32) \<Rightarrow> RegisteredEncodingEnvelopeV2 \<Rightarrow> bytes result" where
  "RegisteredEncodingEnvelopeV2_serialize crc h =
     and_then (RegisteredEncodingEnvelopeV2_validate h) (\<lambda>_. Ok (seal crc 68 (RegisteredEncodingEnvelopeV2_image h)))"

definition RegisteredEncodingEnvelopeV2_parse :: "(bytes \<Rightarrow> u32) \<Rightarrow> bytes \<Rightarrow> RegisteredEncodingEnvelopeV2 result" where
  "RegisteredEncodingEnvelopeV2_parse crc buf =
     (if length buf < ENVELOPE_LEN then Err BufferTooShort
      else let buf = slice 0 ENVELOPE_LEN buf; e = RegisteredEncodingEnvelopeV2_read buf in
      if crc (put 68 (replicate 4 0) buf) \<noteq> env_checksum e then Err ChecksumMismatch
      else and_then (RegisteredEncodingEnvelopeV2_validate e) (\<lambda>_. Ok e))"

definition RegisteredEncodingEnvelopeV2_parse_many :: "(bytes \<Rightarrow> u32) \<Rightarrow> bytes \<Rightarrow> RegisteredEncodingEnvelopeV2 list result" where
  "RegisteredEncodingEnvelopeV2_parse_many crc bs =
     (if length bs mod ENVELOPE_LEN \<noteq> 0 then Err BadCodecExtension
      else collect_map (RegisteredEncodingEnvelopeV2_parse crc) (chunks_exact ENVELOPE_LEN bs))"

lemma length_RegisteredEncodingEnvelopeV2_image [simp]: "length (RegisteredEncodingEnvelopeV2_image h) = 72"
  by (simp add: RegisteredEncodingEnvelopeV2_image_def ENVELOPE_LEN_def Let_def)

lemma RegisteredEncodingEnvelopeV2_image_fields:
  "u32_at (RegisteredEncodingEnvelopeV2_image h) 0 = env_codec_id h"
  "u16_at (RegisteredEncodingEnvelopeV2_image h) 4 = env_codec_version_major h"
  "u16_at (RegisteredEncodingEnvelopeV2_image h) 6 = env_codec_version_minor h"
  "u32_at (RegisteredEncodingEnvelopeV2_image h) 8 = env_logical_len h"
  "u32_at (RegisteredEncodingEnvelopeV2_image h) 12 = env_non_null_count h"
  "u32_at (RegisteredEncodingEnvelopeV2_image h) 16 = env_params_offset h"
  "u32_at (RegisteredEncodingEnvelopeV2_image h) 20 = env_params_length h"
  "u64_at (RegisteredEncodingEnvelopeV2_image h) 24 = env_encoded_payload_offset h"
  "u64_at (RegisteredEncodingEnvelopeV2_image h) 32 = env_encoded_payload_length h"
  "u64_at (RegisteredEncodingEnvelopeV2_image h) 40 = env_fallback_payload_offset h"
  "u64_at (RegisteredEncodingEnvelopeV2_image h) 48 = env_fallback_payload_length h"
  "u64_at (RegisteredEncodingEnvelopeV2_image h) 56 = env_decoded_uncompressed_length h"
  "u32_at (RegisteredEncodingEnvelopeV2_image h) 64 = env_flags h"
  "slice 68 4 (RegisteredEncodingEnvelopeV2_image h) = replicate 4 0"
  by (simp_all add: RegisteredEncodingEnvelopeV2_image_def ENVELOPE_LEN_def Let_def wire_simps)

lemma envelope_read_back:
  "RegisteredEncodingEnvelopeV2_read (seal crc 68 (RegisteredEncodingEnvelopeV2_image h)) = h\<lparr>env_checksum := crc (RegisteredEncodingEnvelopeV2_image h)\<rparr>"
  using RegisteredEncodingEnvelopeV2_image_fields [of h]
  by (cases h) (simp add: RegisteredEncodingEnvelopeV2_read_def wire_simps)

lemma envelope_validate_checksum [simp]:
  "RegisteredEncodingEnvelopeV2_validate (h\<lparr>env_checksum := c\<rparr>) = RegisteredEncodingEnvelopeV2_validate h"
  by (simp add: RegisteredEncodingEnvelopeV2_validate_def)

lemma envelope_back:
  assumes "RegisteredEncodingEnvelopeV2_serialize crc h = Ok bs"
  shows "RegisteredEncodingEnvelopeV2_parse crc (bs @ rest) = Ok (h\<lparr>env_checksum := crc (RegisteredEncodingEnvelopeV2_image h)\<rparr>)"
proof -
  let ?s = "seal crc 68 (RegisteredEncodingEnvelopeV2_image h)"
  have v: "RegisteredEncodingEnvelopeV2_validate h = Ok ()" and bs: "bs = ?s"
    using assms by (auto simp: RegisteredEncodingEnvelopeV2_serialize_def result_simps)
  have "slice 0 72 (?s @ rest) = ?s" by (simp add: wire_simps)
  moreover have "put 68 (replicate 4 0) ?s = RegisteredEncodingEnvelopeV2_image h"
    using clear_seal [of 68 "RegisteredEncodingEnvelopeV2_image h" crc] RegisteredEncodingEnvelopeV2_image_fields [of h] by simp
  ultimately show ?thesis using v by (simp add: bs RegisteredEncodingEnvelopeV2_parse_def ENVELOPE_LEN_def Let_def envelope_read_back)
qed

lemma envelope_no_panic [simp]: "RegisteredEncodingEnvelopeV2_parse crc bs \<noteq> Panic"
  by (auto simp: RegisteredEncodingEnvelopeV2_parse_def RegisteredEncodingEnvelopeV2_validate_def Let_def and_then_eq_Panic)

section \<open>Logical pages\<close>

text \<open>The bytes of every row, \<open>None\<close> for a null.\<close>

type_synonym LogicalPage = "bytes option list"

definition utf8_rows :: "LogicalPage \<Rightarrow> bool" where
  "utf8_rows page \<longleftrightarrow> list_all (\<lambda>v. case v of None \<Rightarrow> True | Some bs \<Rightarrow> utf8_valid bs) page"

definition row_of_bytes :: "bytes \<Rightarrow> usize list \<Rightarrow> bytes \<Rightarrow> nat \<Rightarrow> bytes option result" where
  "row_of_bytes null_bitmap offsets payload index =
     (let start = offsets ! index; end' = offsets ! (index + 1) in
      if start > end' \<or> end' > length payload then Err BadCodecExtension
      else let is_null = null_bitmap ! (index div 8) AND push_bit (index mod 8) 1 \<noteq> 0 in
        Ok (if is_null then None else Some (slice start (end' - start) payload)))"

definition decode_row_bytes :: "bytes \<Rightarrow> bytes \<Rightarrow> LogicalPage result" where
  "decode_row_bytes expected_magic bs =
     (if length bs < 16 \<or> slice 0 4 bs \<noteq> expected_magic then Err BadCodecExtension
      else let row_count = unat (u32_at bs 4); null_bitmap_len = unat (u32_at bs 8); offsets_len = unat (u32_at bs 12) in
      if null_bitmap_len \<noteq> (row_count + 7) div 8 \<or> offsets_len \<noteq> (row_count + 1) * 4 then Err BadCodecExtension
      else and_then (checked_add 16 null_bitmap_len) (\<lambda>offsets_start.
      and_then (checked_add offsets_start offsets_len) (\<lambda>payload_start.
      if payload_start > length bs then Err BufferTooShort
      else let null_bitmap = slice 16 (offsets_start - 16) bs;
               offsets = map (\<lambda>c. unat (from_le c :: u32)) (chunks_exact 4 (slice offsets_start (payload_start - offsets_start) bs));
               payload = drop payload_start bs in
      if offsets = [] \<or> hd offsets \<noteq> 0 then Err BadCodecExtension
      else and_then (collect_map (row_of_bytes null_bitmap offsets payload) [0..<row_count]) (\<lambda>values'.
      if row_count mod 8 \<noteq> 0 \<and> null_bitmap \<noteq> []
        \<and> last null_bitmap AND NOT (push_bit (row_count mod 8) 1 - 1) \<noteq> 0 then Err BadCodecExtension
      else Ok values'))))"

section \<open>The codecs of the format\<close>

datatype StableRegisteredCodec = Codec_FsstUtf8 | Codec_AlpFloat | Codec_FastLanesInteger

primrec descriptor_identity :: "StableRegisteredCodec \<Rightarrow> bytes \<times> bytes \<times> u16 \<times> u16" where
  "descriptor_identity Codec_FsstUtf8 = (ascii ''org.coveformat.codec'', ascii ''fsst-utf8'', 2, 0)"
| "descriptor_identity Codec_AlpFloat = (ascii ''org.coveformat.codec'', ascii ''alp-float'', 2, 0)"
| "descriptor_identity Codec_FastLanesInteger = (ascii ''org.coveformat.codec'', ascii ''fastlanes-integer'', 2, 0)"

primrec stable_spec_digest :: "StableRegisteredCodec \<Rightarrow> bytes" where
  "stable_spec_digest Codec_FsstUtf8 = ascii ''COVE-FSST-UTF8-V2-SPEC-DIGEST''"
| "stable_spec_digest Codec_AlpFloat = ascii ''COVE-ALP-FLOAT-V2-SPEC-DIGEST''"
| "stable_spec_digest Codec_FastLanesInteger = ascii ''COVE-FASTLANES-I-V2-SPEC-DIGEST''"

primrec codec_magic :: "StableRegisteredCodec \<Rightarrow> bytes" where
  "codec_magic Codec_FsstUtf8 = ascii ''CFS2''"
| "codec_magic Codec_AlpFloat = ascii ''CAF2''"
| "codec_magic Codec_FastLanesInteger = ascii ''CFI2''"

definition StableRegisteredCodec_decode :: "StableRegisteredCodec \<Rightarrow> bytes \<Rightarrow> LogicalPage result" where
  "StableRegisteredCodec_decode codec payload =
     and_then (decode_row_bytes (codec_magic codec) payload) (\<lambda>page.
     if codec = Codec_FsstUtf8 \<and> \<not> utf8_rows page then Err BadCodecExtension else Ok page)"

definition stable_codec_for_descriptor ::
  "CodecExtensionDescriptorV2 \<Rightarrow> RegisteredEncodingEnvelopeV2 \<Rightarrow> StableRegisteredCodec option" where
  "stable_codec_for_descriptor d e = find (\<lambda>codec.
       ced_codec_id d = env_codec_id e \<and> ced_version_major d = env_codec_version_major e
       \<and> ced_version_minor d = env_codec_version_minor e
       \<and> (ced_namespace d, ced_name d, ced_version_major d, ced_version_minor d) = descriptor_identity codec
       \<and> ced_specification_status d = Spec_StableRegistered \<and> ced_spec_digest d = stable_spec_digest codec)
     [Codec_FsstUtf8, Codec_AlpFloat, Codec_FastLanesInteger]"

text \<open>\<open>RegisteredCodecResolver\<close>\<close>

type_synonym codec_resolver = "CodecExtensionDescriptorV2 \<Rightarrow> RegisteredEncodingEnvelopeV2 \<Rightarrow> bytes \<Rightarrow> LogicalPage result"

definition NoRegisteredCodecResolver :: codec_resolver where
  "NoRegisteredCodecResolver d e payload = Err CodecUnsupported"

definition StableRegisteredCodecResolver :: codec_resolver where
  "StableRegisteredCodecResolver d e payload =
     and_then (ok_or (stable_codec_for_descriptor d e) CodecUnsupported) (\<lambda>codec. StableRegisteredCodec_decode codec payload)"

section \<open>Between logical and column pages\<close>

definition fixed_width_for_logical_type :: "CoveLogicalType \<Rightarrow> usize result" where
  "fixed_width_for_logical_type logical = ok_or (logical_type_fixed_width logical) BadCodecExtension"

primrec fallback_encoding_kind :: "CovePhysicalKind \<Rightarrow> CoveEncodingKind" where
  "fallback_encoding_kind PK_FileCode = EK_FileCode"
| "fallback_encoding_kind PK_NumCode = EK_NumCode"
| "fallback_encoding_kind PK_Boolean = EK_PlainFixed"
| "fallback_encoding_kind PK_FixedBytes = EK_PlainFixed"
| "fallback_encoding_kind PK_VarBytes = EK_VarBytes"
| "fallback_encoding_kind PK_List = EK_Canonical"
| "fallback_encoding_kind PK_Struct = EK_Canonical"
| "fallback_encoding_kind PK_Map = EK_Canonical"

text \<open>The bytes appended for one row.\<close>

definition non_null_value :: "CoveLogicalType \<Rightarrow> CovePhysicalKind \<Rightarrow> u32 option \<Rightarrow> bytes \<Rightarrow> bytes result" where
  "non_null_value logical physical dictionary_len bs = (case physical of
       PK_Boolean \<Rightarrow> if length bs \<noteq> 1 \<or> bs ! 0 > 1 then Err BadCodecExtension else Ok bs
     | PK_NumCode \<Rightarrow> if length bs \<noteq> 8 then Err BadCodecExtension else Ok bs
     | PK_FileCode \<Rightarrow>
         if length bs \<noteq> 4 then Err BadCodecExtension
         else (case dictionary_len of
             Some n \<Rightarrow> if (from_le bs :: u32) \<ge> n then Err BadFileCode else Ok bs
           | None \<Rightarrow> Ok bs)
     | PK_FixedBytes \<Rightarrow> and_then (fixed_width_for_logical_type logical) (\<lambda>expected.
         if length bs \<noteq> expected then Err BadCodecExtension else Ok bs)
     | PK_VarBytes \<Rightarrow> if length bs \<ge> 2 ^ 32 then Err ArithOverflow else Ok (le_bytes 4 (of_nat (length bs) :: u32) @ bs)
     | _ \<Rightarrow> Err BadCodecExtension)"

definition null_placeholder :: "CoveLogicalType \<Rightarrow> CovePhysicalKind \<Rightarrow> bytes result" where
  "null_placeholder logical physical = (case physical of
       PK_Boolean \<Rightarrow> Ok [0]
     | PK_NumCode \<Rightarrow> Ok (le_bytes 8 (0 :: u64))
     | PK_FileCode \<Rightarrow> Ok (le_bytes 4 (0 :: u32))
     | PK_FixedBytes \<Rightarrow> map_result (\<lambda>w. replicate w 0) (fixed_width_for_logical_type logical)
     | PK_VarBytes \<Rightarrow> Ok (le_bytes 4 (0 :: u32))
     | _ \<Rightarrow> Err BadCodecExtension)"

primrec row_bytes :: "CoveLogicalType \<Rightarrow> CovePhysicalKind \<Rightarrow> u32 option \<Rightarrow> bytes option \<Rightarrow> bytes result" where
  "row_bytes logical physical dictionary_len None = null_placeholder logical physical"
| "row_bytes logical physical dictionary_len (Some bs) = non_null_value logical physical dictionary_len bs"

definition mark_null :: "bytes \<Rightarrow> nat \<Rightarrow> bytes" where
  "mark_null null_bitmap index = null_bitmap[index div 8 := null_bitmap ! (index div 8) OR push_bit (index mod 8) 1]"

definition null_bitmap_of :: "LogicalPage \<Rightarrow> bytes" where
  "null_bitmap_of page =
     foldl mark_null (replicate ((length page + 7) div 8) 0) (filter (\<lambda>i. page ! i = None) [0..<length page])"

text \<open>The bitmap and the values are written in one loop over the rows; an error of a row stops both.\<close>

definition logical_page_to_column_payload ::
  "(bytes \<Rightarrow> u32) \<Rightarrow> LogicalPage \<Rightarrow> CoveLogicalType \<Rightarrow> CovePhysicalKind \<Rightarrow> u32 option \<Rightarrow> ColumnPagePayloadV1 result" where
  "logical_page_to_column_payload crc page logical physical dictionary_len =
     (if length page \<ge> 2 ^ 32 then Err ArithOverflow
      else and_then (collect_map (row_bytes logical physical dictionary_len) page) (\<lambda>rows.
      let null_count = length (filter (\<lambda>v. v = None) page) in
      and_then (build_single_node crc (of_nat (length page)) (fallback_encoding_kind physical) logical physical
        (if null_count \<noteq> 0 then Some (null_bitmap_of page) else None) (concat rows)) (ColumnPagePayloadV1_parse crc)))"

definition logical_value :: "u32 option \<Rightarrow> CoveArrayValue \<Rightarrow> bytes option result" where
  "logical_value dictionary_len v = (case v of
       AV_Null \<Rightarrow> Ok None
     | AV_Bytes bs \<Rightarrow> Ok (Some bs)
     | AV_OwnedBytes bs \<Rightarrow> Ok (Some bs)
     | AV_Varint n \<Rightarrow> Ok (Some (le_bytes 8 n))
     | AV_Int64 n \<Rightarrow> Ok (Some (le_bytes 8 n))
     | AV_FileCode code \<Rightarrow> (case dictionary_len of
           Some n \<Rightarrow> if code \<ge> n then Err BadFileCode else Ok (Some (le_bytes 4 code))
         | None \<Rightarrow> Ok (Some (le_bytes 4 code)))
     | AV_NumCode n \<Rightarrow> Ok (Some (le_bytes 8 n))
     | AV_Boolean b \<Rightarrow> Ok (Some [of_bool b])
     | AV_ValidityBit b \<Rightarrow> Ok (Some [of_bool b])
     | AV_DictValue d \<Rightarrow> Err BadCodecExtension)"

definition column_payload_to_logical_page :: "ColumnPagePayloadV1 \<Rightarrow> ColumnPageIndexEntryV1 \<Rightarrow> u32 option \<Rightarrow> LogicalPage result" where
  "column_payload_to_logical_page payload page dictionary_len =
     and_then (root_node payload) (\<lambda>root.
     and_then (buffer_bytes payload Buffer_NullBitmap) (\<lambda>null_bitmap.
     and_then (buffer_bytes payload Buffer_Values) (\<lambda>values'.
     let rows = ucast (cpe_row_count page) :: u64;
         array = EncodedArray_new (en_logical_type root) (en_physical_kind root) rows (en_encoding_kind root)
           (map_option (\<lambda>bitmap. ValidityBitmap_new bitmap rows) null_bitmap) (case values' of Some bs \<Rightarrow> bs | None \<Rightarrow> []) None in
     and_then (EncodedArray_decode_all_rows array) (collect_map (logical_value dictionary_len)))))"

section \<open>Materialization\<close>

definition envelope_range :: "ColumnPagePayloadV1 \<Rightarrow> u64 \<Rightarrow> u64 \<Rightarrow> bytes result" where
  "envelope_range payload offset len = read_range_checked (cpp_data payload) (unat offset) (unat len)"

definition registered_envelope_from_root :: "(bytes \<Rightarrow> u32) \<Rightarrow> ColumnPagePayloadV1 \<Rightarrow> RegisteredEncodingEnvelopeV2 result" where
  "registered_envelope_from_root crc payload =
     and_then (root_node payload) (\<lambda>root.
     if unat (en_params_length root) \<noteq> ENVELOPE_LEN then Err BadCodecExtension
     else and_then (read_range_checked (cpp_data payload) (unat (en_params_offset root)) (unat (en_params_length root))) (\<lambda>params.
     and_then (RegisteredEncodingEnvelopeV2_parse crc params) (\<lambda>envelope.
     if env_params_offset envelope \<noteq> en_params_offset root \<or> env_params_length envelope \<noteq> en_params_length root
     then Err BadCodecExtension
     else Ok envelope)))"

definition validate_envelope_against_page :: "RegisteredEncodingEnvelopeV2 \<Rightarrow> ColumnPageIndexEntryV1 \<Rightarrow> unit result" where
  "validate_envelope_against_page e page =
     (if env_logical_len e \<noteq> cpe_row_count page \<or> env_non_null_count e \<noteq> cpe_non_null_count page then Err BadCodecExtension else Ok ())"

definition parse_fallback_payload ::
  "(bytes \<Rightarrow> u32) \<Rightarrow> ColumnPagePayloadV1 \<Rightarrow> RegisteredEncodingEnvelopeV2 \<Rightarrow> ColumnPageIndexEntryV1 \<Rightarrow> CoveLogicalType \<Rightarrow> CovePhysicalKind
     \<Rightarrow> ColumnPagePayloadV1 result" where
  "parse_fallback_payload crc payload e page logical physical =
     and_then (envelope_range payload (env_fallback_payload_offset e) (env_fallback_payload_length e)) (\<lambda>fallback.
     and_then (ColumnPagePayloadV1_parse crc fallback) (\<lambda>fallback.
     and_then (root_node fallback) (\<lambda>root.
     if en_encoding_kind root = EK_RegisteredEncoding \<or> en_logical_type root \<noteq> logical \<or> en_physical_kind root \<noteq> physical
       \<or> en_logical_len root \<noteq> cpe_row_count page
     then Err BadCodecExtension
     else Ok fallback)))"

record RegisteredPageMaterialization =
  rpm_payload :: ColumnPagePayloadV1
  rpm_used_fallback :: bool

definition use_fallback :: "ColumnPagePayloadV1 option \<Rightarrow> RegisteredPageMaterialization option result" where
  "use_fallback fallback = (case fallback of
       Some payload \<Rightarrow> Ok (Some \<lparr>rpm_payload = payload, rpm_used_fallback = True\<rparr>)
     | None \<Rightarrow> Err CodecUnsupported)"

definition envelope_descriptor :: "RegisteredEncodingEnvelopeV2 \<Rightarrow> CodecExtensionDescriptorV2 list \<Rightarrow> CodecExtensionDescriptorV2 option" where
  "envelope_descriptor e = find (\<lambda>d. ced_codec_id d = env_codec_id e \<and> ced_version_major d = env_codec_version_major e
     \<and> ced_version_minor d = env_codec_version_minor e)"

definition materialize_registered_page_payload ::
  "(bytes \<Rightarrow> u32) \<Rightarrow> ColumnPagePayloadV1 \<Rightarrow> ColumnPageIndexEntryV1 \<Rightarrow> CoveLogicalType \<Rightarrow> CovePhysicalKind \<Rightarrow> CodecExtensionDescriptorV2 list
     \<Rightarrow> codec_resolver \<Rightarrow> u32 option \<Rightarrow> RegisteredPageMaterialization option result" where
  "materialize_registered_page_payload crc payload page logical physical descriptors resolver dictionary_len =
     and_then (root_node payload) (\<lambda>root.
     if en_encoding_kind root \<noteq> EK_RegisteredEncoding then Ok None
     else if en_logical_type root \<noteq> logical \<or> en_physical_kind root \<noteq> physical \<or> en_logical_len root \<noteq> cpe_row_count page
       \<or> cpe_encoding_root page \<noteq> ucast (CoveEncodingKind_code EK_RegisteredEncoding)
     then Err PageCorrupt
     else and_then (registered_envelope_from_root crc payload) (\<lambda>envelope.
     and_then (validate_envelope_against_page envelope page) (\<lambda>_.
     and_then (envelope_range payload (env_encoded_payload_offset envelope) (env_encoded_payload_length envelope)) (\<lambda>encoded_payload.
     and_then (if env_fallback_payload_length envelope = 0 then Ok None
       else map_result Some (parse_fallback_payload crc payload envelope page logical physical)) (\<lambda>fallback_payload.
     and_then (case fallback_payload of
         Some fallback \<Rightarrow> map_result Some (column_payload_to_logical_page fallback page dictionary_len)
       | None \<Rightarrow> Ok None) (\<lambda>fallback_logical.
     case envelope_descriptor envelope descriptors of
         None \<Rightarrow> use_fallback fallback_payload
       | Some descriptor \<Rightarrow> (case resolver descriptor envelope encoded_payload of
             Ok decoded \<Rightarrow>
               and_then (logical_page_to_column_payload crc decoded logical physical dictionary_len) (\<lambda>materialized.
               if (case fallback_logical of Some page' \<Rightarrow> decoded \<noteq> page' | None \<Rightarrow> False) then Err BadCodecExtension
               else Ok (Some \<lparr>rpm_payload = materialized, rpm_used_fallback = False\<rparr>))
           | Err e \<Rightarrow> if e = CodecUnsupported then use_fallback fallback_payload else Err BadCodecExtension
           | Panic \<Rightarrow> Panic)))))))"

definition registered_page_has_fallback :: "(bytes \<Rightarrow> u32) \<Rightarrow> bytes \<Rightarrow> bool result" where
  "registered_page_has_fallback crc payload =
     and_then (ColumnPagePayloadV1_parse crc payload) (\<lambda>payload.
     and_then (root_node payload) (\<lambda>root.
     if en_encoding_kind root \<noteq> EK_RegisteredEncoding then Ok False
     else map_result (\<lambda>e. env_fallback_payload_length e \<noteq> 0) (registered_envelope_from_root crc payload)))"

section \<open>Descriptors are read back\<close>

text \<open>What remains of a buffer at a position.\<close>

definition rest_at :: "bytes \<Rightarrow> usize \<Rightarrow> bytes \<Rightarrow> bool" where
  "rest_at bs p r \<longleftrightarrow> p \<le> length bs \<and> length bs < usize_bound \<and> drop p bs = r"

lemma rest_at_append: "rest_at bs p (xs @ r) \<Longrightarrow> rest_at bs (p + length xs) r"
proof -
  assume a: "rest_at bs p (xs @ r)"
  then have "drop (length xs) (drop p bs) = r" by (simp add: rest_at_def)
  moreover have "length bs - p = length xs + length r" using a by (auto simp: rest_at_def dest: arg_cong [where f = length])
  moreover have "p \<le> length bs" using a by (simp add: rest_at_def)
  ultimately show ?thesis using a by (simp add: rest_at_def add.commute)
qed

lemma rest_at_bytes: "rest_at bs p (xs @ r) \<Longrightarrow> n = length xs \<Longrightarrow> Cursor_bytes bs p n = Ok (xs, p + n)"
proof -
  assume a: "rest_at bs p (xs @ r)" and n: "n = length xs"
  have "p + length xs \<le> length bs" using rest_at_append [OF a] by (simp add: rest_at_def)
  then show ?thesis using a by (simp add: n rest_at_def Cursor_bytes_def checked_add_def slice_def)
qed

text \<open>One read of a cursor, with what remains after it.\<close>

lemma read_bytes_at:
  "rest_at bs p (xs @ r) \<Longrightarrow> n = length xs \<Longrightarrow> (rest_at bs (p + n) r \<Longrightarrow> f (xs, p + n) = z) \<Longrightarrow> and_then (Cursor_bytes bs p n) f = z"
  using rest_at_bytes rest_at_append by (metis and_then.simps(1))

lemma read_u16_at:
  "rest_at bs p (le_bytes 2 w @ r) \<Longrightarrow> (rest_at bs (p + 2) r \<Longrightarrow> f (w, p + 2) = z) \<Longrightarrow> and_then (Cursor_u16 bs p) f = z"
  using rest_at_bytes [of bs p "le_bytes 2 w" r 2] rest_at_append [of bs p "le_bytes 2 w" r]
  by (simp add: Cursor_u16_def from_le_le_bytes)

lemma read_u32_at:
  "rest_at bs p (le_bytes 4 w @ r) \<Longrightarrow> (rest_at bs (p + 4) r \<Longrightarrow> f (w, p + 4) = z) \<Longrightarrow> and_then (Cursor_u32 bs p) f = z"
  using rest_at_bytes [of bs p "le_bytes 4 w" r 4] rest_at_append [of bs p "le_bytes 4 w" r]
  by (simp add: Cursor_u32_def from_le_le_bytes)

lemma read_u64_at:
  "rest_at bs p (le_bytes 8 w @ r) \<Longrightarrow> (rest_at bs (p + 8) r \<Longrightarrow> f (w, p + 8) = z) \<Longrightarrow> and_then (Cursor_u64 bs p) f = z"
  using rest_at_bytes [of bs p "le_bytes 8 w" r 8] rest_at_append [of bs p "le_bytes 8 w" r]
  by (simp add: Cursor_u64_def from_le_le_bytes)

lemma read_u8_at: "rest_at bs p (b # r) \<Longrightarrow> (rest_at bs (p + 1) r \<Longrightarrow> f (b, p + 1) = z) \<Longrightarrow> and_then (Cursor_u8 bs p) f = z"
  using rest_at_bytes [of bs p "[b]" r 1] rest_at_append [of bs p "[b]" r] by (simp add: Cursor_u8_def)

lemma read_3_at:
  "rest_at bs p (a # b # c # r) \<Longrightarrow> (rest_at bs (p + 3) r \<Longrightarrow> f ([a, b, c], p + 3) = z) \<Longrightarrow> and_then (Cursor_bytes bs p 3) f = z"
  by (rule read_bytes_at [where xs = "[a, b, c]" and r = r]) simp_all

lemma put_end: "length xs = length ys \<Longrightarrow> put (length pre) xs (pre @ ys) = pre @ xs"
  by (rule nth_equalityI) (auto simp: nth_put nth_append)

lemma descriptor_serialized:
  "CodecExtensionDescriptorV2_serialize crc d = Ok bs \<longleftrightarrow>
     length (ced_namespace d) < 2 ^ 16 \<and> length (ced_name d) < 2 ^ 16 \<and> length (ced_spec_digest d) < 2 ^ 16
     \<and> CodecExtensionDescriptorV2_validate d = Ok () \<and> bs = descriptor_body d @ le_bytes 4 (crc (descriptor_image d))"
  using put_end [of "le_bytes 4 (crc (descriptor_image d))" "le_bytes 4 (0 :: u32)" "descriptor_body d"]
  by (auto simp: CodecExtensionDescriptorV2_serialize_def result_simps Let_def not_less descriptor_image_def)

lemma validate_checksum_irrelevant [simp]:
  "CodecExtensionDescriptorV2_validate (d\<lparr>ced_checksum := c\<rparr>) = CodecExtensionDescriptorV2_validate d"
  by (simp add: CodecExtensionDescriptorV2_validate_def)

lemma descriptor_rebuilt:
  assumes "CodecExtensionDescriptorV2_validate d = Ok ()"
  shows "(let e = \<lparr>ced_codec_id = ced_codec_id d, ced_namespace = ced_namespace d, ced_name = ced_name d, ced_version_major =
     ced_version_major d, ced_version_minor = ced_version_minor d, ced_codec_family = ced_codec_family d,
     ced_logical_type_mask = ced_logical_type_mask d, ced_physical_kind_mask = ced_physical_kind_mask d, ced_requirement =
     ced_requirement d, ced_fallback_policy = ced_fallback_policy d, ced_parameter_schema_kind = ced_parameter_schema_kind
     d, ced_flags = ced_flags d, ced_specification_status = ced_specification_status d, ced_required_feature_bit =
     ced_required_feature_bit d, ced_optional_feature_bit = ced_optional_feature_bit d, ced_spec_digest_algorithm =
     ced_spec_digest_algorithm d, ced_spec_digest = ced_spec_digest d, ced_conformance_vector_ref =
     ced_conformance_vector_ref d, ced_fallback_ref = ced_fallback_ref d, ced_private_payload_ref = ced_private_payload_ref
     d, ced_checksum = c\<rparr>
     in and_then (CodecExtensionDescriptorV2_validate e) (\<lambda>_. Ok (e, n))) = Ok (d\<lparr>ced_checksum := c\<rparr>, n)"
  using assms validate_checksum_irrelevant [where d = d and c = c] by (cases d) simp

lemma descriptor_back:
  assumes s: "CodecExtensionDescriptorV2_serialize crc d = Ok bs" and u: "utf8_valid (ced_namespace d)" "utf8_valid (ced_name d)"
    and small: "length (bs @ rest) < usize_bound"
  shows "CodecExtensionDescriptorV2_parse_one crc (bs @ rest) = Ok (d\<lparr>ced_checksum := crc (descriptor_image d)\<rparr>, length bs)"
proof -
  let ?c = "crc (descriptor_image d)" and ?t = "bs @ rest"
  have len: "length (ced_namespace d) < 2 ^ 16" "length (ced_name d) < 2 ^ 16" "length (ced_spec_digest d) < 2 ^ 16"
    and v: "CodecExtensionDescriptorV2_validate d = Ok ()" and bs: "bs = descriptor_body d @ le_bytes 4 ?c"
    using s unfolding descriptor_serialized by simp_all
  have un: "unat (of_nat (length (ced_namespace d)) :: u16) = length (ced_namespace d)"
      "unat (of_nat (length (ced_name d)) :: u16) = length (ced_name d)"
      "unat (of_nat (length (ced_spec_digest d)) :: u16) = length (ced_spec_digest d)"
    using len by (simp_all add: unat_of_nat)
  have cut: "crc (put p (replicate 4 0) (take q ?t)) = ?c" if "p + 4 = q" "rest_at ?t q rest" for p q
  proof -
    have q: "q = length bs" using that(2) by (auto simp: rest_at_def dest: arg_cong [where f = length])
    have "put (length (descriptor_body d)) (replicate 4 0) bs = descriptor_body d @ replicate 4 0"
      unfolding bs by (rule put_end) simp
    moreover have "p = length (descriptor_body d)" using that(1) q by (simp add: bs)
    moreover have "le_bytes 4 (0 :: u32) = replicate 4 0" by (simp add: le_bytes_def map_replicate_const)
    ultimately show ?thesis by (simp add: q descriptor_image_def)
  qed
  have start: "rest_at ?t 0 (descriptor_body d @ le_bytes 4 ?c @ rest)" using small by (simp add: rest_at_def bs)
  have consumed: "q = length bs" if "rest_at ?t q rest" for q
    using that by (auto simp: rest_at_def dest: arg_cong [where f = length])
  note step = read_u16_at read_u32_at read_u64_at read_u8_at read_3_at read_bytes_at
  note codes = codecRequirementV2.decode_code codecFallbackPolicyV2.decode_code codecSpecificationStatusV2.decode_code
  show ?thesis
    using start unfolding CodecExtensionDescriptorV2_parse_one_def descriptor_body_def append_assoc append_Cons append_Nil
    apply -
    apply (rule read_u32_at, assumption, simp only: prod.case)
    apply ((rule read_u16_at, assumption, simp only: prod.case, rule read_bytes_at, assumption, rule un,
        simp only: prod.case codec_utf8_def u if_True and_then.simps)+)
    apply ((rule read_u16_at, assumption, simp only: prod.case)+)
    apply ((rule read_u64_at, assumption, simp only: prod.case)+)
    apply ((rule read_u8_at, assumption, simp only: prod.case)+)
    apply (rule read_3_at, assumption, simp only: prod.case, subst if_not_P, simp)
    apply ((rule read_u64_at, assumption, simp only: prod.case)+)
    apply ((rule read_u16_at, assumption, simp only: prod.case)+)
    apply (rule read_bytes_at, assumption, rule un, simp only: prod.case)
    apply ((rule read_u32_at, assumption, simp only: prod.case)+)
    apply (subst if_not_P, simp only: not_not, rule cut, rule refl, assumption)
    apply (drule consumed)
    apply (simp only: codes ok_or_Some and_then.simps)
    apply (rule descriptor_rebuilt [OF v])
    done
qed

lemma parse_descriptor_list_back:
  assumes "collect_map (CodecExtensionDescriptorV2_serialize crc) ds = Ok bss"
    and "\<forall>d\<in>set ds. utf8_valid (ced_namespace d) \<and> utf8_valid (ced_name d)" and "length (pre @ concat bss) < usize_bound"
  shows "parse_descriptor_list crc (pre @ concat bss) (length pre) = Ok (map (\<lambda>d. d\<lparr>ced_checksum := crc (descriptor_image d)\<rparr>) ds)"
  using assms
proof (induction ds arbitrary: bss pre)
  case (Cons d ds)
  then obtain bs rest where bss: "bss = bs # rest" "CodecExtensionDescriptorV2_serialize crc d = Ok bs"
      "collect_map (CodecExtensionDescriptorV2_serialize crc) ds = Ok rest"
    by (auto simp: result_simps)
  have b: "CodecExtensionDescriptorV2_parse_one crc (bs @ concat rest) = Ok (d\<lparr>ced_checksum := crc (descriptor_image d)\<rparr>, length bs)"
    using Cons.prems(2,3) bss by (intro descriptor_back) auto
  have "parse_descriptor_list crc ((pre @ bs) @ concat rest) (length (pre @ bs)) = Ok (map (\<lambda>d. d\<lparr>ced_checksum := crc (descriptor_image d)\<rparr>) ds)"
    using Cons.prems(2,3) bss by (intro Cons.IH) auto
  moreover have "0 < length bs" using bss(2) by (auto simp: descriptor_serialized)
  moreover have "length pre + length bs < usize_bound" using Cons.prems(3) bss(1) by simp
  ultimately show ?case using b
    by (subst parse_descriptor_list.simps) (simp add: bss(1) checked_add_def del: parse_descriptor_list.simps)
qed simp

lemma distinct_descriptors_checksum:
  "distinct_descriptors ids names (map (\<lambda>d. d\<lparr>ced_checksum := f d\<rparr>) ds) = distinct_descriptors ids names ds"
  by (induction ds arbitrary: ids names) (simp_all add: Let_def cong: if_cong)

lemma descriptor_registry_back:
  assumes "validate_descriptor_set ds = Ok ()" "collect_map (CodecExtensionDescriptorV2_serialize crc) ds = Ok bss"
    and "\<forall>d\<in>set ds. utf8_valid (ced_namespace d) \<and> utf8_valid (ced_name d)" and "length (concat bss) < usize_bound"
  shows "CodecExtensionDescriptorV2_parse_many crc (concat bss) = Ok (map (\<lambda>d. d\<lparr>ced_checksum := crc (descriptor_image d)\<rparr>) ds)"
  using parse_descriptor_list_back [of crc ds bss "[]"] assms
  by (simp add: CodecExtensionDescriptorV2_parse_many_def validate_descriptor_set_def distinct_descriptors_checksum
      del: parse_descriptor_list.simps)

lemma codec_parts_no_panic [simp]:
  "CodecExtensionDescriptorV2_validate d \<noteq> Panic" "codec_utf8 bs field \<noteq> Panic" "ok_or v e \<noteq> Panic"
  by (simp_all add: CodecExtensionDescriptorV2_validate_def codec_utf8_def ok_or_def split: option.splits)

lemma parse_one_no_panic [simp]: "CodecExtensionDescriptorV2_parse_one crc bs \<noteq> Panic"
  by (simp add: CodecExtensionDescriptorV2_parse_one_def and_then_eq_Panic split_beta Let_def)

lemma distinct_descriptors_no_panic [simp]: "distinct_descriptors ids names ds \<noteq> Panic"
  by (induction ids names ds rule: distinct_descriptors.induct) (simp_all add: and_then_eq_Panic Let_def)

lemma parse_descriptor_list_no_panic [simp]: "parse_descriptor_list crc bs offset \<noteq> Panic"
proof (induction crc bs offset rule: parse_descriptor_list.induct)
  case (1 crc bs offset)
  then show ?case
    by (subst parse_descriptor_list.simps) (auto simp: and_then_eq_Panic split_beta result_simps simp del: parse_descriptor_list.simps)
qed

lemma descriptors_no_panic [simp]: "CodecExtensionDescriptorV2_parse_many crc bs \<noteq> Panic"
  by (simp add: CodecExtensionDescriptorV2_parse_many_def and_then_eq_Panic validate_descriptor_set_def del: parse_descriptor_list.simps)

section \<open>Materialization preserves the logical page\<close>

text \<open>What a row of a logical page reads as in the column page built from it.\<close>

definition array_value :: "CovePhysicalKind \<Rightarrow> bytes option \<Rightarrow> CoveArrayValue" where
  "array_value physical v = (case v of
       None \<Rightarrow> AV_Null
     | Some bs \<Rightarrow> if physical = PK_NumCode then AV_NumCode (from_le bs)
         else if physical = PK_FileCode then AV_FileCode (from_le bs) else AV_Bytes bs)"

definition page_array :: "LogicalPage \<Rightarrow> CoveLogicalType \<Rightarrow> CovePhysicalKind \<Rightarrow> bytes \<Rightarrow> EncodedArray" where
  "page_array page logical physical data =
     EncodedArray_new logical physical (of_nat (length page)) (fallback_encoding_kind physical)
       (if None \<in> set page then Some (ValidityBitmap_new (null_bitmap_of page) (of_nat (length page))) else None) data None"

lemma mark_null_bits:
  "i div 8 < length bm \<Longrightarrow> bits_at (mark_null bm i) k \<longleftrightarrow> bits_at bm k \<or> k = i" "length (mark_null bm i) = length bm"
  using bits_at_set [of i bm k] by (simp_all add: mark_null_def)

lemma marked_nulls:
  "\<forall>i\<in>set is. i div 8 < length bm \<Longrightarrow>
     length (foldl mark_null bm is) = length bm \<and> (\<forall>k. bits_at (foldl mark_null bm is) k \<longleftrightarrow> bits_at bm k \<or> k \<in> set is)"
  by (induction "is" arbitrary: bm) (auto simp: mark_null_bits)

lemma null_bitmap_bits:
  "length (null_bitmap_of page) = (length page + 7) div 8"
  "bits_at (null_bitmap_of page) k \<longleftrightarrow> k < length page \<and> page ! k = None"
proof -
  let ?is = "filter (\<lambda>i. page ! i = None) [0..<length page]" and ?bm = "replicate ((length page + 7) div 8) (0 :: u8)"
  have "\<forall>i\<in>set ?is. i div 8 < length ?bm" by auto
  from marked_nulls [OF this] show "length (null_bitmap_of page) = (length page + 7) div 8"
    "bits_at (null_bitmap_of page) k \<longleftrightarrow> k < length page \<and> page ! k = None"
    by (simp_all add: null_bitmap_of_def del: set_filter) auto
qed

lemma page_array_fields [simp]:
  "ea_logical (page_array page logical physical data) = logical" "ea_physical (page_array page logical physical data) = physical"
  "ea_encoding (page_array page logical physical data) = fallback_encoding_kind physical" "ea_data (page_array page logical physical data) = data"
  "ea_dictionary (page_array page logical physical data) = None"
  by (simp_all add: page_array_def EncodedArray_new_def)

lemma page_array_rows [simp]: "length page < 2 ^ 32 \<Longrightarrow> unat (ea_row_count (page_array page logical physical data)) = length page"
  by (simp add: page_array_def EncodedArray_new_def unat_of_nat)

lemma page_array_null:
  assumes "length page < 2 ^ 32" "i < length page"
  shows "EncodedArray_is_null (page_array page logical physical data) (of_nat i) = Ok (page ! i = None)"
proof -
  let ?a = "page_array page logical physical data"
  have "unat (of_nat (length page) :: u64) = length page" using assms(1) by (simp add: unat_of_nat)
  then have i: "unat (of_nat i :: u64) = i" "(of_nat i :: u64) < of_nat (length page)" "\<not> (of_nat (length page) :: u64) \<le> of_nat i"
    using row_index [of i ?a] assms by (simp_all add: page_array_def EncodedArray_new_def linorder_not_le)
  have "i div 8 < (length page + 7) div 8" using assms(2) by auto
  then have "ValidityBitmap_is_null (ValidityBitmap_new (null_bitmap_of page) (of_nat (length page))) (of_nat i) = Ok (page ! i = None)"
    using i assms(2) by (simp add: is_null_iff ValidityBitmap_new_def null_bitmap_bits)
  moreover have "page ! i \<noteq> None" if "None \<notin> set page" using that assms(2) by (metis nth_mem)
  ultimately show ?thesis using i(3) by (simp add: EncodedArray_is_null_def page_array_def EncodedArray_new_def)
qed

lemma row_bytes_cases:
  assumes "row_bytes logical physical dl v = Ok bs"
  shows "physical \<in> {PK_Boolean, PK_NumCode, PK_FileCode, PK_FixedBytes, PK_VarBytes}"
    and "physical = PK_NumCode \<Longrightarrow> length bs = 8" and "physical = PK_FileCode \<Longrightarrow> length bs = 4"
    and "physical = PK_Boolean \<Longrightarrow> length bs = 1"
    and "physical = PK_FixedBytes \<Longrightarrow> logical_type_fixed_width logical = Some (length bs)"
    and "physical \<noteq> PK_VarBytes \<Longrightarrow> v = Some xs \<Longrightarrow> bs = xs"
  using assms
  by (cases v; cases physical;
      auto simp: non_null_value_def null_placeholder_def fixed_width_for_logical_type_def result_simps split: if_splits option.splits)+

lemma row_value_back:
  assumes "row_bytes logical physical dl v = Ok bs"
  shows "logical_value dl (array_value physical v) = Ok v"
proof (cases v)
  case (Some xs)
  have "physical \<in> {PK_NumCode, PK_FileCode} \<Longrightarrow> bs = xs" using row_bytes_cases [OF assms] Some by auto
  moreover have "length bs = 8 \<Longrightarrow> le_bytes 8 (from_le bs :: u64) = bs" by (simp add: le_bytes_from_le)
  moreover have "length bs = 4 \<Longrightarrow> le_bytes 4 (from_le bs :: u32) = bs" by (simp add: le_bytes_from_le)
  ultimately show ?thesis using Some assms row_bytes_cases(2,3) [OF assms]
    by (auto simp: array_value_def logical_value_def non_null_value_def split: option.splits if_splits)
qed (simp add: array_value_def logical_value_def)

lemma rows_back: "collect_map (row_bytes logical physical dl) page = Ok rows \<Longrightarrow>
    collect_map (logical_value dl) (map (array_value physical) page) = Ok page"
  by (induction page arbitrary: rows) (auto simp: result_simps row_value_back)

lemma collect_rows_known:
  assumes "length page < 2 ^ 32"
    and "\<And>i xs. i < length page \<Longrightarrow> page ! i = Some xs \<Longrightarrow> decode (of_nat i) = Ok (array_value physical (page ! i))"
  shows "collect_rows (page_array page logical physical data) decode = Ok (map (array_value physical) page)"
proof -
  let ?a = "page_array page logical physical data" and ?v = "\<lambda>row. array_value physical (page ! unat (row :: u64))"
  have "collect_rows ?a decode = Ok (map ?v (array_rows ?a))"
    unfolding collect_rows_def
  proof (rule collect_map_Ok)
    fix row assume "row \<in> set (array_rows ?a)"
    then obtain i where i: "row = of_nat i" "i < length page" using assms(1) by (auto simp: array_rows_def)
    then have "unat row = i" using row_index [of i ?a] assms(1) by simp
    then show "unless_null ?a row (decode row) = Ok (?v row)"
      using assms i page_array_null [of page i logical physical data]
      by (cases "page ! i") (auto simp: unless_null_def array_value_def)
  qed
  moreover have "map ?v (array_rows ?a) = map (array_value physical) page"
    using assms(1) row_index [of _ ?a] by (intro nth_equalityI) (auto simp: array_rows_nth)
  ultimately show ?thesis by simp
qed

lemma fixed_row_at:
  assumes "list_all (\<lambda>bs. length bs = w) rows" "i < length rows" "length (concat rows) < 2 ^ 63"
  shows "i * w + w \<le> length (concat rows)" and "slice (i * w) w (concat rows) = rows ! i"
proof -
  have len: "length (concat rows) = length rows * w" using assms(1) length_concat_uniform [of rows id w] by (auto simp: list_all_iff)
  have "Suc i * w \<le> length rows * w" using assms(2) by (intro mult_le_mono1) simp
  then show "i * w + w \<le> length (concat rows)" by (simp add: len)
  show "slice (i * w) w (concat rows) = rows ! i"
    using slice_concat_uniform [of rows id w i "[]"] assms by (auto simp: list_all_iff)
qed

lemma fixed_rows_decode:
  assumes rows: "collect_map (row_bytes logical physical dl) page = Ok rows" and small: "length page < 2 ^ 32" "length (concat rows) < 2 ^ 63"
    and w: "\<And>v bs. row_bytes logical physical dl v = Ok bs \<Longrightarrow> length bs = w" "physical \<noteq> PK_VarBytes" "0 < w"
    and read: "\<And>row xs. unat row * w + w \<le> length (concat rows) \<Longrightarrow> slice (unat row * w) w (concat rows) = xs \<Longrightarrow> length xs = w \<Longrightarrow>
      decode row = Ok (array_value physical (Some xs))"
  shows "collect_rows (page_array page logical physical (concat rows)) decode = Ok (map (array_value physical) page)"
proof (rule collect_rows_known [OF small(1)])
  fix i xs assume i: "i < length page" "page ! i = Some xs"
  have n: "length rows = length page" using collect_map_length [OF rows] .
  have each: "row_bytes logical physical dl (page ! j) = Ok (rows ! j)" if "j < length page" for j
    using collect_map_nth [OF rows that] .
  have all: "list_all (\<lambda>bs. length bs = w) rows" using each n by (auto simp: list_all_length intro: w(1))
  have "unat (of_nat i :: u64) = i" using i(1) small(1) by (simp add: unat_of_nat)
  moreover have "rows ! i = xs" using row_bytes_cases(6) [OF each [OF i(1)] w(2) i(2)] .
  ultimately show "decode (of_nat i) = Ok (array_value physical (page ! i))"
    using fixed_row_at [OF all _ small(2), of i] i n all read [of "of_nat i" xs] by (auto simp: list_all_length)
qed

lemma varbytes_decode:
  "collect_map (row_bytes logical PK_VarBytes dl) vals = Ok rows \<Longrightarrow> ea_data a = pre @ concat rows \<Longrightarrow> length (ea_data a) < usize_bound \<Longrightarrow>
     length idxs = length vals \<Longrightarrow> \<forall>j<length vals. EncodedArray_is_null a (idxs ! j) = Ok (vals ! j = None) \<Longrightarrow>
     read_rows varbytes_row a idxs (length pre) = Ok (map (array_value PK_VarBytes) vals)"
proof (induction vals arbitrary: rows pre idxs)
  case (Cons v vals)
  then obtain bs rest where rows: "rows = bs # rest" "row_bytes logical PK_VarBytes dl v = Ok bs"
      "collect_map (row_bytes logical PK_VarBytes dl) vals = Ok rest"
    by (auto simp: result_simps)
  obtain idx idxs' where idxs: "idxs = idx # idxs'" "length idxs' = length vals" using Cons.prems(4) by (cases idxs) auto
  define xs where "xs = (case v of None \<Rightarrow> [] | Some xs \<Rightarrow> xs)"
  have bs: "bs = le_bytes 4 (of_nat (length xs) :: u32) @ xs" "length xs < 2 ^ 32"
    using rows(2) by (auto simp: xs_def null_placeholder_def non_null_value_def split: option.splits if_splits)
  let ?d = "ea_data a" and ?p = "length pre"
  have d: "?d = pre @ le_bytes 4 (of_nat (length xs) :: u32) @ xs @ concat rest" using Cons.prems(2) rows(1) bs(1) by simp
  have "read_u32_le ?d ?p = Ok (of_nat (length xs))"
    using Cons.prems(3) by (simp add: d read_u32_le_def read_range_checked_def slice_append_right slice_append_here from_le_le_bytes)
  moreover have "unat (of_nat (length xs) :: u32) = length xs" using bs(2) by (simp add: unat_of_nat)
  moreover have "slice (?p + 4) (length xs) ?d = xs" by (simp add: d slice_append_right slice_append_here)
  then have "read_range_checked ?d (?p + 4) (length xs) = Ok xs" using Cons.prems(3) by (simp add: d read_range_checked_def)
  ultimately have step: "varbytes_row ?d ?p = Ok (AV_Bytes xs, length (pre @ bs))"
    using Cons.prems(3) by (simp add: varbytes_row_def checked_add_def d bs(1) add.assoc)
  have "read_rows varbytes_row a idxs' (length (pre @ bs)) = Ok (map (array_value PK_VarBytes) vals)"
    using Cons.prems rows idxs by (intro Cons.IH) (auto simp: nth_Cons split: nat.splits)
  moreover have "unless_null a idx (Ok (AV_Bytes xs)) = Ok (array_value PK_VarBytes v)"
    using Cons.prems(5) idxs(1) by (cases v) (auto simp: unless_null_def array_value_def xs_def dest: spec [of _ 0])
  ultimately show ?case using step by (simp add: idxs(1))
qed simp

lemma page_decodes:
  assumes rows: "collect_map (row_bytes logical physical dl) page = Ok rows" and small: "length page < 2 ^ 32" "length (concat rows) < 2 ^ 63"
    and kind: "physical \<notin> {PK_List, PK_Struct, PK_Map}" "physical = PK_Boolean \<Longrightarrow> logical = LT_Bool"
  shows "EncodedArray_decode_all_rows (page_array page logical physical (concat rows)) = Ok (map (array_value physical) page)"
proof -
  let ?a = "page_array page logical physical (concat rows)"
  have direct: "EncodedArray_decode_all_rows ?a = collect_rows ?a (decode_present_row ?a)" if "physical \<noteq> PK_VarBytes"
    using that kind(1) by (cases physical) (simp_all add: EncodedArray_decode_all_rows_def decode_i64_page_def)
  have plain: "EncodedArray_decode_all_rows ?a = Ok (map (array_value physical) page)"
    if "physical \<in> {PK_Boolean, PK_FixedBytes}" "logical_type_fixed_width logical = Some w" "0 < w"
      "\<And>v bs. row_bytes logical physical dl v = Ok bs \<Longrightarrow> length bs = w" for w
  proof -
    have e: "fallback_encoding_kind physical = EK_PlainFixed" "physical \<noteq> PK_VarBytes" using that(1) by auto
    have "collect_rows ?a (decode_present_row ?a) = Ok (map (array_value physical) page)"
      by (rule fixed_rows_decode [OF rows small that(4) e(2) that(3)])
        (use that(1,2) small(2) in \<open>auto simp: decode_present_row_def e(1) needs_fixed_width_def fixed_row_def checked_mul_def
          read_range_checked_def array_value_def\<close>)
    then show ?thesis using direct e(2) by simp
  qed
  show ?thesis
  proof (cases physical)
    case PK_NumCode
    have "collect_rows ?a (decode_present_row ?a) = Ok (map (array_value physical) page)"
      by (rule fixed_rows_decode [OF rows small, of 8])
        (use small(2) in \<open>auto simp: PK_NumCode row_bytes_cases(2) decode_present_row_def checked_mul_def read_u64_le_in array_value_def\<close>)
    then show ?thesis using direct PK_NumCode by simp
  next
    case PK_FileCode
    have "collect_rows ?a (decode_present_row ?a) = Ok (map (array_value physical) page)"
      by (rule fixed_rows_decode [OF rows small, of 4])
        (use small(2) in \<open>auto simp: PK_FileCode row_bytes_cases(3) decode_present_row_def checked_mul_def read_u32_le_in array_value_def resolve_code_def\<close>)
    then show ?thesis using direct PK_FileCode by simp
  next
    case PK_Boolean
    then show ?thesis using kind(2) by (intro plain [of 1]) (auto simp: logical_type_fixed_width_def row_bytes_cases(4))
  next
    case PK_FixedBytes
    show ?thesis
    proof (cases "logical_type_fixed_width logical")
      case None
      then have "page = []" using rows PK_FixedBytes by (cases page) (auto simp: result_simps dest: row_bytes_cases(5))
      then show ?thesis using direct PK_FixedBytes small by (simp add: collect_rows_def array_rows_def page_array_def EncodedArray_new_def)
    next
      case (Some w)
      then have "0 < w" by (auto simp: logical_type_fixed_width_def split: if_splits)
      then show ?thesis using PK_FixedBytes Some by (intro plain [of w]) (auto dest: row_bytes_cases(5))
    qed
  next
    case PK_VarBytes
    have "read_rows varbytes_row ?a (array_rows ?a) (length ([] :: bytes)) = Ok (map (array_value PK_VarBytes) page)"
      by (rule varbytes_decode [OF rows [unfolded PK_VarBytes]])
        (use small in \<open>simp_all add: array_rows_nth page_array_null\<close>)
    then show ?thesis by (simp add: EncodedArray_decode_all_rows_def PK_VarBytes)
  qed (use kind in simp_all)
qed

definition logical_page_size :: "LogicalPage \<Rightarrow> nat" where
  "logical_page_size page = sum_list (map (\<lambda>v. case v of None \<Rightarrow> 0 | Some bs \<Rightarrow> length bs) page)"

lemma row_bytes_length: "row_bytes logical physical dl v = Ok bs \<Longrightarrow> length bs \<le> (case v of None \<Rightarrow> 0 | Some bs \<Rightarrow> length bs) + 16"
  by (cases v; cases physical)
    (auto simp: non_null_value_def null_placeholder_def fixed_width_for_logical_type_def logical_type_fixed_width_def result_simps
      split: if_splits option.splits)

lemma rows_length:
  "collect_map (row_bytes logical physical dl) page = Ok rows \<Longrightarrow> length (concat rows) \<le> logical_page_size page + 16 * length page"
proof (induction page arbitrary: rows)
  case (Cons v page)
  then obtain bs rest where r: "rows = bs # rest" "row_bytes logical physical dl v = Ok bs" "collect_map (row_bytes logical physical dl) page = Ok rest"
    by (auto simp: result_simps)
  show ?case using Cons.IH [OF r(3)] row_bytes_length [OF r(2)] by (simp add: r(1) logical_page_size_def)
qed (simp add: logical_page_size_def)

lemma ucast_length: "n < 2 ^ 32 \<Longrightarrow> (ucast (of_nat n :: u32) :: u64) = of_nat n"
proof (rule bit_word_eqI)
  fix k assume n: "n < 2 ^ 32" and k: "k < LENGTH(64)"
  have "k < 32" if "bit n k"
  proof (rule ccontr)
    assume "\<not> k < 32"
    then have "n < 2 ^ k" using n power_increasing [of 32 k "2 :: nat"] by simp
    then show False using that by (simp add: bit_nat_def)
  qed
  then show "bit (ucast (of_nat n :: u32) :: u64) k \<longleftrightarrow> bit (of_nat n :: u64) k" using k by (auto simp: bit_simps)
qed

lemma column_payload_back:
  assumes conv: "logical_page_to_column_payload crc decoded logical physical dl = Ok p" and size: "logical_page_size decoded < 2 ^ 62"
  shows "\<exists>root. root_node p = Ok root \<and> en_encoding_kind root = fallback_encoding_kind physical \<and> en_logical_type root = logical
      \<and> en_physical_kind root = physical \<and> en_logical_len root = of_nat (length decoded)"
    and "physical \<notin> {PK_List, PK_Struct, PK_Map} \<Longrightarrow> (physical = PK_Boolean \<Longrightarrow> logical = LT_Bool) \<Longrightarrow>
      cpe_row_count page = of_nat (length decoded) \<Longrightarrow> column_payload_to_logical_page p page dl = Ok decoded"
proof -
  let ?bm = "if length (filter (\<lambda>v. v = None) decoded) \<noteq> 0 then Some (null_bitmap_of decoded) else None"
  obtain rows where n: "length decoded < 2 ^ 32" and rows: "collect_map (row_bytes logical physical dl) decoded = Ok rows"
    and b: "and_then (build_single_node crc (of_nat (length decoded)) (fallback_encoding_kind physical) logical physical ?bm (concat rows))
      (ColumnPagePayloadV1_parse crc) = Ok p"
    using conv by (auto simp: logical_page_to_column_payload_def result_simps Let_def not_le split: if_splits)
  have bm: "?bm = (if None \<in> set decoded then Some (null_bitmap_of decoded) else None)" by (auto simp: filter_empty_conv)
  have len: "length (concat rows) + length (case ?bm of None \<Rightarrow> [] | Some bs \<Rightarrow> bs) < 2 ^ 63"
  proof -
    define q where "q = length (case ?bm of None \<Rightarrow> [] | Some bs \<Rightarrow> bs)"
    have "q \<le> (length decoded + 7) div 8" by (simp add: q_def null_bitmap_bits)
    then have "q \<le> length decoded + 7" using div_le_dividend [of "length decoded + 7" 8] by (rule le_trans)
    moreover have "length decoded < 4294967296" "logical_page_size decoded < 4611686018427387904" using n size by simp_all
    ultimately have "length (concat rows) + q < 9223372036854775808" using rows_length [OF rows] by linarith
    then show ?thesis by (simp add: q_def)
  qed
  obtain out p' root where built: "build_single_node crc (of_nat (length decoded)) (fallback_encoding_kind physical) logical physical ?bm (concat rows) = Ok out"
      "ColumnPagePayloadV1_parse crc out = Ok p'"
    and p': "buffer_bytes p' Buffer_NullBitmap = Ok ?bm" "buffer_bytes p' Buffer_Values = Ok (if concat rows = [] then None else Some (concat rows))"
    and root': "root_node p' = Ok root" "en_encoding_kind root = fallback_encoding_kind physical" "en_logical_type root = logical"
      "en_physical_kind root = physical" "en_logical_len root = of_nat (length decoded)"
    using single_node_payload_reads_back [OF len, of crc "of_nat (length decoded)" "fallback_encoding_kind physical" logical physical] by blast
  have "p' = p" using b unfolding built and_then.simps by simp
  note p = p' [unfolded this] and root = root' [unfolded this]
  show "\<exists>root. root_node p = Ok root \<and> en_encoding_kind root = fallback_encoding_kind physical \<and> en_logical_type root = logical
      \<and> en_physical_kind root = physical \<and> en_logical_len root = of_nat (length decoded)" using root by blast
  assume kind: "physical \<notin> {PK_List, PK_Struct, PK_Map}" "physical = PK_Boolean \<Longrightarrow> logical = LT_Bool"
    and page: "cpe_row_count page = of_nat (length decoded)"
  have u: "(ucast (of_nat (length decoded) :: u32) :: u64) = of_nat (length decoded)"
    by (rule ucast_length [OF n])
  have arr: "EncodedArray_new logical physical (of_nat (length decoded)) (fallback_encoding_kind physical)
      (map_option (\<lambda>bitmap. ValidityBitmap_new bitmap (of_nat (length decoded))) ?bm)
      (case if concat rows = [] then None else Some (concat rows) of Some bs \<Rightarrow> bs | None \<Rightarrow> []) None = page_array decoded logical physical (concat rows)"
    unfolding bm page_array_def by (cases "concat rows") (simp_all del: concat_eq_Nil_conv)
  have "length (concat rows) < 2 ^ 63" using len by linarith
  then show "column_payload_to_logical_page p page dl = Ok decoded"
    using page_decodes [OF rows n _ kind] rows_back [OF rows]
    unfolding column_payload_to_logical_page_def root(1) p and_then.simps Let_def root page u arr by simp
qed

lemma decode_all_length:
  assumes "EncodedArray_decode_all_rows a = Ok vs"
  shows "length vs = unat (ea_row_count a)"
proof (cases "ea_encoding a = EK_Canonical \<and> ea_logical a = LT_Null")
  case True
  then show ?thesis using assms by (auto simp: EncodedArray_decode_all_rows_def decode_all_canonical_rows_def)
next
  case False
  show ?thesis
    using assms False
    by (cases "ea_encoding a")
      (auto simp: EncodedArray_decode_all_rows_def decode_all_canonical_rows_def decode_i64_page_def collect_rows_def result_simps
        dest!: collect_map_length values_from_each varint_rows.read_rows_each varbytes_rows.read_rows_each canonical_rows.read_rows_each
        split: if_splits)
qed

lemma logical_page_length: "column_payload_to_logical_page p page dl = Ok l \<Longrightarrow> length l = unat (cpe_row_count page)"
proof -
  assume l: "column_payload_to_logical_page p page dl = Ok l"
  have "unat (ucast (cpe_row_count page) :: u64) = unat (cpe_row_count page)"
    using unat_less_power [of "cpe_row_count page"] by (simp add: unsigned_ucast_eq take_bit_nat_eq_self_iff)
  then show "length l = unat (cpe_row_count page)"
    using l by (auto simp: column_payload_to_logical_page_def result_simps Let_def EncodedArray_new_def
        dest!: collect_map_length decode_all_length)
qed

text \<open>What materialization has checked when it returns a page.\<close>

lemma materialized_parts:
  assumes "materialize_registered_page_payload crc payload page logical physical ds resolver dl = Ok (Some m)"
    and "registered_envelope_from_root crc payload = Ok e"
  shows "(env_fallback_payload_length e \<noteq> 0 \<longrightarrow> (\<exists>fallback l. parse_fallback_payload crc payload e page logical physical = Ok fallback
        \<and> column_payload_to_logical_page fallback page dl = Ok l \<and> (rpm_used_fallback m \<longrightarrow> rpm_payload m = fallback)))
    \<and> (env_fallback_payload_length e = 0 \<longrightarrow> \<not> rpm_used_fallback m)
    \<and> (\<not> rpm_used_fallback m \<longrightarrow> (\<exists>d encoded decoded. envelope_descriptor e ds = Some d
        \<and> envelope_range payload (env_encoded_payload_offset e) (env_encoded_payload_length e) = Ok encoded
        \<and> resolver d e encoded = Ok decoded \<and> logical_page_to_column_payload crc decoded logical physical dl = Ok (rpm_payload m)
        \<and> (\<forall>f l. env_fallback_payload_length e \<noteq> 0 \<longrightarrow> parse_fallback_payload crc payload e page logical physical = Ok f \<longrightarrow>
             column_payload_to_logical_page f page dl = Ok l \<longrightarrow> decoded = l)))"
proof -
  obtain encoded fb fl where enc: "envelope_range payload (env_encoded_payload_offset e) (env_encoded_payload_length e) = Ok encoded"
    and fb: "(if env_fallback_payload_length e = 0 then Ok None
       else map_result Some (parse_fallback_payload crc payload e page logical physical)) = Ok fb"
    and fl: "(case fb of Some fallback \<Rightarrow> map_result Some (column_payload_to_logical_page fallback page dl) | None \<Rightarrow> Ok None) = Ok fl"
    and last: "(case envelope_descriptor e ds of None \<Rightarrow> use_fallback fb
       | Some d \<Rightarrow> (case resolver d e encoded of
             Ok decoded \<Rightarrow> and_then (logical_page_to_column_payload crc decoded logical physical dl) (\<lambda>materialized.
               if (case fl of Some page' \<Rightarrow> decoded \<noteq> page' | None \<Rightarrow> False) then Err BadCodecExtension
               else Ok (Some \<lparr>rpm_payload = materialized, rpm_used_fallback = False\<rparr>))
           | Err x \<Rightarrow> if x = CodecUnsupported then use_fallback fb else Err BadCodecExtension
           | Panic \<Rightarrow> Panic)) = Ok (Some m)"
    using assms unfolding materialize_registered_page_payload_def and_then_eq_Ok by (auto simp: and_then_eq_Ok split: if_splits)
  have fallback: "(env_fallback_payload_length e = 0 \<longrightarrow> fb = None) \<and> (env_fallback_payload_length e \<noteq> 0 \<longrightarrow>
      (\<exists>f l. fb = Some f \<and> fl = Some l \<and> parse_fallback_payload crc payload e page logical physical = Ok f
        \<and> column_payload_to_logical_page f page dl = Ok l))"
    using fb fl by (auto simp: map_result_eq_Ok split: if_splits)
  consider "rpm_used_fallback m" "fb = Some (rpm_payload m)"
    | d decoded where "\<not> rpm_used_fallback m" "envelope_descriptor e ds = Some d" "resolver d e encoded = Ok decoded"
        "logical_page_to_column_payload crc decoded logical physical dl = Ok (rpm_payload m)" "\<And>l. fl = Some l \<Longrightarrow> decoded = l"
  proof (cases "envelope_descriptor e ds")
    case None
    then show ?thesis using last that(1) by (auto simp: use_fallback_def split: option.splits)
  next
    case (Some d)
    show ?thesis
    proof (cases "resolver d e encoded")
      case (Ok decoded)
      then show ?thesis using last Some that(2) [OF _ Some Ok] by (auto simp: and_then_eq_Ok split: if_splits option.splits)
    qed (use last Some that(1) in \<open>auto simp: use_fallback_def split: option.splits if_splits\<close>)
  qed
  then show ?thesis using fallback enc by cases auto
qed

text \<open>A materialized page is never registered itself, and what it reads as is what the codec decoded.\<close>

lemma materialized_page_reads_decoded:
  assumes m: "materialize_registered_page_payload crc payload page logical physical ds resolver dl = Ok (Some m)"
    and e: "registered_envelope_from_root crc payload = Ok e" and own: "\<not> rpm_used_fallback m"
    and kind: "physical \<notin> {PK_List, PK_Struct, PK_Map}" "physical = PK_Boolean \<Longrightarrow> logical = LT_Bool"
    and fits: "\<And>d e bs decoded. resolver d e bs = Ok decoded \<Longrightarrow> logical_page_size decoded < 2 ^ 62 \<and> length decoded = unat (cpe_row_count page)"
  shows "\<exists>d encoded decoded root. envelope_descriptor e ds = Some d \<and> resolver d e encoded = Ok decoded
    \<and> column_payload_to_logical_page (rpm_payload m) page dl = Ok decoded \<and> root_node (rpm_payload m) = Ok root
    \<and> en_encoding_kind root \<noteq> EK_RegisteredEncoding \<and> en_logical_len root = cpe_row_count page"
proof -
  obtain d encoded decoded where d: "envelope_descriptor e ds = Some d" "resolver d e encoded = Ok decoded"
      "logical_page_to_column_payload crc decoded logical physical dl = Ok (rpm_payload m)"
    using materialized_parts [OF m e] own by blast
  have f: "logical_page_size decoded < 2 ^ 62" "cpe_row_count page = of_nat (length decoded)" using fits [OF d(2)] by simp_all
  have "fallback_encoding_kind physical \<noteq> EK_RegisteredEncoding" by (cases physical) simp_all
  then show ?thesis using d column_payload_back(1) [OF d(3) f(1)] column_payload_back(2) [OF d(3) f(1) kind f(2)] f(2) by force
qed

text \<open>What a codec decodes fits in memory.\<close>

definition resolver_fits :: "codec_resolver \<Rightarrow> bool" where
  "resolver_fits resolver \<longleftrightarrow> (\<forall>d e bs decoded. resolver d e bs = Ok decoded \<longrightarrow> logical_page_size decoded < 2 ^ 62)"

text \<open>C20: A registered page with a fallback reads the same for every reader that can materialize it, whichever codecs and
  descriptors the reader knows.\<close>

theorem registered_page_codec_independent:
  assumes m: "materialize_registered_page_payload crc payload page logical physical ds1 resolver1 dl = Ok (Some m1)"
      "materialize_registered_page_payload crc payload page logical physical ds2 resolver2 dl = Ok (Some m2)"
    and e: "registered_envelope_from_root crc payload = Ok e" "env_fallback_payload_length e \<noteq> 0"
    and kind: "physical \<notin> {PK_List, PK_Struct, PK_Map}" "physical = PK_Boolean \<Longrightarrow> logical = LT_Bool"
    and fits: "resolver_fits resolver1" "resolver_fits resolver2"
  shows "\<exists>l. column_payload_to_logical_page (rpm_payload m1) page dl = Ok l \<and> column_payload_to_logical_page (rpm_payload m2) page dl = Ok l"
proof -
  obtain f l where f: "parse_fallback_payload crc payload e page logical physical = Ok f" "column_payload_to_logical_page f page dl = Ok l"
    using materialized_parts [OF m(1) e(1)] e(2) by blast
  have "column_payload_to_logical_page (rpm_payload m) page dl = Ok l"
    if mat: "materialize_registered_page_payload crc payload page logical physical ds resolver dl = Ok (Some m)" and "resolver_fits resolver" for m ds resolver
  proof (cases "rpm_used_fallback m")
    case True
    then show ?thesis using materialized_parts [OF mat e(1)] e(2) f by auto
  next
    case False
    obtain d encoded decoded where d: "resolver d e encoded = Ok decoded" "decoded = l"
        "logical_page_to_column_payload crc decoded logical physical dl = Ok (rpm_payload m)"
      using materialized_parts [OF mat e(1)] False e(2) f by auto
    have "cpe_row_count page = of_nat (length decoded)" using logical_page_length [OF f(2)] d(2) by simp
    then show ?thesis using column_payload_back(2) [OF d(3) _ kind] that(2) d(1,2) by (auto simp: resolver_fits_def)
  qed
  then show ?thesis using m fits by blast
qed

section \<open>A registered page with a fallback\<close>

definition sample_row :: bytes where "sample_row = [7, 0, 0, 0, 0, 0, 0, 0]"

definition sample_codec :: CodecExtensionDescriptorV2 where
  "sample_codec = \<lparr>ced_codec_id = 1, ced_namespace = ascii ''org'', ced_name = ascii ''x'', ced_version_major = 2, ced_version_minor = 0,
     ced_codec_family = 0, ced_logical_type_mask = 0, ced_physical_kind_mask = 0, ced_requirement = Req_OptionalWithFallback,
     ced_fallback_policy = Policy_CoreEncodingPayloadPresent, ced_parameter_schema_kind = 0, ced_flags = 0,
     ced_specification_status = Spec_VendorPrivate, ced_required_feature_bit = 0, ced_optional_feature_bit = 0,
     ced_spec_digest_algorithm = 0, ced_spec_digest = [], ced_conformance_vector_ref = 0, ced_fallback_ref = 0,
     ced_private_payload_ref = 0, ced_checksum = 0\<rparr>"

definition sample_envelope :: "nat \<Rightarrow> RegisteredEncodingEnvelopeV2" where
  "sample_envelope n = \<lparr>env_codec_id = 1, env_codec_version_major = 2, env_codec_version_minor = 0, env_logical_len = 1, env_non_null_count = 1,
     env_params_offset = 0, env_params_length = 72, env_encoded_payload_offset = 72, env_encoded_payload_length = 0,
     env_fallback_payload_offset = 72, env_fallback_payload_length = of_nat n, env_decoded_uncompressed_length = 8, env_flags = 0,
     env_checksum = 0\<rparr>"

definition sample_registered :: "bytes \<Rightarrow> ColumnPagePayloadV1" where
  "sample_registered fallback =
     \<lparr>cpp_header = payload_header 0 1 0 1 66 66,
      cpp_nodes = [\<lparr>en_node_id = 0, en_encoding_kind = EK_RegisteredEncoding, en_logical_type = LT_UInt64, en_physical_kind = PK_NumCode,
        en_flags = 0, en_logical_len = 1, en_child_count = 0, en_buffer_count = 0, en_params_offset = 0, en_params_length = 72,
        en_stats_id = 0, en_reserved = 0\<rparr>],
      cpp_buffers = [], cpp_data = seal (\<lambda>_. 0) 68 (RegisteredEncodingEnvelopeV2_image (sample_envelope (length fallback))) @ fallback\<rparr>"

definition sample_registered_entry :: ColumnPageIndexEntryV1 where
  "sample_registered_entry = \<lparr>cpe_column_id = 3, cpe_morsel_id = 0, cpe_row_count = 1, cpe_non_null_count = 1, cpe_null_count = 0,
     cpe_encoding_root = 19, cpe_page_offset = 100, cpe_page_length = 9, cpe_uncompressed_length = 9, cpe_stats_ref = 0,
     cpe_flags = 0, cpe_checksum = 0\<rparr>"

lemma sample_envelope_back:
  assumes "0 < length out" "72 + length out < usize_bound"
  shows "registered_envelope_from_root (\<lambda>_. 0) (sample_registered out) = Ok (sample_envelope (length out))"
proof -
  let ?e = "sample_envelope (length out)" and ?s = "seal (\<lambda>_. 0) 68 (RegisteredEncodingEnvelopeV2_image (sample_envelope (length out)))"
  have u: "unat (of_nat (length out) :: u64) = length out" using assms(2) by (simp add: unat_of_nat)
  have "(of_nat (length out) :: u64) \<noteq> 0" using assms(1) u by (metis less_irrefl unat_0)
  then have "RegisteredEncodingEnvelopeV2_validate ?e = Ok ()"
    using assms u by (simp add: RegisteredEncodingEnvelopeV2_validate_def sample_envelope_def checked_add_def)
  then have "RegisteredEncodingEnvelopeV2_serialize (\<lambda>_. 0) ?e = Ok ?s" by (simp add: RegisteredEncodingEnvelopeV2_serialize_def)
  then have "RegisteredEncodingEnvelopeV2_parse (\<lambda>_. 0) ?s = Ok ?e"
    using envelope_back [of "\<lambda>_. 0" ?e ?s "[]"] by (simp add: sample_envelope_def)
  moreover have "read_range_checked (?s @ out) 0 72 = Ok ?s" using assms(2) by (simp add: read_range_checked_def wire_simps)
  ultimately show ?thesis
    by (simp add: registered_envelope_from_root_def root_node_def unique_node_def sample_registered_def payload_header_def ENVELOPE_LEN_def)
      (simp add: sample_envelope_def)
qed

theorem registered_page_codec_independent_witness:
  "\<exists>out m1 m2. env_fallback_payload_length (sample_envelope (length out)) \<noteq> 0
    \<and> materialize_registered_page_payload (\<lambda>_. 0) (sample_registered out) sample_registered_entry LT_UInt64 PK_NumCode []
        NoRegisteredCodecResolver None = Ok (Some m1)
    \<and> materialize_registered_page_payload (\<lambda>_. 0) (sample_registered out) sample_registered_entry LT_UInt64 PK_NumCode [sample_codec]
        (\<lambda>d e bs. Ok [Some sample_row]) None = Ok (Some m2)
    \<and> rpm_used_fallback m1 \<and> \<not> rpm_used_fallback m2
    \<and> (\<exists>l. column_payload_to_logical_page (rpm_payload m1) sample_registered_entry None = Ok l
        \<and> column_payload_to_logical_page (rpm_payload m2) sample_registered_entry None = Ok l)"
proof -
  obtain out p where build: "build_single_node (\<lambda>_. 0) 1 EK_NumCode LT_UInt64 PK_NumCode None sample_row = Ok out"
      "ColumnPagePayloadV1_parse (\<lambda>_. 0) out = Ok p"
    using single_node_payload_reads_back [of sample_row None "\<lambda>_. 0" 1 EK_NumCode LT_UInt64 PK_NumCode] by (auto simp: sample_row_def)
  have conv: "logical_page_to_column_payload (\<lambda>_. 0) [Some sample_row] LT_UInt64 PK_NumCode None = Ok p"
    using build by (simp add: logical_page_to_column_payload_def non_null_value_def sample_row_def)
  have out: "length out = 106"
    using build(1) by (auto simp: build_single_node_def push_buffer_def write_payload_def sample_row_def Let_def result_simps)
  have size: "logical_page_size [Some sample_row] < 2 ^ 62" by (simp add: logical_page_size_def sample_row_def)
  have read: "column_payload_to_logical_page p sample_registered_entry None = Ok [Some sample_row]"
    by (rule column_payload_back(2) [OF conv size]) (simp_all add: sample_registered_entry_def)
  let ?e = "sample_envelope (length out)" and ?p = "sample_registered out"
  have env: "registered_envelope_from_root (\<lambda>_. 0) ?p = Ok ?e" by (rule sample_envelope_back) (simp_all add: out)
  have root: "root_node ?p = Ok (hd (cpp_nodes ?p))" by (simp add: root_node_def unique_node_def sample_registered_def payload_header_def)
  have fits: "envelope_range ?p 72 0 = Ok []" "envelope_range ?p 72 (of_nat (length out)) = Ok out"
    by (simp_all add: envelope_range_def read_range_checked_def sample_registered_def out wire_simps)
  obtain r where r: "root_node p = Ok r" "en_encoding_kind r = EK_NumCode" "en_logical_type r = LT_UInt64" "en_physical_kind r = PK_NumCode"
      "en_logical_len r = 1"
    using column_payload_back(1) [OF conv size] by auto
  have fallback: "parse_fallback_payload (\<lambda>_. 0) ?p ?e sample_registered_entry LT_UInt64 PK_NumCode = Ok p"
    using fits(2) build(2) r by (simp add: parse_fallback_payload_def sample_envelope_def sample_registered_entry_def)
  have fb: "env_fallback_payload_length ?e \<noteq> 0" by (simp add: sample_envelope_def out)
  have node: "en_encoding_kind (hd (cpp_nodes ?p)) = EK_RegisteredEncoding" "en_logical_type (hd (cpp_nodes ?p)) = LT_UInt64"
      "en_physical_kind (hd (cpp_nodes ?p)) = PK_NumCode" "en_logical_len (hd (cpp_nodes ?p)) = cpe_row_count sample_registered_entry"
      "cpe_encoding_root sample_registered_entry = ucast (CoveEncodingKind_code EK_RegisteredEncoding)"
    by (simp_all add: sample_registered_def sample_registered_entry_def)
  have checked: "validate_envelope_against_page ?e sample_registered_entry = Ok ()"
      "env_encoded_payload_offset ?e = 72" "env_encoded_payload_length ?e = 0"
    by (simp_all add: validate_envelope_against_page_def sample_envelope_def sample_registered_entry_def)
  have mat: "materialize_registered_page_payload (\<lambda>_. 0) ?p sample_registered_entry LT_UInt64 PK_NumCode ds resolver None =
      (case envelope_descriptor ?e ds of None \<Rightarrow> use_fallback (Some p)
       | Some d \<Rightarrow> (case resolver d ?e [] of
             Ok decoded \<Rightarrow> and_then (logical_page_to_column_payload (\<lambda>_. 0) decoded LT_UInt64 PK_NumCode None) (\<lambda>materialized.
               if decoded \<noteq> [Some sample_row] then Err BadCodecExtension
               else Ok (Some \<lparr>rpm_payload = materialized, rpm_used_fallback = False\<rparr>))
           | Err x \<Rightarrow> if x = CodecUnsupported then use_fallback (Some p) else Err BadCodecExtension
           | Panic \<Rightarrow> Panic))" for ds resolver
    unfolding materialize_registered_page_payload_def root and_then.simps node simp_thms if_False env checked fallback fb if_not_P [OF fb]
      map_result.simps option.case read fits(1) ..
  let ?m1 = "\<lparr>rpm_payload = p, rpm_used_fallback = True\<rparr>" and ?m2 = "\<lparr>rpm_payload = p, rpm_used_fallback = False\<rparr>"
  have m1: "materialize_registered_page_payload (\<lambda>_. 0) ?p sample_registered_entry LT_UInt64 PK_NumCode [] NoRegisteredCodecResolver None = Ok (Some ?m1)"
    by (simp add: mat envelope_descriptor_def use_fallback_def)
  have m2: "materialize_registered_page_payload (\<lambda>_. 0) ?p sample_registered_entry LT_UInt64 PK_NumCode [sample_codec] (\<lambda>d e bs. Ok [Some sample_row]) None
      = Ok (Some ?m2)"
    by (simp add: mat envelope_descriptor_def sample_codec_def sample_envelope_def conv)
  have ok: "resolver_fits NoRegisteredCodecResolver" "resolver_fits (\<lambda>d e bs. Ok [Some sample_row])"
    using size by (simp_all add: resolver_fits_def NoRegisteredCodecResolver_def)
  have "\<exists>l. column_payload_to_logical_page (rpm_payload ?m1) sample_registered_entry None = Ok l
      \<and> column_payload_to_logical_page (rpm_payload ?m2) sample_registered_entry None = Ok l"
    by (rule registered_page_codec_independent [OF m1 m2 env fb _ _ ok]) simp_all
  then show ?thesis using m1 m2 fb by (intro exI [of _ out] exI [of _ ?m1] exI [of _ ?m2]) simp
qed

end
