(* ===== verification/Nested_Schema.thy ===== *)
theory Nested_Schema
  imports Table_Catalog
begin

text \<open>
  The child schemas of nested columns (\<open>cove-core/src/nested_schema.rs\<close>): a tree of nodes per List, Struct or Map
  column. The theorems show that a schema section is read back, that the reader returns on every input, and that a
  section fits a catalog exactly when its entries are the nested columns of the catalog.
\<close>

unbundle bit_operations_syntax

section \<open>Nodes\<close>

datatype NestedSchemaNodeV1 = Nested_Node
  (nsn_name: bytes)
  (nsn_logical: CoveLogicalType)
  (nsn_physical: CovePhysicalKind)
  (nsn_nullable: bool)
  (nsn_precision: u16)
  (nsn_scale: "16 word")
  (nsn_collation_id: u16)
  (nsn_flags: u32)
  (nsn_fixed_size_list_len: u32)
  (nsn_children: "NestedSchemaNodeV1 list")

definition NestedSchemaNodeV1_scalar :: "bytes \<Rightarrow> CoveLogicalType \<Rightarrow> CovePhysicalKind \<Rightarrow> bool \<Rightarrow> NestedSchemaNodeV1" where
  "NestedSchemaNodeV1_scalar name logical physical nullable = Nested_Node name logical physical nullable 0 0 0 0 0 []"

definition container_kind :: "CovePhysicalKind \<Rightarrow> bool" where
  "container_kind physical \<longleftrightarrow> physical \<in> {PK_List, PK_Struct, PK_Map}"

definition NestedSchemaNodeV1_is_container :: "NestedSchemaNodeV1 \<Rightarrow> bool" where
  "NestedSchemaNodeV1_is_container n \<longleftrightarrow> container_kind (nsn_physical n)"

fun NestedSchemaNodeV1_encoded_len :: "NestedSchemaNodeV1 \<Rightarrow> usize result" where
  "NestedSchemaNodeV1_encoded_len (Nested_Node name logical physical nullable precision scale collation_id flags len children) =
     and_then (checked_add 2 (length name)) (\<lambda>v.
     and_then (checked_add v (2 + 1 + 1 + 2 + 2 + 2 + 2 + 4 + 4)) (\<lambda>own.
     foldl (\<lambda>acc child. and_then acc (\<lambda>len. and_then child (checked_add len))) (Ok own)
       (map NestedSchemaNodeV1_encoded_len children)))"

fun NestedSchemaNodeV1_write_to :: "NestedSchemaNodeV1 \<Rightarrow> bytes result" where
  "NestedSchemaNodeV1_write_to (Nested_Node name logical physical nullable precision scale collation_id flags len children) =
     (if length name \<ge> 2 ^ 16 then Err (BadSchema ''nested schema name exceeds u16::MAX'')
      else if length children \<ge> 2 ^ 16 then Err (BadSchema ''nested schema has too many children'')
      else and_then (collect_map NestedSchemaNodeV1_write_to children) (\<lambda>written.
        Ok (le_bytes 2 (of_nat (length name) :: u16) @ name @ le_bytes 2 (CoveLogicalType_code logical)
          @ [CovePhysicalKind_code physical] @ [if nullable then 1 else 0] @ le_bytes 2 precision @ le_bytes 2 scale
          @ le_bytes 2 collation_id @ le_bytes 2 (of_nat (length children) :: u16) @ le_bytes 4 flags @ le_bytes 4 len
          @ concat written)))"

text \<open>The reader recurses on the children; the fuel bounds the depth, and running out is a panic.\<close>

fun NestedSchemaNodeV1_read_from :: "nat \<Rightarrow> bytes \<Rightarrow> usize \<Rightarrow> (NestedSchemaNodeV1 \<times> usize) result"
and read_children :: "nat \<Rightarrow> nat \<Rightarrow> bytes \<Rightarrow> usize \<Rightarrow> (NestedSchemaNodeV1 list \<times> usize) result" where
  "NestedSchemaNodeV1_read_from 0 bs pos = Panic"
| "NestedSchemaNodeV1_read_from (Suc fuel) bs pos =
     and_then (read_str bs pos ''nested schema name'') (\<lambda>(name, pos).
     if length bs < pos + 2 + 1 + 1 + 2 + 2 + 2 + 2 + 4 + 4 then Err BufferTooShort
     else and_then (if bs ! (pos + 3) = 0 then Ok False else if bs ! (pos + 3) = 1 then Ok True
       else Err (BadSchema (''nested schema nullable flag must be 0 or 1, got '' @ show_nat (unat (bs ! (pos + 3)))))) (\<lambda>nullable.
     and_then (ok_or (CoveLogicalType_from_u16 (u16_at bs pos))
       (BadSchema (''unknown nested logical type '' @ show_nat (unat (u16_at bs pos))))) (\<lambda>logical.
     and_then (ok_or (CovePhysicalKind_from_u8 (bs ! (pos + 2)))
       (BadSchema (''unknown nested physical kind '' @ show_nat (unat (bs ! (pos + 2)))))) (\<lambda>physical.
     and_then (read_children fuel (unat (u16_at bs (pos + 10))) bs (pos + 20)) (\<lambda>(children, end').
     Ok (Nested_Node name logical physical nullable (u16_at bs (pos + 4)) (u16_at bs (pos + 6)) (u16_at bs (pos + 8))
           (u32_at bs (pos + 12)) (u32_at bs (pos + 16)) children, end'))))))"
| "read_children fuel 0 bs pos = Ok ([], pos)"
| "read_children fuel (Suc k) bs pos =
     and_then (NestedSchemaNodeV1_read_from fuel bs pos) (\<lambda>(n, pos).
     and_then (read_children fuel k bs pos) (\<lambda>(ns, pos). Ok (n # ns, pos)))"

text \<open>Validation of a node and its children.\<close>

lemma try_each_cong [fundef_cong]: "xs = ys \<Longrightarrow> (\<And>x. x \<in> set ys \<Longrightarrow> f x = g x) \<Longrightarrow> try_each f xs = try_each g ys"
  by (induction ys arbitrary: xs) auto

definition show_str :: "bytes \<Rightarrow> string" where
  "show_str bs = map (\<lambda>b. char_of (unat b)) bs"

fun unique_names :: "bytes set \<Rightarrow> NestedSchemaNodeV1 list \<Rightarrow> unit result" where
  "unique_names seen [] = Ok ()"
| "unique_names seen (n # ns) =
     (if nsn_name n \<in> seen
      then Err (BadSchema (''Struct nested schema contains duplicate child name '' @ [CHR 0x27] @ show_str (nsn_name n) @ [CHR 0x27]))
      else unique_names (insert (nsn_name n) seen) ns)"

definition validate_map_children :: "NestedSchemaNodeV1 list \<Rightarrow> unit result" where
  "validate_map_children children =
     (if length children \<noteq> 2 then Err (BadSchema ''Map nested schema node must have exactly key and value children'')
      else let key = children ! 0 in
      if nsn_name key \<noteq> ascii ''key'' then Err (BadSchema ''Map nested schema first child must be named key'')
      else if nsn_nullable key then Err (BadSchema ''Map nested schema keys must be non-null'')
      else if NestedSchemaNodeV1_is_container key then Err (BadSchema ''Map nested schema keys must be scalar'')
      else if nsn_name (children ! 1) \<noteq> ascii ''value'' then Err (BadSchema ''Map nested schema second child must be named value'')
      else Ok ())"

definition validate_shape :: "CovePhysicalKind \<Rightarrow> u32 \<Rightarrow> NestedSchemaNodeV1 list \<Rightarrow> unit result" where
  "validate_shape physical fixed_size_list_len children = (case physical of
       PK_List \<Rightarrow> if length children \<noteq> 1 then Err (BadSchema ''List nested schema node must have exactly one child'') else Ok ()
     | PK_Struct \<Rightarrow> if children = [] then Err (BadSchema ''Struct nested schema node must have at least one child'')
         else unique_names {} children
     | PK_Map \<Rightarrow> validate_map_children children
     | _ \<Rightarrow> if children \<noteq> [] then Err (BadSchema ''Scalar nested schema node must not have children'')
         else if fixed_size_list_len \<noteq> 0 then Err (BadSchema ''fixed_size_list_len is valid only on List nodes'')
         else Ok ())"

fun NestedSchemaNodeV1_validate_node :: "bool \<Rightarrow> NestedSchemaNodeV1 \<Rightarrow> unit result" where
  "NestedSchemaNodeV1_validate_node is_root (Nested_Node name logical physical nullable precision scale collation_id flags len children) =
     (if name = [] then Err (BadSchema ''nested schema node name must not be empty'')
      else and_then (validate_logical_physical_pair_with_options logical physical
        \<lparr>bool_declared_numeric = (flags AND COLUMN_FLAG_BOOL_DECLARED_NUMERIC \<noteq> 0)\<rparr>) (\<lambda>_.
      if is_root \<and> \<not> container_kind physical then Err (BadSchema ''NestedSchema root must be List, Struct, or Map'')
      else and_then (validate_shape physical len children) (\<lambda>_.
      if len \<noteq> 0 \<and> physical \<noteq> PK_List then Err (BadSchema ''fixed_size_list_len is valid only on List nodes'')
      else try_each (NestedSchemaNodeV1_validate_node False) children)))"

definition validate_matches_column :: "NestedSchemaNodeV1 \<Rightarrow> ColumnEntry \<Rightarrow> unit result" where
  "validate_matches_column n c =
     (if nsn_name n \<noteq> col_name c \<or> nsn_logical n \<noteq> col_logical c \<or> nsn_physical n \<noteq> col_physical c \<or> nsn_nullable n \<noteq> col_nullable c
        \<or> nsn_precision n \<noteq> col_precision c \<or> nsn_scale n \<noteq> col_scale c \<or> nsn_collation_id n \<noteq> col_collation_id c \<or> nsn_flags n \<noteq> col_flags c
      then Err (BadSchema (''NestedSchema root does not match table column '' @ show_nat (unat (col_column_id c))))
      else NestedSchemaNodeV1_validate_node True n)"

definition column_uses_nested_schema :: "ColumnEntry \<Rightarrow> bool" where
  "column_uses_nested_schema c \<longleftrightarrow> container_kind (col_physical c)"

section \<open>Sections\<close>

definition NESTED_SCHEMA_MAGIC :: bytes where "NESTED_SCHEMA_MAGIC = [78, 83, 67, 49]"
definition NESTED_SCHEMA_VERSION :: u16 where "NESTED_SCHEMA_VERSION = 1"
definition NESTED_SCHEMA_HEADER_LEN :: usize where "NESTED_SCHEMA_HEADER_LEN = 16"

record NestedSchemaEntryV1 =
  nse_table_id :: u32
  nse_column_id :: u32
  nse_root :: NestedSchemaNodeV1

type_synonym NestedSchemaSectionV1 = "NestedSchemaEntryV1 list"

definition nested_entry_bytes :: "NestedSchemaEntryV1 \<Rightarrow> bytes result" where
  "nested_entry_bytes e =
     map_result (\<lambda>root. le_bytes 4 (nse_table_id e) @ le_bytes 4 (nse_column_id e) @ root) (NestedSchemaNodeV1_write_to (nse_root e))"

definition NestedSchemaSectionV1_serialize :: "NestedSchemaSectionV1 \<Rightarrow> bytes result" where
  "NestedSchemaSectionV1_serialize s =
     (if length s \<ge> 2 ^ 32 then Err (BadSchema ''too many nested schema entries'')
      else and_then (collect_map nested_entry_bytes s) (\<lambda>entries.
        Ok (NESTED_SCHEMA_MAGIC @ le_bytes 2 NESTED_SCHEMA_VERSION @ le_bytes 2 (of_nat NESTED_SCHEMA_HEADER_LEN :: u16)
          @ le_bytes 4 (of_nat (length s) :: u32) @ le_bytes 4 (0 :: u32) @ concat entries)))"

text \<open>The two sets of keys of \<open>validate\<close> and \<open>validate_for_catalog\<close>.\<close>

fun validate_entries :: "(u32 \<times> u32) set \<Rightarrow> NestedSchemaEntryV1 list \<Rightarrow> unit result" where
  "validate_entries seen [] = Ok ()"
| "validate_entries seen (e # es) =
     (if (nse_table_id e, nse_column_id e) \<in> seen
      then Err (BadSchema (''duplicate NestedSchema entry for table '' @ show_nat (unat (nse_table_id e)) @ '' column ''
             @ show_nat (unat (nse_column_id e))))
      else and_then (NestedSchemaNodeV1_validate_node True (nse_root e)) (\<lambda>_.
           validate_entries (insert (nse_table_id e, nse_column_id e) seen) es))"

definition NestedSchemaSectionV1_validate :: "NestedSchemaSectionV1 \<Rightarrow> unit result" where
  "NestedSchemaSectionV1_validate s = validate_entries {} s"

fun read_entries :: "nat \<Rightarrow> nat \<Rightarrow> bytes \<Rightarrow> usize \<Rightarrow> (NestedSchemaEntryV1 list \<times> usize) result" where
  "read_entries fuel 0 bs pos = Ok ([], pos)"
| "read_entries fuel (Suc k) bs pos =
     (if length bs < pos + 8 then Err BufferTooShort
      else and_then (NestedSchemaNodeV1_read_from fuel bs (pos + 8)) (\<lambda>(root, pos').
      and_then (read_entries fuel k bs pos') (\<lambda>(es, end').
      Ok (\<lparr>nse_table_id = u32_at bs pos, nse_column_id = u32_at bs (pos + 4), nse_root = root\<rparr> # es, end'))))"

definition NestedSchemaSectionV1_parse :: "bytes \<Rightarrow> NestedSchemaSectionV1 result" where
  "NestedSchemaSectionV1_parse bs =
     (if length bs < NESTED_SCHEMA_HEADER_LEN then Err BufferTooShort
      else if slice 0 4 bs \<noteq> NESTED_SCHEMA_MAGIC then Err BadMagic
      else if u16_at bs 4 \<noteq> NESTED_SCHEMA_VERSION then Err BadVersion
      else if unat (u16_at bs 6) \<noteq> NESTED_SCHEMA_HEADER_LEN
      then Err (BadSection (''NestedSchema header_len must be '' @ show_nat NESTED_SCHEMA_HEADER_LEN @ '', got '' @ show_nat (unat (u16_at bs 6))))
      else if u32_at bs 12 \<noteq> 0 then Err ReservedNotZero
      else and_then (read_entries (Suc (length bs)) (unat (u32_at bs 8)) bs (unat (u16_at bs 6))) (\<lambda>(entries, pos).
      if pos \<noteq> length bs then Err (BadSection ''NestedSchema section has trailing bytes'')
      else and_then (NestedSchemaSectionV1_validate entries) (\<lambda>_. Ok entries)))"

definition NestedSchemaSectionV1_entry :: "NestedSchemaSectionV1 \<Rightarrow> u32 \<Rightarrow> u32 \<Rightarrow> NestedSchemaEntryV1 option" where
  "NestedSchemaSectionV1_entry s table_id column_id = find (\<lambda>e. nse_table_id e = table_id \<and> nse_column_id e = column_id) s"

text \<open>The \<open>BTreeMap\<close> of the entries keeps the last entry of a key.\<close>

definition entry_map :: "NestedSchemaSectionV1 \<Rightarrow> (u32 \<times> u32) \<Rightarrow> NestedSchemaEntryV1 option" where
  "entry_map s = map_of (rev (map (\<lambda>e. ((nse_table_id e, nse_column_id e), e)) s))"

definition nested_columns :: "TableCatalog \<Rightarrow> ((u32 \<times> u32) \<times> ColumnEntry) list" where
  "nested_columns catalog = concat (map (\<lambda>t. map (\<lambda>c. ((tab_table_id t, col_column_id c), c))
     (filter column_uses_nested_schema (tab_columns t))) (cat_tables catalog))"

definition check_nested_column :: "NestedSchemaSectionV1 \<Rightarrow> (u32 \<times> u32) \<times> ColumnEntry \<Rightarrow> unit result" where
  "check_nested_column s kc = (case kc of (k, c) \<Rightarrow>
     (case entry_map s k of
        None \<Rightarrow> Err (BadSchema (''nested column '' @ show_nat (unat (fst k)) @ ''.'' @ show_nat (unat (snd k)) @ '' is missing NestedSchema metadata''))
      | Some e \<Rightarrow> validate_matches_column (nse_root e) c))"

definition validate_for_catalog :: "NestedSchemaSectionV1 \<Rightarrow> TableCatalog \<Rightarrow> unit result" where
  "validate_for_catalog s catalog =
     and_then (NestedSchemaSectionV1_validate s) (\<lambda>_.
     and_then (try_each (check_nested_column s) (nested_columns catalog)) (\<lambda>_.
     try_each (\<lambda>e. if (nse_table_id e, nse_column_id e) \<notin> fst ` set (nested_columns catalog)
       then Err (BadSchema (''NestedSchema entry references non-nested or missing column '' @ show_nat (unat (nse_table_id e)) @ ''.''
         @ show_nat (unat (nse_column_id e))))
       else Ok ()) s))"

section \<open>Schemas are read back\<close>

primrec names_utf8 :: "NestedSchemaNodeV1 \<Rightarrow> bool" where
  "names_utf8 (Nested_Node name logical physical nullable precision scale collation_id flags len children) \<longleftrightarrow>
     utf8_valid name \<and> list_all (\<lambda>b. b) (map names_utf8 children)"

lemma read_children_back:
  assumes "\<forall>n\<in>set ns. \<forall>w pre rest. NestedSchemaNodeV1_write_to n = Ok w \<longrightarrow> length (pre @ w @ rest) < usize_bound \<longrightarrow> length w \<le> fuel \<longrightarrow>
     NestedSchemaNodeV1_read_from fuel (pre @ w @ rest) (length pre) = Ok (n, length pre + length w)"
  shows "collect_map NestedSchemaNodeV1_write_to ns = Ok ws \<Longrightarrow> length (pre @ concat ws @ rest) < usize_bound \<Longrightarrow> length (concat ws) \<le> fuel \<Longrightarrow>
     read_children fuel (length ns) (pre @ concat ws @ rest) (length pre) = Ok (ns, length pre + length (concat ws))"
  using assms
proof (induction ns arbitrary: ws pre)
  case (Cons n ns)
  obtain w vs where w: "NestedSchemaNodeV1_write_to n = Ok w" "collect_map NestedSchemaNodeV1_write_to ns = Ok vs" "ws = w # vs"
    using Cons.prems(1) by (auto simp: result_simps)
  have "NestedSchemaNodeV1_read_from fuel (pre @ w @ concat vs @ rest) (length pre) = Ok (n, length pre + length w)"
    using Cons.prems(2,3,4) w by simp
  moreover have "read_children fuel (length ns) ((pre @ w) @ concat vs @ rest) (length (pre @ w)) = Ok (ns, length (pre @ w) + length (concat vs))"
    using Cons.prems w by (intro Cons.IH) auto
  ultimately show ?case by (simp add: w(3))
qed simp

lemma node_back:
  "NestedSchemaNodeV1_write_to n = Ok w \<Longrightarrow> names_utf8 n \<Longrightarrow> length (pre @ w @ rest) < usize_bound \<Longrightarrow> length w \<le> fuel \<Longrightarrow>
     NestedSchemaNodeV1_read_from fuel (pre @ w @ rest) (length pre) = Ok (n, length pre + length w)"
proof (induction n arbitrary: w pre rest fuel)
  case (Nested_Node name logical physical nullable precision scale collation_id flags len children)
  obtain ws where small: "length name < 2 ^ 16" "length children < 2 ^ 16" and ws: "collect_map NestedSchemaNodeV1_write_to children = Ok ws"
    and w: "w = le_bytes 2 (of_nat (length name) :: u16) @ name @ le_bytes 2 (CoveLogicalType_code logical)
          @ [CovePhysicalKind_code physical] @ [if nullable then 1 else 0] @ le_bytes 2 precision @ le_bytes 2 scale
          @ le_bytes 2 collation_id @ le_bytes 2 (of_nat (length children) :: u16) @ le_bytes 4 flags @ le_bytes 4 len @ concat ws"
    using Nested_Node.prems(1) by (auto simp: result_simps not_le split: if_splits)
  let ?fixed = "le_bytes 2 (CoveLogicalType_code logical)
          @ [CovePhysicalKind_code physical] @ [if nullable then 1 else 0] @ le_bytes 2 precision @ le_bytes 2 scale
          @ le_bytes 2 collation_id @ le_bytes 2 (of_nat (length children) :: u16) @ le_bytes 4 flags @ le_bytes 4 len"
  let ?pre1 = "pre @ le_bytes 2 (of_nat (length name) :: u16) @ name"
  define bs where "bs = pre @ w @ rest"
  define p where "p = length pre + 2 + length name"
  have lw: "length w = 22 + length name + length (concat ws)" by (simp add: w)
  obtain f where f: "fuel = Suc f" "length (concat ws) \<le> f" using Nested_Node.prems(4) lw by (cases fuel) auto
  have bs: "bs = ?pre1 @ ?fixed @ concat ws @ rest" by (simp add: bs_def w)
  have name: "read_str bs (length pre) what = Ok (name, p)" for what
    using read_str_back [of name pre "?fixed @ concat ws @ rest" what] Nested_Node.prems(2,3) small(1) by (simp add: bs_def p_def w)
  have count: "unat (of_nat (length children) :: u16) = length children" using small(2) by (simp add: unat_of_nat)
  have fields: "u16_at bs p = CoveLogicalType_code logical" "bs ! (p + 2) = CovePhysicalKind_code physical"
      "bs ! (p + 3) = (if nullable then 1 else 0)" "u16_at bs (p + 4) = precision" "u16_at bs (p + 6) = scale"
      "u16_at bs (p + 8) = collation_id" "u16_at bs (p + 10) = of_nat (length children)" "u32_at bs (p + 12) = flags"
      "u32_at bs (p + 16) = len"
    unfolding bs p_def by (simp_all add: wire_simps nth_append)
  have kind: "bs ! Suc (Suc p) = CovePhysicalKind_code physical" using fields(2) by simp
  have "read_children f (length children) ((?pre1 @ ?fixed) @ concat ws @ rest) (length (?pre1 @ ?fixed)) =
      Ok (children, length (?pre1 @ ?fixed) + length (concat ws))"
  proof (rule read_children_back [OF _ ws])
    show "\<forall>n\<in>set children. \<forall>w pre rest. NestedSchemaNodeV1_write_to n = Ok w \<longrightarrow> length (pre @ w @ rest) < usize_bound \<longrightarrow> length w \<le> f \<longrightarrow>
       NestedSchemaNodeV1_read_from f (pre @ w @ rest) (length pre) = Ok (n, length pre + length w)"
      using Nested_Node.IH Nested_Node.prems(2) by (auto simp: list_all_iff)
  qed (use Nested_Node.prems(3) f(2) in \<open>simp_all add: w\<close>)
  moreover have "(?pre1 @ ?fixed) @ concat ws @ rest = bs" "length (?pre1 @ ?fixed) = p + 20" by (simp_all add: bs p_def)
  ultimately have kids: "read_children f (length children) bs (p + 20) = Ok (children, length pre + length w)"
    by (simp only:) (simp add: p_def lw)
  have "p + 20 \<le> length bs" by (simp add: bs p_def)
  then have "NestedSchemaNodeV1_read_from fuel bs (length pre) =
      Ok (Nested_Node name logical physical nullable precision scale collation_id flags len children, length pre + length w)"
    unfolding f(1) NestedSchemaNodeV1_read_from.simps
    by (simp add: name fields kind kids count coveLogicalType.decode_code covePhysicalKind.decode_code)
  then show ?case by (simp only: bs_def)
qed

lemma schema_entries_back:
  "collect_map nested_entry_bytes es = Ok bss \<Longrightarrow> list_all (\<lambda>e. names_utf8 (nse_root e)) es \<Longrightarrow>
     length (pre @ concat bss) < usize_bound \<Longrightarrow> length (concat bss) \<le> fuel \<Longrightarrow>
     read_entries fuel (length es) (pre @ concat bss) (length pre) = Ok (es, length (pre @ concat bss))"
proof (induction es arbitrary: bss pre)
  case (Cons e es)
  obtain x rest where x: "nested_entry_bytes e = Ok x" "collect_map nested_entry_bytes es = Ok rest" "bss = x # rest"
    using Cons.prems(1) by (auto simp: result_simps)
  obtain w where w: "NestedSchemaNodeV1_write_to (nse_root e) = Ok w" "collect_map nested_entry_bytes es = Ok rest"
    and bss: "bss = (le_bytes 4 (nse_table_id e) @ le_bytes 4 (nse_column_id e) @ w) # rest"
    using x by (auto simp: result_simps nested_entry_bytes_def)
  let ?bs = "pre @ concat bss" and ?p = "pre @ le_bytes 4 (nse_table_id e) @ le_bytes 4 (nse_column_id e)"
  have bs: "?bs = ?p @ w @ concat rest" by (simp add: bss)
  have "NestedSchemaNodeV1_read_from fuel (?p @ w @ concat rest) (length ?p) = Ok (nse_root e, length ?p + length w)"
    using Cons.prems(2,3,4) by (intro node_back [OF w(1)]) (simp_all add: bss)
  moreover have "read_entries fuel (length es) ((?p @ w) @ concat rest) (length (?p @ w)) = Ok (es, length ((?p @ w) @ concat rest))"
    using Cons.prems bss by (intro Cons.IH [OF w(2)]) simp_all
  moreover have "u32_at ?bs (length pre) = nse_table_id e" "u32_at ?bs (length pre + 4) = nse_column_id e"
    by (simp_all add: bss wire_simps)
  ultimately show ?case unfolding bs by (simp add: add.commute add.left_commute)
qed simp

lemma nested_schema_back:
  assumes "NestedSchemaSectionV1_serialize s = Ok bs" "NestedSchemaSectionV1_validate s = Ok ()"
    and "list_all (\<lambda>e. names_utf8 (nse_root e)) s" "length bs < usize_bound"
  shows "NestedSchemaSectionV1_parse bs = Ok s"
proof -
  obtain es where n: "length s < 2 ^ 32" and es: "collect_map nested_entry_bytes s = Ok es"
    and bs: "bs = NESTED_SCHEMA_MAGIC @ le_bytes 2 NESTED_SCHEMA_VERSION @ le_bytes 2 (of_nat NESTED_SCHEMA_HEADER_LEN :: u16)
          @ le_bytes 4 (of_nat (length s) :: u32) @ le_bytes 4 (0 :: u32) @ concat es"
    using assms(1) by (auto simp: NestedSchemaSectionV1_serialize_def result_simps not_le split: if_splits)
  let ?h = "NESTED_SCHEMA_MAGIC @ le_bytes 2 NESTED_SCHEMA_VERSION @ le_bytes 2 (of_nat NESTED_SCHEMA_HEADER_LEN :: u16)
          @ le_bytes 4 (of_nat (length s) :: u32) @ le_bytes 4 (0 :: u32)"
  have h: "bs = ?h @ concat es" "length ?h = 16" by (simp_all add: bs NESTED_SCHEMA_MAGIC_def)
  have fields: "slice 0 4 bs = NESTED_SCHEMA_MAGIC" "u16_at bs 4 = NESTED_SCHEMA_VERSION" "unat (u16_at bs 6) = 16"
      "u32_at bs 8 = of_nat (length s)" "u32_at bs 12 = 0"
    unfolding bs by (simp_all add: NESTED_SCHEMA_MAGIC_def NESTED_SCHEMA_HEADER_LEN_def wire_simps slice_def [of 0])
  have "read_entries (Suc (length bs)) (length s) (?h @ concat es) (length ?h) = Ok (s, length (?h @ concat es))"
    using assms(3,4) h by (intro schema_entries_back [OF es]) auto
  then have "read_entries (Suc (length bs)) (length s) bs 16 = Ok (s, length bs)" by (simp only: h(2) h(1) [symmetric])
  moreover have "unat (of_nat (length s) :: u32) = length s" using n by (simp add: unat_of_nat)
  moreover have "16 \<le> length bs" using h by simp
  ultimately show ?thesis
    using assms(2) fields by (simp add: NestedSchemaSectionV1_parse_def NESTED_SCHEMA_HEADER_LEN_def)
qed

text \<open>The reader moves forward and stays inside the buffer.\<close>

lemma children_read_Ok:
  assumes "\<forall>pos n p. NestedSchemaNodeV1_read_from f bs pos = Ok (n, p) \<longrightarrow> pos < p \<and> p \<le> length bs"
  shows "read_children f k bs pos = Ok (ns, p) \<Longrightarrow> pos \<le> length bs \<Longrightarrow> pos \<le> p \<and> p \<le> length bs"
proof (induction k arbitrary: pos ns)
  case (Suc k)
  then obtain n q ms where "NestedSchemaNodeV1_read_from f bs pos = Ok (n, q)" "read_children f k bs q = Ok (ms, p)"
    by (auto simp: result_simps)
  then show ?case using assms Suc.IH [of q ms] by fastforce
qed simp

lemma node_read_Ok: "NestedSchemaNodeV1_read_from f bs pos = Ok (n, p) \<Longrightarrow> pos < p \<and> p \<le> length bs"
proof (induction f arbitrary: pos n p)
  case (Suc f)
  obtain name q k children where s: "read_str bs pos ''nested schema name'' = Ok (name, q)" "q + 20 \<le> length bs"
    and c: "read_children f k bs (q + 20) = Ok (children, p)"
    using Suc.prems by (auto simp: result_simps not_less split: if_splits)
  have "q + 20 \<le> p \<and> p \<le> length bs" using Suc.IH by (intro children_read_Ok [OF _ c s(2)]) blast
  then show ?case using read_str_Ok [OF s(1)] by simp
qed simp

lemma node_read_no_panic: "pos \<le> length bs \<Longrightarrow> length bs - pos < f \<Longrightarrow> NestedSchemaNodeV1_read_from f bs pos \<noteq> Panic"
proof (induction f arbitrary: pos)
  case (Suc f)
  have kids: "read_children f k bs q \<noteq> Panic" if "q \<le> length bs" "length bs - q < f" for k q
    using that
  proof (induction k arbitrary: q)
    case (Suc k)
    have "p \<le> length bs \<and> length bs - p < f" if "NestedSchemaNodeV1_read_from f bs q = Ok (n, p)" for n p
      using node_read_Ok [OF that] Suc.prems by linarith
    then show ?case using Suc \<open>\<And>pos. pos \<le> length bs \<Longrightarrow> length bs - pos < f \<Longrightarrow> NestedSchemaNodeV1_read_from f bs pos \<noteq> Panic\<close>
      by (auto simp: and_then_eq_Panic)
  qed simp
  have "q + 20 \<le> length bs \<Longrightarrow> length bs - (q + 20) < f" if "read_str bs pos what = Ok (name, q)" for what name q
    using read_str_Ok [OF that] Suc.prems by linarith
  then show ?case using kids
    by (auto simp: and_then_eq_Panic ok_or_def not_less split: option.splits)
qed simp

lemma nested_schema_parse_no_panic: "NestedSchemaSectionV1_parse bs \<noteq> Panic"
proof -
  have entries: "read_entries (Suc (length bs)) k bs pos \<noteq> Panic" if "pos \<le> length bs" for k pos
    using that
  proof (induction k arbitrary: pos)
    case (Suc k)
    have "pos + 8 \<le> length bs \<Longrightarrow> NestedSchemaNodeV1_read_from (Suc (length bs)) bs (pos + 8) \<noteq> Panic"
      by (rule node_read_no_panic) simp_all
    moreover have "read_entries (Suc (length bs)) k bs q \<noteq> Panic"
      if "NestedSchemaNodeV1_read_from (Suc (length bs)) bs (pos + 8) = Ok (n, q)" for n q
      using node_read_Ok [OF that] by (intro Suc.IH) simp
    ultimately show ?case by (auto simp: and_then_eq_Panic not_less simp del: NestedSchemaNodeV1_read_from.simps)
  qed simp
  have node: "NestedSchemaNodeV1_validate_node r n \<noteq> Panic" for r n
  proof (induction r n rule: NestedSchemaNodeV1_validate_node.induct)
    case (1 is_root name logical physical nullable precision scale collation_id flags len children)
    have "unique_names seen ns \<noteq> Panic" for seen ns by (induction ns arbitrary: seen) simp_all
    then have "validate_shape physical len children \<noteq> Panic"
      by (simp add: validate_shape_def validate_map_children_def Let_def split: CovePhysicalKind.splits)
    then show ?case using 1 by (auto simp: and_then_eq_Panic intro!: try_each_no_panic)
  qed
  have "validate_entries seen es \<noteq> Panic" for seen es
    by (induction es arbitrary: seen) (simp_all add: and_then_eq_Panic node)
  then show ?thesis using entries
    by (auto simp: NestedSchemaSectionV1_parse_def NESTED_SCHEMA_HEADER_LEN_def and_then_eq_Panic NestedSchemaSectionV1_validate_def)
qed

section \<open>Schemas and the catalog\<close>

text \<open>What a node has to satisfy, without the order of the checks.\<close>

definition nested_shape :: "CovePhysicalKind \<Rightarrow> NestedSchemaNodeV1 list \<Rightarrow> bool" where
  "nested_shape physical children \<longleftrightarrow>
     (physical = PK_List \<longrightarrow> length children = 1)
     \<and> (physical = PK_Struct \<longrightarrow> children \<noteq> [] \<and> distinct (map nsn_name children))
     \<and> (physical = PK_Map \<longrightarrow> length children = 2
          \<and> nsn_name (children ! 0) = ascii ''key'' \<and> \<not> nsn_nullable (children ! 0) \<and> \<not> container_kind (nsn_physical (children ! 0))
          \<and> nsn_name (children ! 1) = ascii ''value'')
     \<and> (\<not> container_kind physical \<longrightarrow> children = [])"

fun nested_wf :: "NestedSchemaNodeV1 \<Rightarrow> bool" where
  "nested_wf (Nested_Node name logical physical nullable precision scale collation_id flags len children) \<longleftrightarrow>
     name \<noteq> [] \<and> pair_ok \<lparr>bool_declared_numeric = (flags AND COLUMN_FLAG_BOOL_DECLARED_NUMERIC \<noteq> 0)\<rparr> logical physical
     \<and> (len \<noteq> 0 \<longrightarrow> physical = PK_List) \<and> nested_shape physical children \<and> (\<forall>c \<in> set children. nested_wf c)"

lemma unique_names_iff: "unique_names seen ns = Ok () \<longleftrightarrow> distinct (map nsn_name ns) \<and> nsn_name ` set ns \<inter> seen = {}"
  by (induction ns arbitrary: seen) auto

lemma validate_shape_iff:
  "validate_shape physical len children = Ok () \<longleftrightarrow> nested_shape physical children \<and> (container_kind physical \<or> len = 0)"
  by (cases physical) (auto simp: validate_shape_def nested_shape_def validate_map_children_def unique_names_iff
      NestedSchemaNodeV1_is_container_def container_kind_def Let_def)

lemma validate_node_iff:
  "NestedSchemaNodeV1_validate_node root n = Ok () \<longleftrightarrow> nested_wf n \<and> (root \<longrightarrow> container_kind (nsn_physical n))"
proof (induction n arbitrary: root)
  case (Nested_Node name logical physical nullable precision scale collation_id flags len children)
  have kids: "list_all (\<lambda>c. NestedSchemaNodeV1_validate_node False c = Ok ()) children \<longleftrightarrow> (\<forall>c \<in> set children. nested_wf c)"
    using Nested_Node.IH by (simp add: list_all_iff)
  have "container_kind PK_List" by (simp add: container_kind_def)
  then show ?case by (auto simp: result_simps validate_shape_iff kids)
qed

definition nested_schema_ok :: "NestedSchemaSectionV1 \<Rightarrow> bool" where
  "nested_schema_ok s \<longleftrightarrow> distinct (map (\<lambda>e. (nse_table_id e, nse_column_id e)) s)
     \<and> list_all (\<lambda>e. nested_wf (nse_root e) \<and> container_kind (nsn_physical (nse_root e))) s"

lemma validate_entries_iff:
  "validate_entries seen es = Ok () \<longleftrightarrow> nested_schema_ok es \<and> (\<lambda>e. (nse_table_id e, nse_column_id e)) ` set es \<inter> seen = {}"
  by (induction es arbitrary: seen) (auto simp: nested_schema_ok_def result_simps validate_node_iff)

lemma entry_map_Some:
  assumes "distinct (map (\<lambda>e. (nse_table_id e, nse_column_id e)) s)"
  shows "entry_map s k = Some e \<longleftrightarrow> e \<in> set s \<and> k = (nse_table_id e, nse_column_id e)"
proof -
  have "distinct (map fst (rev (map (\<lambda>e. ((nse_table_id e, nse_column_id e), e)) s)))"
    using assms by (simp add: comp_def rev_map [symmetric])
  then show ?thesis by (auto simp: entry_map_def map_of_eq_Some_iff)
qed

definition schema_fits_column :: "NestedSchemaNodeV1 \<Rightarrow> ColumnEntry \<Rightarrow> bool" where
  "schema_fits_column n c \<longleftrightarrow> nsn_name n = col_name c \<and> nsn_logical n = col_logical c \<and> nsn_physical n = col_physical c
     \<and> nsn_nullable n = col_nullable c \<and> nsn_precision n = col_precision c \<and> nsn_scale n = col_scale c
     \<and> nsn_collation_id n = col_collation_id c \<and> nsn_flags n = col_flags c"

lemma validate_matches_column_iff:
  "validate_matches_column n c = Ok () \<longleftrightarrow> schema_fits_column n c \<and> NestedSchemaNodeV1_validate_node True n = Ok ()"
  unfolding validate_matches_column_def schema_fits_column_def by (simp add: if_split) blast

text \<open>Matching keyed entries against keyed columns, both ways.\<close>

lemma keyed_match:
  assumes "inj_on key S"
  shows "(\<forall>(k, c) \<in> C. \<exists>e \<in> S. k = key e \<and> P e c) \<and> (\<forall>e \<in> S. key e \<in> fst ` C) \<longleftrightarrow>
     key ` S = fst ` C \<and> (\<forall>(k, c) \<in> C. \<forall>e \<in> S. k = key e \<longrightarrow> P e c)" (is "?A \<and> ?B \<longleftrightarrow> ?D \<and> ?E")
proof (intro iffI conjI)
  assume a: "?A \<and> ?B"
  have A: "\<exists>e \<in> S. k = key e \<and> P e c" if "(k, c) \<in> C" for k c using bspec [OF conjunct1 [OF a] that] by simp
  show "?D"
  proof (intro equalityI subsetI)
    fix k assume "k \<in> key ` S"
    then show "k \<in> fst ` C" using conjunct2 [OF a] by blast
  next
    fix k assume "k \<in> fst ` C"
    then obtain c where "(k, c) \<in> C" by fastforce
    then show "k \<in> key ` S" using A by blast
  qed
  have E: "P e c" if kc: "(k, c) \<in> C" "e \<in> S" "k = key e" for k c e
  proof -
    obtain e' where e': "e' \<in> S" "k = key e'" "P e' c" using A [OF kc(1)] by blast
    have "e' = e" by (rule inj_onD [OF assms trans [OF e'(2) [symmetric] kc(3)] e'(1) kc(2)])
    then show ?thesis using e'(3) by simp
  qed
  show "?E" by clarify (rule E [OF _ _ refl])
next
  assume de: "?D \<and> ?E"
  then have d: "key ` S = fst ` C" by (rule conjunct1)
  have e: "\<forall>e \<in> S. k = key e \<longrightarrow> P e c" if "(k, c) \<in> C" for k c using bspec [OF conjunct2 [OF de] that] by simp
  have A: "\<exists>e \<in> S. k = key e \<and> P e c" if kc: "(k, c) \<in> C" for k c
  proof -
    have "fst (k, c) \<in> fst ` C" using kc by (rule imageI)
    then have "k \<in> key ` S" by (simp only: d fst_conv)
    then obtain e' where "e' \<in> S" "k = key e'" by (rule imageE)
    then show ?thesis using e [OF kc] by blast
  qed
  show "?A" by clarify (rule A)
  show "?B"
  proof
    fix x assume "x \<in> S"
    then have "key x \<in> key ` S" by (rule imageI)
    then show "key x \<in> fst ` C" by (simp only: d)
  qed
qed

definition nested_schema_key :: "NestedSchemaEntryV1 \<Rightarrow> u32 \<times> u32" where
  "nested_schema_key e = (nse_table_id e, nse_column_id e)"

lemma check_nested_column_iff:
  assumes "nested_schema_ok s"
  shows "check_nested_column s (k, c) = Ok () \<longleftrightarrow> (\<exists>e \<in> set s. k = nested_schema_key e \<and> schema_fits_column (nse_root e) c)"
proof -
  have d: "distinct (map (\<lambda>e. (nse_table_id e, nse_column_id e)) s)"
    and ok: "\<And>e. e \<in> set s \<Longrightarrow> NestedSchemaNodeV1_validate_node True (nse_root e) = Ok ()"
    using assms by (auto simp: nested_schema_ok_def list_all_iff validate_node_iff)
  have "check_nested_column s (k, c) = Ok () \<longleftrightarrow>
      (\<exists>e. entry_map s k = Some e \<and> schema_fits_column (nse_root e) c \<and> NestedSchemaNodeV1_validate_node True (nse_root e) = Ok ())"
    by (cases "entry_map s k") (simp_all add: check_nested_column_def validate_matches_column_iff)
  then show ?thesis using ok by (auto simp: entry_map_Some [OF d] nested_schema_key_def)
qed

lemma validate_for_catalog_iff:
  "validate_for_catalog s catalog = Ok () \<longleftrightarrow> nested_schema_ok s
     \<and> (\<forall>(k, c) \<in> set (nested_columns catalog). check_nested_column s (k, c) = Ok ())
     \<and> (\<forall>e \<in> set s. nested_schema_key e \<in> fst ` set (nested_columns catalog))"
proof -
  have "NestedSchemaSectionV1_validate s = Ok () \<longleftrightarrow> nested_schema_ok s" by (simp add: NestedSchemaSectionV1_validate_def validate_entries_iff)
  then show ?thesis
    by (simp add: validate_for_catalog_def result_simps list_all_iff nested_schema_key_def case_prod_beta)
qed

text \<open>C21: A schema section is accepted for a catalog exactly when its entries are valid, have distinct keys, are the nested
  columns of the catalog and no others, and every root has the name and type of its column.\<close>

theorem nested_schema_fits_catalog_exact:
  "validate_for_catalog s catalog = Ok () \<longleftrightarrow> nested_schema_ok s
     \<and> nested_schema_key ` set s = fst ` set (nested_columns catalog)
     \<and> (\<forall>(k, c) \<in> set (nested_columns catalog). \<forall>e \<in> set s. k = nested_schema_key e \<longrightarrow> schema_fits_column (nse_root e) c)"
proof (cases "nested_schema_ok s")
  case True
  have inj: "inj_on nested_schema_key (set s)"
    using True by (simp add: nested_schema_ok_def distinct_map nested_schema_key_def [abs_def])
  show ?thesis
    unfolding validate_for_catalog_iff check_nested_column_iff [OF True]
    by (subst keyed_match [OF inj]) (rule refl)
qed (simp only: validate_for_catalog_iff simp_thms)

definition sample_list_column :: ColumnEntry where
  "sample_list_column = \<lparr>col_column_id = 7, col_name = [105], col_logical = LT_List, col_physical = PK_List, col_nullable = True,
     col_sort_order = 0, col_collation_id = 0, col_precision = 0, col_scale = 0, col_flags = 0\<rparr>"

definition sample_nested_catalog :: TableCatalog where
  "sample_nested_catalog = \<lparr>cat_flags = 0, cat_tables = [\<lparr>tab_table_id = 1, tab_namespace = [], tab_name = [116], tab_row_count = 3,
     tab_primary_sort_key_count = 0, tab_clustering_key_count = 0, tab_flags = 0,
     tab_columns = [sample_column 6 LT_Int64 PK_NumCode, sample_list_column]\<rparr>]\<rparr>"

definition sample_nested_schema :: NestedSchemaSectionV1 where
  "sample_nested_schema = [\<lparr>nse_table_id = 1, nse_column_id = 7, nse_root = Nested_Node [105] LT_List PK_List True 0 0 0 0 0
     [NestedSchemaNodeV1_scalar [101] LT_Int64 PK_NumCode True]\<rparr>]"

theorem nested_schema_fits_catalog_exact_witness:
  "validate_for_catalog sample_nested_schema sample_nested_catalog = Ok () \<and> validate_for_catalog [] sample_nested_catalog \<noteq> Ok ()"
proof -
  have cols: "nested_columns sample_nested_catalog = [((1, 7), sample_list_column)]"
    by (simp add: nested_columns_def sample_nested_catalog_def column_uses_nested_schema_def container_kind_def sample_column_def
        sample_list_column_def)
  have "nested_schema_ok sample_nested_schema"
    by (simp add: nested_schema_ok_def sample_nested_schema_def NestedSchemaNodeV1_scalar_def nested_shape_def container_kind_def
        numeric_logical_def)
  then show ?thesis
    unfolding nested_schema_fits_catalog_exact cols
    by (simp add: sample_nested_schema_def nested_schema_key_def schema_fits_column_def sample_list_column_def)
qed

end
