(* ===== verification/Spec2Isabelle.thy ===== *)
theory Spec2Isabelle
  imports Constants Errors Encodings_Fixed Nested_Layout Local_Codebook Validity Pruning Predicate_Ast Minimal_Writer Durable
    Canonical_Identity Dictionary Table_Catalog Digest Collation Segment_Index Page_Index Page_Payload Encoded_Array Registered_Codec Nested_Schema
begin

text \<open>
  The COVE columnar container format, version 2 (crates \<open>v2/crates/cove-core\<close> and \<open>v2/crates/cove-coverage\<close>).

  A COVE file is a header, a sequence of sections, a footer that lists the sections, and a postscript at
  the end that locates the footer. Sections hold dictionaries, statistics, indexes, feature bindings and
  column pages. A reader finds the postscript, checks every structure against its CRC32C, decides which
  feature bits it can honour, and then uses statistics and indexes to skip zones that cannot contain a
  wanted row. The theories below follow that path; each models one part of the code, in the order of the
  source, and proves the lemmas of that part next to its definitions.

  \<^bold>\<open>Shared ground.\<close>
  \<^item> \<open>Cove_Prelude\<close>: words, byte buffers, slices, little-endian reads and writes, the \<open>result\<close> type with the
    outcomes \<open>Ok\<close>, \<open>Err\<close> and \<open>Panic\<close>, and the collections \<open>result_simps\<close> and \<open>wire_simps\<close>.
  \<^item> \<open>Constants\<close> (\<open>constants.rs\<close>): every enumeration with explicit discriminants, as interpretations of one
    locale of codes. \<open>Errors\<close> (\<open>error.rs\<close>): messages and specification codes. \<open>Wire\<close> (\<open>wire.rs\<close>): LEB128,
    ZigZag and checked ranges.
  \<^item> \<open>Index_Common\<close> (\<open>index/mod.rs\<close>), \<open>Crc_Record\<close> (the readers of \<open>cove-coverage/src/lib.rs\<close>): the checksum field
    of a header, bounded regions, and the bisection of the standard library.

  \<^bold>\<open>The container.\<close>
  \<^item> \<open>Container\<close> (\<open>header.rs\<close>, \<open>postscript.rs\<close>, \<open>footer.rs\<close>, \<open>metadata.rs\<close>), \<open>Compression\<close> (\<open>compression.rs\<close>),
    \<open>Feature_Binding\<close> (\<open>feature_binding.rs\<close>), \<open>Feature_Scope\<close> (\<open>feature_scope.rs\<close>), \<open>Registry\<close> (\<open>registry.rs\<close>).
  \<^item> \<open>Reader\<close> (\<open>reader.rs\<close>, \<open>reader/bootstrap.rs\<close>): \<open>validate_bytes\<close> from the tail of the file to the feature
    scopes; it panics only on a compressed length no buffer can have, accepts only consistent files, and the two pushdown policies differ exactly in
    the optional sections they ignore. \<open>Minimal_Writer\<close> (\<open>writer.rs\<close>, \<open>writer/minimal.rs\<close>): what the writer
    produces, the reader accepts.
  \<^item> \<open>File_System\<close> and \<open>Durable\<close> (\<open>durable.rs\<close>): a step relation for POSIX system calls and crashes, and the
    publication protocol on it: the final path holds the old or the complete new contents at every moment.

  \<^bold>\<open>Values and pages.\<close>
  \<^item> \<open>Canonical\<close>, \<open>Canonical_Identity\<close> (\<open>canonical.rs\<close>): the encoding that identifies values, its validator, and
    injectivity up to a normal form. \<open>Dictionary\<close> (\<open>dictionary.rs\<close>): FileCodes, their builder and both readers.
  \<^item> \<open>Encoding\<close>, \<open>Encodings_Fixed\<close>, \<open>Encodings_Runs\<close>, \<open>Bit_Packed\<close>, \<open>Local_Codebook\<close>, \<open>Nested_Layout\<close>
    (\<open>encoding/\<close>), \<open>Validity\<close> (\<open>validity.rs\<close>): page payloads. The trait \<open>Encoding\<close> is a locale, interpreted on
    each payload; fast decoders equal the canonical ones.
  \<^item> \<open>Types\<close>, \<open>Table_Catalog\<close> (\<open>types.rs\<close>, \<open>table.rs\<close>): compatible types and the catalog of tables.
    \<open>Nested_Schema\<close> (\<open>nested_schema.rs\<close>): a schema section fits a catalog exactly when its entries are the
    nested columns of the catalog. \<open>Segment_Index\<close>
    (\<open>segment.rs\<close>): in an accepted index every row of a table lies in exactly one segment. \<open>Page_Index\<close>
    (\<open>page.rs\<close>, the page codec of \<open>compression.rs\<close>) and \<open>Page_Payload\<close> (\<open>page_payload.rs\<close>): the encoding tree of a
    page is the preorder listing of its nodes, and what the builders write is read back. \<open>Encoded_Array\<close>
    (\<open>array.rs\<close>): the three ways to read the rows of a page agree. \<open>Registered_Codec\<close> (\<open>codec.rs\<close>): descriptors
    and envelopes of registered codecs; a page with a fallback reads the same whichever codecs the reader knows.
  \<^item> \<open>Collation\<close> (\<open>collation.rs\<close>): the comparisons are total orders. \<open>Digest\<close> (\<open>digest.rs\<close>,
    \<open>reader/digest_verification.rs\<close>): what verification of a file by its digest manifests guarantees.

  \<^bold>\<open>Statistics, indexes and pruning.\<close>
  \<^item> \<open>Zone_Outcome\<close> (\<open>predicate.rs\<close>): outcomes against three-valued rows. \<open>Zone_Stats\<close> (\<open>zone_stats.rs\<close>),
    \<open>Column_Domain\<close> (\<open>domain.rs\<close>), \<open>Exact_Set\<close>, \<open>Bloom\<close>, \<open>Inverted\<close>, \<open>Lookup\<close>, \<open>Row_Ref\<close> (\<open>index/\<close>,
    \<open>row_ref.rs\<close>).
  \<^item> \<open>Pruning\<close> (\<open>pruning.rs\<close>): a zone is skipped only if no row can match, and taken whole only if all rows
    match. Where the code breaks this, the theorem exhibits the zone.

  \<^bold>\<open>Coverage.\<close>
  \<^item> \<open>Coverage_Types\<close>, \<open>Coverage_Set\<close>, \<open>Coverage_Algebra\<close>, \<open>Coverage_Records\<close>, \<open>Predicate_Forms\<close>,
    \<open>Predicate_Ast\<close> (\<open>cove-coverage/src/lib.rs\<close>): sets of row ranges and their algebra, proof records bound to a
    set by checksums, predicate forms, and ASTs with their cycle search.

  \<^bold>\<open>Interfaces.\<close> The locales state what a client relies on: codes of enumerations, encodings of payloads,
  sealed records, prefix codes, counted entries, bisection on a comparison. Each is interpreted on the model
  of the code that provides it.

  \<^bold>\<open>Conventions.\<close> Records and enumerations keep the names of the source, with a prefix per record on the
  fields. \<open>usize\<close> is \<open>nat\<close> below \<open>2 ^ 64\<close>, with checked arithmetic where the code checks it; a slice out of
  range is \<open>Panic\<close>, so that freedom from panics is a theorem. Strings are UTF-8 bytes, floats are their bit
  patterns. Loops are recursive functions; the search of \<open>Predicate_Ast\<close> has fuel one above the number of
  nodes, which is shown to be enough, and the canonical validator recurses on the bytes that remain. Bit
  packing is proved for pages below \<open>2 ^ 26\<close> values, counts that are 32 bits on the wire are bounded by that.

  \<^bold>\<open>Parameters.\<close> CRC32C (crate \<open>crc32c\<close>), LZ4 and Zstd, the JSON parser and the cryptographic hashes are
  third-party code: arguments of the definitions, mostly without any hypothesis. Where the writer's files are read
  back, LZ4 and Zstd decompress what they compressed; where panics are excluded, they report malformed input as an
  error (\<open>codecs_return\<close>), for lengths a buffer can have. A resolver of registered codecs is an argument as well,
  assumed only to return pages that fit in memory. The file system is what POSIX promises of it.

  \<^bold>\<open>Not modelled.\<close> Stack depth and memory exhaustion: a reader reserves a vector for the count an input
  declares, and the allocation may fail. The capacity itself is modelled where it is an unchecked 64-bit length
  of the file, the uncompressed length of a Zstd payload: above \<open>isize::MAX\<close> it is a panic. Reading and writing files outside the durable protocol. The third-party engines behind
  \<open>cove-arrow\<close> and \<open>cove-datafusion\<close>, the mapping language of \<open>cove-map\<close>, the command line tools, the corpora and
  benchmarks, and the version 1 crates, whose shared files are those of version 2 up to a few lines.
  Inside \<open>cove-core\<close>: page validation, the aggregate, composite and top-N indexes, the profile validators,
  mounting, and the scan writer, which rest on the page payloads modelled here.
\<close>

end
